(* ===== verification/Prelude.thy ===== *)
theory Prelude
  imports Complex_Main "HOL-Library.Word"
begin

section \<open>Prelude: bytes, results, big-endian numbers, insertion-ordered maps\<close>

text \<open>
  What every component shares. A JavaScript \<open>Uint8Array\<close> is a list of 8-bit words
  (\<open>bytes\<close>). A function that throws returns a sum, \<open>Inl\<close> the error; \<open>then_ok\<close> sequences
  two of them. \<open>be_enc\<close> and \<open>be_dec\<close> are the big-endian accessors of a \<open>DataView\<close>, and
  \<open>jm_get\<close>, \<open>jm_set\<close>, \<open>jm_del\<close> are \<open>Map.get\<close>, \<open>Map.set\<close> and \<open>Map.delete\<close> of a
  JavaScript \<open>Map\<close>, which keeps its insertion order: an association list whose keys are
  distinct, where setting a present key updates it in place.
\<close>

named_theorems ok_simps \<open>inversion rules of the result type\<close>
named_theorems len_simps \<open>lengths of encoded byte runs\<close>

type_synonym byte = "8 word"
type_synonym bytes = "byte list"

subsection \<open>Results\<close>

definition then_ok :: "'e + 'a \<Rightarrow> ('a \<Rightarrow> 'e + 'b) \<Rightarrow> 'e + 'b" where
  "then_ok m f = (case m of Inl e \<Rightarrow> Inl e | Inr x \<Rightarrow> f x)"

definition check :: "bool \<Rightarrow> 'e \<Rightarrow> 'e + unit" where
  "check p e = (if p then Inr () else Inl e)"

definition from_option :: "'e \<Rightarrow> 'a option \<Rightarrow> 'e + 'a" where
  "from_option e m = (case m of None \<Rightarrow> Inl e | Some x \<Rightarrow> Inr x)"

definition is_ok :: "'e + 'a \<Rightarrow> bool" where
  "is_ok m = (case m of Inl _ \<Rightarrow> False | Inr _ \<Rightarrow> True)"

lemma then_ok_simps [simp]:
  "then_ok (Inl e) f = Inl e"
  "then_ok (Inr x) f = f x"
  by (simp_all add: then_ok_def)

lemma then_ok_Inr [ok_simps]: "then_ok m f = Inr y \<longleftrightarrow> (\<exists>x. m = Inr x \<and> f x = Inr y)"
  by (cases m) auto

lemma then_ok_Inl [ok_simps]:
  "then_ok m f = Inl e \<longleftrightarrow> m = Inl e \<or> (\<exists>x. m = Inr x \<and> f x = Inl e)"
  by (cases m) auto

lemma check_simps [simp]:
  "check True e = Inr ()"
  "check False e = Inl e"
  by (simp_all add: check_def)

lemma check_Inr [ok_simps]: "check p e = Inr u \<longleftrightarrow> p"
  by (simp add: check_def)

lemma check_Inl [ok_simps]: "check p e = Inl e' \<longleftrightarrow> \<not> p \<and> e' = e"
  by (auto simp: check_def)

lemma from_option_simps [simp]:
  "from_option e None = Inl e"
  "from_option e (Some x) = Inr x"
  by (simp_all add: from_option_def)

lemma from_option_Inr [ok_simps]: "from_option e m = Inr x \<longleftrightarrow> m = Some x"
  by (auto simp: from_option_def split: option.splits)

lemma from_option_Inl [ok_simps]: "from_option e m = Inl e' \<longleftrightarrow> m = None \<and> e' = e"
  by (auto simp: from_option_def split: option.splits)

lemma is_ok_simps [simp]: "is_ok (Inl e) = False" "is_ok (Inr x) = True"
  by (simp_all add: is_ok_def)

lemma is_ok_iff [ok_simps]: "is_ok m \<longleftrightarrow> (\<exists>x. m = Inr x)"
  by (cases m) auto

subsection \<open>Big-endian numbers\<close>

text \<open>
  \<open>be_enc k n\<close> is the low \<open>k\<close> bytes of \<open>n\<close>, most significant first: what
  \<open>DataView.setUint16\<close>, \<open>setUint32\<close> and \<open>setBigUint64\<close> store (they reduce modulo
  \<open>256 ^ k\<close>). \<open>be_dec\<close> reads a run back.
\<close>

fun be_enc :: "nat \<Rightarrow> nat \<Rightarrow> bytes" where
  "be_enc 0 n = []"
| "be_enc (Suc k) n = word_of_nat (n div 256 ^ k) # be_enc k n"

fun be_dec :: "bytes \<Rightarrow> nat" where
  "be_dec [] = 0"
| "be_dec (b # bs) = unat b * 256 ^ length bs + be_dec bs"

lemma length_be_enc [simp, len_simps]: "length (be_enc k n) = k"
  by (induction k) auto

lemma unat_byte_of_nat: "unat (word_of_nat n :: byte) = n mod 256"
  by (simp add: unat_of_nat)

lemma unat_byte_lt: "unat (b :: byte) < 256"
  using unsigned_less [of b] by simp

lemma be_dec_enc: "be_dec (be_enc k n) = n mod 256 ^ k"
proof (induction k)
  case 0
  then show ?case by simp
next
  case (Suc k)
  have "be_dec (be_enc (Suc k) n) = n div 256 ^ k mod 256 * 256 ^ k + n mod 256 ^ k"
    by (simp add: Suc.IH unat_byte_of_nat)
  also have "\<dots> = n mod (256 ^ k * 256)"
    by (simp add: mod_mult2_eq)
  finally show ?case by (simp add: mult.commute)
qed

lemma be_dec_enc_id [simp]: "n < 256 ^ k \<Longrightarrow> be_dec (be_enc k n) = n"
  by (simp add: be_dec_enc)

lemma be_dec_less: "be_dec bs < 256 ^ length bs"
proof (induction bs)
  case Nil
  then show ?case by simp
next
  case (Cons b bs)
  have "unat b * 256 ^ length bs + be_dec bs < unat b * 256 ^ length bs + 256 ^ length bs"
    using Cons.IH by simp
  also have "\<dots> = (unat b + 1) * 256 ^ length bs" by simp
  also have "\<dots> \<le> 256 * 256 ^ length bs"
    using unat_byte_lt [of b] by (intro mult_right_mono) auto
  finally show ?case by simp
qed

lemma be_enc_mod: "be_enc k (n mod 256 ^ k) = be_enc k n"
proof -
  have "j \<le> k \<Longrightarrow> be_enc j (n mod 256 ^ k) = be_enc j n" for j
  proof (induction j)
    case 0
    then show ?case by simp
  next
    case (Suc j)
    have "(256 :: nat) ^ k = 256 ^ j * 256 ^ (k - j)"
      using Suc.prems by (simp add: power_add [symmetric])
    then have eq: "n mod 256 ^ k div 256 ^ j = n div 256 ^ j mod 256 ^ (k - j)"
      by (simp add: mod_mult2_eq)
    have dv: "(256 :: nat) dvd 256 ^ (k - j)"
      using Suc.prems by (simp add: dvd_power)
    have "(word_of_nat (n mod 256 ^ k div 256 ^ j) :: byte) = word_of_nat (n div 256 ^ j)"
      by (rule word_unat_eq_iff [THEN iffD2])
        (simp add: unat_byte_of_nat eq mod_mod_cancel [OF dv])
    with Suc show ?case by simp
  qed
  then show ?thesis by blast
qed

lemma be_enc_dec [simp]: "be_enc (length bs) (be_dec bs) = bs"
proof (induction bs)
  case Nil
  then show ?case by simp
next
  case (Cons b bs)
  have d: "be_dec (b # bs) div 256 ^ length bs = unat b"
    using be_dec_less [of bs] by simp
  have m: "be_dec (b # bs) mod 256 ^ length bs = be_dec bs"
    using be_dec_less [of bs] by simp
  have "be_enc (length bs) (be_dec (b # bs)) = be_enc (length bs) (be_dec bs)"
    using be_enc_mod [of "length bs" "be_dec (b # bs)"] m by simp
  with Cons.IH d show ?case by simp
qed

lemma be_enc_dec_len: "length bs = k \<Longrightarrow> be_enc k (be_dec bs) = bs"
  by (metis be_enc_dec)

lemma be_dec_bound: "length bs = k \<Longrightarrow> be_dec bs < 256 ^ k"
  by (metis be_dec_less)

lemma or_push_bit_8: "y < 256 \<Longrightarrow> or (push_bit 8 x) y = x * 256 + (y :: nat)"
proof -
  assume y: "y < 256"
  have "and (push_bit 8 x) y = 0"
  proof (rule bit_eqI)
    fix n
    show "bit (and (push_bit 8 x) y) n \<longleftrightarrow> bit (0 :: nat) n"
    proof (cases "n < 8")
      case True
      then show ?thesis by (simp add: bit_simps)
    next
      case False
      then have "(256 :: nat) \<le> 2 ^ n"
        using power_increasing [of 8 n "2 :: nat"] by simp
      with y have "y div 2 ^ n = 0" by simp
      then have "\<not> bit y n" by (simp add: bit_iff_odd)
      then show ?thesis by (simp add: bit_simps)
    qed
  qed
  then have "or (push_bit 8 x) y = push_bit 8 x + y"
    by (simp add: disjunctive_add_eq_or)
  then show ?thesis by (simp add: push_bit_eq_mult)
qed

subsection \<open>Slices of byte runs\<close>

text \<open>\<open>b.slice(off, off + len)\<close>: the bytes from \<open>off\<close>, at most \<open>len\<close> of them.\<close>

definition slice_of :: "nat \<Rightarrow> nat \<Rightarrow> 'a list \<Rightarrow> 'a list" where
  "slice_of off len b = take len (drop off b)"

lemma length_slice_of [simp]: "off + len \<le> length b \<Longrightarrow> length (slice_of off len b) = len"
  by (simp add: slice_of_def)

lemma slice_of_append:
  "length p = off \<Longrightarrow> length m = len \<Longrightarrow> slice_of off len (p @ m @ r) = m"
  by (simp add: slice_of_def)

lemma take_slice_of: "off + len = n \<Longrightarrow> take off b @ slice_of off len b = take n b"
  by (auto simp: slice_of_def take_add)

lemma take_slice_app: "off + len = n \<Longrightarrow> take off b @ slice_of off len b @ r = take n b @ r"
  using take_slice_of [of off len n b] by (metis append_assoc)

subsection \<open>Insertion-ordered maps\<close>

type_synonym ('k, 'v) jmap = "('k \<times> 'v) list"

definition jm_get :: "('k, 'v) jmap \<Rightarrow> 'k \<Rightarrow> 'v option" where
  "jm_get m k = map_of m k"

fun jm_set :: "'k \<Rightarrow> 'v \<Rightarrow> ('k, 'v) jmap \<Rightarrow> ('k, 'v) jmap" where
  "jm_set k v [] = [(k, v)]"
| "jm_set k v ((k', v') # m) = (if k = k' then (k, v) # m else (k', v') # jm_set k v m)"

definition jm_del :: "'k \<Rightarrow> ('k, 'v) jmap \<Rightarrow> ('k, 'v) jmap" where
  "jm_del k m = filter (\<lambda>p. fst p \<noteq> k) m"

definition jm_has :: "('k, 'v) jmap \<Rightarrow> 'k \<Rightarrow> bool" where
  "jm_has m k = (jm_get m k \<noteq> None)"

definition jm_keys :: "('k, 'v) jmap \<Rightarrow> 'k list" where
  "jm_keys m = map fst m"

definition jm_inv :: "('k, 'v) jmap \<Rightarrow> bool" where
  "jm_inv m = distinct (map fst m)"

lemma jm_get_Nil [simp]: "jm_get [] k = None"
  by (simp add: jm_get_def)

lemma jm_get_Cons [simp]: "jm_get ((k, v) # m) k' = (if k' = k then Some v else jm_get m k')"
  by (simp add: jm_get_def)

lemma jm_get_set: "jm_get (jm_set k v m) k' = (if k' = k then Some v else jm_get m k')"
  by (induction m) (auto simp: jm_get_def)

lemma jm_get_set_same [simp]: "jm_get (jm_set k v m) k = Some v"
  by (simp add: jm_get_set)

lemma jm_get_set_other [simp]: "k' \<noteq> k \<Longrightarrow> jm_get (jm_set k v m) k' = jm_get m k'"
  by (simp add: jm_get_set)

lemma jm_get_del: "jm_get (jm_del k m) k' = (if k' = k then None else jm_get m k')"
  by (induction m) (auto simp: jm_get_def jm_del_def)

lemma jm_get_del_same [simp]: "jm_get (jm_del k m) k = None"
  by (simp add: jm_get_del)

lemma jm_get_del_other [simp]: "k' \<noteq> k \<Longrightarrow> jm_get (jm_del k m) k' = jm_get m k'"
  by (simp add: jm_get_del)

lemma jm_get_None_iff: "jm_get m k = None \<longleftrightarrow> k \<notin> set (jm_keys m)"
  by (simp add: jm_get_def jm_keys_def map_of_eq_None_iff)

lemma jm_get_Some_key: "jm_get m k = Some v \<Longrightarrow> k \<in> set (jm_keys m)"
  by (metis jm_get_None_iff option.distinct(1))

lemma jm_get_Some_mem: "jm_get m k = Some v \<Longrightarrow> (k, v) \<in> set m"
  by (simp add: jm_get_def map_of_SomeD)

lemma jm_get_iff_mem: "jm_inv m \<Longrightarrow> jm_get m k = Some v \<longleftrightarrow> (k, v) \<in> set m"
  by (simp add: jm_get_def jm_inv_def)

lemma jm_has_iff: "jm_has m k \<longleftrightarrow> k \<in> set (jm_keys m)"
  by (simp add: jm_has_def jm_get_None_iff)

lemma jm_keys_set: "jm_keys (jm_set k v m) = (if k \<in> set (jm_keys m) then jm_keys m else jm_keys m @ [k])"
  by (induction m) (auto simp: jm_keys_def image_iff split: if_splits)

lemma jm_keys_del: "jm_keys (jm_del k m) = filter (\<lambda>x. x \<noteq> k) (jm_keys m)"
  by (induction m) (auto simp: jm_keys_def jm_del_def)

lemma jm_inv_keys: "jm_inv m \<longleftrightarrow> distinct (jm_keys m)"
  by (simp add: jm_inv_def jm_keys_def)

lemma jm_inv_Nil [simp]: "jm_inv []"
  by (simp add: jm_inv_def)

lemma jm_inv_set [simp]: "jm_inv m \<Longrightarrow> jm_inv (jm_set k v m)"
  by (auto simp: jm_inv_keys jm_keys_set)

lemma jm_inv_del [simp]: "jm_inv m \<Longrightarrow> jm_inv (jm_del k m)"
  by (simp add: jm_inv_keys jm_keys_del)

lemma jm_inv_filter [simp]: "jm_inv m \<Longrightarrow> jm_inv (filter P m)"
  by (simp add: jm_inv_def distinct_map_filter)

lemma jm_inv_tl: "jm_inv (p # m) \<Longrightarrow> jm_inv m"
  by (simp add: jm_inv_def)

lemma jm_inv_drop [simp]: "jm_inv m \<Longrightarrow> jm_inv (drop n m)"
  by (simp add: jm_inv_def drop_map [symmetric])

lemma length_jm_keys [simp]: "length (jm_keys m) = length m"
  by (simp add: jm_keys_def)

lemma length_jm_set: "length (jm_set k v m) = (if jm_has m k then length m else Suc (length m))"
  by (induction m) (auto simp: jm_has_def jm_get_def)

lemma length_jm_del_le [simp]: "length (jm_del k m) \<le> length m"
  by (simp add: jm_del_def)

lemma set_jm_set: "set (jm_set k v m) \<subseteq> insert (k, v) (set m)"
  by (induction m) (auto split: if_splits)

lemma set_jm_del: "set (jm_del k m) = {p \<in> set m. fst p \<noteq> k}"
  by (auto simp: jm_del_def)

lemma jm_del_absent: "jm_get m k = None \<Longrightarrow> jm_del k m = m"
  unfolding jm_del_def jm_get_None_iff jm_keys_def
  by (rule filter_True) force

end
