(* ===== verification/Machines.thy ===== *)
theory Machines
  imports Prelude
begin

section \<open>Interfaces: codecs, keyed stores, invariant-preserving machines\<close>

text \<open>
  The contracts the components rely on, stated once as locales. \<open>codec\<close> is the contract of
  a canonical wire format: what is encoded decodes back, and what decodes re-encodes to the
  same bytes. \<open>keyed_store\<close> is the contract of a \<open>Map\<close>. \<open>machine\<close> is a deterministic
  handler that keeps an invariant; its runs are folds over a list of inputs.
\<close>

locale codec =
  fixes enc :: "'m \<Rightarrow> 'e + bytes"
    and dec :: "bytes \<Rightarrow> 'd + 'm"
  assumes dec_enc: "enc m = Inr b \<Longrightarrow> dec b = Inr m"
    and enc_dec: "dec b = Inr m \<Longrightarrow> enc m = Inr b"
begin

lemma enc_inj: "enc m = Inr b \<Longrightarrow> enc m' = Inr b \<Longrightarrow> m = m'"
  using dec_enc [of m b] dec_enc [of m' b] by simp

lemma dec_inj: "dec b = Inr m \<Longrightarrow> dec b' = Inr m \<Longrightarrow> b = b'"
  using enc_dec [of b m] enc_dec [of b' m] by simp

lemma dec_iff: "dec b = Inr m \<longleftrightarrow> enc m = Inr b"
  using dec_enc enc_dec by blast

end

locale keyed_store =
  fixes get :: "'m \<Rightarrow> 'k \<Rightarrow> 'v option"
    and put :: "'k \<Rightarrow> 'v \<Rightarrow> 'm \<Rightarrow> 'm"
    and del :: "'k \<Rightarrow> 'm \<Rightarrow> 'm"
    and keys :: "'m \<Rightarrow> 'k list"
    and inv :: "'m \<Rightarrow> bool"
  assumes get_put: "get (put k v m) k' = (if k' = k then Some v else get m k')"
    and get_del: "get (del k m) k' = (if k' = k then None else get m k')"
    and get_keys: "get m k = None \<longleftrightarrow> k \<notin> set (keys m)"
    and put_order: "keys (put k v m) = (if k \<in> set (keys m) then keys m else keys m @ [k])"
    and del_order: "keys (del k m) = filter (\<lambda>x. x \<noteq> k) (keys m)"
    and inv_distinct: "inv m \<longleftrightarrow> distinct (keys m)"
begin

lemma inv_put: "inv m \<Longrightarrow> inv (put k v m)"
  by (simp add: inv_distinct put_order)

lemma inv_del: "inv m \<Longrightarrow> inv (del k m)"
  by (simp add: inv_distinct del_order)

lemma keys_put: "set (keys (put k v m)) = insert k (set (keys m))"
  by (auto simp: put_order)

lemma keys_del: "set (keys (del k m)) = set (keys m) - {k}"
  by (auto simp: del_order)

lemma put_put: "get (put k v (put k w m)) = get (put k v m)"
  by (rule ext) (simp add: get_put)

lemma size_put: "length (keys (put k v m)) \<le> Suc (length (keys m))"
  by (simp add: put_order)

lemma size_del: "length (keys (del k m)) \<le> length (keys m)"
  by (simp add: del_order)

end

interpretation jm: keyed_store jm_get jm_set jm_del jm_keys jm_inv
  by unfold_locales (simp_all add: jm_get_set jm_get_del jm_get_None_iff jm_keys_set jm_keys_del jm_inv_keys)

fun run :: "('s \<Rightarrow> 'i \<Rightarrow> 's) \<Rightarrow> 's \<Rightarrow> 'i list \<Rightarrow> 's" where
  "run step s [] = s"
| "run step s (i # is) = run step (step s i) is"

lemma run_append: "run step s (is @ js) = run step (run step s is) js"
  by (induction "is" arbitrary: s) auto

locale machine =
  fixes step :: "'s \<Rightarrow> 'i \<Rightarrow> 's"
    and inv :: "'s \<Rightarrow> bool"
  assumes step_inv: "inv s \<Longrightarrow> inv (step s i)"
begin

lemma run_inv: "inv s \<Longrightarrow> inv (run step s is)"
  by (induction "is" arbitrary: s) (auto intro: step_inv)

end

text \<open>A machine with a set of absorbing states: once in one, every later state is in it.\<close>

locale absorbing = machine +
  fixes final :: "'s \<Rightarrow> bool"
  assumes final_step: "final s \<Longrightarrow> final (step s i)"
begin

lemma final_run: "final s \<Longrightarrow> final (run step s is)"
  by (induction "is" arbitrary: s) (auto intro: final_step)

lemma final_later: "final (run step s is) \<Longrightarrow> final (run step s (is @ js))"
  by (simp add: run_append final_run)

end

end
