(* ===== verification/Wire.thy ===== *)
theory Wire
  imports Machines
begin

section \<open>The EH-2 handshake wire format (eh2/wire.ts)\<close>

text \<open>
  The three handshake frames and the transcript inputs. Encoders and decoders return
  \<open>Inl\<close> a \<open>wire_error\<close> wherever the code throws \<open>WireError\<close>, one constructor per throw. A
  timestamp, a JavaScript number, is an \<open>int\<close>. The hash of a transcript is a function
  \<open>sha\<close>, an argument: WebCrypto's SHA-256.
  The frames are shown to be canonical: each encoder and its decoder form a \<open>codec\<close>, so no
  two byte strings decode to the same frame and no two frames share an encoding.
\<close>

subsection \<open>Constants and errors\<close>

definition EH2_VERSION :: byte where "EH2_VERSION = 3"
definition T_MSG1 :: byte where "T_MSG1 = 1"
definition T_MSG2 :: byte where "T_MSG2 = 2"
definition T_MSG3 :: byte where "T_MSG3 = 3"
definition X25519_PUB :: nat where "X25519_PUB = 32"
definition MAC :: nat where "MAC = 32"
definition TS :: nat where "TS = 8"
definition INITIATOR_TAG :: nat where "INITIATOR_TAG = 32"
definition MLKEM768_PK :: nat where "MLKEM768_PK = 1184"
definition MLKEM768_CT :: nat where "MLKEM768_CT = 1088"
definition MAX_SAFE_INTEGER :: int where "MAX_SAFE_INTEGER = 9007199254740991"

lemmas wire_consts = X25519_PUB_def MAC_def TS_def INITIATOR_TAG_def MLKEM768_PK_def
  MLKEM768_CT_def

datatype wire_error =
    BadTimestamp int
  | UnsafeTimestamp
  | NotU16 nat
  | BadLength string nat nat
  | TruncatedHeader string
  | WrongFrameType string byte
  | UnsupportedVersion string byte
  | TrailingBytes string nat
  | Truncated string
  | TruncatedLength string
  | BadPqLength string nat

record msg1 =
  m1_ekPub :: bytes
  m1_pqPub :: bytes
  m1_ts :: int
  m1_initiatorTag :: bytes

record msg2 =
  m2_ekPub :: bytes
  m2_pqCt :: bytes
  m2_ts :: int
  m2_macR :: bytes

record msg3 =
  m3_macI :: bytes

subsection \<open>Primitives\<close>

definition u64be :: "int \<Rightarrow> wire_error + bytes" where
  "u64be n = (if n < 0 \<or> MAX_SAFE_INTEGER < n then Inl (BadTimestamp n) else Inr (be_enc TS (nat n)))"

definition readU64be :: "bytes \<Rightarrow> nat \<Rightarrow> wire_error + int" where
  "readU64be b off =
     (let v = int (be_dec (slice_of off 8 b))
      in if MAX_SAFE_INTEGER < v then Inl UnsafeTimestamp else Inr v)"

definition u16be :: "nat \<Rightarrow> wire_error + bytes" where
  "u16be n = (if 65535 < n then Inl (NotU16 n)
     else Inr [word_of_nat (and (drop_bit 8 n) 255), word_of_nat (and n 255)])"

definition read_u16 :: "bytes \<Rightarrow> nat \<Rightarrow> nat" where
  "read_u16 b off = or (push_bit 8 (unat (b ! off))) (unat (b ! (off + 1)))"

definition fixed :: "string \<Rightarrow> bytes \<Rightarrow> nat \<Rightarrow> wire_error + bytes" where
  "fixed name v len = (if length v \<noteq> len then Inl (BadLength name len (length v)) else Inr v)"

definition header :: "bytes \<Rightarrow> byte \<Rightarrow> string \<Rightarrow> wire_error + nat" where
  "header b want name =
     (if length b < 2 then Inl (TruncatedHeader name)
      else if b ! 0 \<noteq> want then Inl (WrongFrameType name (b ! 0))
      else if b ! 1 \<noteq> EH2_VERSION then Inl (UnsupportedVersion name (b ! 1))
      else Inr 2)"

definition exact :: "bytes \<Rightarrow> nat \<Rightarrow> string \<Rightarrow> wire_error + unit" where
  "exact b off name = check (off = length b) (TrailingBytes name (length b - off))"

definition slice :: "bytes \<Rightarrow> nat \<Rightarrow> nat \<Rightarrow> string \<Rightarrow> wire_error + bytes" where
  "slice b off len name =
     (if length b < off + len then Inl (Truncated name) else Inr (slice_of off len b))"

subsection \<open>Frames\<close>

definition encodeMsg1 :: "msg1 \<Rightarrow> wire_error + bytes" where
  "encodeMsg1 m =
     then_ok (fixed ''msg1.ekPub'' (m1_ekPub m) X25519_PUB) (\<lambda>_.
     then_ok (fixed ''msg1.pqPub'' (m1_pqPub m) MLKEM768_PK) (\<lambda>_.
     then_ok (fixed ''msg1.initiatorTag'' (m1_initiatorTag m) INITIATOR_TAG) (\<lambda>_.
     then_ok (u16be (length (m1_pqPub m))) (\<lambda>len.
     then_ok (u64be (m1_ts m)) (\<lambda>ts.
       Inr ([T_MSG1, EH2_VERSION] @ m1_ekPub m @ len @ m1_pqPub m @ ts @ m1_initiatorTag m))))))"

definition decodeMsg1 :: "bytes \<Rightarrow> wire_error + msg1" where
  "decodeMsg1 b =
     then_ok (header b T_MSG1 ''msg1'') (\<lambda>o1.
     then_ok (slice b o1 X25519_PUB ''msg1.ekPub'') (\<lambda>ekPub. let o2 = o1 + X25519_PUB in
     then_ok (check (o2 + 2 \<le> length b) (TruncatedLength ''msg1.pqPub'')) (\<lambda>_.
     let pqLen = read_u16 b o2; o3 = o2 + 2 in
     then_ok (check (pqLen = MLKEM768_PK) (BadPqLength ''msg1.pqPub'' pqLen)) (\<lambda>_.
     then_ok (slice b o3 pqLen ''msg1.pqPub'') (\<lambda>pqPub. let o4 = o3 + pqLen in
     then_ok (check (o4 + TS \<le> length b) (Truncated ''msg1.ts'')) (\<lambda>_.
     then_ok (readU64be b o4) (\<lambda>ts. let o5 = o4 + TS in
     then_ok (slice b o5 INITIATOR_TAG ''msg1.initiatorTag'') (\<lambda>tag. let o6 = o5 + INITIATOR_TAG in
     then_ok (exact b o6 ''msg1'') (\<lambda>_.
       Inr \<lparr>m1_ekPub = ekPub, m1_pqPub = pqPub, m1_ts = ts, m1_initiatorTag = tag\<rparr>)))))))))"

definition encodeMsg2 :: "msg2 \<Rightarrow> wire_error + bytes" where
  "encodeMsg2 m =
     then_ok (fixed ''msg2.ekPub'' (m2_ekPub m) X25519_PUB) (\<lambda>_.
     then_ok (fixed ''msg2.pqCt'' (m2_pqCt m) MLKEM768_CT) (\<lambda>_.
     then_ok (fixed ''msg2.macR'' (m2_macR m) MAC) (\<lambda>_.
     then_ok (u16be (length (m2_pqCt m))) (\<lambda>len.
     then_ok (u64be (m2_ts m)) (\<lambda>ts.
       Inr ([T_MSG2, EH2_VERSION] @ m2_ekPub m @ len @ m2_pqCt m @ ts @ m2_macR m))))))"

definition decodeMsg2 :: "bytes \<Rightarrow> wire_error + msg2" where
  "decodeMsg2 b =
     then_ok (header b T_MSG2 ''msg2'') (\<lambda>o1.
     then_ok (slice b o1 X25519_PUB ''msg2.ekPub'') (\<lambda>ekPub. let o2 = o1 + X25519_PUB in
     then_ok (check (o2 + 2 \<le> length b) (TruncatedLength ''msg2.pqCt'')) (\<lambda>_.
     let ctLen = read_u16 b o2; o3 = o2 + 2 in
     then_ok (check (ctLen = MLKEM768_CT) (BadPqLength ''msg2.pqCt'' ctLen)) (\<lambda>_.
     then_ok (slice b o3 ctLen ''msg2.pqCt'') (\<lambda>pqCt. let o4 = o3 + ctLen in
     then_ok (check (o4 + TS \<le> length b) (Truncated ''msg2.ts'')) (\<lambda>_.
     then_ok (readU64be b o4) (\<lambda>ts. let o5 = o4 + TS in
     then_ok (slice b o5 MAC ''msg2.macR'') (\<lambda>macR. let o6 = o5 + MAC in
     then_ok (exact b o6 ''msg2'') (\<lambda>_.
       Inr \<lparr>m2_ekPub = ekPub, m2_pqCt = pqCt, m2_ts = ts, m2_macR = macR\<rparr>)))))))))"

definition encodeMsg3 :: "msg3 \<Rightarrow> wire_error + bytes" where
  "encodeMsg3 m =
     then_ok (fixed ''msg3.macI'' (m3_macI m) MAC) (\<lambda>_. Inr ([T_MSG3, EH2_VERSION] @ m3_macI m))"

definition decodeMsg3 :: "bytes \<Rightarrow> wire_error + msg3" where
  "decodeMsg3 b =
     then_ok (header b T_MSG3 ''msg3'') (\<lambda>o1.
     then_ok (slice b o1 MAC ''msg3.macI'') (\<lambda>macI.
     then_ok (exact b (o1 + MAC) ''msg3'') (\<lambda>_. Inr \<lparr>m3_macI = macI\<rparr>)))"

subsection \<open>Transcript\<close>

definition h1 :: "(bytes \<Rightarrow> bytes) \<Rightarrow> bytes \<Rightarrow> bytes" where
  "h1 sha msg1Bytes = sha msg1Bytes"

definition h2_input :: "bytes \<Rightarrow> bytes \<Rightarrow> bytes \<Rightarrow> int \<Rightarrow> wire_error + bytes" where
  "h2_input msg1Bytes ekRPub pqCt tsR =
     then_ok (fixed ''h2_partial.ekRPub'' ekRPub X25519_PUB) (\<lambda>_.
     then_ok (fixed ''h2_partial.pqCt'' pqCt MLKEM768_CT) (\<lambda>_.
     then_ok (u64be tsR) (\<lambda>ts. Inr (msg1Bytes @ ekRPub @ pqCt @ ts))))"

definition h2Partial :: "(bytes \<Rightarrow> bytes) \<Rightarrow> bytes \<Rightarrow> bytes \<Rightarrow> bytes \<Rightarrow> int \<Rightarrow> wire_error + bytes" where
  "h2Partial sha msg1Bytes ekRPub pqCt tsR =
     then_ok (h2_input msg1Bytes ekRPub pqCt tsR) (\<lambda>t. Inr (sha t))"

definition h3 :: "(bytes \<Rightarrow> bytes) \<Rightarrow> bytes \<Rightarrow> bytes \<Rightarrow> wire_error + bytes" where
  "h3 sha h2partial macR =
     then_ok (fixed ''h3.h2partial'' h2partial 32) (\<lambda>_.
     then_ok (fixed ''h3.macR'' macR MAC) (\<lambda>_. Inr (sha (h2partial @ macR))))"

subsection \<open>Lemmas of the primitives\<close>

lemma fixed_Inr [ok_simps]: "fixed name v len = Inr w \<longleftrightarrow> length v = len \<and> w = v"
  by (auto simp: fixed_def)

lemma u64be_Inr [ok_simps]:
  "u64be n = Inr b \<longleftrightarrow> 0 \<le> n \<and> n \<le> MAX_SAFE_INTEGER \<and> b = be_enc TS (nat n)"
  by (auto simp: u64be_def)

lemma slice_Inr [ok_simps]: "slice b off len name = Inr w \<longleftrightarrow> off + len \<le> length b \<and> w = slice_of off len b"
  by (auto simp: slice_def)

lemma exact_Inr [ok_simps]: "exact b off name = Inr u \<longleftrightarrow> off = length b"
  by (simp add: exact_def check_Inr)

lemma header_Inr [ok_simps]:
  "header b want name = Inr n \<longleftrightarrow> 2 \<le> length b \<and> take 2 b = [want, EH2_VERSION] \<and> n = 2"
proof (cases "2 \<le> length b")
  case True
  then obtain x y r where "b = x # y # r"
    by (metis One_nat_def Suc_1 Suc_le_length_iff)
  then show ?thesis by (auto simp: header_def)
next
  case False
  then show ?thesis by (simp add: header_def)
qed

lemma read_u16_dec: "off + 2 \<le> length b \<Longrightarrow> read_u16 b off = be_dec (slice_of off 2 b)"
proof -
  assume "off + 2 \<le> length b"
  then have "slice_of off 2 b = [b ! off, b ! (off + 1)]"
    by (simp add: slice_of_def take_Suc_conv_app_nth numeral_2_eq_2)
  then show ?thesis
    by (simp add: read_u16_def or_push_bit_8 unat_byte_lt)
qed

lemma and_255: "and n 255 = n mod (256 :: nat)"
proof -
  have "and n (mask 8) = take_bit 8 n" by (simp add: take_bit_eq_mask)
  then show ?thesis by (simp add: mask_eq_exp_minus_1 take_bit_eq_mod)
qed

lemma byte_of_nat_mod: "(word_of_nat (n mod 256) :: byte) = word_of_nat n"
  by (rule word_unat_eq_iff [THEN iffD2]) (simp add: unat_byte_of_nat)

lemma be_enc_2: "be_enc 2 n = [word_of_nat (n div 256), word_of_nat n]"
  using be_enc.simps(2) [of 1 n] be_enc.simps(2) [of 0 n] by (simp add: numeral_2_eq_2)

lemma u16be_enc: "n \<le> 65535 \<Longrightarrow> u16be n = Inr (be_enc 2 n)"
  by (simp add: u16be_def be_enc_2 drop_bit_eq_div and_255 byte_of_nat_mod)

lemma u16be_Inr [ok_simps]: "u16be n = Inr b \<longleftrightarrow> n \<le> 65535 \<and> b = be_enc 2 n"
proof (cases "n \<le> 65535")
  case True
  then show ?thesis by (auto simp: u16be_enc)
next
  case False
  then show ?thesis by (simp add: u16be_def)
qed

lemma readU64be_Inr [ok_simps]:
  "readU64be b off = Inr n \<longleftrightarrow>
     n = int (be_dec (slice_of off 8 b)) \<and> int (be_dec (slice_of off 8 b)) \<le> MAX_SAFE_INTEGER"
  by (auto simp: readU64be_def Let_def)

lemma safe_lt_2_64: "n \<le> MAX_SAFE_INTEGER \<Longrightarrow> nat n < 256 ^ 8"
  by (simp add: MAX_SAFE_INTEGER_def)

subsection \<open>Both frames with a post-quantum field have one layout\<close>

text \<open>
  msg1 and msg2 share a layout: tag, version, a 32-byte key, a 16-bit length, a field of
  that length, a timestamp and 32 bytes of tag. The layout is parsed and built once here.
\<close>

definition frame_bytes :: "byte \<Rightarrow> bytes \<Rightarrow> bytes \<Rightarrow> int \<Rightarrow> bytes \<Rightarrow> bytes" where
  "frame_bytes t ek pq ts tag =
     [t, EH2_VERSION] @ ek @ be_enc 2 (length pq) @ pq @ be_enc TS (nat ts) @ tag"

definition frame_ok :: "nat \<Rightarrow> bytes \<Rightarrow> bytes \<Rightarrow> int \<Rightarrow> bytes \<Rightarrow> bool" where
  "frame_ok k ek pq ts tag \<longleftrightarrow> length ek = 32 \<and> length pq = k \<and> k \<le> 65535 \<and> 0 \<le> ts
     \<and> ts \<le> MAX_SAFE_INTEGER \<and> length tag = 32"

definition frame_parsed :: "nat \<Rightarrow> byte \<Rightarrow> bytes \<Rightarrow> bytes \<Rightarrow> bytes \<Rightarrow> int \<Rightarrow> bytes \<Rightarrow> bool" where
  "frame_parsed k t b ek pq ts tag \<longleftrightarrow> length b = 76 + k \<and> take 2 b = [t, EH2_VERSION]
     \<and> ek = slice_of 2 32 b \<and> be_dec (slice_of 34 2 b) = k \<and> pq = slice_of 36 k b
     \<and> ts = int (be_dec (slice_of (36 + k) 8 b)) \<and> ts \<le> MAX_SAFE_INTEGER
     \<and> tag = slice_of (44 + k) 32 b"

lemma frame_parsed_build:
  assumes "frame_ok k ek pq ts tag"
  shows "frame_parsed k t (frame_bytes t ek pq ts tag) ek pq ts tag"
proof -
  let ?L = "be_enc 2 (length pq)" and ?T = "be_enc TS (nat ts)"
  have l: "length ek = 32" "length pq = k" "length tag = 32" "k < 256 ^ 2"
      "nat ts < 256 ^ 8" "0 \<le> ts"
    using assms safe_lt_2_64 [of ts] by (auto simp: frame_ok_def)
  have s1: "slice_of 2 32 (frame_bytes t ek pq ts tag) = ek"
    unfolding frame_bytes_def by (rule slice_of_append) (simp_all add: l)
  have s2: "slice_of 34 2 (frame_bytes t ek pq ts tag) = ?L"
    unfolding frame_bytes_def
    using slice_of_append [of "[t, EH2_VERSION] @ ek" 34 ?L 2 "pq @ ?T @ tag"] by (simp add: l)
  have s3: "slice_of 36 k (frame_bytes t ek pq ts tag) = pq"
    unfolding frame_bytes_def
    using slice_of_append [of "[t, EH2_VERSION] @ ek @ ?L" 36 pq k "?T @ tag"] by (simp add: l)
  have s4: "slice_of (36 + k) 8 (frame_bytes t ek pq ts tag) = ?T"
    unfolding frame_bytes_def
    using slice_of_append [of "[t, EH2_VERSION] @ ek @ ?L @ pq" "36 + k" ?T 8 tag]
    by (simp add: l TS_def)
  have s5: "slice_of (44 + k) 32 (frame_bytes t ek pq ts tag) = tag"
    unfolding frame_bytes_def
    using slice_of_append [of "[t, EH2_VERSION] @ ek @ ?L @ pq @ ?T" "44 + k" tag 32 "[]"]
    by (simp add: l TS_def)
  have len: "length (frame_bytes t ek pq ts tag) = 76 + k"
    by (simp add: frame_bytes_def l TS_def)
  have tk: "take 2 (frame_bytes t ek pq ts tag) = [t, EH2_VERSION]"
    by (simp add: frame_bytes_def)
  show ?thesis
    using l assms by (simp add: frame_parsed_def frame_ok_def s1 s2 s3 s4 s5 len tk TS_def)
qed

lemma frame_build_parsed:
  assumes "frame_parsed k t b ek pq ts tag" and "k \<le> 65535"
  shows "frame_ok k ek pq ts tag" and "frame_bytes t ek pq ts tag = b"
proof -
  have len: "length b = 76 + k" using assms by (simp add: frame_parsed_def)
  show "frame_ok k ek pq ts tag"
    using assms len by (simp add: frame_parsed_def frame_ok_def)
  have L: "be_enc 2 k = slice_of 34 2 b"
    using assms len be_enc_dec_len [of "slice_of 34 2 b" 2] by (simp add: frame_parsed_def)
  have T: "be_enc TS (nat ts) = slice_of (36 + k) 8 b"
    using assms len be_enc_dec_len [of "slice_of (36 + k) 8 b" 8]
    by (simp add: frame_parsed_def TS_def)
  have "frame_bytes t ek pq ts tag = take 2 b @ slice_of 2 32 b @ slice_of 34 2 b
      @ slice_of 36 k b @ slice_of (36 + k) 8 b @ slice_of (44 + k) 32 b"
    using assms len by (simp add: frame_parsed_def frame_bytes_def L [symmetric] T [symmetric])
  also have "\<dots> = take (76 + k) b"
    by (simp add: take_slice_app [of 2 32 34] take_slice_app [of 34 2 36] take_slice_app [of 36 k "36 + k"]
        take_slice_app [of "36 + k" 8 "44 + k"] take_slice_of [of "44 + k" 32 "76 + k"])
  also have "\<dots> = b" using len by simp
  finally show "frame_bytes t ek pq ts tag = b" .
qed

subsection \<open>The three frames are codecs\<close>

lemma encodeMsg1_iff:
  "encodeMsg1 m = Inr b \<longleftrightarrow>
     frame_ok MLKEM768_PK (m1_ekPub m) (m1_pqPub m) (m1_ts m) (m1_initiatorTag m)
     \<and> b = frame_bytes T_MSG1 (m1_ekPub m) (m1_pqPub m) (m1_ts m) (m1_initiatorTag m)"
  by (auto simp: encodeMsg1_def frame_ok_def frame_bytes_def wire_consts ok_simps)

lemma encodeMsg2_iff:
  "encodeMsg2 m = Inr b \<longleftrightarrow>
     frame_ok MLKEM768_CT (m2_ekPub m) (m2_pqCt m) (m2_ts m) (m2_macR m)
     \<and> b = frame_bytes T_MSG2 (m2_ekPub m) (m2_pqCt m) (m2_ts m) (m2_macR m)"
  by (auto simp: encodeMsg2_def frame_ok_def frame_bytes_def wire_consts ok_simps)

lemma decodeMsg1_iff:
  "decodeMsg1 b = Inr m \<longleftrightarrow>
     frame_parsed MLKEM768_PK T_MSG1 b (m1_ekPub m) (m1_pqPub m) (m1_ts m) (m1_initiatorTag m)"
  by (cases m) (auto simp: decodeMsg1_def frame_parsed_def ok_simps Let_def wire_consts read_u16_dec)

lemma decodeMsg2_iff:
  "decodeMsg2 b = Inr m \<longleftrightarrow>
     frame_parsed MLKEM768_CT T_MSG2 b (m2_ekPub m) (m2_pqCt m) (m2_ts m) (m2_macR m)"
  by (cases m) (auto simp: decodeMsg2_def frame_parsed_def ok_simps Let_def wire_consts read_u16_dec)

lemma encodeMsg3_iff:
  "encodeMsg3 m = Inr b \<longleftrightarrow> length (m3_macI m) = 32 \<and> b = [T_MSG3, EH2_VERSION] @ m3_macI m"
  by (auto simp: encodeMsg3_def ok_simps wire_consts)

lemma decodeMsg3_iff:
  "decodeMsg3 b = Inr m \<longleftrightarrow> length b = 34 \<and> take 2 b = [T_MSG3, EH2_VERSION] \<and> m3_macI m = slice_of 2 32 b"
  by (cases m) (auto simp: decodeMsg3_def ok_simps wire_consts)

lemma decode_encode_msg3: "encodeMsg3 m = Inr b \<Longrightarrow> decodeMsg3 b = Inr m"
  by (simp add: encodeMsg3_iff decodeMsg3_iff slice_of_def)

lemma encode_decode_msg3: "decodeMsg3 b = Inr m \<Longrightarrow> encodeMsg3 m = Inr b"
proof -
  assume d: "decodeMsg3 b = Inr m"
  then have "[T_MSG3, EH2_VERSION] @ slice_of 2 32 b = b"
    using take_slice_of [of 2 32 34 b] by (simp add: decodeMsg3_iff)
  with d show ?thesis by (simp add: encodeMsg3_iff decodeMsg3_iff)
qed

interpretation msg1_codec: codec encodeMsg1 decodeMsg1
proof unfold_locales
  show "encodeMsg1 m = Inr b \<Longrightarrow> decodeMsg1 b = Inr m" for m b
    by (auto simp: encodeMsg1_iff decodeMsg1_iff intro: frame_parsed_build)
  show "decodeMsg1 b = Inr m \<Longrightarrow> encodeMsg1 m = Inr b" for m b
    using frame_build_parsed [of MLKEM768_PK T_MSG1 b]
    by (simp add: encodeMsg1_iff decodeMsg1_iff MLKEM768_PK_def)
qed

interpretation msg2_codec: codec encodeMsg2 decodeMsg2
proof unfold_locales
  show "encodeMsg2 m = Inr b \<Longrightarrow> decodeMsg2 b = Inr m" for m b
    by (auto simp: encodeMsg2_iff decodeMsg2_iff intro: frame_parsed_build)
  show "decodeMsg2 b = Inr m \<Longrightarrow> encodeMsg2 m = Inr b" for m b
    using frame_build_parsed [of MLKEM768_CT T_MSG2 b]
    by (simp add: encodeMsg2_iff decodeMsg2_iff MLKEM768_CT_def)
qed

interpretation msg3_codec: codec encodeMsg3 decodeMsg3
  by unfold_locales (fact decode_encode_msg3, fact encode_decode_msg3)

lemma length_encodeMsg1: "encodeMsg1 m = Inr b \<Longrightarrow> length b = 1260"
  by (auto simp: encodeMsg1_iff frame_ok_def frame_bytes_def wire_consts)

lemma length_encodeMsg2: "encodeMsg2 m = Inr b \<Longrightarrow> length b = 1164"
  by (auto simp: encodeMsg2_iff frame_ok_def frame_bytes_def wire_consts)

subsection \<open>The transcript is unambiguous\<close>

lemma h2_input_Inr:
  "h2_input m ek ct ts = Inr t \<longleftrightarrow> length ek = 32 \<and> length ct = 1088 \<and> 0 \<le> ts
     \<and> ts \<le> MAX_SAFE_INTEGER \<and> t = m @ ek @ ct @ be_enc TS (nat ts)"
  by (auto simp: h2_input_def ok_simps wire_consts)

lemma be_enc_inj: "a < 256 ^ k \<Longrightarrow> b < 256 ^ k \<Longrightarrow> be_enc k a = be_enc k b \<Longrightarrow> a = b"
  by (metis be_dec_enc_id)

lemma h2_input_inj:
  assumes "h2_input m ek ct ts = Inr t" and "h2_input m' ek' ct' ts' = Inr t"
  shows "m = m' \<and> ek = ek' \<and> ct = ct' \<and> ts = ts'"
proof -
  have t: "m @ ek @ ct @ be_enc TS (nat ts) = m' @ ek' @ ct' @ be_enc TS (nat ts')"
    and l: "length ek = length ek'" "length ct = length ct'"
    and ts: "0 \<le> ts" "0 \<le> ts'" "ts \<le> MAX_SAFE_INTEGER" "ts' \<le> MAX_SAFE_INTEGER"
    using assms by (auto simp: h2_input_Inr)
  from t l have "m = m'" "ek = ek'" "ct = ct'" "be_enc TS (nat ts) = be_enc TS (nat ts')"
    by auto
  moreover from this ts have "ts = ts'"
    using be_enc_inj [OF safe_lt_2_64 safe_lt_2_64, of ts ts'] by (simp add: TS_def)
  ultimately show ?thesis by simp
qed

lemma h3_Inr: "h3 sha p m = Inr t \<longleftrightarrow> length p = 32 \<and> length m = 32 \<and> t = sha (p @ m)"
  by (auto simp: h3_def ok_simps wire_consts)

subsection \<open>Properties\<close>

text \<open>
  C34: the three handshake frames have one encoding each. A message that encodes decodes back to
  itself, and a frame that decodes is the encoding of what it gave.
\<close>
theorem wire_canonical:
  "((encodeMsg1 m1 = Inr b) = (decodeMsg1 b = Inr m1))
   \<and> ((encodeMsg2 m2 = Inr b) = (decodeMsg2 b = Inr m2))
   \<and> ((encodeMsg3 m3 = Inr b) = (decodeMsg3 b = Inr m3))"
  by (simp add: msg1_codec.dec_iff msg2_codec.dec_iff msg3_codec.dec_iff)

text \<open>
  A transcript binds what it covers. Two transcripts of msg2 that hash the same bytes were
  made from the same msg1, the same ephemeral key, ciphertext and timestamp.
\<close>
theorem transcript_unambiguous:
  assumes "h2_input m ek ct ts = Inr t" and "h2_input m' ek' ct' ts' = Inr t"
  shows "m = m' \<and> ek = ek' \<and> ct = ct' \<and> ts = ts'"
  using assms by (rule h2_input_inj)

theorem transcript_unambiguous_witness:
  "\<exists>t. h2_input [1] (replicate 32 2) (replicate 1088 3) 4 = Inr t
     \<and> (\<forall>m. h2_input m (replicate 32 2) (replicate 1088 3) 4 = Inr t \<longrightarrow> m = [1])"
proof -
  have "h2_input [1] (replicate 32 2) (replicate 1088 3) 4 = Inr ([1] @ replicate 32 2 @ replicate 1088 3 @ be_enc TS 4)"
    by (simp add: h2_input_Inr MAX_SAFE_INTEGER_def)
  with transcript_unambiguous [OF _ this] show ?thesis by blast
qed

end
