(* ===== verification/Crypto.thy ===== *)
theory Crypto
  imports Machines
begin

section \<open>The platform's cryptography as parameters (lib/wc.ts, lib/x25519.ts)\<close>

text \<open>
  WebCrypto and the ML-KEM package are not code of the repository: a \<open>crypto\<close> record holds
  their functions, and every definition that calls them takes one. What the repository adds
  on top, the derivation convention of \<open>lib/wc.ts\<close> and the keys as capabilities of
  \<open>lib/x25519.ts\<close> and \<open>eh2/handshake.ts\<close>, is modelled: a \<open>dh_key\<close> is a public key with a
  function that computes, or rejects, a shared secret; a \<open>kem_key\<close> likewise. An operation
  that may reject returns an option. Fresh keys and randomness are arguments of the
  operation that draws them.
\<close>

record crypto =
  c_sha256 :: "bytes \<Rightarrow> bytes"
  c_hkdf :: "bytes \<Rightarrow> bytes \<Rightarrow> bytes \<Rightarrow> nat \<Rightarrow> bytes" \<comment> \<open>input key, salt, info, length\<close>
  c_hmac :: "bytes \<Rightarrow> bytes \<Rightarrow> bytes"
  c_seal :: "bytes \<Rightarrow> bytes \<Rightarrow> bytes \<Rightarrow> bytes \<Rightarrow> bytes" \<comment> \<open>key, nonce, associated data, plaintext\<close>
  c_open :: "bytes \<Rightarrow> bytes \<Rightarrow> bytes \<Rightarrow> bytes \<Rightarrow> bytes option"

record dh_key =
  dh_pub :: bytes
  dh_fn :: "bytes \<Rightarrow> bytes option"

record kem_key =
  kem_pub :: bytes
  kem_decapsulate :: "bytes \<Rightarrow> bytes option"

text \<open>\<open>TextEncoder.encode\<close> of an ASCII label.\<close>

definition ascii :: "string \<Rightarrow> bytes" where
  "ascii s = map (\<lambda>c. word_of_nat (of_char c)) s"

definition kdf :: "crypto \<Rightarrow> string \<Rightarrow> bytes \<Rightarrow> bytes \<Rightarrow> nat \<Rightarrow> bytes" where
  "kdf C label ikm ctx len = c_hkdf C ikm ctx (ascii label) len"

definition aeadNonce :: "crypto \<Rightarrow> bytes \<Rightarrow> nat \<Rightarrow> bytes" where
  "aeadNonce C mk n = kdf C ''encedo-aead-nonce'' mk (be_enc 4 n) 12"

text \<open>
  The laws of the primitives that proofs rely on, as hypotheses: the documented lengths of
  SHA-256, HMAC-SHA256 and HKDF, and that AES-GCM opens what it sealed under the same key,
  nonce and associated data. Agreement of two key pairs is X25519's commutativity on them.
\<close>

definition crypto_lengths :: "crypto \<Rightarrow> bool" where
  "crypto_lengths C \<longleftrightarrow> (\<forall>x. length (c_sha256 C x) = 32) \<and> (\<forall>k x. length (c_hmac C k x) = 32)
     \<and> (\<forall>i s f n. length (c_hkdf C i s f n) = n)"

definition aead_opens :: "crypto \<Rightarrow> bool" where
  "aead_opens C \<longleftrightarrow> (\<forall>k n a p. c_open C k n a (c_seal C k n a p) = Some p)"

definition aead_tagged :: "crypto \<Rightarrow> bool" where
  "aead_tagged C \<longleftrightarrow> (\<forall>k n a p. length (c_seal C k n a p) = length p + 16)"

definition dh_agree :: "dh_key \<Rightarrow> dh_key \<Rightarrow> bool" where
  "dh_agree a b \<longleftrightarrow> dh_fn a (dh_pub b) = dh_fn b (dh_pub a) \<and> dh_fn a (dh_pub b) \<noteq> None"

lemma dh_agreeE:
  assumes "dh_agree a b"
  obtains s where "dh_fn a (dh_pub b) = Some s" and "dh_fn b (dh_pub a) = Some s"
  using assms by (metis dh_agree_def not_None_eq)

lemma dh_agree_sym: "dh_agree a b \<Longrightarrow> dh_agree b a"
  by (metis dh_agree_def)

lemma crypto_lengthsD:
  assumes "crypto_lengths C"
  shows "length (c_sha256 C x) = 32" and "length (c_hmac C k x) = 32"
    and "length (c_hkdf C i s f n) = n"
  using assms by (auto simp: crypto_lengths_def)

subsection \<open>A concrete instance\<close>

text \<open>
  Concrete functions that satisfy the laws, used to show that the hypotheses of the theorems
  can hold: a padded digest, a DH whose keys multiply one-byte exponents, a seal that appends
  sixteen tag bytes computed from everything it covers.
\<close>

definition demo_mix :: "bytes \<Rightarrow> byte" where
  "demo_mix x = foldl (\<lambda>a b. a * 31 + b + 7) 1 x"

definition demo_digest :: "nat \<Rightarrow> bytes \<Rightarrow> bytes" where
  "demo_digest n x = replicate n (demo_mix x)"

definition demo_crypto :: crypto where
  "demo_crypto =
     \<lparr>c_sha256 = demo_digest 32,
      c_hkdf = (\<lambda>i s f n. demo_digest n (i @ s @ f)),
      c_hmac = (\<lambda>k x. demo_digest 32 (k @ x)),
      c_seal = (\<lambda>k n a p. p @ demo_digest 16 (k @ n @ a @ p)),
      c_open = (\<lambda>k n a c. let p = take (length c - 16) c
        in if length c \<ge> 16 \<and> drop (length c - 16) c = demo_digest 16 (k @ n @ a @ p) then Some p else None)\<rparr>"

definition demo_dh :: "byte \<Rightarrow> dh_key" where
  "demo_dh e = \<lparr>dh_pub = replicate 32 e, dh_fn = (\<lambda>p. if length p = 32 then Some (replicate 32 (hd p * e)) else None)\<rparr>"

definition demo_kem :: "byte \<Rightarrow> kem_key" where
  "demo_kem e = \<lparr>kem_pub = replicate 1184 e, kem_decapsulate = (\<lambda>ct. Some (take 32 ct))\<rparr>"

definition demo_encapsulate :: "byte \<Rightarrow> bytes \<Rightarrow> (bytes \<times> bytes) option" where
  "demo_encapsulate r pub = Some (replicate 1088 (r + hd pub), replicate 32 (r + hd pub))"

lemma length_demo_digest [simp]: "length (demo_digest n x) = n"
  by (simp add: demo_digest_def)

lemma demo_crypto_lengths: "crypto_lengths demo_crypto"
  by (simp add: crypto_lengths_def demo_crypto_def)

lemma demo_aead_opens: "aead_opens demo_crypto"
  by (simp add: aead_opens_def demo_crypto_def Let_def)

lemma demo_aead_tagged: "aead_tagged demo_crypto"
  by (simp add: aead_tagged_def demo_crypto_def)

lemma demo_dh_agree: "dh_agree (demo_dh a) (demo_dh b)"
  by (simp add: dh_agree_def demo_dh_def mult.commute)

end
