(* ===== verification/Handshake.thy ===== *)
theory Handshake
  imports Wire Crypto
begin

section \<open>The EH-2 handshake (eh2/handshake.ts)\<close>

text \<open>
  The four steps of the key agreement as functions of the keys, the received frame and the
  clock: \<open>initiate\<close>, \<open>respond\<close>, \<open>initiatorComplete\<close>, \<open>responderComplete\<close>. A rejected promise
  is \<open>Inl\<close> an error, one constructor per throw; an error of the wire layer keeps its own.
  \<open>responderComplete\<close> also returns the state the caller goes on holding, because a failed MAC
  wipes the session key in place.
\<close>

datatype hs_error =
    WireFault wire_error
  | PeerKeyLength
  | TagKeyLength
  | OutsideWindow string int
  | MacRMismatch
  | MacIMismatch
  | TagIsOwn
  | TagNotContact
  | DhRejected
  | KemRejected
  | AfterComplete
  | ExpectedMsg1 byte
  | ExpectedMsg2 byte
  | ExpectedMsg3 byte
  | EmptyFrame

definition on_wire :: "wire_error + 'a \<Rightarrow> hs_error + 'a" where
  "on_wire m = (case m of Inl e \<Rightarrow> Inl (WireFault e) | Inr x \<Rightarrow> Inr x)"

lemma on_wire_Inr [ok_simps]: "on_wire m = Inr x \<longleftrightarrow> m = Inr x"
  by (auto simp: on_wire_def split: sum.splits)

lemma on_wire_simps [simp]: "on_wire (Inl e) = Inl (WireFault e)" "on_wire (Inr x) = Inr x"
  by (simp_all add: on_wire_def)

datatype role = Initiator | Responder

definition MAX_SKEW_MS :: int where "MAX_SKEW_MS = 5 * 60000"
definition SK_INFO :: bytes where "SK_INFO = ascii ''encedo-handshake-v2''"
definition LABEL_R :: bytes where "LABEL_R = ascii ''responder''"
definition LABEL_I :: bytes where "LABEL_I = ascii ''initiator''"

record hs_result =
  hs_role :: role
  hs_sk :: bytes
  hs_ekSelf :: "dh_key option"
  hs_ekPeerPub :: bytes
  hs_firstStepIkm :: bytes

record initiator_state =
  is_ik :: dh_key
  is_peerIkPub :: bytes
  is_ekI :: dh_key
  is_pq :: kem_key
  is_msg1Bytes :: bytes
  is_maxSkewMs :: int

record responder_state =
  rs_sk :: bytes
  rs_h3 :: bytes
  rs_ekPeerPub :: bytes
  rs_firstStepIkm :: bytes

subsection \<open>Helpers\<close>

definition initiatorTagKey :: "crypto \<Rightarrow> bytes \<Rightarrow> bytes" where
  "initiatorTagKey C announceKey = c_hmac C announceKey (ascii ''encedo-eh2-initiator-tag-v1'')"

definition initiatorTag :: "crypto \<Rightarrow> bytes \<Rightarrow> bytes \<Rightarrow> hs_error + bytes" where
  "initiatorTag C tagKey ikPub =
     (if length tagKey \<noteq> 32 then Inl TagKeyLength else Inr (c_hmac C tagKey ikPub))"

text \<open>The accumulating comparison: the XOR of every byte pair, ORed together.\<close>

fun xor_acc :: "byte \<Rightarrow> bytes \<Rightarrow> bytes \<Rightarrow> byte" where
  "xor_acc d (x # xs) (y # ys) = xor_acc (or d (xor x y)) xs ys"
| "xor_acc d _ _ = d"

definition sameBytes :: "bytes \<Rightarrow> bytes \<Rightarrow> bool" where
  "sameBytes a b = (length a = length b \<and> xor_acc 0 a b = 0)"

definition checkSkew :: "int \<Rightarrow> int \<Rightarrow> string \<Rightarrow> int \<Rightarrow> hs_error + unit" where
  "checkSkew ts now what maxSkewMs = check (\<not> \<bar>now - ts\<bar> > maxSkewMs) (OutsideWindow what (now - ts))"

definition deriveSK :: "crypto \<Rightarrow> bytes \<Rightarrow> bytes \<Rightarrow> bytes \<Rightarrow> bytes \<Rightarrow> bytes \<Rightarrow> bytes" where
  "deriveSK C dh1 dh2 dh3 ss h = c_hkdf C (dh1 @ dh2 @ dh3 @ ss) h SK_INFO 32"

definition mac :: "crypto \<Rightarrow> bytes \<Rightarrow> bytes \<Rightarrow> bytes \<Rightarrow> bytes" where
  "mac C sk label transcript = c_hmac C sk (label @ transcript)"

definition macVerify :: "crypto \<Rightarrow> bytes \<Rightarrow> bytes \<Rightarrow> bytes \<Rightarrow> bytes \<Rightarrow> bool" where
  "macVerify C sk label transcript tag = (c_hmac C sk (label @ transcript) = tag)"

subsection \<open>Initiator\<close>

definition initiate ::
  "crypto \<Rightarrow> dh_key \<Rightarrow> bytes \<Rightarrow> bytes \<Rightarrow> kem_key \<Rightarrow> dh_key \<Rightarrow> int \<Rightarrow> int
    \<Rightarrow> hs_error + (bytes \<times> initiator_state)" where
  "initiate C ik peerIkPub tagKey pq ekI now maxSkewMs =
     then_ok (check (length peerIkPub = 32) PeerKeyLength) (\<lambda>_.
     then_ok (initiatorTag C tagKey (dh_pub ik)) (\<lambda>tag.
     then_ok (on_wire (encodeMsg1 \<lparr>m1_ekPub = dh_pub ekI, m1_pqPub = kem_pub pq, m1_ts = now,
         m1_initiatorTag = tag\<rparr>)) (\<lambda>msg1.
       Inr (msg1, \<lparr>is_ik = ik, is_peerIkPub = peerIkPub, is_ekI = ekI, is_pq = pq,
         is_msg1Bytes = msg1, is_maxSkewMs = maxSkewMs\<rparr>))))"

definition initiatorComplete ::
  "crypto \<Rightarrow> initiator_state \<Rightarrow> bytes \<Rightarrow> int \<Rightarrow> hs_error + (bytes \<times> hs_result)" where
  "initiatorComplete C st msg2Bytes now =
     then_ok (on_wire (decodeMsg2 msg2Bytes)) (\<lambda>m2.
     then_ok (checkSkew (m2_ts m2) now ''msg2'' (is_maxSkewMs st)) (\<lambda>_.
     then_ok (from_option DhRejected (dh_fn (is_ekI st) (is_peerIkPub st))) (\<lambda>dh1.
     then_ok (from_option DhRejected (dh_fn (is_ik st) (m2_ekPub m2))) (\<lambda>dh2.
     then_ok (from_option DhRejected (dh_fn (is_ekI st) (m2_ekPub m2))) (\<lambda>dh3.
     then_ok (from_option KemRejected (kem_decapsulate (is_pq st) (m2_pqCt m2))) (\<lambda>ss.
     let h = h1 (c_sha256 C) (is_msg1Bytes st);
         sk = deriveSK C dh1 dh2 dh3 ss h in
     then_ok (on_wire (h2Partial (c_sha256 C) (is_msg1Bytes st) (m2_ekPub m2) (m2_pqCt m2) (m2_ts m2))) (\<lambda>h2p.
     then_ok (check (macVerify C sk LABEL_R h2p (m2_macR m2)) MacRMismatch) (\<lambda>_.
     then_ok (on_wire (h3 (c_sha256 C) h2p (m2_macR m2))) (\<lambda>h3v.
     then_ok (on_wire (encodeMsg3 \<lparr>m3_macI = mac C sk LABEL_I h3v\<rparr>)) (\<lambda>msg3.
       Inr (msg3, \<lparr>hs_role = Initiator, hs_sk = sk, hs_ekSelf = Some (is_ekI st),
         hs_ekPeerPub = m2_ekPub m2, hs_firstStepIkm = dh3\<rparr>)))))))))))"

subsection \<open>Responder\<close>

definition respond ::
  "crypto \<Rightarrow> (bytes \<Rightarrow> (bytes \<times> bytes) option) \<Rightarrow> dh_key \<Rightarrow> bytes \<Rightarrow> bytes \<Rightarrow> bytes \<Rightarrow> dh_key \<Rightarrow> int \<Rightarrow> int
    \<Rightarrow> hs_error + (bytes \<times> responder_state)" where
  "respond C encapsulate ik peerIkPub tagKey msg1Bytes ekR now maxSkewMs =
     then_ok (check (length peerIkPub = 32) PeerKeyLength) (\<lambda>_.
     then_ok (on_wire (decodeMsg1 msg1Bytes)) (\<lambda>m1.
     then_ok (checkSkew (m1_ts m1) now ''msg1'' maxSkewMs) (\<lambda>_.
     then_ok (initiatorTag C tagKey peerIkPub) (\<lambda>contactTag.
     then_ok (if sameBytes (m1_initiatorTag m1) contactTag then Inr ()
       else then_ok (initiatorTag C tagKey (dh_pub ik)) (\<lambda>ownTag.
         if sameBytes (m1_initiatorTag m1) ownTag then Inl TagIsOwn else Inl TagNotContact)) (\<lambda>_.
     then_ok (from_option KemRejected (encapsulate (m1_pqPub m1))) (\<lambda>(ct, ss).
     then_ok (from_option DhRejected (dh_fn ik (m1_ekPub m1))) (\<lambda>dh1.
     then_ok (from_option DhRejected (dh_fn ekR peerIkPub)) (\<lambda>dh2.
     then_ok (from_option DhRejected (dh_fn ekR (m1_ekPub m1))) (\<lambda>dh3.
     let h = h1 (c_sha256 C) msg1Bytes;
         sk = deriveSK C dh1 dh2 dh3 ss h in
     then_ok (on_wire (h2Partial (c_sha256 C) msg1Bytes (dh_pub ekR) ct now)) (\<lambda>h2p.
     let macR = mac C sk LABEL_R h2p in
     then_ok (on_wire (encodeMsg2 \<lparr>m2_ekPub = dh_pub ekR, m2_pqCt = ct, m2_ts = now, m2_macR = macR\<rparr>)) (\<lambda>msg2.
     then_ok (on_wire (h3 (c_sha256 C) h2p macR)) (\<lambda>h3v.
       Inr (msg2, \<lparr>rs_sk = sk, rs_h3 = h3v, rs_ekPeerPub = m1_ekPub m1, rs_firstStepIkm = dh3\<rparr>)))))))))))))"

definition wipe :: "bytes \<Rightarrow> bytes" where
  "wipe b = replicate (length b) 0"

definition responderComplete ::
  "crypto \<Rightarrow> responder_state \<Rightarrow> bytes \<Rightarrow> (hs_error + hs_result) \<times> responder_state" where
  "responderComplete C st msg3Bytes =
     (case decodeMsg3 msg3Bytes of
        Inl e \<Rightarrow> (Inl (WireFault e), st)
      | Inr m3 \<Rightarrow>
          if \<not> macVerify C (rs_sk st) LABEL_I (rs_h3 st) (m3_macI m3)
          then (Inl MacIMismatch,
            st\<lparr>rs_sk := wipe (rs_sk st), rs_firstStepIkm := wipe (rs_firstStepIkm st)\<rparr>)
          else (Inr \<lparr>hs_role = Responder, hs_sk = rs_sk st, hs_ekSelf = None,
              hs_ekPeerPub = rs_ekPeerPub st, hs_firstStepIkm = rs_firstStepIkm st\<rparr>, st))"

subsection \<open>Lemmas\<close>

lemma checkSkew_Inr [ok_simps]: "checkSkew ts now what m = Inr u \<longleftrightarrow> \<bar>now - ts\<bar> \<le> m"
  by (auto simp: checkSkew_def check_Inr)

lemma initiatorTag_Inr [ok_simps]:
  "initiatorTag C k p = Inr t \<longleftrightarrow> length k = 32 \<and> t = c_hmac C k p"
  by (auto simp: initiatorTag_def)

lemma or_eq_0_iff_word: "or x y = 0 \<longleftrightarrow> x = 0 \<and> y = (0 :: 'a::len word)"
  by (simp add: or_eq_0_iff)

lemma xor_eq_0_iff_word: "xor x y = 0 \<longleftrightarrow> x = (y :: 'a::len word)"
  by (metis xor.left_neutral bit.xor_self xor.assoc)

lemma xor_acc_0: "length a = length b \<Longrightarrow> xor_acc d a b = 0 \<longleftrightarrow> d = 0 \<and> a = b"
  by (induction d a b rule: xor_acc.induct) (auto simp: or_eq_0_iff_word xor_eq_0_iff_word)

lemma sameBytes_eq [simp]: "sameBytes a b \<longleftrightarrow> a = b"
  by (auto simp: sameBytes_def xor_acc_0)

lemma h2Partial_Inr [ok_simps]:
  "h2Partial sha m ek ct ts = Inr t \<longleftrightarrow> (\<exists>i. h2_input m ek ct ts = Inr i \<and> t = sha i)"
  by (auto simp: h2Partial_def then_ok_Inr)

lemmas hs_defs = initiate_def respond_def initiatorComplete_def responderComplete_def

lemma initiateE:
  assumes "initiate C ik p k pq ek now sk = Inr (m, st)"
  obtains "length p = 32" and "length k = 32"
    and "encodeMsg1 \<lparr>m1_ekPub = dh_pub ek, m1_pqPub = kem_pub pq, m1_ts = now,
           m1_initiatorTag = c_hmac C k (dh_pub ik)\<rparr> = Inr m"
    and "st = \<lparr>is_ik = ik, is_peerIkPub = p, is_ekI = ek, is_pq = pq, is_msg1Bytes = m, is_maxSkewMs = sk\<rparr>"
  using assms by (auto simp: initiate_def ok_simps)


lemma respondE:
  assumes "respond C enc ik p k mb ekR now sk = Inr (m2b, st)"
  obtains m1 ct ss dh1 dh2 dh3 h2p where
    "length p = 32" and "decodeMsg1 mb = Inr m1" and "\<bar>now - m1_ts m1\<bar> \<le> sk" and "length k = 32"
    and "m1_initiatorTag m1 = c_hmac C k p"
    and "enc (m1_pqPub m1) = Some (ct, ss)"
    and "dh_fn ik (m1_ekPub m1) = Some dh1" and "dh_fn ekR p = Some dh2" and "dh_fn ekR (m1_ekPub m1) = Some dh3"
    and "h2Partial (c_sha256 C) mb (dh_pub ekR) ct now = Inr h2p"
    and "encodeMsg2 \<lparr>m2_ekPub = dh_pub ekR, m2_pqCt = ct, m2_ts = now,
           m2_macR = mac C (deriveSK C dh1 dh2 dh3 ss (h1 (c_sha256 C) mb)) LABEL_R h2p\<rparr> = Inr m2b"
    and "h3 (c_sha256 C) h2p (mac C (deriveSK C dh1 dh2 dh3 ss (h1 (c_sha256 C) mb)) LABEL_R h2p) = Inr (rs_h3 st)"
    and "rs_sk st = deriveSK C dh1 dh2 dh3 ss (h1 (c_sha256 C) mb)"
    and "rs_ekPeerPub st = m1_ekPub m1" and "rs_firstStepIkm st = dh3"
  using assms unfolding respond_def
  by (auto simp: ok_simps Let_def split: if_splits prod.splits)

lemma initiatorCompleteE:
  assumes "initiatorComplete C st m2b now = Inr (m3b, r)"
  obtains m2 dh1 dh2 dh3 ss h2p h3v where
    "decodeMsg2 m2b = Inr m2" and "\<bar>now - m2_ts m2\<bar> \<le> is_maxSkewMs st"
    and "dh_fn (is_ekI st) (is_peerIkPub st) = Some dh1" and "dh_fn (is_ik st) (m2_ekPub m2) = Some dh2"
    and "dh_fn (is_ekI st) (m2_ekPub m2) = Some dh3" and "kem_decapsulate (is_pq st) (m2_pqCt m2) = Some ss"
    and "hs_sk r = deriveSK C dh1 dh2 dh3 ss (h1 (c_sha256 C) (is_msg1Bytes st))"
    and "h2Partial (c_sha256 C) (is_msg1Bytes st) (m2_ekPub m2) (m2_pqCt m2) (m2_ts m2) = Inr h2p"
    and "m2_macR m2 = mac C (hs_sk r) LABEL_R h2p"
    and "h3 (c_sha256 C) h2p (m2_macR m2) = Inr h3v"
    and "encodeMsg3 \<lparr>m3_macI = mac C (hs_sk r) LABEL_I h3v\<rparr> = Inr m3b"
    and "r = \<lparr>hs_role = Initiator, hs_sk = hs_sk r, hs_ekSelf = Some (is_ekI st),
           hs_ekPeerPub = m2_ekPub m2, hs_firstStepIkm = dh3\<rparr>"
  using assms unfolding initiatorComplete_def
  by (auto simp: ok_simps Let_def macVerify_def mac_def)

lemma initiatorCompleteI:
  assumes "decodeMsg2 m2b = Inr m2" and "\<bar>now - m2_ts m2\<bar> \<le> is_maxSkewMs st"
    and "dh_fn (is_ekI st) (is_peerIkPub st) = Some dh1" and "dh_fn (is_ik st) (m2_ekPub m2) = Some dh2"
    and "dh_fn (is_ekI st) (m2_ekPub m2) = Some dh3" and "kem_decapsulate (is_pq st) (m2_pqCt m2) = Some ss"
    and "sk = deriveSK C dh1 dh2 dh3 ss (h1 (c_sha256 C) (is_msg1Bytes st))"
    and "h2Partial (c_sha256 C) (is_msg1Bytes st) (m2_ekPub m2) (m2_pqCt m2) (m2_ts m2) = Inr h2p"
    and "m2_macR m2 = mac C sk LABEL_R h2p"
    and "h3 (c_sha256 C) h2p (m2_macR m2) = Inr h3v"
    and "encodeMsg3 \<lparr>m3_macI = mac C sk LABEL_I h3v\<rparr> = Inr m3b"
  shows "initiatorComplete C st m2b now = Inr (m3b, \<lparr>hs_role = Initiator, hs_sk = sk,
     hs_ekSelf = Some (is_ekI st), hs_ekPeerPub = m2_ekPub m2, hs_firstStepIkm = dh3\<rparr>)"
  using assms unfolding initiatorComplete_def
  by (simp add: Let_def macVerify_def mac_def checkSkew_def)

lemma responderComplete_Inr:
  "fst (responderComplete C st b) = Inr r \<longleftrightarrow>
     (\<exists>m. decodeMsg3 b = Inr m \<and> m3_macI m = mac C (rs_sk st) LABEL_I (rs_h3 st)
        \<and> r = \<lparr>hs_role = Responder, hs_sk = rs_sk st, hs_ekSelf = None,
              hs_ekPeerPub = rs_ekPeerPub st, hs_firstStepIkm = rs_firstStepIkm st\<rparr>)"
  by (auto simp: responderComplete_def macVerify_def mac_def split: sum.splits)

lemma responderComplete_ok_state:
  "fst (responderComplete C st b) = Inr r \<Longrightarrow> snd (responderComplete C st b) = st"
  by (auto simp: responderComplete_def split: sum.splits if_splits)

text \<open>
  The agreement lemma: what the responder computed from the initiator's msg1 lets the
  initiator complete, and the msg3 it produces lets the responder complete, with the same key.
\<close>

lemma handshake_completes:
  assumes len: "crypto_lengths C"
    and init: "initiate C ikI (dh_pub ikR) k pq ekI t1 skew = Inr (m1b, sI)"
    and resp: "respond C enc ikR (dh_pub ikI) k m1b ekR t2 skew' = Inr (m2b, sR)"
    and dh: "dh_agree ikR ekI" "dh_agree ekR ikI" "dh_agree ekR ekI"
    and kem: "\<And>ct ss. enc (kem_pub pq) = Some (ct, ss) \<Longrightarrow> kem_decapsulate pq ct = Some ss"
    and skew: "\<bar>t3 - t2\<bar> \<le> skew"
  shows "\<exists>m3b rI rR. initiatorComplete C sI m2b t3 = Inr (m3b, rI)
     \<and> fst (responderComplete C sR m3b) = Inr rR
     \<and> hs_sk rI = hs_sk rR \<and> hs_firstStepIkm rI = hs_firstStepIkm rR
     \<and> hs_role rI = Initiator \<and> hs_role rR = Responder
     \<and> hs_ekSelf rI = Some ekI \<and> hs_ekPeerPub rI = dh_pub ekR \<and> hs_ekPeerPub rR = dh_pub ekI"
proof -
  from init have m1: "decodeMsg1 m1b = Inr \<lparr>m1_ekPub = dh_pub ekI, m1_pqPub = kem_pub pq, m1_ts = t1,
           m1_initiatorTag = c_hmac C k (dh_pub ikI)\<rparr>"
    and sI: "sI = \<lparr>is_ik = ikI, is_peerIkPub = dh_pub ikR, is_ekI = ekI, is_pq = pq, is_msg1Bytes = m1b, is_maxSkewMs = skew\<rparr>"
    by (auto elim!: initiateE intro: msg1_codec.dec_enc)
  from resp m1 obtain ct ss dh1 dh2 dh3 h2p where
    r: "enc (kem_pub pq) = Some (ct, ss)" "dh_fn ikR (dh_pub ekI) = Some dh1"
      "dh_fn ekR (dh_pub ikI) = Some dh2" "dh_fn ekR (dh_pub ekI) = Some dh3"
      "h2Partial (c_sha256 C) m1b (dh_pub ekR) ct t2 = Inr h2p"
      "rs_ekPeerPub sR = dh_pub ekI" "rs_firstStepIkm sR = dh3"
      "encodeMsg2 \<lparr>m2_ekPub = dh_pub ekR, m2_pqCt = ct, m2_ts = t2, m2_macR = mac C (rs_sk sR) LABEL_R h2p\<rparr> = Inr m2b"
      "h3 (c_sha256 C) h2p (mac C (rs_sk sR) LABEL_R h2p) = Inr (rs_h3 sR)"
      "rs_sk sR = deriveSK C dh1 dh2 dh3 ss (h1 (c_sha256 C) m1b)"
    by (elim respondE) simp
  have d: "dh_fn ekI (dh_pub ikR) = Some dh1" "dh_fn ikI (dh_pub ekR) = Some dh2" "dh_fn ekI (dh_pub ekR) = Some dh3"
    using dh r by (auto simp: dh_agree_def)
  let ?m3 = "\<lparr>m3_macI = mac C (rs_sk sR) LABEL_I (rs_h3 sR)\<rparr>"
  obtain m3b where m3: "encodeMsg3 ?m3 = Inr m3b"
    using crypto_lengthsD [OF len] by (auto simp: encodeMsg3_iff mac_def)
  have "initiatorComplete C sI m2b t3 = Inr (m3b, \<lparr>hs_role = Initiator, hs_sk = rs_sk sR,
     hs_ekSelf = Some ekI, hs_ekPeerPub = dh_pub ekR, hs_firstStepIkm = dh3\<rparr>)"
    using initiatorCompleteI [OF msg2_codec.dec_enc [OF r(8)], of t3 sI dh1 dh2 dh3 ss "rs_sk sR" C h2p "rs_h3 sR" m3b]
      d skew kem [OF r(1)] r m3 by (simp add: sI)
  moreover have "fst (responderComplete C sR m3b) = Inr \<lparr>hs_role = Responder, hs_sk = rs_sk sR, hs_ekSelf = None,
      hs_ekPeerPub = rs_ekPeerPub sR, hs_firstStepIkm = rs_firstStepIkm sR\<rparr>"
    using msg3_codec.dec_enc [OF m3] by (simp add: responderComplete_Inr)
  ultimately show ?thesis using r by simp
qed

end
