(* ===== verification/Establish.thy ===== *)
theory Establish
  imports Handshake
begin

section \<open>Driving the handshake (eh2/establish.ts)\<close>

text \<open>
  The object \<open>startHandshake\<close> returns, as a state: the role's handshake state, the
  \<open>authenticated\<close> flag and the \<open>session\<close> promise, which settles once and then keeps its
  value. \<open>feed\<close> takes one inbound frame with what the call draws from outside (the
  encapsulation, a fresh \<open>EK_r\<close>, the clock) and returns the reply or the error it throws.
  The choice of engine is a second small machine, \<open>start_engine\<close>. The session itself is the
  ratchet of theory \<open>Ratchet\<close>, built from the \<open>hs_result\<close> a resolved promise holds here.
\<close>

subsection \<open>The session promise\<close>

datatype settled = Unsettled | Resolved hs_result | Rejected hs_error

fun settle :: "settled \<Rightarrow> settled \<Rightarrow> settled" where
  "settle Unsettled v = v"
| "settle v _ = v"

record establish =
  es_role :: role
  es_state :: "initiator_state option"
  es_pending :: "responder_state option"
  es_authenticated :: bool
  es_session :: settled

record est_config =
  ec_ik :: dh_key
  ec_peerIkPub :: bytes
  ec_tagKey :: bytes

record feed_env =
  fe_encapsulate :: "bytes \<Rightarrow> (bytes \<times> bytes) option"
  fe_ekR :: dh_key
  fe_now :: int

subsection \<open>Frame kinds\<close>

definition isHandshakeFrame :: "bytes \<Rightarrow> bool" where
  "isHandshakeFrame frame =
     (length frame > 2 \<and> (frame ! 0 = T_MSG1 \<or> frame ! 0 = T_MSG2 \<or> frame ! 0 = T_MSG3))"

definition first_byte :: "bytes \<Rightarrow> byte option" where
  "first_byte frame = (case frame of [] \<Rightarrow> None | b # _ \<Rightarrow> Some b)"

definition wrong_frame :: "(byte \<Rightarrow> hs_error) \<Rightarrow> bytes \<Rightarrow> hs_error" where
  "wrong_frame mk frame = (case first_byte frame of None \<Rightarrow> EmptyFrame | Some b \<Rightarrow> mk b)"

subsection \<open>Opening and feeding\<close>

definition start_initiator ::
  "crypto \<Rightarrow> est_config \<Rightarrow> kem_key \<Rightarrow> dh_key \<Rightarrow> int \<Rightarrow> hs_error + (bytes list \<times> establish)" where
  "start_initiator C cfg pq ekI now =
     then_ok (initiate C (ec_ik cfg) (ec_peerIkPub cfg) (ec_tagKey cfg) pq ekI now MAX_SKEW_MS) (\<lambda>(msg1, st).
       Inr ([msg1], \<lparr>es_role = Initiator, es_state = Some st, es_pending = None,
         es_authenticated = False, es_session = Unsettled\<rparr>))"

definition start_responder :: "bytes list \<times> establish" where
  "start_responder = ([], \<lparr>es_role = Responder, es_state = None, es_pending = None,
     es_authenticated = False, es_session = Unsettled\<rparr>)"

definition feed_initiator ::
  "crypto \<Rightarrow> feed_env \<Rightarrow> establish \<Rightarrow> bytes \<Rightarrow> (hs_error + bytes option) \<times> establish" where
  "feed_initiator C env s frame =
     (case es_state s of
        None \<Rightarrow> (Inl AfterComplete, s)
      | Some st \<Rightarrow>
          if first_byte frame \<noteq> Some T_MSG2 then (Inl (wrong_frame ExpectedMsg2 frame), s)
          else case initiatorComplete C st frame (fe_now env) of
            Inr (msg3, result) \<Rightarrow>
              (Inr (Some msg3), s\<lparr>es_state := None, es_authenticated := True,
                es_session := settle (es_session s) (Resolved result)\<rparr>)
          | Inl e \<Rightarrow> (Inl e, s\<lparr>es_session := settle (es_session s) (Rejected e)\<rparr>))"

definition feed_responder ::
  "crypto \<Rightarrow> est_config \<Rightarrow> feed_env \<Rightarrow> establish \<Rightarrow> bytes \<Rightarrow> (hs_error + bytes option) \<times> establish" where
  "feed_responder C cfg env s frame =
     (case es_pending s of
        None \<Rightarrow>
          if first_byte frame \<noteq> Some T_MSG1
          then let e = wrong_frame ExpectedMsg1 frame in
            (Inl e, s\<lparr>es_session := settle (es_session s) (Rejected e)\<rparr>)
          else (case respond C (fe_encapsulate env) (ec_ik cfg) (ec_peerIkPub cfg) (ec_tagKey cfg) frame
              (fe_ekR env) (fe_now env) MAX_SKEW_MS of
            Inr (msg2, st) \<Rightarrow> (Inr (Some msg2), s\<lparr>es_pending := Some st\<rparr>)
          | Inl e \<Rightarrow> (Inl e, s\<lparr>es_session := settle (es_session s) (Rejected e)\<rparr>))
      | Some st \<Rightarrow>
          if first_byte frame \<noteq> Some T_MSG3
          then let e = wrong_frame ExpectedMsg3 frame in
            (Inl e, s\<lparr>es_session := settle (es_session s) (Rejected e)\<rparr>)
          else (case responderComplete C st frame of
            (Inr result, _) \<Rightarrow>
              (Inr None, s\<lparr>es_pending := None, es_authenticated := True,
                es_session := settle (es_session s) (Resolved result)\<rparr>)
          | (Inl e, st') \<Rightarrow>
              (Inl e, s\<lparr>es_pending := Some st', es_session := settle (es_session s) (Rejected e)\<rparr>)))"

definition feed ::
  "crypto \<Rightarrow> est_config \<Rightarrow> feed_env \<Rightarrow> establish \<Rightarrow> bytes \<Rightarrow> (hs_error + bytes option) \<times> establish" where
  "feed C cfg env s frame =
     (case es_role s of
        Initiator \<Rightarrow> feed_initiator C env s frame
      | Responder \<Rightarrow> feed_responder C cfg env s frame)"

definition feed_step :: "crypto \<Rightarrow> est_config \<Rightarrow> establish \<Rightarrow> feed_env \<times> bytes \<Rightarrow> establish" where
  "feed_step C cfg s i = snd (feed C cfg (fst i) s (snd i))"

subsection \<open>Which engine computes it\<close>

datatype core_backend = Ts | Wasm | Native

record core_status =
  cs_backend :: core_backend
  cs_asked :: core_backend
  cs_used :: "core_backend option"
  cs_fallbacks :: "(core_backend \<times> core_backend \<times> string) list"

definition initial_core :: core_status where
  "initial_core = \<lparr>cs_backend = Ts, cs_asked = Ts, cs_used = None, cs_fallbacks = []\<rparr>"

definition setCoreBackend :: "core_backend \<Rightarrow> core_status" where
  "setCoreBackend b = \<lparr>cs_backend = b, cs_asked = b, cs_used = None, cs_fallbacks = []\<rparr>"

definition fellBack :: "core_backend \<Rightarrow> core_backend \<Rightarrow> string \<Rightarrow> core_status \<Rightarrow> core_status" where
  "fellBack from to e s = s\<lparr>cs_fallbacks := cs_fallbacks s @ [(from, to, take 200 e)]\<rparr>"

text \<open>
  \<open>native\<close>, \<open>load\<close> and \<open>wasm\<close> are the outcomes of the three calls outside this module
  (\<open>startHandshakeNative\<close>, \<open>loadCore\<close>, \<open>startHandshakeWasm\<close>), an error message or success.
  The result is the engine the handshake runs on, or the error that leaves the function.
\<close>

definition try_native :: "bool \<Rightarrow> string option \<Rightarrow> core_status \<Rightarrow> core_status \<times> core_backend option" where
  "try_native kemInjected native s =
     (if cs_backend s = Native \<and> \<not> kemInjected
      then case native of
          None \<Rightarrow> (s\<lparr>cs_used := Some Native\<rparr>, Some Native)
        | Some e \<Rightarrow> (fellBack Native Wasm e (s\<lparr>cs_backend := Wasm\<rparr>), None)
      else (s, None))"

definition try_wasm ::
  "bool \<Rightarrow> string option \<Rightarrow> string option \<Rightarrow> core_status \<Rightarrow> core_status \<times> (string + core_backend) option" where
  "try_wasm kemInjected load wasm s =
     (if cs_backend s = Wasm \<and> \<not> kemInjected
      then case load of
          Some e \<Rightarrow> (fellBack Wasm Ts e (s\<lparr>cs_backend := Ts\<rparr>), None)
        | None \<Rightarrow> (case wasm of
            Some e \<Rightarrow> (s, Some (Inl e))
          | None \<Rightarrow> (s\<lparr>cs_used := Some Wasm\<rparr>, Some (Inr Wasm)))
      else (s, None))"

definition start_engine ::
  "bool \<Rightarrow> string option \<Rightarrow> string option \<Rightarrow> string option \<Rightarrow> core_status \<Rightarrow> core_status \<times> (string + core_backend)" where
  "start_engine kemInjected native load wasm s =
     (case try_native kemInjected native s of
        (s1, Some b) \<Rightarrow> (s1, Inr b)
      | (s1, None) \<Rightarrow> (case try_wasm kemInjected load wasm s1 of
          (s2, Some r) \<Rightarrow> (s2, r)
        | (s2, None) \<Rightarrow> (if kemInjected then s2 else s2\<lparr>cs_used := Some Ts\<rparr>, Inr Ts)))"

subsection \<open>Lemmas\<close>

lemma settle_settled [simp]: "v \<noteq> Unsettled \<Longrightarrow> settle v w = v"
  by (cases v) auto

lemma settle_Resolved: "settle v w = Resolved r \<longleftrightarrow> v = Resolved r \<or> v = Unsettled \<and> w = Resolved r"
  by (cases v) auto

lemma settle_Unsettled: "settle v w = Unsettled \<longleftrightarrow> v = Unsettled \<and> w = Unsettled"
  by (cases v) auto

lemmas feed_defs = feed_def feed_initiator_def feed_responder_def

lemma feed_role [simp]: "es_role (snd (feed C cfg env s f)) = es_role s"
  by (auto simp: feed_defs Let_def split: role.splits option.splits sum.splits prod.splits)

lemma feed_keeps_settled:
  "es_session s \<noteq> Unsettled \<Longrightarrow> es_session (snd (feed C cfg env s f)) = es_session s"
  by (auto simp: feed_defs Let_def split: role.splits option.splits sum.splits prod.splits)

text \<open>The invariant: a session that resolved has an authenticated peer.\<close>

definition est_inv :: "establish \<Rightarrow> bool" where
  "est_inv s \<longleftrightarrow> (\<forall>r. es_session s = Resolved r \<longrightarrow> es_authenticated s)"

lemma feed_est_inv: "est_inv s \<Longrightarrow> est_inv (snd (feed C cfg env s f))"
  by (auto simp: est_inv_def feed_defs Let_def settle_Resolved
      split: role.splits option.splits sum.splits prod.splits)

definition has_settled :: "establish \<Rightarrow> bool" where
  "has_settled s \<longleftrightarrow> es_session s \<noteq> Unsettled"

interpretation est: absorbing "feed_step C cfg" est_inv has_settled
  by unfold_locales (simp_all add: feed_step_def feed_est_inv has_settled_def feed_keeps_settled)

text \<open>A step that resolves the responder's session consumed a msg3 whose MAC verified.\<close>

lemma feed_responder_resolves:
  assumes "es_role s = Responder" and "es_session s = Unsettled"
    and "es_session (snd (feed C cfg env s f)) = Resolved r"
  shows "\<exists>p m. es_pending s = Some p \<and> decodeMsg3 f = Inr m
     \<and> m3_macI m = mac C (rs_sk p) LABEL_I (rs_h3 p) \<and> hs_sk r = rs_sk p \<and> hs_role r = Responder"
  using assms
  by (auto simp: feed_def feed_responder_def Let_def responderComplete_def macVerify_def mac_def
      split: option.splits sum.splits prod.splits if_splits)

lemma feed_responder_msg1:
  assumes "es_role s = Responder" and "es_pending s = None"
  shows "es_authenticated (snd (feed C cfg env s f)) = es_authenticated s"
    and "\<exists>e. es_session (snd (feed C cfg env s f)) = settle (es_session s) (Rejected e)
       \<or> es_session (snd (feed C cfg env s f)) = es_session s"
  using assms by (auto simp: feed_def feed_responder_def Let_def
      split: option.splits sum.splits prod.splits if_splits)

end
