(* ===== verification/EstablishFacts.thy ===== *)
theory EstablishFacts
  imports Establish
begin

section \<open>What an established session rests on (eh2/establish.ts)\<close>

text \<open>
  Two objects fed each other's frames both resolve, with the same key (\<open>exchange_agrees\<close>), and
  a session that resolved, after whatever frames, rests on a verified MAC
  (\<open>initiator_authentic\<close>, \<open>responder_authentic\<close>). \<open>zero_key_authenticates\<close> shows what a wiped
  state still lets through.
\<close>

subsection \<open>The exchange\<close>

text \<open>Lengths of the keys of an honest pair, and the laws of the primitives on them.\<close>

definition honest_pair ::
  "crypto \<Rightarrow> est_config \<Rightarrow> est_config \<Rightarrow> kem_key \<Rightarrow> dh_key \<Rightarrow> feed_env \<Rightarrow> bool" where
  "honest_pair C cI cR pq ekI eR \<longleftrightarrow> crypto_lengths C
     \<and> ec_peerIkPub cI = dh_pub (ec_ik cR) \<and> ec_peerIkPub cR = dh_pub (ec_ik cI) \<and> ec_tagKey cI = ec_tagKey cR
     \<and> length (dh_pub (ec_ik cI)) = 32 \<and> length (dh_pub (ec_ik cR)) = 32 \<and> length (ec_tagKey cI) = 32
     \<and> length (dh_pub ekI) = 32 \<and> length (dh_pub (fe_ekR eR)) = 32 \<and> length (kem_pub pq) = 1184
     \<and> dh_agree (ec_ik cR) ekI \<and> dh_agree (fe_ekR eR) (ec_ik cI) \<and> dh_agree (fe_ekR eR) ekI
     \<and> (case fe_encapsulate eR (kem_pub pq) of None \<Rightarrow> False
         | Some (ct, ss) \<Rightarrow> length ct = 1088 \<and> kem_decapsulate pq ct = Some ss)"

lemma encodeMsg1_ok: "frame_ok MLKEM768_PK (m1_ekPub m) (m1_pqPub m) (m1_ts m) (m1_initiatorTag m) \<Longrightarrow>
    encodeMsg1 m = Inr (frame_bytes T_MSG1 (m1_ekPub m) (m1_pqPub m) (m1_ts m) (m1_initiatorTag m))"
  by (simp add: encodeMsg1_iff)

lemma encodeMsg2_ok: "frame_ok MLKEM768_CT (m2_ekPub m) (m2_pqCt m) (m2_ts m) (m2_macR m) \<Longrightarrow>
    encodeMsg2 m = Inr (frame_bytes T_MSG2 (m2_ekPub m) (m2_pqCt m) (m2_ts m) (m2_macR m))"
  by (simp add: encodeMsg2_iff)

lemma first_byte_frame [simp]: "first_byte (frame_bytes t ek pq ts tag) = Some t"
  by (simp add: frame_bytes_def first_byte_def)

lemma initiate_succeeds:
  assumes "length p = 32" "length k = 32" "length (dh_pub ekI) = 32" "length (kem_pub pq) = 1184"
    and "crypto_lengths C" "0 \<le> now" "now \<le> MAX_SAFE_INTEGER"
  shows "initiate C ik p k pq ekI now sk =
     (let m = frame_bytes T_MSG1 (dh_pub ekI) (kem_pub pq) now (c_hmac C k (dh_pub ik)) in
      Inr (m, \<lparr>is_ik = ik, is_peerIkPub = p, is_ekI = ekI, is_pq = pq, is_msg1Bytes = m, is_maxSkewMs = sk\<rparr>))"
  using assms crypto_lengthsD(2) [of C k "dh_pub ik"]
  by (simp add: initiate_def initiatorTag_def Let_def encodeMsg1_ok frame_ok_def MLKEM768_PK_def)

lemma respond_succeeds:
  assumes "length p = 32" "length k = 32" "crypto_lengths C" "0 \<le> now" "now \<le> MAX_SAFE_INTEGER"
    and m1: "decodeMsg1 m1b = Inr m1" "\<bar>now - m1_ts m1\<bar> \<le> sk" "m1_initiatorTag m1 = c_hmac C k p"
    and "enc (m1_pqPub m1) = Some (ct, ss)" "length ct = 1088" "length (dh_pub ekR) = 32"
    and "dh_fn ik (m1_ekPub m1) = Some d1" "dh_fn ekR p = Some d2" "dh_fn ekR (m1_ekPub m1) = Some d3"
  shows "\<exists>m2 st. respond C enc ik p k m1b ekR now sk = Inr (m2, st) \<and> first_byte m2 = Some T_MSG2"
proof -
  let ?K = "deriveSK C d1 d2 d3 ss (h1 (c_sha256 C) m1b)"
  have hi: "h2_input m1b (dh_pub ekR) ct now = Inr (m1b @ dh_pub ekR @ ct @ be_enc TS (nat now))"
    using assms by (simp add: h2_input_Inr)
  define h2p where "h2p = c_sha256 C (m1b @ dh_pub ekR @ ct @ be_enc TS (nat now))"
  have h2: "h2Partial (c_sha256 C) m1b (dh_pub ekR) ct now = Inr h2p" by (simp add: h2Partial_Inr hi h2p_def)
  have l: "length h2p = 32" "length (mac C ?K LABEL_R h2p) = 32"
    using crypto_lengthsD [OF assms(3)] by (simp_all add: h2p_def mac_def)
  have h3: "h3 (c_sha256 C) h2p (mac C ?K LABEL_R h2p) = Inr (c_sha256 C (h2p @ mac C ?K LABEL_R h2p))"
    using l by (simp add: h3_Inr)
  have e: "encodeMsg2 \<lparr>m2_ekPub = dh_pub ekR, m2_pqCt = ct, m2_ts = now, m2_macR = mac C ?K LABEL_R h2p\<rparr>
      = Inr (frame_bytes T_MSG2 (dh_pub ekR) ct now (mac C ?K LABEL_R h2p))"
    using assms l by (simp add: encodeMsg2_ok frame_ok_def MLKEM768_CT_def)
  have "checkSkew (m1_ts m1) now ''msg1'' sk = Inr ()" using m1(2) by (simp add: checkSkew_Inr)
  then show ?thesis using assms h2 h3 e by (simp add: respond_def Let_def initiatorTag_def)
qed

lemma exchange_agrees:
  assumes h: "honest_pair C cI cR pq ekI eR"
    and t1: "0 \<le> t1" "t1 \<le> MAX_SAFE_INTEGER" and t2: "0 \<le> fe_now eR" "fe_now eR \<le> MAX_SAFE_INTEGER"
    and skew: "\<bar>fe_now eR - t1\<bar> \<le> MAX_SKEW_MS" "\<bar>fe_now eI - fe_now eR\<bar> \<le> MAX_SKEW_MS"
  shows "\<exists>m1 m2 m3 sI sR sI' sR' rI rR.
     start_initiator C cI pq ekI t1 = Inr ([m1], sI)
     \<and> feed C cR eR (snd start_responder) m1 = (Inr (Some m2), sR)
     \<and> feed C cI eI sI m2 = (Inr (Some m3), sI')
     \<and> feed C cR eR' sR m3 = (Inr None, sR')
     \<and> es_session sI' = Resolved rI \<and> es_session sR' = Resolved rR
     \<and> es_authenticated sI' \<and> es_authenticated sR'
     \<and> hs_sk rI = hs_sk rR \<and> hs_firstStepIkm rI = hs_firstStepIkm rR
     \<and> hs_role rI = Initiator \<and> hs_role rR = Responder
     \<and> hs_ekSelf rI = Some ekI \<and> hs_ekPeerPub rI = dh_pub (fe_ekR eR) \<and> hs_ekPeerPub rR = dh_pub ekI"
proof -
  let ?ikI = "ec_ik cI" and ?ikR = "ec_ik cR" and ?k = "ec_tagKey cR" and ?ekR = "fe_ekR eR"
  obtain ct ss where h': "crypto_lengths C" "ec_peerIkPub cI = dh_pub ?ikR" "ec_peerIkPub cR = dh_pub ?ikI" "ec_tagKey cI = ?k"
      "length (dh_pub ?ikI) = 32" "length (dh_pub ?ikR) = 32" "length ?k = 32" "length (dh_pub ekI) = 32"
      "length (dh_pub ?ekR) = 32" "length (kem_pub pq) = 1184" "dh_agree ?ikR ekI" "dh_agree ?ekR ?ikI" "dh_agree ?ekR ekI"
      "fe_encapsulate eR (kem_pub pq) = Some (ct, ss)" "length ct = 1088" "kem_decapsulate pq ct = Some ss"
    using h by (auto simp: honest_pair_def split: option.splits)
  let ?m = "frame_bytes T_MSG1 (dh_pub ekI) (kem_pub pq) t1 (c_hmac C ?k (dh_pub ?ikI))"
  let ?st = "\<lparr>is_ik = ?ikI, is_peerIkPub = dh_pub ?ikR, is_ekI = ekI, is_pq = pq, is_msg1Bytes = ?m, is_maxSkewMs = MAX_SKEW_MS\<rparr>"
  have i: "initiate C ?ikI (dh_pub ?ikR) ?k pq ekI t1 MAX_SKEW_MS = Inr (?m, ?st)"
    using initiate_succeeds [of "dh_pub ?ikR" ?k ekI pq C t1] h' t1 by (simp add: Let_def)
  have d1: "decodeMsg1 ?m = Inr \<lparr>m1_ekPub = dh_pub ekI, m1_pqPub = kem_pub pq, m1_ts = t1, m1_initiatorTag = c_hmac C ?k (dh_pub ?ikI)\<rparr>"
    using i by (auto elim!: initiateE intro: msg1_codec.dec_enc)
  obtain x y z where dh: "dh_fn ?ikR (dh_pub ekI) = Some x" "dh_fn ?ekR (dh_pub ?ikI) = Some y" "dh_fn ?ekR (dh_pub ekI) = Some z"
    using h' by (auto elim!: dh_agreeE)
  obtain m2 sR where r: "respond C (fe_encapsulate eR) ?ikR (dh_pub ?ikI) ?k ?m ?ekR (fe_now eR) MAX_SKEW_MS = Inr (m2, sR)"
      and f2: "first_byte m2 = Some T_MSG2"
    using respond_succeeds [OF _ _ _ _ _ d1, of "dh_pub ?ikI" ?k C "fe_now eR" MAX_SKEW_MS "fe_encapsulate eR" ct ss ?ekR ?ikR x y z]
      h' t2 skew dh by auto
  have kem: "kem_decapsulate pq c = Some s" if "fe_encapsulate eR (kem_pub pq) = Some (c, s)" for c s
    using that h' by simp
  obtain m3 rI rR where c: "initiatorComplete C ?st m2 (fe_now eI) = Inr (m3, rI)" "fst (responderComplete C sR m3) = Inr rR"
      "hs_sk rI = hs_sk rR" "hs_firstStepIkm rI = hs_firstStepIkm rR" "hs_role rI = Initiator" "hs_role rR = Responder"
      "hs_ekSelf rI = Some ekI" "hs_ekPeerPub rI = dh_pub ?ekR" "hs_ekPeerPub rR = dh_pub ekI"
    using handshake_completes [OF h'(1) i r h'(11,12,13) kem skew(2)] by blast
  have f3: "first_byte m3 = Some T_MSG3"
    using c(1) by (auto elim!: initiatorCompleteE simp: encodeMsg3_iff first_byte_def)
  obtain sR' where rc: "responderComplete C sR m3 = (Inr rR, sR')" using c(2) by (metis prod.collapse)
  show ?thesis
    using h' i r c f2 f3 rc
    by (simp add: start_initiator_def start_responder_def feed_def feed_initiator_def feed_responder_def)
qed

subsection \<open>What a resolved session proves\<close>

text \<open>
  After any frames: an initiator's session resolved on a msg2 that came in, whose tag verified
  under the key the transcript derives; a responder's on a msg1 that carried the contact's
  tag and a msg3 that verified under the key derived for it.
\<close>

definition est_steps :: "crypto \<Rightarrow> est_config \<Rightarrow> establish \<Rightarrow> (feed_env \<times> bytes) list \<Rightarrow> establish" where
  "est_steps C cfg s is = run (feed_step C cfg) s is"

definition initiator_rests :: "crypto \<Rightarrow> initiator_state \<Rightarrow> (feed_env \<times> bytes) list \<Rightarrow> hs_result \<Rightarrow> bool" where
  "initiator_rests C st is r \<longleftrightarrow> (\<exists>i\<in>set is. \<exists>m3. initiatorComplete C st (snd i) (fe_now (fst i)) = Inr (m3, r))"

definition responder_rests :: "crypto \<Rightarrow> est_config \<Rightarrow> (feed_env \<times> bytes) list \<Rightarrow> responder_state \<Rightarrow> bool" where
  "responder_rests C cfg is st \<longleftrightarrow> (\<exists>i\<in>set is. \<exists>m2. respond C (fe_encapsulate (fst i)) (ec_ik cfg) (ec_peerIkPub cfg)
     (ec_tagKey cfg) (snd i) (fe_ekR (fst i)) (fe_now (fst i)) MAX_SKEW_MS = Inr (m2, st))"

lemma rests_mono:
  "initiator_rests C st is r \<Longrightarrow> initiator_rests C st (i # is) r"
  "responder_rests C cfg is s \<Longrightarrow> responder_rests C cfg (i # is) s"
  by (auto simp: initiator_rests_def responder_rests_def)

lemma settled_stays: "es_session u \<noteq> Unsettled \<Longrightarrow> es_session (run (feed_step C cfg) u js) = es_session u"
  by (induction js arbitrary: u) (simp_all add: feed_step_def feed_keeps_settled)

lemma initiator_run:
  assumes "es_role s = Initiator" "es_session s = Unsettled" "es_state s = Some st"
    and "es_session (est_steps C cfg s is) = Resolved r"
  shows "initiator_rests C st is r"
  using assms
proof (induction "is" arbitrary: s)
  case Nil
  then show ?case by (simp add: est_steps_def)
next
  case (Cons i "is")
  let ?s1 = "feed_step C cfg s i"
  have role: "es_role ?s1 = Initiator" using Cons.prems(1) by (simp add: feed_step_def)
  have last: "es_session (run (feed_step C cfg) ?s1 is) = Resolved r" using Cons.prems(4) by (simp add: est_steps_def)
  show ?case
  proof (cases "es_session ?s1 = Unsettled")
    case True
    moreover from this have "es_state ?s1 = Some st"
      using Cons.prems by (auto simp: feed_step_def feed_def feed_initiator_def settle_Unsettled split: sum.splits prod.splits if_splits)
    ultimately show ?thesis using Cons.IH [OF role] last rests_mono(1) by (simp add: est_steps_def)
  next
    case False
    with last have "es_session ?s1 = Resolved r" using settled_stays [of ?s1 C cfg "is"] by simp
    then show ?thesis using Cons.prems
      by (auto simp: feed_step_def feed_def feed_initiator_def initiator_rests_def split: sum.splits prod.splits if_splits)
  qed
qed

lemma responder_run:
  assumes "es_role s = Responder" "es_session s = Unsettled"
    and "\<And>st. es_pending s = Some st \<Longrightarrow> responder_rests C cfg pre st"
    and "es_session (est_steps C cfg s is) = Resolved r"
  shows "\<exists>st before i after m. pre @ is = before @ i # after \<and> responder_rests C cfg before st \<and> hs_sk r = rs_sk st \<and> hs_role r = Responder
     \<and> decodeMsg3 (snd i) = Inr m \<and> m3_macI m = mac C (rs_sk st) LABEL_I (rs_h3 st)"
  using assms
proof (induction "is" arbitrary: s pre)
  case Nil
  then show ?case by (simp add: est_steps_def)
next
  case (Cons i "is")
  let ?s1 = "feed_step C cfg s i"
  have role: "es_role ?s1 = Responder" using Cons.prems(1) by (simp add: feed_step_def)
  have last: "es_session (run (feed_step C cfg) ?s1 is) = Resolved r" using Cons.prems(4) by (simp add: est_steps_def)
  show ?case
  proof (cases "es_session ?s1 = Unsettled")
    case True
    have "responder_rests C cfg (pre @ [i]) st" if p: "es_pending ?s1 = Some st" for st
    proof (cases "es_pending s")
      case None
      with True p Cons.prems(1,2) show ?thesis
        by (auto simp: feed_step_def feed_def feed_responder_def settle_Unsettled responder_rests_def Let_def
            split: sum.splits prod.splits if_splits)
    next
      case (Some st')
      with True p Cons.prems(1,2) have "st = st'"
        by (auto simp: feed_step_def feed_def feed_responder_def settle_Unsettled Let_def split: sum.splits prod.splits if_splits)
      with Cons.prems(3) Some have "responder_rests C cfg pre st" by simp
      then show ?thesis by (auto simp: responder_rests_def)
    qed
    from Cons.IH [OF role True this] last show ?thesis by (simp add: est_steps_def)
  next
    case False
    with last have "es_session ?s1 = Resolved r" using settled_stays [of ?s1 C cfg "is"] by simp
    from feed_responder_resolves [OF Cons.prems(1,2), of C cfg "fst i" "snd i" r] this obtain st m where
      st: "es_pending s = Some st" "decodeMsg3 (snd i) = Inr m" "m3_macI m = mac C (rs_sk st) LABEL_I (rs_h3 st)" "hs_sk r = rs_sk st"
      "hs_role r = Responder" by (auto simp: feed_step_def)
    with Cons.prems(3) [OF st(1)] show ?thesis by blast
  qed
qed

lemma initiator_authentic:
  assumes "start_initiator C cfg pq ekI t = Inr (fs, s)"
    and "es_session (est_steps C cfg s is) = Resolved r"
  shows "\<exists>st. es_state s = Some st \<and> initiator_rests C st is r"
  using assms initiator_run [of s _ C cfg "is" r]
  by (auto simp: start_initiator_def then_ok_Inr)

lemma responder_authentic:
  assumes "es_session (est_steps C cfg (snd start_responder) is) = Resolved r"
  shows "\<exists>st before i after m. is = before @ i # after \<and> responder_rests C cfg before st \<and> hs_sk r = rs_sk st \<and> hs_role r = Responder
     \<and> decodeMsg3 (snd i) = Inr m \<and> m3_macI m = mac C (rs_sk st) LABEL_I (rs_h3 st)"
  using assms responder_run [of "snd start_responder" C cfg "[]" "is" r] by (simp add: start_responder_def)

text \<open>The same with every check spelled out: the tags, the window, the derivation of the key.\<close>

lemma initiator_tag_verified:
  assumes "start_initiator C cfg pq ekI t = Inr (fs, s)"
    and "es_session (est_steps C cfg s is) = Resolved r"
  shows "\<exists>e f msg1 m2 dh1 dh2 dh3 ss h. (e, f) \<in> set is \<and> fs = [msg1] \<and> decodeMsg2 f = Inr m2
     \<and> \<bar>fe_now e - m2_ts m2\<bar> \<le> MAX_SKEW_MS
     \<and> dh_fn ekI (ec_peerIkPub cfg) = Some dh1 \<and> dh_fn (ec_ik cfg) (m2_ekPub m2) = Some dh2
     \<and> dh_fn ekI (m2_ekPub m2) = Some dh3 \<and> kem_decapsulate pq (m2_pqCt m2) = Some ss
     \<and> hs_sk r = c_hkdf C (dh1 @ dh2 @ dh3 @ ss) (h1 (c_sha256 C) msg1) SK_INFO 32
     \<and> h2Partial (c_sha256 C) msg1 (m2_ekPub m2) (m2_pqCt m2) (m2_ts m2) = Inr h
     \<and> m2_macR m2 = c_hmac C (hs_sk r) (LABEL_R @ h) \<and> hs_ekPeerPub r = m2_ekPub m2 \<and> hs_role r = Initiator"
proof -
  obtain st where st: "es_state s = Some st" "initiator_rests C st is r" using initiator_authentic [OF assms] by blast
  then obtain e f m3 where c: "(e, f) \<in> set is" "initiatorComplete C st f (fe_now e) = Inr (m3, r)"
    by (auto simp: initiator_rests_def)
  obtain m1 where i: "initiate C (ec_ik cfg) (ec_peerIkPub cfg) (ec_tagKey cfg) pq ekI t MAX_SKEW_MS = Inr (m1, st)" "fs = [m1]"
    using assms(1) st(1) by (auto simp: start_initiator_def then_ok_Inr)
  have f: "is_ik st = ec_ik cfg" "is_peerIkPub st = ec_peerIkPub cfg" "is_ekI st = ekI" "is_pq st = pq" "is_msg1Bytes st = m1"
    "is_maxSkewMs st = MAX_SKEW_MS" using i(1) by (auto elim!: initiateE)
  show ?thesis
  proof (rule initiatorCompleteE [OF c(2)])
    fix m2 dh1 dh2 dh3 ss h2p h3v
    assume "decodeMsg2 f = Inr m2" "\<bar>fe_now e - m2_ts m2\<bar> \<le> is_maxSkewMs st" "dh_fn (is_ekI st) (is_peerIkPub st) = Some dh1"
      "dh_fn (is_ik st) (m2_ekPub m2) = Some dh2" "dh_fn (is_ekI st) (m2_ekPub m2) = Some dh3"
      "kem_decapsulate (is_pq st) (m2_pqCt m2) = Some ss"
      "hs_sk r = deriveSK C dh1 dh2 dh3 ss (h1 (c_sha256 C) (is_msg1Bytes st))"
      "h2Partial (c_sha256 C) (is_msg1Bytes st) (m2_ekPub m2) (m2_pqCt m2) (m2_ts m2) = Inr h2p"
      "m2_macR m2 = mac C (hs_sk r) LABEL_R h2p"
      and r: "r = \<lparr>hs_role = Initiator, hs_sk = hs_sk r, hs_ekSelf = Some (is_ekI st), hs_ekPeerPub = m2_ekPub m2, hs_firstStepIkm = dh3\<rparr>"
    moreover have "hs_ekPeerPub r = m2_ekPub m2" "hs_role r = Initiator" by (subst r, simp)+
    ultimately show ?thesis using c(1) i(2) unfolding f deriveSK_def mac_def by blast
  qed
qed

lemma responder_tags_verified:
  assumes "es_session (est_steps C cfg (snd start_responder) is) = Resolved r"
  shows "\<exists>before e1 f1 between e3 f3 after m1 m3 ct ss dh1 dh2 dh3 h h3v.
     is = before @ (e1, f1) # between @ (e3, f3) # after
     \<and> decodeMsg1 f1 = Inr m1 \<and> \<bar>fe_now e1 - m1_ts m1\<bar> \<le> MAX_SKEW_MS
     \<and> m1_initiatorTag m1 = c_hmac C (ec_tagKey cfg) (ec_peerIkPub cfg)
     \<and> fe_encapsulate e1 (m1_pqPub m1) = Some (ct, ss)
     \<and> dh_fn (ec_ik cfg) (m1_ekPub m1) = Some dh1 \<and> dh_fn (fe_ekR e1) (ec_peerIkPub cfg) = Some dh2
     \<and> dh_fn (fe_ekR e1) (m1_ekPub m1) = Some dh3
     \<and> hs_sk r = c_hkdf C (dh1 @ dh2 @ dh3 @ ss) (h1 (c_sha256 C) f1) SK_INFO 32
     \<and> h2Partial (c_sha256 C) f1 (dh_pub (fe_ekR e1)) ct (fe_now e1) = Inr h
     \<and> h3 (c_sha256 C) h (c_hmac C (hs_sk r) (LABEL_R @ h)) = Inr h3v
     \<and> decodeMsg3 f3 = Inr m3 \<and> m3_macI m3 = c_hmac C (hs_sk r) (LABEL_I @ h3v) \<and> hs_role r = Responder"
proof -
  obtain st pr i after m3 where a: "is = pr @ i # after" "responder_rests C cfg pr st" "hs_sk r = rs_sk st" "hs_role r = Responder"
    "decodeMsg3 (snd i) = Inr m3" "m3_macI m3 = mac C (rs_sk st) LABEL_I (rs_h3 st)" using responder_authentic [OF assms] by blast
  obtain e1 f1 m2 where c: "(e1, f1) \<in> set pr" "respond C (fe_encapsulate e1) (ec_ik cfg) (ec_peerIkPub cfg) (ec_tagKey cfg) f1
      (fe_ekR e1) (fe_now e1) MAX_SKEW_MS = Inr (m2, st)" using a(2) by (auto simp: responder_rests_def)
  obtain e3 f3 where i: "i = (e3, f3)" by (cases i)
  obtain before between where "pr = before @ (e1, f1) # between" using split_list [OF c(1)] by blast
  then have l: "is = before @ (e1, f1) # between @ (e3, f3) # after" using a(1) i by simp
  have m3: "decodeMsg3 f3 = Inr m3" using a(5) i by simp
  show ?thesis
  proof (rule respondE [OF c(2)])
    fix m1 ct ss dh1 dh2 dh3 h2p
    assume r: "decodeMsg1 f1 = Inr m1" "\<bar>fe_now e1 - m1_ts m1\<bar> \<le> MAX_SKEW_MS" "m1_initiatorTag m1 = c_hmac C (ec_tagKey cfg) (ec_peerIkPub cfg)"
      "fe_encapsulate e1 (m1_pqPub m1) = Some (ct, ss)" "dh_fn (ec_ik cfg) (m1_ekPub m1) = Some dh1"
      "dh_fn (fe_ekR e1) (ec_peerIkPub cfg) = Some dh2" "dh_fn (fe_ekR e1) (m1_ekPub m1) = Some dh3"
      "h2Partial (c_sha256 C) f1 (dh_pub (fe_ekR e1)) ct (fe_now e1) = Inr h2p"
      and k: "h3 (c_sha256 C) h2p (mac C (deriveSK C dh1 dh2 dh3 ss (h1 (c_sha256 C) f1)) LABEL_R h2p) = Inr (rs_h3 st)"
      "rs_sk st = deriveSK C dh1 dh2 dh3 ss (h1 (c_sha256 C) f1)"
    have sk: "hs_sk r = c_hkdf C (dh1 @ dh2 @ dh3 @ ss) (h1 (c_sha256 C) f1) SK_INFO 32"
      "h3 (c_sha256 C) h2p (c_hmac C (hs_sk r) (LABEL_R @ h2p)) = Inr (rs_h3 st)" "m3_macI m3 = c_hmac C (hs_sk r) (LABEL_I @ rs_h3 st)"
      using k a(3,6) by (simp_all add: deriveSK_def mac_def)
    show ?thesis using l r sk m3 a(4) by blast
  qed
qed

text \<open>
  The other side of the wiped state: after a msg3 that fails its MAC the pending state stays,
  with a key of zeros, and a second msg3 made with that key sets the flag while the session
  stays rejected.
\<close>

lemma zero_key_authenticates:
  assumes s: "es_role s = Responder" "es_pending s = Some st" "es_session s = Unsettled"
    and bad: "decodeMsg3 f = Inr m" "m3_macI m \<noteq> mac C (rs_sk st) LABEL_I (rs_h3 st)" "length (rs_sk st) = 32"
    and forged: "encodeMsg3 \<lparr>m3_macI = mac C (replicate 32 0) LABEL_I (rs_h3 st)\<rparr> = Inr g"
  shows "es_authenticated (est_steps C cfg s [(e1, f), (e2, g)])
    \<and> es_session (est_steps C cfg s [(e1, f), (e2, g)]) = Rejected MacIMismatch"
proof -
  have b: "first_byte f = Some T_MSG3"
    using encode_decode_msg3 [OF bad(1)] by (auto simp: encodeMsg3_iff first_byte_def)
  have g: "first_byte g = Some T_MSG3" "decodeMsg3 g = Inr \<lparr>m3_macI = mac C (replicate 32 0) LABEL_I (rs_h3 st)\<rparr>"
    using forged by (auto simp: encodeMsg3_iff first_byte_def decode_encode_msg3)
  show ?thesis using s bad b g
    by (simp add: est_steps_def feed_step_def feed_def feed_responder_def responderComplete_def macVerify_def mac_def wipe_def)
qed

subsection \<open>Properties\<close>

definition demo_cI :: est_config where
  "demo_cI = \<lparr>ec_ik = demo_dh 3, ec_peerIkPub = dh_pub (demo_dh 5), ec_tagKey = replicate 32 9\<rparr>"

definition demo_cR :: est_config where
  "demo_cR = \<lparr>ec_ik = demo_dh 5, ec_peerIkPub = dh_pub (demo_dh 3), ec_tagKey = replicate 32 9\<rparr>"

definition demo_feed :: "byte \<Rightarrow> int \<Rightarrow> feed_env" where
  "demo_feed e t = \<lparr>fe_encapsulate = (\<lambda>p. Some (replicate 1088 1, replicate 32 1)), fe_ekR = demo_dh e, fe_now = t\<rparr>"

lemma demo_honest: "honest_pair demo_crypto demo_cI demo_cR (demo_kem 2) (demo_dh 7) (demo_feed 11 1000)"
  by (simp add: honest_pair_def demo_crypto_lengths demo_cI_def demo_cR_def demo_feed_def demo_dh_agree demo_kem_def)
    (simp add: demo_dh_def)

text \<open>
  C2: session agreement. The initiator's first frame, fed to the responder, gives an answer;
  fed that answer the initiator gives a last frame, and both sides end authenticated with
  resolved sessions that hold the same key, each knowing the other's ephemeral key.
\<close>
theorem session_agreement:
  assumes "honest_pair C cI cR pq ekI eR"
    and "0 \<le> t1" "t1 \<le> MAX_SAFE_INTEGER" and "0 \<le> fe_now eR" "fe_now eR \<le> MAX_SAFE_INTEGER"
    and "\<bar>fe_now eR - t1\<bar> \<le> MAX_SKEW_MS" "\<bar>fe_now eI - fe_now eR\<bar> \<le> MAX_SKEW_MS"
  shows "\<exists>m1 m2 m3 sI sR sI' sR' rI rR.
     start_initiator C cI pq ekI t1 = Inr ([m1], sI)
     \<and> feed C cR eR (snd start_responder) m1 = (Inr (Some m2), sR)
     \<and> feed C cI eI sI m2 = (Inr (Some m3), sI')
     \<and> feed C cR eR' sR m3 = (Inr None, sR')
     \<and> es_session sI' = Resolved rI \<and> es_session sR' = Resolved rR
     \<and> es_authenticated sI' \<and> es_authenticated sR'
     \<and> hs_sk rI = hs_sk rR \<and> hs_firstStepIkm rI = hs_firstStepIkm rR
     \<and> hs_role rI = Initiator \<and> hs_role rR = Responder
     \<and> hs_ekSelf rI = Some ekI \<and> hs_ekPeerPub rI = dh_pub (fe_ekR eR) \<and> hs_ekPeerPub rR = dh_pub ekI"
  using assms by (rule exchange_agrees)

theorem session_agreement_witness:
  "\<exists>m1 m2 m3 sI sR sI' sR' rI rR.
     start_initiator demo_crypto demo_cI (demo_kem 2) (demo_dh 7) 1000 = Inr ([m1], sI)
     \<and> feed demo_crypto demo_cR (demo_feed 11 1000) (snd start_responder) m1 = (Inr (Some m2), sR)
     \<and> feed demo_crypto demo_cI (demo_feed 0 1500) sI m2 = (Inr (Some m3), sI')
     \<and> feed demo_crypto demo_cR (demo_feed 0 2000) sR m3 = (Inr None, sR')
     \<and> es_session sI' = Resolved rI \<and> es_session sR' = Resolved rR \<and> hs_sk rI = hs_sk rR"
  using session_agreement [OF demo_honest, of 1000 "demo_feed 0 1500" "demo_feed 0 2000"]
  by (simp add: demo_feed_def MAX_SAFE_INTEGER_def MAX_SKEW_MS_def) blast

lemma demo_exchange:
  "\<exists>m1 m2 m3 sI rI rR.
     start_initiator demo_crypto demo_cI (demo_kem 2) (demo_dh 7) 1000 = Inr ([m1], sI)
     \<and> es_session (est_steps demo_crypto demo_cI sI [(demo_feed 0 1500, m2)]) = Resolved rI
     \<and> es_session (est_steps demo_crypto demo_cR (snd start_responder) [(demo_feed 11 1000, m1), (demo_feed 0 2000, m3)]) = Resolved rR"
  using exchange_agrees [OF demo_honest, of 1000 "demo_feed 0 1500" "demo_feed 0 2000"]
  by (simp add: demo_feed_def MAX_SAFE_INTEGER_def MAX_SKEW_MS_def est_steps_def feed_step_def) (metis snd_conv)

text \<open>
  C4: initiator authenticity. Whatever frames come in, a session the initiator resolved rests on
  a msg2 that came in inside the time window, and whose tag is the HMAC, under the session's own key,
  of the transcript of the msg1 sent and that msg2; the key is derived from the three Diffie-Hellman
  results with the contact's identity key and the frame's ephemeral key, and from the secret its
  ciphertext holds.
\<close>
theorem initiator_session_authentic:
  assumes "start_initiator C cfg pq ekI t = Inr (fs, s)"
    and "es_session (est_steps C cfg s is) = Resolved r"
  shows "\<exists>e f msg1 m2 dh1 dh2 dh3 ss h. (e, f) \<in> set is \<and> fs = [msg1] \<and> decodeMsg2 f = Inr m2
     \<and> \<bar>fe_now e - m2_ts m2\<bar> \<le> MAX_SKEW_MS
     \<and> dh_fn ekI (ec_peerIkPub cfg) = Some dh1 \<and> dh_fn (ec_ik cfg) (m2_ekPub m2) = Some dh2
     \<and> dh_fn ekI (m2_ekPub m2) = Some dh3 \<and> kem_decapsulate pq (m2_pqCt m2) = Some ss
     \<and> hs_sk r = c_hkdf C (dh1 @ dh2 @ dh3 @ ss) (h1 (c_sha256 C) msg1) SK_INFO 32
     \<and> h2Partial (c_sha256 C) msg1 (m2_ekPub m2) (m2_pqCt m2) (m2_ts m2) = Inr h
     \<and> m2_macR m2 = c_hmac C (hs_sk r) (LABEL_R @ h) \<and> hs_ekPeerPub r = m2_ekPub m2 \<and> hs_role r = Initiator"
  using assms by (rule initiator_tag_verified)

theorem initiator_session_authentic_witness:
  "\<exists>f m2 s r h. es_session (est_steps demo_crypto demo_cI s [(demo_feed 0 1500, f)]) = Resolved r
     \<and> decodeMsg2 f = Inr m2 \<and> m2_macR m2 = c_hmac demo_crypto (hs_sk r) (LABEL_R @ h)"
proof -
  obtain m1 m2 sI rI where "start_initiator demo_crypto demo_cI (demo_kem 2) (demo_dh 7) 1000 = Inr ([m1], sI)"
    and r: "es_session (est_steps demo_crypto demo_cI sI [(demo_feed 0 1500, m2)]) = Resolved rI"
    using demo_exchange by blast
  from initiator_session_authentic [OF this] show ?thesis using r by (metis list.set_intros(1) empty_set set_ConsD empty_iff prod.inject)
qed

text \<open>
  C3: responder authenticity. Whatever frames come in, a session the responder resolved rests on two
  of them, in this order: a msg1 inside the time window that carried the contact's tag, the HMAC of
  the contact's identity key under the tag key, and a msg3 whose tag is the HMAC, under the session's
  own key, of the transcript of that msg1 and the msg2 that answered it; the key is derived from the
  three Diffie-Hellman results with the contact's identity key and the frame's ephemeral key, and
  from the secret encapsulated to the frame's key.
\<close>
theorem responder_session_authentic:
  assumes "es_session (est_steps C cfg (snd start_responder) is) = Resolved r"
  shows "\<exists>before e1 f1 between e3 f3 after m1 m3 ct ss dh1 dh2 dh3 h h3v.
     is = before @ (e1, f1) # between @ (e3, f3) # after
     \<and> decodeMsg1 f1 = Inr m1 \<and> \<bar>fe_now e1 - m1_ts m1\<bar> \<le> MAX_SKEW_MS
     \<and> m1_initiatorTag m1 = c_hmac C (ec_tagKey cfg) (ec_peerIkPub cfg)
     \<and> fe_encapsulate e1 (m1_pqPub m1) = Some (ct, ss)
     \<and> dh_fn (ec_ik cfg) (m1_ekPub m1) = Some dh1 \<and> dh_fn (fe_ekR e1) (ec_peerIkPub cfg) = Some dh2
     \<and> dh_fn (fe_ekR e1) (m1_ekPub m1) = Some dh3
     \<and> hs_sk r = c_hkdf C (dh1 @ dh2 @ dh3 @ ss) (h1 (c_sha256 C) f1) SK_INFO 32
     \<and> h2Partial (c_sha256 C) f1 (dh_pub (fe_ekR e1)) ct (fe_now e1) = Inr h
     \<and> h3 (c_sha256 C) h (c_hmac C (hs_sk r) (LABEL_R @ h)) = Inr h3v
     \<and> decodeMsg3 f3 = Inr m3 \<and> m3_macI m3 = c_hmac C (hs_sk r) (LABEL_I @ h3v) \<and> hs_role r = Responder"
  using assms by (rule responder_tags_verified)

theorem responder_session_authentic_witness:
  "\<exists>m1 m3 d1 d3 h r. es_session (est_steps demo_crypto demo_cR (snd start_responder) [(demo_feed 11 1000, m1), (demo_feed 0 2000, m3)])
       = Resolved r \<and> decodeMsg1 m1 = Inr d1 \<and> m1_initiatorTag d1 = c_hmac demo_crypto (ec_tagKey demo_cR) (ec_peerIkPub demo_cR)
     \<and> decodeMsg3 m3 = Inr d3 \<and> m3_macI d3 = c_hmac demo_crypto (hs_sk r) (LABEL_I @ h)"
proof -
  obtain m1 m3 rR where r: "es_session (est_steps demo_crypto demo_cR (snd start_responder) [(demo_feed 11 1000, m1), (demo_feed 0 2000, m3)])
      = Resolved rR" using demo_exchange by blast
  have l: "x = m1 \<and> y = m3" if "[(demo_feed 11 1000, m1), (demo_feed 0 2000, m3)] = b @ (e, x) # c @ (e', y) # a" for b e x c e' y a
    using that by (cases b; cases c) auto
  from responder_session_authentic [OF r] obtain f1 f3 d1 d3 h where
    "f1 = m1 \<and> f3 = m3" "decodeMsg1 f1 = Inr d1" "m1_initiatorTag d1 = c_hmac demo_crypto (ec_tagKey demo_cR) (ec_peerIkPub demo_cR)"
    "decodeMsg3 f3 = Inr d3" "m3_macI d3 = c_hmac demo_crypto (hs_sk rR) (LABEL_I @ h)"
    using l by metis
  then show ?thesis using r by blast
qed

text \<open>
  A wiped state still answers. After a msg3 with a wrong tag the responder's session is
  rejected, but its pending state stays with a key of zeros, so that a second msg3 whose tag is
  made with that key sets \<open>authenticated\<close> beside the rejected session.
\<close>
theorem wiped_state_authenticates:
  assumes "es_role s = Responder" "es_pending s = Some st" "es_session s = Unsettled"
    and "decodeMsg3 f = Inr m" "m3_macI m \<noteq> mac C (rs_sk st) LABEL_I (rs_h3 st)" "length (rs_sk st) = 32"
    and "encodeMsg3 \<lparr>m3_macI = mac C (replicate 32 0) LABEL_I (rs_h3 st)\<rparr> = Inr g"
  shows "es_authenticated (est_steps C cfg s [(e1, f), (e2, g)])
    \<and> es_session (est_steps C cfg s [(e1, f), (e2, g)]) = Rejected MacIMismatch"
  using assms by (rule zero_key_authenticates)

definition demo_pending :: responder_state where
  "demo_pending = \<lparr>rs_sk = replicate 32 1, rs_h3 = [], rs_ekPeerPub = [], rs_firstStepIkm = []\<rparr>"

definition demo_waiting :: establish where
  "demo_waiting = (snd start_responder)\<lparr>es_pending := Some demo_pending\<rparr>"

theorem wiped_state_authenticates_witness:
  "\<exists>f g. es_authenticated (est_steps demo_crypto demo_cR demo_waiting [(demo_feed 0 0, f), (demo_feed 0 0, g)])
    \<and> es_session (est_steps demo_crypto demo_cR demo_waiting [(demo_feed 0 0, f), (demo_feed 0 0, g)]) = Rejected MacIMismatch"
proof -
  let ?good = "mac demo_crypto (replicate 32 1) LABEL_I []" and ?zero = "mac demo_crypto (replicate 32 0) LABEL_I []"
  let ?bad = "replicate 32 (hd ?good + 1)"
  have l: "length ?good = 32" "length ?zero = 32" by (simp_all add: mac_def demo_crypto_def)
  have "hd ?bad \<noteq> hd ?good" by simp
  then have ne: "?bad \<noteq> ?good" by metis
  have d: "decodeMsg3 ([T_MSG3, EH2_VERSION] @ ?bad) = Inr \<lparr>m3_macI = ?bad\<rparr>"
    by (rule decode_encode_msg3) (simp add: encodeMsg3_iff)
  have e: "encodeMsg3 \<lparr>m3_macI = ?zero\<rparr> = Inr ([T_MSG3, EH2_VERSION] @ ?zero)" using l by (simp add: encodeMsg3_iff)
  show ?thesis
    using wiped_state_authenticates [of demo_waiting demo_pending "[T_MSG3, EH2_VERSION] @ ?bad" "\<lparr>m3_macI = ?bad\<rparr>" demo_crypto
        "[T_MSG3, EH2_VERSION] @ ?zero" demo_cR "demo_feed 0 0" "demo_feed 0 0"] d e ne
    by (simp add: demo_waiting_def demo_pending_def start_responder_def) blast
qed

end
