(* ===== verification/RatchetHeader.thy ===== *)
theory RatchetHeader
  imports Crypto
begin

section \<open>The ratchet's frame header (eh2/ratchet.ts, header wire)\<close>

text \<open>
  \<open>encodeHeader\<close> and \<open>decodeHeader\<close>: the key, the two counters and the optional
  post-quantum fields of a content frame. A header whose public key has the 32 bytes of an
  X25519 key, whose counters fit 32 bits and whose fields fit their 16-bit length
  (\<open>header_ok\<close>) survives the round trip in front of any ciphertext that has room for the
  AEAD tag; conversely a header that decodes is exactly the bytes in front of the ciphertext,
  so what the AEAD authenticates is what was parsed.
\<close>

definition T_DATA :: byte where "T_DATA = 16"
definition T_DATA_PQ :: byte where "T_DATA_PQ = 17"
definition RATCHET_VERSION :: byte where "RATCHET_VERSION = 3"
definition HDR_LEN :: nat where "HDR_LEN = 42"
definition PQ_CT :: byte where "PQ_CT = 1"
definition PQ_PUB :: byte where "PQ_PUB = 2"
definition HDR_MAX :: nat where "HDR_MAX = HDR_LEN + 1 + 2 + 1088 + 2 + 1184"

record rheader =
  rh_dhPub :: bytes
  rh_pn :: nat
  rh_n :: nat
  rh_pqCt :: "bytes option"
  rh_pqPub :: "bytes option"

definition pq_field :: "bytes option \<Rightarrow> bytes" where
  "pq_field f = (case f of None \<Rightarrow> [] | Some x \<Rightarrow> be_enc 2 (length x) @ x)"

definition pq_flags :: "rheader \<Rightarrow> byte" where
  "pq_flags h = or (if rh_pqCt h = None then 0 else PQ_CT) (if rh_pqPub h = None then 0 else PQ_PUB)"

definition encodeHeader :: "rheader \<Rightarrow> bytes" where
  "encodeHeader h =
     (let pq = rh_pqCt h \<noteq> None \<or> rh_pqPub h \<noteq> None
      in [if pq then T_DATA_PQ else T_DATA, RATCHET_VERSION] @ rh_dhPub h @ be_enc 4 (rh_pn h) @ be_enc 4 (rh_n h)
         @ (if pq then pq_flags h # pq_field (rh_pqCt h) @ pq_field (rh_pqPub h) else []))"

definition read_pq_field :: "bytes \<Rightarrow> byte \<Rightarrow> byte \<Rightarrow> nat \<Rightarrow> (bytes option \<times> nat) option" where
  "read_pq_field frame flags which o1 =
     (if and flags which = 0 then Some (None, o1)
      else if length frame < o1 + 2 then None
      else let n = be_dec (slice_of o1 2 frame); o2 = o1 + 2
        in if n = 0 \<or> length frame < o2 + n then None
           else Some (Some (slice_of o2 n frame), o2 + n))"

definition decodeHeader :: "bytes \<Rightarrow> (rheader \<times> nat) option" where
  "decodeHeader frame =
     (if length frame < HDR_LEN + 16 then None
      else if frame ! 1 \<noteq> RATCHET_VERSION then None
      else let dhPub = slice_of 2 32 frame; pn = be_dec (slice_of 34 4 frame); n = be_dec (slice_of 38 4 frame)
        in if frame ! 0 = T_DATA
           then Some (\<lparr>rh_dhPub = dhPub, rh_pn = pn, rh_n = n, rh_pqCt = None, rh_pqPub = None\<rparr>, HDR_LEN)
           else if frame ! 0 \<noteq> T_DATA_PQ then None
           else let flags = frame ! 42
             in if flags = 0 \<or> and flags (not (or PQ_CT PQ_PUB)) \<noteq> 0 then None
                else case read_pq_field frame flags PQ_CT 43 of
                    None \<Rightarrow> None
                  | Some (ct, o2) \<Rightarrow> (case read_pq_field frame flags PQ_PUB o2 of
                      None \<Rightarrow> None
                    | Some (pub, o3) \<Rightarrow>
                        if length frame < o3 + 16 then None
                        else Some (\<lparr>rh_dhPub = dhPub, rh_pn = pn, rh_n = n, rh_pqCt = ct, rh_pqPub = pub\<rparr>, o3)))"

definition pq_field_ok :: "bytes option \<Rightarrow> bool" where
  "pq_field_ok f = (case f of None \<Rightarrow> True | Some x \<Rightarrow> 0 < length x \<and> length x < 65536)"

definition header_ok :: "rheader \<Rightarrow> bool" where
  "header_ok h \<longleftrightarrow> length (rh_dhPub h) = 32 \<and> rh_pn h < 2 ^ 32 \<and> rh_n h < 2 ^ 32
     \<and> pq_field_ok (rh_pqCt h) \<and> pq_field_ok (rh_pqPub h)"

subsection \<open>Flags\<close>

lemma pq_flags_simps:
  "pq_flags h = (if rh_pqCt h = None then (if rh_pqPub h = None then 0 else 2)
     else (if rh_pqPub h = None then 1 else 3))"
  by (simp add: pq_flags_def PQ_CT_def PQ_PUB_def)

lemma and_not_3_eq: "and (f :: byte) (not 3) = 0 \<Longrightarrow> f = and f 3"
proof (rule bit_eqI)
  fix n assume z: "and f (not 3) = 0" and n: "possible_bit TYPE(8 word) n"
  have "\<not> bit (and f (not 3)) n" using z by (simp only: bit_0_eq) simp
  with n have "bit f n \<Longrightarrow> bit (3 :: 8 word) n" by (simp only: bit_and_iff bit_not_iff) blast
  then show "bit f n \<longleftrightarrow> bit (and f 3) n" by (auto simp: bit_and_iff)
qed

lemma flags_cases:
  assumes "and (f :: byte) (not (or PQ_CT PQ_PUB)) = 0" and "f \<noteq> 0"
  obtains "f = 1" | "f = 2" | "f = 3"
proof -
  have o: "or PQ_CT PQ_PUB = 3" by (simp add: PQ_CT_def PQ_PUB_def)
  have "f = and f 3" using assms(1) unfolding o by (rule and_not_3_eq)
  then have "f \<le> 3" using word_and_le1 [of f 3] by simp
  then have "unat f \<le> 3" by (simp add: word_le_nat_alt)
  then have "unat f = 0 \<or> unat f = 1 \<or> unat f = 2 \<or> unat f = 3" by arith
  then have "f = 0 \<or> f = 1 \<or> f = 2 \<or> f = 3" by (auto simp: word_unat_eq_iff)
  then show thesis using assms(2) that by blast
qed

subsection \<open>Round trip\<close>

lemma length_pq_field [len_simps]: "length (pq_field f) = (case f of None \<Rightarrow> 0 | Some x \<Rightarrow> 2 + length x)"
  by (simp add: pq_field_def split: option.splits)

lemma read_pq_field_build:
  assumes "length p = o1" and "pq_field_ok x" and "(x = None) = (and flags which = 0)"
  shows "read_pq_field (p @ pq_field x @ r) flags which o1 = Some (x, o1 + length (pq_field x))"
proof (cases x)
  case None
  with assms show ?thesis by (simp add: read_pq_field_def pq_field_def)
next
  case (Some y)
  let ?f = "p @ pq_field x @ r"
  have s1: "slice_of o1 2 ?f = be_enc 2 (length y)"
    using assms Some slice_of_append [of p o1 "be_enc 2 (length y)" 2 "y @ r"] by (simp add: pq_field_def)
  have s2: "slice_of (o1 + 2) (length y) ?f = y"
    using assms Some slice_of_append [of "p @ be_enc 2 (length y)" "o1 + 2" y "length y" r]
    by (simp add: pq_field_def)
  have n: "be_dec (slice_of o1 2 ?f) = length y" "length y \<noteq> 0"
    unfolding s1 using assms Some by (simp_all add: pq_field_ok_def)
  show ?thesis
    unfolding read_pq_field_def n Let_def s2 using assms Some n(2) by (auto simp: pq_field_def)
qed

lemma read_pq_field_parsed:
  assumes "read_pq_field f flags which o1 = Some (x, o2)" and "o1 \<le> length f"
  shows "take o1 f @ pq_field x = take o2 f" and "pq_field_ok x" and "o2 \<le> length f"
    and "(x = None) = (and flags which = 0)"
proof -
  show "(x = None) = (and flags which = 0)"
    using assms by (auto simp: read_pq_field_def Let_def split: if_splits)
  show "o2 \<le> length f"
    using assms by (auto simp: read_pq_field_def Let_def split: if_splits)
  have "pq_field_ok x \<and> take o1 f @ pq_field x = take o2 f"
  proof (cases x)
    case None
    with assms show ?thesis
      by (auto simp: read_pq_field_def pq_field_ok_def pq_field_def Let_def split: if_splits)
  next
    case (Some y)
    with assms have k: "be_dec (slice_of o1 2 f) \<noteq> 0" "o1 + 2 + be_dec (slice_of o1 2 f) \<le> length f"
        "y = slice_of (o1 + 2) (be_dec (slice_of o1 2 f)) f" "o2 = o1 + 2 + be_dec (slice_of o1 2 f)"
      by (auto simp: read_pq_field_def Let_def split: if_splits)
    then have "length y = be_dec (slice_of o1 2 f)" by simp
    with k have n: "be_dec (slice_of o1 2 f) = length y" "length y \<noteq> 0" "o1 + 2 + length y \<le> length f"
        "y = slice_of (o1 + 2) (length y) f" "o2 = o1 + 2 + length y"
      by metis+
    have b: "be_enc 2 (length y) = slice_of o1 2 f"
      using n be_enc_dec_len [of "slice_of o1 2 f" 2] by simp
    have lt: "length y < 65536"
      using be_dec_bound [of "slice_of o1 2 f" 2] n by simp
    have "take o1 f @ slice_of o1 2 f @ slice_of (o1 + 2) (length y) f = take o2 f"
      using take_slice_app [of o1 2 "o1 + 2" f "slice_of (o1 + 2) (length y) f"]
        take_slice_of [of "o1 + 2" "length y" o2 f] n(5) by metis
    with b n(4) Some lt n(2) show ?thesis by (simp add: pq_field_def pq_field_ok_def)
  qed
  then show "pq_field_ok x" and "take o1 f @ pq_field x = take o2 f" by blast+
qed

lemma base_layout:
  assumes "length dh = 32" and "pn < 2 ^ 32" and "n < 2 ^ 32"
    and "f = [t, v] @ dh @ be_enc 4 pn @ be_enc 4 n @ r"
  shows "f ! 0 = t" and "f ! 1 = v" and "slice_of 2 32 f = dh" and "be_dec (slice_of 34 4 f) = pn"
    and "be_dec (slice_of 38 4 f) = n" and "length f = 42 + length r" and "r \<noteq> [] \<Longrightarrow> f ! 42 = hd r"
proof -
  show "f ! 0 = t" "f ! 1 = v" by (simp_all add: assms(4))
  show "length f = 42 + length r" by (simp add: assms)
  show "slice_of 2 32 f = dh"
    unfolding assms(4) by (rule slice_of_append) (simp_all add: assms(1))
  have "slice_of 34 4 f = be_enc 4 pn"
    using slice_of_append [of "[t, v] @ dh" 34 "be_enc 4 pn" 4 "be_enc 4 n @ r"] assms by simp
  then show "be_dec (slice_of 34 4 f) = pn" using assms(2) by simp
  have "slice_of 38 4 f = be_enc 4 n"
    using slice_of_append [of "[t, v] @ dh @ be_enc 4 pn" 38 "be_enc 4 n" 4 r] assms by simp
  then show "be_dec (slice_of 38 4 f) = n" using assms(3) by simp
  have "f = ([t, v] @ dh @ be_enc 4 pn @ be_enc 4 n) @ r" by (simp add: assms(4))
  moreover have "length ([t, v] @ dh @ be_enc 4 pn @ be_enc 4 n) = 42" by (simp add: assms(1))
  ultimately show "r \<noteq> [] \<Longrightarrow> f ! 42 = hd r" by (simp only: nth_append) (simp add: hd_conv_nth)
qed

lemma decode_encode_header:
  assumes ok: "header_ok h" and ct: "16 \<le> length ct"
  shows "decodeHeader (encodeHeader h @ ct) = Some (h, length (encodeHeader h))"
proof (cases "rh_pqCt h = None \<and> rh_pqPub h = None")
  case True
  let ?f = "encodeHeader h @ ct"
  have f: "?f = [T_DATA, RATCHET_VERSION] @ rh_dhPub h @ be_enc 4 (rh_pn h) @ be_enc 4 (rh_n h) @ ct"
    using True by (simp add: encodeHeader_def Let_def)
  have l: "length (encodeHeader h) = HDR_LEN"
    using True ok by (simp add: encodeHeader_def Let_def HDR_LEN_def header_ok_def)
  note b = base_layout [OF _ _ _ f]
  show ?thesis
    using ok True ct b l by (simp add: decodeHeader_def header_ok_def HDR_LEN_def Let_def)
next
  case False
  let ?f = "encodeHeader h @ ct"
  let ?base = "[T_DATA_PQ, RATCHET_VERSION] @ rh_dhPub h @ be_enc 4 (rh_pn h) @ be_enc 4 (rh_n h)"
  let ?c = "pq_field (rh_pqCt h)" and ?p = "pq_field (rh_pqPub h)" and ?fl = "pq_flags h"
  have f: "?f = [T_DATA_PQ, RATCHET_VERSION] @ rh_dhPub h @ be_enc 4 (rh_pn h) @ be_enc 4 (rh_n h)
      @ (?fl # ?c @ ?p @ ct)"
    using False by (simp add: encodeHeader_def Let_def)
  have h: "length (rh_dhPub h) = 32" "rh_pn h < 2 ^ 32" "rh_n h < 2 ^ 32"
      "pq_field_ok (rh_pqCt h)" "pq_field_ok (rh_pqPub h)"
    using ok by (auto simp: header_ok_def)
  note b = base_layout [OF h(1-3) f]
  have fl: "?fl \<noteq> 0" "and ?fl (not (or PQ_CT PQ_PUB)) = 0"
      "(rh_pqCt h = None) = (and ?fl PQ_CT = 0)" "(rh_pqPub h = None) = (and ?fl PQ_PUB = 0)"
    using False by (auto simp: pq_flags_simps PQ_CT_def PQ_PUB_def)
  have r1: "read_pq_field ?f ?fl PQ_CT 43 = Some (rh_pqCt h, 43 + length ?c)"
    using read_pq_field_build [of "?base @ [?fl]" 43 "rh_pqCt h" ?fl PQ_CT "?p @ ct"] h fl
    by (simp add: f)
  have r2: "read_pq_field ?f ?fl PQ_PUB (43 + length ?c) = Some (rh_pqPub h, 43 + length ?c + length ?p)"
    using read_pq_field_build [of "?base @ [?fl] @ ?c" "43 + length ?c" "rh_pqPub h" ?fl PQ_PUB ct] h fl
    by (simp add: f)
  have len: "length (encodeHeader h) = 43 + length ?c + length ?p"
    using False h by (simp add: encodeHeader_def Let_def)
  have n42: "?f ! 42 = ?fl" using b(7) by simp
  have t: "T_DATA_PQ \<noteq> T_DATA" by (simp add: T_DATA_def T_DATA_PQ_def)
  have lf: "\<not> length ?f < HDR_LEN + 16" "\<not> length ?f < 43 + length ?c + length ?p + 16"
    using ct by (simp_all add: f HDR_LEN_def h(1))
  show ?thesis
    unfolding decodeHeader_def Let_def b(1-5) n42 r1 using fl lf t len by (simp add: r2)
qed

lemma encode_decode_header:
  assumes d: "decodeHeader f = Some (h, len)"
  shows "encodeHeader h = take len f" and "header_ok h" and "len + 16 \<le> length f"
proof -
  from d have lf: "58 \<le> length f" and v: "f ! 1 = RATCHET_VERSION"
    and dh: "rh_dhPub h = slice_of 2 32 f" and pn: "rh_pn h = be_dec (slice_of 34 4 f)"
    and n: "rh_n h = be_dec (slice_of 38 4 f)"
    by (auto simp: decodeHeader_def Let_def HDR_LEN_def split: if_splits option.splits)
  have e: "be_enc 4 (rh_pn h) = slice_of 34 4 f" "be_enc 4 (rh_n h) = slice_of 38 4 f"
    using lf be_enc_dec_len [of "slice_of 34 4 f" 4] be_enc_dec_len [of "slice_of 38 4 f" 4]
    by (simp_all add: pn n)
  have bnd: "rh_pn h < 2 ^ 32" "rh_n h < 2 ^ 32"
    using lf be_dec_bound [of "slice_of 34 4 f" 4] be_dec_bound [of "slice_of 38 4 f" 4]
    by (simp_all add: pn n)
  have t2: "take 2 f = [f ! 0, f ! 1]"
    using lf by (cases f; cases "tl f") auto
  have base: "[f ! 0, RATCHET_VERSION] @ rh_dhPub h @ be_enc 4 (rh_pn h) @ be_enc 4 (rh_n h) = take 42 f"
    unfolding e dh v [symmetric] t2 [symmetric]
    by (simp add: take_slice_app [of 2 32 34] take_slice_app [of 34 4 38] take_slice_of [of 38 4 42])
  show "len + 16 \<le> length f"
    using d by (auto simp: decodeHeader_def Let_def HDR_LEN_def split: if_splits option.splits)
  have "encodeHeader h = take len f \<and> header_ok h"
  proof (cases "f ! 0 = T_DATA")
    case True
    with d have "rh_pqCt h = None" "rh_pqPub h = None" "len = 42"
      by (auto simp: decodeHeader_def Let_def HDR_LEN_def split: if_splits)
    with base True bnd dh lf show ?thesis
      by (simp add: encodeHeader_def header_ok_def pq_field_ok_def)
  next
    case False
    let ?fl = "f ! 42"
    from d False obtain o2 where t: "f ! 0 = T_DATA_PQ"
      and fl: "?fl \<noteq> 0" "and ?fl (not (or PQ_CT PQ_PUB)) = 0"
      and r1: "read_pq_field f ?fl PQ_CT 43 = Some (rh_pqCt h, o2)"
      and r2: "read_pq_field f ?fl PQ_PUB o2 = Some (rh_pqPub h, len)"
      by (auto simp: decodeHeader_def Let_def split: if_splits option.splits)
    have "43 \<le> length f" using lf by simp
    note p1 = read_pq_field_parsed [OF r1 this]
    note p2 = read_pq_field_parsed [OF r2 p1(3)]
    have flag: "pq_flags h = ?fl" and some: "rh_pqCt h \<noteq> None \<or> rh_pqPub h \<noteq> None"
      using p1(4) p2(4) by (auto simp: pq_flags_simps PQ_CT_def PQ_PUB_def intro: flags_cases [OF fl(2,1)])
    have t43: "take 42 f @ [?fl] = take 43 f"
      using lf take_Suc_conv_app_nth [of 42 f] by simp
    have "encodeHeader h = (take 42 f @ [?fl]) @ pq_field (rh_pqCt h) @ pq_field (rh_pqPub h)"
      using some base t flag by (simp add: encodeHeader_def Let_def)
    also have "\<dots> = take len f"
      unfolding t43 using p1(1) p2(1) by (metis append_assoc)
    finally show ?thesis using bnd dh lf p1(2) p2(2) by (simp add: header_ok_def)
  qed
  then show "encodeHeader h = take len f" and "header_ok h" by blast+
qed

lemma length_encodeHeader:
  "length (rh_dhPub h) = 32 \<Longrightarrow> length (encodeHeader h) =
     (if rh_pqCt h = None \<and> rh_pqPub h = None then 42
      else 43 + length (pq_field (rh_pqCt h)) + length (pq_field (rh_pqPub h)))"
  by (simp add: encodeHeader_def Let_def)

subsection \<open>Properties\<close>

text \<open>
  The ratchet header survives the wire. A header in range, in front of a body as long as an
  authentication tag, decodes to itself with the length of its encoding, plain or with the two
  post-quantum fields.
\<close>
theorem header_roundtrip:
  assumes "header_ok h" and "16 \<le> length ct"
  shows "decodeHeader (encodeHeader h @ ct) = Some (h, length (encodeHeader h))"
  using assms by (rule decode_encode_header)

definition demo_header :: rheader where
  "demo_header = \<lparr>rh_dhPub = replicate 32 7, rh_pn = 3, rh_n = 300, rh_pqCt = None, rh_pqPub = Some [1, 2]\<rparr>"

theorem header_roundtrip_witness:
  "header_ok demo_header \<and> decodeHeader (encodeHeader demo_header @ replicate 16 0) = Some (demo_header, length (encodeHeader demo_header))"
proof -
  have "header_ok demo_header" by (simp add: header_ok_def demo_header_def pq_field_ok_def)
  with header_roundtrip [of demo_header "replicate 16 0"] show ?thesis by simp
qed

text \<open>
  And nothing else does. A frame that decodes to a header starts with that header's encoding,
  and what it decodes to is in range with at least a tag behind it.
\<close>
theorem header_canonical:
  assumes "decodeHeader f = Some (h, len)"
  shows "encodeHeader h = take len f \<and> header_ok h \<and> len + 16 \<le> length f"
  using encode_decode_header [OF assms] by blast

theorem header_canonical_witness:
  "header_ok demo_header \<and> length (encodeHeader demo_header) + 16 \<le> length (encodeHeader demo_header @ replicate 16 0)"
proof -
  have "decodeHeader (encodeHeader demo_header @ replicate 16 0) = Some (demo_header, length (encodeHeader demo_header))"
    by (rule decode_encode_header) (simp_all add: header_ok_def demo_header_def pq_field_ok_def)
  from header_canonical [OF this] show ?thesis by simp
qed

end
