(* ===== verification/SkippedKeys.thy ===== *)
theory SkippedKeys
  imports Machines
begin

section \<open>The skipped-key store (eh2/ratchet.ts, class SkippedKeys)\<close>

text \<open>
  Message keys derived ahead of their messages: an insertion-ordered map from a chain's
  public key to a map from counters to a key with the time it was stored. \<open>put\<close> of a new
  chain evicts the oldest ones past the bound, \<open>peek\<close> looks without consuming, \<open>drop_key\<close>
  consumes, \<open>prune\<close> removes what is older than the time to live. The invariant is what
  keeps a peer from growing the store: never more chains than the bound, no empty chain, no
  key twice.
\<close>

type_synonym skipped = "(bytes, (nat, bytes \<times> int) jmap) jmap"

definition evict_oldest :: "nat \<Rightarrow> skipped \<Rightarrow> skipped" where
  "evict_oldest maxChains store = drop (length store - maxChains) store"

text \<open>
  \<open>chain.set\<close> acts on the chain object; it reaches the store when that chain is still in it,
  which it is whenever the bound is positive.
\<close>

definition put :: "nat \<Rightarrow> bytes \<Rightarrow> nat \<Rightarrow> bytes \<Rightarrow> int \<Rightarrow> skipped \<Rightarrow> skipped" where
  "put maxChains dhPub n mk now store =
     (let store1 = (if jm_has store dhPub then store
        else evict_oldest maxChains (jm_set dhPub [] store))
      in case jm_get store1 dhPub of
          None \<Rightarrow> store1
        | Some chain \<Rightarrow> jm_set dhPub (jm_set n (mk, now) chain) store1)"

definition peek :: "bytes \<Rightarrow> nat \<Rightarrow> skipped \<Rightarrow> bytes option" where
  "peek dhPub n store =
     (case jm_get store dhPub of
        None \<Rightarrow> None
      | Some chain \<Rightarrow> map_option fst (jm_get chain n))"

definition drop_key :: "bytes \<Rightarrow> nat \<Rightarrow> skipped \<Rightarrow> skipped" where
  "drop_key dhPub n store =
     (case jm_get store dhPub of
        None \<Rightarrow> store
      | Some chain \<Rightarrow>
          let chain' = jm_del n chain
          in if chain' = [] then jm_del dhPub store else jm_set dhPub chain' store)"

definition live_keys :: "int \<Rightarrow> int \<Rightarrow> (nat, bytes \<times> int) jmap \<Rightarrow> (nat, bytes \<times> int) jmap" where
  "live_keys ttlMs now chain = filter (\<lambda>(n, mk, ts). \<not> now - ts > ttlMs) chain"

definition prune :: "int \<Rightarrow> int \<Rightarrow> skipped \<Rightarrow> skipped" where
  "prune ttlMs now store =
     filter (\<lambda>(k, chain). chain \<noteq> []) (map (\<lambda>(k, chain). (k, live_keys ttlMs now chain)) store)"

definition stored :: "skipped \<Rightarrow> nat" where
  "stored store = sum_list (map (\<lambda>(k, chain). length chain) store)"

text \<open>\<open>put_all\<close> is the loop that stashes a run of consecutive keys.\<close>

fun put_all :: "nat \<Rightarrow> bytes \<Rightarrow> nat \<Rightarrow> bytes list \<Rightarrow> int \<Rightarrow> skipped \<Rightarrow> skipped" where
  "put_all maxChains dhPub i [] now store = store"
| "put_all maxChains dhPub i (mk # mks) now store =
     put_all maxChains dhPub (Suc i) mks now (put maxChains dhPub i mk now store)"

subsection \<open>What lookups see\<close>

lemma jm_get_drop: "jm_inv m \<Longrightarrow> jm_get (drop n m) k = Some v \<Longrightarrow> jm_get m k = Some v"
  by (metis in_set_dropD jm_get_iff_mem jm_inv_drop)

lemma evict_get: "jm_inv m \<Longrightarrow> jm_get (evict_oldest b m) k = Some v \<Longrightarrow> jm_get m k = Some v"
  unfolding evict_oldest_def by (rule jm_get_drop)

lemma jm_set_absent: "\<not> jm_has m k \<Longrightarrow> jm_set k v m = m @ [(k, v)]"
  by (induction m) (auto simp: jm_has_def jm_get_def split: if_splits)

lemma evict_new_chain:
  assumes "jm_inv m" and "\<not> jm_has m k" and "0 < b"
  shows "jm_get (evict_oldest b (jm_set k v m)) k = Some v"
proof -
  have "(k, v) \<in> set (drop (Suc (length m) - b) (m @ [(k, v)]))"
    using assms(3) by (cases b) auto
  then have "(k, v) \<in> set (evict_oldest b (jm_set k v m))"
    using assms(2) by (simp add: evict_oldest_def jm_set_absent)
  moreover have "jm_inv (evict_oldest b (jm_set k v m))"
    using assms(1) by (simp add: evict_oldest_def)
  ultimately show ?thesis by (simp only: jm_get_iff_mem)
qed

lemma peek_put_same:
  assumes "jm_inv s" and "0 < b"
  shows "peek k n (put b k n mk now s) = Some mk"
proof (cases "jm_has s k")
  case True
  then obtain c where "jm_get s k = Some c" by (auto simp: jm_has_def)
  with True show ?thesis by (simp add: put_def peek_def)
next
  case False
  with assms have "jm_get (evict_oldest b (jm_set k [] s)) k = Some []"
    by (simp add: evict_new_chain)
  with False show ?thesis by (simp add: put_def peek_def)
qed

lemma peek_put_other_counter:
  assumes "jm_inv s" and "m \<noteq> n"
  shows "peek k m (put b k n mk now s) = peek k m s"
proof (cases "jm_has s k")
  case True
  then obtain c where "jm_get s k = Some c" by (auto simp: jm_has_def)
  with True assms(2) show ?thesis by (simp add: put_def peek_def)
next
  case False
  then have "jm_get (evict_oldest b (jm_set k [] s)) k = None \<or> jm_get (evict_oldest b (jm_set k [] s)) k = Some []"
    using evict_get [of "jm_set k [] s" b k] assms(1) by (cases "jm_get (evict_oldest b (jm_set k [] s)) k") auto
  with False assms(2) show ?thesis by (auto simp: put_def peek_def jm_has_def split: option.splits)
qed

text \<open>A lookup under another chain never finds more than before.\<close>

lemma peek_put_other_chain:
  assumes "jm_inv s" and "k' \<noteq> k" and "peek k' m (put b k n mk now s) = Some x"
  shows "peek k' m s = Some x"
proof (cases "jm_has s k")
  case True
  then obtain c where "jm_get s k = Some c" by (auto simp: jm_has_def)
  with True assms show ?thesis by (simp add: put_def peek_def)
next
  case False
  let ?e = "evict_oldest b (jm_set k [] s)"
  have "jm_get (put b k n mk now s) k' = jm_get ?e k'"
    using False assms(2) by (auto simp: put_def Let_def split: option.splits)
  with assms(3) obtain c where c: "jm_get ?e k' = Some c" "map_option fst (jm_get c m) = Some x"
    by (auto simp: peek_def split: option.splits)
  have "jm_get (jm_set k [] s) k' = Some c"
    using evict_get [OF jm_inv_set [OF assms(1)] c(1)] .
  with assms(2) c(2) show ?thesis by (simp add: peek_def)
qed

lemma peek_drop_same: "peek k n (drop_key k n s) = None"
  by (auto simp: peek_def drop_key_def Let_def split: option.splits)

lemma peek_drop_other: "(k', m) \<noteq> (k, n) \<Longrightarrow> peek k' m (drop_key k n s) = peek k' m s"
proof (cases "jm_get s k")
  case None
  then show ?thesis by (simp add: drop_key_def)
next
  case (Some c)
  assume ne: "(k', m) \<noteq> (k, n)"
  show ?thesis
  proof (cases "k' = k")
    case False
    with Some show ?thesis by (simp add: drop_key_def peek_def Let_def)
  next
    case True
    with ne have m: "jm_get (jm_del n c) m = jm_get c m" by simp
    show ?thesis
    proof (cases "jm_del n c = []")
      case d: True
      with m Some True show ?thesis by (simp add: drop_key_def peek_def)
    next
      case False
      with m Some True show ?thesis by (simp add: drop_key_def peek_def)
    qed
  qed
qed

subsection \<open>The invariant\<close>

definition sk_inv :: "nat \<Rightarrow> skipped \<Rightarrow> bool" where
  "sk_inv maxChains s \<longleftrightarrow> jm_inv s \<and> length s \<le> maxChains
     \<and> (\<forall>(k, chain) \<in> set s. jm_inv chain \<and> chain \<noteq> [])"

lemma sk_invI:
  assumes "jm_inv s" and "length s \<le> b" and "\<And>k c. (k, c) \<in> set s \<Longrightarrow> jm_inv c \<and> c \<noteq> []"
  shows "sk_inv b s"
  using assms by (auto simp: sk_inv_def)

lemma sk_invD:
  assumes "sk_inv b s"
  shows "jm_inv s" and "length s \<le> b" and "(k, c) \<in> set s \<Longrightarrow> jm_inv c" and "(k, c) \<in> set s \<Longrightarrow> c \<noteq> []"
  using assms by (auto simp: sk_inv_def)

lemma sk_inv_Nil [simp]: "sk_inv b []"
  by (simp add: sk_inv_def)

lemma length_evict: "length (evict_oldest b m) \<le> b"
  by (simp add: evict_oldest_def)

lemma set_evict: "set (evict_oldest b m) \<subseteq> set m"
  by (simp add: evict_oldest_def set_drop_subset)

lemma jm_inv_evict [simp]: "jm_inv m \<Longrightarrow> jm_inv (evict_oldest b m)"
  by (simp add: evict_oldest_def)

lemma set_jm_set_get:
  "jm_inv m \<Longrightarrow> (k', v') \<in> set (jm_set k v m) \<longleftrightarrow> (if k' = k then v' = v else (k', v') \<in> set m)"
  using jm_get_iff_mem [of "jm_set k v m" k' v'] jm_get_iff_mem [of m k' v'] by (auto simp: jm_get_set)

lemma jm_set_not_Nil [simp]: "jm_set k v m \<noteq> []"
  by (cases m) (auto split: if_splits)

lemma sk_inv_set:
  assumes "sk_inv b s" and "jm_has s k" and "jm_inv c" and "c \<noteq> []"
  shows "sk_inv b (jm_set k c s)"
proof (rule sk_invI)
  show "jm_inv (jm_set k c s)" using assms by (simp add: sk_invD)
  show "length (jm_set k c s) \<le> b" using assms by (simp add: length_jm_set sk_invD)
  fix k' c' assume "(k', c') \<in> set (jm_set k c s)"
  then show "jm_inv c' \<and> c' \<noteq> []"
    using assms sk_invD [OF assms(1)] by (simp add: set_jm_set_get split: if_splits)
qed

lemma put_sk_inv:
  assumes "sk_inv b s" and "0 < b"
  shows "sk_inv b (put b k n mk now s)"
proof (cases "jm_has s k")
  case True
  then obtain c where c: "jm_get s k = Some c" by (auto simp: jm_has_def)
  then have "jm_inv c" using assms(1) by (blast dest: jm_get_Some_mem sk_invD)
  with assms c True show ?thesis
    by (simp add: put_def sk_inv_set)
next
  case False
  let ?e = "evict_oldest b (jm_set k [] s)"
  have inv: "jm_inv s" using assms by (simp add: sk_invD)
  have g: "jm_get ?e k = Some []" by (rule evict_new_chain [OF inv False assms(2)])
  have p: "put b k n mk now s = jm_set k [(n, mk, now)] ?e"
    using False g by (simp add: put_def)
  show ?thesis
    unfolding p
  proof (rule sk_invI)
    show "jm_inv (jm_set k [(n, mk, now)] ?e)" using inv by simp
    show "length (jm_set k [(n, mk, now)] ?e) \<le> b"
      using g length_evict [of b "jm_set k [] s"] by (simp add: length_jm_set jm_has_def)
    fix k' c assume "(k', c) \<in> set (jm_set k [(n, mk, now)] ?e)"
    then have "k' = k \<and> c = [(n, mk, now)] \<or> (k', c) \<in> set s"
      using set_evict [of b "jm_set k [] s"] inv by (auto simp: set_jm_set_get split: if_splits)
    then show "jm_inv c \<and> c \<noteq> []"
      using sk_invD(3,4) [OF assms(1)] by (auto simp: jm_inv_def)
  qed
qed

lemma sk_inv_del: "sk_inv b s \<Longrightarrow> sk_inv b (jm_del k s)"
  by (rule sk_invI) (auto simp: set_jm_del intro: order_trans [OF length_jm_del_le] dest: sk_invD)

lemma drop_sk_inv:
  assumes "sk_inv b s"
  shows "sk_inv b (drop_key k n s)"
proof (cases "jm_get s k")
  case None
  with assms show ?thesis by (simp add: drop_key_def)
next
  case (Some c)
  then have "jm_inv c" "jm_has s k" using assms
    by (auto simp: jm_has_def dest: jm_get_Some_mem sk_invD)
  with assms Some show ?thesis
    by (simp add: drop_key_def Let_def sk_inv_del sk_inv_set)
qed

lemma prune_sk_inv:
  assumes "sk_inv b s"
  shows "sk_inv b (prune t now s)"
proof (rule sk_invI)
  let ?m = "map (\<lambda>(k, chain). (k, live_keys t now chain)) s"
  have keys: "map fst ?m = map fst s" by (simp add: case_prod_beta comp_def)
  have "jm_inv ?m" using assms unfolding sk_inv_def jm_inv_def keys by blast
  then show "jm_inv (prune t now s)" by (simp add: prune_def)
  show "length (prune t now s) \<le> b"
    unfolding prune_def using sk_invD(2) [OF assms] by (intro order_trans [OF length_filter_le]) simp
  fix k c assume "(k, c) \<in> set (prune t now s)"
  then show "jm_inv c \<and> c \<noteq> []"
    using sk_invD(3) [OF assms] by (auto simp: prune_def live_keys_def)
qed

lemma put_all_sk_inv: "sk_inv b s \<Longrightarrow> 0 < b \<Longrightarrow> sk_inv b (put_all b k i mks now s)"
  by (induction mks arbitrary: i s) (auto intro: put_sk_inv)

lemma sk_inv_jm: "sk_inv b s \<Longrightarrow> jm_inv s"
  by (simp add: sk_inv_def)

lemma put_all_peek:
  assumes "sk_inv b s" and "0 < b" and "j < length mks"
  shows "peek k (i + j) (put_all b k i mks now s) = Some (mks ! j)"
  using assms
proof (induction mks arbitrary: i j s)
  case Nil
  then show ?case by simp
next
  case (Cons mk mks)
  have inv: "sk_inv b (put b k i mk now s)" using Cons.prems by (simp add: put_sk_inv)
  show ?case
  proof (cases j)
    case (Suc j')
    with Cons.IH [OF inv Cons.prems(2), of j' "Suc i"] Cons.prems show ?thesis by simp
  next
    case 0
    have below: "sk_inv b s' \<Longrightarrow> m < i' \<Longrightarrow> peek k m (put_all b k i' ms now s') = peek k m s'" for m i' ms s'
      by (induction ms arbitrary: i' s')
        (auto simp: peek_put_other_counter sk_inv_jm put_sk_inv Cons.prems(2))
    show ?thesis
      using 0 below [OF inv, of i "Suc i" mks] Cons.prems by (simp add: peek_put_same sk_inv_jm)
  qed
qed

lemma put_all_peek_outside:
  assumes "sk_inv b s" and "0 < b" and "m < i \<or> i + length mks \<le> m"
  shows "peek k m (put_all b k i mks now s) = peek k m s"
  using assms
proof (induction mks arbitrary: i s)
  case (Cons mk mks)
  have "sk_inv b (put b k i mk now s)" using Cons.prems by (simp add: put_sk_inv)
  with Cons show ?case by (auto simp: peek_put_other_counter sk_inv_jm)
qed simp

lemma put_all_peek_other_chain:
  assumes "sk_inv b s" and "0 < b" and "k' \<noteq> k" and "peek k' m (put_all b k i mks now s) = Some x"
  shows "peek k' m s = Some x"
  using assms
proof (induction mks arbitrary: i s)
  case (Cons mk mks)
  have "sk_inv b (put b k i mk now s)" using Cons.prems by (simp add: put_sk_inv)
  with Cons have "peek k' m (put b k i mk now s) = Some x" by auto
  with Cons.prems show ?case by (metis peek_put_other_chain sk_inv_jm)
qed simp

lemma peek_prune: "jm_inv s \<Longrightarrow> \<forall>(k, c) \<in> set s. jm_inv c \<Longrightarrow>
    peek k n (prune t now s) = Some mk \<Longrightarrow> peek k n s = Some mk"
proof -
  assume inv: "jm_inv s" "\<forall>(k, c) \<in> set s. jm_inv c" and p: "peek k n (prune t now s) = Some mk"
  then obtain c ts where c: "jm_get (prune t now s) k = Some c" "jm_get c n = Some (mk, ts)"
    by (auto simp: peek_def split: option.splits)
  then obtain c0 where c0: "(k, c0) \<in> set s" "c = live_keys t now c0"
    by (auto simp: prune_def dest!: jm_get_Some_mem)
  then have "(n, mk, ts) \<in> set c0" using jm_get_Some_mem [OF c(2)] by (auto simp: live_keys_def)
  then have "jm_get c0 n = Some (mk, ts)" using inv c0 by (auto simp: jm_get_iff_mem)
  moreover have "jm_get s k = Some c0" using inv c0 by (simp add: jm_get_iff_mem)
  ultimately show ?thesis by (simp add: peek_def)
qed

lemma peek_prune_None: "sk_inv b s \<Longrightarrow> peek k n s = None \<Longrightarrow> peek k n (prune t now s) = None"
  using peek_prune [of s k n t now] by (cases "peek k n (prune t now s)") (auto simp: sk_inv_def)

end
