(* ===== verification/Ratchet.thy ===== *)
theory Ratchet
  imports RatchetHeader SkippedKeys Handshake
begin

section \<open>The Double Ratchet (eh2/ratchet.ts, ratchetFrom)\<close>

text \<open>
  The conversation's state as a record and its two operations. \<open>encrypt\<close> opens a new sending
  chain when the direction turned, mixing in the post-quantum secret it owes, and seals one
  frame; \<open>decrypt\<close> follows its three cases (a stashed key, the current chain, a turn of the
  conversation) and commits nothing unless the frame opens. Fresh keys, the randomness of an
  encapsulation and the clock are in the call's environment; a call reads the clock once. The
  promise queue of the code makes the calls atomic, which a sequence of calls here is. The
  erasure of spent buffers is not modelled.
\<close>

definition RK_INFO :: bytes where "RK_INFO = ascii ''encedo-ratchet-dh-v1''"
definition RK_PQ_INFO :: bytes where "RK_PQ_INFO = ascii ''encedo-ratchet-hybrid-v1''"
definition PQ_EVERY_STEPS :: nat where "PQ_EVERY_STEPS = 4"
definition PQ_EVERY_MS :: int where "PQ_EVERY_MS = 30 * 60000"
definition MAX_SKIP_PER_CHAIN :: int where "MAX_SKIP_PER_CHAIN = 1000"
definition MAX_CHAINS_BACK :: nat where "MAX_CHAINS_BACK = 5"
definition SKIPPED_TTL_MS :: int where "SKIPPED_TTL_MS = 24 * 60 * 60 * 1000"

datatype ratchet_error = SkipBound int | RatchetDh | RatchetKem | NoSendingKey

record ratchet_cfg =
  rc_maxSkip :: int
  rc_ttl :: int
  rc_maxChains :: nat
  rc_pqEvery :: nat
  rc_pqEveryMs :: int

definition default_cfg :: ratchet_cfg where
  "default_cfg = \<lparr>rc_maxSkip = MAX_SKIP_PER_CHAIN, rc_ttl = SKIPPED_TTL_MS, rc_maxChains = MAX_CHAINS_BACK,
     rc_pqEvery = PQ_EVERY_STEPS, rc_pqEveryMs = PQ_EVERY_MS\<rparr>"

record ratchet =
  rt_rk :: bytes
  rt_dhSelf :: "dh_key option"
  rt_dhPeerPub :: bytes
  rt_ckSend :: "bytes option"
  rt_ckRecv :: "bytes option"
  rt_nSend :: nat
  rt_nRecv :: nat
  rt_pn :: nat
  rt_stepBeforeSend :: bool
  rt_skipped :: skipped
  rt_pqKey :: "kem_key option"
  rt_pendingSs :: "bytes option"
  rt_pendingCt :: "bytes option"
  rt_ctInFlight :: "bytes option"
  rt_seenPeerPqPub :: "bytes option"
  rt_stepsSincePq :: nat
  rt_lastPqAt :: int
  rt_pqStepsDone :: nat

record send_env =
  se_newDh :: dh_key
  se_newKem :: kem_key
  se_now :: int

record recv_env =
  re_encapsulate :: "bytes \<Rightarrow> (bytes \<times> bytes) option"
  re_now :: int

subsection \<open>Key derivation\<close>

definition dhStep :: "crypto \<Rightarrow> bytes \<Rightarrow> bytes \<Rightarrow> bytes \<Rightarrow> bytes \<times> bytes" where
  "dhStep C rk ikm info = (let out = c_hkdf C ikm rk info 64 in (take 32 out, drop 32 out))"

definition messageKey :: "crypto \<Rightarrow> bytes \<Rightarrow> bytes" where
  "messageKey C ck = kdf C ''encedo-msg-key'' ck [] 32"

definition chainNext :: "crypto \<Rightarrow> bytes \<Rightarrow> bytes" where
  "chainNext C ck = kdf C ''encedo-chain-key'' ck [] 32"

text \<open>\<open>walk_chain C ck k\<close>: the message keys of the next \<open>k\<close> positions and the chain key after them.\<close>

fun walk_chain :: "crypto \<Rightarrow> bytes \<Rightarrow> nat \<Rightarrow> bytes list \<times> bytes" where
  "walk_chain C ck 0 = ([], ck)"
| "walk_chain C ck (Suc k) = (case walk_chain C (chainNext C ck) k of (ks, ck') \<Rightarrow> (messageKey C ck # ks, ck'))"

definition advance :: "crypto \<Rightarrow> int \<Rightarrow> bytes \<Rightarrow> nat \<Rightarrow> nat \<Rightarrow> ratchet_error + (bytes list \<times> bytes)" where
  "advance C maxSkip ck from to =
     (if int to - int from > maxSkip then Inl (SkipBound (int to - int from))
      else Inr (walk_chain C ck (to - from)))"

definition tryOpen :: "crypto \<Rightarrow> bytes \<Rightarrow> bytes \<Rightarrow> bytes \<Rightarrow> nat \<Rightarrow> bytes option" where
  "tryOpen C mk hdr ct n = c_open C mk (aeadNonce C mk n) hdr ct"

subsection \<open>Construction\<close>

definition ratchetFrom :: "crypto \<Rightarrow> hs_result \<Rightarrow> int \<Rightarrow> ratchet" where
  "ratchetFrom C hs now =
     (case dhStep C (hs_sk hs) (hs_firstStepIkm hs) RK_INFO of (rk, ck) \<Rightarrow>
       \<lparr>rt_rk = rk, rt_dhSelf = hs_ekSelf hs, rt_dhPeerPub = hs_ekPeerPub hs,
        rt_ckSend = (if hs_role hs = Initiator then Some ck else None),
        rt_ckRecv = (if hs_role hs = Initiator then None else Some ck),
        rt_nSend = 0, rt_nRecv = 0, rt_pn = 0,
        rt_stepBeforeSend = (hs_role hs \<noteq> Initiator), rt_skipped = [],
        rt_pqKey = None, rt_pendingSs = None, rt_pendingCt = None, rt_ctInFlight = None,
        rt_seenPeerPqPub = None, rt_stepsSincePq = 0, rt_lastPqAt = now, rt_pqStepsDone = 0\<rparr>)"

subsection \<open>Sending\<close>

definition root_step :: "crypto \<Rightarrow> int \<Rightarrow> bytes \<Rightarrow> ratchet \<Rightarrow> ratchet" where
  "root_step C now dh st =
     (case rt_pendingSs st of
        Some ss \<Rightarrow> (case dhStep C (rt_rk st) (dh @ ss) RK_PQ_INFO of (rk, ck) \<Rightarrow>
          st\<lparr>rt_rk := rk, rt_ckSend := Some ck, rt_pendingSs := None, rt_ctInFlight := rt_pendingCt st,
             rt_pendingCt := None, rt_stepsSincePq := 0, rt_lastPqAt := now,
             rt_pqStepsDone := Suc (rt_pqStepsDone st)\<rparr>)
      | None \<Rightarrow> (case dhStep C (rt_rk st) dh RK_INFO of (rk, ck) \<Rightarrow>
          st\<lparr>rt_rk := rk, rt_ckSend := Some ck, rt_stepsSincePq := Suc (rt_stepsSincePq st)\<rparr>))"

definition issue_kem :: "ratchet_cfg \<Rightarrow> kem_key \<Rightarrow> int \<Rightarrow> ratchet \<Rightarrow> ratchet" where
  "issue_kem cfg k now st =
     (if rt_pqKey st = None \<and> (rc_pqEvery cfg \<le> rt_stepsSincePq st \<or> now - rt_lastPqAt st \<ge> rc_pqEveryMs cfg)
      then st\<lparr>rt_pqKey := Some k\<rparr> else st)"

definition send_step :: "crypto \<Rightarrow> ratchet_cfg \<Rightarrow> send_env \<Rightarrow> ratchet \<Rightarrow> (ratchet_error + unit) \<times> ratchet" where
  "send_step C cfg env st =
     (if rt_stepBeforeSend st \<or> rt_ckSend st = None
      then let st1 = st\<lparr>rt_dhSelf := Some (se_newDh env)\<rparr>
        in case dh_fn (se_newDh env) (rt_dhPeerPub st) of
             None \<Rightarrow> (Inl RatchetDh, st1)
           | Some dh \<Rightarrow>
               let st2 = root_step C (se_now env) dh st1;
                   st3 = st2\<lparr>rt_pn := rt_nSend st2, rt_nSend := 0, rt_stepBeforeSend := False\<rparr>
               in (Inr (), issue_kem cfg (se_newKem env) (se_now env) st3)
      else (Inr (), st))"

definition out_header :: "dh_key \<Rightarrow> ratchet \<Rightarrow> rheader" where
  "out_header self st = \<lparr>rh_dhPub = dh_pub self, rh_pn = rt_pn st, rh_n = rt_nSend st,
     rh_pqCt = rt_ctInFlight st, rh_pqPub = map_option kem_pub (rt_pqKey st)\<rparr>"

definition seal_frame :: "crypto \<Rightarrow> bytes \<Rightarrow> rheader \<Rightarrow> bytes \<Rightarrow> bytes" where
  "seal_frame C mk h plaintext =
     encodeHeader h @ c_seal C mk (aeadNonce C mk (rh_n h)) (encodeHeader h) plaintext"

definition encrypt ::
  "crypto \<Rightarrow> ratchet_cfg \<Rightarrow> send_env \<Rightarrow> ratchet \<Rightarrow> bytes \<Rightarrow> (ratchet_error + bytes) \<times> ratchet" where
  "encrypt C cfg env st plaintext =
     (case send_step C cfg env st of
        (Inl e, st1) \<Rightarrow> (Inl e, st1)
      | (Inr _, st1) \<Rightarrow>
          (case (rt_ckSend st1, rt_dhSelf st1) of
             (Some ck, Some self) \<Rightarrow>
               let frame = seal_frame C (messageKey C ck) (out_header self st1) plaintext
               in (Inr frame, st1\<lparr>rt_ckSend := Some (chainNext C ck), rt_nSend := Suc (rt_nSend st1)\<rparr>)
           | _ \<Rightarrow> (Inl NoSendingKey, st1)))"

subsection \<open>Receiving\<close>

definition notePeerPqPub ::
  "recv_env \<Rightarrow> bytes option \<Rightarrow> ratchet \<Rightarrow> (ratchet_error + unit) \<times> ratchet" where
  "notePeerPqPub env pub st =
     (case pub of
        None \<Rightarrow> (Inr (), st)
      | Some p \<Rightarrow>
          if rt_seenPeerPqPub st = Some p then (Inr (), st)
          else (case re_encapsulate env p of
              None \<Rightarrow> (Inl RatchetKem, st)
            | Some (ct, ss) \<Rightarrow> (Inr (), st\<lparr>rt_pendingSs := Some ss, rt_pendingCt := Some ct,
                rt_seenPeerPqPub := Some p\<rparr>)))"

text \<open>After a frame opened: note the peer's key, then hand the plaintext over.\<close>

definition deliver :: "recv_env \<Rightarrow> bytes option \<Rightarrow> bytes \<Rightarrow> ratchet \<Rightarrow> (ratchet_error + bytes option) \<times> ratchet" where
  "deliver env pub pt st =
     (case notePeerPqPub env pub st of
        (Inl e, st') \<Rightarrow> (Inl e, st')
      | (Inr _, st') \<Rightarrow> (Inr (Some pt), st'))"

definition open_stashed ::
  "crypto \<Rightarrow> recv_env \<Rightarrow> rheader \<Rightarrow> bytes \<Rightarrow> bytes \<Rightarrow> bytes \<Rightarrow> ratchet
    \<Rightarrow> (ratchet_error + bytes option) \<times> ratchet" where
  "open_stashed C env h hdr ct mk st =
     (case tryOpen C mk hdr ct (rh_n h) of
        None \<Rightarrow> (Inr None, st)
      | Some pt \<Rightarrow> deliver env (rh_pqPub h) pt (st\<lparr>rt_skipped := drop_key (rh_dhPub h) (rh_n h) (rt_skipped st)\<rparr>))"

definition open_current ::
  "crypto \<Rightarrow> ratchet_cfg \<Rightarrow> recv_env \<Rightarrow> rheader \<Rightarrow> bytes \<Rightarrow> bytes \<Rightarrow> bytes \<Rightarrow> ratchet
    \<Rightarrow> (ratchet_error + bytes option) \<times> ratchet" where
  "open_current C cfg env h hdr ct ck st =
     (if rh_n h < rt_nRecv st then (Inr None, st)
      else case advance C (rc_maxSkip cfg) ck (rt_nRecv st) (rh_n h) of
          Inl e \<Rightarrow> (Inl e, st)
        | Inr (keys, ck') \<Rightarrow>
            (case tryOpen C (messageKey C ck') hdr ct (rh_n h) of
               None \<Rightarrow> (Inr None, st)
             | Some pt \<Rightarrow> deliver env (rh_pqPub h) pt (st\<lparr>
                 rt_skipped := put_all (rc_maxChains cfg) (rh_dhPub h) (rt_nRecv st) keys (re_now env) (rt_skipped st),
                 rt_ckRecv := Some (chainNext C ck'), rt_nRecv := Suc (rh_n h)\<rparr>)))"

text \<open>The input of the root step a turned frame asks for: the DH, and the decapsulated secret when it carries a ciphertext.\<close>

definition turn_ikm :: "ratchet \<Rightarrow> rheader \<Rightarrow> bytes \<Rightarrow> (bytes \<times> bytes) option" where
  "turn_ikm st h dh =
     (case rh_pqCt h of
        None \<Rightarrow> Some (dh, RK_INFO)
      | Some ct \<Rightarrow> (case rt_pqKey st of
          None \<Rightarrow> None
        | Some k \<Rightarrow> map_option (\<lambda>ss. (dh @ ss, RK_PQ_INFO)) (kem_decapsulate k ct)))"

definition close_chain :: "crypto \<Rightarrow> ratchet_cfg \<Rightarrow> rheader \<Rightarrow> ratchet \<Rightarrow> ratchet_error + bytes list" where
  "close_chain C cfg h st =
     (case rt_ckRecv st of
        None \<Rightarrow> Inr []
      | Some ck \<Rightarrow> then_ok (advance C (rc_maxSkip cfg) ck (rt_nRecv st) (rh_pn h)) (\<lambda>(keys, _). Inr keys))"

definition commit_turn ::
  "ratchet_cfg \<Rightarrow> recv_env \<Rightarrow> rheader \<Rightarrow> bytes list \<Rightarrow> bytes list \<Rightarrow> bytes \<Rightarrow> bytes \<Rightarrow> ratchet \<Rightarrow> ratchet" where
  "commit_turn cfg env h closing keys rk ck st =
     (let s1 = put_all (rc_maxChains cfg) (rt_dhPeerPub st) (rt_nRecv st) closing (re_now env) (rt_skipped st);
          s2 = put_all (rc_maxChains cfg) (rh_dhPub h) 0 keys (re_now env) s1;
          st1 = st\<lparr>rt_skipped := s2, rt_rk := rk, rt_ckRecv := Some ck, rt_dhPeerPub := rh_dhPub h,
            rt_nRecv := Suc (rh_n h), rt_stepBeforeSend := True, rt_ctInFlight := None\<rparr>
      in if rh_pqCt h \<noteq> None
         then st1\<lparr>rt_pqKey := None, rt_stepsSincePq := 0, rt_lastPqAt := re_now env,
                rt_pqStepsDone := Suc (rt_pqStepsDone st1)\<rparr>
         else st1)"

definition open_turned ::
  "crypto \<Rightarrow> ratchet_cfg \<Rightarrow> recv_env \<Rightarrow> rheader \<Rightarrow> bytes \<Rightarrow> bytes \<Rightarrow> ratchet
    \<Rightarrow> (ratchet_error + bytes option) \<times> ratchet" where
  "open_turned C cfg env h hdr ct st =
     (case rt_dhSelf st of
        None \<Rightarrow> (Inr None, st)
      | Some self \<Rightarrow>
          if rh_pqCt h \<noteq> None \<and> rt_pqKey st = None then (Inr None, st)
          else case close_chain C cfg h st of
              Inl e \<Rightarrow> (Inl e, st)
            | Inr closing \<Rightarrow> (case dh_fn self (rh_dhPub h) of
                None \<Rightarrow> (Inl RatchetDh, st)
              | Some dh \<Rightarrow> (case turn_ikm st h dh of
                  None \<Rightarrow> (Inr None, st)
                | Some (ikm, info) \<Rightarrow> (case dhStep C (rt_rk st) ikm info of (rk, ck0) \<Rightarrow>
                    (case advance C (rc_maxSkip cfg) ck0 0 (rh_n h) of
                       Inl e \<Rightarrow> (Inl e, st)
                     | Inr (keys, ck') \<Rightarrow>
                         (case tryOpen C (messageKey C ck') hdr ct (rh_n h) of
                            None \<Rightarrow> (Inr None, st)
                          | Some pt \<Rightarrow> deliver env (rh_pqPub h) pt
                              (commit_turn cfg env h closing keys rk (chainNext C ck') st)))))))"

definition same_key :: "rheader \<Rightarrow> ratchet \<Rightarrow> bool" where
  "same_key h st = (take (length (rh_dhPub h)) (rt_dhPeerPub st) = rh_dhPub h)"

definition decrypt ::
  "crypto \<Rightarrow> ratchet_cfg \<Rightarrow> recv_env \<Rightarrow> ratchet \<Rightarrow> bytes \<Rightarrow> (ratchet_error + bytes option) \<times> ratchet" where
  "decrypt C cfg env st frame =
     (case decodeHeader frame of
        None \<Rightarrow> (Inr None, st)
      | Some (h, hdrLen) \<Rightarrow>
          let hdr = take hdrLen frame; ct = drop hdrLen frame;
              st0 = st\<lparr>rt_skipped := prune (rc_ttl cfg) (re_now env) (rt_skipped st)\<rparr>
          in case peek (rh_dhPub h) (rh_n h) (rt_skipped st0) of
               Some mk \<Rightarrow> open_stashed C env h hdr ct mk st0
             | None \<Rightarrow>
                 if same_key h st0
                 then (case rt_ckRecv st0 of
                    None \<Rightarrow> (Inr None, st0)
                  | Some ck \<Rightarrow> open_current C cfg env h hdr ct ck st0)
                 else open_turned C cfg env h hdr ct st0)"

end
