(* ===== verification/RatchetSafety.thy ===== *)
theory RatchetSafety
  imports Ratchet
begin

section \<open>Safety of the ratchet: nothing commits unless a frame opens\<close>

text \<open>
  \<open>decrypt\<close> is transactional: unless it hands a plaintext over (or opened a frame whose new
  encapsulation key is invalid), the state it leaves differs from the one it found only by
  the keys that expired. The skipped-key store keeps its invariant, grows by at most one
  bounded run of keys per chain a frame touches, and a frame that was delivered does not open again.
\<close>

definition pruned :: "ratchet_cfg \<Rightarrow> recv_env \<Rightarrow> ratchet \<Rightarrow> ratchet" where
  "pruned cfg env st = st\<lparr>rt_skipped := prune (rc_ttl cfg) (re_now env) (rt_skipped st)\<rparr>"

lemma pruned_simps [simp]:
  "rt_skipped (pruned cfg env st) = prune (rc_ttl cfg) (re_now env) (rt_skipped st)"
  "rt_dhPeerPub (pruned cfg env st) = rt_dhPeerPub st"
  "rt_ckRecv (pruned cfg env st) = rt_ckRecv st"
  "rt_nRecv (pruned cfg env st) = rt_nRecv st"
  "rt_dhSelf (pruned cfg env st) = rt_dhSelf st"
  "rt_rk (pruned cfg env st) = rt_rk st"
  "rt_pqKey (pruned cfg env st) = rt_pqKey st"
  "same_key h (pruned cfg env st) = same_key h st"
  by (simp_all add: pruned_def same_key_def)

lemma decrypt_pruned:
  "decrypt C cfg env st frame =
     (case decodeHeader frame of
        None \<Rightarrow> (Inr None, st)
      | Some (h, l) \<Rightarrow>
          (case peek (rh_dhPub h) (rh_n h) (rt_skipped (pruned cfg env st)) of
             Some mk \<Rightarrow> open_stashed C env h (take l frame) (drop l frame) mk (pruned cfg env st)
           | None \<Rightarrow>
               if same_key h st
               then (case rt_ckRecv st of
                  None \<Rightarrow> (Inr None, pruned cfg env st)
                | Some ck \<Rightarrow> open_current C cfg env h (take l frame) (drop l frame) ck (pruned cfg env st))
               else open_turned C cfg env h (take l frame) (drop l frame) (pruned cfg env st)))"
  by (simp add: decrypt_def Let_def pruned_def same_key_def split: option.split)

subsection \<open>Delivery\<close>

lemma notePeerPqPub_keeps:
  assumes "notePeerPqPub env p st = (r, st')"
  shows "rt_skipped st' = rt_skipped st" and "rt_nRecv st' = rt_nRecv st"
    and "rt_dhPeerPub st' = rt_dhPeerPub st" and "rt_ckRecv st' = rt_ckRecv st" and "rt_rk st' = rt_rk st"
  using assms by (auto simp: notePeerPqPub_def split: option.splits if_splits)

lemma notePeerPqPub_Inl: "notePeerPqPub env p st = (Inl e, st') \<Longrightarrow> e = RatchetKem \<and> st' = st"
  by (auto simp: notePeerPqPub_def split: option.splits if_splits)

lemma deliver_cases:
  assumes "deliver env p pt st = (r, st')"
  obtains "r = Inr (Some pt)" and "notePeerPqPub env p st = (Inr (), st')"
    | "r = Inl RatchetKem" and "notePeerPqPub env p st = (Inl RatchetKem, st')"
  using assms by (auto simp: deliver_def split: prod.splits sum.splits dest!: notePeerPqPub_Inl)

lemma deliver_keeps:
  assumes "deliver env p pt st = (r, st')"
  shows "rt_skipped st' = rt_skipped st" and "rt_nRecv st' = rt_nRecv st"
    and "rt_dhPeerPub st' = rt_dhPeerPub st" and "rt_ckRecv st' = rt_ckRecv st"
  using assms by (auto elim!: deliver_cases dest: notePeerPqPub_keeps)

definition undelivered :: "ratchet_error + bytes option \<Rightarrow> bool" where
  "undelivered r \<longleftrightarrow> (case r of Inl e \<Rightarrow> e \<noteq> RatchetKem | Inr m \<Rightarrow> m = None)"

lemma deliver_not_undelivered: "deliver env p pt st = (r, st') \<Longrightarrow> \<not> undelivered r"
  by (auto elim!: deliver_cases simp: undelivered_def)

subsection \<open>Transactionality\<close>

lemma open_stashed_undelivered:
  "open_stashed C env h hdr ct mk st = (r, st') \<Longrightarrow> undelivered r \<Longrightarrow> st' = st"
  by (auto simp: open_stashed_def split: option.splits dest: deliver_not_undelivered)

lemma open_current_undelivered:
  "open_current C cfg env h hdr ct ck st = (r, st') \<Longrightarrow> undelivered r \<Longrightarrow> st' = st"
  by (auto simp: open_current_def split: option.splits if_splits sum.splits prod.splits dest: deliver_not_undelivered)

lemma open_turned_undelivered:
  "open_turned C cfg env h hdr ct st = (r, st') \<Longrightarrow> undelivered r \<Longrightarrow> st' = st"
  by (auto simp: open_turned_def split: option.splits if_splits sum.splits prod.splits dest: deliver_not_undelivered)

lemma decrypt_undelivered:
  assumes "decrypt C cfg env st frame = (r, st')" and "undelivered r"
  shows "st' = st \<or> st' = pruned cfg env st"
  using assms
  by (auto simp: decrypt_pruned split: option.splits if_splits prod.splits
      dest: open_stashed_undelivered open_current_undelivered open_turned_undelivered)

subsection \<open>The skipped keys stay bounded\<close>

lemma length_walk_chain [simp]: "length (fst (walk_chain C ck k)) = k"
  by (induction k arbitrary: ck) (auto split: prod.splits, metis fst_conv)

lemma walk_chain_length: "walk_chain C ck k = (ks, ck') \<Longrightarrow> length ks = k"
  using length_walk_chain [of C ck k] by simp

lemma advance_length:
  "advance C m ck i j = Inr (ks, ck') \<Longrightarrow> length ks = j - i \<and> int (length ks) \<le> max 0 m"
  by (auto simp: advance_def walk_chain_length split: if_splits)

lemma advance_Inl: "advance C m ck i j = Inl e \<Longrightarrow> e \<noteq> RatchetKem"
  by (auto simp: advance_def split: if_splits)

lemma close_chain_Inl: "close_chain C cfg h st = Inl e \<Longrightarrow> e \<noteq> RatchetKem"
  by (auto simp: close_chain_def ok_simps split: option.splits dest: advance_Inl)

lemma close_chain_length: "close_chain C cfg h st = Inr ks \<Longrightarrow> int (length ks) \<le> max 0 (rc_maxSkip cfg)"
  by (auto simp: close_chain_def ok_simps split: option.splits dest: advance_length)

lemma stored_evict: "stored (evict_oldest b m) \<le> stored m"
proof -
  have "stored m = stored (take n m) + stored (drop n m)" for n
    unfolding stored_def by (metis append_take_drop_id map_append sum_list_append)
  then show ?thesis unfolding evict_oldest_def by (metis le_add2)
qed

lemma stored_jm_set:
  "stored (jm_set k c m) + (case jm_get m k of None \<Rightarrow> 0 | Some c0 \<Rightarrow> length c0) = stored m + length c"
  by (induction m) (auto simp: stored_def split: option.splits)

lemma stored_put: "stored (put b k n mk now s) \<le> Suc (stored s)"
proof -
  define s1 where "s1 = (if jm_has s k then s else evict_oldest b (jm_set k [] s))"
  have "stored s1 \<le> stored s"
  proof (cases "jm_has s k")
    case True then show ?thesis by (simp add: s1_def)
  next
    case False
    then have "stored (jm_set k [] s) = stored s"
      using stored_jm_set [of k "[]" s] by (simp add: jm_has_def)
    with False stored_evict [of b "jm_set k [] s"] show ?thesis by (simp add: s1_def)
  qed
  moreover have "stored (put b k n mk now s) \<le> Suc (stored s1)"
  proof (cases "jm_get s1 k")
    case None then show ?thesis by (simp add: put_def s1_def [symmetric])
  next
    case (Some c)
    have "length (jm_set n (mk, now) c) \<le> Suc (length c)" by (simp add: length_jm_set)
    with Some stored_jm_set [of k "jm_set n (mk, now) c" s1] show ?thesis
      by (simp add: put_def s1_def [symmetric])
  qed
  ultimately show ?thesis by linarith
qed

lemma stored_put_all: "stored (put_all b k i ks now s) \<le> stored s + length ks"
proof (induction ks arbitrary: i s)
  case (Cons mk ks)
  have "stored (put_all b k i (mk # ks) now s) \<le> stored (put b k i mk now s) + length ks"
    using Cons.IH by simp
  also have "\<dots> \<le> Suc (stored s) + length ks" using stored_put by simp
  finally show ?case by simp
qed simp

lemma stored_prune: "stored (prune t now s) \<le> stored s"
proof (induction s)
  case (Cons p s)
  obtain k c where "p = (k, c)" by (cases p)
  moreover have "length (live_keys t now c) \<le> length c" by (simp add: live_keys_def)
  ultimately show ?case using Cons.IH by (auto simp: prune_def stored_def)
qed (simp add: prune_def stored_def)

lemma stored_drop: "stored (drop_key k n s) \<le> stored s"
proof (cases "jm_get s k")
  case None then show ?thesis by (simp add: drop_key_def)
next
  case (Some c)
  have del: "stored (jm_del k s) \<le> stored s"
    by (induction s) (auto simp: jm_del_def stored_def)
  have "stored (jm_set k (jm_del n c) s) \<le> stored s"
    using stored_jm_set [of k "jm_del n c" s] length_jm_del_le [of n c] by (simp only: Some option.case)
  with del Some show ?thesis by (simp add: drop_key_def Let_def)
qed

definition skip_room :: "ratchet_cfg \<Rightarrow> nat" where
  "skip_room cfg = nat (max 0 (rc_maxSkip cfg))"

lemma commit_turn_skipped:
  "rt_skipped (commit_turn cfg env h cl ks rk ck st) =
     put_all (rc_maxChains cfg) (rh_dhPub h) 0 ks (re_now env)
       (put_all (rc_maxChains cfg) (rt_dhPeerPub st) (rt_nRecv st) cl (re_now env) (rt_skipped st))"
  by (simp add: commit_turn_def Let_def)

lemma open_turned_opened:
  assumes "open_turned C cfg env h hdr ct st = (r, st')" and "\<not> undelivered r"
  shows "\<exists>cl ks ck0 ck' rk pt. close_chain C cfg h st = Inr cl \<and> advance C (rc_maxSkip cfg) ck0 0 (rh_n h) = Inr (ks, ck')
     \<and> deliver env (rh_pqPub h) pt (commit_turn cfg env h cl ks rk (chainNext C ck') st) = (r, st')"
  using assms
  by (auto simp: open_turned_def undelivered_def split: option.splits if_splits sum.splits prod.splits
      dest: advance_Inl close_chain_Inl) (blast)+

lemma open_turned_delivered:
  assumes "open_turned C cfg env h hdr ct st = (r, st')" and "\<not> undelivered r"
  obtains cl ks rk ck pt where "length cl \<le> skip_room cfg" and "length ks \<le> skip_room cfg" and "length ks = rh_n h"
    and "deliver env (rh_pqPub h) pt (commit_turn cfg env h cl ks rk ck st) = (r, st')"
proof -
  obtain cl ks ck0 ck' rk pt where c: "close_chain C cfg h st = Inr cl"
      and a: "advance C (rc_maxSkip cfg) ck0 0 (rh_n h) = Inr (ks, ck')"
      and d: "deliver env (rh_pqPub h) pt (commit_turn cfg env h cl ks rk (chainNext C ck') st) = (r, st')"
    using open_turned_opened [OF assms] by blast
  have "length cl \<le> skip_room cfg" using close_chain_length [OF c] by (simp add: skip_room_def)
  moreover have "length ks \<le> skip_room cfg" "length ks = rh_n h"
    using advance_length [OF a] by (auto simp: skip_room_def)
  ultimately show thesis using d that by blast
qed

lemma open_current_delivered:
  assumes "open_current C cfg env h hdr ct ck st = (r, st')" and "\<not> undelivered r"
  obtains ks ck' pt where "rt_nRecv st \<le> rh_n h" and "length ks = rh_n h - rt_nRecv st" and "length ks \<le> skip_room cfg"
    and "deliver env (rh_pqPub h) pt (st\<lparr>
       rt_skipped := put_all (rc_maxChains cfg) (rh_dhPub h) (rt_nRecv st) ks (re_now env) (rt_skipped st),
       rt_ckRecv := Some ck', rt_nRecv := Suc (rh_n h)\<rparr>) = (r, st')"
proof -
  have adv: "advance C (rc_maxSkip cfg) ck i n = Inr (ks, ck') \<Longrightarrow> length ks \<le> skip_room cfg \<and> length ks = n - i" for i n ks ck'
    using advance_length [of C "rc_maxSkip cfg" ck i n ks ck'] by (auto simp: skip_room_def)
  show thesis
    using assms that
    by (auto simp: open_current_def undelivered_def not_less split: option.splits if_splits sum.splits prod.splits
        dest: advance_Inl dest!: adv)
qed

lemma open_stashed_delivered:
  assumes "open_stashed C env h hdr ct mk st = (r, st')" and "\<not> undelivered r"
  obtains pt where "deliver env (rh_pqPub h) pt (st\<lparr>rt_skipped := drop_key (rh_dhPub h) (rh_n h) (rt_skipped st)\<rparr>) = (r, st')"
  using assms by (auto simp: open_stashed_def undelivered_def split: option.splits)

lemma decrypt_skipped:
  assumes d: "decrypt C cfg env st frame = (r, st')"
    and inv: "sk_inv (rc_maxChains cfg) (rt_skipped st)" "0 < rc_maxChains cfg"
  shows "sk_inv (rc_maxChains cfg) (rt_skipped st')"
    and "stored (rt_skipped st') \<le> stored (rt_skipped st) + 2 * skip_room cfg"
proof -
  let ?b = "rc_maxChains cfg" and ?p = "pruned cfg env st"
  have pi: "sk_inv ?b (rt_skipped ?p)" using inv by (simp add: prune_sk_inv)
  have ps: "stored (rt_skipped ?p) \<le> stored (rt_skipped st)" by (simp add: stored_prune)
  have "sk_inv ?b (rt_skipped st') \<and> stored (rt_skipped st') \<le> stored (rt_skipped st) + 2 * skip_room cfg"
  proof (cases "undelivered r")
    case True
    then show ?thesis using decrypt_undelivered [OF d] inv pi ps by auto
  next
    case False
    then obtain h l where h: "decodeHeader frame = Some (h, l)"
      using d by (auto simp: decrypt_def undelivered_def split: option.splits)
    consider (stash) mk where "open_stashed C env h (take l frame) (drop l frame) mk ?p = (r, st')"
      | (current) ck where "open_current C cfg env h (take l frame) (drop l frame) ck ?p = (r, st')"
      | (turned) "open_turned C cfg env h (take l frame) (drop l frame) ?p = (r, st')"
      using d h False by (auto simp: decrypt_pruned undelivered_def split: option.splits if_splits)
    then show ?thesis
    proof cases
      case stash
      then obtain pt where "deliver env (rh_pqPub h) pt (?p\<lparr>rt_skipped := drop_key (rh_dhPub h) (rh_n h) (rt_skipped ?p)\<rparr>) = (r, st')"
        by (rule open_stashed_delivered [OF _ False])
      then have "rt_skipped st' = drop_key (rh_dhPub h) (rh_n h) (rt_skipped ?p)"
        by (simp add: deliver_keeps)
      then show ?thesis
        using pi ps stored_drop [of "rh_dhPub h" "rh_n h" "rt_skipped ?p"] by (simp add: drop_sk_inv)
    next
      case current
      then obtain ks ck' pt where "length ks \<le> skip_room cfg"
        and "deliver env (rh_pqPub h) pt (?p\<lparr>
           rt_skipped := put_all ?b (rh_dhPub h) (rt_nRecv ?p) ks (re_now env) (rt_skipped ?p),
           rt_ckRecv := Some ck', rt_nRecv := Suc (rh_n h)\<rparr>) = (r, st')"
        by (rule open_current_delivered [OF _ False])
      then have s: "rt_skipped st' = put_all ?b (rh_dhPub h) (rt_nRecv ?p) ks (re_now env) (rt_skipped ?p)"
          and l: "length ks \<le> skip_room cfg"
        by (simp_all add: deliver_keeps)
      have "sk_inv ?b (rt_skipped st')" unfolding s using pi inv(2) by (rule put_all_sk_inv)
      moreover have "stored (rt_skipped st') \<le> stored (rt_skipped ?p) + length ks"
        unfolding s by (rule stored_put_all)
      ultimately show ?thesis using ps l by linarith
    next
      case turned
      then obtain cl ks rk ck pt where l: "length cl \<le> skip_room cfg" "length ks \<le> skip_room cfg"
        and "deliver env (rh_pqPub h) pt (commit_turn cfg env h cl ks rk ck ?p) = (r, st')"
        by (rule open_turned_delivered [OF _ False])
      then have s: "rt_skipped st' = put_all ?b (rh_dhPub h) 0 ks (re_now env)
          (put_all ?b (rt_dhPeerPub ?p) (rt_nRecv ?p) cl (re_now env) (rt_skipped ?p))"
        by (simp only: deliver_keeps commit_turn_skipped)
      have "stored (rt_skipped st') \<le> stored (rt_skipped ?p) + length cl + length ks"
        unfolding s by (meson add_le_mono1 order_trans stored_put_all)
      moreover have "sk_inv ?b (rt_skipped st')"
        unfolding s using pi inv(2) by (intro put_all_sk_inv)
      ultimately show ?thesis using ps l by linarith
    qed
  qed
  then show "sk_inv ?b (rt_skipped st')" and "stored (rt_skipped st') \<le> stored (rt_skipped st) + 2 * skip_room cfg"
    by blast+
qed


subsection \<open>A delivered frame does not open again\<close>

text \<open>What a delivery leaves: the frame's chain is the current one, past its counter, and holds no key for it.\<close>

definition spent :: "nat \<Rightarrow> rheader \<Rightarrow> ratchet \<Rightarrow> bool" where
  "spent b h st \<longleftrightarrow> same_key h st \<and> rh_n h < rt_nRecv st \<and> rt_ckRecv st \<noteq> None
     \<and> peek (rh_dhPub h) (rh_n h) (rt_skipped st) = None \<and> sk_inv b (rt_skipped st)"

lemma spent_replay:
  assumes "decodeHeader frame = Some (h, l)" and "spent b h st"
  shows "decrypt C cfg env st frame = (Inr None, pruned cfg env st)"
  using assms peek_prune_None [of b "rt_skipped st" "rh_dhPub h" "rh_n h" "rc_ttl cfg" "re_now env"]
  by (auto simp: decrypt_pruned spent_def open_current_def)

lemma open_current_spent:
  assumes d: "open_current C cfg env h hdr ct ck st = (Inr (Some pt), st')"
    and inv: "sk_inv (rc_maxChains cfg) (rt_skipped st)" "0 < rc_maxChains cfg"
    and k: "same_key h st" "peek (rh_dhPub h) (rh_n h) (rt_skipped st) = None"
  shows "spent (rc_maxChains cfg) h st'"
proof -
  have nu: "\<not> undelivered (Inr (Some pt))" by (simp add: undelivered_def)
  obtain ks ck' pt' where n: "rt_nRecv st \<le> rh_n h" "length ks = rh_n h - rt_nRecv st" "length ks \<le> skip_room cfg"
    and dl: "deliver env (rh_pqPub h) pt' (st\<lparr>
       rt_skipped := put_all (rc_maxChains cfg) (rh_dhPub h) (rt_nRecv st) ks (re_now env) (rt_skipped st),
       rt_ckRecv := Some ck', rt_nRecv := Suc (rh_n h)\<rparr>) = (Inr (Some pt), st')"
    by (rule open_current_delivered [OF d nu])
  let ?s = "put_all (rc_maxChains cfg) (rh_dhPub h) (rt_nRecv st) ks (re_now env) (rt_skipped st)"
  have "peek (rh_dhPub h) (rh_n h) ?s = None"
    using put_all_peek_outside [OF inv, of "rh_n h" "rt_nRecv st" ks "rh_dhPub h" "re_now env"] n k by simp
  then show ?thesis
    using deliver_keeps [OF dl] k put_all_sk_inv [OF inv] by (simp add: spent_def same_key_def)
qed

lemma open_turned_spent:
  assumes d: "open_turned C cfg env h hdr ct st = (Inr (Some pt), st')"
    and inv: "sk_inv (rc_maxChains cfg) (rt_skipped st)" "0 < rc_maxChains cfg"
    and k: "\<not> same_key h st" "peek (rh_dhPub h) (rh_n h) (rt_skipped st) = None"
  shows "spent (rc_maxChains cfg) h st'"
proof -
  have nu: "\<not> undelivered (Inr (Some pt))" by (simp add: undelivered_def)
  obtain cl ks rk ck pt' where "length cl \<le> skip_room cfg" "length ks \<le> skip_room cfg" and l: "length ks = rh_n h"
    and dl: "deliver env (rh_pqPub h) pt' (commit_turn cfg env h cl ks rk ck st) = (Inr (Some pt), st')"
    by (rule open_turned_delivered [OF d nu])
  let ?b = "rc_maxChains cfg"
  let ?s1 = "put_all ?b (rt_dhPeerPub st) (rt_nRecv st) cl (re_now env) (rt_skipped st)"
  have ne: "rh_dhPub h \<noteq> rt_dhPeerPub st" using k(1) by (auto simp: same_key_def)
  have "peek (rh_dhPub h) (rh_n h) ?s1 = None"
    using put_all_peek_other_chain [OF inv ne] k(2) by (cases "peek (rh_dhPub h) (rh_n h) ?s1") fastforce+
  moreover have i1: "sk_inv ?b ?s1" by (rule put_all_sk_inv [OF inv])
  ultimately have "peek (rh_dhPub h) (rh_n h) (put_all ?b (rh_dhPub h) 0 ks (re_now env) ?s1) = None"
    using put_all_peek_outside [OF i1 inv(2), of "rh_n h" 0 ks "rh_dhPub h" "re_now env"] l by simp
  then show ?thesis
    using deliver_keeps [OF dl] put_all_sk_inv [OF i1 inv(2)]
    by (simp add: spent_def same_key_def commit_turn_def Let_def)
qed

lemma decrypt_spent:
  assumes d: "decrypt C cfg env st frame = (Inr (Some pt), st')" and h: "decodeHeader frame = Some (h, l)"
    and inv: "sk_inv (rc_maxChains cfg) (rt_skipped st)" "0 < rc_maxChains cfg"
    and p: "peek (rh_dhPub h) (rh_n h) (rt_skipped st) = None"
  shows "spent (rc_maxChains cfg) h st'"
proof -
  let ?p = "pruned cfg env st"
  have pk: "peek (rh_dhPub h) (rh_n h) (rt_skipped ?p) = None" "sk_inv (rc_maxChains cfg) (rt_skipped ?p)"
    using inv p by (auto simp: peek_prune_None prune_sk_inv)
  show ?thesis
  proof (cases "same_key h st")
    case True
    with d h pk obtain ck where "open_current C cfg env h (take l frame) (drop l frame) ck ?p = (Inr (Some pt), st')"
      by (auto simp: decrypt_pruned split: option.splits)
    then show ?thesis by (rule open_current_spent) (use pk inv True in simp_all)
  next
    case False
    with d h pk have "open_turned C cfg env h (take l frame) (drop l frame) ?p = (Inr (Some pt), st')"
      by (simp add: decrypt_pruned)
    then show ?thesis by (rule open_turned_spent) (use pk inv False in simp_all)
  qed
qed

subsection \<open>Any run of frames\<close>

definition decrypt_step :: "crypto \<Rightarrow> ratchet_cfg \<Rightarrow> ratchet \<Rightarrow> recv_env \<times> bytes \<Rightarrow> ratchet" where
  "decrypt_step C cfg st i = snd (decrypt C cfg (fst i) st (snd i))"

interpretation opens: machine "decrypt_step C cfg" "\<lambda>st. 0 < rc_maxChains cfg \<and> sk_inv (rc_maxChains cfg) (rt_skipped st)" for C cfg
proof unfold_locales
  fix st :: ratchet and i :: "recv_env \<times> bytes"
  assume inv: "0 < rc_maxChains cfg \<and> sk_inv (rc_maxChains cfg) (rt_skipped st)"
  obtain r st' where d: "decrypt C cfg (fst i) st (snd i) = (r, st')" by (metis surj_pair)
  show "0 < rc_maxChains cfg \<and> sk_inv (rc_maxChains cfg) (rt_skipped (decrypt_step C cfg st i))"
    using decrypt_skipped(1) [OF d] inv d by (simp add: decrypt_step_def)
qed

lemma stored_run:
  assumes "0 < rc_maxChains cfg" "sk_inv (rc_maxChains cfg) (rt_skipped st)"
  shows "stored (rt_skipped (run (decrypt_step C cfg) st is)) \<le> stored (rt_skipped st) + length is * (2 * skip_room cfg)"
  using assms
proof (induction "is" arbitrary: st)
  case (Cons i "is")
  obtain r st' where d: "decrypt C cfg (fst i) st (snd i) = (r, st')" by (metis surj_pair)
  have "decrypt_step C cfg st i = st'" using d by (simp add: decrypt_step_def)
  with Cons.IH [of st'] decrypt_skipped [OF d] Cons.prems show ?case by simp
qed simp

lemma ratchetFrom_skipped [simp]: "rt_skipped (ratchetFrom C hs t) = []"
  by (simp add: ratchetFrom_def split_beta)

subsection \<open>Properties\<close>

text \<open>
  C29: a frame that does not open changes nothing. Whatever the frame, when \<open>decrypt\<close> gives no
  plaintext, or throws before the frame opened, the state is the one before the call, or that
  state with its expired message keys dropped.
\<close>
theorem failed_frame_changes_nothing:
  assumes "decrypt C cfg env st frame = (r, st')" and "undelivered r"
  shows "st' = st \<or> st' = pruned cfg env st"
  using assms by (rule decrypt_undelivered)

definition demo_responder :: hs_result where
  "demo_responder = \<lparr>hs_role = Responder, hs_sk = replicate 32 1, hs_ekSelf = None, hs_ekPeerPub = replicate 32 3,
     hs_firstStepIkm = replicate 32 2\<rparr>"

definition demo_recv :: recv_env where
  "demo_recv = \<lparr>re_encapsulate = demo_encapsulate 1, re_now = 0\<rparr>"

definition demo_reader :: ratchet where
  "demo_reader = ratchetFrom demo_crypto demo_responder 0"

theorem failed_frame_changes_nothing_witness:
  "decrypt demo_crypto default_cfg demo_recv demo_reader (replicate 60 T_DATA) = (Inr None, demo_reader)
   \<and> (demo_reader = demo_reader \<or> demo_reader = pruned default_cfg demo_recv demo_reader)"
proof -
  have d: "decrypt demo_crypto default_cfg demo_recv demo_reader (replicate 60 T_DATA) = (Inr None, demo_reader)"
    by (simp add: decrypt_def decodeHeader_def HDR_LEN_def RATCHET_VERSION_def T_DATA_def)
  with failed_frame_changes_nothing [OF d] show ?thesis by (simp add: undelivered_def)
qed

text \<open>
  The stash of message keys is bounded. After any frames, read with the constants of the
  code, at most five chains are kept, each a map with no empty entry, and every frame adds at
  most two thousand keys.
\<close>
theorem skipped_keys_bounded:
  "sk_inv 5 (rt_skipped (run (decrypt_step C default_cfg) (ratchetFrom C hs t) is))
   \<and> length (rt_skipped (run (decrypt_step C default_cfg) (ratchetFrom C hs t) is)) \<le> 5
   \<and> stored (rt_skipped (run (decrypt_step C default_cfg) (ratchetFrom C hs t) is)) \<le> 2000 * length is"
proof -
  have b: "rc_maxChains default_cfg = 5" "skip_room default_cfg = 1000"
    by (simp_all add: default_cfg_def MAX_CHAINS_BACK_def skip_room_def MAX_SKIP_PER_CHAIN_def)
  have "sk_inv 5 (rt_skipped (run (decrypt_step C default_cfg) (ratchetFrom C hs t) is))"
    using opens.run_inv [of default_cfg "ratchetFrom C hs t" C "is"] by (simp add: b)
  with stored_run [of default_cfg "ratchetFrom C hs t" C "is"] show ?thesis by (simp add: b sk_invD(2) stored_def)
qed

end
