(* ===== verification/RatchetSync.thy ===== *)
theory RatchetSync
  imports RatchetSafety
begin

section \<open>Two ratchets in step: every message of a conversation is delivered\<close>

text \<open>
  A conversation is a script of turns, each a message from either side with what the two
  calls draw from outside. \<open>converse\<close> runs it over two ratchets, each frame handed over as it
  is sent. \<open>synced\<close> says that the side that stepped last (the active one) and the other
  (which steps before it sends) agree: the same root, the active side's sending chain is the
  waiting side's receiving chain at the same position, and a post-quantum secret one side owes
  decapsulates under the key the other still holds. One exchange keeps it, with the sides
  swapped when the direction turns, so every message opens as it was sealed, whatever the
  pattern of turns and however often a hybrid step falls due.
\<close>

subsection \<open>A sealed frame opens\<close>

lemma decode_seal:
  assumes "header_ok h" and "aead_tagged C"
  shows "decodeHeader (seal_frame C mk h pt) = Some (h, length (encodeHeader h))"
  unfolding seal_frame_def using assms by (intro decode_encode_header) (simp_all add: aead_tagged_def)

lemma seal_parts:
  "take (length (encodeHeader h)) (seal_frame C mk h pt) = encodeHeader h"
  "drop (length (encodeHeader h)) (seal_frame C mk h pt) = c_seal C mk (aeadNonce C mk (rh_n h)) (encodeHeader h) pt"
  by (simp_all add: seal_frame_def)

lemma tryOpen_seal:
  "aead_opens C \<Longrightarrow> tryOpen C mk (encodeHeader h) (c_seal C mk (aeadNonce C mk (rh_n h)) (encodeHeader h) pt) (rh_n h) = Some pt"
  by (simp add: tryOpen_def aead_opens_def)

lemma advance_none: "0 \<le> m \<Longrightarrow> j \<le> i \<Longrightarrow> advance C m ck i j = Inr ([], ck)"
  by (simp add: advance_def)

lemma decrypt_sealed:
  assumes "header_ok h" and "aead_tagged C" and "rt_skipped st = []"
  shows "decrypt C cfg env st (seal_frame C mk h pt) =
     (let ct = c_seal C mk (aeadNonce C mk (rh_n h)) (encodeHeader h) pt
      in if same_key h st
         then (case rt_ckRecv st of None \<Rightarrow> (Inr None, st)
           | Some ck \<Rightarrow> open_current C cfg env h (encodeHeader h) ct ck st)
         else open_turned C cfg env h (encodeHeader h) ct st)"
proof -
  have p: "pruned cfg env st = st" using assms(3) by (simp add: pruned_def prune_def)
  show ?thesis
    unfolding decrypt_pruned p decode_seal [OF assms(1,2)]
    by (simp add: seal_parts assms(3) peek_def Let_def split: option.split)
qed

subsection \<open>Conversations\<close>

record turn =
  tn_fromFirst :: bool
  tn_text :: bytes
  tn_send :: send_env
  tn_recv :: recv_env

definition hand_over ::
  "crypto \<Rightarrow> ratchet_cfg \<Rightarrow> turn \<Rightarrow> ratchet \<times> ratchet \<Rightarrow> (ratchet_error + bytes option) \<times> ratchet \<times> ratchet" where
  "hand_over C cfg t ab =
     (case ab of (a, b) \<Rightarrow>
        case encrypt C cfg (tn_send t) a (tn_text t) of
          (Inl e, a') \<Rightarrow> (Inl e, a', b)
        | (Inr frame, a') \<Rightarrow> (case decrypt C cfg (tn_recv t) b frame of (r, b') \<Rightarrow> (r, a', b')))"

definition exchange ::
  "crypto \<Rightarrow> ratchet_cfg \<Rightarrow> turn \<Rightarrow> ratchet \<times> ratchet \<Rightarrow> (ratchet_error + bytes option) \<times> ratchet \<times> ratchet" where
  "exchange C cfg t ab =
     (if tn_fromFirst t then hand_over C cfg t ab
      else case hand_over C cfg t (snd ab, fst ab) of (r, b', a') \<Rightarrow> (r, a', b'))"

fun converse ::
  "crypto \<Rightarrow> ratchet_cfg \<Rightarrow> turn list \<Rightarrow> ratchet \<times> ratchet \<Rightarrow> (ratchet_error + bytes option) list \<times> ratchet \<times> ratchet" where
  "converse C cfg [] ab = ([], ab)"
| "converse C cfg (t # ts) ab =
     (case exchange C cfg t ab of (r, ab') \<Rightarrow> (case converse C cfg ts ab' of (rs, ab'') \<Rightarrow> (r # rs, ab'')))"

subsection \<open>Key material of a script\<close>

definition kem_good :: "(bytes \<Rightarrow> (bytes \<times> bytes) option) \<Rightarrow> kem_key \<Rightarrow> bool" where
  "kem_good enc k \<longleftrightarrow> (case enc (kem_pub k) of None \<Rightarrow> False
     | Some (ct, ss) \<Rightarrow> kem_decapsulate k ct = Some ss \<and> 0 < length ct \<and> length ct < 65536)"

text \<open>
  The keys a script draws: X25519 keys agree pairwise and with the initial key \<open>ek\<close> and have
  32-byte public halves, none repeats or equals a public key of the handshake; every
  encapsulation works against every key the script may issue.
\<close>

definition script_keys :: "dh_key \<Rightarrow> turn list \<Rightarrow> dh_key list" where
  "script_keys ek ts = ek # map (\<lambda>t. se_newDh (tn_send t)) ts"

definition script_ok :: "dh_key \<Rightarrow> bytes \<Rightarrow> turn list \<Rightarrow> bool" where
  "script_ok ek peerEk ts \<longleftrightarrow>
     list_all (\<lambda>a. length (dh_pub a) = 32 \<and> list_all (\<lambda>b. dh_agree a b) (script_keys ek ts)) (script_keys ek ts)
     \<and> distinct (peerEk # map dh_pub (script_keys ek ts))
     \<and> list_all (\<lambda>t. 0 < length (kem_pub (se_newKem (tn_send t))) \<and> length (kem_pub (se_newKem (tn_send t))) < 65536
         \<and> list_all (\<lambda>t'. kem_good (re_encapsulate (tn_recv t')) (se_newKem (tn_send t))) ts) ts"

subsection \<open>The invariant\<close>

definition pq_ok :: "ratchet \<Rightarrow> ratchet \<Rightarrow> bool" where
  "pq_ok p q \<longleftrightarrow> (case rt_pendingSs p of None \<Rightarrow> True
     | Some ss \<Rightarrow> (case (rt_pendingCt p, rt_pqKey q) of
         (Some ct, Some k) \<Rightarrow> kem_decapsulate k ct = Some ss \<and> 0 < length ct \<and> length ct < 65536
       | _ \<Rightarrow> False))"

definition fields_ok :: "kem_key set \<Rightarrow> ratchet \<Rightarrow> bool" where
  "fields_ok KS p \<longleftrightarrow> pq_field_ok (rt_ctInFlight p) \<and> (case rt_pqKey p of None \<Rightarrow> True | Some k \<Rightarrow> k \<in> KS)"

text \<open>\<open>a\<close> is the active side, \<open>b\<close> the waiting one; \<open>DS\<close> and \<open>KS\<close> are the keys in play, \<open>used\<close> the public keys already seen, \<open>m\<close> the messages so far.\<close>

definition synced :: "dh_key set \<Rightarrow> kem_key set \<Rightarrow> bytes set \<Rightarrow> nat \<Rightarrow> ratchet \<Rightarrow> ratchet \<Rightarrow> bool" where
  "synced DS KS used m a b \<longleftrightarrow>
     rt_rk a = rt_rk b \<and> \<not> rt_stepBeforeSend a \<and> rt_stepBeforeSend b
     \<and> (\<exists>ck self. rt_ckSend a = Some ck \<and> rt_ckRecv b = Some ck \<and> rt_dhSelf a = Some self
          \<and> rt_dhPeerPub b = dh_pub self \<and> self \<in> DS)
     \<and> rt_nSend a = rt_nRecv b \<and> (rt_ckRecv a \<noteq> None \<longrightarrow> rt_nSend b \<le> rt_nRecv a)
     \<and> rt_dhPeerPub a \<in> used \<and> rt_dhPeerPub b \<in> used
     \<and> rt_ctInFlight b = None \<and> pq_ok a b \<and> pq_ok b a \<and> fields_ok KS a \<and> fields_ok KS b
     \<and> rt_skipped a = [] \<and> rt_skipped b = []
     \<and> rt_nSend a \<le> m \<and> rt_nSend b \<le> m \<and> rt_pn a \<le> m"

definition keys_good :: "dh_key set \<Rightarrow> kem_key set \<Rightarrow> bytes set \<Rightarrow> turn \<Rightarrow> bool" where
  "keys_good DS KS used t \<longleftrightarrow>
     (\<forall>a \<in> DS. \<forall>b \<in> DS. dh_agree a b) \<and> (\<forall>a \<in> DS. length (dh_pub a) = 32)
     \<and> (\<forall>u \<in> used. length u = 32)
     \<and> (\<forall>k \<in> KS. 0 < length (kem_pub k) \<and> length (kem_pub k) < 65536 \<and> kem_good (re_encapsulate (tn_recv t)) k)
     \<and> se_newDh (tn_send t) \<in> DS \<and> dh_pub (se_newDh (tn_send t)) \<notin> used \<and> se_newKem (tn_send t) \<in> KS"

lemma fields_ok_key: "fields_ok KS p \<Longrightarrow> rt_pqKey p = Some k \<Longrightarrow> k \<in> KS"
  by (simp add: fields_ok_def)

lemma pq_ok_cong:
  "rt_pendingSs p' = rt_pendingSs p \<Longrightarrow> rt_pendingCt p' = rt_pendingCt p \<Longrightarrow> rt_pqKey q' = rt_pqKey q
    \<Longrightarrow> pq_ok p' q' = pq_ok p q"
  by (simp add: pq_ok_def split: option.split)

lemma fields_ok_cong:
  "rt_ctInFlight p' = rt_ctInFlight p \<Longrightarrow> rt_pqKey p' = rt_pqKey p \<Longrightarrow> fields_ok KS p' = fields_ok KS p"
  by (simp add: fields_ok_def)

text \<open>The side that receives notes the sender's encapsulation key: it then owes the sender a secret that sender can open.\<close>

lemma deliver_synced:
  assumes kem: "\<And>k. rt_pqKey a = Some k \<Longrightarrow> kem_good (re_encapsulate env) k"
    and pq: "pq_ok b a"
  obtains b' where "deliver env (map_option kem_pub (rt_pqKey a)) pt b = (Inr (Some pt), b')" and "pq_ok b' a"
    and "b' = b\<lparr>rt_pendingSs := rt_pendingSs b', rt_pendingCt := rt_pendingCt b', rt_seenPeerPqPub := rt_seenPeerPqPub b'\<rparr>"
proof (cases "rt_pqKey a")
  case None
  then show thesis using pq that [of b] by (simp add: deliver_def notePeerPqPub_def)
next
  case (Some k)
  show thesis
  proof (cases "rt_seenPeerPqPub b = Some (kem_pub k)")
    case True
    with Some show thesis using pq that [of b] by (simp add: deliver_def notePeerPqPub_def)
  next
    case False
    from kem [OF Some] obtain ct ss where e: "re_encapsulate env (kem_pub k) = Some (ct, ss)"
      and "kem_decapsulate k ct = Some ss" "0 < length ct" "length ct < 65536"
      by (auto simp: kem_good_def split: option.splits)
    then show thesis
      using Some False that [of "b\<lparr>rt_pendingSs := Some ss, rt_pendingCt := Some ct, rt_seenPeerPqPub := Some (kem_pub k)\<rparr>"]
      by (simp add: deliver_def notePeerPqPub_def pq_ok_def)
  qed
qed

lemma out_header_ok:
  assumes "length (dh_pub self) = 32" and "rt_pn a < 2 ^ 32" and "rt_nSend a < 2 ^ 32"
    and "fields_ok KS a" and "\<forall>k \<in> KS. 0 < length (kem_pub k) \<and> length (kem_pub k) < 65536"
  shows "header_ok (out_header self a)"
  using assms by (auto simp: header_ok_def out_header_def fields_ok_def pq_field_ok_def split: option.splits)

subsection \<open>Another message on the same chain\<close>

lemma send_same:
  assumes s: "synced DS KS used m a b" and g: "keys_good DS KS used t" and m: "m + 1 < 2 ^ 32"
    and C: "aead_opens C" "aead_tagged C" and cfg: "0 \<le> rc_maxSkip cfg"
  shows "\<exists>a' b'. hand_over C cfg t (a, b) = (Inr (Some (tn_text t)), a', b') \<and> synced DS KS used (Suc m) a' b'"
proof -
  from s obtain ck self where a: "rt_ckSend a = Some ck" "rt_ckRecv b = Some ck" "rt_dhSelf a = Some self"
      "rt_dhPeerPub b = dh_pub self" "self \<in> DS"
    by (auto simp: synced_def)
  let ?h = "out_header self a"
  let ?mk = "messageKey C ck"
  let ?a' = "a\<lparr>rt_ckSend := Some (chainNext C ck), rt_nSend := Suc (rt_nSend a)\<rparr>"
  have nostep: "\<not> rt_stepBeforeSend a" using s by (simp add: synced_def)
  then have enc: "encrypt C cfg (tn_send t) a (tn_text t) = (Inr (seal_frame C ?mk ?h (tn_text t)), ?a')"
    using a by (simp add: encrypt_def send_step_def Let_def)
  have hok: "header_ok ?h"
    using s g a m by (intro out_header_ok [of _ _ KS]) (auto simp: synced_def keys_good_def)
  have sk: "rt_skipped b = []" using s by (simp add: synced_def)
  have same: "same_key ?h b" using a by (simp add: same_key_def out_header_def)
  have n: "rh_n ?h = rt_nRecv b" using s by (simp add: synced_def out_header_def)
  let ?b1 = "b\<lparr>rt_skipped := [], rt_ckRecv := Some (chainNext C ck), rt_nRecv := Suc (rt_nRecv b)\<rparr>"
  have "decrypt C cfg (tn_recv t) b (seal_frame C ?mk ?h (tn_text t)) =
      deliver (tn_recv t) (map_option kem_pub (rt_pqKey a)) (tn_text t) ?b1"
    unfolding decrypt_sealed [OF hok C(2) sk]
    using same a n sk tryOpen_seal [OF C(1), of ?mk ?h "tn_text t"] advance_none [OF cfg, of "rt_nRecv b" "rt_nRecv b"]
    by (simp add: open_current_def Let_def) (simp add: out_header_def)
  moreover obtain b' where "deliver (tn_recv t) (map_option kem_pub (rt_pqKey a)) (tn_text t) ?b1 = (Inr (Some (tn_text t)), b')"
    and pq: "pq_ok b' a"
    and b': "b' = ?b1\<lparr>rt_pendingSs := rt_pendingSs b', rt_pendingCt := rt_pendingCt b', rt_seenPeerPqPub := rt_seenPeerPqPub b'\<rparr>"
  proof (rule deliver_synced [of a "tn_recv t" ?b1])
    show "rt_pqKey a = Some k \<Longrightarrow> kem_good (re_encapsulate (tn_recv t)) k" for k
      using s g by (auto simp: synced_def keys_good_def fields_ok_def)
    have "pq_ok ?b1 a = pq_ok b a" by (rule pq_ok_cong) simp_all
    then show "pq_ok ?b1 a" using s by (simp add: synced_def)
  qed
  moreover have "synced DS KS used (Suc m) ?a' b'"
  proof -
    have fr: "rt_rk b' = rt_rk b" "rt_stepBeforeSend b' = rt_stepBeforeSend b" "rt_ckRecv b' = Some (chainNext C ck)"
      "rt_dhPeerPub b' = rt_dhPeerPub b" "rt_nRecv b' = Suc (rt_nRecv b)" "rt_nSend b' = rt_nSend b"
      "rt_ctInFlight b' = rt_ctInFlight b" "rt_pqKey b' = rt_pqKey b" "rt_skipped b' = []"
      by (subst b'; simp)+
    have "pq_ok ?a' b' = pq_ok a b" by (rule pq_ok_cong) (simp_all add: fr)
    moreover have "pq_ok b' ?a' = pq_ok b' a" by (rule pq_ok_cong) simp_all
    moreover have "fields_ok KS ?a' = fields_ok KS a" by (rule fields_ok_cong) simp_all
    moreover have "fields_ok KS b' = fields_ok KS b" by (rule fields_ok_cong) (simp_all add: fr)
    ultimately show ?thesis using s a fr pq by (simp add: synced_def)
  qed
  ultimately show ?thesis using enc by (simp add: hand_over_def)
qed


subsection \<open>A turn of the conversation\<close>

text \<open>The sender's state after its step, before it seals.\<close>

lemma root_step_simps:
  "rt_stepBeforeSend (root_step C now dh p) = rt_stepBeforeSend p"
  "rt_dhSelf (root_step C now dh p) = rt_dhSelf p"
  "rt_dhPeerPub (root_step C now dh p) = rt_dhPeerPub p"
  "rt_ckRecv (root_step C now dh p) = rt_ckRecv p"
  "rt_nSend (root_step C now dh p) = rt_nSend p"
  "rt_nRecv (root_step C now dh p) = rt_nRecv p"
  "rt_skipped (root_step C now dh p) = rt_skipped p"
  "rt_pqKey (root_step C now dh p) = rt_pqKey p"
  "rt_pendingSs (root_step C now dh p) = None"
  by (simp_all add: root_step_def split: option.split prod.split)

lemma issue_kem_simps:
  "rt_rk (issue_kem cfg k now p) = rt_rk p"
  "rt_ckSend (issue_kem cfg k now p) = rt_ckSend p"
  "rt_stepBeforeSend (issue_kem cfg k now p) = rt_stepBeforeSend p"
  "rt_dhSelf (issue_kem cfg k now p) = rt_dhSelf p"
  "rt_dhPeerPub (issue_kem cfg k now p) = rt_dhPeerPub p"
  "rt_ckRecv (issue_kem cfg k now p) = rt_ckRecv p"
  "rt_nSend (issue_kem cfg k now p) = rt_nSend p"
  "rt_nRecv (issue_kem cfg k now p) = rt_nRecv p"
  "rt_pn (issue_kem cfg k now p) = rt_pn p"
  "rt_skipped (issue_kem cfg k now p) = rt_skipped p"
  "rt_pendingSs (issue_kem cfg k now p) = rt_pendingSs p"
  "rt_pendingCt (issue_kem cfg k now p) = rt_pendingCt p"
  "rt_ctInFlight (issue_kem cfg k now p) = rt_ctInFlight p"
  by (simp_all add: issue_kem_def)

lemma issue_kem_key:
  "rt_pqKey (issue_kem cfg k now p) = rt_pqKey p \<or> rt_pqKey p = None \<and> rt_pqKey (issue_kem cfg k now p) = Some k"
  by (simp add: issue_kem_def)

definition stepped :: "crypto \<Rightarrow> ratchet_cfg \<Rightarrow> send_env \<Rightarrow> bytes \<Rightarrow> ratchet \<Rightarrow> ratchet" where
  "stepped C cfg env dh p =
     issue_kem cfg (se_newKem env) (se_now env)
       ((root_step C (se_now env) dh (p\<lparr>rt_dhSelf := Some (se_newDh env)\<rparr>))
         \<lparr>rt_pn := rt_nSend p, rt_nSend := 0, rt_stepBeforeSend := False\<rparr>)"

lemma send_step_stepped:
  assumes "rt_stepBeforeSend p" and "dh_fn (se_newDh env) (rt_dhPeerPub p) = Some dh"
  shows "send_step C cfg env p = (Inr (), stepped C cfg env dh p)"
  using assms by (simp add: send_step_def stepped_def Let_def root_step_simps)

lemma stepped_simps:
  "rt_stepBeforeSend (stepped C cfg env dh p) = False"
  "rt_dhSelf (stepped C cfg env dh p) = Some (se_newDh env)"
  "rt_dhPeerPub (stepped C cfg env dh p) = rt_dhPeerPub p"
  "rt_ckRecv (stepped C cfg env dh p) = rt_ckRecv p"
  "rt_nSend (stepped C cfg env dh p) = 0"
  "rt_pn (stepped C cfg env dh p) = rt_nSend p"
  "rt_nRecv (stepped C cfg env dh p) = rt_nRecv p"
  "rt_skipped (stepped C cfg env dh p) = rt_skipped p"
  "rt_pendingSs (stepped C cfg env dh p) = None"
  by (simp_all add: stepped_def issue_kem_simps root_step_simps)

text \<open>The keys both sides derive at a turn: the receiver's reading of the header gives the sender's root step.\<close>

lemma turn_keys:
  assumes pq: "pq_ok p q" and flight: "rt_ctInFlight p = None" and rk: "rt_rk p = rt_rk q"
  obtains ikm info rk' ck' where "dhStep C (rt_rk q) ikm info = (rk', ck')"
    and "rt_rk (stepped C cfg env dh p) = rk'" and "rt_ckSend (stepped C cfg env dh p) = Some ck'"
    and "turn_ikm q (out_header self (stepped C cfg env dh p)) dh = Some (ikm, info)"
    and "rt_ctInFlight (stepped C cfg env dh p) \<noteq> None \<longrightarrow> rt_pqKey q \<noteq> None"
    and "pq_field_ok (rt_ctInFlight (stepped C cfg env dh p))"
proof (cases "rt_pendingSs p")
  case None
  obtain rk' ck' where d: "dhStep C (rt_rk q) dh RK_INFO = (rk', ck')" by force
  then show thesis
    using None flight rk that [OF d]
    by (simp add: stepped_def issue_kem_simps root_step_def turn_ikm_def out_header_def pq_field_ok_def)
next
  case (Some ss)
  then obtain ct k where k: "rt_pendingCt p = Some ct" "rt_pqKey q = Some k" "kem_decapsulate k ct = Some ss"
      "0 < length ct" "length ct < 65536"
    using pq by (auto simp: pq_ok_def split: option.splits)
  obtain rk' ck' where d: "dhStep C (rt_rk q) (dh @ ss) RK_PQ_INFO = (rk', ck')" by force
  show thesis
    using Some k rk d by (intro that [OF d])
      (simp_all add: stepped_def issue_kem_simps root_step_def turn_ikm_def out_header_def pq_field_ok_def)
qed

lemma commit_turn_simps:
  "rt_rk (commit_turn cfg env h cl ks rk ck q) = rk"
  "rt_ckRecv (commit_turn cfg env h cl ks rk ck q) = Some ck"
  "rt_dhPeerPub (commit_turn cfg env h cl ks rk ck q) = rh_dhPub h"
  "rt_nRecv (commit_turn cfg env h cl ks rk ck q) = Suc (rh_n h)"
  "rt_stepBeforeSend (commit_turn cfg env h cl ks rk ck q) = True"
  "rt_ctInFlight (commit_turn cfg env h cl ks rk ck q) = None"
  "rt_nSend (commit_turn cfg env h cl ks rk ck q) = rt_nSend q"
  "rt_pendingSs (commit_turn cfg env h cl ks rk ck q) = rt_pendingSs q"
  "rt_pendingCt (commit_turn cfg env h cl ks rk ck q) = rt_pendingCt q"
  "rt_dhSelf (commit_turn cfg env h cl ks rk ck q) = rt_dhSelf q"
  "rt_pqKey (commit_turn cfg env h cl ks rk ck q) = (if rh_pqCt h = None then rt_pqKey q else None)"
  by (simp_all add: commit_turn_def Let_def)

lemma stepped_pqKey:
  "rt_pqKey (stepped C cfg env dh p) = rt_pqKey p
     \<or> rt_pqKey p = None \<and> rt_pqKey (stepped C cfg env dh p) = Some (se_newKem env)"
  using issue_kem_key [of cfg "se_newKem env" "se_now env"
      "(root_step C (se_now env) dh (p\<lparr>rt_dhSelf := Some (se_newDh env)\<rparr>))\<lparr>rt_pn := rt_nSend p, rt_nSend := 0, rt_stepBeforeSend := False\<rparr>"]
  by (simp add: stepped_def root_step_simps)


lemma send_turn:
  assumes s: "synced DS KS used m b a" and g: "keys_good DS KS used t" and m: "m + 1 < 2 ^ 32"
    and C: "aead_opens C" "aead_tagged C" and cfg: "0 \<le> rc_maxSkip cfg"
  shows "\<exists>a' b'. hand_over C cfg t (a, b) = (Inr (Some (tn_text t)), a', b')
     \<and> synced DS KS (insert (dh_pub (se_newDh (tn_send t))) used) (Suc m) a' b'"
proof -
  let ?new = "se_newDh (tn_send t)"
  from s obtain self where b: "rt_dhSelf b = Some self" "rt_dhPeerPub a = dh_pub self" "self \<in> DS"
    by (auto simp: synced_def)
  from g b have "dh_agree ?new self" "length (dh_pub ?new) = 32" by (auto simp: keys_good_def)
  with b obtain dh where dh: "dh_fn ?new (rt_dhPeerPub a) = Some dh" "dh_fn self (dh_pub ?new) = Some dh"
    by (auto elim: dh_agreeE)
  define a1 where "a1 = stepped C cfg (tn_send t) dh a"
  have step: "send_step C cfg (tn_send t) a = (Inr (), a1)"
    unfolding a1_def using s dh by (intro send_step_stepped) (auto simp: synced_def)
  have pab: "pq_ok a b" "rt_ctInFlight a = None" "rt_rk a = rt_rk b" using s by (auto simp: synced_def)
  let ?h = "out_header ?new a1"
  obtain ikm info rk' ck' where keys: "dhStep C (rt_rk b) ikm info = (rk', ck')" "rt_rk a1 = rk'" "rt_ckSend a1 = Some ck'"
      "turn_ikm b ?h dh = Some (ikm, info)" "rt_ctInFlight a1 \<noteq> None \<longrightarrow> rt_pqKey b \<noteq> None"
      "pq_field_ok (rt_ctInFlight a1)"
    unfolding a1_def by (rule turn_keys [OF pab])
  note a1s = stepped_simps [of C cfg "tn_send t" dh a, folded a1_def]
  let ?mk = "messageKey C ck'"
  let ?a' = "a1\<lparr>rt_ckSend := Some (chainNext C ck'), rt_nSend := 1\<rparr>"
  have enc: "encrypt C cfg (tn_send t) a (tn_text t) = (Inr (seal_frame C ?mk ?h (tn_text t)), ?a')"
    using keys(3) by (simp add: encrypt_def step a1s Let_def)
  have fa: "fields_ok KS a" "fields_ok KS b" and kin: "se_newKem (tn_send t) \<in> KS"
    using s g by (simp_all add: synced_def keys_good_def)
  have key_in: "rt_pqKey a1 = Some k \<Longrightarrow> k \<in> KS" for k
    using stepped_pqKey [of C cfg "tn_send t" dh a, folded a1_def] fa(1) kin
    by (metis fields_ok_key option.inject)
  have f1: "fields_ok KS a1" using keys(6) key_in by (auto simp: fields_ok_def split: option.split)
  have hok: "header_ok ?h"
    using s g m f1 \<open>length (dh_pub ?new) = 32\<close>
    by (intro out_header_ok [of _ _ KS]) (auto simp: a1s synced_def keys_good_def)
  have sk: "rt_skipped b = []" using s by (simp add: synced_def)
  have "rt_dhPeerPub b \<in> used" using s by (simp add: synced_def)
  then have "length (rt_dhPeerPub b) = 32" "rt_dhPeerPub b \<noteq> dh_pub ?new"
    using g by (auto simp: keys_good_def)
  then have other: "\<not> same_key ?h b"
    using \<open>length (dh_pub ?new) = 32\<close> by (simp add: same_key_def out_header_def)
  have cl: "close_chain C cfg ?h b = Inr []"
  proof (cases "rt_ckRecv b")
    case (Some ck)
    then have "rh_pn ?h \<le> rt_nRecv b" using s by (simp add: out_header_def a1s synced_def)
    with Some show ?thesis by (simp add: close_chain_def advance_none [OF cfg])
  qed (simp add: close_chain_def)
  have h0: "rh_n ?h = 0" "rh_dhPub ?h = dh_pub ?new" "rh_pqPub ?h = map_option kem_pub (rt_pqKey a1)"
      "rh_pqCt ?h = rt_ctInFlight a1"
    by (simp_all add: out_header_def a1s)
  let ?b1 = "commit_turn cfg (tn_recv t) ?h [] [] rk' (chainNext C ck') b"
  have dec: "decrypt C cfg (tn_recv t) b (seal_frame C ?mk ?h (tn_text t)) =
      deliver (tn_recv t) (map_option kem_pub (rt_pqKey a1)) (tn_text t) ?b1"
    unfolding decrypt_sealed [OF hok C(2) sk] Let_def
    using other keys(1,4,5) dh(2) b(1) cl tryOpen_seal [OF C(1), of ?mk ?h "tn_text t"] advance_none [OF cfg, of 0 0]
    by (cases "rt_pqKey b") (auto simp: open_turned_def h0 simp del: One_nat_def)
  have pq1: "pq_ok ?b1 a1"
  proof -
    have "pq_ok b a" using s by (simp add: synced_def)
    then show ?thesis
      using stepped_pqKey [of C cfg "tn_send t" dh a, folded a1_def]
      by (auto simp: pq_ok_def commit_turn_simps split: option.splits)
  qed
  have kg: "rt_pqKey a1 = Some k \<Longrightarrow> kem_good (re_encapsulate (tn_recv t)) k" for k
    using key_in g by (simp add: keys_good_def)
  obtain b' where d: "deliver (tn_recv t) (map_option kem_pub (rt_pqKey a1)) (tn_text t) ?b1 = (Inr (Some (tn_text t)), b')"
    and pq: "pq_ok b' a1"
    and b': "b' = ?b1\<lparr>rt_pendingSs := rt_pendingSs b', rt_pendingCt := rt_pendingCt b', rt_seenPeerPqPub := rt_seenPeerPqPub b'\<rparr>"
    by (rule deliver_synced [OF kg pq1])
  have fr: "rt_rk b' = rk'" "rt_stepBeforeSend b'" "rt_ckRecv b' = Some (chainNext C ck')"
      "rt_dhPeerPub b' = dh_pub ?new" "rt_nRecv b' = 1" "rt_nSend b' = rt_nSend b" "rt_ctInFlight b' = None"
      "rt_pqKey b' = (if rt_ctInFlight a1 = None then rt_pqKey b else None)" "rt_skipped b' = []"
    by (subst b'; simp add: commit_turn_simps commit_turn_skipped h0 sk)+
  have "pq_ok b' ?a' = pq_ok b' a1" by (rule pq_ok_cong) simp_all
  moreover have "pq_ok ?a' b'" by (simp add: pq_ok_def a1s)
  moreover have "fields_ok KS ?a' = fields_ok KS a1" by (rule fields_ok_cong) simp_all
  moreover have "fields_ok KS b'" using fa(2) by (simp add: fields_ok_def fr pq_field_ok_def)
  ultimately have "synced DS KS (insert (dh_pub ?new) used) (Suc m) ?a' b'"
    using s g pq f1 keys(2) by (auto simp: synced_def fr a1s keys_good_def)
  moreover have "hand_over C cfg t (a, b) = (Inr (Some (tn_text t)), ?a', b')"
    by (simp add: hand_over_def enc dec d)
  ultimately show ?thesis by blast
qed


subsection \<open>A whole conversation\<close>

text \<open>Two ratchets in step, whichever side is the active one.\<close>

definition in_step :: "dh_key set \<Rightarrow> kem_key set \<Rightarrow> bytes set \<Rightarrow> nat \<Rightarrow> ratchet \<times> ratchet \<Rightarrow> bool" where
  "in_step DS KS used m ab \<longleftrightarrow> synced DS KS used m (fst ab) (snd ab) \<or> synced DS KS used m (snd ab) (fst ab)"

lemma synced_more: "synced DS KS used m a b \<Longrightarrow> used \<subseteq> used' \<Longrightarrow> synced DS KS used' m a b"
  by (auto simp: synced_def)

lemma hand_over_in_step:
  assumes "in_step DS KS used m (a, b)" and g: "keys_good DS KS used t" and m: "m + 1 < 2 ^ 32"
    and C: "aead_opens C" "aead_tagged C" and cfg: "0 \<le> rc_maxSkip cfg"
  shows "\<exists>a' b'. hand_over C cfg t (a, b) = (Inr (Some (tn_text t)), a', b')
     \<and> synced DS KS (insert (dh_pub (se_newDh (tn_send t))) used) (Suc m) a' b'"
  using assms(1) send_same [OF _ g m C cfg, of a b] send_turn [OF _ g m C cfg, of b a]
  by (auto simp: in_step_def) (meson subset_insertI synced_more)

lemma exchange_in_step:
  assumes "in_step DS KS used m ab" and g: "keys_good DS KS used t" and m: "m + 1 < 2 ^ 32"
    and C: "aead_opens C" "aead_tagged C" and cfg: "0 \<le> rc_maxSkip cfg"
  shows "\<exists>ab'. exchange C cfg t ab = (Inr (Some (tn_text t)), ab')
     \<and> in_step DS KS (insert (dh_pub (se_newDh (tn_send t))) used) (Suc m) ab'"
proof (cases "tn_fromFirst t")
  case True
  then show ?thesis
    using hand_over_in_step [of DS KS used m "fst ab" "snd ab", OF _ g m C cfg] assms(1)
    by (auto simp: exchange_def in_step_def)
next
  case False
  then show ?thesis
    using hand_over_in_step [of DS KS used m "snd ab" "fst ab", OF _ g m C cfg] assms(1)
    by (fastforce simp: exchange_def in_step_def)
qed

definition script_good :: "dh_key set \<Rightarrow> kem_key set \<Rightarrow> bytes set \<Rightarrow> turn list \<Rightarrow> bool" where
  "script_good DS KS used ts \<longleftrightarrow>
     (\<forall>t \<in> set ts. keys_good DS KS used t) \<and> distinct (map (\<lambda>t. dh_pub (se_newDh (tn_send t))) ts)"

lemma script_good_Cons:
  assumes "script_good DS KS used (t # ts)"
  shows "keys_good DS KS used t" and "script_good DS KS (insert (dh_pub (se_newDh (tn_send t))) used) ts"
  using assms by (auto simp: script_good_def keys_good_def) (metis image_eqI)

lemma converse_in_step:
  assumes "in_step DS KS used m ab" and "script_good DS KS used ts" and "m + length ts < 2 ^ 32"
    and C: "aead_opens C" "aead_tagged C" and cfg: "0 \<le> rc_maxSkip cfg"
  shows "fst (converse C cfg ts ab) = map (\<lambda>t. Inr (Some (tn_text t))) ts"
  using assms(1-3)
proof (induction ts arbitrary: used m ab)
  case (Cons t ts)
  have "m + 1 < 2 ^ 32" "Suc m + length ts < 2 ^ 32" using Cons.prems(3) by simp_all
  then obtain ab' where e: "exchange C cfg t ab = (Inr (Some (tn_text t)), ab')"
    and i: "in_step DS KS (insert (dh_pub (se_newDh (tn_send t))) used) (Suc m) ab'"
    using exchange_in_step [OF Cons.prems(1) script_good_Cons(1) [OF Cons.prems(2)] _ C cfg] by blast
  have "fst (converse C cfg ts ab') = map (\<lambda>t. Inr (Some (tn_text t))) ts"
    using Cons.IH [OF i script_good_Cons(2) [OF Cons.prems(2)]] \<open>Suc m + length ts < 2 ^ 32\<close> by blast
  then show ?case by (simp add: e split: prod.split) (metis fst_conv)
qed simp

lemma script_ok_good:
  assumes "script_ok ek peerEk ts" and "length peerEk = 32"
  shows "script_good (set (script_keys ek ts)) (set (map (\<lambda>t. se_newKem (tn_send t)) ts)) {peerEk, dh_pub ek} ts"
  using assms by (fastforce simp: script_ok_def script_good_def keys_good_def script_keys_def list_all_iff comp_def distinct_map image_iff)

lemma ratchetFrom_synced:
  assumes "hs_sk rI = hs_sk rR" "hs_firstStepIkm rI = hs_firstStepIkm rR"
    and "hs_role rI = Initiator" "hs_role rR = Responder"
    and "hs_ekSelf rI = Some ek" "hs_ekPeerPub rR = dh_pub ek" "hs_ekPeerPub rI = peerEk"
    and "ek \<in> DS"
  shows "synced DS KS {peerEk, dh_pub ek} 0 (ratchetFrom C rI t1) (ratchetFrom C rR t2)"
  using assms by (auto simp: ratchetFrom_def synced_def pq_ok_def fields_ok_def pq_field_ok_def split: prod.splits)

lemma conversation_delivered:
  assumes "hs_sk rI = hs_sk rR" "hs_firstStepIkm rI = hs_firstStepIkm rR"
    and "hs_role rI = Initiator" "hs_role rR = Responder"
    and "hs_ekSelf rI = Some ek" "hs_ekPeerPub rR = dh_pub ek" "hs_ekPeerPub rI = peerEk"
    and "length peerEk = 32" and "script_ok ek peerEk ts" and "length ts < 2 ^ 32"
    and C: "aead_opens C" "aead_tagged C" and cfg: "0 \<le> rc_maxSkip cfg"
  shows "fst (converse C cfg ts (ratchetFrom C rI t1, ratchetFrom C rR t2)) = map (\<lambda>t. Inr (Some (tn_text t))) ts"
proof -
  have "in_step (set (script_keys ek ts)) (set (map (\<lambda>t. se_newKem (tn_send t)) ts)) {peerEk, dh_pub ek} 0
      (ratchetFrom C rI t1, ratchetFrom C rR t2)"
    using ratchetFrom_synced [OF assms(1-7)] by (simp add: in_step_def script_keys_def)
  then show ?thesis
    using converse_in_step [OF _ script_ok_good [OF assms(9,8)] _ C cfg] assms(10) by simp
qed

subsection \<open>Properties\<close>

text \<open>
  C5: a conversation is delivered. Two ratchets built from the results of one handshake read
  every message of a script, in order, whichever side speaks when, through every turn of the
  DH ratchet and every post-quantum step, while the keys drawn are fresh and of their lengths.
\<close>
theorem conversation_read:
  assumes "hs_sk rI = hs_sk rR" "hs_firstStepIkm rI = hs_firstStepIkm rR"
    and "hs_role rI = Initiator" "hs_role rR = Responder"
    and "hs_ekSelf rI = Some ek" "hs_ekPeerPub rR = dh_pub ek" "hs_ekPeerPub rI = peerEk" and "length peerEk = 32"
    and "script_ok ek peerEk ts" and "length ts < 2 ^ 32"
    and "aead_opens C" "aead_tagged C" and "0 \<le> rc_maxSkip cfg"
  shows "fst (converse C cfg ts (ratchetFrom C rI t1, ratchetFrom C rR t2)) = map (\<lambda>t. Inr (Some (tn_text t))) ts"
  using assms by (rule conversation_delivered)

definition demo_initiator :: hs_result where
  "demo_initiator = \<lparr>hs_role = Initiator, hs_sk = replicate 32 1, hs_ekSelf = Some (demo_dh 3), hs_ekPeerPub = replicate 32 5,
     hs_firstStepIkm = replicate 32 2\<rparr>"

definition demo_turn :: "bool \<Rightarrow> byte \<Rightarrow> turn" where
  "demo_turn first e = \<lparr>tn_fromFirst = first, tn_text = [e],
     tn_send = \<lparr>se_newDh = demo_dh e, se_newKem = demo_kem 2, se_now = 0\<rparr>,
     tn_recv = \<lparr>re_encapsulate = (\<lambda>p. Some (replicate 1088 1, take 32 (replicate 1088 1))), re_now = 0\<rparr>\<rparr>"

definition demo_script :: "turn list" where
  "demo_script = [demo_turn True 10, demo_turn False 11, demo_turn False 12, demo_turn True 13]"

lemma demo_script_ok: "script_ok (demo_dh 3) (replicate 32 5) demo_script"
  by (simp add: script_ok_def script_keys_def demo_script_def demo_turn_def demo_dh_agree kem_good_def)
    (simp add: demo_dh_def demo_kem_def)

theorem conversation_read_witness:
  "fst (converse demo_crypto default_cfg demo_script
     (ratchetFrom demo_crypto demo_initiator 0, ratchetFrom demo_crypto demo_responder 0))
   = [Inr (Some [10]), Inr (Some [11]), Inr (Some [12]), Inr (Some [13])]"
  using conversation_read [of demo_initiator demo_responder "demo_dh 3" "replicate 32 5" demo_script demo_crypto default_cfg 0 0]
    demo_script_ok demo_aead_opens demo_aead_tagged
  by (simp add: demo_initiator_def demo_responder_def demo_script_def demo_turn_def default_cfg_def MAX_SKIP_PER_CHAIN_def)
    (simp add: demo_dh_def)

text \<open>
  A replayed frame is read once. A frame that was not waiting in the stash and gave a
  plaintext gives none when it comes again, whatever the clock.
\<close>
theorem replay_reads_nothing:
  assumes "decrypt C cfg env st frame = (Inr (Some pt), st')"
    and "decodeHeader frame = Some (h, l)" and "peek (rh_dhPub h) (rh_n h) (rt_skipped st) = None"
    and "sk_inv (rc_maxChains cfg) (rt_skipped st)" "0 < rc_maxChains cfg"
  shows "decrypt C cfg env' st' frame = (Inr None, pruned cfg env' st')"
  using decrypt_spent [OF assms(1,2,4,5,3)] spent_replay [OF assms(2)] by blast

lemma demo_delivered:
  "\<exists>frame st'. decrypt demo_crypto default_cfg (tn_recv (demo_turn True 10)) (ratchetFrom demo_crypto demo_responder 0) frame
     = (Inr (Some [10]), st')"
proof -
  have "fst (converse demo_crypto default_cfg [demo_turn True 10]
      (ratchetFrom demo_crypto demo_initiator 0, ratchetFrom demo_crypto demo_responder 0)) = [Inr (Some [10])]"
    using conversation_delivered [of demo_initiator demo_responder "demo_dh 3" "replicate 32 5" "[demo_turn True 10]" demo_crypto default_cfg 0 0]
      demo_aead_opens demo_aead_tagged
    by (simp add: demo_initiator_def demo_responder_def demo_turn_def default_cfg_def MAX_SKIP_PER_CHAIN_def script_ok_def
        script_keys_def demo_dh_agree kem_good_def) (simp add: demo_dh_def demo_kem_def)
  then show ?thesis
    by (simp add: exchange_def hand_over_def demo_turn_def split: prod.splits sum.splits) blast
qed

theorem replay_reads_nothing_witness:
  "\<exists>frame st'. decrypt demo_crypto default_cfg (tn_recv (demo_turn True 10)) (ratchetFrom demo_crypto demo_responder 0) frame
       = (Inr (Some [10]), st')
     \<and> decrypt demo_crypto default_cfg demo_recv st' frame = (Inr None, pruned default_cfg demo_recv st')"
proof -
  obtain frame st' where d: "decrypt demo_crypto default_cfg (tn_recv (demo_turn True 10)) (ratchetFrom demo_crypto demo_responder 0) frame
      = (Inr (Some [10]), st')" using demo_delivered by blast
  then obtain h l where "decodeHeader frame = Some (h, l)"
    by (cases "decodeHeader frame") (auto simp: decrypt_def)
  from replay_reads_nothing [OF d this] d show ?thesis
    by (auto simp: peek_def default_cfg_def MAX_CHAINS_BACK_def)
qed

end
