(* ===== verification/JsValue.thy ===== *)
theory JsValue
  imports Machines
begin

section \<open>JavaScript values: strings, numbers, parsed JSON\<close>

text \<open>
  What the code reads out of JSON. A JavaScript string is the list of its UTF-16 code units
  (\<open>jstr\<close>), so \<open>length\<close> and \<open>take\<close> are \<open>.length\<close> and \<open>.slice(0, n)\<close>. A number is a
  rational, an infinity or NaN: the model does not round, which a double does not either for
  the integers below two to the 53rd that the code counts with. \<open>json\<close> is what
  \<open>JSON.parse\<close> returns. The text syntax itself, and the spelling of numbers, are parameters
  (\<open>js_env\<close>): \<open>js_parse\<close> is \<open>JSON.parse(dec.decode(bytes))\<close>, \<open>None\<close> when it throws, and
  \<open>js_stringify\<close> is \<open>enc.encode(JSON.stringify(value))\<close>.
\<close>

type_synonym jstr = "16 word list"

definition js :: "string \<Rightarrow> jstr" where
  "js s = map (\<lambda>c. word_of_nat (of_char c)) s"

datatype jsnum = Fin rat | PosInf | NegInf | NaN

datatype json =
    JNull
  | JBool bool
  | JNum jsnum
  | JStr jstr
  | JArr "json list"
  | JObj "(jstr \<times> json) list"

record js_env =
  js_parse :: "bytes \<Rightarrow> json option"
  js_stringify :: "json \<Rightarrow> bytes"
  js_num_of :: "jstr \<Rightarrow> jsnum" \<comment> \<open>\<open>Number(string)\<close>\<close>
  js_num_str :: "jsnum \<Rightarrow> jstr" \<comment> \<open>\<open>String(number)\<close>\<close>

subsection \<open>Reading a property\<close>

text \<open>\<open>j.name\<close>: \<open>None\<close> is the TypeError of reading from null, \<open>Some None\<close> is undefined.\<close>

definition prop_of :: "json \<Rightarrow> string \<Rightarrow> json option option" where
  "prop_of j k = (case j of
     JNull \<Rightarrow> None
   | JObj kvs \<Rightarrow> Some (map_of kvs (js k))
   | _ \<Rightarrow> Some None)"

definition num :: "int \<Rightarrow> json" where
  "num n = JNum (Fin (of_int n))"

definition is_integer :: "jsnum \<Rightarrow> bool" where
  "is_integer n = (case n of Fin q \<Rightarrow> q = of_int \<lfloor>q\<rfloor> | _ \<Rightarrow> False)"

definition int_of_num :: "jsnum \<Rightarrow> int" where
  "int_of_num n = (case n of Fin q \<Rightarrow> \<lfloor>q\<rfloor> | _ \<Rightarrow> 0)"

subsection \<open>Coercions\<close>

text \<open>
  \<open>String(v)\<close> and \<open>Number(v)\<close>. An array joins its elements with commas, null as nothing; an
  object is \<open>[object Object]\<close>, unless it has a property of its own called \<open>toString\<close>, which
  parsed JSON cannot make callable: then the coercion throws.
\<close>

fun join_comma :: "jstr list \<Rightarrow> jstr" where
  "join_comma [] = []"
| "join_comma [x] = x"
| "join_comma (x # xs) = x @ js '','' @ join_comma xs"

fun all_some :: "'a option list \<Rightarrow> 'a list option" where
  "all_some [] = Some []"
| "all_some (None # _) = None"
| "all_some (Some x # xs) = map_option ((#) x) (all_some xs)"

fun to_str :: "js_env \<Rightarrow> json \<Rightarrow> jstr option" where
  "to_str J JNull = Some (js ''null'')"
| "to_str J (JBool b) = Some (js (if b then ''true'' else ''false''))"
| "to_str J (JNum n) = Some (js_num_str J n)"
| "to_str J (JStr s) = Some s"
| "to_str J (JArr xs) =
     map_option join_comma (all_some (map (\<lambda>x. if x = JNull then Some [] else to_str J x) xs))"
| "to_str J (JObj kvs) =
     (if map_of kvs (js ''toString'') = None then Some (js ''[object Object]'') else None)"

definition to_num :: "js_env \<Rightarrow> json \<Rightarrow> jsnum option" where
  "to_num J v = (case v of
     JNull \<Rightarrow> Some (Fin 0)
   | JBool b \<Rightarrow> Some (Fin (if b then 1 else 0))
   | JNum n \<Rightarrow> Some n
   | _ \<Rightarrow> map_option (js_num_of J) (to_str J v))"

text \<open>\<open>String(v ?? d)\<close> and \<open>Number(v)\<close> of a property that may be undefined.\<close>

definition str_or :: "js_env \<Rightarrow> jstr \<Rightarrow> json option \<Rightarrow> jstr option" where
  "str_or J d v = (case v of None \<Rightarrow> Some d | Some JNull \<Rightarrow> Some d | Some x \<Rightarrow> to_str J x)"

definition num_of :: "js_env \<Rightarrow> json option \<Rightarrow> jsnum option" where
  "num_of J v = (case v of None \<Rightarrow> Some NaN | Some x \<Rightarrow> to_num J x)"

subsection \<open>UTF-8\<close>

text \<open>\<open>TextEncoder.encode\<close>: surrogate pairs become four bytes, a lone surrogate U+FFFD.\<close>

definition utf8_point :: "nat \<Rightarrow> bytes" where
  "utf8_point c =
     (if c < 0x80 then [word_of_nat c]
      else if c < 0x800 then [word_of_nat (0xC0 + c div 64), word_of_nat (0x80 + c mod 64)]
      else if c < 0x10000 then [word_of_nat (0xE0 + c div 4096), word_of_nat (0x80 + c div 64 mod 64), word_of_nat (0x80 + c mod 64)]
      else [word_of_nat (0xF0 + c div 262144), word_of_nat (0x80 + c div 4096 mod 64),
            word_of_nat (0x80 + c div 64 mod 64), word_of_nat (0x80 + c mod 64)])"

definition high_surrogate :: "nat \<Rightarrow> bool" where
  "high_surrogate u = (0xD800 \<le> u \<and> u < 0xDC00)"

definition low_surrogate :: "nat \<Rightarrow> bool" where
  "low_surrogate u = (0xDC00 \<le> u \<and> u < 0xE000)"

fun utf8 :: "jstr \<Rightarrow> bytes" where
  "utf8 [] = []"
| "utf8 [u] = (if high_surrogate (unat u) \<or> low_surrogate (unat u) then utf8_point 0xFFFD else utf8_point (unat u))"
| "utf8 (u # v # us) =
     (if high_surrogate (unat u)
      then if low_surrogate (unat v)
        then utf8_point (0x10000 + (unat u - 0xD800) * 1024 + (unat v - 0xDC00)) @ utf8 us
        else utf8_point 0xFFFD @ utf8 (v # us)
      else if low_surrogate (unat u) then utf8_point 0xFFFD @ utf8 (v # us)
      else utf8_point (unat u) @ utf8 (v # us))"

lemma is_integer_int [simp]: "is_integer (Fin (of_int n))" "is_integer (Fin (of_nat m))"
  by (simp_all add: is_integer_def)

lemma int_of_num_int [simp]: "int_of_num (Fin (of_int n)) = n" "int_of_num (Fin (of_nat m)) = int m"
  by (simp_all add: int_of_num_def)

lemma str_or_JStr [simp]: "str_or J d (Some (JStr s)) = Some s"
  by (simp add: str_or_def)

lemma num_of_num [simp]: "num_of J (Some (num n)) = Some (Fin (of_int n))"
  by (simp add: num_of_def to_num_def num_def)

lemma length_js [simp]: "length (js s) = length s"
  by (simp add: js_def)

lemma ucast_8_16: "ucast (ucast (x :: byte) :: 16 word) = x"
  by (rule bit_word_eqI) (simp add: bit_ucast_iff)

end
