(* ===== verification/Xfer.thy ===== *)
theory Xfer
  imports JsValue
begin

section \<open>Direct file transfer: frames and the two ends (lib/xfer.ts)\<close>

text \<open>
  The frames, the offer with the geometry check, and the two ends as records with one
  operation each per method: a \<open>Sender\<close> (offering, sending, done, failed) and a
  \<open>Receiver\<close> (offered, receiving, done, failed). An operation returns the events and the
  frame it produces with the new state. Sizes and indices are naturals; an id or index goes
  on the wire as its low 32 bits.
\<close>

definition CTRL :: byte where "CTRL = 0x00"
definition T_OFFER :: byte where "T_OFFER = 0x01"
definition T_ACCEPT :: byte where "T_ACCEPT = 0x02"
definition T_REJECT :: byte where "T_REJECT = 0x03"
definition T_CHUNK :: byte where "T_CHUNK = 0x04"
definition T_RECEIPT :: byte where "T_RECEIPT = 0x05"
definition T_CANCEL :: byte where "T_CANCEL = 0x06"
definition T_DONE :: byte where "T_DONE = 0x07"

lemmas xfer_tags = CTRL_def T_OFFER_def T_ACCEPT_def T_REJECT_def T_CHUNK_def T_RECEIPT_def T_CANCEL_def T_DONE_def

definition DC_MAX_MESSAGE :: nat where "DC_MAX_MESSAGE = 65536"
definition CHUNK_HEADER :: nat where "CHUNK_HEADER = 10"
definition CHUNK :: nat where "CHUNK = DC_MAX_MESSAGE - CHUNK_HEADER"
definition MAX_OFFER_BODY :: nat where "MAX_OFFER_BODY = 4096"
definition MAX_DIRECT :: nat where "MAX_DIRECT = 512 * 1024 * 1024"
definition ACCEPT_MS :: int where "ACCEPT_MS = 30000"
definition STALL_MS :: int where "STALL_MS = 60000"

definition receiptEvery :: "nat \<Rightarrow> nat" where
  "receiptEvery chunks = max 1 (nat \<lceil>(of_nat chunks :: rat) / 100\<rceil>)"

record offer =
  of_id :: nat
  of_name :: jstr
  of_size :: nat
  of_mime :: jstr
  of_chunk :: nat
  of_chunks :: nat
  of_body :: "jstr option"

datatype why = WRejected | WTimeout | CancelledLocal | CancelledPeer | TooBig | EmptyFile | Busy
  | OutOfOrder | BadFrame | WChannel

datatype ev = EvAccepted | EvTell bytes | EvOffer offer | EvProgress nat nat | EvDone | EvFailed why

subsection \<open>Frames\<close>

definition read_u32 :: "bytes \<Rightarrow> nat \<Rightarrow> nat" where
  "read_u32 b p = be_dec (slice_of p 4 b)"

definition frame :: "byte \<Rightarrow> nat \<Rightarrow> bytes \<Rightarrow> bytes" where
  "frame sub i rest = CTRL # sub # be_enc 4 i @ rest"

definition isXfer :: "bytes \<Rightarrow> bool" where
  "isXfer b = (length b \<ge> 6 \<and> b ! 0 = CTRL \<and> b ! 1 \<ge> T_OFFER \<and> b ! 1 \<le> T_DONE)"

definition offer_json :: "offer \<Rightarrow> json" where
  "offer_json ofr = JObj ([(js ''name'', JStr (of_name ofr)), (js ''size'', num (int (of_size ofr))),
     (js ''mime'', JStr (of_mime ofr)), (js ''chunk'', num (int (of_chunk ofr))),
     (js ''chunks'', num (int (of_chunks ofr)))]
     @ (case of_body ofr of None \<Rightarrow> [] | Some t \<Rightarrow> if t = [] then [] else [(js ''body'', JStr t)]))"

definition encodeOffer :: "js_env \<Rightarrow> offer \<Rightarrow> bytes" where
  "encodeOffer J ofr = frame T_OFFER (of_id ofr) (js_stringify J (offer_json ofr))"

definition encodeReject :: "nat \<Rightarrow> bytes" where
  "encodeReject i = frame T_REJECT i []"

definition clampName :: "jstr \<Rightarrow> jstr" where
  "clampName s = take 200 s"

definition clampMime :: "jstr \<Rightarrow> jstr" where
  "clampMime s = take 100 (if s = [] then js ''application/octet-stream'' else s)"

definition chunk_count :: "rat \<Rightarrow> int" where
  "chunk_count sz = max 1 \<lceil>sz / of_nat CHUNK\<rceil>"

text \<open>The note of a parsed offer: a non-empty string, clamped; anything else is no note.\<close>

definition offer_body :: "json option \<Rightarrow> jstr option" where
  "offer_body v = (case v of
     Some (JStr t) \<Rightarrow> if t = [] then None else Some (take MAX_OFFER_BODY t)
   | _ \<Rightarrow> None)"

text \<open>The geometry check: integers, and the chunk count that follows from the size.\<close>

definition geometry_ok :: "jsnum \<Rightarrow> jsnum \<Rightarrow> jsnum \<Rightarrow> bool" where
  "geometry_ok sz chunk chunks =
     (is_integer sz \<and> int_of_num sz \<ge> 0 \<and> is_integer chunks
      \<and> chunk = Fin (of_nat CHUNK)
      \<and> int_of_num chunks = chunk_count (of_int (int_of_num sz)))"

definition decodeOffer :: "js_env \<Rightarrow> bytes \<Rightarrow> offer option" where
  "decodeOffer J b =
     (if \<not> isXfer b \<or> b ! 1 \<noteq> T_OFFER then None
      else if length b - 6 > MAX_OFFER_BODY then None
      else Option.bind (js_parse J (drop 6 b)) (\<lambda>j.
        Option.bind (prop_of j ''name'') (\<lambda>jname. Option.bind (str_or J [] jname) (\<lambda>name.
        Option.bind (prop_of j ''size'') (\<lambda>jsize. Option.bind (num_of J jsize) (\<lambda>size.
        Option.bind (prop_of j ''mime'') (\<lambda>jmime. Option.bind (str_or J (js ''application/octet-stream'') jmime) (\<lambda>mime.
        Option.bind (prop_of j ''chunk'') (\<lambda>jchunk. Option.bind (num_of J jchunk) (\<lambda>chunk.
        Option.bind (prop_of j ''chunks'') (\<lambda>jchunks. Option.bind (num_of J jchunks) (\<lambda>chunks.
        Option.bind (prop_of j ''body'') (\<lambda>jbody.
          if geometry_ok size chunk chunks
          then Some \<lparr>of_id = read_u32 b 2, of_name = take 200 name, of_size = nat (int_of_num size),
            of_mime = take 100 mime, of_chunk = CHUNK, of_chunks = nat (int_of_num chunks),
            of_body = offer_body jbody\<rparr>
          else None)))))))))))))"

definition encodeChunk :: "nat \<Rightarrow> nat \<Rightarrow> bytes \<Rightarrow> bytes" where
  "encodeChunk i index body = CTRL # T_CHUNK # be_enc 4 i @ be_enc 4 index @ body"

text \<open>\<open>openOffer\<close>: null, a reason to refuse, or the offer.\<close>

definition openOffer :: "js_env \<Rightarrow> bytes \<Rightarrow> (why + offer) option" where
  "openOffer J b = (case decodeOffer J b of
     None \<Rightarrow> None
   | Some ofr \<Rightarrow> Some (if of_size ofr > MAX_DIRECT then Inl TooBig
       else if of_size ofr = 0 then Inl EmptyFile else Inr ofr))"

subsection \<open>The sender\<close>

datatype sender_state = Offering | Sending | SDone | SFailed

record file_info =
  fi_name :: jstr
  fi_size :: nat
  fi_mime :: jstr
  fi_body :: "jstr option"

record sender =
  sd_state :: sender_state
  sd_offer :: offer
  sd_sentIdx :: nat
  sd_ackedIdx :: int
  sd_last :: int

definition createSender :: "file_info \<Rightarrow> nat \<Rightarrow> sender" where
  "createSender f i =
     \<lparr>sd_state = Offering,
      sd_offer = \<lparr>of_id = i, of_name = clampName (fi_name f), of_size = fi_size f, of_mime = clampMime (fi_mime f),
        of_chunk = CHUNK, of_chunks = nat (chunk_count (of_nat (fi_size f))),
        of_body = (case fi_body f of Some t \<Rightarrow> if t = [] then None else Some t | None \<Rightarrow> None)\<rparr>,
      sd_sentIdx = 0, sd_ackedIdx = -1, sd_last = 0\<rparr>"

definition sender_fail :: "why \<Rightarrow> sender \<Rightarrow> ev list \<times> sender" where
  "sender_fail w s = ([EvFailed w], s\<lparr>sd_state := SFailed\<rparr>)"

definition sender_open :: "js_env \<Rightarrow> int \<Rightarrow> sender \<Rightarrow> bytes \<times> sender" where
  "sender_open J now s = (encodeOffer J (sd_offer s), s\<lparr>sd_last := now\<rparr>)"

definition sender_next :: "sender \<Rightarrow> nat option" where
  "sender_next s = (if sd_state s = Sending \<and> sd_sentIdx s < of_chunks (sd_offer s) then Some (sd_sentIdx s) else None)"

definition sender_chunk :: "nat \<Rightarrow> bytes \<Rightarrow> sender \<Rightarrow> bytes \<times> sender" where
  "sender_chunk index body s = (encodeChunk (of_id (sd_offer s)) index body, s\<lparr>sd_sentIdx := index + 1\<rparr>)"

definition acked :: "sender \<Rightarrow> nat" where
  "acked s = nat (min (int (of_size (sd_offer s))) ((sd_ackedIdx s + 1) * int CHUNK))"

definition sender_cancel :: "sender \<Rightarrow> bytes \<times> sender" where
  "sender_cancel s = (frame T_CANCEL (of_id (sd_offer s)) [], s\<lparr>sd_state := SFailed\<rparr>)"

definition sender_tick :: "int \<Rightarrow> sender \<Rightarrow> ev list \<times> sender" where
  "sender_tick now s =
     (if sd_state s = Offering \<and> now - sd_last s > ACCEPT_MS
      then (case sender_fail WTimeout s of (evs, s') \<Rightarrow> (EvTell (frame T_CANCEL (of_id (sd_offer s)) []) # evs, s'))
      else if sd_state s = Sending \<and> now - sd_last s > STALL_MS then sender_fail WChannel s
      else ([], s))"

definition sender_onFrame :: "bytes \<Rightarrow> int \<Rightarrow> sender \<Rightarrow> ev list \<times> sender" where
  "sender_onFrame b now s0 =
     (if \<not> isXfer b \<or> read_u32 b 2 \<noteq> of_id (sd_offer s0) then ([], s0)
      else let s = s0\<lparr>sd_last := now\<rparr>; sub = b ! 1; size = of_size (sd_offer s) in
        if sub = T_ACCEPT then
          (if sd_state s \<noteq> Offering then ([], s) else ([EvAccepted], s\<lparr>sd_state := Sending\<rparr>))
        else if sub = T_REJECT then
          (if sd_state s = Offering then sender_fail WRejected s else ([], s))
        else if sub = T_CANCEL then
          (if sd_state s = SDone then ([], s) else sender_fail CancelledPeer s)
        else if sub = T_RECEIPT then
          (if sd_state s \<noteq> Sending \<or> length b < 10 then ([], s)
           else let i = int (read_u32 b 6);
                    s' = (if i > sd_ackedIdx s then s\<lparr>sd_ackedIdx := i\<rparr> else s)
                in ([EvProgress (acked s') size], s'))
        else if sub = T_DONE then
          (if sd_state s \<noteq> Sending then ([], s)
           else ([EvProgress size size, EvDone], s\<lparr>sd_state := SDone\<rparr>))
        else ([], s))"

subsection \<open>The receiver\<close>

datatype receiver_state = Offered | Receiving | RDone | RFailed

record receiver =
  rc_state :: receiver_state
  rc_offer :: offer
  rc_want :: nat
  rc_got :: nat
  rc_last :: int
  rc_parts :: "bytes list"

definition createReceiver :: "offer \<Rightarrow> receiver" where
  "createReceiver ofr = \<lparr>rc_state = Offered, rc_offer = ofr, rc_want = 0, rc_got = 0, rc_last = 0, rc_parts = []\<rparr>"

definition receiver_fail :: "why \<Rightarrow> receiver \<Rightarrow> (ev list \<times> bytes option) \<times> receiver" where
  "receiver_fail w r = (([EvFailed w], None), r\<lparr>rc_state := RFailed\<rparr>)"

definition receiver_accept :: "int \<Rightarrow> receiver \<Rightarrow> bytes \<times> receiver" where
  "receiver_accept now r = (frame T_ACCEPT (of_id (rc_offer r)) [], r\<lparr>rc_state := Receiving, rc_last := now\<rparr>)"

definition receiver_reject :: "receiver \<Rightarrow> bytes \<times> receiver" where
  "receiver_reject r = (frame T_REJECT (of_id (rc_offer r)) [], r\<lparr>rc_state := RFailed\<rparr>)"

definition receiver_cancel :: "receiver \<Rightarrow> bytes \<times> receiver" where
  "receiver_cancel r = (frame T_CANCEL (of_id (rc_offer r)) [], r\<lparr>rc_state := RFailed\<rparr>)"

definition receiver_tick :: "int \<Rightarrow> receiver \<Rightarrow> ev list \<times> receiver" where
  "receiver_tick now r =
     (if rc_state r = Receiving \<and> now - rc_last r > STALL_MS
      then ([EvFailed WChannel], r\<lparr>rc_state := RFailed\<rparr>) else ([], r))"

text \<open>What an accepted chunk does: the part is kept, and the last one or every \<open>receiptEvery\<close>-th is answered.\<close>

definition take_chunk :: "bytes \<Rightarrow> receiver \<Rightarrow> (ev list \<times> bytes option) \<times> receiver" where
  "take_chunk body r =
     (let ofr = rc_offer r;
          r' = r\<lparr>rc_parts := rc_parts r @ [body], rc_got := rc_got r + length body, rc_want := rc_want r + 1\<rparr>;
          evs = [EvProgress (rc_got r') (of_size ofr)]
      in if rc_want r' \<ge> of_chunks ofr
         then ((evs @ [EvDone], Some (frame T_DONE (of_id ofr) [])), r'\<lparr>rc_state := RDone\<rparr>)
         else if rc_want r' mod receiptEvery (of_chunks ofr) = 0
         then ((evs, Some (frame T_RECEIPT (of_id ofr) (be_enc 4 (rc_want r' - 1)))), r')
         else ((evs, None), r'))"

definition receiver_onFrame :: "bytes \<Rightarrow> int \<Rightarrow> receiver \<Rightarrow> (ev list \<times> bytes option) \<times> receiver" where
  "receiver_onFrame b now r0 =
     (if \<not> isXfer b \<or> read_u32 b 2 \<noteq> of_id (rc_offer r0) then (([], None), r0)
      else let r = r0\<lparr>rc_last := now\<rparr> in
        if b ! 1 = T_CANCEL then
          (if rc_state r = RDone then (([], None), r) else receiver_fail CancelledPeer r)
        else if b ! 1 \<noteq> T_CHUNK then (([], None), r)
        else if rc_state r \<noteq> Receiving then (([], None), r)
        else if length b < 10 then receiver_fail BadFrame r
        else if read_u32 b 6 \<noteq> rc_want r then receiver_fail OutOfOrder r
        else let body = drop 10 b in
          if int (length body) \<noteq> min (int CHUNK) (int (of_size (rc_offer r)) - int (rc_got r)) then receiver_fail BadFrame r
          else take_chunk body r)"

end
