(* ===== verification/XferLink.thy ===== *)
theory XferLink
  imports Xfer
begin

section \<open>A transfer over the channel ends with the file\<close>

text \<open>
  The two ends joined by the channel the code assumes: reliable and in order each way, a
  queue of frames down to the receiver and one back up. \<open>link_step\<close> is one action, in any
  interleaving: the pump sends the next chunk, the receiver takes a frame, the sender takes
  one. From an accepted offer every reachable state keeps \<open>link_inv\<close>; a run cannot be longer
  than its measure, and where it can go no further both ends are done and the receiver's
  parts are the file.
\<close>

subsection \<open>Frames\<close>

lemma isXfer_frame [simp]: "T_OFFER \<le> s \<Longrightarrow> s \<le> T_DONE \<Longrightarrow> isXfer (frame s i r)"
  by (simp add: isXfer_def frame_def)

lemma frame_tag [simp]: "frame s i r ! Suc 0 = s"
  by (simp add: frame_def)

lemma read_id_frame [simp]: "i < 2 ^ 32 \<Longrightarrow> read_u32 (frame s i r) 2 = i"
  by (simp add: read_u32_def frame_def slice_of_def)

lemma read_index_frame [simp]: "k < 2 ^ 32 \<Longrightarrow> read_u32 (frame s i (be_enc 4 k @ r)) 6 = k"
  by (simp add: read_u32_def frame_def slice_of_def)

lemma length_frame [simp]: "length (frame s i r) = 6 + length r"
  by (simp add: frame_def)

lemma drop_frame [simp]: "drop 6 (frame s i r) = r"
  by (simp add: frame_def)

lemma encodeChunk_frame: "encodeChunk i k body = frame T_CHUNK i (be_enc 4 k @ body)"
  by (simp add: encodeChunk_def frame_def)

lemma length_encodeChunk [len_simps]: "length (encodeChunk i k body) = CHUNK_HEADER + length body"
  by (simp add: encodeChunk_frame CHUNK_HEADER_def)

lemma CHUNK_eq: "CHUNK = 65526"
  by (simp add: CHUNK_def DC_MAX_MESSAGE_def CHUNK_HEADER_def)

lemma chunk_frame_fits: "length body \<le> CHUNK \<Longrightarrow> length (encodeChunk i k body) \<le> DC_MAX_MESSAGE"
  by (simp add: len_simps CHUNK_eq CHUNK_HEADER_def DC_MAX_MESSAGE_def)

subsection \<open>Geometry\<close>

lemma ceiling_div:
  assumes "0 < k"
  shows "\<lceil>(of_nat n :: rat) / of_nat k\<rceil> = int ((n + (k - 1)) div k)"
proof -
  define q where "q = (n + (k - 1)) div k"
  have "k * q \<le> n + (k - 1)" by (simp add: q_def)
  moreover have "n + (k - 1) < k * q + k"
    using assms by (simp add: q_def) (metis add.commute dividend_less_div_times mult.commute)
  ultimately have "k * q < n + k" and "n \<le> k * q" using assms by linarith+
  then have "(of_nat n :: rat) \<le> of_nat k * of_nat q" "(of_nat k :: rat) * of_nat q < of_nat n + of_nat k"
    by (simp_all flip: of_nat_mult of_nat_add)
  then have "(of_nat n :: rat) / of_nat k \<le> of_int (int q)" "of_int (int q) - 1 < (of_nat n :: rat) / of_nat k"
    using assms by (simp_all add: field_simps)
  then show ?thesis unfolding q_def [symmetric] by (intro ceiling_unique) simp_all
qed

lemma chunk_count_nat: "chunk_count (of_nat n) = int (max 1 ((n + (CHUNK - 1)) div CHUNK))"
  using ceiling_div [of CHUNK n] by (simp add: chunk_count_def CHUNK_eq)

lemma receiptEvery_nat: "receiptEvery n = max 1 ((n + 99) div 100)"
  using ceiling_div [of 100 n] by (simp add: receiptEvery_def)

definition chunks_of :: "nat \<Rightarrow> nat" where
  "chunks_of n = nat (chunk_count (of_nat n))"

lemma chunks_of_bounds:
  assumes "0 < n"
  shows "(chunks_of n - 1) * CHUNK < n" and "n \<le> chunks_of n * CHUNK" and "0 < chunks_of n"
proof -
  have c: "chunks_of n = (n + (CHUNK - 1)) div CHUNK"
    using assms by (simp add: chunks_of_def chunk_count_nat CHUNK_eq max_def)
  show "(chunks_of n - 1) * CHUNK < n" "n \<le> chunks_of n * CHUNK" "0 < chunks_of n"
    unfolding c CHUNK_eq using assms by linarith+
qed

lemma chunks_of_le: "(chunks_of n - 1) * CHUNK \<le> n"
  using chunks_of_bounds(1) [of n] by (cases "n = 0") (auto simp: chunks_of_def chunk_count_def)

lemma chunks_of_u32: "n \<le> MAX_DIRECT \<Longrightarrow> chunks_of n < 2 ^ 32"
  by (simp add: chunks_of_def chunk_count_nat CHUNK_eq MAX_DIRECT_def)

text \<open>The number of receipts: between fifty and a hundred once there are fifty chunks.\<close>

lemma receipts_upto: "n div receiptEvery n \<le> 100"
  by (cases "n = 0") (simp_all add: receiptEvery_nat max_def less_Suc_eq_le [symmetric] div_less_iff_less_mult, linarith+)

subsection \<open>The pieces of a file\<close>

definition piece :: "bytes \<Rightarrow> nat \<Rightarrow> bytes" where
  "piece data i = slice_of (i * CHUNK) (min CHUNK (length data - i * CHUNK)) data"

lemma length_piece: "length (piece data i) = min CHUNK (length data - i * CHUNK)"
  by (simp add: piece_def slice_of_def)

lemma concat_pieces: "concat (map (piece data) [0..<k]) = take (k * CHUNK) data"
proof (induction k)
  case (Suc k)
  have "piece data k = take CHUNK (drop (k * CHUNK) data)"
    by (simp add: piece_def slice_of_def min_def)
  then have "take (k * CHUNK) data @ piece data k = take (k * CHUNK + CHUNK) data"
    by (simp add: take_add)
  then show ?case by (simp add: Suc.IH add.commute)
qed simp

lemma concat_all_pieces: "concat (map (piece data) [0..<chunks_of (length data)]) = data"
  using chunks_of_bounds(2) [of "length data"] by (cases "data = []") (simp_all add: concat_pieces)

subsection \<open>The link\<close>

record link =
  lk_s :: sender
  lk_r :: receiver
  lk_down :: "bytes list"
  lk_up :: "bytes list"

inductive link_step :: "bytes \<Rightarrow> link \<Rightarrow> link \<Rightarrow> bool" for data where
  pump: "sender_next (lk_s l) = Some i \<Longrightarrow> sender_chunk i (piece data i) (lk_s l) = (b, s')
    \<Longrightarrow> link_step data l (l\<lparr>lk_s := s', lk_down := lk_down l @ [b]\<rparr>)"
| down: "lk_down l = b # rest \<Longrightarrow> receiver_onFrame b now (lk_r l) = ((evs, reply), r')
    \<Longrightarrow> link_step data l (l\<lparr>lk_r := r', lk_down := rest,
          lk_up := lk_up l @ (case reply of None \<Rightarrow> [] | Some f \<Rightarrow> [f])\<rparr>)"
| up: "lk_up l = b # rest \<Longrightarrow> sender_onFrame b now (lk_s l) = (evs, s')
    \<Longrightarrow> link_step data l (l\<lparr>lk_s := s', lk_up := rest\<rparr>)"

inductive_cases link_stepE: "link_step data l l'"

inductive link_steps :: "bytes \<Rightarrow> nat \<Rightarrow> link \<Rightarrow> link \<Rightarrow> bool" for data where
  here: "link_steps data 0 l l"
| more: "link_steps data n l l' \<Longrightarrow> link_step data l' l'' \<Longrightarrow> link_steps data (Suc n) l l''"

text \<open>The start: the receiver has accepted the sender's offer, its answer is on the way.\<close>

definition link_start :: "file_info \<Rightarrow> nat \<Rightarrow> int \<Rightarrow> int \<Rightarrow> link" where
  "link_start f i opened accepted =
     (let s = (createSender f i)\<lparr>sd_last := opened\<rparr>
      in case receiver_accept accepted (createReceiver (sd_offer s)) of
        (b, r) \<Rightarrow> \<lparr>lk_s = s, lk_r = r, lk_down = [], lk_up = [b]\<rparr>)"

definition receipt :: "nat \<Rightarrow> nat \<Rightarrow> bytes" where
  "receipt i k = frame T_RECEIPT i (be_enc 4 k)"

definition receipts :: "nat \<Rightarrow> bytes list \<Rightarrow> bool" where
  "receipts i fs \<longleftrightarrow> (\<forall>f \<in> set fs. \<exists>k. f = receipt i k)"

definition up_ok :: "nat \<Rightarrow> link \<Rightarrow> bool" where
  "up_ok i l \<longleftrightarrow>
     sd_state (lk_s l) = Offering \<and> sd_sentIdx (lk_s l) = 0 \<and> lk_up l = [frame T_ACCEPT i []]
       \<and> rc_state (lk_r l) = Receiving
     \<or> sd_state (lk_s l) = Sending \<and> (if rc_state (lk_r l) = RDone
         then lk_up l \<noteq> [] \<and> last (lk_up l) = frame T_DONE i [] \<and> receipts i (butlast (lk_up l))
         else receipts i (lk_up l))
     \<or> sd_state (lk_s l) = SDone \<and> rc_state (lk_r l) = RDone \<and> lk_up l = []"

definition link_inv :: "bytes \<Rightarrow> link \<Rightarrow> bool" where
  "link_inv data l \<longleftrightarrow>
     of_id (sd_offer (lk_s l)) < 2 ^ 32 \<and> chunks_of (length data) < 2 ^ 32
     \<and> of_size (sd_offer (lk_s l)) = length data
     \<and> of_chunks (sd_offer (lk_s l)) = chunks_of (length data) \<and> rc_offer (lk_r l) = sd_offer (lk_s l)
     \<and> rc_parts (lk_r l) = map (piece data) [0..<rc_want (lk_r l)]
     \<and> rc_got (lk_r l) = min (length data) (rc_want (lk_r l) * CHUNK)
     \<and> rc_want (lk_r l) \<le> sd_sentIdx (lk_s l) \<and> sd_sentIdx (lk_s l) \<le> chunks_of (length data)
     \<and> lk_down l = map (\<lambda>k. encodeChunk (of_id (sd_offer (lk_s l))) k (piece data k)) [rc_want (lk_r l)..<sd_sentIdx (lk_s l)]
     \<and> (if rc_want (lk_r l) < chunks_of (length data) then rc_state (lk_r l) = Receiving else rc_state (lk_r l) = RDone)
     \<and> up_ok (of_id (sd_offer (lk_s l))) l"

lemma tag_bounds [simp]:
  "T_OFFER \<le> T_ACCEPT" "T_ACCEPT \<le> T_DONE" "T_OFFER \<le> T_CHUNK" "T_CHUNK \<le> T_DONE" "T_OFFER \<le> T_RECEIPT"
  "T_RECEIPT \<le> T_DONE" "T_OFFER \<le> T_DONE" "T_OFFER \<le> T_CANCEL" "T_CANCEL \<le> T_DONE" "T_OFFER \<le> T_REJECT" "T_REJECT \<le> T_DONE"
  by (simp_all add: xfer_tags)

lemma tag_ne [simp]:
  "T_CHUNK \<noteq> T_CANCEL" "T_ACCEPT \<noteq> T_CHUNK" "T_RECEIPT \<noteq> T_ACCEPT" "T_RECEIPT \<noteq> T_REJECT" "T_RECEIPT \<noteq> T_CANCEL"
  "T_DONE \<noteq> T_ACCEPT" "T_DONE \<noteq> T_REJECT" "T_DONE \<noteq> T_CANCEL" "T_DONE \<noteq> T_RECEIPT" "T_OFFER \<noteq> T_CHUNK"
  by (simp_all add: xfer_tags)

text \<open>The receiver takes the chunk it waits for.\<close>

lemma receive_next:
  assumes "of_id (rc_offer r) = i" and "i < 2 ^ 32" and "k < 2 ^ 32" and "rc_state r = Receiving" and "rc_want r = k"
    and "length body = min CHUNK (of_size (rc_offer r) - rc_got r)" and "rc_got r \<le> of_size (rc_offer r)"
  shows "receiver_onFrame (encodeChunk i k body) now r = take_chunk body (r\<lparr>rc_last := now\<rparr>)"
  using assms by (simp add: receiver_onFrame_def encodeChunk_frame Let_def) (auto simp: frame_def min_def of_nat_diff)

lemma take_chunk_cases:
  "take_chunk body r = ((evs, reply), r') \<Longrightarrow>
     r' = r\<lparr>rc_parts := rc_parts r @ [body], rc_got := rc_got r + length body, rc_want := Suc (rc_want r),
       rc_state := (if Suc (rc_want r) \<ge> of_chunks (rc_offer r) then RDone else rc_state r)\<rparr>
     \<and> (if Suc (rc_want r) \<ge> of_chunks (rc_offer r) then reply = Some (frame T_DONE (of_id (rc_offer r)) [])
        else reply = None \<or> reply = Some (receipt (of_id (rc_offer r)) (rc_want r)))"
  by (auto simp: take_chunk_def Let_def receipt_def split: if_splits)

lemma link_inv_pump:
  assumes "link_inv data l" and "sender_next (lk_s l) = Some i" and "sender_chunk i (piece data i) (lk_s l) = (b, s')"
  shows "link_inv data (l\<lparr>lk_s := s', lk_down := lk_down l @ [b]\<rparr>)"
  using assms by (auto simp: link_inv_def sender_next_def sender_chunk_def up_ok_def split: if_splits)

lemma link_inv_down:
  assumes inv: "link_inv data l" and q: "lk_down l = b # rest"
    and f: "receiver_onFrame b now (lk_r l) = ((evs, reply), r')"
  shows "link_inv data (l\<lparr>lk_r := r', lk_down := rest,
          lk_up := lk_up l @ (case reply of None \<Rightarrow> [] | Some f \<Rightarrow> [f])\<rparr>)"
proof -
  let ?s = "lk_s l" and ?r = "lk_r l" and ?n = "chunks_of (length data)"
  define w where "w = rc_want ?r"
  from inv have i: "of_id (sd_offer ?s) < 2 ^ 32" "?n < 2 ^ 32" "of_size (sd_offer ?s) = length data"
      "of_chunks (sd_offer ?s) = ?n" "rc_offer ?r = sd_offer ?s"
      "rc_parts ?r = map (piece data) [0..<w]" "rc_got ?r = min (length data) (w * CHUNK)"
      "w \<le> sd_sentIdx ?s" "sd_sentIdx ?s \<le> ?n"
      "lk_down l = map (\<lambda>k. encodeChunk (of_id (sd_offer ?s)) k (piece data k)) [w..<sd_sentIdx ?s]"
      "w < ?n \<Longrightarrow> rc_state ?r = Receiving" "up_ok (of_id (sd_offer ?s)) l"
    by (auto simp: link_inv_def w_def split: if_splits)
  with q have w: "w < sd_sentIdx ?s" by (cases "w < sd_sentIdx ?s") auto
  with i have wn: "w < ?n" by simp
  have q': "b = encodeChunk (of_id (sd_offer ?s)) w (piece data w)"
      "rest = map (\<lambda>k. encodeChunk (of_id (sd_offer ?s)) k (piece data k)) [Suc w..<sd_sentIdx ?s]"
    using q i(10) w by (auto simp: upt_conv_Cons)
  have wl: "w * CHUNK \<le> length data" "rc_got ?r = w * CHUNK"
  proof -
    have "w * CHUNK \<le> (?n - 1) * CHUNK" using wn by (intro mult_right_mono) auto
    then show "w * CHUNK \<le> length data" using chunks_of_le [of "length data"] by linarith
    then show "rc_got ?r = w * CHUNK" using i(7) by simp
  qed
  have "receiver_onFrame b now ?r = take_chunk (piece data w) (?r\<lparr>rc_last := now\<rparr>)"
    unfolding q'(1) by (rule receive_next) (use i wl wn w_def in \<open>simp_all add: length_piece\<close>)
  with f have t: "take_chunk (piece data w) (?r\<lparr>rc_last := now\<rparr>) = ((evs, reply), r')" by simp
  note r' = take_chunk_cases [OF t]
  have g: "w * CHUNK + length (piece data w) = min (length data) (Suc w * CHUNK)"
    using wl by (auto simp: length_piece min_def)
  have "rc_state ?r = Receiving" using i(11) wn by simp
  with i(12) r' show ?thesis
    using i w wn wl g q'(2) unfolding link_inv_def w_def [symmetric]
    by (auto simp: w_def [symmetric] up_ok_def receipts_def)
qed

text \<open>The sender takes what the receiver wrote: the acceptance, a receipt or the end.\<close>

lemma sender_onFrame_keeps:
  "sender_onFrame b now s = (evs, s') \<Longrightarrow> sd_offer s' = sd_offer s \<and> sd_sentIdx s' = sd_sentIdx s"
  by (auto simp: sender_onFrame_def sender_fail_def Let_def split: if_splits)

lemma sender_takes:
  assumes "of_id (sd_offer s) = i" and "i < 2 ^ 32"
  shows "sd_state s = Offering \<Longrightarrow> sd_state (snd (sender_onFrame (frame T_ACCEPT i []) now s)) = Sending"
    and "sd_state s = Sending \<Longrightarrow> sd_state (snd (sender_onFrame (receipt i k) now s)) = Sending"
    and "sd_state s = Sending \<Longrightarrow> sd_state (snd (sender_onFrame (frame T_DONE i []) now s)) = SDone"
  using assms by (simp_all add: sender_onFrame_def receipt_def Let_def)

lemma link_inv_up:
  assumes inv: "link_inv data l" and q: "lk_up l = b # rest" and f: "sender_onFrame b now (lk_s l) = (evs, s')"
  shows "link_inv data (l\<lparr>lk_s := s', lk_up := rest\<rparr>)"
proof -
  let ?i = "of_id (sd_offer (lk_s l))"
  from inv have i: "?i < 2 ^ 32" "up_ok ?i l" by (auto simp: link_inv_def)
  have k: "sd_offer s' = sd_offer (lk_s l)" "sd_sentIdx s' = sd_sentIdx (lk_s l)"
    using sender_onFrame_keeps [OF f] by simp_all
  note t = sender_takes [of "lk_s l" ?i, OF refl i(1)]
  have "up_ok ?i (l\<lparr>lk_s := s', lk_up := rest\<rparr>)"
    using i(2) [unfolded up_ok_def]
  proof (elim disjE conjE exE)
    assume "sd_state (lk_s l) = Offering" "lk_up l = [frame T_ACCEPT ?i []]" "rc_state (lk_r l) = Receiving"
    then show ?thesis using t(1) [of now] q f by (auto simp: up_ok_def receipts_def)
  next
    assume s: "sd_state (lk_s l) = Sending"
      and u: "if rc_state (lk_r l) = RDone
         then lk_up l \<noteq> [] \<and> last (lk_up l) = frame T_DONE ?i [] \<and> receipts ?i (butlast (lk_up l))
         else receipts ?i (lk_up l)"
    show ?thesis
    proof (cases "rc_state (lk_r l) = RDone \<and> rest = []")
      case True
      then show ?thesis using t(3) [of now] s u q f by (simp add: up_ok_def)
    next
      case False
      with u q obtain c where "b = receipt ?i c"
        by (auto simp: receipts_def split: if_splits)
      with False show ?thesis using t(2) [of c now] s u q f by (auto simp: up_ok_def receipts_def split: if_splits)
    qed
  qed (use q in simp)
  with inv show ?thesis by (auto simp: link_inv_def k)
qed

lemma link_step_inv: "link_step data l l' \<Longrightarrow> link_inv data l \<Longrightarrow> link_inv data l'"
  by (erule link_stepE) (auto intro: link_inv_pump link_inv_down link_inv_up)

lemma link_steps_inv: "link_steps data n l l' \<Longrightarrow> link_inv data l \<Longrightarrow> link_inv data l'"
  by (induction rule: link_steps.induct) (auto intro: link_step_inv)

lemma link_start_inv:
  assumes "fi_size f = length data" and "length data \<le> MAX_DIRECT" and "i < 2 ^ 32"
  shows "link_inv data (link_start f i t1 t2)"
proof -
  have "0 < chunks_of (length data)"
    using chunks_of_bounds(3) by (cases "length data = 0") (simp_all add: chunks_of_def chunk_count_def)
  then show ?thesis
    using assms chunks_of_u32 [OF assms(2)]
    by (auto simp: link_inv_def link_start_def createSender_def createReceiver_def receiver_accept_def up_ok_def chunks_of_def)
qed

subsection \<open>A run ends, and ends with the file\<close>

definition link_left :: "link \<Rightarrow> nat" where
  "link_left l = 3 * (of_chunks (sd_offer (lk_s l)) - sd_sentIdx (lk_s l)) + 2 * length (lk_down l) + length (lk_up l)"

lemma receiver_reply_offer: "receiver_onFrame b now r = ((evs, reply), r') \<Longrightarrow> rc_offer r' = rc_offer r"
  by (auto simp: receiver_onFrame_def receiver_fail_def take_chunk_def Let_def split: if_splits)

lemma link_step_left: "link_step data l l' \<Longrightarrow> link_left l' < link_left l"
  by (erule link_stepE)
    (auto simp: link_left_def sender_next_def sender_chunk_def dest!: sender_onFrame_keeps split: if_splits option.splits)

lemma link_steps_left: "link_steps data n l l' \<Longrightarrow> n + link_left l' \<le> link_left l"
  by (induction rule: link_steps.induct) (auto dest: link_step_left)

lemma link_stuck:
  assumes inv: "link_inv data l" and stuck: "\<And>l'. \<not> link_step data l l'"
  shows "sd_state (lk_s l) = SDone" and "rc_state (lk_r l) = RDone" and "concat (rc_parts (lk_r l)) = data"
proof -
  let ?n = "chunks_of (length data)"
  have u: "lk_up l = []"
  proof (cases "lk_up l")
    case (Cons b rest)
    then show ?thesis using stuck link_step.up [of l b rest 0] by (metis surj_pair)
  qed simp
  have d: "lk_down l = []"
  proof (cases "lk_down l")
    case (Cons b rest)
    then show ?thesis using stuck link_step.down [of l b rest 0] by (metis surj_pair)
  qed simp
  have p: "sender_next (lk_s l) = None"
    using stuck link_step.pump [of l _ data] by (metis not_None_eq surj_pair)
  show "sd_state (lk_s l) = SDone" "rc_state (lk_r l) = RDone" "concat (rc_parts (lk_r l)) = data"
    using inv u d p concat_all_pieces [of data]
    by (auto simp: link_inv_def up_ok_def sender_next_def split: if_splits)
qed

text \<open>At every moment the parts are a prefix of the file, in order.\<close>

lemma link_prefix:
  "link_inv data l \<Longrightarrow> concat (rc_parts (lk_r l)) = take (rc_want (lk_r l) * CHUNK) data \<and> rc_state (lk_r l) \<noteq> RFailed"
  by (auto simp: link_inv_def concat_pieces split: if_splits)

subsection \<open>The offer arrives as it was made\<close>

definition offer_well :: "offer \<Rightarrow> bool" where
  "offer_well ofr \<longleftrightarrow> of_id ofr < 2 ^ 32 \<and> length (of_name ofr) \<le> 200 \<and> length (of_mime ofr) \<le> 100
     \<and> of_chunk ofr = CHUNK \<and> of_chunks ofr = chunks_of (of_size ofr)
     \<and> (case of_body ofr of None \<Rightarrow> True | Some t \<Rightarrow> t \<noteq> [] \<and> length t \<le> MAX_OFFER_BODY)"

lemma createSender_well:
  "i < 2 ^ 32 \<Longrightarrow> (case fi_body f of None \<Rightarrow> True | Some t \<Rightarrow> length t \<le> MAX_OFFER_BODY)
    \<Longrightarrow> offer_well (sd_offer (createSender f i))"
  by (auto simp: offer_well_def createSender_def clampName_def clampMime_def chunks_of_def split: option.splits)

lemma js_keys: "js ''name'' \<noteq> js ''size''" "js ''name'' \<noteq> js ''mime''" "js ''name'' \<noteq> js ''chunk''" "js ''name'' \<noteq> js ''chunks''"
  "js ''name'' \<noteq> js ''body''" "js ''size'' \<noteq> js ''mime''" "js ''size'' \<noteq> js ''chunk''" "js ''size'' \<noteq> js ''chunks''"
  "js ''size'' \<noteq> js ''body''" "js ''mime'' \<noteq> js ''chunk''" "js ''mime'' \<noteq> js ''chunks''" "js ''mime'' \<noteq> js ''body''"
  "js ''chunk'' \<noteq> js ''chunks''" "js ''chunk'' \<noteq> js ''body''" "js ''chunks'' \<noteq> js ''body''"
  by (simp_all add: js_def)

lemma chunk_count_ge: "1 \<le> chunk_count q"
  by (simp add: chunk_count_def)

lemma decode_encodeOffer:
  assumes w: "offer_well ofr" and J: "js_parse J (js_stringify J (offer_json ofr)) = Some (offer_json ofr)"
    and len: "length (encodeOffer J ofr) - 6 \<le> MAX_OFFER_BODY"
  shows "decodeOffer J (encodeOffer J ofr) = Some ofr"
proof -
  have cc: "chunk_count (rat_of_int (int (of_size ofr))) = int (of_chunks ofr)"
    using w chunk_count_ge [of "of_nat (of_size ofr)"] by (simp add: offer_well_def chunks_of_def)
  let ?j = "offer_json ofr"
  have p: "prop_of ?j ''name'' = Some (Some (JStr (of_name ofr)))" "prop_of ?j ''size'' = Some (Some (num (int (of_size ofr))))"
    "prop_of ?j ''mime'' = Some (Some (JStr (of_mime ofr)))" "prop_of ?j ''chunk'' = Some (Some (num (int (of_chunk ofr))))"
    "prop_of ?j ''chunks'' = Some (Some (num (int (of_chunks ofr))))" "prop_of ?j ''body'' = Some (map_option JStr (of_body ofr))"
    using w js_keys by (auto simp: prop_of_def offer_json_def offer_well_def map_add_def split: option.splits)
  have g: "geometry_ok (Fin (of_int (int (of_size ofr)))) (Fin (of_int (int (of_chunk ofr)))) (Fin (of_int (int (of_chunks ofr))))"
    using w cc by (simp add: geometry_ok_def offer_well_def del: of_int_of_nat_eq)
  have b: "offer_body (map_option JStr (of_body ofr)) = of_body ofr"
    using w by (auto simp: offer_body_def offer_well_def split: option.splits)
  have "isXfer (encodeOffer J ofr)" "encodeOffer J ofr ! 1 = T_OFFER" "read_u32 (encodeOffer J ofr) 2 = of_id ofr"
      "drop 6 (encodeOffer J ofr) = js_stringify J ?j"
    using w by (simp_all add: encodeOffer_def offer_well_def)
  then show ?thesis
    using w len J g by (simp add: decodeOffer_def p b del: of_int_of_nat_eq) (simp add: offer_well_def)
qed

lemma link_ends: "\<exists>n l'. link_steps data n l l' \<and> (\<forall>l''. \<not> link_step data l' l'')"
proof -
  let ?P = "\<lambda>n. \<exists>l'. link_steps data n l l'"
  have "?P 0" by (blast intro: link_steps.here)
  moreover have "\<forall>n. ?P n \<longrightarrow> n \<le> link_left l"
  proof (intro allI impI)
    fix n assume "?P n"
    then obtain l' where "link_steps data n l l'" ..
    from link_steps_left [OF this] show "n \<le> link_left l" by simp
  qed
  ultimately have n: "?P (Greatest ?P)" "\<forall>m. ?P m \<longrightarrow> m \<le> Greatest ?P"
    using GreatestI_nat [of ?P 0 "link_left l"] Greatest_le_nat [of ?P _ "link_left l"] by simp_all
  then obtain l' where l': "link_steps data (Greatest ?P) l l'" by blast
  have "\<not> link_step data l' l''" for l''
  proof
    assume "link_step data l' l''"
    then have "?P (Suc (Greatest ?P))" using l' by (blast intro: link_steps.more)
    with n(2) have "Suc (Greatest ?P) \<le> Greatest ?P" by blast
    then show False by simp
  qed
  with l' show ?thesis by blast
qed

subsection \<open>Properties\<close>

text \<open>
  C26: a transfer ends with the file. From an accepted offer of at most 512 MB, in whatever order
  the pump and the two ends act: the run is no longer than three actions a chunk and one more,
  what has arrived is always a prefix of the file with the receiver not failed, and where
  nothing can act any more both ends are done and the parts are the file.
\<close>
theorem transfer_completes:
  assumes "fi_size f = length data" and "length data \<le> MAX_DIRECT" and "i < 2 ^ 32"
    and "link_steps data n (link_start f i t1 t2) l"
  shows "n \<le> 3 * chunks_of (length data) + 1
    \<and> concat (rc_parts (lk_r l)) = take (rc_want (lk_r l) * CHUNK) data \<and> rc_state (lk_r l) \<noteq> RFailed
    \<and> ((\<forall>l'. \<not> link_step data l l') \<longrightarrow>
        sd_state (lk_s l) = SDone \<and> rc_state (lk_r l) = RDone \<and> concat (rc_parts (lk_r l)) = data)"
proof -
  have inv: "link_inv data l" using link_start_inv [OF assms(1-3)] link_steps_inv [OF assms(4)] by blast
  have "link_left (link_start f i t1 t2) = 3 * chunks_of (length data) + 1"
    using assms(1) by (simp add: link_left_def link_start_def receiver_accept_def createSender_def chunks_of_def Let_def)
  with link_steps_left [OF assms(4)] have "n \<le> 3 * chunks_of (length data) + 1" by linarith
  with link_prefix [OF inv] link_stuck [OF inv] show ?thesis by blast
qed

definition demo_file :: file_info where
  "demo_file = \<lparr>fi_name = [], fi_size = 3, fi_mime = [], fi_body = None\<rparr>"

theorem transfer_completes_witness:
  "\<exists>n l. link_steps [1, 2, 3] n (link_start demo_file 7 0 0) l \<and> sd_state (lk_s l) = SDone \<and> rc_state (lk_r l) = RDone
     \<and> concat (rc_parts (lk_r l)) = [1, 2, 3]"
proof -
  obtain n l where l: "link_steps [1, 2, 3] n (link_start demo_file 7 0 0) l" "\<forall>l'. \<not> link_step [1, 2, 3] l l'"
    using link_ends by blast
  from transfer_completes [OF _ _ _ l(1)] l show ?thesis by (auto simp: demo_file_def MAX_DIRECT_def)
qed

text \<open>
  An offer arrives as it was made. What \<open>createSender\<close> offers, with an id in 32 bits and a
  note within its limit, is what \<open>decodeOffer\<close> reads on the other side, when JSON reads back
  what it wrote and the frame is within the limit on an offer's body.
\<close>
theorem offer_roundtrip:
  assumes "i < 2 ^ 32" and "case fi_body f of None \<Rightarrow> True | Some t \<Rightarrow> length t \<le> MAX_OFFER_BODY"
    and "js_parse J (js_stringify J (offer_json (sd_offer (createSender f i)))) = Some (offer_json (sd_offer (createSender f i)))"
    and "length (encodeOffer J (sd_offer (createSender f i))) - 6 \<le> MAX_OFFER_BODY"
  shows "decodeOffer J (encodeOffer J (sd_offer (createSender f i))) = Some (sd_offer (createSender f i))"
  by (rule decode_encodeOffer [OF createSender_well [OF assms(1,2)] assms(3,4)])

definition demo_js :: js_env where
  "demo_js = \<lparr>js_parse = (\<lambda>b. if b = [123] then Some (offer_json (sd_offer (createSender demo_file 7))) else None),
     js_stringify = (\<lambda>j. if j = offer_json (sd_offer (createSender demo_file 7)) then [123] else []),
     js_num_of = (\<lambda>_. NaN), js_num_str = (\<lambda>_. [])\<rparr>"

theorem offer_roundtrip_witness:
  "decodeOffer demo_js (encodeOffer demo_js (sd_offer (createSender demo_file 7))) = Some (sd_offer (createSender demo_file 7))"
  by (rule offer_roundtrip) (simp_all add: demo_file_def demo_js_def encodeOffer_def MAX_OFFER_BODY_def)

text \<open>
  A transfer keeps within the channel. A chunk frame is within the message size the channel
  takes, the chunk indices of a transfer fit their 32 bits, and at most a hundred receipts
  come back.
\<close>
theorem transfer_bounds:
  assumes "length body \<le> CHUNK" and "size_of \<le> MAX_DIRECT"
  shows "length (encodeChunk i k body) \<le> DC_MAX_MESSAGE \<and> chunks_of size_of < 2 ^ 32
    \<and> n div receiptEvery n \<le> 100"
  using chunk_frame_fits [OF assms(1)] chunks_of_u32 [OF assms(2)] receipts_upto by blast

theorem transfer_bounds_witness: "length (encodeChunk 1 2 (replicate CHUNK 0)) \<le> DC_MAX_MESSAGE \<and> chunks_of MAX_DIRECT < 2 ^ 32"
  using transfer_bounds [of "replicate CHUNK 0" MAX_DIRECT 1 2] by simp

end
