(* ===== verification/XferSession.thy ===== *)
theory XferSession
  imports Xfer
begin

section \<open>One transfer at a time (lib/xfer-session.ts)\<close>

text \<open>
  The session object as a record: the sender or receiver in use and the file being sent.
  What an operation does to the outside, frames on the channel and events to the interface,
  is a list of effects in order. The channel handle \<open>host.direct()\<close> is an argument: absent,
  or present with the verdict of its \<open>send\<close>, which may throw. The asynchronous \<open>pump\<close> is cut
  at its two waits: \<open>xs_pump\<close> says whether it is not running, waits for the channel to drain
  or waits for a slice of the file, with the chunk index it holds meanwhile.
\<close>

datatype direction = DirIn | DirOut

datatype xfer_event =
    XOffer nat jstr nat jstr
  | XAccepted
  | XProgress direction nat nat
  | XDone nat
  | XReceived nat jstr jstr bytes "jstr option"
  | XFailed direction why

datatype effect = Send bytes | Tell xfer_event

datatype offer_result = OfferOk | OfferBusy | NoChannel | OfferTooBig | OfferEmpty | NoteTooBig | WholeOfferTooBig | SendThrew

datatype pumping = PumpIdle | PumpDrain nat | PumpRead nat bytes

record xsession =
  xs_send :: "sender option"
  xs_recv :: "receiver option"
  xs_file :: "bytes option"
  xs_pump :: pumping

definition xs_idle :: xsession where
  "xs_idle = \<lparr>xs_send = None, xs_recv = None, xs_file = None, xs_pump = PumpIdle\<rparr>"

definition clear :: "xsession \<Rightarrow> xsession" where
  "clear s = s\<lparr>xs_send := None, xs_recv := None, xs_file := None\<rparr>"

definition busy :: "xsession \<Rightarrow> bool" where
  "busy s = (xs_send s \<noteq> None \<or> xs_recv s \<noteq> None)"

definition pending_offer :: "xsession \<Rightarrow> offer option" where
  "pending_offer s = (case xs_recv s of
     Some r \<Rightarrow> if rc_state r = Offered then Some (rc_offer r) else None
   | None \<Rightarrow> None)"

text \<open>\<open>send\<close> on a channel that may be absent or throw, inside \<open>try \<dots> catch {}\<close>.\<close>

datatype channel = NoLink | Link bool

definition try_send :: "channel \<Rightarrow> bytes \<Rightarrow> effect list" where
  "try_send d b = (case d of Link True \<Rightarrow> [Send b] | _ \<Rightarrow> [])"

text \<open>One event of an end, as the interface hears it; a failure and an outgoing \<open>done\<close> clear the session.\<close>

definition emit1 :: "channel \<Rightarrow> direction \<Rightarrow> ev \<Rightarrow> xsession \<Rightarrow> effect list \<times> xsession" where
  "emit1 d dir e s = (case e of
     EvTell b \<Rightarrow> (try_send d b, s)
   | EvProgress dn tot \<Rightarrow> ([Tell (XProgress dir dn tot)], s)
   | EvAccepted \<Rightarrow> ([Tell XAccepted], s)
   | EvFailed w \<Rightarrow> ([Tell (XFailed dir w)], clear s)
   | EvDone \<Rightarrow> if dir = DirOut
       then ([Tell (XDone (case xs_send s of Some p \<Rightarrow> of_id (sd_offer p) | None \<Rightarrow> 0))], clear s)
       else ([], s)
   | EvOffer _ \<Rightarrow> ([], s))"

fun emit :: "channel \<Rightarrow> direction \<Rightarrow> ev list \<Rightarrow> xsession \<Rightarrow> effect list \<times> xsession" where
  "emit d dir [] s = ([], s)"
| "emit d dir (e # es) s =
     (case emit1 d dir e s of (f1, s1) \<Rightarrow> (case emit d dir es s1 of (f2, s2) \<Rightarrow> (f1 @ f2, s2)))"

text \<open>The interval timer.\<close>

definition on_timer :: "channel \<Rightarrow> int \<Rightarrow> xsession \<Rightarrow> effect list \<times> xsession" where
  "on_timer d now s0 =
     (case (case xs_send s0 of None \<Rightarrow> ([], s0)
        | Some p \<Rightarrow> (case sender_tick now p of (evs, p') \<Rightarrow> emit d DirOut evs (s0\<lparr>xs_send := Some p'\<rparr>))) of
      (f1, s1) \<Rightarrow> (case (case xs_recv s1 of None \<Rightarrow> ([], s1)
        | Some r \<Rightarrow> (case receiver_tick now r of (evs, r') \<Rightarrow> emit d DirIn evs (s1\<lparr>xs_recv := Some r'\<rparr>))) of
          (f2, s2) \<Rightarrow> (f1 @ f2, s2)))"

text \<open>The head of the pump's loop, up to the wait for the channel.\<close>

definition pump_loop :: "channel \<Rightarrow> xsession \<Rightarrow> effect list \<times> xsession" where
  "pump_loop d s =
     (case (xs_send s, xs_file s) of
        (Some p, Some data) \<Rightarrow>
          (case sender_next p of
             None \<Rightarrow> ([], s\<lparr>xs_pump := PumpIdle\<rparr>)
           | Some i \<Rightarrow> (case d of
               NoLink \<Rightarrow> emit d DirOut [EvFailed WChannel] (s\<lparr>xs_pump := PumpIdle\<rparr>)
             | Link _ \<Rightarrow> ([], s\<lparr>xs_pump := PumpDrain i\<rparr>)))
      | _ \<Rightarrow> ([], s\<lparr>xs_pump := PumpIdle\<rparr>))"

definition pump :: "channel \<Rightarrow> xsession \<Rightarrow> effect list \<times> xsession" where
  "pump d s = (if xs_pump s \<noteq> PumpIdle then ([], s) else pump_loop d s)"

text \<open>\<open>drain()\<close> resolved: the session is looked at again, and the slice is asked for.\<close>

definition pump_drained :: "xsession \<Rightarrow> xsession" where
  "pump_drained s =
     (case xs_pump s of
        PumpDrain i \<Rightarrow>
          (case (xs_send s, xs_file s) of
             (Some p, Some data) \<Rightarrow>
               if sd_state p \<noteq> Sending then s\<lparr>xs_pump := PumpIdle\<rparr>
               else s\<lparr>xs_pump := PumpRead i
                 (slice_of (i * CHUNK) (min (i * CHUNK + CHUNK) (length data) - i * CHUNK) data)\<rparr>
           | _ \<Rightarrow> s\<lparr>xs_pump := PumpIdle\<rparr>)
      | _ \<Rightarrow> s)"

text \<open>The slice arrived: the chunk goes out on the channel taken before the waits, and the loop turns.\<close>

definition pump_read :: "bool \<Rightarrow> channel \<Rightarrow> xsession \<Rightarrow> effect list \<times> xsession" where
  "pump_read sendOk d s =
     (case xs_pump s of
        PumpRead i body \<Rightarrow>
          (case xs_send s of
             None \<Rightarrow> ([], s\<lparr>xs_pump := PumpIdle\<rparr>)
           | Some p \<Rightarrow>
               if sd_state p \<noteq> Sending then ([], s\<lparr>xs_pump := PumpIdle\<rparr>)
               else (case sender_chunk i body p of (b, p') \<Rightarrow>
                 if \<not> sendOk then emit d DirOut [EvFailed WChannel] (s\<lparr>xs_send := Some p', xs_pump := PumpIdle\<rparr>)
                 else (case pump_loop d (s\<lparr>xs_send := Some p'\<rparr>) of (f, s') \<Rightarrow> (Send b # f, s'))))
      | _ \<Rightarrow> ([], s))"

text \<open>
  \<open>offer\<close>: the note is measured as it sits in the frame. The last send is not guarded, and a
  throw there leaves the sender in place.
\<close>

definition offer_file ::
  "js_env \<Rightarrow> channel \<Rightarrow> int \<Rightarrow> nat \<Rightarrow> jstr \<Rightarrow> jstr \<Rightarrow> bytes \<Rightarrow> jstr option \<Rightarrow> xsession
    \<Rightarrow> offer_result \<times> effect list \<times> xsession" where
  "offer_file J d now i name type data body s =
     (if busy s then (OfferBusy, [], s)
      else case d of NoLink \<Rightarrow> (NoChannel, [], s)
      | Link ok \<Rightarrow>
        if length data > MAX_DIRECT then (OfferTooBig, [], s)
        else if length data = 0 then (OfferEmpty, [], s)
        else if (case body of None \<Rightarrow> False | Some t \<Rightarrow> t \<noteq> [] \<and> length (js_stringify J (JStr t)) > MAX_OFFER_BODY)
          then (NoteTooBig, [], s)
        else let p = createSender \<lparr>fi_name = name, fi_size = length data,
                fi_mime = (if type = [] then js ''application/octet-stream'' else type),
                fi_body = (case body of None \<Rightarrow> None | Some t \<Rightarrow> if t = [] then None else Some t)\<rparr> i in
          if length (encodeOffer J (sd_offer p)) - 6 > MAX_OFFER_BODY then (WholeOfferTooBig, [], s)
          else case sender_open J now p of (b, p') \<Rightarrow>
            if ok then (OfferOk, [Send b], s\<lparr>xs_file := Some data, xs_send := Some p'\<rparr>)
            else (SendThrew, [], s\<lparr>xs_file := Some data, xs_send := Some p'\<rparr>))"

text \<open>\<open>accept\<close>: the receiver is moved on before the frame is sent, and the send is not guarded.\<close>

definition accept :: "channel \<Rightarrow> int \<Rightarrow> xsession \<Rightarrow> effect list \<times> xsession" where
  "accept d now s =
     (case xs_recv s of None \<Rightarrow> ([], s)
      | Some r \<Rightarrow> if rc_state r \<noteq> Offered then ([], s)
          else case d of NoLink \<Rightarrow> ([Tell (XFailed DirIn WChannel)], clear s)
          | Link ok \<Rightarrow> (case receiver_accept now r of (b, r') \<Rightarrow> (if ok then [Send b] else [], s\<lparr>xs_recv := Some r'\<rparr>)))"

definition reject :: "channel \<Rightarrow> xsession \<Rightarrow> effect list \<times> xsession" where
  "reject d s = (case xs_recv s of None \<Rightarrow> ([], s) | Some r \<Rightarrow> (try_send d (fst (receiver_reject r)), clear s))"

definition cancel :: "channel \<Rightarrow> xsession \<Rightarrow> effect list \<times> xsession" where
  "cancel d s =
     (case (xs_send s, xs_recv s) of
        (Some p, _) \<Rightarrow> (try_send d (fst (sender_cancel p)) @ [Tell (XFailed DirOut CancelledLocal)], clear s)
      | (None, Some r) \<Rightarrow> (try_send d (fst (receiver_cancel r)) @ [Tell (XFailed DirIn CancelledLocal)], clear s)
      | (None, None) \<Rightarrow> ([], s))"

definition on_offer :: "js_env \<Rightarrow> channel \<Rightarrow> bytes \<Rightarrow> xsession \<Rightarrow> effect list \<times> xsession" where
  "on_offer J d b s =
     (case decodeOffer J b of
        None \<Rightarrow> (try_send d (encodeReject (read_u32 b 2)), s)
      | Some ofr \<Rightarrow>
          let say = (\<lambda>w. (try_send d (fst (receiver_reject (createReceiver ofr))) @ [Tell (XFailed DirIn w)], s)) in
          if busy s then say Busy
          else if of_size ofr > MAX_DIRECT then say TooBig
          else if of_size ofr = 0 then say EmptyFile
          else ([Tell (XOffer (of_id ofr) (of_name ofr) (of_size ofr) (of_mime ofr))],
            s\<lparr>xs_recv := Some (createReceiver ofr)\<rparr>))"

definition received_event :: "receiver \<Rightarrow> xfer_event" where
  "received_event r = (let ofr = rc_offer r in
     XReceived (of_id ofr) (of_name ofr) (of_mime ofr) (concat (rc_parts r)) (of_body ofr))"

definition on_receiver_frame :: "channel \<Rightarrow> bytes \<Rightarrow> int \<Rightarrow> receiver \<Rightarrow> xsession \<Rightarrow> effect list \<times> xsession" where
  "on_receiver_frame d b now r s =
     (case receiver_onFrame b now r of ((evs, reply), r') \<Rightarrow>
        let f1 = (case reply of None \<Rightarrow> [] | Some f \<Rightarrow> try_send d f) in
        (case emit d DirIn (filter (\<lambda>e. e \<noteq> EvDone) evs) (s\<lparr>xs_recv := Some r'\<rparr>) of (f2, s2) \<Rightarrow>
          (case (EvDone \<in> set evs, xs_recv s2) of
             (True, Some r2) \<Rightarrow> (f1 @ f2 @ [Tell (received_event r2)], clear s2)
           | _ \<Rightarrow> (f1 @ f2, s2))))"

definition on_sender_frame :: "channel \<Rightarrow> bytes \<Rightarrow> int \<Rightarrow> sender \<Rightarrow> xsession \<Rightarrow> effect list \<times> xsession" where
  "on_sender_frame d b now p s =
     (case sender_onFrame b now p of (evs, p') \<Rightarrow>
        (case emit d DirOut evs (s\<lparr>xs_send := Some p'\<rparr>) of (f1, s1) \<Rightarrow>
          if EvAccepted \<in> set evs then (case pump d s1 of (f2, s2) \<Rightarrow> (f1 @ f2, s2)) else (f1, s1)))"

definition onFrame :: "js_env \<Rightarrow> channel \<Rightarrow> int \<Rightarrow> bytes \<Rightarrow> xsession \<Rightarrow> effect list \<times> xsession" where
  "onFrame J d now b s =
     (if \<not> isXfer b then ([], s)
      else if b ! 1 = T_OFFER then on_offer J d b s
      else case xs_send s of
        Some p \<Rightarrow> on_sender_frame d b now p s
      | None \<Rightarrow> (case xs_recv s of
          Some r \<Rightarrow> on_receiver_frame d b now r s
        | None \<Rightarrow> ([], s)))"

subsection \<open>One transfer, one direction\<close>

text \<open>
  The invariant: never a sender and a receiver together, a file exactly when there is a
  sender, and no end that is over is kept.
\<close>

definition xs_inv :: "xsession \<Rightarrow> bool" where
  "xs_inv s \<longleftrightarrow> (xs_send s = None \<or> xs_recv s = None)
     \<and> (xs_file s \<noteq> None \<longleftrightarrow> xs_send s \<noteq> None)
     \<and> (\<forall>p. xs_send s = Some p \<longrightarrow> sd_state p = Offering \<or> sd_state p = Sending)
     \<and> (\<forall>r. xs_recv s = Some r \<longrightarrow> rc_state r = Offered \<or> rc_state r = Receiving)"

datatype xs_input =
    InTimer int
  | InDrained
  | InRead bool
  | InOffer int nat jstr jstr bytes "jstr option"
  | InAccept int
  | InReject
  | InCancel
  | InFrame int bytes

definition xs_do :: "js_env \<Rightarrow> channel \<Rightarrow> xs_input \<Rightarrow> xsession \<Rightarrow> effect list \<times> xsession" where
  "xs_do J d inp s = (case inp of
     InTimer now \<Rightarrow> on_timer d now s
   | InDrained \<Rightarrow> ([], pump_drained s)
   | InRead sendOk \<Rightarrow> pump_read sendOk d s
   | InOffer now n name type data body \<Rightarrow> snd (offer_file J d now n name type data body s)
   | InAccept now \<Rightarrow> accept d now s
   | InReject \<Rightarrow> reject d s
   | InCancel \<Rightarrow> cancel d s
   | InFrame now b \<Rightarrow> onFrame J d now b s)"

definition xs_step :: "js_env \<Rightarrow> xsession \<Rightarrow> channel \<times> xs_input \<Rightarrow> xsession" where
  "xs_step J s i = snd (xs_do J (fst i) (snd i) s)"

lemma xs_idle_inv: "xs_inv xs_idle" "xs_inv (clear s)"
  by (simp_all add: xs_inv_def clear_def xs_idle_def)

lemma clear_simps [simp]:
  "xs_send (clear s) = None" "xs_recv (clear s) = None" "xs_file (clear s) = None" "xs_pump (clear s) = xs_pump s"
  "clear (clear s) = clear s" "clear (s\<lparr>xs_send := p\<rparr>) = clear s" "clear (s\<lparr>xs_recv := r\<rparr>) = clear s"
  by (simp_all add: clear_def)

text \<open>An event that ends the transfer clears the session; no other event changes it.\<close>

definition ends :: "direction \<Rightarrow> ev \<Rightarrow> bool" where
  "ends dir e = (case e of EvFailed _ \<Rightarrow> True | EvDone \<Rightarrow> dir = DirOut | _ \<Rightarrow> False)"

lemma emit1_state: "snd (emit1 d dir e s) = (if ends dir e then clear s else s)"
  by (cases e) (auto simp: emit1_def ends_def clear_def)

lemma emit_state: "snd (emit d dir evs s) = (if list_ex (ends dir) evs then clear s else s)"
proof (induction evs arbitrary: s)
  case (Cons e es)
  have "snd (emit d dir (e # es) s) = snd (emit d dir es (snd (emit1 d dir e s)))"
    by (simp split: prod.split)
  then show ?case by (simp add: Cons.IH emit1_state)
qed simp

definition live_sender :: "sender \<Rightarrow> bool" where
  "live_sender p \<longleftrightarrow> sd_state p = Offering \<or> sd_state p = Sending"

definition live_receiver :: "receiver \<Rightarrow> bool" where
  "live_receiver r \<longleftrightarrow> rc_state r = Offered \<or> rc_state r = Receiving"

lemma xs_inv_iff:
  "xs_inv s \<longleftrightarrow> (xs_send s = None \<or> xs_recv s = None) \<and> (xs_file s \<noteq> None \<longleftrightarrow> xs_send s \<noteq> None)
     \<and> (\<forall>p. xs_send s = Some p \<longrightarrow> live_sender p) \<and> (\<forall>r. xs_recv s = Some r \<longrightarrow> live_receiver r)"
  by (simp add: xs_inv_def live_sender_def live_receiver_def)

lemma sender_onFrame_live:
  assumes "live_sender p" and "sender_onFrame b now p = (evs, p')"
  shows "list_ex (ends DirOut) evs \<or> live_sender p'"
  using assms
  by (auto simp: live_sender_def sender_onFrame_def sender_fail_def ends_def Let_def split: if_splits)

lemma sender_tick_live:
  assumes "live_sender p" and "sender_tick now p = (evs, p')"
  shows "list_ex (ends DirOut) evs \<or> live_sender p'"
  using assms
  by (auto simp: live_sender_def sender_tick_def sender_fail_def ends_def split: if_splits)

lemma receiver_tick_live:
  assumes "live_receiver r" and "receiver_tick now r = (evs, r')"
  shows "list_ex (ends DirIn) evs \<or> live_receiver r'"
  using assms
  by (auto simp: live_receiver_def receiver_tick_def ends_def split: if_splits)

lemma receiver_onFrame_live:
  assumes "live_receiver r" and "receiver_onFrame b now r = ((evs, reply), r')"
  shows "list_ex (ends DirIn) evs \<or> EvDone \<in> set evs \<or> live_receiver r'"
  using assms
  by (auto simp: live_receiver_def receiver_onFrame_def receiver_fail_def take_chunk_def ends_def Let_def split: if_splits)

lemma receiver_onFrame_done:
  assumes "receiver_onFrame b now r = ((evs, reply), r')" and "EvDone \<in> set evs"
  shows "\<not> list_ex (ends DirIn) evs"
  using assms
  by (auto simp: receiver_onFrame_def receiver_fail_def take_chunk_def ends_def Let_def split: if_splits)

lemma emit_sender_inv:
  assumes "xs_inv s" and "xs_send s = Some p" and "list_ex (ends DirOut) evs \<or> live_sender p'"
  shows "xs_inv (snd (emit d DirOut evs (s\<lparr>xs_send := Some p'\<rparr>)))"
    and "xs_recv (snd (emit d DirOut evs (s\<lparr>xs_send := Some p'\<rparr>))) = None"
  using assms by (auto simp: emit_state xs_inv_iff xs_idle_def)

lemma emit_receiver_inv:
  assumes "xs_inv s" and "xs_recv s = Some r" and "list_ex (ends DirIn) evs \<or> live_receiver r'"
  shows "xs_inv (snd (emit d DirIn evs (s\<lparr>xs_recv := Some r'\<rparr>)))"
  using assms by (auto simp: emit_state xs_inv_iff xs_idle_def)

lemma on_timer_inv:
  assumes inv: "xs_inv s"
  shows "xs_inv (snd (on_timer d now s))"
proof (cases "xs_send s")
  case (Some p)
  obtain evs p' where t: "sender_tick now p = (evs, p')" by force
  have "live_sender p" using inv Some by (simp add: xs_inv_iff)
  then have l: "list_ex (ends DirOut) evs \<or> live_sender p'" by (rule sender_tick_live [OF _ t])
  obtain f s' where e: "emit d DirOut evs (s\<lparr>xs_send := Some p'\<rparr>) = (f, s')" by force
  show ?thesis using emit_sender_inv [OF inv Some l, of d] Some t e by (simp add: on_timer_def)
next
  case None
  note n = None
  show ?thesis
  proof (cases "xs_recv s")
    case None
    then show ?thesis using n inv by (simp add: on_timer_def)
  next
    case (Some r)
    obtain evs r' where t: "receiver_tick now r = (evs, r')" by force
    have "live_receiver r" using inv Some by (simp add: xs_inv_iff)
    then have l: "list_ex (ends DirIn) evs \<or> live_receiver r'" by (rule receiver_tick_live [OF _ t])
    obtain f s' where e: "emit d DirIn evs (s\<lparr>xs_recv := Some r'\<rparr>) = (f, s')" by force
    show ?thesis using emit_receiver_inv [OF inv Some l, of d] Some n t e by (simp add: on_timer_def)
  qed
qed

lemma list_ex_filter_done: "list_ex (ends DirIn) (filter (\<lambda>e. e \<noteq> EvDone) evs) = list_ex (ends DirIn) evs"
  by (induction evs) (auto simp: ends_def)

lemma receiver_frame_inv:
  assumes inv: "xs_inv s" and r: "xs_recv s = Some r"
  shows "xs_inv (snd (on_receiver_frame d b now r s))"
proof -
  obtain evs reply r' where f: "receiver_onFrame b now r = ((evs, reply), r')" by (metis surj_pair)
  obtain f2 s2 where e: "emit d DirIn (filter (\<lambda>e. e \<noteq> EvDone) evs) (s\<lparr>xs_recv := Some r'\<rparr>) = (f2, s2)" by force
  then have s2: "s2 = (if list_ex (ends DirIn) evs then clear s else s\<lparr>xs_recv := Some r'\<rparr>)"
    using emit_state [of d DirIn "filter (\<lambda>e. e \<noteq> EvDone) evs" "s\<lparr>xs_recv := Some r'\<rparr>"] by (simp add: list_ex_filter_done)
  show ?thesis
  proof (cases "EvDone \<in> set evs")
    case True
    then show ?thesis using s2 e f receiver_onFrame_done [OF f True]
      by (simp add: on_receiver_frame_def xs_idle_inv)
  next
    case False
    have "live_receiver r" using inv r by (simp add: xs_inv_iff)
    then have "list_ex (ends DirIn) evs \<or> live_receiver r'" using receiver_onFrame_live [OF _ f] False by blast
    then show ?thesis using s2 e f False emit_receiver_inv [OF inv r, of evs r' d]
      by (auto simp: on_receiver_frame_def emit_state split: if_splits)
  qed
qed

lemma pump_loop_inv: "xs_inv s \<Longrightarrow> xs_inv (snd (pump_loop d s))"
  by (auto simp: pump_loop_def emit_state xs_inv_iff simp del: emit.simps split: option.split channel.split)

lemma pump_inv: "xs_inv s \<Longrightarrow> xs_inv (snd (pump d s))"
  by (simp add: pump_def pump_loop_inv)

lemma pump_drained_inv: "xs_inv s \<Longrightarrow> xs_inv (pump_drained s)"
  by (auto simp: pump_drained_def xs_inv_iff split: option.split pumping.split)

lemma pump_read_inv:
  assumes inv: "xs_inv s"
  shows "xs_inv (snd (pump_read ok d s))"
proof -
  have k: "xs_inv (s\<lparr>xs_send := Some p'\<rparr>)" if "xs_send s = Some p" "sender_chunk i body p = (b, p')" for p p' i body b
    using inv that by (auto simp: xs_inv_iff sender_chunk_def live_sender_def)
  have c: "xs_inv (clear t)" for t by (rule xs_idle_inv)
  have i: "xs_inv (s\<lparr>xs_pump := q\<rparr>)" for q using inv by (simp add: xs_inv_iff)
  have "xs_inv s'" if "xs_send s = Some p" "sender_chunk i body p = (b, p')" "pump_loop d (s\<lparr>xs_send := Some p'\<rparr>) = (f, s')"
    for p i body b p' f s'
    using pump_loop_inv [OF k [OF that(1,2)], of d] that(3) by simp
  then show ?thesis
    unfolding pump_read_def using inv i c
    by (auto simp: emit1_state ends_def split: pumping.split option.split prod.split)
qed

lemma offer_file_inv: "xs_inv s \<Longrightarrow> xs_inv (snd (snd (offer_file J d now n name type data body s)))"
  by (auto simp: offer_file_def busy_def sender_open_def Let_def xs_inv_iff live_sender_def createSender_def
      split: channel.split)

lemma accept_inv: "xs_inv s \<Longrightarrow> xs_inv (snd (accept d now s))"
  by (auto simp: accept_def receiver_accept_def xs_idle_inv xs_inv_iff live_receiver_def split: option.split channel.split)

lemma on_offer_inv: "xs_inv s \<Longrightarrow> xs_inv (snd (on_offer J d b s))"
  by (auto simp: on_offer_def Let_def busy_def xs_inv_iff live_receiver_def createReceiver_def split: option.split)

lemma onFrame_inv:
  assumes inv: "xs_inv s"
  shows "xs_inv (snd (onFrame J d now b s))"
proof (cases "isXfer b \<and> b ! 1 \<noteq> T_OFFER")
  case False
  then show ?thesis using inv on_offer_inv [OF inv, of J d b]
    by (auto simp: onFrame_def split: prod.split)
next
  case True
  show ?thesis
  proof (cases "xs_send s")
    case None
    then show ?thesis using inv True receiver_frame_inv [OF inv]
      by (simp add: onFrame_def split: option.split)
  next
    case (Some p)
    obtain evs p' where t: "sender_onFrame b now p = (evs, p')" by force
    obtain f s' where e: "emit d DirOut evs (s\<lparr>xs_send := Some p'\<rparr>) = (f, s')" by force
    have l: "live_sender p" using inv Some by (simp add: xs_inv_iff)
    have i: "xs_inv s'" using emit_sender_inv(1) [OF inv Some sender_onFrame_live [OF l t], of d] e by simp
    show ?thesis using pump_inv [OF i, of d] i True Some t e
      by (cases "pump d s'") (simp add: onFrame_def on_sender_frame_def)
  qed
qed

lemma xs_step_inv: "xs_inv s \<Longrightarrow> xs_inv (xs_step J s i)"
  by (auto simp: xs_step_def xs_do_def on_timer_inv pump_drained_inv pump_read_inv offer_file_inv accept_inv onFrame_inv
      reject_def cancel_def xs_idle_inv split: prod.split xs_input.split option.split)

interpretation xs: machine "xs_step J" xs_inv
  by unfold_locales (rule xs_step_inv)

subsection \<open>While a drain is pending nothing is sent\<close>

text \<open>
  Only the two waits resolving lets the pump send. The channel's \<open>drain()\<close> (net/webrtc.ts)
  resolves on \<open>bufferedamountlow\<close> alone, so on a channel that closes above the high-water
  mark it stays pending: then no later transfer of the conversation sends a chunk.
\<close>

definition sends_chunk :: "effect list \<Rightarrow> bool" where
  "sends_chunk es = list_ex (\<lambda>e. case e of Send b \<Rightarrow> b ! 1 = T_CHUNK | Tell _ \<Rightarrow> False) es"

lemma sends_chunk_simps [simp]:
  "sends_chunk [] = False"
  "sends_chunk (Send b # es) = (b ! 1 = T_CHUNK \<or> sends_chunk es)"
  "sends_chunk (Tell e # es) = sends_chunk es"
  "sends_chunk (xs @ ys) = (sends_chunk xs \<or> sends_chunk ys)"
  by (simp_all add: sends_chunk_def)

fun effects :: "js_env \<Rightarrow> xsession \<Rightarrow> (channel \<times> xs_input) list \<Rightarrow> effect list" where
  "effects J s [] = []"
| "effects J s (i # is) = fst (xs_do J (fst i) (snd i) s) @ effects J (xs_step J s i) is"

lemma frame_sub [simp]: "frame sub i r ! Suc 0 = sub"
  by (simp add: frame_def)

lemma control_tags [simp]:
  "T_CANCEL \<noteq> T_CHUNK" "T_REJECT \<noteq> T_CHUNK" "T_ACCEPT \<noteq> T_CHUNK" "T_RECEIPT \<noteq> T_CHUNK" "T_DONE \<noteq> T_CHUNK" "T_OFFER \<noteq> T_CHUNK"
  by (simp_all add: xfer_tags)

definition told_chunk :: "ev \<Rightarrow> bool" where
  "told_chunk e = (case e of EvTell b \<Rightarrow> b ! 1 = T_CHUNK | _ \<Rightarrow> False)"

lemma emit1_sends: "sends_chunk (fst (emit1 d dir e s)) \<Longrightarrow> told_chunk e"
  by (cases e) (auto simp: emit1_def told_chunk_def try_send_def split: channel.splits bool.splits if_splits)

lemma emit_sends: "sends_chunk (fst (emit d dir evs s)) \<Longrightarrow> list_ex told_chunk evs"
proof (induction evs arbitrary: s)
  case (Cons e es)
  have "fst (emit d dir (e # es) s) = fst (emit1 d dir e s) @ fst (emit d dir es (snd (emit1 d dir e s)))"
    by (simp split: prod.split)
  then show ?case using Cons emit1_sends by auto
qed simp

lemma emit_pump: "xs_pump (snd (emit d dir evs s)) = xs_pump s"
  by (simp add: emit_state)

lemma no_told: 
  "sender_onFrame b now p = (evs, p') \<Longrightarrow> \<not> list_ex told_chunk evs"
  "sender_tick now p = (evs, p') \<Longrightarrow> \<not> list_ex told_chunk evs"
  "receiver_tick now r = (evs, r') \<Longrightarrow> \<not> list_ex told_chunk evs"
  "receiver_onFrame b now r = ((evs, reply), r') \<Longrightarrow> \<not> list_ex told_chunk (filter (\<lambda>e. e \<noteq> EvDone) evs)"
  by (auto simp: sender_onFrame_def sender_tick_def receiver_tick_def receiver_onFrame_def sender_fail_def receiver_fail_def
      take_chunk_def told_chunk_def Let_def split: if_splits)

lemma reply_tag: "receiver_onFrame b now r = ((evs, Some f), r') \<Longrightarrow> f ! 1 \<noteq> T_CHUNK"
  by (auto simp: receiver_onFrame_def receiver_fail_def take_chunk_def Let_def split: if_splits)

lemma emit_quiet:
  assumes "emit d dir evs s = (f, s')" and "\<not> list_ex told_chunk evs"
  shows "\<not> sends_chunk f" and "xs_pump s' = xs_pump s"
  using emit_sends [of d dir evs s] emit_pump [of d dir evs s] assms by auto

definition quiet :: "xsession \<Rightarrow> effect list \<times> xsession \<Rightarrow> bool" where
  "quiet s r \<longleftrightarrow> \<not> sends_chunk (fst r) \<and> xs_pump (snd r) = xs_pump s"

lemma quiet_emit:
  assumes "\<not> list_ex told_chunk evs" and "xs_pump s0 = xs_pump s"
  shows "quiet s0 (emit d dir evs s)"
  using emit_quiet [of d dir evs s] assms by (cases "emit d dir evs s") (auto simp: quiet_def)

lemma quiet_bind:
  assumes "quiet s r" and "\<And>f1 s1. r = (f1, s1) \<Longrightarrow> xs_pump s1 = xs_pump s \<Longrightarrow> quiet s1 (g s1)"
  shows "quiet s (case r of (f1, s1) \<Rightarrow> case g s1 of (f2, s2) \<Rightarrow> (f1 @ f2, s2))"
  using assms by (cases r) (auto simp: quiet_def split: prod.split)

lemma quiet_timer: "quiet s (on_timer d now s)"
  unfolding on_timer_def
  by (intro quiet_bind)
    (auto split: option.split prod.split intro!: quiet_emit dest: no_told, simp_all add: quiet_def)

lemma quiet_pump: "xs_pump s = PumpDrain i \<Longrightarrow> pump d s = ([], s)"
  by (simp add: pump_def)

lemma quiet_sender_frame:
  assumes "xs_pump s = PumpDrain i"
  shows "quiet s (on_sender_frame d b now p s)"
proof -
  obtain evs p' where t: "sender_onFrame b now p = (evs, p')" by force
  obtain f s' where e: "emit d DirOut evs (s\<lparr>xs_send := Some p'\<rparr>) = (f, s')" by force
  show ?thesis using emit_quiet [OF e no_told(1) [OF t]] assms t e quiet_pump [of s' i d]
    by (auto simp: on_sender_frame_def quiet_def)
qed

lemma quiet_receiver_frame: "quiet s (on_receiver_frame d b now r s)"
proof -
  obtain evs reply r' where f: "receiver_onFrame b now r = ((evs, reply), r')" by (metis surj_pair)
  obtain f2 s2 where e: "emit d DirIn (filter (\<lambda>e. e \<noteq> EvDone) evs) (s\<lparr>xs_recv := Some r'\<rparr>) = (f2, s2)" by force
  have r: "\<not> sends_chunk (case reply of None \<Rightarrow> [] | Some f \<Rightarrow> try_send d f)"
    using reply_tag [of b now r evs _ r'] f by (auto simp: try_send_def split: option.split channel.split bool.split)
  show ?thesis using emit_quiet [OF e no_told(4) [OF f]] r f e
    by (auto simp: on_receiver_frame_def quiet_def Let_def split: bool.split option.split)
qed

lemma quiet_step:
  assumes "xs_pump s = PumpDrain i" and "inp \<noteq> InDrained"
  shows "quiet s (xs_do J d inp s)"
proof (cases inp)
  case (InTimer now)
  then show ?thesis by (simp add: xs_do_def quiet_timer)
next
  case (InFrame now b)
  have "quiet s (on_offer J d b s)"
    by (auto simp: on_offer_def quiet_def Let_def try_send_def encodeReject_def receiver_reject_def
        split: option.split channel.split bool.split)
  then show ?thesis
    using InFrame quiet_sender_frame [OF assms(1)] quiet_receiver_frame
    by (auto simp: xs_do_def onFrame_def split: option.split) (simp_all add: quiet_def)
next
  case (InOffer now n name type data body)
  then show ?thesis
    by (auto simp: xs_do_def offer_file_def quiet_def sender_open_def encodeOffer_def Let_def split: channel.split)
next
  case (InAccept now)
  then show ?thesis
    by (auto simp: xs_do_def accept_def quiet_def receiver_accept_def split: option.split channel.split)
next
  case InReject
  then show ?thesis
    by (auto simp: xs_do_def reject_def quiet_def receiver_reject_def try_send_def split: option.split channel.split bool.split)
next
  case InCancel
  then show ?thesis
    by (auto simp: xs_do_def cancel_def quiet_def sender_cancel_def receiver_cancel_def try_send_def
        split: option.split channel.split bool.split)
next
  case (InRead ok)
  then show ?thesis using assms(1) by (simp add: xs_do_def pump_read_def quiet_def)
qed (use assms in simp)

lemma pending_drain_silences:
  "xs_pump s = PumpDrain i \<Longrightarrow> list_all (\<lambda>x. snd x \<noteq> InDrained) is \<Longrightarrow> \<not> sends_chunk (effects J s is)"
proof (induction "is" arbitrary: s)
  case (Cons x xs)
  have "quiet s (xs_do J (fst x) (snd x) s)" using Cons.prems by (intro quiet_step) simp_all
  then show ?case using Cons by (simp add: quiet_def xs_step_def)
qed simp

subsection \<open>Properties\<close>

text \<open>
  One transfer at a time. After any inputs a session sends or receives but never both, has
  the file it sends and no other, and neither end it holds is one that ended.
\<close>
theorem session_one_transfer: "xs_inv (run (xs_step J) xs_idle is)"
  by (rule xs.run_inv) (rule xs_idle_inv)

text \<open>
  A drain that never comes silences the session. While the pump of one transfer waits for the
  channel to drain, nothing the session is asked later, a new file and its acceptance included,
  makes it send a chunk.
\<close>
theorem undrained_pump_silences:
  assumes "xs_pump s = PumpDrain i" and "list_all (\<lambda>x. snd x \<noteq> InDrained) is"
  shows "\<not> sends_chunk (effects J s is)"
  using assms by (rule pending_drain_silences)

theorem undrained_pump_silences_witness:
  "\<forall>J d. \<not> sends_chunk (effects J (xs_idle\<lparr>xs_pump := PumpDrain 4\<rparr>)
     [(d, InOffer 0 7 [] [] [1, 2, 3] None), (d, InFrame 1 (frame T_ACCEPT 7 []))])"
  by (intro allI undrained_pump_silences) simp_all

end
