(* ===== verification/SenderKey.thy ===== *)
theory SenderKey
  imports Crypto SkippedKeys
begin

section \<open>Group sender keys (lib/senderkey.ts)\<close>

text \<open>
  A member's sending chain and a recipient's copy of it. \<open>gseal\<close> seals at the chain's position
  and steps it; \<open>gopen\<close> walks the copy forward to a message's counter, keeping the keys it
  passes, and commits nothing unless the frame opens. \<open>in_sync\<close> relates a receiver to the chain
  it was seeded with: from it, whatever is sealed opens exactly once, in any order of arrival.
  A call reads the clock once.
\<close>

definition GROUP_MAX_SKIP :: nat where "GROUP_MAX_SKIP = 2000"
definition GROUP_SKIPPED_TTL_MS :: int where "GROUP_SKIPPED_TTL_MS = 24 * 60 * 60 * 1000"

definition gmsgKey :: "crypto \<Rightarrow> bytes \<Rightarrow> bytes" where
  "gmsgKey C ck = kdf C ''encedo-group-msg'' ck [] 32"

definition gchainNext :: "crypto \<Rightarrow> bytes \<Rightarrow> bytes" where
  "gchainNext C ck = kdf C ''encedo-group-chain'' ck [] 32"

definition aeadSeal :: "crypto \<Rightarrow> bytes \<Rightarrow> nat \<Rightarrow> bytes \<Rightarrow> bytes \<Rightarrow> bytes" where
  "aeadSeal C mk n header pt = c_seal C mk (aeadNonce C mk n) header pt"

definition aeadOpen :: "crypto \<Rightarrow> bytes \<Rightarrow> nat \<Rightarrow> bytes \<Rightarrow> bytes \<Rightarrow> bytes option" where
  "aeadOpen C mk n header ct = c_open C mk (aeadNonce C mk n) header ct"

definition gtag :: "crypto \<Rightarrow> bytes \<Rightarrow> bytes \<Rightarrow> bytes \<Rightarrow> bytes" where
  "gtag C macKey header ct = c_hmac C macKey (header @ ct)"

definition gverify :: "crypto \<Rightarrow> bytes \<Rightarrow> bytes \<Rightarrow> bytes \<Rightarrow> bytes \<Rightarrow> bool" where
  "gverify C macKey header ct m = (c_hmac C macKey (header @ ct) = m)"

subsection \<open>The sending chain\<close>

record send_chain =
  sc_key :: bytes
  sc_n :: nat

definition sendChainFrom :: "bytes \<Rightarrow> send_chain" where
  "sendChainFrom key = \<lparr>sc_key = key, sc_n = 0\<rparr>"

definition gseal :: "crypto \<Rightarrow> send_chain \<Rightarrow> bytes \<Rightarrow> bytes \<Rightarrow> (nat \<times> bytes) \<times> send_chain" where
  "gseal C chain header plaintext =
     (let mk = gmsgKey C (sc_key chain); n = sc_n chain
      in ((n, aeadSeal C mk n header plaintext), \<lparr>sc_key = gchainNext C (sc_key chain), sc_n = n + 1\<rparr>))"

subsection \<open>The receiving chain\<close>

record receiver_opts =
  ro_maxSkip :: nat
  ro_ttlMs :: int

definition default_receiver_opts :: receiver_opts where
  "default_receiver_opts = \<lparr>ro_maxSkip = GROUP_MAX_SKIP, ro_ttlMs = GROUP_SKIPPED_TTL_MS\<rparr>"

record sender_receiver =
  sr_key :: bytes
  sr_n :: nat
  sr_skipped :: "(nat, bytes \<times> int) jmap"

datatype skip_error = SkipOver nat nat

definition receiver_from :: "bytes \<Rightarrow> nat \<Rightarrow> sender_receiver" where
  "receiver_from key n = \<lparr>sr_key = key, sr_n = n, sr_skipped = []\<rparr>"

definition gprune :: "receiver_opts \<Rightarrow> int \<Rightarrow> sender_receiver \<Rightarrow> sender_receiver" where
  "gprune opts now r = r\<lparr>sr_skipped := live_keys (ro_ttlMs opts) now (sr_skipped r)\<rparr>"

text \<open>The walk: the keys of the positions passed over, and the chain key at the message's position.\<close>

fun gwalk :: "crypto \<Rightarrow> bytes \<Rightarrow> nat \<Rightarrow> nat \<Rightarrow> (nat \<times> bytes) list \<times> bytes" where
  "gwalk C cur i 0 = ([], cur)"
| "gwalk C cur i (Suc k) = (case gwalk C (gchainNext C cur) (Suc i) k of (ps, ck) \<Rightarrow> ((i, gmsgKey C cur) # ps, ck))"

fun stash :: "(nat \<times> bytes) list \<Rightarrow> int \<Rightarrow> (nat, bytes \<times> int) jmap \<Rightarrow> (nat, bytes \<times> int) jmap" where
  "stash [] t m = m"
| "stash ((i, mk) # ps) t m = stash ps t (jm_set i (mk, t) m)"

definition gopen ::
  "crypto \<Rightarrow> receiver_opts \<Rightarrow> int \<Rightarrow> nat \<Rightarrow> bytes \<Rightarrow> bytes \<Rightarrow> sender_receiver
    \<Rightarrow> (skip_error + bytes option) \<times> sender_receiver" where
  "gopen C opts now n header ct r0 =
     (let r = gprune opts now r0 in
      case jm_get (sr_skipped r) n of
        Some (mk, ts) \<Rightarrow>
          (case aeadOpen C mk n header ct of
             None \<Rightarrow> (Inr None, r)
           | Some pt \<Rightarrow> (Inr (Some pt), r\<lparr>sr_skipped := jm_del n (sr_skipped r)\<rparr>))
      | None \<Rightarrow>
          if n < sr_n r then (Inr None, r)
          else if n - sr_n r > ro_maxSkip opts then (Inl (SkipOver (n - sr_n r) (ro_maxSkip opts)), r)
          else (case gwalk C (sr_key r) (sr_n r) (n - sr_n r) of (passed, cur) \<Rightarrow>
            (case aeadOpen C (gmsgKey C cur) n header ct of
               None \<Rightarrow> (Inr None, r)
             | Some pt \<Rightarrow> (Inr (Some pt),
                 r\<lparr>sr_skipped := stash passed now (sr_skipped r), sr_key := gchainNext C cur, sr_n := n + 1\<rparr>))))"

definition snapshot :: "sender_receiver \<Rightarrow> bytes \<times> nat" where
  "snapshot r = (sr_key r, sr_n r)"

subsection \<open>Chain positions\<close>

text \<open>\<open>chain_at C K j\<close>: the chain key \<open>j\<close> steps after \<open>K\<close>.\<close>

fun chain_at :: "crypto \<Rightarrow> bytes \<Rightarrow> nat \<Rightarrow> bytes" where
  "chain_at C K 0 = K"
| "chain_at C K (Suc j) = chain_at C (gchainNext C K) j"

lemma chain_at_step: "gchainNext C (chain_at C K j) = chain_at C K (Suc j)"
  by (induction j arbitrary: K) auto

lemma chain_at_add: "chain_at C (chain_at C K a) c = chain_at C K (a + c)"
  by (induction a arbitrary: K) auto

lemma gwalk_eq: "gwalk C cur i k = (map (\<lambda>j. (i + j, gmsgKey C (chain_at C cur j))) [0..<k], chain_at C cur k)"
proof (induction k arbitrary: cur i)
  case (Suc k)
  have "[0..<Suc k] = 0 # map Suc [0..<k]" by (simp add: upt_conv_Cons map_Suc_upt del: upt_Suc)
  then show ?case by (simp add: Suc.IH comp_def del: upt_Suc)
qed simp

lemma stash_get:
  "distinct (map fst ps) \<Longrightarrow>
    jm_get (stash ps t m) i = (case map_of ps i of Some mk \<Rightarrow> Some (mk, t) | None \<Rightarrow> jm_get m i)"
  by (induction ps t m rule: stash.induct) (auto simp: jm_get_set map_of_eq_None_iff image_iff split: option.split)

lemma stash_inv: "jm_inv m \<Longrightarrow> jm_inv (stash ps t m)"
  by (induction ps t m rule: stash.induct) auto

lemma live_keys_get: "jm_inv m \<Longrightarrow> jm_get (live_keys ttl now m) i =
    (case jm_get m i of Some (mk, ts) \<Rightarrow> if now - ts > ttl then None else Some (mk, ts) | None \<Rightarrow> None)"
proof (induction m)
  case (Cons p m)
  obtain k mk ts where p: "p = (k, mk, ts)" by (metis surj_pair)
  have "jm_inv m" using Cons.prems by (rule jm_inv_tl)
  moreover have "jm_get m k = None" using Cons.prems by (auto simp: p jm_inv_def jm_get_None_iff jm_keys_def)
  ultimately show ?case using Cons.IH by (auto simp: p live_keys_def split: option.split)
qed (simp add: live_keys_def)

lemma live_keys_inv: "jm_inv m \<Longrightarrow> jm_inv (live_keys ttl now m)"
  by (simp add: live_keys_def)

subsection \<open>A receiver in step with the chain it was seeded with\<close>

text \<open>
  \<open>K\<close> is the chain key at position \<open>b\<close>. Every key the receiver holds is the one of its
  position, none is older than \<open>t0\<close>, and it holds none at or past its own position.
\<close>

definition in_sync :: "crypto \<Rightarrow> bytes \<Rightarrow> nat \<Rightarrow> int \<Rightarrow> sender_receiver \<Rightarrow> bool" where
  "in_sync C K b t0 r \<longleftrightarrow> b \<le> sr_n r \<and> sr_key r = chain_at C K (sr_n r - b) \<and> jm_inv (sr_skipped r)
     \<and> (\<forall>i mk ts. jm_get (sr_skipped r) i = Some (mk, ts) \<longrightarrow>
          b \<le> i \<and> i < sr_n r \<and> mk = gmsgKey C (chain_at C K (i - b)) \<and> t0 \<le> ts)"

text \<open>The counters it can still open.\<close>

definition openable :: "sender_receiver \<Rightarrow> nat \<Rightarrow> bool" where
  "openable r i \<longleftrightarrow> sr_n r \<le> i \<or> jm_has (sr_skipped r) i"

lemma receiver_from_sync: "in_sync C K b t0 (receiver_from K b)" "openable (receiver_from K b) i \<longleftrightarrow> b \<le> i"
  by (simp_all add: in_sync_def openable_def receiver_from_def jm_has_def)

lemma gprune_sync:
  assumes "in_sync C K b t0 r"
  shows "in_sync C K b t0 (gprune opts now r)"
  using assms by (auto simp: in_sync_def gprune_def live_keys_get live_keys_inv split: option.splits if_splits)

lemma gprune_openable:
  assumes "in_sync C K b t0 r" and "now - t0 \<le> ro_ttlMs opts"
  shows "openable (gprune opts now r) = openable r"
  using assms by (fastforce simp: in_sync_def openable_def gprune_def jm_has_def live_keys_get split: option.splits)

text \<open>What a failed or refused open leaves: the receiver, less the keys that aged out.\<close>

lemma gopen_failed:
  assumes "gopen C opts now n h ct r = (res, r')" and "\<And>pt. res \<noteq> Inr (Some pt)"
  shows "r' = gprune opts now r"
  using assms by (auto simp: gopen_def Let_def split: option.splits if_splits prod.splits)

text \<open>Opening what the sender sealed at counter \<open>i\<close>.\<close>

lemma gopen_sealed:
  assumes s: "in_sync C K b t0 r" and C: "aead_opens C" and i: "openable r i" "i - sr_n r \<le> ro_maxSkip opts"
    and t: "t0 \<le> now" "now - t0 \<le> ro_ttlMs opts"
  obtains r' where "gopen C opts now i h (aeadSeal C (gmsgKey C (chain_at C K (i - b))) i h pt) r = (Inr (Some pt), r')"
    and "in_sync C K b t0 r'" and "openable r' = (openable r)(i := False)" and "sr_n r' = max (sr_n r) (Suc i)"
proof -
  define p where "p = gprune opts now r"
  have ps: "in_sync C K b t0 p" "openable p = openable r" "sr_n p = sr_n r"
    using gprune_sync [OF s] gprune_openable [OF s t(2)] by (simp_all add: p_def) (simp add: gprune_def)
  let ?mk = "gmsgKey C (chain_at C K (i - b))"
  have o: "aeadOpen C ?mk i h (aeadSeal C ?mk i h pt) = Some pt"
    using C by (simp add: aeadOpen_def aeadSeal_def aead_opens_def)
  show thesis
  proof (cases "jm_get (sr_skipped p) i")
    case (Some e)
    then have e: "fst e = ?mk" "i < sr_n r" using ps(1,3) by (cases e; auto simp: in_sync_def)+
    let ?r = "p\<lparr>sr_skipped := jm_del i (sr_skipped p)\<rparr>"
    have "gopen C opts now i h (aeadSeal C ?mk i h pt) r = (Inr (Some pt), ?r)"
      using Some e o by (cases e) (simp add: gopen_def p_def [symmetric])
    moreover have "in_sync C K b t0 ?r" using ps(1) by (auto simp: in_sync_def jm_get_del split: if_splits)
    moreover have "openable ?r = (openable r)(i := False)"
      using e ps(2,3) by (auto simp: openable_def jm_has_def jm_get_del fun_eq_iff)
    ultimately show thesis using that ps(3) e by (simp add: max_def)
  next
    case None
    then have n: "sr_n p \<le> i" using i(1) ps(2) by (auto simp: openable_def jm_has_def fun_eq_iff)
    let ?k = "i - sr_n p"
    have w: "gwalk C (sr_key p) (sr_n p) ?k =
        (map (\<lambda>j. (sr_n p + j, gmsgKey C (chain_at C (sr_key p) j))) [0..<?k], chain_at C (sr_key p) ?k)"
      by (rule gwalk_eq)
    have key: "chain_at C (sr_key p) j = chain_at C K (sr_n p - b + j)" for j
      using ps(1) by (simp add: in_sync_def chain_at_add)
    have b: "b \<le> sr_n p" using ps(1) by (simp add: in_sync_def)
    define ks where "ks = map (\<lambda>j. (sr_n p + j, gmsgKey C (chain_at C (sr_key p) j))) [0..<?k]"
    let ?r = "p\<lparr>sr_skipped := stash ks now (sr_skipped p), sr_key := gchainNext C (chain_at C (sr_key p) ?k), sr_n := i + 1\<rparr>"
    have d: "distinct (map fst ks)" by (simp add: ks_def comp_def distinct_map)
    have mo: "map_of ks x = (if sr_n p \<le> x \<and> x < i then Some (gmsgKey C (chain_at C K (x - b))) else None)" for x
    proof (cases "sr_n p \<le> x \<and> x < i")
      case True
      then have "(x, gmsgKey C (chain_at C K (x - b))) \<in> set ks"
        using b by (auto simp: ks_def key image_iff intro!: bexI [of _ "x - sr_n p"])
      then show ?thesis using map_of_is_SomeI [OF d] True by simp
    qed (auto simp: ks_def map_of_eq_None_iff)
    have sg: "jm_get (stash ks now (sr_skipped p)) x =
        (if sr_n p \<le> x \<and> x < i then Some (gmsgKey C (chain_at C K (x - b)), now) else jm_get (sr_skipped p) x)" for x
      by (simp add: stash_get [OF d] mo)
    have nk: "gchainNext C (chain_at C (sr_key p) ?k) = chain_at C K (Suc i - b)"
      using n b by (simp add: key chain_at_step Suc_diff_le del: chain_at.simps(2))
    have "gopen C opts now i h (aeadSeal C ?mk i h pt) r = (Inr (Some pt), ?r)"
      using None n i(2) o w b by (simp add: gopen_def p_def [symmetric] ps(3) key ks_def)
    moreover have "in_sync C K b t0 ?r"
      unfolding nk using ps(1) n b t(1) by (auto simp: in_sync_def sg stash_inv split: if_splits)
        (metis less_SucI order_less_le_trans)
    moreover have "openable ?r = (openable r)(i := False)"
      unfolding ps(2) [symmetric] using n None by (auto simp: openable_def jm_has_def sg fun_eq_iff)
    ultimately show thesis using that n ps(3) by (simp add: max_def)
  qed
qed

text \<open>A counter that is not openable does not open, whatever the bytes.\<close>

lemma gopen_closed:
  assumes "in_sync C K b t0 r" and "\<not> openable r i"
  shows "fst (gopen C opts now i h ct r) = Inr None"
  using assms by (auto simp: gopen_def Let_def openable_def gprune_def jm_has_def live_keys_get in_sync_def
      split: option.splits)

subsection \<open>Arrivals in any order\<close>

record arrival =
  ar_n :: nat
  ar_now :: int
  ar_header :: bytes
  ar_text :: bytes

text \<open>Frames of the chain \<open>K\<close> at base \<open>b\<close>, opened in the order they arrive.\<close>

fun open_arrivals ::
  "crypto \<Rightarrow> receiver_opts \<Rightarrow> bytes \<Rightarrow> nat \<Rightarrow> sender_receiver \<Rightarrow> arrival list
    \<Rightarrow> (skip_error + bytes option) list \<times> sender_receiver" where
  "open_arrivals C opts K b r [] = ([], r)"
| "open_arrivals C opts K b r (a # as) =
     (case gopen C opts (ar_now a) (ar_n a) (ar_header a)
         (aeadSeal C (gmsgKey C (chain_at C K (ar_n a - b))) (ar_n a) (ar_header a) (ar_text a)) r of
        (res, r') \<Rightarrow> (case open_arrivals C opts K b r' as of (rs, r'') \<Rightarrow> (res # rs, r'')))"

lemma open_arrivals_sync:
  assumes "in_sync C K b t0 r" and C: "aead_opens C" and "distinct (map ar_n as)"
    and "\<forall>a \<in> set as. openable r (ar_n a) \<and> ar_n a \<le> sr_n r + ro_maxSkip opts
      \<and> t0 \<le> ar_now a \<and> ar_now a - t0 \<le> ro_ttlMs opts"
  shows "fst (open_arrivals C opts K b r as) = map (\<lambda>a. Inr (Some (ar_text a))) as"
    and "\<forall>a \<in> set as. \<not> openable (snd (open_arrivals C opts K b r as)) (ar_n a)"
    and "in_sync C K b t0 (snd (open_arrivals C opts K b r as))"
proof -
  have "fst (open_arrivals C opts K b r as) = map (\<lambda>a. Inr (Some (ar_text a))) as
    \<and> (\<forall>i. openable (snd (open_arrivals C opts K b r as)) i \<longrightarrow> openable r i)
    \<and> (\<forall>a \<in> set as. \<not> openable (snd (open_arrivals C opts K b r as)) (ar_n a))
    \<and> in_sync C K b t0 (snd (open_arrivals C opts K b r as))"
    using assms(1,3,4)
  proof (induction "as" arbitrary: r)
    case (Cons a as)
    have pre: "openable r (ar_n a)" "ar_n a - sr_n r \<le> ro_maxSkip opts" "t0 \<le> ar_now a" "ar_now a - t0 \<le> ro_ttlMs opts"
      using Cons.prems(3) by (simp_all add: le_diff_conv add.commute)
    obtain r' where r': "gopen C opts (ar_now a) (ar_n a) (ar_header a)
         (aeadSeal C (gmsgKey C (chain_at C K (ar_n a - b))) (ar_n a) (ar_header a) (ar_text a)) r = (Inr (Some (ar_text a)), r')"
      and s: "in_sync C K b t0 r'" "openable r' = (openable r)(ar_n a := False)" "sr_n r' = max (sr_n r) (Suc (ar_n a))"
      by (rule gopen_sealed [OF Cons.prems(1) C pre])
    have "\<forall>x \<in> set as. openable r' (ar_n x) \<and> ar_n x \<le> sr_n r' + ro_maxSkip opts
        \<and> t0 \<le> ar_now x \<and> ar_now x - t0 \<le> ro_ttlMs opts"
    proof
      fix x assume x: "x \<in> set as"
      then have "ar_n x \<noteq> ar_n a" using Cons.prems(2) by (metis distinct.simps(2) image_eqI list.simps(9) set_map)
      moreover have "sr_n r \<le> sr_n r'" using s(3) by simp
      ultimately show "openable r' (ar_n x) \<and> ar_n x \<le> sr_n r' + ro_maxSkip opts
          \<and> t0 \<le> ar_now x \<and> ar_now x - t0 \<le> ro_ttlMs opts"
        using Cons.prems(3) x s(2) by fastforce
    qed
    note ihr = Cons.IH [OF s(1) _ this]
    have ih: "fst (open_arrivals C opts K b r' as) = map (\<lambda>a. Inr (Some (ar_text a))) as"
      "\<forall>i. openable (snd (open_arrivals C opts K b r' as)) i \<longrightarrow> openable r' i"
      "\<forall>a \<in> set as. \<not> openable (snd (open_arrivals C opts K b r' as)) (ar_n a)"
      "in_sync C K b t0 (snd (open_arrivals C opts K b r' as))"
      using ihr Cons.prems(2) by simp_all
    have "\<not> openable (snd (open_arrivals C opts K b r' as)) (ar_n a)"
      and "\<forall>i. openable (snd (open_arrivals C opts K b r' as)) i \<longrightarrow> openable r i"
      using ih(2) s(2) by (metis fun_upd_same, metis fun_upd_apply)
    then show ?case using ih r' by (simp add: split_beta)
  qed simp
  then show "fst (open_arrivals C opts K b r as) = map (\<lambda>a. Inr (Some (ar_text a))) as"
    and "\<forall>a \<in> set as. \<not> openable (snd (open_arrivals C opts K b r as)) (ar_n a)"
    and "in_sync C K b t0 (snd (open_arrivals C opts K b r as))" by blast+
qed

text \<open>What the sender's chain seals is the frame of its position.\<close>

lemma gseal_at:
  assumes "sc_key ch = chain_at C K (sc_n ch - b)" and "b \<le> sc_n ch"
  shows "gseal C ch h pt = ((sc_n ch, aeadSeal C (gmsgKey C (chain_at C K (sc_n ch - b))) (sc_n ch) h pt),
      \<lparr>sc_key = chain_at C K (Suc (sc_n ch) - b), sc_n = Suc (sc_n ch)\<rparr>)"
  using assms by (simp add: gseal_def Let_def chain_at_step Suc_diff_le del: chain_at.simps(2))

text \<open>The store is bounded by the jumps: one open adds at most \<open>maxSkip\<close> keys.\<close>

lemma length_stash: "length (stash ps t m) \<le> length m + length ps"
proof (induction ps t m rule: stash.induct)
  case (2 i mk ps t m)
  have "length (jm_set i (mk, t) m) \<le> Suc (length m)" by (simp add: length_jm_set)
  with "2.IH" show ?case by simp
qed simp

lemma gopen_stored:
  "length (sr_skipped (snd (gopen C opts now n h ct r))) \<le> length (sr_skipped r) + ro_maxSkip opts"
proof -
  have p: "length (sr_skipped (gprune opts now r)) \<le> length (sr_skipped r)"
    by (simp add: gprune_def live_keys_def)
  have "length (stash (fst (gwalk C k i m)) now l) \<le> length l + m" for k i m l
    using length_stash [of "fst (gwalk C k i m)" now l] by (simp add: gwalk_eq)
  note st = this
  let ?p = "gprune opts now r"
  show ?thesis
  proof (cases "jm_get (sr_skipped ?p) n")
    case (Some e)
    have "length (jm_del n (sr_skipped ?p)) \<le> length (sr_skipped r)"
      using p length_jm_del_le [of n "sr_skipped ?p"] by linarith
    with Some p show ?thesis
      by (cases e) (simp add: gopen_def Let_def split: option.split)
  next
    case None
    obtain ps cur where w: "gwalk C (sr_key ?p) (sr_n ?p) (n - sr_n ?p) = (ps, cur)" by force
    show ?thesis
      using None p w st [of "sr_key ?p" "sr_n ?p" "n - sr_n ?p" "sr_skipped ?p"]
      by (simp add: gopen_def Let_def split: option.split)
  qed
qed

end
