(* ===== verification/GroupSession.thy ===== *)
theory GroupSession
  imports SenderKey JsValue
begin

section \<open>A group session (lib/group.ts, the class GroupSession)\<close>

text \<open>
  One member's view of one group at one epoch: its sending chain, a receiving chain per other
  member, the roster with the sender ids, and the frames held for members whose key has not
  arrived. \<open>gsend\<close> builds a frame with one MAC per recipient, \<open>greceive\<close> checks ours before it
  opens one, \<open>setSenderKey\<close> seeds a chain and tries what was held. A public key is the base64
  string the code compares; \<open>atob\<close>, \<open>btoa\<close> and the identity backend's derivation are fields of
  the environment. An id in hexadecimal, which the code uses as a \<open>Map\<close> key, is the id itself
  here. The memo of MAC keys caches a pure function and is left out; the rotation instant and
  the topic belong to \<open>rendezvous.ts\<close>. An operation runs to its end: the held frames a new key
  releases are tried at once, in their order.
\<close>

record member =
  mb_pub :: jstr
  mb_kid :: "jstr option"

record genv =
  ge_C :: crypto
  ge_unb64 :: "jstr \<Rightarrow> bytes option"
  ge_b64 :: "bytes \<Rightarrow> jstr"
  ge_opts :: receiver_opts

record ident =
  id_pub :: jstr
  id_derive :: "bytes \<Rightarrow> jstr \<Rightarrow> bytes \<Rightarrow> jstr option \<Rightarrow> bytes" \<comment> \<open>label, peer, context, kid\<close>

datatype group_error = BadBase64 | GidMismatch | NoRosterMac | RosterMacInvalid | AdminNotSender | AdminChanged

definition MSG_MAC_LABEL :: bytes where "MSG_MAC_LABEL = ascii ''encedo-group-msg-mac''"
definition ROSTER_MAC_LABEL :: bytes where "ROSTER_MAC_LABEL = ascii ''encedo-chat-group-roster-mac''"
definition T_GMSG :: byte where "T_GMSG = 0x20"
definition GVERSION :: byte where "GVERSION = 3"
definition HDR_LEN :: nat where "HDR_LEN = 16 + 8 + 4 + 4"
definition REC_LEN :: nat where "REC_LEN = 8 + 32"
definition HOLD_MAX :: nat where "HOLD_MAX = 32"
definition HOLD_MS :: int where "HOLD_MS = 120000"

subsection \<open>Ids and keys\<close>

definition groupIdFromGK :: "crypto \<Rightarrow> bytes \<Rightarrow> bytes" where
  "groupIdFromGK C gkPub = take 16 (c_sha256 C gkPub)"

definition senderIdOf :: "genv \<Rightarrow> jstr \<Rightarrow> group_error + bytes" where
  "senderIdOf E pub = then_ok (from_option BadBase64 (ge_unb64 E pub)) (\<lambda>b. Inr (take 8 (c_sha256 (ge_C E) b)))"

definition epochBytes :: "nat \<Rightarrow> bytes" where
  "epochBytes epoch = be_enc 4 epoch"

definition macCtx :: "bytes \<Rightarrow> nat \<Rightarrow> bytes" where
  "macCtx gid epoch = gid @ epochBytes epoch"

definition msgMacKeyFor :: "ident \<Rightarrow> jstr \<Rightarrow> bytes \<Rightarrow> nat \<Rightarrow> jstr option \<Rightarrow> bytes" where
  "msgMacKeyFor i memberPub gid epoch kid = id_derive i MSG_MAC_LABEL memberPub (macCtx gid epoch) kid"

definition rosterMacKeyFor :: "ident \<Rightarrow> jstr \<Rightarrow> bytes \<Rightarrow> nat \<Rightarrow> bytes" where
  "rosterMacKeyFor i gkPubB64 gid epoch = id_derive i ROSTER_MAC_LABEL gkPubB64 (macCtx gid epoch) None"

fun join_lines :: "jstr list \<Rightarrow> jstr" where
  "join_lines [] = []"
| "join_lines [x] = x"
| "join_lines (x # xs) = x @ [10] @ join_lines xs"

definition rosterBytes :: "jstr list \<Rightarrow> bytes" where
  "rosterBytes roster = utf8 (join_lines roster)"

definition rosterMac :: "crypto \<Rightarrow> bytes \<Rightarrow> jstr list \<Rightarrow> bytes" where
  "rosterMac C rk roster = c_hmac C rk (rosterBytes roster)"

definition verifyRosterMac :: "crypto \<Rightarrow> bytes \<Rightarrow> jstr list \<Rightarrow> bytes \<Rightarrow> bool" where
  "verifyRosterMac C rk roster m = (c_hmac C rk (rosterBytes roster) = m)"

subsection \<open>The header\<close>

record gheader =
  gh_gid :: bytes
  gh_senderId :: bytes
  gh_epoch :: nat
  gh_ctr :: nat

definition encodeGHeader :: "gheader \<Rightarrow> bytes" where
  "encodeGHeader h = gh_gid h @ gh_senderId h @ be_enc 4 (gh_epoch h) @ be_enc 4 (gh_ctr h)"

definition decodeGHeader :: "bytes \<Rightarrow> gheader" where
  "decodeGHeader b = \<lparr>gh_gid = slice_of 0 16 b, gh_senderId = slice_of 16 8 b,
     gh_epoch = be_dec (slice_of 24 4 b), gh_ctr = be_dec (slice_of 28 4 b)\<rparr>"

subsection \<open>The session\<close>

record gsession =
  gs_gid :: bytes
  gs_epoch :: nat
  gs_secret :: bytes
  gs_send :: send_chain
  gs_receivers :: "(jstr, sender_receiver) jmap"
  gs_members :: "member list"
  gs_byId :: "(bytes, member) jmap"
  gs_senderIds :: "(jstr, bytes) jmap"
  gs_held :: "(jstr, (bytes \<times> int) list) jmap"
  gs_mySenderId :: bytes

fun index_members ::
  "genv \<Rightarrow> member list \<Rightarrow> (jstr, bytes) jmap \<Rightarrow> (bytes, member) jmap
    \<Rightarrow> group_error + ((jstr, bytes) jmap \<times> (bytes, member) jmap)" where
  "index_members E [] ids byId = Inr (ids, byId)"
| "index_members E (m # ms) ids byId =
     (case jm_get ids (mb_pub m) of
        Some sid \<Rightarrow> index_members E ms ids (jm_set sid m byId)
      | None \<Rightarrow> then_ok (senderIdOf E (mb_pub m)) (\<lambda>sid.
          index_members E ms (jm_set (mb_pub m) sid ids) (jm_set sid m byId)))"

definition setMembers :: "genv \<Rightarrow> member list \<Rightarrow> gsession \<Rightarrow> group_error + gsession" where
  "setMembers E ms s =
     then_ok (index_members E ms (gs_senderIds s) []) (\<lambda>(ids, byId).
       Inr (s\<lparr>gs_members := ms, gs_byId := byId, gs_senderIds := ids\<rparr>))"

text \<open>\<open>create\<close>; \<open>fresh\<close> is the random seed of \<open>newSendChain\<close>.\<close>

definition create_session ::
  "genv \<Rightarrow> ident \<Rightarrow> bytes \<Rightarrow> bytes \<Rightarrow> nat \<Rightarrow> bytes \<Rightarrow> member list \<Rightarrow> group_error + gsession" where
  "create_session E i fresh gid epoch secret ms =
     then_ok (senderIdOf E (id_pub i)) (\<lambda>me.
       setMembers E ms \<lparr>gs_gid = gid, gs_epoch = epoch, gs_secret = secret, gs_send = sendChainFrom fresh,
         gs_receivers = [], gs_members = [], gs_byId = [], gs_senderIds = [], gs_held = [], gs_mySenderId = me\<rparr>)"

definition macKeyFor :: "ident \<Rightarrow> gsession \<Rightarrow> jstr \<Rightarrow> bytes" where
  "macKeyFor i s memberPub =
     msgMacKeyFor i memberPub (gs_gid s) (gs_epoch s)
       (Option.bind (find (\<lambda>m. mb_pub m = memberPub) (gs_members s)) mb_kid)"

definition others :: "ident \<Rightarrow> gsession \<Rightarrow> member list" where
  "others i s = filter (\<lambda>m. mb_pub m \<noteq> id_pub i) (gs_members s)"

definition mac_record :: "genv \<Rightarrow> ident \<Rightarrow> gsession \<Rightarrow> bytes \<Rightarrow> bytes \<Rightarrow> member \<Rightarrow> bytes" where
  "mac_record E i s header ct m =
     (case jm_get (gs_senderIds s) (mb_pub m) of None \<Rightarrow> [] | Some sid \<Rightarrow> sid)
     @ gtag (ge_C E) (macKeyFor i s (mb_pub m)) header ct"

text \<open>The recipient count is one byte: \<open>new Uint8Array([n])\<close> stores it modulo 256.\<close>

definition gframe :: "bytes \<Rightarrow> bytes list \<Rightarrow> bytes \<Rightarrow> bytes" where
  "gframe header recips ct = [T_GMSG, GVERSION] @ header @ [word_of_nat (length recips)] @ concat recips @ ct"

definition gsend :: "genv \<Rightarrow> ident \<Rightarrow> bytes \<Rightarrow> gsession \<Rightarrow> bytes \<times> gsession" where
  "gsend E i plaintext s =
     (let header = encodeGHeader \<lparr>gh_gid = gs_gid s, gh_senderId = gs_mySenderId s, gh_epoch = gs_epoch s,
            gh_ctr = sc_n (gs_send s)\<rparr>
      in case gseal (ge_C E) (gs_send s) header plaintext of ((n, ct), ch) \<Rightarrow>
        (gframe header (map (mac_record E i s header ct) (others i s)) ct, s\<lparr>gs_send := ch\<rparr>))"

subsection \<open>Receiving\<close>

fun read_macs :: "nat \<Rightarrow> bytes \<Rightarrow> (bytes, bytes) jmap \<Rightarrow> (bytes, bytes) jmap" where
  "read_macs 0 b m = m"
| "read_macs (Suc k) b m = read_macs k (drop REC_LEN b) (jm_set (take 8 b) (slice_of 8 32 b) m)"

text \<open>A frame that is for us, from a known member, with our MAC: the sender, the header and the ciphertext.\<close>

definition admitted :: "genv \<Rightarrow> ident \<Rightarrow> gsession \<Rightarrow> bytes \<Rightarrow> (member \<times> bytes \<times> bytes) option" where
  "admitted E i s frame =
     (if length frame < 2 + HDR_LEN + 1 \<or> frame ! 0 \<noteq> T_GMSG \<or> frame ! 1 \<noteq> GVERSION then None
      else let header = slice_of 2 HDR_LEN frame; macCount = unat (frame ! (2 + HDR_LEN)); off = 2 + HDR_LEN + 1 in
        if off + macCount * REC_LEN > length frame then None
        else let macs = read_macs macCount (drop off frame) []; ct = drop (off + macCount * REC_LEN) frame in
          case jm_get (gs_byId s) (gh_senderId (decodeGHeader header)) of
            None \<Rightarrow> None
          | Some sender \<Rightarrow>
              if mb_pub sender = id_pub i then None
              else case jm_get macs (gs_mySenderId s) of
                None \<Rightarrow> None
              | Some mine \<Rightarrow>
                  if gverify (ge_C E) (macKeyFor i s (mb_pub sender)) header ct mine
                  then Some (sender, header, ct) else None)"

definition held_for :: "gsession \<Rightarrow> jstr \<Rightarrow> (bytes \<times> int) list" where
  "held_for s pub = (case jm_get (gs_held s) pub of None \<Rightarrow> [] | Some q \<Rightarrow> q)"

text \<open>\<open>slice(-k)\<close>: the last \<open>k\<close>.\<close>

definition last_n :: "nat \<Rightarrow> 'a list \<Rightarrow> 'a list" where
  "last_n k xs = drop (length xs - k) xs"

definition hold_frame :: "int \<Rightarrow> jstr \<Rightarrow> bytes \<Rightarrow> gsession \<Rightarrow> gsession" where
  "hold_frame now pub frame s =
     s\<lparr>gs_held := jm_set pub (last_n (HOLD_MAX - 1) (filter (\<lambda>x. now - snd x < HOLD_MS) (held_for s pub)) @ [(frame, now)])
        (gs_held s)\<rparr>"

record received =
  rv_from :: jstr
  rv_pt :: bytes

text \<open>The outcome of an open: the message if there is one, and whether the sender is asked for its key.\<close>

definition gopened :: "jstr \<Rightarrow> skip_error + bytes option \<Rightarrow> received option \<times> jstr option" where
  "gopened pub r = (case r of
     Inl _ \<Rightarrow> (None, Some pub)
   | Inr None \<Rightarrow> (None, None)
   | Inr (Some pt) \<Rightarrow> (Some \<lparr>rv_from = pub, rv_pt = pt\<rparr>, None))"

definition greceive :: "genv \<Rightarrow> ident \<Rightarrow> int \<Rightarrow> bytes \<Rightarrow> gsession \<Rightarrow> (received option \<times> jstr option) \<times> gsession" where
  "greceive E i now frame s =
     (case admitted E i s frame of
        None \<Rightarrow> ((None, None), s)
      | Some (sender, header, ct) \<Rightarrow>
          (case jm_get (gs_receivers s) (mb_pub sender) of
             None \<Rightarrow> ((None, Some (mb_pub sender)), hold_frame now (mb_pub sender) frame s)
           | Some recv \<Rightarrow>
               (case gopen (ge_C E) (ge_opts E) now (gh_ctr (decodeGHeader header)) header ct recv of
                  (r, recv') \<Rightarrow> (gopened (mb_pub sender) r, s\<lparr>gs_receivers := jm_set (mb_pub sender) recv' (gs_receivers s)\<rparr>))))"

text \<open>\<open>receive(frame, use)\<close> with a receiver of its own: only that receiver moves.\<close>

definition greceive_using ::
  "genv \<Rightarrow> ident \<Rightarrow> int \<Rightarrow> bytes \<Rightarrow> sender_receiver \<Rightarrow> gsession \<Rightarrow> (received option \<times> jstr option) \<times> sender_receiver" where
  "greceive_using E i now frame rx s =
     (case admitted E i s frame of
        None \<Rightarrow> ((None, None), rx)
      | Some (sender, header, ct) \<Rightarrow>
          (case gopen (ge_C E) (ge_opts E) now (gh_ctr (decodeGHeader header)) header ct rx of
             (r, rx') \<Rightarrow> (gopened (mb_pub sender) r, rx')))"

subsection \<open>Seeding a chain and releasing what was held\<close>

text \<open>The loop of \<open>release\<close>: what opened, and what stays held.\<close>

fun release_chain ::
  "genv \<Rightarrow> ident \<Rightarrow> int \<Rightarrow> (bytes \<times> int) list \<Rightarrow> gsession \<Rightarrow> (received list \<times> (bytes \<times> int) list) \<times> gsession" where
  "release_chain E i now [] s = (([], []), s)"
| "release_chain E i now (x # q) s =
     (if now - snd x \<ge> HOLD_MS then release_chain E i now q s
      else case greceive E i now (fst x) s of ((r, _), s1) \<Rightarrow>
        (case release_chain E i now q s1 of ((opened, keep), s2) \<Rightarrow>
          (case r of Some m \<Rightarrow> ((m # opened, keep), s2) | None \<Rightarrow> ((opened, x # keep), s2))))"

fun release_using ::
  "genv \<Rightarrow> ident \<Rightarrow> int \<Rightarrow> (bytes \<times> int) list \<Rightarrow> sender_receiver \<Rightarrow> gsession \<Rightarrow> received list \<times> (bytes \<times> int) list" where
  "release_using E i now [] rx s = ([], [])"
| "release_using E i now (x # q) rx s =
     (if now - snd x \<ge> HOLD_MS then release_using E i now q rx s
      else case greceive_using E i now (fst x) rx s of ((r, _), rx') \<Rightarrow>
        (case release_using E i now q rx' s of (opened, keep) \<Rightarrow>
          (case r of Some m \<Rightarrow> (m # opened, keep) | None \<Rightarrow> (opened, x # keep))))"

definition put_back :: "jstr \<Rightarrow> (bytes \<times> int) list \<Rightarrow> gsession \<Rightarrow> gsession" where
  "put_back pub keep s =
     (if keep = [] then s
      else s\<lparr>gs_held := jm_set pub (last_n HOLD_MAX (keep @ held_for s pub)) (gs_held s)\<rparr>)"

definition unhold :: "jstr \<Rightarrow> gsession \<Rightarrow> gsession" where
  "unhold pub s = s\<lparr>gs_held := jm_del pub (gs_held s)\<rparr>"

definition release :: "genv \<Rightarrow> ident \<Rightarrow> int \<Rightarrow> jstr \<Rightarrow> sender_receiver option \<Rightarrow> gsession \<Rightarrow> received list \<times> gsession" where
  "release E i now pub use s =
     (let q = held_for s pub; s0 = unhold pub s in
      case use of
        None \<Rightarrow> (case release_chain E i now q s0 of ((opened, keep), s1) \<Rightarrow> (opened, put_back pub keep s1))
      | Some rx \<Rightarrow> (case release_using E i now q rx s0 of (opened, keep) \<Rightarrow> (opened, put_back pub keep s0)))"

definition setSenderKey :: "genv \<Rightarrow> ident \<Rightarrow> int \<Rightarrow> jstr \<Rightarrow> bytes \<Rightarrow> nat \<Rightarrow> gsession \<Rightarrow> received list \<times> gsession" where
  "setSenderKey E i now pub key ctr s =
     (if pub = id_pub i then ([], s)
      else if (case jm_get (gs_receivers s) pub of None \<Rightarrow> False | Some cur \<Rightarrow> ctr < snd (snapshot cur))
      then (if jm_has (gs_held s) pub then release E i now pub (Some (receiver_from key ctr)) s else ([], s))
      else let s' = s\<lparr>gs_receivers := jm_set pub (receiver_from key ctr) (gs_receivers s)\<rparr> in
        if jm_has (gs_held s') pub then release E i now pub None s' else ([], s'))"

definition hasSenderKey :: "gsession \<Rightarrow> jstr \<Rightarrow> bool" where
  "hasSenderKey s pub = jm_has (gs_receivers s) pub"

subsection \<open>Persistence\<close>

record chains_export =
  ce_send :: send_chain
  ce_receivers :: "(jstr \<times> bytes \<times> nat) list"

definition exportChains :: "gsession \<Rightarrow> chains_export" where
  "exportChains s = \<lparr>ce_send = gs_send s, ce_receivers = map (\<lambda>(pub, r). (pub, snapshot r)) (gs_receivers s)\<rparr>"

fun import_receivers :: "(jstr \<times> bytes \<times> nat) list \<Rightarrow> (jstr, sender_receiver) jmap \<Rightarrow> (jstr, sender_receiver) jmap" where
  "import_receivers [] m = m"
| "import_receivers ((pub, key, n) # rs) m = import_receivers rs (jm_set pub (receiver_from key n) m)"

definition importChains :: "chains_export \<Rightarrow> gsession \<Rightarrow> gsession" where
  "importChains c s = s\<lparr>gs_send := ce_send c, gs_receivers := import_receivers (ce_receivers c) []\<rparr>"

end
