(* ===== verification/GroupFacts.thy ===== *)
theory GroupFacts
  imports GroupSession
begin

section \<open>What a group session guarantees\<close>

text \<open>
  The frame layout parses back to the header, MACs and ciphertext that were put in; a frame
  from a member with our MAC is admitted; and with the receiving chain in step with the
  sender's, whatever it sends is read, in any order of arrival. Anything else changes nothing.
\<close>

subsection \<open>The header and the MAC list\<close>

definition gheader_ok :: "gheader \<Rightarrow> bool" where
  "gheader_ok h \<longleftrightarrow> length (gh_gid h) = 16 \<and> length (gh_senderId h) = 8 \<and> gh_epoch h < 2 ^ 32 \<and> gh_ctr h < 2 ^ 32"

lemma length_encodeGHeader: "gheader_ok h \<Longrightarrow> length (encodeGHeader h) = HDR_LEN"
  by (simp add: gheader_ok_def encodeGHeader_def HDR_LEN_def)

lemma decode_encodeGHeader: "gheader_ok h \<Longrightarrow> decodeGHeader (encodeGHeader h) = h"
  by (auto simp: gheader_ok_def encodeGHeader_def decodeGHeader_def slice_of_def)

lemma read_macs_records:
  "\<forall>r \<in> set rs. length (fst r) = 8 \<and> length (snd r) = 32 \<Longrightarrow>
    read_macs (length rs) (concat (map (\<lambda>r. fst r @ snd r) rs) @ rest) m = foldl (\<lambda>m r. jm_set (fst r) (snd r) m) m rs"
proof (induction rs arbitrary: m)
  case (Cons r rs)
  have "take 8 (concat (map (\<lambda>r. fst r @ snd r) (r # rs)) @ rest) = fst r"
    "slice_of 8 32 (concat (map (\<lambda>r. fst r @ snd r) (r # rs)) @ rest) = snd r"
    "drop REC_LEN (concat (map (\<lambda>r. fst r @ snd r) (r # rs)) @ rest) = concat (map (\<lambda>r. fst r @ snd r) rs) @ rest"
    using Cons.prems by (simp_all add: slice_of_def REC_LEN_def)
  then show ?case using Cons by simp
qed simp

lemma foldl_jm_set_other:
  "k \<notin> fst ` set rs \<Longrightarrow> jm_get (foldl (\<lambda>m r. jm_set (fst r) (snd r) m) m rs) k = jm_get m k"
  by (induction rs arbitrary: m) auto

lemma foldl_jm_set_get:
  "distinct (map fst rs) \<Longrightarrow> (k, v) \<in> set rs \<Longrightarrow> jm_get (foldl (\<lambda>m r. jm_set (fst r) (snd r) m) m rs) k = Some v"
proof (induction rs arbitrary: m)
  case (Cons r rs)
  show ?case
  proof (cases "r = (k, v)")
    case True
    then have "k \<notin> fst ` set rs" using Cons.prems(1) by (simp add: image_set [symmetric] del: image_set)
    then show ?thesis using True by (simp add: foldl_jm_set_other)
  qed (use Cons in auto)
qed simp

subsection \<open>A frame is admitted by the member it names\<close>

text \<open>
  \<open>knows\<close>: the receiver's session is of the same group and epoch, has the sender under its
  sender id, shares its MAC key, and is one of at most 255 recipients, whose ids differ.
\<close>

definition sid_of :: "gsession \<Rightarrow> member \<Rightarrow> bytes" where
  "sid_of s m = (case jm_get (gs_senderIds s) (mb_pub m) of None \<Rightarrow> [] | Some sid \<Rightarrow> sid)"

definition knows :: "genv \<Rightarrow> ident \<Rightarrow> gsession \<Rightarrow> member \<Rightarrow> ident \<Rightarrow> gsession \<Rightarrow> member \<Rightarrow> bool" where
  "knows E i s mi j t mj \<longleftrightarrow>
     mb_pub mi = id_pub i \<and> mb_pub mj = id_pub j \<and> id_pub i \<noteq> id_pub j
     \<and> length (gs_gid s) = 16 \<and> gs_epoch s < 2 ^ 32 \<and> length (gs_mySenderId s) = 8
     \<and> length (others i s) \<le> 255 \<and> mj \<in> set (others i s)
     \<and> distinct (map (sid_of s) (others i s)) \<and> (\<forall>m \<in> set (others i s). length (sid_of s m) = 8)
     \<and> gs_mySenderId t = sid_of s mj \<and> jm_get (gs_byId t) (gs_mySenderId s) = Some mi
     \<and> macKeyFor i s (id_pub j) = macKeyFor j t (id_pub i)"

definition frame_header :: "gsession \<Rightarrow> nat \<Rightarrow> bytes" where
  "frame_header s n = encodeGHeader \<lparr>gh_gid = gs_gid s, gh_senderId = gs_mySenderId s, gh_epoch = gs_epoch s, gh_ctr = n\<rparr>"

definition frame_of :: "genv \<Rightarrow> ident \<Rightarrow> gsession \<Rightarrow> nat \<Rightarrow> bytes \<Rightarrow> bytes" where
  "frame_of E i s n ct = gframe (frame_header s n) (map (mac_record E i s (frame_header s n) ct) (others i s)) ct"

lemma gframe_parts:
  assumes "length h = HDR_LEN" and "length rs = k" and "k \<le> 255" and "\<forall>r \<in> set rs. length r = REC_LEN"
  shows "slice_of 2 HDR_LEN (gframe h rs ct) = h" and "unat (gframe h rs ct ! (2 + HDR_LEN)) = k"
    and "drop (2 + HDR_LEN + 1) (gframe h rs ct) = concat rs @ ct"
    and "drop (2 + HDR_LEN + 1 + k * REC_LEN) (gframe h rs ct) = ct"
    and "length (gframe h rs ct) = 2 + HDR_LEN + 1 + k * REC_LEN + length ct"
    and "gframe h rs ct ! 0 = T_GMSG" and "gframe h rs ct ! 1 = GVERSION"
proof -
  have c: "length (concat rs) = k * REC_LEN" using assms(2,4)
    by (induction rs arbitrary: k) auto
  show "slice_of 2 HDR_LEN (gframe h rs ct) = h" "gframe h rs ct ! 0 = T_GMSG" "gframe h rs ct ! 1 = GVERSION"
    using assms(1) by (simp_all add: gframe_def slice_of_def)
  show "unat (gframe h rs ct ! (2 + HDR_LEN)) = k"
    using assms by (simp add: gframe_def nth_append unat_byte_of_nat)
  show d: "drop (2 + HDR_LEN + 1) (gframe h rs ct) = concat rs @ ct"
    using assms(1) by (simp add: gframe_def)
  then show "drop (2 + HDR_LEN + 1 + k * REC_LEN) (gframe h rs ct) = ct"
    using c by (metis append_eq_conv_conj add.commute drop_drop)
  show "length (gframe h rs ct) = 2 + HDR_LEN + 1 + k * REC_LEN + length ct"
    using assms(1) c by (simp add: gframe_def)
qed

lemma mac_record_split: "mac_record E i s h ct m = sid_of s m @ gtag (ge_C E) (macKeyFor i s (mb_pub m)) h ct"
  by (simp add: mac_record_def sid_of_def)

lemma admitted_frame_of:
  assumes k: "knows E i s mi j t mj" and len: "crypto_lengths (ge_C E)" and n: "n < 2 ^ 32"
  shows "admitted E j t (frame_of E i s n ct) = Some (mi, frame_header s n, ct)"
proof -
  let ?h = "frame_header s n" and ?os = "others i s"
  let ?rs = "map (\<lambda>m. (sid_of s m, gtag (ge_C E) (macKeyFor i s (mb_pub m)) ?h ct)) ?os"
  let ?f = "gframe ?h (map (mac_record E i s ?h ct) ?os) ct"
  have hd: "gheader_ok \<lparr>gh_gid = gs_gid s, gh_senderId = gs_mySenderId s, gh_epoch = gs_epoch s, gh_ctr = n\<rparr>"
    using k n by (simp add: gheader_ok_def knows_def)
  have hl: "length ?h = HDR_LEN" and hs: "gh_senderId (decodeGHeader ?h) = gs_mySenderId s"
    using length_encodeGHeader [OF hd] decode_encodeGHeader [OF hd] by (simp_all add: frame_header_def)
  have tl: "length (gtag (ge_C E) x ?h ct) = 32" for x using crypto_lengthsD(2) [OF len] by (simp add: gtag_def)
  have rl: "\<forall>r \<in> set (map (mac_record E i s ?h ct) ?os). length r = REC_LEN"
    using k tl by (simp add: mac_record_split REC_LEN_def knows_def)
  have os: "length (map (mac_record E i s ?h ct) ?os) = length ?os" "length ?os \<le> 255"
    using k by (simp_all add: knows_def)
  note p = gframe_parts [OF hl os(1) os(2) rl, of ct]
  have cc: "concat (map (mac_record E i s ?h ct) ?os) = concat (map (\<lambda>r. fst r @ snd r) ?rs)"
    by (rule arg_cong [where f = concat]) (simp add: mac_record_split)
  have "read_macs (length ?rs) (concat (map (\<lambda>r. fst r @ snd r) ?rs) @ ct) [] = foldl (\<lambda>m r. jm_set (fst r) (snd r) m) [] ?rs"
    using k tl by (intro read_macs_records) (simp add: knows_def)
  then have rm: "read_macs (length ?os) (drop (2 + HDR_LEN + 1) ?f) [] = foldl (\<lambda>m r. jm_set (fst r) (snd r) m) [] ?rs"
    unfolding p(3) cc by simp
  have "distinct (map fst ?rs)" using k by (simp add: knows_def comp_def)
  moreover have "(gs_mySenderId t, gtag (ge_C E) (macKeyFor i s (id_pub j)) ?h ct) \<in> set ?rs"
    using k by (auto simp: knows_def image_iff intro!: bexI [of _ mj])
  ultimately have g: "jm_get (read_macs (length ?os) (drop (2 + HDR_LEN + 1) ?f) []) (gs_mySenderId t)
      = Some (gtag (ge_C E) (macKeyFor i s (id_pub j)) ?h ct)"
    unfolding rm by (rule foldl_jm_set_get)
  have kk: "jm_get (gs_byId t) (gs_mySenderId s) = Some mi" "mb_pub mi = id_pub i" "id_pub i \<noteq> id_pub j"
      "macKeyFor i s (id_pub j) = macKeyFor j t (id_pub i)"
    using k by (simp_all add: knows_def)
  show ?thesis
    unfolding admitted_def frame_of_def Let_def p(1,2,4) g hs kk(1)
    using p(5,6,7) kk by (simp add: gverify_def gtag_def)
qed

text \<open>What is admitted carries a MAC that only holders of the pair's key can make, from a known member.\<close>

lemma admittedE:
  assumes "admitted E i s frame = Some (sender, header, ct)"
  obtains tag where "header = slice_of 2 HDR_LEN frame" and "tag = c_hmac (ge_C E) (macKeyFor i s (mb_pub sender)) (header @ ct)"
    and "jm_get (gs_byId s) (gh_senderId (decodeGHeader header)) = Some sender" and "mb_pub sender \<noteq> id_pub i"
    and "jm_get (read_macs (unat (frame ! (2 + HDR_LEN))) (drop (2 + HDR_LEN + 1) frame) []) (gs_mySenderId s) = Some tag"
  using assms by (auto simp: admitted_def Let_def gverify_def split: if_splits option.splits)

lemma greceive_not_admitted: "admitted E i s frame = None \<Longrightarrow> greceive E i now frame s = ((None, None), s)"
  by (simp add: greceive_def)

lemma gopened_Some: "gopened pub r = (Some m, ask) \<longleftrightarrow> (\<exists>pt. r = Inr (Some pt) \<and> m = \<lparr>rv_from = pub, rv_pt = pt\<rparr> \<and> ask = None)"
  by (auto simp: gopened_def split: sum.splits option.splits)

lemma greceive_authentic:
  assumes "greceive E i now frame s = ((Some m, ask), s')"
  obtains sender header ct where "admitted E i s frame = Some (sender, header, ct)" and "rv_from m = mb_pub sender"
  using assms by (auto simp: greceive_def gopened_Some split: option.splits prod.splits)

lemma greceive_gone:
  assumes "fst (greceive E i now frame s) = (r, Some pub)"
  shows "r = None \<and> (\<exists>sender header ct. admitted E i s frame = Some (sender, header, ct) \<and> pub = mb_pub sender)"
  using assms by (auto simp: greceive_def gopened_def split: option.splits prod.splits sum.splits)

subsection \<open>What stays put\<close>

text \<open>The parts of a session that sending and receiving never touch.\<close>

definition same_group :: "gsession \<Rightarrow> gsession \<Rightarrow> bool" where
  "same_group s s' \<longleftrightarrow> gs_gid s' = gs_gid s \<and> gs_epoch s' = gs_epoch s \<and> gs_secret s' = gs_secret s
     \<and> gs_members s' = gs_members s \<and> gs_byId s' = gs_byId s \<and> gs_senderIds s' = gs_senderIds s
     \<and> gs_mySenderId s' = gs_mySenderId s"

lemma same_group_refl [simp]: "same_group s s"
  by (simp add: same_group_def)

lemma same_group_trans: "same_group s t \<Longrightarrow> same_group t u \<Longrightarrow> same_group s u"
  by (simp add: same_group_def)

lemma gsend_same: "same_group s (snd (gsend E i pt s))"
  by (simp add: gsend_def Let_def gseal_def same_group_def)

lemma greceive_same: "same_group s (snd (greceive E i now frame s))"
  by (auto simp: greceive_def same_group_def hold_frame_def split: option.split prod.split)

lemma release_chain_same: "same_group s (snd (release_chain E i now q s))"
proof (induction q arbitrary: s)
  case (Cons x q)
  have "same_group s (snd (greceive E i now (fst x) s))" by (rule greceive_same)
  with Cons show ?case by (auto split: prod.split option.split) (metis same_group_trans snd_conv)+
qed simp

lemma setSenderKey_same: "same_group s (snd (setSenderKey E i now pub key ctr s))"
proof -
  have u: "same_group t (put_back pub keep (unhold pub t))" "same_group t (unhold pub t)"
    "same_group t (put_back pub keep t)" for t keep
    by (simp_all add: same_group_def put_back_def unhold_def)
  have r: "same_group t (snd (release E i now pub use t))" for t use
  proof (cases use)
    case None
    obtain opened keep s1 where e: "release_chain E i now (held_for t pub) (unhold pub t) = ((opened, keep), s1)"
      by (metis surj_pair)
    then have "same_group (unhold pub t) s1"
      using release_chain_same [of "unhold pub t" E i now "held_for t pub"] by simp
    then have "same_group t s1" using u(2) same_group_trans by blast
    then show ?thesis using u(3) same_group_trans None e by (simp add: release_def)
  next
    case (Some rx)
    then show ?thesis using u(1) by (simp add: release_def Let_def split: prod.split)
  qed
  have "same_group s (snd (release E i now pub None (s\<lparr>gs_receivers := jm_set pub x (gs_receivers s)\<rparr>)))" for x
    using r [of "s\<lparr>gs_receivers := jm_set pub x (gs_receivers s)\<rparr>" None] by (simp add: same_group_def)
  with r show ?thesis
    by (simp add: setSenderKey_def Let_def same_group_def)
qed

subsection \<open>A broadcast reaches every member\<close>

fun gsend_all :: "genv \<Rightarrow> ident \<Rightarrow> bytes list \<Rightarrow> gsession \<Rightarrow> bytes list \<times> gsession" where
  "gsend_all E i [] s = ([], s)"
| "gsend_all E i (pt # pts) s =
     (case gsend E i pt s of (f, s1) \<Rightarrow> (case gsend_all E i pts s1 of (fs, s2) \<Rightarrow> (f # fs, s2)))"

fun greceive_all :: "genv \<Rightarrow> ident \<Rightarrow> (bytes \<times> int) list \<Rightarrow> gsession \<Rightarrow> received option list \<times> gsession" where
  "greceive_all E i [] s = ([], s)"
| "greceive_all E i ((f, now) # fs) s =
     (case greceive E i now f s of ((r, _), s1) \<Rightarrow> (case greceive_all E i fs s1 of (rs, s2) \<Rightarrow> (r # rs, s2)))"

text \<open>The frame at the \<open>k\<close>-th position of a run of sends.\<close>

lemma frame_of_same: "same_group s s' \<Longrightarrow> frame_of E i s' n ct = frame_of E i s n ct"
  by (simp add: frame_of_def frame_header_def mac_record_def [abs_def] others_def macKeyFor_def same_group_def)

lemma gsend_frame:
  assumes "sc_key (gs_send s) = chain_at C K (sc_n (gs_send s) - b)" and "b \<le> sc_n (gs_send s)" and "C = ge_C E"
  shows "gsend E i pt s = (frame_of E i s (sc_n (gs_send s))
       (aeadSeal C (gmsgKey C (chain_at C K (sc_n (gs_send s) - b))) (sc_n (gs_send s)) (frame_header s (sc_n (gs_send s))) pt),
     s\<lparr>gs_send := \<lparr>sc_key = chain_at C K (Suc (sc_n (gs_send s)) - b), sc_n = Suc (sc_n (gs_send s))\<rparr>\<rparr>)"
  using gseal_at [OF assms(1,2), of "frame_header s (sc_n (gs_send s))" pt] assms(3)
  by (simp add: gsend_def Let_def frame_of_def frame_header_def others_def mac_record_def macKeyFor_def [abs_def])

definition sealed_frame :: "genv \<Rightarrow> ident \<Rightarrow> gsession \<Rightarrow> bytes \<Rightarrow> nat \<Rightarrow> nat \<Rightarrow> bytes \<Rightarrow> bytes" where
  "sealed_frame E i s K b n pt = frame_of E i s n
     (aeadSeal (ge_C E) (gmsgKey (ge_C E) (chain_at (ge_C E) K (n - b))) n (frame_header s n) pt)"

lemma gsend_all_frames:
  assumes "sc_key (gs_send s) = chain_at (ge_C E) K (sc_n (gs_send s) - b)" and "b \<le> sc_n (gs_send s)"
  shows "fst (gsend_all E i pts s) = map (\<lambda>k. sealed_frame E i s K b (sc_n (gs_send s) + k) (pts ! k)) [0..<length pts]"
  using assms
proof (induction pts arbitrary: s)
  case (Cons pt pts)
  let ?n = "sc_n (gs_send s)"
  let ?s1 = "s\<lparr>gs_send := \<lparr>sc_key = chain_at (ge_C E) K (Suc ?n - b), sc_n = Suc ?n\<rparr>\<rparr>"
  have sg: "same_group s ?s1" by (simp add: same_group_def)
  have fh: "frame_header ?s1 = frame_header s" by (simp add: frame_header_def fun_eq_iff)
  have sf: "sealed_frame E i ?s1 K b n p = sealed_frame E i s K b n p" for n p
    by (simp add: sealed_frame_def fh frame_of_same [OF sg])
  have one: "gsend E i pt s = (sealed_frame E i s K b ?n pt, ?s1)"
    using gsend_frame [OF Cons.prems refl, of i pt] by (simp add: sealed_frame_def)
  have "fst (gsend_all E i pts ?s1) = map (\<lambda>k. sealed_frame E i ?s1 K b (Suc ?n + k) (pts ! k)) [0..<length pts]"
    using Cons.IH [of ?s1] Cons.prems(2) by simp
  moreover have "[0..<Suc (length pts)] = 0 # map Suc [0..<length pts]" by (simp add: upt_conv_Cons map_Suc_upt del: upt_Suc)
  ultimately show ?case by (simp add: one sf comp_def split_beta del: upt_Suc)
qed simp

text \<open>A receiver in step reads one of those frames.\<close>

lemma greceive_sealed:
  assumes k: "knows E i s mi j t mj" and C: "crypto_lengths (ge_C E)" "aead_opens (ge_C E)"
    and r: "jm_get (gs_receivers t) (id_pub i) = Some rx" "in_sync (ge_C E) K b t0 rx"
    and n: "n < 2 ^ 32" "openable rx n" "n - sr_n rx \<le> ro_maxSkip (ge_opts E)"
    and now: "t0 \<le> now" "now - t0 \<le> ro_ttlMs (ge_opts E)"
  obtains rx' t' where "greceive E j now (sealed_frame E i s K b n pt) t = ((Some \<lparr>rv_from = id_pub i, rv_pt = pt\<rparr>, None), t')"
    and "same_group t t'" and "jm_get (gs_receivers t') (id_pub i) = Some rx'" and "in_sync (ge_C E) K b t0 rx'"
    and "openable rx' = (openable rx)(n := False)" and "sr_n rx' = max (sr_n rx) (Suc n)"
proof -
  let ?ct = "aeadSeal (ge_C E) (gmsgKey (ge_C E) (chain_at (ge_C E) K (n - b))) n (frame_header s n) pt"
  have hd: "gheader_ok \<lparr>gh_gid = gs_gid s, gh_senderId = gs_mySenderId s, gh_epoch = gs_epoch s, gh_ctr = n\<rparr>"
    using k n(1) by (simp add: gheader_ok_def knows_def)
  have c: "gh_ctr (decodeGHeader (frame_header s n)) = n"
    using decode_encodeGHeader [OF hd] by (simp add: frame_header_def)
  have a: "admitted E j t (sealed_frame E i s K b n pt) = Some (mi, frame_header s n, ?ct)"
    unfolding sealed_frame_def by (rule admitted_frame_of [OF k C(1) n(1)])
  have p: "mb_pub mi = id_pub i" using k by (simp add: knows_def)
  obtain rx' where o: "gopen (ge_C E) (ge_opts E) now n (frame_header s n) ?ct rx = (Inr (Some pt), rx')"
    and s': "in_sync (ge_C E) K b t0 rx'" "openable rx' = (openable rx)(n := False)" "sr_n rx' = max (sr_n rx) (Suc n)"
    by (rule gopen_sealed [OF r(2) C(2) n(2,3) now])
  let ?t = "t\<lparr>gs_receivers := jm_set (id_pub i) rx' (gs_receivers t)\<rparr>"
  have "greceive E j now (sealed_frame E i s K b n pt) t = ((Some \<lparr>rv_from = id_pub i, rv_pt = pt\<rparr>, None), ?t)"
    using a p r(1) c o by (simp add: greceive_def gopened_def)
  then show thesis using that [of ?t rx'] s' by (simp add: same_group_def)
qed

lemma knows_same: "knows E i s mi j t mj \<Longrightarrow> same_group t t' \<Longrightarrow> knows E i s mi j t' mj"
  by (simp add: knows_def same_group_def macKeyFor_def)

text \<open>A counter the receiver cannot open any more is passed over, whatever it was.\<close>

lemma greceive_closed:
  assumes k: "knows E i s mi j t mj" and C: "crypto_lengths (ge_C E)"
    and r: "jm_get (gs_receivers t) (id_pub i) = Some rx" "in_sync (ge_C E) K b t0 rx"
    and n: "n < 2 ^ 32" "\<not> openable rx n" and now: "now - t0 \<le> ro_ttlMs (ge_opts E)"
  obtains rx' t' where "greceive E j now (sealed_frame E i s K b n pt) t = ((None, None), t')"
    and "same_group t t'" and "jm_get (gs_receivers t') (id_pub i) = Some rx'" and "in_sync (ge_C E) K b t0 rx'"
    and "openable rx' = openable rx" and "sr_n rx' = sr_n rx"
proof -
  let ?ct = "aeadSeal (ge_C E) (gmsgKey (ge_C E) (chain_at (ge_C E) K (n - b))) n (frame_header s n) pt"
  have hd: "gheader_ok \<lparr>gh_gid = gs_gid s, gh_senderId = gs_mySenderId s, gh_epoch = gs_epoch s, gh_ctr = n\<rparr>"
    using k n(1) by (simp add: gheader_ok_def knows_def)
  have c: "gh_ctr (decodeGHeader (frame_header s n)) = n"
    using decode_encodeGHeader [OF hd] by (simp add: frame_header_def)
  have a: "admitted E j t (sealed_frame E i s K b n pt) = Some (mi, frame_header s n, ?ct)"
    unfolding sealed_frame_def by (rule admitted_frame_of [OF k C n(1)])
  have p: "mb_pub mi = id_pub i" using k by (simp add: knows_def)
  obtain rx' where o: "gopen (ge_C E) (ge_opts E) now n (frame_header s n) ?ct rx = (Inr None, rx')"
    using gopen_closed [OF r(2) n(2)] by (metis prod.collapse)
  have rx': "rx' = gprune (ge_opts E) now rx" by (rule gopen_failed [OF o]) simp
  have s': "in_sync (ge_C E) K b t0 rx'" "openable rx' = openable rx" "sr_n rx' = sr_n rx"
    unfolding rx' by (rule gprune_sync [OF r(2)], rule gprune_openable [OF r(2) now], simp add: gprune_def)
  let ?t = "t\<lparr>gs_receivers := jm_set (id_pub i) rx' (gs_receivers t)\<rparr>"
  have "greceive E j now (sealed_frame E i s K b n pt) t = ((None, None), ?t)"
    using a p r(1) c o by (simp add: greceive_def gopened_def)
  then show thesis using that [of ?t rx'] s' by (simp add: same_group_def)
qed

text \<open>
  Frames of one sender, arriving in any order, some not at all and some again. \<open>within_skip m n\<close>: no
  arrival is more than \<open>m\<close> past the next one expected.
\<close>

fun within_skip :: "nat \<Rightarrow> nat \<Rightarrow> nat list \<Rightarrow> bool" where
  "within_skip m n [] = True"
| "within_skip m n (k # ks) = (k \<le> n + m \<and> within_skip m (max n (Suc k)) ks)"

lemma within_skip_shift: "within_skip m (b + n) (map ((+) b) ks) = within_skip m n ks"
proof (induction ks arbitrary: n)
  case (Cons k ks)
  have "max (b + n) (Suc (b + k)) = b + max n (Suc k)" by simp
  then show ?case using Cons.IH [of "max n (Suc k)"] by (simp del: max_Suc_Suc)
qed simp

lemma greceive_all_sealed:
  assumes k: "knows E i s mi j t mj" and C: "crypto_lengths (ge_C E)" "aead_opens (ge_C E)"
    and r: "jm_get (gs_receivers t) (id_pub i) = Some rx" "in_sync (ge_C E) K b t0 rx"
    and d: "within_skip (ro_maxSkip (ge_opts E)) (sr_n rx) (map fst as)"
    and a: "\<forall>x \<in> set as. fst x < 2 ^ 32 \<and> t0 \<le> snd (snd x) \<and> snd (snd x) - t0 \<le> ro_ttlMs (ge_opts E)"
  shows "fst (greceive_all E j (map (\<lambda>x. (sealed_frame E i s K b (fst x) (fst (snd x)), snd (snd x))) as) t)
    = map (\<lambda>l. if \<not> openable rx (fst (as ! l)) \<or> fst (as ! l) \<in> fst ` set (take l as) then None
        else Some \<lparr>rv_from = id_pub i, rv_pt = fst (snd (as ! l))\<rparr>) [0..<length as]"
  using k r d a
proof (induction "as" arbitrary: t rx)
  case (Cons x as)
  let ?out = "\<lambda>rx l. if \<not> openable rx (fst (as ! l)) \<or> fst (as ! l) \<in> fst ` set (take l as) then None
      else Some \<lparr>rv_from = id_pub i, rv_pt = fst (snd (as ! l))\<rparr>"
  have up: "[0..<Suc (length as)] = 0 # map Suc [0..<length as]" by (simp add: upt_conv_Cons map_Suc_upt del: upt_Suc)
  have pre: "fst x < 2 ^ 32" "t0 \<le> snd (snd x)" "snd (snd x) - t0 \<le> ro_ttlMs (ge_opts E)" "fst x - sr_n rx \<le> ro_maxSkip (ge_opts E)"
    using Cons.prems(4,5) by (simp_all add: le_diff_conv add.commute)
  obtain m rx' t' where g: "greceive E j (snd (snd x)) (sealed_frame E i s K b (fst x) (fst (snd x))) t = ((m, None), t')"
    and m: "m = (if openable rx (fst x) then Some \<lparr>rv_from = id_pub i, rv_pt = fst (snd x)\<rparr> else None)"
    and t': "same_group t t'" "jm_get (gs_receivers t') (id_pub i) = Some rx'" "in_sync (ge_C E) K b t0 rx'"
      "openable rx' = (openable rx)(fst x := False)" "sr_n rx' = max (sr_n rx) (Suc (fst x))"
  proof (cases "openable rx (fst x)")
    case True
    show thesis
      by (rule greceive_sealed [OF Cons.prems(1) C Cons.prems(2,3) pre(1) True pre(4,2,3)]) (use that True in auto)
  next
    case False
    then have "Suc (fst x) \<le> sr_n rx" by (simp add: openable_def)
    then have mx: "max (sr_n rx) (Suc (fst x)) = sr_n rx" by simp
    have op: "openable rx = (openable rx)(fst x := False)" using False by (simp add: fun_eq_iff)
    obtain rx1 t1 where h: "greceive E j (snd (snd x)) (sealed_frame E i s K b (fst x) (fst (snd x))) t = ((None, None), t1)"
      "same_group t t1" "jm_get (gs_receivers t1) (id_pub i) = Some rx1" "in_sync (ge_C E) K b t0 rx1" "openable rx1 = openable rx"
      "sr_n rx1 = sr_n rx"
      by (rule greceive_closed [OF Cons.prems(1) C(1) Cons.prems(2,3) pre(1) False pre(3)])
    have o1: "openable rx1 = (openable rx)(fst x := False)" unfolding h(5) by (rule op)
    show thesis by (rule that [OF h(1) _ h(2-4) o1]) (use False mx h(6) in simp_all)
  qed
  have "fst (greceive_all E j (map (\<lambda>x. (sealed_frame E i s K b (fst x) (fst (snd x)), snd (snd x))) as) t')
      = map (?out rx') [0..<length as]"
    using Cons.IH [OF knows_same [OF Cons.prems(1) t'(1)] t'(2,3)] Cons.prems(4,5) t'(5) by simp
  also have "\<dots> = map (\<lambda>l. if \<not> openable rx (fst ((x # as) ! Suc l)) \<or> fst ((x # as) ! Suc l) \<in> fst ` set (take (Suc l) (x # as)) then None
      else Some \<lparr>rv_from = id_pub i, rv_pt = fst (snd ((x # as) ! Suc l))\<rparr>) [0..<length as]"
    unfolding t'(4) by (auto simp: fun_upd_def)
  finally show ?case using g m up by (simp add: split_beta comp_def del: upt_Suc)
qed simp

end
