(* ===== verification/GroupManager.thy ===== *)
theory GroupManager
  imports GroupFacts
begin

section \<open>All of my groups (lib/group.ts, the class GroupManager)\<close>

text \<open>
  The groups an identity is in, by group id, and the distributions that establish and move
  them. \<open>admit\<close> opens an epoch; \<open>applySkd\<close> takes a distribution from a 1:1 session and lets
  only the holder of the group key open one; \<open>rekey\<close>, \<open>deleteGroup\<close> and \<open>skdFor\<close> are the
  admin's side, \<open>snap\<close> and \<open>restore\<close> the persistence. Random material (a new secret, the seed
  of a sending chain) is an argument of the operation that draws it. The memo of roster keys
  caches a pure function and is left out, as are the device markers (\<open>gmarker.ts\<close>).
\<close>

record admin_gk =
  ag_derive :: "bytes \<Rightarrow> jstr \<Rightarrow> bytes \<Rightarrow> bytes" \<comment> \<open>label, peer, context\<close>
  ag_kid :: "jstr option"
  ag_priv :: "bytes option"

record grec =
  gr_session :: gsession
  gr_gkPub :: bytes
  gr_secret :: bytes
  gr_roster :: "member list"
  gr_epoch :: nat
  gr_gk :: "admin_gk option"
  gr_memberGkKid :: "jstr option"

record manager =
  gm_recs :: "(bytes, grec) jmap"
  gm_labels :: "(bytes, jstr) jmap"

record skd_fields =
  sk_gid :: jstr
  sk_gkPub :: jstr
  sk_epoch :: nat
  sk_secret :: jstr
  sk_chain :: jstr
  sk_ctr :: "nat option"
  sk_roster :: "jstr list"
  sk_rmac :: "jstr option"

datatype skd_outcome = Joined | Rekeyed | SenderKeyTaken | Refused | Stale

definition no_groups :: manager where
  "no_groups = \<lparr>gm_recs = [], gm_labels = []\<rparr>"

definition rosterKeyFor :: "admin_gk \<Rightarrow> jstr \<Rightarrow> bytes \<Rightarrow> nat \<Rightarrow> bytes" where
  "rosterKeyFor gk memberPub gid epoch = ag_derive gk ROSTER_MAC_LABEL memberPub (macCtx gid epoch)"

definition session :: "manager \<Rightarrow> bytes \<Rightarrow> gsession option" where
  "session g gid = map_option gr_session (jm_get (gm_recs g) gid)"

definition groups :: "manager \<Rightarrow> bytes list" where
  "groups g = jm_keys (gm_recs g)"

definition has_group :: "manager \<Rightarrow> bytes \<Rightarrow> bool" where
  "has_group g gid = jm_has (gm_recs g) gid"

definition roster :: "manager \<Rightarrow> bytes \<Rightarrow> jstr list" where
  "roster g gid = (case jm_get (gm_recs g) gid of None \<Rightarrow> [] | Some r \<Rightarrow> map mb_pub (gr_roster r))"

definition isMember :: "manager \<Rightarrow> bytes \<Rightarrow> jstr \<Rightarrow> bool" where
  "isMember g gid pub = (case jm_get (gm_recs g) gid of None \<Rightarrow> False
     | Some r \<Rightarrow> list_ex (\<lambda>m. mb_pub m = pub) (gr_roster r))"

definition put_rec :: "bytes \<Rightarrow> grec \<Rightarrow> manager \<Rightarrow> manager" where
  "put_rec gid r g = g\<lparr>gm_recs := jm_set gid r (gm_recs g)\<rparr>"

text \<open>\<open>admit\<close>: an epoch no newer than the held one changes nothing.\<close>

definition admit ::
  "genv \<Rightarrow> ident \<Rightarrow> bytes \<Rightarrow> bytes \<Rightarrow> bytes \<Rightarrow> nat \<Rightarrow> bytes \<Rightarrow> member list \<Rightarrow> admin_gk option \<Rightarrow> manager
    \<Rightarrow> group_error + (gsession \<times> manager)" where
  "admit E i fresh gid gkPub epoch secret ms gk g =
     (let cur = jm_get (gm_recs g) gid in
      case cur of
        Some r \<Rightarrow>
          if gr_epoch r \<ge> epoch then Inr (gr_session r, g)
          else then_ok (create_session E i fresh gid epoch secret ms) (\<lambda>s.
            Inr (s, put_rec gid \<lparr>gr_session = s, gr_gkPub = gkPub, gr_secret = secret, gr_roster = ms, gr_epoch = epoch,
              gr_gk = (case gk of Some k \<Rightarrow> Some k | None \<Rightarrow> gr_gk r), gr_memberGkKid = gr_memberGkKid r\<rparr> g))
      | None \<Rightarrow>
          then_ok (create_session E i fresh gid epoch secret ms) (\<lambda>s.
            Inr (s, put_rec gid \<lparr>gr_session = s, gr_gkPub = gkPub, gr_secret = secret, gr_roster = ms, gr_epoch = epoch,
              gr_gk = gk, gr_memberGkKid = None\<rparr> g)))"

definition createGroup ::
  "genv \<Rightarrow> ident \<Rightarrow> bytes \<Rightarrow> bytes \<Rightarrow> bytes \<Rightarrow> member list \<Rightarrow> admin_gk option \<Rightarrow> manager \<Rightarrow> group_error + (bytes \<times> manager)" where
  "createGroup E i fresh secret gkPub ms gk g =
     (let gid = groupIdFromGK (ge_C E) gkPub in
      then_ok (admit E i fresh gid gkPub 0 secret ms gk g) (\<lambda>(s, g'). Inr (gid, g')))"

definition dropGroup :: "bytes \<Rightarrow> manager \<Rightarrow> manager" where
  "dropGroup gid g =
     (case jm_get (gm_recs g) gid of
        None \<Rightarrow> g
      | Some _ \<Rightarrow> g\<lparr>gm_recs := jm_del gid (gm_recs g), gm_labels := jm_del gid (gm_labels g)\<rparr>)"

text \<open>The session of a record replaced after an operation on it: the record holds it by reference.\<close>

definition put_session :: "bytes \<Rightarrow> gsession \<Rightarrow> manager \<Rightarrow> manager" where
  "put_session gid s g = (case jm_get (gm_recs g) gid of
     None \<Rightarrow> g | Some r \<Rightarrow> put_rec gid (r\<lparr>gr_session := s\<rparr>) g)"

definition seed_sender ::
  "genv \<Rightarrow> ident \<Rightarrow> int \<Rightarrow> jstr \<Rightarrow> skd_fields \<Rightarrow> bytes \<Rightarrow> gsession \<Rightarrow> manager
    \<Rightarrow> group_error + (received list \<times> manager)" where
  "seed_sender E i now from skd gid s g =
     then_ok (from_option BadBase64 (ge_unb64 E (sk_chain skd))) (\<lambda>chain.
       (case setSenderKey E i now from chain (case sk_ctr skd of None \<Rightarrow> 0 | Some c \<Rightarrow> c) s of
          (opened, s') \<Rightarrow> Inr (opened, put_session gid s' g)))"

text \<open>What an advancing distribution must show, in the order the code looks.\<close>

definition check_advance :: "genv \<Rightarrow> ident \<Rightarrow> jstr \<Rightarrow> skd_fields \<Rightarrow> bytes \<Rightarrow> grec option \<Rightarrow> group_error + unit" where
  "check_advance E i from skd gid cur =
     then_ok (from_option BadBase64 (ge_unb64 E (sk_gkPub skd))) (\<lambda>gk.
     then_ok (check (gid = groupIdFromGK (ge_C E) gk) GidMismatch) (\<lambda>_.
     then_ok (from_option NoRosterMac (sk_rmac skd)) (\<lambda>rmac.
     then_ok (check (rmac \<noteq> []) NoRosterMac) (\<lambda>_.
     let rk = rosterMacKeyFor i (sk_gkPub skd) gid (sk_epoch skd) in
     then_ok (from_option BadBase64 (ge_unb64 E rmac)) (\<lambda>m.
     then_ok (check (verifyRosterMac (ge_C E) rk (sk_roster skd) m) RosterMacInvalid) (\<lambda>_.
     then_ok (check (sk_roster skd \<noteq> [] \<and> hd (sk_roster skd) = from) AdminNotSender) (\<lambda>_.
       check (case cur of None \<Rightarrow> True
         | Some r \<Rightarrow> (case gr_roster r of [] \<Rightarrow> False | a # _ \<Rightarrow> mb_pub a = hd (sk_roster skd))) AdminChanged)))))))"

text \<open>\<open>applySkd\<close>: the outcome, what the new key released, and the manager. An error leaves the manager as it was, except that a bad chain is found after the epoch is open.\<close>

definition applySkd ::
  "genv \<Rightarrow> ident \<Rightarrow> bytes \<Rightarrow> int \<Rightarrow> jstr \<Rightarrow> skd_fields \<Rightarrow> manager
    \<Rightarrow> (group_error + (skd_outcome \<times> received list)) \<times> manager" where
  "applySkd E i fresh now from skd g =
     (case ge_unb64 E (sk_gid skd) of
        None \<Rightarrow> (Inl BadBase64, g)
      | Some gid \<Rightarrow>
          let cur = jm_get (gm_recs g) gid in
          if (case cur of None \<Rightarrow> True | Some r \<Rightarrow> sk_epoch skd > gr_epoch r)
          then (case then_ok (check_advance E i from skd gid cur) (\<lambda>_.
                  then_ok (from_option BadBase64 (ge_unb64 E (sk_gkPub skd))) (\<lambda>gk.
                  then_ok (from_option BadBase64 (ge_unb64 E (sk_secret skd))) (\<lambda>secret.
                    admit E i fresh gid gk (sk_epoch skd) secret
                      (map (\<lambda>p. \<lparr>mb_pub = p, mb_kid = None\<rparr>) (sk_roster skd)) None g))) of
              Inl e \<Rightarrow> (Inl e, g)
            | Inr (s, g') \<Rightarrow> (case seed_sender E i now from skd gid s g' of
                Inl e \<Rightarrow> (Inl e, g')
              | Inr (opened, g'') \<Rightarrow> (Inr (if cur = None then Joined else Rekeyed, opened), g'')))
          else case cur of
            None \<Rightarrow> (Inr (Stale, []), g)
          | Some r \<Rightarrow>
              if sk_epoch skd < gr_epoch r then (Inr (Stale, []), g)
              else if \<not> list_ex (\<lambda>m. mb_pub m = from) (gr_roster r) then (Inr (Refused, []), g)
              else (case seed_sender E i now from skd gid (gr_session r) g of
                Inl e \<Rightarrow> (Inl e, g)
              | Inr (opened, g'') \<Rightarrow> (Inr (SenderKeyTaken, opened), g'')))"

definition rekey :: "genv \<Rightarrow> ident \<Rightarrow> bytes \<Rightarrow> bytes \<Rightarrow> bytes \<Rightarrow> member list \<Rightarrow> manager \<Rightarrow> group_error + manager" where
  "rekey E i fresh secret gid newRoster g =
     (case jm_get (gm_recs g) gid of
        None \<Rightarrow> Inr g
      | Some r \<Rightarrow> then_ok (admit E i fresh (gs_gid (gr_session r)) (gr_gkPub r) (gr_epoch r + 1) secret newRoster None g)
          (\<lambda>(s, g'). Inr g'))"

definition skdFor :: "genv \<Rightarrow> bytes \<Rightarrow> jstr option \<Rightarrow> manager \<Rightarrow> skd_fields option" where
  "skdFor E gid forPub g =
     (case jm_get (gm_recs g) gid of
        None \<Rightarrow> None
      | Some r \<Rightarrow>
          if (case forPub of None \<Rightarrow> False | Some p \<Rightarrow> p \<noteq> [] \<and> \<not> list_ex (\<lambda>m. mb_pub m = p) (gr_roster r)) then None
          else let s = gr_session r; ros = map mb_pub (gr_roster r) in
            Some \<lparr>sk_gid = ge_b64 E (gs_gid s), sk_gkPub = ge_b64 E (gr_gkPub r), sk_epoch = gr_epoch r,
              sk_secret = ge_b64 E (gr_secret r), sk_chain = ge_b64 E (sc_key (gs_send s)), sk_ctr = Some (sc_n (gs_send s)),
              sk_roster = ros,
              sk_rmac = (case (gr_gk r, forPub) of
                (Some gk, Some p) \<Rightarrow> if p = [] then None
                  else Some (ge_b64 E (rosterMac (ge_C E) (rosterKeyFor gk p (gs_gid s) (gr_epoch r)) ros))
              | _ \<Rightarrow> None)\<rparr>)"

text \<open>\<open>deleteGroup\<close>: the admin locks the members out first; the key the backend is asked to destroy is the last component.\<close>

definition deleteGroup ::
  "genv \<Rightarrow> ident \<Rightarrow> bytes \<Rightarrow> bytes \<Rightarrow> bytes \<Rightarrow> manager \<Rightarrow> group_error + (manager \<times> jstr option)" where
  "deleteGroup E i fresh secret gid g =
     (case jm_get (gm_recs g) gid of
        None \<Rightarrow> Inr (g, None)
      | Some r \<Rightarrow> then_ok (case gr_gk r of
            None \<Rightarrow> Inr (g, None)
          | Some gk \<Rightarrow> then_ok (rekey E i fresh secret gid [\<lparr>mb_pub = id_pub i, mb_kid = None\<rparr>] g) (\<lambda>g'. Inr (g', ag_kid gk)))
          (\<lambda>(g', kid). Inr (g'\<lparr>gm_recs := jm_del gid (gm_recs g'), gm_labels := jm_del gid (gm_labels g')\<rparr>, kid)))"

subsection \<open>Persistence\<close>

record group_snapshot =
  sn_gid :: jstr
  sn_gkPub :: jstr
  sn_epoch :: nat
  sn_secret :: jstr
  sn_roster :: "member list"
  sn_gkKid :: "jstr option"
  sn_memberGkKid :: "jstr option"
  sn_gkPriv :: "jstr option"
  sn_send :: "jstr \<times> nat"
  sn_receivers :: "(jstr \<times> jstr \<times> nat) list"

definition snap_rec :: "genv \<Rightarrow> grec \<Rightarrow> group_snapshot" where
  "snap_rec E r = (let c = exportChains (gr_session r) in
     \<lparr>sn_gid = ge_b64 E (gs_gid (gr_session r)), sn_gkPub = ge_b64 E (gr_gkPub r), sn_epoch = gr_epoch r,
      sn_secret = ge_b64 E (gr_secret r), sn_roster = gr_roster r,
      sn_gkKid = Option.bind (gr_gk r) ag_kid, sn_memberGkKid = gr_memberGkKid r,
      sn_gkPriv = map_option (ge_b64 E) (Option.bind (gr_gk r) ag_priv),
      sn_send = (ge_b64 E (sc_key (ce_send c)), sc_n (ce_send c)),
      sn_receivers = map (\<lambda>(pub, key, n). (pub, ge_b64 E key, n)) (ce_receivers c)\<rparr>)"

definition snap :: "genv \<Rightarrow> manager \<Rightarrow> group_snapshot list" where
  "snap E g = map (\<lambda>(gid, r). snap_rec E r) (gm_recs g)"

text \<open>\<open>from_kid\<close> and \<open>from_priv\<close> rebuild the admin's capability (\<open>gkBackend?.fromKid\<close>, \<open>softwareGkFromPriv\<close>).\<close>

record gk_source =
  gb_fromKid :: "jstr \<Rightarrow> admin_gk option"
  gb_fromPriv :: "bytes \<Rightarrow> admin_gk"

definition restored_gk :: "genv \<Rightarrow> gk_source \<Rightarrow> group_snapshot \<Rightarrow> group_error + admin_gk option" where
  "restored_gk E B sn =
     (case sn_gkKid sn of
        Some kid \<Rightarrow> Inr (gb_fromKid B kid)
      | None \<Rightarrow> (case sn_gkPriv sn of
          None \<Rightarrow> Inr None
        | Some p \<Rightarrow> then_ok (from_option BadBase64 (ge_unb64 E p)) (\<lambda>b. Inr (Some (gb_fromPriv B b)))))"

fun unb64_receivers :: "genv \<Rightarrow> (jstr \<times> jstr \<times> nat) list \<Rightarrow> group_error + (jstr \<times> bytes \<times> nat) list" where
  "unb64_receivers E [] = Inr []"
| "unb64_receivers E ((pub, key, n) # rs) =
     then_ok (from_option BadBase64 (ge_unb64 E key)) (\<lambda>b. then_ok (unb64_receivers E rs) (\<lambda>xs. Inr ((pub, b, n) # xs)))"

definition restore_one :: "genv \<Rightarrow> ident \<Rightarrow> gk_source \<Rightarrow> bytes \<Rightarrow> group_snapshot \<Rightarrow> manager \<Rightarrow> group_error + (bytes \<times> manager)" where
  "restore_one E i B fresh sn g =
     then_ok (from_option BadBase64 (ge_unb64 E (sn_gid sn))) (\<lambda>gid.
     then_ok (restored_gk E B sn) (\<lambda>gk.
     then_ok (from_option BadBase64 (ge_unb64 E (sn_gkPub sn))) (\<lambda>gkPub.
     then_ok (from_option BadBase64 (ge_unb64 E (sn_secret sn))) (\<lambda>secret.
     then_ok (admit E i fresh gid gkPub (sn_epoch sn) secret (sn_roster sn) gk g) (\<lambda>(s, g1).
     then_ok (from_option BadBase64 (ge_unb64 E (fst (sn_send sn)))) (\<lambda>key.
     then_ok (unb64_receivers E (sn_receivers sn)) (\<lambda>rs.
     let g2 = (case sn_memberGkKid sn of
            None \<Rightarrow> g1
          | Some kid \<Rightarrow> (case jm_get (gm_recs g1) gid of None \<Rightarrow> g1 | Some r \<Rightarrow> put_rec gid (r\<lparr>gr_memberGkKid := Some kid\<rparr>) g1));
         s' = importChains \<lparr>ce_send = \<lparr>sc_key = key, sc_n = snd (sn_send sn)\<rparr>, ce_receivers = rs\<rparr> s
     in Inr (gid, put_session gid s' g2))))))))"

fun restore :: "genv \<Rightarrow> ident \<Rightarrow> gk_source \<Rightarrow> bytes \<Rightarrow> group_snapshot list \<Rightarrow> manager \<Rightarrow> group_error + (bytes list \<times> manager)" where
  "restore E i B fresh [] g = Inr ([], g)"
| "restore E i B fresh (sn # sns) g =
     then_ok (restore_one E i B fresh sn g) (\<lambda>(gid, g1).
     then_ok (restore E i B fresh sns g1) (\<lambda>(gids, g2). Inr (gid # gids, g2)))"

end
