(* ===== verification/GroupAuthority.thy ===== *)
theory GroupAuthority
  imports GroupManager
begin

section \<open>Who may move a group, and what a distribution establishes\<close>

text \<open>
  The view of a group (its epoch, roster and secret) changes under \<open>applySkd\<close> only by an
  advance whose roster MAC verifies under the group key named by the group id, sent by the
  roster's first member, the same as before. What the admin hands a member the member takes,
  and from then on the two sessions know each other.
\<close>

subsection \<open>Sessions as they are created\<close>

lemma index_members_distinct:
  assumes "index_members E ms ids byId = Inr (ids', byId')"
    and "distinct (map mb_pub ms)" and "\<forall>m \<in> set ms. jm_get ids (mb_pub m) = None"
  shows "(\<forall>m \<in> set ms. \<exists>sid. senderIdOf E (mb_pub m) = Inr sid \<and> jm_get ids' (mb_pub m) = Some sid)
     \<and> (\<forall>p. p \<notin> mb_pub ` set ms \<longrightarrow> jm_get ids' p = jm_get ids p)"
  using assms
proof (induction ms arbitrary: ids byId)
  case (Cons m ms)
  then obtain sid where sid: "senderIdOf E (mb_pub m) = Inr sid"
    and rec: "index_members E ms (jm_set (mb_pub m) sid ids) (jm_set sid m byId) = Inr (ids', byId')"
    by (auto simp: ok_simps)
  have nin: "mb_pub m \<notin> mb_pub ` set ms" using Cons.prems(2) by simp
  have "\<forall>x \<in> set ms. jm_get (jm_set (mb_pub m) sid ids) (mb_pub x) = None"
    using Cons.prems(3) nin by (auto simp: jm_get_set image_iff)
  then have ih: "(\<forall>x \<in> set ms. \<exists>sid. senderIdOf E (mb_pub x) = Inr sid \<and> jm_get ids' (mb_pub x) = Some sid)
     \<and> (\<forall>p. p \<notin> mb_pub ` set ms \<longrightarrow> jm_get ids' p = jm_get (jm_set (mb_pub m) sid ids) p)"
    using Cons.IH [OF rec] Cons.prems(2) by simp
  then have "jm_get ids' (mb_pub m) = Some sid" using nin by simp
  then show ?case using ih sid by (auto simp: jm_get_set)
qed auto

lemma index_members_byId:
  assumes "index_members E ms ids byId = Inr (ids', byId')"
    and "distinct (map mb_pub ms)" and "\<forall>m \<in> set ms. jm_get ids (mb_pub m) = None"
    and "\<forall>m \<in> set ms. \<forall>x \<in> set ms. senderIdOf E (mb_pub m) = senderIdOf E (mb_pub x) \<longrightarrow> mb_pub m = mb_pub x"
  shows "(\<forall>m \<in> set ms. \<forall>sid. senderIdOf E (mb_pub m) = Inr sid \<longrightarrow> jm_get byId' sid = Some m)
     \<and> (\<forall>sid. (\<forall>m \<in> set ms. senderIdOf E (mb_pub m) \<noteq> Inr sid) \<longrightarrow> jm_get byId' sid = jm_get byId sid)"
  using assms
proof (induction ms arbitrary: ids byId)
  case (Cons m ms)
  then obtain sid where sid: "senderIdOf E (mb_pub m) = Inr sid"
    and rec: "index_members E ms (jm_set (mb_pub m) sid ids) (jm_set sid m byId) = Inr (ids', byId')"
    by (auto simp: ok_simps)
  have nin: "mb_pub m \<notin> mb_pub ` set ms" using Cons.prems(2) by simp
  have d: "\<forall>x \<in> set ms. jm_get (jm_set (mb_pub m) sid ids) (mb_pub x) = None"
    using Cons.prems(3) nin by (auto simp: jm_get_set image_iff)
  have ih: "(\<forall>x \<in> set ms. \<forall>sid. senderIdOf E (mb_pub x) = Inr sid \<longrightarrow> jm_get byId' sid = Some x)"
    "(\<forall>s. (\<forall>x \<in> set ms. senderIdOf E (mb_pub x) \<noteq> Inr s) \<longrightarrow> jm_get byId' s = jm_get (jm_set sid m byId) s)"
    using Cons.IH [OF rec _ d] Cons.prems(2,4) by simp_all
  have ns: "\<forall>x \<in> set ms. senderIdOf E (mb_pub x) \<noteq> Inr sid"
    using Cons.prems(4) nin sid by (auto simp: image_iff)
  have "jm_get byId' sid = Some m" using ih(2) ns by simp
  moreover have "jm_get byId' s = jm_get byId s" if "\<forall>x \<in> set (m # ms). senderIdOf E (mb_pub x) \<noteq> Inr s" for s
    using ih(2) that sid by (auto simp: jm_get_set)
  ultimately show ?case using ih(1) sid by auto
qed auto

text \<open>A roster whose keys decode to ids that tell the members apart.\<close>

definition roster_ok :: "genv \<Rightarrow> jstr list \<Rightarrow> bool" where
  "roster_ok E ps \<longleftrightarrow> distinct ps \<and> length ps \<le> 256
     \<and> (\<forall>p \<in> set ps. is_ok (senderIdOf E p))
     \<and> (\<forall>p \<in> set ps. \<forall>q \<in> set ps. senderIdOf E p = senderIdOf E q \<longrightarrow> p = q)"

lemma create_session_fields:
  assumes "create_session E i fresh gid epoch secret ms = Inr s"
  shows "gs_gid s = gid" "gs_epoch s = epoch" "gs_secret s = secret" "gs_members s = ms"
    "gs_send s = sendChainFrom fresh" "gs_receivers s = []" "gs_held s = []"
    "senderIdOf E (id_pub i) = Inr (gs_mySenderId s)"
    "index_members E ms [] [] = Inr (gs_senderIds s, gs_byId s)"
  using assms by (auto simp: create_session_def setMembers_def ok_simps)

lemma index_members_ok:
  "\<forall>m \<in> set ms. is_ok (senderIdOf E (mb_pub m)) \<Longrightarrow> is_ok (index_members E ms ids byId)"
proof (induction ms arbitrary: ids byId)
  case (Cons m ms)
  then obtain sid where "senderIdOf E (mb_pub m) = Inr sid" by (auto simp: ok_simps)
  with Cons show ?case by (simp split: option.split)
qed simp

lemma create_session_ok:
  assumes "roster_ok E (map mb_pub ms)" and "is_ok (senderIdOf E (id_pub i))"
  shows "\<exists>s. create_session E i fresh gid epoch secret ms = Inr s"
proof -
  from assms(2) obtain me where "senderIdOf E (id_pub i) = Inr me" by (auto simp: ok_simps)
  moreover from assms(1) have "is_ok (index_members E ms [] [])" by (intro index_members_ok) (simp add: roster_ok_def)
  then obtain x where "index_members E ms [] [] = Inr x" by (auto simp: ok_simps)
  ultimately show ?thesis by (cases x) (simp add: create_session_def setMembers_def)
qed

lemma senderIdOf_length: "crypto_lengths (ge_C E) \<Longrightarrow> senderIdOf E p = Inr sid \<Longrightarrow> length sid = 8"
  by (auto simp: senderIdOf_def ok_simps crypto_lengthsD)

text \<open>Two fresh sessions of one group know each other.\<close>

definition mac_agree :: "ident \<Rightarrow> ident \<Rightarrow> bool" where
  "mac_agree i j \<longleftrightarrow> (\<forall>ctx k k'. id_derive i MSG_MAC_LABEL (id_pub j) ctx k = id_derive j MSG_MAC_LABEL (id_pub i) ctx k')"

lemma sessions_know:
  assumes s: "create_session E i fi gid epoch secret ms = Inr s" and t: "create_session E j fj gid epoch secret ns = Inr t"
    and r: "roster_ok E (map mb_pub ms)" "map mb_pub ns = map mb_pub ms"
    and ij: "id_pub i \<in> set (map mb_pub ms)" "id_pub j \<in> set (map mb_pub ms)" "id_pub i \<noteq> id_pub j"
    and len: "crypto_lengths (ge_C E)" and g: "length gid = 16" "epoch < 2 ^ 32" and a: "mac_agree i j"
  shows "\<exists>mi mj. knows E i s mi j t mj"
proof -
  note sf = create_session_fields [OF s] and tf = create_session_fields [OF t]
  have d: "distinct (map mb_pub ms)" "distinct (map mb_pub ns)" using r by (simp_all add: roster_ok_def)
  have inj: "\<forall>m \<in> set ns. \<forall>x \<in> set ns. senderIdOf E (mb_pub m) = senderIdOf E (mb_pub x) \<longrightarrow> mb_pub m = mb_pub x"
    using r(1) unfolding roster_ok_def r(2) [symmetric] by auto
  obtain mj where mj: "mj \<in> set ms" "mb_pub mj = id_pub j" using ij(2) by auto
  obtain mi' where mi_ms: "mi' \<in> set ms" "mb_pub mi' = id_pub i" using ij(1) by auto
  obtain mi where mi: "mi \<in> set ns" "mb_pub mi = id_pub i" using ij(1) unfolding r(2) [symmetric] by auto
  have ids: "\<exists>sid. senderIdOf E (mb_pub m) = Inr sid \<and> jm_get (gs_senderIds s) (mb_pub m) = Some sid" if "m \<in> set ms" for m
    using index_members_distinct [OF sf(9) d(1)] that by simp
  then have so: "senderIdOf E (mb_pub m) = Inr (sid_of s m)" if "m \<in> set ms" for m
    using that by (fastforce simp: sid_of_def)
  have byid: "jm_get (gs_byId t) (gs_mySenderId s) = Some mi"
    using index_members_byId [OF tf(9) d(2) _ inj] mi sf(8) by auto
  have os: "set (others i s) \<subseteq> set ms" by (auto simp: others_def sf(4))
  have l: "length (others i s) \<le> 255"
  proof -
    have "length (filter (\<lambda>m. mb_pub m \<noteq> id_pub i) ms) < length ms"
      using mi_ms by (intro length_filter_less [of "mi'"]) auto
    then show ?thesis using r(1) by (simp add: others_def sf(4) roster_ok_def)
  qed
  have dist: "distinct (map (sid_of s) (others i s))"
  proof -
    have "inj_on (sid_of s) (set ms)"
    proof (rule inj_onI)
      fix x y assume xy: "x \<in> set ms" "y \<in> set ms" "sid_of s x = sid_of s y"
      then have "mb_pub x = mb_pub y" using so [of x] so [of y] r(1) by (auto simp: roster_ok_def)
      then show "x = y" using xy d(1) by (auto simp: distinct_map inj_on_def)
    qed
    moreover have "distinct ms" using d(1) by (simp add: distinct_map)
    ultimately show ?thesis using os by (simp add: distinct_map others_def sf(4) inj_on_subset)
  qed
  have mk: "macKeyFor i s (id_pub j) = macKeyFor j t (id_pub i)"
    using a by (simp add: macKeyFor_def msgMacKeyFor_def sf(1,2) tf(1,2) mac_agree_def)
  have "gs_mySenderId t = sid_of s mj" using tf(8) so [OF mj(1)] mj(2) by simp
  then have "knows E i s mi j t mj"
    unfolding knows_def using mi mj ij(3) g sf(1,2,8) l dist mk byid so
      by (auto simp: others_def sf(4) intro: senderIdOf_length [OF len])
  then show ?thesis by blast
qed

subsection \<open>The view of a group\<close>

definition view :: "manager \<Rightarrow> bytes \<Rightarrow> (nat \<times> member list \<times> bytes) option" where
  "view g gid = map_option (\<lambda>r. (gr_epoch r, gr_roster r, gr_secret r)) (jm_get (gm_recs g) gid)"

lemma put_rec_get: "jm_get (gm_recs (put_rec gid r g)) x = (if x = gid then Some r else jm_get (gm_recs g) x)"
  by (simp add: put_rec_def jm_get_set)

lemma view_put_rec: "view (put_rec gid r g) x = (if x = gid then Some (gr_epoch r, gr_roster r, gr_secret r) else view g x)"
  by (simp add: view_def put_rec_get)

lemma view_put_session [simp]: "view (put_session gid s g) = view g"
  by (rule ext) (auto simp: view_def put_session_def put_rec_get split: option.split)

lemma seed_sender_view: "seed_sender E i now from skd gid s g = Inr (opened, g') \<Longrightarrow> view g' = view g"
  by (auto simp: seed_sender_def ok_simps split_beta)

lemma admit_view:
  assumes "admit E i fresh gid gkPub epoch secret ms gk g = Inr (s, g')"
  shows "view g' x = (if x = gid \<and> (\<forall>v. view g gid = Some v \<longrightarrow> fst v < epoch) then Some (epoch, ms, secret) else view g x)"
  using assms by (auto simp: admit_def Let_def ok_simps view_put_rec split: option.splits if_splits) (auto simp: view_def)

lemma check_advance_ok:
  "check_advance E i from skd gid cur = Inr u \<longleftrightarrow>
     (\<exists>gk rmac m. ge_unb64 E (sk_gkPub skd) = Some gk \<and> gid = groupIdFromGK (ge_C E) gk
        \<and> sk_rmac skd = Some rmac \<and> rmac \<noteq> [] \<and> ge_unb64 E rmac = Some m
        \<and> m = c_hmac (ge_C E) (rosterMacKeyFor i (sk_gkPub skd) gid (sk_epoch skd)) (rosterBytes (sk_roster skd))
        \<and> sk_roster skd \<noteq> [] \<and> hd (sk_roster skd) = from
        \<and> (case cur of None \<Rightarrow> True | Some r \<Rightarrow> (case gr_roster r of [] \<Rightarrow> False | a # _ \<Rightarrow> mb_pub a = from)))"
  by (auto simp: check_advance_def ok_simps Let_def verifyRosterMac_def split: option.splits list.splits)

text \<open>What an advance of group \<open>gid\<close> by a distribution means.\<close>

definition attested :: "genv \<Rightarrow> ident \<Rightarrow> jstr \<Rightarrow> skd_fields \<Rightarrow> bytes \<Rightarrow> bool" where
  "attested E i from skd gid \<longleftrightarrow> (\<exists>gk rmac. ge_unb64 E (sk_gkPub skd) = Some gk \<and> groupIdFromGK (ge_C E) gk = gid
     \<and> sk_rmac skd = Some rmac
     \<and> ge_unb64 E rmac = Some (c_hmac (ge_C E) (rosterMacKeyFor i (sk_gkPub skd) gid (sk_epoch skd)) (rosterBytes (sk_roster skd)))
     \<and> sk_roster skd \<noteq> [] \<and> hd (sk_roster skd) = from)"

definition first_pub :: "nat \<times> member list \<times> bytes \<Rightarrow> jstr option" where
  "first_pub v = (case fst (snd v) of [] \<Rightarrow> None | m # _ \<Rightarrow> Some (mb_pub m))"

lemma applySkd_view:
  assumes "applySkd E i fresh now from skd g = (res, g')" and "view g' gid \<noteq> view g gid"
  shows "ge_unb64 E (sk_gid skd) = Some gid \<and> attested E i from skd gid
     \<and> (\<forall>v. view g gid = Some v \<longrightarrow> fst v < sk_epoch skd \<and> first_pub v = Some from)
     \<and> (\<exists>secret. ge_unb64 E (sk_secret skd) = Some secret
          \<and> view g' gid = Some (sk_epoch skd, map (\<lambda>p. \<lparr>mb_pub = p, mb_kid = None\<rparr>) (sk_roster skd), secret))"
proof -
  obtain gid' where gid': "ge_unb64 E (sk_gid skd) = Some gid'"
    using assms by (cases "ge_unb64 E (sk_gid skd)") (auto simp: applySkd_def)
  let ?cur = "jm_get (gm_recs g) gid'"
  let ?ms = "map (\<lambda>p. \<lparr>mb_pub = p, mb_kid = None\<rparr>) (sk_roster skd)"
  show ?thesis
  proof (cases "case ?cur of None \<Rightarrow> True | Some r \<Rightarrow> sk_epoch skd > gr_epoch r")
    case False
    then obtain r where "?cur = Some r" by (auto split: option.splits)
    then show ?thesis using assms gid' False
      by (auto simp: applySkd_def dest!: seed_sender_view split: if_splits sum.splits)
  next
    case True
    from assms gid' True obtain gk secret s g1 where
      c: "check_advance E i from skd gid' ?cur = Inr ()" and k: "ge_unb64 E (sk_gkPub skd) = Some gk"
      and sec: "ge_unb64 E (sk_secret skd) = Some secret"
      and a: "admit E i fresh gid' gk (sk_epoch skd) secret ?ms None g = Inr (s, g1)"
      and v: "view g' = view g1"
      by (auto simp: applySkd_def ok_simps Let_def dest!: seed_sender_view split: if_splits sum.splits prod.splits)
    have ch: "gid = gid'" "\<forall>v. view g gid' = Some v \<longrightarrow> fst v < sk_epoch skd" "view g' gid' = Some (sk_epoch skd, ?ms, secret)"
      using assms(2) admit_view [OF a, of gid] admit_view [OF a, of gid'] v by (auto split: if_splits)
    have "attested E i from skd gid'" using c unfolding check_advance_ok attested_def by blast
    moreover have "first_pub w = Some from" if "view g gid' = Some w" for w
      using that c unfolding check_advance_ok by (auto simp: view_def first_pub_def split: option.splits list.splits)
    ultimately show ?thesis using ch gid' sec by simp
  qed
qed

text \<open>A group somebody leads stays with them, and its epoch never goes back, whatever distributions arrive.\<close>

record skd_arrival =
  sa_fresh :: bytes
  sa_now :: int
  sa_from :: jstr
  sa_skd :: skd_fields

definition skd_step :: "genv \<Rightarrow> ident \<Rightarrow> manager \<Rightarrow> skd_arrival \<Rightarrow> manager" where
  "skd_step E i g a = snd (applySkd E i (sa_fresh a) (sa_now a) (sa_from a) (sa_skd a) g)"

definition led_by :: "bytes \<Rightarrow> jstr \<Rightarrow> nat \<Rightarrow> manager \<Rightarrow> bool" where
  "led_by gid admin e g \<longleftrightarrow> (\<exists>v. view g gid = Some v \<and> first_pub v = Some admin \<and> e \<le> fst v)"

lemma skd_step_led:
  assumes "led_by gid admin e g"
  shows "led_by gid admin e (skd_step E i g a)"
proof (cases "view (skd_step E i g a) gid = view g gid")
  case False
  obtain res g' where r: "applySkd E i (sa_fresh a) (sa_now a) (sa_from a) (sa_skd a) g = (res, g')" by force
  have g': "skd_step E i g a = g'" using r by (simp add: skd_step_def)
  from assms obtain v where v: "view g gid = Some v" "first_pub v = Some admin" "e \<le> fst v" by (auto simp: led_by_def)
  have "view g' gid \<noteq> view g gid" using False g' by simp
  from applySkd_view [OF r this] v(1) obtain secret where
    n: "attested E i (sa_from a) (sa_skd a) gid" "fst v < sk_epoch (sa_skd a)" "first_pub v = Some (sa_from a)"
      "view g' gid = Some (sk_epoch (sa_skd a), map (\<lambda>p. \<lparr>mb_pub = p, mb_kid = None\<rparr>) (sk_roster (sa_skd a)), secret)"
    by blast
  have "first_pub (sk_epoch (sa_skd a), map (\<lambda>p. \<lparr>mb_pub = p, mb_kid = None\<rparr>) (sk_roster (sa_skd a)), secret) = Some admin"
    using n(1,3) v(2) by (cases "sk_roster (sa_skd a)") (auto simp: attested_def first_pub_def)
  then show ?thesis using n(2,4) v(3) g' unfolding led_by_def by (intro exI) auto
qed (use assms in \<open>simp add: led_by_def\<close>)

interpretation leads: machine "skd_step E i" "led_by gid admin e"
  by unfold_locales (rule skd_step_led)

subsection \<open>The admin's distribution is taken\<close>

text \<open>The law of the DH behind both sides' roster key, and of base64.\<close>

definition gk_agree :: "genv \<Rightarrow> admin_gk \<Rightarrow> bytes \<Rightarrow> ident \<Rightarrow> bool" where
  "gk_agree E gk gkPub j \<longleftrightarrow>
     (\<forall>ctx. ag_derive gk ROSTER_MAC_LABEL (id_pub j) ctx = id_derive j ROSTER_MAC_LABEL (ge_b64 E gkPub) ctx None)"

definition b64_reads :: "genv \<Rightarrow> bool" where
  "b64_reads E \<longleftrightarrow> (\<forall>b. ge_unb64 E (ge_b64 E b) = Some b) \<and> (\<forall>b. b \<noteq> [] \<longrightarrow> ge_b64 E b \<noteq> [])"

text \<open>A record whose session is at its epoch, under the id of its key.\<close>

definition rec_ok :: "genv \<Rightarrow> bytes \<Rightarrow> grec \<Rightarrow> bool" where
  "rec_ok E gid r \<longleftrightarrow> gid = groupIdFromGK (ge_C E) (gr_gkPub r) \<and> gs_gid (gr_session r) = gid
     \<and> gs_epoch (gr_session r) = gr_epoch r"

lemma skdFor_taken:
  assumes r: "jm_get (gm_recs ga) gid = Some r" "rec_ok E gid r" "gr_gk r = Some gk" and p: "id_pub j \<noteq> []"
    and ros: "id_pub j \<in> set (map mb_pub (gr_roster r))" "roster_ok E (map mb_pub (gr_roster r))"
      "hd (map mb_pub (gr_roster r)) = id_pub a" "id_pub a \<noteq> id_pub j"
    and laws: "gk_agree E gk (gr_gkPub r) j" "b64_reads E" "crypto_lengths (ge_C E)"
    and old: "\<forall>v. view gj gid = Some v \<longrightarrow> fst v < gr_epoch r \<and> first_pub v = Some (id_pub a)"
  shows "\<exists>skd s gj'. skdFor E gid (Some (id_pub j)) ga = Some skd
     \<and> applySkd E j fresh now (id_pub a) skd gj = (Inr (if view gj gid = None then Joined else Rekeyed, []), gj')
     \<and> view gj' gid = Some (gr_epoch r, map (\<lambda>p. \<lparr>mb_pub = p, mb_kid = None\<rparr>) (map mb_pub (gr_roster r)), gr_secret r)
     \<and> create_session E j fresh gid (gr_epoch r) (gr_secret r)
         (map (\<lambda>p. \<lparr>mb_pub = p, mb_kid = None\<rparr>) (map mb_pub (gr_roster r))) = Inr s
     \<and> session gj' gid = Some (s\<lparr>gs_receivers := [(id_pub a,
         receiver_from (sc_key (gs_send (gr_session r))) (sc_n (gs_send (gr_session r))))]\<rparr>)"
proof -
  let ?ros = "map mb_pub (gr_roster r)"
  let ?ms = "map (\<lambda>p. \<lparr>mb_pub = p, mb_kid = None\<rparr>) ?ros"
  let ?s = "gr_session r"
  let ?mac = "rosterMac (ge_C E) (rosterKeyFor gk (id_pub j) (gs_gid ?s) (gr_epoch r)) ?ros"
  let ?skd = "\<lparr>sk_gid = ge_b64 E (gs_gid ?s), sk_gkPub = ge_b64 E (gr_gkPub r), sk_epoch = gr_epoch r,
     sk_secret = ge_b64 E (gr_secret r), sk_chain = ge_b64 E (sc_key (gs_send ?s)), sk_ctr = Some (sc_n (gs_send ?s)),
     sk_roster = ?ros, sk_rmac = Some (ge_b64 E ?mac)\<rparr>"
  have b: "ge_unb64 E (ge_b64 E x) = Some x" for x using laws(2) by (simp add: b64_reads_def)
  have sk: "skdFor E gid (Some (id_pub j)) ga = Some ?skd"
    using r p ros(1) by (auto simp: skdFor_def Let_def list_ex_iff)
  have ne: "?ros \<noteq> []" using ros(1) by auto
  have "length ?mac = 32" using crypto_lengthsD(2) [OF laws(3)] by (simp add: rosterMac_def)
  then have "?mac \<noteq> []" by (metis list.size(3) zero_neq_numeral)
  then have mne: "ge_b64 E ?mac \<noteq> []" using laws(2) unfolding b64_reads_def by blast
  have gid: "gs_gid ?s = gid" "gid = groupIdFromGK (ge_C E) (gr_gkPub r)" using r(2) by (simp_all add: rec_ok_def)
  let ?cur = "jm_get (gm_recs gj) gid"
  have adm: "case ?cur of None \<Rightarrow> True | Some q \<Rightarrow> (case gr_roster q of [] \<Rightarrow> False | x # _ \<Rightarrow> mb_pub x = id_pub a)"
    using old by (auto simp: view_def first_pub_def split: option.split list.split)
  have c: "check_advance E j (id_pub a) ?skd gid ?cur = Inr ()"
    unfolding check_advance_ok
  proof (intro exI conjI)
    show "ge_unb64 E (sk_gkPub ?skd) = Some (gr_gkPub r)" "ge_unb64 E (ge_b64 E ?mac) = Some ?mac" by (simp_all add: b)
    show "?mac = c_hmac (ge_C E) (rosterMacKeyFor j (sk_gkPub ?skd) gid (sk_epoch ?skd)) (rosterBytes (sk_roster ?skd))"
      using laws(1) gid(1) by (simp add: rosterMac_def rosterKeyFor_def rosterMacKeyFor_def gk_agree_def)
    show "gid = groupIdFromGK (ge_C E) (gr_gkPub r)" by (rule gid(2))
    show "ge_b64 E ?mac \<noteq> []" by (rule mne)
    show "sk_roster ?skd \<noteq> []" using ne by simp
    show "hd (sk_roster ?skd) = id_pub a" using ros(3) by simp
  qed (use adm in simp_all)
  have me: "is_ok (senderIdOf E (id_pub j))" using ros(1,2) by (simp only: roster_ok_def)
  have "roster_ok E (map mb_pub ?ms)" using ros(2) by (simp add: comp_def)
  then obtain s where s: "create_session E j fresh gid (gr_epoch r) (gr_secret r) ?ms = Inr s"
    using create_session_ok [OF _ me] by blast
  have adv: "case ?cur of None \<Rightarrow> True | Some q \<Rightarrow> sk_epoch ?skd > gr_epoch q"
    using old by (auto simp: view_def split: option.split)
  obtain g1 where a1: "admit E j fresh gid (gr_gkPub r) (gr_epoch r) (gr_secret r) ?ms None gj = Inr (s, g1)"
    and g1: "\<exists>q. jm_get (gm_recs g1) gid = Some q" "view g1 gid = Some (gr_epoch r, ?ms, gr_secret r)"
    using s adv by (cases ?cur) (auto simp: admit_def view_put_rec put_rec_get)
  let ?s' = "s\<lparr>gs_receivers := [(id_pub a, receiver_from (sc_key (gs_send ?s)) (sc_n (gs_send ?s)))]\<rparr>"
  have "gs_receivers s = []" "gs_held s = []" using create_session_fields [OF s] by simp_all
  then have "setSenderKey E j now (id_pub a) (sc_key (gs_send ?s)) (sc_n (gs_send ?s)) s = ([], ?s')"
    using ros(4) by (simp add: setSenderKey_def Let_def jm_has_def)
  then have seed: "seed_sender E j now (id_pub a) ?skd gid s g1 = Inr ([], put_session gid ?s' g1)"
    using b by (simp add: seed_sender_def)
  have cn: "(?cur = None) = (view gj gid = None)" by (simp add: view_def)
  have "applySkd E j fresh now (id_pub a) ?skd gj
      = (Inr (if view gj gid = None then Joined else Rekeyed, []), put_session gid ?s' g1)"
    using adv c a1 seed b gid(1) unfolding applySkd_def cn [symmetric] by simp
  moreover have "session (put_session gid ?s' g1) gid = Some ?s'"
    using g1(1) by (auto simp: session_def put_session_def put_rec_get)
  ultimately show ?thesis using sk s g1(2) by (intro exI [of _ ?skd] exI [of _ s] exI [of _ "put_session gid ?s' g1"]) simp
qed

end
