(* ===== verification/GroupTheorems.thy ===== *)
theory GroupTheorems
  imports GroupAuthority
begin

section \<open>What a group guarantees (lib/group.ts, lib/senderkey.ts)\<close>

text \<open>
  The properties over the two classes together: an admin's distribution makes its messages
  readable by the member it is for (\<open>broadcast_read\<close>), what a member reads was tagged for it
  with the key it shares with the sender (\<open>read_is_tagged\<close>), only an attested distribution
  moves a group and only its admin ever leads it, and what held frames and wide rosters do.
\<close>

subsection \<open>From the admin's key to the member's screen\<close>

lemma knows_sender: "knows E i s mi j t mj \<Longrightarrow> same_group s s' \<Longrightarrow> knows E i s' mi j t mj"
  by (auto simp: knows_def same_group_def others_def sid_of_def [abs_def] macKeyFor_def)

lemma broadcast_reads:
  assumes r: "jm_get (gm_recs ga) gid = Some r" "rec_ok E gid r" "gr_gk r = Some gk"
    and made: "create_session E a fa gid (gr_epoch r) (gr_secret r) (gr_roster r) = Inr s0" "same_group s0 (gr_session r)"
    and ros: "id_pub j \<in> set (map mb_pub (gr_roster r))" "roster_ok E (map mb_pub (gr_roster r))"
      "hd (map mb_pub (gr_roster r)) = id_pub a" "id_pub a \<noteq> id_pub j" "id_pub j \<noteq> []"
    and laws: "gk_agree E gk (gr_gkPub r) j" "mac_agree a j" "b64_reads E" "crypto_lengths (ge_C E)" "aead_opens (ge_C E)"
    and old: "\<forall>v. view gj gid = Some v \<longrightarrow> fst v < gr_epoch r \<and> first_pub v = Some (id_pub a)"
    and range: "gr_epoch r < 2 ^ 32" "sc_n (gs_send (gr_session r)) + length pts \<le> 2 ^ 32"
    and order: "\<forall>x\<in>set arr. fst x < length pts \<and> t \<le> snd x \<and> snd x - t \<le> ro_ttlMs (ge_opts E)"
      "within_skip (ro_maxSkip (ge_opts E)) 0 (map fst arr)"
  shows "\<exists>skd gj' sj. skdFor E gid (Some (id_pub j)) ga = Some skd
     \<and> applySkd E j fresh now (id_pub a) skd gj = (Inr (if view gj gid = None then Joined else Rekeyed, []), gj')
     \<and> session gj' gid = Some sj
     \<and> fst (greceive_all E j (map (\<lambda>x. (fst (gsend_all E a pts (gr_session r)) ! fst x, snd x)) arr) sj)
       = map (\<lambda>i. if fst (arr ! i) \<in> fst ` set (take i arr) then None
           else Some \<lparr>rv_from = id_pub a, rv_pt = pts ! fst (arr ! i)\<rparr>) [0..<length arr]"
proof -
  let ?s = "gr_session r" and ?C = "ge_C E" and ?ns = "map (\<lambda>p. \<lparr>mb_pub = p, mb_kid = None\<rparr>) (map mb_pub (gr_roster r))"
  let ?K = "sc_key (gs_send ?s)" and ?b = "sc_n (gs_send ?s)"
  obtain skd s gj' where d: "skdFor E gid (Some (id_pub j)) ga = Some skd"
      "applySkd E j fresh now (id_pub a) skd gj = (Inr (if view gj gid = None then Joined else Rekeyed, []), gj')"
    and c: "create_session E j fresh gid (gr_epoch r) (gr_secret r) ?ns = Inr s"
    and sj: "session gj' gid = Some (s\<lparr>gs_receivers := [(id_pub a, receiver_from ?K ?b)]\<rparr>)"
    using skdFor_taken [OF r ros(5,1,2,3,4) laws(1,3,4) old, of fresh now] by blast
  let ?t = "s\<lparr>gs_receivers := [(id_pub a, receiver_from ?K ?b)]\<rparr>"
  have ne: "map mb_pub (gr_roster r) \<noteq> []" using ros(1) by auto
  have ain: "id_pub a \<in> set (map mb_pub (gr_roster r))" using ros(3) hd_in_set [OF ne] by simp
  have gl: "length gid = 16" using r(2) crypto_lengthsD(1) [OF laws(4)] by (simp add: rec_ok_def groupIdFromGK_def)
  have pubs: "map mb_pub ?ns = map mb_pub (gr_roster r)" by (simp add: comp_def)
  obtain mi mj where "knows E a s0 mi j s mj"
    using sessions_know [OF made(1) c ros(2) pubs ain ros(1,4) laws(4) gl range(1) laws(2)] by blast
  then have "knows E a ?s mi j s mj" using made(2) by (rule knows_sender)
  then have k: "knows E a ?s mi j ?t mj" by (rule knows_same) (simp add: same_group_def)
  let ?as = "map (\<lambda>x. (?b + fst x, pts ! fst x, snd x)) arr" and ?R = "receiver_from ?K ?b"
  have fr: "fst (gsend_all E a pts ?s) = map (\<lambda>k. sealed_frame E a ?s ?K ?b (?b + k) (pts ! k)) [0..<length pts]"
    by (rule gsend_all_frames) simp_all
  have rx: "jm_get (gs_receivers ?t) (id_pub a) = Some ?R" by simp
  have sy: "in_sync ?C ?K ?b t ?R" by (rule receiver_from_sync)
  have "map fst ?as = map ((+) ?b) (map fst arr)" by simp
  then have skip: "within_skip (ro_maxSkip (ge_opts E)) (sr_n ?R) (map fst ?as)"
    using order(2) within_skip_shift [of "ro_maxSkip (ge_opts E)" ?b 0 "map fst arr"] by (simp only:) (simp add: receiver_from_def)
  have ok: "\<forall>x \<in> set ?as. fst x < 2 ^ 32 \<and> t \<le> snd (snd x) \<and> snd (snd x) - t \<le> ro_ttlMs (ge_opts E)"
    using range order(1) by auto
  have again: "?b + fst y \<in> (\<lambda>x. ?b + fst x) ` S \<longleftrightarrow> fst y \<in> fst ` S" for y :: "nat \<times> int" and S :: "(nat \<times> int) set"
    by (auto simp: image_iff)
  have "map (\<lambda>x. (sealed_frame E a ?s ?K ?b (fst x) (fst (snd x)), snd (snd x))) ?as
      = map (\<lambda>x. (fst (gsend_all E a pts ?s) ! fst x, snd x)) arr"
    using order(1) by (auto simp: fr)
  then have "fst (greceive_all E j (map (\<lambda>x. (fst (gsend_all E a pts ?s) ! fst x, snd x)) arr) ?t)
      = map (\<lambda>i. if fst (arr ! i) \<in> fst ` set (take i arr) then None
           else Some \<lparr>rv_from = id_pub a, rv_pt = pts ! fst (arr ! i)\<rparr>) [0..<length arr]"
    using greceive_all_sealed [OF k laws(4,5) rx sy skip ok] by (simp add: receiver_from_sync(2) again take_map image_image cong: map_cong)
  with d sj show ?thesis by (intro exI [of _ skd] exI [of _ gj'] exI [of _ ?t] conjI)
qed

subsection \<open>What a member reads was tagged for it\<close>

lemma read_tagged:
  assumes "greceive E i now frame s = ((Some m, ask), s')"
  shows "\<exists>sender header ct. jm_get (gs_byId s) (gh_senderId (decodeGHeader header)) = Some sender
     \<and> rv_from m = mb_pub sender \<and> mb_pub sender \<noteq> id_pub i \<and> header = slice_of 2 HDR_LEN frame
     \<and> jm_get (read_macs (unat (frame ! (2 + HDR_LEN))) (drop (2 + HDR_LEN + 1) frame) []) (gs_mySenderId s)
       = Some (c_hmac (ge_C E) (macKeyFor i s (mb_pub sender)) (header @ ct))"
proof -
  obtain sender header ct where a: "admitted E i s frame = Some (sender, header, ct)" and f: "rv_from m = mb_pub sender"
    by (rule greceive_authentic [OF assms])
  show ?thesis by (rule admittedE [OF a]) (use f in blast)
qed

subsection \<open>Frames for too many\<close>

lemma wide_frame_unread:
  assumes hl: "length (frame_header s n) = HDR_LEN" and w: "length (others i s) = 256 * k"
  shows "admitted E j t (frame_of E i s n ct) = None"
proof -
  let ?f = "frame_of E i s n ct"
  have "?f ! (2 + HDR_LEN) = word_of_nat (256 * k)"
    using hl w by (simp add: frame_of_def gframe_def nth_append)
  then have "unat (?f ! (2 + HDR_LEN)) = 256 * k mod 256" by (simp only: unat_byte_of_nat)
  then have z: "unat (?f ! (2 + HDR_LEN)) = 0" by simp
  show ?thesis unfolding admitted_def Let_def z by (simp split: option.split)
qed

subsection \<open>A held frame that came twice\<close>

lemma held_twice:
  assumes k: "knows E i s mi j t mj" and C: "crypto_lengths (ge_C E)" "aead_opens (ge_C E)"
    and n: "n < 2 ^ 32" "0 \<le> ro_ttlMs (ge_opts E)"
    and fresh: "jm_get (gs_receivers t) (id_pub i) = None"
    and held: "jm_get (gs_held t) (id_pub i) = Some [(sealed_frame E i s K n n pt, now), (sealed_frame E i s K n n pt, now)]"
  shows "fst (setSenderKey E j now (id_pub i) K n t) = [\<lparr>rv_from = id_pub i, rv_pt = pt\<rparr>]
     \<and> fst (setSenderKey E j now (id_pub i) K n (snd (setSenderKey E j now (id_pub i) K n t))) = [\<lparr>rv_from = id_pub i, rv_pt = pt\<rparr>]"
proof -
  let ?f = "sealed_frame E i s K n n pt" and ?m = "\<lparr>rv_from = id_pub i, rv_pt = pt\<rparr>" and ?rx = "receiver_from K n"
  let ?ct = "aeadSeal (ge_C E) (gmsgKey (ge_C E) (chain_at (ge_C E) K 0)) n (frame_header s n) pt"
  have ij: "id_pub i \<noteq> id_pub j" and p: "mb_pub mi = id_pub i" using k by (simp_all add: knows_def)
  have hd: "gheader_ok \<lparr>gh_gid = gs_gid s, gh_senderId = gs_mySenderId s, gh_epoch = gs_epoch s, gh_ctr = n\<rparr>"
    using k n(1) by (simp add: gheader_ok_def knows_def)
  have c: "gh_ctr (decodeGHeader (frame_header s n)) = n"
    using decode_encodeGHeader [OF hd] by (simp add: frame_header_def)
  have a: "admitted E j u ?f = Some (mi, frame_header s n, ?ct)" if "same_group t u" for u
    unfolding sealed_frame_def using admitted_frame_of [OF knows_same [OF k that] C(1) n(1)] by simp
  have sy0: "in_sync (ge_C E) K n now ?rx" "openable ?rx n" "n - sr_n ?rx \<le> ro_maxSkip (ge_opts E)"
    by (simp_all add: receiver_from_sync) (simp add: receiver_from_def)
  have tt: "now \<le> now" "now - now \<le> ro_ttlMs (ge_opts E)" using n(2) by simp_all
  obtain rx' where o: "gopen (ge_C E) (ge_opts E) now n (frame_header s n)
        (aeadSeal (ge_C E) (gmsgKey (ge_C E) (chain_at (ge_C E) K (n - n))) n (frame_header s n) pt) ?rx = (Inr (Some pt), rx')"
    and sy: "in_sync (ge_C E) K n now rx'" "openable rx' = (openable ?rx)(n := False)" "sr_n rx' = max (sr_n ?rx) (Suc n)"
    by (rule gopen_sealed [OF sy0(1) C(2) sy0(2,3) tt])
  have o1: "gopen (ge_C E) (ge_opts E) now n (frame_header s n) ?ct ?rx = (Inr (Some pt), rx')" using o by simp
  obtain rx'' where o2: "gopen (ge_C E) (ge_opts E) now n (frame_header s n) ?ct rx' = (Inr None, rx'')"
    using gopen_closed [OF sy(1), of n] sy(2) by (metis fun_upd_same prod.collapse)
  have n2: "n < sr_n rx''"
    using gopen_failed [OF o2] sy(3) by (simp add: gprune_def)
  let ?t1 = "unhold (id_pub i) (t\<lparr>gs_receivers := jm_set (id_pub i) ?rx (gs_receivers t)\<rparr>)"
  let ?t2 = "?t1\<lparr>gs_receivers := jm_set (id_pub i) rx' (gs_receivers ?t1)\<rparr>"
  let ?t3 = "?t2\<lparr>gs_receivers := jm_set (id_pub i) rx'' (gs_receivers ?t2)\<rparr>"
  have sg: "same_group t ?t1" "same_group t ?t2" "same_group t ?t3" by (simp_all add: same_group_def unhold_def)
  have g1: "greceive E j now ?f ?t1 = ((Some ?m, None), ?t2)"
    using a [OF sg(1)] o1 c p by (simp add: greceive_def gopened_def unhold_def)
  have g2: "greceive E j now ?f ?t2 = ((None, None), ?t3)"
    using a [OF sg(2)] o2 c p by (simp add: greceive_def gopened_def)
  have first: "setSenderKey E j now (id_pub i) K n t = ([?m], put_back (id_pub i) [(?f, now)] ?t3)"
    using ij fresh held g1 g2
    by (simp add: setSenderKey_def jm_has_def Let_def release_def held_for_def HOLD_MS_def)
  let ?t4 = "put_back (id_pub i) [(?f, now)] ?t3"
  have h4: "jm_get (gs_held ?t4) (id_pub i) = Some [(?f, now)]"
    by (simp add: put_back_def last_n_def HOLD_MAX_def held_for_def unhold_def)
  have r4: "jm_get (gs_receivers ?t4) (id_pub i) = Some rx''" by (simp add: put_back_def)
  have sg4: "same_group t (unhold (id_pub i) ?t4)" by (simp add: same_group_def unhold_def put_back_def)
  have gu: "greceive_using E j now ?f ?rx (unhold (id_pub i) ?t4) = ((Some ?m, None), rx')"
    using a [OF sg4] o1 c p by (simp add: greceive_using_def gopened_def)
  have "fst (setSenderKey E j now (id_pub i) K n ?t4) = [?m]"
    using ij h4 r4 n2 gu by (simp add: setSenderKey_def jm_has_def snapshot_def release_def held_for_def HOLD_MS_def split_beta)
  then show ?thesis using first by simp
qed

subsection \<open>What is held is bounded\<close>

datatype g_input = GFrame int bytes | GKey int jstr bytes nat | GSend bytes

definition g_step :: "genv \<Rightarrow> ident \<Rightarrow> gsession \<Rightarrow> g_input \<Rightarrow> gsession" where
  "g_step E i s inp = (case inp of
     GFrame now f \<Rightarrow> snd (greceive E i now f s)
   | GKey now pub key ctr \<Rightarrow> snd (setSenderKey E i now pub key ctr s)
   | GSend pt \<Rightarrow> snd (gsend E i pt s))"

definition held_inv :: "gsession \<Rightarrow> bool" where
  "held_inv s \<longleftrightarrow> (\<forall>pub. length (held_for s pub) \<le> HOLD_MAX)"

lemma length_last_n [simp]: "length (last_n k xs) = min k (length xs)"
  by (simp add: last_n_def)

lemma hold_frame_inv: "held_inv s \<Longrightarrow> held_inv (hold_frame now pub f s)"
  by (auto simp: held_inv_def held_for_def hold_frame_def jm_get_set HOLD_MAX_def)

lemma greceive_held: "held_inv s \<Longrightarrow> held_inv (snd (greceive E i now f s))"
  by (auto simp: greceive_def hold_frame_inv split: option.split prod.split) (simp add: held_inv_def held_for_def)

lemma release_chain_held: "held_inv s \<Longrightarrow> held_inv (snd (release_chain E i now q s))"
proof (induction q arbitrary: s)
  case (Cons x q)
  from Cons.IH [OF greceive_held [OF Cons.prems]] Cons show ?case
    by (simp add: split_beta split: option.split)
qed simp

lemma put_back_held: "held_inv s \<Longrightarrow> held_inv (put_back pub keep s)"
  by (auto simp: put_back_def held_inv_def held_for_def jm_get_set)

lemma unhold_held: "held_inv s \<Longrightarrow> held_inv (unhold pub s)"
  by (auto simp: unhold_def held_inv_def held_for_def jm_get_del)

lemma release_held: "held_inv s \<Longrightarrow> held_inv (snd (release E i now pub use s))"
  using release_chain_held [OF unhold_held, of s E i now "held_for s pub" pub]
  by (auto simp: release_def Let_def split_beta put_back_held unhold_held split: option.split)

lemma setSenderKey_held: "held_inv s \<Longrightarrow> held_inv (snd (setSenderKey E i now pub key ctr s))"
proof -
  assume h: "held_inv s"
  then have "held_inv (s\<lparr>gs_receivers := m\<rparr>)" for m by (simp add: held_inv_def held_for_def)
  with h show ?thesis by (simp add: setSenderKey_def Let_def release_held)
qed

lemma gsend_held: "held_inv s \<Longrightarrow> held_inv (snd (gsend E i pt s))"
  by (simp add: gsend_def Let_def split_beta held_inv_def held_for_def)

interpretation holds: machine "g_step E i" held_inv for E i
proof unfold_locales
  fix s inp assume h: "held_inv s"
  then show "held_inv (g_step E i s inp)"
    by (cases inp) (simp_all add: g_step_def greceive_held setSenderKey_held gsend_held)
qed

subsection \<open>Properties\<close>

definition demo_genv :: genv where
  "demo_genv = \<lparr>ge_C = demo_crypto, ge_unb64 = (\<lambda>s. Some (map ucast s)), ge_b64 = map ucast, ge_opts = default_receiver_opts\<rparr>"

definition demo_ident :: "16 word \<Rightarrow> ident" where
  "demo_ident p = \<lparr>id_pub = [p], id_derive = (\<lambda>label peer ctx kid. label @ ctx)\<rparr>"

definition demo_gk :: admin_gk where
  "demo_gk = \<lparr>ag_derive = (\<lambda>label peer ctx. label @ ctx), ag_kid = None, ag_priv = None\<rparr>"

definition demo_members :: "member list" where
  "demo_members = [\<lparr>mb_pub = [1], mb_kid = None\<rparr>, \<lparr>mb_pub = [2], mb_kid = None\<rparr>]"

definition demo_gid :: bytes where
  "demo_gid = groupIdFromGK demo_crypto []"

lemma demo_pub: "id_pub (demo_ident p) = [p]"
  by (simp add: demo_ident_def)

lemma demo_senderId: "senderIdOf demo_genv [p] = Inr (replicate 8 (demo_mix [ucast p]))"
  by (simp add: senderIdOf_def demo_genv_def demo_crypto_def demo_digest_def)

lemma demo_roster_ok: "roster_ok demo_genv (map mb_pub demo_members)"
  by (simp add: roster_ok_def demo_members_def demo_senderId demo_mix_def)

lemma demo_laws: "gk_agree demo_genv demo_gk g (demo_ident p)" "mac_agree (demo_ident p) (demo_ident q)" "b64_reads demo_genv"
  "crypto_lengths (ge_C demo_genv)" "aead_opens (ge_C demo_genv)"
  by (simp_all add: gk_agree_def mac_agree_def b64_reads_def demo_genv_def demo_gk_def demo_ident_def demo_crypto_lengths
      demo_aead_opens comp_def ucast_8_16)

text \<open>
  C25: a group is read. The distribution an admin makes for a member is taken by that member, who
  joins or moves to the epoch; and of what the admin then sends, each message is read by it when it
  first arrives and never again, in whatever order they arrive, whichever are lost, and however
  often one comes: as long as none arrives more than \<open>maxSkip\<close> past the next one expected, and all
  within the time a passed-over key is kept.
\<close>
theorem broadcast_read:
  assumes "jm_get (gm_recs ga) gid = Some r" "rec_ok E gid r" "gr_gk r = Some gk"
    and "create_session E a fa gid (gr_epoch r) (gr_secret r) (gr_roster r) = Inr s0" "same_group s0 (gr_session r)"
    and "id_pub j \<in> set (map mb_pub (gr_roster r))" "roster_ok E (map mb_pub (gr_roster r))"
      "hd (map mb_pub (gr_roster r)) = id_pub a" "id_pub a \<noteq> id_pub j" "id_pub j \<noteq> []"
    and "gk_agree E gk (gr_gkPub r) j" "mac_agree a j" "b64_reads E" "crypto_lengths (ge_C E)" "aead_opens (ge_C E)"
    and "\<forall>v. view gj gid = Some v \<longrightarrow> fst v < gr_epoch r \<and> first_pub v = Some (id_pub a)"
    and "gr_epoch r < 2 ^ 32" "sc_n (gs_send (gr_session r)) + length pts \<le> 2 ^ 32"
    and "\<forall>x\<in>set arr. fst x < length pts \<and> t \<le> snd x \<and> snd x - t \<le> ro_ttlMs (ge_opts E)"
      "within_skip (ro_maxSkip (ge_opts E)) 0 (map fst arr)"
  shows "\<exists>skd gj' sj. skdFor E gid (Some (id_pub j)) ga = Some skd
     \<and> applySkd E j fresh now (id_pub a) skd gj = (Inr (if view gj gid = None then Joined else Rekeyed, []), gj')
     \<and> session gj' gid = Some sj
     \<and> fst (greceive_all E j (map (\<lambda>x. (fst (gsend_all E a pts (gr_session r)) ! fst x, snd x)) arr) sj)
       = map (\<lambda>i. if fst (arr ! i) \<in> fst ` set (take i arr) then None
           else Some \<lparr>rv_from = id_pub a, rv_pt = pts ! fst (arr ! i)\<rparr>) [0..<length arr]"
  using assms by (rule broadcast_reads)

theorem broadcast_read_witness:
  "\<exists>ga r skd gj' sj. jm_get (gm_recs ga) demo_gid = Some r \<and> skdFor demo_genv demo_gid (Some [2]) ga = Some skd
     \<and> applySkd demo_genv (demo_ident 2) [9] 0 [1] skd no_groups = (Inr (Joined, []), gj') \<and> session gj' demo_gid = Some sj
     \<and> fst (greceive_all demo_genv (demo_ident 2) (map (\<lambda>x. (fst (gsend_all demo_genv (demo_ident 1) [[5], [6]] (gr_session r)) ! fst x, snd x))
          [(1, 0), (0, 3), (1, 9)]) sj)
       = [Some \<lparr>rv_from = [1], rv_pt = [6]\<rparr>, Some \<lparr>rv_from = [1], rv_pt = [5]\<rparr>, None]"
proof -
  have pub: "id_pub (demo_ident p) = [p]" for p by (simp add: demo_ident_def)
  have "is_ok (senderIdOf demo_genv (id_pub (demo_ident 1)))" by (simp add: pub demo_senderId)
  then obtain s0 where s0: "create_session demo_genv (demo_ident 1) [7] demo_gid 0 [3] demo_members = Inr s0"
    using create_session_ok [OF demo_roster_ok] by blast
  define r where "r = \<lparr>gr_session = s0, gr_gkPub = [], gr_secret = [3], gr_roster = demo_members, gr_epoch = 0, gr_gk = Some demo_gk, gr_memberGkKid = None\<rparr>"
  define ga where "ga = \<lparr>gm_recs = [(demo_gid, r)], gm_labels = []\<rparr>"
  let ?arr = "[(1, 0), (0, 3), (1, 9)] :: (nat \<times> int) list"
  note f = create_session_fields [OF s0]
  have g: "jm_get (gm_recs ga) demo_gid = Some r" "gr_gk r = Some demo_gk" "view no_groups demo_gid = None"
    by (simp_all add: ga_def r_def view_def no_groups_def)
  have ok: "rec_ok demo_genv demo_gid r" using f by (simp add: rec_ok_def r_def demo_gid_def demo_genv_def)
  have c: "create_session demo_genv (demo_ident 1) [7] demo_gid (gr_epoch r) (gr_secret r) (gr_roster r) = Inr s0"
    using s0 by (simp add: r_def)
  have "\<exists>skd gj' sj. skdFor demo_genv demo_gid (Some (id_pub (demo_ident 2))) ga = Some skd
     \<and> applySkd demo_genv (demo_ident 2) [9] 0 (id_pub (demo_ident 1)) skd no_groups
        = (Inr (if view no_groups demo_gid = None then Joined else Rekeyed, []), gj')
     \<and> session gj' demo_gid = Some sj
     \<and> fst (greceive_all demo_genv (demo_ident 2) (map (\<lambda>x. (fst (gsend_all demo_genv (demo_ident 1) [[5], [6]] (gr_session r)) ! fst x, snd x)) ?arr) sj)
       = map (\<lambda>i. if fst (?arr ! i) \<in> fst ` set (take i ?arr) then None
           else Some \<lparr>rv_from = id_pub (demo_ident 1), rv_pt = [[5], [6]] ! fst (?arr ! i)\<rparr>) [0..<length ?arr]"
    by (rule broadcast_read [OF g(1) ok g(2) c, where t = 0])
      (use demo_roster_ok f in \<open>simp_all add: demo_laws pub r_def g(3) demo_members_def, simp_all add: sendChainFrom_def demo_genv_def
        default_receiver_opts_def GROUP_MAX_SKIP_def GROUP_SKIPPED_TTL_MS_def\<close>)
  moreover have "map (\<lambda>i. if fst (?arr ! i) \<in> fst ` set (take i ?arr) then None
           else Some \<lparr>rv_from = id_pub (demo_ident 1), rv_pt = [[5], [6]] ! fst (?arr ! i)\<rparr>) [0..<length ?arr]
      = [Some \<lparr>rv_from = [1], rv_pt = [6]\<rparr>, Some \<lparr>rv_from = [1], rv_pt = [5]\<rparr>, None]"
    by (simp add: pub upt_rec)
  ultimately show ?thesis using g by (simp add: pub) blast
qed

text \<open>
  What a member reads was tagged for it. A message \<open>receive\<close> gives came in a frame that
  carries, under this member's own id, a tag over header and ciphertext made with the key it
  shares with the roster member the header names, who is not this member itself.
\<close>
theorem read_is_tagged:
  assumes "greceive E i now frame s = ((Some m, ask), s')"
  shows "\<exists>sender header ct. jm_get (gs_byId s) (gh_senderId (decodeGHeader header)) = Some sender
     \<and> rv_from m = mb_pub sender \<and> mb_pub sender \<noteq> id_pub i \<and> header = slice_of 2 HDR_LEN frame
     \<and> jm_get (read_macs (unat (frame ! (2 + HDR_LEN))) (drop (2 + HDR_LEN + 1) frame) []) (gs_mySenderId s)
       = Some (c_hmac (ge_C E) (macKeyFor i s (mb_pub sender)) (header @ ct))"
  using assms by (rule read_tagged)

definition demo_session :: "16 word \<Rightarrow> gsession" where
  "demo_session p = (case create_session demo_genv (demo_ident p) [7] demo_gid 0 [3] demo_members of
     Inr s \<Rightarrow> s | Inl _ \<Rightarrow> undefined)"

lemma demo_session_created:
  assumes "p = 1 \<or> p = 2"
  shows "create_session demo_genv (demo_ident p) [7] demo_gid 0 [3] demo_members = Inr (demo_session p)"
proof -
  have "is_ok (senderIdOf demo_genv (id_pub (demo_ident p)))" by (simp add: demo_ident_def demo_senderId)
  from create_session_ok [OF demo_roster_ok this, of "[7]" demo_gid 0 "[3]"] show ?thesis
    by (auto simp: demo_session_def)
qed

lemma demo_knows: "\<exists>mi mj. knows demo_genv (demo_ident 1) (demo_session 1) mi (demo_ident 2) (demo_session 2) mj"
proof -
  have "length demo_gid = 16" by (simp add: demo_gid_def groupIdFromGK_def demo_crypto_def)
  then show ?thesis
    using sessions_know [OF demo_session_created demo_session_created demo_roster_ok refl, of 1 2] demo_laws
    by (auto simp: demo_ident_def demo_members_def)
qed

theorem read_is_tagged_witness:
  "\<exists>s frame m s'. greceive demo_genv (demo_ident 2) 0 frame s = ((Some m, None), s') \<and> rv_from m \<noteq> id_pub (demo_ident 2)"
proof -
  obtain mi mj where k: "knows demo_genv (demo_ident 1) (demo_session 1) mi (demo_ident 2) (demo_session 2) mj" using demo_knows by blast
  let ?t = "(demo_session 2)\<lparr>gs_receivers := [(id_pub (demo_ident 1), receiver_from [7] 0)]\<rparr>"
  have k': "knows demo_genv (demo_ident 1) (demo_session 1) mi (demo_ident 2) ?t mj"
    by (rule knows_same [OF k]) (simp add: same_group_def)
  have r: "jm_get (gs_receivers ?t) (id_pub (demo_ident 1)) = Some (receiver_from [7] 0)" by simp
  have o1: "openable (receiver_from [7] 0) 0" "0 - sr_n (receiver_from [7] 0) \<le> ro_maxSkip (ge_opts demo_genv)"
    by (simp_all add: receiver_from_sync)
  have n: "(0::nat) < 2 ^ 32" by simp
  have tt: "(0::int) \<le> 0" "(0::int) - 0 \<le> ro_ttlMs (ge_opts demo_genv)"
    by (simp_all add: demo_genv_def default_receiver_opts_def GROUP_SKIPPED_TTL_MS_def)
  obtain s' where g: "greceive demo_genv (demo_ident 2) 0 (sealed_frame demo_genv (demo_ident 1) (demo_session 1) [7] 0 0 [5]) ?t
      = ((Some \<lparr>rv_from = id_pub (demo_ident 1), rv_pt = [5]\<rparr>, None), s')"
    by (rule greceive_sealed [OF k' demo_laws(4,5) r receiver_from_sync(1) n o1 tt])
  from read_is_tagged [OF g] show ?thesis using g by (metis (no_types, lifting))
qed

text \<open>
  C7: only an attested distribution moves a group. When a distribution changes the epoch, the
  roster or the secret a member holds for a group, it carries the MAC of that roster under the
  key shared with the group's own key, its sender leads the roster, and where a group was held
  the epoch is newer and the leader the one it had.
\<close>
theorem group_moves_attested:
  assumes "applySkd E i fresh now from skd g = (res, g')" and "view g' gid \<noteq> view g gid"
  shows "ge_unb64 E (sk_gid skd) = Some gid \<and> attested E i from skd gid
     \<and> (\<forall>v. view g gid = Some v \<longrightarrow> fst v < sk_epoch skd \<and> first_pub v = Some from)
     \<and> (\<exists>secret. ge_unb64 E (sk_secret skd) = Some secret
          \<and> view g' gid = Some (sk_epoch skd, map (\<lambda>p. \<lparr>mb_pub = p, mb_kid = None\<rparr>) (sk_roster skd), secret))"
  using assms by (rule applySkd_view)

definition demo_rec :: grec where
  "demo_rec = \<lparr>gr_session = demo_session 1, gr_gkPub = [], gr_secret = [3], gr_roster = demo_members, gr_epoch = 0,
     gr_gk = Some demo_gk, gr_memberGkKid = None\<rparr>"

definition demo_admin :: manager where
  "demo_admin = \<lparr>gm_recs = [(demo_gid, demo_rec)], gm_labels = []\<rparr>"

lemma demo_taken:
  "\<exists>skd gj'. applySkd demo_genv (demo_ident 2) [9] 0 [1] skd no_groups = (Inr (Joined, []), gj')
     \<and> view gj' demo_gid = Some (0, demo_members, [3])"
proof -
  have v: "view no_groups demo_gid = None" by (simp add: view_def no_groups_def)
  have r: "jm_get (gm_recs demo_admin) demo_gid = Some demo_rec" "rec_ok demo_genv demo_gid demo_rec" "gr_gk demo_rec = Some demo_gk"
    using create_session_fields [OF demo_session_created, of 1]
    by (simp_all add: demo_admin_def demo_rec_def rec_ok_def demo_gid_def demo_genv_def)
  have "\<exists>skd s gj'. skdFor demo_genv demo_gid (Some (id_pub (demo_ident 2))) demo_admin = Some skd
     \<and> applySkd demo_genv (demo_ident 2) [9] 0 (id_pub (demo_ident 1)) skd no_groups
        = (Inr (if view no_groups demo_gid = None then Joined else Rekeyed, []), gj')
     \<and> view gj' demo_gid = Some (gr_epoch demo_rec, map (\<lambda>p. \<lparr>mb_pub = p, mb_kid = None\<rparr>) (map mb_pub (gr_roster demo_rec)), gr_secret demo_rec)
     \<and> create_session demo_genv (demo_ident 2) [9] demo_gid (gr_epoch demo_rec) (gr_secret demo_rec)
         (map (\<lambda>p. \<lparr>mb_pub = p, mb_kid = None\<rparr>) (map mb_pub (gr_roster demo_rec))) = Inr s
     \<and> session gj' demo_gid = Some (s\<lparr>gs_receivers := [(id_pub (demo_ident 1),
         receiver_from (sc_key (gs_send (gr_session demo_rec))) (sc_n (gs_send (gr_session demo_rec))))]\<rparr>)"
    by (rule skdFor_taken [OF r])
      (use demo_roster_ok in \<open>simp_all add: demo_laws v demo_pub demo_rec_def demo_members_def\<close>)
  then show ?thesis by (auto simp: v demo_pub demo_rec_def demo_members_def)
qed

theorem group_moves_attested_witness:
  "\<exists>skd. attested demo_genv (demo_ident 2) [1] skd demo_gid"
proof -
  obtain skd gj' where a: "applySkd demo_genv (demo_ident 2) [9] 0 [1] skd no_groups = (Inr (Joined, []), gj')"
    and "view gj' demo_gid = Some (0, demo_members, [3])" using demo_taken by blast
  then have "view gj' demo_gid \<noteq> view no_groups demo_gid" by (auto simp: view_def no_groups_def)
  from group_moves_attested [OF a this] show ?thesis by blast
qed

text \<open>
  A group keeps its admin. Once a group is held, whatever distributions come in and from
  whomever, it stays held, led by the same member, and its epoch never goes back.
\<close>
theorem admin_stays:
  assumes "led_by gid admin e g"
  shows "led_by gid admin e (run (skd_step E i) g as)"
  using assms by (rule leads.run_inv)

theorem admin_stays_witness:
  "led_by demo_gid [1] 0 (run (skd_step demo_genv (demo_ident 1)) demo_admin
     [\<lparr>sa_fresh = [9], sa_now = 0, sa_from = [2], sa_skd = \<lparr>sk_gid = map ucast demo_gid, sk_gkPub = [], sk_epoch = 5,
        sk_secret = [], sk_chain = [], sk_ctr = None, sk_roster = [[2]], sk_rmac = None\<rparr>\<rparr>])"
  by (rule admin_stays) (simp add: led_by_def view_def demo_admin_def demo_rec_def first_pub_def demo_members_def)

text \<open>
  Frames that wait for a key are bounded. After any frames, keys and sends, a member's session
  holds at most thirty-two frames of any one sender.
\<close>
theorem held_frames_bounded:
  assumes "create_session E i fresh gid epoch secret ms = Inr s"
  shows "length (held_for (run (g_step E i) s is) pub) \<le> 32"
proof -
  have "held_inv s" using create_session_fields(7) [OF assms] by (simp add: held_inv_def held_for_def)
  from holds.run_inv [OF this] show ?thesis by (simp add: held_inv_def HOLD_MAX_def)
qed

theorem held_frames_bounded_witness:
  "length (held_for (run (g_step demo_genv (demo_ident 1)) (demo_session 1) [GFrame 0 [], GKey 0 [2] [7] 0, GSend [1]]) [2]) \<le> 32"
  by (rule held_frames_bounded [OF demo_session_created]) simp

text \<open>
  A group of more than 256 cannot be read. The recipient count of a frame is one byte, so a
  frame made for 256 other members, or a multiple, says it is for none: nobody admits it.
\<close>
theorem wide_group_unread:
  assumes "length (frame_header s n) = HDR_LEN" and "length (others i s) = 256 * k"
  shows "admitted E j t (frame_of E i s n ct) = None"
  using assms by (rule wide_frame_unread)

definition demo_wide :: gsession where
  "demo_wide = \<lparr>gs_gid = replicate 16 0, gs_epoch = 0, gs_secret = [], gs_send = sendChainFrom [], gs_receivers = [],
     gs_members = replicate 256 \<lparr>mb_pub = [2], mb_kid = None\<rparr>, gs_byId = [], gs_senderIds = [], gs_held = [], gs_mySenderId = replicate 8 0\<rparr>"

theorem wide_group_unread_witness:
  "length (others (demo_ident 1) demo_wide) = 256
     \<and> (\<forall>t. admitted demo_genv (demo_ident 2) t (frame_of demo_genv (demo_ident 1) demo_wide 0 [1]) = None)"
proof -
  have o: "length (others (demo_ident 1) demo_wide) = 256 * 1" by (simp add: others_def demo_wide_def demo_pub)
  have "length (frame_header demo_wide 0) = HDR_LEN" by (simp add: frame_header_def encodeGHeader_def demo_wide_def HDR_LEN_def)
  from wide_group_unread [OF this o] o show ?thesis by simp
qed

text \<open>
  A frame held twice is read twice. When the same frame waits twice for a sender's key, the key
  gives its message once; and the same key arriving again gives the same message again.
\<close>
theorem held_duplicate_read_twice:
  assumes "knows E i s mi j t mj" and "crypto_lengths (ge_C E)" "aead_opens (ge_C E)"
    and "n < 2 ^ 32" "0 \<le> ro_ttlMs (ge_opts E)" and "jm_get (gs_receivers t) (id_pub i) = None"
    and "jm_get (gs_held t) (id_pub i) = Some [(sealed_frame E i s K n n pt, now), (sealed_frame E i s K n n pt, now)]"
  shows "fst (setSenderKey E j now (id_pub i) K n t) = [\<lparr>rv_from = id_pub i, rv_pt = pt\<rparr>]
     \<and> fst (setSenderKey E j now (id_pub i) K n (snd (setSenderKey E j now (id_pub i) K n t))) = [\<lparr>rv_from = id_pub i, rv_pt = pt\<rparr>]"
  using assms by (rule held_twice)

theorem held_duplicate_read_twice_witness:
  "\<exists>t. fst (setSenderKey demo_genv (demo_ident 2) 0 [1] [7] 0 t) = [\<lparr>rv_from = [1], rv_pt = [5]\<rparr>]
     \<and> fst (setSenderKey demo_genv (demo_ident 2) 0 [1] [7] 0 (snd (setSenderKey demo_genv (demo_ident 2) 0 [1] [7] 0 t))) = [\<lparr>rv_from = [1], rv_pt = [5]\<rparr>]"
proof -
  obtain mi mj where k: "knows demo_genv (demo_ident 1) (demo_session 1) mi (demo_ident 2) (demo_session 2) mj" using demo_knows by blast
  let ?f = "sealed_frame demo_genv (demo_ident 1) (demo_session 1) [7] 0 0 [5]"
  let ?t = "(demo_session 2)\<lparr>gs_held := [([1], [(?f, 0), (?f, 0)])]\<rparr>"
  have k': "knows demo_genv (demo_ident 1) (demo_session 1) mi (demo_ident 2) ?t mj"
    by (rule knows_same [OF k]) (simp add: same_group_def)
  have "gs_receivers (demo_session 2) = []" using create_session_fields(6) [OF demo_session_created, of 2] by simp
  then show ?thesis
    using held_duplicate_read_twice [OF k' demo_laws(4,5), of 0 "[7]" "[5]" 0]
    by (intro exI [of _ ?t]) (simp add: demo_pub demo_genv_def default_receiver_opts_def GROUP_SKIPPED_TTL_MS_def)
qed

end
