(* ===== verification/Delivery.thy ===== *)
theory Delivery
  imports JsValue
begin

section \<open>The delivery contract (lib/room.ts: pending, parked, resendable)\<close>

text \<open>
  What a room knows of its own unconfirmed content: \<open>pending\<close>, re-sent on a schedule until
  the peer confirms it; \<open>parked\<close>, given up on with nobody in the room and sent again when
  somebody is; \<open>resendable\<close> with \<open>firstSentAt\<close>, reported undelivered and kept for a re-send by
  hand or a late confirmation. A timer is the kind it was set as with its due time; the event
  \<open>dv_fire\<close> runs it. What leaves the component (a frame emitted, a callback of the interface) is
  a list of effects in order. Whether a peer is announcing and whether content goes direct are
  inputs of the events that read them.
\<close>

datatype timer = NoTimer | RetryAt int | JudgeAt int

record pending =
  pd_bytes :: bytes
  pd_sentAt :: int
  pd_since :: int
  pd_tries :: nat
  pd_timer :: timer

record delivery =
  dv_pending :: "(jstr, pending) jmap"
  dv_parked :: "(jstr, bytes \<times> int) jmap"
  dv_resendable :: "(jstr, bytes) jmap"
  dv_firstSentAt :: "(jstr, int) jmap"

datatype dv_effect = Emit bytes | Delivered jstr int | LateDelivered jstr int | Undelivered jstr | Stall

record dv_cfg =
  dc_retries :: "int list"
  dc_giveUpMs :: int
  dc_maxInflightMs :: int
  dc_directOnly :: bool

record dv_env =
  de_now :: int
  de_peerPresent :: bool
  de_direct :: bool \<comment> \<open>\<open>contentSend !== gossipContent\<close>\<close>

definition default_dv_cfg :: dv_cfg where
  "default_dv_cfg = \<lparr>dc_retries = [1500, 4000, 8000, 15000, 15000], dc_giveUpMs = 8000, dc_maxInflightMs = 60000,
     dc_directOnly = False\<rparr>"

definition MAX_RESENDABLE :: nat where "MAX_RESENDABLE = 50"

definition no_deliveries :: delivery where
  "no_deliveries = \<lparr>dv_pending = [], dv_parked = [], dv_resendable = [], dv_firstSentAt = []\<rparr>"

subsection \<open>Keeping\<close>

definition oldest :: "('k, 'v) jmap \<Rightarrow> 'k option" where
  "oldest m = (case m of [] \<Rightarrow> None | p # _ \<Rightarrow> Some (fst p))"

definition keepForResend :: "jstr \<Rightarrow> bytes \<Rightarrow> int \<Rightarrow> delivery \<Rightarrow> delivery" where
  "keepForResend i b sentAt s =
     (let rs = jm_set i b (dv_resendable s);
          fs = jm_set i (case jm_get (dv_firstSentAt s) i of Some t \<Rightarrow> t | None \<Rightarrow> sentAt) (dv_firstSentAt s)
      in if length rs > MAX_RESENDABLE
         then (case oldest rs of
             None \<Rightarrow> s\<lparr>dv_resendable := rs, dv_firstSentAt := fs\<rparr>
           | Some k \<Rightarrow> s\<lparr>dv_resendable := jm_del k rs, dv_firstSentAt := jm_del k fs\<rparr>)
         else s\<lparr>dv_resendable := rs, dv_firstSentAt := fs\<rparr>)"

definition park :: "jstr \<Rightarrow> bytes \<Rightarrow> int \<Rightarrow> delivery \<Rightarrow> delivery" where
  "park i b sentAt s =
     (let ps = jm_set i (b, sentAt) (dv_parked s)
      in if length ps > MAX_RESENDABLE
         then s\<lparr>dv_parked := (case oldest ps of None \<Rightarrow> ps | Some k \<Rightarrow> jm_del k ps)\<rparr>
         else s\<lparr>dv_parked := ps\<rparr>)"

definition clearPending :: "jstr \<Rightarrow> delivery \<Rightarrow> delivery" where
  "clearPending i s = s\<lparr>dv_pending := jm_del i (dv_pending s)\<rparr>"

subsection \<open>The schedule\<close>

definition next_timer :: "dv_cfg \<Rightarrow> dv_env \<Rightarrow> pending \<Rightarrow> timer" where
  "next_timer cfg env p =
     (let waited = de_now env - pd_since p in
      if pd_tries p < length (dc_retries cfg)
         \<and> waited + dc_retries cfg ! pd_tries p \<le> dc_maxInflightMs cfg
         \<and> (pd_tries p < 2 \<or> de_peerPresent env)
      then RetryAt (de_now env + dc_retries cfg ! pd_tries p)
      else JudgeAt (de_now env + dc_giveUpMs cfg))"

definition armRetry :: "dv_cfg \<Rightarrow> dv_env \<Rightarrow> jstr \<Rightarrow> delivery \<Rightarrow> delivery" where
  "armRetry cfg env i s =
     (case jm_get (dv_pending s) i of
        None \<Rightarrow> s
      | Some p \<Rightarrow> s\<lparr>dv_pending := jm_set i (p\<lparr>pd_timer := next_timer cfg env p\<rparr>) (dv_pending s)\<rparr>)"

definition trackDelivery :: "dv_cfg \<Rightarrow> dv_env \<Rightarrow> jstr \<Rightarrow> bytes \<Rightarrow> delivery \<Rightarrow> delivery" where
  "trackDelivery cfg env i b s =
     armRetry cfg env i (s\<lparr>dv_pending := jm_set i \<lparr>pd_bytes = b, pd_sentAt = de_now env, pd_since = de_now env,
       pd_tries = 0, pd_timer = NoTimer\<rparr> (dv_pending s)\<rparr>)"

definition judge :: "dv_env \<Rightarrow> jstr \<Rightarrow> pending \<Rightarrow> delivery \<Rightarrow> dv_effect list \<times> delivery" where
  "judge env i p s =
     (let s1 = s\<lparr>dv_pending := jm_del i (dv_pending s)\<rparr> in
      if de_peerPresent env
      then ([Undelivered i], keepForResend i (pd_bytes p) (pd_sentAt p) s1)
      else ([Undelivered i], keepForResend i (pd_bytes p) (pd_sentAt p) (park i (pd_bytes p) (pd_sentAt p) s1)))"

definition retry :: "dv_cfg \<Rightarrow> dv_env \<Rightarrow> jstr \<Rightarrow> pending \<Rightarrow> delivery \<Rightarrow> dv_effect list \<times> delivery" where
  "retry cfg env i p s =
     (let p' = p\<lparr>pd_tries := pd_tries p + 1\<rparr>
      in ((if pd_tries p' = 1 \<and> de_direct env \<and> \<not> dc_directOnly cfg then [Stall] else []) @ [Emit (pd_bytes p)],
          armRetry cfg env i (s\<lparr>dv_pending := jm_set i p' (dv_pending s)\<rparr>)))"

text \<open>The timer of a message runs out.\<close>

definition dv_fire :: "dv_cfg \<Rightarrow> dv_env \<Rightarrow> jstr \<Rightarrow> delivery \<Rightarrow> dv_effect list \<times> delivery" where
  "dv_fire cfg env i s =
     (case jm_get (dv_pending s) i of
        None \<Rightarrow> ([], s)
      | Some p \<Rightarrow> (case pd_timer p of
          NoTimer \<Rightarrow> ([], s)
        | RetryAt t \<Rightarrow> retry cfg env i p s
        | JudgeAt t \<Rightarrow> judge env i p s))"

subsection \<open>Flushing\<close>

fun flush_ids :: "dv_cfg \<Rightarrow> dv_env \<Rightarrow> jstr list \<Rightarrow> delivery \<Rightarrow> dv_effect list \<times> delivery" where
  "flush_ids cfg env [] s = ([], s)"
| "flush_ids cfg env (i # is) s =
     (case jm_get (dv_pending s) i of
        None \<Rightarrow> flush_ids cfg env is s
      | Some p \<Rightarrow>
          (case flush_ids cfg env is (armRetry cfg env i
              (s\<lparr>dv_pending := jm_set i (p\<lparr>pd_tries := 0, pd_since := de_now env\<rparr>) (dv_pending s)\<rparr>)) of
            (es, s') \<Rightarrow> (Emit (pd_bytes p) # es, s')))"

definition flushAll :: "dv_cfg \<Rightarrow> dv_env \<Rightarrow> delivery \<Rightarrow> dv_effect list \<times> delivery" where
  "flushAll cfg env s = flush_ids cfg env (jm_keys (dv_pending s)) s"

definition from_parked :: "dv_env \<Rightarrow> bytes \<times> int \<Rightarrow> pending" where
  "from_parked env k = \<lparr>pd_bytes = fst k, pd_sentAt = snd k, pd_since = de_now env, pd_tries = 0, pd_timer = NoTimer\<rparr>"

fun append_newer :: "(jstr, pending) jmap \<Rightarrow> (jstr, pending) jmap \<Rightarrow> (jstr, pending) jmap" where
  "append_newer [] m = m"
| "append_newer ((i, p) # ps) m = append_newer ps (if jm_has m i then m else jm_set i p m)"

text \<open>Parked messages go back ahead of anything newer.\<close>

definition unpark :: "dv_cfg \<Rightarrow> dv_env \<Rightarrow> delivery \<Rightarrow> dv_effect list \<times> delivery" where
  "unpark cfg env s =
     flushAll cfg env (s\<lparr>dv_pending := append_newer (dv_pending s)
         (map (\<lambda>(i, k). (i, from_parked env k)) (dv_parked s)), dv_parked := []\<rparr>)"

definition flushPending :: "dv_cfg \<Rightarrow> dv_env \<Rightarrow> delivery \<Rightarrow> dv_effect list \<times> delivery" where
  "flushPending cfg env s = (if dv_parked s \<noteq> [] then unpark cfg env s else flushAll cfg env s)"

subsection \<open>Sending, re-sending by hand, confirmations\<close>

definition send_tracked :: "dv_cfg \<Rightarrow> dv_env \<Rightarrow> jstr \<Rightarrow> bytes \<Rightarrow> delivery \<Rightarrow> dv_effect list \<times> delivery" where
  "send_tracked cfg env i b s = ([Emit b], trackDelivery cfg env i b s)"

definition resend :: "dv_cfg \<Rightarrow> dv_env \<Rightarrow> jstr \<Rightarrow> delivery \<Rightarrow> (bool \<times> dv_effect list) \<times> delivery" where
  "resend cfg env i s =
     (case jm_get (dv_resendable s) i of
        None \<Rightarrow> ((False, []), s)
      | Some b \<Rightarrow>
          if jm_has (dv_pending s) i then ((False, []), s)
          else ((True, [Emit b]), trackDelivery cfg env i b (s\<lparr>dv_parked := jm_del i (dv_parked s)\<rparr>)))"

definition forget_kept :: "jstr \<Rightarrow> delivery \<Rightarrow> delivery" where
  "forget_kept i s = s\<lparr>dv_resendable := jm_del i (dv_resendable s), dv_firstSentAt := jm_del i (dv_firstSentAt s)\<rparr>"

text \<open>An acknowledgement; the code also returns early in the first two cases.\<close>

definition on_ack :: "dv_env \<Rightarrow> jstr \<Rightarrow> delivery \<Rightarrow> dv_effect list \<times> delivery" where
  "on_ack env i s =
     (case jm_get (dv_parked s) i of
        Some (b, sentAt) \<Rightarrow> ([Delivered i (de_now env - sentAt)], forget_kept i (s\<lparr>dv_parked := jm_del i (dv_parked s)\<rparr>))
      | None \<Rightarrow> (case jm_get (dv_pending s) i of
          Some p \<Rightarrow> ([Delivered i (de_now env - pd_sentAt p)], forget_kept i (clearPending i s))
        | None \<Rightarrow> (case jm_get (dv_firstSentAt s) i of
            Some t \<Rightarrow> ([LateDelivered i (de_now env - t)], forget_kept i s)
          | None \<Rightarrow> ([], s))))"

datatype dv_input =
    DSend jstr bytes
  | DFire jstr
  | DAck jstr
  | DResend jstr
  | DEstablished
  | DFlush

text \<open>\<open>DEstablished\<close> is a session coming up: parked content goes out. \<open>DFlush\<close> is \<open>flushPending\<close>.\<close>

definition dv_do :: "dv_cfg \<Rightarrow> dv_env \<Rightarrow> dv_input \<Rightarrow> delivery \<Rightarrow> dv_effect list \<times> delivery" where
  "dv_do cfg env inp s = (case inp of
     DSend i b \<Rightarrow> send_tracked cfg env i b s
   | DFire i \<Rightarrow> dv_fire cfg env i s
   | DAck i \<Rightarrow> on_ack env i s
   | DResend i \<Rightarrow> (case resend cfg env i s of ((r, es), s') \<Rightarrow> (es, s'))
   | DEstablished \<Rightarrow> if dv_parked s \<noteq> [] then unpark cfg env s else ([], s)
   | DFlush \<Rightarrow> flushPending cfg env s)"

definition dv_step :: "dv_cfg \<Rightarrow> delivery \<Rightarrow> dv_env \<times> dv_input \<Rightarrow> delivery" where
  "dv_step cfg s i = snd (dv_do cfg (fst i) (snd i) s)"

end
