(* ===== verification/DeliveryFacts.thy ===== *)
theory DeliveryFacts
  imports Delivery
begin

section \<open>No message is left waiting in silence\<close>

text \<open>
  The invariant of the delivery state: a message is pending or parked, never both, a pending one
  always has a timer running, and the lists kept for a second try are bounded and paired. Its
  consequences: a timer that runs out either re-sends its message, with a timer again, or
  reports it; a message is reported within as many timers as the schedule has entries, plus
  one; a confirmation is told once.
\<close>

definition armed :: "(jstr, pending) jmap \<Rightarrow> bool" where
  "armed m \<longleftrightarrow> (\<forall>i p. jm_get m i = Some p \<longrightarrow> pd_timer p \<noteq> NoTimer)"

definition apart :: "(jstr, 'a) jmap \<Rightarrow> (jstr, 'b) jmap \<Rightarrow> bool" where
  "apart m n \<longleftrightarrow> (\<forall>i. jm_get m i = None \<or> jm_get n i = None)"

definition paired :: "(jstr, 'a) jmap \<Rightarrow> (jstr, 'b) jmap \<Rightarrow> bool" where
  "paired m n \<longleftrightarrow> (\<forall>i. (jm_get m i = None) = (jm_get n i = None))"

definition dv_inv :: "delivery \<Rightarrow> bool" where
  "dv_inv s \<longleftrightarrow> jm_inv (dv_pending s) \<and> jm_inv (dv_parked s) \<and> jm_inv (dv_resendable s) \<and> jm_inv (dv_firstSentAt s)
     \<and> armed (dv_pending s) \<and> apart (dv_pending s) (dv_parked s) \<and> paired (dv_resendable s) (dv_firstSentAt s)
     \<and> length (dv_resendable s) \<le> MAX_RESENDABLE \<and> length (dv_parked s) \<le> MAX_RESENDABLE"

lemma no_deliveries_inv: "dv_inv no_deliveries"
  by (simp add: dv_inv_def no_deliveries_def armed_def apart_def paired_def)

lemma pending_not_parked: "dv_inv s \<Longrightarrow> jm_get (dv_pending s) i = Some p \<Longrightarrow> jm_get (dv_parked s) i = None"
  unfolding dv_inv_def apart_def by (metis option.distinct(1))

lemma length_del_bound: "length m \<le> n \<Longrightarrow> length (jm_del i m) \<le> n"
  using length_jm_del_le [of i m] by linarith

subsection \<open>The parts\<close>

lemma oldest_set: "oldest (jm_set k v m) \<noteq> None"
  by (cases m) (auto simp: oldest_def)

lemma oldest_key: "oldest m = Some k \<Longrightarrow> jm_inv m \<Longrightarrow> length (jm_del k m) = length m - 1"
proof (cases m)
  case (Cons p m')
  assume "oldest m = Some k" and inv: "jm_inv m"
  then have k: "k = fst p" using Cons by (simp add: oldest_def)
  have "filter (\<lambda>q. fst q \<noteq> fst p) m' = m'"
    using inv Cons by (intro filter_True) (auto simp: jm_inv_def image_iff)
  then show ?thesis using Cons k by (simp add: jm_del_def)
qed (simp add: oldest_def)

lemma bounded_set:
  assumes "jm_inv m" and "length m \<le> n" and "oldest (jm_set i b m) = Some k"
  shows "length (jm_del k (jm_set i b m)) \<le> n"
proof -
  have "length (jm_set i b m) \<le> Suc n" using assms(2) by (simp add: length_jm_set)
  then show ?thesis using oldest_key [OF assms(3)] assms(1) by simp
qed

lemma keepForResend_keeps [simp]:
  "dv_pending (keepForResend i b t s) = dv_pending s" "dv_parked (keepForResend i b t s) = dv_parked s"
  by (auto simp: keepForResend_def Let_def split: option.split)

lemma park_keeps [simp]:
  "dv_pending (park i b t s) = dv_pending s" "dv_resendable (park i b t s) = dv_resendable s"
  "dv_firstSentAt (park i b t s) = dv_firstSentAt s"
  by (simp_all add: park_def Let_def)

lemma keepForResend_inv:
  assumes "jm_inv (dv_resendable s)" "jm_inv (dv_firstSentAt s)" "paired (dv_resendable s) (dv_firstSentAt s)"
    "length (dv_resendable s) \<le> MAX_RESENDABLE"
  shows "jm_inv (dv_resendable (keepForResend i b t s))" "jm_inv (dv_firstSentAt (keepForResend i b t s))"
    "paired (dv_resendable (keepForResend i b t s)) (dv_firstSentAt (keepForResend i b t s))"
    "length (dv_resendable (keepForResend i b t s)) \<le> MAX_RESENDABLE"
  using assms bounded_set [OF assms(1,4)]
  by (auto simp: keepForResend_def Let_def paired_def jm_get_set jm_get_del oldest_set split: option.split)

lemma oldest_set_absent:
  "m \<noteq> [] \<Longrightarrow> jm_get m i = None \<Longrightarrow> \<exists>k. oldest (jm_set i b m) = Some k \<and> k \<noteq> i"
  by (cases m) (auto simp: oldest_def jm_get_def split: if_splits)

lemma keepForResend_kept:
  assumes "length (dv_resendable s) \<le> MAX_RESENDABLE"
  shows "jm_get (dv_resendable (keepForResend i b t s)) i = Some b"
proof (cases "length (jm_set i b (dv_resendable s)) > MAX_RESENDABLE")
  case True
  then have a: "jm_get (dv_resendable s) i = None" "dv_resendable s \<noteq> []"
    using assms by (auto simp: length_jm_set jm_has_def MAX_RESENDABLE_def split: if_splits)
  obtain k where "oldest (jm_set i b (dv_resendable s)) = Some k" "k \<noteq> i"
    using oldest_set_absent [OF a(2,1), of b] by blast
  then show ?thesis using True by (simp add: keepForResend_def Let_def jm_get_del)
qed (simp add: keepForResend_def Let_def)

lemma park_inv:
  assumes "jm_inv (dv_parked s)" "length (dv_parked s) \<le> MAX_RESENDABLE"
  shows "jm_inv (dv_parked (park i b t s))" "length (dv_parked (park i b t s)) \<le> MAX_RESENDABLE"
  using assms bounded_set [OF assms] oldest_set [of i "(b, t)" "dv_parked s"]
  by (auto simp: park_def Let_def split: option.split)

lemma park_get: "jm_get (dv_parked s) x = None \<Longrightarrow> x \<noteq> i \<Longrightarrow> jm_get (dv_parked (park i b t s)) x = None"
  by (simp add: park_def Let_def jm_get_set jm_get_del split: option.split)

subsection \<open>Every operation keeps the invariant\<close>

lemma next_timer_set: "next_timer cfg env p \<noteq> NoTimer"
  by (simp add: next_timer_def Let_def)

lemma armRetry_fields [simp]:
  "dv_parked (armRetry cfg env i s) = dv_parked s" "dv_resendable (armRetry cfg env i s) = dv_resendable s"
  "dv_firstSentAt (armRetry cfg env i s) = dv_firstSentAt s"
  by (auto simp: armRetry_def split: option.split)

lemma armRetry_get: "jm_get (dv_pending (armRetry cfg env i s)) x =
    (if x = i then map_option (\<lambda>p. p\<lparr>pd_timer := next_timer cfg env p\<rparr>) (jm_get (dv_pending s) i) else jm_get (dv_pending s) x)"
  by (auto simp: armRetry_def jm_get_set split: option.split)

lemma armRetry_jm_inv: "jm_inv (dv_pending s) \<Longrightarrow> jm_inv (dv_pending (armRetry cfg env i s))"
  by (auto simp: armRetry_def split: option.split)

text \<open>Setting an entry and arming it.\<close>

lemma arm_set_inv:
  assumes "dv_inv s" and "jm_get (dv_parked s) i = None"
  shows "dv_inv (armRetry cfg env i (s\<lparr>dv_pending := jm_set i p (dv_pending s)\<rparr>))"
  using assms armRetry_jm_inv [of "s\<lparr>dv_pending := jm_set i p (dv_pending s)\<rparr>" cfg env i]
  by (auto simp: dv_inv_def armed_def apart_def armRetry_get jm_get_set next_timer_set split: if_splits)

lemma judge_inv:
  assumes "dv_inv s" and "jm_get (dv_pending s) i = Some p"
  shows "dv_inv (snd (judge env i p s))"
proof -
  let ?s1 = "s\<lparr>dv_pending := jm_del i (dv_pending s)\<rparr>"
  have b: "jm_inv (dv_resendable t)" "jm_inv (dv_firstSentAt t)" "paired (dv_resendable t) (dv_firstSentAt t)"
    "length (dv_resendable t) \<le> MAX_RESENDABLE" if "dv_inv t" for t using that by (simp_all add: dv_inv_def)
  have k: "dv_inv t \<Longrightarrow> dv_inv (keepForResend i b' t' t)" for t b' t'
    using keepForResend_inv [of t i b' t'] by (simp add: dv_inv_def)
  have s1: "dv_inv ?s1" using assms(1) by (auto simp: dv_inv_def armed_def apart_def jm_get_del split: if_splits)
  have "apart (jm_del i (dv_pending s)) (dv_parked (park i b' t' ?s1))" for b' t'
    unfolding apart_def
  proof
    fix x
    show "jm_get (jm_del i (dv_pending s)) x = None \<or> jm_get (dv_parked (park i b' t' ?s1)) x = None"
      using assms(1) park_get [of ?s1 x i b' t'] by (cases "x = i") (auto simp: dv_inv_def apart_def jm_get_del)
  qed
  then have "dv_inv (park i b' t' ?s1)" for b' t'
    using s1 park_inv [of ?s1 i b' t'] by (simp add: dv_inv_def)
  with k s1 show ?thesis by (simp add: judge_def Let_def)
qed

lemma dv_fire_inv:
  assumes "dv_inv s"
  shows "dv_inv (snd (dv_fire cfg env i s))"
proof (cases "jm_get (dv_pending s) i")
  case (Some p)
  then have "jm_get (dv_parked s) i = None" using pending_not_parked [OF assms] by blast
  then show ?thesis
    using Some assms judge_inv [OF assms Some] arm_set_inv [OF assms, of i]
    by (simp add: dv_fire_def retry_def Let_def split: timer.split)
qed (use assms in \<open>simp add: dv_fire_def\<close>)

lemma flush_ids_inv: "dv_inv s \<Longrightarrow> dv_inv (snd (flush_ids cfg env is s))"
proof (induction "is" arbitrary: s)
  case (Cons i "is")
  show ?case
  proof (cases "jm_get (dv_pending s) i")
    case (Some p)
    then have "jm_get (dv_parked s) i = None" using pending_not_parked [OF Cons.prems] by blast
    then show ?thesis using Some Cons.IH [OF arm_set_inv [OF Cons.prems]] by (simp split: prod.split) (metis snd_conv)
  qed (use Cons in simp)
qed simp

text \<open>Flushing arms every entry it is given, so it needs no timer on them before.\<close>

definition loose_inv :: "jstr set \<Rightarrow> delivery \<Rightarrow> bool" where
  "loose_inv X s \<longleftrightarrow> jm_inv (dv_pending s) \<and> jm_inv (dv_parked s) \<and> jm_inv (dv_resendable s) \<and> jm_inv (dv_firstSentAt s)
     \<and> (\<forall>i p. jm_get (dv_pending s) i = Some p \<longrightarrow> i \<notin> X \<longrightarrow> pd_timer p \<noteq> NoTimer)
     \<and> apart (dv_pending s) (dv_parked s) \<and> paired (dv_resendable s) (dv_firstSentAt s)
     \<and> length (dv_resendable s) \<le> MAX_RESENDABLE \<and> length (dv_parked s) \<le> MAX_RESENDABLE"

lemma loose_inv_none: "loose_inv {} s = dv_inv s"
  by (simp add: loose_inv_def dv_inv_def armed_def)

lemma flush_ids_loose: "loose_inv (set is) s \<Longrightarrow> dv_inv (snd (flush_ids cfg env is s))"
proof (induction "is" arbitrary: s)
  case (Cons i "is")
  show ?case
  proof (cases "jm_get (dv_pending s) i")
    case None
    then have "loose_inv (set is) s" using Cons.prems unfolding loose_inv_def
      by (metis option.distinct(1) set_ConsD)
    then show ?thesis using None Cons.IH by simp
  next
    case (Some p)
    let ?s = "s\<lparr>dv_pending := jm_set i (p\<lparr>pd_tries := 0, pd_since := de_now env\<rparr>) (dv_pending s)\<rparr>"
    have "jm_get (dv_parked s) i = None"
      using Cons.prems Some unfolding loose_inv_def apart_def by (metis option.distinct(1))
    then have "loose_inv (set is) (armRetry cfg env i ?s)"
      using Cons.prems Some armRetry_jm_inv [of ?s cfg env i]
      by (auto simp: loose_inv_def apart_def armRetry_get jm_get_set next_timer_set split: if_splits)
    then show ?thesis using Some Cons.IH by (simp split: prod.split) (metis snd_conv)
  qed
qed (simp add: loose_inv_none)

lemma append_newer_get:
  "jm_get (append_newer ps m) i = (case jm_get m i of Some p \<Rightarrow> Some p | None \<Rightarrow> jm_get ps i)"
  by (induction ps m rule: append_newer.induct) (auto simp: jm_has_def jm_get_set split: option.splits)

lemma append_newer_inv: "jm_inv m \<Longrightarrow> jm_inv (append_newer ps m)"
  by (induction ps m rule: append_newer.induct) auto

lemma jm_get_map: "jm_get (map (\<lambda>(i, k). (i, f k)) m) x = map_option f (jm_get m x)"
  by (induction m) auto

lemma jm_inv_map: "jm_inv (map (\<lambda>(i, k). (i, f k)) m) = jm_inv m"
  by (simp add: jm_inv_def comp_def split_beta)

lemma unpark_inv: "dv_inv s \<Longrightarrow> dv_inv (snd (unpark cfg env s))"
  unfolding unpark_def flushAll_def
  by (rule flush_ids_loose)
    (auto simp: loose_inv_def dv_inv_def append_newer_inv jm_inv_map apart_def jm_get_None_iff [symmetric])

lemma flushAll_inv: "dv_inv s \<Longrightarrow> dv_inv (snd (flushAll cfg env s))"
  unfolding flushAll_def by (rule flush_ids_inv)

lemma forget_kept_inv: "dv_inv s \<Longrightarrow> dv_inv (forget_kept i s)"
  by (simp add: dv_inv_def forget_kept_def paired_def jm_get_del length_del_bound)

lemma on_ack_inv: "dv_inv s \<Longrightarrow> dv_inv (snd (on_ack env i s))"
proof -
  assume s: "dv_inv s"
  have "dv_inv (s\<lparr>dv_parked := jm_del i (dv_parked s)\<rparr>)" "dv_inv (clearPending i s)"
    using s by (simp_all add: dv_inv_def apart_def armed_def clearPending_def jm_get_del length_del_bound)
  then show ?thesis using s by (auto simp: on_ack_def forget_kept_inv split: option.split)
qed

lemma resend_inv:
  assumes s: "dv_inv s"
  shows "dv_inv (snd (resend cfg env i s))"
proof -
  let ?s = "s\<lparr>dv_parked := jm_del i (dv_parked s)\<rparr>"
  have "dv_inv ?s" using s by (simp add: dv_inv_def apart_def jm_get_del length_del_bound)
  then show ?thesis using s arm_set_inv [of ?s i] by (auto simp: resend_def trackDelivery_def split: option.split)
qed

text \<open>An id is fresh when it is sent: the interface makes one up for every message.\<close>

definition fresh_send :: "delivery \<Rightarrow> dv_input \<Rightarrow> bool" where
  "fresh_send s inp = (case inp of DSend i b \<Rightarrow> jm_get (dv_parked s) i = None | _ \<Rightarrow> True)"

lemma dv_do_inv: "dv_inv s \<Longrightarrow> fresh_send s inp \<Longrightarrow> dv_inv (snd (dv_do cfg env inp s))"
  by (cases inp) (simp_all add: dv_do_def send_tracked_def trackDelivery_def fresh_send_def arm_set_inv dv_fire_inv on_ack_inv
      unpark_inv flushPending_def flushAll_inv resend_inv split_beta)

subsection \<open>What becomes of one message\<close>

text \<open>A message is followed when it is pending, parked or kept for a re-send: no event but a confirmation, or the bound on what is kept, loses it.\<close>

definition followed :: "delivery \<Rightarrow> jstr \<Rightarrow> bool" where
  "followed s i \<longleftrightarrow> jm_has (dv_pending s) i \<or> jm_has (dv_parked s) i \<or> jm_has (dv_resendable s) i"

text \<open>Running out: a retry keeps the message and its next timer; the judgement reports it and keeps it for a re-send.\<close>

lemma dv_fire_pending:
  assumes inv: "dv_inv s" and p: "jm_get (dv_pending s) i = Some p"
  shows "(\<exists>t p' es. pd_timer p = RetryAt t \<and> jm_get (dv_pending (snd (dv_fire cfg env i s))) i = Some p'
       \<and> pd_tries p' = Suc (pd_tries p) \<and> pd_timer p' \<noteq> NoTimer \<and> pd_bytes p' = pd_bytes p
       \<and> fst (dv_fire cfg env i s) = es @ [Emit (pd_bytes p)] \<and> set es \<subseteq> {Stall})
   \<or> (\<exists>t. pd_timer p = JudgeAt t \<and> fst (dv_fire cfg env i s) = [Undelivered i]
       \<and> jm_get (dv_pending (snd (dv_fire cfg env i s))) i = None
       \<and> jm_get (dv_resendable (snd (dv_fire cfg env i s))) i = Some (pd_bytes p))"
proof (cases "pd_timer p")
  case NoTimer
  then show ?thesis using inv p by (auto simp: dv_inv_def armed_def)
next
  case (RetryAt t)
  then show ?thesis using p
    by (auto simp: dv_fire_def retry_def Let_def armRetry_get next_timer_set)
next
  case (JudgeAt t)
  have "length (dv_resendable (s\<lparr>dv_pending := jm_del i (dv_pending s)\<rparr>)) \<le> MAX_RESENDABLE"
    "length (dv_resendable (park i b t' (s\<lparr>dv_pending := jm_del i (dv_pending s)\<rparr>))) \<le> MAX_RESENDABLE" for b t'
    using inv by (simp_all add: dv_inv_def)
  then show ?thesis using p JudgeAt
    by (simp add: dv_fire_def judge_def Let_def keepForResend_kept)
qed

text \<open>Timers of one message running out again and again, whatever the environment at each.\<close>

fun fires :: "dv_cfg \<Rightarrow> jstr \<Rightarrow> dv_env list \<Rightarrow> delivery \<Rightarrow> dv_effect list \<times> delivery" where
  "fires cfg i [] s = ([], s)"
| "fires cfg i (e # es) s =
     (case dv_fire cfg e i s of (f1, s1) \<Rightarrow> (case fires cfg i es s1 of (f2, s2) \<Rightarrow> (f1 @ f2, s2)))"

lemma dv_fire_gone: "jm_get (dv_pending s) i = None \<Longrightarrow> fires cfg i es s = ([], s)"
  by (induction es) (simp_all add: dv_fire_def)

text \<open>A retry timer is only ever set within the schedule.\<close>

definition on_schedule :: "dv_cfg \<Rightarrow> pending \<Rightarrow> bool" where
  "on_schedule cfg p \<longleftrightarrow> (case pd_timer p of RetryAt t \<Rightarrow> pd_tries p < length (dc_retries cfg) | _ \<Rightarrow> True)"

lemma next_timer_schedule: "on_schedule cfg (p\<lparr>pd_timer := next_timer cfg env p\<rparr>)"
  by (simp add: on_schedule_def next_timer_def Let_def)

lemma fires_report:
  assumes "dv_inv s" and "jm_get (dv_pending s) i = Some p" and "on_schedule cfg p"
    and "length es \<ge> Suc (length (dc_retries cfg)) - pd_tries p" and "es \<noteq> []"
  shows "\<exists>f1 f2. fst (fires cfg i es s) = f1 @ [Undelivered i] @ f2 \<and> f2 = [] \<and> Undelivered i \<notin> set f1
     \<and> jm_get (dv_pending (snd (fires cfg i es s))) i = None
     \<and> jm_get (dv_resendable (snd (fires cfg i es s))) i = Some (pd_bytes p)"
  using assms
proof (induction es arbitrary: s p)
  case (Cons e es)
  obtain f s1 where fs: "dv_fire cfg e i s = (f, s1)" by force
  consider (retry) t p' fe where "pd_timer p = RetryAt t" "jm_get (dv_pending s1) i = Some p'" "pd_tries p' = Suc (pd_tries p)"
      "pd_bytes p' = pd_bytes p" "f = fe @ [Emit (pd_bytes p)]" "set fe \<subseteq> {Stall}"
    | (judge) "f = [Undelivered i]" "jm_get (dv_pending s1) i = None" "jm_get (dv_resendable s1) i = Some (pd_bytes p)"
    using dv_fire_pending [OF Cons.prems(1,2), of cfg e] fs by auto
  then show ?case
  proof cases
    case judge
    then show ?thesis using fs dv_fire_gone [OF judge(2)] by simp
  next
    case retry
    have inv: "dv_inv s1" using dv_fire_inv [OF Cons.prems(1), of cfg e i] fs by simp
    have lt: "pd_tries p < length (dc_retries cfg)" using Cons.prems(3) retry(1) by (simp add: on_schedule_def)
    have sch: "on_schedule cfg p'"
    proof -
      have "s1 = snd (retry cfg e i p s)" using fs Cons.prems(2) retry(1) by (simp add: dv_fire_def)
      then have "jm_get (dv_pending s1) i =
          Some ((p\<lparr>pd_tries := pd_tries p + 1\<rparr>)\<lparr>pd_timer := next_timer cfg e (p\<lparr>pd_tries := pd_tries p + 1\<rparr>)\<rparr>)"
        by (simp add: retry_def Let_def armRetry_get)
      then show ?thesis using retry(2) next_timer_schedule by auto
    qed
    have "length es \<ge> Suc (length (dc_retries cfg)) - pd_tries p'" "es \<noteq> []"
      using Cons.prems(4) retry(3) lt by auto
    from Cons.IH [OF inv retry(2) sch this] retry(4) obtain f1 where
      "fst (fires cfg i es s1) = f1 @ [Undelivered i]" "Undelivered i \<notin> set f1"
      "jm_get (dv_pending (snd (fires cfg i es s1))) i = None"
      "jm_get (dv_resendable (snd (fires cfg i es s1))) i = Some (pd_bytes p)"
      by auto
    moreover have "Undelivered i \<notin> set f" using retry(5,6) by auto
    ultimately show ?thesis using fs by (simp add: split_beta)
  qed
qed simp

text \<open>It is also parked, for a second try when somebody is back, just when nobody was announcing at the last timer.\<close>

lemma park_kept:
  assumes "length (dv_parked s) \<le> MAX_RESENDABLE"
  shows "jm_get (dv_parked (park i b t s)) i = Some (b, t)"
proof (cases "length (jm_set i (b, t) (dv_parked s)) > MAX_RESENDABLE")
  case True
  then have a: "jm_get (dv_parked s) i = None" "dv_parked s \<noteq> []"
    using assms by (auto simp: length_jm_set jm_has_def MAX_RESENDABLE_def split: if_splits intro: option.exhaust [of "jm_get (dv_parked s) i"])
  obtain k where "oldest (jm_set i (b, t) (dv_parked s)) = Some k" "k \<noteq> i"
    using oldest_set_absent [OF a(2,1), of "(b, t)"] by blast
  then show ?thesis using True by (simp add: park_def Let_def jm_get_del)
qed (simp add: park_def Let_def)

lemma fires_parked:
  assumes "dv_inv s" and "jm_get (dv_pending s) i = Some p" and "on_schedule cfg p"
    and "length es \<ge> Suc (length (dc_retries cfg)) - pd_tries p" and "es \<noteq> []" and "\<forall>e\<in>set es. de_peerPresent e = here"
  shows "jm_get (dv_parked (snd (fires cfg i es s))) i = (if here then None else Some (pd_bytes p, pd_sentAt p))"
  using assms
proof (induction es arbitrary: s p)
  case (Cons e es)
  have none: "jm_get (dv_parked s) i = None" by (rule pending_not_parked [OF Cons.prems(1,2)])
  have le: "length (dv_parked s) \<le> MAX_RESENDABLE" using Cons.prems(1) by (simp add: dv_inv_def)
  show ?case
  proof (cases "pd_timer p")
    case NoTimer
    then show ?thesis using Cons.prems(1,2) by (auto simp: dv_inv_def armed_def)
  next
    case (JudgeAt t)
    then have f: "dv_fire cfg e i s = judge e i p s" using Cons.prems(2) by (simp add: dv_fire_def)
    have "jm_get (dv_pending (snd (judge e i p s))) i = None" by (simp add: judge_def Let_def jm_get_del)
    then have "snd (fires cfg i (e # es) s) = snd (judge e i p s)" using f dv_fire_gone by (simp add: split_beta)
    moreover have "jm_get (dv_parked (snd (judge e i p s))) i = (if here then None else Some (pd_bytes p, pd_sentAt p))"
      using Cons.prems(6) none le park_kept [of "s\<lparr>dv_pending := jm_del i (dv_pending s)\<rparr>" i "pd_bytes p" "pd_sentAt p"]
      by (simp add: judge_def Let_def)
    ultimately show ?thesis by simp
  next
    case (RetryAt t)
    let ?q = "p\<lparr>pd_tries := pd_tries p + 1\<rparr>"
    let ?p' = "?q\<lparr>pd_timer := next_timer cfg e ?q\<rparr>" and ?s1 = "snd (dv_fire cfg e i s)"
    have f: "dv_fire cfg e i s = retry cfg e i p s" using Cons.prems(2) RetryAt by (simp add: dv_fire_def)
    have inv: "dv_inv ?s1" using dv_fire_inv [OF Cons.prems(1)] .
    have p': "jm_get (dv_pending ?s1) i = Some ?p'" unfolding f by (simp add: retry_def Let_def armRetry_get)
    have lt: "pd_tries p < length (dc_retries cfg)" using Cons.prems(3) RetryAt by (simp add: on_schedule_def)
    have "length es \<ge> Suc (length (dc_retries cfg)) - pd_tries ?p'" "es \<noteq> []" using Cons.prems(4) lt by auto
    from Cons.IH [OF inv p' next_timer_schedule this] Cons.prems(6) show ?thesis by (simp add: split_beta)
  qed
qed simp

text \<open>A confirmation ends it: nothing of the message is left, so no later event speaks of it.\<close>

definition gone :: "jstr \<Rightarrow> delivery \<Rightarrow> bool" where
  "gone i s \<longleftrightarrow> jm_get (dv_pending s) i = None \<and> jm_get (dv_parked s) i = None
     \<and> jm_get (dv_resendable s) i = None \<and> jm_get (dv_firstSentAt s) i = None"

lemma on_ack_gone:
  assumes "dv_inv s"
  shows "gone i (snd (on_ack env i s))"
proof -
  have "jm_get (dv_pending s) i = None \<or> jm_get (dv_parked s) i = None"
    "(jm_get (dv_resendable s) i = None) = (jm_get (dv_firstSentAt s) i = None)"
    using assms by (simp_all add: dv_inv_def apart_def paired_def)
  then show ?thesis
    by (auto simp: on_ack_def gone_def forget_kept_def clearPending_def jm_get_del split: option.split)
qed

definition speaks_of :: "jstr \<Rightarrow> dv_effect \<Rightarrow> bool" where
  "speaks_of i e \<longleftrightarrow> (case e of Delivered j _ \<Rightarrow> i = j | LateDelivered j _ \<Rightarrow> i = j | Undelivered j \<Rightarrow> i = j | _ \<Rightarrow> False)"

lemma on_ack_once:
  assumes "dv_inv s" and "followed s i"
  shows "\<exists>e. fst (on_ack env i s) = [e] \<and> speaks_of i e \<and> e \<noteq> Undelivered i"
proof -
  have "jm_get (dv_firstSentAt s) i \<noteq> None" if "jm_get (dv_resendable s) i \<noteq> None"
    using that assms(1) unfolding dv_inv_def paired_def by metis
  then show ?thesis using assms(2)
    by (auto simp: on_ack_def followed_def jm_has_def speaks_of_def split: option.split)
qed

lemma flush_ids_quiet: "\<forall>e \<in> set (fst (flush_ids cfg env is s)). \<not> speaks_of i e"
  by (induction "is" arbitrary: s) (auto simp: speaks_of_def split: option.split prod.split, (metis fst_conv)+)

lemma flush_ids_other:
  assumes "jm_get (dv_pending s) i = None"
  shows "jm_get (dv_pending (snd (flush_ids cfg env is s))) i = None"
  using assms
proof (induction "is" arbitrary: s)
  case (Cons j "is")
  show ?case
  proof (cases "jm_get (dv_pending s) j")
    case (Some p)
    then have "j \<noteq> i" using Cons.prems by auto
    then show ?thesis
      using Some Cons.IH [of "armRetry cfg env j (s\<lparr>dv_pending := jm_set j (p\<lparr>pd_tries := 0, pd_since := de_now env\<rparr>) (dv_pending s)\<rparr>)"]
        Cons.prems by (simp add: armRetry_get jm_get_set split_beta)
  qed (use Cons in simp)
qed simp

lemma flush_ids_fields:
  "dv_parked (snd (flush_ids cfg env is s)) = dv_parked s" "dv_resendable (snd (flush_ids cfg env is s)) = dv_resendable s"
  "dv_firstSentAt (snd (flush_ids cfg env is s)) = dv_firstSentAt s"
  by (induction "is" arbitrary: s) (simp_all split: option.split add: split_beta)

lemma flush_ids_gone: "gone i s \<Longrightarrow> gone i (snd (flush_ids cfg env is s))"
  by (simp add: gone_def flush_ids_other flush_ids_fields)

lemma unpark_gone: "gone i s \<Longrightarrow> gone i (snd (unpark cfg env s))"
  unfolding unpark_def flushAll_def
  by (rule flush_ids_gone) (simp add: gone_def append_newer_get jm_get_map)

lemma arm_gone: "gone i s \<Longrightarrow> j \<noteq> i \<Longrightarrow> gone i (armRetry cfg env j (s\<lparr>dv_pending := jm_set j p (dv_pending s)\<rparr>))"
  by (simp add: gone_def armRetry_get jm_get_set)

lemma keepForResend_gone: "gone i s \<Longrightarrow> j \<noteq> i \<Longrightarrow> gone i (keepForResend j b t s)"
  by (auto simp: gone_def keepForResend_def Let_def jm_get_set jm_get_del split: option.split)

lemma judge_gone: "gone i s \<Longrightarrow> j \<noteq> i \<Longrightarrow> gone i (snd (judge env j p s))"
  by (auto simp: judge_def Let_def intro!: keepForResend_gone)
    (auto simp: gone_def jm_get_del park_get)

lemma gone_step:
  assumes g: "gone i s" and inp: "\<forall>b. inp \<noteq> DSend i b"
  shows "gone i (snd (dv_do cfg env inp s))" and "\<forall>e \<in> set (fst (dv_do cfg env inp s)). \<not> speaks_of i e"
proof -
  have "gone i (snd (dv_do cfg env inp s)) \<and> (\<forall>e \<in> set (fst (dv_do cfg env inp s)). \<not> speaks_of i e)"
  proof (cases inp)
    case (DSend j b)
    then show ?thesis using g inp by (auto simp: dv_do_def send_tracked_def trackDelivery_def arm_gone speaks_of_def)
  next
    case (DFire j)
    show ?thesis
    proof (cases "j = i \<or> jm_get (dv_pending s) j = None")
      case True
      then show ?thesis using g DFire by (auto simp: dv_do_def dv_fire_def gone_def)
    next
      case False
      then obtain p where p: "jm_get (dv_pending s) j = Some p" "j \<noteq> i" by auto
      have "fst (judge env j p s) = [Undelivered j]" by (simp add: judge_def Let_def)
      then show ?thesis using g DFire p judge_gone [OF g p(2), of env p]
        by (auto simp: dv_do_def dv_fire_def retry_def Let_def arm_gone speaks_of_def split: timer.split)
    qed
  next
    case (DAck j)
    then show ?thesis using g
      by (cases "j = i") (auto simp: dv_do_def on_ack_def gone_def forget_kept_def clearPending_def jm_get_del speaks_of_def
          split: option.split)
  next
    case (DResend j)
    have "gone i (s\<lparr>dv_parked := jm_del j (dv_parked s)\<rparr>)" using g by (simp add: gone_def jm_get_del)
    from arm_gone [OF this] show ?thesis using g DResend
      by (cases "j = i") (auto simp: dv_do_def resend_def gone_def trackDelivery_def speaks_of_def split: option.splits prod.splits)
  next
    case DEstablished
    then show ?thesis using g unpark_gone [OF g] flush_ids_quiet
      by (simp add: dv_do_def) (simp add: unpark_def flushAll_def)
  next
    case DFlush
    then show ?thesis using g unpark_gone [OF g] flush_ids_gone [OF g] flush_ids_quiet
      by (simp add: dv_do_def flushPending_def flushAll_def) (simp add: unpark_def flushAll_def)
  qed
  then show "gone i (snd (dv_do cfg env inp s))" and "\<forall>e \<in> set (fst (dv_do cfg env inp s)). \<not> speaks_of i e" by blast+
qed

fun dv_run :: "dv_cfg \<Rightarrow> (dv_env \<times> dv_input) list \<Rightarrow> delivery \<Rightarrow> dv_effect list \<times> delivery" where
  "dv_run cfg [] s = ([], s)"
| "dv_run cfg ((e, i) # xs) s =
     (case dv_do cfg e i s of (f1, s1) \<Rightarrow> (case dv_run cfg xs s1 of (f2, s2) \<Rightarrow> (f1 @ f2, s2)))"

lemma gone_run:
  "gone i s \<Longrightarrow> \<forall>x \<in> set xs. \<forall>b. snd x \<noteq> DSend i b \<Longrightarrow>
    gone i (snd (dv_run cfg xs s)) \<and> (\<forall>e \<in> set (fst (dv_run cfg xs s)). \<not> speaks_of i e)"
proof (induction xs arbitrary: s)
  case (Cons x xs)
  obtain e inp where x: "x = (e, inp)" by force
  have "\<forall>b. inp \<noteq> DSend i b" using Cons.prems(2) x by simp
  note g = gone_step [OF Cons.prems(1) this, of cfg e]
  show ?case using Cons.IH [OF g(1)] Cons.prems(2) g(2) by (auto simp: x split_beta)
qed simp

subsection \<open>Properties\<close>

text \<open>An id is a fresh nonce: a message is never sent under the id of a parked one.\<close>

fun fresh_ids :: "dv_cfg \<Rightarrow> delivery \<Rightarrow> (dv_env \<times> dv_input) list \<Rightarrow> bool" where
  "fresh_ids cfg s [] = True"
| "fresh_ids cfg s (x # xs) = (fresh_send s (snd x) \<and> fresh_ids cfg (dv_step cfg s x) xs)"

lemma run_dv_inv: "dv_inv s \<Longrightarrow> fresh_ids cfg s xs \<Longrightarrow> dv_inv (run (dv_step cfg) s xs)"
proof (induction xs arbitrary: s)
  case (Cons x xs)
  have "dv_inv (dv_step cfg s x)" using Cons.prems by (simp add: dv_step_def dv_do_inv)
  with Cons show ?case by simp
qed simp

text \<open>
  The books of the delivery contract agree. After any events under fresh ids every pending
  message has a timer set, none is pending and parked at once, a message kept for a re-send has
  the time it was first sent, and at most fifty are parked and fifty kept.
\<close>
theorem delivery_books:
  assumes "fresh_ids cfg no_deliveries xs"
  shows "dv_inv (run (dv_step cfg) no_deliveries xs)"
  using no_deliveries_inv assms by (rule run_dv_inv)

definition demo_dv :: "int \<Rightarrow> bool \<Rightarrow> dv_env" where
  "demo_dv t here = \<lparr>de_now = t, de_peerPresent = here, de_direct = False\<rparr>"

theorem delivery_books_witness:
  "dv_inv (run (dv_step default_dv_cfg) no_deliveries
     [(demo_dv 0 True, DSend [1] [7]), (demo_dv 1500 True, DFire [1]), (demo_dv 1600 True, DAck [1])])"
  by (rule delivery_books) (simp add: fresh_send_def no_deliveries_def dv_step_def dv_do_def)

text \<open>
  C31: an unconfirmed message is reported once, into an empty room as well. A pending message on the
  schedule, whose timer fires once more than the schedule has retries, is reported undelivered as the
  last thing said, exactly once, is pending no more and is kept for a re-send by hand; while somebody
  announced it is not parked, and with nobody in the room all the while it is also parked, as it was
  first sent, for a second try.
\<close>
theorem unconfirmed_reported:
  assumes "dv_inv s" and "jm_get (dv_pending s) i = Some p" and "on_schedule cfg p"
    and "length es \<ge> Suc (length (dc_retries cfg)) - pd_tries p" and "es \<noteq> []"
  shows "\<exists>f1. fst (fires cfg i es s) = f1 @ [Undelivered i] \<and> Undelivered i \<notin> set f1
    \<and> jm_get (dv_pending (snd (fires cfg i es s))) i = None
    \<and> jm_get (dv_resendable (snd (fires cfg i es s))) i = Some (pd_bytes p)
    \<and> (\<forall>here. (\<forall>e\<in>set es. de_peerPresent e = here) \<longrightarrow>
        jm_get (dv_parked (snd (fires cfg i es s))) i = (if here then None else Some (pd_bytes p, pd_sentAt p)))"
  using fires_report [OF assms] fires_parked [OF assms] by auto

theorem unconfirmed_reported_witness:
  "let F = fires default_dv_cfg [1] (map (\<lambda>t. demo_dv t False) [1500, 5500, 13500, 28500, 43500, 51500])
      (trackDelivery default_dv_cfg (demo_dv 0 True) [1] [7] no_deliveries)
    in (\<exists>f1. fst F = f1 @ [Undelivered [1]] \<and> Undelivered [1] \<notin> set f1) \<and> jm_get (dv_parked (snd F)) [1] = Some ([7], 0)"
proof -
  let ?s = "trackDelivery default_dv_cfg (demo_dv 0 True) [1] [7] no_deliveries"
  let ?q = "\<lparr>pd_bytes = [7], pd_sentAt = 0, pd_since = 0, pd_tries = 0, pd_timer = NoTimer\<rparr>"
  let ?p = "?q\<lparr>pd_timer := next_timer default_dv_cfg (demo_dv 0 True) ?q\<rparr>"
  have "dv_inv (snd (dv_do default_dv_cfg (demo_dv 0 True) (DSend [1] [7]) no_deliveries))"
    by (rule dv_do_inv [OF no_deliveries_inv]) (simp add: fresh_send_def no_deliveries_def)
  then have inv: "dv_inv ?s" by (simp add: dv_do_def send_tracked_def)
  have p: "jm_get (dv_pending ?s) [1] = Some ?p"
    by (simp add: trackDelivery_def armRetry_get no_deliveries_def demo_dv_def)
  from unconfirmed_reported [OF inv p next_timer_schedule, of "map (\<lambda>t. demo_dv t False) [1500, 5500, 13500, 28500, 43500, 51500]"]
  show ?thesis by (auto simp: default_dv_cfg_def Let_def demo_dv_def)
qed

text \<open>
  A confirmation is the last word. The acknowledgement of a message the contract still
  follows is reported once, as delivered; after it no event but a new send under the same id says
  anything of that message, a second acknowledgement, a timer or a re-send included.
\<close>
theorem confirmation_is_final:
  assumes "dv_inv s" and "followed s i" and "\<forall>x \<in> set xs. \<forall>b. snd x \<noteq> DSend i b"
  shows "\<exists>e. fst (on_ack env i s) = [e] \<and> speaks_of i e \<and> e \<noteq> Undelivered i
    \<and> (\<forall>e \<in> set (fst (dv_run cfg xs (snd (on_ack env i s)))). \<not> speaks_of i e)"
  using on_ack_once [OF assms(1,2)] gone_run [OF on_ack_gone [OF assms(1)] assms(3)] by blast

theorem confirmation_is_final_witness:
  "\<exists>e. fst (on_ack (demo_dv 1600 True) [1] (trackDelivery default_dv_cfg (demo_dv 0 True) [1] [7] no_deliveries)) = [e]
    \<and> e \<noteq> Undelivered [1]"
proof -
  let ?s = "trackDelivery default_dv_cfg (demo_dv 0 True) [1] [7] no_deliveries"
  have "dv_inv (snd (dv_do default_dv_cfg (demo_dv 0 True) (DSend [1] [7]) no_deliveries))"
    by (rule dv_do_inv [OF no_deliveries_inv]) (simp add: fresh_send_def no_deliveries_def)
  then have inv: "dv_inv ?s" by (simp add: dv_do_def send_tracked_def)
  have "followed ?s [1]" by (simp add: followed_def trackDelivery_def jm_has_def armRetry_get)
  from confirmation_is_final [OF inv this, of "[(demo_dv 1700 True, DAck [1])]" "demo_dv 1600 True" default_dv_cfg] show ?thesis by auto
qed

end
