(* ===== verification/Room.thy ===== *)
theory Room
  imports Establish JsValue
begin

section \<open>A room's peers, handshakes and sessions (lib/room.ts)\<close>

text \<open>
  The part of \<open>joinChat\<close> that decides who is here, when a handshake starts, which one wins and
  which ratchet a peer has. The state is the closure's maps; a handler returns its effects in
  order with the new state. An asynchronous step is cut where it waits: \<open>begin_handshake\<close>
  reserves the slot and emits \<open>Begin\<close> for the call of \<open>startHandshake\<close>, whose outcome comes back
  as \<open>hs_started\<close>, \<open>hs_resolved\<close>, \<open>hs_rejected\<close> or \<open>hs_timeout\<close>; feeding a frame comes back as \<open>fed\<close>.
  An attempt is known by a number, for the identity the closures compare; a cancelled attempt
  is one no longer in the map. \<open>'s\<close> is the session an established handshake gives. Logging,
  the resend timer of the opening frame and the heartbeat's own timers are not modelled.
\<close>

type_synonym peer = jstr

text \<open>JavaScript's \<open><\<close> on strings, by code units.\<close>

fun str_less :: "jstr \<Rightarrow> jstr \<Rightarrow> bool" where
  "str_less _ [] = False"
| "str_less [] (_ # _) = True"
| "str_less (x # xs) (y # ys) = (x < y \<or> x = y \<and> str_less xs ys)"

datatype presence = PJoin | PActive | PAway | PQuiet | PLeave
datatype hs_phase = Handshaking | EstablishedNow | FailedNow

datatype effect =
    Presence peer presence
  | AnnounceNow
  | Begin nat
  | HsPhase peer hs_phase
  | Replaced peer peer
  | Foreign peer
  | Gossip bytes
  | FlushQueued
  | Unpark
  | TryLater peer int
  | RekeyLater peer int

record attempt =
  at_id :: nat
  at_ready :: bool
  at_role :: role
  at_startedAt :: int
  at_msg1 :: "bytes option"
  at_reply :: "bytes option"
  at_rekey :: bool

record 's room =
  rm_lastSeen :: "(peer, int) jmap"
  rm_quiet :: "peer list"
  rm_sessions :: "(peer, 's) jmap"
  rm_previous :: "(peer, 's \<times> int) jmap"
  rm_establishedAt :: "(peer, int) jmap"
  rm_rekeying :: "peer list"
  rm_handshakes :: "(peer, attempt) jmap"
  rm_stuck :: "peer list"
  rm_failed :: "(peer, nat) jmap"
  rm_backoffUntil :: "(peer, int) jmap"
  rm_everEstablished :: "peer list"
  rm_declaredForeign :: "(peer, int) jmap"
  rm_warnedForeign :: bool
  rm_seenSeq :: "(peer \<times> jsnum) list"
  rm_topSeq :: "(peer, jsnum) jmap"
  rm_queued :: "bytes list"
  rm_nextId :: nat

record room_cfg =
  rg_self :: peer
  rg_heartbeatMs :: int
  rg_lifetimeMs :: int
  rg_maxQueued :: nat

definition PREVIOUS_GRACE_MS :: int where "PREVIOUS_GRACE_MS = 60000"
definition RETRY_SOON_MS :: int where "RETRY_SOON_MS = 200"
definition RETRY_JITTER_MS :: int where "RETRY_JITTER_MS = 1400"
definition CALM_AFTER :: nat where "CALM_AFTER = 16"
definition CALM_MS :: int where "CALM_MS = 3000"
definition GIVE_ROOM_AFTER :: nat where "GIVE_ROOM_AFTER = 24"
definition GIVE_ROOM_MS :: int where "GIVE_ROOM_MS = 10000"
definition NOT_OURS_MS :: int where "NOT_OURS_MS = 5 * 60000"
definition CROSSED_MS :: int where "CROSSED_MS = 2000"

definition ttlMs :: "room_cfg \<Rightarrow> int" where
  "ttlMs cfg = max (rg_heartbeatMs cfg * 6) 90000"

text \<open>Twice the quiet threshold, \<open>max(heartbeatMs * 2.5, 35_000)\<close>, to stay in the integers.\<close>

definition quietMs2 :: "room_cfg \<Rightarrow> int" where
  "quietMs2 cfg = max (rg_heartbeatMs cfg * 5) 70000"

text \<open>Silent for less than one and a half heartbeats; a peer never seen counts from zero.\<close>

definition seen_at :: "'s room \<Rightarrow> peer \<Rightarrow> int" where
  "seen_at s p = (case jm_get (rm_lastSeen s) p of Some t \<Rightarrow> t | None \<Rightarrow> 0)"

definition answering :: "room_cfg \<Rightarrow> int \<Rightarrow> 's room \<Rightarrow> peer \<Rightarrow> bool" where
  "answering cfg now s p = (2 * (now - seen_at s p) < 3 * rg_heartbeatMs cfg)"

subsection \<open>Sets\<close>

definition ins :: "'a \<Rightarrow> 'a list \<Rightarrow> 'a list" where
  "ins x xs = (if x \<in> set xs then xs else xs @ [x])"

definition del :: "'a \<Rightarrow> 'a list \<Rightarrow> 'a list" where
  "del x xs = filter (\<lambda>y. y \<noteq> x) xs"

subsection \<open>Forgetting\<close>

definition clearAttempt :: "peer \<Rightarrow> 's room \<Rightarrow> 's room" where
  "clearAttempt p s = s\<lparr>rm_handshakes := jm_del p (rm_handshakes s)\<rparr>"

text \<open>
  \<open>forgetStream\<close> drops the keys that start with the peer and a colon: the peer's own, and those of
  a peer whose id goes on after a colon.
\<close>

definition same_stream :: "peer \<Rightarrow> peer \<Rightarrow> bool" where
  "same_stream p q = (take (length p + 1) (q @ js '':'') = p @ js '':'')"

definition forgetStream :: "peer \<Rightarrow> 's room \<Rightarrow> 's room" where
  "forgetStream p s = s\<lparr>rm_topSeq := jm_del p (rm_topSeq s), rm_seenSeq := filter (\<lambda>x. \<not> same_stream p (fst x)) (rm_seenSeq s)\<rparr>"

definition forgetPeer :: "peer \<Rightarrow> 's room \<Rightarrow> 's room" where
  "forgetPeer p s = (let s1 = forgetStream p (clearAttempt p s) in
     s1\<lparr>rm_sessions := jm_del p (rm_sessions s1), rm_previous := jm_del p (rm_previous s1),
        rm_establishedAt := jm_del p (rm_establishedAt s1), rm_rekeying := del p (rm_rekeying s1),
        rm_stuck := del p (rm_stuck s1)\<rparr>)"

definition drop_seen :: "peer \<Rightarrow> 's room \<Rightarrow> 's room" where
  "drop_seen p s = s\<lparr>rm_lastSeen := jm_del p (rm_lastSeen s)\<rparr>"

subsection \<open>Starting a handshake\<close>

definition begin_handshake :: "int \<Rightarrow> peer \<Rightarrow> role \<Rightarrow> bytes option \<Rightarrow> 's room \<Rightarrow> nat \<times> effect list \<times> 's room" where
  "begin_handshake now p r m s =
     (let s1 = clearAttempt p s; i = rm_nextId s1 in
      (i, [Begin i], s1\<lparr>rm_handshakes := jm_set p \<lparr>at_id = i, at_ready = False, at_role = r, at_startedAt = now,
          at_msg1 = m, at_reply = None, at_rekey = jm_has (rm_sessions s1) p\<rparr> (rm_handshakes s1),
        rm_nextId := Suc i\<rparr>))"

definition inBackoff :: "int \<Rightarrow> 's room \<Rightarrow> peer \<Rightarrow> bool" where
  "inBackoff now s p = (now < (case jm_get (rm_backoffUntil s) p of Some t \<Rightarrow> t | None \<Rightarrow> 0))"

definition maybeHandshake :: "room_cfg \<Rightarrow> int \<Rightarrow> peer \<Rightarrow> 's room \<Rightarrow> effect list \<times> 's room" where
  "maybeHandshake cfg now p s =
     (if p = rg_self cfg then ([], s)
      else if inBackoff now s p then ([], s)
      else if jm_has (rm_sessions s) p then ([], s)
      else if jm_has (rm_handshakes s) p then ([], s)
      else if \<not> jm_has (rm_lastSeen s) p then ([], s)
      else snd (begin_handshake now p Initiator None s))"

definition touch :: "room_cfg \<Rightarrow> int \<Rightarrow> peer \<Rightarrow> 's room \<Rightarrow> effect list \<times> 's room" where
  "touch cfg now p s =
     (let fresh = \<not> jm_has (rm_lastSeen s) p;
          s1 = s\<lparr>rm_lastSeen := jm_set p now (rm_lastSeen s), rm_quiet := del p (rm_quiet s)\<rparr>;
          e1 = (if p \<in> set (rm_quiet s) then [Presence p PActive] else []);
          e2 = (if fresh then [Presence p PJoin, AnnounceNow] else [])
      in case maybeHandshake cfg now p s1 of (e3, s2) \<Rightarrow> (e1 @ e2 @ e3, s2))"

subsection \<open>An attempt that came to nothing\<close>

definition retry_wait :: "int \<Rightarrow> bool \<Rightarrow> nat \<Rightarrow> int" where
  "retry_wait jitter ever n =
     (if ever \<or> n < CALM_AFTER then RETRY_SOON_MS + jitter
      else if n < GIVE_ROOM_AFTER then CALM_MS else GIVE_ROOM_MS)"

text \<open>\<open>jitter\<close> is \<open>Math.floor(Math.random() * 1400)\<close>, drawn in the call.\<close>

definition giveUp :: "int \<Rightarrow> int \<Rightarrow> peer \<Rightarrow> attempt \<Rightarrow> 's room \<Rightarrow> effect list \<times> 's room" where
  "giveUp now jitter p a s =
     (if jm_has (rm_sessions s) p then
        (if \<not> at_rekey a then ([], s)
         else let s1 = s\<lparr>rm_rekeying := del p (rm_rekeying s)\<rparr> in
           if \<not> jm_has (rm_lastSeen s) p then ([], s1)
           else ([RekeyLater p (RETRY_SOON_MS + jitter)], s1\<lparr>rm_rekeying := ins p (rm_rekeying s1)\<rparr>))
      else
        let n = (case jm_get (rm_failed s) p of Some k \<Rightarrow> k | None \<Rightarrow> 0) + 1;
            s1 = s\<lparr>rm_failed := jm_set p n (rm_failed s), rm_stuck := ins p (rm_stuck s)\<rparr>
        in if \<not> jm_has (rm_lastSeen s) p then ([HsPhase p FailedNow], s1)
        else
          let ever = (p \<in> set (rm_everEstablished s)); wait = retry_wait jitter ever n;
              warn = (\<not> ever \<and> (n = CALM_AFTER \<or> n = GIVE_ROOM_AFTER) \<and> \<not> rm_warnedForeign s)
          in ([HsPhase p FailedNow] @ (if warn then [Foreign p] else []) @ [TryLater p wait],
              s1\<lparr>rm_warnedForeign := (rm_warnedForeign s \<or> warn),
                 rm_backoffUntil := jm_set p (now + wait) (rm_backoffUntil s)\<rparr>))"

text \<open>The retry of a re-key, when its timer runs out.\<close>

definition rekey_retry :: "int \<Rightarrow> peer \<Rightarrow> 's room \<Rightarrow> effect list \<times> 's room" where
  "rekey_retry now p s =
     (let s1 = s\<lparr>rm_rekeying := del p (rm_rekeying s)\<rparr> in
      if jm_has (rm_sessions s1) p \<and> \<not> jm_has (rm_handshakes s1) p \<and> jm_has (rm_lastSeen s1) p
      then snd (begin_handshake now p Initiator None (s1\<lparr>rm_rekeying := ins p (rm_rekeying s1)\<rparr>))
      else ([], s1))"

subsection \<open>The outcome of an attempt\<close>

definition live_attempt :: "nat \<Rightarrow> 's room \<Rightarrow> (peer \<times> attempt) option" where
  "live_attempt i s = find (\<lambda>x. at_id (snd x) = i) (rm_handshakes s)"

definition hs_started :: "nat \<Rightarrow> bytes list \<Rightarrow> 's room \<Rightarrow> effect list \<times> 's room" where
  "hs_started i initial s =
     (case live_attempt i s of
        None \<Rightarrow> ([], s)
      | Some (p, a) \<Rightarrow> ([HsPhase p Handshaking] @ map Gossip initial,
          s\<lparr>rm_handshakes := jm_set p (a\<lparr>at_ready := True\<rparr>) (rm_handshakes s)\<rparr>))"

definition hs_start_failed :: "nat \<Rightarrow> 's room \<Rightarrow> 's room" where
  "hs_start_failed i s = (case live_attempt i s of None \<Rightarrow> s | Some (p, a) \<Rightarrow> clearAttempt p s)"

fun retire_loop :: "room_cfg \<Rightarrow> int \<Rightarrow> peer \<Rightarrow> peer list \<Rightarrow> 's room \<Rightarrow> effect list \<times> 's room" where
  "retire_loop cfg now keep [] s = ([], s)"
| "retire_loop cfg now keep (old # ps) s =
     (if old = keep \<or> answering cfg now s old then retire_loop cfg now keep ps s
      else case retire_loop cfg now keep ps (drop_seen old (forgetPeer old s)) of
        (es, s') \<Rightarrow> (Replaced old keep # es, s'))"

definition retireOtherPeers :: "room_cfg \<Rightarrow> int \<Rightarrow> peer \<Rightarrow> 's room \<Rightarrow> effect list \<times> 's room" where
  "retireOtherPeers cfg now keep s = retire_loop cfg now keep (jm_keys (rm_sessions s)) s"

definition install :: "int \<Rightarrow> peer \<Rightarrow> 's \<Rightarrow> 's room \<Rightarrow> 's room" where
  "install now p ses s0 =
     (let s1 = clearAttempt p s0;
          prev = (case jm_get (rm_sessions s1) p of
              None \<Rightarrow> rm_previous s1
            | Some old \<Rightarrow> jm_set p (old, now + PREVIOUS_GRACE_MS) (rm_previous s1));
          s2 = forgetStream p (s1\<lparr>rm_stuck := del p (rm_stuck s1), rm_previous := prev\<rparr>)
      in s2\<lparr>rm_failed := jm_del p (rm_failed s2), rm_backoffUntil := jm_del p (rm_backoffUntil s2),
            rm_everEstablished := ins p (rm_everEstablished s2), rm_sessions := jm_set p ses (rm_sessions s2),
            rm_establishedAt := jm_set p now (rm_establishedAt s2), rm_rekeying := del p (rm_rekeying s2)\<rparr>)"

definition hs_resolved :: "room_cfg \<Rightarrow> int \<Rightarrow> bool \<Rightarrow> nat \<Rightarrow> 's \<Rightarrow> 's room \<Rightarrow> effect list \<times> 's room" where
  "hs_resolved cfg now anyParked i ses s =
     (case live_attempt i s of
        None \<Rightarrow> ([], s)
      | Some (p, a) \<Rightarrow>
          (case retireOtherPeers cfg now p (install now p ses s) of (es, s') \<Rightarrow>
            (es @ [HsPhase p EstablishedNow, FlushQueued] @ (if anyParked then [Unpark] else []), s')))"

text \<open>A rejected session promise and the attempt's timeout do the same.\<close>

definition hs_rejected :: "int \<Rightarrow> int \<Rightarrow> nat \<Rightarrow> 's room \<Rightarrow> effect list \<times> 's room" where
  "hs_rejected now jitter i s =
     (case live_attempt i s of
        None \<Rightarrow> ([], s)
      | Some (p, a) \<Rightarrow> giveUp now jitter p a (clearAttempt p s))"

definition hs_timeout :: "int \<Rightarrow> int \<Rightarrow> nat \<Rightarrow> 's room \<Rightarrow> effect list \<times> 's room" where
  "hs_timeout now jitter i s = hs_rejected now jitter i s"

definition notOurContact :: "int \<Rightarrow> peer \<Rightarrow> 's room \<Rightarrow> effect list \<times> 's room" where
  "notOurContact now p s =
     (if (case jm_get (rm_declaredForeign s) p of None \<Rightarrow> False | Some t \<Rightarrow> now - t < NOT_OURS_MS) then ([], s)
      else ([HsPhase p FailedNow, Presence p PLeave] @ (if rm_warnedForeign s then [] else [Foreign p]),
        (clearAttempt p s)\<lparr>rm_declaredForeign := jm_set p now (rm_declaredForeign s),
          rm_backoffUntil := jm_set p (now + NOT_OURS_MS) (rm_backoffUntil s),
          rm_lastSeen := jm_del p (rm_lastSeen s), rm_quiet := del p (rm_quiet s), rm_stuck := del p (rm_stuck s),
          rm_warnedForeign := True\<rparr>))"

subsection \<open>Handshake frames\<close>

text \<open>An answer from a peer id we are not handshaking with: the one live initiator attempt follows it.\<close>

definition followMovedPeer :: "room_cfg \<Rightarrow> int \<Rightarrow> peer \<Rightarrow> 's room \<Rightarrow> attempt option \<times> 's room" where
  "followMovedPeer cfg now from s =
     (case filter (\<lambda>x. at_role (snd x) = Initiator \<and> at_ready (snd x)) (rm_handshakes s) of
        [(old, a)] \<Rightarrow>
          if old = from then (Some a, s)
          else let s1 = s\<lparr>rm_handshakes := jm_set from a (jm_del old (rm_handshakes s))\<rparr> in
            if answering cfg now s old then (Some a, s1)
            else (Some a, s1\<lparr>rm_lastSeen := jm_del old (rm_lastSeen s1), rm_quiet := del old (rm_quiet s1),
              rm_backoffUntil := jm_del old (rm_backoffUntil s1), rm_failed := jm_del old (rm_failed s1)\<rparr>)
      | _ \<Rightarrow> (None, s))"

text \<open>Their msg1 crossed our fresh one, and we are the lower id: hold the ground.\<close>

definition holds_ground :: "room_cfg \<Rightarrow> int \<Rightarrow> peer \<Rightarrow> attempt option \<Rightarrow> bool" where
  "holds_ground cfg now from a = (case a of None \<Rightarrow> False
     | Some x \<Rightarrow> at_role x = Initiator \<and> str_less (rg_self cfg) from \<and> now - at_startedAt x < CROSSED_MS)"

text \<open>What a handshake frame leads to: nothing, or the attempt it is fed to once that one has keys.\<close>

definition on_handshake_frame ::
  "room_cfg \<Rightarrow> int \<Rightarrow> bytes \<Rightarrow> peer \<Rightarrow> 's room \<Rightarrow> (effect list \<times> nat option) \<times> 's room" where
  "on_handshake_frame cfg now data from s =
     (if from = rg_self cfg then (([], None), s)
      else if inBackoff now s from then (([], None), s)
      else let a = jm_get (rm_handshakes s) from in
        if data \<noteq> [] \<and> hd data = T_MSG1 then
          (if (case a of None \<Rightarrow> False | Some x \<Rightarrow> at_role x = Responder \<and> at_msg1 x = Some data)
           then ((case Option.bind a at_reply of None \<Rightarrow> [] | Some m \<Rightarrow> [Gossip m], None), s)
           else if holds_ground cfg now from a then (([], None), s)
           else (case begin_handshake now from Responder (Some data) s of (i, es, s') \<Rightarrow> ((es, Some i), s')))
        else (case a of
            Some x \<Rightarrow> (([], if at_ready x then Some (at_id x) else None), s)
          | None \<Rightarrow> (case followMovedPeer cfg now from s of
              (None, s') \<Rightarrow> (([], None), s')
            | (Some x, s') \<Rightarrow> (([], Some (at_id x)), s'))))"

datatype feed_result = FedReply "bytes option" | FedTagError | FedError

definition fed :: "int \<Rightarrow> peer \<Rightarrow> nat \<Rightarrow> feed_result \<Rightarrow> 's room \<Rightarrow> effect list \<times> 's room" where
  "fed now from i r s =
     (case r of
        FedReply None \<Rightarrow> ([], s)
      | FedReply (Some m) \<Rightarrow> ([Gossip m],
          (case live_attempt i s of None \<Rightarrow> s
           | Some (p, a) \<Rightarrow> s\<lparr>rm_handshakes := jm_set p (a\<lparr>at_reply := Some m\<rparr>) (rm_handshakes s)\<rparr>))
      | FedTagError \<Rightarrow> notOurContact now from s
      | FedError \<Rightarrow> ([], s))"

subsection \<open>The sweep\<close>

fun sweep_seen :: "room_cfg \<Rightarrow> int \<Rightarrow> (peer \<times> int) list \<Rightarrow> 's room \<Rightarrow> effect list \<times> 's room" where
  "sweep_seen cfg now [] s = ([], s)"
| "sweep_seen cfg now ((p, t) # ps) s =
     (if now - t > ttlMs cfg
      then (case sweep_seen cfg now ps (s\<lparr>rm_lastSeen := jm_del p (rm_lastSeen s), rm_quiet := del p (rm_quiet s)\<rparr>) of
        (es, s') \<Rightarrow> (Presence p PLeave # es, s'))
      else if 2 * (now - t) > quietMs2 cfg \<and> p \<notin> set (rm_quiet s)
      then (case sweep_seen cfg now ps (s\<lparr>rm_quiet := ins p (rm_quiet s)\<rparr>) of (es, s') \<Rightarrow> (Presence p PQuiet # es, s'))
      else sweep_seen cfg now ps s)"

fun retire_silent :: "peer list \<Rightarrow> peer list \<Rightarrow> 's room \<Rightarrow> effect list \<times> 's room" where
  "retire_silent alive [] s = ([], s)"
| "retire_silent alive (p # ps) s =
     (if p \<in> set alive then retire_silent alive ps s
      else case retire_silent alive ps (drop_seen p (forgetPeer p s)) of (es, s') \<Rightarrow> (Replaced p (last alive) # es, s'))"

definition sweep_sessions :: "room_cfg \<Rightarrow> int \<Rightarrow> 's room \<Rightarrow> effect list \<times> 's room" where
  "sweep_sessions cfg now s =
     (let ps = jm_keys (rm_sessions s); alive = filter (answering cfg now s) ps in
      if length ps > 1 \<and> alive \<noteq> [] then retire_silent alive ps s else ([], s))"

definition due :: "room_cfg \<Rightarrow> int \<Rightarrow> peer \<Rightarrow> int \<Rightarrow> 's room \<Rightarrow> bool" where
  "due cfg now p t s = (now - t \<ge> rg_lifetimeMs cfg \<and> jm_has (rm_sessions s) p \<and> \<not> jm_has (rm_handshakes s) p
     \<and> p \<notin> set (rm_rekeying s) \<and> jm_has (rm_lastSeen s) p \<and> str_less (rg_self cfg) p)"

fun sweep_lifetimes :: "room_cfg \<Rightarrow> int \<Rightarrow> (peer \<times> int) list \<Rightarrow> 's room \<Rightarrow> effect list \<times> 's room" where
  "sweep_lifetimes cfg now [] s = ([], s)"
| "sweep_lifetimes cfg now ((p, t) # ps) s =
     (if due cfg now p t s
      then (case begin_handshake now p Initiator None (s\<lparr>rm_rekeying := ins p (rm_rekeying s)\<rparr>) of (i, e1, s1) \<Rightarrow>
        (case sweep_lifetimes cfg now ps s1 of (e2, s2) \<Rightarrow> (e1 @ e2, s2)))
      else sweep_lifetimes cfg now ps s)"

definition sweep :: "room_cfg \<Rightarrow> int \<Rightarrow> 's room \<Rightarrow> effect list \<times> 's room" where
  "sweep cfg now s =
     (case sweep_seen cfg now (rm_lastSeen s) s of (e1, s1) \<Rightarrow>
        (case sweep_sessions cfg now (s1\<lparr>rm_previous := filter (\<lambda>x. \<not> now > snd (snd x)) (rm_previous s1)\<rparr>) of (e2, s2) \<Rightarrow>
          (case sweep_lifetimes cfg now (rm_establishedAt s2) s2 of (e3, s3) \<Rightarrow> (e1 @ e2 @ e3, s3))))"

subsection \<open>Content\<close>

text \<open>\<open>processSealed\<close>: which ratchet a frame is tried on, given what each makes of it.\<close>

datatype opened = Plain bytes | NotOurs | Throws

definition process_sealed :: "int \<Rightarrow> peer \<Rightarrow> ('s \<Rightarrow> opened \<times> 's) \<Rightarrow> 's room \<Rightarrow> bytes option \<times> 's room" where
  "process_sealed now from decrypt s =
     (case jm_get (rm_sessions s) from of
        None \<Rightarrow> (None, s)
      | Some ses \<Rightarrow> (case decrypt ses of (r, ses') \<Rightarrow>
          let s1 = s\<lparr>rm_sessions := jm_set from ses' (rm_sessions s)\<rparr> in
          case r of
            Plain pt \<Rightarrow> (Some pt, s1)
          | Throws \<Rightarrow> (None, s1)
          | NotOurs \<Rightarrow> (case jm_get (rm_previous s1) from of
              None \<Rightarrow> (None, s1)
            | Some (old, until) \<Rightarrow>
                if now > until then (None, s1)
                else (case decrypt old of (r2, old') \<Rightarrow>
                  (case r2 of Plain pt \<Rightarrow> Some pt | _ \<Rightarrow> None,
                   s1\<lparr>rm_previous := jm_set from (old', until) (rm_previous s1)\<rparr>)))))"

text \<open>JavaScript's \<open><\<close> on numbers.\<close>

definition num_less :: "jsnum \<Rightarrow> jsnum \<Rightarrow> bool" where
  "num_less a b = (case (a, b) of
     (Fin x, Fin y) \<Rightarrow> x < y
   | (Fin _, PosInf) \<Rightarrow> True
   | (NegInf, Fin _) \<Rightarrow> True
   | (NegInf, PosInf) \<Rightarrow> True
   | _ \<Rightarrow> False)"

definition firstSeq :: "peer \<Rightarrow> jsnum \<Rightarrow> 's room \<Rightarrow> bool \<times> 's room" where
  "firstSeq p n s = (if (p, n) \<in> set (rm_seenSeq s) then (False, s) else (True, s\<lparr>rm_seenSeq := rm_seenSeq s @ [(p, n)]\<rparr>))"

definition outOfOrder :: "peer \<Rightarrow> jsnum \<Rightarrow> 's room \<Rightarrow> bool \<times> 's room" where
  "outOfOrder p n s =
     (case jm_get (rm_topSeq s) p of
        None \<Rightarrow> (False, s\<lparr>rm_topSeq := jm_set p n (rm_topSeq s)\<rparr>)
      | Some hi \<Rightarrow> if num_less hi n then (False, s\<lparr>rm_topSeq := jm_set p n (rm_topSeq s)\<rparr>) else (True, s))"

text \<open>A \<open>msg\<close> envelope: shown once per sequence number, with whether it belongs behind one already shown.\<close>

definition dispatch_msg :: "room_cfg \<Rightarrow> int \<Rightarrow> peer \<Rightarrow> jsnum \<Rightarrow> 's room \<Rightarrow> bool option \<times> effect list \<times> 's room" where
  "dispatch_msg cfg now from n s =
     (case touch cfg now from s of (es, s1) \<Rightarrow>
        (case firstSeq from n s1 of
          (False, s2) \<Rightarrow> (None, es, s2)
        | (True, s2) \<Rightarrow> (case outOfOrder from n s2 of (late, s3) \<Rightarrow> (Some late, es, s3))))"

definition peer_left :: "peer \<Rightarrow> 's room \<Rightarrow> effect list \<times> 's room" where
  "peer_left p s = ([Presence p PLeave], forgetPeer p (drop_seen p s))"

text \<open>\<open>emitContent\<close>: with no session the frame waits in a bounded queue; otherwise it is sealed for every session.\<close>

definition queue_content :: "room_cfg \<Rightarrow> bytes \<Rightarrow> 's room \<Rightarrow> 's room" where
  "queue_content cfg b s =
     (if rm_sessions s \<noteq> [] then s
      else if length (rm_queued s) < rg_maxQueued cfg then s\<lparr>rm_queued := rm_queued s @ [b]\<rparr> else s)"

definition take_queued :: "'s room \<Rightarrow> bytes list \<times> 's room" where
  "take_queued s = (if rm_queued s = [] \<or> rm_sessions s = [] then ([], s) else (rm_queued s, s\<lparr>rm_queued := []\<rparr>))"

subsection \<open>Seeding and moving\<close>

fun try_all :: "room_cfg \<Rightarrow> int \<Rightarrow> peer list \<Rightarrow> 's room \<Rightarrow> effect list \<times> 's room" where
  "try_all cfg now [] s = ([], s)"
| "try_all cfg now (p # ps) s =
     (case maybeHandshake cfg now p s of (e1, s1) \<Rightarrow> (case try_all cfg now ps s1 of (e2, s2) \<Rightarrow> (e1 @ e2, s2)))"

text \<open>\<open>retarget\<close> to a topic that is new: every attempt carries a tag under the old day's key.\<close>

definition retarget :: "room_cfg \<Rightarrow> int \<Rightarrow> 's room \<Rightarrow> effect list \<times> 's room" where
  "retarget cfg now s =
     (case try_all cfg now (jm_keys (rm_lastSeen s)) (s\<lparr>rm_handshakes := []\<rparr>) of (es, s') \<Rightarrow> (AnnounceNow # es, s'))"

fun seed :: "room_cfg \<Rightarrow> int \<Rightarrow> (peer \<times> int) list \<Rightarrow> 's room \<Rightarrow> effect list \<times> 's room" where
  "seed cfg now [] s = ([], s)"
| "seed cfg now ((p, t) # ps) s =
     (if p \<noteq> rg_self cfg \<and> 2 * (now - t) \<le> quietMs2 cfg \<and> \<not> jm_has (rm_lastSeen s) p
      then (case touch cfg now p s of (e1, s1) \<Rightarrow> (case seed cfg now ps s1 of (e2, s2) \<Rightarrow> (e1 @ e2, s2)))
      else seed cfg now ps s)"

definition stop_room :: "'s room \<Rightarrow> 's room" where
  "stop_room s = s\<lparr>rm_handshakes := [], rm_sessions := [], rm_previous := [], rm_establishedAt := [], rm_queued := []\<rparr>"

definition empty_room :: "'s room" where
  "empty_room = \<lparr>rm_lastSeen = [], rm_quiet = [], rm_sessions = [], rm_previous = [], rm_establishedAt = [], rm_rekeying = [],
     rm_handshakes = [], rm_stuck = [], rm_failed = [], rm_backoffUntil = [], rm_everEstablished = [],
     rm_declaredForeign = [], rm_warnedForeign = False, rm_seenSeq = [], rm_topSeq = [], rm_queued = [], rm_nextId = 0\<rparr>"

end
