(* ===== verification/RoomFacts.thy ===== *)
theory RoomFacts
  imports Room
begin

section \<open>A ratchet is given up only for a reason\<close>

text \<open>
  \<open>room_do\<close> gathers the handlers. The invariant says that the maps are maps, that every
  session has the time it was established, that attempts are told apart by their numbers, that
  the queue is bounded and no sequence number is remembered twice. \<open>session_lost\<close> lists the
  only ways a peer's ratchet goes: it left, the room stopped, or it went silent while another
  session was live.
\<close>

datatype 's rm_input =
    RTouch peer
  | RTry peer
  | RRekeyRetry peer
  | RStarted nat "bytes list"
  | RStartFailed nat
  | RResolved nat 's bool
  | RRejected nat int
  | RFrame bytes peer
  | RFed peer nat feed_result
  | RSweep
  | RSealed peer "'s \<Rightarrow> opened \<times> 's"
  | RMsg peer jsnum
  | RLeft peer
  | RContent bytes
  | RFlush
  | RRetarget
  | RSeed "(peer \<times> int) list"
  | RStop

definition room_do :: "room_cfg \<Rightarrow> int \<Rightarrow> 's rm_input \<Rightarrow> 's room \<Rightarrow> effect list \<times> 's room" where
  "room_do cfg now inp s = (case inp of
     RTouch p \<Rightarrow> touch cfg now p s
   | RTry p \<Rightarrow> maybeHandshake cfg now p s
   | RRekeyRetry p \<Rightarrow> rekey_retry now p s
   | RStarted i fs \<Rightarrow> hs_started i fs s
   | RStartFailed i \<Rightarrow> ([], hs_start_failed i s)
   | RResolved i ses parked \<Rightarrow> hs_resolved cfg now parked i ses s
   | RRejected i jitter \<Rightarrow> hs_rejected now jitter i s
   | RFrame data p \<Rightarrow> (fst (fst (on_handshake_frame cfg now data p s)), snd (on_handshake_frame cfg now data p s))
   | RFed p i r \<Rightarrow> fed now p i r s
   | RSweep \<Rightarrow> sweep cfg now s
   | RSealed p d \<Rightarrow> ([], snd (process_sealed now p d s))
   | RMsg p n \<Rightarrow> snd (dispatch_msg cfg now p n s)
   | RLeft p \<Rightarrow> peer_left p s
   | RContent b \<Rightarrow> ([], queue_content cfg b s)
   | RFlush \<Rightarrow> ([], snd (take_queued s))
   | RRetarget \<Rightarrow> retarget cfg now s
   | RSeed ps \<Rightarrow> seed cfg now ps s
   | RStop \<Rightarrow> ([], stop_room s))"

definition room_step :: "room_cfg \<Rightarrow> 's room \<Rightarrow> int \<times> 's rm_input \<Rightarrow> 's room" where
  "room_step cfg s i = snd (room_do cfg (fst i) (snd i) s)"

subsection \<open>The invariant\<close>

definition ids_ok :: "(peer, attempt) jmap \<Rightarrow> nat \<Rightarrow> bool" where
  "ids_ok m n \<longleftrightarrow> jm_inv m \<and> (\<forall>p a. jm_get m p = Some a \<longrightarrow> at_id a < n)
     \<and> (\<forall>p q a b. jm_get m p = Some a \<longrightarrow> jm_get m q = Some b \<longrightarrow> at_id a = at_id b \<longrightarrow> p = q)"

definition room_inv :: "room_cfg \<Rightarrow> 's room \<Rightarrow> bool" where
  "room_inv cfg s \<longleftrightarrow> jm_inv (rm_sessions s) \<and> jm_inv (rm_lastSeen s) \<and> jm_inv (rm_establishedAt s)
     \<and> (\<forall>p. (jm_get (rm_sessions s) p = None) = (jm_get (rm_establishedAt s) p = None))
     \<and> ids_ok (rm_handshakes s) (rm_nextId s)
     \<and> length (rm_queued s) \<le> rg_maxQueued cfg \<and> distinct (rm_seenSeq s)"

lemma empty_room_inv: "room_inv cfg empty_room"
  by (simp add: room_inv_def empty_room_def ids_ok_def)

lemma ids_ok_del: "ids_ok m n \<Longrightarrow> ids_ok (jm_del p m) n"
  by (auto simp: ids_ok_def jm_get_del split: if_splits)

lemma ids_ok_set_new: "ids_ok m n \<Longrightarrow> at_id a = n \<Longrightarrow> ids_ok (jm_set p a m) (Suc n)"
  unfolding ids_ok_def jm_get_set by (auto split: if_splits intro: less_SucI) (metis less_irrefl)+

lemma ids_ok_update: "ids_ok m n \<Longrightarrow> jm_get m p = Some a \<Longrightarrow> at_id b = at_id a \<Longrightarrow> ids_ok (jm_set p b m) n"
  by (auto simp: ids_ok_def jm_get_set split: if_splits)

lemma ids_ok_move:
  "ids_ok m n \<Longrightarrow> jm_get m old = Some a \<Longrightarrow> ids_ok (jm_set from a (jm_del old m)) n"
  by (auto simp: ids_ok_def jm_get_set jm_get_del split: if_splits)

lemma live_attempt_get: "ids_ok (rm_handshakes s) n \<Longrightarrow> live_attempt i s = Some (p, a) \<Longrightarrow> jm_get (rm_handshakes s) p = Some a \<and> at_id a = i"
proof -
  assume ids: "ids_ok (rm_handshakes s) n" and f: "live_attempt i s = Some (p, a)"
  then obtain k where "k < length (rm_handshakes s)" "rm_handshakes s ! k = (p, a)" "at_id (snd (rm_handshakes s ! k)) = i"
    unfolding live_attempt_def find_Some_iff by metis
  then have "(p, a) \<in> set (rm_handshakes s)" "at_id a = i" using nth_mem by force+
  then show ?thesis using ids by (simp add: ids_ok_def jm_get_iff_mem)
qed

text \<open>A handler whose changes do not concern the invariant.\<close>

definition same_core :: "'s room \<Rightarrow> 's room \<Rightarrow> bool" where
  "same_core s s' \<longleftrightarrow> rm_sessions s' = rm_sessions s \<and> rm_establishedAt s' = rm_establishedAt s
     \<and> rm_seenSeq s' = rm_seenSeq s"

lemma begin_handshake_inv: "room_inv cfg s \<Longrightarrow> room_inv cfg (snd (snd (begin_handshake now p r m s)))"
  by (simp add: room_inv_def begin_handshake_def Let_def clearAttempt_def ids_ok_set_new ids_ok_del)

lemma begin_handshake_core: "same_core s (snd (snd (begin_handshake now p r m s)))"
  by (simp add: same_core_def begin_handshake_def Let_def clearAttempt_def)

lemma same_core_refl [simp]: "same_core s s"
  by (simp add: same_core_def)

lemma same_core_trans: "same_core s t \<Longrightarrow> same_core t u \<Longrightarrow> same_core s u"
  by (simp add: same_core_def)

lemma maybeHandshake_inv: "room_inv cfg s \<Longrightarrow> room_inv cfg (snd (maybeHandshake cfg' now p s))"
  using begin_handshake_inv [of cfg s now p Initiator None] by (simp add: maybeHandshake_def)

lemma maybeHandshake_core: "same_core s (snd (maybeHandshake cfg now p s))"
  using begin_handshake_core [of s now p Initiator None] by (simp add: maybeHandshake_def)

lemma touch_inv:
  assumes "room_inv cfg s"
  shows "room_inv cfg (snd (touch cfg' now p s))"
proof -
  let ?s1 = "s\<lparr>rm_lastSeen := jm_set p now (rm_lastSeen s), rm_quiet := del p (rm_quiet s)\<rparr>"
  have "room_inv cfg ?s1" using assms by (simp add: room_inv_def)
  then show ?thesis using maybeHandshake_inv [of cfg ?s1 cfg' now p] by (simp add: touch_def Let_def split_beta)
qed

lemma touch_core: "same_core s (snd (touch cfg now p s))"
proof -
  let ?s1 = "s\<lparr>rm_lastSeen := jm_set p now (rm_lastSeen s), rm_quiet := del p (rm_quiet s)\<rparr>"
  have "same_core s ?s1" by (simp add: same_core_def)
  with maybeHandshake_core [of ?s1 cfg now p] show ?thesis
    using same_core_trans by (simp add: touch_def Let_def split_beta) blast
qed

lemma clearAttempt_inv: "room_inv cfg s \<Longrightarrow> room_inv cfg (clearAttempt p s)"
  by (simp add: room_inv_def clearAttempt_def ids_ok_del)

lemma clearAttempt_core [simp]: "same_core s (clearAttempt p s)"
  by (simp add: same_core_def clearAttempt_def)

lemma forgetPeer_inv: "room_inv cfg s \<Longrightarrow> room_inv cfg (forgetPeer p s)"
  by (simp add: room_inv_def forgetPeer_def forgetStream_def clearAttempt_def Let_def ids_ok_del jm_get_del)

lemma forgetPeer_sessions [simp]: "rm_sessions (forgetPeer p s) = jm_del p (rm_sessions s)"
  by (simp add: forgetPeer_def forgetStream_def clearAttempt_def Let_def)

lemma forgetPeer_lastSeen [simp]: "rm_lastSeen (forgetPeer p s) = rm_lastSeen s"
  by (simp add: forgetPeer_def forgetStream_def clearAttempt_def Let_def)

lemma drop_seen_inv: "room_inv cfg s \<Longrightarrow> room_inv cfg (drop_seen p s)"
  by (simp add: room_inv_def drop_seen_def)

lemma drop_seen_fields [simp]: "rm_sessions (drop_seen p s) = rm_sessions s"
  by (simp add: drop_seen_def)

lemma giveUp_inv: "room_inv cfg s \<Longrightarrow> room_inv cfg (snd (giveUp now jitter p a s))"
  by (simp add: giveUp_def Let_def room_inv_def)

lemma giveUp_core: "same_core s (snd (giveUp now jitter p a s))"
  by (simp add: giveUp_def Let_def same_core_def)

lemma rekey_retry_inv: "room_inv cfg s \<Longrightarrow> room_inv cfg (snd (rekey_retry now p s))"
  using begin_handshake_inv [of cfg "s\<lparr>rm_rekeying := ins p (del p (rm_rekeying s))\<rparr>" now p Initiator None]
  by (simp add: rekey_retry_def Let_def room_inv_def)

lemma rekey_retry_core: "same_core s (snd (rekey_retry now p s))"
  by (simp add: rekey_retry_def Let_def same_core_def begin_handshake_def clearAttempt_def)

lemma hs_started_inv: "room_inv cfg s \<Longrightarrow> room_inv cfg (snd (hs_started i fs s))"
  by (auto simp: hs_started_def room_inv_def split: option.split intro!: ids_ok_update dest: live_attempt_get)

lemma hs_started_core: "same_core s (snd (hs_started i fs s))"
  by (auto simp: hs_started_def same_core_def split: option.split)

lemma install_inv: "room_inv cfg s \<Longrightarrow> room_inv cfg (install now p ses s)"
  by (auto simp: room_inv_def install_def forgetStream_def clearAttempt_def Let_def ids_ok_del jm_get_set)

lemma retire_loop_inv: "room_inv cfg s \<Longrightarrow> room_inv cfg (snd (retire_loop cfg' now keep ps s))"
  by (induction ps arbitrary: s) (simp_all add: split_beta drop_seen_inv forgetPeer_inv)

lemma notOurContact_inv: "room_inv cfg s \<Longrightarrow> room_inv cfg (snd (notOurContact now p s))"
  using clearAttempt_inv [of cfg s p] by (simp add: notOurContact_def room_inv_def clearAttempt_def)

lemma notOurContact_core: "same_core s (snd (notOurContact now p s))"
  by (simp add: notOurContact_def same_core_def clearAttempt_def)

lemma follow_inv: "room_inv cfg s \<Longrightarrow> room_inv cfg (snd (followMovedPeer cfg' now from s))"
proof -
  assume inv: "room_inv cfg s"
  let ?l = "filter (\<lambda>x. at_role (snd x) = Initiator \<and> at_ready (snd x)) (rm_handshakes s)"
  have "jm_get (rm_handshakes s) old = Some a" if "?l = [(old, a)]" for old a
  proof -
    have "(old, a) \<in> set ?l" by (simp add: that)
    then show ?thesis using inv by (simp add: room_inv_def ids_ok_def jm_get_iff_mem)
  qed
  then show ?thesis using inv
    by (auto simp: followMovedPeer_def room_inv_def ids_ok_move Let_def split: list.split)
qed

lemma follow_core: "same_core s (snd (followMovedPeer cfg now from s))"
  by (auto simp: followMovedPeer_def same_core_def Let_def split: list.split)

lemma frame_inv: "room_inv cfg s \<Longrightarrow> room_inv cfg (snd (on_handshake_frame cfg' now data from s))"
  using begin_handshake_inv [of cfg s now "from" Responder "Some data"] follow_inv [of cfg s cfg' now "from"]
  by (auto simp: on_handshake_frame_def Let_def split_beta split: option.split)

lemma frame_core: "same_core s (snd (on_handshake_frame cfg now data from s))"
  using begin_handshake_core [of s now "from" Responder "Some data"] follow_core [of s cfg now "from"]
  by (auto simp: on_handshake_frame_def Let_def split_beta split: option.split)

lemma fed_inv: "room_inv cfg s \<Longrightarrow> room_inv cfg (snd (fed now from i r s))"
  by (auto simp: fed_def notOurContact_inv split: feed_result.split option.split)
    (auto simp: room_inv_def intro!: ids_ok_update dest: live_attempt_get)

lemma fed_core: "same_core s (snd (fed now from i r s))"
  by (auto simp: fed_def notOurContact_core split: feed_result.split option.split) (simp add: same_core_def)

lemma sweep_seen_inv: "room_inv cfg s \<Longrightarrow> room_inv cfg (snd (sweep_seen cfg' now ps s))"
  by (induction cfg' now ps s rule: sweep_seen.induct) (simp_all add: split_beta room_inv_def)

lemma sweep_seen_core: "same_core s (snd (sweep_seen cfg now ps s))"
  by (induction cfg now ps s rule: sweep_seen.induct) (simp_all add: split_beta same_core_def)

lemma retire_silent_inv: "room_inv cfg s \<Longrightarrow> room_inv cfg (snd (retire_silent alive ps s))"
  by (induction alive ps s rule: retire_silent.induct) (simp_all add: split_beta drop_seen_inv forgetPeer_inv)

lemma sweep_lifetimes_inv: "room_inv cfg s \<Longrightarrow> room_inv cfg (snd (sweep_lifetimes cfg' now ps s))"
proof (induction cfg' now ps s rule: sweep_lifetimes.induct)
  case (2 cfg' now p t ps s)
  have "room_inv cfg (s\<lparr>rm_rekeying := ins p (rm_rekeying s)\<rparr>)" using 2(3) by (simp add: room_inv_def)
  note b = begin_handshake_inv [OF this, of now p Initiator None]
  obtain i e1 s1 where e: "begin_handshake now p Initiator None (s\<lparr>rm_rekeying := ins p (rm_rekeying s)\<rparr>) = (i, e1, s1)"
    by (metis surj_pair)
  show ?case
  proof (cases "due cfg' now p t s")
    case True
    have "room_inv cfg (snd (sweep_lifetimes cfg' now ps s1))"
      using 2(1) [OF True e [symmetric] refl] b e by simp
    then show ?thesis using True e by (simp add: split_beta)
  qed (use 2 in simp)
qed simp

lemma sweep_lifetimes_core: "same_core s (snd (sweep_lifetimes cfg now ps s))"
proof (induction cfg now ps s rule: sweep_lifetimes.induct)
  case (2 cfg now p t ps s)
  have b: "same_core s (snd (snd (begin_handshake now p Initiator None (s\<lparr>rm_rekeying := ins p (rm_rekeying s)\<rparr>))))"
    by (simp add: same_core_def begin_handshake_def Let_def clearAttempt_def)
  obtain i e1 s1 where e: "begin_handshake now p Initiator None (s\<lparr>rm_rekeying := ins p (rm_rekeying s)\<rparr>) = (i, e1, s1)"
    by (metis surj_pair)
  show ?case
  proof (cases "due cfg now p t s")
    case True
    have "same_core s1 (snd (sweep_lifetimes cfg now ps s1))" using 2(1) [OF True e [symmetric] refl] by simp
    moreover have "same_core s s1" using b e by simp
    ultimately show ?thesis using True e same_core_trans by (simp add: split_beta) blast
  qed (use 2 in simp)
qed simp

lemma sweep_inv: "room_inv cfg s \<Longrightarrow> room_inv cfg (snd (sweep cfg now s))"
proof -
  assume "room_inv cfg s"
  then have "room_inv cfg (snd (sweep_seen cfg now (rm_lastSeen s) s))" by (rule sweep_seen_inv)
  then have "room_inv cfg ((snd (sweep_seen cfg now (rm_lastSeen s) s))\<lparr>rm_previous := x\<rparr>)" for x by (simp add: room_inv_def)
  then have "room_inv cfg (snd (sweep_sessions cfg now ((snd (sweep_seen cfg now (rm_lastSeen s) s))\<lparr>rm_previous := x\<rparr>)))" for x
    unfolding sweep_sessions_def Let_def by (simp add: retire_silent_inv)
  then show ?thesis by (simp add: sweep_def split_beta sweep_lifetimes_inv)
qed

lemma try_all_inv: "room_inv cfg s \<Longrightarrow> room_inv cfg (snd (try_all cfg' now ps s))"
  by (induction ps arbitrary: s) (simp_all add: split_beta maybeHandshake_inv)

lemma try_all_core: "same_core s (snd (try_all cfg now ps s))"
proof (induction ps arbitrary: s)
  case (Cons p ps)
  from same_core_trans [OF maybeHandshake_core Cons] show ?case by (simp add: split_beta)
qed simp

lemma seed_inv: "room_inv cfg s \<Longrightarrow> room_inv cfg (snd (seed cfg' now ps s))"
proof (induction ps arbitrary: s)
  case (Cons x ps)
  obtain p t where x: "x = (p, t)" by (cases x)
  from Cons.IH [OF touch_inv [OF Cons.prems]] Cons show ?case by (simp add: x split_beta)
qed simp

lemma seed_core: "same_core s (snd (seed cfg now ps s))"
proof (induction ps arbitrary: s)
  case (Cons x ps)
  obtain p t where x: "x = (p, t)" by (cases x)
  from same_core_trans [OF touch_core Cons, of s cfg now p] Cons [of s] show ?case by (simp add: x split_beta)
qed simp

lemma retarget_inv: "room_inv cfg s \<Longrightarrow> room_inv cfg (snd (retarget cfg' now s))"
proof -
  assume "room_inv cfg s"
  then have "room_inv cfg (s\<lparr>rm_handshakes := []\<rparr>)" by (simp add: room_inv_def ids_ok_def)
  then show ?thesis by (simp add: retarget_def split_beta try_all_inv)
qed

lemma retarget_core: "same_core s (snd (retarget cfg now s))"
  using try_all_core [of "s\<lparr>rm_handshakes := []\<rparr>" cfg now] by (simp add: retarget_def split_beta same_core_def)

lemma process_sealed_inv: "room_inv cfg s \<Longrightarrow> room_inv cfg (snd (process_sealed now p d s))"
proof -
  assume inv: "room_inv cfg s"
  have set: "room_inv cfg (s\<lparr>rm_sessions := jm_set p x (rm_sessions s)\<rparr>)" if "jm_get (rm_sessions s) p = Some y" for x y
  proof -
    from inv that have "jm_get (rm_establishedAt s) p \<noteq> None" unfolding room_inv_def by (metis option.distinct(1))
    with inv show ?thesis by (auto simp: room_inv_def jm_get_set)
  qed
  have "room_inv cfg (t\<lparr>rm_previous := m\<rparr>)" if "room_inv cfg t" for t :: "'a room" and m
    using that by (simp add: room_inv_def)
  with set inv show ?thesis
    by (auto simp: process_sealed_def split_beta Let_def split: option.split opened.split)
qed

lemma dispatch_msg_inv: "room_inv cfg s \<Longrightarrow> room_inv cfg (snd (snd (dispatch_msg cfg' now p n s)))"
proof -
  assume "room_inv cfg s"
  then have "room_inv cfg (snd (touch cfg' now p s))" by (rule touch_inv)
  then show ?thesis
    by (simp add: dispatch_msg_def split_beta firstSeq_def outOfOrder_def room_inv_def split: option.split)
qed

lemma dispatch_msg_core:
  "rm_sessions (snd (snd (dispatch_msg cfg now p n s))) = rm_sessions s
   \<and> rm_seenSeq (snd (snd (dispatch_msg cfg now p n s)))
     = (if (p, n) \<in> set (rm_seenSeq s) then rm_seenSeq s else rm_seenSeq s @ [(p, n)])"
  using touch_core [of s cfg now p]
  by (simp add: dispatch_msg_def split_beta firstSeq_def outOfOrder_def same_core_def split: option.split)

lemma retireOtherPeers_inv: "room_inv cfg s \<Longrightarrow> room_inv cfg (snd (retireOtherPeers cfg' now p s))"
  by (simp add: retireOtherPeers_def retire_loop_inv)

lemma resolved_inv: "room_inv cfg s \<Longrightarrow> room_inv cfg (snd (hs_resolved cfg' now parked i ses s))"
  by (auto simp: hs_resolved_def split_beta install_inv retireOtherPeers_inv split: option.split)

lemma rejected_inv: "room_inv cfg s \<Longrightarrow> room_inv cfg (snd (hs_rejected now jitter i s))"
  by (auto simp: hs_rejected_def split_beta clearAttempt_inv giveUp_inv split: option.split)

lemma rejected_core: "same_core s (snd (hs_rejected now jitter i s))"
  by (auto simp: hs_rejected_def intro: same_core_trans [OF clearAttempt_core giveUp_core] split: option.split)

lemma left_inv: "room_inv cfg s \<Longrightarrow> room_inv cfg (snd (peer_left p s))"
  by (simp add: peer_left_def drop_seen_inv forgetPeer_inv)

lemma hs_start_failed_inv: "room_inv cfg s \<Longrightarrow> room_inv cfg (hs_start_failed i s)"
  by (auto simp: hs_start_failed_def clearAttempt_inv split: option.split)

lemma queue_content_inv: "room_inv cfg s \<Longrightarrow> room_inv cfg (queue_content cfg b s)"
  by (auto simp: room_inv_def queue_content_def)

lemma take_queued_inv: "room_inv cfg s \<Longrightarrow> room_inv cfg (snd (take_queued s))"
  by (simp add: room_inv_def take_queued_def)

lemma stop_room_inv: "room_inv cfg s \<Longrightarrow> room_inv cfg (stop_room s)"
  by (simp add: room_inv_def stop_room_def ids_ok_def)

lemmas handler_inv = touch_inv maybeHandshake_inv rekey_retry_inv hs_started_inv hs_start_failed_inv resolved_inv
  rejected_inv frame_inv fed_inv sweep_inv process_sealed_inv dispatch_msg_inv left_inv retarget_inv seed_inv
  queue_content_inv take_queued_inv stop_room_inv

lemma room_step_inv: "room_inv cfg s \<Longrightarrow> room_inv cfg (room_step cfg s i)"
  by (cases "snd i") (simp_all add: room_step_def room_do_def handler_inv)

interpretation rm: machine "room_step cfg" "room_inv cfg" for cfg
  by unfold_locales (rule room_step_inv)

end
