(* ===== verification/RoomTheorems.thy ===== *)
theory RoomTheorems
  imports RoomFacts
begin

section \<open>What a room guarantees (lib/room.ts)\<close>

text \<open>
  When a ratchet appears and when it goes (\<open>step_gains\<close>, \<open>step_loses\<close>), that of two crossing
  openings exactly one survives (\<open>crossing\<close>), that a failed attempt on a peer still here is
  repeated and not before its time (\<open>retry_starts\<close>), that a re-key leaves the old ratchet
  readable for its grace (\<open>grace_reads\<close>), that content written before anyone answered goes out
  in order (\<open>queued_goes_out\<close>), and that a sequence number is shown once per stream
  (\<open>undisturbed_shown\<close>).
\<close>

lemmas step_defs = room_step_def room_do_def

subsection \<open>Losing a ratchet\<close>

lemma seen_at_drop [simp]: "p \<noteq> q \<Longrightarrow> seen_at (drop_seen q s) p = seen_at s p"
  by (simp add: seen_at_def drop_seen_def)

lemma seen_at_forget [simp]: "seen_at (forgetPeer q s) p = seen_at s p"
  by (simp add: seen_at_def)

lemma install_lastSeen [simp]: "rm_lastSeen (install now p ses s) = rm_lastSeen s"
  by (simp add: install_def forgetStream_def clearAttempt_def Let_def)

lemma install_sessions [simp]: "rm_sessions (install now p ses s) = jm_set p ses (rm_sessions s)"
  by (simp add: install_def forgetStream_def clearAttempt_def Let_def)

lemma retire_loop_keeps: "jm_get (rm_sessions (snd (retire_loop cfg now keep ps s))) keep = jm_get (rm_sessions s) keep"
  by (induction ps arbitrary: s) (auto simp: split_beta jm_get_del)

lemma retire_loop_some:
  "jm_get (rm_sessions (snd (retire_loop cfg now keep ps s))) p = Some x \<Longrightarrow> jm_get (rm_sessions s) p = Some x"
proof (induction ps arbitrary: s)
  case (Cons old ps)
  from Cons.prems show ?case
    using Cons.IH [of s] Cons.IH [of "drop_seen old (forgetPeer old s)"]
    by (auto simp: split_beta jm_get_del split: if_splits)
qed simp

lemma retire_loop_lost:
  "jm_has (rm_sessions s) p \<Longrightarrow> \<not> jm_has (rm_sessions (snd (retire_loop cfg now keep ps s))) p
   \<Longrightarrow> p \<noteq> keep \<and> \<not> answering cfg now s p \<and> Replaced p keep \<in> set (fst (retire_loop cfg now keep ps s))"
proof (induction ps arbitrary: s)
  case (Cons old ps)
  show ?case
  proof (cases "old = keep \<or> answering cfg now s old")
    case True
    then show ?thesis using Cons by simp
  next
    case False
    let ?s1 = "drop_seen old (forgetPeer old s)"
    show ?thesis
    proof (cases "old = p")
      case True
      with False show ?thesis by (auto simp: split_beta)
    next
      case other: False
      then have "jm_has (rm_sessions ?s1) p" using Cons.prems by (simp add: jm_has_def)
      from Cons.IH [OF this] Cons.prems False other show ?thesis
        by (auto simp: split_beta answering_def)
    qed
  qed
qed simp

lemma retire_silent_keeps: "p \<in> set alive \<Longrightarrow> jm_get (rm_sessions (snd (retire_silent alive ps s))) p = jm_get (rm_sessions s) p"
  by (induction alive ps s rule: retire_silent.induct) (auto simp: split_beta jm_get_del)

lemma retire_silent_lost:
  "jm_has (rm_sessions s) p \<Longrightarrow> \<not> jm_has (rm_sessions (snd (retire_silent alive ps s))) p
   \<Longrightarrow> p \<notin> set alive \<and> Replaced p (last alive) \<in> set (fst (retire_silent alive ps s))"
proof (induction ps arbitrary: s)
  case (Cons q ps)
  then show ?case
    using Cons.IH [of s] Cons.IH [of "drop_seen q (forgetPeer q s)"]
    by (cases "q = p") (auto simp: split_beta jm_has_def split: if_splits)
qed simp

lemma retire_silent_some:
  "jm_get (rm_sessions (snd (retire_silent alive ps s))) p = Some x \<Longrightarrow> jm_get (rm_sessions s) p = Some x"
proof (induction ps arbitrary: s)
  case (Cons q ps)
  then show ?case
    using Cons.IH [of s] Cons.IH [of "drop_seen q (forgetPeer q s)"]
    by (auto simp: split_beta jm_get_del split: if_splits)
qed simp

lemma sweep_seen_get:
  "jm_get (rm_lastSeen (snd (sweep_seen cfg now ps s))) p = jm_get (rm_lastSeen s) p
   \<or> (\<exists>t. (p, t) \<in> set ps \<and> now - t > ttlMs cfg)"
proof (induction cfg now ps s rule: sweep_seen.induct)
  case (2 cfg now q t ps s)
  then show ?case
    by (cases "q = p") (auto simp: split_beta jm_get_del)
qed simp

lemma gone_not_answering: "now - t > ttlMs cfg \<Longrightarrow> \<not> 2 * (now - t) < 3 * rg_heartbeatMs cfg"
  by (simp add: ttlMs_def)

lemma sweep_seen_answering:
  assumes "room_inv cfg s" and "\<not> answering cfg now (snd (sweep_seen cfg now (rm_lastSeen s) s)) p"
  shows "\<not> answering cfg now s p"
proof (cases "\<exists>t. (p, t) \<in> set (rm_lastSeen s) \<and> now - t > ttlMs cfg")
  case True
  then obtain t where "jm_get (rm_lastSeen s) p = Some t" "now - t > ttlMs cfg"
    using assms(1) by (auto simp: room_inv_def jm_get_iff_mem)
  then show ?thesis using gone_not_answering [of cfg now t] by (simp add: answering_def seen_at_def)
next
  case False
  then have "jm_get (rm_lastSeen (snd (sweep_seen cfg now (rm_lastSeen s) s))) p = jm_get (rm_lastSeen s) p"
    using sweep_seen_get [of cfg now "rm_lastSeen s" s p] by blast
  then show ?thesis using assms(2) by (simp add: answering_def seen_at_def)
qed

text \<open>The state in which the sweep of the sessions runs.\<close>

definition swept :: "room_cfg \<Rightarrow> int \<Rightarrow> 's room \<Rightarrow> 's room" where
  "swept cfg now s = (let s1 = snd (sweep_seen cfg now (rm_lastSeen s) s) in
     s1\<lparr>rm_previous := filter (\<lambda>x. \<not> now > snd (snd x)) (rm_previous s1)\<rparr>)"

lemma swept_sessions [simp]: "rm_sessions (swept cfg now s) = rm_sessions s"
  using sweep_seen_core [of s cfg now "rm_lastSeen s"] by (simp add: swept_def Let_def same_core_def)

lemma swept_answering: "room_inv cfg s \<Longrightarrow> \<not> answering cfg now (swept cfg now s) p \<Longrightarrow> \<not> answering cfg now s p"
  using sweep_seen_answering [of cfg s now p] by (simp add: swept_def Let_def answering_def seen_at_def)

lemma sweep_sessions_eq:
  "rm_sessions (snd (sweep cfg now s)) = rm_sessions (snd (sweep_sessions cfg now (swept cfg now s)))
   \<and> set (fst (sweep_sessions cfg now (swept cfg now s))) \<subseteq> set (fst (sweep cfg now s))"
proof -
  let ?s2 = "snd (sweep_sessions cfg now (swept cfg now s))"
  have "same_core ?s2 (snd (sweep_lifetimes cfg now (rm_establishedAt ?s2) ?s2))" by (rule sweep_lifetimes_core)
  then show ?thesis by (auto simp: sweep_def swept_def Let_def split_beta same_core_def)
qed

lemma sweep_lost:
  assumes inv: "room_inv cfg s" and had: "jm_has (rm_sessions s) p"
    and lost: "\<not> jm_has (rm_sessions (snd (sweep cfg now s))) p"
  shows "\<not> answering cfg now s p \<and> (\<exists>q. Replaced p q \<in> set (fst (sweep cfg now s)) \<and> jm_has (rm_sessions (snd (sweep cfg now s))) q)"
proof -
  let ?s1 = "swept cfg now s" and ?ps = "jm_keys (rm_sessions s)"
  let ?alive = "filter (answering cfg now ?s1) ?ps"
  have c: "length ?ps > 1 \<and> ?alive \<noteq> []"
  proof (rule ccontr)
    assume "\<not> (length ?ps > 1 \<and> ?alive \<noteq> [])"
    then have "snd (sweep_sessions cfg now ?s1) = ?s1" unfolding sweep_sessions_def Let_def swept_sessions by (subst if_not_P) auto
    then show False using lost had sweep_sessions_eq [of cfg now s] by simp
  qed
  then have e: "sweep_sessions cfg now ?s1 = retire_silent ?alive ?ps ?s1" by (simp add: sweep_sessions_def Let_def)
  have l: "p \<notin> set ?alive" "Replaced p (last ?alive) \<in> set (fst (sweep cfg now s))"
    using retire_silent_lost [of ?s1 p ?alive ?ps] had lost sweep_sessions_eq [of cfg now s] by (auto simp: e)
  have "last ?alive \<in> set ?alive" using c last_in_set by blast
  moreover from this have "jm_has (rm_sessions s) (last ?alive)" by (simp add: jm_has_iff)
  ultimately have "jm_has (rm_sessions (snd (sweep cfg now s))) (last ?alive)"
    using retire_silent_keeps [of "last ?alive" ?alive ?ps ?s1] sweep_sessions_eq [of cfg now s] by (simp add: e jm_has_def)
  moreover have "\<not> answering cfg now s p" using l(1) had swept_answering [OF inv] by (auto simp: jm_has_iff)
  ultimately show ?thesis using l(2) by blast
qed

lemma resolved_lost:
  assumes had: "jm_has (rm_sessions s) p" and lost: "\<not> jm_has (rm_sessions (snd (hs_resolved cfg now b i ses s))) p"
  shows "\<not> answering cfg now s p \<and> (\<exists>q. Replaced p q \<in> set (fst (hs_resolved cfg now b i ses s))
    \<and> jm_has (rm_sessions (snd (hs_resolved cfg now b i ses s))) q)"
proof -
  obtain q a where f: "live_attempt i s = Some (q, a)"
    using lost had by (auto simp: hs_resolved_def split: option.splits)
  let ?s1 = "install now q ses s"
  have "jm_has (rm_sessions ?s1) p" using had by (simp add: jm_has_def jm_get_set)
  from retire_loop_lost [OF this, of cfg now q "jm_keys (rm_sessions ?s1)"] lost f
  have l: "\<not> answering cfg now ?s1 p" "Replaced p q \<in> set (fst (hs_resolved cfg now b i ses s))"
    by (auto simp: hs_resolved_def split_beta retireOtherPeers_def)
  have "jm_has (rm_sessions (snd (hs_resolved cfg now b i ses s))) q"
    using f by (simp add: hs_resolved_def split_beta retireOtherPeers_def jm_has_def retire_loop_keeps)
  with l show ?thesis by (auto simp: answering_def seen_at_def)
qed

lemmas core_steps = touch_core maybeHandshake_core rekey_retry_core hs_started_core rejected_core frame_core fed_core
  retarget_core seed_core

lemma hs_start_failed_core: "same_core s (hs_start_failed i s)"
  by (auto simp: hs_start_failed_def split: option.split)

lemma core_sessions: "same_core s s' \<Longrightarrow> rm_sessions s' = rm_sessions s"
  by (simp add: same_core_def)

lemmas core_step_sessions = core_steps [THEN core_sessions] hs_start_failed_core [THEN core_sessions]
  dispatch_msg_core [THEN conjunct1]

lemma queue_content_sessions [simp]: "rm_sessions (queue_content cfg b s) = rm_sessions s"
  by (simp add: queue_content_def)

lemma take_queued_sessions [simp]: "rm_sessions (snd (take_queued s)) = rm_sessions s"
  by (simp add: take_queued_def)

lemma process_sealed_has: "jm_has (rm_sessions (snd (process_sealed now q d s))) p = jm_has (rm_sessions s) p"
  by (auto simp: process_sealed_def split_beta Let_def jm_has_def jm_get_set split: option.split opened.split)

lemma step_loses:
  assumes inv: "room_inv cfg s" and had: "jm_has (rm_sessions s) p"
    and lost: "\<not> jm_has (rm_sessions (room_step cfg s (now, inp))) p"
  shows "inp = RLeft p \<or> inp = RStop \<or>
    (\<not> answering cfg now s p \<and> (\<exists>q. Replaced p q \<in> set (fst (room_do cfg now inp s))
      \<and> jm_has (rm_sessions (room_step cfg s (now, inp))) q))"
proof (cases inp)
  case (RResolved i ses b)
  with resolved_lost [OF had] lost show ?thesis by (simp add: step_defs)
next
  case RSweep
  with sweep_lost [OF inv had] lost show ?thesis by (simp add: step_defs)
next
  case (RLeft q)
  with lost had show ?thesis by (auto simp: step_defs peer_left_def jm_has_def jm_get_del split: if_splits)
qed (use lost had in \<open>simp_all add: step_defs core_step_sessions process_sealed_has\<close>)

subsection \<open>Gaining one\<close>

lemma step_gains:
  assumes "\<not> jm_has (rm_sessions s) p" and "jm_get (rm_sessions (room_step cfg s (now, inp))) p = Some x"
  shows "\<exists>i b a. inp = RResolved i x b \<and> live_attempt i s = Some (p, a)"
proof (cases inp)
  case (RResolved i ses b)
  obtain q a where f: "live_attempt i s = Some (q, a)"
    using assms RResolved by (auto simp: step_defs hs_resolved_def jm_has_def split: option.splits)
  then have "jm_get (rm_sessions (install now q ses s)) p = Some x"
    using assms(2) RResolved retire_loop_some [of cfg now q _ "install now q ses s" p x]
    by (simp add: step_defs hs_resolved_def split_beta retireOtherPeers_def)
  with assms(1) have "p = q" "x = ses" by (auto simp: jm_has_def jm_get_set split: if_splits)
  with f RResolved show ?thesis by auto
next
  case RSweep
  then have "jm_get (rm_sessions (swept cfg now s)) p = Some x"
    using assms(2) sweep_sessions_eq [of cfg now s] retire_silent_some [of _ _ "swept cfg now s" p x]
    by (auto simp: step_defs sweep_sessions_def Let_def split: if_splits)
  with assms(1) show ?thesis by (simp add: jm_has_def)
next
  case (RSealed q d)
  then show ?thesis using assms process_sealed_has [of now q d s p] by (simp add: step_defs jm_has_def)
next
  case (RLeft q)
  then show ?thesis using assms by (auto simp: step_defs peer_left_def jm_has_def jm_get_del split: if_splits)
qed (use assms in \<open>simp_all add: step_defs core_step_sessions jm_has_def stop_room_def\<close>)

subsection \<open>Two openings that cross\<close>

lemma str_less_irrefl [simp]: "\<not> str_less x x"
  by (induction x) simp_all

lemma str_less_asym: "str_less x y \<Longrightarrow> \<not> str_less y x"
  by (induction x y rule: str_less.induct) auto

lemma str_less_total: "x \<noteq> y \<Longrightarrow> str_less x y \<or> str_less y x"
  by (induction x y rule: str_less.induct) (auto simp: neq_Nil_conv)

lemma str_less_trans: "str_less x y \<Longrightarrow> str_less y z \<Longrightarrow> str_less x z"
proof (induction x y arbitrary: z rule: str_less.induct)
  case (2 y ys)
  then show ?case by (cases z) auto
next
  case (3 x xs y ys)
  then show ?case by (cases z) (auto dest: less_trans)
qed simp

definition fresh_opening :: "attempt option \<Rightarrow> int \<Rightarrow> bool" where
  "fresh_opening a now = (case a of None \<Rightarrow> False | Some x \<Rightarrow> at_role x = Initiator \<and> now - at_startedAt x < CROSSED_MS)"

definition answers_to :: "'s room \<Rightarrow> peer \<Rightarrow> bytes \<Rightarrow> bool" where
  "answers_to s p data = (case jm_get (rm_handshakes s) p of None \<Rightarrow> False
     | Some x \<Rightarrow> at_role x = Responder \<and> at_msg1 x = Some data)"

lemma msg1_taken:
  assumes "from \<noteq> rg_self cfg" "\<not> inBackoff now s from" "data \<noteq> []" "hd data = T_MSG1"
    and "fresh_opening (jm_get (rm_handshakes s) from) now"
  shows "answers_to (snd (on_handshake_frame cfg now data from s)) from data \<longleftrightarrow> \<not> str_less (rg_self cfg) from"
    and "str_less (rg_self cfg) from \<Longrightarrow> snd (on_handshake_frame cfg now data from s) = s"
  using assms
  by (auto simp: on_handshake_frame_def Let_def fresh_opening_def holds_ground_def answers_to_def begin_handshake_def clearAttempt_def
      split: option.splits)

lemma crossing:
  assumes "rg_self ca = a" "rg_self cb = b" "a \<noteq> b"
    and "\<not> inBackoff ta sa b" "fresh_opening (jm_get (rm_handshakes sa) b) ta" "mb \<noteq> []" "hd mb = T_MSG1"
    and "\<not> inBackoff tb sb a" "fresh_opening (jm_get (rm_handshakes sb) a) tb" "ma \<noteq> []" "hd ma = T_MSG1"
  shows "let sa' = snd (on_handshake_frame ca ta mb b sa); sb' = snd (on_handshake_frame cb tb ma a sb) in
      (answers_to sa' b mb \<longleftrightarrow> str_less b a) \<and> (answers_to sb' a ma \<longleftrightarrow> str_less a b)
      \<and> (str_less a b \<longleftrightarrow> \<not> str_less b a) \<and> (if str_less a b then sa' = sa else sb' = sb)"
  using msg1_taken [of b ca ta sa mb] msg1_taken [of a cb tb sb ma] assms str_less_total [of a b] str_less_asym [of a b]
  by (auto simp: Let_def)

subsection \<open>A failed attempt is repeated\<close>

lemma retry_wait_bounds:
  "0 \<le> jitter \<Longrightarrow> jitter < RETRY_JITTER_MS \<Longrightarrow> RETRY_SOON_MS \<le> retry_wait jitter ever n \<and> retry_wait jitter ever n \<le> GIVE_ROOM_MS"
  by (simp add: retry_wait_def RETRY_SOON_MS_def GIVE_ROOM_MS_def CALM_MS_def RETRY_JITTER_MS_def)

lemma retry_starts:
  assumes f: "live_attempt i s = Some (p, a)" and ids: "room_inv cfg s" and here: "jm_has (rm_lastSeen s) p"
    and no: "\<not> jm_has (rm_sessions s) p" and p: "p \<noteq> rg_self cfg" and j: "0 \<le> jitter" "jitter < RETRY_JITTER_MS"
  shows "\<exists>w. TryLater p w \<in> set (fst (hs_rejected now jitter i s)) \<and> RETRY_SOON_MS \<le> w \<and> w \<le> GIVE_ROOM_MS
     \<and> (\<forall>t. t < now + w \<longrightarrow> maybeHandshake cfg t p (snd (hs_rejected now jitter i s)) = ([], snd (hs_rejected now jitter i s)))
     \<and> (\<forall>t. now + w \<le> t \<longrightarrow> fst (maybeHandshake cfg t p (snd (hs_rejected now jitter i s))) = [Begin (rm_nextId s)])"
proof -
  define n where "n = (case jm_get (rm_failed s) p of Some k \<Rightarrow> k | None \<Rightarrow> 0) + 1"
  let ?w = "retry_wait jitter (p \<in> set (rm_everEstablished s)) n"
  have "TryLater p ?w \<in> set (fst (hs_rejected now jitter i s))"
    using f here no by (simp add: hs_rejected_def giveUp_def clearAttempt_def Let_def n_def)
  moreover have "maybeHandshake cfg t p (snd (hs_rejected now jitter i s)) = ([], snd (hs_rejected now jitter i s))" if "t < now + ?w" for t
    using f here no that by (simp add: hs_rejected_def giveUp_def clearAttempt_def Let_def n_def maybeHandshake_def inBackoff_def)
  moreover have "fst (maybeHandshake cfg t p (snd (hs_rejected now jitter i s))) = [Begin (rm_nextId s)]" if "now + ?w \<le> t" for t
    using f here no that p
    by (simp add: hs_rejected_def giveUp_def clearAttempt_def Let_def n_def maybeHandshake_def inBackoff_def jm_has_def begin_handshake_def)
  moreover have "RETRY_SOON_MS \<le> ?w \<and> ?w \<le> GIVE_ROOM_MS" by (rule retry_wait_bounds [OF j])
  ultimately show ?thesis by blast
qed

subsection \<open>The old ratchet's grace\<close>

lemma retire_loop_previous:
  "jm_get (rm_previous (snd (retire_loop cfg now keep ps s))) keep = jm_get (rm_previous s) keep"
  by (induction ps arbitrary: s) (auto simp: split_beta jm_get_del drop_seen_def forgetPeer_def forgetStream_def clearAttempt_def Let_def)

lemma install_previous:
  "jm_get (rm_sessions s) p = Some old \<Longrightarrow> jm_get (rm_previous (install now p ses s)) p = Some (old, now + PREVIOUS_GRACE_MS)"
  by (simp add: install_def forgetStream_def clearAttempt_def Let_def)

lemma grace_reads:
  assumes "live_attempt i s = Some (p, a)" "jm_get (rm_sessions s) p = Some old"
    and "fst (decrypt ses) = NotOurs" "fst (decrypt old) = Plain pt" "t \<le> now + PREVIOUS_GRACE_MS"
  shows "fst (process_sealed t p decrypt (snd (hs_resolved cfg now b i ses s))) = Some pt"
  using assms
  by (simp add: process_sealed_def hs_resolved_def split_beta retireOtherPeers_def retire_loop_keeps retire_loop_previous
      install_previous Let_def)

subsection \<open>Content written before anyone answered\<close>

lemma queue_run:
  "rm_sessions s = [] \<Longrightarrow> length (rm_queued s) \<le> rg_maxQueued cfg \<Longrightarrow>
   run (room_step cfg) s (map (\<lambda>b. (t, RContent b)) bs) = s\<lparr>rm_queued := take (rg_maxQueued cfg) (rm_queued s @ bs)\<rparr>"
proof (induction bs arbitrary: s)
  case (Cons b bs)
  have step: "room_step cfg s (t, RContent b) = s\<lparr>rm_queued := take (rg_maxQueued cfg) (rm_queued s @ [b])\<rparr>"
    using Cons.prems by (auto simp: step_defs queue_content_def)
  have "take (rg_maxQueued cfg) (take (rg_maxQueued cfg) (rm_queued s @ [b]) @ bs) = take (rg_maxQueued cfg) (rm_queued s @ b # bs)"
    using Cons.prems(2) by (cases "length (rm_queued s) < rg_maxQueued cfg") auto
  then show ?case using Cons.IH [of "room_step cfg s (t, RContent b)"] Cons.prems by (simp add: step)
qed simp

lemma retire_loop_queued [simp]: "rm_queued (snd (retire_loop cfg now keep ps s)) = rm_queued s"
  by (induction ps arbitrary: s) (simp_all add: split_beta drop_seen_def forgetPeer_def forgetStream_def clearAttempt_def Let_def)

lemma resolved_queued: "rm_queued (snd (hs_resolved cfg now b i ses s)) = rm_queued s"
  by (simp add: hs_resolved_def split_beta retireOtherPeers_def install_def forgetStream_def clearAttempt_def Let_def split: option.split)

lemma resolved_effects: "live_attempt i s = Some (p, a) \<Longrightarrow> FlushQueued \<in> set (fst (hs_resolved cfg now b i ses s))"
  by (simp add: hs_resolved_def split_beta)

lemma resolved_session: "live_attempt i s = Some (p, a) \<Longrightarrow> jm_get (rm_sessions (snd (hs_resolved cfg now b i ses s))) p = Some ses"
  by (simp add: hs_resolved_def split_beta retireOtherPeers_def retire_loop_keeps)

lemma queued_goes_out:
  assumes "rm_sessions s = []" "length (rm_queued s) \<le> rg_maxQueued cfg" "live_attempt i s = Some (p, a)"
  shows "fst (take_queued (snd (hs_resolved cfg now b i ses (run (room_step cfg) s (map (\<lambda>b. (t, RContent b)) bs)))))
     = take (rg_maxQueued cfg) (rm_queued s @ bs)"
proof -
  let ?s1 = "s\<lparr>rm_queued := take (rg_maxQueued cfg) (rm_queued s @ bs)\<rparr>"
  have f: "live_attempt i ?s1 = Some (p, a)" using assms(3) by (simp add: live_attempt_def)
  have "rm_sessions (snd (hs_resolved cfg now b i ses ?s1)) \<noteq> []"
    using resolved_session [OF f, of cfg now b ses] by auto
  then show ?thesis by (simp add: queue_run [OF assms(1,2)] take_queued_def resolved_queued)
qed

subsection \<open>A sequence number is shown once per stream\<close>

text \<open>
  What ends a peer's stream, and with it the memory of its sequence numbers: a new ratchet with
  that peer, its leaving, or its silence when a ratchet is installed or the room is swept.
\<close>

definition stream_ends :: "room_cfg \<Rightarrow> peer \<Rightarrow> 's room \<Rightarrow> int \<times> 's rm_input \<Rightarrow> bool" where
  "stream_ends cfg p s i = (case snd i of
     RResolved k ses b \<Rightarrow> (case live_attempt k s of None \<Rightarrow> False | Some (q, a) \<Rightarrow> q = p \<or> \<not> answering cfg (fst i) s p)
   | RSweep \<Rightarrow> \<not> answering cfg (fst i) s p
   | RLeft q \<Rightarrow> q = p
   | _ \<Rightarrow> False)"

fun undisturbed :: "room_cfg \<Rightarrow> peer \<Rightarrow> 's room \<Rightarrow> (int \<times> 's rm_input) list \<Rightarrow> bool" where
  "undisturbed cfg p s [] = True"
| "undisturbed cfg p s (i # is) = (\<not> stream_ends cfg p s i \<and> undisturbed cfg p (room_step cfg s i) is)"

text \<open>A peer id has no colon in it.\<close>

definition plain_id :: "peer \<Rightarrow> bool" where
  "plain_id p \<longleftrightarrow> list_all (\<lambda>u. [u] \<noteq> js '':'') p"

lemma same_stream_plain: "plain_id p \<Longrightarrow> same_stream q p \<longleftrightarrow> q = p"
proof
  assume p: "plain_id p" and s: "same_stream q p"
  obtain c where c: "js '':'' = [c]" by (simp add: js_def)
  from s have t: "take (length q + 1) (p @ [c]) = q @ [c]" by (simp add: same_stream_def c)
  have l: "length q \<le> length p" using arg_cong [OF t, of length] by simp
  have "take (length q + 1) (p @ [c]) ! length q = c" by (simp only: t) simp
  then have "(p @ [c]) ! length q = c" by (simp del: take_append)
  then have "length q = length p" using p l by (auto simp: plain_id_def list_all_length c nth_append split: if_splits)
  with t show "q = p" by simp
qed (simp add: same_stream_def)

lemma forgetPeer_seen [simp]: "rm_seenSeq (drop_seen q (forgetPeer q s)) = filter (\<lambda>x. \<not> same_stream q (fst x)) (rm_seenSeq s)"
  by (simp add: drop_seen_def forgetPeer_def forgetStream_def clearAttempt_def Let_def)

lemma retire_loop_seen:
  "plain_id p \<Longrightarrow> answering cfg now s p \<Longrightarrow> (p, n) \<in> set (rm_seenSeq s) \<Longrightarrow> (p, n) \<in> set (rm_seenSeq (snd (retire_loop cfg now keep ps s)))"
proof (induction ps arbitrary: s)
  case (Cons old ps)
  show ?case
  proof (cases "old = keep \<or> answering cfg now s old")
    case False
    then have "old \<noteq> p" using Cons.prems by auto
    then have "answering cfg now (drop_seen old (forgetPeer old s)) p" using Cons.prems by (simp add: answering_def)
    from Cons.IH [OF Cons.prems(1) this] Cons.prems False \<open>old \<noteq> p\<close> show ?thesis by (simp add: split_beta same_stream_plain)
  qed (use Cons in simp)
qed simp

lemma retire_silent_seen:
  "plain_id p \<Longrightarrow> p \<in> set alive \<or> p \<notin> set ps \<Longrightarrow> (p, n) \<in> set (rm_seenSeq s) \<Longrightarrow> (p, n) \<in> set (rm_seenSeq (snd (retire_silent alive ps s)))"
  by (induction alive ps s rule: retire_silent.induct) (auto simp: split_beta same_stream_plain)

lemma sweep_seen_kept:
  assumes "plain_id p" "room_inv cfg s" "answering cfg now s p" "(p, n) \<in> set (rm_seenSeq s)"
  shows "(p, n) \<in> set (rm_seenSeq (snd (sweep cfg now s)))"
proof -
  let ?s1 = "swept cfg now s"
  have "(p, n) \<in> set (rm_seenSeq ?s1)"
    using assms(4) sweep_seen_core [of s cfg now "rm_lastSeen s"] by (simp add: swept_def Let_def same_core_def)
  moreover have "answering cfg now ?s1 p" using swept_answering [OF assms(2)] assms(3) by blast
  ultimately have "(p, n) \<in> set (rm_seenSeq (snd (sweep_sessions cfg now ?s1)))"
    using assms(1) by (auto simp: sweep_sessions_def Let_def intro!: retire_silent_seen)
  moreover have "same_core (snd (sweep_sessions cfg now ?s1)) (snd (sweep cfg now s))"
    unfolding sweep_def swept_def Let_def split_beta snd_conv by (rule sweep_lifetimes_core)
  ultimately show ?thesis by (simp add: same_core_def)
qed

lemma core_seen: "same_core s s' \<Longrightarrow> rm_seenSeq s' = rm_seenSeq s"
  by (simp add: same_core_def)

lemmas core_step_seen = core_steps [THEN core_seen] hs_start_failed_core [THEN core_seen] dispatch_msg_core [THEN conjunct2]

lemma process_sealed_seen: "rm_seenSeq (snd (process_sealed now q d s)) = rm_seenSeq s"
  by (simp add: process_sealed_def split_beta Let_def split: option.split opened.split)

lemma step_seen:
  assumes "plain_id p" "room_inv cfg s" "\<not> stream_ends cfg p s (now, inp)" "(p, n) \<in> set (rm_seenSeq s)"
  shows "(p, n) \<in> set (rm_seenSeq (room_step cfg s (now, inp)))"
proof (cases inp)
  case (RResolved i ses b)
  show ?thesis
  proof (cases "live_attempt i s")
    case None
    then show ?thesis using RResolved assms(4) by (simp add: step_defs hs_resolved_def)
  next
    case (Some x)
    obtain q a where x: "x = (q, a)" by (cases x)
    have p: "q \<noteq> p" "answering cfg now s p" using assms(3) Some x RResolved by (auto simp: stream_ends_def)
    let ?s1 = "install now q ses s"
    have "(p, n) \<in> set (rm_seenSeq ?s1)" using assms(1,4) p by (simp add: same_stream_plain install_def forgetStream_def clearAttempt_def Let_def)
    moreover have "answering cfg now ?s1 p" using p by (simp add: answering_def seen_at_def)
    ultimately have "(p, n) \<in> set (rm_seenSeq (snd (retireOtherPeers cfg now q ?s1)))"
      unfolding retireOtherPeers_def using assms(1) by (intro retire_loop_seen)
    then show ?thesis using Some x RResolved by (simp add: step_defs hs_resolved_def split_beta)
  qed
next
  case RSweep
  then show ?thesis using sweep_seen_kept [OF assms(1,2) _ assms(4), of now] assms(3) by (simp add: step_defs stream_ends_def)
next
  case (RLeft q)
  then show ?thesis using assms by (simp add: same_stream_plain step_defs stream_ends_def peer_left_def drop_seen_def forgetPeer_def
      forgetStream_def clearAttempt_def Let_def)
qed (use assms in \<open>auto simp: step_defs core_step_seen process_sealed_seen queue_content_def take_queued_def stop_room_def\<close>)

lemma undisturbed_shown:
  "plain_id p \<Longrightarrow> room_inv cfg s \<Longrightarrow> undisturbed cfg p s is \<Longrightarrow> (p, n) \<in> set (rm_seenSeq s)
   \<Longrightarrow> (p, n) \<in> set (rm_seenSeq (run (room_step cfg) s is))"
proof (induction "is" arbitrary: s)
  case (Cons i "is")
  obtain now inp where i: "i = (now, inp)" by (cases i)
  from Cons.prems i have "room_inv cfg (room_step cfg s i)" "undisturbed cfg p (room_step cfg s i) is"
      "(p, n) \<in> set (rm_seenSeq (room_step cfg s i))"
    using step_seen [of p cfg s now inp n] by (auto intro: room_step_inv)
  from Cons.IH [OF Cons.prems(1) this] show ?case by simp
qed simp

lemma dispatch_shows: "fst (dispatch_msg cfg now p n s) = None \<longleftrightarrow> (p, n) \<in> set (rm_seenSeq s)"
  using touch_core [of s cfg now p]
  by (auto simp: dispatch_msg_def split_beta firstSeq_def same_core_def)

lemma shown_once_more:
  assumes "plain_id p" "room_inv cfg s" "undisturbed cfg p (snd (snd (dispatch_msg cfg now p n s))) is"
  shows "fst (dispatch_msg cfg t p n (run (room_step cfg) (snd (snd (dispatch_msg cfg now p n s))) is)) = None"
proof -
  have "(p, n) \<in> set (rm_seenSeq (snd (snd (dispatch_msg cfg now p n s))))"
    using dispatch_msg_core [of cfg now p n s] by auto
  from undisturbed_shown [OF assms(1) dispatch_msg_inv [OF assms(2)] assms(3) this] show ?thesis by (simp add: dispatch_shows)
qed

subsection \<open>Properties\<close>

definition demo_cfg :: room_cfg where
  "demo_cfg = \<lparr>rg_self = [1], rg_heartbeatMs = 15000, rg_lifetimeMs = 86400000, rg_maxQueued = 2\<rparr>"

definition demo_attempt :: "role \<Rightarrow> attempt" where
  "demo_attempt r = \<lparr>at_id = 0, at_ready = True, at_role = r, at_startedAt = 0, at_msg1 = None, at_reply = None, at_rekey = False\<rparr>"

text \<open>A room with an attempt at \<open>[2]\<close>, who was seen at 0; and one that had a ratchet with it too.\<close>

definition demo_room :: "nat room" where
  "demo_room = empty_room\<lparr>rm_handshakes := [([2], demo_attempt Initiator)], rm_nextId := 1, rm_lastSeen := [([2], 0)]\<rparr>"

definition demo_rekeyed :: "nat room" where
  "demo_rekeyed = demo_room\<lparr>rm_sessions := [([2], 5)], rm_establishedAt := [([2], 0)]\<rparr>"

lemma demo_live: "live_attempt 0 demo_room = Some ([2], demo_attempt Initiator)"
    "live_attempt 0 demo_rekeyed = Some ([2], demo_attempt Initiator)"
  by (simp_all add: live_attempt_def demo_rekeyed_def demo_room_def demo_attempt_def)

lemma demo_room_inv: "room_inv demo_cfg demo_room" "room_inv demo_cfg demo_rekeyed"
  by (simp_all add: room_inv_def ids_ok_def demo_rekeyed_def demo_room_def demo_attempt_def empty_room_def demo_cfg_def jm_inv_def)

text \<open>
  C33: a room's books agree. After any inputs every session has the time it was established and no
  other peer has one, attempts are told apart by their numbers, content waiting for a first
  session is within its bound and no sequence number is remembered twice.
\<close>
theorem room_books: "room_inv cfg (run (room_step cfg) empty_room is)"
  by (rule rm.run_inv) (rule empty_room_inv)

text \<open>
  C28: a ratchet goes only for a reason. When a step takes a peer's ratchet away, the peer left, or
  the room stopped, or the peer had been silent for one and a half heartbeats and the step
  reported it replaced by another peer whose ratchet stays.
\<close>
theorem ratchet_lost_for_reason:
  assumes "room_inv cfg s" and "jm_has (rm_sessions s) p"
    and "\<not> jm_has (rm_sessions (room_step cfg s (now, inp))) p"
  shows "inp = RLeft p \<or> inp = RStop \<or>
    (\<not> answering cfg now s p \<and> (\<exists>q. Replaced p q \<in> set (fst (room_do cfg now inp s))
      \<and> jm_has (rm_sessions (room_step cfg s (now, inp))) q))"
  using assms by (rule step_loses)

definition demo_silent :: "nat room" where
  "demo_silent = demo_rekeyed\<lparr>rm_sessions := [([2], 5), ([3], 6)], rm_establishedAt := [([2], 0), ([3], 0)],
     rm_lastSeen := [([2], 0), ([3], 30000)]\<rparr>"

theorem ratchet_lost_for_reason_witness:
  "\<exists>q. Replaced [2] q \<in> set (fst (room_do demo_cfg 30000 (RSweep :: nat rm_input) demo_silent))"
proof -
  have "room_inv demo_cfg demo_silent"
    using demo_room_inv(2) by (simp add: room_inv_def demo_silent_def jm_inv_def)
  moreover have "\<not> jm_has (rm_sessions (room_step demo_cfg demo_silent (30000, RSweep))) [2]"
    by (simp add: step_defs sweep_def demo_silent_def demo_rekeyed_def demo_room_def demo_cfg_def empty_room_def ttlMs_def quietMs2_def
        sweep_sessions_def jm_keys_def answering_def seen_at_def due_def drop_seen_def forgetPeer_def forgetStream_def clearAttempt_def
        jm_has_def jm_del_def jm_get_def Let_def)
  moreover have "jm_has (rm_sessions demo_silent) [2]" by (simp add: demo_silent_def jm_has_def)
  ultimately show ?thesis using ratchet_lost_for_reason by blast
qed

text \<open>
  A ratchet comes only from a handshake. When a step gives a peer a ratchet it had not, the
  step was the outcome of the attempt that was live for that peer, with that very session.
\<close>
theorem ratchet_from_handshake:
  assumes "\<not> jm_has (rm_sessions s) p" and "jm_get (rm_sessions (room_step cfg s (now, inp))) p = Some x"
  shows "\<exists>i b a. inp = RResolved i x b \<and> live_attempt i s = Some (p, a)"
  using assms by (rule step_gains)

theorem ratchet_from_handshake_witness:
  "jm_get (rm_sessions (room_step demo_cfg demo_room (9, RResolved 0 7 False))) [2] = Some 7
   \<and> (\<exists>i b a. RResolved 0 7 False = RResolved i (7 :: nat) b \<and> live_attempt i demo_room = Some ([2], a))"
proof -
  have g: "jm_get (rm_sessions (room_step demo_cfg demo_room (9, RResolved 0 7 False))) [2] = Some 7"
    using resolved_session [OF demo_live(1)] by (simp add: step_defs)
  have "\<not> jm_has (rm_sessions demo_room) [2]" by (simp add: demo_room_def empty_room_def jm_has_def)
  from ratchet_from_handshake [OF this g] g show ?thesis by blast
qed

text \<open>
  C30: of two crossing openings one survives. When two peers each opened a handshake within the
  crossing window and each receives the other's msg1, the one with the higher id turns to answering
  it, and the one with the lower id, exactly one of the two, keeps its own opening: its room is as it
  was.
\<close>
theorem one_opening_survives:
  assumes "rg_self ca = a" "rg_self cb = b" "a \<noteq> b"
    and "\<not> inBackoff ta sa b" "fresh_opening (jm_get (rm_handshakes sa) b) ta" "mb \<noteq> []" "hd mb = T_MSG1"
    and "\<not> inBackoff tb sb a" "fresh_opening (jm_get (rm_handshakes sb) a) tb" "ma \<noteq> []" "hd ma = T_MSG1"
  shows "let sa' = snd (on_handshake_frame ca ta mb b sa); sb' = snd (on_handshake_frame cb tb ma a sb) in
      (answers_to sa' b mb \<longleftrightarrow> str_less b a) \<and> (answers_to sb' a ma \<longleftrightarrow> str_less a b)
      \<and> (str_less a b \<longleftrightarrow> \<not> str_less b a) \<and> (if str_less a b then sa' = sa else sb' = sb)"
  using assms by (rule crossing)

theorem one_opening_survives_witness:
  "\<not> answers_to (snd (on_handshake_frame demo_cfg 10 [T_MSG1] [2] demo_room)) [2] [T_MSG1]
    \<and> answers_to (snd (on_handshake_frame (demo_cfg\<lparr>rg_self := [2]\<rparr>) 10 [T_MSG1]
          [1] ((empty_room :: nat room)\<lparr>rm_handshakes := [([1], demo_attempt Initiator)]\<rparr>))) [1] [T_MSG1]"
proof -
  let ?c = "demo_cfg\<lparr>rg_self := [2]\<rparr>" and ?s = "(empty_room :: nat room)\<lparr>rm_handshakes := [([1], demo_attempt Initiator)]\<rparr>"
  have "let sa' = snd (on_handshake_frame demo_cfg 10 [T_MSG1] [2] demo_room); sb' = snd (on_handshake_frame ?c 10 [T_MSG1] [1] ?s) in
      (answers_to sa' [2] [T_MSG1] \<longleftrightarrow> str_less [2] [1]) \<and> (answers_to sb' [1] [T_MSG1] \<longleftrightarrow> str_less [1] [2])
      \<and> (str_less [1] [2] \<longleftrightarrow> \<not> str_less [2] [1]) \<and> (if str_less [1] [2] then sa' = demo_room else sb' = ?s)"
    by (rule one_opening_survives)
      (simp_all add: demo_cfg_def demo_room_def demo_attempt_def empty_room_def inBackoff_def fresh_opening_def CROSSED_MS_def)
  then have "answers_to (snd (on_handshake_frame demo_cfg 10 [T_MSG1] [2] demo_room)) [2] [T_MSG1] \<longleftrightarrow> str_less [2] [1]"
    "answers_to (snd (on_handshake_frame ?c 10 [T_MSG1] [1] ?s)) [1] [T_MSG1] \<longleftrightarrow> str_less [1] [2]"
    by (simp_all only: Let_def)
  then show ?thesis by simp
qed

text \<open>
  A failed attempt is repeated. When the attempt at a peer who is here, with whom there is no
  ratchet, fails, a retry is set between a fifth of a second and ten seconds ahead; until then
  the room opens nothing to that peer, and from then on it does.
\<close>
theorem failed_attempt_repeated:
  assumes "live_attempt i s = Some (p, a)" and "room_inv cfg s" and "jm_has (rm_lastSeen s) p"
    and "\<not> jm_has (rm_sessions s) p" and "p \<noteq> rg_self cfg" and "0 \<le> jitter" "jitter < RETRY_JITTER_MS"
  shows "\<exists>w. TryLater p w \<in> set (fst (hs_rejected now jitter i s)) \<and> RETRY_SOON_MS \<le> w \<and> w \<le> GIVE_ROOM_MS
     \<and> (\<forall>t. t < now + w \<longrightarrow> maybeHandshake cfg t p (snd (hs_rejected now jitter i s)) = ([], snd (hs_rejected now jitter i s)))
     \<and> (\<forall>t. now + w \<le> t \<longrightarrow> fst (maybeHandshake cfg t p (snd (hs_rejected now jitter i s))) = [Begin (rm_nextId s)])"
  using assms by (rule retry_starts)

theorem failed_attempt_repeated_witness:
  "\<exists>w. TryLater [2] w \<in> set (fst (hs_rejected 500 100 0 demo_room)) \<and> RETRY_SOON_MS \<le> w \<and> w \<le> GIVE_ROOM_MS"
proof -
  have "jm_has (rm_lastSeen demo_room) [2]" "\<not> jm_has (rm_sessions demo_room) [2]"
    by (simp_all add: demo_room_def empty_room_def jm_has_def)
  from failed_attempt_repeated [OF demo_live(1) demo_room_inv(1) this, of 100 500]
  show ?thesis by (auto simp: demo_cfg_def RETRY_JITTER_MS_def)
qed

text \<open>
  A re-key keeps the old ratchet for its grace. After a new session replaces one, a frame that
  the new ratchet does not know and the old one opens is still read, for a minute.
\<close>
theorem old_ratchet_reads_on:
  assumes "live_attempt i s = Some (p, a)" "jm_get (rm_sessions s) p = Some old"
    and "fst (decrypt ses) = NotOurs" "fst (decrypt old) = Plain pt" "t \<le> now + PREVIOUS_GRACE_MS"
  shows "fst (process_sealed t p decrypt (snd (hs_resolved cfg now b i ses s))) = Some pt"
  using assms by (rule grace_reads)

theorem old_ratchet_reads_on_witness:
  "fst (process_sealed 60000 [2] (\<lambda>k. (if k = 5 then Plain [1] else NotOurs, k)) (snd (hs_resolved demo_cfg 0 False 0 (7 :: nat) demo_rekeyed))) = Some [1]"
  by (rule old_ratchet_reads_on [OF demo_live(2)]) (simp_all add: demo_rekeyed_def PREVIOUS_GRACE_MS_def)

text \<open>
  What was written to an empty room goes out. Content emitted before there is any session
  waits, the first \<open>maxQueued\<close> frames of it, and the first session to come up takes it all, in
  the order it was written.
\<close>
theorem early_content_goes_out:
  assumes "rm_sessions s = []" "length (rm_queued s) \<le> rg_maxQueued cfg" "live_attempt i s = Some (p, a)"
  shows "fst (take_queued (snd (hs_resolved cfg now b i ses (run (room_step cfg) s (map (\<lambda>b. (t, RContent b)) bs)))))
     = take (rg_maxQueued cfg) (rm_queued s @ bs)"
  using assms by (rule queued_goes_out)

theorem early_content_goes_out_witness:
  "fst (take_queued (snd (hs_resolved demo_cfg 9 False 0 7 (run (room_step demo_cfg) demo_room (map (\<lambda>b. (1, RContent b)) [[4], [5], [6]])))))
     = [[4], [5]]"
  by (subst early_content_goes_out [OF _ _ demo_live(1)]) (simp_all add: demo_room_def empty_room_def demo_cfg_def)

text \<open>
  C32: a message is shown once. After a message of a peer was dispatched, the same sequence number
  from that peer, whose id has no colon, shows nothing, whatever happened meanwhile, until that peer's stream ends: a new
  ratchet with it, its leaving, or its silence when ratchets are retired.
\<close>
theorem message_shown_once:
  assumes "plain_id p" "room_inv cfg s" "undisturbed cfg p (snd (snd (dispatch_msg cfg now p n s))) is"
  shows "fst (dispatch_msg cfg t p n (run (room_step cfg) (snd (snd (dispatch_msg cfg now p n s))) is)) = None"
  using assms by (rule shown_once_more)

theorem message_shown_once_witness:
  "fst (dispatch_msg demo_cfg 20 [2] (Fin 4) (run (room_step demo_cfg) (snd (snd (dispatch_msg demo_cfg 10 [2] (Fin 4) demo_room))) [(15, RLeft [3])])) = None"
  by (rule message_shown_once [OF _ demo_room_inv(1)]) (simp_all add: stream_ends_def plain_id_def js_def)

end
