(* ===== verification/FileCrypto.thy ===== *)
theory FileCrypto
  imports Crypto JsValue
begin

section \<open>File bodies encrypted in chunks (lib/filecrypto.ts)\<close>

text \<open>
  A file is cut into chunks and each chunk sealed under the file's own key, with its index in
  the nonce and its index and the number of chunks in the associated data. \<open>fm_chunk\<close> and the
  other fields of a manifest travel in the message that announces the file. Sizes that come
  from outside are JavaScript numbers (\<open>jsnum\<close>), so that the checks of \<open>planChunks\<close> are the
  code's own; a manifest, once made, holds naturals.
\<close>

definition DEFAULT_CHUNK :: nat where "DEFAULT_CHUNK = 4 * 1024 * 1024"
definition MAX_CHUNK :: nat where "MAX_CHUNK = 16 * 1024 * 1024"
definition MAX_FILE :: nat where "MAX_FILE = 128 * 1024 * 1024"
definition FILE_ALG :: jstr where "FILE_ALG = js ''A256GCM-chunked-v1''"
definition FILE_TAG :: nat where "FILE_TAG = 16"

datatype file_error =
    BadSize | FileTooBig | BadChunk | BadFileKey | ChunkOutside | ChunkRefused
  | UnknownAlg | WrongLength | OutOfRange

record manifest =
  fm_alg :: jstr
  fm_chunk :: nat
  fm_chunks :: nat
  fm_size :: nat

text \<open>\<open>Math.ceil(a / b)\<close> of naturals.\<close>

definition ceil_div :: "nat \<Rightarrow> nat \<Rightarrow> nat" where
  "ceil_div a b = (a + b - 1) div b"

definition planChunks :: "jsnum \<Rightarrow> jsnum \<Rightarrow> file_error + manifest" where
  "planChunks sz ch =
     (if \<not> is_integer sz \<or> int_of_num sz < 0 then Inl BadSize
      else if int_of_num sz > int MAX_FILE then Inl FileTooBig
      else if \<not> is_integer ch \<or> int_of_num ch \<le> 0 \<or> int_of_num ch > int MAX_CHUNK then Inl BadChunk
      else let s = nat (int_of_num sz); c = nat (int_of_num ch)
        in Inr \<lparr>fm_alg = FILE_ALG, fm_chunk = c, fm_chunks = max 1 (ceil_div s c), fm_size = s\<rparr>)"

definition file_key :: "bytes \<Rightarrow> file_error + bytes" where
  "file_key raw = (if length raw \<noteq> 32 then Inl BadFileKey else Inr raw)"

definition chunk_nonce :: "nat \<Rightarrow> bytes" where
  "chunk_nonce i = replicate 4 0 @ be_enc 8 i"

definition chunk_aad :: "nat \<Rightarrow> nat \<Rightarrow> bytes" where
  "chunk_aad i n = be_enc 4 i @ be_enc 4 n"

definition chunkCipherLen :: "manifest \<Rightarrow> nat \<Rightarrow> nat" where
  "chunkCipherLen m i = (if Suc i = fm_chunks m then fm_size m - i * fm_chunk m else fm_chunk m) + FILE_TAG"

definition encryptChunk :: "crypto \<Rightarrow> bytes \<Rightarrow> manifest \<Rightarrow> nat \<Rightarrow> bytes \<Rightarrow> file_error + bytes" where
  "encryptChunk C raw m i plain =
     then_ok (check (i < fm_chunks m) ChunkOutside) (\<lambda>_.
     then_ok (file_key raw) (\<lambda>k. Inr (c_seal C k (chunk_nonce i) (chunk_aad i (fm_chunks m)) plain)))"

definition decryptChunk :: "crypto \<Rightarrow> bytes \<Rightarrow> manifest \<Rightarrow> nat \<Rightarrow> bytes \<Rightarrow> file_error + bytes" where
  "decryptChunk C raw m i ct =
     then_ok (check (i < fm_chunks m) ChunkOutside) (\<lambda>_.
     then_ok (file_key raw) (\<lambda>k.
       from_option ChunkRefused (c_open C k (chunk_nonce i) (chunk_aad i (fm_chunks m)) ct)))"

text \<open>
  \<open>encryptBytes\<close>: the parts in order, one \<open>onProgress\<close> call after each; the last component of
  the result is the calls made.
\<close>

fun encrypt_parts :: "crypto \<Rightarrow> bytes \<Rightarrow> manifest \<Rightarrow> bytes \<Rightarrow> nat list \<Rightarrow> file_error + (bytes list \<times> (nat \<times> nat) list)" where
  "encrypt_parts C raw m plain [] = Inr ([], [])"
| "encrypt_parts C raw m plain (i # is) =
     then_ok (encryptChunk C raw m i (slice_of (i * fm_chunk m) (fm_chunk m) plain)) (\<lambda>part.
     then_ok (encrypt_parts C raw m plain is) (\<lambda>(parts, progress).
       Inr (part # parts, (Suc i, fm_chunks m) # progress)))"

definition encryptBytes :: "crypto \<Rightarrow> bytes \<Rightarrow> bytes \<Rightarrow> jsnum \<Rightarrow> file_error + (manifest \<times> bytes \<times> (nat \<times> nat) list)" where
  "encryptBytes C raw plain ch =
     then_ok (planChunks (Fin (of_nat (length plain))) ch) (\<lambda>m.
     then_ok (encrypt_parts C raw m plain [0..<fm_chunks m]) (\<lambda>(parts, progress).
       Inr (m, concat parts, progress)))"

text \<open>\<open>out.set(pt, at)\<close>: a RangeError when the bytes do not fit.\<close>

definition set_at :: "bytes \<Rightarrow> nat \<Rightarrow> bytes \<Rightarrow> file_error + bytes" where
  "set_at out pos pt = (if pos + length pt \<le> length out
     then Inr (take pos out @ pt @ drop (pos + length pt) out) else Inl OutOfRange)"

fun decrypt_parts :: "crypto \<Rightarrow> bytes \<Rightarrow> manifest \<Rightarrow> bytes \<Rightarrow> nat list \<Rightarrow> nat \<Rightarrow> nat \<Rightarrow> bytes \<Rightarrow> file_error + bytes" where
  "decrypt_parts C raw m cipher [] ctAt ptAt out = Inr out"
| "decrypt_parts C raw m cipher (i # is) ctAt ptAt out =
     then_ok (decryptChunk C raw m i (slice_of ctAt (chunkCipherLen m i) cipher)) (\<lambda>pt.
     then_ok (set_at out ptAt pt) (\<lambda>out'.
       decrypt_parts C raw m cipher is (ctAt + chunkCipherLen m i) (ptAt + length pt) out'))"

definition decryptBytes :: "crypto \<Rightarrow> bytes \<Rightarrow> manifest \<Rightarrow> bytes \<Rightarrow> file_error + bytes" where
  "decryptBytes C raw m cipher =
     then_ok (check (fm_alg m = FILE_ALG) UnknownAlg) (\<lambda>_.
     then_ok (check (length cipher = sum_list (map (chunkCipherLen m) [0..<fm_chunks m])) WrongLength) (\<lambda>_.
       decrypt_parts C raw m cipher [0..<fm_chunks m] 0 0 (replicate (fm_size m) 0)))"

subsection \<open>Plans\<close>

lemma ceil_div_bounds:
  assumes "0 < b"
  shows "a \<le> ceil_div a b * b" and "0 < a \<Longrightarrow> (ceil_div a b - 1) * b < a"
proof -
  let ?q = "ceil_div a b"
  have e: "?q * b + (a + b - 1) mod b = a + b - 1"
    by (simp add: ceil_div_def)
  have l: "(a + b - 1) mod b < b" using assms by simp
  from e l assms show "a \<le> ?q * b" by linarith
  assume "0 < a"
  then have q: "1 \<le> ?q" using assms div_le_mono [of b "a + b - 1" b] by (simp add: ceil_div_def)
  then have "(?q - 1) * b = ?q * b - b" by (simp add: diff_mult_distrib)
  then show "(?q - 1) * b < a" using e l \<open>0 < a\<close> assms by linarith
qed

lemma ceil_div_0 [simp]: "0 < b \<Longrightarrow> ceil_div 0 b = 0"
  by (simp add: ceil_div_def)

definition plan_ok :: "manifest \<Rightarrow> bool" where
  "plan_ok m \<longleftrightarrow> fm_alg m = FILE_ALG \<and> 0 < fm_chunk m \<and> fm_chunk m \<le> MAX_CHUNK \<and> fm_size m \<le> MAX_FILE
     \<and> fm_chunks m = max 1 (ceil_div (fm_size m) (fm_chunk m))"

lemma planChunks_ok: "planChunks sz ch = Inr m \<Longrightarrow> plan_ok m"
  by (auto simp: planChunks_def plan_ok_def Let_def nat_le_iff split: if_splits)

lemma planChunks_of:
  assumes "sz \<le> MAX_FILE" and "0 < c" and "c \<le> MAX_CHUNK"
  shows "planChunks (Fin (of_nat sz)) (Fin (of_nat c))
    = Inr \<lparr>fm_alg = FILE_ALG, fm_chunk = c, fm_chunks = max 1 (ceil_div sz c), fm_size = sz\<rparr>"
  using assms by (simp add: planChunks_def)

lemma plan_covers:
  assumes "plan_ok m"
  shows "fm_size m \<le> fm_chunks m * fm_chunk m" and "0 < fm_chunks m"
    and "Suc i < fm_chunks m \<Longrightarrow> Suc i * fm_chunk m < fm_size m"
proof -
  have c: "0 < fm_chunk m" and n: "fm_chunks m = max 1 (ceil_div (fm_size m) (fm_chunk m))"
    using assms by (simp_all add: plan_ok_def)
  show "0 < fm_chunks m" by (simp add: n)
  show "fm_size m \<le> fm_chunks m * fm_chunk m"
    unfolding n using ceil_div_bounds(1) [OF c, of "fm_size m"]
    by (rule order_trans) (simp add: mult_right_mono)
  assume i: "Suc i < fm_chunks m"
  then have q: "fm_chunks m = ceil_div (fm_size m) (fm_chunk m)" unfolding n by simp
  have "0 < fm_size m" using i q ceil_div_0 [OF c] by (cases "fm_size m") auto
  from ceil_div_bounds(2) [OF c this] have "(fm_chunks m - 1) * fm_chunk m < fm_size m" by (simp add: q)
  moreover have "Suc i * fm_chunk m \<le> (fm_chunks m - 1) * fm_chunk m"
    using i by (intro mult_right_mono) auto
  ultimately show "Suc i * fm_chunk m < fm_size m" by simp
qed

subsection \<open>Pieces\<close>

lemma concat_slices: "concat (map (\<lambda>i. slice_of (i * c) c xs) [0..<n]) = take (n * c) xs"
proof (induction n)
  case 0
  then show ?case by simp
next
  case (Suc n)
  have "take (n * c + c) xs = take (n * c) xs @ slice_of (n * c) c xs"
    by (simp add: take_add slice_of_def)
  with Suc show ?case by (simp add: add.commute)
qed

lemma slice_concat:
  assumes "i < length xs"
  shows "slice_of (sum_list (map length (take i xs))) (length (xs ! i)) (concat xs) = xs ! i"
  using assms
proof (induction xs arbitrary: i)
  case Nil
  then show ?case by simp
next
  case (Cons x xs)
  then show ?case by (cases i) (auto simp: slice_of_def)
qed

definition file_piece :: "manifest \<Rightarrow> bytes \<Rightarrow> nat \<Rightarrow> bytes" where
  "file_piece m plain i = slice_of (i * fm_chunk m) (fm_chunk m) plain"

definition sealed_piece :: "crypto \<Rightarrow> bytes \<Rightarrow> manifest \<Rightarrow> bytes \<Rightarrow> nat \<Rightarrow> bytes" where
  "sealed_piece C k m plain i = c_seal C k (chunk_nonce i) (chunk_aad i (fm_chunks m)) (file_piece m plain i)"

lemma length_file_piece:
  assumes "plan_ok m" and "length plain = fm_size m" and "i < fm_chunks m"
  shows "length (file_piece m plain i) + FILE_TAG = chunkCipherLen m i"
proof (cases "Suc i = fm_chunks m")
  case True
  have "fm_size m - i * fm_chunk m \<le> fm_chunk m"
    using plan_covers(1) [OF assms(1)] True [symmetric] by simp
  then show ?thesis using assms True by (simp add: file_piece_def slice_of_def chunkCipherLen_def min_def)
next
  case False
  with plan_covers(3) [OF assms(1), of i] assms(3) have "Suc i * fm_chunk m < fm_size m" by simp
  then show ?thesis using assms(2) False by (simp add: file_piece_def slice_of_def chunkCipherLen_def)
qed

lemma encrypt_parts_ok:
  assumes "length k = 32" and "\<forall>i\<in>set is. i < fm_chunks m"
  shows "encrypt_parts C k m plain is = Inr (map (sealed_piece C k m plain) is, map (\<lambda>i. (Suc i, fm_chunks m)) is)"
  using assms(2) by (induction "is")
    (simp_all add: encryptChunk_def file_key_def assms(1) sealed_piece_def file_piece_def)

lemma sealed_offset:
  assumes "plan_ok m" "length plain = fm_size m" "aead_tagged C" "i \<le> fm_chunks m"
  shows "sum_list (map length (take i (map (sealed_piece C k m plain) [0..<fm_chunks m])))
    = sum_list (map (chunkCipherLen m) [0..<i])"
proof -
  have "length (sealed_piece C k m plain j) = chunkCipherLen m j" if "j < i" for j
    using length_file_piece [OF assms(1,2), of j] that assms(3,4)
    by (simp add: sealed_piece_def aead_tagged_def FILE_TAG_def)
  then show ?thesis using assms(4) by (auto simp: take_map intro!: arg_cong [where f = sum_list])
qed

lemma set_at_app: "length pt \<le> n \<Longrightarrow> set_at (a @ replicate n 0) (length a) pt = Inr (a @ pt @ replicate (n - length pt) 0)"
  by (simp add: set_at_def)

lemma decrypt_parts_ok:
  assumes m: "plan_ok m" "length plain = fm_size m" and C: "aead_tagged C" "aead_opens C" and k: "length k = 32"
    and i: "i \<le> fm_chunks m"
  shows "decrypt_parts C k m (concat (map (sealed_piece C k m plain) [0..<fm_chunks m])) [i..<fm_chunks m]
      (sum_list (map (chunkCipherLen m) [0..<i])) (length (take (i * fm_chunk m) plain))
      (take (i * fm_chunk m) plain @ replicate (fm_size m - i * fm_chunk m) 0) = Inr plain"
  using i
proof (induction "fm_chunks m - i" arbitrary: i)
  case 0
  then have "fm_size m \<le> i * fm_chunk m" using plan_covers(1) [OF m(1)] by simp
  with 0 m(2) show ?case by simp
next
  case (Suc d)
  let ?n = "fm_chunks m" and ?ps = "map (sealed_piece C k m plain) [0..<fm_chunks m]"
  let ?c = "fm_chunk m"
  have i: "i < ?n" using Suc by simp
  have len: "length (sealed_piece C k m plain i) = chunkCipherLen m i"
    using length_file_piece [OF m i] C(1) by (simp add: sealed_piece_def aead_tagged_def FILE_TAG_def)
  have s: "slice_of (sum_list (map (chunkCipherLen m) [0..<i])) (chunkCipherLen m i) (concat ?ps) = sealed_piece C k m plain i"
    using slice_concat [of i ?ps] sealed_offset [OF m C(1), of i k] i len by simp
  have d: "decryptChunk C k m i (sealed_piece C k m plain i) = Inr (file_piece m plain i)"
    using i k C(2) by (simp add: decryptChunk_def file_key_def sealed_piece_def aead_opens_def)
  have t: "take (Suc i * ?c) plain = take (i * ?c) plain @ file_piece m plain i"
    by (simp add: take_add slice_of_def file_piece_def add.commute [of ?c])
  have l: "length (take (i * ?c) plain) + length (file_piece m plain i) = length (take (Suc i * ?c) plain)"
    by (simp only: t length_append)
  have w: "set_at (take (i * ?c) plain @ replicate (fm_size m - i * ?c) 0) (length (take (i * ?c) plain)) (file_piece m plain i)
    = Inr (take (Suc i * ?c) plain @ replicate (fm_size m - Suc i * ?c) 0)"
  proof -
    have "length (take (i * ?c) plain) + length (file_piece m plain i) \<le> fm_size m" unfolding l using m(2) by simp
    then have "length (file_piece m plain i) \<le> fm_size m - i * ?c" and "fm_size m - i * ?c - length (file_piece m plain i) = fm_size m - Suc i * ?c"
      using l m(2) by (auto simp: min_def split: if_splits)
    then show ?thesis by (simp add: set_at_app t [simplified] del: length_take)
  qed
  have u: "[i..<?n] = i # [Suc i..<?n]" using i by (simp add: upt_conv_Cons)
  show ?case
    unfolding u decrypt_parts.simps s d then_ok_simps w l
    using Suc.hyps(1) [of "Suc i"] Suc.hyps(2) i by simp
qed

lemma file_reads_back:
  assumes "length k = 32" "length plain \<le> MAX_FILE" "0 < c" "c \<le> MAX_CHUNK" and "aead_tagged C" "aead_opens C"
  shows "\<exists>m cipher. encryptBytes C k plain (Fin (of_nat c)) = Inr (m, cipher, map (\<lambda>i. (Suc i, fm_chunks m)) [0..<fm_chunks m])
    \<and> plan_ok m \<and> fm_size m = length plain \<and> fm_chunk m = c
    \<and> length cipher = length plain + FILE_TAG * fm_chunks m \<and> decryptBytes C k m cipher = Inr plain"
proof -
  let ?m = "\<lparr>fm_alg = FILE_ALG, fm_chunk = c, fm_chunks = max 1 (ceil_div (length plain) c), fm_size = length plain\<rparr>"
  let ?cs = "map (sealed_piece C k ?m plain) [0..<fm_chunks ?m]"
  have p: "planChunks (Fin (of_nat (length plain))) (Fin (of_nat c)) = Inr ?m"
    using assms(2,3,4) by (rule planChunks_of)
  have ok: "plan_ok ?m" using p by (rule planChunks_ok)
  have sz: "length plain = fm_size ?m" by simp
  have e: "encryptBytes C k plain (Fin (of_nat c)) = Inr (?m, concat ?cs, map (\<lambda>i. (Suc i, fm_chunks ?m)) [0..<fm_chunks ?m])"
    unfolding encryptBytes_def p then_ok_simps using encrypt_parts_ok [OF assms(1), of "[0..<fm_chunks ?m]" ?m C plain] by simp
  have l: "length (concat ?cs) = sum_list (map (chunkCipherLen ?m) [0..<fm_chunks ?m])"
    using sealed_offset [OF ok sz assms(5), of "fm_chunks ?m" k] by (simp add: length_concat)
  have ls: "length (concat ?cs) = length plain + FILE_TAG * fm_chunks ?m"
  proof -
    have "length (concat ?cs) = sum_list (map (\<lambda>i. length (file_piece ?m plain i) + FILE_TAG) [0..<fm_chunks ?m])"
      using assms(5) by (simp add: length_concat sealed_piece_def aead_tagged_def FILE_TAG_def comp_def)
    also have "\<dots> = length (concat (map (file_piece ?m plain) [0..<fm_chunks ?m])) + FILE_TAG * fm_chunks ?m"
      by (simp add: length_concat sum_list_addf comp_def sum_list_triv)
    also have "concat (map (file_piece ?m plain) [0..<fm_chunks ?m]) = plain"
      using plan_covers(1) [OF ok] concat_slices [of c plain "fm_chunks ?m"] by (simp add: file_piece_def [abs_def])
    finally show ?thesis .
  qed
  have "decrypt_parts C k ?m (concat ?cs) [0..<fm_chunks ?m] 0 0 (replicate (fm_size ?m) 0) = Inr plain"
    using decrypt_parts_ok [OF ok sz assms(5,6,1), of 0] by simp
  then have "decryptBytes C k ?m (concat ?cs) = Inr plain" using l by (simp add: decryptBytes_def)
  with e ok ls show ?thesis by (intro exI [of _ ?m] exI [of _ "concat ?cs"]) simp
qed

text \<open>What was accepted was opened chunk by chunk, each where it stands.\<close>

definition opened_at :: "crypto \<Rightarrow> bytes \<Rightarrow> manifest \<Rightarrow> bytes \<Rightarrow> nat \<Rightarrow> bytes option" where
  "opened_at C k m cipher i = c_open C k (chunk_nonce i) (chunk_aad i (fm_chunks m))
     (slice_of (sum_list (map (chunkCipherLen m) [0..<i])) (chunkCipherLen m i) cipher)"

lemma length_set_at: "set_at out pos pt = Inr out' \<Longrightarrow> length out' = length out"
  by (auto simp: set_at_def split: if_splits)

lemma decrypt_parts_opened:
  assumes "decrypt_parts C k m cipher [i..<n] (sum_list (map (chunkCipherLen m) [0..<i])) pos out = Inr p"
  shows "length p = length out \<and> (\<forall>j. i \<le> j \<and> j < n \<longrightarrow> j < fm_chunks m \<and> opened_at C k m cipher j \<noteq> None)"
  using assms
proof (induction "n - i" arbitrary: i pos out)
  case 0
  then show ?case by auto
next
  case (Suc d)
  then have u: "[i..<n] = i # [Suc i..<n]" by (simp add: upt_conv_Cons)
  from Suc.prems obtain pt out' where
    o: "i < fm_chunks m" "opened_at C k m cipher i = Some pt" "set_at out pos pt = Inr out'"
      "decrypt_parts C k m cipher [Suc i..<n] (sum_list (map (chunkCipherLen m) [0..<Suc i])) (pos + length pt) out' = Inr p"
    unfolding u by (auto simp: decryptChunk_def file_key_def opened_at_def ok_simps split: if_splits)
  have ih: "length p = length out' \<and> (\<forall>j. Suc i \<le> j \<and> j < n \<longrightarrow> j < fm_chunks m \<and> opened_at C k m cipher j \<noteq> None)"
    using Suc.hyps(1) [of "Suc i"] Suc.hyps(2) o(4) by simp
  show ?case
    using ih o(1,2) length_set_at [OF o(3)] by (metis Suc_leI le_neq_implies_less option.distinct(1))
qed

lemma decryptBytes_opened:
  assumes "decryptBytes C k m cipher = Inr p"
  shows "length p = fm_size m \<and> length cipher = sum_list (map (chunkCipherLen m) [0..<fm_chunks m])
    \<and> (\<forall>i < fm_chunks m. opened_at C k m cipher i \<noteq> None)"
  using assms decrypt_parts_opened [of C k m cipher 0 "fm_chunks m" 0 "replicate (fm_size m) 0" p]
  by (auto simp: decryptBytes_def ok_simps)

lemma chunk_place_inj:
  assumes "i < 2 ^ 32" "n < 2 ^ 32" "j < 2 ^ 32" "n' < 2 ^ 32"
  shows "chunk_aad i n = chunk_aad j n' \<longleftrightarrow> i = j \<and> n = n'"
proof -
  have "be_enc 4 a = be_enc 4 b \<longleftrightarrow> a = b" if "a < 2 ^ 32" "b < 2 ^ 32" for a b
  proof
    assume e: "be_enc 4 a = be_enc 4 b"
    have "a = be_dec (be_enc 4 a)" using that(1) by simp
    also have "\<dots> = be_dec (be_enc 4 b)" by (simp only: e)
    finally show "a = b" using that(2) by simp
  qed simp
  then show ?thesis using assms by (simp add: chunk_aad_def)
qed

text \<open>
  A file arrives whole. A file of at most 128 MB, encrypted under any chunk size in bounds,
  is cut into the planned number of chunks, costs sixteen bytes for each, reports its progress
  once a chunk, and decrypts to what it was.
\<close>
theorem file_roundtrip:
  assumes "length k = 32" "length plain \<le> MAX_FILE" "0 < c" "c \<le> MAX_CHUNK" and "aead_tagged C" "aead_opens C"
  shows "\<exists>m cipher. encryptBytes C k plain (Fin (of_nat c)) = Inr (m, cipher, map (\<lambda>i. (Suc i, fm_chunks m)) [0..<fm_chunks m])
    \<and> plan_ok m \<and> fm_size m = length plain \<and> fm_chunk m = c
    \<and> length cipher = length plain + FILE_TAG * fm_chunks m \<and> decryptBytes C k m cipher = Inr plain"
  using assms by (rule file_reads_back)

theorem file_roundtrip_witness:
  "\<exists>m cipher. encryptBytes demo_crypto (replicate 32 9) [1, 2, 3, 4, 5] (Fin 2) = Inr (m, cipher, map (\<lambda>i. (Suc i, fm_chunks m)) [0..<fm_chunks m])
    \<and> decryptBytes demo_crypto (replicate 32 9) m cipher = Inr [1, 2, 3, 4, 5]"
  using file_roundtrip [of "replicate 32 9" "[1, 2, 3, 4, 5]" 2 demo_crypto] demo_aead_tagged demo_aead_opens
  by (auto simp: MAX_FILE_def MAX_CHUNK_def)

text \<open>
  C27: an accepted file was read in place. When \<open>decryptBytes\<close> gives a file, the blob has exactly
  the length the manifest says, and every chunk of it opened at its own position under associated
  data naming that position and the manifest's count, which no other position or count shares:
  a moved chunk, a missing one or a shorter manifest has to open under data it was not sealed with.
\<close>
theorem file_read_in_place:
  assumes "decryptBytes C k m cipher = Inr p" and "fm_chunks m < 2 ^ 32"
  shows "length p = fm_size m \<and> length cipher = sum_list (map (chunkCipherLen m) [0..<fm_chunks m])
    \<and> (\<forall>i < fm_chunks m. opened_at C k m cipher i \<noteq> None
        \<and> (\<forall>j n. j < 2 ^ 32 \<and> n < 2 ^ 32 \<and> chunk_aad i (fm_chunks m) = chunk_aad j n \<longrightarrow> j = i \<and> n = fm_chunks m))"
  using decryptBytes_opened [OF assms(1)] assms(2) chunk_place_inj [of _ "fm_chunks m"] by (auto dest: less_trans)

theorem file_read_in_place_witness:
  "\<exists>m cipher. decryptBytes demo_crypto (replicate 32 9) m cipher = Inr [1, 2, 3] \<and> opened_at demo_crypto (replicate 32 9) m cipher 0 \<noteq> None"
proof -
  obtain m cipher where d: "decryptBytes demo_crypto (replicate 32 9) m cipher = Inr [1, 2, 3]" and p: "plan_ok m" "fm_size m = 3" "fm_chunk m = 2"
    using file_reads_back [of "replicate 32 9" "[1, 2, 3]" 2 demo_crypto] demo_aead_tagged demo_aead_opens
    by (auto simp: MAX_FILE_def MAX_CHUNK_def)
  have "fm_chunks m = 2" using p by (simp add: plan_ok_def ceil_div_def)
  then have "opened_at demo_crypto (replicate 32 9) m cipher 0 \<noteq> None" using file_read_in_place [OF d] by simp
  with d show ?thesis by blast
qed

end
