(* ===== verification/JsText.thy ===== *)
theory JsText
  imports JsValue
begin

section \<open>JavaScript text: code points, white space, hexadecimal, objects\<close>

text \<open>
  What the code does with strings beyond their units: \<open>[...s]\<close> splits one into code points,
  a surrogate pair staying whole; \<open>\s\<close> and \<open>trim\<close> are the white space of the language;
  \<open>toString(16).padStart(2, '0')\<close> writes a byte. A property of an object that may be missing is
  \<open>field\<close>: what is read of anything but an object is undefined.
\<close>

fun code_points :: "jstr \<Rightarrow> jstr list" where
  "code_points [] = []"
| "code_points [u] = [[u]]"
| "code_points (u # v # us) =
     (if high_surrogate (unat u) \<and> low_surrogate (unat v) then [u, v] # code_points us
      else [u] # code_points (v # us))"

text \<open>\<open>[...s].slice(0, n).join('')\<close>.\<close>

definition clamp_points :: "nat \<Rightarrow> jstr \<Rightarrow> jstr" where
  "clamp_points n s = concat (take n (code_points s))"

definition white :: "16 word \<Rightarrow> bool" where
  "white u \<longleftrightarrow> u \<in> set [0x9, 0xA, 0xB, 0xC, 0xD, 0x20, 0xA0, 0x1680, 0x2028, 0x2029, 0x202F, 0x205F, 0x3000, 0xFEFF]
     \<or> 0x2000 \<le> u \<and> u \<le> 0x200A"

text \<open>\<open>s.replace(/\s+/g, ' ')\<close>: a run of white space becomes one space.\<close>

fun one_line :: "jstr \<Rightarrow> jstr" where
  "one_line [] = []"
| "one_line [u] = (if white u then [0x20] else [u])"
| "one_line (u # v # us) =
     (if white u then if white v then one_line (v # us) else 0x20 # one_line (v # us) else u # one_line (v # us))"

definition trim :: "jstr \<Rightarrow> jstr" where
  "trim s = rev (dropWhile white (rev (dropWhile white s)))"

definition hex_digit :: "nat \<Rightarrow> 16 word" where
  "hex_digit d = word_of_nat (if d < 10 then 0x30 + d else 0x57 + d)"

definition hex_byte :: "byte \<Rightarrow> jstr" where
  "hex_byte b = [hex_digit (unat b div 16), hex_digit (unat b mod 16)]"

definition hex :: "bytes \<Rightarrow> jstr" where
  "hex b = concat (map hex_byte b)"

definition lower_hex :: "16 word \<Rightarrow> bool" where
  "lower_hex u \<longleftrightarrow> 0x30 \<le> u \<and> u \<le> 0x39 \<or> 0x61 \<le> u \<and> u \<le> 0x66"

subsection \<open>Objects\<close>

definition field :: "json \<Rightarrow> string \<Rightarrow> json option" where
  "field j k = (case j of JObj kvs \<Rightarrow> map_of kvs (js k) | _ \<Rightarrow> None)"

definition without :: "string \<Rightarrow> json \<Rightarrow> json" where
  "without k j = (case j of JObj kvs \<Rightarrow> JObj (filter (\<lambda>p. fst p \<noteq> js k) kvs) | _ \<Rightarrow> j)"

text \<open>\<open>{ ...o, k: v }\<close> where \<open>o\<close> has the property: it keeps its place.\<close>

definition with_field :: "string \<Rightarrow> json \<Rightarrow> json \<Rightarrow> json" where
  "with_field k v j = (case j of JObj kvs \<Rightarrow> JObj (jm_set (js k) v kvs) | _ \<Rightarrow> j)"

definition is_str :: "json option \<Rightarrow> bool" where
  "is_str v = (case v of Some (JStr _) \<Rightarrow> True | _ \<Rightarrow> False)"

definition is_num :: "json option \<Rightarrow> bool" where
  "is_num v = (case v of Some (JNum _) \<Rightarrow> True | _ \<Rightarrow> False)"

definition is_arr :: "json option \<Rightarrow> bool" where
  "is_arr v = (case v of Some (JArr _) \<Rightarrow> True | _ \<Rightarrow> False)"

definition str_val :: "json option \<Rightarrow> jstr" where
  "str_val v = (case v of Some (JStr s) \<Rightarrow> s | _ \<Rightarrow> [])"

text \<open>\<open>Number.isInteger(v) && lo <= v\<close>, and its value.\<close>

definition int_val :: "json option \<Rightarrow> int option" where
  "int_val v = (case v of Some (JNum n) \<Rightarrow> if is_integer n then Some (int_of_num n) else None | _ \<Rightarrow> None)"

definition int_in :: "int \<Rightarrow> int \<Rightarrow> json option \<Rightarrow> bool" where
  "int_in lo hi v = (case int_val v of None \<Rightarrow> False | Some n \<Rightarrow> lo \<le> n \<and> n \<le> hi)"

subsection \<open>Lemmas\<close>

lemma js_inj [simp]: "js s = js t \<longleftrightarrow> s = t"
proof
  assume "js s = js t"
  moreover have "inj (\<lambda>c :: char. word_of_nat (of_char c) :: 16 word)"
  proof (rule injI)
    fix c d :: char
    assume e: "(word_of_nat (of_char c) :: 16 word) = word_of_nat (of_char d)"
    have l: "(of_char c :: nat) < 2 ^ 16" for c :: char
    proof -
      have "(of_char c :: nat) mod 256 < 256" by (rule mod_less_divisor) simp
      then have "(of_char c :: nat) < 256" by (simp only: of_char_mod_256)
      then show ?thesis by (rule less_trans) simp
    qed
    from e have "unat (word_of_nat (of_char c) :: 16 word) = unat (word_of_nat (of_char d) :: 16 word)" by simp
    then have "(of_char c :: nat) = of_char d" using l [of c] l [of d] by (simp add: unat_of_nat)
    then show "c = d" by (simp add: of_char_eq_iff)
  qed
  ultimately show "s = t" unfolding js_def by (simp add: inj_map_eq_map)
qed simp

lemma concat_code_points [simp]: "concat (code_points s) = s"
  by (induction s rule: code_points.induct) auto

lemma code_points_len: "x \<in> set (code_points s) \<Longrightarrow> 1 \<le> length x \<and> length x \<le> 2"
  by (induction s rule: code_points.induct) (auto split: if_splits)

lemma length_concat_points: "length (concat (take n (code_points s))) \<le> 2 * n"
proof -
  have "length (concat xs) \<le> 2 * length xs" if "\<forall>x\<in>set xs. length x \<le> 2" for xs :: "jstr list"
    using that by (induction xs) auto
  from this [of "take n (code_points s)"] show ?thesis
    using code_points_len by (metis (no_types, lifting) in_set_takeD length_take min.cobounded2 mult_le_mono2 order_trans)
qed

lemma length_clamp_points: "length (clamp_points n s) \<le> 2 * n"
  by (simp add: clamp_points_def length_concat_points)

lemma clamp_points_short: "length (code_points s) \<le> n \<Longrightarrow> clamp_points n s = s"
  by (simp add: clamp_points_def)

lemma code_points_Cons: "\<exists>w r. code_points (v # us) = (v # w) # r"
  by (cases us) auto

lemma code_points_head:
  assumes "0 < n"
  obtains r where "concat (take n (code_points (v # us))) = v # r"
  using assms code_points_Cons [of v us] by (cases n) auto

lemma code_points_prefix: "code_points (concat (take n (code_points s))) = take n (code_points s)"
proof (induction s arbitrary: n rule: code_points.induct)
  case (3 u v us)
  show ?case
  proof (cases n)
    case 0
    then show ?thesis by simp
  next
    case (Suc m)
    show ?thesis
    proof (cases "high_surrogate (unat u) \<and> low_surrogate (unat v)")
      case True
      then show ?thesis using Suc "3.IH"(1) by simp
    next
      case False
      have t: "code_points (u # v # us) = [u] # code_points (v # us)" using False by auto
      show ?thesis
      proof (cases "m = 0")
        case True
        then show ?thesis using Suc t by simp
      next
        case m: False
        then obtain r where r: "concat (take m (code_points (v # us))) = v # r"
          by (rule code_points_head [OF neq0_conv [THEN iffD1]])
        have "code_points (v # r) = take m (code_points (v # us))"
          using "3.IH"(2) [OF False, of m] r by simp
        then show ?thesis using Suc t r False by auto
      qed
    qed
  qed
qed (case_tac n; simp)+

lemma clamp_points_idem: "clamp_points n (clamp_points n s) = clamp_points n s"
  by (simp add: clamp_points_def code_points_prefix)

lemma length_code_points_le: "length (code_points s) \<le> length s"
  by (induction s rule: code_points.induct) auto

lemma field_JObj [simp]: "field (JObj kvs) k = map_of kvs (js k)"
  by (simp add: field_def)

lemma is_str_simps [simp]: "is_str (Some (JStr s))" "is_str None = False" "str_val (Some (JStr s)) = s"
  by (simp_all add: is_str_def str_val_def)

lemma is_num_simps [simp]: "is_num (Some (JNum n))" "is_num (Some (num i))" "is_num None = False"
  by (simp_all add: is_num_def num_def)

lemma int_val_num [simp]: "int_val (Some (num i)) = Some i"
  by (simp add: int_val_def num_def)

lemma hex_digit_lower: "d < 16 \<Longrightarrow> lower_hex (hex_digit d)"
proof -
  assume "d < 16"
  then have "d \<in> set [0..<16]" by simp
  moreover have "list_all (\<lambda>d. lower_hex (hex_digit d)) [0..<16]" by code_simp
  ultimately show ?thesis by (simp add: list_all_iff del: set_upt)
qed

lemma hex_lower: "list_all lower_hex (hex b)"
proof (induction b)
  case Nil
  then show ?case by (simp add: hex_def)
next
  case (Cons x b)
  have "unat x div 16 < 16" using unat_byte_lt [of x] by linarith
  then show ?case using Cons by (simp add: hex_def hex_byte_def hex_digit_lower)
qed

lemma length_hex [simp]: "length (hex b) = 2 * length b"
  by (induction b) (auto simp: hex_def hex_byte_def)

end
