(* ===== verification/Envelope.thy ===== *)
theory Envelope
  imports FileCrypto JsText GroupManager
begin

section \<open>The message envelope (lib/envelope.ts, lib/quote.ts)\<close>

text \<open>
  A message inside a seal is a JSON object with a version, a type, an id, a time and a sequence
  number, and the fields of its type. The builders give the object; \<open>decodeEnvelope\<close> is what a
  receiver takes: \<open>None\<close> for anything that is not an envelope of this version or is malformed for
  a type it knows, the object itself, cleaned of a broken quote, album or group name, otherwise.
  An envelope of an unknown type is kept as it is. The random id and the clock are arguments.
\<close>

definition ENVELOPE_V :: int where "ENVELOPE_V = 1"
definition QUOTE_MAX :: nat where "QUOTE_MAX = 160"
definition QUOTE_MAX_WIRE :: nat where "QUOTE_MAX_WIRE = 400"
definition ALBUM_MAX :: int where "ALBUM_MAX = 32"
definition GROUP_NAME_MAX :: nat where "GROUP_NAME_MAX = 64"

subsection \<open>Quotes and albums\<close>

record quote_ref =
  qr_id :: jstr
  qr_au :: "jstr option"
  qr_text :: jstr

definition quoteSnippet :: "jstr \<Rightarrow> jstr" where
  "quoteSnippet s =
     (let flat = trim (one_line s); cp = code_points flat
      in if length cp \<le> QUOTE_MAX then flat else concat (take QUOTE_MAX cp) @ [0x2026])"

text \<open>\<open>pubHint\<close>: the first four bytes of a public key, in hexadecimal; \<open>unb64\<close> may throw.\<close>

definition pubHint :: "(jstr \<Rightarrow> bytes option) \<Rightarrow> jstr \<Rightarrow> jstr option" where
  "pubHint unb64 pub = map_option (\<lambda>b. hex (take 4 b)) (unb64 pub)"

definition makeQuote :: "(jstr \<Rightarrow> bytes option) \<Rightarrow> jstr \<Rightarrow> jstr \<Rightarrow> jstr option \<Rightarrow> quote_ref option" where
  "makeQuote unb64 i s author =
     (case author of
        Some p \<Rightarrow> if p = [] then Some \<lparr>qr_id = i, qr_au = None, qr_text = quoteSnippet s\<rparr>
          else map_option (\<lambda>h. \<lparr>qr_id = i, qr_au = Some h, qr_text = quoteSnippet s\<rparr>) (pubHint unb64 p)
      | None \<Rightarrow> Some \<lparr>qr_id = i, qr_au = None, qr_text = quoteSnippet s\<rparr>)"

definition quote_json :: "quote_ref \<Rightarrow> json" where
  "quote_json q = JObj ([(js ''id'', JStr (qr_id q)), (js ''text'', JStr (qr_text q))]
     @ (case qr_au q of None \<Rightarrow> [] | Some a \<Rightarrow> [(js ''au'', JStr a)]))"

definition isQuoteRef :: "json \<Rightarrow> bool" where
  "isQuoteRef x =
     (is_str (field x ''id'') \<and> length (str_val (field x ''id'')) > 0 \<and> length (str_val (field x ''id'')) \<le> 64
      \<and> is_str (field x ''text'') \<and> length (str_val (field x ''text'')) \<le> QUOTE_MAX_WIRE
      \<and> (field x ''au'' = None \<or> is_str (field x ''au'') \<and> length (str_val (field x ''au'')) = 8
           \<and> list_all lower_hex (str_val (field x ''au''))))"

definition isAlbumRef :: "json \<Rightarrow> bool" where
  "isAlbumRef a =
     (is_str (field a ''id'') \<and> length (str_val (field a ''id'')) = 16 \<and> list_all lower_hex (str_val (field a ''id''))
      \<and> int_in 2 ALBUM_MAX (field a ''n'')
      \<and> (case (int_val (field a ''i''), int_val (field a ''n'')) of (Some i, Some n) \<Rightarrow> 0 \<le> i \<and> i < n | _ \<Rightarrow> False))"

subsection \<open>Builders\<close>

text \<open>What a builder takes from the room and the platform: the sequence number, a fresh id, the clock.\<close>

record env_base =
  eb_id :: jstr
  eb_ts :: int
  eb_seq :: int

definition base :: "string \<Rightarrow> env_base \<Rightarrow> (jstr \<times> json) list" where
  "base t b = [(js ''v'', num ENVELOPE_V), (js ''t'', JStr (js t)), (js ''id'', JStr (eb_id b)),
     (js ''ts'', num (eb_ts b)), (js ''seq'', num (eb_seq b))]"

definition envMsg :: "env_base \<Rightarrow> jstr \<Rightarrow> quote_ref option \<Rightarrow> json" where
  "envMsg b body re = JObj (base ''msg'' b @ [(js ''body'', JStr body), (js ''format'', JStr (js ''plain''))]
     @ (case re of None \<Rightarrow> [] | Some q \<Rightarrow> [(js ''re'', quote_json q)]))"

definition envTyping :: "env_base \<Rightarrow> bool \<Rightarrow> json" where
  "envTyping b start = JObj (base ''typing'' b @ [(js ''state'', JStr (js (if start then ''start'' else ''stop'')))])"

datatype presence_state = StActive | StAway | StLeave

definition presence_str :: "presence_state \<Rightarrow> string" where
  "presence_str s = (case s of StActive \<Rightarrow> ''active'' | StAway \<Rightarrow> ''away'' | StLeave \<Rightarrow> ''leave'')"

definition envPresence :: "env_base \<Rightarrow> presence_state \<Rightarrow> json" where
  "envPresence b s = JObj (base ''presence'' b @ [(js ''state'', JStr (js (presence_str s)))])"

definition envReaction :: "env_base \<Rightarrow> jstr \<Rightarrow> jstr \<Rightarrow> json" where
  "envReaction b to emoji = JObj (base ''reaction'' b @ [(js ''to'', JStr to), (js ''emoji'', JStr emoji)])"

definition envEdit :: "env_base \<Rightarrow> jstr \<Rightarrow> jstr \<Rightarrow> json" where
  "envEdit b to body = JObj (base ''edit'' b @ [(js ''to'', JStr to), (js ''body'', JStr body), (js ''format'', JStr (js ''plain''))])"

definition envKnock :: "env_base \<Rightarrow> json" where
  "envKnock b = JObj (base ''knock'' b)"

record file_meta =
  fl_cid :: jstr
  fl_name :: jstr
  fl_mime :: jstr
  fl_key :: jstr
  fl_manifest :: manifest
  fl_exp :: int
  fl_body :: "jstr option"
  fl_re :: "quote_ref option"
  fl_album :: "(jstr \<times> int \<times> int) option"

definition album_json :: "jstr \<times> int \<times> int \<Rightarrow> json" where
  "album_json a = (case a of (g, i, n) \<Rightarrow> JObj [(js ''id'', JStr g), (js ''i'', num i), (js ''n'', num n)])"

definition envFile :: "env_base \<Rightarrow> file_meta \<Rightarrow> json" where
  "envFile b f = JObj (base ''file'' b @
     [(js ''cid'', JStr (fl_cid f)), (js ''name'', JStr (fl_name f)), (js ''size'', num (int (fm_size (fl_manifest f)))),
      (js ''mime'', JStr (fl_mime f)), (js ''key'', JStr (fl_key f)), (js ''chunk'', num (int (fm_chunk (fl_manifest f)))),
      (js ''chunks'', num (int (fm_chunks (fl_manifest f)))), (js ''alg'', JStr (fm_alg (fl_manifest f))),
      (js ''exp'', num (fl_exp f))]
     @ (case fl_body f of None \<Rightarrow> [] | Some s \<Rightarrow> [(js ''body'', JStr s)])
     @ (case fl_re f of None \<Rightarrow> [] | Some q \<Rightarrow> [(js ''re'', quote_json q)])
     @ (case fl_album f of None \<Rightarrow> [] | Some a \<Rightarrow> [(js ''album'', album_json a)]))"

definition envRtc :: "env_base \<Rightarrow> jstr \<Rightarrow> json \<Rightarrow> json" where
  "envRtc b to sig = JObj (base ''rtc'' b @ [(js ''to'', JStr to), (js ''sig'', sig)])"

definition envAck :: "env_base \<Rightarrow> jstr \<Rightarrow> int \<Rightarrow> json" where
  "envAck b ref rts = JObj (base ''ack'' b @ [(js ''ref'', JStr ref), (js ''rts'', num rts)])"

definition clampGroupName :: "jstr \<Rightarrow> jstr" where
  "clampGroupName n = clamp_points GROUP_NAME_MAX n"

definition envGroupSkd :: "env_base \<Rightarrow> skd_fields \<Rightarrow> jstr option \<Rightarrow> json" where
  "envGroupSkd b f n = JObj (base ''group-skd'' b @
     [(js ''gid'', JStr (sk_gid f)), (js ''gkPub'', JStr (sk_gkPub f)), (js ''epoch'', num (int (sk_epoch f))),
      (js ''secret'', JStr (sk_secret f)), (js ''chain'', JStr (sk_chain f))]
     @ (case sk_ctr f of None \<Rightarrow> [] | Some c \<Rightarrow> [(js ''ctr'', num (int c))])
     @ [(js ''roster'', JArr (map JStr (sk_roster f)))]
     @ (case sk_rmac f of None \<Rightarrow> [] | Some m \<Rightarrow> [(js ''rmac'', JStr m)])
     @ (case n of None \<Rightarrow> [] | Some x \<Rightarrow> [(js ''name'', JStr (clampGroupName x))]))"

definition envGroupSkdReq :: "env_base \<Rightarrow> jstr \<Rightarrow> int \<Rightarrow> json" where
  "envGroupSkdReq b gid epoch = JObj (base ''group-skd-req'' b @ [(js ''gid'', JStr gid), (js ''epoch'', num epoch)])"

definition encodeEnvelope :: "js_env \<Rightarrow> json \<Rightarrow> bytes" where
  "encodeEnvelope J e = js_stringify J e"

subsection \<open>The decoder\<close>

definition sanitizeQuote :: "json \<Rightarrow> json" where
  "sanitizeQuote m = (case field m ''re'' of None \<Rightarrow> m | Some q \<Rightarrow> if isQuoteRef q then m else without ''re'' m)"

definition sanitizeAlbum :: "json \<Rightarrow> json" where
  "sanitizeAlbum m = (case field m ''album'' of None \<Rightarrow> m | Some a \<Rightarrow> if isAlbumRef a then m else without ''album'' m)"

definition sanitizeSkdName :: "json \<Rightarrow> json" where
  "sanitizeSkdName m = (case field m ''name'' of
     None \<Rightarrow> m
   | Some (JStr n) \<Rightarrow> with_field ''name'' (JStr (clampGroupName n)) m
   | Some _ \<Rightarrow> without ''name'' m)"

definition plain_format :: "json \<Rightarrow> bool" where
  "plain_format m = (field m ''format'' = Some (JStr (js ''plain'')))"

definition one_of :: "string list \<Rightarrow> json option \<Rightarrow> bool" where
  "one_of ss v = (case v of Some (JStr s) \<Rightarrow> s \<in> set (map js ss) | _ \<Rightarrow> False)"

text \<open>The manifest a file envelope names is one \<open>planChunks\<close> gives.\<close>

definition file_fields :: "json \<Rightarrow> bool" where
  "file_fields m =
     (is_str (field m ''cid'') \<and> is_str (field m ''name'') \<and> int_in 0 (int MAX_FILE) (field m ''size'')
      \<and> is_str (field m ''mime'') \<and> is_str (field m ''key'') \<and> field m ''alg'' = Some (JStr FILE_ALG)
      \<and> int_in 1 (int MAX_CHUNK) (field m ''chunk'')
      \<and> (case (int_val (field m ''size''), int_val (field m ''chunk''), int_val (field m ''chunks'')) of
           (Some s, Some c, Some n) \<Rightarrow> n = int (max 1 (ceil_div (nat s) (nat c))) | _ \<Rightarrow> False)
      \<and> is_num (field m ''exp'')
      \<and> (field m ''body'' = None \<or> is_str (field m ''body'')))"

definition skd_fields_ok :: "json \<Rightarrow> bool" where
  "skd_fields_ok m =
     (is_str (field m ''gid'') \<and> is_str (field m ''gkPub'') \<and> is_num (field m ''epoch'') \<and> is_str (field m ''secret'')
      \<and> is_str (field m ''chain'') \<and> is_arr (field m ''roster'')
      \<and> (field m ''ctr'' = None \<or> (case int_val (field m ''ctr'') of None \<Rightarrow> False | Some n \<Rightarrow> 0 \<le> n)))"

definition base_ok :: "json \<Rightarrow> bool" where
  "base_ok m \<longleftrightarrow> field m ''v'' = Some (num ENVELOPE_V) \<and> is_str (field m ''t'') \<and> is_str (field m ''id'')
     \<and> is_num (field m ''ts'') \<and> is_num (field m ''seq'')"

text \<open>The switch on the type: \<open>None\<close> where a known type is malformed.\<close>

definition decode_typed :: "json \<Rightarrow> json option" where
  "decode_typed m =
     (let t = str_val (field m ''t''); keep = (\<lambda>ok m'. if ok then Some m' else None) in
      if t = js ''msg'' then keep (is_str (field m ''body'') \<and> plain_format m) (sanitizeQuote m)
      else if t = js ''typing'' then keep (one_of [''start'', ''stop''] (field m ''state'')) m
      else if t = js ''presence'' then keep (one_of [''active'', ''away'', ''leave''] (field m ''state'')) m
      else if t = js ''reaction'' then keep (is_str (field m ''to'') \<and> is_str (field m ''emoji'')) m
      else if t = js ''edit'' then keep (is_str (field m ''to'') \<and> str_val (field m ''to'') \<noteq> []
             \<and> is_str (field m ''body'') \<and> str_val (field m ''body'') \<noteq> [] \<and> plain_format m) m
      else if t = js ''knock'' then Some m
      else if t = js ''file'' then keep (file_fields m) (sanitizeAlbum (sanitizeQuote m))
      else if t = js ''rtc'' then keep (is_str (field m ''to'') \<and> field m ''sig'' \<noteq> None \<and> field m ''sig'' \<noteq> Some JNull) m
      else if t = js ''ack'' then keep (is_str (field m ''ref'') \<and> is_num (field m ''rts'')) m
      else if t = js ''group-skd'' then keep (skd_fields_ok m) (sanitizeSkdName m)
      else if t = js ''group-skd-req'' then keep (is_str (field m ''gid'') \<and> is_num (field m ''epoch'')) m
      else if t = js ''ik-rotate'' then keep (is_str (field m ''newPub'') \<and> is_num (field m ''effectiveFrom'')) m
      else Some m)"

definition decodeEnvelope :: "js_env \<Rightarrow> bytes \<Rightarrow> json option" where
  "decodeEnvelope J b =
     (case js_parse J b of
        None \<Rightarrow> None
      | Some m \<Rightarrow> if base_ok m then decode_typed m else None)"

subsection \<open>What is built is taken\<close>

datatype content =
    CMsg jstr "quote_ref option"
  | CTyping bool
  | CPresence presence_state
  | CReaction jstr jstr
  | CEdit jstr jstr
  | CKnock
  | CFile file_meta
  | CRtc jstr json
  | CAck jstr int
  | CSkd skd_fields "jstr option"
  | CSkdReq jstr int

definition envelope_of :: "env_base \<Rightarrow> content \<Rightarrow> json" where
  "envelope_of b c = (case c of
     CMsg body re \<Rightarrow> envMsg b body re
   | CTyping s \<Rightarrow> envTyping b s
   | CPresence s \<Rightarrow> envPresence b s
   | CReaction to e \<Rightarrow> envReaction b to e
   | CEdit to body \<Rightarrow> envEdit b to body
   | CKnock \<Rightarrow> envKnock b
   | CFile f \<Rightarrow> envFile b f
   | CRtc to sig \<Rightarrow> envRtc b to sig
   | CAck ref rts \<Rightarrow> envAck b ref rts
   | CSkd f n \<Rightarrow> envGroupSkd b f n
   | CSkdReq gid e \<Rightarrow> envGroupSkdReq b gid e)"

text \<open>What the callers of the builders see to: an edit that says something, a planned file, well-made quotes.\<close>

definition quote_fits :: "quote_ref option \<Rightarrow> bool" where
  "quote_fits q = (case q of None \<Rightarrow> True | Some r \<Rightarrow> isQuoteRef (quote_json r))"

definition sendable :: "content \<Rightarrow> bool" where
  "sendable c = (case c of
     CMsg _ re \<Rightarrow> quote_fits re
   | CEdit to body \<Rightarrow> to \<noteq> [] \<and> body \<noteq> []
   | CFile f \<Rightarrow> plan_ok (fl_manifest f) \<and> quote_fits (fl_re f)
       \<and> (case fl_album f of None \<Rightarrow> True | Some a \<Rightarrow> isAlbumRef (album_json a))
   | CRtc _ sig \<Rightarrow> sig \<noteq> JNull
   | _ \<Rightarrow> True)"

lemma map_of_opt [simp]:
  "map_of (case x of None \<Rightarrow> [] | Some y \<Rightarrow> [(k, f y)]) k' = (if k' = k then map_option f x else None)"
  by (cases x) auto

lemma field_option_simps [simp]:
  "is_str (map_option JStr x) = (x \<noteq> None)"
  "is_arr (Some (JArr xs))"
  "str_val (map_option JStr (Some s)) = s"
  by (cases x) (simp_all add: is_arr_def)

lemma one_of_str [simp]: "one_of ss (Some (JStr (js s))) = (s \<in> set ss)"
  by (auto simp: one_of_def)

lemma decode_envelope_of:
  assumes "sendable c"
  shows "base_ok (envelope_of b c)" and "decode_typed (envelope_of b c) = Some (envelope_of b c)"
proof -
  show "base_ok (envelope_of b c)"
    by (cases c) (simp_all add: envelope_of_def base_ok_def base_def envMsg_def envTyping_def envPresence_def envReaction_def
      envEdit_def envKnock_def envFile_def envRtc_def envAck_def envGroupSkd_def envGroupSkdReq_def)
  show "decode_typed (envelope_of b c) = Some (envelope_of b c)"
  proof (cases c)
    case (CMsg body re)
    then show ?thesis using assms
      by (cases re) (simp_all add: envelope_of_def envMsg_def base_def decode_typed_def plain_format_def sanitizeQuote_def
        sendable_def quote_fits_def)
  next
    case (CFile f)
    have p: "plan_ok (fl_manifest f)" using assms CFile by (simp add: sendable_def)
    have "file_fields (envFile b f)"
      using p by (cases "fl_body f") (simp_all add: file_fields_def envFile_def base_def plan_ok_def int_in_def MAX_FILE_def MAX_CHUNK_def map_add_def)
    then show ?thesis using assms CFile
      by (cases "fl_re f"; cases "fl_album f"; cases "fl_body f") (simp_all add: envelope_of_def envFile_def base_def decode_typed_def sanitizeQuote_def sanitizeAlbum_def
        sendable_def quote_fits_def Let_def)
  next
    case (CSkd f n)
    have k: "jm_set k v (xs @ [(k, v)]) = xs @ [(k, v)]" if "k \<notin> fst ` set xs" for k :: jstr and v :: json and xs
      using that by (induction xs) auto
    have c: "clampGroupName (clampGroupName x) = clampGroupName x" for x
      by (simp add: clampGroupName_def clamp_points_idem)
    show ?thesis
      using CSkd by (cases n; cases "sk_ctr f"; cases "sk_rmac f")
        (simp_all add: envelope_of_def envGroupSkd_def base_def decode_typed_def skd_fields_ok_def sanitizeSkdName_def with_field_def c map_add_def Let_def)
  qed (use assms in \<open>simp_all add: envelope_of_def base_def decode_typed_def envTyping_def envPresence_def envReaction_def
      envEdit_def envKnock_def envRtc_def envAck_def envGroupSkdReq_def plain_format_def sendable_def presence_str_def
      split: presence_state.splits\<close>)
qed

lemma field_without [simp]: "field (without k m) j = (if j = k then None else field m j)"
proof (cases m)
  case (JObj kvs)
  have "map_of (filter (\<lambda>p. fst p \<noteq> js k) kvs) (js j) = (if j = k then None else map_of kvs (js j))"
    by (induction kvs) auto
  then show ?thesis using JObj by (simp add: without_def field_def)
qed (auto simp: without_def field_def)

lemma field_with: "j \<noteq> k \<Longrightarrow> field (with_field k v m) j = field m j"
proof (cases m)
  case (JObj kvs)
  have "j \<noteq> k \<Longrightarrow> map_of (jm_set (js k) v kvs) (js j) = map_of kvs (js j)" by (induction kvs) auto
  then show "j \<noteq> k \<Longrightarrow> ?thesis" using JObj by (simp add: with_field_def)
qed (auto simp: with_field_def)

lemma sanitize_field:
  "j \<noteq> ''re'' \<Longrightarrow> field (sanitizeQuote m) j = field m j"
  "j \<noteq> ''album'' \<Longrightarrow> field (sanitizeAlbum m) j = field m j"
  "j \<noteq> ''name'' \<Longrightarrow> field (sanitizeSkdName m) j = field m j"
  by (simp_all add: sanitizeQuote_def sanitizeAlbum_def sanitizeSkdName_def field_with split: option.split json.split)

lemma decode_typed_t: "decode_typed m = Some m' \<Longrightarrow> field m' ''t'' = field m ''t''"
  by (auto simp: decode_typed_def Let_def sanitize_field split: if_splits)

lemma file_envelope_fits:
  assumes "decodeEnvelope J b = Some m" and "field m ''t'' = Some (JStr (js ''file''))"
  shows "\<exists>pl. plan_ok pl \<and> field m ''alg'' = Some (JStr (fm_alg pl)) \<and> int_val (field m ''size'') = Some (int (fm_size pl))
    \<and> int_val (field m ''chunk'') = Some (int (fm_chunk pl)) \<and> int_val (field m ''chunks'') = Some (int (fm_chunks pl))
    \<and> planChunks (Fin (of_nat (fm_size pl))) (Fin (of_nat (fm_chunk pl))) = Inr pl
    \<and> (\<forall>C k cipher p. decryptBytes C k pl cipher = Inr p \<longrightarrow> length p \<le> MAX_FILE)"
proof -
  obtain m0 where m0: "decode_typed m0 = Some m" using assms(1) by (auto simp: decodeEnvelope_def split: option.splits if_splits)
  have t: "field m0 ''t'' = Some (JStr (js ''file''))" using decode_typed_t [OF m0] assms(2) by simp
  have f: "file_fields m0" and m: "m = sanitizeAlbum (sanitizeQuote m0)"
    using m0 t by (auto simp: decode_typed_def Let_def split: if_splits)
  have "file_fields m" using f by (simp add: file_fields_def m sanitize_field)
  then obtain s c n where v: "int_val (field m ''size'') = Some s" "int_val (field m ''chunk'') = Some c" "int_val (field m ''chunks'') = Some n"
    and r: "0 \<le> s" "s \<le> int MAX_FILE" "1 \<le> c" "c \<le> int MAX_CHUNK" "n = int (max 1 (ceil_div (nat s) (nat c)))"
      "field m ''alg'' = Some (JStr FILE_ALG)"
    by (auto simp: file_fields_def int_in_def split: option.splits)
  let ?pl = "\<lparr>fm_alg = FILE_ALG, fm_chunk = nat c, fm_chunks = max 1 (ceil_div (nat s) (nat c)), fm_size = nat s\<rparr>"
  have p: "planChunks (Fin (of_nat (nat s))) (Fin (of_nat (nat c))) = Inr ?pl"
    using r by (intro planChunks_of) auto
  have ok: "plan_ok ?pl" using p by (rule planChunks_ok)
  have "length q \<le> MAX_FILE" if "decryptBytes C k ?pl cipher = Inr q" for C k cipher q
    using decryptBytes_opened [OF that] r(2) by (simp add: nat_le_iff)
  with v r p ok show ?thesis by (intro exI [of _ ?pl]) auto
qed

text \<open>The fields a distribution is read by, \<open>env as GroupSkdEnv\<close>.\<close>

definition skd_of :: "json \<Rightarrow> skd_fields" where
  "skd_of m = \<lparr>sk_gid = str_val (field m ''gid''), sk_gkPub = str_val (field m ''gkPub''),
     sk_epoch = (case int_val (field m ''epoch'') of None \<Rightarrow> 0 | Some e \<Rightarrow> nat e),
     sk_secret = str_val (field m ''secret''), sk_chain = str_val (field m ''chain''),
     sk_ctr = map_option nat (int_val (field m ''ctr'')),
     sk_roster = (case field m ''roster'' of Some (JArr xs) \<Rightarrow> map (\<lambda>x. str_val (Some x)) xs | _ \<Rightarrow> []),
     sk_rmac = (case field m ''rmac'' of Some (JStr s) \<Rightarrow> Some s | _ \<Rightarrow> None)\<rparr>"

lemma skd_of_env: "skd_of (envGroupSkd b f n) = f"
  by (cases f; cases n; cases "sk_ctr f"; cases "sk_rmac f")
    (auto simp: skd_of_def envGroupSkd_def base_def map_add_def int_val_def num_def comp_def)

lemma made_quote_fits:
  assumes "makeQuote unb64 i s author = Some q" and "i \<noteq> []" "length i \<le> 64"
    and "\<forall>p. author = Some p \<and> p \<noteq> [] \<longrightarrow> (\<forall>b. unb64 p = Some b \<longrightarrow> length b \<ge> 4)"
  shows "quote_fits (Some q)"
proof -
  have l: "length (quoteSnippet s) \<le> QUOTE_MAX_WIRE"
  proof -
    let ?t = "trim (one_line s)"
    have "length ?t \<le> 2 * QUOTE_MAX" if "length (code_points ?t) \<le> QUOTE_MAX"
      using length_concat_points [of QUOTE_MAX ?t] that by simp
    then show ?thesis using length_concat_points [of QUOTE_MAX ?t]
      by (auto simp: quoteSnippet_def QUOTE_MAX_def QUOTE_MAX_WIRE_def Let_def)
  qed
  have h: "list_all lower_hex h \<and> length h = 8" if "pubHint unb64 p = Some h" "author = Some p" "p \<noteq> []" for p h
    using that assms(4) by (auto simp: pubHint_def hex_lower)
  show ?thesis using assms(1-3) l h
    by (auto simp: makeQuote_def quote_fits_def isQuoteRef_def quote_json_def split: option.splits if_splits)
qed

text \<open>
  What a builder makes, a receiver takes. An envelope of any kind, built as its callers build
  it, decodes to itself where JSON reads back what it wrote, and a group's key distribution comes
  out of it with the fields that went in.
\<close>
theorem envelope_taken:
  assumes "sendable c" and "js_parse J (js_stringify J (envelope_of b c)) = Some (envelope_of b c)"
  shows "decodeEnvelope J (encodeEnvelope J (envelope_of b c)) = Some (envelope_of b c)
    \<and> (\<forall>f n. c = CSkd f n \<longrightarrow> skd_of (envelope_of b c) = f)"
  using assms decode_envelope_of [of c b] by (auto simp: decodeEnvelope_def encodeEnvelope_def envelope_of_def skd_of_env)

definition demo_base :: env_base where
  "demo_base = \<lparr>eb_id = js ''aW'', eb_ts = 1000, eb_seq = 4\<rparr>"

definition reads_as :: "json \<Rightarrow> js_env" where
  "reads_as m = \<lparr>js_parse = (\<lambda>b. if b = [123] then Some m else None), js_stringify = (\<lambda>_. [123]),
     js_num_of = (\<lambda>_. NaN), js_num_str = (\<lambda>_. [])\<rparr>"

theorem envelope_taken_witness:
  "decodeEnvelope (reads_as (envMsg demo_base (js ''hi'') (Some \<lparr>qr_id = js ''a'', qr_au = Some (js ''0a1b2c3d''), qr_text = []\<rparr>)))
       (encodeEnvelope (reads_as (envMsg demo_base (js ''hi'') (Some \<lparr>qr_id = js ''a'', qr_au = Some (js ''0a1b2c3d''), qr_text = []\<rparr>)))
         (envMsg demo_base (js ''hi'') (Some \<lparr>qr_id = js ''a'', qr_au = Some (js ''0a1b2c3d''), qr_text = []\<rparr>)))
     = Some (envMsg demo_base (js ''hi'') (Some \<lparr>qr_id = js ''a'', qr_au = Some (js ''0a1b2c3d''), qr_text = []\<rparr>))"
proof -
  let ?q = "\<lparr>qr_id = js ''a'', qr_au = Some (js ''0a1b2c3d''), qr_text = []\<rparr>"
  have "list_all lower_hex (js ''0a1b2c3d'')" by code_simp
  then have "sendable (CMsg (js ''hi'') (Some ?q))"
    by (simp add: sendable_def quote_fits_def isQuoteRef_def quote_json_def QUOTE_MAX_WIRE_def)
  from envelope_taken [OF this, of "reads_as (envMsg demo_base (js ''hi'') (Some ?q))" demo_base]
  show ?thesis by (simp add: envelope_of_def reads_as_def)
qed

text \<open>
  A file that is announced fits. A file envelope a receiver takes names a size, a chunk size
  and a count that \<open>planChunks\<close> gives, within the limits, so that decrypting whatever is fetched
  for it gives at most 128 MB.
\<close>
theorem accepted_file_fits:
  assumes "decodeEnvelope J b = Some m" and "field m ''t'' = Some (JStr (js ''file''))"
  shows "\<exists>pl. plan_ok pl \<and> field m ''alg'' = Some (JStr (fm_alg pl)) \<and> int_val (field m ''size'') = Some (int (fm_size pl))
    \<and> int_val (field m ''chunk'') = Some (int (fm_chunk pl)) \<and> int_val (field m ''chunks'') = Some (int (fm_chunks pl))
    \<and> planChunks (Fin (of_nat (fm_size pl))) (Fin (of_nat (fm_chunk pl))) = Inr pl
    \<and> (\<forall>C k cipher p. decryptBytes C k pl cipher = Inr p \<longrightarrow> length p \<le> MAX_FILE)"
  using assms by (rule file_envelope_fits)

definition demo_file_env :: json where
  "demo_file_env = envFile demo_base \<lparr>fl_cid = [], fl_name = [], fl_mime = [], fl_key = [],
     fl_manifest = \<lparr>fm_alg = FILE_ALG, fm_chunk = 2, fm_chunks = 2, fm_size = 3\<rparr>, fl_exp = 9, fl_body = None, fl_re = None, fl_album = None\<rparr>"

theorem accepted_file_fits_witness:
  "\<exists>pl. plan_ok pl \<and> int_val (field demo_file_env ''chunks'') = Some (int (fm_chunks pl))"
proof -
  have "sendable (CFile \<lparr>fl_cid = [], fl_name = [], fl_mime = [], fl_key = [],
     fl_manifest = \<lparr>fm_alg = FILE_ALG, fm_chunk = 2, fm_chunks = 2, fm_size = 3\<rparr>, fl_exp = 9, fl_body = None, fl_re = None, fl_album = None\<rparr>)"
    by (simp add: sendable_def plan_ok_def ceil_div_def MAX_CHUNK_def MAX_FILE_def quote_fits_def)
  from decode_envelope_of [OF this, of demo_base]
  have d: "decodeEnvelope (reads_as demo_file_env) [123] = Some demo_file_env"
    by (simp add: decodeEnvelope_def reads_as_def envelope_of_def demo_file_env_def)
  have "field demo_file_env ''t'' = Some (JStr (js ''file''))" by (simp add: demo_file_env_def envFile_def base_def)
  from accepted_file_fits [OF d this] show ?thesis by blast
qed

end
