(* ===== verification/Announce.thy ===== *)
theory Announce
  imports Crypto JsText
begin

section \<open>Who sent a frame, and presence (lib/origin.ts, lib/announce.ts)\<close>

text \<open>
  \<open>wrap\<close> puts the sender in front of a frame and \<open>origin\<close> takes it off, or takes the
  transport's word for an untagged one. An Announce is a JSON object with a MAC over its version,
  peer, nonce and time under the pair's key; \<open>verifyAnnounce\<close> checks version, shape, a window of
  five minutes and the MAC, in that order. \<open>nonceCache\<close> remembers the nonces of accepted
  ones. \<open>TextDecoder.decode\<close> and base64 are the platform's, fields of \<open>text_env\<close>.
\<close>

record text_env =
  tx_js :: js_env
  tx_decode :: "bytes \<Rightarrow> jstr"
  tx_b64 :: "bytes \<Rightarrow> jstr"
  tx_unb64 :: "jstr \<Rightarrow> bytes option"

subsection \<open>The sender in the frame\<close>

definition ORIGIN_TAG :: byte where "ORIGIN_TAG = 0xE1"
definition MAX_FROM :: nat where "MAX_FROM = 255"

definition wrap :: "jstr \<Rightarrow> bytes \<Rightarrow> bytes option" where
  "wrap sender frame =
     (let f = utf8 sender in
      if f = [] \<or> length f > MAX_FROM then None
      else Some ([ORIGIN_TAG, word_of_nat (length f)] @ f @ frame))"

definition isTagged :: "bytes \<Rightarrow> bool" where
  "isTagged b = (length b \<ge> 2 \<and> hd b = ORIGIN_TAG)"

definition unwrap :: "text_env \<Rightarrow> bytes \<Rightarrow> (jstr \<times> bytes) option" where
  "unwrap T b =
     (if \<not> isTagged b then None
      else let n = unat (b ! 1) in
        if n = 0 \<or> 2 + n > length b then None
        else Some (tx_decode T (slice_of 2 n b), drop (2 + n) b))"

text \<open>The transport's sender is \<open>None\<close> where the event has none.\<close>

definition origin :: "text_env \<Rightarrow> bytes \<Rightarrow> jstr option \<Rightarrow> (jstr \<times> bytes) option" where
  "origin T data sender =
     (if isTagged data then unwrap T data
      else Some (case sender of None \<Rightarrow> [] | Some p \<Rightarrow> p, data))"

subsection \<open>Announce\<close>

definition REPLAY_WINDOW_MS :: int where "REPLAY_WINDOW_MS = 5 * 60 * 1000"

definition macMessage :: "text_env \<Rightarrow> jsnum \<Rightarrow> jstr \<Rightarrow> jstr \<Rightarrow> jsnum \<Rightarrow> bytes" where
  "macMessage T v peer nonce ts =
     utf8 (js_num_str (tx_js T) v @ js ''|'' @ peer @ js ''|'' @ nonce @ js ''|'' @ js_num_str (tx_js T) ts)"

definition announce_json :: "jstr \<Rightarrow> jstr \<Rightarrow> int \<Rightarrow> jstr \<Rightarrow> json" where
  "announce_json peer nonce ts m =
     JObj [(js ''v'', num 3), (js ''peer'', JStr peer), (js ''nonce'', JStr nonce), (js ''ts'', num ts), (js ''mac'', JStr m)]"

text \<open>\<open>fresh\<close> is the sixteen random bytes of the nonce.\<close>

definition buildAnnounce :: "crypto \<Rightarrow> text_env \<Rightarrow> bytes \<Rightarrow> int \<Rightarrow> jstr \<Rightarrow> bytes \<Rightarrow> bytes" where
  "buildAnnounce C T fresh now peer macKey =
     (let nonce = tx_b64 T fresh;
          sig = c_hmac C macKey (macMessage T (Fin 3) peer nonce (Fin (of_int now)))
      in js_stringify (tx_js T) (announce_json peer nonce now (tx_b64 T sig)))"

datatype announce_error = AnParse | AnVersion | AnShape | AnTimestamp | AnMac

text \<open>\<open>Math.abs(now - ts) > REPLAY_WINDOW_MS\<close>: a time that is no finite number is out of any window.\<close>

definition in_window :: "int \<Rightarrow> jsnum \<Rightarrow> bool" where
  "in_window now ts = (case ts of Fin q \<Rightarrow> \<bar>of_int now - q\<bar> \<le> of_int REPLAY_WINDOW_MS | _ \<Rightarrow> ts = NaN)"

definition num_val :: "json option \<Rightarrow> jsnum" where
  "num_val v = (case v of Some (JNum n) \<Rightarrow> n | _ \<Rightarrow> NaN)"

definition verifyAnnounce :: "crypto \<Rightarrow> text_env \<Rightarrow> bytes \<Rightarrow> bytes \<Rightarrow> int \<Rightarrow> announce_error + (jstr \<times> jstr)" where
  "verifyAnnounce C T data macKey now =
     then_ok (from_option AnParse (js_parse (tx_js T) data)) (\<lambda>m.
     then_ok (check (field m ''v'' = Some (num 3)) AnVersion) (\<lambda>_.
     then_ok (check (is_str (field m ''peer'') \<and> is_str (field m ''nonce'') \<and> is_num (field m ''ts'') \<and> is_str (field m ''mac'')) AnShape) (\<lambda>_.
     then_ok (check (in_window now (num_val (field m ''ts''))) AnTimestamp) (\<lambda>_.
     let peer = str_val (field m ''peer''); nonce = str_val (field m ''nonce'') in
     then_ok (check (tx_unb64 T (str_val (field m ''mac''))
         = Some (c_hmac C macKey (macMessage T (Fin 3) peer nonce (num_val (field m ''ts''))))) AnMac) (\<lambda>_.
       Inr (peer, nonce))))))"

subsection \<open>Nonces\<close>

definition NONCE_CACHE_MIN :: nat where "NONCE_CACHE_MIN = 256"

text \<open>The loop stops at the first entry still young enough.\<close>

definition nonce_add :: "int \<Rightarrow> int \<Rightarrow> jstr \<Rightarrow> (jstr, int) jmap \<Rightarrow> (jstr, int) jmap" where
  "nonce_add window now n seen =
     (let s = jm_set n now seen in
      if length s \<le> NONCE_CACHE_MIN then s else dropWhile (\<lambda>x. now - snd x > window) s)"

definition nonce_window :: int where "nonce_window = 2 * REPLAY_WINDOW_MS"

text \<open>What a listener does with a frame that may be an Announce: the peer to count as seen, once per nonce.\<close>

definition hear :: "crypto \<Rightarrow> text_env \<Rightarrow> bytes \<Rightarrow> jstr \<Rightarrow> int \<Rightarrow> bytes \<Rightarrow> (jstr, int) jmap \<Rightarrow> jstr option \<times> (jstr, int) jmap" where
  "hear C T macKey self now data seen =
     (case verifyAnnounce C T data macKey now of
        Inl _ \<Rightarrow> (None, seen)
      | Inr (peer, nonce) \<Rightarrow>
          if peer = self \<or> jm_has seen nonce then (None, seen)
          else (Some peer, nonce_add nonce_window now nonce seen))"

definition hear_step :: "crypto \<Rightarrow> text_env \<Rightarrow> bytes \<Rightarrow> jstr \<Rightarrow> (jstr, int) jmap \<Rightarrow> int \<times> bytes \<Rightarrow> (jstr, int) jmap" where
  "hear_step C T macKey self seen i = snd (hear C T macKey self (fst i) (snd i) seen)"

subsection \<open>A frame keeps its sender\<close>

lemma origin_wrap:
  assumes "wrap p frame = Some b" and "tx_decode T (utf8 p) = p"
  shows "origin T b sender = Some (p, frame)"
proof -
  let ?f = "utf8 p"
  have f: "?f \<noteq> []" "length ?f \<le> 255" and b: "b = [ORIGIN_TAG, word_of_nat (length ?f)] @ ?f @ frame"
    using assms(1) by (auto simp: wrap_def Let_def MAX_FROM_def split: if_splits)
  have n: "unat (b ! 1) = length ?f" using f(2) by (simp add: b unat_byte_of_nat)
  have t: "isTagged b" by (simp add: isTagged_def b)
  have s: "slice_of 2 (length ?f) b = ?f" "drop (2 + length ?f) b = frame" by (simp_all add: slice_of_def b)
  have l: "2 + length ?f \<le> length b" by (simp add: b)
  show ?thesis using t f(1) n s l assms(2) by (simp add: origin_def unwrap_def)
qed

subsection \<open>Announces verify, and only as they were made\<close>

lemma verify_build:
  assumes "js_parse (tx_js T) (js_stringify (tx_js T) j) = Some j"
    and "j = announce_json peer (tx_b64 T fresh) t (tx_b64 T (c_hmac C k (macMessage T (Fin 3) peer (tx_b64 T fresh) (Fin (of_int t)))))"
    and "\<And>x. tx_unb64 T (tx_b64 T x) = Some x" and "\<bar>now - t\<bar> \<le> REPLAY_WINDOW_MS"
  shows "verifyAnnounce C T (buildAnnounce C T fresh t peer k) k now = Inr (peer, tx_b64 T fresh)"
proof -
  have "\<bar>(of_int now :: rat) - of_int t\<bar> = of_int \<bar>now - t\<bar>" by simp
  then have w: "in_window now (Fin (of_int t))" using assms(4) by (simp add: in_window_def del: of_int_abs of_int_diff)
  have f: "field j ''v'' = Some (num 3)" "field j ''peer'' = Some (JStr peer)" "field j ''nonce'' = Some (JStr (tx_b64 T fresh))"
      "field j ''ts'' = Some (num t)"
      "field j ''mac'' = Some (JStr (tx_b64 T (c_hmac C k (macMessage T (Fin 3) peer (tx_b64 T fresh) (Fin (of_int t))))))"
    by (simp_all add: assms(2) announce_json_def)
  have b: "buildAnnounce C T fresh t peer k = js_stringify (tx_js T) j"
    by (simp add: assms(2) buildAnnounce_def Let_def)
  have n: "num_val (Some (num t)) = Fin (of_int t)" by (simp add: num_val_def num_def)
  show ?thesis
    unfolding verifyAnnounce_def b assms(1) from_option_simps then_ok_simps f n
    by (simp only: w assms(3) check_simps then_ok_simps is_str_simps is_num_simps Let_def simp_thms)
qed

lemma verify_parts:
  assumes "verifyAnnounce C T data k now = Inr (peer, nonce)"
  shows "\<exists>m ts. js_parse (tx_js T) data = Some m \<and> field m ''ts'' = Some (JNum ts) \<and> in_window now ts
    \<and> tx_unb64 T (str_val (field m ''mac'')) = Some (c_hmac C k (macMessage T (Fin 3) peer nonce ts))"
proof -
  obtain m where m: "js_parse (tx_js T) data = Some m" "is_num (field m ''ts'')" "in_window now (num_val (field m ''ts''))"
    and c: "tx_unb64 T (str_val (field m ''mac''))
        = Some (c_hmac C k (macMessage T (Fin 3) (str_val (field m ''peer'')) (str_val (field m ''nonce'')) (num_val (field m ''ts''))))"
      "peer = str_val (field m ''peer'')" "nonce = str_val (field m ''nonce'')"
    using assms by (simp add: verifyAnnounce_def ok_simps Let_def) blast
  obtain ts where "field m ''ts'' = Some (JNum ts)" using m(2) by (auto simp: is_num_def split: option.splits json.splits)
  with m c show ?thesis by (intro exI [of _ m] exI [of _ ts]) (simp add: num_val_def)
qed

lemma verify_twice:
  assumes "verifyAnnounce C T data k t1 = Inr (peer, nonce)" "verifyAnnounce C T data k t2 = Inr r"
    and "\<And>m. js_parse (tx_js T) data = Some m \<Longrightarrow> field m ''ts'' \<noteq> Some (JNum NaN)"
  shows "r = (peer, nonce) \<and> t2 - t1 \<le> nonce_window"
proof -
  obtain m ts where m: "js_parse (tx_js T) data = Some m" "field m ''ts'' = Some (JNum ts)" "in_window t1 ts"
    using verify_parts [OF assms(1)] by blast
  have w2: "in_window t2 ts" using verify_parts [of C T data k t2 "fst r" "snd r"] assms(2) m by auto
  obtain q where q: "ts = Fin q" using m assms(3) w2 by (cases ts) (auto simp: in_window_def)
  have "of_int (t2 - t1) \<le> (of_int (2 * REPLAY_WINDOW_MS) :: rat)"
    using m(3) w2 q by (simp add: in_window_def abs_le_iff)
  then have "t2 - t1 \<le> nonce_window" by (simp only: of_int_le_iff nonce_window_def)
  moreover have "r = (peer, nonce)"
    using assms(1,2) by (auto simp: verifyAnnounce_def ok_simps Let_def)
  ultimately show ?thesis by blast
qed

subsection \<open>A nonce is remembered as long as it could be replayed\<close>

lemma dropWhile_keeps: "x \<in> set xs \<Longrightarrow> \<not> P x \<Longrightarrow> x \<in> set (dropWhile P xs)"
  by (induction xs) auto

lemma jm_set_keeps: "(k, v) \<in> set m \<Longrightarrow> k \<noteq> k' \<Longrightarrow> (k, v) \<in> set (jm_set k' v' m)"
  by (induction m) auto

lemma nonce_added: "(n, t) \<in> set (nonce_add nonce_window t n seen)"
proof -
  have "(n, t) \<in> set (jm_set n t seen)" by (induction seen) auto
  then show ?thesis by (auto simp: nonce_add_def Let_def nonce_window_def REPLAY_WINDOW_MS_def intro!: dropWhile_keeps)
qed

lemma hear_keeps:
  assumes "(n, t) \<in> set seen" and "now - t \<le> nonce_window"
  shows "(n, t) \<in> set (snd (hear C T k self now data seen))"
proof (cases "verifyAnnounce C T data k now")
  case (Inr r)
  obtain peer nonce where r: "r = (peer, nonce)" by (cases r)
  have "jm_has seen n" using assms(1) by (force simp: jm_has_iff jm_keys_def)
  then have "peer = self \<or> jm_has seen nonce \<or> nonce \<noteq> n" by auto
  then show ?thesis using assms Inr r
    by (auto simp: hear_def nonce_add_def Let_def intro!: dropWhile_keeps jm_set_keeps)
qed (use assms in \<open>simp add: hear_def\<close>)

lemma run_hear_keeps:
  "(n, t) \<in> set seen \<Longrightarrow> \<forall>i \<in> set is. fst i - t \<le> nonce_window
    \<Longrightarrow> (n, t) \<in> set (run (hear_step C T k self) seen is)"
  by (induction "is" arbitrary: seen) (auto simp: hear_step_def hear_keeps)

lemma replay_refused:
  assumes "hear C T k self t1 data seen = (Some peer, seen1)"
    and "\<forall>i \<in> set is. fst i \<le> t2"
    and "\<And>m. js_parse (tx_js T) data = Some m \<Longrightarrow> field m ''ts'' \<noteq> Some (JNum NaN)"
  shows "fst (hear C T k self t2 data (run (hear_step C T k self) seen1 is)) = None"
proof (cases "verifyAnnounce C T data k t2")
  case (Inr r)
  obtain nonce where v: "verifyAnnounce C T data k t1 = Inr (peer, nonce)" and s: "seen1 = nonce_add nonce_window t1 nonce seen"
    using assms(1) by (auto simp: hear_def split: sum.splits if_splits)
  have r: "r = (peer, nonce)" "t2 - t1 \<le> nonce_window" using verify_twice [OF v Inr assms(3)] by auto
  have "(nonce, t1) \<in> set (run (hear_step C T k self) seen1 is)"
    using assms(2) r(2) by (intro run_hear_keeps) (auto simp: s nonce_added)
  then have "jm_has (run (hear_step C T k self) seen1 is) nonce" by (force simp: jm_has_iff jm_keys_def)
  then show ?thesis using Inr r by (simp add: hear_def)
qed (simp add: hear_def)

definition demo_text :: "json \<Rightarrow> text_env" where
  "demo_text j = \<lparr>tx_js = \<lparr>js_parse = (\<lambda>b. if b = [123] then Some j else None), js_stringify = (\<lambda>_. [123]),
       js_num_of = (\<lambda>_. NaN), js_num_str = (\<lambda>_. [48])\<rparr>,
     tx_decode = map ucast, tx_b64 = map ucast, tx_unb64 = (\<lambda>s. Some (map ucast s))\<rparr>"

lemma demo_text_b64: "tx_unb64 (demo_text j) (tx_b64 (demo_text j) x) = Some x"
  by (induction x) (simp_all add: demo_text_def ucast_8_16)

definition demo_announce :: json where
  "demo_announce = announce_json [2] [7] 1000
     (map ucast (c_hmac demo_crypto [9] (macMessage (demo_text JNull) (Fin 3) [2] [7] (Fin 1000))))"

lemma demo_announce_verifies:
  assumes "\<bar>now - 1000\<bar> \<le> REPLAY_WINDOW_MS"
  shows "verifyAnnounce demo_crypto (demo_text demo_announce) [123] [9] now = Inr ([2], [7])"
proof -
  have m: "macMessage (demo_text demo_announce) = macMessage (demo_text JNull)"
    by (intro ext) (simp add: macMessage_def demo_text_def)
  have "verifyAnnounce demo_crypto (demo_text demo_announce) (buildAnnounce demo_crypto (demo_text demo_announce) [7] 1000 [2] [9]) [9] now
    = Inr ([2], tx_b64 (demo_text demo_announce) [7])"
    by (rule verify_build [where j = demo_announce]) (simp_all add: demo_text_b64 assms m, simp_all add: demo_text_def demo_announce_def)
  then show ?thesis by (simp add: buildAnnounce_def Let_def, simp add: demo_text_def)
qed

text \<open>
  Presence is announced, authenticated and heard once. An Announce built under the pair's key
  and wrapped with its sender is taken off the wire with that sender and counts its peer as seen,
  within five minutes and unless its nonce is known; and once heard, the same Announce is never
  counted again, whatever else is heard meanwhile: the nonce is forgotten only when the Announce
  is too old to verify.
\<close>
theorem announce_heard_once:
  assumes "js_parse (tx_js T) (js_stringify (tx_js T) j) = Some j"
    and "j = announce_json peer (tx_b64 T fresh) t (tx_b64 T (c_hmac C k (macMessage T (Fin 3) peer (tx_b64 T fresh) (Fin (of_int t)))))"
    and "\<forall>x. tx_unb64 T (tx_b64 T x) = Some x" and "\<bar>t1 - t\<bar> \<le> REPLAY_WINDOW_MS"
    and "peer \<noteq> self" "\<not> jm_has seen (tx_b64 T fresh)"
    and "wrap peer (buildAnnounce C T fresh t peer k) = Some b" "tx_decode T (utf8 peer) = peer"
    and "\<forall>i \<in> set is. fst i \<le> t2"
  shows "\<exists>data seen1. origin T b sender = Some (peer, data) \<and> hear C T k self t1 data seen = (Some peer, seen1)
    \<and> fst (hear C T k self t2 data (run (hear_step C T k self) seen1 is)) = None"
proof -
  let ?d = "buildAnnounce C T fresh t peer k"
  have v: "verifyAnnounce C T ?d k t1 = Inr (peer, tx_b64 T fresh)"
    using assms(3) by (intro verify_build [OF assms(1,2) _ assms(4)]) simp
  have h: "hear C T k self t1 ?d seen = (Some peer, nonce_add nonce_window t1 (tx_b64 T fresh) seen)"
    using v assms(5,6) by (simp add: hear_def)
  have n: "field m ''ts'' \<noteq> Some (JNum NaN)" if "js_parse (tx_js T) ?d = Some m" for m
  proof -
    have "?d = js_stringify (tx_js T) j" by (simp add: assms(2) buildAnnounce_def Let_def)
    then have "m = j" using that assms(1) by simp
    then show ?thesis by (simp add: assms(2) announce_json_def num_def)
  qed
  show ?thesis using origin_wrap [OF assms(7,8)] h replay_refused [OF h assms(9) n] by blast
qed

theorem announce_heard_once_witness:
  "\<exists>data seen1. origin (demo_text demo_announce) [ORIGIN_TAG, 1, 2, 123] None = Some ([2], data)
    \<and> hear demo_crypto (demo_text demo_announce) [9] [1] 2000 data [] = (Some [2], seen1)
    \<and> fst (hear demo_crypto (demo_text demo_announce) [9] [1] 3000 data
        (run (hear_step demo_crypto (demo_text demo_announce) [9] [1]) seen1 [(2500, data)])) = None"
proof -
  let ?T = "demo_text demo_announce"
  have m: "macMessage ?T = macMessage (demo_text JNull)"
    by (intro ext) (simp add: macMessage_def demo_text_def)
  have j: "demo_announce = announce_json [2] (tx_b64 ?T [7]) 1000
      (tx_b64 ?T (c_hmac demo_crypto [9] (macMessage ?T (Fin 3) [2] (tx_b64 ?T [7]) (Fin (of_int 1000)))))"
    unfolding m by (simp add: demo_announce_def demo_text_def)
  have r: "js_parse (tx_js ?T) (js_stringify (tx_js ?T) demo_announce) = Some demo_announce" by (simp add: demo_text_def)
  have b: "buildAnnounce demo_crypto ?T [7] 1000 [2] [9] = [123]" by (simp add: buildAnnounce_def Let_def demo_text_def)
  have w: "wrap [2] (buildAnnounce demo_crypto ?T [7] 1000 [2] [9]) = Some [ORIGIN_TAG, 1, 2, 123]"
    unfolding b by (simp add: wrap_def utf8_point_def MAX_FROM_def high_surrogate_def low_surrogate_def)
  have d: "tx_decode ?T (utf8 [2]) = [2]" by (simp add: demo_text_def utf8_point_def high_surrogate_def low_surrogate_def)
  have "\<exists>data seen1. origin ?T [ORIGIN_TAG, 1, 2, 123] None = Some ([2], data) \<and> hear demo_crypto ?T [9] [1] 2000 data [] = (Some [2], seen1)
    \<and> fst (hear demo_crypto ?T [9] [1] 3000 data (run (hear_step demo_crypto ?T [9] [1]) seen1 [(2500, [123])])) = None"
    by (rule announce_heard_once [OF r j _ _ _ _ w d]) (simp_all add: demo_text_b64 REPLAY_WINDOW_MS_def jm_has_def)
  moreover have "origin ?T [ORIGIN_TAG, 1, 2, 123] None = Some ([2], [123])"
    by (simp add: origin_def isTagged_def unwrap_def slice_of_def, simp add: demo_text_def)
  ultimately show ?thesis by auto
qed

end
