(* ===== verification/RoomChat.thy ===== *)
theory RoomChat
  imports RoomFacts Delivery Envelope Announce
begin

section \<open>The conversation: content in and out of a room (lib/room.ts)\<close>

text \<open>
  What joins the parts of \<open>joinChat\<close>: the peers and sessions of \<open>Room\<close>, the contract of
  \<open>Delivery\<close>, the envelopes inside the seals and the Announces beside them. \<open>dispatch\<close> is what
  an opened envelope does, \<open>emitContent\<close> seals a frame for every session or lets it wait,
  \<open>on_frame\<close> is the topic's message handler, and the operations of the returned object follow.
  A session is of type \<open>'s\<close>; sealing and opening with it, the clock, a fresh message id and the
  text functions are in \<open>chat_env\<close>, one for each event. An event runs its calls in order: the
  awaits between sealing for one session and for the next are not interleaved with other events.
  Logging is left out. An effect is a frame sent, a callback of the caller, or one of the room's
  or the contract's own.
\<close>

datatype via = Relay | Direct

text \<open>Where content goes: \<open>gossipContent\<close>, \<open>holdContent\<close>, or the direct channel's function.\<close>

datatype plane = PRelay | PHeld | PDirect

datatype ui =
    UiMessage peer json bool via
  | UiReaction peer json
  | UiEdit peer json
  | UiKnock peer
  | UiFile peer json via
  | UiTyping peer json
  | UiSignal peer json
  | UiSkd peer json
  | UiSkdReq peer json

datatype chat_effect =
    OfRoom effect
  | OfDelivery dv_effect
  | Ui ui
  | Sent plane bytes
  | SentVia jstr plane
  | SignalSent bytes
  | EmitLater bytes int
  | AnnounceLater int
  | Isolated
  | Feed nat bytes

record 's chat =
  ch_room :: "'s room"
  ch_dv :: delivery
  ch_seq :: int
  ch_plane :: plane
  ch_nonces :: "(jstr, int) jmap"
  ch_unheard :: nat
  ch_announced :: bool

record chat_cfg =
  cc_room :: room_cfg
  cc_dv :: dv_cfg
  cc_crypto :: crypto
  cc_text :: text_env
  cc_macKey :: bytes
  cc_directOnly :: bool

record 's chat_env =
  cv_now :: int
  cv_id :: jstr
  cv_encrypt :: "'s \<Rightarrow> bytes \<Rightarrow> bytes option \<times> 's"
  cv_decrypt :: "'s \<Rightarrow> bytes \<Rightarrow> opened \<times> 's"

definition ISOLATED_AFTER :: nat where "ISOLATED_AFTER = 2"

subsection \<open>Lifting\<close>

definition in_room :: "('s room \<Rightarrow> effect list \<times> 's room) \<Rightarrow> 's chat \<Rightarrow> effect list \<times> 's chat" where
  "in_room f s = (case f (ch_room s) of (es, r) \<Rightarrow> (es, s\<lparr>ch_room := r\<rparr>))"

definition dv_env_of :: "'s chat_env \<Rightarrow> 's chat \<Rightarrow> dv_env" where
  "dv_env_of V s = \<lparr>de_now = cv_now V, de_peerPresent = (rm_lastSeen (ch_room s) \<noteq> []), de_direct = (ch_plane s \<noteq> PRelay)\<rparr>"

text \<open>The fields every envelope starts with; the sequence number is the room's counter.\<close>

definition next_base :: "'s chat_env \<Rightarrow> 's chat \<Rightarrow> env_base" where
  "next_base V s = \<lparr>eb_id = cv_id V, eb_ts = cv_now V, eb_seq = ch_seq s\<rparr>"

subsection \<open>Content out\<close>

definition sent_via :: "chat_cfg \<Rightarrow> plane \<Rightarrow> bytes \<Rightarrow> chat_effect list" where
  "sent_via cfg pl b =
     (if pl = PHeld then []
      else case decodeEnvelope (tx_js (cc_text cfg)) b of
          None \<Rightarrow> []
        | Some m \<Rightarrow>
            if one_of [''msg'', ''file''] (field m ''t'') \<and> str_val (field m ''id'') \<noteq> []
            then [SentVia (str_val (field m ''id'')) pl] else [])"

fun emit_to :: "chat_cfg \<Rightarrow> 's chat_env \<Rightarrow> plane \<Rightarrow> bytes \<Rightarrow> (peer \<times> 's) list \<Rightarrow> chat_effect list \<times> (peer \<times> 's) list" where
  "emit_to cfg V pl b [] = ([], [])"
| "emit_to cfg V pl b ((p, x) # ps) =
     (case cv_encrypt V x b of (r, x') \<Rightarrow>
       (case emit_to cfg V pl b ps of (es, ps') \<Rightarrow>
         ((case r of None \<Rightarrow> [] | Some sealed \<Rightarrow> Sent pl sealed # sent_via cfg pl b) @ es, (p, x') # ps')))"

definition emitContent :: "chat_cfg \<Rightarrow> 's chat_env \<Rightarrow> bytes \<Rightarrow> 's chat \<Rightarrow> chat_effect list \<times> 's chat" where
  "emitContent cfg V b s =
     (if rm_sessions (ch_room s) = [] then ([], s\<lparr>ch_room := queue_content (cc_room cfg) b (ch_room s)\<rparr>)
      else (case emit_to cfg V (ch_plane s) b (rm_sessions (ch_room s)) of
        (es, ps) \<Rightarrow> (es, s\<lparr>ch_room := (ch_room s)\<lparr>rm_sessions := ps\<rparr>\<rparr>)))"

fun emit_gossip :: "'s chat_env \<Rightarrow> bytes \<Rightarrow> (peer \<times> 's) list \<Rightarrow> chat_effect list \<times> (peer \<times> 's) list" where
  "emit_gossip V b [] = ([], [])"
| "emit_gossip V b ((p, x) # ps) =
     (case cv_encrypt V x b of (r, x') \<Rightarrow> (case emit_gossip V b ps of (es, ps') \<Rightarrow>
       ((case r of None \<Rightarrow> [] | Some sealed \<Rightarrow> [SignalSent sealed]) @ es, (p, x') # ps')))"

definition emitGossip :: "'s chat_env \<Rightarrow> bytes \<Rightarrow> 's chat \<Rightarrow> chat_effect list \<times> 's chat" where
  "emitGossip V b s = (case emit_gossip V b (rm_sessions (ch_room s)) of
     (es, ps) \<Rightarrow> (es, s\<lparr>ch_room := (ch_room s)\<lparr>rm_sessions := ps\<rparr>\<rparr>))"

fun emit_all :: "chat_cfg \<Rightarrow> 's chat_env \<Rightarrow> bytes list \<Rightarrow> 's chat \<Rightarrow> chat_effect list \<times> 's chat" where
  "emit_all cfg V [] s = ([], s)"
| "emit_all cfg V (b # bs) s = (case emitContent cfg V b s of (e1, s1) \<Rightarrow>
     (case emit_all cfg V bs s1 of (e2, s2) \<Rightarrow> (e1 @ e2, s2)))"

definition flushQueued :: "chat_cfg \<Rightarrow> 's chat_env \<Rightarrow> 's chat \<Rightarrow> chat_effect list \<times> 's chat" where
  "flushQueued cfg V s = (case take_queued (ch_room s) of (bs, r) \<Rightarrow> emit_all cfg V bs (s\<lparr>ch_room := r\<rparr>))"

text \<open>The delivery contract's effects carried out: an emission is \<open>emitContent\<close>.\<close>

fun carry_out :: "chat_cfg \<Rightarrow> 's chat_env \<Rightarrow> dv_effect list \<Rightarrow> 's chat \<Rightarrow> chat_effect list \<times> 's chat" where
  "carry_out cfg V [] s = ([], s)"
| "carry_out cfg V (e # es) s =
     (case (case e of Emit b \<Rightarrow> emitContent cfg V b s | _ \<Rightarrow> ([OfDelivery e], s)) of (e1, s1) \<Rightarrow>
       (case carry_out cfg V es s1 of (e2, s2) \<Rightarrow> (e1 @ e2, s2)))"

definition in_delivery :: "chat_cfg \<Rightarrow> 's chat_env \<Rightarrow> dv_input \<Rightarrow> 's chat \<Rightarrow> chat_effect list \<times> 's chat" where
  "in_delivery cfg V i s = (case dv_do (cc_dv cfg) (dv_env_of V s) i (ch_dv s) of
     (es, d) \<Rightarrow> carry_out cfg V es (s\<lparr>ch_dv := d\<rparr>))"

text \<open>The room's effects: what waited for a session goes out, parked content too, the rest is reported.\<close>

fun carry_room :: "chat_cfg \<Rightarrow> 's chat_env \<Rightarrow> effect list \<Rightarrow> 's chat \<Rightarrow> chat_effect list \<times> 's chat" where
  "carry_room cfg V [] s = ([], s)"
| "carry_room cfg V (e # es) s =
     (case (case e of FlushQueued \<Rightarrow> flushQueued cfg V s | Unpark \<Rightarrow> in_delivery cfg V DEstablished s | _ \<Rightarrow> ([OfRoom e], s)) of
       (e1, s1) \<Rightarrow> (case carry_room cfg V es s1 of (e2, s2) \<Rightarrow> (e1 @ e2, s2)))"

definition chat_touch :: "chat_cfg \<Rightarrow> 's chat_env \<Rightarrow> peer \<Rightarrow> 's chat \<Rightarrow> chat_effect list \<times> 's chat" where
  "chat_touch cfg V p s = (case in_room (touch (cc_room cfg) (cv_now V) p) s of (es, s') \<Rightarrow> (map OfRoom es, s'))"

definition confirm :: "chat_cfg \<Rightarrow> 's chat_env \<Rightarrow> jstr \<Rightarrow> 's chat \<Rightarrow> chat_effect list \<times> 's chat" where
  "confirm cfg V ref s = emitContent cfg V
     (encodeEnvelope (tx_js (cc_text cfg)) (envAck (next_base V s) ref (cv_now V))) (s\<lparr>ch_seq := ch_seq s + 1\<rparr>)"

subsection \<open>Content in\<close>

text \<open>One after the other, the effects together.\<close>

definition and_then :: "'e list \<times> 'a \<Rightarrow> ('a \<Rightarrow> 'e list \<times> 'b) \<Rightarrow> 'e list \<times> 'b" where
  "and_then x f = (case x of (e1, s1) \<Rightarrow> (case f s1 of (e2, s2) \<Rightarrow> (e1 @ e2, s2)))"

definition once :: "peer \<Rightarrow> json \<Rightarrow> chat_effect list \<Rightarrow> 's chat \<Rightarrow> chat_effect list \<times> 's chat" where
  "once p m es s = (case firstSeq p (num_val (field m ''seq'')) (ch_room s) of
     (new, r) \<Rightarrow> (if new then es else [], s\<lparr>ch_room := r\<rparr>))"

definition show_msg :: "peer \<Rightarrow> json \<Rightarrow> via \<Rightarrow> 's chat \<Rightarrow> chat_effect list \<times> 's chat" where
  "show_msg p m v s =
     (let n = num_val (field m ''seq'') in
      case firstSeq p n (ch_room s) of
        (False, r) \<Rightarrow> ([], s\<lparr>ch_room := r\<rparr>)
      | (True, r) \<Rightarrow> (case outOfOrder p n r of (late, r') \<Rightarrow> ([Ui (UiMessage p m late v)], s\<lparr>ch_room := r'\<rparr>)))"

definition dispatch :: "chat_cfg \<Rightarrow> 's chat_env \<Rightarrow> peer \<Rightarrow> json \<Rightarrow> via \<Rightarrow> 's chat \<Rightarrow> chat_effect list \<times> 's chat" where
  "dispatch cfg V from m v s =
     (let t = str_val (field m ''t''); i = str_val (field m ''id''); seen = chat_touch cfg V from s in
      if t = js ''msg'' then and_then seen (\<lambda>s1. and_then (confirm cfg V i s1) (\<lambda>s2. show_msg from m v s2))
      else if t = js ''reaction'' then and_then seen (once from m [Ui (UiReaction from m)])
      else if t = js ''edit'' then and_then seen (\<lambda>s1. and_then (confirm cfg V i s1) (once from m [Ui (UiEdit from m)]))
      else if t = js ''knock'' then and_then seen (once from m [Ui (UiKnock from)])
      else if t = js ''file'' then and_then seen (\<lambda>s1. and_then (confirm cfg V i s1) (once from m [Ui (UiFile from m v)]))
      else if t = js ''typing'' then and_then seen (\<lambda>s1. ([Ui (UiTyping from m)], s1))
      else if t = js ''presence'' then
        (if field m ''state'' = Some (JStr (js ''leave'')) then
           (case in_room (peer_left from) s of (es, s1) \<Rightarrow> (map OfRoom es, s1))
         else and_then seen (\<lambda>s1.
           ([OfRoom (Presence from (if field m ''state'' = Some (JStr (js ''away'')) then PAway else PActive))], s1)))
      else if t = js ''rtc'' then ([Ui (UiSignal from m)], s)
      else if t = js ''group-skd'' then ([Ui (UiSkd from m)], s)
      else if t = js ''group-skd-req'' then ([Ui (UiSkdReq from m)], s)
      else if t = js ''ack'' then and_then seen (\<lambda>s1. in_delivery cfg V (DAck (str_val (field m ''ref''))) s1)
      else ([], s))"

definition processSealed :: "chat_cfg \<Rightarrow> 's chat_env \<Rightarrow> bytes \<Rightarrow> peer \<Rightarrow> via \<Rightarrow> 's chat \<Rightarrow> bool \<times> chat_effect list \<times> 's chat" where
  "processSealed cfg V data from v s =
     (case process_sealed (cv_now V) from (\<lambda>x. cv_decrypt V x data) (ch_room s) of
        (None, r) \<Rightarrow> (False, [], s\<lparr>ch_room := r\<rparr>)
      | (Some pt, r) \<Rightarrow>
          (True, if from = rg_self (cc_room cfg) then ([], s\<lparr>ch_room := r\<rparr>)
            else (case decodeEnvelope (tx_js (cc_text cfg)) pt of
                None \<Rightarrow> ([], s\<lparr>ch_room := r\<rparr>)
              | Some m \<Rightarrow> dispatch cfg V from m v (s\<lparr>ch_room := r\<rparr>))))"

text \<open>
  The message handler of the topic. A handshake frame may have to be fed to an attempt, the
  effect \<open>Feed\<close>; what is not sealed content may be an Announce.
\<close>

definition on_frame :: "chat_cfg \<Rightarrow> 's chat_env \<Rightarrow> bytes \<Rightarrow> jstr option \<Rightarrow> 's chat \<Rightarrow> chat_effect list \<times> 's chat" where
  "on_frame cfg V raw sender s =
     (case origin (cc_text cfg) raw sender of
        None \<Rightarrow> ([], s)
      | Some (from, data) \<Rightarrow>
          if isHandshakeFrame data then
            (case on_handshake_frame (cc_room cfg) (cv_now V) data from (ch_room s) of
              ((es, feed_to), r) \<Rightarrow>
                (map OfRoom es @ (case feed_to of None \<Rightarrow> [] | Some i \<Rightarrow> [Feed i data]), s\<lparr>ch_room := r\<rparr>))
          else (case processSealed cfg V data from Relay s of
              (True, es, s') \<Rightarrow> (es, s')
            | (False, es, s') \<Rightarrow>
                (case hear (cc_crypto cfg) (cc_text cfg) (cc_macKey cfg) (rg_self (cc_room cfg)) (cv_now V) data (ch_nonces s') of
                  (None, ns) \<Rightarrow> (es, s'\<lparr>ch_nonces := ns\<rparr>)
                | (Some p, ns) \<Rightarrow> and_then (es, s'\<lparr>ch_nonces := ns\<rparr>) (chat_touch cfg V p))))"

subsection \<open>Heartbeats\<close>

text \<open>What came back of a published Announce: how many it reached, and whether a relay acknowledged it.\<close>

definition announced :: "nat option \<Rightarrow> bool \<Rightarrow> 's chat \<Rightarrow> chat_effect list \<times> 's chat" where
  "announced reach acked s =
     (case reach of
        None \<Rightarrow> ([], s)
      | Some n \<Rightarrow>
          if n > 0 \<or> acked then ([], s\<lparr>ch_unheard := 0\<rparr>)
          else (if ch_unheard s + 1 = ISOLATED_AFTER then [Isolated] else [], s\<lparr>ch_unheard := ch_unheard s + 1\<rparr>))"

definition announceFirst :: "'s chat \<Rightarrow> chat_effect list \<times> 's chat" where
  "announceFirst s = (if ch_announced s then ([], s)
     else ([OfRoom AnnounceNow, AnnounceLater 1000, AnnounceLater 3000, AnnounceLater 7000], s\<lparr>ch_announced := True\<rparr>))"

definition first_announce_tick :: "bool \<Rightarrow> int \<Rightarrow> int \<Rightarrow> int \<Rightarrow> 's chat \<Rightarrow> chat_effect list \<times> 's chat" where
  "first_announce_tick meshReady now startedAt firstAnnounceMs s =
     (if meshReady \<or> now - startedAt \<ge> firstAnnounceMs then announceFirst s else ([], s))"

subsection \<open>The operations of the room\<close>

text \<open>\<open>say\<close> builds the next envelope and emits it; \<open>say_tracked\<close> also follows it until it is confirmed.\<close>

definition say :: "chat_cfg \<Rightarrow> 's chat_env \<Rightarrow> content \<Rightarrow> 's chat \<Rightarrow> chat_effect list \<times> 's chat" where
  "say cfg V c s = emitContent cfg V
     (encodeEnvelope (tx_js (cc_text cfg)) (envelope_of (next_base V s) c)) (s\<lparr>ch_seq := ch_seq s + 1\<rparr>)"

definition say_tracked :: "chat_cfg \<Rightarrow> 's chat_env \<Rightarrow> content \<Rightarrow> 's chat \<Rightarrow> chat_effect list \<times> 's chat" where
  "say_tracked cfg V c s =
     (let b = encodeEnvelope (tx_js (cc_text cfg)) (envelope_of (next_base V s) c) in
      in_delivery cfg V (DSend (cv_id V) b) (s\<lparr>ch_seq := ch_seq s + 1\<rparr>))"

definition sendText :: "chat_cfg \<Rightarrow> 's chat_env \<Rightarrow> jstr \<Rightarrow> quote_ref option \<Rightarrow> 's chat \<Rightarrow> chat_effect list \<times> 's chat" where
  "sendText cfg V body re s = say_tracked cfg V (CMsg body re) s"

definition sendEdit :: "chat_cfg \<Rightarrow> 's chat_env \<Rightarrow> jstr \<Rightarrow> jstr \<Rightarrow> 's chat \<Rightarrow> chat_effect list \<times> 's chat" where
  "sendEdit cfg V to body s = say_tracked cfg V (CEdit to body) s"

definition sendFile :: "chat_cfg \<Rightarrow> 's chat_env \<Rightarrow> file_meta \<Rightarrow> 's chat \<Rightarrow> chat_effect list \<times> 's chat" where
  "sendFile cfg V f s = say_tracked cfg V (CFile f) s"

definition sendTyping :: "chat_cfg \<Rightarrow> 's chat_env \<Rightarrow> bool \<Rightarrow> 's chat \<Rightarrow> chat_effect list \<times> 's chat" where
  "sendTyping cfg V st s = say cfg V (CTyping st) s"

definition sendPresence :: "chat_cfg \<Rightarrow> 's chat_env \<Rightarrow> presence_state \<Rightarrow> 's chat \<Rightarrow> chat_effect list \<times> 's chat" where
  "sendPresence cfg V st s = say cfg V (CPresence st) s"

definition sendReaction :: "chat_cfg \<Rightarrow> 's chat_env \<Rightarrow> jstr \<Rightarrow> jstr \<Rightarrow> 's chat \<Rightarrow> chat_effect list \<times> 's chat" where
  "sendReaction cfg V to emoji s = say cfg V (CReaction to emoji) s"

definition sendKnock :: "chat_cfg \<Rightarrow> 's chat_env \<Rightarrow> 's chat \<Rightarrow> chat_effect list \<times> 's chat" where
  "sendKnock cfg V s = say cfg V CKnock s"

definition sendGroupSkdReq :: "chat_cfg \<Rightarrow> 's chat_env \<Rightarrow> jstr \<Rightarrow> int \<Rightarrow> 's chat \<Rightarrow> chat_effect list \<times> 's chat" where
  "sendGroupSkdReq cfg V gid epoch s = say cfg V (CSkdReq gid epoch) s"

text \<open>A distribution with no session yet, or a fresh one, goes again: the same bytes.\<close>

definition sendGroupSkd :: "chat_cfg \<Rightarrow> 's chat_env \<Rightarrow> skd_fields \<Rightarrow> jstr option \<Rightarrow> 's chat \<Rightarrow> chat_effect list \<times> 's chat" where
  "sendGroupSkd cfg V f n s =
     (let b = encodeEnvelope (tx_js (cc_text cfg)) (envGroupSkd (next_base V s) f n);
          fresh = (rm_sessions (ch_room s) = [] \<or> list_ex (\<lambda>x. cv_now V - snd x < 5000) (rm_establishedAt (ch_room s)))
      in and_then (emitContent cfg V b (s\<lparr>ch_seq := ch_seq s + 1\<rparr>))
           (\<lambda>s1. (if fresh then [EmitLater b 2500, EmitLater b 6000] else [], s1)))"

definition sendSignal :: "chat_cfg \<Rightarrow> 's chat_env \<Rightarrow> jstr \<Rightarrow> json \<Rightarrow> 's chat \<Rightarrow> chat_effect list \<times> 's chat" where
  "sendSignal cfg V to sig s = emitGossip V
     (encodeEnvelope (tx_js (cc_text cfg)) (envRtc (next_base V s) to sig)) (s\<lparr>ch_seq := ch_seq s + 1\<rparr>)"

definition setContentSend :: "chat_cfg \<Rightarrow> bool \<Rightarrow> 's chat \<Rightarrow> 's chat" where
  "setContentSend cfg given s = s\<lparr>ch_plane := (if given then PDirect else if cc_directOnly cfg then PHeld else PRelay)\<rparr>"

definition injectContent :: "chat_cfg \<Rightarrow> 's chat_env \<Rightarrow> bytes \<Rightarrow> peer \<Rightarrow> 's chat \<Rightarrow> chat_effect list \<times> 's chat" where
  "injectContent cfg V data from s = snd (processSealed cfg V data from Direct s)"

definition who :: "'s chat \<Rightarrow> peer list" where
  "who s = jm_keys (rm_lastSeen (ch_room s))"

definition secured :: "'s chat \<Rightarrow> peer list" where
  "secured s = jm_keys (rm_sessions (ch_room s))"

definition stop_chat :: "'s chat \<Rightarrow> 's chat" where
  "stop_chat s = s\<lparr>ch_room := stop_room (ch_room s),
     ch_dv := (ch_dv s)\<lparr>dv_pending := [], dv_resendable := [], dv_firstSentAt := []\<rparr>\<rparr>"

subsection \<open>A message and its confirmation\<close>

lemma emit_single:
  assumes "rm_sessions (ch_room s) = [(p, x)]" and "cv_encrypt V x b = (Some f, x')"
  shows "emitContent cfg V b s = (Sent (ch_plane s) f # sent_via cfg (ch_plane s) b,
    s\<lparr>ch_room := (ch_room s)\<lparr>rm_sessions := [(p, x')]\<rparr>\<rparr>)"
  using assms by (simp add: emitContent_def)

definition touched :: "int \<Rightarrow> peer \<Rightarrow> 's chat \<Rightarrow> 's chat" where
  "touched now p s = s\<lparr>ch_room := (ch_room s)\<lparr>rm_lastSeen := jm_set p now (rm_lastSeen (ch_room s)),
     rm_quiet := del p (rm_quiet (ch_room s))\<rparr>\<rparr>"

lemma touch_session:
  assumes "jm_has (rm_sessions (ch_room s)) p"
  shows "snd (chat_touch cfg V p s) = touched (cv_now V) p s" and "Ui u \<notin> set (fst (chat_touch cfg V p s))"
  using assms by (simp_all add: chat_touch_def in_room_def touch_def maybeHandshake_def split_beta Let_def touched_def)
    (auto simp: chat_touch_def in_room_def)

lemma and_then_simp: "and_then x f = (fst x @ fst (f (snd x)), snd (f (snd x)))"
  by (simp add: and_then_def split_beta)

lemma dispatch_msg_env:
  assumes "field m ''t'' = Some (JStr (js ''msg''))"
  shows "dispatch cfg V from m v s = and_then (chat_touch cfg V from s)
    (\<lambda>s1. and_then (confirm cfg V (str_val (field m ''id'')) s1) (\<lambda>s2. show_msg from m v s2))"
  using assms by (simp add: dispatch_def Let_def)

lemma dispatch_ack_env:
  assumes "field m ''t'' = Some (JStr (js ''ack''))"
  shows "dispatch cfg V from m v s = and_then (chat_touch cfg V from s) (in_delivery cfg V (DAck (str_val (field m ''ref''))))"
  using assms by (simp add: dispatch_def Let_def)

text \<open>What a receiver with one session does with a message: it shows it, unless its number was seen, and confirms it.\<close>

lemma message_in:
  assumes s: "rm_sessions (ch_room s) = [(p, y)]" and d: "cv_decrypt V y f = (Plain b, y1)"
    and m: "decodeEnvelope (tx_js (cc_text cfg)) b = Some m" "field m ''t'' = Some (JStr (js ''msg''))"
    and p: "p \<noteq> rg_self (cc_room cfg)"
    and a: "a = encodeEnvelope (tx_js (cc_text cfg)) (envAck (next_base V s) (str_val (field m ''id'')) (cv_now V))"
    and e: "cv_encrypt V y1 a = (Some g, y2)"
  shows "\<exists>es s'. processSealed cfg V f p v s = (True, es, s') \<and> Sent (ch_plane s) g \<in> set es
    \<and> ((\<exists>late. Ui (UiMessage p m late v) \<in> set es) \<longleftrightarrow> (p, num_val (field m ''seq'')) \<notin> set (rm_seenSeq (ch_room s)))
    \<and> (p, num_val (field m ''seq'')) \<in> set (rm_seenSeq (ch_room s'))
    \<and> rm_sessions (ch_room s') = [(p, y2)] \<and> ch_seq s' = ch_seq s + 1 \<and> ch_plane s' = ch_plane s"
proof -
  let ?n = "num_val (field m ''seq'')" and ?i = "str_val (field m ''id'')"
  let ?s0 = "s\<lparr>ch_room := (ch_room s)\<lparr>rm_sessions := [(p, y1)]\<rparr>\<rparr>"
  have ps: "process_sealed (cv_now V) p (\<lambda>x. cv_decrypt V x f) (ch_room s) = (Some b, (ch_room s)\<lparr>rm_sessions := [(p, y1)]\<rparr>)"
    using s d by (simp add: process_sealed_def)
  have h: "jm_has (rm_sessions (ch_room ?s0)) p" by (simp add: jm_has_def)
  let ?s1 = "touched (cv_now V) p ?s0"
  have t: "snd (chat_touch cfg V p ?s0) = ?s1" and nu: "\<And>u. Ui u \<notin> set (fst (chat_touch cfg V p ?s0))"
    using touch_session [OF h] by blast+
  have c: "confirm cfg V ?i ?s1 = (Sent (ch_plane s) g # sent_via cfg (ch_plane s) a,
      ?s1\<lparr>ch_seq := ch_seq s + 1, ch_room := (ch_room ?s1)\<lparr>rm_sessions := [(p, y2)]\<rparr>\<rparr>)"
    unfolding confirm_def using emit_single [of "?s1\<lparr>ch_seq := ch_seq s + 1\<rparr>" p y1 V a g y2 cfg] e
    by (simp add: touched_def a next_base_def)
  have sv: "Ui u \<notin> set (sent_via cfg pl a)" for u pl by (simp add: sent_via_def split: option.split)
  define s2 where "s2 = ?s1\<lparr>ch_seq := ch_seq s + 1, ch_room := (ch_room ?s1)\<lparr>rm_sessions := [(p, y2)]\<rparr>\<rparr>"
  have q: "rm_seenSeq (ch_room s2) = rm_seenSeq (ch_room s)" "rm_sessions (ch_room s2) = [(p, y2)]" "ch_seq s2 = ch_seq s + 1" "ch_plane s2 = ch_plane s"
    by (simp_all add: s2_def touched_def)
  have w: "(\<exists>late. Ui (UiMessage p m late v) \<in> set (fst (show_msg p m v s2))) \<longleftrightarrow> (p, ?n) \<notin> set (rm_seenSeq (ch_room s))"
    by (auto simp: show_msg_def firstSeq_def Let_def q(1) split_beta)
  have z: "(p, ?n) \<in> set (rm_seenSeq (ch_room (snd (show_msg p m v s2)))) \<and> rm_sessions (ch_room (snd (show_msg p m v s2))) = [(p, y2)]
      \<and> ch_seq (snd (show_msg p m v s2)) = ch_seq s + 1 \<and> ch_plane (snd (show_msg p m v s2)) = ch_plane s"
    using q by (simp add: show_msg_def firstSeq_def outOfOrder_def Let_def split_beta split: option.split)
  have r: "processSealed cfg V f p v s = (True, dispatch cfg V p m v ?s0)"
    using ps p m(1) by (simp add: processSealed_def)
  have dd: "dispatch cfg V p m v ?s0 = (fst (chat_touch cfg V p ?s0) @ (Sent (ch_plane s) g # sent_via cfg (ch_plane s) a) @ fst (show_msg p m v s2),
      snd (show_msg p m v s2))"
    unfolding dispatch_msg_env [OF m(2)] and_then_simp t c fst_conv snd_conv s2_def by (rule refl)
  show ?thesis unfolding r dd using w z nu sv by auto
qed

lemma message_out:
  assumes s: "rm_sessions (ch_room s) = [(p, x)]"
    and b: "b = encodeEnvelope (tx_js (cc_text cfg)) (envMsg (next_base V s) body re)"
    and e: "cv_encrypt V x b = (Some f, x1)"
  shows "sendText cfg V body re s = (Sent (ch_plane s) f # sent_via cfg (ch_plane s) b,
     s\<lparr>ch_seq := ch_seq s + 1, ch_dv := trackDelivery (cc_dv cfg) (dv_env_of V s) (cv_id V) b (ch_dv s),
       ch_room := (ch_room s)\<lparr>rm_sessions := [(p, x1)]\<rparr>\<rparr>)"
proof -
  let ?s1 = "s\<lparr>ch_seq := ch_seq s + 1, ch_dv := trackDelivery (cc_dv cfg) (dv_env_of V s) (cv_id V) b (ch_dv s)\<rparr>"
  have "emitContent cfg V b ?s1 = (Sent (ch_plane s) f # sent_via cfg (ch_plane s) b, ?s1\<lparr>ch_room := (ch_room s)\<lparr>rm_sessions := [(p, x1)]\<rparr>\<rparr>)"
    using emit_single [of ?s1 p x V b f x1 cfg] s e by simp
  moreover have "dv_env_of V (s\<lparr>ch_seq := ch_seq s + 1\<rparr>) = dv_env_of V s" by (simp add: dv_env_of_def)
  ultimately show ?thesis
    by (simp add: sendText_def say_tracked_def in_delivery_def dv_do_def send_tracked_def envelope_of_def Let_def b [symmetric])
qed

lemma confirmation_in:
  assumes s: "rm_sessions (ch_room s) = [(p, x)]" and d: "cv_decrypt V x g = (Plain a, x1)"
    and m: "decodeEnvelope (tx_js (cc_text cfg)) a = Some m" "field m ''t'' = Some (JStr (js ''ack''))"
      "field m ''ref'' = Some (JStr i)"
    and p: "p \<noteq> rg_self (cc_room cfg)"
    and n: "jm_get (dv_parked (ch_dv s)) i = None" "jm_get (dv_pending (ch_dv s)) i = Some k"
  shows "\<exists>es s'. processSealed cfg V g p v s = (True, es, s') \<and> OfDelivery (Delivered i (cv_now V - pd_sentAt k)) \<in> set es
    \<and> jm_get (dv_pending (ch_dv s')) i = None"
proof -
  let ?s0 = "s\<lparr>ch_room := (ch_room s)\<lparr>rm_sessions := [(p, x1)]\<rparr>\<rparr>"
  have ps: "process_sealed (cv_now V) p (\<lambda>x. cv_decrypt V x g) (ch_room s) = (Some a, (ch_room s)\<lparr>rm_sessions := [(p, x1)]\<rparr>)"
    using s d by (simp add: process_sealed_def)
  have t: "snd (chat_touch cfg V p ?s0) = touched (cv_now V) p ?s0" using touch_session(1) [of ?s0 p] by (simp add: jm_has_def)
  have r: "processSealed cfg V g p v s = (True, dispatch cfg V p m v ?s0)" using ps p m(1) by (simp add: processSealed_def)
  have "in_delivery cfg V (DAck i) (touched (cv_now V) p ?s0)
    = ([OfDelivery (Delivered i (cv_now V - pd_sentAt k))], (touched (cv_now V) p ?s0)\<lparr>ch_dv := forget_kept i (clearPending i (ch_dv s))\<rparr>)"
    using n by (simp add: in_delivery_def dv_do_def on_ack_def dv_env_of_def touched_def)
  then have "dispatch cfg V p m v ?s0 = (fst (chat_touch cfg V p ?s0) @ [OfDelivery (Delivered i (cv_now V - pd_sentAt k))],
      (touched (cv_now V) p ?s0)\<lparr>ch_dv := forget_kept i (clearPending i (ch_dv s))\<rparr>)"
    by (simp add: dispatch_ack_env [OF m(2)] and_then_simp t m(3))
  then show ?thesis unfolding r by (simp add: forget_kept_def clearPending_def)
qed

lemma tracked_pending: "\<exists>k. jm_get (dv_pending (trackDelivery c E i b d)) i = Some k \<and> pd_sentAt k = de_now E"
  by (simp add: trackDelivery_def armRetry_def)

lemma tracked_parked: "dv_parked (trackDelivery c E i b d) = dv_parked d"
  by (simp add: trackDelivery_def armRetry_def)

text \<open>JSON that reads back the envelopes it writes, on both sides of a conversation.\<close>

definition json_ok :: "text_env \<Rightarrow> json \<Rightarrow> bool" where
  "json_ok T j \<longleftrightarrow> js_parse (tx_js T) (js_stringify (tx_js T) j) = Some j"

lemma json_ok_taken:
  assumes "json_ok T (envelope_of b c)" "sendable c"
  shows "decodeEnvelope (tx_js T) (encodeEnvelope (tx_js T) (envelope_of b c)) = Some (envelope_of b c)"
  using assms decode_envelope_of [of c b] by (simp add: json_ok_def decodeEnvelope_def encodeEnvelope_def)

lemma message_delivered:
  assumes A: "rm_sessions (ch_room sA) = [(pb, x)]" "pb \<noteq> rg_self (cc_room cA)" "jm_get (dv_parked (ch_dv sA)) (cv_id VA) = None"
    and B: "rm_sessions (ch_room sB) = [(pa, y)]" "pa \<noteq> rg_self (cc_room cB)" "(pa, Fin (of_int (ch_seq sA))) \<notin> set (rm_seenSeq (ch_room sB))"
    and T: "tx_js (cc_text cA) = tx_js (cc_text cB)" "quote_fits re"
      "json_ok (cc_text cA) (envMsg (next_base VA sA) body re)" "json_ok (cc_text cA) (envAck (next_base VB sB) (cv_id VA) (cv_now VB))"
    and f: "cv_encrypt VA x (encodeEnvelope (tx_js (cc_text cA)) (envMsg (next_base VA sA) body re)) = (Some f, x1)"
      "cv_decrypt VB y f = (Plain (encodeEnvelope (tx_js (cc_text cA)) (envMsg (next_base VA sA) body re)), y1)"
    and g: "cv_encrypt VB y1 (encodeEnvelope (tx_js (cc_text cA)) (envAck (next_base VB sB) (cv_id VA) (cv_now VB))) = (Some g, y2)"
      "cv_decrypt VA' x1 g = (Plain (encodeEnvelope (tx_js (cc_text cA)) (envAck (next_base VB sB) (cv_id VA) (cv_now VB))), x2)"
  shows "\<exists>e1 sA1 e2 sB1 e3 sA2. sendText cA VA body re sA = (e1, sA1) \<and> Sent (ch_plane sA) f \<in> set e1
    \<and> processSealed cB VB f pa v sB = (True, e2, sB1) \<and> (\<exists>late. Ui (UiMessage pa (envMsg (next_base VA sA) body re) late v) \<in> set e2)
    \<and> Sent (ch_plane sB) g \<in> set e2
    \<and> processSealed cA VA' g pb v' sA1 = (True, e3, sA2) \<and> OfDelivery (Delivered (cv_id VA) (cv_now VA' - cv_now VA)) \<in> set e3
    \<and> jm_get (dv_pending (ch_dv sA2)) (cv_id VA) = None"
proof -
  let ?m = "envMsg (next_base VA sA) body re" and ?k = "envAck (next_base VB sB) (cv_id VA) (cv_now VB)"
  have dm: "decodeEnvelope (tx_js (cc_text cB)) (encodeEnvelope (tx_js (cc_text cA)) ?m) = Some ?m"
    using json_ok_taken [of "cc_text cA" "next_base VA sA" "CMsg body re"] T by (simp add: envelope_of_def sendable_def)
  have dk: "decodeEnvelope (tx_js (cc_text cA)) (encodeEnvelope (tx_js (cc_text cA)) ?k) = Some ?k"
    using json_ok_taken [of "cc_text cA" "next_base VB sB" "CAck (cv_id VA) (cv_now VB)"] T by (simp add: envelope_of_def sendable_def)
  have fm: "field ?m ''t'' = Some (JStr (js ''msg''))" "field ?m ''id'' = Some (JStr (cv_id VA))" "field ?m ''seq'' = Some (num (ch_seq sA))"
    by (simp_all add: envMsg_def base_def next_base_def map_add_def)
  have fk: "field ?k ''t'' = Some (JStr (js ''ack''))" "field ?k ''ref'' = Some (JStr (cv_id VA))"
    by (simp_all add: envAck_def base_def map_add_def)
  have i: "str_val (field ?m ''id'') = cv_id VA" and n: "num_val (field ?m ''seq'') = Fin (of_int (ch_seq sA))"
    by (simp_all add: fm num_val_def num_def)
  define sA1 where "sA1 = sA\<lparr>ch_seq := ch_seq sA + 1,
      ch_dv := trackDelivery (cc_dv cA) (dv_env_of VA sA) (cv_id VA) (encodeEnvelope (tx_js (cc_text cA)) ?m) (ch_dv sA),
      ch_room := (ch_room sA)\<lparr>rm_sessions := [(pb, x1)]\<rparr>\<rparr>"
  have o: "sendText cA VA body re sA = (Sent (ch_plane sA) f # sent_via cA (ch_plane sA) (encodeEnvelope (tx_js (cc_text cA)) ?m), sA1)"
    unfolding sA1_def by (rule message_out [OF A(1) refl f(1)])
  have "cv_encrypt VB y1 (encodeEnvelope (tx_js (cc_text cB)) (envAck (next_base VB sB) (str_val (field ?m ''id'')) (cv_now VB))) = (Some g, y2)"
    using g(1) by (simp add: i T(1))
  from message_in [OF B(1) f(2) dm fm(1) B(2) refl this, of v] obtain e2 sB1 where
    m: "processSealed cB VB f pa v sB = (True, e2, sB1)" "Sent (ch_plane sB) g \<in> set e2"
      "\<exists>late. Ui (UiMessage pa ?m late v) \<in> set e2" using B(3) n by auto
  have q: "rm_sessions (ch_room sA1) = [(pb, x1)]" "jm_get (dv_parked (ch_dv sA1)) (cv_id VA) = None"
    using A(3) by (simp_all add: sA1_def tracked_parked)
  obtain k where k: "jm_get (dv_pending (ch_dv sA1)) (cv_id VA) = Some k" "pd_sentAt k = cv_now VA"
    using tracked_pending [of "cc_dv cA" "dv_env_of VA sA" "cv_id VA" _ "ch_dv sA"] by (simp add: sA1_def dv_env_of_def) blast
  from confirmation_in [OF q(1) g(2) dk fk A(2) q(2) k(1), of v'] k(2) o m show ?thesis by auto
qed

lemma copy_confirmed:
  assumes s: "rm_sessions (ch_room s) = [(p, y)]" and d: "cv_decrypt V y f = (Plain b, y1)"
    and m: "decodeEnvelope (tx_js (cc_text cfg)) b = Some m" "field m ''t'' = Some (JStr (js ''msg''))"
    and p: "p \<noteq> rg_self (cc_room cfg)"
    and e: "cv_encrypt V y1 (encodeEnvelope (tx_js (cc_text cfg)) (envAck (next_base V s) (str_val (field m ''id'')) (cv_now V))) = (Some g, y2)"
    and c: "cv_decrypt V' y2 f' = (Plain b, y3)"
    and e': "cv_encrypt V' y3 (encodeEnvelope (tx_js (cc_text cfg)) (envAck \<lparr>eb_id = cv_id V', eb_ts = cv_now V', eb_seq = ch_seq s + 1\<rparr>
        (str_val (field m ''id'')) (cv_now V'))) = (Some g', y4)"
  shows "\<exists>es s1 es' s2. processSealed cfg V f p v s = (True, es, s1) \<and> processSealed cfg V' f' p v' s1 = (True, es', s2)
    \<and> Sent (ch_plane s) g \<in> set es \<and> Sent (ch_plane s) g' \<in> set es' \<and> (\<forall>late. Ui (UiMessage p m late v') \<notin> set es')"
proof -
  from message_in [OF s d m p refl e, of v] obtain es s1 where 1: "processSealed cfg V f p v s = (True, es, s1)" "Sent (ch_plane s) g \<in> set es"
      "(p, num_val (field m ''seq'')) \<in> set (rm_seenSeq (ch_room s1))" "rm_sessions (ch_room s1) = [(p, y2)]" "ch_seq s1 = ch_seq s + 1"
      "ch_plane s1 = ch_plane s" by blast
  have b: "next_base V' s1 = \<lparr>eb_id = cv_id V', eb_ts = cv_now V', eb_seq = ch_seq s + 1\<rparr>" by (simp add: next_base_def 1(5))
  from message_in [OF 1(4) c m p refl e' [folded b], of v'] obtain es' s2 where
    2: "processSealed cfg V' f' p v' s1 = (True, es', s2)" "Sent (ch_plane s1) g' \<in> set es'"
      "\<not> (\<exists>late. Ui (UiMessage p m late v') \<in> set es')" using 1(3) by blast
  show ?thesis using 1 2 by auto
qed

subsection \<open>Properties\<close>

text \<open>
  C6: a message arrives, is shown and is confirmed. When one side of a two-party room sends a text
  and the other's ratchet opens the frame, the message is shown there with the sender's envelope
  and an acknowledgement goes out, and when the sender's ratchet opens that, the message is
  reported delivered with the time it took, and waits for nothing more.
\<close>
theorem message_confirmed:
  assumes "rm_sessions (ch_room sA) = [(pb, x)]" "pb \<noteq> rg_self (cc_room cA)" "jm_get (dv_parked (ch_dv sA)) (cv_id VA) = None"
    and "rm_sessions (ch_room sB) = [(pa, y)]" "pa \<noteq> rg_self (cc_room cB)" "(pa, Fin (of_int (ch_seq sA))) \<notin> set (rm_seenSeq (ch_room sB))"
    and "tx_js (cc_text cA) = tx_js (cc_text cB)" "quote_fits re"
      "json_ok (cc_text cA) (envMsg (next_base VA sA) body re)" "json_ok (cc_text cA) (envAck (next_base VB sB) (cv_id VA) (cv_now VB))"
    and "cv_encrypt VA x (encodeEnvelope (tx_js (cc_text cA)) (envMsg (next_base VA sA) body re)) = (Some f, x1)"
      "cv_decrypt VB y f = (Plain (encodeEnvelope (tx_js (cc_text cA)) (envMsg (next_base VA sA) body re)), y1)"
    and "cv_encrypt VB y1 (encodeEnvelope (tx_js (cc_text cA)) (envAck (next_base VB sB) (cv_id VA) (cv_now VB))) = (Some g, y2)"
      "cv_decrypt VA' x1 g = (Plain (encodeEnvelope (tx_js (cc_text cA)) (envAck (next_base VB sB) (cv_id VA) (cv_now VB))), x2)"
  shows "\<exists>e1 sA1 e2 sB1 e3 sA2. sendText cA VA body re sA = (e1, sA1) \<and> Sent (ch_plane sA) f \<in> set e1
    \<and> processSealed cB VB f pa v sB = (True, e2, sB1) \<and> (\<exists>late. Ui (UiMessage pa (envMsg (next_base VA sA) body re) late v) \<in> set e2)
    \<and> Sent (ch_plane sB) g \<in> set e2
    \<and> processSealed cA VA' g pb v' sA1 = (True, e3, sA2) \<and> OfDelivery (Delivered (cv_id VA) (cv_now VA' - cv_now VA)) \<in> set e3
    \<and> jm_get (dv_pending (ch_dv sA2)) (cv_id VA) = None"
  using assms by (rule message_delivered)

definition demo_two :: "json \<Rightarrow> json \<Rightarrow> text_env" where
  "demo_two m a = \<lparr>tx_js = \<lparr>js_parse = (\<lambda>b. if b = [123] then Some m else if b = [124] then Some a else None),
       js_stringify = (\<lambda>j. if j = m then [123] else [124]), js_num_of = (\<lambda>_. NaN), js_num_str = (\<lambda>_. [48])\<rparr>,
     tx_decode = map ucast, tx_b64 = map ucast, tx_unb64 = (\<lambda>s. Some (map ucast s))\<rparr>"

definition demo_msg :: json where
  "demo_msg = envMsg \<lparr>eb_id = [5], eb_ts = 1000, eb_seq = 1\<rparr> [72, 105] None"

definition demo_ack :: json where
  "demo_ack = envAck \<lparr>eb_id = [6], eb_ts = 1200, eb_seq = 1\<rparr> [5] 1200"

definition demo_chat_cfg :: "peer \<Rightarrow> chat_cfg" where
  "demo_chat_cfg p = \<lparr>cc_room = \<lparr>rg_self = p, rg_heartbeatMs = 15000, rg_lifetimeMs = 86400000, rg_maxQueued = 32\<rparr>,
     cc_dv = default_dv_cfg, cc_crypto = demo_crypto, cc_text = demo_two demo_msg demo_ack, cc_macKey = [], cc_directOnly = False\<rparr>"

definition demo_chat :: "peer \<Rightarrow> nat chat" where
  "demo_chat p = \<lparr>ch_room = empty_room\<lparr>rm_sessions := [(p, 0)], rm_lastSeen := [(p, 0)]\<rparr>, ch_dv = no_deliveries, ch_seq = 1,
     ch_plane = PRelay, ch_nonces = [], ch_unheard = 0, ch_announced = True\<rparr>"

definition demo_env :: "int \<Rightarrow> jstr \<Rightarrow> nat chat_env" where
  "demo_env t i = \<lparr>cv_now = t, cv_id = i, cv_encrypt = (\<lambda>x b. (Some (7 # b), Suc x)),
     cv_decrypt = (\<lambda>x f. (case f of [] \<Rightarrow> NotOurs | h # b \<Rightarrow> if h = 7 then Plain b else NotOurs, x))\<rparr>"

lemma demo_chat_facts:
  "rm_sessions (ch_room (demo_chat p)) = [(p, 0)]" "ch_seq (demo_chat p) = 1" "ch_dv (demo_chat p) = no_deliveries"
  "rm_seenSeq (ch_room (demo_chat p)) = []" "rg_self (cc_room (demo_chat_cfg q)) = q" "ch_plane (demo_chat p) = PRelay"
  "cc_text (demo_chat_cfg q) = demo_two demo_msg demo_ack" "cv_now (demo_env t i) = t" "cv_id (demo_env t i) = i"
  "cv_encrypt (demo_env t i) x b = (Some (7 # b), Suc x)" "cv_decrypt (demo_env t i) x (7 # b) = (Plain b, x)"
  by (simp_all add: demo_chat_def demo_chat_cfg_def demo_env_def empty_room_def)

lemma demo_not_same: "demo_msg \<noteq> demo_ack"
proof
  assume "demo_msg = demo_ack"
  then have "field demo_msg ''t'' = field demo_ack ''t''" by simp
  then show False by (simp add: demo_msg_def demo_ack_def envMsg_def envAck_def base_def)
qed

lemma demo_json: "json_ok (demo_two demo_msg demo_ack) demo_msg" "json_ok (demo_two demo_msg demo_ack) demo_ack"
    "encodeEnvelope (tx_js (demo_two demo_msg demo_ack)) demo_msg = [123]"
    "encodeEnvelope (tx_js (demo_two demo_msg demo_ack)) demo_ack = [124]"
  using demo_not_same by (auto simp: json_ok_def demo_two_def encodeEnvelope_def)

theorem message_confirmed_witness:
  "\<exists>e1 sA1 e2 sB1 e3 sA2. sendText (demo_chat_cfg [1]) (demo_env 1000 [5]) [72, 105] None (demo_chat [2]) = (e1, sA1)
    \<and> Sent PRelay [7, 123] \<in> set e1
    \<and> processSealed (demo_chat_cfg [2]) (demo_env 1200 [6]) [7, 123] [1] Relay (demo_chat [1]) = (True, e2, sB1)
    \<and> (\<exists>late. Ui (UiMessage [1] demo_msg late Relay) \<in> set e2) \<and> Sent PRelay [7, 124] \<in> set e2
    \<and> processSealed (demo_chat_cfg [1]) (demo_env 1500 []) [7, 124] [2] Relay sA1 = (True, e3, sA2)
    \<and> OfDelivery (Delivered [5] 500) \<in> set e3 \<and> jm_get (dv_pending (ch_dv sA2)) [5] = None"
proof -
  have m: "envMsg (next_base (demo_env 1000 [5]) (demo_chat [2])) [72, 105] None = demo_msg"
    by (simp add: next_base_def demo_chat_facts demo_msg_def)
  have a: "envAck (next_base (demo_env 1200 [6]) (demo_chat [1])) (cv_id (demo_env 1000 [5])) (cv_now (demo_env 1200 [6])) = demo_ack"
    by (simp add: next_base_def demo_chat_facts demo_ack_def)
  have a2: "envAck (next_base (demo_env 1200 [6]) (demo_chat [1])) [5] 1200 = demo_ack"
    using a by (simp add: demo_chat_facts)
  show ?thesis
    using message_confirmed [of "demo_chat [2]" "[2]" 0 "demo_chat_cfg [1]" "demo_env 1000 [5]" "demo_chat [1]" "[1]" 0 "demo_chat_cfg [2]"
        None "[72, 105]" "demo_env 1200 [6]" "[7, 123]" 1 0 "[7, 124]" 1 "demo_env 1500 []" 1 Relay Relay]
    unfolding m a demo_chat_facts a2 demo_json by (simp add: quote_fits_def demo_json no_deliveries_def)
qed

text \<open>
  A copy is confirmed again and not shown again. When a message arrives twice, sealed anew as a
  re-send seals it, both copies are acknowledged, since the first acknowledgement may be what was
  lost, and the second shows nothing.
\<close>
theorem copy_confirmed_again:
  assumes "rm_sessions (ch_room s) = [(p, y)]" and "cv_decrypt V y f = (Plain b, y1)"
    and "decodeEnvelope (tx_js (cc_text cfg)) b = Some m" "field m ''t'' = Some (JStr (js ''msg''))"
    and "p \<noteq> rg_self (cc_room cfg)"
    and "cv_encrypt V y1 (encodeEnvelope (tx_js (cc_text cfg)) (envAck (next_base V s) (str_val (field m ''id'')) (cv_now V))) = (Some g, y2)"
    and "cv_decrypt V' y2 f' = (Plain b, y3)"
    and "cv_encrypt V' y3 (encodeEnvelope (tx_js (cc_text cfg)) (envAck \<lparr>eb_id = cv_id V', eb_ts = cv_now V', eb_seq = ch_seq s + 1\<rparr>
        (str_val (field m ''id'')) (cv_now V'))) = (Some g', y4)"
  shows "\<exists>es s1 es' s2. processSealed cfg V f p v s = (True, es, s1) \<and> processSealed cfg V' f' p v' s1 = (True, es', s2)
    \<and> Sent (ch_plane s) g \<in> set es \<and> Sent (ch_plane s) g' \<in> set es' \<and> (\<forall>late. Ui (UiMessage p m late v') \<notin> set es')"
  using assms by (rule copy_confirmed)

theorem copy_confirmed_again_witness:
  "\<exists>es s1 es' s2 g g'. processSealed (demo_chat_cfg [2]) (demo_env 1200 [6]) [7, 123] [1] Relay (demo_chat [1]) = (True, es, s1)
    \<and> processSealed (demo_chat_cfg [2]) (demo_env 3000 [8]) [7, 123] [1] Direct s1 = (True, es', s2)
    \<and> Sent PRelay g \<in> set es \<and> Sent PRelay g' \<in> set es' \<and> (\<forall>late. Ui (UiMessage [1] demo_msg late Direct) \<notin> set es')"
proof -
  have d: "decodeEnvelope (tx_js (cc_text (demo_chat_cfg [2]))) [123] = Some demo_msg"
    using json_ok_taken [of "demo_two demo_msg demo_ack" "\<lparr>eb_id = [5], eb_ts = 1000, eb_seq = 1\<rparr>" "CMsg [72, 105] None"] demo_json
    by (simp add: envelope_of_def sendable_def quote_fits_def demo_chat_facts demo_msg_def)
  have t: "field demo_msg ''t'' = Some (JStr (js ''msg''))" by (simp add: demo_msg_def envMsg_def base_def)
  have p: "[1] \<noteq> rg_self (cc_room (demo_chat_cfg [2]))" by (simp add: demo_chat_facts)
  from copy_confirmed_again [OF demo_chat_facts(1,11) d t p demo_chat_facts(10,11,10), where v = Relay and v' = Direct] show ?thesis
    unfolding demo_chat_facts(6) by blast
qed

end
