(* ===== verification/Calendar.thy ===== *)
theory Calendar
  imports JsText
begin

section \<open>Days of the UTC calendar (lib/time.ts)\<close>

text \<open>
  The day arithmetic of the topic rotation, over JavaScript's \<open>Date\<close>: the day number of a year,
  the year of a day number, the months of a leap year and of a common one. A time is a whole
  number of milliseconds. \<open>utcDateOf\<close> writes a day as YYYY-MM-DD and \<open>addUTCDays\<close> reads one
  back; the model's dates are those of the years 0 to 9999, which that form has room for, and
  \<open>None\<close> stands for the others.
\<close>

definition DAY_MS :: int where "DAY_MS = 86400000"

subsection \<open>\<open>Date\<close>\<close>

definition leap :: "int \<Rightarrow> bool" where
  "leap y = (y mod 4 = 0 \<and> (y mod 100 \<noteq> 0 \<or> y mod 400 = 0))"

definition day_from_year :: "int \<Rightarrow> int" where
  "day_from_year y = 365 * (y - 1970) + (y - 1969) div 4 - (y - 1901) div 100 + (y - 1601) div 400"

text \<open>The last year that starts on the day or before: an estimate from the mean year, put right.\<close>

definition year_of_day :: "int \<Rightarrow> int" where
  "year_of_day d = (let e = 1970 + 400 * d div 146097 in
     if d < day_from_year e then e - 1 else if day_from_year (e + 1) \<le> d then e + 1 else e)"

definition month_lengths :: "bool \<Rightarrow> int list" where
  "month_lengths l = [31, if l then 29 else 28, 31, 30, 31, 30, 31, 31, 30, 31, 30, 31]"

fun split_month :: "int list \<Rightarrow> int \<Rightarrow> nat \<times> int" where
  "split_month [] d = (1, d + 1)"
| "split_month (l # ls) d = (if d < l then (1, d + 1) else case split_month ls (d - l) of (m, x) \<Rightarrow> (Suc m, x))"

definition civil :: "int \<Rightarrow> int \<times> nat \<times> int" where
  "civil d = (let y = year_of_day d in (y, split_month (month_lengths (leap y)) (d - day_from_year y)))"

text \<open>\<open>Date.UTC(y, m - 1, x)\<close> in days: a day past the end of its month goes on into the next.\<close>

definition day_of_civil :: "int \<Rightarrow> nat \<Rightarrow> int \<Rightarrow> int" where
  "day_of_civil y m x = day_from_year y + sum_list (take (m - 1) (month_lengths (leap y))) + x - 1"

text \<open>\<open>Date.UTC\<close> reads a year of two digits as one of the twentieth century.\<close>

definition date_UTC :: "int \<Rightarrow> nat \<Rightarrow> int \<Rightarrow> int" where
  "date_UTC y m x = day_of_civil (if 0 \<le> y \<and> y \<le> 99 then 1900 + y else y) m x * DAY_MS"

subsection \<open>The form YYYY-MM-DD\<close>

definition digit :: "int \<Rightarrow> 16 word" where
  "digit n = word_of_int (0x30 + n mod 10)"

definition p2 :: "int \<Rightarrow> jstr" where
  "p2 n = [digit (n div 10), digit n]"

definition p4 :: "int \<Rightarrow> jstr" where
  "p4 n = p2 (n div 100) @ p2 n"

definition date_str :: "int \<times> nat \<times> int \<Rightarrow> jstr" where
  "date_str c = (case c of (y, m, x) \<Rightarrow> p4 y @ js ''-'' @ p2 (int m) @ js ''-'' @ p2 x)"

definition num_of_digit :: "16 word \<Rightarrow> int option" where
  "num_of_digit u = (if 0x30 \<le> u \<and> u \<le> 0x39 then Some (uint u - 0x30) else None)"

fun read_num :: "int \<Rightarrow> jstr \<Rightarrow> int option" where
  "read_num a [] = Some a"
| "read_num a (u # us) = (case num_of_digit u of None \<Rightarrow> None | Some n \<Rightarrow> read_num (10 * a + n) us)"

text \<open>\<open>Date.parse(date + 'T00:00:00Z')\<close>, in days.\<close>

definition parse_date :: "jstr \<Rightarrow> int option" where
  "parse_date s =
     (if length s = 10 \<and> s ! 4 = 0x2D \<and> s ! 7 = 0x2D then
        case (read_num 0 (take 4 s), read_num 0 (take 2 (drop 5 s)), read_num 0 (drop 8 s)) of
          (Some y, Some m, Some x) \<Rightarrow>
            if 1 \<le> m \<and> m \<le> 12 \<and> 1 \<le> x \<and> x \<le> month_lengths (leap y) ! nat (m - 1)
            then Some (day_of_civil y (nat m) x) else None
        | _ \<Rightarrow> None
      else None)"

subsection \<open>The functions of \<open>time.ts\<close>\<close>

definition utcDateOf :: "int \<Rightarrow> jstr option" where
  "utcDateOf ts = (case civil (ts div DAY_MS) of
     (y, m, x) \<Rightarrow> if 0 \<le> y \<and> y \<le> 9999 then Some (date_str (y, m, x)) else None)"

definition addUTCDays :: "jstr \<Rightarrow> int \<Rightarrow> jstr option" where
  "addUTCDays date n = (case parse_date date of None \<Rightarrow> None | Some d \<Rightarrow> utcDateOf (d * DAY_MS + n * 86400000))"

definition msToNextUTCMidnight :: "int \<Rightarrow> int" where
  "msToNextUTCMidnight ts = (case civil (ts div DAY_MS) of (y, m, x) \<Rightarrow> date_UTC y m (x + 1) - ts)"

definition msSincePrevUTCMidnight :: "int \<Rightarrow> int" where
  "msSincePrevUTCMidnight ts = (case civil (ts div DAY_MS) of (y, m, x) \<Rightarrow> ts - date_UTC y m x)"

definition utcHHMM :: "int \<Rightarrow> jstr" where
  "utcHHMM ts = p2 (ts mod DAY_MS div 3600000) @ js '':'' @ p2 (ts mod 3600000 div 60000)"

subsection \<open>A day has one year, month and day\<close>

lemma floor_bounds:
  assumes "0 < k"
  shows "k * (a div k) \<le> (a :: int)" and "a < k * (a div k) + k"
  using pos_mod_bound [OF assms, of a] pos_mod_sign [OF assms, of a] mult_div_mod_eq [of k a] by linarith+

lemma day_from_year_mean:
  "146097 * y - 287811596 \<le> 400 * day_from_year y" "400 * day_from_year y \<le> 146097 * y - 287810501"
proof -
  obtain p q r where d: "(y - 1969) div 4 = p" "(y - 1901) div 100 = q" "(y - 1601) div 400 = r" by blast
  have "4 * p \<le> y - 1969" "y - 1969 < 4 * p + 4" "100 * q \<le> y - 1901" "y - 1901 < 100 * q + 100"
    "400 * r \<le> y - 1601" "y - 1601 < 400 * r + 400"
    using floor_bounds [of 4 "y - 1969", OF zero_less_numeral] floor_bounds [of 100 "y - 1901", OF zero_less_numeral]
      floor_bounds [of 400 "y - 1601", OF zero_less_numeral] unfolding d by simp_all
  moreover have "400 * day_from_year y = 146000 * y - 287620000 + 400 * p - 400 * q + 400 * r"
    unfolding day_from_year_def d by (simp add: algebra_simps)
  ultimately show "146097 * y - 287811596 \<le> 400 * day_from_year y" "400 * day_from_year y \<le> 146097 * y - 287810501"
    by linarith+
qed

lemma div_step: "0 < n \<Longrightarrow> (a + 1) div n = a div n + (if (a + 1) mod n = 0 then 1 else (0 :: int))"
proof -
  assume n: "0 < n"
  show ?thesis
  proof (cases "(a + 1) mod n = 0")
    case True
    then obtain q where q: "a + 1 = n * q" by auto
    then have "a = n * (q - 1) + (n - 1)" by (simp add: algebra_simps)
    then have "a div n = q - 1" using n by (simp add: div_mult_self4 zdiv_eq_0_iff)
    then show ?thesis using q n by simp
  next
    case False
    have a: "a + 1 = n * ((a + 1) div n) + (a + 1) mod n" by simp
    have m: "0 < (a + 1) mod n" "(a + 1) mod n < n" using False n pos_mod_sign [of n "a + 1"] by (simp_all add: order_le_less)
    from a have "a = n * ((a + 1) div n) + ((a + 1) mod n - 1)" by linarith
    then have "a div n = (n * ((a + 1) div n) + ((a + 1) mod n - 1)) div n" by simp
    also have "\<dots> = (a + 1) div n" using m by (simp add: div_pos_pos_trivial)
    finally have "a div n = (a + 1) div n" .
    then show ?thesis using False by simp
  qed
qed

lemma dvd_shift: "(n :: int) dvd k \<Longrightarrow> n dvd y - k \<longleftrightarrow> n dvd y"
  by (metis diff_add_cancel dvd_add dvd_diff)

lemma leap_cases:
  "(y - 1968) mod 4 = 0 \<longleftrightarrow> y mod 4 = (0 :: int)" "(y - 1900) mod 100 = 0 \<longleftrightarrow> y mod 100 = (0 :: int)"
  "(y - 1600) mod 400 = 0 \<longleftrightarrow> y mod 400 = (0 :: int)"
  unfolding dvd_eq_mod_eq_0 [symmetric] by (rule dvd_shift, simp)+

lemma leap_nested: "y mod 100 = (0 :: int) \<Longrightarrow> y mod 4 = 0" "y mod 400 = (0 :: int) \<Longrightarrow> y mod 100 = 0"
  unfolding dvd_eq_mod_eq_0 [symmetric] by (rule dvd_trans [of _ 100], simp, assumption) (rule dvd_trans [of _ 400], simp, assumption)

lemma leap_days:
  "(Q \<Longrightarrow> P) \<Longrightarrow> (R \<Longrightarrow> Q) \<Longrightarrow>
    365 + (if P then 1 else 0) - (if Q then 1 else 0) + (if R then 1 else 0) = (if P \<and> (\<not> Q \<or> R) then 366 else (365 :: int))"
  by (cases P; cases Q; cases R) simp_all

lemma day_from_year_Suc: "day_from_year (y + 1) = day_from_year y + (if leap y then 366 else 365)"
proof -
  have s: "y + 1 - 1969 = (y - 1969) + 1" "y + 1 - 1901 = (y - 1901) + 1" "y + 1 - 1601 = (y - 1601) + 1"
    "y - 1969 + 1 = y - 1968" "y - 1901 + 1 = y - 1900" "y - 1601 + 1 = y - 1600" by linarith+
  define p q r where d: "p = (y - 1969) div 4" "q = (y - 1901) div 100" "r = (y - 1601) div 400"
  define a b c :: int where l: "a = (if y mod 4 = 0 then 1 else 0)" "b = (if y mod 100 = 0 then 1 else 0)"
    "c = (if y mod 400 = 0 then 1 else 0)"
  have e: "(y + 1 - 1969) div 4 = p + a" "(y + 1 - 1901) div 100 = q + b" "(y + 1 - 1601) div 400 = r + c"
    using div_step [of 4 "y - 1969"] div_step [of 100 "y - 1901"] div_step [of 400 "y - 1601"]
    unfolding s leap_cases d l by (simp_all only: zero_less_numeral simp_thms)
  have "day_from_year (y + 1) = 365 * (y - 1970) + 365 + (p + a) - (q + b) + (r + c)"
    unfolding day_from_year_def e by simp
  moreover have "day_from_year y = 365 * (y - 1970) + p - q + r" by (simp only: day_from_year_def d)
  ultimately have "day_from_year (y + 1) = day_from_year y + (365 + a - b + c)" by simp
  moreover have "365 + a - b + c = (if leap y then 366 else 365)"
    unfolding leap_def l by (rule leap_days [OF leap_nested])
  ultimately show ?thesis by simp
qed

lemma year_of_day_bounds: "day_from_year (year_of_day d) \<le> d" "d < day_from_year (year_of_day d + 1)"
proof -
  define e where "e = 1970 + 400 * d div 146097"
  have e: "146097 * e - 287811090 \<le> 400 * d" "400 * d < 146097 * e - 287811090 + 146097"
    using floor_bounds [of 146097 "400 * d", OF zero_less_numeral] by (simp_all add: e_def)
  have "day_from_year (e - 1) \<le> d" using day_from_year_mean(2) [of "e - 1", unfolded right_diff_distrib] e(1) by linarith
  moreover have "d < day_from_year (e + 1 + 1)" using day_from_year_mean(1) [of "e + 1 + 1", unfolded distrib_left] e(2) by linarith
  ultimately show "day_from_year (year_of_day d) \<le> d" "d < day_from_year (year_of_day d + 1)"
    unfolding year_of_day_def Let_def e_def [symmetric] by (auto split: if_splits)
qed

lemma day_from_year_mono: "y \<le> z \<Longrightarrow> day_from_year y \<le> day_from_year z"
proof (induction z rule: int_ge_induct)
  case (step i)
  then show ?case by (simp add: day_from_year_Suc)
qed simp

lemma year_of_day_unique: "day_from_year y \<le> d \<Longrightarrow> d < day_from_year (y + 1) \<Longrightarrow> year_of_day d = y"
  using year_of_day_bounds [of d] day_from_year_mono [of "y + 1" "year_of_day d"] day_from_year_mono [of "year_of_day d + 1" y]
  by linarith

lemma split_month_bounds:
  assumes "split_month ls d = (m, x)" "0 \<le> d" "d < sum_list ls"
  shows "1 \<le> m \<and> m \<le> length ls \<and> 1 \<le> x \<and> x \<le> ls ! (m - 1) \<and> sum_list (take (m - 1) ls) + x - 1 = d"
  using assms
proof (induction ls arbitrary: d m)
  case (Cons l ls)
  show ?case
  proof (cases "d < l")
    case False
    obtain m' where m: "split_month ls (d - l) = (m', x)" "m = Suc m'"
      using Cons.prems(1) False by (auto split: prod.splits)
    have "1 \<le> m' \<and> m' \<le> length ls \<and> 1 \<le> x \<and> x \<le> ls ! (m' - 1) \<and> sum_list (take (m' - 1) ls) + x - 1 = d - l"
      using Cons.IH [OF m(1)] Cons.prems(2,3) False by simp
    then show ?thesis using m(2) by (cases m') auto
  qed (use Cons.prems in auto)
qed simp

lemma sum_months: "sum_list (month_lengths l) = (if l then 366 else 365)" "length (month_lengths l) = 12"
  by (simp_all add: month_lengths_def)

lemma civil_day:
  assumes "civil d = (y, m, x)"
  shows "y = year_of_day d" "1 \<le> m" "m \<le> 12" "1 \<le> x" "x \<le> month_lengths (leap y) ! (m - 1)" "day_of_civil y m x = d"
proof -
  have y: "y = year_of_day d" and s: "split_month (month_lengths (leap y)) (d - day_from_year y) = (m, x)"
    using assms by (auto simp: civil_def Let_def)
  have "0 \<le> d - day_from_year y" "d - day_from_year y < sum_list (month_lengths (leap y))"
    using year_of_day_bounds [of d] y by (auto simp: sum_months day_from_year_Suc split: if_splits)
  from split_month_bounds [OF s this] y
  show "y = year_of_day d" "1 \<le> m" "m \<le> 12" "1 \<le> x" "x \<le> month_lengths (leap y) ! (m - 1)" "day_of_civil y m x = d"
    by (auto simp: sum_months day_of_civil_def)
qed

lemma day_of_civil_add: "day_of_civil y m (x + n) = day_of_civil y m x + n"
  by (simp add: day_of_civil_def)

subsection \<open>A written day reads back\<close>

lemma num_of_digit [simp]: "num_of_digit (digit n) = Some (n mod 10)"
proof -
  obtain k where k: "n mod 10 = k" "0 \<le> k" "k < 10" by simp
  from k(2,3) have "k = 0 \<or> k = 1 \<or> k = 2 \<or> k = 3 \<or> k = 4 \<or> k = 5 \<or> k = 6 \<or> k = 7 \<or> k = 8 \<or> k = 9" by arith
  then show ?thesis unfolding digit_def num_of_digit_def k(1) by (elim disjE) simp_all
qed

lemma tens: "10 * (n div 10 mod 10) + n mod 10 = n mod (100 :: int)"
  using zmod_zmult2_eq [of 10 n 10] by simp

lemma length_p2 [simp]: "length (p2 n) = 2" "length (p4 n) = 4"
  by (simp_all add: p2_def p4_def)

lemma read_p2: "read_num a (p2 n) = Some (100 * a + n mod 100)"
  using tens [of n] by (simp add: p2_def algebra_simps)

lemma read_num_append: "read_num a (s @ t) = (case read_num a s of None \<Rightarrow> None | Some b \<Rightarrow> read_num b t)"
  by (induction s arbitrary: a) (auto split: option.splits)

lemma read_p4: "0 \<le> n \<Longrightarrow> n < 10000 \<Longrightarrow> read_num 0 (p4 n) = Some n"
proof -
  assume n: "0 \<le> n" "n < 10000"
  then have "0 \<le> n div 100" "n div 100 < 100" using floor_bounds(1) [of 100 n] by (simp_all add: div_int_pos_iff)
  then have "n div 100 mod 100 = n div 100" by (rule mod_pos_pos_trivial)
  then show ?thesis by (simp add: p4_def read_num_append read_p2)
qed

lemma length_date_str [simp]: "length (date_str c) = 10"
  by (cases c) (simp add: date_str_def)

lemma parse_date_str:
  assumes c: "civil d = (y, m, x)" and y: "0 \<le> y" "y \<le> 9999"
  shows "parse_date (date_str (y, m, x)) = Some d"
proof -
  note v = civil_day [OF c]
  let ?s = "p4 y @ js ''-'' @ p2 (int m) @ js ''-'' @ p2 x"
  have dash: "js ''-'' = [0x2D]" by (simp add: js_def)
  have "month_lengths (leap y) ! (m - 1) \<le> 31"
  proof -
    have "\<forall>l\<in>set (month_lengths (leap y)). l \<le> 31" by (simp add: month_lengths_def)
    then show ?thesis using v(2,3) by (simp add: sum_months)
  qed
  then have x: "0 \<le> x" "x < 100" using v(4,5) by linarith+
  have "take 4 ?s = p4 y" by (simp add: dash)
  moreover have "take 2 (drop 5 ?s) = p2 (int m)" "drop 8 ?s = p2 x" by (simp_all add: dash p4_def p2_def)
  moreover have "?s ! 4 = 0x2D" "?s ! 7 = 0x2D" by (simp_all add: dash p4_def p2_def nth_append)
  moreover have "nat (int m - 1) = m - 1" using v(2) by simp
  ultimately show ?thesis
    using v(2-6) y x unfolding parse_date_def date_str_def prod.case
    by (simp add: read_p4 read_p2)
qed

lemma utcDateOf_day: "utcDateOf (d * DAY_MS) = utcDateOf (d * DAY_MS + r)" if "0 \<le> r" "r < DAY_MS"
  using that by (simp add: utcDateOf_def DAY_MS_def)

lemma utcDateOf_parse: "utcDateOf ts = Some s \<Longrightarrow> parse_date s = Some (ts div DAY_MS)"
  by (auto simp: utcDateOf_def parse_date_str split: prod.splits if_splits)

lemma utcDateOf_inj: "utcDateOf a = Some s \<Longrightarrow> utcDateOf b = Some s \<Longrightarrow> a div DAY_MS = b div DAY_MS"
  using utcDateOf_parse [of a s] utcDateOf_parse [of b s] by simp

lemma utcDateOf_same: "a div DAY_MS = b div DAY_MS \<Longrightarrow> utcDateOf a = utcDateOf b"
  by (simp add: utcDateOf_def)

lemma addUTCDays_of:
  assumes "utcDateOf ts = Some s"
  shows "addUTCDays s n = utcDateOf (ts + n * DAY_MS)"
proof -
  have "(ts div DAY_MS * DAY_MS + n * DAY_MS) div DAY_MS = (ts + n * DAY_MS) div DAY_MS"
    by (simp add: DAY_MS_def)
  then show ?thesis using utcDateOf_parse [OF assms] by (simp add: addUTCDays_def utcDateOf_same DAY_MS_def)
qed

lemma year_from_epoch: "0 \<le> d \<Longrightarrow> 1970 \<le> year_of_day d"
proof (rule ccontr)
  assume "0 \<le> d" "\<not> 1970 \<le> year_of_day d"
  then have "year_of_day d + 1 \<le> 1970" by simp
  from day_from_year_mono [OF this] year_of_day_bounds(2) [of d] \<open>0 \<le> d\<close> show False by (simp add: day_from_year_def)
qed

lemma ms_midnight:
  assumes "0 \<le> ts"
  shows "msToNextUTCMidnight ts = DAY_MS - ts mod DAY_MS" and "msSincePrevUTCMidnight ts = ts mod DAY_MS"
proof -
  obtain y m x where c: "civil (ts div DAY_MS) = (y, m, x)" by (metis prod_cases3)
  have d: "0 \<le> ts div DAY_MS" using assms by (simp add: DAY_MS_def)
  have "1970 \<le> y" using year_from_epoch [OF d] civil_day(1) [OF c] by simp
  then have u: "date_UTC y m z = day_of_civil y m z * DAY_MS" for z by (simp add: date_UTC_def)
  have t: "ts = ts div DAY_MS * DAY_MS + ts mod DAY_MS" by simp
  show "msToNextUTCMidnight ts = DAY_MS - ts mod DAY_MS" "msSincePrevUTCMidnight ts = ts mod DAY_MS"
    unfolding msToNextUTCMidnight_def msSincePrevUTCMidnight_def c prod.case u day_of_civil_add civil_day(6) [OF c]
    by (simp_all add: distrib_right minus_div_mult_eq_mod [symmetric])
qed

text \<open>From the epoch to the end of the year 9999 every instant has a date.\<close>

lemma utcDateOf_Some:
  assumes "0 \<le> ts" "ts < 253402300800000"
  shows "\<exists>s. utcDateOf ts = Some s"
proof -
  obtain y m x where c: "civil (ts div DAY_MS) = (y, m, x)" by (metis prod_cases3)
  have d: "0 \<le> ts div DAY_MS" "ts div DAY_MS < 2932897" using assms by (simp_all add: DAY_MS_def)
  have y: "y = year_of_day (ts div DAY_MS)" using civil_day(1) [OF c] .
  have "y \<le> 9999"
  proof (rule ccontr)
    assume "\<not> y \<le> 9999"
    then have "day_from_year 10000 \<le> day_from_year y" by (intro day_from_year_mono) simp
    moreover have "day_from_year 10000 = 2932897" by (simp add: day_from_year_def)
    ultimately show False using year_of_day_bounds(1) [of "ts div DAY_MS"] d(2) y by simp
  qed
  then show ?thesis using year_from_epoch [OF d(1)] y c by (simp add: utcDateOf_def)
qed

end
