(* ===== verification/Rendezvous.thy ===== *)
theory Rendezvous
  imports Calendar Crypto
begin

section \<open>Where two parties meet (lib/rendezvous.ts, lib/derive.ts)\<close>

text \<open>
  A topic is 32 derived bytes in base32; the derivation is an HKDF over a shared secret with a
  label for each use and the network and day as its context. \<open>base32\<close> keeps its accumulator in
  a 32-bit integer that overflows, as the code does. \<open>deriveWith\<close> runs the derivation in the
  identity backend where it has one, else over a raw Diffie-Hellman; \<open>derivePresence\<close> and
  \<open>deriveRotationOffset\<close> (lib/core.ts) are what a pair derives through it. A backend may fail:
  its functions return options.
\<close>

unbundle bit_operations_syntax

subsection \<open>Base32\<close>

definition B32 :: jstr where
  "B32 = js ''abcdefghijklmnopqrstuvwxyz234567''"

text \<open>The inner loop: digits leave while five bits are there.\<close>

fun b32_drain :: "32 word \<Rightarrow> nat \<Rightarrow> jstr \<times> nat" where
  "b32_drain v bits =
     (if 5 \<le> bits then case b32_drain v (bits - 5) of (out, k) \<Rightarrow> (B32 ! unat (drop_bit (bits - 5) v AND 31) # out, k)
      else ([], bits))"

declare b32_drain.simps [simp del]

fun b32_go :: "32 word \<Rightarrow> nat \<Rightarrow> bytes \<Rightarrow> jstr" where
  "b32_go v bits [] = (if 0 < bits then [B32 ! unat (push_bit (5 - bits) v AND 31)] else [])"
| "b32_go v bits (b # bs) =
     (let v' = push_bit 8 v OR ucast b in case b32_drain v' (bits + 8) of (out, k) \<Rightarrow> out @ b32_go v' k bs)"

definition base32 :: "bytes \<Rightarrow> jstr" where
  "base32 bs = b32_go 0 0 bs"

subsection \<open>Labels, contexts, material\<close>

definition RV_LABEL :: string where "RV_LABEL = ''encedo-chat-rendezvous-v1''"
definition ANNOUNCE_LABEL :: string where "ANNOUNCE_LABEL = ''encedo-chat-announce-mac-v1''"
definition ROTATION_LABEL :: string where "ROTATION_LABEL = ''encedo-chat-rotation-v1''"
definition GROUP_RV_LABEL :: string where "GROUP_RV_LABEL = ''encedo-chat-group-rendezvous-v1''"

record rv_params =
  rv_networkId :: jstr
  rv_dateUTC :: jstr

definition rotationCtx :: "jstr \<Rightarrow> bytes" where
  "rotationCtx networkId = utf8 networkId @ [0]"

definition topicFromMaterial :: "bytes \<Rightarrow> jstr" where
  "topicFromMaterial mat = take 52 (base32 mat)"

definition offsetFromMaterial :: "bytes \<Rightarrow> nat" where
  "offsetFromMaterial mat = be_dec (take 4 mat) mod 86400"

definition paramsInfo :: "rv_params \<Rightarrow> bytes" where
  "paramsInfo p = utf8 (rv_networkId p) @ [0] @ utf8 (rv_dateUTC p)"

subsection \<open>From a secret the caller holds\<close>

definition topicFromSecret :: "crypto \<Rightarrow> bytes \<Rightarrow> rv_params \<Rightarrow> jstr" where
  "topicFromSecret C ss p = topicFromMaterial (kdf C RV_LABEL ss (paramsInfo p) 32)"

definition announceMacKey :: "crypto \<Rightarrow> bytes \<Rightarrow> rv_params \<Rightarrow> bytes" where
  "announceMacKey C ss p = kdf C ANNOUNCE_LABEL ss (paramsInfo p) 32"

definition groupTopicFromSecret :: "crypto \<Rightarrow> bytes \<Rightarrow> rv_params \<Rightarrow> jstr" where
  "groupTopicFromSecret C secret p = topicFromMaterial (kdf C GROUP_RV_LABEL secret (paramsInfo p) 32)"

definition rotationOffsetSec :: "crypto \<Rightarrow> bytes \<Rightarrow> rv_params \<Rightarrow> nat" where
  "rotationOffsetSec C ss p = offsetFromMaterial (kdf C ROTATION_LABEL ss (rotationCtx (rv_networkId p)) 4)"

definition todayUTC :: "int \<Rightarrow> jstr option" where
  "todayUTC now = utcDateOf now"

subsection \<open>Through the identity backend\<close>

text \<open>A contact is a public key, and its key id where the device holds it.\<close>

record contact_ref =
  ct_pub :: bytes
  ct_kid :: "jstr option"

record deriving =
  dr_pub :: bytes
  dr_ecdh :: "bytes \<Rightarrow> jstr option \<Rightarrow> bytes option"
  dr_derive :: "(string \<Rightarrow> bytes \<Rightarrow> bytes \<Rightarrow> nat \<Rightarrow> jstr option \<Rightarrow> bytes option) option"

definition deriveOverEcdh ::
  "crypto \<Rightarrow> (bytes \<Rightarrow> jstr option \<Rightarrow> bytes option) \<Rightarrow> string \<Rightarrow> bytes \<Rightarrow> bytes \<Rightarrow> nat \<Rightarrow> jstr option \<Rightarrow> bytes option" where
  "deriveOverEcdh C ecdh label pub ctx len kid = map_option (\<lambda>ss. kdf C label ss ctx len) (ecdh pub kid)"

definition deriveWith :: "crypto \<Rightarrow> deriving \<Rightarrow> string \<Rightarrow> bytes \<Rightarrow> bytes \<Rightarrow> nat \<Rightarrow> jstr option \<Rightarrow> bytes option" where
  "deriveWith C i label pub ctx len kid =
     (case dr_derive i of
        Some d \<Rightarrow> d label pub ctx len kid
      | None \<Rightarrow> map_option (\<lambda>ss. kdf C label ss ctx len) (dr_ecdh i pub kid))"

definition derivePresence :: "crypto \<Rightarrow> deriving \<Rightarrow> contact_ref \<Rightarrow> rv_params \<Rightarrow> (jstr \<times> bytes) option" where
  "derivePresence C i c p =
     (let ctx = paramsInfo p in
      case deriveWith C i RV_LABEL (ct_pub c) ctx 32 (ct_kid c) of
        None \<Rightarrow> None
      | Some t \<Rightarrow> (case deriveWith C i ANNOUNCE_LABEL (ct_pub c) ctx 32 (ct_kid c) of
            None \<Rightarrow> None
          | Some k \<Rightarrow> Some (topicFromMaterial t, k)))"

definition deriveRotationOffset :: "crypto \<Rightarrow> deriving \<Rightarrow> contact_ref \<Rightarrow> rv_params \<Rightarrow> nat option" where
  "deriveRotationOffset C i c p =
     map_option offsetFromMaterial (deriveWith C i ROTATION_LABEL (ct_pub c) (rotationCtx (rv_networkId p)) 4 (ct_kid c))"

definition presenceFromSecret :: "crypto \<Rightarrow> bytes \<Rightarrow> rv_params \<Rightarrow> jstr \<times> bytes" where
  "presenceFromSecret C ss p = (topicFromSecret C ss p, announceMacKey C ss p)"

definition deriveSelfRoom :: "crypto \<Rightarrow> deriving \<Rightarrow> rv_params \<Rightarrow> (jstr \<times> bytes) option" where
  "deriveSelfRoom C i p = derivePresence C i \<lparr>ct_pub = dr_pub i, ct_kid = None\<rparr> p"

subsection \<open>Base32 is the base-32 digits of the number the bytes are\<close>

text \<open>The reference: the digits of a number of \<open>n\<close> bits, the last one filled up with zeros.\<close>

fun b32_digits :: "nat \<Rightarrow> nat \<Rightarrow> jstr" where
  "b32_digits n x =
     (if 5 \<le> n then B32 ! (x div 2 ^ (n - 5)) # b32_digits (n - 5) (x mod 2 ^ (n - 5))
      else if 0 < n then [B32 ! (x * 2 ^ (5 - n))] else [])"

declare b32_digits.simps [simp del]

lemma unat_drop_31: "unat (drop_bit k (v :: 32 word) AND 31) = unat v div 2 ^ k mod 32"
proof -
  have m: "31 = (mask 5 :: 32 word)" by (simp add: mask_eq_exp_minus_1)
  have "take_bit 32 (unat v) = unat v" using unsigned_less [of v, where 'a = nat] by (simp add: take_bit_nat_eq_self)
  then have "unat (drop_bit k v AND 31) = take_bit 5 (drop_bit k (unat v))"
    unfolding m take_bit_eq_mask [symmetric] by (simp add: unsigned_take_bit_eq unsigned_drop_bit_eq)
  then show ?thesis by (simp add: take_bit_eq_mod drop_bit_eq_div)
qed

lemma unat_push_31:
  assumes "k \<le> 5"
  shows "unat (push_bit k (v :: 32 word) AND 31) = unat v mod 2 ^ (5 - k) * 2 ^ k"
proof -
  have m: "31 = (mask 5 :: 32 word)" by (simp add: mask_eq_exp_minus_1)
  have "unat (push_bit k v AND 31) = take_bit 5 (take_bit 32 (push_bit k (unat v)))"
    unfolding m take_bit_eq_mask [symmetric] by (simp add: unsigned_take_bit_eq unsigned_push_bit_eq)
  also have "\<dots> = push_bit k (take_bit (5 - k) (unat v))" using assms by (simp add: take_bit_push_bit)
  finally show ?thesis by (simp add: push_bit_eq_mult take_bit_eq_mod)
qed

lemma mod_pow_mod: "k \<le> n \<Longrightarrow> x mod 2 ^ n mod 2 ^ k = x mod (2 :: nat) ^ k"
  by (simp add: mod_mod_cancel le_imp_power_dvd)

lemma byte_in:
  assumes "k \<le> 24"
  shows "unat (push_bit 8 (v :: 32 word) OR ucast (b :: byte)) mod 2 ^ (k + 8) = unat v mod 2 ^ k * 256 + unat b"
proof -
  have u: "unat (ucast b :: 32 word) = unat b" by (simp add: unsigned_ucast_eq take_bit_nat_eq_self unat_byte_lt less_trans [OF unat_byte_lt])
  have "unat (push_bit 8 v OR ucast b) = or (push_bit 8 (take_bit 24 (unat v))) (unat b)"
    unfolding unsigned_or_eq u by (simp add: unsigned_push_bit_eq take_bit_push_bit)
  also have "\<dots> = take_bit 24 (unat v) * 256 + unat b" by (rule or_push_bit_8 [OF unat_byte_lt])
  finally have "unat (push_bit 8 v OR ucast b) mod 2 ^ (k + 8) = (unat v mod 2 ^ 24 * 2 ^ 8 + unat b) mod (2 ^ k * 2 ^ 8)"
    by (simp add: take_bit_eq_mod power_add)
  also have "\<dots> = (unat v mod 2 ^ 24 mod 2 ^ k) * 256 + unat b"
    using unat_byte_lt [of b] mod_mult2_eq [of "unat v mod 2 ^ 24 * 2 ^ 8 + unat b" "2 ^ 8" "2 ^ k"]
    by (simp add: mult.commute)
  finally show ?thesis using assms by (simp add: mod_pow_mod [of k 24 "unat v", simplified])
qed

lemma split_pow:
  assumes "y < 2 ^ m"
  shows "(a * 2 ^ m + y) div 2 ^ (j + m) = a div (2 :: nat) ^ j" and "(a * 2 ^ m + y) mod 2 ^ (j + m) = a mod 2 ^ j * 2 ^ m + y"
proof -
  have d: "(a * 2 ^ m + y) div 2 ^ m = a" "(a * 2 ^ m + y) mod 2 ^ m = y" using assms by simp_all
  have p: "(2 :: nat) ^ (j + m) = 2 ^ m * 2 ^ j" by (simp add: power_add)
  show "(a * 2 ^ m + y) div 2 ^ (j + m) = a div 2 ^ j" unfolding p div_mult2_eq d ..
  show "(a * 2 ^ m + y) mod 2 ^ (j + m) = a mod 2 ^ j * 2 ^ m + y" unfolding p mod_mult2_eq d by simp
qed

lemma b32_drain_digits:
  assumes "y < 2 ^ m"
  shows "case b32_drain v n of (out, k) \<Rightarrow>
    k < 5 \<and> b32_digits (n + m) (unat v mod 2 ^ n * 2 ^ m + y) = out @ b32_digits (k + m) (unat v mod 2 ^ k * 2 ^ m + y)"
proof (induction n rule: less_induct)
  case (less n)
  show ?case
  proof (cases "5 \<le> n")
    case True
    then obtain j where n: "n = j + 5" by (metis add.commute le_Suc_ex)
    have e: "n + m - 5 = j + m" "5 \<le> n + m" using n by simp_all
    obtain out k where r: "b32_drain v j = (out, k)" by force
    have d: "(unat v mod 2 ^ n * 2 ^ m + y) div 2 ^ (j + m) = unat v div 2 ^ j mod 32"
      unfolding split_pow(1) [OF assms] n by (simp add: div_exp_mod_exp_eq [of "unat v" j 5, simplified])
    have m: "(unat v mod 2 ^ n * 2 ^ m + y) mod 2 ^ (j + m) = unat v mod 2 ^ j * 2 ^ m + y"
      unfolding split_pow(2) [OF assms] using n by (simp add: mod_pow_mod)
    have "b32_digits (n + m) (unat v mod 2 ^ n * 2 ^ m + y) = B32 ! (unat v div 2 ^ j mod 32) # b32_digits (j + m) (unat v mod 2 ^ j * 2 ^ m + y)"
      using e by (subst b32_digits.simps) (simp add: d m)
    moreover have "b32_drain v n = (B32 ! (unat v div 2 ^ j mod 32) # out, k)"
      using n r by (subst b32_drain.simps) (simp add: unat_drop_31)
    ultimately show ?thesis using less.IH [of j] n r by simp
  next
    case False
    then show ?thesis by (subst b32_drain.simps) simp
  qed
qed

lemma b32_go_digits:
  "k < 5 \<Longrightarrow> b32_go v k bs = b32_digits (k + 8 * length bs) (unat v mod 2 ^ k * 256 ^ length bs + be_dec bs)"
proof (induction bs arbitrary: v k)
  case Nil
  then show ?case by (subst b32_digits.simps) (simp add: unat_push_31)
next
  case (Cons b bs)
  define v' where "v' = push_bit 8 v OR ucast b"
  obtain out k' where r: "b32_drain v' (k + 8) = (out, k')" by force
  let ?m = "8 * length bs"
  have pw: "(256 :: nat) ^ length bs = 2 ^ ?m" by (simp add: power_mult)
  have y: "be_dec bs < 2 ^ ?m" using be_dec_less [of bs] pw by simp
  have d: "k' < 5" "b32_digits (k + 8 + ?m) (unat v' mod 2 ^ (k + 8) * 2 ^ ?m + be_dec bs)
      = out @ b32_digits (k' + ?m) (unat v' mod 2 ^ k' * 2 ^ ?m + be_dec bs)"
    using b32_drain_digits [OF y, where v = v' and n = "k + 8"] r by simp_all
  have "unat v' mod 2 ^ (k + 8) = unat v mod 2 ^ k * 256 + unat b" using Cons.prems by (simp add: v'_def byte_in)
  then have x: "unat v' mod 2 ^ (k + 8) * 2 ^ ?m + be_dec bs = unat v mod 2 ^ k * 256 ^ length (b # bs) + be_dec (b # bs)"
    by (simp add: pw algebra_simps)
  have "b32_go v k (b # bs) = out @ b32_go v' k' bs" using r by (simp add: v'_def [symmetric] Let_def)
  also have "b32_go v' k' bs = b32_digits (k' + ?m) (unat v' mod 2 ^ k' * 2 ^ ?m + be_dec bs)"
    using Cons.IH [OF d(1)] by (simp add: pw)
  also have "out @ \<dots> = b32_digits (k + 8 + ?m) (unat v' mod 2 ^ (k + 8) * 2 ^ ?m + be_dec bs)" by (rule d(2) [symmetric])
  also have "\<dots> = b32_digits (k + 8 * length (b # bs)) (unat v mod 2 ^ k * 256 ^ length (b # bs) + be_dec (b # bs))"
    unfolding x by (simp add: algebra_simps)
  finally show ?case .
qed

lemma base32_digits: "base32 bs = b32_digits (8 * length bs) (be_dec bs)"
  unfolding base32_def using b32_go_digits [of 0 0 bs] by simp

lemma length_b32_digits: "length (b32_digits n x) = (n + 4) div 5"
proof (induction n x rule: b32_digits.induct)
  case (1 n x)
  then show ?case by (subst b32_digits.simps) auto
qed

lemma B32_inj: "i < 32 \<Longrightarrow> j < 32 \<Longrightarrow> B32 ! i = B32 ! j \<longleftrightarrow> i = j"
proof -
  have "distinct B32" "length B32 = 32" by (simp_all add: B32_def js_def)
  then show "i < 32 \<Longrightarrow> j < 32 \<Longrightarrow> B32 ! i = B32 ! j \<longleftrightarrow> i = j" by (simp add: nth_eq_iff_index_eq)
qed

lemma b32_digits_inj: "b32_digits n x = b32_digits n y \<Longrightarrow> x < 2 ^ n \<Longrightarrow> y < 2 ^ n \<Longrightarrow> x = y"
proof (induction n arbitrary: x y rule: less_induct)
  case (less n)
  show ?case
  proof (cases "5 \<le> n")
    case True
    define p :: nat where "p = 2 ^ (n - 5)"
    have p: "2 ^ n = p * 32" using True power_add [of "2 :: nat" "n - 5" 5] by (simp add: p_def)
    have lt: "x div p < 32" "y div p < 32" using less.prems(2,3) unfolding p by (simp_all add: less_mult_imp_div_less mult.commute)
    have e: "B32 ! (x div p) # b32_digits (n - 5) (x mod p) = B32 ! (y div p) # b32_digits (n - 5) (y mod p)"
      using less.prems(1) True unfolding p_def by (metis b32_digits.simps)
    then have "x div p = y div p" using B32_inj [OF lt] by simp
    moreover have "x mod p = y mod p" using less.IH [of "n - 5" "x mod p" "y mod p"] e True by (simp add: p_def)
    ultimately show ?thesis by (metis mult_div_mod_eq)
  next
    case False
    show ?thesis
    proof (cases "n = 0")
      case False
      have b: "z * 2 ^ (5 - n) < 32" if "z < 2 ^ n" for z :: nat
      proof -
        have "z * 2 ^ (5 - n) < 2 ^ n * 2 ^ (5 - n)" using that by simp
        also have "\<dots> = 2 ^ 5" using \<open>\<not> 5 \<le> n\<close> by (simp flip: power_add)
        finally show ?thesis by simp
      qed
      have "B32 ! (x * 2 ^ (5 - n)) = B32 ! (y * 2 ^ (5 - n))"
        using less.prems(1) False \<open>\<not> 5 \<le> n\<close> by (metis b32_digits.simps list.inject neq0_conv)
      then show ?thesis using B32_inj [OF b b] less.prems(2,3) by simp
    qed (use less.prems in simp)
  qed
qed

lemma length_base32: "length (base32 bs) = (8 * length bs + 4) div 5"
  by (simp add: base32_digits length_b32_digits)

lemma base32_inj: "length a = length b \<Longrightarrow> base32 a = base32 b \<longleftrightarrow> a = b"
proof -
  assume l: "length a = length b"
  have "be_dec a < 2 ^ (8 * length a)" "be_dec b < 2 ^ (8 * length a)"
    using be_dec_less [of a] be_dec_less [of b] l by (simp_all add: power_mult)
  moreover have "be_enc (length a) (be_dec a) = a" "be_enc (length a) (be_dec b) = b" using l by (simp_all only: be_enc_dec_len)
  ultimately show ?thesis unfolding base32_digits l [symmetric] by (metis b32_digits_inj)
qed

lemma topic_of_32:
  assumes "length mat = 32"
  shows "topicFromMaterial mat = b32_digits 256 (be_dec mat)" and "length (topicFromMaterial mat) = 52"
  using assms length_base32 [of mat] by (simp_all add: topicFromMaterial_def base32_digits)

lemma topic_inj: "length a = 32 \<Longrightarrow> length b = 32 \<Longrightarrow> topicFromMaterial a = topicFromMaterial b \<longleftrightarrow> a = b"
  using length_base32 [of a] length_base32 [of b] by (simp add: topicFromMaterial_def base32_inj)

subsection \<open>Two parties derive the same\<close>

text \<open>A backend that derives itself computes what the client would over the raw secret.\<close>

definition derives_as_ecdh :: "crypto \<Rightarrow> deriving \<Rightarrow> bool" where
  "derives_as_ecdh C i \<longleftrightarrow> (\<forall>d. dr_derive i = Some d \<longrightarrow> d = deriveOverEcdh C (dr_ecdh i))"

lemma deriveWith_ecdh: "derives_as_ecdh C i \<Longrightarrow> deriveWith C i = deriveOverEcdh C (dr_ecdh i)"
  by (auto simp: derives_as_ecdh_def deriveWith_def deriveOverEcdh_def fun_eq_iff split: option.splits)

lemma derivePresence_secret:
  assumes "derives_as_ecdh C i" and "dr_ecdh i (ct_pub c) (ct_kid c) = Some ss"
  shows "derivePresence C i c p = Some (presenceFromSecret C ss p)"
    and "deriveRotationOffset C i c p = Some (rotationOffsetSec C ss p)"
  using assms by (simp_all add: derivePresence_def deriveRotationOffset_def deriveWith_ecdh deriveOverEcdh_def presenceFromSecret_def
      topicFromSecret_def announceMacKey_def rotationOffsetSec_def Let_def)

lemma utf8_app_inj: "utf8 n @ [0] @ utf8 a = utf8 m @ [0] @ utf8 b \<Longrightarrow> length (utf8 a) = length (utf8 b) \<Longrightarrow> utf8 n = utf8 m \<and> utf8 a = utf8 b"
  using append_eq_append_conv [of "utf8 n @ [0]" "utf8 m @ [0]" "utf8 a" "utf8 b"] by simp

lemma rotationOffsetSec_lt: "rotationOffsetSec C ss p < 86400"
  by (simp add: rotationOffsetSec_def offsetFromMaterial_def)

subsection \<open>Properties\<close>

text \<open>
  C35: a topic is its material, spelled. \<open>base32\<close>, whose accumulator overflows 32 bits from the
  fourth byte on, still writes the base-32 digits of the number its bytes are, and the topic of 32
  bytes has 52 characters and belongs to no other 32 bytes.
\<close>
theorem topic_names_material:
  assumes "length mat = 32" "length mat' = 32"
  shows "base32 mat = b32_digits 256 (be_dec mat) \<and> length (topicFromMaterial mat) = 52
    \<and> (topicFromMaterial mat = topicFromMaterial mat') = (mat = mat')"
  using assms topic_of_32 topic_inj base32_digits [of mat] by simp_all

theorem topic_names_material_witness:
  "length (topicFromMaterial (replicate 32 7)) = 52 \<and> topicFromMaterial (replicate 32 7) \<noteq> topicFromMaterial (replicate 31 7 @ [8])"
proof -
  have l: "length (replicate 32 (7 :: byte)) = 32" "length (replicate 31 (7 :: byte) @ [8]) = 32" by simp_all
  have "last (replicate 32 (7 :: byte)) \<noteq> last (replicate 31 7 @ [8])" by simp
  then have "replicate 32 (7 :: byte) \<noteq> replicate 31 7 @ [8]" by metis
  then show ?thesis using topic_names_material [OF l] by blast
qed

end
