(* ===== verification/Presence.thy ===== *)
theory Presence
  imports Rendezvous Announce Establish
begin

section \<open>The light watch on a pair's topic (lib/presence.ts)\<close>

text \<open>
  \<open>activeDatesForOffset\<close> says which days' topics are live around the pair's rotation instant;
  \<open>watch\<close> is one topic's listener, which lights the contact's dot, answers newcomers and hands
  handshake frames up; \<open>rotating\<close> holds one watch for each live day. Deriving a day's topic may
  fail and takes time, so \<open>sync\<close> is split where it waits: \<open>rt_sync\<close> runs until a derivation is
  needed, \<open>rt_derived\<close> goes on with its answer. Ticks that come meanwhile wait their turn, as in
  the promise chain of the code. Subscriptions, announces and callbacks are effects.
\<close>

subsection \<open>Which days are live\<close>

definition rendezvousDay :: "int \<Rightarrow> int \<Rightarrow> jstr option" where
  "rendezvousDay now offsetMs = utcDateOf (now - offsetMs)"

definition nextRotationAfter :: "int \<Rightarrow> int \<Rightarrow> int" where
  "nextRotationAfter now offsetMs =
     (let shifted = now - offsetMs in
      case civil (shifted div DAY_MS) of (y, m, x) \<Rightarrow> date_UTC y m (x + 1) + offsetMs)"

definition OVERLAP_MS :: int where "OVERLAP_MS = 30 * 60000"

text \<open>\<open>None\<close> is a date the calendar does not write.\<close>

definition activeDatesForOffset :: "int \<Rightarrow> int \<Rightarrow> int \<Rightarrow> jstr list option" where
  "activeDatesForOffset now offsetMs guard =
     (let shifted = now - offsetMs in
      case utcDateOf shifted of
        None \<Rightarrow> None
      | Some today \<Rightarrow>
          all_some ([Some today]
            @ (if msToNextUTCMidnight shifted \<le> guard then [addUTCDays today 1] else [])
            @ (if msSincePrevUTCMidnight shifted < guard then [addUTCDays today (- 1)] else [])))"

subsection \<open>One watch\<close>

datatype watch_effect =
    WAnnounce
  | WOnline
  | WOffline
  | WHandshake bytes jstr
  | WUnsubscribe jstr

record watch =
  wt_topic :: jstr
  wt_mac :: bytes
  wt_nonces :: "(jstr, int) jmap"
  wt_lastSeen :: int
  wt_online :: bool
  wt_stopped :: bool
  wt_heard :: "(jstr, int) jmap"
  wt_lastReply :: int

record watch_cfg =
  wc_self :: jstr
  wc_heartbeatMs :: int
  wc_reply :: bool
  wc_crypto :: crypto
  wc_text :: text_env

definition watch_ttl :: "watch_cfg \<Rightarrow> int" where
  "watch_ttl cfg = max (wc_heartbeatMs cfg * 6) 90000"

definition new_watch :: "jstr \<Rightarrow> bytes \<Rightarrow> watch" where
  "new_watch topic k = \<lparr>wt_topic = topic, wt_mac = k, wt_nonces = [], wt_lastSeen = 0, wt_online = False, wt_stopped = False,
     wt_heard = [], wt_lastReply = 0\<rparr>"

text \<open>An Announce that counts: what is left of the handler once it is verified and new.\<close>

definition watch_hear :: "watch_cfg \<Rightarrow> int \<Rightarrow> jstr \<Rightarrow> watch \<Rightarrow> watch_effect list \<times> watch" where
  "watch_hear cfg now peer w =
     (let fresh = (case jm_get (wt_heard w) peer of None \<Rightarrow> True | Some t \<Rightarrow> now - t > watch_ttl cfg);
          answers = (fresh \<and> wc_reply cfg \<and> now - wt_lastReply w > 3000)
      in ((if answers then [WAnnounce] else []) @ (if wt_online w then [] else [WOnline]),
          w\<lparr>wt_lastSeen := now, wt_heard := jm_set peer now (wt_heard w), wt_online := True,
            wt_lastReply := (if answers then now else wt_lastReply w)\<rparr>))"

definition watch_handler :: "watch_cfg \<Rightarrow> int \<Rightarrow> bytes \<Rightarrow> jstr option \<Rightarrow> watch \<Rightarrow> watch_effect list \<times> watch" where
  "watch_handler cfg now raw sender w =
     (if wt_stopped w then ([], w)
      else case origin (wc_text cfg) raw sender of
          None \<Rightarrow> ([], w)
        | Some (from, data) \<Rightarrow>
            if from = wc_self cfg then ([], w)
            else if isHandshakeFrame data then ([WHandshake data from], w)
            else (case verifyAnnounce (wc_crypto cfg) (wc_text cfg) data (wt_mac w) now of
                Inl _ \<Rightarrow> ([], w)
              | Inr (peer, nonce) \<Rightarrow>
                  if peer = [] \<or> peer = wc_self cfg \<or> jm_has (wt_nonces w) nonce then ([], w)
                  else watch_hear cfg now peer (w\<lparr>wt_nonces := nonce_add nonce_window now nonce (wt_nonces w)\<rparr>)))"

definition watch_announce :: "watch \<Rightarrow> watch_effect list" where
  "watch_announce w = (if wt_stopped w then [] else [WAnnounce])"

definition watch_sweep :: "watch_cfg \<Rightarrow> int \<Rightarrow> watch \<Rightarrow> watch_effect list \<times> watch" where
  "watch_sweep cfg now w =
     (if wt_online w \<and> now - wt_lastSeen w > watch_ttl cfg then ([WOffline], w\<lparr>wt_online := False\<rparr>) else ([], w))"

definition watch_seen :: "watch_cfg \<Rightarrow> int \<Rightarrow> watch \<Rightarrow> (jstr \<times> int \<times> jstr) list" where
  "watch_seen cfg now w = map (\<lambda>(p, t). (p, t, wt_topic w)) (filter (\<lambda>(p, t). now - t \<le> watch_ttl cfg) (wt_heard w))"

definition watch_stop :: "(jstr \<Rightarrow> bool) \<Rightarrow> bool \<Rightarrow> watch \<Rightarrow> watch_effect list \<times> watch" where
  "watch_stop keep unsubscribe w =
     (if unsubscribe \<and> \<not> keep (wt_topic w) then [WUnsubscribe (wt_topic w)] else [], w\<lparr>wt_stopped := True\<rparr>)"

subsection \<open>The rotating watch\<close>

record slot =
  sl_watch :: "watch option"
  sl_online :: bool

datatype rt_effect =
    RWatch watch_effect
  | RDerive jstr
  | RSubscribe jstr
  | ROnline
  | ROffline
  | RHandshake bytes jstr jstr

text \<open>What a run of \<open>sync\<close> waits for: the day it derives, the days still to do, all it wants.\<close>

record sync_wait =
  sw_day :: jstr
  sw_todo :: "jstr list"
  sw_want :: "jstr list"

record rotating =
  rt_slots :: "(jstr, slot) jmap"
  rt_aggregate :: bool
  rt_stopped :: bool
  rt_wait :: "sync_wait option"
  rt_queued :: nat

record rt_cfg =
  rp_watch :: watch_cfg
  rp_offsetMs :: int
  rp_guard :: int
  rp_keep :: "jstr \<Rightarrow> bool"

definition any_online :: "(jstr, slot) jmap \<Rightarrow> bool" where
  "any_online s = list_ex (\<lambda>x. sl_online (snd x)) s"

definition recompute :: "rotating \<Rightarrow> rt_effect list \<times> rotating" where
  "recompute r =
     (let a = any_online (rt_slots r) in
      if a \<and> \<not> rt_aggregate r then ([ROnline], r\<lparr>rt_aggregate := True\<rparr>)
      else if \<not> a \<and> rt_aggregate r then ([ROffline], r\<lparr>rt_aggregate := False\<rparr>)
      else ([], r))"

definition stop_slot :: "(jstr \<Rightarrow> bool) \<Rightarrow> bool \<Rightarrow> slot \<Rightarrow> rt_effect list" where
  "stop_slot keep unsubscribe s = (case sl_watch s of None \<Rightarrow> [] | Some w \<Rightarrow> map RWatch (fst (watch_stop keep unsubscribe w)))"

text \<open>The end of a run: days no longer wanted are stopped and dropped.\<close>

definition rt_prune :: "rt_cfg \<Rightarrow> jstr list \<Rightarrow> rotating \<Rightarrow> rt_effect list \<times> rotating" where
  "rt_prune cfg want r =
     (let gone = filter (\<lambda>x. fst x \<notin> set want) (rt_slots r) in
      case recompute (r\<lparr>rt_slots := filter (\<lambda>x. fst x \<in> set want) (rt_slots r)\<rparr>) of
        (es, r') \<Rightarrow> (concat (map (\<lambda>x. stop_slot (rp_keep cfg) True (snd x)) gone) @ es, r'))"

fun rt_days :: "rt_cfg \<Rightarrow> jstr list \<Rightarrow> jstr list \<Rightarrow> rotating \<Rightarrow> rt_effect list \<times> rotating" where
  "rt_days cfg want [] r = rt_prune cfg want r"
| "rt_days cfg want (d # ds) r =
     (if jm_has (rt_slots r) d \<or> rt_stopped r then rt_days cfg want ds r
      else ([RDerive d], r\<lparr>rt_slots := jm_set d \<lparr>sl_watch = None, sl_online = False\<rparr> (rt_slots r),
          rt_wait := Some \<lparr>sw_day = d, sw_todo = ds, sw_want = want\<rparr>\<rparr>))"

definition rt_sync :: "rt_cfg \<Rightarrow> int \<Rightarrow> rotating \<Rightarrow> rt_effect list \<times> rotating" where
  "rt_sync cfg now r =
     (if rt_stopped r then ([], r)
      else case activeDatesForOffset now (rp_offsetMs cfg) (rp_guard cfg) of
          None \<Rightarrow> ([], r)
        | Some want \<Rightarrow> rt_days cfg want want r)"

text \<open>A run that ends lets the next in the chain start.\<close>

fun rt_next :: "rt_cfg \<Rightarrow> int \<Rightarrow> nat \<Rightarrow> rt_effect list \<times> rotating \<Rightarrow> rt_effect list \<times> rotating" where
  "rt_next cfg now 0 (es, r) = (es, r\<lparr>rt_queued := 0\<rparr>)"
| "rt_next cfg now (Suc n) (es, r) =
     (if rt_wait r \<noteq> None then (es, r\<lparr>rt_queued := Suc n\<rparr>)
      else case rt_sync cfg now r of (es', r') \<Rightarrow> rt_next cfg now n (es @ es', r'))"

definition rt_tick :: "rt_cfg \<Rightarrow> int \<Rightarrow> rotating \<Rightarrow> rt_effect list \<times> rotating" where
  "rt_tick cfg now r =
     (if rt_wait r \<noteq> None then ([], r\<lparr>rt_queued := rt_queued r + 1\<rparr>) else rt_next cfg now (rt_queued r) (rt_sync cfg now r))"

text \<open>The derivation answers, or rejects: then the run ends there, and the slot stays as it was reserved.\<close>

definition rt_derived :: "rt_cfg \<Rightarrow> int \<Rightarrow> (jstr \<times> bytes) option \<Rightarrow> rotating \<Rightarrow> rt_effect list \<times> rotating" where
  "rt_derived cfg now answer r =
     (case rt_wait r of
        None \<Rightarrow> ([], r)
      | Some w \<Rightarrow>
          let r1 = r\<lparr>rt_wait := None\<rparr> in
          rt_next cfg now (rt_queued r) (case answer of
            None \<Rightarrow> ([], r1)
          | Some (topic, k) \<Rightarrow>
              if rt_stopped r then ([], r1\<lparr>rt_slots := jm_del (sw_day w) (rt_slots r1)\<rparr>)
              else (case rt_days cfg (sw_want w) (sw_todo w)
                    (r1\<lparr>rt_slots := jm_set (sw_day w) \<lparr>sl_watch = Some (new_watch topic k), sl_online = False\<rparr> (rt_slots r1)\<rparr>) of
                  (es, r2) \<Rightarrow> ([RSubscribe topic, RWatch WAnnounce] @ es, r2))))"

text \<open>An event of one day's watch, its callbacks carried up.\<close>

definition set_online :: "jstr \<Rightarrow> bool \<Rightarrow> (jstr, slot) jmap \<Rightarrow> (jstr, slot) jmap" where
  "set_online d b m = map (\<lambda>(k, s). if k = d then (k, s\<lparr>sl_online := b\<rparr>) else (k, s)) m"

definition rt_up :: "jstr \<Rightarrow> watch_effect \<Rightarrow> rotating \<Rightarrow> rt_effect list \<times> rotating" where
  "rt_up d e r = (case e of
     WOnline \<Rightarrow> recompute (r\<lparr>rt_slots := set_online d True (rt_slots r)\<rparr>)
   | WOffline \<Rightarrow> recompute (r\<lparr>rt_slots := set_online d False (rt_slots r)\<rparr>)
   | WHandshake f from \<Rightarrow> ([RHandshake f from d], r)
   | _ \<Rightarrow> ([RWatch e], r))"

fun rt_carry :: "jstr \<Rightarrow> watch_effect list \<Rightarrow> rotating \<Rightarrow> rt_effect list \<times> rotating" where
  "rt_carry d [] r = ([], r)"
| "rt_carry d (e # es) r = (case rt_up d e r of (e1, r1) \<Rightarrow> (case rt_carry d es r1 of (e2, r2) \<Rightarrow> (e1 @ e2, r2)))"

definition rt_watch :: "(watch \<Rightarrow> watch_effect list \<times> watch) \<Rightarrow> jstr \<Rightarrow> rotating \<Rightarrow> rt_effect list \<times> rotating" where
  "rt_watch f d r =
     (case jm_get (rt_slots r) d of
        None \<Rightarrow> ([], r)
      | Some s \<Rightarrow>
          (case sl_watch s of
             None \<Rightarrow> ([], r)
           | Some w \<Rightarrow> (case f w of (es, w') \<Rightarrow>
               rt_carry d es (r\<lparr>rt_slots := jm_set d (s\<lparr>sl_watch := Some w'\<rparr>) (rt_slots r)\<rparr>))))"

definition rt_stop :: "rt_cfg \<Rightarrow> int \<Rightarrow> bool \<Rightarrow> rotating \<Rightarrow> rt_effect list \<times> rotating" where
  "rt_stop cfg now unsubscribe r =
     (let primary = rendezvousDay now (rp_offsetMs cfg) in
      (concat (map (\<lambda>x. stop_slot (rp_keep cfg) (unsubscribe \<or> Some (fst x) \<noteq> primary) (snd x)) (rt_slots r)),
       r\<lparr>rt_slots := [], rt_stopped := True\<rparr>))"

definition rt_seen :: "rt_cfg \<Rightarrow> int \<Rightarrow> rotating \<Rightarrow> (jstr \<times> int \<times> jstr) list" where
  "rt_seen cfg now r = concat (map (\<lambda>x. case sl_watch (snd x) of None \<Rightarrow> [] | Some w \<Rightarrow> watch_seen (rp_watch cfg) now w) (rt_slots r))"

definition rt_announce :: "rotating \<Rightarrow> rt_effect list" where
  "rt_announce r = concat (map (\<lambda>x. case sl_watch (snd x) of None \<Rightarrow> [] | Some w \<Rightarrow> map RWatch (watch_announce w)) (rt_slots r))"

definition no_watches :: rotating where
  "no_watches = \<lparr>rt_slots = [], rt_aggregate = False, rt_stopped = False, rt_wait = None, rt_queued = 0\<rparr>"

subsection \<open>Two clocks, the same days\<close>

text \<open>Times the calendar has room for on both sides.\<close>

definition dated :: "int \<Rightarrow> bool" where
  "dated t \<longleftrightarrow> DAY_MS \<le> t \<and> t + DAY_MS < 253402300800000"

lemma dated_days:
  assumes "dated t"
  obtains d d' d'' where "utcDateOf t = Some d" "utcDateOf (t + DAY_MS) = Some d'" "utcDateOf (t - DAY_MS) = Some d''"
proof -
  have "0 \<le> t" "t < 253402300800000" "0 \<le> t + DAY_MS" "t + DAY_MS < 253402300800000" "0 \<le> t - DAY_MS" "t - DAY_MS < 253402300800000"
    using assms by (simp_all add: dated_def DAY_MS_def)
  then show ?thesis using utcDateOf_Some that by metis
qed

lemma active_dates:
  assumes "dated (now - offsetMs)"
  obtains today ds where "rendezvousDay now offsetMs = Some today" "activeDatesForOffset now offsetMs guard = Some (today # ds)"
    "DAY_MS - (now - offsetMs) mod DAY_MS \<le> guard \<Longrightarrow> \<exists>d\<in>set ds. utcDateOf (now - offsetMs + DAY_MS) = Some d"
    "(now - offsetMs) mod DAY_MS < guard \<Longrightarrow> \<exists>d\<in>set ds. utcDateOf (now - offsetMs - DAY_MS) = Some d"
proof -
  let ?t = "now - offsetMs"
  obtain d d' d'' where d: "utcDateOf ?t = Some d" "utcDateOf (?t + DAY_MS) = Some d'" "utcDateOf (?t - DAY_MS) = Some d''"
    using dated_days [OF assms] .
  have "0 \<le> ?t" using assms by (simp add: dated_def DAY_MS_def)
  note m = ms_midnight [OF this]
  have a: "addUTCDays d 1 = Some d'" "addUTCDays d (- 1) = Some d''" using addUTCDays_of [OF d(1)] d(2,3) by simp_all
  define ds where "ds = (if DAY_MS - ?t mod DAY_MS \<le> guard then [d'] else []) @ (if ?t mod DAY_MS < guard then [d''] else [])"
  have "activeDatesForOffset now offsetMs guard = Some (d # ds)"
    unfolding activeDatesForOffset_def Let_def d(1) option.case m by (simp add: a ds_def)
  moreover have "rendezvousDay now offsetMs = Some d" using d(1) by (simp add: rendezvousDay_def)
  ultimately show ?thesis using that d(2,3) by (auto simp: ds_def)
qed

text \<open>The day of a later clock, if it is another one, is the next, and its midnight lies between the two.\<close>

lemma next_day:
  assumes "a \<le> b" "b - a \<le> g" "g < (D :: int)" "a div D \<noteq> b div D"
  shows "b div D = a div D + 1" "D - a mod D \<le> g" "b mod D < g"
proof -
  have D: "0 < D" using assms by linarith
  have le: "a div D \<le> b div D" using zdiv_mono1 [OF assms(1) D] .
  have a: "a = D * (a div D) + a mod D" "0 \<le> a mod D" "a mod D < D" using D by simp_all
  have b: "b = D * (b div D) + b mod D" "0 \<le> b mod D" "b mod D < D" using D by simp_all
  have "\<not> a div D + 2 \<le> b div D"
  proof
    assume "a div D + 2 \<le> b div D"
    from mult_left_mono [OF this, of D] D have "D * (a div D) + 2 * D \<le> D * (b div D)" by (simp add: algebra_simps)
    then show False using a b assms(2,3) by linarith
  qed
  then show e: "b div D = a div D + 1" using le assms(4) by linarith
  have "D * (b div D) = D * (a div D) + D" unfolding e by (simp add: algebra_simps)
  then show "D - a mod D \<le> g" "b mod D < g" using a b assms(2) by linarith+
qed

lemma later_clock:
  assumes "dated (a - o')" "dated (b - o')" "a \<le> b" "b - a \<le> guard" "guard < DAY_MS"
  obtains da db A B where "rendezvousDay a o' = Some da" "rendezvousDay b o' = Some db"
    "activeDatesForOffset a o' guard = Some A" "activeDatesForOffset b o' guard = Some B" "{da, db} \<subseteq> set A" "{da, db} \<subseteq> set B"
proof -
  let ?a = "a - o'" and ?b = "b - o'"
  obtain da as where A: "rendezvousDay a o' = Some da" "activeDatesForOffset a o' guard = Some (da # as)"
    "DAY_MS - ?a mod DAY_MS \<le> guard \<Longrightarrow> \<exists>d\<in>set as. utcDateOf (?a + DAY_MS) = Some d"
    using active_dates [OF assms(1)] by metis
  obtain db bs where B: "rendezvousDay b o' = Some db" "activeDatesForOffset b o' guard = Some (db # bs)"
    "?b mod DAY_MS < guard \<Longrightarrow> \<exists>d\<in>set bs. utcDateOf (?b - DAY_MS) = Some d"
    using active_dates [OF assms(2)] by metis
  show ?thesis
  proof (cases "?a div DAY_MS = ?b div DAY_MS")
    case True
    then have "da = db" using A(1) B(1) utcDateOf_same [of ?a ?b] by (simp add: rendezvousDay_def)
    then show ?thesis using A(1,2) B(1,2) that by simp
  next
    case False
    have n: "?b div DAY_MS = ?a div DAY_MS + 1" "DAY_MS - ?a mod DAY_MS \<le> guard" "?b mod DAY_MS < guard"
      using next_day [of ?a ?b guard DAY_MS] assms(3-5) False by simp_all
    have D: "DAY_MS \<noteq> 0" by (simp add: DAY_MS_def)
    have e: "(?a + DAY_MS) div DAY_MS = ?b div DAY_MS" "(?b - DAY_MS) div DAY_MS = ?a div DAY_MS"
      using n(1) div_add_self2 [OF D, of ?a] div_add_self2 [OF D, of "?b - DAY_MS"] by simp_all
    have "utcDateOf (?a + DAY_MS) = Some db" "utcDateOf (?b - DAY_MS) = Some da"
      unfolding utcDateOf_same [OF e(1)] utcDateOf_same [OF e(2)] using A(1) B(1) by (simp_all add: rendezvousDay_def)
    then have "db \<in> set as" "da \<in> set bs" using A(3) [OF n(2)] B(3) [OF n(3)] by (metis option.inject)+
    then show ?thesis using that [OF A(1) B(1) A(2) B(2)] by simp
  qed
qed

definition days_shared :: "int \<Rightarrow> int \<Rightarrow> int \<Rightarrow> int \<Rightarrow> bool" where
  "days_shared a b o' guard \<longleftrightarrow> (\<exists>da db A B. rendezvousDay a o' = Some da \<and> rendezvousDay b o' = Some db
     \<and> activeDatesForOffset a o' guard = Some A \<and> activeDatesForOffset b o' guard = Some B \<and> {da, db} \<subseteq> set A \<and> {da, db} \<subseteq> set B)"

lemma days_shared_sym: "days_shared a b o' guard \<Longrightarrow> days_shared b a o' guard"
  unfolding days_shared_def by (elim exE) (intro exI, (elim conjE), intro conjI, assumption+, simp_all)

lemma clocks_meet:
  assumes "dated (a - o')" "dated (b - o')" "\<bar>a - b\<bar> \<le> guard" "guard < DAY_MS"
  shows "days_shared a b o' guard"
proof (cases "a \<le> b")
  case True
  then have "b - a \<le> guard" using assms(3) by simp
  from later_clock [OF assms(1,2) True this assms(4)] show ?thesis unfolding days_shared_def by metis
next
  case False
  then have "b \<le> a" "a - b \<le> guard" using assms(3) by simp_all
  from later_clock [OF assms(2,1) this assms(4)] have "days_shared b a o' guard" unfolding days_shared_def by metis
  then show ?thesis by (rule days_shared_sym)
qed

subsection \<open>Everything that happens to a rotating watch\<close>

datatype rt_input =
    RtTick int
  | RtAnswer int "(jstr \<times> bytes) option"
  | RtFrame int jstr bytes "jstr option"
  | RtSweep int jstr
  | RtStop int bool

definition rt_do :: "rt_cfg \<Rightarrow> rt_input \<Rightarrow> rotating \<Rightarrow> rt_effect list \<times> rotating" where
  "rt_do cfg i r = (case i of
     RtTick now \<Rightarrow> rt_tick cfg now r
   | RtAnswer now a \<Rightarrow> rt_derived cfg now a r
   | RtFrame now d raw sender \<Rightarrow> rt_watch (watch_handler (rp_watch cfg) now raw sender) d r
   | RtSweep now d \<Rightarrow> rt_watch (watch_sweep (rp_watch cfg) now) d r
   | RtStop now u \<Rightarrow> rt_stop cfg now u r)"

definition rt_step :: "rt_cfg \<Rightarrow> rotating \<Rightarrow> rt_input \<Rightarrow> rotating" where
  "rt_step cfg r i = snd (rt_do cfg i r)"

fun rt_run :: "rt_cfg \<Rightarrow> rotating \<Rightarrow> rt_input list \<Rightarrow> rt_effect list" where
  "rt_run cfg r [] = []"
| "rt_run cfg r (i # is) = fst (rt_do cfg i r) @ rt_run cfg (rt_step cfg r i) is"

text \<open>
  What the callbacks have told: they take turns, or the result is \<open>None\<close>. The same for the
  callbacks of one watch.
\<close>

fun told :: "bool \<Rightarrow> rt_effect list \<Rightarrow> bool option" where
  "told b [] = Some b"
| "told b (ROnline # es) = (if b then None else told True es)"
| "told b (ROffline # es) = (if b then told False es else None)"
| "told b (_ # es) = told b es"

fun lit :: "bool \<Rightarrow> watch_effect list \<Rightarrow> bool option" where
  "lit b [] = Some b"
| "lit b (WOnline # es) = (if b then None else lit True es)"
| "lit b (WOffline # es) = (if b then lit False es else None)"
| "lit b (_ # es) = lit b es"

lemma told_append: "told b (xs @ ys) = (case told b xs of None \<Rightarrow> None | Some c \<Rightarrow> told c ys)"
  by (induction b xs rule: told.induct) auto

lemma told_watch [simp]: "told b (map RWatch es) = Some b" "told b (stop_slot k u s) = Some b"
proof -
  show "told b (map RWatch es) = Some b" for es by (induction es) auto
  then show "told b (stop_slot k u s) = Some b" by (simp add: stop_slot_def split: option.split)
qed

lemma told_stops [simp]: "told b (concat (map (\<lambda>x. stop_slot k (u x) (snd x)) xs)) = Some b"
  by (induction xs) (simp_all add: told_append)

definition slot_ok :: "slot \<Rightarrow> bool" where
  "slot_ok s \<longleftrightarrow> sl_online s = (case sl_watch s of None \<Rightarrow> False | Some w \<Rightarrow> wt_online w)"

definition reserved :: slot where "reserved = \<lparr>sl_watch = None, sl_online = False\<rparr>"

definition rt_inv :: "rotating \<Rightarrow> bool" where
  "rt_inv r \<longleftrightarrow> jm_inv (rt_slots r) \<and> (\<forall>k s. jm_get (rt_slots r) k = Some s \<longrightarrow> slot_ok s)
     \<and> (if rt_stopped r then rt_slots r = [] else rt_aggregate r = any_online (rt_slots r))
     \<and> (\<forall>w. rt_wait r = Some w \<longrightarrow> \<not> rt_stopped r \<longrightarrow> jm_get (rt_slots r) (sw_day w) = Some reserved)"

text \<open>What one step tells, beside keeping the invariant.\<close>

definition tells :: "rotating \<Rightarrow> rt_effect list \<times> rotating \<Rightarrow> bool" where
  "tells r x \<longleftrightarrow> rt_inv (snd x) \<and> told (rt_aggregate r) (fst x) = Some (rt_aggregate (snd x))"

lemma tells_trans: "tells r (es, r') \<Longrightarrow> tells r' (es', r'') \<Longrightarrow> tells r (es @ es', r'')"
  by (simp add: tells_def told_append)

lemma recompute_tells:
  assumes "recompute r = (es, r')"
  shows "told (rt_aggregate r) es = Some (rt_aggregate r')" "rt_aggregate r' = any_online (rt_slots r)"
    "r' = r\<lparr>rt_aggregate := any_online (rt_slots r)\<rparr>"
  using assms by (auto simp: recompute_def Let_def split: if_splits)

lemma any_online_iff: "any_online m \<longleftrightarrow> (\<exists>x\<in>set m. sl_online (snd x))"
  by (simp add: any_online_def list_ex_iff)

lemma set_online_simps [simp]:
  "jm_keys (set_online d b m) = jm_keys m" "jm_inv (set_online d b m) = jm_inv m"
  "jm_get (set_online d b m) k = (if k = d then map_option (\<lambda>s. s\<lparr>sl_online := b\<rparr>) (jm_get m k) else jm_get m k)"
  "set_online d b (set_online d c m) = set_online d b m"
proof -
  show k: "jm_keys (set_online d b m) = jm_keys m" by (auto simp: set_online_def jm_keys_def split: prod.splits)
  then show "jm_inv (set_online d b m) = jm_inv m" by (simp add: jm_inv_keys)
  show "jm_get (set_online d b m) k = (if k = d then map_option (\<lambda>s. s\<lparr>sl_online := b\<rparr>) (jm_get m k) else jm_get m k)"
    by (induction m) (auto simp: set_online_def)
  show "set_online d b (set_online d c m) = set_online d b m" by (auto simp: set_online_def)
qed

lemma any_online_get: "jm_inv m \<Longrightarrow> any_online m \<longleftrightarrow> (\<exists>k s. jm_get m k = Some s \<and> sl_online s)"
  by (simp add: any_online_iff jm_get_iff_mem) (metis prod.collapse snd_conv)

lemma set_online_id: "jm_inv m \<Longrightarrow> jm_get m d = Some s \<Longrightarrow> set_online d (sl_online s) m = m"
  unfolding set_online_def by (rule map_idI) (auto simp: jm_get_iff_mem [symmetric])

lemma rt_carry_tells:
  assumes "jm_inv (rt_slots r)" "jm_get (rt_slots r) d = Some s" "rt_aggregate r = any_online (rt_slots r)"
    and "lit (sl_online s) es = Some b"
  shows "case rt_carry d es r of (es', r') \<Rightarrow> told (rt_aggregate r) es' = Some (rt_aggregate r')
    \<and> r' = r\<lparr>rt_slots := set_online d b (rt_slots r), rt_aggregate := any_online (set_online d b (rt_slots r))\<rparr>"
  using assms
proof (induction es arbitrary: r s)
  case Nil
  then show ?case using set_online_id [OF Nil.prems(1,2)] by simp
next
  case (Cons e es)
  have step: "case rt_carry d (e # es) r of (es', r') \<Rightarrow> told (rt_aggregate r) es' = Some (rt_aggregate r')
      \<and> r' = r\<lparr>rt_slots := set_online d b (rt_slots r), rt_aggregate := any_online (set_online d b (rt_slots r))\<rparr>"
    if e: "e = (if c then WOnline else WOffline)" and l: "lit c es = Some b" for c
  proof -
    obtain e1 r1 where r1: "recompute (r\<lparr>rt_slots := set_online d c (rt_slots r)\<rparr>) = (e1, r1)" by force
    note t = recompute_tells [OF r1, simplified]
    have "jm_get (rt_slots r1) d = Some (s\<lparr>sl_online := c\<rparr>)" using t(3) Cons.prems(2) by simp
    then show ?thesis using Cons.IH [of r1 "s\<lparr>sl_online := c\<rparr>"] t Cons.prems(1) l r1 e
      by (cases c) (auto simp: rt_up_def told_append split: prod.split)
  qed
  show ?case
  proof (cases e)
    case WOnline
    then show ?thesis using Cons.prems(4) step [of True] by (simp split: if_splits)
  next
    case WOffline
    then show ?thesis using Cons.prems(4) step [of False] by (simp split: if_splits)
  qed (use Cons.IH [OF Cons.prems(1-3)] Cons.prems(4) in \<open>auto simp: rt_up_def split: prod.splits\<close>)
qed

text \<open>The contract of an operation on one watch: its callbacks tell the change of its dot.\<close>

locale watch_op =
  fixes f :: "watch \<Rightarrow> watch_effect list \<times> watch"
  assumes tells_dot: "lit (wt_online w) (fst (f w)) = Some (wt_online (snd (f w)))"
begin

lemma rt_watch_tells:
  assumes "rt_inv r"
  shows "tells r (rt_watch f d r)"
proof (cases "\<exists>s w. jm_get (rt_slots r) d = Some s \<and> sl_watch s = Some w")
  case True
  then obtain s w where s: "jm_get (rt_slots r) d = Some s" "sl_watch s = Some w" by blast
  obtain es w' where f: "f w = (es, w')" by force
  have i: "jm_inv (rt_slots r)" "slot_ok s" "\<not> rt_stopped r" "rt_aggregate r = any_online (rt_slots r)"
    using assms s by (auto simp: rt_inv_def split: if_splits)
  let ?s = "s\<lparr>sl_watch := Some w'\<rparr>"
  let ?r = "r\<lparr>rt_slots := jm_set d ?s (rt_slots r)\<rparr>"
  have a: "any_online (jm_set d ?s (rt_slots r)) = any_online (rt_slots r)"
    using i(1) s(1) by (auto simp: any_online_get jm_get_set) (metis option.inject slot.select_convs(2) slot.surjective slot.update_convs(1))+
  have "lit (sl_online ?s) es = Some (wt_online w')" using tells_dot [of w] f i(2) s(2) by (simp add: slot_ok_def)
  from rt_carry_tells [of ?r d ?s es, OF _ _ _ this] i a
  have c: "case rt_carry d es ?r of (es', r') \<Rightarrow> told (rt_aggregate r) es' = Some (rt_aggregate r')
      \<and> r' = r\<lparr>rt_slots := set_online d (wt_online w') (jm_set d ?s (rt_slots r)),
        rt_aggregate := any_online (set_online d (wt_online w') (jm_set d ?s (rt_slots r)))\<rparr>" by simp
  obtain es' r' where r': "rt_carry d es ?r = (es', r')" by force
  have e: "rt_watch f d r = (es', r')" using s f r' by (simp add: rt_watch_def)
  have "sw_day x \<noteq> d" if "rt_wait r = Some x" for x
    using assms that i(3) s by (auto simp: rt_inv_def reserved_def)
  moreover have "slot_ok (?s\<lparr>sl_online := wt_online w'\<rparr>)" by (simp add: slot_ok_def)
  ultimately show ?thesis using c assms i unfolding e r' tells_def
    by (auto simp: rt_inv_def jm_get_set split: if_splits)
next
  case False
  then have "rt_watch f d r = ([], r)" by (auto simp: rt_watch_def split: option.splits)
  then show ?thesis using assms by (simp add: tells_def)
qed

end

interpretation handler: watch_op "watch_handler cfg now raw sender"
  by unfold_locales (auto simp: watch_handler_def watch_hear_def Let_def split: option.splits sum.splits prod.splits)

interpretation sweeping: watch_op "watch_sweep cfg now"
  by unfold_locales (auto simp: watch_sweep_def)

lemma jm_get_filter: "jm_get (filter (\<lambda>x. fst x \<in> A) m) k = (if k \<in> A then jm_get m k else None)"
  by (induction m) auto

lemma rt_inv_queued [simp]: "rt_inv (r\<lparr>rt_queued := n\<rparr>) = rt_inv r"
  by (simp add: rt_inv_def)

lemma rt_prune_tells:
  assumes "rt_inv r" "\<not> rt_stopped r" "rt_wait r = None"
  shows "tells r (rt_prune cfg want r)"
proof -
  let ?m = "filter (\<lambda>x. fst x \<in> set want) (rt_slots r)"
  obtain es r' where r: "recompute (r\<lparr>rt_slots := ?m\<rparr>) = (es, r')" by force
  have g: "jm_get ?m k = (if k \<in> set want then jm_get (rt_slots r) k else None)" for k
    by (rule jm_get_filter)
  have "rt_inv r'" using recompute_tells(3) [OF r] assms by (auto simp: rt_inv_def g split: if_splits)
  then show ?thesis using recompute_tells(1) [OF r] r by (simp add: tells_def rt_prune_def Let_def told_append)
qed

lemma any_online_offline:
  assumes "jm_inv m" "\<not> sl_online s" "\<forall>s'. jm_get m d = Some s' \<longrightarrow> \<not> sl_online s'"
  shows "any_online (jm_set d s m) = any_online m"
  using assms by (auto simp: any_online_get jm_get_set)

lemma rt_days_tells:
  assumes "rt_inv r" "\<not> rt_stopped r" "rt_wait r = None"
  shows "tells r (rt_days cfg want ds r)"
proof (induction ds)
  case Nil
  then show ?case using rt_prune_tells [OF assms] by simp
next
  case (Cons d ds)
  show ?case
  proof (cases "jm_has (rt_slots r) d")
    case False
    then have n: "jm_get (rt_slots r) d = None" by (simp add: jm_has_iff jm_get_None_iff)
    have "any_online (jm_set d reserved (rt_slots r)) = any_online (rt_slots r)"
      using assms n by (intro any_online_offline) (simp_all add: rt_inv_def reserved_def)
    then show ?thesis using assms False
      by (auto simp: tells_def rt_inv_def jm_get_set slot_ok_def reserved_def [symmetric]) (simp_all add: reserved_def)
  qed (use Cons.IH in simp)
qed

lemma rt_sync_tells: "rt_inv r \<Longrightarrow> rt_wait r = None \<Longrightarrow> tells r (rt_sync cfg now r)"
  using rt_days_tells [of r cfg] by (simp add: rt_sync_def tells_def split: option.split)

lemma rt_next_tells: "tells r0 (es, r) \<Longrightarrow> tells r0 (rt_next cfg now n (es, r))"
proof (induction n arbitrary: es r)
  case 0
  then show ?case by (simp add: tells_def)
next
  case (Suc n)
  show ?case
  proof (cases "rt_wait r = None")
    case True
    have "rt_inv r" using Suc.prems by (simp add: tells_def)
    from tells_trans [OF Suc.prems, of "fst (rt_sync cfg now r)"] rt_sync_tells [OF this True, of cfg now]
    have "tells r0 (es @ fst (rt_sync cfg now r), snd (rt_sync cfg now r))" by simp
    then show ?thesis using Suc.IH True by (simp add: split_beta)
  qed (use Suc.prems in \<open>simp add: tells_def\<close>)
qed

lemma rt_derived_tells: "rt_inv r \<Longrightarrow> tells r (rt_derived cfg now a r)"
proof (cases "rt_wait r")
  case (Some w)
  assume i: "rt_inv r"
  let ?r = "r\<lparr>rt_wait := None\<rparr>"
  have ir: "rt_inv ?r" "jm_inv (rt_slots r)" using i by (auto simp: rt_inv_def)
  show ?thesis
  proof (cases a)
    case None
    then show ?thesis using Some ir rt_next_tells [of r "[]" ?r] by (simp add: rt_derived_def tells_def)
  next
    case (Some p)
    obtain topic k where p: "p = (topic, k)" by force
    show ?thesis
    proof (cases "rt_stopped r")
      case True
      then have "tells r ([], ?r\<lparr>rt_slots := jm_del (sw_day w) (rt_slots ?r)\<rparr>)"
        using ir by (simp add: tells_def rt_inv_def jm_del_def)
      then show ?thesis using rt_next_tells True Some p \<open>rt_wait r = Some w\<close> by (simp add: rt_derived_def Let_def)
    next
      case False
      let ?s = "\<lparr>sl_watch = Some (new_watch topic k), sl_online = False\<rparr>"
      let ?q = "?r\<lparr>rt_slots := jm_set (sw_day w) ?s (rt_slots r)\<rparr>"
      have "any_online (jm_set (sw_day w) ?s (rt_slots r)) = any_online (rt_slots r)"
        using ir(2) i \<open>rt_wait r = Some w\<close> False by (intro any_online_offline) (auto simp: rt_inv_def reserved_def)
      then have "rt_inv ?q" using ir i False by (auto simp: rt_inv_def jm_get_set slot_ok_def new_watch_def)
      from rt_days_tells [OF this] False have "tells ?q (rt_days cfg (sw_want w) (sw_todo w) ?q)" by simp
      then have "tells r ([RSubscribe topic, RWatch WAnnounce] @ fst (rt_days cfg (sw_want w) (sw_todo w) ?q),
          snd (rt_days cfg (sw_want w) (sw_todo w) ?q))" by (simp add: tells_def)
      then show ?thesis using rt_next_tells False Some p \<open>rt_wait r = Some w\<close> by (simp add: rt_derived_def Let_def split_beta)
    qed
  qed
qed (simp add: rt_derived_def tells_def)

lemma rt_do_tells: "rt_inv r \<Longrightarrow> tells r (rt_do cfg i r)"
proof (cases i)
  case (RtTick now)
  assume i: "rt_inv r"
  show ?thesis
  proof (cases "rt_wait r = None")
    case True
    obtain es r' where r': "rt_sync cfg now r = (es, r')" by force
    then show ?thesis using rt_next_tells [of r es r'] rt_sync_tells [OF i True, of cfg now] RtTick True
      by (simp add: rt_do_def rt_tick_def)
  qed (use i RtTick in \<open>simp add: rt_do_def rt_tick_def tells_def\<close>)
next
  case (RtStop now u)
  assume "rt_inv r"
  then show ?thesis using RtStop by (auto simp: rt_do_def rt_stop_def Let_def tells_def rt_inv_def)
qed (simp_all add: rt_do_def rt_derived_tells handler.rt_watch_tells sweeping.rt_watch_tells)

interpretation rt: machine "rt_step cfg" rt_inv
  by unfold_locales (use rt_do_tells in \<open>simp add: rt_step_def tells_def\<close>)

lemma no_watches_inv: "rt_inv no_watches"
  by (simp add: rt_inv_def no_watches_def any_online_def)

lemma rt_run_told: "rt_inv r \<Longrightarrow> told (rt_aggregate r) (rt_run cfg r is) = Some (rt_aggregate (run (rt_step cfg) r is))"
proof (induction "is" arbitrary: r)
  case (Cons i "is")
  have t: "tells r (rt_do cfg i r)" using rt_do_tells [OF Cons.prems] .
  then have "rt_inv (rt_step cfg r i)" by (simp add: tells_def rt_step_def)
  from Cons.IH [OF this] t show ?case by (simp add: tells_def told_append rt_step_def)
qed simp

lemma dot_told:
  fixes inputs :: "rt_input list" and cfg :: rt_cfg
  defines "r \<equiv> run (rt_step cfg) no_watches inputs"
  shows "told False (rt_run cfg no_watches inputs) = Some (rt_aggregate r)"
    and "rt_stopped r \<or> rt_aggregate r = (\<exists>d s w. jm_get (rt_slots r) d = Some s \<and> sl_watch s = Some w \<and> wt_online w)"
proof -
  have i: "rt_inv r" using rt.run_inv [OF no_watches_inv] by (simp add: r_def)
  show "told False (rt_run cfg no_watches inputs) = Some (rt_aggregate r)"
    using rt_run_told [OF no_watches_inv, of cfg inputs] unfolding r_def [symmetric] by (simp add: no_watches_def)
  have on: "sl_online s \<longleftrightarrow> (\<exists>w. sl_watch s = Some w \<and> wt_online w)" if "jm_get (rt_slots r) d = Some s" for d s
    using i that by (auto simp: rt_inv_def slot_ok_def split: option.splits)
  show "rt_stopped r \<or> rt_aggregate r = (\<exists>d s w. jm_get (rt_slots r) d = Some s \<and> sl_watch s = Some w \<and> wt_online w)"
  proof (cases "rt_stopped r")
    case False
    then have "rt_aggregate r = any_online (rt_slots r)" "jm_inv (rt_slots r)" using i by (simp_all add: rt_inv_def)
    then show ?thesis using on by (simp add: any_online_get) blast
  qed simp
qed

subsection \<open>A day whose derivation failed\<close>

definition day_wanted :: "rt_cfg \<Rightarrow> jstr \<Rightarrow> rt_input \<Rightarrow> bool" where
  "day_wanted cfg d i =
     (let wants = (\<lambda>now. case activeDatesForOffset now (rp_offsetMs cfg) (rp_guard cfg) of None \<Rightarrow> False | Some ds \<Rightarrow> d \<in> set ds) in
      case i of RtTick now \<Rightarrow> wants now | RtAnswer now _ \<Rightarrow> wants now | RtFrame _ _ _ _ \<Rightarrow> True | RtSweep _ _ \<Rightarrow> True
        | RtStop _ _ \<Rightarrow> False)"

definition lost_day :: "jstr \<Rightarrow> rotating \<Rightarrow> bool" where
  "lost_day d r \<longleftrightarrow> jm_get (rt_slots r) d = Some reserved \<and> \<not> rt_stopped r
     \<and> (\<forall>w. rt_wait r = Some w \<longrightarrow> sw_day w \<noteq> d \<and> d \<in> set (sw_want w))"

definition says_nothing :: "jstr \<Rightarrow> rt_effect list \<Rightarrow> bool" where
  "says_nothing d es \<longleftrightarrow> RDerive d \<notin> set es \<and> (\<forall>f p. RHandshake f p d \<notin> set es)"

definition deaf :: "jstr \<Rightarrow> rt_effect list \<times> rotating \<Rightarrow> bool" where
  "deaf d x \<longleftrightarrow> says_nothing d (fst x) \<and> lost_day d (snd x)"

lemma says_nothing_simps [simp]:
  "says_nothing d []" "says_nothing d (xs @ ys) = (says_nothing d xs \<and> says_nothing d ys)"
  "says_nothing d (map RWatch es)" "says_nothing d (stop_slot k u s)"
  by (auto simp: says_nothing_def stop_slot_def split: option.split)

lemma says_nothing_Cons: "says_nothing d (e # es) = (says_nothing d [e] \<and> says_nothing d es)"
  using says_nothing_simps(2) [of d "[e]" es] by simp

lemma says_nothing_stops [simp]: "says_nothing d (concat (map (\<lambda>x. stop_slot k (u x) (snd x)) xs))"
  by (induction xs) simp_all

lemma recompute_says: "says_nothing d (fst (recompute r))" "rt_slots (snd (recompute r)) = rt_slots r"
    "rt_stopped (snd (recompute r)) = rt_stopped r" "rt_wait (snd (recompute r)) = rt_wait r"
  by (auto simp: recompute_def Let_def says_nothing_def)

lemma deaf_days:
  assumes "lost_day d r" "d \<in> set want"
  shows "deaf d (rt_days cfg want ds r)"
proof (induction ds)
  case Nil
  have "jm_get (filter (\<lambda>x. fst x \<in> set want) (rt_slots r)) d = Some reserved"
    using assms by (simp add: jm_get_filter lost_day_def)
  then show ?case using assms by (simp add: rt_prune_def Let_def deaf_def split_beta recompute_says lost_day_def)
next
  case (Cons e ds)
  show ?case
  proof (cases "jm_has (rt_slots r) e")
    case False
    then have "e \<noteq> d" using assms(1) by (auto simp: lost_day_def jm_has_def)
    then show ?thesis using assms False by (auto simp: deaf_def lost_day_def says_nothing_def)
  qed (use Cons.IH in simp)
qed

lemma deaf_sync: "lost_day d r \<Longrightarrow> day_wanted cfg d (RtTick now) \<Longrightarrow> deaf d (rt_sync cfg now r)"
  using deaf_days by (auto simp: rt_sync_def day_wanted_def lost_day_def split: option.split option.splits)

lemma deaf_next: "deaf d (es, r) \<Longrightarrow> day_wanted cfg d (RtTick now) \<Longrightarrow> deaf d (rt_next cfg now n (es, r))"
proof (induction n arbitrary: es r)
  case 0
  then show ?case by (simp add: deaf_def lost_day_def)
next
  case (Suc n)
  show ?case
  proof (cases "rt_wait r = None")
    case True
    have "deaf d (rt_sync cfg now r)" using deaf_sync Suc.prems by (simp add: deaf_def)
    then have "deaf d (es @ fst (rt_sync cfg now r), snd (rt_sync cfg now r))" using Suc.prems(1) by (simp add: deaf_def)
    then show ?thesis using Suc.IH [OF _ Suc.prems(2)] True by (simp add: split_beta)
  qed (use Suc.prems in \<open>simp add: deaf_def lost_day_def\<close>)
qed

lemma deaf_up: "lost_day d r \<Longrightarrow> e \<noteq> d \<Longrightarrow> deaf d (rt_up e x r)"
  by (cases x) (simp_all add: rt_up_def deaf_def lost_day_def recompute_says, simp_all add: says_nothing_def)

lemma deaf_carry: "lost_day d r \<Longrightarrow> e \<noteq> d \<Longrightarrow> deaf d (rt_carry e es r)"
proof (induction es arbitrary: r)
  case (Cons x es)
  then show ?case using deaf_up [OF Cons.prems, of x] Cons.IH [of "snd (rt_up e x r)"] by (simp add: deaf_def split_beta)
qed (simp add: deaf_def)

lemma deaf_watch: "lost_day d r \<Longrightarrow> deaf d (rt_watch f e r)"
proof (cases "e = d")
  case False
  assume l: "lost_day d r"
  show ?thesis
  proof (cases "\<exists>s w. jm_get (rt_slots r) e = Some s \<and> sl_watch s = Some w")
    case True
    then obtain s w where s: "jm_get (rt_slots r) e = Some s" "sl_watch s = Some w" by blast
    have "lost_day d (r\<lparr>rt_slots := jm_set e (s\<lparr>sl_watch := Some (snd (f w))\<rparr>) (rt_slots r)\<rparr>)"
      using l False by (simp add: lost_day_def jm_get_set)
    from deaf_carry [OF this False] show ?thesis using s by (simp add: rt_watch_def split_beta)
  next
    case False
    then have "rt_watch f e r = ([], r)" by (auto simp: rt_watch_def split: option.splits)
    then show ?thesis using l by (simp add: deaf_def)
  qed
qed (simp add: rt_watch_def lost_day_def reserved_def deaf_def)

lemma deaf_do: "lost_day d r \<Longrightarrow> day_wanted cfg d i \<Longrightarrow> deaf d (rt_do cfg i r)"
proof (cases i)
  case (RtTick now)
  assume l: "lost_day d r" "day_wanted cfg d i"
  obtain es r' where r': "rt_sync cfg now r = (es, r')" by force
  have "deaf d (es, r')" using deaf_sync l RtTick r' by metis
  from deaf_next [OF this] l RtTick show ?thesis using l(1) r'
    by (simp add: rt_do_def rt_tick_def) (simp add: deaf_def lost_day_def)
next
  case (RtAnswer now a)
  assume l: "lost_day d r" "day_wanted cfg d i"
  then have n: "day_wanted cfg d (RtTick now)" using RtAnswer by (simp add: day_wanted_def)
  show ?thesis
  proof (cases "rt_wait r")
    case (Some w)
    have w: "sw_day w \<noteq> d" "d \<in> set (sw_want w)" "\<not> rt_stopped r" using l(1) Some by (auto simp: lost_day_def)
    let ?r = "r\<lparr>rt_wait := None\<rparr>"
    have l1: "lost_day d ?r" using l(1) by (simp add: lost_day_def)
    show ?thesis
    proof (cases a)
      case None
      then show ?thesis using deaf_next [of d "[]" ?r, OF _ n] l1 RtAnswer Some by (simp add: rt_do_def rt_derived_def deaf_def)
    next
      case (Some p)
      obtain topic k where p: "p = (topic, k)" by force
      let ?q = "?r\<lparr>rt_slots := jm_set (sw_day w) \<lparr>sl_watch = Some (new_watch topic k), sl_online = False\<rparr> (rt_slots r)\<rparr>"
      have "lost_day d ?q" using l1 w by (simp add: lost_day_def jm_get_set)
      from deaf_days [OF this w(2)] have "deaf d ([RSubscribe topic, RWatch WAnnounce] @ fst (rt_days cfg (sw_want w) (sw_todo w) ?q),
          snd (rt_days cfg (sw_want w) (sw_todo w) ?q))" by (simp add: deaf_def) (simp add: says_nothing_def)
      from deaf_next [OF this n] show ?thesis using RtAnswer Some p w \<open>rt_wait r = Some w\<close>
        by (simp add: rt_do_def rt_derived_def Let_def split_beta)
    qed
  qed (use l RtAnswer in \<open>simp add: rt_do_def rt_derived_def deaf_def\<close>)
qed (simp_all add: rt_do_def deaf_watch day_wanted_def)

lemma deaf_run:
  "lost_day d r \<Longrightarrow> \<forall>i\<in>set is. day_wanted cfg d i \<Longrightarrow> says_nothing d (rt_run cfg r is) \<and> lost_day d (run (rt_step cfg) r is)"
proof (induction "is" arbitrary: r)
  case (Cons i "is")
  then show ?case using deaf_do [of d r cfg i] by (simp add: deaf_def rt_step_def)
qed (simp)

lemma failed_day_deaf:
  assumes "rt_inv r" "rt_wait r = Some w" "\<not> rt_stopped r"
    and "\<forall>i\<in>set (RtAnswer now None # is). day_wanted cfg (sw_day w) i"
  shows "says_nothing (sw_day w) (rt_run cfg r (RtAnswer now None # is))
    \<and> jm_get (rt_slots (run (rt_step cfg) r (RtAnswer now None # is))) (sw_day w) = Some reserved"
proof -
  let ?r = "r\<lparr>rt_wait := None\<rparr>"
  have "lost_day (sw_day w) ?r" using assms(1-3) by (simp add: rt_inv_def lost_day_def)
  moreover have "day_wanted cfg (sw_day w) (RtTick now)" using assms(4) by (simp add: day_wanted_def)
  ultimately have "deaf (sw_day w) (rt_next cfg now (rt_queued r) ([], ?r))" using deaf_next [of "sw_day w" "[]"] by (simp add: deaf_def)
  then have "deaf (sw_day w) (rt_do cfg (RtAnswer now None) r)" using assms(2) by (simp add: rt_do_def rt_derived_def)
  then show ?thesis using deaf_run [of "sw_day w" "rt_step cfg r (RtAnswer now None)" "is" cfg] assms(4)
    by (simp add: deaf_def rt_step_def lost_day_def)
qed

subsection \<open>Properties\<close>

lemma pair_days:
  assumes "derives_as_ecdh C i" "derives_as_ecdh C j"
    and "dr_ecdh i (ct_pub cj) (ct_kid cj) = Some ss" "dr_ecdh j (ct_pub ci) (ct_kid ci) = Some ss"
    and "2 * DAY_MS \<le> a" "a + DAY_MS < 253402300800000" "2 * DAY_MS \<le> b" "b + DAY_MS < 253402300800000"
    and "\<bar>a - b\<bar> \<le> guard" "guard < DAY_MS"
  shows "\<exists>s. deriveRotationOffset C i cj p = Some s \<and> deriveRotationOffset C j ci p = Some s
    \<and> days_shared a b (int s * 1000) guard
    \<and> (\<forall>d. derivePresence C i cj (p\<lparr>rv_dateUTC := d\<rparr>) = Some (presenceFromSecret C ss (p\<lparr>rv_dateUTC := d\<rparr>))
        \<and> derivePresence C j ci (p\<lparr>rv_dateUTC := d\<rparr>) = Some (presenceFromSecret C ss (p\<lparr>rv_dateUTC := d\<rparr>)))"
proof -
  note P = derivePresence_secret [OF assms(1,3)] derivePresence_secret [OF assms(2,4)]
  let ?s = "rotationOffsetSec C ss p"
  have s: "0 \<le> int ?s * 1000" "int ?s * 1000 < DAY_MS" using rotationOffsetSec_lt [of C ss p] by (simp_all add: DAY_MS_def)
  have "dated (a - int ?s * 1000)" "dated (b - int ?s * 1000)" using assms(5-8) s unfolding dated_def by linarith+
  from clocks_meet [OF this assms(9,10)] P show ?thesis by blast
qed

text \<open>
  C9: two contacts are always on a shared topic. When both identities compute the same shared
  secret, in the device or out of it, they derive the same rotation instant; and when their clocks
  differ by at most the guard, the day each takes for current is live for the other too, with the
  same topic and the same Announce key.
\<close>
theorem pair_meets:
  assumes "derives_as_ecdh C i" "derives_as_ecdh C j"
    and "dr_ecdh i (ct_pub cj) (ct_kid cj) = Some ss" "dr_ecdh j (ct_pub ci) (ct_kid ci) = Some ss"
    and "2 * DAY_MS \<le> a" "a + DAY_MS < 253402300800000" "2 * DAY_MS \<le> b" "b + DAY_MS < 253402300800000"
    and "\<bar>a - b\<bar> \<le> guard" "guard < DAY_MS"
  shows "\<exists>s da db A B. deriveRotationOffset C i cj p = Some s \<and> deriveRotationOffset C j ci p = Some s
    \<and> rendezvousDay a (int s * 1000) = Some da \<and> rendezvousDay b (int s * 1000) = Some db
    \<and> activeDatesForOffset a (int s * 1000) guard = Some A \<and> activeDatesForOffset b (int s * 1000) guard = Some B
    \<and> {da, db} \<subseteq> set A \<inter> set B
    \<and> derivePresence C i cj (p\<lparr>rv_dateUTC := da\<rparr>) = derivePresence C j ci (p\<lparr>rv_dateUTC := da\<rparr>)
    \<and> derivePresence C i cj (p\<lparr>rv_dateUTC := db\<rparr>) = derivePresence C j ci (p\<lparr>rv_dateUTC := db\<rparr>)
    \<and> derivePresence C i cj (p\<lparr>rv_dateUTC := da\<rparr>) \<noteq> None \<and> derivePresence C i cj (p\<lparr>rv_dateUTC := db\<rparr>) \<noteq> None"
proof -
  obtain s where s: "deriveRotationOffset C i cj p = Some s" "deriveRotationOffset C j ci p = Some s"
      "days_shared a b (int s * 1000) guard"
    and d: "\<And>d. derivePresence C i cj (p\<lparr>rv_dateUTC := d\<rparr>) = Some (presenceFromSecret C ss (p\<lparr>rv_dateUTC := d\<rparr>))"
      "\<And>d. derivePresence C j ci (p\<lparr>rv_dateUTC := d\<rparr>) = Some (presenceFromSecret C ss (p\<lparr>rv_dateUTC := d\<rparr>))"
    using pair_days [OF assms, of p] by blast
  from s(3) [unfolded days_shared_def] obtain da db A B where "rendezvousDay a (int s * 1000) = Some da" "rendezvousDay b (int s * 1000) = Some db"
    "activeDatesForOffset a (int s * 1000) guard = Some A" "activeDatesForOffset b (int s * 1000) guard = Some B"
    "{da, db} \<subseteq> set A" "{da, db} \<subseteq> set B" by (elim exE conjE)
  note r = this
  show ?thesis
    by (rule exI [of _ s], rule exI [of _ da], rule exI [of _ db], rule exI [of _ A], rule exI [of _ B])
      (simp only: s(1,2) r(1-4) d r(5,6) Int_subset_iff simp_thms option.distinct)
qed

definition demo_deriving :: "bytes \<Rightarrow> deriving" where
  "demo_deriving pub = \<lparr>dr_pub = pub, dr_ecdh = (\<lambda>p k. Some [3]), dr_derive = None\<rparr>"

definition demo_ref :: "bytes \<Rightarrow> contact_ref" where
  "demo_ref pub = \<lparr>ct_pub = pub, ct_kid = None\<rparr>"

theorem pair_meets_witness:
  "\<exists>s da db A B. deriveRotationOffset demo_crypto (demo_deriving [1]) (demo_ref [2]) \<lparr>rv_networkId = [], rv_dateUTC = []\<rparr> = Some s
    \<and> deriveRotationOffset demo_crypto (demo_deriving [2]) (demo_ref [1]) \<lparr>rv_networkId = [], rv_dateUTC = []\<rparr> = Some s
    \<and> rendezvousDay 1700000000000 (int s * 1000) = Some da \<and> rendezvousDay 1700001000000 (int s * 1000) = Some db
    \<and> activeDatesForOffset 1700000000000 (int s * 1000) OVERLAP_MS = Some A
    \<and> activeDatesForOffset 1700001000000 (int s * 1000) OVERLAP_MS = Some B \<and> {da, db} \<subseteq> set A \<inter> set B"
proof -
  have "derives_as_ecdh demo_crypto (demo_deriving p)" for p by (simp add: derives_as_ecdh_def demo_deriving_def)
  from pair_meets [OF this [of "[1]"] this [of "[2]"], of "demo_ref [2]" "[3]" "demo_ref [1]" 1700000000000 1700001000000 OVERLAP_MS
      "\<lparr>rv_networkId = [], rv_dateUTC = []\<rparr>"]
  show ?thesis by (simp add: demo_deriving_def DAY_MS_def OVERLAP_MS_def) blast
qed

text \<open>
  The dot tells whether the contact is heard. Whatever ticks, derivations, frames and sweeps a
  rotating watch sees, its callbacks take turns, online first, the last one is the state it keeps,
  and until it is stopped that state says whether the watch of some live day hears the contact.
\<close>
theorem dot_is_told:
  "told False (rt_run cfg no_watches inputs) = Some (rt_aggregate (run (rt_step cfg) no_watches inputs))
    \<and> (rt_stopped (run (rt_step cfg) no_watches inputs) \<or> rt_aggregate (run (rt_step cfg) no_watches inputs)
       = (\<exists>d s w. jm_get (rt_slots (run (rt_step cfg) no_watches inputs)) d = Some s \<and> sl_watch s = Some w \<and> wt_online w))"
  using dot_told [of cfg inputs] by blast

text \<open>
  A day whose derivation failed stays dark. When deriving a day's topic rejects, the slot
  reserved for the day stays without a watch: as long as the day is wanted no later tick derives it
  again, and no handshake that comes on its topic is handed up.
\<close>
theorem failed_day_stays_dark:
  assumes "rt_wait (run (rt_step cfg) no_watches past) = Some w" "\<not> rt_stopped (run (rt_step cfg) no_watches past)"
    and "\<forall>i\<in>set (RtAnswer now None # later). day_wanted cfg (sw_day w) i"
  shows "says_nothing (sw_day w) (rt_run cfg (run (rt_step cfg) no_watches past) (RtAnswer now None # later))
    \<and> jm_get (rt_slots (run (rt_step cfg) no_watches (past @ RtAnswer now None # later))) (sw_day w)
       = Some \<lparr>sl_watch = None, sl_online = False\<rparr>"
  using failed_day_deaf [OF rt.run_inv [OF no_watches_inv] assms] by (simp add: run_append reserved_def)

definition demo_rt :: rt_cfg where
  "demo_rt = \<lparr>rp_watch = \<lparr>wc_self = [1], wc_heartbeatMs = 15000, wc_reply = True, wc_crypto = demo_crypto, wc_text = demo_text JNull\<rparr>,
     rp_offsetMs = 0, rp_guard = OVERLAP_MS, rp_keep = (\<lambda>_. False)\<rparr>"

lemma demo_date: "utcDateOf 1728043200000 = Some (js ''2024-10-04'')"
  by code_simp

lemma demo_dates: "activeDatesForOffset 1728043200000 0 OVERLAP_MS = Some [js ''2024-10-04'']"
  using ms_midnight [of 1728043200000] by (simp add: activeDatesForOffset_def demo_date OVERLAP_MS_def DAY_MS_def)

theorem failed_day_stays_dark_witness:
  "says_nothing (js ''2024-10-04'') (rt_run demo_rt (run (rt_step demo_rt) no_watches [RtTick 1728043200000])
     [RtAnswer 1728043200000 None, RtTick 1728043200000, RtTick 1728043200000])"
proof -
  let ?w = "\<lparr>sw_day = js ''2024-10-04'', sw_todo = [], sw_want = [js ''2024-10-04'']\<rparr>"
  have o: "rp_offsetMs demo_rt = 0" "rp_guard demo_rt = OVERLAP_MS" by (simp_all add: demo_rt_def)
  have w: "rt_wait (run (rt_step demo_rt) no_watches [RtTick 1728043200000]) = Some ?w"
    "\<not> rt_stopped (run (rt_step demo_rt) no_watches [RtTick 1728043200000])"
    by (simp_all add: rt_step_def rt_do_def rt_tick_def rt_sync_def no_watches_def o demo_dates jm_has_def)
  have "day_wanted demo_rt (js ''2024-10-04'') (RtTick 1728043200000)"
    "day_wanted demo_rt (js ''2024-10-04'') (RtAnswer 1728043200000 None)"
    by (simp_all add: day_wanted_def o demo_dates)
  then show ?thesis using failed_day_stays_dark [OF w, of 1728043200000 "[RtTick 1728043200000, RtTick 1728043200000]"] by simp
qed

end
