(* ===== verification/GroupRoom.thy ===== *)
theory GroupRoom
  imports GroupTheorems Presence Envelope
begin

section \<open>A group on the transport (lib/grouproom.ts)\<close>

text \<open>
  The room of one group: it keeps the topics of the live days subscribed, sends on the current
  day's, hands what comes in to the session of \<open>GroupSession\<close> and what that opens to the caller. A
  frame sent while the room is young goes out twice more. A topic is derived from bytes at hand, so
  \<open>syncTopics\<close> is one step here; its \<open>syncing\<close> flag, which keeps two runs apart, has nothing to do.
\<close>

definition T_GKEEPALIVE :: byte where "T_GKEEPALIVE = 0x21"
definition KEEPALIVE :: bytes where "KEEPALIVE = [T_GKEEPALIVE]"
definition ASK_COOLDOWN_MS :: int where "ASK_COOLDOWN_MS = 30000"
definition FRESH_MS :: int where "FRESH_MS = 30000"
definition REPEAT_MS :: "int list" where "REPEAT_MS = [2000, 6000]"

datatype group_effect =
    GSubscribe jstr
  | GUnsubscribe jstr
  | GKeepalive jstr
  | GKeepaliveLater jstr int
  | GBurstLater int
  | GPublish jstr bytes
  | GRepeatLater jstr bytes int
  | GMessage jstr json
  | GReaction jstr json
  | GFile jstr json
  | GAskKey jstr

record groom =
  go_session :: gsession
  go_byDate :: "(jstr, jstr) jmap"
  go_live :: "jstr list"
  go_primary :: jstr
  go_seq :: int
  go_stopped :: bool
  go_joinedAt :: int
  go_lastAsk :: "(jstr, int) jmap"

record groom_cfg =
  gc_genv :: genv
  gc_ident :: ident
  gc_text :: text_env
  gc_me :: jstr
  gc_params :: rv_params
  gc_guard :: int

subsection \<open>Topics\<close>

definition topicFor :: "groom_cfg \<Rightarrow> gsession \<Rightarrow> jstr \<Rightarrow> jstr" where
  "topicFor cfg s d = groupTopicFromSecret (ge_C (gc_genv cfg)) (gs_secret s) ((gc_params cfg)\<lparr>rv_dateUTC := d\<rparr>)"

definition rotationOffsetMs :: "groom_cfg \<Rightarrow> gsession \<Rightarrow> int" where
  "rotationOffsetMs cfg s = int (rotationOffsetSec (ge_C (gc_genv cfg)) (gs_secret s) (gc_params cfg)) * 1000"

fun open_days :: "groom_cfg \<Rightarrow> jstr list \<Rightarrow> groom \<Rightarrow> group_effect list \<times> groom" where
  "open_days cfg [] r = ([], r)"
| "open_days cfg (d # ds) r =
     (if jm_has (go_byDate r) d then open_days cfg ds r
      else let t = topicFor cfg (go_session r) d in
        case open_days cfg ds (r\<lparr>go_byDate := jm_set d t (go_byDate r), go_live := List.insert t (go_live r)\<rparr>) of
          (es, r') \<Rightarrow> ([GSubscribe t, GKeepaliveLater t 1000, GKeepaliveLater t 3000, GKeepaliveLater t 7000] @ es, r'))"

definition retire_days :: "jstr list \<Rightarrow> groom \<Rightarrow> group_effect list \<times> groom" where
  "retire_days dates r =
     (let gone = filter (\<lambda>x. fst x \<notin> set dates) (go_byDate r) in
      (map (\<lambda>x. GUnsubscribe (snd x)) gone,
       r\<lparr>go_byDate := filter (\<lambda>x. fst x \<in> set dates) (go_byDate r),
         go_live := filter (\<lambda>t. t \<notin> snd ` set gone) (go_live r)\<rparr>))"

definition syncTopics :: "groom_cfg \<Rightarrow> int \<Rightarrow> groom \<Rightarrow> group_effect list \<times> groom" where
  "syncTopics cfg now r =
     (if go_stopped r then ([], r)
      else case activeDatesForOffset now (rotationOffsetMs cfg (go_session r)) (gc_guard cfg) of
          None \<Rightarrow> ([], r)
        | Some dates \<Rightarrow>
            (case open_days cfg dates r of (es, r1) \<Rightarrow>
              (case retire_days dates r1 of (es', r2) \<Rightarrow>
                (es @ es', r2\<lparr>go_primary := (case jm_get (go_byDate r2) (hd dates) of None \<Rightarrow> [] | Some t \<Rightarrow> t)\<rparr>))))"

definition joinGroup :: "groom_cfg \<Rightarrow> int \<Rightarrow> gsession \<Rightarrow> group_effect list \<times> groom" where
  "joinGroup cfg now s = syncTopics cfg now
     \<lparr>go_session = s, go_byDate = [], go_live = [], go_primary = [], go_seq = 0, go_stopped = False, go_joinedAt = now, go_lastAsk = []\<rparr>"

subsection \<open>Coming in\<close>

definition deliver_env :: "groom_cfg \<Rightarrow> received \<Rightarrow> groom \<Rightarrow> group_effect list" where
  "deliver_env cfg m r =
     (if go_stopped r then []
      else case decodeEnvelope (tx_js (gc_text cfg)) (rv_pt m) of
          None \<Rightarrow> []
        | Some e \<Rightarrow>
            let t = str_val (field e ''t'') in
            if t = js ''msg'' then [GMessage (rv_from m) e]
            else if t = js ''reaction'' then [GReaction (rv_from m) e]
            else if t = js ''file'' then [GFile (rv_from m) e]
            else [])"

definition ask_key :: "int \<Rightarrow> jstr option \<Rightarrow> groom \<Rightarrow> group_effect list \<times> groom" where
  "ask_key now pub r =
     (case pub of
        None \<Rightarrow> ([], r)
      | Some p \<Rightarrow>
          if go_stopped r \<or> now - (case jm_get (go_lastAsk r) p of None \<Rightarrow> 0 | Some t \<Rightarrow> t) < ASK_COOLDOWN_MS then ([], r)
          else ([GAskKey p], r\<lparr>go_lastAsk := jm_set p now (go_lastAsk r)\<rparr>))"

definition group_handler :: "groom_cfg \<Rightarrow> int \<Rightarrow> jstr \<Rightarrow> bytes \<Rightarrow> jstr option \<Rightarrow> groom \<Rightarrow> group_effect list \<times> groom" where
  "group_handler cfg now topic raw sender r =
     (if go_stopped r \<or> topic \<notin> set (go_live r) then ([], r)
      else case origin (gc_text cfg) raw sender of
          None \<Rightarrow> ([], r)
        | Some (_, data) \<Rightarrow>
            if data = KEEPALIVE then ([], r)
            else (case greceive (gc_genv cfg) (gc_ident cfg) now data (go_session r) of
                ((opened, ask), s) \<Rightarrow>
                  (case ask_key now ask (r\<lparr>go_session := s\<rparr>) of
                     (es, r1) \<Rightarrow> (es @ (case opened of None \<Rightarrow> [] | Some m \<Rightarrow> deliver_env cfg m r1), r1))))"

text \<open>A sender key comes in through the manager; what the session held for it is delivered.\<close>

definition key_arrives :: "groom_cfg \<Rightarrow> int \<Rightarrow> jstr \<Rightarrow> bytes \<Rightarrow> nat \<Rightarrow> groom \<Rightarrow> group_effect list \<times> groom" where
  "key_arrives cfg now pub key ctr r =
     (case setSenderKey (gc_genv cfg) (gc_ident cfg) now pub key ctr (go_session r) of
        (opened, s) \<Rightarrow> (concat (map (\<lambda>m. deliver_env cfg m r) opened), r\<lparr>go_session := s\<rparr>))"

subsection \<open>Going out\<close>

definition keepalive :: "groom \<Rightarrow> group_effect list" where
  "keepalive r = (if go_stopped r then [] else map GKeepalive (go_live r))"

text \<open>\<open>None\<close> is a publish that failed, which the caller sees: the chain has moved on all the same.\<close>

definition broadcast :: "groom_cfg \<Rightarrow> int \<Rightarrow> bool \<Rightarrow> bytes \<Rightarrow> groom \<Rightarrow> group_effect list option \<times> groom" where
  "broadcast cfg now published b r =
     (case gsend (gc_genv cfg) (gc_ident cfg) b (go_session r) of
        (frame, s) \<Rightarrow>
          (case wrap (gc_me cfg) frame of
             None \<Rightarrow> (None, r\<lparr>go_session := s\<rparr>)
           | Some wire \<Rightarrow>
               if published
               then (Some (GPublish (go_primary r) wire
                   # (if now - go_joinedAt r < FRESH_MS then map (GRepeatLater (go_primary r) wire) REPEAT_MS else [])),
                 r\<lparr>go_session := s\<rparr>)
               else (None, r\<lparr>go_session := s\<rparr>)))"

text \<open>A repeat whose time has come.\<close>

definition repeat_due :: "jstr \<Rightarrow> bytes \<Rightarrow> groom \<Rightarrow> group_effect list" where
  "repeat_due topic wire r = (if go_stopped r then [] else [GPublish topic wire])"

definition group_base :: "int \<Rightarrow> jstr \<Rightarrow> groom \<Rightarrow> env_base" where
  "group_base now i r = \<lparr>eb_id = i, eb_ts = now, eb_seq = go_seq r\<rparr>"

definition group_say :: "groom_cfg \<Rightarrow> int \<Rightarrow> bool \<Rightarrow> jstr \<Rightarrow> content \<Rightarrow> groom \<Rightarrow> group_effect list option \<times> groom" where
  "group_say cfg now published i c r =
     broadcast cfg now published (encodeEnvelope (tx_js (gc_text cfg)) (envelope_of (group_base now i r) c)) (r\<lparr>go_seq := go_seq r + 1\<rparr>)"

definition group_sendText where "group_sendText cfg now published i body re = group_say cfg now published i (CMsg body re)"
definition group_sendFile where "group_sendFile cfg now published i f = group_say cfg now published i (CFile f)"
definition group_sendReaction where "group_sendReaction cfg now published i to emoji = group_say cfg now published i (CReaction to emoji)"

text \<open>A new day's topic is derived in between: then what is live is asserted first.\<close>

definition group_refresh :: "groom_cfg \<Rightarrow> int \<Rightarrow> groom \<Rightarrow> group_effect list \<times> groom" where
  "group_refresh cfg now r =
     (if go_stopped r then ([], r)
      else case syncTopics cfg now r of
        (es, r') \<Rightarrow>
          ((if list_all (jm_has (go_byDate r)) (jm_keys (go_byDate r')) then es @ map GSubscribe (go_live r')
            else map GSubscribe (go_live r) @ es)
           @ [GBurstLater 0, GBurstLater 800, GBurstLater 2000], r'))"

definition group_stop :: "groom \<Rightarrow> group_effect list \<times> groom" where
  "group_stop r = (map GUnsubscribe (go_live r), r\<lparr>go_stopped := True, go_live := [], go_byDate := []\<rparr>)"

subsection \<open>Which topics are live\<close>

definition topics_ok :: "groom_cfg \<Rightarrow> groom \<Rightarrow> bool" where
  "topics_ok cfg r \<longleftrightarrow> jm_inv (go_byDate r)
     \<and> (\<forall>d t. jm_get (go_byDate r) d = Some t \<longrightarrow> topicFor cfg (go_session r) d = t \<and> t \<in> set (go_live r))"

lemma open_days_keeps:
  "go_session (snd (open_days cfg ds r)) = go_session r" "go_stopped (snd (open_days cfg ds r)) = go_stopped r"
  "go_seq (snd (open_days cfg ds r)) = go_seq r" "go_joinedAt (snd (open_days cfg ds r)) = go_joinedAt r"
  by (induction ds arbitrary: r) (simp_all add: Let_def split_beta)

lemma topics_ok_open:
  assumes "topics_ok cfg r"
  shows "topics_ok cfg (r\<lparr>go_byDate := jm_set d (topicFor cfg (go_session r) d) (go_byDate r),
      go_live := List.insert (topicFor cfg (go_session r) d) (go_live r)\<rparr>)"
  unfolding topics_ok_def
proof (intro conjI allI impI)
  fix e t
  assume "jm_get (go_byDate (r\<lparr>go_byDate := jm_set d (topicFor cfg (go_session r) d) (go_byDate r),
      go_live := List.insert (topicFor cfg (go_session r) d) (go_live r)\<rparr>)) e = Some t"
  then have "jm_get (jm_set d (topicFor cfg (go_session r) d) (go_byDate r)) e = Some t" by simp
  then show "topicFor cfg (go_session (r\<lparr>go_byDate := jm_set d (topicFor cfg (go_session r) d) (go_byDate r),
      go_live := List.insert (topicFor cfg (go_session r) d) (go_live r)\<rparr>)) e = t"
    and "t \<in> set (go_live (r\<lparr>go_byDate := jm_set d (topicFor cfg (go_session r) d) (go_byDate r),
      go_live := List.insert (topicFor cfg (go_session r) d) (go_live r)\<rparr>))"
    using assms by (cases "e = d"; simp add: topics_ok_def)+
qed (use assms in \<open>simp add: topics_ok_def\<close>)

lemma open_days_ok:
  "topics_ok cfg r \<Longrightarrow> topics_ok cfg (snd (open_days cfg ds r))
    \<and> set (jm_keys (go_byDate (snd (open_days cfg ds r)))) = set (jm_keys (go_byDate r)) \<union> set ds"
proof (induction ds arbitrary: r)
  case (Cons d ds)
  show ?case using Cons.IH [OF topics_ok_open [OF Cons.prems, of d]] Cons.IH [OF Cons.prems]
    by (auto simp: Let_def split_beta jm_keys_set jm_has_iff)
qed simp

lemma retire_all: "set (jm_keys (go_byDate r)) \<subseteq> set dates \<Longrightarrow> snd (retire_days dates r) = r"
  by (auto simp: retire_days_def Let_def jm_keys_def subset_iff filter_id_conv)

text \<open>A room that has just joined has exactly the active days' topics, and sends on the current one.\<close>

lemma joined_topics:
  assumes "activeDatesForOffset now (rotationOffsetMs cfg s) (gc_guard cfg) = Some dates" "dates \<noteq> []"
  defines "r \<equiv> snd (joinGroup cfg now s)"
  shows "go_session r = s" "\<not> go_stopped r" "go_seq r = 0" "go_primary r = topicFor cfg s (hd dates)" "go_joinedAt r = now"
    "\<forall>d\<in>set dates. topicFor cfg s d \<in> set (go_live r)"
proof -
  define r0 where "r0 = \<lparr>go_session = s, go_byDate = [], go_live = [], go_primary = [], go_seq = 0, go_stopped = False,
    go_joinedAt = now, go_lastAsk = []\<rparr>"
  define r1 where "r1 = snd (open_days cfg dates r0)"
  have ok: "topics_ok cfg r1" "set (jm_keys (go_byDate r1)) = set dates"
    using open_days_ok [of cfg r0 dates] by (simp_all add: r1_def topics_ok_def r0_def jm_keys_def)
  have g: "\<exists>t. jm_get (go_byDate r1) d = Some t \<and> topicFor cfg s d = t \<and> t \<in> set (go_live r1)" if "d \<in> set dates" for d
  proof -
    have "jm_get (go_byDate r1) d \<noteq> None" using that ok(2) by (simp add: jm_get_None_iff)
    then obtain t where t: "jm_get (go_byDate r1) d = Some t" by blast
    have "go_session r1 = s" using open_days_keeps(1) [of cfg dates r0] by (simp add: r1_def r0_def)
    then show ?thesis using ok(1) t by (auto simp: topics_ok_def)
  qed
  have r: "r = r1\<lparr>go_primary := (case jm_get (go_byDate r1) (hd dates) of None \<Rightarrow> [] | Some t \<Rightarrow> t)\<rparr>"
  proof -
    obtain es where o: "open_days cfg dates r0 = (es, r1)" by (simp add: r1_def prod_eq_iff)
    obtain es' where d: "retire_days dates r1 = (es', r1)" using retire_all [of r1 dates] ok(2) by (metis order_refl prod.collapse)
    have "go_stopped r0 = False" "go_session r0 = s" by (simp_all add: r0_def)
    then have "syncTopics cfg now r0 = (es @ es', r1\<lparr>go_primary := (case jm_get (go_byDate r1) (hd dates) of None \<Rightarrow> [] | Some t \<Rightarrow> t)\<rparr>)"
      unfolding syncTopics_def using assms(1) o d by simp
    then show ?thesis by (simp add: r_def joinGroup_def r0_def [symmetric])
  qed
  have k: "go_session r1 = s" "\<not> go_stopped r1" "go_seq r1 = 0" "go_joinedAt r1 = now"
    using open_days_keeps [of cfg dates r0] by (simp_all add: r1_def r0_def)
  show "go_session r = s" "\<not> go_stopped r" "go_seq r = 0" "go_primary r = topicFor cfg s (hd dates)" "go_joinedAt r = now"
    "\<forall>d\<in>set dates. topicFor cfg s d \<in> set (go_live r)"
    using k g g [of "hd dates"] assms(2) by (auto simp: r)
qed

subsection \<open>A message through two rooms\<close>

lemma gsend_not_keepalive: "fst (gsend E i pt s) \<noteq> KEEPALIVE"
  by (simp add: gsend_def Let_def gframe_def KEEPALIVE_def split: prod.split)

text \<open>What two rooms share: the group, the network, the guard, and how JSON is read.\<close>

definition same_place :: "groom_cfg \<Rightarrow> groom_cfg \<Rightarrow> bool" where
  "same_place cA cB \<longleftrightarrow> ge_C (gc_genv cA) = ge_C (gc_genv cB) \<and> gc_params cA = gc_params cB \<and> gc_guard cA = gc_guard cB
     \<and> tx_js (gc_text cA) = tx_js (gc_text cB)"

lemma room_carries:
  assumes place: "same_place cA cB" "gs_secret sA = gs_secret sB"
    and clocks: "2 * DAY_MS \<le> ta" "ta + DAY_MS < 253402300800000" "2 * DAY_MS \<le> tb" "tb + DAY_MS < 253402300800000"
      "\<bar>ta - tb\<bar> \<le> gc_guard cA" "gc_guard cA < DAY_MS"
    and me: "utf8 (gc_me cA) \<noteq> []" "length (utf8 (gc_me cA)) \<le> MAX_FROM" "tx_decode (gc_text cB) (utf8 (gc_me cA)) = gc_me cA"
    and env: "quote_fits re" "js_parse (tx_js (gc_text cA)) (js_stringify (tx_js (gc_text cA)) m) = Some m"
      "m = envMsg \<lparr>eb_id = i, eb_ts = ta, eb_seq = 0\<rparr> body re" "pt = encodeEnvelope (tx_js (gc_text cA)) m"
    and read: "fst (greceive (gc_genv cB) (gc_ident cB) tb (fst (gsend (gc_genv cA) (gc_ident cA) pt sA)) sB)
      = (Some \<lparr>rv_from = p, rv_pt = pt\<rparr>, k)"
  shows "\<exists>es rA topic wire. group_sendText cA ta True i body re (snd (joinGroup cA ta sA)) = (Some es, rA)
    \<and> GPublish topic wire \<in> set es \<and> GMessage p m \<in> set (fst (group_handler cB tb topic wire sender (snd (joinGroup cB tb sB))))"
proof -
  have off: "rotationOffsetMs cA sA = rotationOffsetMs cB sB" and top: "topicFor cA sA = topicFor cB sB" and g: "gc_guard cB = gc_guard cA"
    using place by (simp_all add: same_place_def rotationOffsetMs_def topicFor_def fun_eq_iff)
  let ?o = "rotationOffsetMs cB sB"
  have o: "0 \<le> ?o" "?o < DAY_MS"
    using rotationOffsetSec_lt [of "ge_C (gc_genv cB)" "gs_secret sB" "gc_params cB"] by (simp_all add: rotationOffsetMs_def DAY_MS_def)
  have dt: "dated (ta - ?o)" "dated (tb - ?o)" using clocks(1-4) o unfolding dated_def by linarith+
  from clocks_meet [OF dt clocks(5,6), unfolded days_shared_def]
  obtain da db A B where d: "rendezvousDay ta ?o = Some da" "activeDatesForOffset ta ?o (gc_guard cA) = Some A"
      "activeDatesForOffset tb ?o (gc_guard cA) = Some B" "da \<in> set B"
    by (elim exE conjE) simp
  obtain A' where A: "A = da # A'" using active_dates [OF dt(1), of "gc_guard cA"] d(1,2) by (metis option.inject)
  let ?rA = "snd (joinGroup cA ta sA)" and ?rB = "snd (joinGroup cB tb sB)"
  note jA = joined_topics [of ta cA sA A, unfolded off, OF d(2)] and jB = joined_topics [of tb cB sB B, unfolded g, OF d(3)]
  have A0: "A \<noteq> []" "hd A = da" using A by simp_all
  have B0: "B \<noteq> []" using d(4) by auto
  have primary: "go_primary ?rA = topicFor cB sB da" using jA(4) [OF A0(1)] A0(2) top by simp
  have live: "topicFor cB sB da \<in> set (go_live ?rB)" using jB(6) [OF B0] d(4) by blast
  obtain frame sA' where f: "gsend (gc_genv cA) (gc_ident cA) pt sA = (frame, sA')" by force
  obtain wire where w: "wrap (gc_me cA) frame = Some wire" using me(1,2) by (simp add: wrap_def Let_def)
  have base: "group_base ta i ?rA = \<lparr>eb_id = i, eb_ts = ta, eb_seq = 0\<rparr>" using jA(3) [OF A0(1)] by (simp add: group_base_def)
  have "\<exists>es rA. group_sendText cA ta True i body re ?rA = (Some es, rA) \<and> GPublish (topicFor cB sB da) wire \<in> set es"
    using f w primary jA(1) [OF A0(1)] env(3,4)
    by (simp add: group_sendText_def group_say_def broadcast_def base envelope_of_def)
  moreover have "GMessage p m \<in> set (fst (group_handler cB tb (topicFor cB sB da) wire sender ?rB))"
  proof -
    have o: "origin (gc_text cB) wire sender = Some (gc_me cA, frame)" using origin_wrap [OF w me(3)] .
    have k: "frame \<noteq> KEEPALIVE" using gsend_not_keepalive [of "gc_genv cA" "gc_ident cA" pt sA] f by simp
    obtain sB' where r: "greceive (gc_genv cB) (gc_ident cB) tb frame sB = ((Some \<lparr>rv_from = p, rv_pt = pt\<rparr>, k), sB')"
      using read f by (metis fst_conv prod.collapse)
    have dec: "decodeEnvelope (tx_js (gc_text cB)) pt = Some m"
      using decode_envelope_of [of "CMsg body re" "\<lparr>eb_id = i, eb_ts = ta, eb_seq = 0\<rparr>"] env place(1)
      by (simp add: same_place_def decodeEnvelope_def encodeEnvelope_def envelope_of_def sendable_def)
    have t: "field m ''t'' = Some (JStr (js ''msg''))" using env(3) by (simp add: envMsg_def base_def)
    obtain es r1 where a: "ask_key tb k (?rB\<lparr>go_session := sB'\<rparr>) = (es, r1)" by force
    have "go_stopped r1 = False" using a jB(2) [OF B0] by (auto simp: ask_key_def split: option.splits if_splits)
    then have "GMessage p m \<in> set (deliver_env cB \<lparr>rv_from = p, rv_pt = pt\<rparr> r1)" by (simp add: deliver_env_def dec t)
    then show ?thesis using live jB(1,2) [OF B0] o k r a by (simp add: group_handler_def)
  qed
  ultimately show ?thesis by blast
qed

lemma taken_and_read:
  assumes "jm_get (gm_recs ga) gid = Some r" "rec_ok E gid r" "gr_gk r = Some gk"
    and made: "create_session E a fa gid (gr_epoch r) (gr_secret r) (gr_roster r) = Inr s0" "same_group s0 (gr_session r)"
    and "id_pub j \<in> set (map mb_pub (gr_roster r))" "roster_ok E (map mb_pub (gr_roster r))"
      "hd (map mb_pub (gr_roster r)) = id_pub a" "id_pub a \<noteq> id_pub j" "id_pub j \<noteq> []"
    and "gk_agree E gk (gr_gkPub r) j" "mac_agree a j" "b64_reads E" "crypto_lengths (ge_C E)" "aead_opens (ge_C E)"
    and "\<forall>v. view gj gid = Some v \<longrightarrow> fst v < gr_epoch r \<and> first_pub v = Some (id_pub a)"
    and "gr_epoch r < 2 ^ 32" "sc_n (gs_send (gr_session r)) < 2 ^ 32" "1 \<le> ro_maxSkip (ge_opts E)" "0 \<le> ro_ttlMs (ge_opts E)"
  shows "\<exists>skd gj' sj k. skdFor E gid (Some (id_pub j)) ga = Some skd
     \<and> applySkd E j fresh now (id_pub a) skd gj = (Inr (if view gj gid = None then Joined else Rekeyed, []), gj')
     \<and> session gj' gid = Some sj \<and> gs_secret (gr_session r) = gs_secret sj
     \<and> fst (greceive E j t (fst (gsend E a pt (gr_session r))) sj) = (Some \<lparr>rv_from = id_pub a, rv_pt = pt\<rparr>, k)"
proof -
  obtain skd gj' sj where b: "skdFor E gid (Some (id_pub j)) ga = Some skd"
      "applySkd E j fresh now (id_pub a) skd gj = (Inr (if view gj gid = None then Joined else Rekeyed, []), gj')"
      "session gj' gid = Some sj"
    and r: "fst (greceive_all E j [(fst (gsend_all E a [pt] (gr_session r)) ! 0, t)] sj) = [Some \<lparr>rv_from = id_pub a, rv_pt = pt\<rparr>]"
    using broadcast_reads [OF assms(1-17), of "[pt]" "[(0, t)]" t fresh now] assms(18-20) by auto
  obtain skd2 s gj2 where t: "skdFor E gid (Some (id_pub j)) ga = Some skd2"
      "applySkd E j fresh now (id_pub a) skd2 gj = (Inr (if view gj gid = None then Joined else Rekeyed, []), gj2)"
      "create_session E j fresh gid (gr_epoch r) (gr_secret r) (map (\<lambda>p. \<lparr>mb_pub = p, mb_kid = None\<rparr>) (map mb_pub (gr_roster r))) = Inr s"
      "session gj2 gid = Some (s\<lparr>gs_receivers := [(id_pub a, receiver_from (sc_key (gs_send (gr_session r))) (sc_n (gs_send (gr_session r))))]\<rparr>)"
    using skdFor_taken [OF assms(1,2,3,10,6,7,8,9,11,13,14,16), of fresh now] by blast
  have "skd2 = skd" "gj2 = gj'" using b t(1,2) by auto
  then have "gs_secret sj = gr_secret r" using b(3) t(4) create_session_fields(3) [OF t(3)] by simp
  moreover have "gs_secret (gr_session r) = gr_secret r" using made create_session_fields(3) [OF made(1)] by (simp add: same_group_def)
  moreover have "fst (fst (greceive E j t (fst (gsend E a pt (gr_session r))) sj)) = Some \<lparr>rv_from = id_pub a, rv_pt = pt\<rparr>"
    using r by (simp add: split_beta)
  ultimately show ?thesis using b by (metis prod.collapse)
qed

text \<open>
  C8: what is said in a group is shown. A member takes the admin's distribution, both open the
  group's room, with clocks that differ by at most the guard, and what the admin then sends is
  published on a topic that is live in the member's room and shown there, as from the admin.
\<close>
theorem group_message_shown:
  assumes "jm_get (gm_recs ga) gid = Some r" "rec_ok E gid r" "gr_gk r = Some gk"
    and "create_session E a fa gid (gr_epoch r) (gr_secret r) (gr_roster r) = Inr s0" "same_group s0 (gr_session r)"
    and "id_pub j \<in> set (map mb_pub (gr_roster r))" "roster_ok E (map mb_pub (gr_roster r))"
      "hd (map mb_pub (gr_roster r)) = id_pub a" "id_pub a \<noteq> id_pub j" "id_pub j \<noteq> []"
    and "gk_agree E gk (gr_gkPub r) j" "mac_agree a j" "b64_reads E" "crypto_lengths (ge_C E)" "aead_opens (ge_C E)"
    and "\<forall>v. view gj gid = Some v \<longrightarrow> fst v < gr_epoch r \<and> first_pub v = Some (id_pub a)"
    and "gr_epoch r < 2 ^ 32" "sc_n (gs_send (gr_session r)) < 2 ^ 32" "1 \<le> ro_maxSkip (ge_opts E)" "0 \<le> ro_ttlMs (ge_opts E)"
    and "gc_genv cA = E" "gc_ident cA = a" "gc_genv cB = E" "gc_ident cB = j" "same_place cA cB"
    and "2 * DAY_MS \<le> ta" "ta + DAY_MS < 253402300800000" "2 * DAY_MS \<le> tb" "tb + DAY_MS < 253402300800000"
      "\<bar>ta - tb\<bar> \<le> gc_guard cA" "gc_guard cA < DAY_MS"
    and "utf8 (gc_me cA) \<noteq> []" "length (utf8 (gc_me cA)) \<le> MAX_FROM" "tx_decode (gc_text cB) (utf8 (gc_me cA)) = gc_me cA"
    and "quote_fits re" "js_parse (tx_js (gc_text cA)) (js_stringify (tx_js (gc_text cA)) m) = Some m"
      "m = envMsg \<lparr>eb_id = i, eb_ts = ta, eb_seq = 0\<rparr> body re"
  shows "\<exists>skd gj' sj es rA topic wire. skdFor E gid (Some (id_pub j)) ga = Some skd
    \<and> applySkd E j fresh now (id_pub a) skd gj = (Inr (if view gj gid = None then Joined else Rekeyed, []), gj')
    \<and> session gj' gid = Some sj
    \<and> group_sendText cA ta True i body re (snd (joinGroup cA ta (gr_session r))) = (Some es, rA)
    \<and> GPublish topic wire \<in> set es
    \<and> GMessage (id_pub a) m \<in> set (fst (group_handler cB tb topic wire sender (snd (joinGroup cB tb sj))))"
proof -
  obtain skd gj' sj k where s: "skdFor E gid (Some (id_pub j)) ga = Some skd"
      "applySkd E j fresh now (id_pub a) skd gj = (Inr (if view gj gid = None then Joined else Rekeyed, []), gj')"
      "session gj' gid = Some sj" "gs_secret (gr_session r) = gs_secret sj"
      "fst (greceive E j tb (fst (gsend E a (encodeEnvelope (tx_js (gc_text cA)) m) (gr_session r))) sj)
        = (Some \<lparr>rv_from = id_pub a, rv_pt = encodeEnvelope (tx_js (gc_text cA)) m\<rparr>, k)"
    using taken_and_read [OF assms(1-20)] by blast
  from room_carries [OF assms(25) s(4) assms(26-37) refl, of "id_pub a" k sender] s(5) assms(21-24)
  obtain es rA topic wire where "group_sendText cA ta True i body re (snd (joinGroup cA ta (gr_session r))) = (Some es, rA)"
      "GPublish topic wire \<in> set es" "GMessage (id_pub a) m \<in> set (fst (group_handler cB tb topic wire sender (snd (joinGroup cB tb sj))))"
    by auto
  with s(1-3) show ?thesis by blast
qed

definition demo_room_cfg :: "16 word \<Rightarrow> json \<Rightarrow> groom_cfg" where
  "demo_room_cfg p m = \<lparr>gc_genv = demo_genv, gc_ident = demo_ident p, gc_text = demo_text m, gc_me = [p],
     gc_params = \<lparr>rv_networkId = [], rv_dateUTC = []\<rparr>, gc_guard = OVERLAP_MS\<rparr>"

definition demo_said :: json where
  "demo_said = envMsg \<lparr>eb_id = [5], eb_ts = 1700000000000, eb_seq = 0\<rparr> [72, 105] None"

theorem group_message_shown_witness:
  "\<exists>skd gj' sj es rA topic wire. skdFor demo_genv demo_gid (Some [2]) demo_admin = Some skd
    \<and> applySkd demo_genv (demo_ident 2) [9] 0 [1] skd no_groups = (Inr (Joined, []), gj') \<and> session gj' demo_gid = Some sj
    \<and> group_sendText (demo_room_cfg 1 demo_said) 1700000000000 True [5] [72, 105] None
        (snd (joinGroup (demo_room_cfg 1 demo_said) 1700000000000 (demo_session 1))) = (Some es, rA)
    \<and> GPublish topic wire \<in> set es
    \<and> GMessage [1] demo_said \<in> set (fst (group_handler (demo_room_cfg 2 demo_said) 1700000900000 topic wire None
        (snd (joinGroup (demo_room_cfg 2 demo_said) 1700000900000 sj))))"
proof -
  have v: "view no_groups demo_gid = None" by (simp add: view_def no_groups_def)
  have made: "create_session demo_genv (demo_ident 1) [7] demo_gid 0 [3] demo_members = Inr (demo_session 1)"
    by (rule demo_session_created) simp
  note f = create_session_fields [OF made]
  have r: "jm_get (gm_recs demo_admin) demo_gid = Some demo_rec" "rec_ok demo_genv demo_gid demo_rec" "gr_gk demo_rec = Some demo_gk"
    using f by (simp_all add: demo_admin_def demo_rec_def rec_ok_def demo_gid_def demo_genv_def)
  have c: "create_session demo_genv (demo_ident 1) [7] demo_gid (gr_epoch demo_rec) (gr_secret demo_rec) (gr_roster demo_rec)
      = Inr (demo_session 1)" using made by (simp add: demo_rec_def)
  have s: "gr_session demo_rec = demo_session 1" by (simp add: demo_rec_def)
  have "\<exists>skd gj' sj es rA topic wire. skdFor demo_genv demo_gid (Some (id_pub (demo_ident 2))) demo_admin = Some skd
    \<and> applySkd demo_genv (demo_ident 2) [9] 0 (id_pub (demo_ident 1)) skd no_groups
      = (Inr (if view no_groups demo_gid = None then Joined else Rekeyed, []), gj') \<and> session gj' demo_gid = Some sj
    \<and> group_sendText (demo_room_cfg 1 demo_said) 1700000000000 True [5] [72, 105] None
        (snd (joinGroup (demo_room_cfg 1 demo_said) 1700000000000 (gr_session demo_rec))) = (Some es, rA)
    \<and> GPublish topic wire \<in> set es
    \<and> GMessage (id_pub (demo_ident 1)) demo_said \<in> set (fst (group_handler (demo_room_cfg 2 demo_said) 1700000900000 topic wire None
        (snd (joinGroup (demo_room_cfg 2 demo_said) 1700000900000 sj))))"
    by (rule group_message_shown [OF r c])
      (use demo_roster_ok f v in \<open>simp_all add: demo_laws demo_pub demo_rec_def demo_members_def demo_room_cfg_def same_place_def
         demo_text_def quote_fits_def DAY_MS_def OVERLAP_MS_def MAX_FROM_def utf8_point_def high_surrogate_def low_surrogate_def,
       simp_all add: demo_said_def sendChainFrom_def demo_genv_def default_receiver_opts_def GROUP_MAX_SKIP_def GROUP_SKIPPED_TTL_MS_def\<close>)
  then show ?thesis by (simp add: demo_pub v s)
qed

end
