(* ===== verification/Utf8.thy ===== *)
theory Utf8
  imports JsText
begin

section \<open>Reading UTF-8 back: TextDecoder\<close>

text \<open>
  \<open>TextDecoder.decode\<close> as the platform specifies it: a state of bytes still needed, the code
  point so far and the bounds of the next byte. A byte that does not fit becomes U+FFFD and is
  read again as a first byte; a leading byte order mark is dropped. \<open>utf8_text_utf8\<close> is the
  round trip for text without lone surrogates.
\<close>

record u8_state =
  u8_need :: nat
  u8_point :: nat
  u8_lo :: nat
  u8_hi :: nat

definition u8_start :: u8_state where
  "u8_start = \<lparr>u8_need = 0, u8_point = 0, u8_lo = 0x80, u8_hi = 0xBF\<rparr>"

definition units_of :: "nat \<Rightarrow> jstr" where
  "units_of c = (if c < 0x10000 then [word_of_nat c]
     else [word_of_nat (0xD800 + (c - 0x10000) div 1024), word_of_nat (0xDC00 + (c - 0x10000) mod 1024)])"

text \<open>A first byte: what it writes at once, and what it waits for.\<close>

definition u8_lead :: "nat \<Rightarrow> jstr \<times> u8_state" where
  "u8_lead b =
     (if b < 0x80 then (units_of b, u8_start)
      else if 0xC2 \<le> b \<and> b \<le> 0xDF then ([], u8_start\<lparr>u8_need := 1, u8_point := b - 0xC0\<rparr>)
      else if 0xE0 \<le> b \<and> b \<le> 0xEF then
        ([], \<lparr>u8_need = 2, u8_point = b - 0xE0, u8_lo = if b = 0xE0 then 0xA0 else 0x80, u8_hi = if b = 0xED then 0x9F else 0xBF\<rparr>)
      else if 0xF0 \<le> b \<and> b \<le> 0xF4 then
        ([], \<lparr>u8_need = 3, u8_point = b - 0xF0, u8_lo = if b = 0xF0 then 0x90 else 0x80, u8_hi = if b = 0xF4 then 0x8F else 0xBF\<rparr>)
      else ([0xFFFD], u8_start))"

definition u8_byte :: "u8_state \<Rightarrow> nat \<Rightarrow> jstr \<times> u8_state" where
  "u8_byte s b =
     (if u8_need s = 0 then u8_lead b
      else if b < u8_lo s \<or> u8_hi s < b then (case u8_lead b of (out, s') \<Rightarrow> (0xFFFD # out, s'))
      else let c = u8_point s * 64 + (b - 0x80) in
        if u8_need s = 1 then (units_of c, u8_start)
        else ([], u8_start\<lparr>u8_need := u8_need s - 1, u8_point := c\<rparr>))"

fun u8_run :: "u8_state \<Rightarrow> bytes \<Rightarrow> jstr" where
  "u8_run s [] = (if u8_need s = 0 then [] else [0xFFFD])"
| "u8_run s (b # bs) = (case u8_byte s (unat b) of (out, s') \<Rightarrow> out @ u8_run s' bs)"

definition utf8_text :: "bytes \<Rightarrow> jstr" where
  "utf8_text bs = (let t = u8_run u8_start bs in if t \<noteq> [] \<and> hd t = 0xFEFF then tl t else t)"

text \<open>Text as a well-formed string has it: no surrogate but in a pair, and no byte order mark first.\<close>

fun paired :: "jstr \<Rightarrow> bool" where
  "paired [] = True"
| "paired [u] = (\<not> high_surrogate (unat u) \<and> \<not> low_surrogate (unat u))"
| "paired (u # v # us) =
     (if high_surrogate (unat u) then low_surrogate (unat v) \<and> paired us
      else \<not> low_surrogate (unat u) \<and> paired (v # us))"

definition plain_text :: "jstr \<Rightarrow> bool" where
  "plain_text s = (paired s \<and> (s = [] \<or> hd s \<noteq> 0xFEFF))"

subsection \<open>Lemmas\<close>

lemma split64:
  assumes "n < 64 * (k :: nat)"
  obtains x e where "n = x * 64 + e" "x < k" "e < 64" "n div 64 = x" "n mod 64 = e"
proof (rule that)
  show "n = n div 64 * 64 + n mod 64" by simp
  show "n div 64 < k" using assms by (simp add: less_mult_imp_div_less)
  show "n mod 64 < 64" by simp
qed (rule refl)+

lemma unat_byte_small: "n < 256 \<Longrightarrow> unat (word_of_nat n :: byte) = n"
  by (simp add: unat_byte_of_nat)

lemma u8_two:
  assumes "unat x = 0xC0 + a" "unat y = 0x80 + b" "2 \<le> a" "a < 32" "b < 64"
  shows "u8_run u8_start (x # y # bs) = units_of (a * 64 + b) @ u8_run u8_start bs"
proof -
  have "u8_lead (0xC0 + a) = ([], u8_start\<lparr>u8_need := 1, u8_point := a\<rparr>)" using assms by (simp add: u8_lead_def)
  with assms show ?thesis by (simp add: u8_byte_def u8_start_def)
qed

lemma u8_three:
  assumes "unat x = 0xE0 + a" "unat y = 0x80 + b" "unat z = 0x80 + e"
    and "a < 16" "b < 64" "e < 64" "a = 0 \<Longrightarrow> 32 \<le> b" "a = 13 \<Longrightarrow> b < 32"
  shows "u8_run u8_start (x # y # z # bs) = units_of ((a * 64 + b) * 64 + e) @ u8_run u8_start bs"
proof -
  have l: "u8_lead (0xE0 + a) = ([], \<lparr>u8_need = 2, u8_point = a, u8_lo = if a = 0 then 0xA0 else 0x80, u8_hi = if a = 13 then 0x9F else 0xBF\<rparr>)"
    using assms(4) by (simp add: u8_lead_def)
  have "u8_byte u8_start (unat x) = u8_lead (0xE0 + a)" by (simp add: u8_byte_def u8_start_def assms(1))
  moreover have "u8_byte (snd (u8_lead (0xE0 + a))) (unat y) = ([], u8_start\<lparr>u8_need := 1, u8_point := a * 64 + b\<rparr>)"
    using assms(2,5,7,8) by (auto simp: l u8_byte_def)
  moreover have "u8_byte (u8_start\<lparr>u8_need := 1, u8_point := a * 64 + b\<rparr>) (unat z) = (units_of ((a * 64 + b) * 64 + e), u8_start)"
    using assms(3,6) by (simp add: u8_byte_def u8_start_def)
  ultimately show ?thesis by (simp add: l)
qed

lemma u8_four:
  assumes "unat x = 0xF0 + a" "unat y = 0x80 + b" "unat z = 0x80 + e" "unat w = 0x80 + f"
    and "a < 5" "b < 64" "e < 64" "f < 64" "a = 0 \<Longrightarrow> 16 \<le> b" "a = 4 \<Longrightarrow> b < 16"
  shows "u8_run u8_start (x # y # z # w # bs) = units_of (((a * 64 + b) * 64 + e) * 64 + f) @ u8_run u8_start bs"
proof -
  have l: "u8_lead (0xF0 + a) = ([], \<lparr>u8_need = 3, u8_point = a, u8_lo = if a = 0 then 0x90 else 0x80, u8_hi = if a = 4 then 0x8F else 0xBF\<rparr>)"
    using assms(5) by (simp add: u8_lead_def)
  have "u8_byte u8_start (unat x) = u8_lead (0xF0 + a)" by (simp add: u8_byte_def u8_start_def assms(1))
  moreover have "u8_byte (snd (u8_lead (0xF0 + a))) (unat y) = ([], u8_start\<lparr>u8_need := 2, u8_point := a * 64 + b\<rparr>)"
    using assms(2,6,9,10) by (auto simp: l u8_byte_def)
  moreover have "u8_byte (u8_start\<lparr>u8_need := 2, u8_point := a * 64 + b\<rparr>) (unat z)
      = ([], u8_start\<lparr>u8_need := 1, u8_point := (a * 64 + b) * 64 + e\<rparr>)"
    using assms(3,7) by (simp add: u8_byte_def u8_start_def)
  moreover have "u8_byte (u8_start\<lparr>u8_need := 1, u8_point := (a * 64 + b) * 64 + e\<rparr>) (unat w)
      = (units_of (((a * 64 + b) * 64 + e) * 64 + f), u8_start)"
    using assms(4,8) by (simp add: u8_byte_def u8_start_def)
  ultimately show ?thesis by (simp add: l)
qed

lemma u8_point1:
  assumes "c < 0x80"
  shows "u8_run u8_start (utf8_point c @ bs) = units_of c @ u8_run u8_start bs"
proof -
  have "u8_lead c = (units_of c, u8_start)" using assms by (simp add: u8_lead_def)
  moreover have "unat (word_of_nat c :: byte) = c" using assms by (intro unat_byte_small) simp
  ultimately show ?thesis using assms by (simp add: utf8_point_def u8_byte_def u8_start_def)
qed

lemma u8_point2:
  assumes "0x80 \<le> c" "c < 0x800"
  shows "u8_run u8_start (utf8_point c @ bs) = units_of c @ u8_run u8_start bs"
proof -
  obtain a b where ab: "c = a * 64 + b" "a < 32" "b < 64" "c div 64 = a" "c mod 64 = b"
    by (rule split64 [of c 32]) (use assms in auto)
  have a: "2 \<le> a" using ab(1,3) assms(1) by simp
  have "utf8_point c = [word_of_nat (0xC0 + a), word_of_nat (0x80 + b)]"
    unfolding utf8_point_def ab(4,5) using assms by (simp del: of_nat_add)
  moreover have "unat (word_of_nat (0xC0 + a) :: byte) = 0xC0 + a" "unat (word_of_nat (0x80 + b) :: byte) = 0x80 + b"
    using ab(2,3) by (intro unat_byte_small; simp)+
  ultimately show ?thesis using u8_two [OF _ _ a ab(2,3), of _ _ bs] ab(1) by (simp del: of_nat_add u8_run.simps)
qed

lemma u8_point3:
  assumes "0x800 \<le> c" "c < 0x10000" "\<not> high_surrogate c" "\<not> low_surrogate c"
  shows "u8_run u8_start (utf8_point c @ bs) = units_of c @ u8_run u8_start bs"
proof -
  obtain x e where xe: "c = x * 64 + e" "x < 1024" "e < 64" "c div 64 = x" "c mod 64 = e"
    by (rule split64 [of c 1024]) (use assms in auto)
  obtain a b where ab: "x = a * 64 + b" "a < 16" "b < 64" "x div 64 = a" "x mod 64 = b"
    by (rule split64 [of x 16]) (use xe in auto)
  have d: "c div 4096 = a" unfolding ab(4) [symmetric] xe(4) [symmetric] by (simp add: div_mult2_eq [symmetric])
  have lo: "a = 0 \<Longrightarrow> 32 \<le> b" using assms(1) xe(1,3) ab(1) by simp
  have hi: "a = 13 \<Longrightarrow> b < 32"
    using assms(2-4) xe(1,3) ab(1,3) by (simp add: high_surrogate_def low_surrogate_def)
  have "utf8_point c = [word_of_nat (0xE0 + a), word_of_nat (0x80 + b), word_of_nat (0x80 + e)]"
    unfolding utf8_point_def d xe(4,5) ab(5) using assms by (simp del: of_nat_add)
  moreover have "unat (word_of_nat (0xE0 + a) :: byte) = 0xE0 + a" "unat (word_of_nat (0x80 + b) :: byte) = 0x80 + b"
      "unat (word_of_nat (0x80 + e) :: byte) = 0x80 + e"
    using ab(2,3) xe(3) by (intro unat_byte_small; simp)+
  ultimately show ?thesis using u8_three [OF _ _ _ ab(2,3) xe(3) lo hi, of _ _ _ bs] xe(1) ab(1) by (simp del: of_nat_add u8_run.simps)
qed

lemma u8_point4:
  assumes "0x10000 \<le> c" "c < 0x110000"
  shows "u8_run u8_start (utf8_point c @ bs) = units_of c @ u8_run u8_start bs"
proof -
  obtain x e where xe: "c = x * 64 + e" "x < 17408" "e < 64" "c div 64 = x" "c mod 64 = e"
    by (rule split64 [of c 17408]) (use assms in auto)
  obtain y f where yf: "x = y * 64 + f" "y < 272" "f < 64" "x div 64 = y" "x mod 64 = f"
    by (rule split64 [of x 272]) (use xe in auto)
  obtain a b where ab: "y = a * 64 + b" "a < 5" "b < 64" "y div 64 = a" "y mod 64 = b"
    by (rule split64 [of y 5]) (use yf in auto)
  have d1: "c div 4096 = y" unfolding yf(4) [symmetric] xe(4) [symmetric] by (simp add: div_mult2_eq [symmetric])
  have d2: "c div 262144 = a" unfolding ab(4) [symmetric] d1 [symmetric] by (simp add: div_mult2_eq [symmetric])
  have lo: "a = 0 \<Longrightarrow> 16 \<le> b" using assms(1) xe(1,3) yf(1,3) ab(1) by simp
  have hi: "a = 4 \<Longrightarrow> b < 16" using assms(2) xe(1) yf(1) ab(1) by simp
  have "utf8_point c = [word_of_nat (0xF0 + a), word_of_nat (0x80 + b), word_of_nat (0x80 + f), word_of_nat (0x80 + e)]"
    unfolding utf8_point_def d1 d2 xe(4,5) yf(5) ab(5) using assms by (simp del: of_nat_add)
  moreover have "unat (word_of_nat (0xF0 + a) :: byte) = 0xF0 + a" "unat (word_of_nat (0x80 + b) :: byte) = 0x80 + b"
      "unat (word_of_nat (0x80 + f) :: byte) = 0x80 + f" "unat (word_of_nat (0x80 + e) :: byte) = 0x80 + e"
    using ab(2,3) yf(3) xe(3) by (intro unat_byte_small; simp)+
  ultimately show ?thesis using u8_four [OF _ _ _ _ ab(2,3) yf(3) xe(3) lo hi, of _ _ _ _ bs] xe(1) yf(1) ab(1)
    by (simp del: of_nat_add u8_run.simps)
qed

lemma u8_point:
  assumes "c < 0x110000" "\<not> high_surrogate c" "\<not> low_surrogate c"
  shows "u8_run u8_start (utf8_point c @ bs) = units_of c @ u8_run u8_start bs"
proof -
  consider "c < 0x80" | "0x80 \<le> c" "c < 0x800" | "0x800 \<le> c" "c < 0x10000" | "0x10000 \<le> c" by linarith
  then show ?thesis using assms by cases (auto intro: u8_point1 u8_point2 u8_point3 u8_point4)
qed

lemma unat_16_lt: "unat (u :: 16 word) < 0x10000"
  using unsigned_less [of u] by simp

lemma units_of_unit: "units_of (unat u) = [u]"
  using unat_16_lt [of u] by (simp add: units_of_def)

lemma units_of_pair:
  assumes "high_surrogate (unat u)" "low_surrogate (unat v)"
  shows "units_of (0x10000 + (unat u - 0xD800) * 1024 + (unat v - 0xDC00)) = [u, v]"
proof -
  define a where "a = unat u - 0xD800"
  define b where "b = unat v - 0xDC00"
  have a: "unat u = 0xD800 + a" "a < 1024" using assms(1) by (auto simp: a_def high_surrogate_def)
  have b: "unat v = 0xDC00 + b" "b < 1024" using assms(2) by (auto simp: b_def low_surrogate_def)
  have "u = word_of_nat (0xD800 + a)" "v = word_of_nat (0xDC00 + b)"
    unfolding a(1) [symmetric] b(1) [symmetric] by (simp_all add: unat_of_nat)
  then show ?thesis using a b by (simp add: units_of_def)
qed

lemma u8_run_utf8: "paired s \<Longrightarrow> u8_run u8_start (utf8 s) = s"
proof (induction s rule: utf8.induct)
  case 1
  then show ?case by (simp add: u8_start_def)
next
  case (2 u)
  then show ?case
    using u8_point [of "unat u" "[]"] unat_16_lt [of u] by (simp add: units_of_unit u8_start_def)
next
  case (3 u v us)
  show ?case
  proof (cases "high_surrogate (unat u)")
    case True
    then have v: "low_surrogate (unat v)" "paired us" using "3.prems" by auto
    let ?c = "0x10000 + (unat u - 0xD800) * 1024 + (unat v - 0xDC00)"
    have "?c < 0x110000" using True v(1) by (auto simp: high_surrogate_def low_surrogate_def)
    moreover have "\<not> high_surrogate ?c" "\<not> low_surrogate ?c" by (simp_all add: high_surrogate_def low_surrogate_def)
    ultimately show ?thesis
      using True v u8_point [of ?c "utf8 us"] "3.IH"(1) [OF True v(1) v(2)] by (simp add: units_of_pair)
  next
    case False
    then have u: "\<not> low_surrogate (unat u)" "paired (v # us)" using "3.prems" by auto
    then show ?thesis
      using False u8_point [of "unat u" "utf8 (v # us)"] "3.IH"(4) [OF False u(1) u(2)] unat_16_lt [of u]
      by (simp add: units_of_unit)
  qed
qed

lemma utf8_text_utf8: "plain_text s \<Longrightarrow> utf8_text (utf8 s) = s"
  by (auto simp: plain_text_def utf8_text_def u8_run_utf8 Let_def)

lemma utf8_point_not_Nil [simp]: "utf8_point c \<noteq> []"
  by (simp add: utf8_point_def)

lemma utf8_Nil_iff [simp]: "utf8 s = [] \<longleftrightarrow> s = []"
  by (cases s rule: utf8.cases) auto

end
