(* ===== verification/PickFrame.thy ===== *)
theory PickFrame
  imports Utf8
begin

section \<open>Frames of the pick stream (relay/pick.mjs)\<close>

text \<open>
  What a light client and its relay say to each other: PICK, DROP and PUSH one way, DELIVER,
  REFUSED, ACK and PICKED the other. An encoder is \<open>None\<close> where \<open>nameBytes\<close> throws;
  \<open>decodeFrame\<close> is \<open>None\<close> where the code returns null.
\<close>

datatype pick_frame =
    FPick jstr
  | FDrop jstr
  | FPush jstr bytes
  | FDeliver jstr jstr bytes
  | FRefused jstr
  | FAck jstr nat
  | FPicked jstr

definition T_PICK :: byte where "T_PICK = 0x01"
definition T_DROP :: byte where "T_DROP = 0x02"
definition T_PUSH :: byte where "T_PUSH = 0x03"
definition T_DELIVER :: byte where "T_DELIVER = 0x11"
definition T_REFUSED :: byte where "T_REFUSED = 0x12"
definition T_ACK :: byte where "T_ACK = 0x13"
definition T_PICKED :: byte where "T_PICKED = 0x14"

lemmas pick_tags = T_PICK_def T_DROP_def T_PUSH_def T_DELIVER_def T_REFUSED_def T_ACK_def T_PICKED_def

definition MAX_NAME :: nat where "MAX_NAME = 255"

definition nameBytes :: "jstr \<Rightarrow> bytes option" where
  "nameBytes s = (let b = utf8 s in if b = [] \<or> length b > MAX_NAME then None else Some b)"

definition len_byte :: "bytes \<Rightarrow> byte" where
  "len_byte b = word_of_nat (length b)"

definition encodePick :: "jstr \<Rightarrow> bytes option" where
  "encodePick topic = map_option (\<lambda>t. T_PICK # t) (nameBytes topic)"

definition encodeDrop :: "jstr \<Rightarrow> bytes option" where
  "encodeDrop topic = map_option (\<lambda>t. T_DROP # t) (nameBytes topic)"

definition encodeRefused :: "jstr \<Rightarrow> bytes option" where
  "encodeRefused topic = map_option (\<lambda>t. T_REFUSED # t) (nameBytes topic)"

definition encodePicked :: "jstr \<Rightarrow> bytes option" where
  "encodePicked topic = map_option (\<lambda>t. T_PICKED # t) (nameBytes topic)"

definition encodeDeliver :: "jstr \<Rightarrow> jstr \<Rightarrow> bytes \<Rightarrow> bytes option" where
  "encodeDeliver from topic data =
     (case nameBytes from of None \<Rightarrow> None
      | Some f \<Rightarrow> map_option (\<lambda>t. [T_DELIVER, len_byte f] @ f @ [len_byte t] @ t @ data) (nameBytes topic))"

definition encodePush :: "jstr \<Rightarrow> bytes \<Rightarrow> bytes option" where
  "encodePush topic data = map_option (\<lambda>t. [T_PUSH, len_byte t] @ t @ data) (nameBytes topic)"

text \<open>\<open>recipients | 0\<close> is the number read as a signed 32-bit integer.\<close>

definition ack_count :: "int \<Rightarrow> nat" where
  "ack_count recipients = nat (max 0 (min 0xffff (sint (word_of_int recipients :: 32 word))))"

definition encodeAck :: "jstr \<Rightarrow> int \<Rightarrow> bytes option" where
  "encodeAck topic recipients =
     (let n = ack_count recipients in
      map_option (\<lambda>t. [T_ACK, len_byte t] @ t @ [word_of_nat (n div 256), word_of_nat (n mod 256)]) (nameBytes topic))"

text \<open>\<open>const l = bytes[o++]; if (!l || o + l > bytes.length) return null\<close>, and the name after it.\<close>

definition read_name :: "nat \<Rightarrow> bytes \<Rightarrow> (jstr \<times> nat) option" where
  "read_name i b =
     (if length b \<le> i then None
      else let n = unat (b ! i) in
        if n = 0 \<or> i + 1 + n > length b then None else Some (utf8_text (slice_of (i + 1) n b), i + 1 + n))"

definition decodeFrame :: "bytes \<Rightarrow> pick_frame option" where
  "decodeFrame b =
     (if length b < 2 then None
      else let tag = hd b; rest = tl b in
        if tag = T_PICK \<or> tag = T_DROP \<or> tag = T_REFUSED \<or> tag = T_PICKED then
          if length b - 1 > MAX_NAME then None
          else Some ((if tag = T_PICK then FPick else if tag = T_DROP then FDrop else if tag = T_REFUSED then FRefused else FPicked)
            (utf8_text rest))
        else if tag = T_DELIVER then
          (case read_name 1 b of None \<Rightarrow> None
           | Some (from, i) \<Rightarrow> (case read_name i b of None \<Rightarrow> None | Some (topic, j) \<Rightarrow> Some (FDeliver from topic (drop j b))))
        else if tag = T_PUSH then
          (case read_name 1 b of None \<Rightarrow> None | Some (topic, i) \<Rightarrow> Some (FPush topic (drop i b)))
        else if tag = T_ACK then
          (case read_name 1 b of None \<Rightarrow> None
           | Some (topic, i) \<Rightarrow>
               if i + 2 > length b then None
               else Some (FAck topic (or (push_bit 8 (unat (b ! i))) (unat (b ! (i + 1))))))
        else None)"

text \<open>A name the stream carries: not empty, within its length byte.\<close>

definition fits_name :: "jstr \<Rightarrow> bool" where
  "fits_name s = (nameBytes s \<noteq> None)"

definition wire_name :: "jstr \<Rightarrow> bool" where
  "wire_name s = (fits_name s \<and> plain_text s)"

subsection \<open>Lemmas\<close>

lemma fits_name_iff: "fits_name s \<longleftrightarrow> s \<noteq> [] \<and> length (utf8 s) \<le> 255"
  by (auto simp: fits_name_def nameBytes_def MAX_NAME_def Let_def)

lemma nameBytes_fits: "fits_name s \<Longrightarrow> nameBytes s = Some (utf8 s)"
  by (auto simp: fits_name_def nameBytes_def Let_def split: if_splits)

lemma wire_nameD:
  assumes "wire_name s"
  shows "nameBytes s = Some (utf8 s)" "length (utf8 s) \<le> 255" "utf8 s \<noteq> []" "utf8_text (utf8 s) = s"
  using assms by (simp_all add: wire_name_def nameBytes_fits utf8_text_utf8) (simp_all add: fits_name_iff)

lemma encode_fits:
  assumes "fits_name s"
  shows "encodePick s = Some (T_PICK # utf8 s)" "encodeDrop s = Some (T_DROP # utf8 s)"
    "encodeRefused s = Some (T_REFUSED # utf8 s)" "encodePicked s = Some (T_PICKED # utf8 s)"
    "encodePush s data = Some ([T_PUSH, len_byte (utf8 s)] @ utf8 s @ data)"
    "encodeAck s n = Some ([T_ACK, len_byte (utf8 s)] @ utf8 s @ [word_of_nat (ack_count n div 256), word_of_nat (ack_count n mod 256)])"
    "fits_name p \<Longrightarrow> encodeDeliver p s data = Some ([T_DELIVER, len_byte (utf8 p)] @ utf8 p @ [len_byte (utf8 s)] @ utf8 s @ data)"
  using nameBytes_fits [OF assms]
  by (simp_all add: encodePick_def encodeDrop_def encodeRefused_def encodePicked_def encodePush_def encodeAck_def
      encodeDeliver_def nameBytes_fits Let_def)

lemma read_name_at:
  assumes "wire_name s" "length p = i"
  shows "read_name i (p @ [len_byte (utf8 s)] @ utf8 s @ r) = Some (s, i + 1 + length (utf8 s))"
proof -
  have u: "unat (len_byte (utf8 s)) = length (utf8 s)"
    using wire_nameD(2) [OF assms(1)] by (simp add: len_byte_def unat_byte_small)
  have n: "(p @ [len_byte (utf8 s)] @ utf8 s @ r) ! i = len_byte (utf8 s)"
    using assms(2) by (simp add: nth_append)
  have "slice_of (i + 1) (length (utf8 s)) ((p @ [len_byte (utf8 s)]) @ utf8 s @ r) = utf8 s"
    using assms(2) by (intro slice_of_append) auto
  then have sl: "slice_of (i + 1) (length (utf8 s)) (p @ [len_byte (utf8 s)] @ utf8 s @ r) = utf8 s" by simp
  show ?thesis
    unfolding read_name_def n u sl Let_def using assms wire_nameD [OF assms(1)] by simp
qed

lemma decode_named:
  assumes "wire_name s"
  shows "decodeFrame (T_PICK # utf8 s) = Some (FPick s)" "decodeFrame (T_DROP # utf8 s) = Some (FDrop s)"
    "decodeFrame (T_REFUSED # utf8 s) = Some (FRefused s)" "decodeFrame (T_PICKED # utf8 s) = Some (FPicked s)"
proof -
  have "\<not> length (utf8 s) < 1" using wire_nameD(3) [OF assms] by (cases "utf8 s") simp_all
  then show "decodeFrame (T_PICK # utf8 s) = Some (FPick s)" "decodeFrame (T_DROP # utf8 s) = Some (FDrop s)"
      "decodeFrame (T_REFUSED # utf8 s) = Some (FRefused s)" "decodeFrame (T_PICKED # utf8 s) = Some (FPicked s)"
    using wire_nameD [OF assms] by (simp_all add: decodeFrame_def pick_tags MAX_NAME_def)
qed

lemma decode_push:
  assumes "wire_name s"
  shows "decodeFrame ([T_PUSH, len_byte (utf8 s)] @ utf8 s @ data) = Some (FPush s data)"
  using read_name_at [OF assms, of "[T_PUSH]" 1 data] by (simp add: decodeFrame_def pick_tags)

lemma decode_deliver:
  assumes "wire_name p" "wire_name s"
  shows "decodeFrame ([T_DELIVER, len_byte (utf8 p)] @ utf8 p @ [len_byte (utf8 s)] @ utf8 s @ data) = Some (FDeliver p s data)"
  using read_name_at [OF assms(1), of "[T_DELIVER]" 1 "[len_byte (utf8 s)] @ utf8 s @ data"]
    read_name_at [OF assms(2), of "[T_DELIVER, len_byte (utf8 p)] @ utf8 p" "2 + length (utf8 p)" data]
  by (simp add: decodeFrame_def pick_tags)

lemma ack_count_le: "ack_count n \<le> 0xffff"
  by (simp add: ack_count_def)

lemma ack_count_small: "0 \<le> n \<Longrightarrow> n \<le> 0xffff \<Longrightarrow> ack_count n = nat n"
  by (simp add: ack_count_def signed_of_int signed_take_bit_int_eq_self)

lemma decode_ack:
  assumes "wire_name s"
  shows "decodeFrame (the (encodeAck s n)) = Some (FAck s (ack_count n))"
proof -
  let ?k = "ack_count n"
  let ?b = "[T_ACK, len_byte (utf8 s)] @ utf8 s @ [word_of_nat (?k div 256), word_of_nat (?k mod 256)]"
  have e: "encodeAck s n = Some ?b" using assms by (intro encode_fits) (simp add: wire_name_def)
  have r: "read_name 1 ?b = Some (s, 2 + length (utf8 s))"
    using read_name_at [OF assms, of "[T_ACK]" 1 "[word_of_nat (?k div 256), word_of_nat (?k mod 256)]"] by simp
  have "?k div 256 < 256" using ack_count_le [of n] by (intro less_mult_imp_div_less) simp
  then have u: "unat (word_of_nat (?k div 256) :: byte) = ?k div 256" "unat (word_of_nat (?k mod 256) :: byte) = ?k mod 256"
    by (simp_all add: unat_byte_small)
  have i: "?b ! (2 + length (utf8 s)) = word_of_nat (?k div 256)" "?b ! (2 + length (utf8 s) + 1) = word_of_nat (?k mod 256)"
    by (simp_all add: nth_append)
  have "or (push_bit 8 (?k div 256)) (?k mod 256) = ?k"
    using or_push_bit_8 [of "?k mod 256" "?k div 256"] by simp
  then have "or (push_bit 8 (unat (?b ! (2 + length (utf8 s))))) (unat (?b ! (2 + length (utf8 s) + 1))) = ?k"
    unfolding i u .
  then show ?thesis unfolding e using r by (simp add: decodeFrame_def pick_tags)
qed

lemma utf8_ascii: "list_all (\<lambda>u. unat u < 0x80) s \<Longrightarrow> length (utf8 s) = length s \<and> paired s"
  by (induction s rule: utf8.induct) (auto simp: utf8_point_def high_surrogate_def low_surrogate_def)

lemma ascii_wire_name:
  assumes "list_all (\<lambda>u. unat u < 0x80) s" "s \<noteq> []" "length s \<le> 255"
  shows "wire_name s"
proof -
  have "hd s \<noteq> 0xFEFF" using assms(1,2) by (cases s) auto
  then show ?thesis using utf8_ascii [OF assms(1)] assms(2,3) by (simp add: wire_name_def fits_name_iff plain_text_def)
qed

end
