(* ===== verification/Picks.thy ===== *)
theory Picks
  imports PickFrame "HOL-Library.Multiset"
begin

section \<open>Who picked what, and how much one peer may hold (relay/pick.mjs, relay/quota.mjs)\<close>

text \<open>
  \<open>makePicks\<close> keeps two maps, by topic and by peer, and has to keep them in step;
  \<open>makeQuota\<close> keeps a set of topics for each peer. What the maps stand for is simpler: a partial
  function from peer and topic to the sink, and a set of topics for each peer. The locale
  \<open>pick_store\<close> is that contract, and the two maps implement it (\<open>picks_laws\<close>,
  \<open>picks_refine\<close>). A sink is an identity, as the closure \<open>send\<close> is in the code.
\<close>

subsection \<open>JavaScript sets\<close>

definition set_add :: "'a \<Rightarrow> 'a list \<Rightarrow> 'a list" where
  "set_add x xs = (if x \<in> set xs then xs else xs @ [x])"

definition set_delete :: "'a \<Rightarrow> 'a list \<Rightarrow> 'a list" where
  "set_delete x xs = filter (\<lambda>y. y \<noteq> x) xs"

definition or_empty :: "'a list option \<Rightarrow> 'a list" where
  "or_empty v = (case v of None \<Rightarrow> [] | Some xs \<Rightarrow> xs)"

subsection \<open>makePicks\<close>

record 'k picks =
  pk_byTopic :: "(jstr, (jstr, 'k) jmap) jmap"
  pk_byPeer :: "(jstr, jstr list) jmap"

definition no_picks :: "'k picks" where
  "no_picks = \<lparr>pk_byTopic = [], pk_byPeer = []\<rparr>"

definition picks_add :: "jstr \<Rightarrow> jstr \<Rightarrow> 'k \<Rightarrow> 'k picks \<Rightarrow> 'k picks" where
  "picks_add p topic sink P =
     P\<lparr>pk_byTopic := jm_set topic (jm_set p sink (or_empty (jm_get (pk_byTopic P) topic))) (pk_byTopic P),
       pk_byPeer := jm_set p (set_add topic (or_empty (jm_get (pk_byPeer P) p))) (pk_byPeer P)\<rparr>"

text \<open>\<open>m.delete(k)\<close>, and the entry goes when the inner collection is empty.\<close>

definition put_back :: "'k \<Rightarrow> 'v list \<Rightarrow> ('k, 'v list) jmap \<Rightarrow> ('k, 'v list) jmap" where
  "put_back k v m = (if v = [] then jm_del k m else jm_set k v m)"

definition picks_drop :: "jstr \<Rightarrow> jstr \<Rightarrow> 'k option \<Rightarrow> 'k picks \<Rightarrow> bool \<times> 'k picks" where
  "picks_drop p topic sink P =
     (case jm_get (pk_byTopic P) topic of
        None \<Rightarrow> (False, P)
      | Some m \<Rightarrow> (case jm_get m p of
            None \<Rightarrow> (False, P)
          | Some k \<Rightarrow>
              if sink \<noteq> None \<and> sink \<noteq> Some k then (False, P)
              else (True, P\<lparr>pk_byTopic := put_back topic (jm_del p m) (pk_byTopic P),
                 pk_byPeer := (case jm_get (pk_byPeer P) p of
                     None \<Rightarrow> pk_byPeer P
                   | Some s \<Rightarrow> put_back p (set_delete topic s) (pk_byPeer P))\<rparr>)))"

fun drop_each :: "jstr \<Rightarrow> 'k option \<Rightarrow> jstr list \<Rightarrow> 'k picks \<Rightarrow> jstr list \<times> 'k picks" where
  "drop_each p sink [] P = ([], P)"
| "drop_each p sink (t # ts) P =
     (case picks_drop p t sink P of (did, P1) \<Rightarrow>
      case drop_each p sink ts P1 of (freed, P2) \<Rightarrow> ((if did then t # freed else freed), P2))"

definition picks_forget :: "jstr \<Rightarrow> 'k option \<Rightarrow> 'k picks \<Rightarrow> jstr list \<times> 'k picks" where
  "picks_forget p sink P = drop_each p sink (or_empty (jm_get (pk_byPeer P) p)) P"

text \<open>\<open>String(exceptPeer)\<close> of null is the text \<open>null\<close>.\<close>

definition except_name :: "jstr option \<Rightarrow> jstr" where
  "except_name e = (case e of None \<Rightarrow> js ''null'' | Some p \<Rightarrow> p)"

definition sinksFor :: "jstr \<Rightarrow> jstr option \<Rightarrow> 'k picks \<Rightarrow> 'k list" where
  "sinksFor topic except P =
     map snd (filter (\<lambda>(p, _). p \<noteq> except_name except) (or_empty (jm_get (pk_byTopic P) topic)))"

definition holders :: "jstr \<Rightarrow> 'k picks \<Rightarrow> nat" where
  "holders topic P = length (or_empty (jm_get (pk_byTopic P) topic))"

definition topicsOf :: "jstr \<Rightarrow> 'k picks \<Rightarrow> jstr list" where
  "topicsOf p P = or_empty (jm_get (pk_byPeer P) p)"

subsection \<open>makeQuota\<close>

type_synonym quota = "(jstr, jstr list) jmap"

definition quota_claim :: "nat \<Rightarrow> jstr \<Rightarrow> jstr \<Rightarrow> quota \<Rightarrow> bool \<times> quota" where
  "quota_claim limit p topic Q =
     (let s = or_empty (jm_get Q p);
          Q1 = (if jm_has Q p then Q else jm_set p [] Q)
      in if topic \<in> set s then (True, Q1)
         else if length s \<ge> limit then (False, Q1)
         else (True, jm_set p (set_add topic s) Q1))"

definition quota_release :: "jstr \<Rightarrow> jstr \<Rightarrow> quota \<Rightarrow> quota" where
  "quota_release p topic Q =
     (case jm_get Q p of None \<Rightarrow> Q | Some s \<Rightarrow> put_back p (set_delete topic s) Q)"

definition quota_forget :: "jstr \<Rightarrow> quota \<Rightarrow> quota" where
  "quota_forget p Q = jm_del p Q"

definition countFor :: "jstr \<Rightarrow> quota \<Rightarrow> nat" where
  "countFor p Q = length (or_empty (jm_get Q p))"

subsection \<open>The contract: a partial function\<close>

type_synonym 'k held = "jstr \<Rightarrow> jstr \<Rightarrow> 'k option" \<comment> \<open>peer, topic\<close>

definition held_by :: "'k picks \<Rightarrow> 'k held" where
  "held_by P p topic = jm_get (or_empty (jm_get (pk_byTopic P) topic)) p"

definition hold_set :: "jstr \<Rightarrow> jstr \<Rightarrow> 'k option \<Rightarrow> 'k held \<Rightarrow> 'k held" where
  "hold_set p topic v h = h(p := (h p)(topic := v))"

definition hold_match :: "'k option \<Rightarrow> 'k option \<Rightarrow> bool" where
  "hold_match sink v = (case v of None \<Rightarrow> False | Some k \<Rightarrow> sink = None \<or> sink = Some k)"

definition hold_forget :: "jstr \<Rightarrow> 'k option \<Rightarrow> 'k held \<Rightarrow> 'k held" where
  "hold_forget p sink h = h(p := (\<lambda>topic. if hold_match sink (h p topic) then None else h p topic))"

definition picks_inv :: "'k picks \<Rightarrow> bool" where
  "picks_inv P =
     (jm_inv (pk_byTopic P) \<and> (\<forall>topic m. jm_get (pk_byTopic P) topic = Some m \<longrightarrow> jm_inv m \<and> m \<noteq> [])
      \<and> jm_inv (pk_byPeer P)
      \<and> (\<forall>p. distinct (topicsOf p P) \<and> (\<forall>topic. topic \<in> set (topicsOf p P) \<longleftrightarrow> held_by P p topic \<noteq> None)))"

locale pick_store =
  fixes add :: "jstr \<Rightarrow> jstr \<Rightarrow> 'k \<Rightarrow> 's \<Rightarrow> 's"
    and drp :: "jstr \<Rightarrow> jstr \<Rightarrow> 'k option \<Rightarrow> 's \<Rightarrow> bool \<times> 's"
    and forget :: "jstr \<Rightarrow> 'k option \<Rightarrow> 's \<Rightarrow> jstr list \<times> 's"
    and sinks :: "jstr \<Rightarrow> jstr option \<Rightarrow> 's \<Rightarrow> 'k list"
    and count :: "jstr \<Rightarrow> 's \<Rightarrow> nat"
    and ok :: "'s \<Rightarrow> bool"
    and abs :: "'s \<Rightarrow> 'k held"
  assumes add_ok: "ok s \<Longrightarrow> ok (add p t k s)"
    and add_abs: "ok s \<Longrightarrow> abs (add p t k s) = hold_set p t (Some k) (abs s)"
    and drop_ok: "ok s \<Longrightarrow> ok (snd (drp p t k' s))"
    and drop_abs: "ok s \<Longrightarrow> fst (drp p t k' s) = hold_match k' (abs s p t)
        \<and> abs (snd (drp p t k' s)) = (if hold_match k' (abs s p t) then hold_set p t None (abs s) else abs s)"
    and forget_ok: "ok s \<Longrightarrow> ok (snd (forget p k' s))"
    and forget_abs: "ok s \<Longrightarrow> set (fst (forget p k' s)) = {t. hold_match k' (abs s p t)}
        \<and> abs (snd (forget p k' s)) = hold_forget p k' (abs s)"
    and finite_holders: "ok s \<Longrightarrow> finite {p. abs s p t \<noteq> None}"
    and sinks_abs: "ok s \<Longrightarrow> mset (sinks t e s) = image_mset (\<lambda>p. the (abs s p t)) (mset_set {p. abs s p t \<noteq> None \<and> p \<noteq> except_name e})"
    and count_abs: "ok s \<Longrightarrow> count t s = card {p. abs s p t \<noteq> None}"
begin

lemma count_zero: "ok s \<Longrightarrow> count t s = 0 \<longleftrightarrow> (\<forall>p. abs s p t = None)"
  using finite_holders [of s t] by (simp add: count_abs)

lemma sink_told: "ok s \<Longrightarrow> k \<in> set (sinks t e s) \<longleftrightarrow> (\<exists>p. abs s p t = Some k \<and> p \<noteq> except_name e)"
proof -
  assume s: "ok s"
  have f: "finite {p. abs s p t \<noteq> None \<and> p \<noteq> except_name e}"
    using finite_holders [OF s, of t] by (rule rev_finite_subset) auto
  have "set (sinks t e s) = (\<lambda>p. the (abs s p t)) ` {p. abs s p t \<noteq> None \<and> p \<noteq> except_name e}"
    using arg_cong [OF sinks_abs [OF s, of t e], of set_mset] f by simp
  then have "k \<in> set (sinks t e s) \<longleftrightarrow> (\<exists>p. k = the (abs s p t) \<and> abs s p t \<noteq> None \<and> p \<noteq> except_name e)"
    by (simp add: image_iff Bex_def conj_commute)
  also have "\<dots> \<longleftrightarrow> (\<exists>p. abs s p t = Some k \<and> p \<noteq> except_name e)"
    by (rule ex_cong1) auto
  finally show ?thesis .
qed

lemma kept_over_add: "ok s \<Longrightarrow> abs s p t = Some k \<Longrightarrow> (p', t') \<noteq> (p, t) \<or> k' = k \<Longrightarrow> abs (add p' t' k' s) p t = Some k"
  by (auto simp: add_abs hold_set_def)

lemma kept_over_drop: "ok s \<Longrightarrow> abs s p t = Some k \<Longrightarrow> (p', t') \<noteq> (p, t) \<or> k' \<noteq> k \<Longrightarrow> abs (snd (drp p' t' (Some k') s)) p t = Some k"
  by (auto simp: drop_abs hold_set_def hold_match_def)

lemma kept_over_forget: "ok s \<Longrightarrow> abs s p t = Some k \<Longrightarrow> k' \<noteq> k \<Longrightarrow> abs (snd (forget p' (Some k') s)) p t = Some k"
  by (auto simp: forget_abs hold_forget_def hold_match_def)

end

subsection \<open>The maps implement it\<close>

lemma set_set_add [simp]: "set (set_add x xs) = insert x (set xs)"
  by (auto simp: set_add_def)

lemma distinct_set_add [simp]: "distinct xs \<Longrightarrow> distinct (set_add x xs)"
  by (simp add: set_add_def)

lemma set_set_delete [simp]: "set (set_delete x xs) = set xs - {x}"
  by (auto simp: set_delete_def)

lemma distinct_set_delete [simp]: "distinct xs \<Longrightarrow> distinct (set_delete x xs)"
  by (simp add: set_delete_def)

lemma or_empty_simps [simp]: "or_empty None = []" "or_empty (Some xs) = xs"
  by (simp_all add: or_empty_def)

lemma put_back_get: "or_empty (jm_get (put_back k v m) k') = (if k' = k then v else or_empty (jm_get m k'))"
  by (simp add: put_back_def jm_get_del jm_get_set)

lemma put_back_inv [simp]: "jm_inv m \<Longrightarrow> jm_inv (put_back k v m)"
  by (simp add: put_back_def)

lemma put_back_some: "jm_get (put_back k v m) k' = Some v' \<Longrightarrow> k' = k \<and> v' = v \<and> v \<noteq> [] \<or> k' \<noteq> k \<and> jm_get m k' = Some v'"
  by (auto simp: put_back_def jm_get_del jm_get_set split: if_splits)

lemma inner_inv:
  assumes "picks_inv P"
  shows "jm_inv (or_empty (jm_get (pk_byTopic P) t))"
  using assms by (cases "jm_get (pk_byTopic P) t") (auto simp: picks_inv_def)

lemma held_by_set:
  "held_by (P\<lparr>pk_byTopic := jm_set t m (pk_byTopic P), pk_byPeer := q\<rparr>) p' t' = (if t' = t then jm_get m p' else held_by P p' t')"
  by (simp add: held_by_def jm_get_set)

lemma held_by_put_back:
  "held_by (P\<lparr>pk_byTopic := put_back t m (pk_byTopic P), pk_byPeer := q\<rparr>) p' t' = (if t' = t then jm_get m p' else held_by P p' t')"
  by (simp add: held_by_def put_back_get)

lemma picks_add_abs: "held_by (picks_add p t k P) = hold_set p t (Some k) (held_by P)"
  by (intro ext) (simp add: picks_add_def held_by_set hold_set_def jm_get_set, simp add: held_by_def)

lemma picks_add_inv:
  assumes "picks_inv P"
  shows "picks_inv (picks_add p t k P)"
proof -
  let ?P = "picks_add p t k P"
  have b: "pk_byTopic ?P = jm_set t (jm_set p k (or_empty (jm_get (pk_byTopic P) t))) (pk_byTopic P)"
    by (simp add: picks_add_def)
  have "jm_set p k m \<noteq> []" for m :: "(jstr, 'a) jmap" by (metis jm_get_Nil jm_get_set_same option.distinct(1))
  then have i: "jm_inv (pk_byTopic ?P)" "jm_get (pk_byTopic ?P) t' = Some m \<Longrightarrow> jm_inv m \<and> m \<noteq> []" for t' m
    using assms inner_inv [OF assms, of t] unfolding b by (auto simp: jm_get_set picks_inv_def split: if_splits)
  have o: "topicsOf p' ?P = (if p' = p then set_add t (topicsOf p P) else topicsOf p' P)" for p'
    by (simp add: topicsOf_def picks_add_def jm_get_set)
  have a: "held_by ?P p' t' = (if p' = p \<and> t' = t then Some k else held_by P p' t')" for p' t'
    by (simp add: picks_add_abs hold_set_def)
  have t: "distinct (topicsOf p' P)" "t' \<in> set (topicsOf p' P) \<longleftrightarrow> held_by P p' t' \<noteq> None" for p' t'
    using assms by (simp_all add: picks_inv_def)
  have "distinct (topicsOf p' ?P) \<and> (t' \<in> set (topicsOf p' ?P) \<longleftrightarrow> held_by ?P p' t' \<noteq> None)" for p' t'
    unfolding o a using t by auto
  moreover have "jm_inv (pk_byPeer ?P)" using assms by (simp add: picks_add_def picks_inv_def)
  ultimately show ?thesis using i unfolding picks_inv_def by blast
qed

lemma picks_drop_eq:
  assumes "picks_inv P"
  shows "picks_drop p t k P =
    (if hold_match k (held_by P p t)
     then (True, P\<lparr>pk_byTopic := put_back t (jm_del p (or_empty (jm_get (pk_byTopic P) t))) (pk_byTopic P),
                    pk_byPeer := put_back p (set_delete t (topicsOf p P)) (pk_byPeer P)\<rparr>)
     else (False, P))"
proof (cases "held_by P p t")
  case None
  then show ?thesis
    by (cases "jm_get (pk_byTopic P) t") (simp_all add: picks_drop_def held_by_def hold_match_def)
next
  case (Some k')
  then obtain m where m: "jm_get (pk_byTopic P) t = Some m" "jm_get m p = Some k'"
    by (cases "jm_get (pk_byTopic P) t") (simp_all add: held_by_def)
  have "t \<in> set (topicsOf p P)" using assms Some by (simp add: picks_inv_def)
  then obtain s where "jm_get (pk_byPeer P) p = Some s" "topicsOf p P = s"
    by (cases "jm_get (pk_byPeer P) p") (simp_all add: topicsOf_def)
  then show ?thesis using m Some by (cases k) (auto simp: picks_drop_def hold_match_def)
qed

lemma picks_drop_abs:
  assumes "picks_inv P"
  shows "fst (picks_drop p t k P) = hold_match k (held_by P p t)"
    and "held_by (snd (picks_drop p t k P)) = (if hold_match k (held_by P p t) then hold_set p t None (held_by P) else held_by P)"
proof -
  show "fst (picks_drop p t k P) = hold_match k (held_by P p t)"
    by (simp add: picks_drop_eq [OF assms])
  show "held_by (snd (picks_drop p t k P)) = (if hold_match k (held_by P p t) then hold_set p t None (held_by P) else held_by P)"
    by (intro ext) (simp add: picks_drop_eq [OF assms] held_by_put_back hold_set_def jm_get_del, simp add: held_by_def)
qed

lemma picks_drop_inv:
  assumes "picks_inv P"
  shows "picks_inv (snd (picks_drop p t k P))"
proof (cases "hold_match k (held_by P p t)")
  case False
  then show ?thesis using assms by (simp add: picks_drop_eq [OF assms])
next
  case True
  let ?P = "snd (picks_drop p t k P)"
  have e: "pk_byTopic ?P = put_back t (jm_del p (or_empty (jm_get (pk_byTopic P) t))) (pk_byTopic P)"
      "pk_byPeer ?P = put_back p (set_delete t (topicsOf p P)) (pk_byPeer P)"
    using True by (simp_all add: picks_drop_eq [OF assms])
  have i: "jm_inv (pk_byTopic ?P)" "jm_get (pk_byTopic ?P) t' = Some m \<Longrightarrow> jm_inv m \<and> m \<noteq> []" for t' m
    using assms inner_inv [OF assms, of t] put_back_some unfolding e picks_inv_def by (simp, fastforce)
  have h: "topicsOf p' ?P = (if p' = p then set_delete t (topicsOf p P) else topicsOf p' P)" for p'
    by (simp add: topicsOf_def e put_back_get)
  have a: "held_by ?P p' t' = (if p' = p \<and> t' = t then None else held_by P p' t')" for p' t'
    by (simp add: picks_drop_abs(2) [OF assms] True hold_set_def)
  have t: "distinct (topicsOf p' P)" "t' \<in> set (topicsOf p' P) \<longleftrightarrow> held_by P p' t' \<noteq> None" for p' t'
    using assms by (simp_all add: picks_inv_def)
  have "distinct (topicsOf p' ?P) \<and> (t' \<in> set (topicsOf p' ?P) \<longleftrightarrow> held_by ?P p' t' \<noteq> None)" for p' t'
    unfolding h a using t by auto
  moreover have "jm_inv (pk_byPeer ?P)" using assms by (simp add: e picks_inv_def)
  ultimately show ?thesis using i unfolding picks_inv_def by blast
qed

lemma drop_each_abs:
  assumes "picks_inv P" "distinct ts"
  shows "picks_inv (snd (drop_each p k ts P))
    \<and> set (fst (drop_each p k ts P)) = {t \<in> set ts. hold_match k (held_by P p t)}
    \<and> held_by (snd (drop_each p k ts P))
       = (held_by P)(p := (\<lambda>t. if t \<in> set ts \<and> hold_match k (held_by P p t) then None else held_by P p t))"
  using assms
proof (induction ts arbitrary: P)
  case Nil
  then show ?case by simp
next
  case (Cons t ts)
  obtain did P1 where d: "picks_drop p t k P = (did, P1)" by fastforce
  obtain freed P2 where f: "drop_each p k ts P1 = (freed, P2)" by fastforce
  have P1: "picks_inv P1" "did = hold_match k (held_by P p t)"
      "held_by P1 = (if did then hold_set p t None (held_by P) else held_by P)"
    using picks_drop_inv [OF Cons.prems(1), of p t k] picks_drop_abs [OF Cons.prems(1), of p t k] d by simp_all
  have t: "t \<notin> set ts" "distinct ts" using Cons.prems(2) by auto
  have same: "held_by P1 p t' = held_by P p t'" if "t' \<in> set ts" for t'
    using that t by (auto simp: P1(3) hold_set_def)
  from Cons.IH [OF P1(1) t(2)] f have i: "picks_inv P2" "set freed = {t \<in> set ts. hold_match k (held_by P1 p t)}"
      "held_by P2 = (held_by P1)(p := (\<lambda>t. if t \<in> set ts \<and> hold_match k (held_by P1 p t) then None else held_by P1 p t))"
    by (simp_all add: fun_upd_def)
  have s: "set freed = {t \<in> set ts. hold_match k (held_by P p t)}" using i(2) same by auto
  have h: "held_by P2 = (held_by P)(p := (\<lambda>t'. if t' \<in> set (t # ts) \<and> hold_match k (held_by P p t') then None else held_by P p t'))"
    unfolding i(3) using same t(1) by (intro ext) (auto simp: P1(2,3) hold_set_def)
  show ?case using i(1) s h P1(2) by (auto simp: d f)
qed

lemma picks_forget_abs:
  assumes "picks_inv P"
  shows "picks_inv (snd (picks_forget p k P))"
    and "set (fst (picks_forget p k P)) = {t. hold_match k (held_by P p t)}"
    and "held_by (snd (picks_forget p k P)) = hold_forget p k (held_by P)"
proof -
  have t: "distinct (topicsOf p P)" "t \<in> set (topicsOf p P) \<longleftrightarrow> held_by P p t \<noteq> None" for t
    using assms by (simp_all add: picks_inv_def)
  have m: "hold_match k (held_by P p t) \<Longrightarrow> t \<in> set (topicsOf p P)" for t
    by (simp add: t(2)) (auto simp: hold_match_def split: option.splits)
  note d = drop_each_abs [OF assms t(1), of p k, folded picks_forget_def [of p k P, folded topicsOf_def]]
  show "picks_inv (snd (picks_forget p k P))" using d by simp
  show "set (fst (picks_forget p k P)) = {t. hold_match k (held_by P p t)}" using d m by auto
  show "held_by (snd (picks_forget p k P)) = hold_forget p k (held_by P)"
    using d m by (auto simp: hold_forget_def fun_eq_iff)
qed

lemma holders_of:
  assumes "picks_inv P"
  shows "{p. held_by P p t \<noteq> None} = set (jm_keys (or_empty (jm_get (pk_byTopic P) t)))"
  by (auto simp: held_by_def jm_get_None_iff)

lemma sinksFor_abs:
  assumes "picks_inv P"
  shows "mset (sinksFor t e P) = image_mset (\<lambda>p. the (held_by P p t)) (mset_set {p. held_by P p t \<noteq> None \<and> p \<noteq> except_name e})"
proof -
  define m where "m = or_empty (jm_get (pk_byTopic P) t)"
  let ?f = "filter (\<lambda>(p, _). p \<noteq> except_name e) m"
  have m: "jm_inv m" unfolding m_def by (rule inner_inv [OF assms])
  have v: "snd x = the (held_by P (fst x) t)" if "x \<in> set m" for x
  proof -
    have "(fst x, snd x) \<in> set m" using that by simp
    then have "jm_get m (fst x) = Some (snd x)" using m by (simp only: jm_get_iff_mem)
    then show ?thesis by (simp add: held_by_def m_def [symmetric])
  qed
  have s: "set (map fst ?f) = {p. held_by P p t \<noteq> None \<and> p \<noteq> except_name e}"
    unfolding held_by_def m_def [symmetric] jm_get_None_iff by (auto simp: jm_keys_def)
  have d: "distinct (map fst ?f)" using m by (simp add: jm_inv_def distinct_map_filter)
  have "mset (sinksFor t e P) = mset (map (\<lambda>x. the (held_by P (fst x) t)) ?f)"
    unfolding sinksFor_def m_def [symmetric] using v by (intro arg_cong [where f = mset] map_cong) auto
  also have "\<dots> = image_mset (\<lambda>p. the (held_by P p t)) (mset (map fst ?f))"
    by (simp add: image_mset.compositionality comp_def)
  also have "mset (map fst ?f) = mset_set (set (map fst ?f))"
    using d by (rule mset_set_set [symmetric])
  finally show ?thesis unfolding s .
qed

lemma holders_count:
  assumes "picks_inv P"
  shows "holders t P = card {p. held_by P p t \<noteq> None}"
  unfolding holders_of [OF assms]
  using inner_inv [OF assms, of t] by (simp add: holders_def distinct_card jm_inv_keys)

lemma no_picks_inv: "picks_inv no_picks" "held_by no_picks p t = None"
  by (simp_all add: picks_inv_def no_picks_def topicsOf_def held_by_def)

interpretation ps: pick_store picks_add picks_drop picks_forget sinksFor holders picks_inv held_by
proof
  fix P :: "'a picks" and t
  assume i: "picks_inv P"
  show "finite {p. held_by P p t \<noteq> None}" by (simp only: holders_of [OF i] finite_set)
qed (simp_all add: picks_add_inv picks_add_abs picks_drop_inv picks_drop_abs picks_forget_abs sinksFor_abs holders_count)

subsection \<open>A run of the store is a run of the partial function\<close>

datatype 'k pick_op =
    Add jstr jstr 'k
  | Take_off jstr jstr "'k option"
  | Forget jstr "'k option"
  | Told jstr "jstr option"

datatype 'k pick_out =
    Nothing
  | Did bool
  | Freed "jstr set"
  | Sinks "'k multiset"

fun picks_op :: "'k picks \<Rightarrow> 'k pick_op \<Rightarrow> 'k pick_out \<times> 'k picks" where
  "picks_op P (Add p t k) = (Nothing, picks_add p t k P)"
| "picks_op P (Take_off p t k) = (case picks_drop p t k P of (b, P') \<Rightarrow> (Did b, P'))"
| "picks_op P (Forget p k) = (case picks_forget p k P of (ts, P') \<Rightarrow> (Freed (set ts), P'))"
| "picks_op P (Told t e) = (Sinks (mset (sinksFor t e P)), P)"

fun held_op :: "'k held \<Rightarrow> 'k pick_op \<Rightarrow> 'k pick_out \<times> 'k held" where
  "held_op h (Add p t k) = (Nothing, hold_set p t (Some k) h)"
| "held_op h (Take_off p t k) = (Did (hold_match k (h p t)), if hold_match k (h p t) then hold_set p t None h else h)"
| "held_op h (Forget p k) = (Freed {t. hold_match k (h p t)}, hold_forget p k h)"
| "held_op h (Told t e) = (Sinks (image_mset (\<lambda>p. the (h p t)) (mset_set {p. h p t \<noteq> None \<and> p \<noteq> except_name e})), h)"

fun outputs :: "('s \<Rightarrow> 'i \<Rightarrow> 'x \<times> 's) \<Rightarrow> 's \<Rightarrow> 'i list \<Rightarrow> 'x list" where
  "outputs f s [] = []"
| "outputs f s (i # is) = (case f s i of (x, s') \<Rightarrow> x # outputs f s' is)"

lemma picks_op_sim:
  assumes "picks_inv P"
  shows "picks_inv (snd (picks_op P i)) \<and> held_op (held_by P) i = (fst (picks_op P i), held_by (snd (picks_op P i)))"
proof (cases i)
  case (Take_off p t k)
  then show ?thesis using ps.drop_ok [OF assms, of p t k] ps.drop_abs [OF assms, of p t k]
    by (auto split: prod.splits)
next
  case (Forget p k)
  then show ?thesis using ps.forget_ok [OF assms, of p k] ps.forget_abs [OF assms, of p k]
    by (auto split: prod.splits)
next
  case (Told t e)
  then show ?thesis using assms ps.sinks_abs [OF assms, of t e] by simp
qed (use assms in \<open>simp add: ps.add_ok ps.add_abs\<close>)

lemma picks_run_sim:
  assumes "picks_inv P"
  shows "outputs held_op (held_by P) is = outputs picks_op P is"
  using assms
proof (induction "is" arbitrary: P)
  case (Cons i "is")
  obtain x P' where e: "picks_op P i = (x, P')" by fastforce
  with picks_op_sim [OF Cons.prems, of i] Cons.IH [of P'] show ?case by simp
qed simp

text \<open>
  C38: the two maps of a pick registry are one partial function. Whatever is picked, dropped,
  forgotten and asked for, in any order, every answer is the one the function from peer and topic
  to stream gives: which topics a closed stream frees, whether a drop removed anything, and which
  streams a message goes to, each once.
\<close>
theorem picks_refine: "outputs picks_op no_picks is = outputs held_op (\<lambda>p t. None) is"
proof -
  have "held_by no_picks = (\<lambda>p t. None :: 'a option)" by (intro ext) (rule no_picks_inv)
  then show ?thesis using picks_run_sim [OF no_picks_inv(1), of "is"] by simp
qed

end
