(* ===== verification/Load.thy ===== *)
theory Load
  imports JsText
begin

section \<open>How full a relay is, and which relay to use (relay/load.mjs, lib/nodepick.ts)\<close>

text \<open>
  A relay announces a percentage; \<open>decodeLoad\<close> reads one, \<open>freshest\<close> and the load cache keep
  the newest of each node and drop what is old or dated ahead. \<open>pickFirst\<close> draws the relay to
  dial by weight, \<open>loginChoice\<close> and \<open>rebalanceChoice\<close> decide whether to move. Times and rolls
  are numbers that are not rounded.
\<close>

subsection \<open>Announcements\<close>

record load_reading =
  ld_node :: jstr
  ld_pct :: int
  ld_at :: rat

definition ANNOUNCE_MS :: rat where "ANNOUNCE_MS = 30000"
definition STALE_MS :: rat where "STALE_MS = 3 * ANNOUNCE_MS"

definition encodeLoad :: "js_env \<Rightarrow> jstr \<Rightarrow> int \<Rightarrow> int \<Rightarrow> bytes" where
  "encodeLoad J node pct atMs =
     js_stringify J (JObj [(js ''v'', num 1), (js ''n'', JStr (take 40 node)), (js ''pct'', num pct), (js ''at'', num atMs)])"

definition finite_num :: "json option \<Rightarrow> rat option" where
  "finite_num v = (case v of Some (JNum (Fin q)) \<Rightarrow> Some q | _ \<Rightarrow> None)"

definition decodeLoad :: "js_env \<Rightarrow> bytes \<Rightarrow> load_reading option" where
  "decodeLoad J b =
     (case js_parse J b of
        None \<Rightarrow> None
      | Some d \<Rightarrow>
          if field d ''v'' \<noteq> Some (num 1) then None
          else let n = str_val (field d ''n'') in
            if \<not> is_str (field d ''n'') \<or> n = [] \<or> length n > 40 then None
            else (case int_val (field d ''pct'') of
                None \<Rightarrow> None
              | Some p \<Rightarrow>
                  if p < 0 \<or> p > 100 then None
                  else map_option (\<lambda>t. \<lparr>ld_node = n, ld_pct = p, ld_at = t\<rparr>) (finite_num (field d ''at''))))"

definition usable :: "rat \<Rightarrow> rat \<Rightarrow> bool" where
  "usable now t = (now - t \<le> STALE_MS \<and> t \<le> now + ANNOUNCE_MS)"

fun freshest_from :: "rat \<Rightarrow> (jstr, load_reading) jmap \<Rightarrow> load_reading option list \<Rightarrow> (jstr, load_reading) jmap" where
  "freshest_from now best [] = best"
| "freshest_from now best (r # rs) = freshest_from now
     (case r of
        None \<Rightarrow> best
      | Some r \<Rightarrow>
          if now - ld_at r > STALE_MS \<or> ld_at r > now + ANNOUNCE_MS then best
          else (case jm_get best (ld_node r) of
              None \<Rightarrow> jm_set (ld_node r) r best
            | Some prev \<Rightarrow> if ld_at r > ld_at prev then jm_set (ld_node r) r best else best)) rs"

definition freshest :: "load_reading option list \<Rightarrow> rat \<Rightarrow> (jstr, load_reading) jmap" where
  "freshest readings now = freshest_from now [] readings"

record load_entry =
  le_from :: jstr
  le_data :: bytes
  le_at :: rat

type_synonym load_cache = "(jstr, load_entry) jmap"

definition cache_put :: "js_env \<Rightarrow> jstr \<Rightarrow> bytes \<Rightarrow> rat \<Rightarrow> load_cache \<Rightarrow> bool \<times> load_cache" where
  "cache_put J from data now L =
     (case decodeLoad J data of
        None \<Rightarrow> (False, L)
      | Some r \<Rightarrow>
          if ld_at r > now + ANNOUNCE_MS then (False, L)
          else (True, case jm_get L (ld_node r) of
              None \<Rightarrow> jm_set (ld_node r) \<lparr>le_from = from, le_data = data, le_at = ld_at r\<rparr> L
            | Some prev \<Rightarrow>
                if ld_at r \<ge> le_at prev then jm_set (ld_node r) \<lparr>le_from = from, le_data = data, le_at = ld_at r\<rparr> L else L))"

definition cache_snapshot :: "rat \<Rightarrow> load_cache \<Rightarrow> load_entry list" where
  "cache_snapshot now L = filter (\<lambda>e. usable now (le_at e)) (map snd L)"

subsection \<open>Which relay to dial first\<close>

text \<open>A node of the published list: its address and the weight it may carry.\<close>

type_synonym weighted = "jstr \<times> rat option"

definition weight_of :: "weighted \<Rightarrow> rat" where
  "weight_of n = (case snd n of None \<Rightarrow> 0 | Some w \<Rightarrow> if w > 0 then w else 0)"

text \<open>\<open>Math.min(Math.max(roll, 0), 0.999999)\<close>: not a number stays one.\<close>

definition clamp_roll :: "jsnum \<Rightarrow> rat option" where
  "clamp_roll roll = (case roll of
     Fin q \<Rightarrow> Some (min (max q 0) 0.999999) | PosInf \<Rightarrow> Some 0.999999 | NegInf \<Rightarrow> Some 0 | NaN \<Rightarrow> None)"

definition finite_roll :: "jsnum \<Rightarrow> rat" where
  "finite_roll roll = (case roll of Fin q \<Rightarrow> min (max q 0) 0.999999 | _ \<Rightarrow> 0)"

text \<open>The first index whose running sum passes the target.\<close>

fun first_past :: "rat \<Rightarrow> rat \<Rightarrow> nat \<Rightarrow> rat list \<Rightarrow> nat option" where
  "first_past target acc i [] = None"
| "first_past target acc i (w # ws) = (if target < acc + w then Some i else first_past target (acc + w) (Suc i) ws)"

fun find_index :: "('a \<Rightarrow> bool) \<Rightarrow> 'a list \<Rightarrow> int" where
  "find_index P [] = -1"
| "find_index P (x # xs) = (if P x then 0 else let i = find_index P xs in if i < 0 then -1 else i + 1)"

definition pickFirst :: "weighted list \<Rightarrow> jsnum \<Rightarrow> int" where
  "pickFirst nodes roll =
     (if length nodes \<le> 1 then 0
      else let weights = map weight_of nodes; wsum = sum_list weights in
        if wsum \<le> 0 then \<lfloor>finite_roll roll * of_nat (length nodes)\<rfloor>
        else (case clamp_roll roll of
            None \<Rightarrow> find_index (\<lambda>w. w > 0) weights
          | Some r \<Rightarrow> (case first_past (r * wsum) 0 0 weights of Some i \<Rightarrow> int i | None \<Rightarrow> find_index (\<lambda>w. w > 0) weights)))"

definition orderFrom :: "'a list \<Rightarrow> int \<Rightarrow> 'a list" where
  "orderFrom nodes first =
     (if first \<le> 0 \<or> first \<ge> int (length nodes) then nodes
      else let k = nat first in nodes ! k # take k nodes @ drop (Suc k) nodes)"

subsection \<open>Whether to move\<close>

definition MOVE_GAP :: int where "MOVE_GAP = 20"
definition HOT :: int where "HOT = 85"
definition COOL :: int where "COOL = 60"
definition HOT_FOR_MS :: rat where "HOT_FOR_MS = 60000"
definition REBALANCE_P :: rat where "REBALANCE_P = 0.2"
definition LOAD_STALE_MS :: rat where "LOAD_STALE_MS = 90000"

definition fresh_reading :: "rat \<Rightarrow> load_reading option \<Rightarrow> bool" where
  "fresh_reading now r = (case r of None \<Rightarrow> False | Some r \<Rightarrow> now - ld_at r \<le> LOAD_STALE_MS \<and> ld_at r \<le> now + 30000)"

text \<open>
  \<open>nodeKey\<close>: the first segment after \<open>/dns/\<close>, \<open>/dns4/\<close>, \<open>/dns6/\<close>, or else after
  \<open>/ip4/\<close> or \<open>/ip6/\<close>, up to its first dot.
\<close>

definition slash :: "16 word" where "slash = 0x2F"

definition segment_of :: "jstr \<Rightarrow> jstr option" where
  "segment_of s =
     (case s of
        [] \<Rightarrow> None
      | u # rest \<Rightarrow> if u = slash \<and> takeWhile (\<lambda>v. v \<noteq> slash) rest \<noteq> [] then Some (takeWhile (\<lambda>v. v \<noteq> slash) rest) else None)"

definition four_or_six :: "jstr \<Rightarrow> bool" where
  "four_or_six s = (s \<noteq> [] \<and> hd s \<in> {0x34, 0x36})"

definition dns_here :: "jstr \<Rightarrow> jstr option" where
  "dns_here s =
     (if take 4 s = js ''/dns'' then segment_of (if four_or_six (drop 4 s) then drop 5 s else drop 4 s) else None)"

definition ip_here :: "jstr \<Rightarrow> jstr option" where
  "ip_here s = (if take 3 s = js ''/ip'' \<and> four_or_six (drop 3 s) then segment_of (drop 4 s) else None)"

fun first_match :: "(jstr \<Rightarrow> jstr option) \<Rightarrow> jstr \<Rightarrow> jstr option" where
  "first_match f [] = f []"
| "first_match f (u # s) = (case f (u # s) of Some x \<Rightarrow> Some x | None \<Rightarrow> first_match f s)"

definition nodeKey :: "jstr \<Rightarrow> jstr" where
  "nodeKey addr =
     takeWhile (\<lambda>u. u \<noteq> 0x2E)
       (case first_match dns_here addr of
          Some h \<Rightarrow> h
        | None \<Rightarrow> (case first_match ip_here addr of Some h \<Rightarrow> h | None \<Rightarrow> addr))"

text \<open>The last segment of an address, where \<open>/p2p/\<close> stands before it.\<close>

definition p2p_of :: "jstr \<Rightarrow> jstr option" where
  "p2p_of a =
     (let x = rev (takeWhile (\<lambda>u. u \<noteq> slash) (rev a)); before = take (length a - length x) a in
      if x \<noteq> [] \<and> 5 \<le> length before \<and> drop (length before - 5) before = js ''/p2p/'' then Some x else None)"

definition loadFromItsNode :: "load_reading \<Rightarrow> jstr option \<Rightarrow> jstr list \<Rightarrow> (jstr \<Rightarrow> jstr) \<Rightarrow> rat \<Rightarrow> bool" where
  "loadFromItsNode r from candidates keyOf now =
     (case from of
        None \<Rightarrow> False
      | Some f \<Rightarrow>
          if f = [] \<or> ld_at r > now + 30000 then False
          else (case find (\<lambda>a. keyOf a = ld_node r) candidates of
              None \<Rightarrow> False
            | Some a \<Rightarrow> a \<noteq> [] \<and> p2p_of a = Some f))"

fun second_choice :: "rat \<Rightarrow> rat \<Rightarrow> (jstr \<times> rat) list \<Rightarrow> jstr option" where
  "second_choice r acc [] = None"
| "second_choice r acc ((k, w) # ks) = (if r < acc + w then Some k else second_choice r (acc + w) ks)"

definition loginChoice :: "jstr \<Rightarrow> jstr list \<Rightarrow> (jstr, load_reading) jmap \<Rightarrow> (jstr, rat) jmap \<Rightarrow> jsnum \<Rightarrow> rat \<Rightarrow> jstr option" where
  "loginChoice current candidates loads weights roll now =
     (let others = filter (\<lambda>k. k \<noteq> current) candidates in
      if others = [] then None
      else if \<not> fresh_reading now (jm_get loads current) then None
      else let ws = map (\<lambda>k. max 0 (case jm_get weights k of None \<Rightarrow> 1 | Some w \<Rightarrow> w)) others;
               wsum = sum_list ws;
               r = finite_roll roll * (if wsum \<noteq> 0 then wsum else of_nat (length others));
               steps = (if wsum \<noteq> 0 then ws else map (\<lambda>_. 1) others);
               other = (case second_choice r 0 (zip others steps) of Some k \<Rightarrow> k | None \<Rightarrow> hd others)
           in if \<not> fresh_reading now (jm_get loads other) then None
              else if ld_pct (the (jm_get loads current)) - ld_pct (the (jm_get loads other)) \<ge> MOVE_GAP then Some other
              else None)"

fun coolest :: "jstr \<Rightarrow> (jstr, load_reading) jmap \<Rightarrow> rat \<Rightarrow> (jstr \<times> load_reading) option \<Rightarrow> jstr list \<Rightarrow> (jstr \<times> load_reading) option" where
  "coolest current loads now best [] = best"
| "coolest current loads now best (k # ks) = coolest current loads now
     (if k = current \<or> \<not> fresh_reading now (jm_get loads k) \<or> ld_pct (the (jm_get loads k)) \<ge> COOL then best
      else let r = the (jm_get loads k) in
        case best of
          None \<Rightarrow> Some (k, r)
        | Some (k', b) \<Rightarrow> if ld_pct r < ld_pct b then Some (k, r) else best) ks"

definition rebalanceChoice :: "jstr \<Rightarrow> jstr list \<Rightarrow> (jstr, load_reading) jmap \<Rightarrow> rat option \<Rightarrow> jsnum \<Rightarrow> rat \<Rightarrow> jstr option" where
  "rebalanceChoice current candidates loads hotSince roll now =
     (if \<not> fresh_reading now (jm_get loads current) \<or> ld_pct (the (jm_get loads current)) < HOT then None
      else case hotSince of
        None \<Rightarrow> None
      | Some since \<Rightarrow>
          if now - since < HOT_FOR_MS then None
          else if \<not> (case roll of Fin q \<Rightarrow> q < REBALANCE_P | NegInf \<Rightarrow> True | _ \<Rightarrow> False) then None
          else map_option fst (coolest current loads now None candidates))"

subsection \<open>Lemmas\<close>

lemma weight_of_ge [simp]: "0 \<le> weight_of n"
  by (simp add: weight_of_def split: option.splits)

lemma find_index_pos:
  assumes "\<exists>x\<in>set xs. P x"
  shows "0 \<le> find_index P xs \<and> find_index P xs < int (length xs) \<and> P (xs ! nat (find_index P xs))"
  using assms
proof (induction xs)
  case (Cons x xs)
  show ?case
  proof (cases "P x")
    case False
    then have "\<exists>y\<in>set xs. P y" using Cons.prems by simp
    from Cons.IH [OF this] False show ?thesis by (simp add: Let_def nat_add_distrib)
  qed simp
qed simp

lemma first_past_iff:
  assumes "\<forall>w\<in>set ws. 0 \<le> w"
  shows "first_past target acc i ws = Some k \<longleftrightarrow>
    i \<le> k \<and> k < i + length ws \<and> (k = i \<or> acc + sum_list (take (k - i) ws) \<le> target)
    \<and> target < acc + sum_list (take (Suc (k - i)) ws)"
  using assms
proof (induction ws arbitrary: acc i)
  case (Cons w ws)
  show ?case
  proof (cases "target < acc + w")
    case True
    have "0 \<le> sum_list (take j ws)" for j using Cons.prems by (intro sum_list_nonneg) (auto dest: in_set_takeD)
    then have "target < acc + sum_list (take (k - i) (w # ws))" if "i < k"
      using True that by (cases "k - i") (auto simp: add.assoc [symmetric] intro: less_le_trans)
    then have "i < k \<Longrightarrow> \<not> acc + sum_list (take (k - i) (w # ws)) \<le> target" by (simp add: not_le)
    then show ?thesis using True by (cases "i < k") auto
  next
    case False
    show ?thesis
    proof (cases "k = i")
      case True
      then show ?thesis using False Cons.IH [of "acc + w" "Suc i"] Cons.prems by auto
    next
      case ne: False
      then have "Suc i \<le> k \<longleftrightarrow> i \<le> k" by auto
      moreover have "k - i = Suc (k - Suc i)" if "Suc i \<le> k" using that by simp
      ultimately show ?thesis using False ne Cons.IH [of "acc + w" "Suc i"] Cons.prems
        by (cases "k = Suc i") (auto simp: add.assoc)
    qed
  qed
qed simp

lemma first_past_exists:
  assumes "target < acc + sum_list ws" "acc \<le> target"
  shows "\<exists>k. first_past target acc i ws = Some k"
  using assms
proof (induction ws arbitrary: acc i)
  case (Cons w ws)
  show ?case using Cons.IH [of "acc + w" "Suc i"] Cons.prems by (auto simp: add.assoc not_less)
qed simp

lemma weighted_pick:
  assumes "2 \<le> length nodes" "\<exists>n\<in>set nodes. 0 < weight_of n"
  shows "0 \<le> pickFirst nodes roll \<and> pickFirst nodes roll < int (length nodes) \<and> 0 < weight_of (nodes ! nat (pickFirst nodes roll))"
proof -
  let ?ws = "map weight_of nodes"
  have s: "0 < sum_list ?ws"
    using assms(2) sum_list_nonneg_eq_0_iff [of ?ws] sum_list_nonneg [of ?ws] by force
  have f: "0 \<le> find_index (\<lambda>w. w > 0) ?ws \<and> find_index (\<lambda>w. w > 0) ?ws < int (length ?ws)
      \<and> ?ws ! nat (find_index (\<lambda>w. w > 0) ?ws) > 0"
    using assms(2) by (intro find_index_pos) auto
  show ?thesis
  proof (cases "clamp_roll roll")
    case None
    then show ?thesis using f s assms(1) by (auto simp: pickFirst_def Let_def nat_less_iff)
  next
    case (Some r)
    then have r: "0 \<le> r" "r < 1" by (auto simp: clamp_roll_def split: jsnum.splits)
    then have "r * sum_list ?ws < sum_list ?ws" "0 \<le> r * sum_list ?ws" using s by auto
    then obtain k where k: "first_past (r * sum_list ?ws) 0 0 ?ws = Some k"
      using first_past_exists [of "r * sum_list ?ws" 0 ?ws 0] by auto
    then have p: "k < length nodes" "k = 0 \<or> sum_list (take k ?ws) \<le> r * sum_list ?ws" "r * sum_list ?ws < sum_list (take (Suc k) ?ws)"
      using first_past_iff [of ?ws "r * sum_list ?ws" 0 0 k] by auto
    have "sum_list (take (Suc k) ?ws) = sum_list (take k ?ws) + weight_of (nodes ! k)"
      using p(1) by (simp add: take_Suc_conv_app_nth)
    moreover have "sum_list (take k ?ws) \<le> r * sum_list ?ws" using p(2) r s by auto
    ultimately have "0 < weight_of (nodes ! k)" using p(3) by linarith
    then show ?thesis using k p(1) s Some assms(1) by (simp add: pickFirst_def Let_def)
  qed
qed

lemma weighted_share:
  assumes "2 \<le> length nodes" "\<exists>n\<in>set nodes. 0 < weight_of n" "0 \<le> q" "q \<le> 0.999999" "k < length nodes"
  shows "pickFirst nodes (Fin q) = int k \<longleftrightarrow>
    sum_list (map weight_of (take k nodes)) \<le> q * sum_list (map weight_of nodes)
    \<and> q * sum_list (map weight_of nodes) < sum_list (map weight_of (take (Suc k) nodes))"
proof -
  let ?ws = "map weight_of nodes"
  have s: "0 < sum_list ?ws"
    using assms(2) sum_list_nonneg_eq_0_iff [of ?ws] sum_list_nonneg [of ?ws] by force
  have c: "clamp_roll (Fin q) = Some q" using assms(3,4) by (simp add: clamp_roll_def)
  have t: "0 \<le> q * sum_list ?ws" "q * sum_list ?ws < sum_list ?ws" using s assms(3,4) by auto
  obtain j where j: "first_past (q * sum_list ?ws) 0 0 ?ws = Some j"
    using first_past_exists [of "q * sum_list ?ws" 0 ?ws 0] t by auto
  have "pickFirst nodes (Fin q) = int j" using j s c assms(1) by (simp add: pickFirst_def Let_def)
  moreover have "first_past (q * sum_list ?ws) 0 0 ?ws = Some k \<longleftrightarrow> (k = 0 \<or> sum_list (take k ?ws) \<le> q * sum_list ?ws)
      \<and> q * sum_list ?ws < sum_list (take (Suc k) ?ws)"
    using first_past_iff [of ?ws "q * sum_list ?ws" 0 0 k] assms(5) by auto
  moreover have "k = 0 \<or> sum_list (take k ?ws) \<le> q * sum_list ?ws \<longleftrightarrow> sum_list (take k ?ws) \<le> q * sum_list ?ws"
    using t by auto
  ultimately show ?thesis using j by (auto simp: take_map [symmetric])
qed

lemma coolest_best:
  assumes "coolest cur loads now best ks = Some (k, r)"
    and "\<And>k' b. best = Some (k', b) \<Longrightarrow> k' \<noteq> cur \<and> jm_get loads k' = Some b \<and> fresh_reading now (Some b) \<and> ld_pct b < COOL"
  shows "(k \<in> set ks \<or> (\<exists>b. best = Some (k, b))) \<and> k \<noteq> cur \<and> jm_get loads k = Some r \<and> fresh_reading now (Some r) \<and> ld_pct r < COOL
    \<and> (\<forall>k' b. best = Some (k', b) \<longrightarrow> ld_pct r \<le> ld_pct b)
    \<and> (\<forall>k'\<in>set ks. \<forall>r'. k' \<noteq> cur \<and> jm_get loads k' = Some r' \<and> fresh_reading now (Some r') \<longrightarrow> ld_pct r \<le> ld_pct r')"
  using assms
proof (induction ks arbitrary: best)
  case (Cons x ks)
  let ?skip = "x = cur \<or> \<not> fresh_reading now (jm_get loads x) \<or> ld_pct (the (jm_get loads x)) \<ge> COOL"
  show ?case
  proof (cases ?skip)
    case True
    then have e: "coolest cur loads now best ks = Some (k, r)" using Cons.prems(1) by simp
    note h = Cons.IH [OF e Cons.prems(2)]
    have "ld_pct r \<le> ld_pct r'" if "x \<noteq> cur" "jm_get loads x = Some r'" "fresh_reading now (Some r')" for r'
      using that True h by auto
    with h show ?thesis by auto
  next
    case False
    then obtain rx where x: "x \<noteq> cur" "jm_get loads x = Some rx" "fresh_reading now (Some rx)" "ld_pct rx < COOL"
      by (cases "jm_get loads x") (auto simp: fresh_reading_def)
    define best' where "best' = (case best of None \<Rightarrow> Some (x, rx) | Some (k', b) \<Rightarrow> if ld_pct rx < ld_pct b then Some (x, rx) else best)"
    have e: "coolest cur loads now best' ks = Some (k, r)" using Cons.prems(1) x by (simp add: best'_def Let_def)
    have ok: "k' \<noteq> cur \<and> jm_get loads k' = Some b \<and> fresh_reading now (Some b) \<and> ld_pct b < COOL" if "best' = Some (k', b)" for k' b
      using that x Cons.prems(2) by (auto simp: best'_def split: option.splits if_splits)
    note h = Cons.IH [OF e ok]
    have bx: "\<exists>k' b. best' = Some (k', b) \<and> ld_pct b \<le> ld_pct rx \<and> (\<forall>k'' b'. best = Some (k'', b') \<longrightarrow> ld_pct b \<le> ld_pct b')
        \<and> (k' = x \<or> best = Some (k', b))"
      by (cases best) (auto simp: best'_def)
    then obtain k0 b0 where b0: "best' = Some (k0, b0)" "ld_pct b0 \<le> ld_pct rx"
        "\<And>k'' b'. best = Some (k'', b') \<Longrightarrow> ld_pct b0 \<le> ld_pct b'" "k0 = x \<or> best = Some (k0, b0)" by blast
    then have "ld_pct r \<le> ld_pct b0" using h by blast
    then show ?thesis using h b0 x by (auto intro: order_trans)
  qed
qed auto

lemma rebalance_moves:
  assumes "rebalanceChoice cur cs loads hotSince roll now = Some k"
  shows "\<exists>mine r t. jm_get loads cur = Some mine \<and> fresh_reading now (Some mine) \<and> HOT \<le> ld_pct mine
    \<and> hotSince = Some t \<and> HOT_FOR_MS \<le> now - t
    \<and> k \<in> set cs \<and> k \<noteq> cur \<and> jm_get loads k = Some r \<and> fresh_reading now (Some r) \<and> ld_pct r < COOL
    \<and> (\<forall>k'\<in>set cs. \<forall>r'. k' \<noteq> cur \<and> jm_get loads k' = Some r' \<and> fresh_reading now (Some r') \<longrightarrow> ld_pct r \<le> ld_pct r')"
proof -
  obtain mine where m: "jm_get loads cur = Some mine" "fresh_reading now (Some mine)" "HOT \<le> ld_pct mine"
    using assms by (cases "jm_get loads cur") (auto simp: rebalanceChoice_def fresh_reading_def split: if_splits)
  obtain t where t: "hotSince = Some t" "HOT_FOR_MS \<le> now - t"
    using assms by (cases hotSince) (auto simp: rebalanceChoice_def split: if_splits)
  obtain r where "coolest cur loads now None cs = Some (k, r)"
    using assms by (auto simp: rebalanceChoice_def split: if_splits option.splits)
  from coolest_best [OF this] show ?thesis using m t by auto
qed

lemma second_choice_mem: "second_choice r acc ks = Some k \<Longrightarrow> k \<in> fst ` set ks"
  by (induction r acc ks rule: second_choice.induct) (auto split: if_splits)

lemma login_moves:
  assumes "loginChoice cur cs loads ws roll now = Some k"
  shows "\<exists>mine r. jm_get loads cur = Some mine \<and> fresh_reading now (Some mine)
    \<and> k \<in> set cs \<and> k \<noteq> cur \<and> jm_get loads k = Some r \<and> fresh_reading now (Some r) \<and> MOVE_GAP \<le> ld_pct mine - ld_pct r"
proof -
  let ?o = "filter (\<lambda>k. k \<noteq> cur) cs"
  have o: "?o \<noteq> []" using assms by (auto simp: loginChoice_def)
  obtain mine where m: "jm_get loads cur = Some mine" "fresh_reading now (Some mine)"
    using assms by (cases "jm_get loads cur") (auto simp: loginChoice_def fresh_reading_def Let_def split: if_splits)
  obtain r s where k: "k = (case second_choice s 0 (zip ?o r) of Some k \<Rightarrow> k | None \<Rightarrow> hd ?o)"
    and g: "fresh_reading now (jm_get loads k)" "MOVE_GAP \<le> ld_pct mine - ld_pct (the (jm_get loads k))"
    using assms m o unfolding loginChoice_def Let_def by (auto split: if_splits)
  have "k \<in> set ?o"
  proof (cases "second_choice s 0 (zip ?o r)")
    case None
    then show ?thesis using k o by (simp only: option.case) (rule hd_in_set)
  next
    case (Some k')
    then have "k' \<in> fst ` set (zip ?o r)" by (rule second_choice_mem)
    then show ?thesis using k Some by (auto dest: set_zip_leftD)
  qed
  then have "k \<in> set cs" "k \<noteq> cur" by auto
  moreover obtain r' where "jm_get loads k = Some r'" using g(1) by (cases "jm_get loads k") (auto simp: fresh_reading_def)
  ultimately show ?thesis using m g by auto
qed

subsection \<open>Properties\<close>

text \<open>
  The first relay is drawn by weight. With at least two relays of which one carries a weight,
  whatever the roll is, the relay dialled carries one; and for a roll within bounds relay \<open>k\<close> is
  drawn exactly on the part of the range that its weight takes of the sum.
\<close>
theorem dial_follows_weights:
  assumes "2 \<le> length nodes" "\<exists>n\<in>set nodes. 0 < weight_of n"
  shows "(0 \<le> pickFirst nodes roll \<and> pickFirst nodes roll < int (length nodes) \<and> 0 < weight_of (nodes ! nat (pickFirst nodes roll)))
    \<and> (\<forall>q k. 0 \<le> q \<and> q \<le> 0.999999 \<and> k < length nodes \<longrightarrow>
         (pickFirst nodes (Fin q) = int k \<longleftrightarrow>
            sum_list (map weight_of (take k nodes)) \<le> q * sum_list (map weight_of nodes)
            \<and> q * sum_list (map weight_of nodes) < sum_list (map weight_of (take (Suc k) nodes))))"
proof (intro conjI allI impI)
  show "0 \<le> pickFirst nodes roll" "pickFirst nodes roll < int (length nodes)" "0 < weight_of (nodes ! nat (pickFirst nodes roll))"
    using weighted_pick [OF assms, of roll] by blast+
  fix q :: rat and k :: nat
  assume "0 \<le> q \<and> q \<le> 0.999999 \<and> k < length nodes"
  then show "pickFirst nodes (Fin q) = int k \<longleftrightarrow>
      sum_list (map weight_of (take k nodes)) \<le> q * sum_list (map weight_of nodes)
      \<and> q * sum_list (map weight_of nodes) < sum_list (map weight_of (take (Suc k) nodes))"
    by (intro weighted_share [OF assms]) auto
qed

definition demo_nodes :: "weighted list" where
  "demo_nodes = [(js ''bs4'', Some 7), (js ''bs2'', Some 3), (js ''bs1'', Some 0)]"

theorem dial_follows_weights_witness:
  "pickFirst demo_nodes (Fin 0.8) = 1 \<and> 0 < weight_of (demo_nodes ! nat (pickFirst demo_nodes NaN))"
proof -
  have h: "2 \<le> length demo_nodes" "\<exists>n\<in>set demo_nodes. 0 < weight_of n" by (simp_all add: demo_nodes_def weight_of_def)
  note d = dial_follows_weights [OF h]
  have "pickFirst demo_nodes (Fin 0.8) = int 1"
    by (rule d [THEN conjunct2, rule_format, THEN iffD2]) (simp_all add: demo_nodes_def weight_of_def)
  moreover have "0 < weight_of (demo_nodes ! nat (pickFirst demo_nodes NaN))" using d [of NaN] by blast
  ultimately show ?thesis by simp
qed

text \<open>
  A client changes its relay only for a reason. At login it moves to another candidate whose
  fresh reading is lighter than that of its own relay by the margin; later it moves only off a
  relay that reads hot and has been hot for the whole dwell, and then to the least loaded of the
  candidates with a fresh reading that is cool.
\<close>
theorem moves_for_load:
  shows "(\<forall>k. loginChoice cur cs loads ws roll now = Some k \<longrightarrow>
      (\<exists>mine r. jm_get loads cur = Some mine \<and> fresh_reading now (Some mine)
        \<and> k \<in> set cs \<and> k \<noteq> cur \<and> jm_get loads k = Some r \<and> fresh_reading now (Some r) \<and> MOVE_GAP \<le> ld_pct mine - ld_pct r))
    \<and> (\<forall>k. rebalanceChoice cur cs loads hotSince roll now = Some k \<longrightarrow>
      (\<exists>mine r t. jm_get loads cur = Some mine \<and> fresh_reading now (Some mine) \<and> HOT \<le> ld_pct mine
        \<and> hotSince = Some t \<and> HOT_FOR_MS \<le> now - t
        \<and> k \<in> set cs \<and> k \<noteq> cur \<and> jm_get loads k = Some r \<and> fresh_reading now (Some r) \<and> ld_pct r < COOL
        \<and> (\<forall>k'\<in>set cs. \<forall>r'. k' \<noteq> cur \<and> jm_get loads k' = Some r' \<and> fresh_reading now (Some r') \<longrightarrow> ld_pct r \<le> ld_pct r')))"
  using login_moves rebalance_moves by blast

definition demo_loads :: "(jstr, load_reading) jmap" where
  "demo_loads = [([1], \<lparr>ld_node = [1], ld_pct = 90, ld_at = 0\<rparr>), ([2], \<lparr>ld_node = [2], ld_pct = 30, ld_at = 0\<rparr>),
     ([3], \<lparr>ld_node = [3], ld_pct = 10, ld_at = 0\<rparr>)]"

theorem moves_for_load_witness:
  "rebalanceChoice [1] [[1], [2], [3]] demo_loads (Some 0) (Fin 0.1) 60000 = Some [3]
   \<and> (\<exists>r. jm_get demo_loads [3] = Some r \<and> ld_pct r < COOL)"
proof -
  have "rebalanceChoice [1] [[1], [2], [3]] demo_loads (Some 0) (Fin 0.1) 60000 = Some [3]"
    by (simp add: rebalanceChoice_def demo_loads_def fresh_reading_def HOT_def COOL_def HOT_FOR_MS_def REBALANCE_P_def LOAD_STALE_MS_def)
  then show ?thesis
    using moves_for_load [where cur = "[1]" and cs = "[[1], [2], [3]]" and loads = demo_loads and roll = "Fin 0.1"
        and now = 60000 and hotSince = "Some 0"] by blast
qed

end
