(* ===== verification/RelayNode.thy ===== *)
theory RelayNode
  imports Picks Load
begin

section \<open>The relay (relay/relay.mjs, limits.mjs, and the rules of topics.mjs it uses)\<close>

text \<open>
  One relay: the topics it is subscribed to, the validator of each, the quota, the pick registry,
  when each topic was last heard, the load cache and the open pick streams. Subscribing,
  validating and publishing are GossipSub's, a library: its documented behaviour is that
  \<open>subscribe\<close> and \<open>unsubscribe\<close> add to and take from what \<open>getTopics\<close> lists, and that a message
  is handed on only for a subscribed topic whose validator accepts it. A handler that publishes
  waits, so a PUSH is two steps: \<open>take_frame\<close> starts it and \<open>published\<close> goes on with its reach.
  A handler that throws ends its stream; the clean-up \<open>bye\<close> is taken in the same step. What
  goes out is a list of \<open>relay_effect\<close>; log lines and statistics are left out.
\<close>

subsection \<open>Limits and rules\<close>

definition MAX_FRAME_BYTES :: nat where "MAX_FRAME_BYTES = 65536"

definition oversize :: "bytes \<Rightarrow> bool" where
  "oversize data = (length data > MAX_FRAME_BYTES)"

datatype validator = FrameValidator | LoadValidator

definition LOAD_TOPIC :: jstr where
  "LOAD_TOPIC = js ''dbpurn7xlenubexntkrtyghy34n6ulz3rmfdmqu2pt3mxbmiw4tq''"

record relay_cfg =
  rc_self :: jstr
  rc_siblings :: "jstr list"
  rc_localOnly :: bool
  rc_maxTopics :: nat
  rc_perPeer :: nat
  rc_idleTtl :: int
  rc_json :: js_env

definition frameValidator :: "bytes \<Rightarrow> bool" where
  "frameValidator data = (\<not> oversize data)"

definition loadValidator :: "jstr list \<Rightarrow> jstr \<Rightarrow> jstr \<Rightarrow> bytes \<Rightarrow> bool" where
  "loadValidator siblings selfId from data =
     (if oversize data \<or> from = [] then False else from \<in> set siblings \<or> from = selfId)"

definition shouldJoin :: "jstr \<Rightarrow> jstr list \<Rightarrow> bool \<Rightarrow> bool" where
  "shouldJoin peer siblings localOnly = (if \<not> localOnly then True else peer \<notin> set siblings)"

definition evictable :: "int \<Rightarrow> int option \<Rightarrow> nat \<Rightarrow> int \<Rightarrow> bool" where
  "evictable now lastSeen held ttlMs = (held = 0 \<and> now - (case lastSeen of None \<Rightarrow> 0 | Some t \<Rightarrow> t) > ttlMs)"

subsection \<open>State\<close>

record pick_stream =
  st_peer :: jstr
  st_open :: bool \<comment> \<open>the outgoing side takes frames\<close>
  st_loop :: bool \<comment> \<open>the reading loop runs\<close>
  st_push :: "(jstr \<times> bytes) option" \<comment> \<open>the publish it waits for\<close>

record relay =
  rl_topics :: "jstr list"
  rl_validators :: "(jstr, validator) jmap"
  rl_quota :: quota
  rl_picks :: "nat picks"
  rl_lastSeen :: "(jstr, int) jmap"
  rl_cache :: load_cache
  rl_streams :: "(nat, pick_stream) jmap"

datatype relay_effect =
    Send nat bytes \<comment> \<open>a frame on the stream\<close>
  | Publish jstr bytes

definition relay_start :: relay where
  "relay_start = \<lparr>rl_topics = [LOAD_TOPIC], rl_validators = [(LOAD_TOPIC, LoadValidator)], rl_quota = [], rl_picks = no_picks,
     rl_lastSeen = [], rl_cache = [], rl_streams = []\<rparr>"

subsection \<open>A pick stream\<close>

text \<open>\<open>send\<close>: a stream that was ended takes nothing more.\<close>

definition send :: "nat \<Rightarrow> bytes \<Rightarrow> relay \<Rightarrow> relay_effect list" where
  "send s b R = (case jm_get (rl_streams R) s of Some st \<Rightarrow> (if st_open st then [Send s b] else []) | None \<Rightarrow> [])"

definition release_all :: "jstr \<Rightarrow> jstr list \<Rightarrow> quota \<Rightarrow> quota" where
  "release_all p ts Q = foldl (\<lambda>Q t. quota_release p t Q) Q ts"

definition bye :: "nat \<Rightarrow> relay \<Rightarrow> relay" where
  "bye s R =
     (case jm_get (rl_streams R) s of
        None \<Rightarrow> R
      | Some st \<Rightarrow>
          (case picks_forget (st_peer st) (Some s) (rl_picks R) of (freed, P) \<Rightarrow>
             R\<lparr>rl_picks := P, rl_quota := release_all (st_peer st) freed (rl_quota R),
               rl_streams := jm_set s (st\<lparr>st_open := False\<rparr>) (rl_streams R)\<rparr>))"

text \<open>The reading loop ends, by the stream's end or by a throw in it.\<close>

definition loop_over :: "nat \<Rightarrow> relay \<Rightarrow> relay" where
  "loop_over s R =
     (let R1 = bye s R in
      case jm_get (rl_streams R1) s of
        None \<Rightarrow> R1
      | Some st \<Rightarrow> R1\<lparr>rl_streams := jm_set s (st\<lparr>st_loop := False, st_push := None\<rparr>) (rl_streams R1)\<rparr>)"

text \<open>The source has ended: the loop sees it when it reads again, not while it waits for a publish.\<close>

definition source_end :: "nat \<Rightarrow> relay \<Rightarrow> relay" where
  "source_end s R =
     (case jm_get (rl_streams R) s of
        None \<Rightarrow> R
      | Some st \<Rightarrow> if st_push st \<noteq> None then R else loop_over s R)"

definition answer :: "nat \<Rightarrow> bytes option \<Rightarrow> relay \<Rightarrow> relay_effect list \<times> relay" where
  "answer s b R = (case b of None \<Rightarrow> ([], loop_over s R) | Some b \<Rightarrow> (send s b R, R))"

definition take_drop :: "nat \<Rightarrow> jstr \<Rightarrow> jstr \<Rightarrow> relay \<Rightarrow> relay" where
  "take_drop s peer topic R =
     (case picks_drop peer topic (Some s) (rl_picks R) of (did, P) \<Rightarrow>
        R\<lparr>rl_picks := P, rl_quota := (if did then quota_release peer topic (rl_quota R) else rl_quota R)\<rparr>)"

definition take_push :: "nat \<Rightarrow> pick_stream \<Rightarrow> jstr \<Rightarrow> bytes \<Rightarrow> relay \<Rightarrow> relay_effect list \<times> relay" where
  "take_push s st topic data R =
     (if topic = LOAD_TOPIC then answer s (encodeAck topic 0) R
      else if oversize data then answer s (encodeAck topic 0) R
      else ([Publish topic data], R\<lparr>rl_streams := jm_set s (st\<lparr>st_push := Some (topic, data)\<rparr>) (rl_streams R)\<rparr>))"

definition deliver_all :: "bytes \<Rightarrow> nat list \<Rightarrow> relay \<Rightarrow> relay_effect list" where
  "deliver_all b sinks R = concat (map (\<lambda>k. send k b R) sinks)"

text \<open>The publish is done: it reached so many peers, or it threw.\<close>

definition published :: "int \<Rightarrow> nat \<Rightarrow> nat option \<Rightarrow> relay \<Rightarrow> relay_effect list \<times> relay" where
  "published now s reached R =
     (case jm_get (rl_streams R) s of
        None \<Rightarrow> ([], R)
      | Some st \<Rightarrow> (case st_push st of
            None \<Rightarrow> ([], R)
          | Some (topic, data) \<Rightarrow>
              let R0 = R\<lparr>rl_streams := jm_set s (st\<lparr>st_push := None\<rparr>) (rl_streams R)\<rparr> in
              (case encodeDeliver (st_peer st) topic data of
                 None \<Rightarrow> ([], loop_over s R0)
               | Some frame \<Rightarrow>
                   let sinks = sinksFor topic (Some (st_peer st)) (rl_picks R0);
                       reach = (case reached of None \<Rightarrow> 0 | Some n \<Rightarrow> n) + length sinks;
                       R1 = R0\<lparr>rl_lastSeen := jm_set topic now (rl_lastSeen R0)\<rparr>
                   in (case answer s (encodeAck topic (int reach)) R1 of
                         (es, R2) \<Rightarrow> (deliver_all frame sinks R0 @ es, R2)))))"

definition replay_loads :: "rat \<Rightarrow> nat \<Rightarrow> relay \<Rightarrow> relay_effect list" where
  "replay_loads now s R =
     concat (map (\<lambda>e. case encodeDeliver (le_from e) LOAD_TOPIC (le_data e) of None \<Rightarrow> [] | Some b \<Rightarrow> send s b R)
       (takeWhile (\<lambda>e. encodeDeliver (le_from e) LOAD_TOPIC (le_data e) \<noteq> None) (cache_snapshot now (rl_cache R))))"

definition replay_throws :: "rat \<Rightarrow> relay \<Rightarrow> bool" where
  "replay_throws now R =
     list_ex (\<lambda>e. encodeDeliver (le_from e) LOAD_TOPIC (le_data e) = None) (cache_snapshot now (rl_cache R))"

definition take_pick :: "relay_cfg \<Rightarrow> int \<Rightarrow> nat \<Rightarrow> jstr \<Rightarrow> jstr \<Rightarrow> relay \<Rightarrow> relay_effect list \<times> relay" where
  "take_pick cfg now s peer topic R =
     (let already = topic \<in> set (rl_topics R);
          (ok, Q) = quota_claim (rc_perPeer cfg) peer topic (rl_quota R)
      in if \<not> ok \<or> (\<not> already \<and> length (rl_topics R) \<ge> rc_maxTopics cfg)
         then answer s (encodeRefused topic) (R\<lparr>rl_quota := quota_release peer topic Q\<rparr>)
         else let R1 = R\<lparr>rl_quota := Q,
                 rl_topics := (if already then rl_topics R else rl_topics R @ [topic]),
                 rl_validators := (if already then rl_validators R else jm_set topic FrameValidator (rl_validators R)),
                 rl_lastSeen := jm_set topic now (rl_lastSeen R),
                 rl_picks := picks_add peer topic s (rl_picks R)\<rparr>
           in case encodePicked topic of
                None \<Rightarrow> ([], loop_over s R1)
              | Some b \<Rightarrow>
                  if topic = LOAD_TOPIC
                  then (send s b R1 @ replay_loads (of_int now) s R1,
                        if replay_throws (of_int now) R1 then loop_over s R1 else R1)
                  else (send s b R1, R1))"

definition take_frame :: "relay_cfg \<Rightarrow> int \<Rightarrow> nat \<Rightarrow> bytes \<Rightarrow> relay \<Rightarrow> relay_effect list \<times> relay" where
  "take_frame cfg now s chunk R =
     (case jm_get (rl_streams R) s of
        None \<Rightarrow> ([], R)
      | Some st \<Rightarrow>
          if \<not> st_loop st \<or> st_push st \<noteq> None then ([], R)
          else (case decodeFrame chunk of
              Some (FDrop topic) \<Rightarrow> ([], take_drop s (st_peer st) topic R)
            | Some (FPush topic data) \<Rightarrow> take_push s st topic data R
            | Some (FPick topic) \<Rightarrow> take_pick cfg now s (st_peer st) topic R
            | _ \<Rightarrow> ([], R)))"

definition open_stream :: "nat \<Rightarrow> jstr \<Rightarrow> relay \<Rightarrow> relay" where
  "open_stream s peer R =
     (if jm_has (rl_streams R) s then R
      else R\<lparr>rl_streams := jm_set s \<lparr>st_peer = peer, st_open = True, st_loop = True, st_push = None\<rparr> (rl_streams R)\<rparr>)"

subsection \<open>GossipSub\<close>

text \<open>One entry of \<open>subscription-change\<close>.\<close>

definition subscription :: "relay_cfg \<Rightarrow> int \<Rightarrow> jstr \<Rightarrow> jstr \<Rightarrow> bool \<Rightarrow> relay \<Rightarrow> relay" where
  "subscription cfg now asker topic subscribe R =
     (if subscribe \<and> \<not> shouldJoin asker (rc_siblings cfg) (rc_localOnly cfg) then R
      else let R1 = (if subscribe then R else R\<lparr>rl_quota := quota_release asker topic (rl_quota R)\<rparr>);
               (ok, Q) = (if subscribe \<and> asker \<notin> set (rc_siblings cfg) then quota_claim (rc_perPeer cfg) asker topic (rl_quota R1)
                          else (True, rl_quota R1));
               R2 = R1\<lparr>rl_quota := Q\<rparr>
           in if \<not> ok then R2
              else if subscribe \<and> topic \<notin> set (rl_topics R2) then
                (if length (rl_topics R2) \<ge> rc_maxTopics cfg then R2
                 else R2\<lparr>rl_topics := rl_topics R2 @ [topic], rl_validators := jm_set topic FrameValidator (rl_validators R2),
                   rl_lastSeen := jm_set topic now (rl_lastSeen R2)\<rparr>)
              else R2)"

fun subscription_change :: "relay_cfg \<Rightarrow> int \<Rightarrow> jstr \<Rightarrow> (jstr \<times> bool) list \<Rightarrow> relay \<Rightarrow> relay" where
  "subscription_change cfg now asker [] R = R"
| "subscription_change cfg now asker ((topic, subscribe) # subs) R =
     subscription_change cfg now asker subs (subscription cfg now asker topic subscribe R)"

text \<open>What GossipSub hands on: a subscribed topic, and its validator accepts.\<close>

definition accepted :: "relay_cfg \<Rightarrow> jstr \<Rightarrow> jstr \<Rightarrow> bytes \<Rightarrow> relay \<Rightarrow> bool" where
  "accepted cfg from topic data R =
     (topic \<in> set (rl_topics R) \<and>
      (case jm_get (rl_validators R) topic of
         None \<Rightarrow> True
       | Some FrameValidator \<Rightarrow> frameValidator data
       | Some LoadValidator \<Rightarrow> loadValidator (rc_siblings cfg) (rc_self cfg) from data))"

text \<open>The \<open>message\<close> listener; \<open>None\<close> is a throw in it, which nobody catches.\<close>

definition on_message :: "relay_cfg \<Rightarrow> int \<Rightarrow> jstr \<Rightarrow> jstr \<Rightarrow> bytes \<Rightarrow> relay \<Rightarrow> (relay_effect list \<times> relay) option" where
  "on_message cfg now from topic data R =
     (let R1 = R\<lparr>rl_lastSeen := jm_set topic now (rl_lastSeen R)\<rparr>;
          R2 = (if topic = LOAD_TOPIC then R1\<lparr>rl_cache := snd (cache_put (rc_json cfg) from data (of_int now) (rl_cache R1))\<rparr> else R1);
          sinks = sinksFor topic (Some from) (rl_picks R2)
      in if sinks = [] then Some ([], R2)
         else (case encodeDeliver from topic data of
             None \<Rightarrow> None
           | Some frame \<Rightarrow> Some (deliver_all frame sinks R2, R2)))"

definition gossip :: "relay_cfg \<Rightarrow> int \<Rightarrow> jstr \<Rightarrow> jstr \<Rightarrow> bytes \<Rightarrow> relay \<Rightarrow> (relay_effect list \<times> relay) option" where
  "gossip cfg now from topic data R =
     (if accepted cfg from topic data R then on_message cfg now from topic data R else Some ([], R))"

subsection \<open>The sweep, and the load announcement\<close>

fun sweep_topics :: "relay_cfg \<Rightarrow> int \<Rightarrow> jstr list \<Rightarrow> relay \<Rightarrow> relay" where
  "sweep_topics cfg now [] R = R"
| "sweep_topics cfg now (topic # ts) R = sweep_topics cfg now ts
     (if evictable now (jm_get (rl_lastSeen R) topic) (holders topic (rl_picks R)) (rc_idleTtl cfg)
      then R\<lparr>rl_topics := filter (\<lambda>t. t \<noteq> topic) (rl_topics R), rl_validators := jm_del topic (rl_validators R),
             rl_lastSeen := jm_del topic (rl_lastSeen R)\<rparr>
      else R)"

definition relay_sweep :: "relay_cfg \<Rightarrow> int \<Rightarrow> relay \<Rightarrow> relay" where
  "relay_sweep cfg now R = sweep_topics cfg now (rl_topics R) R"

text \<open>\<open>say\<close>; what it throws is caught.\<close>

definition announce_load :: "relay_cfg \<Rightarrow> int \<Rightarrow> jstr \<Rightarrow> int \<Rightarrow> relay \<Rightarrow> relay_effect list \<times> relay" where
  "announce_load cfg now node pct R =
     (let mine = encodeLoad (rc_json cfg) node pct now;
          R1 = R\<lparr>rl_cache := snd (cache_put (rc_json cfg) (rc_self cfg) mine (of_int now) (rl_cache R))\<rparr>
      in (Publish LOAD_TOPIC mine #
          (case encodeDeliver (rc_self cfg) LOAD_TOPIC mine of
             None \<Rightarrow> []
           | Some frame \<Rightarrow> deliver_all frame (sinksFor LOAD_TOPIC None (rl_picks R1)) R1), R1))"

subsection \<open>Runs\<close>

datatype relay_event =
    Opened nat jstr
  | Chunk nat bytes
  | Published nat "nat option"
  | Sink_ended nat
  | Source_ended nat
  | Subscriptions jstr "(jstr \<times> bool) list"
  | Gossip jstr jstr bytes
  | Peer_gone jstr
  | Sweep
  | Announce_load jstr int

definition relay_step :: "relay_cfg \<Rightarrow> relay \<Rightarrow> int \<times> relay_event \<Rightarrow> (relay_effect list \<times> relay) option" where
  "relay_step cfg R e =
     (case e of (now, ev) \<Rightarrow> (case ev of
          Opened s peer \<Rightarrow> Some ([], open_stream s peer R)
        | Chunk s chunk \<Rightarrow> Some (take_frame cfg now s chunk R)
        | Published s reached \<Rightarrow> Some (published now s reached R)
        | Sink_ended s \<Rightarrow> Some ([], bye s R)
        | Source_ended s \<Rightarrow> Some ([], source_end s R)
        | Subscriptions p subs \<Rightarrow> Some ([], subscription_change cfg now p subs R)
        | Gossip from topic data \<Rightarrow> gossip cfg now from topic data R
        | Peer_gone p \<Rightarrow> Some ([], R\<lparr>rl_quota := quota_forget p (rl_quota R)\<rparr>)
        | Sweep \<Rightarrow> Some ([], relay_sweep cfg now R)
        | Announce_load node pct \<Rightarrow> Some (announce_load cfg now node pct R)))"

fun relay_run :: "relay_cfg \<Rightarrow> relay \<Rightarrow> (int \<times> relay_event) list \<Rightarrow> (relay_effect list \<times> relay) option" where
  "relay_run cfg R [] = Some ([], R)"
| "relay_run cfg R (e # es) =
     (case relay_step cfg R e of
        None \<Rightarrow> None
      | Some (xs, R1) \<Rightarrow> (case relay_run cfg R1 es of None \<Rightarrow> None | Some (ys, R2) \<Rightarrow> Some (xs @ ys, R2)))"

end
