(* ===== verification/RelayFacts.thy ===== *)
theory RelayFacts
  imports RelayNode
begin

section \<open>What a relay keeps\<close>

text \<open>
  The invariant of the relay: the registry is in step, every pick is on a subscribed topic whose
  name fits a frame and belongs to a stream of that peer that still reads, the topics stay within
  the cap and the quota within its limit. Each handler keeps it.
\<close>

subsection \<open>The quota\<close>

definition quota_inv :: "nat \<Rightarrow> quota \<Rightarrow> bool" where
  "quota_inv n Q = (jm_inv Q \<and> (\<forall>p. distinct (or_empty (jm_get Q p)) \<and> countFor p Q \<le> n))"

lemma quota_inv_Nil [simp]: "quota_inv n []"
  by (simp add: quota_inv_def countFor_def)

lemma quota_inv_get:
  assumes "jm_inv Q" "\<And>p'. or_empty (jm_get Q p') = (if p' = p then s else or_empty (jm_get Q0 p'))"
    and "distinct s" "length s \<le> n" "quota_inv n Q0"
  shows "quota_inv n Q"
  using assms by (auto simp: quota_inv_def countFor_def)

lemma quota_claim_eq:
  "quota_claim n p t Q =
    (if t \<in> set (or_empty (jm_get Q p)) \<or> length (or_empty (jm_get Q p)) < n
     then (True, snd (quota_claim n p t Q)) else (False, snd (quota_claim n p t Q)))"
  by (simp add: quota_claim_def Let_def not_le)

lemma quota_claim_get:
  "or_empty (jm_get (snd (quota_claim n p t Q)) p') =
    (if p' = p \<and> t \<notin> set (or_empty (jm_get Q p)) \<and> length (or_empty (jm_get Q p)) < n
     then or_empty (jm_get Q p) @ [t] else or_empty (jm_get Q p'))"
  by (cases "jm_get Q p") (auto simp: quota_claim_def Let_def jm_has_def jm_get_set set_add_def)

lemma quota_claim_inv [simp]:
  assumes "quota_inv n Q"
  shows "quota_inv n (snd (quota_claim n p t Q))"
proof -
  have "jm_inv (snd (quota_claim n p t Q))" using assms by (auto simp: quota_claim_def Let_def quota_inv_def)
  moreover have "distinct (or_empty (jm_get Q p)) \<and> length (or_empty (jm_get Q p)) \<le> n" for p
    using assms by (simp add: quota_inv_def countFor_def)
  ultimately show ?thesis by (auto simp: quota_inv_def countFor_def quota_claim_get)
qed

lemma quota_release_get:
  "or_empty (jm_get (quota_release p t Q) p') = (if p' = p then set_delete t (or_empty (jm_get Q p)) else or_empty (jm_get Q p'))"
  by (cases "jm_get Q p") (auto simp: quota_release_def put_back_get set_delete_def)

lemma length_set_delete: "length (set_delete t xs) \<le> length xs"
  by (simp add: set_delete_def)

lemma quota_release_inv [simp]:
  assumes "quota_inv n Q"
  shows "quota_inv n (quota_release p t Q)"
proof -
  have "jm_inv (quota_release p t Q)" using assms by (auto simp: quota_release_def quota_inv_def split: option.splits)
  moreover have "distinct (or_empty (jm_get Q p)) \<and> length (or_empty (jm_get Q p)) \<le> n" for p
    using assms by (simp add: quota_inv_def countFor_def)
  ultimately show ?thesis by (auto simp: quota_inv_def countFor_def quota_release_get intro: order_trans [OF length_set_delete])
qed

lemma release_all_inv [simp]: "quota_inv n Q \<Longrightarrow> quota_inv n (release_all p ts Q)"
  unfolding release_all_def by (induction ts arbitrary: Q) auto

lemma quota_forget_inv [simp]: "quota_inv n Q \<Longrightarrow> quota_inv n (quota_forget p Q)"
  by (auto simp: quota_inv_def quota_forget_def countFor_def jm_get_del)

subsection \<open>The invariant\<close>

definition pick_ok :: "relay \<Rightarrow> jstr \<Rightarrow> jstr \<Rightarrow> nat \<Rightarrow> bool" where
  "pick_ok R p t s = (t \<in> set (rl_topics R) \<and> fits_name t
     \<and> (\<exists>st. jm_get (rl_streams R) s = Some st \<and> st_peer st = p \<and> st_loop st))"

definition relay_inv :: "relay_cfg \<Rightarrow> relay \<Rightarrow> bool" where
  "relay_inv cfg R =
     (picks_inv (rl_picks R)
      \<and> (\<forall>p t s. held_by (rl_picks R) p t = Some s \<longrightarrow> pick_ok R p t s)
      \<and> distinct (rl_topics R) \<and> length (rl_topics R) \<le> max 1 (rc_maxTopics cfg)
      \<and> (\<forall>t\<in>set (rl_topics R). jm_has (rl_validators R) t)
      \<and> quota_inv (rc_perPeer cfg) (rl_quota R))"

lemma relay_invD:
  assumes "relay_inv cfg R"
  shows "picks_inv (rl_picks R)" "held_by (rl_picks R) p t = Some s \<Longrightarrow> pick_ok R p t s"
    "distinct (rl_topics R)" "length (rl_topics R) \<le> max 1 (rc_maxTopics cfg)"
    "t \<in> set (rl_topics R) \<Longrightarrow> jm_has (rl_validators R) t" "quota_inv (rc_perPeer cfg) (rl_quota R)"
  using assms by (simp_all add: relay_inv_def)

lemma relay_start_inv [simp]: "relay_inv cfg relay_start"
  by (simp add: relay_inv_def relay_start_def no_picks_inv jm_has_def)

text \<open>A step that leaves the topics and keeps, adds or drops picks on streams that still read.\<close>

lemma relay_inv_quota: "relay_inv cfg R \<Longrightarrow> quota_inv (rc_perPeer cfg) Q \<Longrightarrow> relay_inv cfg (R\<lparr>rl_quota := Q\<rparr>)"
  by (simp add: relay_inv_def pick_ok_def)

lemma relay_inv_seen: "relay_inv cfg R \<Longrightarrow> relay_inv cfg (R\<lparr>rl_lastSeen := m\<rparr>)" "relay_inv cfg R \<Longrightarrow> relay_inv cfg (R\<lparr>rl_cache := L\<rparr>)"
  by (simp_all add: relay_inv_def pick_ok_def)

lemma relay_inv_stream:
  assumes "relay_inv cfg R" "jm_get (rl_streams R) s = Some st" "st_peer st' = st_peer st" "st_loop st' = st_loop st"
  shows "relay_inv cfg (R\<lparr>rl_streams := jm_set s st' (rl_streams R)\<rparr>)"
proof -
  have "pick_ok (R\<lparr>rl_streams := jm_set s st' (rl_streams R)\<rparr>) p t k = pick_ok R p t k" for p t k
    using assms(2-4) by (auto simp: pick_ok_def jm_get_set)
  then show ?thesis using assms(1) by (simp add: relay_inv_def)
qed

lemma relay_inv_picks:
  assumes "relay_inv cfg R" "picks_inv P" "\<And>p t s. held_by P p t = Some s \<Longrightarrow> pick_ok R p t s"
  shows "relay_inv cfg (R\<lparr>rl_picks := P\<rparr>)"
  using assms by (simp add: relay_inv_def pick_ok_def)

lemma pick_ok_simps [simp]:
  "pick_ok (R\<lparr>rl_picks := P\<rparr>) p t s = pick_ok R p t s" "pick_ok (R\<lparr>rl_quota := Q\<rparr>) p t s = pick_ok R p t s"
  "pick_ok (R\<lparr>rl_lastSeen := m\<rparr>) p t s = pick_ok R p t s"
  by (simp_all add: pick_ok_def)

lemma bye_eq:
  assumes "relay_inv cfg R"
  shows "bye s R = (case jm_get (rl_streams R) s of None \<Rightarrow> R | Some st \<Rightarrow>
      R\<lparr>rl_picks := snd (picks_forget (st_peer st) (Some s) (rl_picks R)),
        rl_quota := release_all (st_peer st) (fst (picks_forget (st_peer st) (Some s) (rl_picks R))) (rl_quota R),
        rl_streams := jm_set s (st\<lparr>st_open := False\<rparr>) (rl_streams R)\<rparr>)"
  by (simp add: bye_def split: option.splits prod.splits)

lemma held_bye:
  assumes "relay_inv cfg R"
  shows "held_by (rl_picks (bye s R)) p t = (if held_by (rl_picks R) p t = Some s then None else held_by (rl_picks R) p t)"
proof (cases "jm_get (rl_streams R) s")
  case None
  then have "held_by (rl_picks R) p t \<noteq> Some s" using relay_invD(2) [OF assms, of p t s] by (auto simp: pick_ok_def)
  then show ?thesis using None by (simp add: bye_def)
next
  case (Some st)
  have "held_by (rl_picks R) p t = Some s \<Longrightarrow> p = st_peer st"
    using relay_invD(2) [OF assms, of p t s] Some by (auto simp: pick_ok_def)
  moreover have "rl_picks (bye s R) = snd (picks_forget (st_peer st) (Some s) (rl_picks R))"
    using Some by (simp add: bye_eq [OF assms])
  ultimately show ?thesis
    using picks_forget_abs(3) [OF relay_invD(1) [OF assms], of "st_peer st" "Some s"]
    by (cases "held_by (rl_picks R) p t") (auto simp: hold_forget_def hold_match_def)
qed

lemma bye_fields [simp]:
  "rl_topics (bye s R) = rl_topics R" "rl_validators (bye s R) = rl_validators R" "rl_lastSeen (bye s R) = rl_lastSeen R"
  "rl_cache (bye s R) = rl_cache R"
  by (simp_all add: bye_def split: option.splits prod.splits)

lemma bye_stream: "jm_get (rl_streams (bye s R)) s' = (if s' = s then map_option (\<lambda>st. st\<lparr>st_open := False\<rparr>) (jm_get (rl_streams R) s) else jm_get (rl_streams R) s')"
  by (simp add: bye_def jm_get_set split: option.splits prod.splits)

lemma bye_inv:
  assumes "relay_inv cfg R"
  shows "relay_inv cfg (bye s R)"
proof -
  have "picks_inv (rl_picks (bye s R))" "quota_inv (rc_perPeer cfg) (rl_quota (bye s R))"
    using relay_invD(1,6) [OF assms] picks_forget_abs(1) [OF relay_invD(1) [OF assms]]
    by (simp_all add: bye_eq [OF assms] split: option.splits)
  moreover have "pick_ok (bye s R) p t k" if "held_by (rl_picks (bye s R)) p t = Some k" for p t k
    using that relay_invD(2) [OF assms, of p t k] by (auto simp: held_bye [OF assms] pick_ok_def bye_stream split: if_splits)
  ultimately show ?thesis using assms by (simp add: relay_inv_def)
qed

lemma held_loop_over:
  assumes "relay_inv cfg R"
  shows "held_by (rl_picks (loop_over s R)) p t = (if held_by (rl_picks R) p t = Some s then None else held_by (rl_picks R) p t)"
  using held_bye [OF assms, of s p t] by (simp add: loop_over_def Let_def split: option.splits)

lemma loop_over_fields [simp]:
  "rl_topics (loop_over s R) = rl_topics R" "rl_validators (loop_over s R) = rl_validators R" "rl_lastSeen (loop_over s R) = rl_lastSeen R"
  "rl_cache (loop_over s R) = rl_cache R" "rl_quota (loop_over s R) = rl_quota (bye s R)" "rl_picks (loop_over s R) = rl_picks (bye s R)"
  by (simp_all add: loop_over_def Let_def split: option.splits)

lemma loop_over_stream:
  "jm_get (rl_streams (loop_over s R)) s' =
    (if s' = s then map_option (\<lambda>st. st\<lparr>st_open := False, st_loop := False, st_push := None\<rparr>) (jm_get (rl_streams R) s)
     else jm_get (rl_streams R) s')"
  by (simp add: loop_over_def Let_def bye_stream jm_get_set split: option.splits)

lemma loop_over_inv:
  assumes "relay_inv cfg R"
  shows "relay_inv cfg (loop_over s R)"
proof -
  have "pick_ok (loop_over s R) p t k" if "held_by (rl_picks (loop_over s R)) p t = Some k" for p t k
    using that relay_invD(2) [OF assms, of p t k] held_loop_over [OF assms, of s p t]
    by (auto simp: pick_ok_def loop_over_stream split: if_splits)
  then show ?thesis using bye_inv [OF assms, of s] by (simp add: relay_inv_def)
qed

subsection \<open>Every handler keeps it\<close>

lemma answer_state: "snd (answer s b R) = (if b = None then loop_over s R else R)"
  by (simp add: answer_def split: option.splits)

lemma answer_inv: "relay_inv cfg R \<Longrightarrow> relay_inv cfg (snd (answer s b R))"
  by (simp add: answer_state loop_over_inv)

lemma take_drop_inv:
  assumes "relay_inv cfg R"
  shows "relay_inv cfg (take_drop s p t R)"
proof -
  let ?d = "picks_drop p t (Some s) (rl_picks R)"
  have e: "take_drop s p t R = (R\<lparr>rl_picks := snd ?d\<rparr>)\<lparr>rl_quota := if fst ?d then quota_release p t (rl_quota R) else rl_quota R\<rparr>"
    by (simp add: take_drop_def split: prod.splits)
  have "relay_inv cfg (R\<lparr>rl_picks := snd ?d\<rparr>)"
  proof (rule relay_inv_picks [OF assms])
    show "picks_inv (snd ?d)" using relay_invD(1) [OF assms] by (rule picks_drop_inv)
    fix p' t' s'
    assume "held_by (snd ?d) p' t' = Some s'"
    then have "held_by (rl_picks R) p' t' = Some s'"
      by (auto simp: picks_drop_abs(2) [OF relay_invD(1) [OF assms]] hold_set_def split: if_splits)
    then show "pick_ok R p' t' s'" by (rule relay_invD(2) [OF assms])
  qed
  then show ?thesis unfolding e using relay_invD(6) [OF assms] by (intro relay_inv_quota) simp_all
qed

lemma take_push_inv:
  assumes "relay_inv cfg R" "jm_get (rl_streams R) s = Some st"
  shows "relay_inv cfg (snd (take_push s st t data R))"
  using assms by (auto simp: take_push_def intro: answer_inv relay_inv_stream)

definition push_done :: "nat \<Rightarrow> pick_stream \<Rightarrow> relay \<Rightarrow> relay" where
  "push_done s st R = R\<lparr>rl_streams := jm_set s (st\<lparr>st_push := None\<rparr>) (rl_streams R)\<rparr>"

definition push_reach :: "jstr \<Rightarrow> jstr \<Rightarrow> nat option \<Rightarrow> relay \<Rightarrow> nat" where
  "push_reach p t n R = (case n of None \<Rightarrow> 0 | Some k \<Rightarrow> k) + length (sinksFor t (Some p) (rl_picks R))"

lemma published_idle:
  "jm_get (rl_streams R) s = None \<or> (\<exists>st. jm_get (rl_streams R) s = Some st \<and> st_push st = None) \<Longrightarrow> published now s n R = ([], R)"
  by (auto simp: published_def)

lemma published_eq:
  assumes "jm_get (rl_streams R) s = Some st" "st_push st = Some (t, data)"
  shows "published now s n R =
    (case encodeDeliver (st_peer st) t data of
       None \<Rightarrow> ([], loop_over s (push_done s st R))
     | Some frame \<Rightarrow>
         (deliver_all frame (sinksFor t (Some (st_peer st)) (rl_picks R)) (push_done s st R)
            @ fst (answer s (encodeAck t (int (push_reach (st_peer st) t n R))) ((push_done s st R)\<lparr>rl_lastSeen := jm_set t now (rl_lastSeen R)\<rparr>)),
          snd (answer s (encodeAck t (int (push_reach (st_peer st) t n R))) ((push_done s st R)\<lparr>rl_lastSeen := jm_set t now (rl_lastSeen R)\<rparr>))))"
  using assms by (simp add: published_def push_done_def push_reach_def Let_def split: option.splits prod.splits)

lemma push_done_inv:
  assumes "relay_inv cfg R" "jm_get (rl_streams R) s = Some st"
  shows "relay_inv cfg (push_done s st R)"
  unfolding push_done_def using assms(2) by (intro relay_inv_stream [OF assms]) simp_all

lemma published_inv:
  assumes "relay_inv cfg R"
  shows "relay_inv cfg (snd (published now s n R))"
proof (cases "jm_get (rl_streams R) s")
  case None
  then show ?thesis using assms by (simp add: published_idle)
next
  case (Some st)
  show ?thesis
  proof (cases "st_push st")
    case None
    then show ?thesis using assms Some by (simp add: published_idle)
  next
    case (Some tp)
    obtain t data where "tp = (t, data)" by fastforce
    then have p: "st_push st = Some (t, data)" using Some by simp
    note i = push_done_inv [OF assms \<open>jm_get (rl_streams R) s = Some st\<close>]
    show ?thesis
      unfolding published_eq [OF \<open>jm_get (rl_streams R) s = Some st\<close> p]
      by (simp split: option.splits) (intro conjI impI allI loop_over_inv answer_inv relay_inv_seen(1) i)
  qed
qed

definition pick_refused :: "relay_cfg \<Rightarrow> jstr \<Rightarrow> jstr \<Rightarrow> relay \<Rightarrow> bool" where
  "pick_refused cfg p t R = (\<not> fst (quota_claim (rc_perPeer cfg) p t (rl_quota R))
     \<or> (t \<notin> set (rl_topics R) \<and> length (rl_topics R) \<ge> rc_maxTopics cfg))"

text \<open>The state in which a PICK is answered with PICKED.\<close>

definition picked_state :: "relay_cfg \<Rightarrow> int \<Rightarrow> nat \<Rightarrow> jstr \<Rightarrow> jstr \<Rightarrow> relay \<Rightarrow> relay" where
  "picked_state cfg now s p t R =
     R\<lparr>rl_quota := snd (quota_claim (rc_perPeer cfg) p t (rl_quota R)),
       rl_topics := (if t \<in> set (rl_topics R) then rl_topics R else rl_topics R @ [t]),
       rl_validators := (if t \<in> set (rl_topics R) then rl_validators R else jm_set t FrameValidator (rl_validators R)),
       rl_lastSeen := jm_set t now (rl_lastSeen R),
       rl_picks := picks_add p t s (rl_picks R)\<rparr>"

lemma take_pick_eq:
  "take_pick cfg now s p t R =
    (if pick_refused cfg p t R
     then answer s (encodeRefused t) (R\<lparr>rl_quota := quota_release p t (snd (quota_claim (rc_perPeer cfg) p t (rl_quota R)))\<rparr>)
     else case encodePicked t of
         None \<Rightarrow> ([], loop_over s (picked_state cfg now s p t R))
       | Some b \<Rightarrow>
           if t = LOAD_TOPIC
           then (send s b (picked_state cfg now s p t R) @ replay_loads (of_int now) s (picked_state cfg now s p t R),
                 if replay_throws (of_int now) (picked_state cfg now s p t R) then loop_over s (picked_state cfg now s p t R)
                 else picked_state cfg now s p t R)
           else (send s b (picked_state cfg now s p t R), picked_state cfg now s p t R))"
proof -
  obtain ok Q where c: "quota_claim (rc_perPeer cfg) p t (rl_quota R) = (ok, Q)" by fastforce
  show ?thesis
    by (simp only: take_pick_def Let_def picked_state_def pick_refused_def c prod.case fst_conv snd_conv)
qed

text \<open>The invariant but for one pick whose name may not fit; a loop that ends takes that pick with it.\<close>

lemma picked_state_inv:
  assumes "relay_inv cfg R" "\<not> pick_refused cfg p t R" "fits_name t"
    "jm_get (rl_streams R) s = Some st" "st_peer st = p" "st_loop st"
  shows "relay_inv cfg (picked_state cfg now s p t R)"
proof -
  let ?R = "picked_state cfg now s p t R"
  have h: "held_by (rl_picks ?R) = hold_set p t (Some s) (held_by (rl_picks R))"
    by (simp add: picked_state_def picks_add_abs)
  have "pick_ok ?R p' t' s'" if "held_by (rl_picks ?R) p' t' = Some s'" for p' t' s'
  proof -
    have "p' = p \<and> t' = t \<and> s' = s \<or> held_by (rl_picks R) p' t' = Some s'"
      using that unfolding h by (auto simp: hold_set_def split: if_splits)
    then show ?thesis
      using assms(3-6) relay_invD(2) [OF assms(1), of p' t' s'] by (auto simp: pick_ok_def picked_state_def)
  qed
  moreover have "picks_inv (rl_picks ?R)" using relay_invD(1) [OF assms(1)] by (simp add: picked_state_def picks_add_inv)
  moreover have "distinct (rl_topics ?R)" "length (rl_topics ?R) \<le> max 1 (rc_maxTopics cfg)"
    using relay_invD(3,4) [OF assms(1)] assms(2) by (auto simp: picked_state_def pick_refused_def)
  moreover have "jm_has (rl_validators ?R) t'" if "t' \<in> set (rl_topics ?R)" for t'
    using that relay_invD(5) [OF assms(1), of t'] by (auto simp: picked_state_def jm_has_def jm_get_set split: if_splits)
  moreover have "quota_inv (rc_perPeer cfg) (rl_quota ?R)"
    using relay_invD(6) [OF assms(1)] by (simp add: picked_state_def)
  ultimately show ?thesis by (simp add: relay_inv_def)
qed

lemma loop_over_picked:
  assumes "relay_inv cfg R" "\<not> pick_refused cfg p t R" "jm_get (rl_streams R) s = Some st" "st_peer st = p"
  shows "relay_inv cfg (loop_over s (picked_state cfg now s p t R))"
proof -
  let ?P = "picked_state cfg now s p t R"
  let ?R = "loop_over s ?P"
  have i: "picks_inv (rl_picks ?P)" using relay_invD(1) [OF assms(1)] by (simp add: picked_state_def picks_add_inv)
  have h0: "held_by (rl_picks ?P) = hold_set p t (Some s) (held_by (rl_picks R))"
    by (simp add: picked_state_def picks_add_abs)
  have st: "jm_get (rl_streams ?P) s = Some st" using assms(3) by (simp add: picked_state_def)
  have b: "bye s ?P = ?P\<lparr>rl_picks := snd (picks_forget p (Some s) (rl_picks ?P)),
        rl_quota := release_all p (fst (picks_forget p (Some s) (rl_picks ?P))) (rl_quota ?P),
        rl_streams := jm_set s (st\<lparr>st_open := False\<rparr>) (rl_streams ?P)\<rparr>"
    using st assms(4) by (simp add: bye_def split: prod.splits)
  have pk: "rl_picks ?R = snd (picks_forget p (Some s) (rl_picks ?P))" by (simp add: b)
  have h: "held_by (rl_picks ?R) = hold_forget p (Some s) (held_by (rl_picks ?P))"
    unfolding pk by (rule picks_forget_abs(3) [OF i])
  have peer: "held_by (rl_picks R) p' t' = Some s \<Longrightarrow> p' = p" for p' t'
    using relay_invD(2) [OF assms(1), of p' t' s] assms(3,4) by (auto simp: pick_ok_def)
  have "pick_ok ?R p' t' s'" if "held_by (rl_picks ?R) p' t' = Some s'" for p' t' s'
  proof -
    have "held_by (rl_picks R) p' t' = Some s' \<and> s' \<noteq> s"
      using that peer [of p' t'] unfolding h hold_forget_def h0 hold_set_def
      by (auto simp: hold_match_def split: if_splits option.splits)
    then show ?thesis
      using relay_invD(2) [OF assms(1), of p' t' s'] by (auto simp: pick_ok_def loop_over_stream picked_state_def)
  qed
  moreover have "picks_inv (rl_picks ?R)" unfolding pk by (rule picks_forget_abs(1) [OF i])
  moreover have "distinct (rl_topics ?R)" "length (rl_topics ?R) \<le> max 1 (rc_maxTopics cfg)"
    using relay_invD(3,4) [OF assms(1)] assms(2) by (auto simp: picked_state_def pick_refused_def)
  moreover have "jm_has (rl_validators ?R) t'" if "t' \<in> set (rl_topics ?R)" for t'
    using that relay_invD(5) [OF assms(1), of t'] by (auto simp: picked_state_def jm_has_def jm_get_set split: if_splits)
  moreover have "quota_inv (rc_perPeer cfg) (rl_quota ?R)"
    using relay_invD(6) [OF assms(1)] by (simp add: b) (simp add: picked_state_def)
  ultimately show ?thesis by (simp add: relay_inv_def)
qed

lemma take_pick_inv:
  assumes "relay_inv cfg R" "jm_get (rl_streams R) s = Some st" "st_peer st = p" "st_loop st"
  shows "relay_inv cfg (snd (take_pick cfg now s p t R))"
proof (cases "pick_refused cfg p t R")
  case True
  then show ?thesis using relay_invD(6) [OF assms(1)]
    by (simp add: take_pick_eq) (intro answer_inv relay_inv_quota [OF assms(1)], simp)
next
  case False
  note l = loop_over_picked [OF assms(1) False assms(2,3), of now]
  show ?thesis
  proof (cases "encodePicked t")
    case None
    then show ?thesis using False l by (simp add: take_pick_eq)
  next
    case (Some b)
    then have "fits_name t" by (auto simp: encodePicked_def fits_name_def)
    then have "relay_inv cfg (picked_state cfg now s p t R)" by (rule picked_state_inv [OF assms(1) False _ assms(2-4)])
    then show ?thesis using False l Some by (cases "t = LOAD_TOPIC") (simp_all add: take_pick_eq)
  qed
qed

lemma take_frame_inv:
  assumes "relay_inv cfg R"
  shows "relay_inv cfg (snd (take_frame cfg now s c R))"
  using assms
  by (auto simp: take_frame_def split: option.splits pick_frame.splits intro: take_drop_inv take_push_inv take_pick_inv)

lemma take_frame_other:
  assumes "jm_get (rl_streams R) s = None \<or> (\<exists>st. jm_get (rl_streams R) s = Some st \<and> (\<not> st_loop st \<or> st_push st \<noteq> None))"
  shows "take_frame cfg now s c R = ([], R)"
  using assms by (auto simp: take_frame_def)

lemma open_stream_inv:
  assumes "relay_inv cfg R"
  shows "relay_inv cfg (open_stream s p R)"
proof -
  have "pick_ok (open_stream s p R) p' t' s'" if "pick_ok R p' t' s'" for p' t' s'
    using that by (auto simp: open_stream_def pick_ok_def jm_has_def jm_get_set)
  then show ?thesis using assms by (simp add: relay_inv_def) (auto simp: open_stream_def)
qed

lemma subscription_inv:
  assumes "relay_inv cfg R"
  shows "relay_inv cfg (subscription cfg now p t sub R)"
proof -
  define R1 where "R1 = (if sub then R else R\<lparr>rl_quota := quota_release p t (rl_quota R)\<rparr>)"
  define c where "c = (if sub \<and> p \<notin> set (rc_siblings cfg) then quota_claim (rc_perPeer cfg) p t (rl_quota R1) else (True, rl_quota R1))"
  define R2 where "R2 = R1\<lparr>rl_quota := snd c\<rparr>"
  have R1: "relay_inv cfg R1" using assms relay_invD(6) [OF assms] by (auto simp: R1_def intro: relay_inv_quota)
  then have R2: "relay_inv cfg R2"
    unfolding R2_def c_def using relay_invD(6) [OF R1] by (intro relay_inv_quota) auto
  have s: "subscription cfg now p t sub R =
    (if sub \<and> \<not> shouldJoin p (rc_siblings cfg) (rc_localOnly cfg) then R
     else if \<not> fst c \<or> \<not> (sub \<and> t \<notin> set (rl_topics R2)) \<or> length (rl_topics R2) \<ge> rc_maxTopics cfg then R2
     else R2\<lparr>rl_topics := rl_topics R2 @ [t], rl_validators := jm_set t FrameValidator (rl_validators R2),
             rl_lastSeen := jm_set t now (rl_lastSeen R2)\<rparr>)"
    unfolding subscription_def Let_def R1_def [symmetric] c_def [symmetric] R2_def by (cases c) auto
  have "relay_inv cfg (R2\<lparr>rl_topics := rl_topics R2 @ [t], rl_validators := jm_set t FrameValidator (rl_validators R2),
      rl_lastSeen := jm_set t now (rl_lastSeen R2)\<rparr>)"
    if "t \<notin> set (rl_topics R2)" "length (rl_topics R2) < rc_maxTopics cfg"
    using that R2 by (auto simp: relay_inv_def pick_ok_def jm_has_def jm_get_set)
  then show ?thesis using assms R2 unfolding s by (simp add: not_le)
qed

lemma subscription_change_inv: "relay_inv cfg R \<Longrightarrow> relay_inv cfg (subscription_change cfg now p subs R)"
  by (induction subs arbitrary: R) (auto simp: subscription_inv)

lemma sinks_mem:
  assumes "relay_inv cfg R" "k \<in> set (sinksFor t e (rl_picks R))"
  shows "\<exists>p. held_by (rl_picks R) p t = Some k \<and> p \<noteq> except_name e"
  using ps.sink_told [OF relay_invD(1) [OF assms(1)]] assms(2) by blast

lemma on_message_some:
  assumes "relay_inv cfg R" "fits_name from"
  shows "\<exists>es R'. on_message cfg now from t data R = Some (es, R') \<and> rl_picks R' = rl_picks R \<and> rl_topics R' = rl_topics R
    \<and> rl_streams R' = rl_streams R \<and> relay_inv cfg R'"
proof -
  define R2 where "R2 = (let R1 = R\<lparr>rl_lastSeen := jm_set t now (rl_lastSeen R)\<rparr> in
    if t = LOAD_TOPIC then R1\<lparr>rl_cache := snd (cache_put (rc_json cfg) from data (of_int now) (rl_cache R1))\<rparr> else R1)"
  have R2: "rl_picks R2 = rl_picks R" "rl_topics R2 = rl_topics R" "rl_streams R2 = rl_streams R" "relay_inv cfg R2"
    using relay_inv_seen(1) [OF assms(1)] by (auto simp: R2_def Let_def intro: relay_inv_seen(2))
  have "encodeDeliver from t data \<noteq> None" if ne: "sinksFor t (Some from) (rl_picks R) \<noteq> []"
  proof -
    obtain k where "k \<in> set (sinksFor t (Some from) (rl_picks R))" using ne by (meson last_in_set)
    then have "fits_name t" using sinks_mem [OF assms(1)] relay_invD(2) [OF assms(1)] by (meson pick_ok_def)
    then show ?thesis using encode_fits(7) assms(2) by blast
  qed
  then have "sinksFor t (Some from) (rl_picks R) = [] \<or> encodeDeliver from t data \<noteq> None" by blast
  then show ?thesis using R2 unfolding on_message_def R2_def [unfolded Let_def, symmetric] Let_def
    by (auto split: option.splits)
qed

lemma gossip_some:
  assumes "relay_inv cfg R" "fits_name from"
  shows "\<exists>es R'. gossip cfg now from t data R = Some (es, R') \<and> rl_picks R' = rl_picks R \<and> rl_topics R' = rl_topics R
    \<and> rl_streams R' = rl_streams R \<and> relay_inv cfg R'"
  using on_message_some [OF assms, of now t data] assms(1) by (simp add: gossip_def)

lemma sweep_topics_inv:
  assumes "relay_inv cfg R"
  shows "relay_inv cfg (sweep_topics cfg now ts R) \<and> rl_picks (sweep_topics cfg now ts R) = rl_picks R"
  using assms
proof (induction ts arbitrary: R)
  case (Cons t ts)
  let ?R1 = "R\<lparr>rl_topics := filter (\<lambda>t'. t' \<noteq> t) (rl_topics R), rl_validators := jm_del t (rl_validators R),
      rl_lastSeen := jm_del t (rl_lastSeen R)\<rparr>"
  show ?case
  proof (cases "evictable now (jm_get (rl_lastSeen R) t) (holders t (rl_picks R)) (rc_idleTtl cfg)")
    case True
    then have n: "held_by (rl_picks R) p t = None" for p
      using ps.count_zero [OF relay_invD(1) [OF Cons.prems], of t] by (simp add: evictable_def)
    have "pick_ok ?R1 p t' s" if "held_by (rl_picks R) p t' = Some s" for p t' s
      using relay_invD(2) [OF Cons.prems that] n [of p] that by (auto simp: pick_ok_def)
    moreover have "length (filter (\<lambda>t'. t' \<noteq> t) (rl_topics R)) \<le> max 1 (rc_maxTopics cfg)"
      using relay_invD(4) [OF Cons.prems] length_filter_le order_trans by blast
    ultimately have "relay_inv cfg ?R1"
      using Cons.prems by (auto simp: relay_inv_def jm_has_def jm_get_del)
    from Cons.IH [OF this] True show ?thesis by simp
  next
    case False
    then show ?thesis using Cons.IH [OF Cons.prems] by simp
  qed
qed simp

lemma announce_load_fields:
  "rl_picks (snd (announce_load cfg now n pct R)) = rl_picks R" "rl_topics (snd (announce_load cfg now n pct R)) = rl_topics R"
  "rl_streams (snd (announce_load cfg now n pct R)) = rl_streams R"
  "relay_inv cfg R \<Longrightarrow> relay_inv cfg (snd (announce_load cfg now n pct R))"
  by (simp_all add: announce_load_def Let_def relay_inv_seen)

lemma source_end_inv: "relay_inv cfg R \<Longrightarrow> relay_inv cfg (source_end s R)"
  by (auto simp: source_end_def loop_over_inv split: option.splits)

definition gossip_fits :: "int \<times> relay_event \<Rightarrow> bool" where
  "gossip_fits e = (case snd e of Gossip from topic data \<Rightarrow> fits_name from | _ \<Rightarrow> True)"

lemma relay_step_inv:
  assumes "relay_inv cfg R" "gossip_fits e"
  shows "\<exists>es R'. relay_step cfg R e = Some (es, R') \<and> relay_inv cfg R'"
proof -
  obtain now ev where e: "e = (now, ev)" by fastforce
  show ?thesis
  proof (cases ev)
    case (Gossip sender t data)
    then show ?thesis using gossip_some [OF assms(1), of sender now t data] assms(2) by (auto simp: e relay_step_def gossip_fits_def)
  next
    case (Peer_gone p)
    then show ?thesis using relay_inv_quota [OF assms(1)] relay_invD(6) [OF assms(1)] by (simp add: e relay_step_def)
  next
    case (Chunk s c)
    then show ?thesis using take_frame_inv [OF assms(1), of now s c] by (cases "take_frame cfg now s c R") (simp add: e relay_step_def)
  next
    case (Published s n)
    then show ?thesis using published_inv [OF assms(1), of now s n] by (cases "published now s n R") (simp add: e relay_step_def)
  next
    case (Announce_load n pct)
    then show ?thesis using announce_load_fields(4) [OF assms(1), of now n pct]
      by (cases "announce_load cfg now n pct R") (simp add: e relay_step_def)
  qed (use assms(1) in \<open>simp_all add: e relay_step_def open_stream_inv bye_inv source_end_inv subscription_change_inv
      relay_sweep_def sweep_topics_inv\<close>)
qed

lemma relay_run_inv:
  assumes "relay_inv cfg R" "list_all gossip_fits es"
  shows "\<exists>xs R'. relay_run cfg R es = Some (xs, R') \<and> relay_inv cfg R'"
  using assms
proof (induction es arbitrary: R)
  case (Cons e es)
  then obtain xs R1 where "relay_step cfg R e = Some (xs, R1)" "relay_inv cfg R1"
    using relay_step_inv [of cfg R e] by auto
  with Cons.IH [of R1] Cons.prems show ?case by auto
qed simp

end
