(* ===== verification/RelayTheorems.thy ===== *)
theory RelayTheorems
  imports RelayFacts
begin

section \<open>What a relay promises\<close>

text \<open>
  Who hears a message: a stream keeps what it picked until it drops it, ends, or its peer picks
  the same topic on another stream, and as long as it does it is handed every message on that
  topic once. A pushed message goes to every other holder, unchanged, and is answered with its
  reach. Two theorems show what the code lets happen: the load topic is swept away on a quiet
  relay, and a peer frees its quota without giving up a pick.
\<close>

subsection \<open>What goes out on a stream\<close>

fun sent_on :: "nat \<Rightarrow> relay_effect list \<Rightarrow> bytes list" where
  "sent_on k [] = []"
| "sent_on k (Send s b # es) = (if s = k then b # sent_on k es else sent_on k es)"
| "sent_on k (Publish t d # es) = sent_on k es"

lemma sent_on_append [simp]: "sent_on k (xs @ ys) = sent_on k xs @ sent_on k ys"
  by (induction k xs rule: sent_on.induct) auto

definition stream_open :: "nat \<Rightarrow> relay \<Rightarrow> bool" where
  "stream_open s R = (case jm_get (rl_streams R) s of None \<Rightarrow> False | Some st \<Rightarrow> st_open st)"

lemma sent_on_send: "sent_on k (send s b R) = (if s = k \<and> stream_open s R then [b] else [])"
  by (simp add: send_def stream_open_def split: option.splits)

lemma sent_on_deliver: "sent_on k (deliver_all b sinks R) = (if stream_open k R then replicate (count (mset sinks) k) b else [])"
  by (induction sinks) (auto simp: deliver_all_def sent_on_send)

lemma count_image_set:
  assumes "finite A"
  shows "count (image_mset f (mset_set A)) k = card {x \<in> A. f x = k}"
  using assms
proof (induction A)
  case (insert x A)
  have "{y \<in> insert x A. f y = k} = (if f x = k then insert x {y \<in> A. f y = k} else {y \<in> A. f y = k})" by auto
  then show ?case using insert by simp
qed simp

lemma sink_count:
  assumes "relay_inv cfg R"
  shows "count (mset (sinksFor t e (rl_picks R))) k
    = (if \<exists>p. held_by (rl_picks R) p t = Some k \<and> p \<noteq> except_name e then 1 else 0)"
proof -
  let ?A = "{p. held_by (rl_picks R) p t \<noteq> None \<and> p \<noteq> except_name e}"
  have f: "finite ?A"
    using ps.finite_holders [OF relay_invD(1) [OF assms], of t] by (rule rev_finite_subset) auto
  have m: "mset (sinksFor t e (rl_picks R)) = image_mset (\<lambda>p. the (held_by (rl_picks R) p t)) (mset_set ?A)"
    by (rule ps.sinks_abs [OF relay_invD(1) [OF assms]])
  have k: "count (mset (sinksFor t e (rl_picks R))) k = card {p \<in> ?A. the (held_by (rl_picks R) p t) = k}"
    unfolding m using f by (rule count_image_set)
  have e: "{p \<in> ?A. the (held_by (rl_picks R) p t) = k} = {p. held_by (rl_picks R) p t = Some k \<and> p \<noteq> except_name e}"
    by auto
  show ?thesis
  proof (cases "\<exists>p. held_by (rl_picks R) p t = Some k \<and> p \<noteq> except_name e")
    case True
    then obtain p where p: "held_by (rl_picks R) p t = Some k" "p \<noteq> except_name e" by blast
    have "p' = p" if "held_by (rl_picks R) p' t = Some k" for p'
    proof -
      from relay_invD(2) [OF assms that] obtain st where "jm_get (rl_streams R) k = Some st" "st_peer st = p'"
        by (auto simp: pick_ok_def)
      with relay_invD(2) [OF assms p(1)] show ?thesis by (simp add: pick_ok_def)
    qed
    then have "{p. held_by (rl_picks R) p t = Some k \<and> p \<noteq> except_name e} = {p}" using p by blast
    then show ?thesis using True k e by simp
  next
    case False
    then have "{p. held_by (rl_picks R) p t = Some k \<and> p \<noteq> except_name e} = {}" by blast
    then show ?thesis unfolding k e using False by (simp only: card.empty if_False)
  qed
qed

lemma delivered_on:
  assumes "relay_inv cfg R" "stream_open k R' = stream_open k R"
  shows "sent_on k (deliver_all b (sinksFor t e (rl_picks R)) R')
    = (if stream_open k R \<and> (\<exists>p. held_by (rl_picks R) p t = Some k \<and> p \<noteq> except_name e) then [b] else [])"
  by (simp add: sent_on_deliver sink_count [OF assms(1)] assms(2))

subsection \<open>A pick is kept\<close>

definition peer_of :: "relay \<Rightarrow> nat \<Rightarrow> jstr option" where
  "peer_of R s = map_option st_peer (jm_get (rl_streams R) s)"

text \<open>An event after which stream \<open>s\<close> of peer \<open>p\<close> no longer asks for \<open>t\<close>.\<close>

definition gives_up :: "relay \<Rightarrow> jstr \<Rightarrow> jstr \<Rightarrow> nat \<Rightarrow> int \<times> relay_event \<Rightarrow> bool" where
  "gives_up R p t s e = (case snd e of
     Chunk s' c \<Rightarrow> (if s' = s then decodeFrame c = Some (FDrop t) else decodeFrame c = Some (FPick t) \<and> peer_of R s' = Some p)
   | _ \<Rightarrow> False)"

definition keeps_streams :: "relay \<Rightarrow> relay \<Rightarrow> bool" where
  "keeps_streams R R' = ((\<forall>s p. peer_of R s = Some p \<longrightarrow> peer_of R' s = Some p)
     \<and> (\<forall>s. peer_of R s \<noteq> None \<and> stream_open s R' \<longrightarrow> stream_open s R))"

lemma keeps_streams_refl [simp]: "keeps_streams R R"
  by (simp add: keeps_streams_def)

lemma keeps_streams_trans: "keeps_streams R R1 \<Longrightarrow> keeps_streams R1 R2 \<Longrightarrow> keeps_streams R R2"
  by (fastforce simp: keeps_streams_def)

lemma keeps_same: "rl_streams R' = rl_streams R \<Longrightarrow> keeps_streams R R'"
  by (simp add: keeps_streams_def peer_of_def stream_open_def)

lemma keeps_bye: "keeps_streams R (bye s R)"
  by (auto simp: keeps_streams_def peer_of_def stream_open_def bye_stream split: option.splits if_splits)

lemma keeps_loop_over: "keeps_streams R (loop_over s R)"
  by (auto simp: keeps_streams_def peer_of_def stream_open_def loop_over_stream split: option.splits if_splits)

lemma keeps_set:
  "jm_get (rl_streams R) s = Some st \<Longrightarrow> st_peer st' = st_peer st \<Longrightarrow> st_open st' = st_open st \<Longrightarrow>
    keeps_streams R (R\<lparr>rl_streams := jm_set s st' (rl_streams R)\<rparr>)"
  by (auto simp: keeps_streams_def peer_of_def stream_open_def jm_get_set split: option.splits if_splits)

lemma keeps_answer: "keeps_streams R (snd (answer s b R))"
  by (simp add: answer_state keeps_loop_over)

lemma bye_closes: "jm_get (rl_streams R) s \<noteq> None \<Longrightarrow> \<not> stream_open s (bye s R)"
  by (auto simp: stream_open_def bye_stream)

lemma loop_over_closes: "jm_get (rl_streams R) s \<noteq> None \<Longrightarrow> \<not> stream_open s (loop_over s R)"
  by (auto simp: stream_open_def loop_over_stream)

text \<open>One event: the pick is kept, or given up, or its stream is closed.\<close>

definition kept :: "relay \<Rightarrow> relay \<Rightarrow> jstr \<Rightarrow> jstr \<Rightarrow> nat \<Rightarrow> bool" where
  "kept R R' p t s = (keeps_streams R R' \<and> (held_by (rl_picks R') p t = Some s \<or> \<not> stream_open s R'))"

lemma kept_same: "held_by (rl_picks R) p t = Some s \<Longrightarrow> rl_picks R' = rl_picks R \<Longrightarrow> keeps_streams R R' \<Longrightarrow> kept R R' p t s"
  by (simp add: kept_def)

lemma kept_loop_over:
  assumes "relay_inv cfg R" "held_by (rl_picks R) p t = Some s"
  shows "kept R (loop_over s' R) p t s" "kept R (bye s' R) p t s"
proof -
  have "jm_get (rl_streams R) s \<noteq> None" using relay_invD(2) [OF assms] by (auto simp: pick_ok_def)
  then show "kept R (loop_over s' R) p t s" "kept R (bye s' R) p t s"
    using assms(2) held_loop_over [OF assms(1), of s' p t] held_bye [OF assms(1), of s' p t] loop_over_closes [of R s] bye_closes [of R s]
    by (auto simp: kept_def keeps_bye keeps_loop_over)
qed

lemma kept_answer:
  "relay_inv cfg R \<Longrightarrow> held_by (rl_picks R) p t = Some s \<Longrightarrow> kept R (snd (answer s' b R)) p t s"
  using kept_loop_over(1) by (auto simp: answer_state kept_same)

lemma kept_trans: "kept R R1 p t s \<Longrightarrow> (held_by (rl_picks R1) p t = Some s \<Longrightarrow> kept R1 R2 p t s) \<Longrightarrow> keeps_streams R1 R2 \<Longrightarrow>
    peer_of R s \<noteq> None \<Longrightarrow> kept R R2 p t s"
  by (auto simp: kept_def intro: keeps_streams_trans) (auto simp: keeps_streams_def)

lemma subscription_change_same:
  "rl_picks (subscription_change cfg now p subs R) = rl_picks R" "rl_streams (subscription_change cfg now p subs R) = rl_streams R"
proof -
  have s: "rl_picks (subscription cfg now p t b R) = rl_picks R \<and> rl_streams (subscription cfg now p t b R) = rl_streams R" for t b R
    by (auto simp: subscription_def Let_def split: prod.splits)
  show "rl_picks (subscription_change cfg now p subs R) = rl_picks R" "rl_streams (subscription_change cfg now p subs R) = rl_streams R"
    by (induction subs arbitrary: R) (auto simp: s)
qed

lemma sweep_streams: "rl_streams (sweep_topics cfg now ts R) = rl_streams R"
  by (induction ts arbitrary: R) auto

lemma kept_take_drop:
  assumes "relay_inv cfg R" "held_by (rl_picks R) p t = Some s" "s' = s \<Longrightarrow> t' \<noteq> t"
  shows "kept R (take_drop s' p' t' R) p t s"
proof -
  let ?d = "picks_drop p' t' (Some s') (rl_picks R)"
  have e: "rl_picks (take_drop s' p' t' R) = snd ?d" "rl_streams (take_drop s' p' t' R) = rl_streams R"
    by (simp_all add: take_drop_def split: prod.splits)
  have "held_by (snd ?d) p t = Some s"
    using assms(3) by (intro ps.kept_over_drop relay_invD(1) [OF assms(1)] assms(2)) auto
  then show ?thesis using e by (simp add: kept_def keeps_same)
qed

lemma kept_take_push:
  assumes "relay_inv cfg R" "held_by (rl_picks R) p t = Some s" "jm_get (rl_streams R) s' = Some st"
  shows "kept R (snd (take_push s' st t' data R)) p t s"
proof -
  have "keeps_streams R (R\<lparr>rl_streams := jm_set s' (st\<lparr>st_push := Some (t', data)\<rparr>) (rl_streams R)\<rparr>)"
    by (rule keeps_set [OF assms(3)]) simp_all
  then have "kept R (R\<lparr>rl_streams := jm_set s' (st\<lparr>st_push := Some (t', data)\<rparr>) (rl_streams R)\<rparr>) p t s"
    by (intro kept_same [OF assms(2)]) simp
  then show ?thesis using kept_answer [OF assms(1,2)] by (simp add: take_push_def)
qed

lemma keeps_push_done: "jm_get (rl_streams R) s' = Some st \<Longrightarrow> keeps_streams R (push_done s' st R)"
  unfolding push_done_def by (rule keeps_set) simp_all

lemma kept_after:
  assumes "relay_inv cfg R1" "held_by (rl_picks R1) p t = Some s" "keeps_streams R R1" "kept R1 R2 p t s"
  shows "kept R R2 p t s"
  using assms by (auto simp: kept_def intro: keeps_streams_trans)

lemma kept_published:
  assumes "relay_inv cfg R" "held_by (rl_picks R) p t = Some s"
  shows "kept R (snd (published now s' n R)) p t s"
proof (cases "jm_get (rl_streams R) s'")
  case None
  then show ?thesis using assms by (simp add: published_idle kept_same)
next
  case (Some st)
  show ?thesis
  proof (cases "st_push st")
    case None
    then show ?thesis using assms Some by (simp add: published_idle kept_same)
  next
    case (Some tp)
    obtain t' data where "tp = (t', data)" by fastforce
    then have p: "st_push st = Some (t', data)" using Some by simp
    note st = \<open>jm_get (rl_streams R) s' = Some st\<close>
    let ?R1 = "push_done s' st R"
    have i: "relay_inv cfg ?R1" "held_by (rl_picks ?R1) p t = Some s"
      using push_done_inv [OF assms(1) st] assms(2) by (simp_all add: push_done_def)
    let ?R2 = "?R1\<lparr>rl_lastSeen := jm_set t' now (rl_lastSeen R)\<rparr>"
    have j: "relay_inv cfg ?R2" "held_by (rl_picks ?R2) p t = Some s" "keeps_streams R ?R2"
      using i relay_inv_seen(1) keeps_push_done [OF st] by (simp_all add: keeps_streams_def peer_of_def stream_open_def)
    have "kept R (loop_over s' ?R1) p t s"
      by (rule kept_after [OF i keeps_push_done [OF st] kept_loop_over(1) [OF i]])
    moreover have "kept R (snd (answer s' b ?R2)) p t s" for b
      by (rule kept_after [OF j kept_answer [OF j(1,2)]])
    ultimately show ?thesis unfolding published_eq [OF st p] by (simp split: option.splits)
  qed
qed

lemma kept_take_pick:
  assumes "relay_inv cfg R" "held_by (rl_picks R) p t = Some s" "jm_get (rl_streams R) s' = Some st" "st_peer st = p'" "st_loop st"
    and "s' \<noteq> s \<Longrightarrow> t' = t \<Longrightarrow> p' \<noteq> p"
  shows "kept R (snd (take_pick cfg now s' p' t' R)) p t s"
proof (cases "pick_refused cfg p' t' R")
  case True
  let ?R1 = "R\<lparr>rl_quota := quota_release p' t' (snd (quota_claim (rc_perPeer cfg) p' t' (rl_quota R)))\<rparr>"
  have i: "relay_inv cfg ?R1" using relay_invD(6) [OF assms(1)] by (intro relay_inv_quota [OF assms(1)]) simp
  have "kept R (snd (answer s' b ?R1)) p t s" for b
    by (rule kept_after [OF i _ keeps_same kept_answer [OF i]]) (use assms(2) in simp_all)
  then show ?thesis using True by (simp add: take_pick_eq)
next
  case False
  let ?P = "picked_state cfg now s' p' t' R"
  have k: "keeps_streams R ?P" by (rule keeps_same) (simp add: picked_state_def)
  have h: "held_by (rl_picks ?P) p t = Some s"
    using ps.kept_over_add [OF relay_invD(1) [OF assms(1)] assms(2), of p' t' s'] assms(2-6) relay_invD(2) [OF assms(1,2)]
    by (auto simp: picked_state_def pick_ok_def)
  have p: "kept R ?P p t s" using k h by (simp add: kept_def)
  have s: "jm_get (rl_streams R) s \<noteq> None" using relay_invD(2) [OF assms(1,2)] by (auto simp: pick_ok_def)
  have l: "kept R (loop_over s' ?P) p t s"
  proof (cases "s' = s")
    case True
    then show ?thesis using s k loop_over_closes [of ?P s] keeps_streams_trans [OF k keeps_loop_over]
      by (simp add: kept_def picked_state_def)
  next
    case ne: False
    have "held_by (rl_picks (bye s' ?P)) p t = Some s"
    proof -
      have i: "picks_inv (rl_picks ?P)" using relay_invD(1) [OF assms(1)] by (simp add: picked_state_def picks_add_inv)
      have "rl_picks (bye s' ?P) = snd (picks_forget p' (Some s') (rl_picks ?P))"
        using assms(3,4) by (simp add: bye_def picked_state_def split: prod.splits)
      then show ?thesis using ps.kept_over_forget [OF i h] ne by simp
    qed
    then show ?thesis using keeps_streams_trans [OF k keeps_loop_over] by (simp add: kept_def)
  qed
  show ?thesis using False l p by (cases "t' = LOAD_TOPIC") (simp_all add: take_pick_eq split: option.splits)
qed

lemma kept_step:
  assumes "relay_inv cfg R" "held_by (rl_picks R) p t = Some s" "gossip_fits e" "\<not> gives_up R p t s e"
    and "relay_step cfg R e = Some (xs, R')"
  shows "kept R R' p t s"
proof -
  obtain now ev where e: "e = (now, ev)" by fastforce
  show ?thesis
  proof (cases ev)
    case (Chunk s' c)
    then have R': "R' = snd (take_frame cfg now s' c R)" using assms(5) by (simp add: e relay_step_def prod_eq_iff)
    show ?thesis
    proof (cases "\<exists>st. jm_get (rl_streams R) s' = Some st \<and> st_loop st \<and> st_push st = None")
      case False
      then have "jm_get (rl_streams R) s' = None \<or> (\<exists>st. jm_get (rl_streams R) s' = Some st \<and> (\<not> st_loop st \<or> st_push st \<noteq> None))"
        by (cases "jm_get (rl_streams R) s'") auto
      then show ?thesis using kept_same [OF assms(2)] unfolding R' by (simp add: take_frame_other)
    next
      case True
      then obtain st where st: "jm_get (rl_streams R) s' = Some st" "st_loop st" "st_push st = None" by blast
      have p: "s' \<noteq> s \<Longrightarrow> decodeFrame c = Some (FPick t) \<Longrightarrow> st_peer st \<noteq> p" "s' = s \<Longrightarrow> decodeFrame c \<noteq> Some (FDrop t)"
        using assms(4) st(1) Chunk by (auto simp: e gives_up_def peer_of_def)
      show ?thesis unfolding R' using st p kept_same [OF assms(2)]
        by (auto simp: take_frame_def split: option.splits pick_frame.splits
            intro!: kept_take_drop [OF assms(1,2)] kept_take_push [OF assms(1,2)] kept_take_pick [OF assms(1,2)])
    qed
  next
    case (Published s' n)
    then have R': "R' = snd (published now s' n R)" using assms(5) by (simp add: e relay_step_def prod_eq_iff)
    show ?thesis unfolding R' by (rule kept_published [OF assms(1,2)])
  next
    case (Gossip sender t' data)
    then show ?thesis
      using assms(3,5) gossip_some [OF assms(1), of sender now t' data] kept_same [OF assms(2) _ keeps_same]
      by (auto simp: e relay_step_def gossip_fits_def)
  next
    case (Source_ended s')
    then show ?thesis using assms(5) kept_loop_over(1) [OF assms(1,2)] kept_same [OF assms(2)]
      by (auto simp: e relay_step_def source_end_def split: option.splits if_splits)
  next
    case (Sink_ended s')
    then show ?thesis using assms(5) kept_loop_over(2) [OF assms(1,2)] by (auto simp: e relay_step_def)
  next
    case (Opened s' p')
    then show ?thesis using assms(2,5)
      by (auto simp: e relay_step_def open_stream_def kept_def keeps_streams_def peer_of_def stream_open_def jm_get_set jm_has_def split: if_splits)
  next
    case (Subscriptions p' subs)
    then show ?thesis using assms(5) kept_same [OF assms(2) subscription_change_same(1) keeps_same [OF subscription_change_same(2)]]
      by (auto simp: e relay_step_def)
  next
    case (Peer_gone p')
    then show ?thesis using assms(5) kept_same [OF assms(2) _ keeps_same] by (auto simp: e relay_step_def)
  next
    case Sweep
    then show ?thesis using assms(5) sweep_streams kept_same [OF assms(2) _ keeps_same] sweep_topics_inv [OF assms(1)]
      by (auto simp: e relay_step_def relay_sweep_def)
  next
    case (Announce_load n pct)
    then have R': "R' = snd (announce_load cfg now n pct R)" using assms(5) by (simp add: e relay_step_def prod_eq_iff)
    then show ?thesis using kept_same [OF assms(2) _ keeps_same] by (simp add: announce_load_fields)
  qed
qed

lemma keeps_streams_step:
  assumes "relay_inv cfg R" "gossip_fits e" "relay_step cfg R e = Some (xs, R')"
  shows "keeps_streams R R'"
proof -
  obtain now ev where e: "e = (now, ev)" by fastforce
  show ?thesis
  proof (cases ev)
    case (Chunk s' c)
    then have R': "R' = snd (take_frame cfg now s' c R)" using assms(3) by (simp add: e relay_step_def prod_eq_iff)
    have same: "keeps_streams R (snd (answer s' b R1))" if "rl_streams R1 = rl_streams R" for b R1
      using keeps_streams_trans [OF keeps_same [OF that] keeps_answer] .
    have over: "keeps_streams R (loop_over s' R1)" if "rl_streams R1 = rl_streams R" for R1
      using keeps_streams_trans [OF keeps_same [OF that] keeps_loop_over] .
    have d: "rl_streams (take_drop s' p t R) = rl_streams R" for p t by (simp add: take_drop_def split: prod.splits)
    have ps: "rl_streams (picked_state cfg now s' p t R) = rl_streams R" for p t by (simp add: picked_state_def)
    have "keeps_streams R (snd (take_push s' st t data R))" if "jm_get (rl_streams R) s' = Some st" for st t data
      using keeps_set [OF that, of "st\<lparr>st_push := Some (t, data)\<rparr>"] same [of R] by (simp add: take_push_def)
    moreover have "keeps_streams R (snd (take_pick cfg now s' p t R))" for p t
      using over [OF ps] keeps_same [OF ps] by (simp add: take_pick_eq same split: option.splits)
    ultimately show ?thesis unfolding R' using d keeps_same
      by (auto simp: take_frame_def split: option.splits pick_frame.splits)
  next
    case (Published s' n)
    then have R': "R' = snd (published now s' n R)" using assms(3) by (simp add: e relay_step_def prod_eq_iff)
    show ?thesis
    proof (cases "\<exists>st t data. jm_get (rl_streams R) s' = Some st \<and> st_push st = Some (t, data)")
      case False
      then have "published now s' n R = ([], R)" by (intro published_idle) (cases "jm_get (rl_streams R) s'"; force)
      then show ?thesis unfolding R' by simp
    next
      case True
      then obtain st t data where st: "jm_get (rl_streams R) s' = Some st" "st_push st = Some (t, data)" by blast
      let ?R2 = "(push_done s' st R)\<lparr>rl_lastSeen := jm_set t now (rl_lastSeen R)\<rparr>"
      note k = keeps_push_done [OF st(1)]
      have "keeps_streams R ?R2" using k by (simp add: keeps_streams_def peer_of_def stream_open_def)
      then show ?thesis unfolding R' published_eq [OF st]
        using keeps_streams_trans [OF k keeps_loop_over] keeps_streams_trans [OF _ keeps_answer] by (simp split: option.splits)
    qed
  next
    case (Gossip sender t' data)
    then show ?thesis
      using assms(2,3) gossip_some [OF assms(1), of sender now t' data] keeps_same by (auto simp: e relay_step_def gossip_fits_def)
  next
    case (Source_ended s')
    then show ?thesis using assms(3) keeps_loop_over by (auto simp: e relay_step_def source_end_def split: option.splits if_splits)
  next
    case (Sink_ended s')
    then show ?thesis using assms(3) keeps_bye by (auto simp: e relay_step_def)
  next
    case (Opened s' p')
    then show ?thesis using assms(3)
      by (auto simp: e relay_step_def open_stream_def keeps_streams_def peer_of_def stream_open_def jm_get_set jm_has_def split: if_splits)
  next
    case (Subscriptions p' subs)
    then show ?thesis using assms(3) keeps_same [OF subscription_change_same(2)] by (auto simp: e relay_step_def)
  next
    case (Peer_gone p')
    then show ?thesis using assms(3) keeps_same by (auto simp: e relay_step_def)
  next
    case Sweep
    then show ?thesis using assms(3) keeps_same [OF sweep_streams] by (auto simp: e relay_step_def relay_sweep_def)
  next
    case (Announce_load n pct)
    then have R': "R' = snd (announce_load cfg now n pct R)" using assms(3) by (simp add: e relay_step_def prod_eq_iff)
    show ?thesis unfolding R' by (rule keeps_same) (simp add: announce_load_fields)
  qed
qed

lemma keeps_streams_run:
  assumes "relay_inv cfg R" "list_all gossip_fits es" "relay_run cfg R es = Some (xs, R')"
  shows "keeps_streams R R' \<and> relay_inv cfg R'"
  using assms
proof (induction es arbitrary: R xs)
  case (Cons e es)
  obtain ys R1 where R1: "relay_step cfg R e = Some (ys, R1)" "relay_inv cfg R1"
    using relay_step_inv [of cfg R e] Cons.prems(1,2) by auto
  then obtain zs where "relay_run cfg R1 es = Some (zs, R')" using Cons.prems(3) by (auto split: option.splits)
  then have "keeps_streams R1 R' \<and> relay_inv cfg R'" using Cons.IH [OF R1(2)] Cons.prems(2) by simp
  then show ?case using keeps_streams_step [OF Cons.prems(1) _ R1(1)] Cons.prems(2) keeps_streams_trans by (auto)
qed simp

lemma gives_up_later: "keeps_streams R R' \<Longrightarrow> gives_up R p t s e \<Longrightarrow> gives_up R' p t s e"
  by (auto simp: gives_up_def keeps_streams_def split: relay_event.splits if_splits)

lemma pick_kept:
  assumes "relay_inv cfg R" "held_by (rl_picks R) p t = Some s" "list_all gossip_fits es" "relay_run cfg R es = Some (xs, R')"
    and "stream_open s R'" "\<forall>e\<in>set es. \<not> gives_up R' p t s e"
  shows "held_by (rl_picks R') p t = Some s"
  using assms
proof (induction es arbitrary: R xs)
  case (Cons e es)
  obtain ys R1 where R1: "relay_step cfg R e = Some (ys, R1)" "relay_inv cfg R1"
    using relay_step_inv [of cfg R e] Cons.prems(1,3) by auto
  then obtain zs where run: "relay_run cfg R1 es = Some (zs, R')" using Cons.prems(4) by (auto split: option.splits)
  have k1: "keeps_streams R R1" using keeps_streams_step [OF Cons.prems(1) _ R1(1)] Cons.prems(3) by simp
  have k2: "keeps_streams R1 R'" using keeps_streams_run [OF R1(2) _ run] Cons.prems(3) by simp
  have "\<not> gives_up R p t s e"
    using Cons.prems(6) gives_up_later [OF keeps_streams_trans [OF k1 k2], of p t s e] by auto
  then have k: "kept R R1 p t s" using kept_step [OF Cons.prems(1,2) _ _ R1(1)] Cons.prems(3) by simp
  have "peer_of R s \<noteq> None" using relay_invD(2) [OF Cons.prems(1,2)] by (auto simp: pick_ok_def peer_of_def)
  then have "peer_of R1 s \<noteq> None" using k1 by (auto simp: keeps_streams_def)
  then have "stream_open s R1" using k2 Cons.prems(5) by (auto simp: keeps_streams_def)
  then have "held_by (rl_picks R1) p t = Some s" using k by (simp add: kept_def)
  from Cons.IH [OF R1(2) this _ run Cons.prems(5)] Cons.prems(3,6) show ?case by simp
qed simp

lemma start_run:
  assumes "list_all gossip_fits es" "relay_run cfg relay_start es = Some (xs, R)"
  shows "relay_inv cfg R"
  using relay_run_inv [OF relay_start_inv assms(1), of cfg] assms(2) by auto

lemma decode_refused: "encodeRefused t = Some b \<Longrightarrow> decodeFrame b \<noteq> Some (FPicked t')"
  by (auto simp: encodeRefused_def decodeFrame_def pick_tags Let_def)

lemma picked_answer:
  assumes "relay_inv cfg R0" "peer_of R0 s = Some p" "take_frame cfg now s c R0 = (fs, R1)" "decodeFrame c = Some (FPick t)"
    and "b \<in> set (sent_on s fs)" "decodeFrame b = Some (FPicked t')"
  shows "held_by (rl_picks R1) p t = Some s \<or> \<not> stream_open s R1"
proof -
  obtain st where st: "jm_get (rl_streams R0) s = Some st" "st_peer st = p"
    using assms(2) by (auto simp: peer_of_def)
  have "sent_on s fs \<noteq> []" using assms(5) by auto
  then have l: "st_loop st" "st_push st = None" using assms(3) st by (cases "st_push st"; auto simp: take_frame_def split: if_splits)+
  have e: "take_pick cfg now s p t R0 = (fs, R1)" using assms(3,4) st l by (simp add: take_frame_def)
  have "\<not> pick_refused cfg p t R0"
  proof
    assume "pick_refused cfg p t R0"
    then have "fs = fst (answer s (encodeRefused t) (R0\<lparr>rl_quota := quota_release p t (snd (quota_claim (rc_perPeer cfg) p t (rl_quota R0)))\<rparr>))"
      using e by (simp add: take_pick_eq prod_eq_iff)
    then have "encodeRefused t = Some b" using assms(5) by (auto simp: answer_def sent_on_send split: option.splits if_splits)
    then show False using decode_refused assms(6) by blast
  qed
  then have "R1 = picked_state cfg now s p t R0 \<or> R1 = loop_over s (picked_state cfg now s p t R0)"
    using e by (auto simp: take_pick_eq split: option.splits if_splits)
  moreover have "held_by (rl_picks (picked_state cfg now s p t R0)) p t = Some s"
    by (simp add: picked_state_def picks_add_abs hold_set_def)
  moreover have "\<not> stream_open s (loop_over s (picked_state cfg now s p t R0))"
    using st by (intro loop_over_closes) (simp add: picked_state_def)
  ultimately show ?thesis by blast
qed

lemma gossip_delivers:
  assumes "relay_inv cfg R" "held_by (rl_picks R) p t = Some s" "stream_open s R" "accepted cfg q t data R"
    and "q \<noteq> p" "wire_name q" "wire_name t"
  shows "\<exists>ys R' f. gossip cfg now q t data R = Some (ys, R') \<and> sent_on s ys = [f] \<and> decodeFrame f = Some (FDeliver q t data)"
proof -
  have f: "fits_name q" "fits_name t" using assms(6,7) by (simp_all add: wire_name_def)
  let ?f = "[T_DELIVER, len_byte (utf8 q)] @ utf8 q @ [len_byte (utf8 t)] @ utf8 t @ data"
  have e: "encodeDeliver q t data = Some ?f" using f by (intro encode_fits(7))
  define R2 where "R2 = (let R1 = R\<lparr>rl_lastSeen := jm_set t now (rl_lastSeen R)\<rparr> in
    if t = LOAD_TOPIC then R1\<lparr>rl_cache := snd (cache_put (rc_json cfg) q data (of_int now) (rl_cache R1))\<rparr> else R1)"
  have R2: "rl_picks R2 = rl_picks R" "rl_streams R2 = rl_streams R" by (auto simp: R2_def Let_def)
  then have o: "stream_open k R2 = stream_open k R" for k by (simp add: stream_open_def)
  have "s \<in> set (sinksFor t (Some q) (rl_picks R))"
    using assms(2,5) ps.sink_told [OF relay_invD(1) [OF assms(1)], of s t "Some q"] by (auto simp: except_name_def)
  then have "sinksFor t (Some q) (rl_picks R) \<noteq> []" by auto
  then have m: "on_message cfg now q t data R = Some (deliver_all ?f (sinksFor t (Some q) (rl_picks R)) R2, R2)"
    unfolding on_message_def R2_def [unfolded Let_def, symmetric] Let_def R2 e by simp
  have d: "sent_on s (deliver_all ?f (sinksFor t (Some q) (rl_picks R)) R2) = [?f]"
    unfolding delivered_on [OF assms(1) o] using assms(2,3,5) by (auto simp: except_name_def)
  have "decodeFrame ?f = Some (FDeliver q t data)" by (rule decode_deliver [OF assms(6,7)])
  with m d show ?thesis using assms(4) by (auto simp: gossip_def)
qed

lemma picked_topic_heard:
  assumes "list_all gossip_fits es0" "relay_run cfg relay_start es0 = Some (xs0, R0)" "peer_of R0 s = Some p"
    and "take_frame cfg now s c R0 = (fs, R1)" "decodeFrame c = Some (FPick t)"
      "b \<in> set (sent_on s fs)" "decodeFrame b = Some (FPicked t')"
    and "list_all gossip_fits es" "relay_run cfg R1 es = Some (xs, R2)" "stream_open s R2" "\<forall>e\<in>set es. \<not> gives_up R2 p t s e"
    and "accepted cfg q t data R2" "q \<noteq> p" "wire_name q" "wire_name t"
  shows "\<exists>ys R3 f. gossip cfg later q t data R2 = Some (ys, R3) \<and> sent_on s ys = [f] \<and> decodeFrame f = Some (FDeliver q t data)"
proof -
  have R0: "relay_inv cfg R0" by (rule start_run [OF assms(1,2)])
  have R1: "relay_inv cfg R1" using take_frame_inv [OF R0, of now s c] assms(4) by simp
  have R2: "keeps_streams R1 R2" "relay_inv cfg R2" using keeps_streams_run [OF R1 assms(8,9)] by simp_all
  have "relay_step cfg R0 (now, Chunk s c) = Some (fs, R1)" using assms(4) by (simp add: relay_step_def)
  then have "keeps_streams R0 R1" by (rule keeps_streams_step [OF R0, rotated]) (simp add: gossip_fits_def)
  then have "peer_of R1 s \<noteq> None" using assms(3) by (auto simp: keeps_streams_def)
  then have "stream_open s R1" using R2(1) assms(10) by (auto simp: keeps_streams_def)
  then have "held_by (rl_picks R1) p t = Some s" using picked_answer [OF R0 assms(3-7)] by simp
  then have "held_by (rl_picks R2) p t = Some s" by (rule pick_kept [OF R1 _ assms(8-11)])
  then show ?thesis by (rule gossip_delivers [OF R2(2) _ assms(10,12-15)])
qed

lemma push_published:
  assumes "relay_inv cfg R" "jm_get (rl_streams R) s = Some st" "st_push st = Some (t, data)" "wire_name (st_peer st)" "wire_name t"
    and "published now s n R = (ys, R')"
  shows "(\<forall>p k. held_by (rl_picks R) p t = Some k \<and> p \<noteq> st_peer st \<and> stream_open k R \<longrightarrow>
        (\<exists>f. sent_on k ys = [f] \<and> decodeFrame f = Some (FDeliver (st_peer st) t data)))
    \<and> (\<forall>k. k \<noteq> s \<and> (\<forall>p. p \<noteq> st_peer st \<longrightarrow> held_by (rl_picks R) p t \<noteq> Some k) \<longrightarrow> sent_on k ys = [])
    \<and> (stream_open s R \<longrightarrow> (\<exists>f. sent_on s ys = [f] \<and> decodeFrame f = Some (FAck t (ack_count
        (int (case n of None \<Rightarrow> 0 | Some m \<Rightarrow> m) + int (card {p. held_by (rl_picks R) p t \<noteq> None \<and> p \<noteq> st_peer st}))))))"
proof -
  let ?q = "st_peer st"
  let ?f = "[T_DELIVER, len_byte (utf8 ?q)] @ utf8 ?q @ [len_byte (utf8 t)] @ utf8 t @ data"
  have fits: "fits_name ?q" "fits_name t" using assms(4,5) by (simp_all add: wire_name_def)
  have e: "encodeDeliver ?q t data = Some ?f" using fits by (intro encode_fits(7))
  let ?n = "int (push_reach ?q t n R)"
  obtain a where a: "encodeAck t ?n = Some a" using encode_fits(6) [OF fits(2)] by blast
  let ?D = "push_done s st R"
  have o: "stream_open k ?D = stream_open k R" for k
    using assms(2) by (auto simp: push_done_def stream_open_def jm_get_set)
  have o2: "stream_open k (?D\<lparr>rl_lastSeen := jm_set t now (rl_lastSeen R)\<rparr>) = stream_open k R" for k
    using o [of k] by (simp add: stream_open_def)
  have ys: "ys = deliver_all ?f (sinksFor t (Some ?q) (rl_picks R)) ?D @ send s a (?D\<lparr>rl_lastSeen := jm_set t now (rl_lastSeen R)\<rparr>)"
    using arg_cong [OF assms(6), of fst] unfolding published_eq [OF assms(2,3)] e a by (simp add: answer_def)
  have s: "sent_on k ys = (if stream_open k R \<and> (\<exists>p. held_by (rl_picks R) p t = Some k \<and> p \<noteq> ?q) then [?f] else [])
      @ (if s = k \<and> stream_open s R then [a] else [])" for k
    by (simp add: ys delivered_on [OF assms(1) o] sent_on_send o2 except_name_def)
  have own: "held_by (rl_picks R) p t = Some s \<Longrightarrow> p = ?q" for p
    using relay_invD(2) [OF assms(1), of p t s] assms(2) by (auto simp: pick_ok_def)
  have df: "decodeFrame ?f = Some (FDeliver ?q t data)" by (rule decode_deliver [OF assms(4,5)])
  have da: "decodeFrame a = Some (FAck t (ack_count ?n))" using decode_ack [OF assms(5), of ?n] a by simp
  have f: "finite {p. held_by (rl_picks R) p t \<noteq> None \<and> p \<noteq> ?q}"
    using ps.finite_holders [OF relay_invD(1) [OF assms(1)], of t] by (rule rev_finite_subset) auto
  have "length (sinksFor t (Some ?q) (rl_picks R)) = card {p. held_by (rl_picks R) p t \<noteq> None \<and> p \<noteq> ?q}"
    using arg_cong [OF ps.sinks_abs [OF relay_invD(1) [OF assms(1)], of t "Some ?q"], of size] by (simp add: except_name_def)
  then have n: "?n = int (case n of None \<Rightarrow> 0 | Some m \<Rightarrow> m) + int (card {p. held_by (rl_picks R) p t \<noteq> None \<and> p \<noteq> ?q})"
    by (simp add: push_reach_def)
  have 1: "\<exists>f. sent_on k ys = [f] \<and> decodeFrame f = Some (FDeliver ?q t data)"
    if "held_by (rl_picks R) p t = Some k" "p \<noteq> ?q" "stream_open k R" for p k
    using that own [of p] df by (auto simp: s)
  have 2: "sent_on k ys = []" if "k \<noteq> s" "\<forall>p. p \<noteq> ?q \<longrightarrow> held_by (rl_picks R) p t \<noteq> Some k" for k
    using that by (auto simp: s)
  have 3: "\<exists>f. sent_on s ys = [f] \<and> decodeFrame f = Some (FAck t (ack_count ?n))" if "stream_open s R"
    using that own da by (auto simp: s)
  show ?thesis using 1 2 3 unfolding n by blast
qed

subsection \<open>What the code lets happen\<close>

lemma load_topic_wire: "wire_name LOAD_TOPIC" "LOAD_TOPIC \<noteq> []"
proof -
  have "list_all (\<lambda>u. unat u < 0x80) LOAD_TOPIC" "length LOAD_TOPIC = 52"
    by (simp_all add: LOAD_TOPIC_def js_def)
  moreover from this show "LOAD_TOPIC \<noteq> []" by auto
  ultimately show "wire_name LOAD_TOPIC" by (intro ascii_wire_name) simp_all
qed

lemma load_topic_gone:
  assumes "rc_idleTtl cfg < now"
  shows "relay_sweep cfg now relay_start = relay_start\<lparr>rl_topics := [], rl_validators := []\<rparr>"
  using assms by (simp add: relay_sweep_def relay_start_def evictable_def holders_def no_picks_def jm_del_def)

lemma load_topic_unguarded:
  assumes "rc_idleTtl cfg < now" "1 \<le> rc_perPeer cfg" "1 \<le> rc_maxTopics cfg" "decodeFrame c = Some (FPick LOAD_TOPIC)"
  shows "\<exists>xs R. relay_run cfg (relay_sweep cfg now relay_start) [(t1, Opened s p), (t2, Chunk s c)] = Some (xs, R)
    \<and> (\<forall>q data. \<not> oversize data \<longrightarrow> accepted cfg q LOAD_TOPIC data R)"
proof -
  let ?R = "open_stream s p (relay_sweep cfg now relay_start)"
  have R: "?R = \<lparr>rl_topics = [], rl_validators = [], rl_quota = [], rl_picks = no_picks, rl_lastSeen = [], rl_cache = [],
      rl_streams = [(s, \<lparr>st_peer = p, st_open = True, st_loop = True, st_push = None\<rparr>)]\<rparr>"
    unfolding load_topic_gone [OF assms(1)] by (simp add: open_stream_def relay_start_def jm_has_def)
  have ok: "\<not> pick_refused cfg p LOAD_TOPIC ?R"
    using assms(2,3) by (simp add: pick_refused_def R quota_claim_def Let_def)
  have e: "encodePicked LOAD_TOPIC = Some (T_PICKED # utf8 LOAD_TOPIC)"
    using load_topic_wire(1) by (intro encode_fits(4)) (simp add: wire_name_def)
  have f: "take_frame cfg t2 s c ?R = take_pick cfg t2 s p LOAD_TOPIC ?R"
    using assms(4) by (simp add: take_frame_def R)
  have "replay_throws (of_int t2) (picked_state cfg t2 s p LOAD_TOPIC ?R) = False"
    by (simp add: replay_throws_def picked_state_def R cache_snapshot_def)
  then have "snd (take_frame cfg t2 s c ?R) = picked_state cfg t2 s p LOAD_TOPIC ?R"
    using ok e by (simp add: f take_pick_eq)
  moreover have "\<forall>q data. \<not> oversize data \<longrightarrow> accepted cfg q LOAD_TOPIC data (picked_state cfg t2 s p LOAD_TOPIC ?R)"
    by (simp add: accepted_def picked_state_def R frameValidator_def)
  ultimately show ?thesis
    by (cases "take_frame cfg t2 s c ?R") (simp add: relay_step_def)
qed

text \<open>A peer that picks a topic and then says over GossipSub that it does not want it.\<close>

definition pick_and_disown :: "nat \<Rightarrow> jstr \<Rightarrow> jstr \<Rightarrow> (int \<times> relay_event) list" where
  "pick_and_disown s p t = [(0, Chunk s (T_PICK # utf8 t)), (0, Subscriptions p [(t, False)])]"

definition evading :: "nat \<Rightarrow> jstr \<Rightarrow> jstr list \<Rightarrow> relay \<Rightarrow> bool" where
  "evading s p ts R = (quota_inv 0 (rl_quota R) \<and> jm_get (rl_streams R) s = Some \<lparr>st_peer = p, st_open = True, st_loop = True, st_push = None\<rparr>
     \<and> (\<forall>t\<in>set ts. held_by (rl_picks R) p t = Some s) \<and> length (rl_topics R) \<le> Suc (length ts))"

lemma evade_one:
  assumes "evading s p ts R" "wire_name t" "t \<noteq> LOAD_TOPIC" "1 \<le> rc_perPeer cfg" "Suc (length ts) < rc_maxTopics cfg"
  shows "\<exists>xs R'. relay_run cfg R (pick_and_disown s p t) = Some (xs, R') \<and> evading s p (t # ts) R'"
proof -
  have q0: "or_empty (jm_get (rl_quota R) p') = []" for p'
    using assms(1) by (auto simp: evading_def quota_inv_def countFor_def)
  have n: "\<not> pick_refused cfg p t R"
    using assms(1,4,5) quota_claim_eq [of "rc_perPeer cfg" p t "rl_quota R"]
    by (auto simp: pick_refused_def evading_def q0 prod_eq_iff)
  obtain b where b: "encodePicked t = Some b" using assms(2) encode_fits(4) by (auto simp: wire_name_def)
  let ?P = "picked_state cfg 0 s p t R"
  have f: "take_frame cfg 0 s (T_PICK # utf8 t) R = (send s b ?P, ?P)"
    using assms(1,3) n b decode_named(1) [OF assms(2)] by (simp add: take_frame_def evading_def take_pick_eq)
  let ?R = "?P\<lparr>rl_quota := quota_release p t (rl_quota ?P)\<rparr>"
  have u: "subscription cfg 0 p t False ?P = ?R" by (simp add: subscription_def Let_def)
  have "or_empty (jm_get (rl_quota ?R) p') = []" for p'
    by (simp add: quota_release_get) (auto simp: picked_state_def quota_claim_get q0 set_delete_def)
  moreover have "jm_inv (rl_quota ?R)"
  proof -
    have "quota_inv (rc_perPeer cfg) (rl_quota R)"
      using assms(1) q0 by (simp add: evading_def quota_inv_def countFor_def)
    then have "quota_inv (rc_perPeer cfg) (rl_quota ?R)" by (simp add: picked_state_def)
    then show ?thesis by (simp add: quota_inv_def)
  qed
  ultimately have "quota_inv 0 (rl_quota ?R)" by (simp add: quota_inv_def countFor_def)
  moreover have "\<forall>t'\<in>set (t # ts). held_by (rl_picks ?R) p t' = Some s"
    using assms(1) by (simp add: picked_state_def picks_add_abs hold_set_def evading_def)
  moreover have "length (rl_topics ?R) \<le> Suc (length (t # ts))" using assms(1) by (simp add: picked_state_def evading_def)
  ultimately have "evading s p (t # ts) ?R" using assms(1) by (simp add: evading_def picked_state_def)
  then show ?thesis using f u by (simp add: pick_and_disown_def relay_step_def)
qed

lemma relay_run_append:
  "relay_run cfg R (es @ fs) = (case relay_run cfg R es of None \<Rightarrow> None
     | Some (xs, R1) \<Rightarrow> (case relay_run cfg R1 fs of None \<Rightarrow> None | Some (ys, R2) \<Rightarrow> Some (xs @ ys, R2)))"
  by (induction es arbitrary: R) (auto split: option.splits)

lemma evade_all:
  assumes "evading s p us R" "\<forall>t\<in>set ts. wire_name t \<and> t \<noteq> LOAD_TOPIC" "1 \<le> rc_perPeer cfg" "Suc (length us + length ts) \<le> rc_maxTopics cfg"
  shows "\<exists>xs R'. relay_run cfg R (concat (map (pick_and_disown s p) ts)) = Some (xs, R') \<and> evading s p (rev ts @ us) R'"
  using assms
proof (induction ts arbitrary: us R)
  case (Cons t ts)
  obtain xs R1 where R1: "relay_run cfg R (pick_and_disown s p t) = Some (xs, R1)" "evading s p (t # us) R1"
    using evade_one [of s p us R t cfg] Cons.prems by auto
  obtain ys R2 where "relay_run cfg R1 (concat (map (pick_and_disown s p) ts)) = Some (ys, R2)" "evading s p (rev ts @ t # us) R2"
    using Cons.IH [OF R1(2)] Cons.prems by auto
  then show ?case using R1(1) by (simp add: relay_run_append)
qed simp

lemma quota_by_disowning:
  assumes "distinct ts" "\<forall>t\<in>set ts. wire_name t \<and> t \<noteq> LOAD_TOPIC" "1 \<le> rc_perPeer cfg" "Suc (length ts) \<le> rc_maxTopics cfg"
  shows "\<exists>xs R. relay_run cfg relay_start ((0, Opened s p) # concat (map (pick_and_disown s p) ts)) = Some (xs, R)
    \<and> countFor p (rl_quota R) = 0 \<and> (\<forall>t\<in>set ts. held_by (rl_picks R) p t = Some s)"
proof -
  let ?R = "open_stream s p relay_start"
  have "evading s p [] ?R" by (simp add: evading_def open_stream_def relay_start_def jm_has_def)
  from evade_all [OF this assms(2,3)] assms(4) obtain xs R where
    r: "relay_run cfg ?R (concat (map (pick_and_disown s p) ts)) = Some (xs, R)" "evading s p (rev ts @ []) R" by auto
  then have "countFor p (rl_quota R) = 0" "\<forall>t\<in>set ts. held_by (rl_picks R) p t = Some s"
    by (simp_all add: evading_def quota_inv_def)
  then show ?thesis using r(1) by (simp add: relay_step_def)
qed

subsection \<open>Properties\<close>

text \<open>
  C39: the books of a relay, whatever peers do. From its start, through any events whose GossipSub
  senders have names that fit a frame, the relay never throws out of its message listener; it
  carries no more topics than its cap, counts no peer past its limit, and every topic a stream has
  picked is one it is subscribed to, held for the peer of that stream, which still reads.
\<close>
theorem relay_books:
  assumes "list_all gossip_fits es"
  shows "\<exists>xs R. relay_run cfg relay_start es = Some (xs, R)
    \<and> distinct (rl_topics R) \<and> length (rl_topics R) \<le> max 1 (rc_maxTopics cfg)
    \<and> (\<forall>p. countFor p (rl_quota R) \<le> rc_perPeer cfg)
    \<and> (\<forall>p t s. held_by (rl_picks R) p t = Some s \<longrightarrow>
         t \<in> set (rl_topics R) \<and> (\<exists>st. jm_get (rl_streams R) s = Some st \<and> st_peer st = p \<and> st_loop st))"
proof -
  obtain xs R where r: "relay_run cfg relay_start es = Some (xs, R)" and i: "relay_inv cfg R"
    using relay_run_inv [OF relay_start_inv assms, of cfg] by blast
  then show ?thesis using relay_invD(2) [OF i] by (auto simp: relay_inv_def quota_inv_def pick_ok_def)
qed

definition demo_relay_cfg :: relay_cfg where
  "demo_relay_cfg = \<lparr>rc_self = [0x41], rc_siblings = [[0x42]], rc_localOnly = True, rc_maxTopics = 10, rc_perPeer = 2, rc_idleTtl = 100,
     rc_json = \<lparr>js_parse = \<lambda>_. None, js_stringify = \<lambda>_. [], js_num_of = \<lambda>_. NaN, js_num_str = \<lambda>_. []\<rparr>\<rparr>"

definition demo_relay_events :: "(int \<times> relay_event) list" where
  "demo_relay_events = [(1000, Opened 1 [0x61]), (1000, Opened 2 [0x62]), (1001, Chunk 1 [T_PICK, 0x74]), (1002, Chunk 2 [T_PICK, 0x74])]"

theorem relay_books_witness:
  "\<exists>xs R. relay_run demo_relay_cfg relay_start demo_relay_events = Some (xs, R) \<and> (\<forall>p. countFor p (rl_quota R) \<le> 2)"
  using relay_books [of demo_relay_events demo_relay_cfg] by (auto simp: demo_relay_events_def gossip_fits_def demo_relay_cfg_def)

text \<open>
  C37: what was picked is heard. Once the relay has answered a PICK with PICKED, then through any
  run in which that stream stays open, does not drop the topic and its peer does not pick it on
  another stream, every message of another peer on the topic that GossipSub hands on reaches that
  stream as exactly one DELIVER frame with the sender, the topic and the bytes unchanged: no late
  close of an older stream, sweep, disconnect or traffic of others takes the pick away.
\<close>
theorem picked_hears:
  assumes "list_all gossip_fits es0" "relay_run cfg relay_start es0 = Some (xs0, R0)" "peer_of R0 s = Some p"
    and "take_frame cfg now s c R0 = (fs, R1)" "decodeFrame c = Some (FPick t)"
      "b \<in> set (sent_on s fs)" "decodeFrame b = Some (FPicked t')"
    and "list_all gossip_fits es" "relay_run cfg R1 es = Some (xs, R2)" "stream_open s R2" "\<forall>e\<in>set es. \<not> gives_up R2 p t s e"
    and "accepted cfg q t data R2" "q \<noteq> p" "wire_name q" "wire_name t"
  shows "\<exists>ys R3 f. gossip cfg later q t data R2 = Some (ys, R3) \<and> sent_on s ys = [f] \<and> decodeFrame f = Some (FDeliver q t data)"
  using assms by (rule picked_topic_heard)

lemma demo_topic: "wire_name [0x74]" "[0x74] \<noteq> LOAD_TOPIC" "LOAD_TOPIC \<noteq> [0x74]"
proof -
  have "length LOAD_TOPIC \<noteq> 1" by (simp add: LOAD_TOPIC_def)
  then show "[0x74] \<noteq> LOAD_TOPIC" "LOAD_TOPIC \<noteq> [0x74]" by (metis length_Cons list.size(3) One_nat_def)+
qed (simp add: ascii_wire_name)

lemma utf8_demo: "utf8 [0x74] = [0x74]"
  by (simp add: utf8_point_def high_surrogate_def low_surrogate_def)

lemma demo_frames: "decodeFrame [T_PICK, 0x74] = Some (FPick [0x74])" "encodePicked [0x74] = Some [T_PICKED, 0x74]"
  "decodeFrame [T_PUSH, 1, 0x74, 7, 8] = Some (FPush [0x74] [7, 8])"
  using decode_named(1) [OF demo_topic(1)] encode_fits(4) [of "[0x74]"] demo_topic(1) decode_push [OF demo_topic(1), of "[7, 8]"]
  unfolding utf8_demo wire_name_def len_byte_def by simp_all

lemmas demo_relay_eval = relay_step_def relay_start_def open_stream_def take_frame_def take_pick_def take_push_def quota_claim_def
  picks_add_def no_picks_def set_add_def send_def jm_has_def demo_relay_cfg_def demo_frames demo_topic Let_def oversize_def MAX_FRAME_BYTES_def

abbreviation (input) demo_stream :: "jstr \<Rightarrow> (jstr \<times> bytes) option \<Rightarrow> pick_stream" where
  "demo_stream p w \<equiv> \<lparr>st_peer = p, st_open = True, st_loop = True, st_push = w\<rparr>"

definition demo_opened :: relay where
  "demo_opened = \<lparr>rl_topics = [LOAD_TOPIC, [0x74]], rl_validators = [(LOAD_TOPIC, LoadValidator), ([0x74], FrameValidator)],
      rl_quota = [([0x61], [[0x74]])], rl_picks = \<lparr>pk_byTopic = [([0x74], [([0x61], 1)])], pk_byPeer = [([0x61], [[0x74]])]\<rparr>,
      rl_lastSeen = [([0x74], 1001)], rl_cache = [],
      rl_streams = [(1, demo_stream [0x61] None), (2, demo_stream [0x61] None)]\<rparr>"

definition demo_picked :: relay where
  "demo_picked = demo_opened\<lparr>rl_picks := \<lparr>pk_byTopic = [([0x74], [([0x61], 2)])], pk_byPeer = [([0x61], [[0x74]])]\<rparr>,
      rl_lastSeen := [([0x74], 1002)]\<rparr>"

definition demo_later :: relay where
  "demo_later = demo_picked\<lparr>rl_topics := [[0x74]], rl_validators := [([0x74], FrameValidator)],
      rl_streams := [(1, \<lparr>st_peer = [0x61], st_open = False, st_loop = False, st_push = None\<rparr>), (2, demo_stream [0x61] None)]\<rparr>"

theorem picked_hears_witness:
  "\<exists>ys R3 f. gossip demo_relay_cfg 2001 [0x63] [0x74] [1, 2, 3] demo_later = Some (ys, R3) \<and> sent_on 2 ys = [f]
     \<and> decodeFrame f = Some (FDeliver [0x63] [0x74] [1, 2, 3])"
proof (rule picked_hears)
  show "list_all gossip_fits [(1000, Opened 1 [0x61]), (1000, Opened 2 [0x61]), (1001, Chunk 1 [T_PICK, 0x74])]"
    by (simp add: gossip_fits_def)
  show "relay_run demo_relay_cfg relay_start [(1000, Opened 1 [0x61]), (1000, Opened 2 [0x61]), (1001, Chunk 1 [T_PICK, 0x74])]
      = Some ([Send 1 [T_PICKED, 0x74]], demo_opened)"
    by (simp add: demo_relay_eval demo_opened_def)
  show "peer_of demo_opened 2 = Some [0x61]" by (simp add: demo_opened_def peer_of_def)
  show "take_frame demo_relay_cfg 1002 2 [T_PICK, 0x74] demo_opened = ([Send 2 [T_PICKED, 0x74]], demo_picked)"
    by (simp add: demo_relay_eval demo_opened_def demo_picked_def)
  show "decodeFrame [T_PICK, 0x74] = Some (FPick [0x74])" by (rule demo_frames)
  show "[T_PICKED, 0x74] \<in> set (sent_on 2 [Send 2 [T_PICKED, 0x74]])" by simp
  show "decodeFrame [T_PICKED, 0x74] = Some (FPicked [0x74])" using decode_named(4) [OF demo_topic(1)] unfolding utf8_demo .
  show "list_all gossip_fits [(1003, Source_ended 1), (2000, Sweep)]" by (simp add: gossip_fits_def)
  show "relay_run demo_relay_cfg demo_picked [(1003, Source_ended 1), (2000, Sweep)] = Some ([], demo_later)"
    by (simp add: demo_relay_eval demo_picked_def demo_opened_def demo_later_def source_end_def loop_over_def bye_def picks_forget_def
        picks_drop_def release_all_def relay_sweep_def evictable_def holders_def jm_del_def)
  show "stream_open 2 demo_later" by (simp add: demo_later_def stream_open_def)
  show "\<forall>e\<in>set [(1003, Source_ended 1), (2000, Sweep)]. \<not> gives_up demo_later [0x61] [0x74] 2 e" by (simp add: gives_up_def)
  show "accepted demo_relay_cfg [0x63] [0x74] [1, 2, 3] demo_later"
    by (simp add: accepted_def demo_later_def frameValidator_def oversize_def MAX_FRAME_BYTES_def)
  show "[0x63] \<noteq> ([0x61] :: jstr)" by simp
  show "wire_name [0x63]" "wire_name [0x74]" by (simp_all add: ascii_wire_name)
qed

text \<open>
  A pushed message reaches everybody it should and the answer counts them. When the publish of
  a PUSH is done, every open stream of another peer that holds the topic gets exactly one DELIVER
  with the pusher, the topic and the bytes unchanged, no other stream gets anything, and the pusher
  gets one ACK that carries the reach of the publish plus the number of those peers.
\<close>
theorem push_is_delivered:
  assumes "list_all gossip_fits es" "relay_run cfg relay_start es = Some (xs, R)"
    and "jm_get (rl_streams R) s = Some st" "st_push st = Some (t, data)" "wire_name (st_peer st)" "wire_name t"
    and "published cfg_now s n R = (ys, R')"
  shows "(\<forall>p k. held_by (rl_picks R) p t = Some k \<and> p \<noteq> st_peer st \<and> stream_open k R \<longrightarrow>
        (\<exists>f. sent_on k ys = [f] \<and> decodeFrame f = Some (FDeliver (st_peer st) t data)))
    \<and> (\<forall>k. k \<noteq> s \<and> (\<forall>p. p \<noteq> st_peer st \<longrightarrow> held_by (rl_picks R) p t \<noteq> Some k) \<longrightarrow> sent_on k ys = [])
    \<and> (stream_open s R \<longrightarrow> (\<exists>f. sent_on s ys = [f] \<and> decodeFrame f = Some (FAck t (ack_count
        (int (case n of None \<Rightarrow> 0 | Some m \<Rightarrow> m) + int (card {p. held_by (rl_picks R) p t \<noteq> None \<and> p \<noteq> st_peer st}))))))"
  by (rule push_published [OF start_run [OF assms(1,2)] assms(3-7)])

definition demo_pushing :: "(int \<times> relay_event) list" where
  "demo_pushing = demo_relay_events @ [(1003, Chunk 2 [T_PUSH, 1, 0x74, 7, 8])]"

definition demo_pushed :: relay where
  "demo_pushed = demo_opened\<lparr>rl_quota := [([0x61], [[0x74]]), ([0x62], [[0x74]])],
     rl_picks := \<lparr>pk_byTopic = [([0x74], [([0x61], 1), ([0x62], 2)])], pk_byPeer = [([0x61], [[0x74]]), ([0x62], [[0x74]])]\<rparr>,
     rl_lastSeen := [([0x74], 1002)],
     rl_streams := [(1, demo_stream [0x61] None), (2, demo_stream [0x62] (Some ([0x74], [7, 8])))]\<rparr>"

theorem push_is_delivered_witness:
  "\<exists>f. sent_on 1 (fst (published 1004 2 (Some 3) demo_pushed)) = [f] \<and> decodeFrame f = Some (FDeliver [0x62] [0x74] [7, 8])"
proof -
  have r: "relay_run demo_relay_cfg relay_start demo_pushing
      = Some ([Send 1 [T_PICKED, 0x74], Send 2 [T_PICKED, 0x74], Publish [0x74] [7, 8]], demo_pushed)"
    by (simp add: demo_relay_eval demo_pushing_def demo_relay_events_def demo_pushed_def demo_opened_def)
  have g: "list_all gossip_fits demo_pushing" by (simp add: demo_pushing_def demo_relay_events_def gossip_fits_def)
  have st: "jm_get (rl_streams demo_pushed) 2 = Some (demo_stream [0x62] (Some ([0x74], [7, 8])))" by (simp add: demo_pushed_def)
  have w: "wire_name (st_peer (demo_stream [0x62] (Some ([0x74], [7, 8]))))" by (simp add: ascii_wire_name)
  have p: "st_push (demo_stream [0x62] (Some ([0x74], [7, 8]))) = Some ([0x74], [7, 8])" by simp
  have h: "held_by (rl_picks demo_pushed) [0x61] [0x74] = Some 1" "stream_open 1 demo_pushed"
    by (simp_all add: demo_pushed_def held_by_def stream_open_def)
  note d = push_is_delivered [OF g r st p w demo_topic(1) prod.collapse [symmetric], of 1004 "Some 3", THEN conjunct1]
  have "\<exists>f. sent_on 1 (fst (published 1004 2 (Some 3) demo_pushed)) = [f]
      \<and> decodeFrame f = Some (FDeliver (st_peer (demo_stream [0x62] (Some ([0x74], [7, 8])))) [0x74] [7, 8])"
    by (rule d [rule_format, of "[0x61]"]) (use h in simp)
  then show ?thesis by simp
qed

text \<open>
  The load topic is not kept. A relay subscribes to it at start and lets only relays speak on
  it, but does not note that it was heard: the first sweep at a time past the idle limit drops it
  with its validator when nobody has picked it, and a client that picks it afterwards brings it
  back with the ordinary validator, so that any sender's announcement is accepted.
\<close>
theorem load_topic_swept:
  assumes "rc_idleTtl cfg < now" "1 \<le> rc_perPeer cfg" "1 \<le> rc_maxTopics cfg" "decodeFrame c = Some (FPick LOAD_TOPIC)"
  shows "LOAD_TOPIC \<in> set (rl_topics relay_start) \<and> LOAD_TOPIC \<notin> set (rl_topics (relay_sweep cfg now relay_start))
    \<and> (\<exists>xs R. relay_run cfg (relay_sweep cfg now relay_start) [(t1, Opened s p), (t2, Chunk s c)] = Some (xs, R)
         \<and> (\<forall>q data. \<not> oversize data \<longrightarrow> accepted cfg q LOAD_TOPIC data R))"
  using load_topic_unguarded [OF assms] by (simp add: load_topic_gone [OF assms(1)]) (simp add: relay_start_def)

theorem load_topic_swept_witness:
  "LOAD_TOPIC \<notin> set (rl_topics (relay_sweep demo_relay_cfg 30000 relay_start))"
proof -
  have "decodeFrame (T_PICK # utf8 LOAD_TOPIC) = Some (FPick LOAD_TOPIC)" by (rule decode_named(1) [OF load_topic_wire(1)])
  then show ?thesis
    using load_topic_swept [of demo_relay_cfg 30000 "T_PICK # utf8 LOAD_TOPIC"] by (simp add: demo_relay_cfg_def)
qed

text \<open>
  The limit of one peer is not a limit on its picks. A peer that picks a topic and then says
  over GossipSub that it is not subscribed to it gets its slot back and keeps the pick, so with a
  limit of one it may hold as many topics as the relay has room for, and the quota counts none.
\<close>
theorem quota_evaded:
  assumes "distinct ts" "\<forall>t\<in>set ts. wire_name t \<and> t \<noteq> LOAD_TOPIC" "1 \<le> rc_perPeer cfg" "Suc (length ts) \<le> rc_maxTopics cfg"
  shows "\<exists>xs R. relay_run cfg relay_start ((0, Opened s p) # concat (map (pick_and_disown s p) ts)) = Some (xs, R)
    \<and> countFor p (rl_quota R) = 0 \<and> (\<forall>t\<in>set ts. held_by (rl_picks R) p t = Some s)"
  using assms by (rule quota_by_disowning)

theorem quota_evaded_witness:
  "\<exists>xs R. relay_run demo_relay_cfg relay_start ((0, Opened 1 [0x61]) # concat (map (pick_and_disown 1 [0x61]) [[0x74], [0x75], [0x76]])) = Some (xs, R)
     \<and> countFor [0x61] (rl_quota R) = 0 \<and> (\<forall>t\<in>set [[0x74], [0x75], [0x76]]. held_by (rl_picks R) [0x61] t = Some 1)"
proof (rule quota_evaded)
  have "length LOAD_TOPIC \<noteq> 1" by (simp add: LOAD_TOPIC_def)
  then have "[u] \<noteq> LOAD_TOPIC" for u by (metis length_Cons list.size(3) One_nat_def)
  then show "\<forall>t\<in>set [[0x74], [0x75], [0x76]]. wire_name t \<and> t \<noteq> LOAD_TOPIC" by (simp add: ascii_wire_name)
qed (simp_all add: demo_relay_cfg_def)

end
