(* ===== verification/LightPeer.thy ===== *)
theory LightPeer
  imports RelayTheorems
begin

section \<open>The light transport of a client (net/light.ts)\<close>

text \<open>
  \<open>pickAdapter\<close>: the topics the engine asked for, those the relay confirmed, the publishes that
  wait for an ACK in order per topic, and the stream of the current \<open>attach\<close>. An attach waits for
  its stream, so it is two steps; a stream carries the number of the attach that opened it. Each
  publish has a number; what its promise settles with is \<open>LSettled\<close>. The stream glue of
  \<open>createLightPeer\<close> is the interface \<open>PickStream\<close>: closing a stream runs its close callback.
\<close>

datatype light_effect =
    LSend nat bytes
  | LOpen nat jstr
  | LClose nat
  | LCall nat jstr bytes jstr \<comment> \<open>listener, topic, data, from\<close>
  | LRefused jstr
  | LSettled nat "nat option"
  | LThrown nat
  | LPickClosed

record light =
  li_listeners :: "nat list"
  li_held :: "jstr list"
  li_picked :: "jstr list"
  li_waiting :: "(jstr, nat list) jmap"
  li_stream :: "nat option"
  li_relay :: "jstr option"
  li_current :: "nat option"
  li_next :: nat

definition new_light :: light where
  "new_light = \<lparr>li_listeners = [], li_held = [], li_picked = [], li_waiting = [], li_stream = None, li_relay = None,
     li_current = None, li_next = 0\<rparr>"

definition on_frame :: "pick_frame option \<Rightarrow> light \<Rightarrow> light_effect list \<times> light" where
  "on_frame f L =
     (case f of
        Some (FDeliver from topic data) \<Rightarrow> (map (\<lambda>h. LCall h topic data from) (li_listeners L), L)
      | Some (FPicked topic) \<Rightarrow>
          ([], if topic \<in> set (li_held L) then L\<lparr>li_picked := set_add topic (li_picked L)\<rparr> else L)
      | Some (FRefused topic) \<Rightarrow> ([LRefused topic], L\<lparr>li_picked := set_delete topic (li_picked L)\<rparr>)
      | Some (FAck topic recipients) \<Rightarrow>
          (case jm_get (li_waiting L) topic of
             None \<Rightarrow> ([], L)
           | Some [] \<Rightarrow> ([], L\<lparr>li_waiting := jm_del topic (li_waiting L)\<rparr>)
           | Some (i # q) \<Rightarrow>
               ([LSettled i (Some recipients)],
                L\<lparr>li_waiting := (if q = [] then jm_del topic (li_waiting L) else jm_set topic q (li_waiting L))\<rparr>))
      | _ \<Rightarrow> ([], L))"

text \<open>\<open>onClose\<close>: every waiting publish is told there is no evidence.\<close>

definition on_close :: "light \<Rightarrow> light_effect list \<times> light" where
  "on_close L = (map (\<lambda>i. LSettled i None) (concat (map snd (li_waiting L))),
     L\<lparr>li_stream := None, li_picked := [], li_waiting := []\<rparr>)"

text \<open>The close callback that attach \<open>a\<close> gave its stream.\<close>

definition stream_closed :: "nat \<Rightarrow> light \<Rightarrow> light_effect list \<times> light" where
  "stream_closed a L =
     (if li_current L \<noteq> Some a then ([], L)
      else case on_close (L\<lparr>li_current := None\<rparr>) of (es, L1) \<Rightarrow> (es @ [LPickClosed], L1))"

definition close_stream :: "light \<Rightarrow> light_effect list \<times> light" where
  "close_stream L =
     (case li_stream L of
        None \<Rightarrow> ([], L)
      | Some a \<Rightarrow> (case stream_closed a L of (es, L1) \<Rightarrow> (LClose a # es, L1)))"

definition attach :: "jstr \<Rightarrow> light \<Rightarrow> light_effect list \<times> light" where
  "attach toRelay L =
     (case close_stream L of (es, L1) \<Rightarrow>
        (es @ [LOpen (li_next L1) toRelay],
         L1\<lparr>li_stream := None, li_picked := [], li_relay := Some toRelay, li_current := Some (li_next L1), li_next := Suc (li_next L1)\<rparr>))"

fun send_picks :: "nat \<Rightarrow> jstr list \<Rightarrow> light_effect list" where
  "send_picks a [] = []"
| "send_picks a (t # ts) = (case encodePick t of None \<Rightarrow> [] | Some b \<Rightarrow> LSend a b # send_picks a ts)"

definition attached :: "nat \<Rightarrow> light \<Rightarrow> light_effect list \<times> light" where
  "attached a L =
     (if li_current L \<noteq> Some a then ([LClose a], L)
      else (send_picks a (li_held L), L\<lparr>li_stream := Some a\<rparr>))"

definition detach :: "light \<Rightarrow> light_effect list \<times> light" where
  "detach L =
     (case on_close (L\<lparr>li_current := None\<rparr>) of (es, L1) \<Rightarrow>
        ((case li_stream L of None \<Rightarrow> [] | Some a \<Rightarrow> [LClose a]) @ es, L1))"

definition stream_send :: "bytes option \<Rightarrow> light \<Rightarrow> light_effect list" where
  "stream_send b L = (case li_stream L of None \<Rightarrow> [] | Some a \<Rightarrow> (case b of None \<Rightarrow> [] | Some b \<Rightarrow> [LSend a b]))"

definition light_subscribe :: "jstr \<Rightarrow> light \<Rightarrow> light_effect list \<times> light" where
  "light_subscribe topic L =
     (if topic \<in> set (li_held L) then ([], L)
      else (stream_send (encodePick topic) L, L\<lparr>li_held := li_held L @ [topic]\<rparr>))"

definition light_unsubscribe :: "jstr \<Rightarrow> light \<Rightarrow> light_effect list \<times> light" where
  "light_unsubscribe topic L =
     (if topic \<notin> set (li_held L) then ([], L)
      else (stream_send (encodeDrop topic) L,
            L\<lparr>li_held := set_delete topic (li_held L), li_picked := set_delete topic (li_picked L)\<rparr>))"

definition getSubscribers :: "jstr \<Rightarrow> light \<Rightarrow> jstr list" where
  "getSubscribers topic L =
     (case li_relay L of Some r \<Rightarrow> (if topic \<in> set (li_picked L) \<and> r \<noteq> [] then [r] else []) | None \<Rightarrow> [])"

text \<open>\<open>publish\<close>, up to its wait; the promise of publish \<open>i\<close> is settled later.\<close>

definition light_publish :: "nat \<Rightarrow> jstr \<Rightarrow> bytes \<Rightarrow> light \<Rightarrow> light_effect list \<times> light" where
  "light_publish i topic data L =
     (case li_stream L of
        None \<Rightarrow> ([LThrown i], L)
      | Some a \<Rightarrow>
          let L1 = L\<lparr>li_waiting := jm_set topic (or_empty (jm_get (li_waiting L) topic) @ [i]) (li_waiting L)\<rparr> in
          (case encodePush topic data of None \<Rightarrow> ([LThrown i], L1) | Some b \<Rightarrow> ([LSend a b], L1)))"

text \<open>The timer of publish \<open>i\<close> on its topic; one that is settled already finds nothing to do.\<close>

definition ack_timeout :: "nat \<Rightarrow> jstr \<Rightarrow> light \<Rightarrow> light_effect list \<times> light" where
  "ack_timeout i topic L =
     (case jm_get (li_waiting L) topic of
        None \<Rightarrow> ([], L)
      | Some q \<Rightarrow>
          if i \<in> set q then ([LSettled i None], L\<lparr>li_waiting := jm_set topic (remove1 i q) (li_waiting L)\<rparr>) else ([], L))"

definition add_listener :: "nat \<Rightarrow> light \<Rightarrow> light" where
  "add_listener h L = L\<lparr>li_listeners := li_listeners L @ [h]\<rparr>"

definition remove_listener :: "nat \<Rightarrow> light \<Rightarrow> light" where
  "remove_listener h L = L\<lparr>li_listeners := remove1 h (li_listeners L)\<rparr>"

subsection \<open>Runs\<close>

datatype light_event =
    Attach jstr
  | Attached nat
  | Detach
  | Stream_closed nat
  | Frame bytes
  | Subscribe jstr
  | Unsubscribe jstr
  | Publish_on nat jstr bytes
  | Ack_timeout nat jstr
  | Listen nat
  | Unlisten nat

definition light_step :: "light \<Rightarrow> light_event \<Rightarrow> light_effect list \<times> light" where
  "light_step L e =
     (case e of
        Attach r \<Rightarrow> attach r L
      | Attached a \<Rightarrow> attached a L
      | Detach \<Rightarrow> detach L
      | Stream_closed a \<Rightarrow> stream_closed a L
      | Frame b \<Rightarrow> on_frame (decodeFrame b) L
      | Subscribe t \<Rightarrow> light_subscribe t L
      | Unsubscribe t \<Rightarrow> light_unsubscribe t L
      | Publish_on i t d \<Rightarrow> light_publish i t d L
      | Ack_timeout i t \<Rightarrow> ack_timeout i t L
      | Listen h \<Rightarrow> ([], add_listener h L)
      | Unlisten h \<Rightarrow> ([], remove_listener h L))"

definition light_next :: "light \<Rightarrow> light_event \<Rightarrow> light" where
  "light_next L e = snd (light_step L e)"

subsection \<open>What the adapter keeps\<close>

text \<open>
  What the relay confirmed is asked for; a live stream is the one of the current attach; no
  publish waits twice.
\<close>

definition light_inv :: "light \<Rightarrow> bool" where
  "light_inv L =
     (set (li_picked L) \<subseteq> set (li_held L) \<and> distinct (li_held L)
      \<and> (li_stream L \<noteq> None \<longrightarrow> li_stream L = li_current L)
      \<and> (\<forall>a. li_current L = Some a \<longrightarrow> a < li_next L)
      \<and> jm_inv (li_waiting L))"

lemma new_light_inv [simp]: "light_inv new_light"
  by (simp add: light_inv_def new_light_def)

lemma close_stream_eq:
  assumes "light_inv L"
  shows "close_stream L = (case li_stream L of None \<Rightarrow> ([], L)
    | Some a \<Rightarrow> (LClose a # map (\<lambda>i. LSettled i None) (concat (map snd (li_waiting L))) @ [LPickClosed],
        L\<lparr>li_current := None, li_stream := None, li_picked := [], li_waiting := []\<rparr>))"
  using assms by (auto simp: close_stream_def stream_closed_def on_close_def light_inv_def split: option.splits)

lemma close_stream_inv: "light_inv L \<Longrightarrow> light_inv (snd (close_stream L))"
  unfolding close_stream_eq by (auto simp: light_inv_def split: option.splits)

lemma light_step_inv:
  assumes "light_inv L"
  shows "light_inv (light_next L e)"
proof (cases e)
  case (Attach r)
  have "light_inv (snd (close_stream L))" using assms by (rule close_stream_inv)
  then show ?thesis using Attach
    by (cases "close_stream L") (auto simp: light_next_def light_step_def attach_def light_inv_def intro: less_SucI)
next
  case (Frame b)
  then show ?thesis using assms
    by (auto simp: light_next_def light_step_def on_frame_def light_inv_def split: option.splits pick_frame.splits list.splits)
next
  case (Ack_timeout i t)
  then show ?thesis using assms by (auto simp: light_next_def light_step_def ack_timeout_def light_inv_def split: option.splits)
next
  case (Publish_on i t d)
  then show ?thesis using assms
    by (auto simp: light_next_def light_step_def light_publish_def light_inv_def Let_def split: option.splits)
next
  case (Unsubscribe t)
  then show ?thesis using assms by (auto simp: light_next_def light_step_def light_unsubscribe_def light_inv_def)
qed (use assms in \<open>auto simp: light_next_def light_step_def attached_def detach_def stream_closed_def on_close_def light_subscribe_def
    add_listener_def remove_listener_def light_inv_def\<close>)

interpretation lp: machine light_next light_inv
  by unfold_locales (rule light_step_inv)

subsection \<open>A message between two light clients of one relay\<close>

lemma encodePick_wire: "wire_name t \<Longrightarrow> encodePick t = Some (T_PICK # utf8 t)"
  using encode_fits(1) by (simp add: wire_name_def)

lemma encodePush_wire: "wire_name t \<Longrightarrow> encodePush t data = Some ([T_PUSH, len_byte (utf8 t)] @ utf8 t @ data)"
  using encode_fits(5) by (simp add: wire_name_def)

lemma relay_takes_pick:
  assumes "relay_inv cfg R" "jm_get (rl_streams R) s = Some st" "st_loop st" "st_push st = None" "st_open st" "\<not> pick_refused cfg (st_peer st) t R"
    and "wire_name t" "t \<noteq> LOAD_TOPIC"
  shows "take_frame cfg now s (T_PICK # utf8 t) R = ([Send s (T_PICKED # utf8 t)], picked_state cfg now s (st_peer st) t R)"
proof -
  have "encodePicked t = Some (T_PICKED # utf8 t)" using assms(7) encode_fits(4) by (simp add: wire_name_def)
  moreover have "send s b (picked_state cfg now s (st_peer st) t R) = [Send s b]" for b
    using assms(2,5) by (simp add: send_def picked_state_def)
  ultimately show ?thesis
    using assms(2-4,6,8) decode_named(1) [OF assms(7)] by (simp add: take_frame_def take_pick_eq)
qed

lemma relay_takes_push:
  assumes "jm_get (rl_streams R) s = Some st" "st_loop st" "st_push st = None" "wire_name t" "t \<noteq> LOAD_TOPIC" "\<not> oversize data"
  shows "take_frame cfg now s ([T_PUSH, len_byte (utf8 t)] @ utf8 t @ data) R
    = ([Publish t data], R\<lparr>rl_streams := jm_set s (st\<lparr>st_push := Some (t, data)\<rparr>) (rl_streams R)\<rparr>)"
  using assms decode_push [OF assms(4), of data] by (simp add: take_frame_def take_push_def)

lemma light_exchange:
  assumes "relay_inv cfg R"
    and sB: "jm_get (rl_streams R) sB = Some stB" "st_loop stB" "st_push stB = None" "st_open stB"
    and sA: "jm_get (rl_streams R) sA = Some stA" "st_loop stA" "st_push stA = None" "st_open stA" "st_peer stA \<noteq> st_peer stB" "wire_name (st_peer stA)"
    and B: "li_stream B = Some kB" "t \<notin> set (li_held B)"
    and A: "li_stream A = Some kA" "jm_get (li_waiting A) t = None"
    and t: "wire_name t" "t \<noteq> LOAD_TOPIC" "\<not> oversize data" "\<not> pick_refused cfg (st_peer stB) t R"
  shows "\<exists>f1 B1 R1 f2 B2 g1 A1 R2 e3 R3 g2 g3 A2 n.
      light_subscribe t B = ([LSend kB f1], B1) \<and> take_frame cfg now1 sB f1 R = ([Send sB f2], R1)
    \<and> on_frame (decodeFrame f2) B1 = ([], B2) \<and> t \<in> set (li_picked B2)
    \<and> light_publish i t data A = ([LSend kA g1], A1) \<and> take_frame cfg now2 sA g1 R1 = ([Publish t data], R2)
    \<and> published now3 sA reached R2 = (e3, R3)
    \<and> sent_on sB e3 = [g2] \<and> on_frame (decodeFrame g2) B2 = (map (\<lambda>h. LCall h t data (st_peer stA)) (li_listeners B), B2)
    \<and> sent_on sA e3 = [g3] \<and> on_frame (decodeFrame g3) A1 = ([LSettled i (Some n)], A2)
    \<and> n = ack_count (int (case reached of None \<Rightarrow> 0 | Some m \<Rightarrow> m) + int (card {p. held_by (rl_picks R1) p t \<noteq> None \<and> p \<noteq> st_peer stA}))"
proof -
  let ?p = "st_peer stB" and ?q = "st_peer stA"
  let ?R1 = "picked_state cfg now1 sB ?p t R"
  let ?B1 = "B\<lparr>li_held := li_held B @ [t]\<rparr>"
  let ?B2 = "?B1\<lparr>li_picked := set_add t (li_picked B)\<rparr>"
  let ?A1 = "A\<lparr>li_waiting := jm_set t [i] (li_waiting A)\<rparr>"
  let ?R2 = "?R1\<lparr>rl_streams := jm_set sA (stA\<lparr>st_push := Some (t, data)\<rparr>) (rl_streams R)\<rparr>"
  have ft: "fits_name t" using t(1) by (simp add: wire_name_def)
  have s1: "light_subscribe t B = ([LSend kB (T_PICK # utf8 t)], ?B1)"
    using B by (simp add: light_subscribe_def stream_send_def encodePick_wire [OF t(1)])
  have s2: "take_frame cfg now1 sB (T_PICK # utf8 t) R = ([Send sB (T_PICKED # utf8 t)], ?R1)"
    by (rule relay_takes_pick [OF assms(1) sB t(4,1,2)])
  have s3: "on_frame (decodeFrame (T_PICKED # utf8 t)) ?B1 = ([], ?B2)"
    by (simp add: decode_named(4) [OF t(1)] on_frame_def)
  have s4: "light_publish i t data A = ([LSend kA ([T_PUSH, len_byte (utf8 t)] @ utf8 t @ data)], ?A1)"
    using A by (simp add: light_publish_def encodePush_wire [OF t(1)] Let_def)
  have a1: "jm_get (rl_streams ?R1) sA = Some stA" using sA(1) by (simp add: picked_state_def)
  have s5: "take_frame cfg now2 sA ([T_PUSH, len_byte (utf8 t)] @ utf8 t @ data) ?R1 = ([Publish t data], ?R2)"
    using relay_takes_push [OF a1 sA(2,3) t(1-3)] by (simp add: picked_state_def)
  have i1: "relay_inv cfg ?R1" by (rule picked_state_inv [OF assms(1) t(4) ft sB(1) refl sB(2)])
  have i2: "relay_inv cfg ?R2"
    using relay_inv_stream [OF i1 a1, of "stA\<lparr>st_push := Some (t, data)\<rparr>"] by (simp add: picked_state_def)
  have a2: "jm_get (rl_streams ?R2) sA = Some (stA\<lparr>st_push := Some (t, data)\<rparr>)" by simp
  obtain e3 R3 where p: "published now3 sA reached ?R2 = (e3, R3)" by fastforce
  have AB: "sA \<noteq> sB" using sA(1,5) sB(1) by auto
  have h: "held_by (rl_picks ?R2) ?p t = Some sB" by (simp add: picked_state_def picks_add_abs hold_set_def)
  have o: "stream_open sB ?R2" "stream_open sA ?R2"
    using sB(1,4) sA(4) AB by (simp_all add: stream_open_def picked_state_def jm_get_set)
  let ?w = "stA\<lparr>st_push := Some (t, data)\<rparr>"
  have w: "st_push ?w = Some (t, data)" "wire_name (st_peer ?w)" using sA(6) by simp_all
  note d = push_published [OF i2 a2 w t(1) p]
  obtain g2 where "sent_on sB e3 = [g2]" "decodeFrame g2 = Some (FDeliver (st_peer ?w) t data)"
    using d [THEN conjunct1, rule_format, of ?p sB] h o(1) sA(5) by auto
  then have g2: "sent_on sB e3 = [g2]" "decodeFrame g2 = Some (FDeliver ?q t data)" by simp_all
  obtain g3 where "sent_on sA e3 = [g3]" "decodeFrame g3 = Some (FAck t (ack_count
      (int (case reached of None \<Rightarrow> 0 | Some m \<Rightarrow> m) + int (card {p. held_by (rl_picks ?R2) p t \<noteq> None \<and> p \<noteq> st_peer ?w}))))"
    using d [THEN conjunct2, THEN conjunct2, rule_format, OF o(2)] by blast
  then have g3: "sent_on sA e3 = [g3]" "decodeFrame g3 = Some (FAck t (ack_count
      (int (case reached of None \<Rightarrow> 0 | Some m \<Rightarrow> m) + int (card {p. held_by (rl_picks ?R1) p t \<noteq> None \<and> p \<noteq> ?q}))))"
    by simp_all
  have s6: "on_frame (decodeFrame g2) ?B2 = (map (\<lambda>h. LCall h t data ?q) (li_listeners B), ?B2)"
    by (simp add: g2(2) on_frame_def)
  have s7: "on_frame (decodeFrame g3) ?A1 = ([LSettled i (Some (ack_count
      (int (case reached of None \<Rightarrow> 0 | Some m \<Rightarrow> m) + int (card {p. held_by (rl_picks ?R1) p t \<noteq> None \<and> p \<noteq> ?q}))))],
      ?A1\<lparr>li_waiting := jm_del t (li_waiting ?A1)\<rparr>)"
    by (simp add: g3(2) on_frame_def)
  have s8: "t \<in> set (li_picked ?B2)" by simp
  show ?thesis using s1 s2 s3 s8 s4 s5 p g2(1) s6 g3(1) s7 by blast
qed

subsection \<open>Properties\<close>

text \<open>
  C36: a message between two light clients of one relay. A client that subscribes to a topic over its
  pick stream, within its quota and the cap of the relay, is confirmed; a message within the frame
  limit that another client of the relay then publishes on it, while none of its own on the topic waits
  for an ACK and the relay is through with its earlier frames, is put out by the relay unchanged, comes
  to every listener of the first client once, and settles the publish with the reach the relay counted.
  The load topic is excepted. The listeners are given the name of the client that published, not the
  relay's own, which is what the comment of \<open>light.ts\<close> and the specification say.
\<close>
theorem light_message_arrives:
  assumes "list_all gossip_fits es" "relay_run cfg relay_start es = Some (xs, R)"
    and "jm_get (rl_streams R) sB = Some stB" "st_loop stB" "st_push stB = None" "st_open stB"
    and "jm_get (rl_streams R) sA = Some stA" "st_loop stA" "st_push stA = None" "st_open stA" "st_peer stA \<noteq> st_peer stB" "wire_name (st_peer stA)"
    and "li_stream B = Some kB" "t \<notin> set (li_held B)"
    and "li_stream A = Some kA" "jm_get (li_waiting A) t = None"
    and "wire_name t" "t \<noteq> LOAD_TOPIC" "\<not> oversize data" "\<not> pick_refused cfg (st_peer stB) t R"
  shows "\<exists>f1 B1 R1 f2 B2 g1 A1 R2 e3 R3 g2 g3 A2 n.
      light_subscribe t B = ([LSend kB f1], B1) \<and> take_frame cfg now1 sB f1 R = ([Send sB f2], R1)
    \<and> on_frame (decodeFrame f2) B1 = ([], B2) \<and> t \<in> set (li_picked B2)
    \<and> light_publish i t data A = ([LSend kA g1], A1) \<and> take_frame cfg now2 sA g1 R1 = ([Publish t data], R2)
    \<and> published now3 sA reached R2 = (e3, R3)
    \<and> sent_on sB e3 = [g2] \<and> on_frame (decodeFrame g2) B2 = (map (\<lambda>h. LCall h t data (st_peer stA)) (li_listeners B), B2)
    \<and> sent_on sA e3 = [g3] \<and> on_frame (decodeFrame g3) A1 = ([LSettled i (Some n)], A2)
    \<and> n = ack_count (int (case reached of None \<Rightarrow> 0 | Some m \<Rightarrow> m) + int (card {p. held_by (rl_picks R1) p t \<noteq> None \<and> p \<noteq> st_peer stA}))"
  by (rule light_exchange [OF start_run [OF assms(1,2)] assms(3-20)])

definition demo_light :: light where
  "demo_light = new_light\<lparr>li_listeners := [0], li_stream := Some 0, li_relay := Some [0x41], li_current := Some 0, li_next := 1\<rparr>"

theorem light_message_arrives_witness:
  "\<exists>R f1 R1 f2 g1 R2 g2 B1 B2. take_frame demo_relay_cfg 1 2 f1 R = ([Send 2 f2], R1) \<and> take_frame demo_relay_cfg 2 1 g1 R1 = ([Publish [0x74] [7]], R2)
     \<and> light_subscribe [0x74] demo_light = ([LSend 0 f1], B1) \<and> on_frame (decodeFrame f2) B1 = ([], B2)
     \<and> on_frame (decodeFrame g2) B2 = ([LCall 0 [0x74] [7] [0x61]], B2)"
proof -
  define R where "R = relay_start\<lparr>rl_streams := [(1, demo_stream [0x61] None), (2, demo_stream [0x62] None)]\<rparr>"
  have r: "relay_run demo_relay_cfg relay_start [(0, Opened 1 [0x61]), (0, Opened 2 [0x62])] = Some ([], R)"
    by (simp add: R_def relay_step_def open_stream_def relay_start_def jm_has_def)
  have g: "list_all gossip_fits [(0, Opened 1 [0x61]), (0, Opened 2 [0x62])]" by (simp add: gossip_fits_def)
  have n: "\<not> pick_refused demo_relay_cfg (st_peer (demo_stream [0x62] None)) [0x74] R"
    by (simp add: pick_refused_def quota_claim_def R_def relay_start_def demo_relay_cfg_def)
  have st: "jm_get (rl_streams R) 2 = Some (demo_stream [0x62] None)" "jm_get (rl_streams R) 1 = Some (demo_stream [0x61] None)"
    by (simp_all add: R_def)
  have l: "li_stream demo_light = Some 0" "[0x74] \<notin> set (li_held demo_light)" "jm_get (li_waiting demo_light) [0x74] = None"
    "li_listeners demo_light = [0]"
    by (simp_all add: demo_light_def new_light_def)
  have w: "wire_name (st_peer (demo_stream [0x61] None))" by (simp add: ascii_wire_name)
  have d: "\<not> oversize [7]" by (simp add: oversize_def MAX_FRAME_BYTES_def)
  have s: "st_peer (demo_stream [0x61] None) \<noteq> st_peer (demo_stream [0x62] None)" by simp
  have q: "st_loop (demo_stream x None)" "st_push (demo_stream x None) = None" "st_open (demo_stream x None)" for x by simp_all
  note m = light_message_arrives [OF g r st(1) q st(2) q s w l(1,2) l(1,3) demo_topic(1,2) d n, of 1 0 2 0 None,
      unfolded l list.map pick_stream.select_convs]
  from m obtain f1 B1 R1 f2 B2 g1 R2 g2 where
      "light_subscribe [0x74] demo_light = ([LSend 0 f1], B1)" "take_frame demo_relay_cfg 1 2 f1 R = ([Send 2 f2], R1)"
      "on_frame (decodeFrame f2) B1 = ([], B2)" "take_frame demo_relay_cfg 2 1 g1 R1 = ([Publish [0x74] [7]], R2)"
      "on_frame (decodeFrame g2) B2 = ([LCall 0 [0x74] [7] [0x61]], B2)"
    by blast
  then show ?thesis by blast
qed

text \<open>
  An ACK that comes late is taken for the next one. A publish whose ACK does not come in time
  settles with no evidence and leaves the queue of its topic; when its ACK arrives after the next
  publish on the topic, it settles that one, with the reach of the first.
\<close>
theorem late_ack_misread:
  assumes "li_stream L = Some a" "jm_get (li_waiting L) t = None" "wire_name t" "i \<noteq> j"
  shows "\<exists>L1 L2 L3 L4. light_publish i t d1 L = ([LSend a (the (encodePush t d1))], L1)
    \<and> ack_timeout i t L1 = ([LSettled i None], L2)
    \<and> light_publish j t d2 L2 = ([LSend a (the (encodePush t d2))], L3)
    \<and> on_frame (decodeFrame (the (encodeAck t n))) L3 = ([LSettled j (Some (ack_count n))], L4)"
  using assms decode_ack [OF assms(3), of n]
  by (simp add: light_publish_def encodePush_wire ack_timeout_def on_frame_def Let_def)

theorem late_ack_misread_witness:
  "\<exists>L1 L2 L3 L4. light_publish 1 [0x74] [5] demo_light = ([LSend 0 (the (encodePush [0x74] [5]))], L1)
    \<and> ack_timeout 1 [0x74] L1 = ([LSettled 1 None], L2)
    \<and> light_publish 2 [0x74] [6] L2 = ([LSend 0 (the (encodePush [0x74] [6]))], L3)
    \<and> on_frame (decodeFrame (the (encodeAck [0x74] 4))) L3 = ([LSettled 2 (Some (ack_count 4))], L4)"
  using late_ack_misread [of demo_light 0 "[0x74]" 1 2 "[5]" "[6]" 4] demo_topic(1) by (simp add: demo_light_def new_light_def)

end
