(* ===== verification/RelayMesh.thy ===== *)
theory RelayMesh
  imports Room RelayNode
begin

section \<open>The links between relays, and who gets in (relay/topics.mjs, relay/allowlist.mjs)\<close>

text \<open>
  Which relays are siblings, when a silent sibling's connection is reset (the watchdog of
  relay.mjs), when a second connection to a sibling resets all of them, which of two relays dials
  first after a lost link, and which peers the list of an access-controlled node lets in.
\<close>

subsection \<open>Siblings\<close>

definition alnum :: "16 word \<Rightarrow> bool" where
  "alnum u \<longleftrightarrow> 0x30 \<le> u \<and> u \<le> 0x39 \<or> 0x41 \<le> u \<and> u \<le> 0x5A \<or> 0x61 \<le> u \<and> u \<le> 0x7A"

definition peerIdOf :: "jstr \<Rightarrow> jstr option" where
  "peerIdOf multiaddr =
     (let m = trim multiaddr; x = rev (takeWhile alnum (rev m)); before = take (length m - length x) m in
      if x \<noteq> [] \<and> 5 \<le> length before \<and> drop (length before - 5) before = js ''/p2p/'' then Some x else None)"

definition add_explicit :: "jstr list \<Rightarrow> jstr \<Rightarrow> jstr list" where
  "add_explicit out sib =
     (let s = trim sib in if s = [] then out else set_add (case peerIdOf s of Some p \<Rightarrow> p | None \<Rightarrow> s) out)"

definition add_dialled :: "jstr list \<Rightarrow> jstr \<Rightarrow> jstr list" where
  "add_dialled out addr = (case peerIdOf addr of Some p \<Rightarrow> if p = [] then out else set_add p out | None \<Rightarrow> out)"

definition siblingSet :: "jstr list \<Rightarrow> jstr list \<Rightarrow> jstr list" where
  "siblingSet explicit peers = foldl add_dialled (foldl add_explicit [] explicit) peers"

subsection \<open>The watchdog\<close>

definition or_else :: "'a \<Rightarrow> 'a option \<Rightarrow> 'a" where
  "or_else d v = (case v of None \<Rightarrow> d | Some x \<Rightarrow> x)"

record watchdog =
  wd_lastHeard :: "(jstr, int) jmap"
  wd_connectedAt :: "(jstr, int) jmap"
  wd_lastDup :: "(jstr, int) jmap"
  wd_lastReset :: "(jstr, int) jmap"

definition staleSiblings :: "int \<Rightarrow> jstr list \<Rightarrow> (jstr, int) jmap \<Rightarrow> (jstr, int) jmap \<Rightarrow> int \<Rightarrow> (jstr, int) jmap \<Rightarrow> jstr list" where
  "staleSiblings now linked lastHeard connectedAt maxSilenceMs lastDup =
     filter (\<lambda>sib. now - max (or_else 0 (jm_get lastHeard sib)) (max (or_else 0 (jm_get lastDup sib)) (or_else now (jm_get connectedAt sib)))
        > maxSilenceMs) linked"

definition dupOnlySiblings :: "int \<Rightarrow> jstr list \<Rightarrow> (jstr, int) jmap \<Rightarrow> (jstr, int) jmap \<Rightarrow> int \<Rightarrow> (jstr, int) jmap \<Rightarrow> jstr list" where
  "dupOnlySiblings now linked lastHeard connectedAt maxSilenceMs lastDup =
     (let stale = staleSiblings now linked lastHeard connectedAt maxSilenceMs lastDup in
      filter (\<lambda>sib. sib \<notin> set stale) (staleSiblings now linked lastHeard connectedAt maxSilenceMs []))"

text \<open>The \<open>gossipsub:message\<close> listener, the duplicate hook and \<open>peer:connect\<close>.\<close>

definition wd_heard :: "jstr list \<Rightarrow> int \<Rightarrow> jstr \<Rightarrow> watchdog \<Rightarrow> watchdog" where
  "wd_heard siblings now sib W = (if sib \<noteq> [] \<and> sib \<in> set siblings then W\<lparr>wd_lastHeard := jm_set sib now (wd_lastHeard W)\<rparr> else W)"

definition wd_duplicate :: "jstr list \<Rightarrow> int \<Rightarrow> jstr \<Rightarrow> watchdog \<Rightarrow> watchdog" where
  "wd_duplicate siblings now sib W = (if sib \<in> set siblings then W\<lparr>wd_lastDup := jm_set sib now (wd_lastDup W)\<rparr> else W)"

definition wd_connect :: "jstr list \<Rightarrow> int \<Rightarrow> jstr \<Rightarrow> watchdog \<Rightarrow> watchdog" where
  "wd_connect siblings now sib W =
     (if sib \<in> set siblings
      then W\<lparr>wd_connectedAt := jm_set sib now (wd_connectedAt W), wd_lastHeard := jm_del sib (wd_lastHeard W)\<rparr> else W)"

text \<open>One round over the stale siblings: which connections it closes.\<close>

fun wd_round :: "int \<Rightarrow> int \<Rightarrow> jstr list \<Rightarrow> watchdog \<Rightarrow> jstr list \<times> watchdog" where
  "wd_round now silence [] W = ([], W)"
| "wd_round now silence (sib # sibs) W =
     (if now - or_else 0 (jm_get (wd_lastReset W) sib) < 2 * silence then wd_round now silence sibs W
      else case wd_round now silence sibs (W\<lparr>wd_lastReset := jm_set sib now (wd_lastReset W)\<rparr>) of (cs, W') \<Rightarrow> (sib # cs, W'))"

definition wd_tick :: "jstr list \<Rightarrow> int \<Rightarrow> int \<Rightarrow> jstr list \<Rightarrow> watchdog \<Rightarrow> jstr list \<times> watchdog" where
  "wd_tick siblings silence now peers W =
     (let linked = filter (\<lambda>sib. sib \<in> set siblings) (remdups peers) in
      wd_round now silence (staleSiblings now linked (wd_lastHeard W) (wd_connectedAt W) silence (wd_lastDup W)) W)"

subsection \<open>An overlap, and who dials\<close>

definition overlapReset :: "int \<Rightarrow> int list \<Rightarrow> int \<Rightarrow> int \<Rightarrow> int \<Rightarrow> bool" where
  "overlapReset now openedAt lastReset minAgeMs minGapMs =
     (list_ex (\<lambda>t. now - t > minAgeMs) openedAt \<and> now - lastReset > minGapMs)"

text \<open>\<open>connection:open\<close>: the open times of this sibling's other connections, and whether all are closed.\<close>

definition on_connection_open :: "jstr list \<Rightarrow> int \<Rightarrow> jstr \<Rightarrow> int list \<Rightarrow> (jstr, int) jmap \<Rightarrow> bool \<times> (jstr, int) jmap" where
  "on_connection_open siblings now sib others lastOverlapReset =
     (if sib \<notin> set siblings then (False, lastOverlapReset)
      else if \<not> overlapReset now others (or_else 0 (jm_get lastOverlapReset sib)) 30000 60000 then (False, lastOverlapReset)
      else (True, jm_set sib now lastOverlapReset))"

definition mayRedial :: "jstr \<Rightarrow> jstr \<Rightarrow> int \<Rightarrow> int option \<Rightarrow> int \<Rightarrow> bool" where
  "mayRedial selfId peerId now lostAt graceMs =
     (case lostAt of
        None \<Rightarrow> True
      | Some t \<Rightarrow> if str_less selfId peerId then True else now - t \<ge> graceMs)"

subsection \<open>The allow list\<close>

definition base58_unit :: "16 word \<Rightarrow> bool" where
  "base58_unit u \<longleftrightarrow> 0x31 \<le> u \<and> u \<le> 0x39 \<or> 0x41 \<le> u \<and> u \<le> 0x48 \<or> 0x4A \<le> u \<and> u \<le> 0x4E \<or> 0x50 \<le> u \<and> u \<le> 0x5A
     \<or> 0x61 \<le> u \<and> u \<le> 0x6B \<or> 0x6D \<le> u \<and> u \<le> 0x7A"

definition peer_id_text :: "jstr \<Rightarrow> bool" where
  "peer_id_text s = (length s = 52 \<and> take 8 s = js ''12D3KooW'' \<and> list_all base58_unit (drop 8 s))"

fun split_lines :: "jstr \<Rightarrow> jstr list" where
  "split_lines [] = [[]]"
| "split_lines (u # s) = (if u = 0xA then [] # split_lines s else case split_lines s of l # ls \<Rightarrow> (u # l) # ls | [] \<Rightarrow> [[u]])"

definition line_end :: "16 word \<Rightarrow> bool" where
  "line_end u \<longleftrightarrow> u \<in> {0xA, 0xD, 0x2028, 0x2029}"

text \<open>\<open>raw.replace(/#.*/, '')\<close>\<close>

definition no_comment :: "jstr \<Rightarrow> jstr" where
  "no_comment s = takeWhile (\<lambda>u. u \<noteq> 0x23) s @ dropWhile (\<lambda>u. \<not> line_end u) (dropWhile (\<lambda>u. u \<noteq> 0x23) s)"

fun parse_allow :: "nat \<Rightarrow> jstr list \<Rightarrow> jstr list \<Rightarrow> nat list \<Rightarrow> jstr list \<times> nat list" where
  "parse_allow i [] sibs bad = (sibs, bad)"
| "parse_allow i (raw # ls) sibs bad =
     (let line = trim (no_comment raw) in
      if line = [] then parse_allow (Suc i) ls sibs bad
      else let sib = takeWhile (\<lambda>u. \<not> white u) line in
        if peer_id_text sib then parse_allow (Suc i) ls (set_add sib sibs) bad else parse_allow (Suc i) ls sibs (bad @ [i + 1]))"

definition parseAllowlist :: "jstr \<Rightarrow> jstr list \<times> nat list" where
  "parseAllowlist txt = parse_allow 0 (split_lines txt) [] []"

definition refuse :: "jstr \<Rightarrow> jstr list \<Rightarrow> jstr list \<Rightarrow> bool" where
  "refuse peer allowed siblings = (peer \<notin> set siblings \<and> peer \<notin> set allowed)"

record allow_watch =
  aw_ids :: "jstr list"
  aw_mtime :: rat

definition new_allow_watch :: allow_watch where
  "new_allow_watch = \<lparr>aw_ids = [], aw_mtime = -1\<rparr>"

text \<open>
  \<open>load\<close>: the file's modification time, if it can be read, and its text, if that can; the open
  connections' peers give those to close.
\<close>

definition load_allow :: "rat option \<Rightarrow> jstr option \<Rightarrow> jstr list \<Rightarrow> jstr list \<Rightarrow> allow_watch \<Rightarrow> jstr list \<times> allow_watch" where
  "load_allow mtime content linked siblings A =
     (case mtime of
        None \<Rightarrow> ([], A\<lparr>aw_mtime := 0\<rparr>)
      | Some m \<Rightarrow>
          if m = aw_mtime A then ([], A)
          else (case content of
              None \<Rightarrow> ([], A)
            | Some txt \<Rightarrow>
                let sibs = fst (parseAllowlist txt) in
                (filter (\<lambda>p. refuse p sibs siblings) linked, A\<lparr>aw_ids := sibs, aw_mtime := m\<rparr>)))"

subsection \<open>Lemmas\<close>

lemma parse_allow_ids: "list_all peer_id_text sibs \<Longrightarrow> list_all peer_id_text (fst (parse_allow i ls sibs bad))"
proof (induction ls arbitrary: i sibs bad)
  case (Cons raw ls)
  have "peer_id_text p \<Longrightarrow> list_all peer_id_text (set_add p sibs)" for p
    using Cons.prems by (simp add: list_all_iff)
  then show ?case using Cons by (simp add: Let_def)
qed simp

lemma load_allow_ids:
  assumes "list_all peer_id_text (aw_ids A)"
  shows "list_all peer_id_text (aw_ids (snd (load_allow m c ps sbs A)))"
  using assms parse_allow_ids [of "[]"] by (auto simp: load_allow_def parseAllowlist_def Let_def split: option.splits)

lemma load_allow_unreadable: "m = None \<or> c = None \<Longrightarrow> aw_ids (snd (load_allow m c ps sbs A)) = aw_ids A \<and> fst (load_allow m c ps sbs A) = []"
  by (auto simp: load_allow_def split: option.splits)

lemma wd_round_closes:
  "distinct sibs \<Longrightarrow> sib \<in> set (fst (wd_round now silence sibs W)) \<longleftrightarrow> sib \<in> set sibs \<and> 2 * silence \<le> now - or_else 0 (jm_get (wd_lastReset W) sib)"
proof (induction now silence sibs W rule: wd_round.induct)
  case (2 now silence i sibs W)
  then show ?case by (cases "sib = i") (auto simp: jm_get_set split: prod.splits)
qed simp

lemma stale_iff:
  "sib \<in> set (staleSiblings now cs h c s d) \<longleftrightarrow> sib \<in> set cs \<and> s < now - or_else 0 (jm_get h sib) \<and> s < now - or_else 0 (jm_get d sib)
     \<and> s < now - or_else now (jm_get c sib)"
  by (auto simp: staleSiblings_def)

lemma wd_tick_closes:
  "sib \<in> set (fst (wd_tick siblings silence now peers W)) \<longleftrightarrow>
     sib \<in> set peers \<and> sib \<in> set siblings \<and> silence < now - or_else 0 (jm_get (wd_lastHeard W) sib)
     \<and> silence < now - or_else 0 (jm_get (wd_lastDup W) sib) \<and> silence < now - or_else now (jm_get (wd_connectedAt W) sib)
     \<and> 2 * silence \<le> now - or_else 0 (jm_get (wd_lastReset W) sib)"
proof -
  have "distinct (staleSiblings now (filter (\<lambda>sib. sib \<in> set siblings) (remdups peers)) h c s d)" for h c s d
    by (simp add: staleSiblings_def)
  then show ?thesis by (auto simp: wd_tick_def Let_def wd_round_closes stale_iff)
qed

subsection \<open>Runs of the watchdog\<close>

datatype mesh_event =
    Heard jstr
  | Duplicate jstr
  | Connected jstr
  | Tick "jstr list"

definition wd_step :: "jstr list \<Rightarrow> int \<Rightarrow> watchdog \<Rightarrow> int \<times> mesh_event \<Rightarrow> watchdog" where
  "wd_step siblings silence W e = (case e of (now, ev) \<Rightarrow> (case ev of
       Heard p \<Rightarrow> wd_heard siblings now p W
     | Duplicate p \<Rightarrow> wd_duplicate siblings now p W
     | Connected p \<Rightarrow> wd_connect siblings now p W
     | Tick peers \<Rightarrow> snd (wd_tick siblings silence now peers W)))"

definition no_watchdog :: watchdog where
  "no_watchdog = \<lparr>wd_lastHeard = [], wd_connectedAt = [], wd_lastDup = [], wd_lastReset = []\<rparr>"

text \<open>The last sign of life of a sibling.\<close>

definition alive_since :: "int \<Rightarrow> jstr \<Rightarrow> watchdog \<Rightarrow> bool" where
  "alive_since t p W = ((\<exists>u\<ge>t. jm_get (wd_lastHeard W) p = Some u) \<or> (\<exists>u\<ge>t. jm_get (wd_lastDup W) p = Some u)
     \<or> (\<exists>u\<ge>t. jm_get (wd_connectedAt W) p = Some u))"

lemma wd_round_keeps:
  "wd_lastHeard (snd (wd_round now silence sibs W)) = wd_lastHeard W" "wd_lastDup (snd (wd_round now silence sibs W)) = wd_lastDup W"
  "wd_connectedAt (snd (wd_round now silence sibs W)) = wd_connectedAt W"
  by (induction sibs arbitrary: W) (simp_all add: case_prod_beta)

lemma wd_step_alive:
  assumes "alive_since t p W" "t \<le> fst e"
  shows "alive_since t p (wd_step siblings silence W e)"
proof -
  obtain now ev where e: "e = (now, ev)" by fastforce
  show ?thesis using assms
    by (cases ev) (auto simp: e wd_step_def wd_heard_def wd_duplicate_def wd_connect_def wd_tick_def Let_def alive_since_def
        wd_round_keeps jm_get_set jm_get_del)
qed

lemma wd_run_alive:
  "alive_since t p W \<Longrightarrow> list_all (\<lambda>e. t \<le> fst e) es \<Longrightarrow> alive_since t p (run (wd_step siblings silence) W es)"
  by (induction es arbitrary: W) (auto intro: wd_step_alive)

definition sign_of :: "jstr \<Rightarrow> mesh_event \<Rightarrow> bool" where
  "sign_of p ev = (ev = Heard p \<or> ev = Duplicate p \<or> ev = Connected p)"

lemma sign_alive: "sign_of p ev \<Longrightarrow> p \<in> set siblings \<Longrightarrow> p \<noteq> [] \<Longrightarrow> alive_since t p (wd_step siblings silence W (t, ev))"
  by (auto simp: sign_of_def wd_step_def wd_heard_def wd_duplicate_def wd_connect_def alive_since_def)

lemma alive_not_closed:
  assumes "alive_since t p W" "now - t \<le> silence"
  shows "p \<notin> set (fst (wd_tick siblings silence now peers W))"
  using assms unfolding wd_tick_closes by (auto simp: alive_since_def or_else_def)

lemma watchdog_spares:
  assumes "p \<in> set siblings" "p \<noteq> []" "sign_of p ev" "list_all (\<lambda>e. t \<le> fst e) later" "now - t \<le> silence"
  shows "p \<notin> set (fst (wd_tick siblings silence now peers (run (wd_step siblings silence) no_watchdog (earlier @ (t, ev) # later))))"
proof (rule alive_not_closed [OF _ assms(5)])
  have "alive_since t p (wd_step siblings silence (run (wd_step siblings silence) no_watchdog earlier) (t, ev))"
    by (rule sign_alive [OF assms(3,1,2)])
  then show "alive_since t p (run (wd_step siblings silence) no_watchdog (earlier @ (t, ev) # later))"
    using wd_run_alive [OF _ assms(4)] by (simp add: run_append)
qed

lemma redial_order:
  assumes "p \<noteq> q"
  shows "now - tp < grace \<Longrightarrow> now - tq < grace \<Longrightarrow> mayRedial p q now (Some tp) grace \<noteq> mayRedial q p now (Some tq) grace"
    and "grace \<le> now - tp \<Longrightarrow> mayRedial p q now (Some tp) grace"
proof -
  have "str_less p q \<noteq> str_less q p" using assms
  proof (induction p q rule: str_less.induct)
    case (1 p)
    then show ?case by (cases p) simp_all
  next
    case (3 x xs y ys)
    then show ?case by (auto dest: order.asym)
  qed simp
  then show "now - tp < grace \<Longrightarrow> now - tq < grace \<Longrightarrow> mayRedial p q now (Some tp) grace \<noteq> mayRedial q p now (Some tq) grace"
    by (auto simp: mayRedial_def)
  show "grace \<le> now - tp \<Longrightarrow> mayRedial p q now (Some tp) grace" by (simp add: mayRedial_def)
qed

text \<open>
  C40: the mesh heals and does not flap. The watchdog never resets a sibling of which a message, a
  duplicate or a connection was seen within the silence it allows, whatever else happened before
  and after; of two relays that lost the link to each other exactly one dials at once, and after
  the grace time each may.
\<close>
theorem mesh_heals:
  assumes "p \<in> set siblings" "p \<noteq> []" "sign_of p ev" "list_all (\<lambda>e. t \<le> fst e) later" "now - t \<le> silence" "p \<noteq> q"
  shows "p \<notin> set (fst (wd_tick siblings silence now peers (run (wd_step siblings silence) no_watchdog (earlier @ (t, ev) # later))))
    \<and> (\<forall>tp tq grace. now - tp < grace \<and> now - tq < grace \<longrightarrow> mayRedial p q now (Some tp) grace \<noteq> mayRedial q p now (Some tq) grace)
    \<and> (\<forall>tp grace. grace \<le> now - tp \<longrightarrow> mayRedial p q now (Some tp) grace)"
  using watchdog_spares [OF assms(1-5)] redial_order [OF assms(6)] by blast

theorem mesh_heals_witness:
  "[0x61] \<notin> set (fst (wd_tick [[0x61], [0x62]] 105000 200000 [[0x61]] (run (wd_step [[0x61], [0x62]] 105000) no_watchdog
      ([(1000, Connected [0x61]), (1000, Connected [0x62])] @ (100000, Duplicate [0x61]) # [(190000, Tick [[0x61]])]))))
   \<and> [0x62] \<in> set (fst (wd_tick [[0x61], [0x62]] 105000 300000 [[0x62]] (run (wd_step [[0x61], [0x62]] 105000) no_watchdog [(1000, Connected [0x62])])))"
proof
  show "[0x61] \<notin> set (fst (wd_tick [[0x61], [0x62]] 105000 200000 [[0x61]] (run (wd_step [[0x61], [0x62]] 105000) no_watchdog
      ([(1000, Connected [0x61]), (1000, Connected [0x62])] @ (100000, Duplicate [0x61]) # [(190000, Tick [[0x61]])]))))"
    by (rule mesh_heals [where q = "[0x62]", THEN conjunct1]) (simp_all add: sign_of_def)
  show "[0x62] \<in> set (fst (wd_tick [[0x61], [0x62]] 105000 300000 [[0x62]] (run (wd_step [[0x61], [0x62]] 105000) no_watchdog [(1000, Connected [0x62])])))"
    by (simp add: wd_tick_closes wd_step_def wd_connect_def no_watchdog_def or_else_def)
qed

end
