(* ===== verification/Uplink.thy ===== *)
theory Uplink
  imports Picks Load
begin

section \<open>The session's link to its relay (lib/core.ts)\<close>

text \<open>
  Dialling a list of relays, and the loop that comes back when the connection is lost. The loop is
  a promise that other handlers run between: \<open>up_phase\<close> is where it stands, at a sweep of the list it
  read, at the wait after a failed one, or while the old connections are closed. Every handler that
  touches the link is a function of the state and of \<open>conn\<close>, what \<open>connected()\<close> answers then.
\<close>

subsection \<open>Dialling\<close>

datatype 'e dial_error = NoCandidates | DialFailed 'e

text \<open>\<open>dialOne k a\<close> is what the \<open>k\<close>-th dial of the sweep, to \<open>a\<close>, fails with, if it fails.\<close>

fun failover_from :: "(nat \<Rightarrow> jstr \<Rightarrow> 'e option) \<Rightarrow> nat \<Rightarrow> 'e option \<Rightarrow> jstr list \<Rightarrow> 'e dial_error + jstr" where
  "failover_from dialOne k lastErr [] = Inl (case lastErr of None \<Rightarrow> NoCandidates | Some e \<Rightarrow> DialFailed e)"
| "failover_from dialOne k lastErr (a # as) =
     (case dialOne k a of None \<Rightarrow> Inr a | Some e \<Rightarrow> failover_from dialOne (Suc k) (Some e) as)"

definition failoverDial :: "(nat \<Rightarrow> jstr \<Rightarrow> 'e option) \<Rightarrow> jstr list \<Rightarrow> 'e dial_error + jstr" where
  "failoverDial dialOne candidates = failover_from dialOne 0 None candidates"

definition REDIAL_BACKOFF :: "nat list" where "REDIAL_BACKOFF = [1000, 2000, 5000, 10000, 20000, 30000]"

definition FIRST_DIAL_BACKOFF :: "nat list" where "FIRST_DIAL_BACKOFF = [500, 1000, 2000, 4000, 8000]"

definition backoff :: "nat \<Rightarrow> nat" where
  "backoff i = REDIAL_BACKOFF ! min i (length REDIAL_BACKOFF - 1)"

subsection \<open>State\<close>

datatype link_state = LinkOnline | LinkReconnecting | LinkOffline

datatype up_effect =
    OnLink link_state
  | OnRelay jstr
  | HangUp
  | DialSweep "jstr list"
  | WaitMs nat
  | RefreshRoom nat
  | FlushRoom nat

datatype phase =
    Resting
  | HangingUp
  | Sweeping "jstr list" nat
  | Waiting nat

record uplink =
  up_candidates :: "jstr list"
  up_active :: jstr
  up_link :: link_state
  up_redialing :: bool
  up_closed :: bool
  up_phase :: phase
  up_rooms :: "nat list"

definition candidates_of :: "jstr list \<Rightarrow> jstr \<Rightarrow> jstr list" where
  "candidates_of relays relay = filter (\<lambda>a. a \<noteq> []) (if relays \<noteq> [] then relays else [relay])"

text \<open>The candidates as the session starts with them; \<open>None\<close> is the error for an empty list.\<close>

definition up_start :: "jstr list \<Rightarrow> jstr \<Rightarrow> uplink option" where
  "up_start relays relay =
     (case candidates_of relays relay of
        [] \<Rightarrow> None
      | a # as \<Rightarrow> Some \<lparr>up_candidates = a # as, up_active = a, up_link = LinkOnline, up_redialing = False,
          up_closed = False, up_phase = Resting, up_rooms = []\<rparr>)"

definition connect_to :: "jstr \<Rightarrow> uplink \<Rightarrow> up_effect list \<times> uplink" where
  "connect_to a s = (if a \<noteq> up_active s then ([OnRelay a], s\<lparr>up_active := a\<rparr>) else ([], s))"

text \<open>The first dial: sweep \<open>i\<close> fails or connects; after the last wait of the list the error stands.\<close>

function first_dial :: "(nat \<Rightarrow> nat \<Rightarrow> jstr \<Rightarrow> 'e option) \<Rightarrow> nat \<Rightarrow> uplink \<Rightarrow> up_effect list \<times> ('e dial_error + uplink)" where
  "first_dial dialOne i s =
     (case failoverDial (dialOne i) (up_candidates s) of
        Inr a \<Rightarrow> (case connect_to a s of (es, s') \<Rightarrow> (es, Inr s'))
      | Inl e \<Rightarrow>
          if length FIRST_DIAL_BACKOFF \<le> i then ([], Inl e)
          else (case first_dial dialOne (Suc i) s of (es, r) \<Rightarrow> (WaitMs (FIRST_DIAL_BACKOFF ! i) # es, r)))"
  by pat_completeness auto
termination by (relation "measure (\<lambda>(_, i, _). length FIRST_DIAL_BACKOFF - i)") auto

declare first_dial.simps [simp del]

subsection \<open>Coming back\<close>

definition setLink :: "link_state \<Rightarrow> uplink \<Rightarrow> up_effect list \<times> uplink" where
  "setLink l s = (if l = up_link s then ([], s) else ([OnLink l], s\<lparr>up_link := l\<rparr>))"

definition revive_rooms :: "uplink \<Rightarrow> up_effect list" where
  "revive_rooms s = concat (map (\<lambda>r. [RefreshRoom r, FlushRoom r]) (up_rooms s))"

text \<open>After the loop.\<close>

definition loop_end :: "bool \<Rightarrow> uplink \<Rightarrow> up_effect list \<times> uplink" where
  "loop_end conn s0 =
     (let s = s0\<lparr>up_redialing := False, up_phase := Resting\<rparr> in
      if up_closed s \<or> \<not> conn then ([], s)
      else case setLink LinkOnline s of (es, s') \<Rightarrow> (es @ revive_rooms s', s'))"

text \<open>The head of the loop, in its \<open>i\<close>-th turn.\<close>

definition loop_head :: "bool \<Rightarrow> nat \<Rightarrow> uplink \<Rightarrow> up_effect list \<times> uplink" where
  "loop_head conn i s =
     (if \<not> up_closed s \<and> \<not> conn
      then ([DialSweep (up_candidates s)], s\<lparr>up_phase := Sweeping (up_candidates s) i\<rparr>)
      else loop_end conn s)"

text \<open>With nothing to close the loop follows the hanging up at once.\<close>

definition reconnect :: "bool \<Rightarrow> bool \<Rightarrow> uplink \<Rightarrow> up_effect list \<times> uplink" where
  "reconnect force conn s =
     (if up_redialing s \<or> up_closed s then ([], s)
      else case setLink LinkReconnecting (s\<lparr>up_redialing := True\<rparr>) of (es, s1) \<Rightarrow>
        if force then (es @ [HangUp], s1\<lparr>up_phase := HangingUp\<rparr>)
        else case loop_head conn 0 s1 of (es', s2) \<Rightarrow> (es @ es', s2))"

definition hung_up :: "bool \<Rightarrow> uplink \<Rightarrow> up_effect list \<times> uplink" where
  "hung_up conn s = (case up_phase s of HangingUp \<Rightarrow> loop_head conn 0 s | _ \<Rightarrow> ([], s))"

text \<open>A sweep is over; \<open>conn\<close> is read after a dial that connected.\<close>

definition swept :: "(nat \<Rightarrow> jstr \<Rightarrow> 'e option) \<Rightarrow> bool \<Rightarrow> uplink \<Rightarrow> up_effect list \<times> uplink" where
  "swept dialOne conn s =
     (case up_phase s of
        Sweeping cs i \<Rightarrow>
          (case failoverDial dialOne cs of
             Inr a \<Rightarrow> (case connect_to a s of (es, s1) \<Rightarrow> (case loop_end conn s1 of (es', s2) \<Rightarrow> (es @ es', s2)))
           | Inl e \<Rightarrow> (case (if 2 \<le> i then setLink LinkOffline s else ([], s)) of
               (es, s1) \<Rightarrow> (es @ [WaitMs (backoff i)], s1\<lparr>up_phase := Waiting i\<rparr>)))
      | _ \<Rightarrow> ([], s))"

definition waited :: "bool \<Rightarrow> uplink \<Rightarrow> up_effect list \<times> uplink" where
  "waited conn s = (case up_phase s of Waiting i \<Rightarrow> loop_head conn (Suc i) s | _ \<Rightarrow> ([], s))"

subsection \<open>What starts it\<close>

definition connection_closed :: "bool \<Rightarrow> uplink \<Rightarrow> up_effect list \<times> uplink" where
  "connection_closed conn s = (if \<not> up_closed s \<and> \<not> conn then reconnect False conn s else ([], s))"

definition pick_closed :: "bool \<Rightarrow> uplink \<Rightarrow> up_effect list \<times> uplink" where
  "pick_closed conn s = (if up_closed s \<or> up_redialing s \<or> conn then ([], s) else reconnect False conn s)"

definition linkWatch :: "bool \<Rightarrow> uplink \<Rightarrow> up_effect list \<times> uplink" where
  "linkWatch conn s =
     (if up_closed s then ([], s) else if \<not> conn then reconnect False conn s else setLink LinkOnline s)"

definition onIsolated :: "bool \<Rightarrow> uplink \<Rightarrow> up_effect list \<times> uplink" where
  "onIsolated conn s =
     (case setLink LinkReconnecting s of (es, s1) \<Rightarrow> (case reconnect True conn s1 of (es', s2) \<Rightarrow> (es @ es', s2)))"

definition ensureConnected :: "bool \<Rightarrow> uplink \<Rightarrow> up_effect list \<times> uplink" where
  "ensureConnected conn s = (if conn then ([], s) else reconnect False conn s)"

definition setRelays :: "jstr list \<Rightarrow> bool \<Rightarrow> uplink \<Rightarrow> up_effect list \<times> uplink" where
  "setRelays xs conn s =
     (let next = filter (\<lambda>a. a \<noteq> []) xs in
      if next = [] then ([], s)
      else let s1 = s\<lparr>up_candidates := next\<rparr> in
        if up_active s1 \<in> set next then ([], s1) else reconnect True conn s1)"

definition setOffline :: "bool \<Rightarrow> bool \<Rightarrow> uplink \<Rightarrow> up_effect list \<times> uplink" where
  "setOffline offline conn s = (if offline then setLink LinkOffline s else reconnect True conn s)"

definition register_room :: "nat \<Rightarrow> uplink \<Rightarrow> uplink" where
  "register_room r s = s\<lparr>up_rooms := set_add r (up_rooms s)\<rparr>"

definition unregister_room :: "nat \<Rightarrow> uplink \<Rightarrow> uplink" where
  "unregister_room r s = s\<lparr>up_rooms := filter (\<lambda>x. x \<noteq> r) (up_rooms s)\<rparr>"

text \<open>The rest of \<open>refresh\<close>, once connected or given up.\<close>

definition session_refresh :: "uplink \<Rightarrow> up_effect list \<times> uplink" where
  "session_refresh s = (revive_rooms s, s)"

text \<open>Shutting down, and a moment later, when the rooms have said goodbye.\<close>

definition up_close :: "uplink \<Rightarrow> uplink" where
  "up_close s = s\<lparr>up_closed := True\<rparr>"

definition up_cleared :: "uplink \<Rightarrow> uplink" where
  "up_cleared s = (if up_closed s then s\<lparr>up_rooms := []\<rparr> else s)"

subsection \<open>Moving for load\<close>

record balancer =
  lb_loads :: "(jstr, load_reading) jmap"
  lb_hotSince :: "rat option"
  lb_lastMove :: rat

definition lb_start :: balancer where
  "lb_start = \<lparr>lb_loads = [], lb_hotSince = None, lb_lastMove = 0\<rparr>"

definition MOVE_EVERY_MS :: rat where "MOVE_EVERY_MS = 10 * 60000"

definition lb_message :: "js_env \<Rightarrow> (jstr \<Rightarrow> jstr) \<Rightarrow> jstr option \<Rightarrow> bytes \<Rightarrow> rat \<Rightarrow> uplink \<Rightarrow> balancer \<Rightarrow> balancer" where
  "lb_message J keyOf from data now s b =
     (case decodeLoad J data of
        None \<Rightarrow> b
      | Some r \<Rightarrow> if loadFromItsNode r from (up_candidates s) keyOf now
          then b\<lparr>lb_loads := jm_set (ld_node r) r (lb_loads b)\<rparr> else b)"

definition moveTo :: "(jstr \<Rightarrow> jstr) \<Rightarrow> jstr \<Rightarrow> rat \<Rightarrow> bool \<Rightarrow> uplink \<times> balancer \<Rightarrow> up_effect list \<times> uplink \<times> balancer" where
  "moveTo keyOf key now conn x =
     (case x of (s, b) \<Rightarrow>
       (case find (\<lambda>a. keyOf a = key) (up_candidates s) of
          None \<Rightarrow> ([], s, b)
        | Some addr \<Rightarrow>
            if addr = [] \<or> addr = up_active s \<or> up_closed s then ([], s, b)
            else (case reconnect True conn (s\<lparr>up_candidates := addr # filter (\<lambda>a. a \<noteq> addr) (up_candidates s)\<rparr>) of
              (es, s') \<Rightarrow> (es, s', b\<lparr>lb_lastMove := now\<rparr>))))"

definition up_keys :: "(jstr \<Rightarrow> jstr) \<Rightarrow> uplink \<Rightarrow> jstr list" where
  "up_keys keyOf s = map keyOf (up_candidates s)"

text \<open>The decision at login, when the own relay's reading is there or three seconds are over.\<close>

definition lb_login ::
  "(jstr \<Rightarrow> jstr) \<Rightarrow> (jstr, rat) jmap \<Rightarrow> jsnum \<Rightarrow> rat \<Rightarrow> bool \<Rightarrow> uplink \<times> balancer \<Rightarrow> up_effect list \<times> uplink \<times> balancer" where
  "lb_login keyOf weights roll now conn x =
     (case x of (s, b) \<Rightarrow>
       if up_closed s then ([], s, b)
       else (case loginChoice (keyOf (up_active s)) (up_keys keyOf s) (lb_loads b) weights roll now of
           None \<Rightarrow> ([], s, b)
         | Some k \<Rightarrow> moveTo keyOf k now conn (s, b)))"

definition hot_now :: "rat \<Rightarrow> load_reading option \<Rightarrow> bool" where
  "hot_now now mine = (case mine of None \<Rightarrow> False | Some r \<Rightarrow> now - ld_at r \<le> LOAD_STALE_MS \<and> HOT \<le> ld_pct r)"

definition lb_tick :: "(jstr \<Rightarrow> jstr) \<Rightarrow> jsnum \<Rightarrow> rat \<Rightarrow> bool \<Rightarrow> uplink \<times> balancer \<Rightarrow> up_effect list \<times> uplink \<times> balancer" where
  "lb_tick keyOf roll now conn x =
     (case x of (s, b) \<Rightarrow>
       if up_closed s \<or> up_redialing s then ([], s, b)
       else let cur = keyOf (up_active s);
           hot = (if hot_now now (jm_get (lb_loads b) cur)
             then Some (case lb_hotSince b of None \<Rightarrow> now | Some t \<Rightarrow> t) else None);
           b1 = b\<lparr>lb_hotSince := hot\<rparr>
         in if now - lb_lastMove b1 < MOVE_EVERY_MS then ([], s, b1)
            else (case rebalanceChoice cur (up_keys keyOf s) (lb_loads b1) hot roll now of
                None \<Rightarrow> ([], s, b1)
              | Some k \<Rightarrow> moveTo keyOf k now conn (s, b1)))"

subsection \<open>One step\<close>

text \<open>What can happen to the link. The first three are the loop's own steps.\<close>

datatype 'e up_event =
    HungUp bool
  | Swept "nat \<Rightarrow> jstr \<Rightarrow> 'e option" bool
  | Waited bool
  | ConnectionClosed bool
  | PickClosed bool
  | LinkWatch bool
  | Isolated bool
  | Ensure bool
  | Relays "jstr list" bool
  | Offline bool bool
  | RoomOpened nat
  | RoomLeft nat
  | Refreshed
  | LoadMessage js_env "jstr option" bytes rat
  | LoadLogin "(jstr, rat) jmap" jsnum rat bool
  | LoadTick jsnum rat bool
  | Closing
  | Cleared

fun up_step :: "(jstr \<Rightarrow> jstr) \<Rightarrow> 'e up_event \<Rightarrow> uplink \<times> balancer \<Rightarrow> up_effect list \<times> uplink \<times> balancer" where
  "up_step keyOf (HungUp c) (s, b) = (case hung_up c s of (es, s') \<Rightarrow> (es, s', b))"
| "up_step keyOf (Swept f c) (s, b) = (case swept f c s of (es, s') \<Rightarrow> (es, s', b))"
| "up_step keyOf (Waited c) (s, b) = (case waited c s of (es, s') \<Rightarrow> (es, s', b))"
| "up_step keyOf (ConnectionClosed c) (s, b) = (case connection_closed c s of (es, s') \<Rightarrow> (es, s', b))"
| "up_step keyOf (PickClosed c) (s, b) = (case pick_closed c s of (es, s') \<Rightarrow> (es, s', b))"
| "up_step keyOf (LinkWatch c) (s, b) = (case linkWatch c s of (es, s') \<Rightarrow> (es, s', b))"
| "up_step keyOf (Isolated c) (s, b) = (case onIsolated c s of (es, s') \<Rightarrow> (es, s', b))"
| "up_step keyOf (Ensure c) (s, b) = (case ensureConnected c s of (es, s') \<Rightarrow> (es, s', b))"
| "up_step keyOf (Relays xs c) (s, b) = (case setRelays xs c s of (es, s') \<Rightarrow> (es, s', b))"
| "up_step keyOf (Offline o' c) (s, b) = (case setOffline o' c s of (es, s') \<Rightarrow> (es, s', b))"
| "up_step keyOf (RoomOpened r) (s, b) = ([], register_room r s, b)"
| "up_step keyOf (RoomLeft r) (s, b) = ([], unregister_room r s, b)"
| "up_step keyOf Refreshed (s, b) = (case session_refresh s of (es, s') \<Rightarrow> (es, s', b))"
| "up_step keyOf (LoadMessage J from data now) (s, b) = ([], s, lb_message J keyOf from data now s b)"
| "up_step keyOf (LoadLogin w roll now c) (s, b) = lb_login keyOf w roll now c (s, b)"
| "up_step keyOf (LoadTick roll now c) (s, b) = lb_tick keyOf roll now c (s, b)"
| "up_step keyOf Closing (s, b) = ([], up_close s, b)"
| "up_step keyOf Cleared (s, b) = ([], up_cleared s, b)"

definition up_do :: "(jstr \<Rightarrow> jstr) \<Rightarrow> uplink \<times> balancer \<Rightarrow> 'e up_event \<Rightarrow> uplink \<times> balancer" where
  "up_do keyOf x e = snd (up_step keyOf e x)"

end
