(* ===== verification/UplinkFacts.thy ===== *)
theory UplinkFacts
  imports Uplink
begin

section \<open>The link comes back\<close>

text \<open>
  The invariant of the link: one loop at a time, and it stands somewhere exactly while
  \<open>redialing\<close> is set; there is always somebody to dial. From any state the handlers can reach, a look
  at a dead connection and one sweep that somebody answers bring the session back. A connection is
  hung up only for one of four reasons, and moves for load keep their distance.
\<close>

subsection \<open>A sweep\<close>

lemma failover_from_Inr:
  "failover_from f k l cs = Inr a \<longleftrightarrow>
    (\<exists>i<length cs. cs ! i = a \<and> f (k + i) a = None \<and> (\<forall>j<i. f (k + j) (cs ! j) \<noteq> None))"
proof (induction cs arbitrary: k l)
  case (Cons c cs)
  show ?case
  proof (cases "f k c")
    case None
    have z: "i = 0" if "\<forall>j<i. f (k + j) ((c # cs) ! j) \<noteq> None" for i
      using that [rule_format, of 0] None by (cases i) simp_all
    show ?thesis
    proof
      assume "failover_from f k l (c # cs) = Inr a"
      then have "c = a" using None by simp
      then show "\<exists>i<length (c # cs). (c # cs) ! i = a \<and> f (k + i) a = None \<and> (\<forall>j<i. f (k + j) ((c # cs) ! j) \<noteq> None)"
        using None by (intro exI [of _ 0]) simp
    next
      assume "\<exists>i<length (c # cs). (c # cs) ! i = a \<and> f (k + i) a = None \<and> (\<forall>j<i. f (k + j) ((c # cs) ! j) \<noteq> None)"
      then obtain i where "(c # cs) ! i = a" "\<forall>j<i. f (k + j) ((c # cs) ! j) \<noteq> None" by blast
      with z [of i] have "c = a" by simp
      then show "failover_from f k l (c # cs) = Inr a" using None by simp
    qed
  next
    case (Some e)
    then have "failover_from f k l (c # cs) = Inr a \<longleftrightarrow>
        (\<exists>i<length cs. cs ! i = a \<and> f (Suc k + i) a = None \<and> (\<forall>j<i. f (Suc k + j) (cs ! j) \<noteq> None))"
      by (simp add: Cons.IH)
    also have "\<dots> \<longleftrightarrow> (\<exists>i<length (c # cs). (c # cs) ! i = a \<and> f (k + i) a = None \<and> (\<forall>j<i. f (k + j) ((c # cs) ! j) \<noteq> None))"
      (is "?L \<longleftrightarrow> ?R")
    proof
      assume ?L
      then obtain i where i: "i < length cs" "cs ! i = a" "f (Suc k + i) a = None" "\<forall>j<i. f (Suc k + j) (cs ! j) \<noteq> None" by blast
      have "f (k + j) ((c # cs) ! j) \<noteq> None" if "j < Suc i" for j using that i(4) Some by (cases j) auto
      then show ?R using i by (intro exI [of _ "Suc i"]) auto
    next
      assume ?R
      then obtain i where i: "i < length (c # cs)" "(c # cs) ! i = a" "f (k + i) a = None" "\<forall>j<i. f (k + j) ((c # cs) ! j) \<noteq> None"
        by blast
      with Some obtain i' where [simp]: "i = Suc i'" by (cases i) auto
      have "f (Suc k + j) (cs ! j) \<noteq> None" if "j < i'" for j using i(4) [rule_format, of "Suc j"] that by simp
      then show ?L using i by (intro exI [of _ i']) auto
    qed
    finally show ?thesis .
  qed
qed auto

lemma failover_from_Inl:
  "failover_from f k l cs = Inl r \<longleftrightarrow> (\<forall>j<length cs. f (k + j) (cs ! j) \<noteq> None) \<and>
    r = (case (if cs = [] then l else f (k + length cs - 1) (last cs)) of None \<Rightarrow> NoCandidates | Some e \<Rightarrow> DialFailed e)"
proof (induction cs arbitrary: k l)
  case (Cons c cs)
  have all: "(\<forall>j<length (c # cs). f (k + j) ((c # cs) ! j) \<noteq> None) \<longleftrightarrow>
      f k c \<noteq> None \<and> (\<forall>j<length cs. f (Suc k + j) (cs ! j) \<noteq> None)" by (auto simp: less_Suc_eq_0_disj)
  show ?case unfolding all
    by (cases "f k c") (auto simp: Cons.IH)
qed (auto split: option.splits)

lemma sweep_finds:
  "a \<in> set cs \<Longrightarrow> dial a = None \<Longrightarrow> \<exists>b. failoverDial (\<lambda>_. dial) cs = Inr b \<and> b \<in> set cs \<and> dial b = None"
proof -
  assume a: "a \<in> set cs" "dial a = None"
  show ?thesis
  proof (cases "failoverDial (\<lambda>_. dial) cs")
    case (Inl r)
    then show ?thesis using a by (auto simp: failoverDial_def failover_from_Inl in_set_conv_nth)
  next
    case (Inr b)
    then show ?thesis by (auto simp: failoverDial_def failover_from_Inr)
  qed
qed

lemma sweep_fails:
  "\<forall>a\<in>set cs. dial a \<noteq> None \<Longrightarrow> \<exists>r. failoverDial (\<lambda>_. dial) cs = Inl r"
  by (cases "failoverDial (\<lambda>_. dial) cs") (auto simp: failoverDial_def failover_from_Inr, metis nth_mem option.distinct(1))

subsection \<open>The books of the link\<close>

definition up_ok :: "uplink \<Rightarrow> bool" where
  "up_ok s \<longleftrightarrow> (up_redialing s \<longleftrightarrow> up_phase s \<noteq> Resting) \<and> up_candidates s \<noteq> [] \<and> [] \<notin> set (up_candidates s)
     \<and> distinct (up_rooms s)"

lemma setLink_simps [simp]:
  "up_candidates (snd (setLink l s)) = up_candidates s" "up_active (snd (setLink l s)) = up_active s"
  "up_redialing (snd (setLink l s)) = up_redialing s" "up_closed (snd (setLink l s)) = up_closed s"
  "up_phase (snd (setLink l s)) = up_phase s" "up_rooms (snd (setLink l s)) = up_rooms s"
  "up_link (snd (setLink l s)) = l"
  "fst (setLink l s) = (if l = up_link s then [] else [OnLink l])"
  by (simp_all add: setLink_def)

lemmas op_defs = loop_end_def loop_head_def reconnect_def hung_up_def swept_def waited_def connection_closed_def pick_closed_def
  linkWatch_def onIsolated_def ensureConnected_def setRelays_def setOffline_def register_room_def unregister_room_def
  session_refresh_def up_close_def up_cleared_def connect_to_def

lemma loop_end_ok: "up_ok s \<Longrightarrow> up_ok (snd (loop_end c s))"
  by (auto simp: loop_end_def up_ok_def Let_def setLink_def split: prod.splits)

lemma loop_head_ok: "up_ok s \<Longrightarrow> up_redialing s \<Longrightarrow> up_ok (snd (loop_head c i s))"
  by (auto simp: loop_head_def loop_end_ok) (simp add: up_ok_def)

lemma reconnect_ok: "up_ok s \<Longrightarrow> up_ok (snd (reconnect f c s))"
  by (auto simp: op_defs up_ok_def setLink_def Let_def split: prod.splits if_splits)

lemma swept_ok: "up_ok s \<Longrightarrow> up_ok (snd (swept f c s))"
proof (cases "up_phase s")
  case (Sweeping cs i)
  assume s: "up_ok s"
  show ?thesis
  proof (cases "failoverDial f cs")
    case (Inr a)
    have "up_ok (snd (connect_to a s))" using s by (auto simp: connect_to_def up_ok_def)
    then show ?thesis using Sweeping Inr by (simp add: swept_def case_prod_beta loop_end_ok)
  qed (use s Sweeping in \<open>auto simp: swept_def up_ok_def case_prod_beta\<close>)
qed (auto simp: swept_def)

lemma hung_up_ok: "up_ok s \<Longrightarrow> up_ok (snd (hung_up c s))"
  by (cases "up_phase s") (auto simp: hung_up_def up_ok_def intro!: loop_head_ok [unfolded up_ok_def])

lemma waited_ok: "up_ok s \<Longrightarrow> up_ok (snd (waited c s))"
  by (cases "up_phase s") (auto simp: waited_def up_ok_def intro!: loop_head_ok [unfolded up_ok_def])

lemma moveTo_ok: "up_ok s \<Longrightarrow> up_ok (fst (snd (moveTo keyOf k now c (s, b))))"
proof (cases "find (\<lambda>a. keyOf a = k) (up_candidates s)")
  case (Some a)
  assume s: "up_ok s"
  have "up_ok (s\<lparr>up_candidates := a # filter (\<lambda>x. x \<noteq> a) (up_candidates s)\<rparr>)" if "a \<noteq> []"
    using s that by (auto simp: up_ok_def)
  then show ?thesis using s Some by (auto simp: moveTo_def case_prod_beta reconnect_ok)
qed (simp add: moveTo_def)

lemma setLink_ok: "up_ok s \<Longrightarrow> up_ok (snd (setLink l s))"
  by (simp add: up_ok_def)

lemma isolated_ok: "up_ok s \<Longrightarrow> up_ok (snd (onIsolated c s))"
  by (simp add: onIsolated_def case_prod_beta reconnect_ok setLink_ok)

lemma relays_ok: "up_ok s \<Longrightarrow> up_ok (snd (setRelays xs c s))"
proof -
  assume s: "up_ok s"
  have "up_ok (s\<lparr>up_candidates := filter (\<lambda>a. a \<noteq> []) xs\<rparr>)" if "filter (\<lambda>a. a \<noteq> []) xs \<noteq> []"
    using s that unfolding up_ok_def by simp
  then show ?thesis using s by (simp add: setRelays_def Let_def reconnect_ok)
qed

lemma login_ok: "up_ok s \<Longrightarrow> up_ok (fst (snd (lb_login keyOf w roll now c (s, b))))"
  by (simp add: lb_login_def moveTo_ok split: option.split)

lemma tick_ok: "up_ok s \<Longrightarrow> up_ok (fst (snd (lb_tick keyOf roll now c (s, b))))"
  by (simp add: lb_tick_def Let_def moveTo_ok split: option.split)

lemma plain_ok:
  assumes "up_ok s"
  shows "up_ok (snd (connection_closed c s))" "up_ok (snd (pick_closed c s))" "up_ok (snd (linkWatch c s))"
    "up_ok (snd (ensureConnected c s))" "up_ok (snd (setOffline off c s))" "up_ok (register_room r s)"
    "up_ok (unregister_room r s)" "up_ok (snd (session_refresh s))" "up_ok (up_close s)" "up_ok (up_cleared s)"
proof -
  note r = reconnect_ok [OF assms] setLink_ok [OF assms]
  show "up_ok (snd (connection_closed c s))" "up_ok (snd (pick_closed c s))" "up_ok (snd (linkWatch c s))"
    "up_ok (snd (ensureConnected c s))" "up_ok (snd (setOffline off c s))" "up_ok (snd (session_refresh s))"
    using assms r by (simp_all add: connection_closed_def pick_closed_def linkWatch_def ensureConnected_def setOffline_def session_refresh_def)
  show "up_ok (register_room r s)" "up_ok (unregister_room r s)" "up_ok (up_close s)" "up_ok (up_cleared s)"
    using assms by (auto simp: up_ok_def register_room_def unregister_room_def set_add_def up_close_def up_cleared_def)
qed

lemma step_ok: "up_ok (fst x) \<Longrightarrow> up_ok (fst (up_do keyOf x e))"
  by (cases x; cases e)
    (simp_all add: up_do_def case_prod_beta plain_ok hung_up_ok swept_ok waited_ok isolated_ok relays_ok login_ok tick_ok)

interpretation up: machine "up_do keyOf" "\<lambda>x. up_ok (fst x)"
  by unfold_locales (rule step_ok)

lemma start_ok: "up_start relays relay = Some s \<Longrightarrow> up_ok s"
proof -
  assume a: "up_start relays relay = Some s"
  then obtain c cs where c: "candidates_of relays relay = c # cs" by (cases "candidates_of relays relay") (simp_all add: up_start_def)
  have "[] \<notin> set (candidates_of relays relay)" by (simp add: candidates_of_def)
  then show "up_ok s" using a c by (auto simp: up_start_def up_ok_def)
qed

subsection \<open>Recovery\<close>

text \<open>
  The loop's own next step while the transport stays down until a sweep finds somebody: \<open>dial a\<close> is
  what dialling \<open>a\<close> fails with, if it fails.
\<close>

definition own_step :: "(jstr \<Rightarrow> 'e option) \<Rightarrow> uplink \<Rightarrow> up_effect list \<times> uplink" where
  "own_step dial s =
     (case up_phase s of
        Resting \<Rightarrow> ([], s)
      | HangingUp \<Rightarrow> hung_up False s
      | Sweeping cs i \<Rightarrow> swept (\<lambda>_. dial) (\<exists>a\<in>set cs. dial a = None) s
      | Waiting i \<Rightarrow> waited False s)"

fun own_steps :: "(jstr \<Rightarrow> 'e option) \<Rightarrow> nat \<Rightarrow> uplink \<Rightarrow> up_effect list \<times> uplink" where
  "own_steps dial 0 s = ([], s)"
| "own_steps dial (Suc n) s =
     (case own_step dial s of (es, s1) \<Rightarrow> (case own_steps dial n s1 of (es', s2) \<Rightarrow> (es @ es', s2)))"

text \<open>The session is back: on a relay that answered, with every room told.\<close>

definition restored :: "(jstr \<Rightarrow> 'e option) \<Rightarrow> nat list \<Rightarrow> up_effect list \<times> uplink \<Rightarrow> bool" where
  "restored dial rooms r \<longleftrightarrow>
     (\<exists>pre. fst r = pre @ concat (map (\<lambda>x. [RefreshRoom x, FlushRoom x]) rooms))
     \<and> up_phase (snd r) = Resting \<and> \<not> up_redialing (snd r) \<and> up_link (snd r) = LinkOnline
     \<and> dial (up_active (snd r)) = None \<and> up_rooms (snd r) = rooms"

lemma restored_after: "restored dial rooms r \<Longrightarrow> restored dial rooms (es @ fst r, snd r)"
  by (auto simp: restored_def)

lemma sweep_restores:
  assumes "up_phase s = Sweeping cs i" "\<not> up_closed s" "a \<in> set cs" "dial a = None"
  shows "restored dial (up_rooms s) (own_step dial s)"
proof -
  obtain b where b: "failoverDial (\<lambda>_. dial) cs = Inr b" "dial b = None" using sweep_finds [of a cs dial] assms by blast
  have f: "up_closed (snd (connect_to b s)) = up_closed s" "up_rooms (snd (connect_to b s)) = up_rooms s"
    "up_active (snd (connect_to b s)) = b" by (simp_all add: connect_to_def)
  show ?thesis using assms b
    by (auto simp: own_step_def swept_def case_prod_beta loop_end_def Let_def restored_def revive_rooms_def f)
qed

lemma own_steps_Suc: "own_steps dial (Suc n) s = (fst (own_step dial s) @ fst (own_steps dial n (snd (own_step dial s))),
    snd (own_steps dial n (snd (own_step dial s))))"
  by (simp add: case_prod_beta)

lemma own_steps_1: "own_steps dial 1 s = own_step dial s"
  by (simp add: case_prod_beta)

lemma head_sweeps:
  "\<not> up_closed s \<Longrightarrow> loop_head False i s = ([DialSweep (up_candidates s)], s\<lparr>up_phase := Sweeping (up_candidates s) i\<rparr>)"
  by (simp add: loop_head_def)

lemma two_steps_restore:
  assumes "snd (own_step dial s) = s'" "up_phase s' = Sweeping (up_candidates s) i" "\<not> up_closed s'" "up_rooms s' = up_rooms s"
    "a \<in> set (up_candidates s)" "dial a = None"
  shows "restored dial (up_rooms s) (own_steps dial 2 s)"
proof -
  have "restored dial (up_rooms s) (own_step dial s')" using sweep_restores [OF assms(2,3,5), of dial] assms(4,6) by simp
  then have "restored dial (up_rooms s) (own_steps dial 1 s')" by (simp only: own_steps_1)
  then have "restored dial (up_rooms s) (fst (own_step dial s) @ fst (own_steps dial 1 s'), snd (own_steps dial 1 s'))"
    by (rule restored_after)
  then show ?thesis using assms(1) own_steps_Suc [of dial 1 s] by (simp only: numeral_2_eq_2 One_nat_def [symmetric] own_steps_Suc)
qed

lemma loop_restores:
  assumes "up_ok s" "\<not> up_closed s" "up_redialing s" "a \<in> set (up_candidates s)" "dial a = None"
  shows "\<exists>n\<le>3. restored dial (up_rooms s) (own_steps dial n s)"
proof (cases "up_phase s")
  case Resting
  then show ?thesis using assms by (simp add: up_ok_def)
next
  case HangingUp
  have "snd (own_step dial s) = s\<lparr>up_phase := Sweeping (up_candidates s) 0\<rparr>"
    using assms HangingUp by (simp add: own_step_def hung_up_def head_sweeps)
  from two_steps_restore [where i = 0, OF this _ _ _ assms(4,5)] have "restored dial (up_rooms s) (own_steps dial 2 s)"
    using assms(2) by simp
  then show ?thesis by (intro exI [of _ 2]) simp
next
  case (Waiting i)
  have "snd (own_step dial s) = s\<lparr>up_phase := Sweeping (up_candidates s) (Suc i)\<rparr>"
    using assms Waiting by (simp add: own_step_def waited_def head_sweeps)
  from two_steps_restore [where i = "Suc i", OF this _ _ _ assms(4,5)] have "restored dial (up_rooms s) (own_steps dial 2 s)"
    using assms(2) by simp
  then show ?thesis by (intro exI [of _ 2]) simp
next
  case (Sweeping cs i)
  show ?thesis
  proof (cases "\<exists>b\<in>set cs. dial b = None")
    case True
    then obtain b where "b \<in> set cs" "dial b = None" by blast
    with sweep_restores [OF Sweeping assms(2), of b dial] have "restored dial (up_rooms s) (own_steps dial 1 s)"
      by (simp only: own_steps_1)
    then show ?thesis by (intro exI [of _ 1]) simp
  next
    case False
    then obtain r where r: "failoverDial (\<lambda>_. dial) cs = Inl r" using sweep_fails by (metis option.distinct(1))
    let ?s = "snd (own_step dial s)"
    have s: "up_phase ?s = Waiting i" "\<not> up_closed ?s" "up_candidates ?s = up_candidates s" "up_rooms ?s = up_rooms s"
      using Sweeping r assms(2) by (auto simp: own_step_def swept_def case_prod_beta)
    have "snd (own_step dial ?s) = ?s\<lparr>up_phase := Sweeping (up_candidates ?s) (Suc i)\<rparr>"
      using s by (simp add: own_step_def [of dial ?s] waited_def head_sweeps)
    from two_steps_restore [where i = "Suc i", OF this _ _ _ _ assms(5)]
    have "restored dial (up_rooms s) (own_steps dial 2 ?s)" using s assms(4) by simp
    then have "restored dial (up_rooms s) (own_steps dial (Suc 2) s)"
      unfolding own_steps_Suc [of dial 2 s] by (rule restored_after)
    then show ?thesis by (intro exI [of _ 3]) (simp add: numeral_3_eq_3 numeral_2_eq_2)
  qed
qed

lemma watch_starts:
  assumes "up_ok s" "\<not> up_closed s"
  shows "up_redialing (snd (linkWatch False s)) \<and> up_ok (snd (linkWatch False s)) \<and> \<not> up_closed (snd (linkWatch False s))
    \<and> up_candidates (snd (linkWatch False s)) = up_candidates s \<and> up_rooms (snd (linkWatch False s)) = up_rooms s"
  using assms plain_ok(3) [OF assms(1), of False]
  by (auto simp: linkWatch_def reconnect_def case_prod_beta head_sweeps)

subsection \<open>Hanging up\<close>

lemma no_hangup [simp]:
  "HangUp \<notin> set (fst (setLink l s))" "HangUp \<notin> set (fst (loop_end c s))" "HangUp \<notin> set (fst (loop_head c i s))"
  "HangUp \<notin> set (fst (hung_up c s))" "HangUp \<notin> set (fst (waited c s))" "HangUp \<notin> set (fst (reconnect False c s))"
  "HangUp \<notin> set (fst (connect_to a s))" "HangUp \<notin> set (fst (swept f c s))" "HangUp \<notin> set (fst (session_refresh s))"
proof -
  show l: "HangUp \<notin> set (fst (setLink l s))" for l s by simp
  show e: "HangUp \<notin> set (fst (loop_end c s))" for c s by (auto simp: loop_end_def Let_def case_prod_beta revive_rooms_def)
  show h: "HangUp \<notin> set (fst (loop_head c i s))" for c i s by (simp add: loop_head_def e)
  show "HangUp \<notin> set (fst (hung_up c s))" by (simp add: hung_up_def h split: phase.split)
  show "HangUp \<notin> set (fst (waited c s))" by (simp add: waited_def h split: phase.split)
  show "HangUp \<notin> set (fst (reconnect False c s))" by (simp add: reconnect_def case_prod_beta h)
  show c: "HangUp \<notin> set (fst (connect_to a s))" by (simp add: connect_to_def)
  show "HangUp \<notin> set (fst (swept f c s))"
    by (auto simp: swept_def case_prod_beta e connect_to_def split: phase.split sum.split)
  show "HangUp \<notin> set (fst (session_refresh s))" by (auto simp: session_refresh_def revive_rooms_def)
qed

lemma hangs_up: "HangUp \<in> set (fst (reconnect True c s)) \<longleftrightarrow> \<not> up_redialing s \<and> \<not> up_closed s"
  by (simp add: reconnect_def case_prod_beta)

lemma move_hangs_up:
  "HangUp \<in> set (fst (moveTo keyOf k now c (s, b))) \<Longrightarrow> \<not> up_redialing s \<and> \<not> up_closed s
     \<and> lb_lastMove (snd (snd (moveTo keyOf k now c (s, b)))) = now"
  by (cases "find (\<lambda>a. keyOf a = k) (up_candidates s)") (auto simp: moveTo_def case_prod_beta hangs_up split: if_splits)

lemma moved_books:
  "lb_lastMove (snd (snd (moveTo keyOf k now c (s, b)))) = lb_lastMove b \<or> lb_lastMove (snd (snd (moveTo keyOf k now c (s, b)))) = now"
  by (cases "find (\<lambda>a. keyOf a = k) (up_candidates s)") (auto simp: moveTo_def case_prod_beta)

lemma tick_moves:
  assumes "HangUp \<in> set (fst (lb_tick keyOf roll now c (s, b)))"
  shows "\<not> up_redialing s \<and> \<not> up_closed s \<and> MOVE_EVERY_MS \<le> now - lb_lastMove b
    \<and> (\<exists>r. jm_get (lb_loads b) (keyOf (up_active s)) = Some r \<and> HOT \<le> ld_pct r)
    \<and> lb_lastMove (snd (snd (lb_tick keyOf roll now c (s, b)))) = now"
proof -
  let ?hot = "if hot_now now (jm_get (lb_loads b) (keyOf (up_active s)))
    then Some (case lb_hotSince b of None \<Rightarrow> now | Some t \<Rightarrow> t) else None"
  let ?b = "b\<lparr>lb_hotSince := ?hot\<rparr>"
  have g: "\<not> up_redialing s" "\<not> up_closed s" "MOVE_EVERY_MS \<le> now - lb_lastMove b"
    using assms by (auto simp: lb_tick_def Let_def not_less split: if_splits)
  obtain k where k: "rebalanceChoice (keyOf (up_active s)) (up_keys keyOf s) (lb_loads b) ?hot roll now = Some k"
    using assms g by (cases "rebalanceChoice (keyOf (up_active s)) (up_keys keyOf s) (lb_loads b) ?hot roll now")
      (simp_all add: lb_tick_def Let_def)
  then have e: "lb_tick keyOf roll now c (s, b) = moveTo keyOf k now c (s, ?b)" using g by (simp add: lb_tick_def Let_def)
  have "hot_now now (jm_get (lb_loads b) (keyOf (up_active s)))"
    using k by (auto simp: rebalanceChoice_def split: if_splits)
  then have "\<exists>r. jm_get (lb_loads b) (keyOf (up_active s)) = Some r \<and> HOT \<le> ld_pct r"
    by (auto simp: hot_now_def split: option.splits)
  then show ?thesis using g move_hangs_up assms unfolding e by blast
qed

lemma login_hangs_up:
  "HangUp \<in> set (fst (lb_login keyOf w roll now c (s, b))) \<Longrightarrow> \<not> up_redialing s \<and> \<not> up_closed s
     \<and> (\<exists>k. loginChoice (keyOf (up_active s)) (up_keys keyOf s) (lb_loads b) w roll now = Some k)"
  by (auto simp: lb_login_def dest: move_hangs_up split: if_splits option.splits)

text \<open>When ticks moved, in order, and the last move each of them saw.\<close>

fun tick_times :: "(jstr \<Rightarrow> jstr) \<Rightarrow> uplink \<times> balancer \<Rightarrow> 'e up_event list \<Rightarrow> rat list" where
  "tick_times keyOf x [] = []"
| "tick_times keyOf x (e # es) =
     (case e of
        LoadTick roll now c \<Rightarrow> if HangUp \<in> set (fst (up_step keyOf e x)) then [now] else []
      | _ \<Rightarrow> []) @ tick_times keyOf (up_do keyOf x e) es"

lemma other_keeps_books:
  assumes "\<And>r n c. e \<noteq> LoadTick r n c" "\<And>w r n c. e \<noteq> LoadLogin w r n c"
  shows "lb_lastMove (snd (up_do keyOf x e)) = lb_lastMove (snd x)"
  using assms by (cases x; cases e) (auto simp: up_do_def case_prod_beta lb_message_def split: option.split)

definition is_login :: "'e up_event \<Rightarrow> bool" where
  "is_login e = (case e of LoadLogin _ _ _ _ \<Rightarrow> True | _ \<Rightarrow> False)"

lemma tick_books:
  "lb_lastMove (snd (snd (lb_tick keyOf roll now c (s, b)))) = lb_lastMove b
   \<or> lb_lastMove (snd (snd (lb_tick keyOf roll now c (s, b)))) = now \<and> MOVE_EVERY_MS \<le> now - lb_lastMove b"
proof (cases "rebalanceChoice (keyOf (up_active s)) (up_keys keyOf s) (lb_loads b)
    (if hot_now now (jm_get (lb_loads b) (keyOf (up_active s)))
     then Some (case lb_hotSince b of None \<Rightarrow> now | Some t \<Rightarrow> t) else None) roll now")
  case (Some k)
  then show ?thesis
    using moved_books [of keyOf k now c s "b\<lparr>lb_hotSince := (if hot_now now (jm_get (lb_loads b) (keyOf (up_active s)))
     then Some (case lb_hotSince b of None \<Rightarrow> now | Some t \<Rightarrow> t) else None)\<rparr>"]
    by (simp add: lb_tick_def Let_def)
qed (simp add: lb_tick_def Let_def)

lemma ticks_apart:
  assumes "\<not> list_ex is_login es"
  shows "successively (\<lambda>t t'. MOVE_EVERY_MS \<le> t' - t) (tick_times keyOf x es)
    \<and> (\<forall>t ts. tick_times keyOf x es = t # ts \<longrightarrow> MOVE_EVERY_MS \<le> t - lb_lastMove (snd x))"
  using assms
proof (induction es arbitrary: x)
  case (Cons e es)
  obtain s b where x: "x = (s, b)" by (cases x)
  let ?x = "up_do keyOf x e"
  note IH = Cons.IH [of ?x]
  have IH': "successively (\<lambda>t t'. MOVE_EVERY_MS \<le> t' - t) (tick_times keyOf ?x es)"
    "\<And>t ts. tick_times keyOf ?x es = t # ts \<Longrightarrow> MOVE_EVERY_MS \<le> t - lb_lastMove (snd ?x)"
    using IH Cons.prems by auto
  have pos: "0 \<le> MOVE_EVERY_MS" by (simp add: MOVE_EVERY_MS_def)
  show ?case
  proof (cases "\<exists>r n c. e = LoadTick r n c")
    case True
    then obtain r n c where e: "e = LoadTick r n c" by blast
    show ?thesis
    proof (cases "HangUp \<in> set (fst (up_step keyOf e x))")
      case True
      then have m: "MOVE_EVERY_MS \<le> n - lb_lastMove b" "lb_lastMove (snd ?x) = n"
        using tick_moves [of keyOf r n c s b] e x by (simp_all add: up_do_def)
      then show ?thesis using IH' True e x by (cases "tick_times keyOf ?x es") auto
    next
      case False
      have "lb_lastMove b \<le> lb_lastMove (snd ?x)"
        using tick_books [of keyOf r n c s b] pos e x by (auto simp: up_do_def)
      then show ?thesis using IH' False e x by force
    qed
  next
    case False
    have "e \<noteq> LoadLogin w r n c" for w r n c using Cons.prems by (auto simp: is_login_def)
    with False have "lb_lastMove (snd ?x) = lb_lastMove (snd x)" by (intro other_keeps_books) auto
    moreover have "tick_times keyOf x (e # es) = tick_times keyOf ?x es" using False by (cases e) auto
    ultimately show ?thesis using IH' by auto
  qed
qed simp

lemma first_dial_ok: "first_dial f i s = (w, Inr s') \<Longrightarrow> up_ok s \<Longrightarrow> up_ok s'"
proof (induction f i s arbitrary: w rule: first_dial.induct)
  case (1 f i s)
  show ?case
  proof (cases "failoverDial (f i) (up_candidates s)")
    case (Inr a)
    then show ?thesis using 1(2,3) by (auto simp: first_dial.simps [of f i s] connect_to_def up_ok_def split: if_splits)
  next
    case (Inl r)
    then show ?thesis using 1 by (auto simp: first_dial.simps [of f i s] split: if_splits prod.splits)
  qed
qed

subsection \<open>Properties\<close>

text \<open>
  C10: the session comes back by itself. However the link got to where it stands (any run of its
  handlers from a start that connected), if it was not shut down and the relay list has one relay
  that answers, then a look at the dead connection and at most three steps of the loop bring it
  back: online, on a relay that answered, no loop left running, and every open room refreshed and
  flushed in the order they were opened.
\<close>
theorem link_recovers:
  assumes "up_start relays relay = Some s00" "first_dial f 0 s00 = (w, Inr s0)"
    and "run (up_do keyOf) (s0, lb_start) evs = (s, b)" "\<not> up_closed s"
    and "a \<in> set (up_candidates s)" "dial a = None"
  shows "\<exists>n\<le>3. restored dial (up_rooms s) (own_steps dial n (snd (linkWatch False s)))"
proof -
  have "up_ok (fst (run (up_do keyOf) (s0, lb_start) evs))"
    using first_dial_ok [OF assms(2) start_ok [OF assms(1)]] by (intro up.run_inv) simp
  then have "up_ok s" using assms(3) by simp
  with watch_starts [of s] assms(4-6) show ?thesis using loop_restores [of "snd (linkWatch False s)" a dial] by auto
qed

definition demo_addr :: "nat \<Rightarrow> jstr" where "demo_addr n = [of_nat n]"

definition demo_up :: uplink where
  "demo_up = \<lparr>up_candidates = [demo_addr 1, demo_addr 2], up_active = demo_addr 1, up_link = LinkOnline, up_redialing = False,
     up_closed = False, up_phase = Resting, up_rooms = []\<rparr>"

lemma demo_starts:
  "up_start [demo_addr 1, demo_addr 2] [] = Some demo_up" "first_dial (\<lambda>_ _ _. None :: unit option) 0 demo_up = ([], Inr demo_up)"
  by (simp_all add: up_start_def candidates_of_def demo_addr_def demo_up_def first_dial.simps failoverDial_def connect_to_def)

theorem link_recovers_witness:
  "\<exists>n\<le>3. restored (\<lambda>x. if x = demo_addr 2 then None else Some ()) [7]
     (own_steps (\<lambda>x. if x = demo_addr 2 then None else Some ()) n (snd (linkWatch False (demo_up\<lparr>up_rooms := [7]\<rparr>))))"
proof -
  have r: "run (up_do (\<lambda>x. x)) (demo_up, lb_start) [RoomOpened 7 :: unit up_event] = (demo_up\<lparr>up_rooms := [7]\<rparr>, lb_start)"
    by (simp add: up_do_def register_room_def set_add_def demo_up_def)
  have f: "\<not> up_closed (demo_up\<lparr>up_rooms := [7]\<rparr>)" "demo_addr 2 \<in> set (up_candidates (demo_up\<lparr>up_rooms := [7]\<rparr>))"
    by (simp_all add: demo_up_def)
  show ?thesis using link_recovers [OF demo_starts r f, of "\<lambda>x. if x = demo_addr 2 then None else Some ()"] by simp
qed

text \<open>
  A connection is hung up for a reason. Only where no loop runs and the session is open, and
  only because the rooms heard nobody, the platform's network came back, the relay in use was
  taken off the list, or the load rules named another: at login, or on a tick at least ten minutes
  after the last move while the own relay reads hot. A reordered list never hangs up.
\<close>
theorem hangup_for_reason:
  assumes "HangUp \<in> set (fst (up_step keyOf e (s, b)))"
  shows "\<not> up_redialing s \<and> \<not> up_closed s \<and>
    (case e of
       Isolated c \<Rightarrow> True
     | Offline off c \<Rightarrow> \<not> off
     | Relays xs c \<Rightarrow> up_active s \<notin> set xs \<or> up_active s = []
     | LoadLogin w roll now c \<Rightarrow>
         \<exists>k. loginChoice (keyOf (up_active s)) (up_keys keyOf s) (lb_loads b) w roll now = Some k
     | LoadTick roll now c \<Rightarrow> MOVE_EVERY_MS \<le> now - lb_lastMove b
         \<and> (\<exists>r. jm_get (lb_loads b) (keyOf (up_active s)) = Some r \<and> HOT \<le> ld_pct r)
     | _ \<Rightarrow> False)"
proof (cases e)
  case (LoadTick roll now c)
  then show ?thesis using assms tick_moves [of keyOf roll now c s b] by simp
next
  case (LoadLogin w roll now c)
  then show ?thesis using assms login_hangs_up [of keyOf w roll now c s b] by simp
next
  case (Relays xs c)
  then show ?thesis using assms by (auto simp: case_prod_beta setRelays_def Let_def hangs_up split: if_splits)
next
  case (Isolated c)
  then show ?thesis using assms by (auto simp: case_prod_beta onIsolated_def hangs_up split: if_splits)
next
  case (Offline off c)
  then show ?thesis using assms by (auto simp: case_prod_beta setOffline_def hangs_up split: if_splits)
qed (use assms in \<open>simp_all add: case_prod_beta connection_closed_def pick_closed_def linkWatch_def ensureConnected_def split: if_splits\<close>)

theorem hangup_for_reason_witness:
  "HangUp \<in> set (fst (up_step (\<lambda>x. x) (Relays [demo_addr 3] True :: unit up_event) (demo_up, lb_start)))
   \<and> demo_addr 1 \<notin> set [demo_addr 3]"
proof -
  have h: "HangUp \<in> set (fst (up_step (\<lambda>x. x) (Relays [demo_addr 3] True :: unit up_event) (demo_up, lb_start)))"
    by (simp add: setRelays_def Let_def reconnect_def setLink_def demo_up_def demo_addr_def)
  show ?thesis using hangup_for_reason [OF h] h by (simp add: demo_up_def demo_addr_def)
qed

text \<open>
  Moves for load keep their distance: in any run of the link's handlers after the decision at
  login, whatever else happens between, two moves are ten minutes apart, and so is the first one
  from the move at login.
\<close>
lemma moves_apart:
  assumes "\<not> list_ex is_login evs"
  shows "successively (\<lambda>t t'. MOVE_EVERY_MS \<le> t' - t) (tick_times keyOf (s, b) evs)
    \<and> (\<forall>t ts. tick_times keyOf (s, b) evs = t # ts \<longrightarrow> MOVE_EVERY_MS \<le> t - lb_lastMove b)"
  using ticks_apart [OF assms, of keyOf "(s, b)"] by simp

definition hot_loads :: balancer where
  "hot_loads = \<lparr>lb_loads = [(demo_addr 1, \<lparr>ld_node = demo_addr 1, ld_pct = 90, ld_at = 600000\<rparr>),
     (demo_addr 2, \<lparr>ld_node = demo_addr 2, ld_pct = 10, ld_at = 600000\<rparr>)], lb_hotSince = Some 0, lb_lastMove = 0\<rparr>"

lemma moves_apart_example:
  "tick_times (\<lambda>x. x) (demo_up, hot_loads) [LoadTick (Fin 0) 600000 True :: unit up_event] = [600000]
   \<and> MOVE_EVERY_MS \<le> 600000 - 0"
proof -
  have t: "tick_times (\<lambda>x. x) (demo_up, hot_loads) [LoadTick (Fin 0) 600000 True :: unit up_event] = [600000]"
    by (simp add: lb_tick_def Let_def hot_loads_def demo_up_def demo_addr_def hot_now_def rebalanceChoice_def fresh_reading_def HOT_def
        COOL_def HOT_FOR_MS_def LOAD_STALE_MS_def REBALANCE_P_def MOVE_EVERY_MS_def up_keys_def moveTo_def reconnect_def setLink_def)
  have h: "\<not> list_ex is_login [LoadTick (Fin 0) 600000 True :: unit up_event]" by (simp add: is_login_def)
  from moves_apart [OF h, of "\<lambda>x. x" demo_up hot_loads] t show ?thesis by (simp add: hot_loads_def)
qed

subsection \<open>A sweep that outlives its list\<close>

text \<open>
  A sweep under way goes on over the list it was started with. A list that arrives meanwhile and
  no longer names the relay in use asks for a reconnect, which is refused because one is running;
  if the old sweep connects, the session stays on a relay that was taken off the list.
\<close>

lemma dropped_relay_kept:
  assumes "a \<noteq> c" "c \<noteq> []"
    and "up_candidates s = [a]" "up_active s = a" "\<not> up_closed s" "\<not> up_redialing s"
  shows "\<exists>s'. run (up_do keyOf) (s, b) [ConnectionClosed False, Relays [c] False, Swept (\<lambda>_ _. None :: unit option) True, LinkWatch True] = (s', b)
    \<and> up_candidates s' = [c] \<and> up_active s' = a \<and> up_link s' = LinkOnline \<and> up_phase s' = Resting"
  using assms
  by (simp add: up_do_def case_prod_beta connection_closed_def reconnect_def loop_head_def setRelays_def Let_def swept_def
      failoverDial_def connect_to_def loop_end_def linkWatch_def)

end
