(* ===== verification/Session.thy ===== *)
theory Session
  imports Presence Picks
begin

section \<open>Watches, rooms and the topics they share (lib/core.ts)\<close>

text \<open>
  What a session keeps for its contacts: a presence watch each, the conversations that are open, and
  the subscriptions of its node, which do not count their holders: one \<open>unsubscribe\<close> drops a topic
  for all of them. \<open>roomTopics\<close> counts the conversations on a topic so that a watch leaves such a
  topic alone. Watches and conversations are objects that outlive their place in the maps, so both
  have a table by number. A handler that awaits is cut there; what the rest of it was handed before
  the wait is an argument of the step that goes on.
\<close>

subsection \<open>State\<close>

record conv =
  cv_pub :: jstr
  cv_topic :: jstr
  cv_released :: bool
  cv_stopped :: bool
  cv_wasWatched :: bool

record live_watch =
  lw_pub :: jstr
  lw_offsetMs :: int
  lw_rot :: rotating

text \<open>A day's keys: asked for, or there.\<close>

datatype day_keys = Asked | Ready jstr bytes

record session =
  ss_closed :: bool
  ss_watches :: "(nat, live_watch) jmap"
  ss_presence :: "(jstr, nat) jmap"
  ss_convs :: "(nat, conv) jmap"
  ss_openConvs :: "(jstr, nat) jmap"
  ss_roomTopics :: "(jstr, nat) jmap"
  ss_upgradeDate :: "(jstr, jstr \<times> int) jmap"
  ss_offsets :: "(jstr, nat) jmap"
  ss_days :: "(jstr \<times> jstr, day_keys) jmap"
  ss_subs :: "jstr list"
  ss_next :: nat

record session_env =
  se_watch :: watch_cfg
  se_guard :: int
  se_forced :: "nat option"

datatype session_effect =
    SDerive jstr jstr
  | SOnlineOf jstr
  | SOfflineOf jstr
  | SWants jstr
  | SRealign jstr nat "jstr option"
  | SStart jstr
  | SAnnounce jstr

definition new_session :: session where
  "new_session = \<lparr>ss_closed = False, ss_watches = [], ss_presence = [], ss_convs = [], ss_openConvs = [], ss_roomTopics = [],
     ss_upgradeDate = [], ss_offsets = [], ss_days = [], ss_subs = [], ss_next = 0\<rparr>"

definition UPGRADE_DATE_TTL :: int where "UPGRADE_DATE_TTL = 5 * 60000"

subsection \<open>Topics held by rooms\<close>

definition held_count :: "jstr \<Rightarrow> (jstr, nat) jmap \<Rightarrow> nat" where
  "held_count t m = (case jm_get m t of None \<Rightarrow> 0 | Some n \<Rightarrow> n)"

definition holdTopic :: "jstr \<Rightarrow> (jstr, nat) jmap \<Rightarrow> (jstr, nat) jmap" where
  "holdTopic t m = jm_set t (held_count t m + 1) m"

text \<open>\<open>n - 1 > 0\<close> over the integers: a topic nobody holds gives -1.\<close>

definition releaseTopic :: "jstr \<Rightarrow> (jstr, nat) jmap \<Rightarrow> (jstr, nat) jmap" where
  "releaseTopic t m = (let n = held_count t m in if n > 1 then jm_set t (n - 1) m else jm_del t m)"

definition keep_topic :: "session \<Rightarrow> jstr \<Rightarrow> bool" where
  "keep_topic s t = jm_has (ss_roomTopics s) t"

definition subscribe :: "jstr \<Rightarrow> session \<Rightarrow> session" where
  "subscribe t s = s\<lparr>ss_subs := set_add t (ss_subs s)\<rparr>"

definition unsubscribe :: "jstr \<Rightarrow> session \<Rightarrow> session" where
  "unsubscribe t s = s\<lparr>ss_subs := filter (\<lambda>x. x \<noteq> t) (ss_subs s)\<rparr>"

subsection \<open>Keys of a day, the pair's offset\<close>

definition DAYS_KEPT :: nat where "DAYS_KEPT = 512"

definition pairDay :: "jstr \<Rightarrow> jstr \<Rightarrow> session \<Rightarrow> session_effect list \<times> session" where
  "pairDay pub day s =
     (if jm_has (ss_days s) (pub, day) then ([], s)
      else let m = jm_set (pub, day) Asked (ss_days s) in
        ([SDerive pub day], s\<lparr>ss_days := (if length m > DAYS_KEPT then jm_del (fst (hd m)) m else m)\<rparr>))"

text \<open>The derivation answers; one that fails is not remembered.\<close>

definition day_answer :: "jstr \<Rightarrow> jstr \<Rightarrow> (jstr \<times> bytes) option \<Rightarrow> session \<Rightarrow> session" where
  "day_answer pub day ans s =
     s\<lparr>ss_days := (case ans of
         None \<Rightarrow> jm_del (pub, day) (ss_days s)
       | Some (t, k) \<Rightarrow> if jm_has (ss_days s) (pub, day) then jm_set (pub, day) (Ready t k) (ss_days s) else ss_days s)\<rparr>"

text \<open>\<open>ans\<close> is what the derivation would answer; \<open>None\<close> raises.\<close>

definition offsetSecFor :: "session_env \<Rightarrow> jstr \<Rightarrow> nat option \<Rightarrow> session \<Rightarrow> nat option \<times> session" where
  "offsetSecFor E pub ans s =
     (case se_forced E of
        Some f \<Rightarrow> (Some f, s)
      | None \<Rightarrow> (case jm_get (ss_offsets s) pub of
            Some off \<Rightarrow> (Some off, s)
          | None \<Rightarrow> (case ans of
                None \<Rightarrow> (None, s)
              | Some off \<Rightarrow> (Some off, s\<lparr>ss_offsets := jm_set pub off (ss_offsets s)\<rparr>))))"

subsection \<open>A room that moves\<close>

definition realign :: "jstr \<Rightarrow> jstr option \<Rightarrow> session \<Rightarrow> session_effect list" where
  "realign pub day s =
     (case jm_get (ss_openConvs s) pub of None \<Rightarrow> [] | Some c \<Rightarrow> if ss_closed s then [] else [SRealign pub c day])"

text \<open>The rest, with the topic of the day it found.\<close>

definition realigned :: "jstr \<Rightarrow> nat \<Rightarrow> jstr \<Rightarrow> session \<Rightarrow> session" where
  "realigned pub c topic s =
     (case jm_get (ss_convs s) c of
        None \<Rightarrow> s
      | Some cv \<Rightarrow>
          if topic = cv_topic cv \<or> jm_get (ss_openConvs s) pub \<noteq> Some c \<or> topic = [] then s
          else let s1 = unsubscribe (cv_topic cv) (subscribe topic (s\<lparr>ss_convs := jm_set c (cv\<lparr>cv_topic := topic\<rparr>) (ss_convs s)\<rparr>))
            in s1\<lparr>ss_roomTopics := holdTopic topic (releaseTopic (cv_topic cv) (ss_roomTopics s1))\<rparr>)"

text \<open>Once a minute: the rooms in which nobody is.\<close>

definition realign_round :: "(nat \<Rightarrow> bool) \<Rightarrow> session \<Rightarrow> session_effect list" where
  "realign_round empty_in s = concat (map (\<lambda>(pub, c). if empty_in c then realign pub None s else []) (ss_openConvs s))"

subsection \<open>Watches\<close>

definition rt_cfg_of :: "session_env \<Rightarrow> int \<Rightarrow> session \<Rightarrow> rt_cfg" where
  "rt_cfg_of E off s = \<lparr>rp_watch = se_watch E, rp_offsetMs = off, rp_guard = se_guard E, rp_keep = keep_topic s\<rparr>"

text \<open>What the effects of a watch are to the session.\<close>

definition watch_effect :: "int \<Rightarrow> jstr \<Rightarrow> rt_effect \<Rightarrow> session \<Rightarrow> session_effect list \<times> session" where
  "watch_effect clk pub e s =
     (case e of
        RSubscribe t \<Rightarrow> ([], subscribe t s)
      | RWatch (WUnsubscribe t) \<Rightarrow> ([], unsubscribe t s)
      | RWatch WAnnounce \<Rightarrow> ([SAnnounce pub], s)
      | RDerive d \<Rightarrow> pairDay pub d s
      | ROnline \<Rightarrow> ([SOnlineOf pub], s)
      | ROffline \<Rightarrow> ([SOfflineOf pub], s)
      | RHandshake f from d \<Rightarrow>
          if jm_has (ss_openConvs s) pub then (realign pub (Some d) s, s)
          else ([SWants pub], s\<lparr>ss_upgradeDate := jm_set pub (d, clk) (ss_upgradeDate s)\<rparr>)
      | _ \<Rightarrow> ([], s))"

fun watch_effects :: "int \<Rightarrow> jstr \<Rightarrow> rt_effect list \<Rightarrow> session \<Rightarrow> session_effect list \<times> session" where
  "watch_effects clk pub [] s = ([], s)"
| "watch_effects clk pub (e # es) s =
     (case watch_effect clk pub e s of (e1, s1) \<Rightarrow> (case watch_effects clk pub es s1 of (e2, s2) \<Rightarrow> (e1 @ e2, s2)))"

definition startWatch :: "jstr \<Rightarrow> session \<Rightarrow> session_effect list" where
  "startWatch pub s = (if ss_closed s \<or> jm_has (ss_presence s) pub then [] else [SStart pub])"

text \<open>The rest, with the offset: the watch is made, its first run begins, and it takes its place.\<close>

definition watch_started :: "session_env \<Rightarrow> int \<Rightarrow> int \<Rightarrow> jstr \<Rightarrow> nat option \<Rightarrow> session \<Rightarrow> session_effect list \<times> session" where
  "watch_started E clk now pub ans s =
     (case offsetSecFor E pub ans s of
        (None, s1) \<Rightarrow> ([], s1)
      | (Some off, s1) \<Rightarrow>
          (case rt_tick (rt_cfg_of E (int off * 1000) s1) now no_watches of (es, r) \<Rightarrow>
            watch_effects clk pub es (s1\<lparr>ss_watches := jm_set (ss_next s1) \<lparr>lw_pub = pub, lw_offsetMs = int off * 1000, lw_rot = r\<rparr> (ss_watches s1),
              ss_presence := jm_set pub (ss_next s1) (ss_presence s1), ss_next := Suc (ss_next s1)\<rparr>)))"

text \<open>Something happens to a watch: a tick, a derivation's answer, a message, a sweep, or its stop.\<close>

definition on_watch ::
  "session_env \<Rightarrow> (rt_cfg \<Rightarrow> rotating \<Rightarrow> rt_effect list \<times> rotating) \<Rightarrow> int \<Rightarrow> nat \<Rightarrow> session \<Rightarrow> session_effect list \<times> session" where
  "on_watch E f clk w s =
     (case jm_get (ss_watches s) w of
        None \<Rightarrow> ([], s)
      | Some lw \<Rightarrow>
          (case f (rt_cfg_of E (lw_offsetMs lw) s) (lw_rot lw) of (es, r) \<Rightarrow>
            watch_effects clk (lw_pub lw) es (s\<lparr>ss_watches := jm_set w (lw\<lparr>lw_rot := r\<rparr>) (ss_watches s)\<rparr>)))"

definition stop_watch :: "session_env \<Rightarrow> int \<Rightarrow> bool \<Rightarrow> jstr \<Rightarrow> session \<Rightarrow> session_effect list \<times> session" where
  "stop_watch E now unsub pub s =
     (case jm_get (ss_presence s) pub of
        None \<Rightarrow> ([], s)
      | Some w \<Rightarrow> (case on_watch E (\<lambda>cfg. rt_stop cfg now unsub) now w s of
          (es, s1) \<Rightarrow> (es, s1\<lparr>ss_presence := jm_del pub (ss_presence s1)\<rparr>)))"

definition stopWatch :: "session_env \<Rightarrow> int \<Rightarrow> jstr \<Rightarrow> session \<Rightarrow> session_effect list \<times> session" where
  "stopWatch E now pub s =
     (case stop_watch E now True pub s of (es, s1) \<Rightarrow> (es, s1\<lparr>ss_upgradeDate := jm_del pub (ss_upgradeDate s1)\<rparr>))"

subsection \<open>Opening and leaving\<close>

definition open_begin :: "jstr \<Rightarrow> session \<Rightarrow> (jstr \<times> int) option \<times> session" where
  "open_begin pub s = (jm_get (ss_upgradeDate s) pub, s\<lparr>ss_upgradeDate := jm_del pub (ss_upgradeDate s)\<rparr>)"

text \<open>The day a room opens on: that of a recent handshake, else the pair's current one.\<close>

definition open_day :: "int \<Rightarrow> int \<Rightarrow> (jstr \<times> int) option \<Rightarrow> nat \<Rightarrow> jstr option" where
  "open_day clk now pending off =
     (case pending of
        Some (d, t) \<Rightarrow> if clk - t < UPGRADE_DATE_TTL then Some d else rendezvousDay now (int off * 1000)
      | None \<Rightarrow> rendezvousDay now (int off * 1000))"

text \<open>
  With the offset: the day, whether there was a watch and what it heard; the watch hands over, and
  the day's keys are asked for. \<open>None\<close> where the offset or the date fails.
\<close>

definition open_handoff ::
  "session_env \<Rightarrow> int \<Rightarrow> int \<Rightarrow> jstr \<Rightarrow> (jstr \<times> int) option \<Rightarrow> nat option \<Rightarrow> session
    \<Rightarrow> (jstr \<times> bool \<times> (jstr \<times> int \<times> jstr) list) option \<times> session_effect list \<times> session" where
  "open_handoff E clk now pub pending ans s =
     (case offsetSecFor E pub ans s of
        (None, s1) \<Rightarrow> (None, [], s1)
      | (Some off, s1) \<Rightarrow>
          (case open_day clk now pending off of
             None \<Rightarrow> (None, [], s1)
           | Some day \<Rightarrow>
               let heard = (case Option.bind (jm_get (ss_presence s1) pub) (jm_get (ss_watches s1)) of
                     None \<Rightarrow> []
                   | Some lw \<Rightarrow> rt_seen (rt_cfg_of E (lw_offsetMs lw) s1) now (lw_rot lw));
                   was = jm_has (ss_presence s1) pub
               in (case stop_watch E now False pub s1 of (es, s2) \<Rightarrow>
                    (case pairDay pub day s2 of (es', s3) \<Rightarrow> (Some (day, was, heard), es @ es', s3)))))"

text \<open>
  The room is there, on its topic: it subscribes, the topic is held, and what the watch had heard on
  that topic is what the room is seeded with.
\<close>

definition open_done ::
  "jstr \<Rightarrow> jstr \<Rightarrow> bool \<Rightarrow> (jstr \<times> int \<times> jstr) list \<Rightarrow> session \<Rightarrow> nat \<times> (jstr \<times> int) list \<times> session" where
  "open_done pub topic was heard s =
     (let c = ss_next s; s1 = subscribe topic s in
      (c, map (\<lambda>(p, t, _). (p, t)) (filter (\<lambda>(p, t, x). x = topic) heard),
       s1\<lparr>ss_convs := jm_set c \<lparr>cv_pub = pub, cv_topic = topic, cv_released = False, cv_stopped = False, cv_wasWatched = was\<rparr> (ss_convs s1),
         ss_next := Suc c, ss_roomTopics := holdTopic topic (ss_roomTopics s1), ss_openConvs := jm_set pub c (ss_openConvs s1)\<rparr>))"

definition leave_begin :: "nat \<Rightarrow> session \<Rightarrow> session" where
  "leave_begin c s =
     (case jm_get (ss_convs s) c of
        None \<Rightarrow> s
      | Some cv \<Rightarrow>
          if cv_released cv then s
          else s\<lparr>ss_convs := jm_set c (cv\<lparr>cv_released := True\<rparr>) (ss_convs s),
            ss_roomTopics := releaseTopic (cv_topic cv) (ss_roomTopics s),
            ss_openConvs := (if jm_get (ss_openConvs s) (cv_pub cv) = Some c then jm_del (cv_pub cv) (ss_openConvs s) else ss_openConvs s)\<rparr>)"

text \<open>When the goodbye is flushed the room stops, and its contact is watched again if it was.\<close>

definition leave_end :: "nat \<Rightarrow> session \<Rightarrow> session_effect list \<times> session" where
  "leave_end c s =
     (case jm_get (ss_convs s) c of
        None \<Rightarrow> ([], s)
      | Some cv \<Rightarrow>
          let s1 = unsubscribe (cv_topic cv) (s\<lparr>ss_convs := jm_set c (cv\<lparr>cv_stopped := True\<rparr>) (ss_convs s)\<rparr>) in
          (if cv_wasWatched cv \<and> \<not> ss_closed s1 then startWatch (cv_pub cv) s1 else [], s1))"

subsection \<open>The end of the session\<close>

fun stop_all :: "session_env \<Rightarrow> int \<Rightarrow> jstr list \<Rightarrow> session \<Rightarrow> session_effect list \<times> session" where
  "stop_all E now [] s = ([], s)"
| "stop_all E now (p # ps) s =
     (case stop_watch E now True p s of (e1, s1) \<Rightarrow> (case stop_all E now ps s1 of (e2, s2) \<Rightarrow> (e1 @ e2, s2)))"

definition shutdown :: "session_env \<Rightarrow> int \<Rightarrow> session \<Rightarrow> session_effect list \<times> session" where
  "shutdown E now s =
     (if ss_closed s then ([], s)
      else case stop_all E now (jm_keys (ss_presence s)) (s\<lparr>ss_closed := True\<rparr>) of
        (es, s1) \<Rightarrow> (es, s1\<lparr>ss_presence := [], ss_upgradeDate := []\<rparr>))"

text \<open>A moment later the rooms that are still registered stop.\<close>

fun stop_rooms :: "(nat \<times> conv) list \<Rightarrow> session \<Rightarrow> session" where
  "stop_rooms [] s = s"
| "stop_rooms ((c, cv) # cs) s = stop_rooms cs (if cv_released cv then s
     else unsubscribe (cv_topic cv) (s\<lparr>ss_convs := jm_set c (cv\<lparr>cv_stopped := True\<rparr>) (ss_convs s)\<rparr>))"

definition rooms_stopped :: "session \<Rightarrow> session" where
  "rooms_stopped s = (if ss_closed s then stop_rooms (ss_convs s) s else s)"

subsection \<open>One step\<close>

datatype session_event =
    StartReady int int jstr "nat option"
  | WatchTick int nat
  | WatchDerived int nat "(jstr \<times> bytes) option"
  | WatchMessage int nat jstr bytes "jstr option"
  | WatchSweep int nat jstr
  | Unwatch int jstr
  | DayAnswer jstr jstr "(jstr \<times> bytes) option"
  | OpenBegin jstr
  | OpenHandoff int int jstr "(jstr \<times> int) option" "nat option"
  | OpenDone jstr jstr bool "(jstr \<times> int \<times> jstr) list"
  | Realigned jstr nat jstr
  | LeaveBegin nat
  | LeaveEnd nat
  | Shutdown int
  | RoomsStopped

fun session_step :: "session_env \<Rightarrow> session_event \<Rightarrow> session \<Rightarrow> session_effect list \<times> session" where
  "session_step E (StartReady clk now pub ans) s = watch_started E clk now pub ans s"
| "session_step E (WatchTick now w) s = on_watch E (\<lambda>cfg. rt_tick cfg now) now w s"
| "session_step E (WatchDerived now w ans) s = on_watch E (\<lambda>cfg. rt_derived cfg now ans) now w s"
| "session_step E (WatchMessage now w d raw sender) s =
     on_watch E (\<lambda>cfg. rt_watch (watch_handler (rp_watch cfg) now raw sender) d) now w s"
| "session_step E (WatchSweep now w d) s = on_watch E (\<lambda>cfg. rt_watch (watch_sweep (rp_watch cfg) now) d) now w s"
| "session_step E (Unwatch now pub) s = stopWatch E now pub s"
| "session_step E (DayAnswer pub day ans) s = ([], day_answer pub day ans s)"
| "session_step E (OpenBegin pub) s = ([], snd (open_begin pub s))"
| "session_step E (OpenHandoff clk now pub pending ans) s = snd (open_handoff E clk now pub pending ans s)"
| "session_step E (OpenDone pub topic was heard) s = ([], snd (snd (open_done pub topic was heard s)))"
| "session_step E (Realigned pub c topic) s = ([], realigned pub c topic s)"
| "session_step E (LeaveBegin c) s = ([], leave_begin c s)"
| "session_step E (LeaveEnd c) s = leave_end c s"
| "session_step E (Shutdown now) s = shutdown E now s"
| "session_step E RoomsStopped s = ([], rooms_stopped s)"

definition session_do :: "session_env \<Rightarrow> session \<Rightarrow> session_event \<Rightarrow> session" where
  "session_do E s e = snd (session_step E e s)"

end
