(* ===== verification/SessionFacts.thy ===== *)
theory SessionFacts
  imports Session
begin

section \<open>A room keeps its topic\<close>

text \<open>
  The books of a session: the count of a topic is the number of conversations on it that were not
  left, and the map of open conversations names such ones. So a watch, which asks the count, never
  takes a room's topic away, and a conversation stays subscribed as long as no two share a topic.
  The other way round nothing protects a watch: a room that is left unsubscribes its topic.
\<close>

subsection \<open>Counting\<close>

definition on_topic :: "jstr \<Rightarrow> (nat, conv) jmap \<Rightarrow> nat" where
  "on_topic t m = length (filter (\<lambda>x. \<not> cv_released (snd x) \<and> cv_topic (snd x) = t) m)"

definition counts :: "jstr \<Rightarrow> conv \<Rightarrow> nat" where
  "counts t cv = (if \<not> cv_released cv \<and> cv_topic cv = t then 1 else 0)"

lemma on_topic_new: "jm_get m c = None \<Longrightarrow> on_topic t (jm_set c cv m) = on_topic t m + counts t cv"
  by (induction m) (auto simp: on_topic_def counts_def)

lemma on_topic_set: "jm_inv m \<Longrightarrow> jm_get m c = Some cv \<Longrightarrow> on_topic t (jm_set c cv' m) + counts t cv = on_topic t m + counts t cv'"
proof (induction m)
  case (Cons x m)
  obtain k v where x: "x = (k, v)" by (cases x)
  show ?case
  proof (cases "k = c")
    case True
    then show ?thesis using Cons.prems x by (simp add: on_topic_def counts_def)
  next
    case False
    then have "on_topic t (jm_set c cv' m) + counts t cv = on_topic t m + counts t cv'"
      using Cons x by (simp add: jm_inv_def)
    then show ?thesis using False x by (simp add: on_topic_def)
  qed
qed simp

lemma on_topic_pos: "jm_get m c = Some cv \<Longrightarrow> \<not> cv_released cv \<Longrightarrow> 0 < on_topic (cv_topic cv) m"
  by (force dest: jm_get_Some_mem simp: on_topic_def filter_empty_conv)

lemma held_count_hold: "held_count t (holdTopic u m) = (if t = u then held_count u m + 1 else held_count t m)"
  by (simp add: held_count_def holdTopic_def jm_get_set)

lemma held_count_release: "held_count t (releaseTopic u m) = (if t = u then held_count u m - 1 else held_count t m)"
  by (auto simp: held_count_def releaseTopic_def Let_def jm_get_set jm_get_del)

definition positive :: "(jstr, nat) jmap \<Rightarrow> bool" where
  "positive m \<longleftrightarrow> (\<forall>t. jm_get m t \<noteq> Some 0)"

lemma positive_hold [simp]: "positive m \<Longrightarrow> positive (holdTopic u m)"
  by (simp add: positive_def holdTopic_def jm_get_set)

lemma positive_release [simp]: "positive m \<Longrightarrow> positive (releaseTopic u m)"
  by (auto simp: positive_def releaseTopic_def Let_def jm_get_set jm_get_del)

lemma has_iff_held: "positive m \<Longrightarrow> jm_has m t \<longleftrightarrow> 0 < held_count t m"
  by (auto simp: positive_def held_count_def jm_has_def split: option.splits intro!: gr0I)

subsection \<open>The books\<close>

definition session_ok :: "session \<Rightarrow> bool" where
  "session_ok s \<longleftrightarrow> jm_inv (ss_convs s) \<and> (\<forall>c\<in>set (jm_keys (ss_convs s)). c < ss_next s) \<and> positive (ss_roomTopics s)
     \<and> (\<forall>t. held_count t (ss_roomTopics s) = on_topic t (ss_convs s))
     \<and> (\<forall>p c. jm_get (ss_openConvs s) p = Some c \<longrightarrow> (\<exists>cv. jm_get (ss_convs s) c = Some cv \<and> \<not> cv_released cv \<and> cv_pub cv = p))"

text \<open>What the watches of a session leave alone.\<close>

definition same_rooms :: "session \<Rightarrow> session \<Rightarrow> bool" where
  "same_rooms s s' \<longleftrightarrow> ss_convs s' = ss_convs s \<and> ss_openConvs s' = ss_openConvs s \<and> ss_roomTopics s' = ss_roomTopics s
     \<and> ss_next s \<le> ss_next s'"

lemma same_rooms_refl [simp]: "same_rooms s s"
  by (simp add: same_rooms_def)

lemma same_rooms_trans: "same_rooms s s1 \<Longrightarrow> same_rooms s1 s2 \<Longrightarrow> same_rooms s s2"
  by (simp add: same_rooms_def)

lemma same_rooms_ok: "same_rooms s s' \<Longrightarrow> session_ok s \<Longrightarrow> session_ok s'"
  by (force simp: same_rooms_def session_ok_def)

lemma same_rooms_plain [simp]:
  "same_rooms s (subscribe t s)" "same_rooms s (unsubscribe t s)" "same_rooms s (snd (pairDay pub d s))"
  "same_rooms s (day_answer pub d ans s)" "same_rooms s (snd (offsetSecFor E pub off s))" "same_rooms s (snd (open_begin pub s))"
  by (simp_all add: same_rooms_def subscribe_def unsubscribe_def pairDay_def Let_def day_answer_def offsetSecFor_def open_begin_def
      split: option.split)

lemma same_rooms_effect: "same_rooms s (snd (watch_effect clk pub e s))"
proof (cases e)
  case (RWatch w)
  then show ?thesis by (cases w) (simp_all add: watch_effect_def)
next
  case (RHandshake f g d)
  then show ?thesis by (simp add: watch_effect_def same_rooms_def)
qed (simp_all add: watch_effect_def)

lemma same_rooms_effects: "same_rooms s (snd (watch_effects clk pub es s))"
proof (induction es arbitrary: s)
  case (Cons e es)
  from same_rooms_trans [OF same_rooms_effect Cons.IH] show ?case by (simp add: case_prod_beta)
qed simp

lemma same_rooms_on_watch: "same_rooms s (snd (on_watch E f clk w s))"
proof (cases "jm_get (ss_watches s) w")
  case (Some lw)
  have "same_rooms s (s\<lparr>ss_watches := m\<rparr>)" for m by (simp add: same_rooms_def)
  from same_rooms_trans [OF this same_rooms_effects] Some show ?thesis by (simp add: on_watch_def case_prod_beta)
qed (simp add: on_watch_def)

lemma same_rooms_stop: "same_rooms s (snd (stop_watch E now u pub s))"
  using same_rooms_on_watch [of s E "\<lambda>cfg. rt_stop cfg now u" now "the (jm_get (ss_presence s) pub)"]
  by (auto simp: stop_watch_def case_prod_beta same_rooms_def split: option.split)

lemma stopWatch_ok: "session_ok s \<Longrightarrow> session_ok (snd (stopWatch E now pub s))"
  using same_rooms_ok [OF same_rooms_stop, of s E now True pub] by (simp add: stopWatch_def case_prod_beta session_ok_def)

lemma same_rooms_started: "same_rooms s (snd (watch_started E clk now pub ans s))"
proof (cases "fst (offsetSecFor E pub ans s)")
  case (Some off)
  let ?s = "snd (offsetSecFor E pub ans s)"
  have "same_rooms ?s (?s\<lparr>ss_watches := a, ss_presence := b, ss_next := Suc (ss_next ?s)\<rparr>)" for a b by (simp add: same_rooms_def)
  from same_rooms_trans [OF same_rooms_trans [OF same_rooms_plain(5) this] same_rooms_effects]
  show ?thesis using Some by (cases "offsetSecFor E pub ans s") (simp add: watch_started_def case_prod_beta)
next
  case None
  then show ?thesis using same_rooms_plain(5) [of s E pub ans]
    by (cases "offsetSecFor E pub ans s") (simp add: watch_started_def)
qed

lemma same_rooms_handoff: "same_rooms s (snd (snd (open_handoff E clk now pub pending ans s)))"
proof (cases "offsetSecFor E pub ans s")
  case (Pair off s1)
  have s1: "same_rooms s s1" using same_rooms_plain(5) [of s E pub ans] Pair by simp
  have s2: "same_rooms s (snd (stop_watch E now u pub s1))" for u by (rule same_rooms_trans [OF s1 same_rooms_stop])
  have "same_rooms s (snd (pairDay pub d (snd (stop_watch E now u pub s1))))" for d u
    by (rule same_rooms_trans [OF s2 same_rooms_plain(3)])
  with s1 Pair show ?thesis by (simp add: open_handoff_def case_prod_beta Let_def split: option.split)
qed

lemma same_rooms_stop_all: "same_rooms s (snd (stop_all E now ps s))"
proof (induction ps arbitrary: s)
  case (Cons p ps)
  from same_rooms_trans [OF same_rooms_stop Cons.IH] show ?case by (simp add: case_prod_beta)
qed simp

lemma same_rooms_shutdown: "same_rooms s (snd (shutdown E now s))"
  using same_rooms_stop_all [of "s\<lparr>ss_closed := True\<rparr>" E now] by (auto simp: shutdown_def case_prod_beta same_rooms_def)

lemma open_done_ok: "session_ok s \<Longrightarrow> session_ok (snd (snd (open_done pub topic was heard s)))"
proof -
  assume s: "session_ok s"
  have n: "jm_get (ss_convs s) (ss_next s) = None" using s by (force simp: session_ok_def jm_get_None_iff)
  have k: "jm_keys (jm_set (ss_next s) cv (ss_convs s)) = jm_keys (ss_convs s) @ [ss_next s]" for cv
    using n by (simp add: jm_keys_set jm_get_None_iff)
  have no: "jm_get (ss_openConvs s) p \<noteq> Some (ss_next s)" for p using s n by (force simp: session_ok_def)
  show ?thesis using s no
    by (auto simp: session_ok_def open_done_def Let_def subscribe_def k on_topic_new [OF n] counts_def held_count_hold jm_get_set n
        less_Suc_eq split: if_splits)
qed

lemma leave_begin_ok: "session_ok s \<Longrightarrow> session_ok (leave_begin c s)"
proof (cases "jm_get (ss_convs s) c")
  case (Some cv)
  assume s: "session_ok s"
  show ?thesis
  proof (cases "cv_released cv")
    case False
    have i: "jm_inv (ss_convs s)" using s by (simp add: session_ok_def)
    have o: "on_topic t (jm_set c (cv\<lparr>cv_released := True\<rparr>) (ss_convs s)) = on_topic t (ss_convs s) - counts t cv" for t
      using on_topic_set [OF i Some, of t "cv\<lparr>cv_released := True\<rparr>"] by (simp add: counts_def)
    have k: "set (jm_keys (jm_set c cv' (ss_convs s))) = set (jm_keys (ss_convs s))" for cv'
      using Some jm_get_Some_key [OF Some] by (simp add: jm_keys_set)
    have p: "\<exists>cv'. jm_get (jm_set c (cv\<lparr>cv_released := True\<rparr>) (ss_convs s)) c' = Some cv' \<and> \<not> cv_released cv' \<and> cv_pub cv' = p"
      if "jm_get (if jm_get (ss_openConvs s) (cv_pub cv) = Some c then jm_del (cv_pub cv) (ss_openConvs s) else ss_openConvs s) p = Some c'" for p c'
    proof -
      have g: "jm_get (ss_openConvs s) p = Some c'" "c' \<noteq> c"
        using that s Some by (auto simp: jm_get_del session_ok_def split: if_splits) force+
      then show ?thesis using s by (auto simp: session_ok_def jm_get_set)
    qed
    show ?thesis using s Some False p
      by (auto simp: leave_begin_def session_ok_def o k held_count_release counts_def)
  qed (use s Some in \<open>simp add: leave_begin_def\<close>)
qed (simp add: leave_begin_def)

lemma stopped_ok:
  assumes "session_ok s" "jm_get (ss_convs s) c = Some cv"
  shows "session_ok (s\<lparr>ss_convs := jm_set c (cv\<lparr>cv_stopped := True\<rparr>) (ss_convs s)\<rparr>)"
proof -
  have i: "jm_inv (ss_convs s)" using assms by (simp add: session_ok_def)
  have o: "on_topic t (jm_set c (cv\<lparr>cv_stopped := True\<rparr>) (ss_convs s)) = on_topic t (ss_convs s)" for t
    using on_topic_set [OF i assms(2), of t "cv\<lparr>cv_stopped := True\<rparr>"] by (simp add: counts_def)
  have k: "set (jm_keys (jm_set c cv' (ss_convs s))) = set (jm_keys (ss_convs s))" for cv'
    using jm_get_Some_key [OF assms(2)] by (simp add: jm_keys_set)
  show ?thesis using assms by (force simp: session_ok_def o k jm_get_set)
qed

lemma realigned_ok: "session_ok s \<Longrightarrow> session_ok (realigned pub c topic s)"
proof (cases "jm_get (ss_convs s) c")
  case (Some cv)
  assume s: "session_ok s"
  show ?thesis
  proof (cases "topic = cv_topic cv \<or> jm_get (ss_openConvs s) pub \<noteq> Some c \<or> topic = []")
    case False
    have i: "jm_inv (ss_convs s)" using s by (simp add: session_ok_def)
    have r: "\<not> cv_released cv" using s False Some by (force simp: session_ok_def)
    have o: "on_topic t (jm_set c (cv\<lparr>cv_topic := topic\<rparr>) (ss_convs s)) + counts t cv
        = on_topic t (ss_convs s) + counts t (cv\<lparr>cv_topic := topic\<rparr>)" for t
      using on_topic_set [OF i Some] .
    have k: "set (jm_keys (jm_set c cv' (ss_convs s))) = set (jm_keys (ss_convs s))" for cv'
      using jm_get_Some_key [OF Some] by (simp add: jm_keys_set)
    have pos: "0 < on_topic (cv_topic cv) (ss_convs s)" using on_topic_pos [OF Some r] .
    have h: "held_count t (holdTopic topic (releaseTopic (cv_topic cv) (ss_roomTopics s)))
        = on_topic t (jm_set c (cv\<lparr>cv_topic := topic\<rparr>) (ss_convs s))" for t
      using o [of t] pos s False r by (auto simp: held_count_hold held_count_release session_ok_def counts_def)
    have q: "\<exists>cv'. jm_get (jm_set c (cv\<lparr>cv_topic := topic\<rparr>) (ss_convs s)) c' = Some cv' \<and> \<not> cv_released cv' \<and> cv_pub cv' = p"
      if "jm_get (ss_openConvs s) p = Some c'" for p c'
      using that s Some by (force simp: session_ok_def jm_get_set)
    show ?thesis using s Some False q
      by (auto simp: realigned_def Let_def subscribe_def unsubscribe_def session_ok_def k h)
  qed (use s Some in \<open>auto simp: realigned_def\<close>)
qed (simp add: realigned_def)

lemma leave_end_ok: "session_ok s \<Longrightarrow> session_ok (snd (leave_end c s))"
  using same_rooms_ok [OF same_rooms_plain(2) stopped_ok]
  by (auto simp: leave_end_def Let_def split: option.split)

lemma stop_rooms_step:
  assumes "\<forall>x\<in>set ((c, cv) # cs). jm_get (ss_convs s) (fst x) = Some (snd x)" "jm_inv ((c, cv) # cs)"
  shows "\<forall>x\<in>set cs. jm_get (ss_convs (unsubscribe t (s\<lparr>ss_convs := jm_set c cv' (ss_convs s)\<rparr>))) (fst x) = Some (snd x)"
  using assms by (auto simp: unsubscribe_def jm_get_set jm_inv_def image_iff)

lemma stop_rooms_ok:
  "session_ok s \<Longrightarrow> \<forall>x\<in>set cs. jm_get (ss_convs s) (fst x) = Some (snd x) \<Longrightarrow> jm_inv cs \<Longrightarrow> session_ok (stop_rooms cs s)"
proof (induction cs s rule: stop_rooms.induct)
  case (2 c cv cs s)
  let ?s = "if cv_released cv then s else unsubscribe (cv_topic cv) (s\<lparr>ss_convs := jm_set c (cv\<lparr>cv_stopped := True\<rparr>) (ss_convs s)\<rparr>)"
  have "jm_get (ss_convs s) c = Some cv" using "2.prems"(2) by simp
  then have "session_ok ?s" using same_rooms_ok [OF same_rooms_plain(2) stopped_ok [OF "2.prems"(1)]] "2.prems"(1) by simp
  moreover have "\<forall>x\<in>set cs. jm_get (ss_convs ?s) (fst x) = Some (snd x)"
    using stop_rooms_step [OF "2.prems"(2,3)] "2.prems"(2) by simp
  ultimately have "session_ok (stop_rooms cs ?s)" using "2.IH" jm_inv_tl [OF "2.prems"(3)] by blast
  then show ?case by simp
qed simp

lemma rooms_stopped_ok: "session_ok s \<Longrightarrow> session_ok (rooms_stopped s)"
  using stop_rooms_ok [of s "ss_convs s"] jm_get_iff_mem [of "ss_convs s"]
  by (auto simp: rooms_stopped_def session_ok_def)

lemma session_step_ok: "session_ok s \<Longrightarrow> session_ok (session_do E s e)"
  by (cases e) (simp_all add: session_do_def open_done_ok leave_begin_ok leave_end_ok realigned_ok rooms_stopped_ok
      same_rooms_ok [OF same_rooms_on_watch] same_rooms_ok [OF same_rooms_started] same_rooms_ok [OF same_rooms_handoff]
      same_rooms_ok [OF same_rooms_shutdown] same_rooms_ok [OF same_rooms_plain(4)] same_rooms_ok [OF same_rooms_plain(6)] stopWatch_ok)

interpretation sess: machine "session_do E" session_ok
  by unfold_locales (rule session_step_ok)

lemma new_session_ok: "session_ok new_session"
  by (simp add: session_ok_def new_session_def held_count_def on_topic_def positive_def jm_keys_def)

subsection \<open>What a watch unsubscribes\<close>

lemma recompute_unsub [simp]: "RWatch w \<notin> set (fst (recompute r))"
  by (simp add: recompute_def Let_def)

lemma stop_slot_unsub: "RWatch (WUnsubscribe t) \<in> set (stop_slot keep u sl) \<Longrightarrow> \<not> keep t"
  by (auto simp: stop_slot_def watch_stop_def split: option.splits if_splits)

definition spares :: "rt_cfg \<Rightarrow> rt_effect list \<Rightarrow> bool" where
  "spares cfg es \<longleftrightarrow> (\<forall>t. RWatch (WUnsubscribe t) \<in> set es \<longrightarrow> \<not> rp_keep cfg t)"

lemma spares_simps [simp]:
  "spares cfg []" "spares cfg (es @ es') \<longleftrightarrow> spares cfg es \<and> spares cfg es'"
  "spares cfg (e # es) \<longleftrightarrow> (\<forall>t. e = RWatch (WUnsubscribe t) \<longrightarrow> \<not> rp_keep cfg t) \<and> spares cfg es"
  by (auto simp: spares_def)

lemma spares_prune: "spares cfg (fst (rt_prune cfg want r))"
  by (auto simp: rt_prune_def Let_def case_prod_beta spares_def dest: stop_slot_unsub)

lemma spares_days: "spares cfg (fst (rt_days cfg want ds r))"
  by (induction ds arbitrary: r) (auto simp: spares_prune)

lemma spares_sync: "spares cfg (fst (rt_sync cfg now r))"
  by (simp add: rt_sync_def spares_days split: option.split)

lemma spares_next: "spares cfg es \<Longrightarrow> spares cfg (fst (rt_next cfg now n (es, r)))"
proof (induction n arbitrary: es r)
  case (Suc n)
  then show ?case using spares_sync [of cfg now r] by (simp add: case_prod_beta)
qed simp

lemma spares_tick: "spares cfg (fst (rt_tick cfg now r))"
  using spares_next [OF spares_sync [of cfg now r], of now "rt_queued r" "snd (rt_sync cfg now r)"] by (simp add: rt_tick_def)

lemma spares_derived: "spares cfg (fst (rt_derived cfg now ans r))"
proof (cases "rt_wait r")
  case (Some w)
  show ?thesis
  proof (cases ans)
    case None
    then show ?thesis using Some spares_next [of cfg "[]"] by (simp add: rt_derived_def Let_def)
  next
    case (Some a)
    obtain t k where a: "a = (t, k)" by (cases a)
    show ?thesis
    proof (cases "rt_stopped r")
      case True
      then show ?thesis using Some a \<open>rt_wait r = Some w\<close> spares_next [of cfg "[]"] by (simp add: rt_derived_def Let_def)
    next
      case False
      show ?thesis using Some a \<open>rt_wait r = Some w\<close> False
        by (simp add: rt_derived_def Let_def case_prod_beta spares_next spares_days)
    qed
  qed
qed (simp add: rt_derived_def)

lemma spares_carry: "(\<And>t. WUnsubscribe t \<notin> set es) \<Longrightarrow> spares cfg (fst (rt_carry d es r))"
proof (induction es arbitrary: r)
  case (Cons e es)
  have "spares cfg (fst (rt_up d e r))"
  proof (cases e)
    case (WUnsubscribe t)
    then show ?thesis using Cons.prems [of t] by simp
  qed (auto simp: rt_up_def spares_def)
  moreover have "spares cfg (fst (rt_carry d es (snd (rt_up d e r))))"
    by (rule Cons.IH) (use Cons.prems in auto)
  ultimately show ?case by (simp add: case_prod_beta)
qed simp

lemma spares_watch: "(\<And>w t. WUnsubscribe t \<notin> set (fst (f w))) \<Longrightarrow> spares cfg (fst (rt_watch f d r))"
  by (auto simp: rt_watch_def case_prod_beta split: option.split intro!: spares_carry)

lemma no_unsub [simp]:
  "WUnsubscribe t \<notin> set (fst (watch_handler c now raw sender w))" "WUnsubscribe t \<notin> set (fst (watch_sweep c now w))"
  by (auto simp: watch_handler_def watch_hear_def watch_sweep_def Let_def split: option.split sum.split)

lemma spares_stop: "spares cfg (fst (rt_stop cfg now u r))"
  by (auto simp: rt_stop_def Let_def spares_def dest: stop_slot_unsub)

lemmas spares_all = spares_tick spares_derived spares_watch [OF no_unsub(1)] spares_watch [OF no_unsub(2)] spares_stop

text \<open>So no step of a watch takes away a topic that a room holds.\<close>

lemma effects_keep:
  assumes "t \<in> set (ss_subs s)" "RWatch (WUnsubscribe t) \<notin> set es"
  shows "t \<in> set (ss_subs (snd (watch_effects clk pub es s)))"
  using assms
proof (induction es arbitrary: s)
  case (Cons e es)
  have "t \<in> set (ss_subs (snd (watch_effect clk pub e s)))"
  proof (cases e)
    case (RWatch w)
    then show ?thesis using Cons.prems by (cases w) (auto simp: watch_effect_def unsubscribe_def)
  next
    case (RDerive d)
    then show ?thesis using Cons.prems(1) by (simp add: watch_effect_def pairDay_def Let_def)
  next
    case (RSubscribe u)
    then show ?thesis using Cons.prems(1) by (simp add: watch_effect_def subscribe_def set_add_def)
  qed (use Cons.prems(1) in \<open>simp_all add: watch_effect_def\<close>)
  from Cons.IH [OF this] Cons.prems(2) show ?case by (simp add: case_prod_beta)
qed simp

lemma on_watch_keeps:
  assumes "\<And>cfg r. spares cfg (fst (f cfg r))" "keep_topic s t" "t \<in> set (ss_subs s)"
  shows "t \<in> set (ss_subs (snd (on_watch E f clk w s)))"
proof (cases "jm_get (ss_watches s) w")
  case (Some lw)
  have "RWatch (WUnsubscribe t) \<notin> set (fst (f (rt_cfg_of E (lw_offsetMs lw) s) (lw_rot lw)))"
    using assms(1) [of "rt_cfg_of E (lw_offsetMs lw) s" "lw_rot lw"] assms(2) by (auto simp: spares_def rt_cfg_of_def)
  then show ?thesis using Some assms(3) by (simp add: on_watch_def case_prod_beta effects_keep)
qed (use assms in \<open>simp add: on_watch_def\<close>)

lemma keep_same_rooms: "same_rooms s s' \<Longrightarrow> keep_topic s' t \<longleftrightarrow> keep_topic s t"
  by (simp add: same_rooms_def keep_topic_def)

lemma stop_watch_keeps:
  "keep_topic s t \<Longrightarrow> t \<in> set (ss_subs s) \<Longrightarrow> t \<in> set (ss_subs (snd (stop_watch E now u pub s)))"
  using on_watch_keeps [of "\<lambda>cfg. rt_stop cfg now u" s t E now "the (jm_get (ss_presence s) pub)"] spares_stop
  by (auto simp: stop_watch_def case_prod_beta split: option.split)

lemma offset_subs: "ss_subs (snd (offsetSecFor E pub ans s)) = ss_subs s" "ss_subs (snd (pairDay pub d s)) = ss_subs s"
  by (simp_all add: offsetSecFor_def pairDay_def Let_def split: option.split)

lemma started_keeps:
  assumes "keep_topic s t" "t \<in> set (ss_subs s)"
  shows "t \<in> set (ss_subs (snd (watch_started E clk now pub ans s)))"
proof (cases "offsetSecFor E pub ans s")
  case (Pair off s1)
  have s1: "keep_topic s1 t" "t \<in> set (ss_subs s1)"
    using assms Pair keep_same_rooms [OF same_rooms_plain(5), of E pub ans s t] offset_subs(1) [of E pub ans s] by simp_all
  show ?thesis
  proof (cases off)
    case (Some o')
    have "RWatch (WUnsubscribe t) \<notin> set (fst (rt_tick (rt_cfg_of E (int o' * 1000) s1) now no_watches))"
      using spares_tick [of "rt_cfg_of E (int o' * 1000) s1" now no_watches] s1(1) by (auto simp: spares_def rt_cfg_of_def)
    then show ?thesis using Pair Some s1(2) by (simp add: watch_started_def case_prod_beta effects_keep)
  qed (use Pair s1 in \<open>simp add: watch_started_def\<close>)
qed

lemma handoff_keeps:
  assumes "keep_topic s t" "t \<in> set (ss_subs s)"
  shows "t \<in> set (ss_subs (snd (snd (open_handoff E clk now pub pending ans s))))"
proof (cases "offsetSecFor E pub ans s")
  case (Pair off s1)
  have s1: "keep_topic s1 t" "t \<in> set (ss_subs s1)"
    using assms Pair keep_same_rooms [OF same_rooms_plain(5), of E pub ans s t] offset_subs(1) [of E pub ans s] by simp_all
  then show ?thesis using Pair stop_watch_keeps [OF s1]
    by (simp add: open_handoff_def Let_def case_prod_beta offset_subs(2) split: option.split)
qed

lemma stop_all_keeps:
  "keep_topic s t \<Longrightarrow> t \<in> set (ss_subs s) \<Longrightarrow> t \<in> set (ss_subs (snd (stop_all E now ps s)))"
proof (induction ps arbitrary: s)
  case (Cons p ps)
  let ?s = "snd (stop_watch E now True p s)"
  have "keep_topic ?s t" using keep_same_rooms [OF same_rooms_stop] Cons.prems(1) by blast
  with Cons.IH [of ?s] stop_watch_keeps [OF Cons.prems] show ?case by (simp add: case_prod_beta)
qed simp

lemma shutdown_keeps:
  "keep_topic s t \<Longrightarrow> t \<in> set (ss_subs s) \<Longrightarrow> t \<in> set (ss_subs (snd (shutdown E now s)))"
  using stop_all_keeps [of "s\<lparr>ss_closed := True\<rparr>" t E now "jm_keys (ss_presence s)"]
  by (simp add: shutdown_def case_prod_beta keep_topic_def)

text \<open>The events of rooms; all others are of watches, of keys, or the first half of a step of a room.\<close>

definition room_event :: "session_event \<Rightarrow> bool" where
  "room_event e = (case e of Realigned _ _ _ \<Rightarrow> True | LeaveEnd _ \<Rightarrow> True | RoomsStopped \<Rightarrow> True | _ \<Rightarrow> False)"

lemma held_topic:
  assumes "session_ok s" "jm_get (ss_convs s) c = Some cv" "\<not> cv_released cv"
  shows "keep_topic s (cv_topic cv)"
proof -
  have "0 < held_count (cv_topic cv) (ss_roomTopics s)"
    using on_topic_pos [OF assms(2,3)] assms(1) by (simp add: session_ok_def)
  then show ?thesis using assms(1) has_iff_held [of "ss_roomTopics s"] by (simp add: session_ok_def keep_topic_def)
qed

lemma other_keeps:
  assumes "keep_topic s t" "t \<in> set (ss_subs s)" "\<not> room_event e"
  shows "t \<in> set (ss_subs (session_do E s e))"
  using assms
  by (cases e) (simp_all add: session_do_def room_event_def on_watch_keeps spares_all started_keeps handoff_keeps shutdown_keeps
      stop_watch_keeps stopWatch_def case_prod_beta day_answer_def open_begin_def open_done_def Let_def subscribe_def set_add_def
      leave_begin_def split: option.split)

subsection \<open>Runs in which no topic is shared\<close>

definition alive :: "conv \<Rightarrow> bool" where
  "alive cv \<longleftrightarrow> \<not> cv_released cv \<and> \<not> cv_stopped cv"

text \<open>No two conversations that still run are on one topic.\<close>

definition apart :: "session \<Rightarrow> bool" where
  "apart s \<longleftrightarrow> (\<forall>c c' cv cv'. c \<noteq> c' \<and> jm_get (ss_convs s) c = Some cv \<and> jm_get (ss_convs s) c' = Some cv'
     \<and> \<not> cv_stopped cv \<and> \<not> cv_stopped cv' \<longrightarrow> cv_topic cv \<noteq> cv_topic cv')"

text \<open>Nobody leaves or moves a conversation that has stopped.\<close>

definition stopped_conv :: "session \<Rightarrow> nat \<Rightarrow> bool" where
  "stopped_conv s c = (case jm_get (ss_convs s) c of None \<Rightarrow> False | Some cv \<Rightarrow> cv_stopped cv)"

definition in_time :: "session \<Rightarrow> session_event \<Rightarrow> bool" where
  "in_time s e = (case e of LeaveEnd c \<Rightarrow> \<not> stopped_conv s c | Realigned _ c _ \<Rightarrow> \<not> stopped_conv s c | _ \<Rightarrow> True)"

fun apart_run :: "session_env \<Rightarrow> session \<Rightarrow> session_event list \<Rightarrow> bool" where
  "apart_run E s [] \<longleftrightarrow> apart s"
| "apart_run E s (e # es) \<longleftrightarrow> apart s \<and> in_time s e \<and> apart_run E (session_do E s e) es"

definition heard :: "session \<Rightarrow> bool" where
  "heard s \<longleftrightarrow> (\<forall>c cv. jm_get (ss_convs s) c = Some cv \<and> alive cv \<longrightarrow> cv_topic cv \<in> set (ss_subs s))"

lemma stop_rooms_released:
  "jm_get (ss_convs (stop_rooms cs s)) c = Some cv \<Longrightarrow> \<forall>x\<in>set cs. jm_get (ss_convs s) (fst x) = Some (snd x) \<Longrightarrow> jm_inv cs
    \<Longrightarrow> (c \<in> set (jm_keys cs) \<longrightarrow> \<not> alive cv) \<and> (c \<notin> set (jm_keys cs) \<longrightarrow> jm_get (ss_convs s) c = Some cv)"
proof (induction cs s rule: stop_rooms.induct)
  case (2 d dv cs s)
  let ?s = "if cv_released dv then s else unsubscribe (cv_topic dv) (s\<lparr>ss_convs := jm_set d (dv\<lparr>cv_stopped := True\<rparr>) (ss_convs s)\<rparr>)"
  have g: "\<forall>x\<in>set cs. jm_get (ss_convs ?s) (fst x) = Some (snd x)"
    using stop_rooms_step [OF "2.prems"(2,3)] "2.prems"(2) by simp
  have nd: "d \<notin> set (jm_keys cs)" using "2.prems"(3) by (simp add: jm_inv_keys jm_keys_def)
  note IH = "2.IH" [OF _ g jm_inv_tl [OF "2.prems"(3)]]
  have c: "jm_get (ss_convs (stop_rooms cs ?s)) c = Some cv" using "2.prems"(1) by simp
  show ?case
  proof (cases "c = d")
    case True
    then have "jm_get (ss_convs ?s) d = Some cv" using IH c nd by blast
    moreover have "jm_get (ss_convs s) d = Some dv" using "2.prems"(2) by simp
    ultimately have "\<not> alive cv" by (auto simp: alive_def unsubscribe_def split: if_splits)
    then show ?thesis using True by (simp add: jm_keys_def)
  next
    case False
    then have "jm_get (ss_convs ?s) c = jm_get (ss_convs s) c" by (simp add: unsubscribe_def)
    then show ?thesis using IH c False by (auto simp: jm_keys_def)
  qed
qed (simp add: jm_keys_def)

lemma step_heard:
  assumes "session_ok s" "heard s" "apart s" "in_time s e"
  shows "heard (session_do E s e)"
proof (cases "room_event e")
  case False
  have same: "\<exists>cv'. jm_get (ss_convs s) c = Some cv' \<and> alive cv' \<and> cv_topic cv' = cv_topic cv"
    if "jm_get (ss_convs (session_do E s e)) c = Some cv" "alive cv" "\<And>p t w h. e \<noteq> OpenDone p t w h" for c cv
  proof (cases "\<exists>d. e = LeaveBegin d")
    case True
    then obtain d where "e = LeaveBegin d" by blast
    then show ?thesis using that
      by (cases "jm_get (ss_convs s) d") (auto simp: session_do_def leave_begin_def jm_get_set alive_def split: if_splits)
  next
    case f: False
    have "same_rooms s (session_do E s e)"
    proof (cases e)
      case (OpenDone p t w h)
      then show ?thesis using that(3) [of p t w h] by simp
    next
      case (Unwatch now p)
      then show ?thesis using same_rooms_stop [of s E now True p] by (simp add: session_do_def stopWatch_def case_prod_beta same_rooms_def)
    qed (use f False in \<open>simp_all add: session_do_def room_event_def same_rooms_on_watch same_rooms_started same_rooms_handoff same_rooms_shutdown\<close>)
    then show ?thesis using that by (simp add: same_rooms_def)
  qed
  show ?thesis
  proof (cases "\<exists>p t w h. e = OpenDone p t w h")
    case True
    then obtain p t w h where e: "e = OpenDone p t w h" by blast
    have sub: "set (ss_subs (session_do E s e)) = insert t (set (ss_subs s))"
      by (auto simp: session_do_def e open_done_def Let_def subscribe_def set_add_def)
    show ?thesis unfolding heard_def sub using assms(2)
      by (auto simp: session_do_def e open_done_def Let_def subscribe_def jm_get_set heard_def split: if_splits)
  next
    case no: False
    show ?thesis unfolding heard_def
    proof (intro allI impI)
      fix c cv
      assume c: "jm_get (ss_convs (session_do E s e)) c = Some cv \<and> alive cv"
      then obtain cv' where cv': "jm_get (ss_convs s) c = Some cv'" "alive cv'" "cv_topic cv' = cv_topic cv" using same [of c cv] no by blast
      have "keep_topic s (cv_topic cv)" using held_topic [OF assms(1) cv'(1)] cv'(2,3) by (simp add: alive_def)
      moreover have "cv_topic cv' \<in> set (ss_subs s)" using assms(2) cv'(1,2) unfolding heard_def by blast
      then have "cv_topic cv \<in> set (ss_subs s)" by (simp only: cv'(3))
      ultimately show "cv_topic cv \<in> set (ss_subs (session_do E s e))" using other_keeps False by blast
    qed
  qed
next
  case True
  then consider (r) p c t where "e = Realigned p c t" | (l) c where "e = LeaveEnd c" | (x) "e = RoomsStopped"
    by (cases e) (auto simp: room_event_def)
  then show ?thesis
  proof cases
    case r
    show ?thesis
    proof (cases "\<exists>cv. jm_get (ss_convs s) c = Some cv \<and> \<not> (t = cv_topic cv \<or> jm_get (ss_openConvs s) p \<noteq> Some c \<or> t = [])")
      case True
      then obtain cv where cv: "jm_get (ss_convs s) c = Some cv" "t \<noteq> cv_topic cv" "jm_get (ss_openConvs s) p = Some c" "t \<noteq> []" by blast
      have g: "jm_get (ss_convs (session_do E s e)) d = (if d = c then Some (cv\<lparr>cv_topic := t\<rparr>) else jm_get (ss_convs s) d)" for d
        using cv by (simp add: r session_do_def realigned_def Let_def subscribe_def unsubscribe_def jm_get_set)
      have u: "set (ss_subs (session_do E s e)) = insert t (set (ss_subs s)) - {cv_topic cv}"
        using cv by (auto simp: r session_do_def realigned_def Let_def subscribe_def unsubscribe_def set_add_def)
      show ?thesis unfolding heard_def u
      proof (intro allI impI)
        fix d dv
        assume d: "jm_get (ss_convs (session_do E s e)) d = Some dv \<and> alive dv"
        show "cv_topic dv \<in> insert t (set (ss_subs s)) - {cv_topic cv}"
        proof (cases "d = c")
          case False
          then have dv: "jm_get (ss_convs s) d = Some dv" "alive dv" using d by (auto simp: g)
          then have "cv_topic dv \<in> set (ss_subs s)" using assms(2) by (auto simp: heard_def)
          moreover have "\<not> cv_stopped cv" using assms(4) cv(1) by (simp add: r in_time_def stopped_conv_def)
          then have "cv_topic dv \<noteq> cv_topic cv" using assms(3) False dv cv(1) unfolding apart_def alive_def by blast
          ultimately show ?thesis by simp
        qed (use d cv in \<open>auto simp: g\<close>)
      qed
    qed (use r assms(2) in \<open>auto simp: session_do_def realigned_def split: option.split\<close>)
  next
    case l
    show ?thesis
    proof (cases "jm_get (ss_convs s) c")
      case (Some cv)
      have g: "jm_get (ss_convs (session_do E s e)) d = (if d = c then Some (cv\<lparr>cv_stopped := True\<rparr>) else jm_get (ss_convs s) d)" for d
        using Some by (simp add: l session_do_def leave_end_def Let_def unsubscribe_def jm_get_set)
      have u: "set (ss_subs (session_do E s e)) = set (ss_subs s) - {cv_topic cv}"
        using Some by (auto simp: l session_do_def leave_end_def Let_def unsubscribe_def)
      have st: "\<not> cv_stopped cv" using assms(4) Some by (simp add: l in_time_def stopped_conv_def)
      show ?thesis unfolding heard_def u
      proof (intro allI impI)
        fix d dv
        assume d: "jm_get (ss_convs (session_do E s e)) d = Some dv \<and> alive dv"
        then have n: "d \<noteq> c" by (auto simp: g alive_def)
        then have dv: "jm_get (ss_convs s) d = Some dv" "alive dv" using d by (auto simp: g)
        then have "cv_topic dv \<noteq> cv_topic cv" using assms(3) n st Some unfolding apart_def alive_def by blast
        then show "cv_topic dv \<in> set (ss_subs s) - {cv_topic cv}" using assms(2) dv by (auto simp: heard_def)
      qed
    qed (use l assms(2) in \<open>simp add: session_do_def leave_end_def\<close>)
  next
    case x
    show ?thesis
    proof (cases "ss_closed s")
      case True
      have i: "jm_inv (ss_convs s)" using assms(1) by (simp add: session_ok_def)
      have "\<not> alive cv" if "jm_get (ss_convs (stop_rooms (ss_convs s) s)) c = Some cv" for c cv
      proof -
        have "\<forall>y\<in>set (ss_convs s). jm_get (ss_convs s) (fst y) = Some (snd y)" using jm_get_iff_mem [OF i] by simp
        from stop_rooms_released [OF that this i] show ?thesis by (metis jm_get_Some_key)
      qed
      then show ?thesis using True by (auto simp: x session_do_def rooms_stopped_def heard_def)
    qed (use x assms(2) in \<open>simp add: session_do_def rooms_stopped_def\<close>)
  qed
qed

lemma run_heard: "session_ok s \<Longrightarrow> heard s \<Longrightarrow> apart_run E s es \<Longrightarrow> heard (run (session_do E) s es)"
proof (induction es arbitrary: s)
  case (Cons e es)
  then show ?case using step_heard [of s e E] session_step_ok [of s E e] by simp
qed simp

lemma new_session_heard: "heard new_session"
  by (simp add: heard_def new_session_def)

subsection \<open>Properties\<close>

text \<open>
  C11: an open conversation hears its topic. In any run of the session's handlers, in any order, in
  which no two running conversations are ever on one topic and none is left or moved after it has
  stopped, every conversation that was neither left nor stopped is on a topic the node is
  subscribed to. The watches of any contact come and go, rotate their days and share that topic
  meanwhile.
\<close>
theorem room_stays_heard:
  assumes "apart_run E new_session es" "run (session_do E) new_session es = s"
    and "jm_get (ss_convs s) c = Some cv" "\<not> cv_released cv" "\<not> cv_stopped cv"
  shows "cv_topic cv \<in> set (ss_subs s)"
  using run_heard [OF new_session_ok new_session_heard assms(1)] assms(2-) by (auto simp: heard_def alive_def)

theorem room_stays_heard_witness:
  "\<forall>E. [3] \<in> set (ss_subs (run (session_do E) new_session [OpenDone [1] [2] False [], Realigned [1] 0 [3]]))"
proof
  fix E
  let ?s = "run (session_do E) new_session [OpenDone [1] [2] False [], Realigned [1] 0 [3]]"
  let ?c = "\<lparr>cv_pub = [1], cv_topic = [3], cv_released = False, cv_stopped = False, cv_wasWatched = False\<rparr>"
  have a: "apart_run E new_session [OpenDone [1] [2] False [], Realigned [1] 0 [3]]"
    by (simp add: apart_def in_time_def stopped_conv_def session_do_def open_done_def realigned_def subscribe_def unsubscribe_def
        new_session_def Let_def)
  have g: "jm_get (ss_convs ?s) 0 = Some ?c"
    by (simp add: session_do_def open_done_def realigned_def subscribe_def unsubscribe_def new_session_def Let_def)
  show "[3] \<in> set (ss_subs ?s)" using room_stays_heard [OF a refl g] by simp
qed

text \<open>
  The count of a topic is true: after any run of the session's handlers the number kept for a
  topic is the number of conversations on it that were not left; a watch is told to keep the topic
  exactly when there is one, and then no step of any watch unsubscribes it.
\<close>
lemma room_topics_counted:
  "(\<forall>t. held_count t (ss_roomTopics (run (session_do E) new_session es)) = on_topic t (ss_convs (run (session_do E) new_session es)))
   \<and> (\<forall>t. keep_topic (run (session_do E) new_session es) t \<longleftrightarrow> 0 < on_topic t (ss_convs (run (session_do E) new_session es)))
   \<and> (\<forall>t e. keep_topic (run (session_do E) new_session es) t \<and> t \<in> set (ss_subs (run (session_do E) new_session es)) \<and> \<not> room_event e
        \<longrightarrow> t \<in> set (ss_subs (session_do E (run (session_do E) new_session es) e)))"
proof -
  let ?s = "run (session_do E) new_session es"
  have ok: "session_ok ?s" by (rule sess.run_inv [OF new_session_ok])
  then have h: "\<forall>t. held_count t (ss_roomTopics ?s) = on_topic t (ss_convs ?s)" by (simp add: session_ok_def)
  moreover have "\<forall>t. keep_topic ?s t \<longleftrightarrow> 0 < on_topic t (ss_convs ?s)"
    using ok h has_iff_held [of "ss_roomTopics ?s"] by (simp add: session_ok_def keep_topic_def)
  moreover have "\<forall>t e. keep_topic ?s t \<and> t \<in> set (ss_subs ?s) \<and> \<not> room_event e \<longrightarrow> t \<in> set (ss_subs (session_do E ?s e))"
    using other_keeps by blast
  ultimately show ?thesis by blast
qed

lemma room_topics_counted_example:
  "\<forall>E. held_count [2] (ss_roomTopics (run (session_do E) new_session [OpenDone [1] [2] False [], OpenDone [4] [2] True []])) = 2"
proof
  fix E
  let ?es = "[OpenDone [1] [2] False [], OpenDone [4] [2] True []]"
  have "on_topic [2] (ss_convs (run (session_do E) new_session ?es)) = 2"
    by (simp add: on_topic_def session_do_def open_done_def subscribe_def new_session_def Let_def)
  then show "held_count [2] (ss_roomTopics (run (session_do E) new_session ?es)) = 2" using room_topics_counted [of E ?es] by simp
qed

subsection \<open>A room opens where the handshake came in\<close>

lemma watch_handshakes:
  "RHandshake f p d' \<in> set (fst (rt_watch g d r)) \<Longrightarrow> d' = d"
proof -
  have up: "RHandshake f p d' \<in> set (fst (rt_up d e r)) \<Longrightarrow> d' = d" for e r
    by (cases e) (auto simp: rt_up_def recompute_def Let_def split: if_splits)
  have "RHandshake f p d' \<in> set (fst (rt_carry d es r)) \<Longrightarrow> d' = d" for es r
  proof (induction es arbitrary: r)
    case (Cons e es)
    then show ?case using up by (auto simp: case_prod_beta)
  qed simp
  then show "RHandshake f p d' \<in> set (fst (rt_watch g d r)) \<Longrightarrow> d' = d"
    by (auto simp: rt_watch_def case_prod_beta split: option.splits)
qed

lemma wants_remembers:
  assumes "SWants p \<in> set (fst (watch_effects clk pub es s))" "\<And>f g d'. RHandshake f g d' \<in> set es \<Longrightarrow> d' = d"
  shows "p = pub \<and> jm_get (ss_upgradeDate (snd (watch_effects clk pub es s))) pub = Some (d, clk)"
proof -
  have k: "jm_get (ss_upgradeDate (snd (watch_effects clk pub es s))) pub = Some (d, clk)"
    if "jm_get (ss_upgradeDate s) pub = Some (d, clk)" "\<And>f g d'. RHandshake f g d' \<in> set es \<Longrightarrow> d' = d" for es s
    using that
  proof (induction es arbitrary: s)
    case (Cons e es)
    have "jm_get (ss_upgradeDate (snd (watch_effect clk pub e s))) pub = Some (d, clk)"
    proof (cases e)
      case (RWatch w)
      then show ?thesis using Cons.prems(1) by (cases w) (simp_all add: watch_effect_def unsubscribe_def)
    next
      case (RHandshake f g d')
      then show ?thesis using Cons.prems by (auto simp: watch_effect_def)
    qed (use Cons.prems(1) in \<open>simp_all add: watch_effect_def subscribe_def pairDay_def Let_def\<close>)
    moreover have "\<And>f g d'. RHandshake f g d' \<in> set es \<Longrightarrow> d' = d" using Cons.prems(2) by (meson list.set_intros(2))
    ultimately have "jm_get (ss_upgradeDate (snd (watch_effects clk pub es (snd (watch_effect clk pub e s))))) pub = Some (d, clk)"
      by (rule Cons.IH)
    then show ?case by (simp add: case_prod_beta)
  qed simp
  show ?thesis using assms
  proof (induction es arbitrary: s)
    case (Cons e es)
    let ?s = "snd (watch_effect clk pub e s)"
    have m: "\<And>f g d'. RHandshake f g d' \<in> set es \<Longrightarrow> d' = d" using Cons.prems(2) by (meson list.set_intros(2))
    show ?case
    proof (cases "SWants p \<in> set (fst (watch_effect clk pub e s))")
      case True
      then obtain f g d' where e: "e = RHandshake f g d'" and no: "\<not> jm_has (ss_openConvs s) pub" and p: "p = pub"
        by (cases e rule: rt_effect.exhaust)
          (auto simp: watch_effect_def pairDay_def Let_def realign_def split: watch_effect.splits if_splits option.splits)
      have "d' = d" using Cons.prems(2) [of f g d'] e by simp
      then have "jm_get (ss_upgradeDate ?s) pub = Some (d, clk)" using e no by (simp add: watch_effect_def)
      from k [OF this m] show ?thesis using p by (simp add: case_prod_beta)
    next
      case False
      then have "SWants p \<in> set (fst (watch_effects clk pub es ?s))" using Cons.prems(1) by (simp add: case_prod_beta)
      from Cons.IH [OF this m] show ?thesis by (simp add: case_prod_beta)
    qed
  qed simp
qed

lemma offset_found: "\<exists>o' s'. offsetSecFor E p (Some off) s = (Some o', s')"
  by (cases "se_forced E"; cases "jm_get (ss_offsets s) p") (simp_all add: offsetSecFor_def)

lemma upgrade_opens:
  assumes "SWants p \<in> set (fst (session_step E (WatchMessage clk w d raw sender) s))"
  shows "jm_get (ss_upgradeDate (session_do E s (WatchMessage clk w d raw sender))) p = Some (d, clk)"
proof (cases "jm_get (ss_watches s) w")
  case (Some lw)
  let ?f = "\<lambda>cfg. rt_watch (watch_handler (rp_watch cfg) clk raw sender) d"
  let ?r = "?f (rt_cfg_of E (lw_offsetMs lw) s) (lw_rot lw)"
  let ?s = "s\<lparr>ss_watches := jm_set w (lw\<lparr>lw_rot := snd ?r\<rparr>) (ss_watches s)\<rparr>"
  have a: "SWants p \<in> set (fst (watch_effects clk (lw_pub lw) (fst ?r) ?s))"
    using assms Some by (simp add: on_watch_def case_prod_beta)
  have "d' = d" if "RHandshake f g d' \<in> set (fst ?r)" for f g d' using watch_handshakes [OF that] .
  from wants_remembers [OF a this] show ?thesis using Some by (simp add: session_do_def on_watch_def case_prod_beta)
qed (use assms in \<open>simp add: on_watch_def\<close>)

text \<open>
  A conversation opens where the other side is handshaking. When a contact's handshake frame
  reaches a watch of day \<open>d\<close> and the session says that the contact wants a conversation, then a
  room opened for that contact less than five minutes later asks for the keys of day \<open>d\<close>, whatever
  day it is by then; without such a handshake it opens on the pair's current day.
\<close>
theorem room_opens_on_day:
  assumes "SWants p \<in> set (fst (session_step E (WatchMessage t w d raw sender) s))"
    and "session_do E s (WatchMessage t w d raw sender) = s1" "open_begin p s1 = (pending, s2)"
  shows "(\<forall>clk now off. clk - t < UPGRADE_DATE_TTL \<longrightarrow>
      (\<exists>was heard. fst (open_handoff E clk now p pending (Some off) s2) = Some (d, was, heard)))
    \<and> (\<forall>clk now off day s3 was heard. fst (open_handoff E clk now p None (Some off) s3) = Some (day, was, heard)
        \<longrightarrow> (\<exists>o'. rendezvousDay now (int o' * 1000) = Some day))"
proof (intro conjI allI impI)
  have pending: "pending = Some (d, t)" using upgrade_opens [OF assms(1)] assms(2,3) by (simp add: open_begin_def)
  fix clk now off
  assume "clk - t < UPGRADE_DATE_TTL"
  moreover obtain o' s' where "offsetSecFor E p (Some off) s2 = (Some o', s')" using offset_found by metis
  ultimately show "\<exists>was heard. fst (open_handoff E clk now p pending (Some off) s2) = Some (d, was, heard)"
    by (simp add: pending open_handoff_def open_day_def Let_def case_prod_beta)
next
  fix clk now off day s3 was heard
  assume "fst (open_handoff E clk now p None (Some off) s3) = Some (day, was, heard)"
  then show "\<exists>o'. rendezvousDay now (int o' * 1000) = Some day"
    by (cases "offsetSecFor E p (Some off) s3") (auto simp: open_handoff_def open_day_def Let_def case_prod_beta split: option.splits)
qed

definition waiting_session :: session where
  "waiting_session = new_session\<lparr>ss_watches := [(0, \<lparr>lw_pub = [1], lw_offsetMs = 0,
     lw_rot = no_watches\<lparr>rt_slots := [([4], \<lparr>sl_watch = Some (new_watch [5] []), sl_online = False\<rparr>)]\<rparr>\<rparr>)], ss_presence := [([1], 0)]\<rparr>"

definition demo_session_env :: session_env where
  "demo_session_env = \<lparr>se_watch = (rp_watch demo_rt)\<lparr>wc_self := [9]\<rparr>, se_guard = 0, se_forced = None\<rparr>"

theorem room_opens_on_day_witness:
  "\<exists>was heard. fst (open_handoff demo_session_env 2000 2000 [1]
     (fst (open_begin [1] (session_do demo_session_env waiting_session (WatchMessage 1000 0 [4] [T_MSG1, 0, 0] (Some [7])))))
     (Some 0) (snd (open_begin [1] (session_do demo_session_env waiting_session (WatchMessage 1000 0 [4] [T_MSG1, 0, 0] (Some [7]))))))
   = Some ([4], was, heard)"
proof -
  let ?E = demo_session_env
  let ?e = "WatchMessage 1000 0 [4] [T_MSG1, 0, 0] (Some [7])"
  let ?s1 = "session_do ?E waiting_session ?e"
  have self: "wc_self (se_watch ?E) = [9]" by (simp add: demo_session_env_def)
  have o: "origin T [T_MSG1, 0, 0] (Some [7]) = Some ([7], [T_MSG1, 0, 0])" for T
    by (simp add: origin_def isTagged_def T_MSG1_def ORIGIN_TAG_def)
  have h: "isHandshakeFrame [T_MSG1, 0, 0]" by (simp add: isHandshakeFrame_def)
  have w: "SWants [1] \<in> set (fst (session_step ?E ?e waiting_session))"
    by (simp add: waiting_session_def new_session_def on_watch_def rt_watch_def watch_handler_def no_watches_def new_watch_def o h
        self rt_cfg_of_def rt_up_def watch_effect_def jm_has_def)
  have t: "(2000::int) - 1000 < UPGRADE_DATE_TTL" by (simp add: UPGRADE_DATE_TTL_def)
  from room_opens_on_day [OF w refl surjective_pairing [of "open_begin [1] ?s1"], THEN conjunct1, rule_format, OF t]
  show ?thesis .
qed

subsection \<open>What nothing protects\<close>

text \<open>
  A conversation that is left while a watch of its contact is on the same topic, as one is once the
  contact list was watched again, takes the topic away from the watch: the node is no longer
  subscribed, the watch is still there and believes it listens, and none is started in its place.
\<close>

lemma left_room_deafens_watch:
  assumes "jm_get (ss_convs s) c = Some cv" "jm_get (ss_presence s) (cv_pub cv) = Some w" "\<not> cv_released cv"
    and "session_do E s (LeaveBegin c) = s1" "session_step E (LeaveEnd c) s1 = (es, s2)"
  shows "cv_topic cv \<notin> set (ss_subs s2) \<and> es = [] \<and> ss_presence s2 = ss_presence s \<and> ss_watches s2 = ss_watches s"
proof -
  have s1: "jm_get (ss_convs s1) c = Some (cv\<lparr>cv_released := True\<rparr>)" "ss_presence s1 = ss_presence s" "ss_watches s1 = ss_watches s"
    using assms by (auto simp: session_do_def leave_begin_def)
  then show ?thesis using assms(2,5)
    by (auto simp: leave_end_def Let_def unsubscribe_def startWatch_def jm_has_def)
qed

text \<open>The same topic opened again before the old room has stopped is lost with it.\<close>

lemma reopened_room_deaf:
  assumes "jm_get (ss_convs s) c = Some cv" "jm_inv (ss_convs s)" "c < ss_next s"
  shows "\<exists>s' c' cv'. run (session_do E) s [LeaveBegin c, OpenDone p (cv_topic cv) was h, LeaveEnd c] = s'
    \<and> jm_get (ss_convs s') c' = Some cv' \<and> alive cv' \<and> cv_topic cv' = cv_topic cv \<and> cv_topic cv' \<notin> set (ss_subs s')"
proof -
  let ?s1 = "leave_begin c s"
  have a: "\<exists>dv. jm_get (ss_convs ?s1) c = Some dv \<and> cv_topic dv = cv_topic cv" "ss_next ?s1 = ss_next s"
    using assms(1) by (auto simp: leave_begin_def)
  obtain dv where dv: "jm_get (ss_convs ?s1) c = Some dv" "cv_topic dv = cv_topic cv" using a(1) by blast
  let ?s2 = "snd (snd (open_done p (cv_topic cv) was h ?s1))"
  have s2: "jm_get (ss_convs ?s2) c = Some dv" "jm_get (ss_convs ?s2) (ss_next s) =
      Some \<lparr>cv_pub = p, cv_topic = cv_topic cv, cv_released = False, cv_stopped = False, cv_wasWatched = was\<rparr>"
    using dv a(2) assms(3) by (simp_all add: open_done_def Let_def subscribe_def)
  let ?s3 = "snd (leave_end c ?s2)"
  have "jm_get (ss_convs ?s3) (ss_next s) = jm_get (ss_convs ?s2) (ss_next s)" "cv_topic cv \<notin> set (ss_subs ?s3)"
    using s2(1) dv(2) assms(3) by (auto simp: leave_end_def Let_def unsubscribe_def jm_get_set)
  then show ?thesis using s2(2)
    by (intro exI [of _ ?s3] exI [of _ "ss_next s"]) (simp add: session_do_def alive_def)
qed

end
