(* ===== verification/Knock.thy ===== *)
theory Knock
  imports Utf8 Handshake
begin

section \<open>Knocks (lib/knock.ts)\<close>

text \<open>
  One sealed frame on the topic an invite names: an ephemeral key, then a plaintext of fixed length
  sealed to the key of the invite. \<open>sealKnock\<close> and \<open>decoyKnock\<close> are \<open>None\<close> where the promise rejects;
  \<open>openKnock\<close> is \<open>None\<close> for whatever is not a knock. What is opened is what was packed, cut to its
  budget at a character, and a decoy has the length of a real one.
\<close>

unbundle bit_operations_syntax

subsection \<open>The plaintext\<close>

definition KNOCK_LABEL :: string where "KNOCK_LABEL = ''encedo-chat-invite-knock-v2''"

definition NAME_MAX :: nat where "NAME_MAX = 64"
definition NOTE_MAX :: nat where "NOTE_MAX = 200"
definition IK_LEN :: nat where "IK_LEN = 32"
definition EPH_LEN :: nat where "EPH_LEN = 32"
definition KEY_LEN :: nat where "KEY_LEN = 32"
definition NONCE_LEN :: nat where "NONCE_LEN = 12"
definition KNOCK_TAG :: nat where "KNOCK_TAG = 16"
definition PLAIN_LEN :: nat where "PLAIN_LEN = 1 + IK_LEN + 1 + NAME_MAX + 2 + NOTE_MAX"
definition FRAME_LEN :: nat where "FRAME_LEN = EPH_LEN + PLAIN_LEN + KNOCK_TAG"
definition KIND_DECOY :: byte where "KIND_DECOY = 0"
definition KIND_REAL :: byte where "KIND_REAL = 1"

lemmas knock_sizes = NAME_MAX_def NOTE_MAX_def IK_LEN_def EPH_LEN_def KEY_LEN_def NONCE_LEN_def KNOCK_TAG_def PLAIN_LEN_def FRAME_LEN_def

datatype knock = Decoy | Real (kn_ik: bytes) (kn_name: jstr) (kn_note: jstr)

text \<open>The loop that drops code points from the end until the text fits; \<open>n\<close> are left.\<close>

fun fit_down :: "nat \<Rightarrow> jstr list \<Rightarrow> nat \<Rightarrow> bytes" where
  "fit_down m chars 0 = []"
| "fit_down m chars (Suc n) =
     (let out = utf8 (concat (take n chars)) in if length out \<le> m then out else fit_down m chars n)"

definition fitBytes :: "jstr \<Rightarrow> nat \<Rightarrow> bytes" where
  "fitBytes s m = (let out = utf8 s in if length out \<le> m then out else fit_down m (code_points s) (length (code_points s)))"

definition zeros :: "nat \<Rightarrow> bytes" where "zeros n = replicate n 0"

definition pack :: "byte \<Rightarrow> bytes \<Rightarrow> jstr \<Rightarrow> jstr \<Rightarrow> bytes" where
  "pack kind ik name note =
     (let n = fitBytes name NAME_MAX; t = fitBytes note NOTE_MAX in
      [kind] @ (if length ik = IK_LEN then ik else zeros IK_LEN) @ [word_of_nat (length n)] @ n @ zeros (NAME_MAX - length n)
        @ be_enc 2 (length t) @ t @ zeros (NOTE_MAX - length t))"

definition unpack :: "bytes \<Rightarrow> knock option" where
  "unpack p =
     (if length p \<noteq> PLAIN_LEN then None
      else if p ! 0 = KIND_DECOY then Some Decoy
      else if p ! 0 \<noteq> KIND_REAL then None
      else let nameLen = unat (p ! (1 + IK_LEN)); off = 2 + IK_LEN + NAME_MAX; noteLen = be_dec (slice_of off 2 p) in
        if nameLen > NAME_MAX \<or> noteLen > NOTE_MAX then None
        else Some (Real (slice_of 1 IK_LEN p) (utf8_text (slice_of (2 + IK_LEN) nameLen p)) (utf8_text (slice_of (off + 2) noteLen p))))"

subsection \<open>The frame\<close>

definition frameKey :: "crypto \<Rightarrow> bytes \<Rightarrow> bytes \<Rightarrow> bytes \<times> bytes" where
  "frameKey C shared inbox = (let bits = kdf C KNOCK_LABEL shared inbox (KEY_LEN + NONCE_LEN) in (take KEY_LEN bits, drop KEY_LEN bits))"

text \<open>\<open>out.set(b, i)\<close>, a range error where \<open>b\<close> does not fit.\<close>

definition set_bytes :: "nat \<Rightarrow> bytes \<Rightarrow> bytes \<Rightarrow> bytes option" where
  "set_bytes i b out = (if i + length b > length out then None else Some (take i out @ b @ drop (i + length b) out))"

definition knock_seal :: "crypto \<Rightarrow> dh_key \<Rightarrow> bytes \<Rightarrow> bytes \<Rightarrow> bytes \<Rightarrow> bytes option" where
  "knock_seal C eph inbox toPub plain =
     (case dh_fn eph toPub of
        None \<Rightarrow> None
      | Some shared \<Rightarrow>
          (case frameKey C shared inbox of (k, nonce) \<Rightarrow>
            Option.bind (set_bytes 0 (dh_pub eph) (zeros FRAME_LEN)) (set_bytes EPH_LEN (c_seal C k nonce [] plain))))"

definition sealKnock :: "crypto \<Rightarrow> dh_key \<Rightarrow> bytes \<Rightarrow> bytes \<Rightarrow> bytes \<Rightarrow> jstr \<Rightarrow> jstr option \<Rightarrow> bytes option" where
  "sealKnock C eph inbox invitePub ik name note =
     knock_seal C eph inbox invitePub (pack KIND_REAL ik name (case note of None \<Rightarrow> [] | Some t \<Rightarrow> t))"

definition decoyKnock :: "crypto \<Rightarrow> dh_key \<Rightarrow> bytes \<Rightarrow> bytes \<Rightarrow> bytes option" where
  "decoyKnock C eph inbox invitePub = knock_seal C eph inbox invitePub (pack KIND_DECOY (zeros IK_LEN) [] [])"

definition openKnock :: "crypto \<Rightarrow> bytes \<Rightarrow> dh_key \<Rightarrow> bytes \<Rightarrow> knock option" where
  "openKnock C inbox key frame =
     (if length frame \<noteq> FRAME_LEN then None
      else case dh_fn key (take EPH_LEN frame) of
          None \<Rightarrow> None
        | Some shared \<Rightarrow>
            (case frameKey C shared inbox of (k, nonce) \<Rightarrow>
              Option.bind (c_open C k nonce [] (drop EPH_LEN frame)) unpack))"

subsection \<open>What fits\<close>

text \<open>The text a reader gets: the longest run of whole characters within the budget.\<close>

definition cut_text :: "nat \<Rightarrow> jstr \<Rightarrow> jstr \<Rightarrow> bool" where
  "cut_text m s s' \<longleftrightarrow> length (utf8 s') \<le> m
     \<and> (\<exists>k. s' = concat (take k (code_points s)) \<and> (s' = s \<or> length (utf8 (concat (take (Suc k) (code_points s)))) > m))"

lemma fit_down_cut:
  assumes "length (utf8 (concat (take n chars))) > m"
  shows "\<exists>k<n. fit_down m chars n = utf8 (concat (take k chars)) \<and> length (utf8 (concat (take k chars))) \<le> m
    \<and> length (utf8 (concat (take (Suc k) chars))) > m"
  using assms
proof (induction n)
  case (Suc n)
  show ?case
  proof (cases "length (utf8 (concat (take n chars))) \<le> m")
    case True
    then show ?thesis using Suc.prems by (intro exI [of _ n]) (simp add: Let_def)
  next
    case False
    then obtain k where "k < n" "fit_down m chars n = utf8 (concat (take k chars))" "length (utf8 (concat (take k chars))) \<le> m"
      "length (utf8 (concat (take (Suc k) chars))) > m" using Suc.IH by auto
    then show ?thesis using False by (intro exI [of _ k]) (simp add: Let_def)
  qed
qed simp

lemma fitBytes_cut: "\<exists>s'. fitBytes s m = utf8 s' \<and> cut_text m s s'"
proof (cases "length (utf8 s) \<le> m")
  case True
  then show ?thesis
    by (intro exI [of _ s]) (auto simp: fitBytes_def Let_def cut_text_def intro!: exI [of _ "length (code_points s)"])
next
  case False
  then have "length (utf8 (concat (take (length (code_points s)) (code_points s)))) > m" by simp
  from fit_down_cut [OF this] obtain k where k: "fit_down m (code_points s) (length (code_points s)) = utf8 (concat (take k (code_points s)))"
    "length (utf8 (concat (take k (code_points s)))) \<le> m" "length (utf8 (concat (take (Suc k) (code_points s)))) > m" by blast
  then show ?thesis using False by (intro exI [of _ "concat (take k (code_points s))"]) (auto simp: fitBytes_def Let_def cut_text_def)
qed

lemma length_fitBytes: "length (fitBytes s m) \<le> m"
  using fitBytes_cut [of s m] by (auto simp: cut_text_def)

lemma paired_prefix: "paired s \<Longrightarrow> paired (concat (take k (code_points s)))"
proof (induction s arbitrary: k rule: code_points.induct)
  case (3 u v us)
  show ?case
  proof (cases k)
    case (Suc j)
    show ?thesis
    proof (cases "high_surrogate (unat u)")
      case True
      then show ?thesis using 3 Suc by auto
    next
      case False
      then have p: "paired (v # us)" "\<not> low_surrogate (unat u)" using "3.prems" by auto
      define w where "w = concat (take j (code_points (v # us)))"
      have "paired w" unfolding w_def using "3.IH"(2) p(1) False by blast
      then have "paired (u # w)" using False p(2) by (cases w) auto
      moreover have "concat (take k (code_points (u # v # us))) = u # w" using False Suc by (simp add: w_def)
      ultimately show ?thesis by simp
    qed
  qed simp
qed (case_tac k; simp)+

lemma plain_prefix:
  assumes "plain_text s"
  shows "plain_text (concat (take k (code_points s)))"
proof -
  have p: "paired (concat (take k (code_points s)))" using assms by (intro paired_prefix) (simp add: plain_text_def)
  show ?thesis
  proof (cases "k = 0 \<or> s = []")
    case False
    then obtain u us where s: "s = u # us" by (cases s) auto
    obtain r where r: "concat (take k (code_points (u # us))) = u # r" using code_points_head [of k u us] False by blast
    have "u \<noteq> 0xFEFF" using assms s by (simp add: plain_text_def)
    then show ?thesis using p unfolding s r plain_text_def by simp
  qed (auto simp: plain_text_def)
qed

lemma cut_plain:
  assumes "plain_text s" "cut_text m s s'"
  shows "plain_text s'"
proof -
  obtain k where "s' = concat (take k (code_points s))" using assms(2) unfolding cut_text_def by blast
  then show ?thesis using plain_prefix [OF assms(1)] by simp
qed

lemma cut_id:
  assumes "length (utf8 s) \<le> m"
  shows "fitBytes s m = utf8 s"
  using assms by (simp add: fitBytes_def Let_def)

subsection \<open>What was packed is unpacked\<close>

lemma length_pack: "length (pack kind ik name note) = PLAIN_LEN"
  using length_fitBytes [of name NAME_MAX] length_fitBytes [of "note" NOTE_MAX]
  by (simp add: pack_def Let_def knock_sizes zeros_def)

lemma unpack_decoy: "unpack (pack KIND_DECOY ik name note) = Some Decoy"
  using length_pack [of KIND_DECOY ik name "note"] by (simp add: unpack_def) (simp add: pack_def Let_def KIND_DECOY_def)

lemma unpack_real:
  assumes "length ik = 32" "plain_text name" "plain_text note"
  shows "\<exists>name' note'. unpack (pack KIND_REAL ik name note) = Some (Real ik name' note')
    \<and> cut_text NAME_MAX name name' \<and> cut_text NOTE_MAX note note'"
proof -
  obtain n where n: "fitBytes name NAME_MAX = utf8 n" "cut_text NAME_MAX name n" using fitBytes_cut by blast
  obtain t where t: "fitBytes note NOTE_MAX = utf8 t" "cut_text NOTE_MAX note t" using fitBytes_cut by blast
  have ln: "length (utf8 n) \<le> 64" and lt: "length (utf8 t) \<le> 200" using n(2) t(2) by (simp_all add: cut_text_def knock_sizes)
  let ?p = "pack KIND_REAL ik name note"
  let ?len = "word_of_nat (length (utf8 n)) :: byte"
  have p: "?p = KIND_REAL # ik @ ?len # utf8 n @ zeros (64 - length (utf8 n)) @ be_enc 2 (length (utf8 t)) @ utf8 t @ zeros (200 - length (utf8 t))"
    using assms(1) n(1) t(1) by (simp add: pack_def Let_def knock_sizes)
  have u: "unat ?len = length (utf8 n)" using ln by (simp add: unat_of_nat)
  have i0: "?p ! 0 = KIND_REAL" by (simp add: p)
  have i1: "?p ! 33 = ?len" using assms(1) by (simp add: p nth_append)
  have s1: "slice_of 1 32 ?p = ik" using assms(1) by (simp add: p slice_of_def)
  have s2: "slice_of 34 (length (utf8 n)) ?p = utf8 n" using assms(1) by (simp add: p slice_of_def)
  have d: "drop 98 ?p = be_enc 2 (length (utf8 t)) @ utf8 t @ zeros (200 - length (utf8 t))"
    using assms(1) ln by (simp add: p zeros_def)
  have s3: "slice_of 98 2 ?p = be_enc 2 (length (utf8 t))" unfolding slice_of_def d by simp
  have e: "be_dec (be_enc 2 (length (utf8 t))) = length (utf8 t)" using lt by (intro be_dec_enc_id) simp
  have "drop 100 ?p = drop 2 (drop 98 ?p)" by simp
  also have "\<dots> = utf8 t @ zeros (200 - length (utf8 t))" unfolding d by simp
  finally have s4: "slice_of 100 (length (utf8 t)) ?p = utf8 t" by (simp add: slice_of_def)
  have k: "KIND_REAL \<noteq> KIND_DECOY" by (simp add: KIND_DECOY_def KIND_REAL_def)
  have l: "length ?p = 300" using length_pack [of KIND_REAL ik name "note"] by (simp add: knock_sizes)
  have "unpack ?p = Some (Real ik (utf8_text (utf8 n)) (utf8_text (utf8 t)))"
    unfolding unpack_def Let_def using ln lt k by (simp add: knock_sizes l i0 i1 u s1 [simplified] s2 s3 s4 e)
  then have "unpack ?p = Some (Real ik n t)"
    using utf8_text_utf8 cut_plain [OF assms(2) n(2)] cut_plain [OF assms(3) t(2)] by simp
  then show ?thesis using n(2) t(2) by blast
qed

lemma knock_frame:
  assumes "dh_fn eph toPub = Some shared" "length (dh_pub eph) = 32" "aead_tagged C" "length plain = PLAIN_LEN"
  shows "knock_seal C eph inbox toPub plain = Some (dh_pub eph @ c_seal C (fst (frameKey C shared inbox)) (snd (frameKey C shared inbox)) [] plain)"
proof -
  have l: "length (c_seal C k n [] plain) = 316" for k n using assms(3,4) by (simp add: aead_tagged_def knock_sizes)
  show ?thesis using assms(1,2) l
    by (simp add: knock_seal_def case_prod_beta set_bytes_def zeros_def knock_sizes)
qed

lemma opens_as:
  assumes "dh_agree eph key" "length (dh_pub eph) = 32" "aead_tagged C" "aead_opens C" "length plain = PLAIN_LEN"
  shows "\<exists>frame. knock_seal C eph inbox (dh_pub key) plain = Some frame \<and> length frame = FRAME_LEN \<and> take EPH_LEN frame = dh_pub eph
    \<and> openKnock C inbox key frame = unpack plain"
proof -
  obtain ss where ss: "dh_fn eph (dh_pub key) = Some ss" "dh_fn key (dh_pub eph) = Some ss" using dh_agreeE [OF assms(1)] by blast
  let ?c = "c_seal C (fst (frameKey C ss inbox)) (snd (frameKey C ss inbox)) [] plain"
  have l: "length ?c = 316" using assms(3,5) by (simp add: aead_tagged_def knock_sizes)
  have "openKnock C inbox key (dh_pub eph @ ?c) = unpack plain"
    using assms(2,4) ss(2) l by (simp add: openKnock_def case_prod_beta aead_opens_def knock_sizes)
  then show ?thesis using knock_frame [OF ss(1) assms(2,3,5), of inbox] assms(2) l by (simp add: knock_sizes)
qed

lemma real_knock:
  assumes "dh_agree eph key" "length (dh_pub eph) = 32" "aead_tagged C" "aead_opens C"
    and "length ik = 32" "plain_text name" "plain_text (case note of None \<Rightarrow> [] | Some t \<Rightarrow> t)"
  shows "\<exists>frame name' note'. sealKnock C eph inbox (dh_pub key) ik name note = Some frame \<and> length frame = FRAME_LEN
    \<and> take EPH_LEN frame = dh_pub eph \<and> openKnock C inbox key frame = Some (Real ik name' note')
    \<and> cut_text NAME_MAX name name' \<and> cut_text NOTE_MAX (case note of None \<Rightarrow> [] | Some t \<Rightarrow> t) note'"
  using opens_as [OF assms(1-4) length_pack] unpack_real [OF assms(5-7)] by (metis sealKnock_def)

lemma decoy_knock:
  assumes "dh_agree eph key" "length (dh_pub eph) = 32" "aead_tagged C" "aead_opens C"
  shows "\<exists>frame. decoyKnock C eph inbox (dh_pub key) = Some frame \<and> length frame = FRAME_LEN \<and> take EPH_LEN frame = dh_pub eph
    \<and> openKnock C inbox key frame = Some Decoy"
  using opens_as [OF assms length_pack] unpack_decoy by (metis decoyKnock_def)

end
