(* ===== verification/Inbox.thy ===== *)
theory Inbox
  imports Knock Presence Picks
begin

section \<open>Listening on an invite's topic (lib/inbox.ts)\<close>

text \<open>
  The watch of one invite: the topics of its live days, the frames seen, two caps per minute, and
  the schedule of decoys that keeps the relay from dropping the topic. A run of \<open>step\<close> waits for a
  derivation, for the plan of a slot, for the sealing of a decoy and for its publishing;
  \<open>ib_wait\<close> is where it stands, and a tick meanwhile is queued. The message handler runs between,
  in two parts around the opening of the frame. A frame's ephemeral key stands for its base64.
\<close>

definition SEED_LABEL :: string where "SEED_LABEL = ''encedo-chat-invite-decoy-v1''"
definition SLOT_LABEL :: string where "SLOT_LABEL = ''encedo-chat-invite-decoy-slot-v1''"
definition INVITE_KEY_LABEL :: string where "INVITE_KEY_LABEL = ''encedo-chat-invite-key-v1''"
definition DECOY_EVERY_MS :: int where "DECOY_EVERY_MS = 45000"
definition MAX_PER_MIN :: nat where "MAX_PER_MIN = 20"
definition MAX_OPEN_PER_MIN :: nat where "MAX_OPEN_PER_MIN = 60"
definition SEEN_MAX :: nat where "SEEN_MAX = 512"

text \<open>\<open>from_priv\<close> makes a key of its private half: the platform's X25519.\<close>

definition inviteKey :: "(bytes \<Rightarrow> dh_key option) \<Rightarrow> bytes \<Rightarrow> (string \<Rightarrow> bytes \<Rightarrow> nat \<Rightarrow> bytes option) \<Rightarrow> dh_key option" where
  "inviteKey from_priv inbox deriveSelf = Option.bind (deriveSelf INVITE_KEY_LABEL inbox 32) from_priv"

subsection \<open>State\<close>

text \<open>What a run waits for, with what it goes on with; \<open>int\<close> is the time it began.\<close>

datatype ib_wait =
    WBegin
  | WTopic jstr "jstr list" "jstr list" int
  | WPlan int bool int
  | WSeal jstr bool int
  | WPublish bool int

record inbox =
  ib_topics :: "(jstr, jstr) jmap"
  ib_seen :: "bytes list"
  ib_seenSet :: "bytes list"
  ib_surfaced :: "int list"
  ib_opened :: "int list"
  ib_openDropped :: nat
  ib_dropped :: nat
  ib_stopped :: bool
  ib_offsetMs :: int
  ib_seed :: "bytes option"
  ib_curSlot :: int
  ib_fireAt :: int
  ib_fired :: bool
  ib_carried :: "bool option"
  ib_waits :: "ib_wait option"
  ib_queued :: nat

record inbox_env =
  ie_crypto :: crypto
  ie_inbox :: bytes
  ie_key :: "dh_key option"
  ie_networkId :: jstr
  ie_guard :: int
  ie_decoyEvery :: int
  ie_maxPerMin :: nat
  ie_maxOpenPerMin :: nat

datatype inbox_effect =
    ISubscribe jstr
  | IUnsubscribe jstr
  | IDerive jstr
  | IPlan int
  | ISeal jstr
  | IPublish jstr bytes
  | IKnock bytes jstr jstr jstr

definition new_inbox :: inbox where
  "new_inbox = \<lparr>ib_topics = [], ib_seen = [], ib_seenSet = [], ib_surfaced = [], ib_opened = [], ib_openDropped = 0,
     ib_dropped = 0, ib_stopped = False, ib_offsetMs = 0, ib_seed = None, ib_curSlot = -1, ib_fireAt = 0, ib_fired = False,
     ib_carried = None, ib_waits = Some WBegin, ib_queued = 0\<rparr>"

definition remember :: "bytes \<Rightarrow> inbox \<Rightarrow> inbox" where
  "remember eph s =
     (let q = ib_seen s @ [eph]; st = set_add eph (ib_seenSet s) in
      if length q > SEEN_MAX then s\<lparr>ib_seen := tl q, ib_seenSet := filter (\<lambda>x. x \<noteq> hd q) st\<rparr>
      else s\<lparr>ib_seen := q, ib_seenSet := st\<rparr>)"

subsection \<open>A frame arrives\<close>

text \<open>The day of the topic: the last entry that has it.\<close>

definition date_of :: "jstr \<Rightarrow> (jstr, jstr) jmap \<Rightarrow> jstr option" where
  "date_of topic m = foldl (\<lambda>d x. if snd x = topic then Some (fst x) else d) None m"

definition recent :: "int \<Rightarrow> int list \<Rightarrow> int list" where
  "recent now xs = filter (\<lambda>x. now - x < 60000) xs"

text \<open>Up to the opening: the frame to open, with its day, if it gets that far.\<close>

definition in_frame :: "inbox_env \<Rightarrow> int \<Rightarrow> jstr \<Rightarrow> bytes \<Rightarrow> inbox \<Rightarrow> (bytes \<times> jstr) option \<times> inbox" where
  "in_frame E now topic frame s =
     (if ib_stopped s then (None, s)
      else case date_of topic (ib_topics s) of
          None \<Rightarrow> (None, s)
        | Some d \<Rightarrow>
            if d = [] \<or> length frame < 32 \<or> take 32 frame \<in> set (ib_seenSet s) then (None, s)
            else let s1 = remember (take 32 frame) s; op = recent now (ib_opened s1) in
              if length op \<ge> ie_maxOpenPerMin E then (None, s1\<lparr>ib_opened := op, ib_openDropped := ib_openDropped s1 + 1\<rparr>)
              else (Some (frame, d), s1\<lparr>ib_opened := op @ [now]\<rparr>))"

definition open_frame :: "inbox_env \<Rightarrow> bytes \<Rightarrow> knock option" where
  "open_frame E frame = Option.bind (ie_key E) (\<lambda>key. openKnock (ie_crypto E) (ie_inbox E) key frame)"

definition in_opened :: "inbox_env \<Rightarrow> int \<Rightarrow> jstr \<Rightarrow> knock option \<Rightarrow> inbox \<Rightarrow> inbox_effect list \<times> inbox" where
  "in_opened E now d k s =
     (case k of
        Some (Real ik name note) \<Rightarrow>
          let sf = recent now (ib_surfaced s) in
          if length sf \<ge> ie_maxPerMin E then ([], s\<lparr>ib_surfaced := sf, ib_dropped := ib_dropped s + 1\<rparr>)
          else ([IKnock ik name note d], s\<lparr>ib_surfaced := sf @ [now]\<rparr>)
      | _ \<Rightarrow> ([], s))"

subsection \<open>Decoys\<close>

definition primary_topic :: "inbox_env \<Rightarrow> int \<Rightarrow> inbox \<Rightarrow> jstr option" where
  "primary_topic E now s =
     (case activeDatesForOffset now (ib_offsetMs s) (ie_guard E) of
        Some (d # _) \<Rightarrow> (case jm_get (ib_topics s) d of Some t \<Rightarrow> if t = [] then None else Some t | None \<Rightarrow> None)
      | _ \<Rightarrow> None)"

definition run_over :: "inbox \<Rightarrow> inbox" where
  "run_over s = s\<lparr>ib_waits := None\<rparr>"

text \<open>\<open>if (!fired && t >= fireAt)\<close>, the end of a run. \<open>again\<close> says that a publish for the slot before came first.\<close>

definition fire_decoy :: "inbox_env \<Rightarrow> int \<Rightarrow> int \<Rightarrow> inbox \<Rightarrow> inbox_effect list \<times> inbox" where
  "fire_decoy E now t s =
     (if \<not> ib_fired s \<and> t \<ge> ib_fireAt s then
        (let s1 = s\<lparr>ib_fired := True\<rparr> in
         if ib_stopped s1 then ([], run_over s1)
         else case primary_topic E now s1 of
             None \<Rightarrow> ([], run_over s1)
           | Some topic \<Rightarrow> ([ISeal topic], s1\<lparr>ib_waits := Some (WSeal topic False t)\<rparr>))
      else ([], run_over s))"

definition after_decoy :: "inbox_env \<Rightarrow> int \<Rightarrow> bool \<Rightarrow> int \<Rightarrow> inbox \<Rightarrow> inbox_effect list \<times> inbox" where
  "after_decoy E now again t s = (if again then fire_decoy E now t s else ([], run_over s))"

text \<open>\<open>publishDecoy\<close> for a slot that was not paid; a run that goes on after it.\<close>

definition overdue_decoy :: "inbox_env \<Rightarrow> int \<Rightarrow> int \<Rightarrow> inbox \<Rightarrow> inbox_effect list \<times> inbox" where
  "overdue_decoy E now t s =
     (if ib_stopped s then fire_decoy E now t s
      else if activeDatesForOffset now (ib_offsetMs s) (ie_guard E) = None then ([], run_over s)
      else case primary_topic E now s of
          None \<Rightarrow> fire_decoy E now t s
        | Some topic \<Rightarrow> ([ISeal topic], s\<lparr>ib_waits := Some (WSeal topic True t)\<rparr>))"

definition slotOf :: "inbox_env \<Rightarrow> int \<Rightarrow> int" where
  "slotOf E t = t div ie_decoyEvery E"

text \<open>\<open>planSlot\<close>: what it derives from the seed, and what it sets.\<close>

definition slot_instant :: "inbox_env \<Rightarrow> bytes \<Rightarrow> int \<Rightarrow> int" where
  "slot_instant E seed n =
     n * ie_decoyEvery E + int (be_dec (kdf (ie_crypto E) SLOT_LABEL seed (be_enc 4 (nat n)) 4)) mod ie_decoyEvery E"

definition ib_slot :: "inbox_env \<Rightarrow> int \<Rightarrow> int \<Rightarrow> inbox \<Rightarrow> inbox_effect list \<times> inbox" where
  "ib_slot E now t s =
     (let n = slotOf E t in
      if n \<noteq> ib_curSlot s then
        (case ib_seed s of
           None \<Rightarrow> ([], run_over s)
         | Some _ \<Rightarrow> ([IPlan n], s\<lparr>ib_waits := Some (WPlan n (ib_curSlot s \<ge> 0 \<and> \<not> ib_fired s) t)\<rparr>))
      else fire_decoy E now t s)"

subsection \<open>A run\<close>

definition ib_retire :: "inbox_env \<Rightarrow> int \<Rightarrow> int \<Rightarrow> jstr list \<Rightarrow> inbox \<Rightarrow> inbox_effect list \<times> inbox" where
  "ib_retire E now t want s =
     (let gone = filter (\<lambda>x. fst x \<notin> set want \<and> snd x \<noteq> []) (ib_topics s) in
      case ib_slot E now t (s\<lparr>ib_topics := filter (\<lambda>x. fst x \<in> set want) (ib_topics s)\<rparr>) of
        (es, s') \<Rightarrow> (map (\<lambda>x. IUnsubscribe (snd x)) gone @ es, s'))"

fun ib_days :: "inbox_env \<Rightarrow> int \<Rightarrow> int \<Rightarrow> jstr list \<Rightarrow> jstr list \<Rightarrow> inbox \<Rightarrow> inbox_effect list \<times> inbox" where
  "ib_days E now t want [] s = ib_retire E now t want s"
| "ib_days E now t want (d # ds) s =
     (if jm_has (ib_topics s) d \<or> ib_stopped s then ib_days E now t want ds s
      else ([IDerive d], s\<lparr>ib_topics := jm_set d [] (ib_topics s), ib_waits := Some (WTopic d ds want t)\<rparr>))"

definition ib_step :: "inbox_env \<Rightarrow> int \<Rightarrow> inbox \<Rightarrow> inbox_effect list \<times> inbox" where
  "ib_step E now s =
     (if ib_stopped s then ([], s)
      else case activeDatesForOffset now (ib_offsetMs s) (ie_guard E) of
          None \<Rightarrow> ([], s)
        | Some want \<Rightarrow> ib_days E now now want want s)"

text \<open>A run that is over lets the next one that was queued begin.\<close>

fun ib_next :: "inbox_env \<Rightarrow> int \<Rightarrow> nat \<Rightarrow> inbox_effect list \<times> inbox \<Rightarrow> inbox_effect list \<times> inbox" where
  "ib_next E now 0 (es, s) = (es, s\<lparr>ib_queued := 0\<rparr>)"
| "ib_next E now (Suc n) (es, s) =
     (if ib_waits s \<noteq> None then (es, s\<lparr>ib_queued := Suc n\<rparr>)
      else case ib_step E now s of (es', s') \<Rightarrow> ib_next E now n (es @ es', s'))"

definition ib_tick :: "inbox_env \<Rightarrow> int \<Rightarrow> inbox \<Rightarrow> inbox_effect list \<times> inbox" where
  "ib_tick E now s =
     (if ib_waits s \<noteq> None then ([], s\<lparr>ib_queued := ib_queued s + 1\<rparr>) else ib_next E now (ib_queued s) (ib_step E now s))"

text \<open>The topic of a day is there.\<close>

definition ib_topic :: "inbox_env \<Rightarrow> jstr \<Rightarrow> jstr" where
  "ib_topic E d = topicFromSecret (ie_crypto E) (ie_inbox E) \<lparr>rv_networkId = ie_networkId E, rv_dateUTC = d\<rparr>"

definition got_topic :: "inbox_env \<Rightarrow> int \<Rightarrow> inbox \<Rightarrow> inbox_effect list \<times> inbox" where
  "got_topic E now s =
     (case ib_waits s of
        Some (WTopic d ds want t) \<Rightarrow>
          ib_next E now (ib_queued s)
            (if ib_stopped s then ([], run_over (s\<lparr>ib_topics := jm_del d (ib_topics s)\<rparr>))
             else case ib_days E now t want ds (s\<lparr>ib_topics := jm_set d (ib_topic E d) (ib_topics s), ib_waits := None\<rparr>) of
                 (es, s') \<Rightarrow> (ISubscribe (ib_topic E d) # es, s'))
      | _ \<Rightarrow> ([], s))"

definition got_plan :: "inbox_env \<Rightarrow> int \<Rightarrow> inbox \<Rightarrow> inbox_effect list \<times> inbox" where
  "got_plan E now s =
     (case ib_waits s of
        Some (WPlan n overdue t) \<Rightarrow>
          (let s1 = s\<lparr>ib_waits := None, ib_curSlot := n, ib_fired := False,
                ib_fireAt := (case ib_seed s of None \<Rightarrow> 0 | Some seed \<Rightarrow> slot_instant E seed n)\<rparr>
           in ib_next E now (ib_queued s) (if overdue then overdue_decoy E now t s1 else fire_decoy E now t s1))
      | _ \<Rightarrow> ([], s))"

text \<open>The decoy is sealed under a fresh key, or that failed, which is caught.\<close>

definition got_sealed :: "inbox_env \<Rightarrow> int \<Rightarrow> dh_key \<Rightarrow> inbox \<Rightarrow> inbox_effect list \<times> inbox" where
  "got_sealed E now eph s =
     (case ib_waits s of
        Some (WSeal topic again t) \<Rightarrow>
          (case Option.bind (ie_key E) (\<lambda>key. decoyKnock (ie_crypto E) eph (ie_inbox E) (dh_pub key)) of
             None \<Rightarrow> ib_next E now (ib_queued s) (after_decoy E now again t (run_over s))
           | Some frame \<Rightarrow> ([IPublish topic frame],
               remember (take 32 frame) (s\<lparr>ib_waits := Some (WPublish again t)\<rparr>)))
      | _ \<Rightarrow> ([], s))"

text \<open>It is published, to \<open>reach\<close> peers where the node says.\<close>

definition got_published :: "inbox_env \<Rightarrow> int \<Rightarrow> nat option \<Rightarrow> inbox \<Rightarrow> inbox_effect list \<times> inbox" where
  "got_published E now reach s =
     (case ib_waits s of
        Some (WPublish again t) \<Rightarrow>
          ib_next E now (ib_queued s) (after_decoy E now again t
            (s\<lparr>ib_waits := None, ib_carried := (case reach of None \<Rightarrow> ib_carried s | Some n \<Rightarrow> Some (n > 0))\<rparr>))
      | _ \<Rightarrow> ([], s))"

definition ib_stop :: "inbox \<Rightarrow> inbox_effect list \<times> inbox" where
  "ib_stop s = (map (\<lambda>x. IUnsubscribe (snd x)) (filter (\<lambda>x. snd x \<noteq> []) (ib_topics s)), s\<lparr>ib_stopped := True, ib_topics := []\<rparr>)"

text \<open>The derivations before the first run: the offset, then the seed, then the key. One that fails ends it there.\<close>

definition ib_begin :: "inbox_env \<Rightarrow> int \<Rightarrow> bytes option \<Rightarrow> inbox \<Rightarrow> inbox_effect list \<times> inbox" where
  "ib_begin E now seed s =
     (if ib_waits s \<noteq> Some WBegin then ([], s)
      else let s1 = s\<lparr>ib_waits := None, ib_seed := seed,
            ib_offsetMs := int (rotationOffsetSec (ie_crypto E) (ie_inbox E) \<lparr>rv_networkId = ie_networkId E, rv_dateUTC = []\<rparr>) * 1000\<rparr>
        in ib_next E now (ib_queued s) (if seed = None \<or> ie_key E = None then ([], s1) else ib_step E now s1))"

subsection \<open>Knocking\<close>

text \<open>
  \<open>sendKnock\<close>: the topic of the day, and what is done there; the wait for a subscriber is between the
  first two. \<open>None\<close> where there is no date.
\<close>

definition sendKnock ::
  "crypto \<Rightarrow> dh_key \<Rightarrow> bytes \<Rightarrow> bytes \<Rightarrow> jstr \<Rightarrow> int \<Rightarrow> bytes \<Rightarrow> jstr \<Rightarrow> jstr option \<Rightarrow> int \<Rightarrow> inbox_effect list option" where
  "sendKnock C eph inbox invitePub networkId guard ik name note now =
     (let off = int (rotationOffsetSec C inbox \<lparr>rv_networkId = networkId, rv_dateUTC = []\<rparr>) * 1000 in
      case activeDatesForOffset now off guard of
        Some (d # _) \<Rightarrow>
          (let topic = topicFromSecret C inbox \<lparr>rv_networkId = networkId, rv_dateUTC = d\<rparr> in
           Some (ISubscribe topic #
             (case sealKnock C eph inbox invitePub ik name note of None \<Rightarrow> [] | Some frame \<Rightarrow> [IPublish topic frame])
             @ [IUnsubscribe topic]))
      | _ \<Rightarrow> None)"

end
