(* ===== verification/InboxFacts.thy ===== *)
theory InboxFacts
  imports Inbox RelayNode
begin

section \<open>A knock arrives, and the topic stays\<close>

text \<open>
  The decoys of an inbox follow a small scheduler: a slot, an instant in it, and whether it is paid.
  \<open>round_sched\<close> shows that a run of the watch does what the scheduler says; the scheduler's gap is
  under two slots and a tick, which the relay's idle time covers.
\<close>

subsection \<open>The scheduler\<close>

record sched =
  sc_slot :: int
  sc_fireAt :: int
  sc_fired :: bool

definition sched_of :: "inbox \<Rightarrow> sched" where
  "sched_of s = \<lparr>sc_slot = ib_curSlot s, sc_fireAt = ib_fireAt s, sc_fired = ib_fired s\<rparr>"

text \<open>A look at the clock: how many decoys it sends, and the scheduler after it.\<close>

definition sched_enter :: "int \<Rightarrow> (int \<Rightarrow> int) \<Rightarrow> int \<Rightarrow> sched \<Rightarrow> nat \<times> sched" where
  "sched_enter D instant t c =
     (if t div D \<noteq> sc_slot c
      then (if 0 \<le> sc_slot c \<and> \<not> sc_fired c then 1 else 0, \<lparr>sc_slot = t div D, sc_fireAt = instant (t div D), sc_fired = False\<rparr>)
      else (0, c))"

definition sched_fire :: "int \<Rightarrow> sched \<Rightarrow> nat \<times> sched" where
  "sched_fire t c = (if \<not> sc_fired c \<and> sc_fireAt c \<le> t then (1, c\<lparr>sc_fired := True\<rparr>) else (0, c))"

definition sched_look :: "int \<Rightarrow> (int \<Rightarrow> int) \<Rightarrow> int \<Rightarrow> sched \<Rightarrow> nat \<times> sched" where
  "sched_look D instant t c =
     (case sched_enter D instant t c of (n, c1) \<Rightarrow> (case sched_fire t c1 of (m, c2) \<Rightarrow> (n + m, c2)))"

text \<open>When decoys went out over a list of looks.\<close>

fun decoy_times :: "int \<Rightarrow> (int \<Rightarrow> int) \<Rightarrow> sched \<Rightarrow> int list \<Rightarrow> int list" where
  "decoy_times D instant c [] = []"
| "decoy_times D instant c (t # ts) =
     (case sched_look D instant t c of (n, c') \<Rightarrow> (if 0 < n then [t] else []) @ decoy_times D instant c' ts)"

text \<open>Between two looks: the last sign of life \<open>p\<close> is recent enough, by where the scheduler stands.\<close>

definition sched_ok :: "int \<Rightarrow> int \<Rightarrow> int \<Rightarrow> sched \<Rightarrow> bool" where
  "sched_ok D t p c \<longleftrightarrow> p \<le> t \<and> sc_slot c = t div D \<and> 0 \<le> sc_slot c \<and> sc_fireAt c < (sc_slot c + 1) * D
     \<and> (if sc_fired c then sc_slot c * D \<le> p else t < sc_fireAt c \<and> (sc_slot c - 1) * D \<le> p)"

lemma sched_gap:
  assumes "sched_ok D t p c" "0 < D" "t \<le> t'" "t' - t \<le> g"
  shows "t' - p < 2 * D + g"
proof -
  have m: "t < (sc_slot c + 1) * D"
    using assms(1,2) by (simp add: sched_ok_def) (metis assms(2) div_mult_mod_eq distrib_right mult_1 add_less_cancel_left pos_mod_bound)
  show ?thesis
  proof (cases "sc_fired c")
    case True
    then have "sc_slot c * D \<le> p" using assms(1) by (auto simp: sched_ok_def)
    then show ?thesis using m assms by (simp add: algebra_simps)
  next
    case False
    then have "t < sc_fireAt c" "(sc_slot c - 1) * D \<le> p" "sc_fireAt c < (sc_slot c + 1) * D"
      using assms(1) by (auto simp: sched_ok_def)
    then show ?thesis using assms by (simp add: algebra_simps)
  qed
qed

lemma next_slot:
  assumes "0 < D" "t \<le> t'" "t' - t \<le> (D::int)"
  shows "t' div D = t div D \<or> t' div D = t div D + 1"
proof -
  have "t div D \<le> t' div D" using zdiv_mono1 [OF assms(2,1)] .
  moreover have "t' div D \<le> (t + D) div D" using assms by (intro zdiv_mono1) simp_all
  moreover have "(t + D) div D = t div D + 1" using assms(1) by simp
  ultimately show ?thesis by linarith
qed

lemma look_ok:
  assumes "sched_ok D t p c" "0 < D" "t \<le> t'" "t' - t \<le> g" "g \<le> D"
    and i: "\<And>n. n * D \<le> instant n \<and> instant n < (n + 1) * D"
    and l: "sched_look D instant t' c = (n, c')"
  shows "sched_ok D t' (if 0 < n then t' else p) c'"
proof -
  have c: "sc_slot c = t div D" "0 \<le> sc_slot c" "p \<le> t" using assms(1) by (simp_all add: sched_ok_def)
  have t': "t' div D * D \<le> t'" using assms(2) by (metis div_mult_mod_eq le_add_same_cancel1 pos_mod_sign)
  have s: "t' div D = t div D \<or> t' div D = t div D + 1" using next_slot [OF assms(2,3)] assms(4,5) by linarith
  show ?thesis
  proof (cases "t' div D = sc_slot c")
    case True
    have l': "sched_look D instant t' c = sched_fire t' c" using True by (simp add: sched_look_def sched_enter_def case_prod_beta)
    show ?thesis
    proof (cases "\<not> sc_fired c \<and> sc_fireAt c \<le> t'")
      case f: True
      then have "n = 1" "c' = c\<lparr>sc_fired := True\<rparr>" using l l' by (simp_all add: sched_fire_def)
      moreover have "sc_fireAt c < (sc_slot c + 1) * D" using assms(1) unfolding sched_ok_def by blast
      ultimately show ?thesis using True t' c(2) unfolding sched_ok_def by simp
    next
      case False
      then have "n = 0" "c' = c" using l l' by (auto simp: sched_fire_def)
      then show ?thesis using assms(1,3) True False c by (auto simp: sched_ok_def)
    qed
  next
    case False
    then have new: "t' div D = sc_slot c + 1" using s c by simp
    let ?c1 = "\<lparr>sc_slot = t' div D, sc_fireAt = instant (t' div D), sc_fired = False\<rparr>"
    have e: "sched_enter D instant t' c = (if sc_fired c then 0 else 1, ?c1)" using False c(2) by (auto simp: sched_enter_def)
    have i': "(t' div D) * D \<le> instant (t' div D)" "instant (t' div D) < (t' div D + 1) * D" using i by blast+
    show ?thesis
    proof (cases "instant (t' div D) \<le> t'")
      case True
      then have "0 < n" "c' = ?c1\<lparr>sc_fired := True\<rparr>" using l e by (auto simp: sched_look_def sched_fire_def case_prod_beta)
      then show ?thesis using new c i' t' by (simp add: sched_ok_def)
    next
      case no: False
      then have n: "n = (if sc_fired c then 0 else 1)" "c' = ?c1" using l e by (auto simp: sched_look_def sched_fire_def case_prod_beta)
      have old: "sc_fired c \<longrightarrow> sc_slot c * D \<le> p" using assms(1) by (auto simp: sched_ok_def)
      have "(sc_slot c + 1 - 1) * D \<le> t'" using t' new assms(2) by (simp add: algebra_simps)
      then show ?thesis using n no new c i' old assms(3) by (auto simp: sched_ok_def)
    qed
  qed
qed

text \<open>Over a list of looks no further apart than \<open>g\<close>, decoys are less than two slots and \<open>g\<close> apart.\<close>

lemma decoys_apart:
  assumes "sched_ok D t p c" "0 < D" "g \<le> D" "\<And>n. n * D \<le> instant n \<and> instant n < (n + 1) * D"
    and "successively (\<lambda>a b. a \<le> b \<and> b - a \<le> g) (t # ts)" "0 \<le> g"
  shows "successively (\<lambda>a b. b - a < 2 * D + g) (p # decoy_times D instant c ts @ [last (t # ts)])"
  using assms(1,5)
proof (induction ts arbitrary: t p c)
  case Nil
  have "t - p < 2 * D + g" by (rule sched_gap [OF Nil.prems(1) assms(2) order_refl]) (simp add: assms(6))
  then show ?case by simp
next
  case (Cons t' ts)
  obtain n c' where l: "sched_look D instant t' c = (n, c')" by (cases "sched_look D instant t' c")
  have t: "t \<le> t'" "t' - t \<le> g" "successively (\<lambda>a b. a \<le> b \<and> b - a \<le> g) (t' # ts)" using Cons.prems(2) by simp_all
  note ok = look_ok [OF Cons.prems(1) assms(2) t(1,2) assms(3,4) l]
  note IH = Cons.IH [OF ok t(3)]
  show ?case
  proof (cases "0 < n")
    case True
    have "t' - p < 2 * D + g" by (rule sched_gap [OF Cons.prems(1) assms(2) t(1,2)])
    then show ?thesis using IH True l by simp
  next
    case False
    then show ?thesis using IH l by simp
  qed
qed

lemma start_ok_sched:
  assumes "0 \<le> t" "0 < D" "\<And>n. n * D \<le> instant n \<and> instant n < (n + 1) * D"
    and "sched_look D instant t \<lparr>sc_slot = -1, sc_fireAt = f, sc_fired = b\<rparr> = (n, c)"
  shows "sched_ok D t t c"
proof -
  have z: "0 \<le> t div D" using assms(1,2) by (simp add: pos_imp_zdiv_nonneg_iff)
  have t: "t div D * D \<le> t" using assms(2) by (metis div_mult_mod_eq le_add_same_cancel1 pos_mod_sign)
  have i: "instant (t div D) < (t div D + 1) * D" using assms(3) by blast
  have "(t div D - 1) * D \<le> t" using t assms(2) by (simp add: algebra_simps)
  then show ?thesis using assms(4) z t i
    by (auto simp: sched_look_def sched_enter_def sched_fire_def case_prod_beta sched_ok_def split: if_splits)
qed

subsection \<open>A run of the watch\<close>

text \<open>
  A tick whose waits are answered at once: topics derive, a slot is planned, decoys are sealed under
  fresh keys that agree with the invite's, and published to whoever is there.
\<close>

inductive ib_settles :: "inbox_env \<Rightarrow> int \<Rightarrow> inbox \<Rightarrow> inbox_effect list \<Rightarrow> inbox \<Rightarrow> bool" for E now where
  settled: "ib_waits s = None \<Longrightarrow> ib_settles E now s [] s"
| topic: "ib_waits s = Some (WTopic d ds want t) \<Longrightarrow> got_topic E now s = (es, s1) \<Longrightarrow> ib_settles E now s1 es' s2
    \<Longrightarrow> ib_settles E now s (es @ es') s2"
| plan: "ib_waits s = Some (WPlan n overdue t) \<Longrightarrow> got_plan E now s = (es, s1) \<Longrightarrow> ib_settles E now s1 es' s2
    \<Longrightarrow> ib_settles E now s (es @ es') s2"
| sealed: "ib_waits s = Some (WSeal topic again t) \<Longrightarrow> ie_key E = Some key \<Longrightarrow> dh_agree eph key \<Longrightarrow> length (dh_pub eph) = 32
    \<Longrightarrow> got_sealed E now eph s = (es, s1) \<Longrightarrow> ib_settles E now s1 es' s2 \<Longrightarrow> ib_settles E now s (es @ es') s2"
| published: "ib_waits s = Some (WPublish again t) \<Longrightarrow> got_published E now reach s = (es, s1) \<Longrightarrow> ib_settles E now s1 es' s2
    \<Longrightarrow> ib_settles E now s (es @ es') s2"

inductive_cases settledE: "ib_settles E now s es s'"

text \<open>The topics published on.\<close>

definition decoys_of :: "inbox_effect list \<Rightarrow> jstr list" where
  "decoys_of es = concat (map (\<lambda>e. case e of IPublish t f \<Rightarrow> [t] | _ \<Rightarrow> []) es)"

lemma decoys_of_simps [simp]:
  "decoys_of [] = []" "decoys_of (es @ es') = decoys_of es @ decoys_of es'" "decoys_of (ISubscribe t # es) = decoys_of es"
  "decoys_of (IUnsubscribe t # es) = decoys_of es" "decoys_of (IDerive d # es) = decoys_of es" "decoys_of (IPlan n # es) = decoys_of es"
  "decoys_of (ISeal t # es) = decoys_of es" "decoys_of (IPublish t f # es) = t # decoys_of es"
  "decoys_of (map (\<lambda>x. IUnsubscribe (g x)) xs) = []"
  by (auto simp: decoys_of_def)

text \<open>A watch that runs: it has its seed, it was not stopped, and its topics are those of their days.\<close>

definition ib_live :: "inbox_env \<Rightarrow> bytes \<Rightarrow> inbox \<Rightarrow> bool" where
  "ib_live E seed s \<longleftrightarrow> \<not> ib_stopped s \<and> ib_queued s = 0 \<and> ib_seed s = Some seed \<and> ib_waits s = None \<and> jm_inv (ib_topics s)
     \<and> (\<forall>d t. jm_get (ib_topics s) d = Some t \<longrightarrow> t = ib_topic E d)"

definition sane_env :: "inbox_env \<Rightarrow> bool" where
  "sane_env E \<longleftrightarrow> ie_key E \<noteq> None \<and> aead_tagged (ie_crypto E) \<and> crypto_lengths (ie_crypto E) \<and> 0 < ie_decoyEvery E"

lemma ib_topic_named:
  assumes "sane_env E"
  shows "ib_topic E d \<noteq> []"
proof -
  let ?m = "kdf (ie_crypto E) RV_LABEL (ie_inbox E) (paramsInfo \<lparr>rv_networkId = ie_networkId E, rv_dateUTC = d\<rparr>) 32"
  have "length ?m = 32" using assms by (simp add: sane_env_def kdf_def crypto_lengths_def)
  then have "length (ib_topic E d) = 52" using length_base32 [of ?m] by (simp add: ib_topic_def topicFromSecret_def topicFromMaterial_def)
  then show ?thesis by auto
qed

lemma remember_keeps [simp]:
  "ib_topics (remember e s) = ib_topics s" "ib_stopped (remember e s) = ib_stopped s" "ib_queued (remember e s) = ib_queued s"
  "ib_seed (remember e s) = ib_seed s" "ib_waits (remember e s) = ib_waits s" "ib_curSlot (remember e s) = ib_curSlot s"
  "ib_fireAt (remember e s) = ib_fireAt s" "ib_fired (remember e s) = ib_fired s" "ib_offsetMs (remember e s) = ib_offsetMs s"
  by (simp_all add: remember_def Let_def)

lemma ib_next_0: "ib_queued s = 0 \<Longrightarrow> ib_next E now (ib_queued s) x = (fst x, snd x\<lparr>ib_queued := 0\<rparr>)"
  by (cases x) simp

lemma seal_works:
  assumes "sane_env E" "ie_key E = Some key" "dh_agree eph key" "length (dh_pub eph) = 32"
  shows "\<exists>frame. decoyKnock (ie_crypto E) eph (ie_inbox E) (dh_pub key) = Some frame"
proof -
  obtain ss where "dh_fn eph (dh_pub key) = Some ss" using dh_agreeE [OF assms(3)] by blast
  from knock_frame [OF this assms(4) _ length_pack] assms(1) show ?thesis by (simp add: sane_env_def decoyKnock_def)
qed

lemma primary_cong:
  "ib_topics s' = ib_topics s \<Longrightarrow> ib_offsetMs s' = ib_offsetMs s \<Longrightarrow> primary_topic E now s' = primary_topic E now s"
  by (simp only: primary_topic_def)

text \<open>The last part of a run, with the primary topic at hand.\<close>

lemma fire_settles:
  assumes "sane_env E" "ib_live E seed s" "primary_topic E now s = Some T" "fire_decoy E now t s = (es, s1)" "ib_settles E now s1 es' s2"
  shows "decoys_of (es @ es') = replicate (fst (sched_fire t (sched_of s))) T \<and> sched_of s2 = snd (sched_fire t (sched_of s))
    \<and> ib_live E seed s2 \<and> ib_topics s2 = ib_topics s \<and> ib_offsetMs s2 = ib_offsetMs s"
proof (cases "\<not> ib_fired s \<and> ib_fireAt s \<le> t")
  case True
  have p: "primary_topic E now (s\<lparr>ib_fired := True\<rparr>) = Some T" using primary_cong [of s "s\<lparr>ib_fired := True\<rparr>"] assms(3) by simp
  have live: "\<not> ib_stopped s" "ib_queued s = 0" using assms(2) by (simp_all add: ib_live_def)
  then have s1: "es = [ISeal T]" "s1 = s\<lparr>ib_fired := True, ib_waits := Some (WSeal T False t)\<rparr>"
    using assms(4) True p by (auto simp: fire_decoy_def Let_def)
  from assms(5) obtain key eph es1 sa es2 where a: "ie_key E = Some key" "dh_agree eph key" "length (dh_pub eph) = 32"
      "got_sealed E now eph s1 = (es1, sa)" "ib_settles E now sa es2 s2" "es' = es1 @ es2"
    by (rule settledE) (auto simp: s1(2))
  obtain frame where f: "decoyKnock (ie_crypto E) eph (ie_inbox E) (dh_pub key) = Some frame" using seal_works [OF assms(1) a(1-3)] by blast
  have sa: "es1 = [IPublish T frame]" "sa = remember (take 32 frame) (s1\<lparr>ib_waits := Some (WPublish False t)\<rparr>)"
    using a(4) by (simp_all add: got_sealed_def s1(2) a(1) f)
  from a(5) obtain reach es3 sb es4 where b: "got_published E now reach sa = (es3, sb)" "ib_settles E now sb es4 s2" "es2 = es3 @ es4"
    by (rule settledE) (auto simp: sa(2))
  have sb: "es3 = []" "ib_waits sb = None" "sched_of sb = snd (sched_fire t (sched_of s))" "ib_topics sb = ib_topics s"
      "ib_stopped sb = ib_stopped s" "ib_queued sb = 0" "ib_seed sb = ib_seed s" "ib_offsetMs sb = ib_offsetMs s"
    using b(1) True live by (auto simp: got_published_def sa(2) s1(2) after_decoy_def run_over_def sched_of_def sched_fire_def)
  have "s2 = sb" "es4 = []" using b(2) by (auto elim: settledE simp: sb(2))
  then show ?thesis using sb s1(1) sa(1) a(6) b(3) True assms(2)
    by (simp add: ib_live_def sched_fire_def sched_of_def)
next
  case False
  then have s1: "es = []" "s1 = run_over s" using assms(4) by (auto simp: fire_decoy_def)
  have "s2 = s1" "es' = []" using assms(5) by (auto elim: settledE simp: s1 run_over_def)
  then show ?thesis using s1 False assms(2) by (auto simp: run_over_def sched_of_def sched_fire_def ib_live_def)
qed

lemma slot_settles:
  assumes "sane_env E" "ib_live E seed s" "primary_topic E now s = Some T" "ib_slot E now t s = (es, s1)" "ib_settles E now s1 es' s2"
    and "0 \<le> t"
  shows "decoys_of (es @ es') = replicate (fst (sched_look (ie_decoyEvery E) (slot_instant E seed) t (sched_of s))) T
    \<and> sched_of s2 = snd (sched_look (ie_decoyEvery E) (slot_instant E seed) t (sched_of s))
    \<and> ib_live E seed s2 \<and> ib_topics s2 = ib_topics s \<and> ib_offsetMs s2 = ib_offsetMs s"
proof (cases "slotOf E t = ib_curSlot s")
  case True
  then have f: "fire_decoy E now t s = (es, s1)" using assms(4) by (simp add: ib_slot_def)
  have e: "sched_enter (ie_decoyEvery E) (slot_instant E seed) t (sched_of s) = (0, sched_of s)"
    using True by (simp add: sched_enter_def sched_of_def slotOf_def)
  from fire_settles [OF assms(1-3) f assms(5)] show ?thesis by (simp add: sched_look_def e case_prod_beta)
next
  case False
  let ?n = "slotOf E t" and ?over = "0 \<le> ib_curSlot s \<and> \<not> ib_fired s"
  let ?sp = "s\<lparr>ib_waits := None, ib_curSlot := ?n, ib_fired := False, ib_fireAt := slot_instant E seed ?n\<rparr>"
  have live: "\<not> ib_stopped s" "ib_queued s = 0" "ib_seed s = Some seed" using assms(2) by (simp_all add: ib_live_def)
  have s1: "es = [IPlan ?n]" "s1 = s\<lparr>ib_waits := Some (WPlan ?n ?over t)\<rparr>"
    using assms(4) False live(3) by (auto simp: ib_slot_def Let_def)
  from assms(5) obtain es1 sa es2 where a: "got_plan E now s1 = (es1, sa)" "ib_settles E now sa es2 s2" "es' = es1 @ es2"
    by (rule settledE) (auto simp: s1(2))
  have lp: "ib_live E seed ?sp" using assms(2) by (simp add: ib_live_def)
  have pp: "primary_topic E now ?sp = Some T" using primary_cong [of ?sp s] assms(3) by simp
  have n0: "ib_queued (snd (fire_decoy E now t x)) = ib_queued x" for x
    by (simp add: fire_decoy_def Let_def run_over_def split: option.split)
  have q0: "x\<lparr>ib_queued := 0\<rparr> = x" if "ib_queued x = 0" for x :: inbox using that by simp
  have sched_sp: "sched_of ?sp = \<lparr>sc_slot = t div ie_decoyEvery E, sc_fireAt = slot_instant E seed (t div ie_decoyEvery E), sc_fired = False\<rparr>"
    by (simp add: sched_of_def slotOf_def)
  have e: "sched_enter (ie_decoyEvery E) (slot_instant E seed) t (sched_of s) = (if ?over then 1 else 0, sched_of ?sp)"
    using False by (simp add: sched_enter_def sched_sp) (simp add: sched_of_def slotOf_def)
  show ?thesis
  proof (cases ?over)
    case no: False
    have "fire_decoy E now t ?sp = (es1, sa)"
      using a(1) no live n0 [of ?sp] q0 by (cases "fire_decoy E now t ?sp") (auto simp: got_plan_def s1(2) live(3))
    from fire_settles [OF assms(1) lp pp this a(2)] no show ?thesis
      by (simp add: sched_look_def e case_prod_beta s1(1) a(3))
  next
    case yes: True
    have dates: "activeDatesForOffset now (ib_offsetMs ?sp) (ie_guard E) \<noteq> None"
      using pp by (auto simp: primary_topic_def split: option.splits)
    have sa: "es1 = [ISeal T]" "sa = ?sp\<lparr>ib_waits := Some (WSeal T True t)\<rparr>"
      using a(1) yes live pp dates by (auto simp: got_plan_def s1(2) overdue_decoy_def)
    from a(2) obtain key eph es3 sb es4 where b: "ie_key E = Some key" "dh_agree eph key" "length (dh_pub eph) = 32"
        "got_sealed E now eph sa = (es3, sb)" "ib_settles E now sb es4 s2" "es2 = es3 @ es4"
      by (rule settledE) (auto simp: sa(2))
    obtain frame where f: "decoyKnock (ie_crypto E) eph (ie_inbox E) (dh_pub key) = Some frame" using seal_works [OF assms(1) b(1-3)] by blast
    have sb: "es3 = [IPublish T frame]" "sb = remember (take 32 frame) (sa\<lparr>ib_waits := Some (WPublish True t)\<rparr>)"
      using b(4) by (simp_all add: got_sealed_def sa(2) b(1) f)
    from b(5) obtain reach es5 sc es6 where c: "got_published E now reach sb = (es5, sc)" "ib_settles E now sc es6 s2" "es4 = es5 @ es6"
      by (rule settledE) (auto simp: sb(2))
    let ?sq = "sb\<lparr>ib_waits := None, ib_carried := (case reach of None \<Rightarrow> ib_carried sb | Some n \<Rightarrow> Some (n > 0))\<rparr>"
    have lq: "ib_live E seed ?sq" using lp by (auto simp: ib_live_def sb(2) sa(2))
    have pq: "primary_topic E now ?sq = Some T" using primary_cong [of ?sq ?sp] pp by (simp add: sb(2) sa(2))
    have w: "ib_waits sb = Some (WPublish True t)" "ib_queued sb = 0" using live(2) by (simp_all add: sb(2) sa(2))
    have q: "ib_queued (snd (fire_decoy E now t ?sq)) = 0" using n0 [of ?sq] w(2) by simp
    have "got_published E now reach sb = ib_next E now 0 (fire_decoy E now t ?sq)"
      by (simp add: got_published_def w after_decoy_def)
    then have "fire_decoy E now t ?sq = (es5, sc)"
      using c(1) q by (cases "fire_decoy E now t ?sq") (simp add: q0)
    from fire_settles [OF assms(1) lq pq this c(2)]
    have r: "decoys_of (es5 @ es6) = replicate (fst (sched_fire t (sched_of ?sq))) T" "sched_of s2 = snd (sched_fire t (sched_of ?sq))"
      "ib_live E seed s2" "ib_topics s2 = ib_topics ?sq" "ib_offsetMs s2 = ib_offsetMs ?sq" by blast+
    have sq: "sched_of ?sq = sched_of ?sp" "ib_topics ?sq = ib_topics s" "ib_offsetMs ?sq = ib_offsetMs s"
      by (simp_all add: sched_of_def sb(2) sa(2))
    show ?thesis using r sq yes by (simp add: sched_look_def e case_prod_beta s1(1) a(3) sa(1) b(6) sb(1) c(3))
  qed
qed

text \<open>The whole run: every day that is wanted has its topic, and what is published is on the primary day's.\<close>

definition ran :: "inbox_env \<Rightarrow> bytes \<Rightarrow> int \<Rightarrow> jstr list \<Rightarrow> inbox \<Rightarrow> inbox_effect list \<Rightarrow> inbox \<Rightarrow> bool" where
  "ran E seed t W s es s' \<longleftrightarrow>
     decoys_of es = replicate (fst (sched_look (ie_decoyEvery E) (slot_instant E seed) t (sched_of s))) (ib_topic E (hd W))
     \<and> sched_of s' = snd (sched_look (ie_decoyEvery E) (slot_instant E seed) t (sched_of s))
     \<and> ib_live E seed s' \<and> ib_offsetMs s' = ib_offsetMs s \<and> (\<forall>x. jm_has (ib_topics s') x \<longleftrightarrow> x \<in> set W)"

lemma jm_get_wanted: "jm_get (filter (\<lambda>x. fst x \<in> A) m) k = (if k \<in> A then jm_get m k else None)"
  by (induction m) (auto simp: jm_get_def)

lemma retire_settles:
  assumes "sane_env E" "ib_live E seed s" "activeDatesForOffset now (ib_offsetMs s) (ie_guard E) = Some (d # ds)"
    and "\<forall>x\<in>set (d # ds). jm_has (ib_topics s) x" "ib_retire E now t (d # ds) s = (es, s1)" "ib_settles E now s1 es' s2" "0 \<le> t"
  shows "ran E seed t (d # ds) s (es @ es') s2"
proof -
  let ?s = "s\<lparr>ib_topics := filter (\<lambda>x. fst x \<in> set (d # ds)) (ib_topics s)\<rparr>"
  obtain es0 where r: "ib_slot E now t ?s = (es0, s1)" "decoys_of es = decoys_of es0"
    using assms(5) by (auto simp: ib_retire_def Let_def split: prod.splits)
  have g: "jm_get (ib_topics ?s) k = (if k \<in> set (d # ds) then jm_get (ib_topics s) k else None)" for k
    by (simp add: jm_get_wanted del: list.set)
  have lv: "ib_live E seed ?s" using assms(2) g by (auto simp: ib_live_def simp del: list.set split: if_splits)
  have t: "jm_get (ib_topics s) d = Some (ib_topic E d)" using assms(2,4) by (auto simp: ib_live_def jm_has_def)
  note n = ib_topic_named [OF assms(1), of d]
  have w: "jm_has (ib_topics ?s) x \<longleftrightarrow> x \<in> set (d # ds)" for x using assms(4) unfolding jm_has_def g by auto
  have p: "primary_topic E now ?s = Some (ib_topic E d)"
    unfolding primary_topic_def g using assms(3) t n by simp
  have "sched_of ?s = sched_of s" by (simp add: sched_of_def)
  moreover have "ib_topics s2 = ib_topics ?s" using slot_settles [OF assms(1) lv p r(1) assms(6,7)] by blast
  ultimately show ?thesis using slot_settles [OF assms(1) lv p r(1) assms(6,7)] r(2) w unfolding ran_def by simp
qed

lemma days_keep:
  "ib_days E now t want ds s = (es, s') \<Longrightarrow> ib_queued s' = ib_queued s"
proof (induction ds arbitrary: es s')
  case Nil
  then show ?case by (auto simp: ib_retire_def ib_slot_def fire_decoy_def run_over_def Let_def split: prod.splits option.splits if_splits)
qed (auto split: if_splits)

lemma days_settle:
  assumes "sane_env E" "ib_days E now t (d # dr) ds s = (es, s1)" "ib_settles E now s1 es' s2"
    and "ib_live E seed s" "activeDatesForOffset now (ib_offsetMs s) (ie_guard E) = Some (d # dr)"
    and "\<forall>x\<in>set (d # dr). jm_has (ib_topics s) x \<or> x \<in> set ds" "0 \<le> t"
  shows "ran E seed t (d # dr) s (es @ es') s2 \<and> (\<forall>x\<in>set ds. \<not> jm_has (ib_topics s) x \<longrightarrow> ISubscribe (ib_topic E x) \<in> set (es @ es'))"
  using assms(2-6)
proof (induction ds arbitrary: s es s1 es')
  case Nil
  then show ?case using retire_settles [OF assms(1) _ _ _ _ _ assms(7)] by simp
next
  case (Cons x ds)
  have live: "\<not> ib_stopped s" "ib_queued s = 0" "ib_waits s = None" using Cons.prems(3) by (simp_all add: ib_live_def)
  show ?case
  proof (cases "jm_has (ib_topics s) x")
    case True
    then have "ib_days E now t (d # dr) ds s = (es, s1)" "\<forall>x\<in>set (d # dr). jm_has (ib_topics s) x \<or> x \<in> set ds"
      using Cons.prems(1,5) by auto
    from Cons.IH [OF this(1) Cons.prems(2-4) this(2)] True show ?thesis by auto
  next
    case False
    let ?sw = "s\<lparr>ib_topics := jm_set x [] (ib_topics s), ib_waits := Some (WTopic x ds (d # dr) t)\<rparr>"
    let ?sx = "s\<lparr>ib_topics := jm_set x (ib_topic E x) (jm_set x [] (ib_topics s))\<rparr>"
    have s1: "es = [IDerive x]" "s1 = ?sw" using Cons.prems(1) False live(1) by simp_all
    have w: "ib_waits s1 = Some (WTopic x ds (d # dr) t)" by (simp add: s1(2))
    from Cons.prems(2) obtain es1 sa es2 where a: "got_topic E now s1 = (es1, sa)" "ib_settles E now sa es2 s2" "es' = es1 @ es2"
      by (rule settledE) (auto simp: w)
    obtain esd sd where dd: "ib_days E now t (d # dr) ds ?sx = (esd, sd)" by (cases "ib_days E now t (d # dr) ds ?sx")
    have e: "s1\<lparr>ib_topics := jm_set x (ib_topic E x) (ib_topics s1), ib_waits := None\<rparr> = ?sx" using live(3) by (simp add: s1(2))
    have sdq: "ib_queued sd = 0" using days_keep [OF dd] live(2) by simp
    have "got_topic E now s1 = ib_next E now 0 (ISubscribe (ib_topic E x) # esd, sd)"
      unfolding got_topic_def w option.case ib_wait.case e dd using live(1,2) by (simp add: s1(2))
    then have sa: "es1 = ISubscribe (ib_topic E x) # esd" "sa = sd" using a(1) sdq by auto
    have lx: "ib_live E seed ?sx" using Cons.prems(3) by (auto simp: ib_live_def jm_get_set split: if_splits)
    have px: "activeDatesForOffset now (ib_offsetMs ?sx) (ie_guard E) = Some (d # dr)" using Cons.prems(4) by simp
    have h: "jm_has (ib_topics ?sx) y \<longleftrightarrow> y = x \<or> jm_has (ib_topics s) y" for y by (simp add: jm_has_def jm_get_set)
    then have hd: "\<forall>y\<in>set (d # dr). jm_has (ib_topics ?sx) y \<or> y \<in> set ds" using Cons.prems(5) by auto
    have so: "sched_of ?sx = sched_of s" by (simp add: sched_of_def)
    from Cons.IH [OF dd a(2) [unfolded sa(2)] lx px hd] show ?thesis
      unfolding ran_def so s1(1) a(3) sa(1) h by auto
  qed
qed

lemma tick_settles:
  assumes "sane_env E" "ib_live E seed s" "activeDatesForOffset t (ib_offsetMs s) (ie_guard E) = Some (d # dr)" "0 \<le> t"
    and "ib_tick E t s = (es, s1)" "ib_settles E t s1 es' s2"
  shows "ran E seed t (d # dr) s (es @ es') s2"
proof -
  have live: "\<not> ib_stopped s" "ib_queued s = 0" "ib_waits s = None" using assms(2) by (simp_all add: ib_live_def)
  obtain e1 x where d: "ib_days E t t (d # dr) (d # dr) s = (e1, x)" by (cases "ib_days E t t (d # dr) (d # dr) s")
  have "ib_queued x = 0" using days_keep [OF d] live(2) by simp
  then have "x\<lparr>ib_queued := 0\<rparr> = x" by simp
  then have "ib_days E t t (d # dr) (d # dr) s = (es, s1)"
    using assms(5) live d by (simp add: ib_tick_def ib_step_def assms(3) del: ib_days.simps)
  from days_settle [OF assms(1) this assms(6,2,3) _ assms(4)] show ?thesis by simp
qed

end
