(* ===== verification/InboxTheorems.thy ===== *)
theory InboxTheorems
  imports InboxFacts
begin

section \<open>What an invite's inbox promises\<close>

text \<open>
  Every wait of a run is answered in finitely many steps. Over a day of looks at the clock the decoys
  keep the primary topic of the inbox from the relay's eviction; a knock that a clock close enough
  sends is shown once, cut to its budget; no flood opens or shows more than the caps say.
\<close>

subsection \<open>A run ends\<close>

fun wait_rank :: "ib_wait option \<Rightarrow> nat" where
  "wait_rank None = 0"
| "wait_rank (Some WBegin) = 0"
| "wait_rank (Some (WPublish again t)) = (if again then 3 else 1)"
| "wait_rank (Some (WSeal topic again t)) = (if again then 4 else 2)"
| "wait_rank (Some (WPlan n overdue t)) = 5"
| "wait_rank (Some (WTopic d ds want t)) = 6 + length ds"

text \<open>A step that leaves the queue and does not wait for the beginning, at most \<open>n\<close> from its end.\<close>

definition nears :: "nat \<Rightarrow> inbox \<Rightarrow> inbox \<Rightarrow> bool" where
  "nears n s s' \<longleftrightarrow> wait_rank (ib_waits s') \<le> n \<and> ib_waits s' \<noteq> Some WBegin \<and> ib_queued s' = ib_queued s"

lemma fire_nears: "nears 2 s (snd (fire_decoy E now t s))"
  by (simp add: nears_def fire_decoy_def run_over_def Let_def split: option.split)

lemma overdue_nears: "nears 4 s (snd (overdue_decoy E now t s))"
  using fire_nears [of s E now t] by (auto simp: nears_def overdue_decoy_def run_over_def split: option.split)

lemma after_nears: "nears (if again then 2 else 0) s (snd (after_decoy E now again t s))"
  using fire_nears [of s E now t] by (simp add: nears_def after_decoy_def run_over_def)

lemma slot_nears: "nears 5 s (snd (ib_slot E now t s))"
  using fire_nears [of s E now t] by (auto simp: nears_def ib_slot_def run_over_def Let_def split: option.split)

lemma days_near: "nears (5 + length ds) s (snd (ib_days E now t want ds s))"
proof (induction ds arbitrary: s)
  case Nil
  show ?case using slot_nears [of "s\<lparr>ib_topics := filter (\<lambda>x. fst x \<in> set want) (ib_topics s)\<rparr>" E now t]
    by (simp add: nears_def ib_retire_def Let_def case_prod_beta)
next
  case (Cons d ds)
  show ?case using Cons.IH [of s] by (auto simp: nears_def)
qed

lemma ib_next_done: "ib_queued (snd x) = 0 \<Longrightarrow> ib_next E now 0 x = x"
  by (cases x) simp

text \<open>
  With nothing queued, whatever a run waits for is answered, and after finitely many answers the run
  is over: there is a key to seal decoys to, and a fresh one that agrees with it.
\<close>

lemma run_ends:
  assumes "ie_key E = Some key" "dh_agree eph key" "length (dh_pub eph) = 32"
  shows "ib_queued s = 0 \<Longrightarrow> ib_waits s \<noteq> Some WBegin \<Longrightarrow> \<exists>es s'. ib_settles E now s es s'"
proof (induction "wait_rank (ib_waits s)" arbitrary: s rule: less_induct)
  case less
  have go: "\<exists>es s'. ib_settles E now s1 es s'"
    if "wait_rank (ib_waits s1) < wait_rank (ib_waits s)" "ib_waits s1 \<noteq> Some WBegin" "ib_queued s1 = 0" for s1
    using less.hyps [OF that(1,3,2)] .
  show ?case
  proof (cases "ib_waits s")
    case None
    then show ?thesis using settled by blast
  next
    case (Some w)
    show ?thesis
    proof (cases w)
      case WBegin
      then show ?thesis using less.prems Some by simp
    next
      case (WTopic d ds want t)
      let ?sx = "s\<lparr>ib_topics := jm_set d (ib_topic E d) (ib_topics s), ib_waits := None\<rparr>"
      obtain es s1 where g: "got_topic E now s = (es, s1)" by (cases "got_topic E now s")
      have "nears (5 + length ds) s s1"
        using g days_near [of ds ?sx E now t want] less.prems(1) Some WTopic
        by (cases "ib_stopped s") (auto simp: got_topic_def nears_def run_over_def case_prod_beta ib_next_done)
      then have "wait_rank (ib_waits s1) < wait_rank (ib_waits s)" "ib_waits s1 \<noteq> Some WBegin" "ib_queued s1 = 0"
        using less.prems(1) Some WTopic by (simp_all add: nears_def)
      then show ?thesis using go topic [OF _ g] Some WTopic by blast
    next
      case (WPlan n overdue t)
      obtain es s1 where g: "got_plan E now s = (es, s1)" by (cases "got_plan E now s")
      let ?sp = "s\<lparr>ib_waits := None, ib_curSlot := n, ib_fired := False,
          ib_fireAt := (case ib_seed s of None \<Rightarrow> 0 | Some seed \<Rightarrow> slot_instant E seed n)\<rparr>"
      have "nears 4 s s1"
        using g fire_nears [of ?sp E now t] overdue_nears [of ?sp E now t] less.prems(1) Some WPlan
        by (cases overdue) (auto simp: got_plan_def nears_def ib_next_done Let_def)
      then have "wait_rank (ib_waits s1) < wait_rank (ib_waits s)" "ib_waits s1 \<noteq> Some WBegin" "ib_queued s1 = 0"
        using less.prems(1) Some WPlan by (simp_all add: nears_def)
      then show ?thesis using go plan [OF _ g] Some WPlan by blast
    next
      case (WSeal topic again t)
      obtain es s1 where g: "got_sealed E now eph s = (es, s1)" by (cases "got_sealed E now eph s")
      have "nears 3 s s1 \<and> wait_rank (ib_waits s1) < wait_rank (ib_waits s)"
        using g after_nears [of again "run_over s" E now t] less.prems(1) Some WSeal
        by (auto simp: got_sealed_def nears_def run_over_def ib_next_done split: option.splits if_splits)
      then have "wait_rank (ib_waits s1) < wait_rank (ib_waits s)" "ib_waits s1 \<noteq> Some WBegin" "ib_queued s1 = 0"
        using less.prems(1) by (simp_all add: nears_def)
      then show ?thesis using go sealed [OF _ assms g] Some WSeal by blast
    next
      case (WPublish again t)
      obtain es s1 where g: "got_published E now None s = (es, s1)" by (cases "got_published E now None s")
      have "nears 2 s s1 \<and> wait_rank (ib_waits s1) < wait_rank (ib_waits s)"
        using g after_nears [of again "s\<lparr>ib_waits := None\<rparr>" E now t] less.prems(1) Some WPublish
        by (auto simp: got_published_def nears_def ib_next_done split: if_splits)
      then have "wait_rank (ib_waits s1) < wait_rank (ib_waits s)" "ib_waits s1 \<noteq> Some WBegin" "ib_queued s1 = 0"
        using less.prems(1) by (simp_all add: nears_def)
      then show ?thesis using go published [OF _ g] Some WPublish by blast
    qed
  qed
qed

subsection \<open>A day of looks at the clock\<close>

text \<open>
  Looks at the clock, each answered before the next, with frames heard and opened between them; the
  log has when decoys went out, and on which topic.
\<close>

inductive ib_rounds :: "inbox_env \<Rightarrow> int list \<Rightarrow> inbox \<Rightarrow> (int \<times> jstr) list \<Rightarrow> inbox \<Rightarrow> bool" for E where
  rest: "ib_rounds E [] s [] s"
| look: "ib_tick E t s = (es, s1) \<Longrightarrow> ib_settles E t s1 es' s2 \<Longrightarrow> ib_rounds E ts s2 lg s'
    \<Longrightarrow> ib_rounds E (t # ts) s (map (Pair t) (decoys_of (es @ es')) @ lg) s'"
| heard: "in_frame E now topic frame s = (r, s1) \<Longrightarrow> ib_rounds E ts s1 lg s' \<Longrightarrow> ib_rounds E ts s lg s'"
| opened: "in_opened E now d k s = (es, s1) \<Longrightarrow> ib_rounds E ts s1 lg s' \<Longrightarrow> ib_rounds E ts s lg s'"

definition ib_offset :: "inbox_env \<Rightarrow> int" where
  "ib_offset E = int (rotationOffsetSec (ie_crypto E) (ie_inbox E) \<lparr>rv_networkId = ie_networkId E, rv_dateUTC = []\<rparr>) * 1000"

text \<open>The watch after a look at \<open>t\<close>: it runs, and its topics are those of the days live at \<open>t\<close>.\<close>

definition listens :: "inbox_env \<Rightarrow> bytes \<Rightarrow> int \<Rightarrow> inbox \<Rightarrow> bool" where
  "listens E seed t s \<longleftrightarrow> ib_live E seed s \<and> ib_offsetMs s = ib_offset E
     \<and> (\<exists>W. activeDatesForOffset t (ib_offset E) (ie_guard E) = Some W \<and> (\<forall>x. jm_has (ib_topics s) x \<longleftrightarrow> x \<in> set W))"

lemma frame_keeps:
  assumes "in_frame E now topic frame s = (r, s1)"
  shows "ib_live E seed s1 = ib_live E seed s" "ib_offsetMs s1 = ib_offsetMs s" "ib_topics s1 = ib_topics s" "sched_of s1 = sched_of s"
  using assms by (auto simp: in_frame_def Let_def ib_live_def sched_of_def split: if_splits option.splits)

lemma opened_keeps:
  assumes "in_opened E now d k s = (es, s1)"
  shows "ib_live E seed s1 = ib_live E seed s" "ib_offsetMs s1 = ib_offsetMs s" "ib_topics s1 = ib_topics s" "sched_of s1 = sched_of s"
  using assms by (auto simp: in_opened_def Let_def ib_live_def sched_of_def split: if_splits option.splits knock.splits)

lemma heard_listens:
  "in_frame E now topic frame s = (r, s1) \<Longrightarrow> listens E seed t s \<Longrightarrow> listens E seed t s1"
  "in_opened E now d k s = (es, s2) \<Longrightarrow> listens E seed t s \<Longrightarrow> listens E seed t s2"
  by (simp_all add: listens_def frame_keeps opened_keeps)

lemma look_listens:
  assumes "sane_env E" "listens E seed p s" "activeDatesForOffset t (ib_offset E) (ie_guard E) = Some (d # dr)" "0 \<le> t"
    and "ib_tick E t s = (es, s1)" "ib_settles E t s1 es' s2"
  shows "listens E seed t s2" "ran E seed t (d # dr) s (es @ es') s2"
proof -
  have l: "ib_live E seed s" "ib_offsetMs s = ib_offset E" using assms(2) by (simp_all add: listens_def)
  show r: "ran E seed t (d # dr) s (es @ es') s2" using tick_settles [OF assms(1) l(1) _ assms(4-6)] assms(3) l(2) by simp
  show "listens E seed t s2"
    unfolding listens_def by (intro conjI exI [of _ "d # dr"]) (use r l(2) assms(3) in \<open>simp_all add: ran_def\<close>)
qed

lemma rounds_listen:
  assumes "ib_rounds E ts s lg s'" "sane_env E" "listens E seed t s"
    and "\<forall>x\<in>set ts. 0 \<le> x \<and> (\<exists>d ds. activeDatesForOffset x (ib_offset E) (ie_guard E) = Some (d # ds))"
  shows "listens E seed (last (t # ts)) s'"
  using assms
proof (induction arbitrary: t rule: ib_rounds.induct)
  case (look x s es s1 es' s2 ts lg s')
  obtain d ds where "activeDatesForOffset x (ib_offset E) (ie_guard E) = Some (d # ds)" "0 \<le> x" using look.prems(3) by auto
  from look_listens(1) [OF look.prems(1,2) this look.hyps(1,2)] look.IH [of x] look.prems(1,3) show ?case by simp
next
  case (heard now topic frame s r s1 ts lg s')
  then show ?case using heard_listens(1) by blast
next
  case (opened now d k s es s1 ts lg s')
  then show ?case using heard_listens(2) by blast
qed simp

text \<open>The decoys of the rounds are those of the scheduler, all on the topic of the primary day.\<close>

lemma rounds_decoys:
  assumes "ib_rounds E ts s lg s'" "sane_env E" "listens E seed t s"
    and "\<forall>x\<in>set ts. 0 \<le> x \<and> (\<exists>ds. activeDatesForOffset x (ib_offset E) (ie_guard E) = Some (d # ds))"
  shows "(\<forall>p\<in>set lg. snd p = ib_topic E d)
    \<and> set (map fst lg) = set (decoy_times (ie_decoyEvery E) (slot_instant E seed) (sched_of s) ts)"
  using assms
proof (induction arbitrary: t rule: ib_rounds.induct)
  case (look x s es s1 es' s2 ts lg s')
  obtain ds where d: "activeDatesForOffset x (ib_offset E) (ie_guard E) = Some (d # ds)" "0 \<le> x" using look.prems(3) by auto
  note l = look_listens [OF look.prems(1,2) d look.hyps(1,2)]
  obtain n c where c: "sched_look (ie_decoyEvery E) (slot_instant E seed) x (sched_of s) = (n, c)" by fastforce
  have r: "decoys_of (es @ es') = replicate n (ib_topic E d)" "sched_of s2 = c" using l(2) by (simp_all add: ran_def c)
  from look.IH [OF look.prems(1) l(1)] look.prems(3)
  have "(\<forall>p\<in>set lg. snd p = ib_topic E d) \<and> set (map fst lg) = set (decoy_times (ie_decoyEvery E) (slot_instant E seed) c ts)"
    by (simp add: r(2))
  then show ?case unfolding r(1) by (auto simp: c)
next
  case (heard now topic frame s r s1 ts lg s')
  then show ?case using heard_listens(1) [OF heard.hyps(1)] frame_keeps(4) [OF heard.hyps(1)] by metis
next
  case (opened now d' k s es s1 ts lg s')
  then show ?case using heard_listens(2) [OF opened.hyps(1)] opened_keeps(4) [OF opened.hyps(1)] by metis
qed simp

text \<open>The first run.\<close>

lemma begin_settles:
  assumes "sane_env E" "ib_begin E t (Some seed) new_inbox = (es, s1)" "ib_settles E t s1 es' s2" "0 \<le> t"
    and "activeDatesForOffset t (ib_offset E) (ie_guard E) = Some (d # dr)"
  shows "listens E seed t s2" "ISubscribe (ib_topic E d) \<in> set (es @ es')"
    and "\<exists>n. sched_look (ie_decoyEvery E) (slot_instant E seed) t \<lparr>sc_slot = -1, sc_fireAt = 0, sc_fired = False\<rparr> = (n, sched_of s2)"
proof -
  let ?s = "new_inbox\<lparr>ib_waits := None, ib_seed := Some seed, ib_offsetMs := ib_offset E\<rparr>"
  have live: "ib_live E seed ?s" by (simp add: ib_live_def new_inbox_def)
  obtain e1 x where b: "ib_days E t t (d # dr) (d # dr) ?s = (e1, x)" by (cases "ib_days E t t (d # dr) (d # dr) ?s")
  have "ib_queued x = 0" using days_keep [OF b] by (simp add: new_inbox_def)
  then have "x\<lparr>ib_queued := 0\<rparr> = x" by simp
  moreover have "ib_step E t ?s = (e1, x)"
    unfolding ib_step_def using assms(5) b by (simp add: new_inbox_def del: ib_days.simps)
  moreover have k: "ie_key E \<noteq> None" "ib_waits new_inbox = Some WBegin" "ib_queued new_inbox = 0"
    using assms(1) by (simp_all add: sane_env_def new_inbox_def)
  moreover have "ib_begin E t (Some seed) new_inbox = ib_next E t 0 (ib_step E t ?s)"
    unfolding ib_begin_def Let_def k(2,3) ib_offset_def using k(1) by (cases "ie_key E") simp_all
  ultimately have bb: "ib_days E t t (d # dr) (d # dr) ?s = (es, s1)" using assms(2) b by simp
  have off: "activeDatesForOffset t (ib_offsetMs ?s) (ie_guard E) = Some (d # dr)" using assms(5) by simp
  from days_settle [OF assms(1) bb assms(3) live off _ assms(4)]
  have r: "ran E seed t (d # dr) ?s (es @ es') s2" "\<forall>y\<in>set (d # dr). \<not> jm_has (ib_topics ?s) y \<longrightarrow> ISubscribe (ib_topic E y) \<in> set (es @ es')"
    by simp_all
  show "ISubscribe (ib_topic E d) \<in> set (es @ es')" using r(2) by (simp add: new_inbox_def jm_has_def)
  have o: "ib_offsetMs ?s = ib_offset E" by simp
  show "listens E seed t s2"
    unfolding listens_def by (intro conjI exI [of _ "d # dr"]) (use r(1) o assms(5) in \<open>simp_all add: ran_def\<close>)
  have "sched_of ?s = \<lparr>sc_slot = -1, sc_fireAt = 0, sc_fired = False\<rparr>" by (simp add: sched_of_def new_inbox_def)
  then show "\<exists>n. sched_look (ie_decoyEvery E) (slot_instant E seed) t \<lparr>sc_slot = -1, sc_fireAt = 0, sc_fired = False\<rparr> = (n, sched_of s2)"
    using r(1) unfolding ran_def by (metis prod.collapse)
qed

lemma near_sign:
  assumes "successively (\<lambda>a b. b - a < (G::int)) (p # xs @ [e])" "p \<le> w" "w \<le> e"
  shows "\<exists>q\<in>set (p # xs). q \<le> w \<and> w - q < G"
  using assms
proof (induction xs arbitrary: p)
  case Nil
  then show ?case by simp
next
  case (Cons x xs)
  show ?case
  proof (cases "w < x")
    case True
    then show ?thesis using Cons.prems by auto
  next
    case False
    then show ?thesis using Cons.IH [of x] Cons.prems by auto
  qed
qed

lemma later_looks:
  assumes "successively (\<lambda>a b. a \<le> b \<and> b - a \<le> (g::int)) (t # ts)"
  shows "\<forall>x\<in>set ts. t \<le> x"
  using assms
proof (induction ts arbitrary: t)
  case (Cons u us)
  have "t \<le> u" "successively (\<lambda>a b. a \<le> b \<and> b - a \<le> g) (u # us)" using Cons.prems by simp_all
  from this(1) Cons.IH [OF this(2)] show ?case by auto
qed simp

lemma instant_in_slot: "0 < ie_decoyEvery E \<Longrightarrow> n * ie_decoyEvery E \<le> slot_instant E seed n \<and> slot_instant E seed n < (n + 1) * ie_decoyEvery E"
  by (simp add: slot_instant_def distrib_right)

text \<open>
  C22: the inbox is kept alive. A watch begins and looks at its clock at least every \<open>g\<close> milliseconds,
  no longer than a slot, through a day of the invite; frames may come between. Then it has subscribed
  to the topic of the day, every decoy goes out there, and at no time since has the topic been
  silent for two slots and \<open>g\<close>: a relay whose idle time is that long never finds it evictable.
\<close>
theorem inbox_kept_alive:
  assumes "sane_env E" "ib_begin E t0 (Some seed) new_inbox = (es0, s0)" "ib_settles E t0 s0 es1 s1" "ib_rounds E ts s1 lg s2"
    and "0 \<le> t0" "0 \<le> g" "g \<le> ie_decoyEvery E" "successively (\<lambda>a b. a \<le> b \<and> b - a \<le> g) (t0 # ts)"
    and "\<forall>t\<in>set (t0 # ts). \<exists>ds. activeDatesForOffset t (ib_offset E) (ie_guard E) = Some (d # ds)"
    and "2 * ie_decoyEvery E + g \<le> idle"
  shows "ISubscribe (ib_topic E d) \<in> set (es0 @ es1) \<and> (\<forall>p\<in>set lg. snd p = ib_topic E d)
    \<and> (\<forall>w held. t0 \<le> w \<and> w \<le> last (t0 # ts) \<longrightarrow> (\<exists>p\<in>set (t0 # map fst lg). p \<le> w \<and> \<not> evictable w (Some p) held idle))"
proof -
  let ?D = "ie_decoyEvery E" and ?I = "slot_instant E seed"
  obtain ds where d: "activeDatesForOffset t0 (ib_offset E) (ie_guard E) = Some (d # ds)" using assms(9) by auto
  note b = begin_settles [OF assms(1-3,5) d]
  have mono: "\<forall>x\<in>set ts. t0 \<le> x" using later_looks [OF assms(8)] .
  then have pos: "\<forall>x\<in>set ts. 0 \<le> x \<and> (\<exists>ds. activeDatesForOffset x (ib_offset E) (ie_guard E) = Some (d # ds))"
    using assms(5,9) by auto
  note r = rounds_decoys [OF assms(4,1) b(1) pos]
  have D: "0 < ?D" using assms(1) by (simp add: sane_env_def)
  obtain n where n: "sched_look ?D ?I t0 \<lparr>sc_slot = -1, sc_fireAt = 0, sc_fired = False\<rparr> = (n, sched_of s1)" using b(3) by blast
  have ok: "sched_ok ?D t0 t0 (sched_of s1)" using start_ok_sched [OF assms(5) D _ n] instant_in_slot [OF D] by blast
  have a: "successively (\<lambda>a b. b - a < 2 * ?D + g) (t0 # decoy_times ?D ?I (sched_of s1) ts @ [last (t0 # ts)])"
    using decoys_apart [OF ok D assms(7) _ assms(8,6)] instant_in_slot [OF D] by blast
  have "\<exists>p\<in>set (t0 # map fst lg). p \<le> w \<and> \<not> evictable w (Some p) held idle" if "t0 \<le> w" "w \<le> last (t0 # ts)" for w held
  proof -
    from near_sign [OF a that] obtain p where "p \<in> set (t0 # map fst lg)" "p \<le> w" "w - p < 2 * ?D + g" using r by auto
    then show ?thesis using assms(10) by (intro bexI [of _ p]) (auto simp: evictable_def)
  qed
  then show ?thesis using b(2) r by blast
qed

subsection \<open>A knock arrives\<close>

lemma all_some_mem: "all_some xs = Some ys \<Longrightarrow> y \<in> set ys \<Longrightarrow> Some y \<in> set xs"
  by (induction xs arbitrary: ys rule: all_some.induct) auto

lemma date_named: "utcDateOf t \<noteq> Some []"
  using utcDateOf_parse [of t "[]"] by (auto simp: parse_date_def)

lemma days_named: "activeDatesForOffset t off guard = Some W \<Longrightarrow> [] \<notin> set W"
  by (auto simp: activeDatesForOffset_def Let_def addUTCDays_def date_named date_named [THEN not_sym] split: option.splits if_splits
      dest!: all_some_mem [of _ _ "[]"])

lemma date_of_found: "(d, T) \<in> set m \<Longrightarrow> \<exists>d'. date_of T m = Some d' \<and> (d', T) \<in> set m"
proof (induction m rule: rev_induct)
  case (snoc x m)
  have e: "date_of T (m @ [x]) = (if snd x = T then Some (fst x) else date_of T m)" by (simp add: date_of_def)
  show ?case
  proof (cases "snd x = T")
    case True
    then show ?thesis by (intro exI [of _ "fst x"]) (auto simp: e)
  next
    case False
    then have "(d, T) \<in> set m" using snoc.prems by auto
    then show ?thesis using snoc.IH False by (auto simp: e)
  qed
qed simp

lemma topic_heard:
  assumes "listens E seed t s" "activeDatesForOffset t (ib_offset E) (ie_guard E) = Some W" "d \<in> set W"
  obtains d' where "date_of (ib_topic E d) (ib_topics s) = Some d'" "ib_topic E d' = ib_topic E d" "d' \<noteq> []" "\<not> ib_stopped s"
proof -
  have l: "jm_inv (ib_topics s)" "\<And>x y. jm_get (ib_topics s) x = Some y \<Longrightarrow> y = ib_topic E x" "\<not> ib_stopped s"
    using assms(1) by (auto simp: listens_def ib_live_def)
  have h: "jm_has (ib_topics s) x \<longleftrightarrow> x \<in> set W" for x using assms(1,2) by (auto simp: listens_def)
  have "jm_get (ib_topics s) d = Some (ib_topic E d)" using h [of d] assms(3) l(2) by (auto simp: jm_has_def)
  from date_of_found [OF jm_get_Some_mem [OF this]] obtain d' where
    d': "date_of (ib_topic E d) (ib_topics s) = Some d'" "(d', ib_topic E d) \<in> set (ib_topics s)" by blast
  then have g: "jm_get (ib_topics s) d' = Some (ib_topic E d)" using jm_get_iff_mem [OF l(1)] by blast
  then have "d' \<in> set W" using h [of d'] by (simp add: jm_has_def)
  then have "d' \<noteq> []" using days_named [OF assms(2)] by blast
  then show ?thesis using that d'(1) l(2) [OF g] l(3) by simp
qed

lemma remember_caps [simp]: "ib_opened (remember e s) = ib_opened s" "ib_surfaced (remember e s) = ib_surfaced s"
    "ib_dropped (remember e s) = ib_dropped s" "ib_openDropped (remember e s) = ib_openDropped s"
  by (simp_all add: remember_def Let_def)

subsection \<open>What is remembered\<close>

text \<open>Everything that can happen to a watch, counting the frames taken and the decoys sealed, whose keys
  enter its memory.\<close>

inductive inbox_goes :: "inbox_env \<Rightarrow> nat \<Rightarrow> inbox \<Rightarrow> inbox \<Rightarrow> bool" for E where
  stays: "inbox_goes E 0 s s"
| hears: "inbox_goes E n s s1 \<Longrightarrow> in_frame E now topic frame s1 = (r, s2) \<Longrightarrow>
    inbox_goes E (if s2 = s1 then n else Suc n) s s2"
| opens: "inbox_goes E n s s1 \<Longrightarrow> in_opened E now d k s1 = (es, s2) \<Longrightarrow> inbox_goes E n s s2"
| begins: "inbox_goes E n s s1 \<Longrightarrow> ib_begin E now seed s1 = (es, s2) \<Longrightarrow> inbox_goes E n s s2"
| ticks: "inbox_goes E n s s1 \<Longrightarrow> ib_tick E now s1 = (es, s2) \<Longrightarrow> inbox_goes E n s s2"
| topics: "inbox_goes E n s s1 \<Longrightarrow> got_topic E now s1 = (es, s2) \<Longrightarrow> inbox_goes E n s s2"
| plans: "inbox_goes E n s s1 \<Longrightarrow> got_plan E now s1 = (es, s2) \<Longrightarrow> inbox_goes E n s s2"
| seals: "inbox_goes E n s s1 \<Longrightarrow> got_sealed E now eph s1 = (es, s2) \<Longrightarrow>
    inbox_goes E (if s2 = s1 then n else Suc n) s s2"
| publishes: "inbox_goes E n s s1 \<Longrightarrow> got_published E now reach s1 = (es, s2) \<Longrightarrow> inbox_goes E n s s2"
| stops: "inbox_goes E n s s1 \<Longrightarrow> ib_stop s1 = (es, s2) \<Longrightarrow> inbox_goes E n s s2"

text \<open>The key is in the set, and no more than \<open>n\<close> entered the queue after it.\<close>

definition recalls :: "nat \<Rightarrow> bytes \<Rightarrow> inbox \<Rightarrow> bool" where
  "recalls n e s \<longleftrightarrow> e \<in> set (ib_seenSet s) \<and> (\<exists>pre post. ib_seen s = pre @ e # post \<and> e \<notin> set pre \<and> length post \<le> n)"

lemma recallsI:
  "e \<in> set (ib_seenSet s) \<Longrightarrow> ib_seen s = pre @ e # post \<Longrightarrow> e \<notin> set pre \<Longrightarrow> length post \<le> n \<Longrightarrow> recalls n e s"
  by (auto simp: recalls_def)

lemma remember_recalls: "e \<notin> set (ib_seen s) \<Longrightarrow> recalls 0 e (remember e s)"
  by (cases "ib_seen s") (auto simp: recalls_def remember_def Let_def set_add_def SEEN_MAX_def)

lemma recalls_more:
  assumes "recalls n e s" and "Suc n < 512"
  shows "recalls (Suc n) e (remember x s)"
proof -
  obtain pre post where s: "ib_seen s = pre @ e # post" "e \<notin> set pre" "length post \<le> n" "e \<in> set (ib_seenSet s)"
    using assms(1) by (auto simp: recalls_def)
  have all: "recalls (Suc n) e (s\<lparr>ib_seen := ib_seen s @ [x], ib_seenSet := set_add x (ib_seenSet s)\<rparr>)"
    using s by (intro recallsI [of _ _ pre "post @ [x]"]) (auto simp: set_add_def)
  show ?thesis
  proof (cases pre)
    case Nil
    then have "\<not> SEEN_MAX < length (ib_seen s @ [x])" using s assms(2) by (simp add: SEEN_MAX_def)
    then show ?thesis using all by (simp add: remember_def Let_def)
  next
    case (Cons p pre')
    have "e \<noteq> p" using Cons s(2) by auto
    then have "recalls (Suc n) e (s\<lparr>ib_seen := tl (ib_seen s @ [x]), ib_seenSet := filter (\<lambda>y. y \<noteq> hd (ib_seen s @ [x])) (set_add x (ib_seenSet s))\<rparr>)"
      using s Cons by (intro recallsI [of _ _ pre' "post @ [x]"]) (auto simp: set_add_def)
    then show ?thesis using all by (simp add: remember_def Let_def)
  qed
qed

text \<open>A run of the watch leaves its memory alone.\<close>

definition mem_of :: "inbox \<Rightarrow> bytes list \<times> bytes list" where
  "mem_of s = (ib_seen s, ib_seenSet s)"

lemma fire_mem: "mem_of (snd (fire_decoy E now t s)) = mem_of s"
  by (simp add: mem_of_def fire_decoy_def run_over_def Let_def split: option.split)

lemma overdue_mem: "mem_of (snd (overdue_decoy E now t s)) = mem_of s"
  using fire_mem [of E now t s] by (auto simp: mem_of_def overdue_decoy_def run_over_def split: option.split)

lemma after_mem: "mem_of (snd (after_decoy E now again t s)) = mem_of s"
  using fire_mem [of E now t s] by (simp add: mem_of_def after_decoy_def run_over_def)

lemma slot_mem: "mem_of (snd (ib_slot E now t s)) = mem_of s"
  using fire_mem [of E now t s] by (auto simp: mem_of_def ib_slot_def run_over_def Let_def split: option.split)

lemma days_mem: "mem_of (snd (ib_days E now t want ds s)) = mem_of s"
proof (induction ds arbitrary: s)
  case Nil
  show ?case using slot_mem [of E now t "s\<lparr>ib_topics := filter (\<lambda>x. fst x \<in> set want) (ib_topics s)\<rparr>"]
    by (simp add: mem_of_def ib_retire_def Let_def case_prod_beta)
next
  case (Cons d ds)
  show ?case using Cons.IH [of s] by (auto simp: mem_of_def)
qed

lemma step_mem: "mem_of (snd (ib_step E now s)) = mem_of s"
  using days_mem by (simp add: ib_step_def split: option.split)

lemma next_mem: "mem_of (snd (ib_next E now n x)) = mem_of (snd x)"
proof (induction n arbitrary: x)
  case 0
  show ?case by (cases x) (simp add: mem_of_def)
next
  case (Suc n)
  show ?case
  proof (cases x)
    case (Pair es s)
    show ?thesis using Suc.IH [of "(es @ fst (ib_step E now s), snd (ib_step E now s))"] step_mem [of E now s]
      by (simp add: Pair case_prod_beta) (simp add: mem_of_def)
  qed
qed

lemma begin_mem: "mem_of (snd (ib_begin E now seed s)) = mem_of s"
  using step_mem by (simp add: ib_begin_def next_mem Let_def) (simp add: mem_of_def)

lemma tick_mem: "mem_of (snd (ib_tick E now s)) = mem_of s"
  using step_mem [of E now s] by (simp add: ib_tick_def next_mem) (simp add: mem_of_def)

lemma topic_mem: "mem_of (snd (got_topic E now s)) = mem_of s"
  using days_mem by (simp add: got_topic_def next_mem run_over_def case_prod_beta split: option.split ib_wait.split) (simp add: mem_of_def)

lemma plan_mem: "mem_of (snd (got_plan E now s)) = mem_of s"
  by (simp add: got_plan_def next_mem Let_def overdue_mem fire_mem split: option.split ib_wait.split) (simp add: mem_of_def)

lemma published_mem: "mem_of (snd (got_published E now reach s)) = mem_of s"
  by (simp add: got_published_def next_mem after_mem split: option.split ib_wait.split) (simp add: mem_of_def)

lemma sealed_mem: "mem_of (snd (got_sealed E now eph s)) = mem_of s \<or> (\<exists>x. mem_of (snd (got_sealed E now eph s)) = mem_of (remember x s))"
proof -
  have r: "mem_of (remember x (s\<lparr>ib_waits := w\<rparr>)) = mem_of (remember x s)" for x w by (simp add: mem_of_def remember_def Let_def)
  have "mem_of (run_over s) = mem_of s" by (simp add: mem_of_def run_over_def)
  then show ?thesis by (auto simp: got_sealed_def next_mem after_mem r split: option.split ib_wait.split)
qed

lemma frame_mem: "mem_of (snd (in_frame E now topic frame s)) = mem_of s \<or> (\<exists>x. mem_of (snd (in_frame E now topic frame s)) = mem_of (remember x s))"
  by (auto simp: in_frame_def Let_def mem_of_def split: option.split)

lemma opened_mem: "mem_of (snd (in_opened E now d k s)) = mem_of s"
  by (simp add: in_opened_def Let_def mem_of_def split: option.split knock.split)

lemma stop_mem: "mem_of (snd (ib_stop s)) = mem_of s"
  by (simp add: ib_stop_def mem_of_def)

lemma mem_recalls: "mem_of s' = mem_of s \<Longrightarrow> recalls n e s' = recalls n e s"
  by (simp add: mem_of_def recalls_def)

lemma one_more:
  assumes "mem_of s2 = mem_of s1 \<or> (\<exists>x. mem_of s2 = mem_of (remember x s1))" and "n < 512 \<longrightarrow> recalls n e s1"
    and "m = (if s2 = s1 then n else Suc n)" and "m < 512"
  shows "recalls m e s2"
proof (cases "s2 = s1")
  case True
  then show ?thesis using assms(2-4) by simp
next
  case False
  then have m: "m = Suc n" using assms(3) by simp
  show ?thesis using assms(1)
  proof
    assume "mem_of s2 = mem_of s1"
    then have "recalls n e s2" using mem_recalls [of s2 s1 n e] assms(2,4) m by simp
    then show ?thesis unfolding m recalls_def using le_SucI by blast
  next
    assume "\<exists>x. mem_of s2 = mem_of (remember x s1)"
    then obtain x where x: "mem_of s2 = mem_of (remember x s1)" by blast
    show ?thesis unfolding m mem_recalls [OF x] by (rule recalls_more) (use assms(2,4) m in simp_all)
  qed
qed

lemma goes_recalls:
  assumes "inbox_goes E n s s'" and "recalls 0 e s"
  shows "n < 512 \<longrightarrow> recalls n e s'"
  using assms
proof induction
  case (hears n s s1 now topic frame r s2)
  have "mem_of s2 = mem_of s1 \<or> (\<exists>x. mem_of s2 = mem_of (remember x s1))" using frame_mem [of E now topic frame s1] hears.hyps(2) by simp
  then show ?case by (intro impI one_more [OF _ hears.IH [OF hears.prems] refl])
next
  case (seals n s s1 now eph es s2)
  have "mem_of s2 = mem_of s1 \<or> (\<exists>x. mem_of s2 = mem_of (remember x s1))" using sealed_mem [of E now eph s1] seals.hyps(2) by simp
  then show ?case by (intro impI one_more [OF _ seals.IH [OF seals.prems] refl])
next
  case opens
  then show ?case using opened_mem mem_recalls by (metis snd_conv)
next
  case begins
  then show ?case using begin_mem mem_recalls by (metis snd_conv)
next
  case ticks
  then show ?case using tick_mem mem_recalls by (metis snd_conv)
next
  case topics
  then show ?case using topic_mem mem_recalls by (metis snd_conv)
next
  case plans
  then show ?case using plan_mem mem_recalls by (metis snd_conv)
next
  case publishes
  then show ?case using published_mem mem_recalls by (metis snd_conv)
next
  case stops
  then show ?case using stop_mem mem_recalls by (metis snd_conv)
qed simp

lemma recalled_not_taken: "recalls n (take 32 frame) s \<Longrightarrow> in_frame E now topic frame s = (None, s)"
  by (auto simp: recalls_def in_frame_def split: option.split)

text \<open>A frame under a fresh key, within the caps, is opened, and what it says is shown, and its key kept.\<close>

lemma fresh_frame_shown:
  assumes "date_of T (ib_topics s) = Some d" "d \<noteq> []" "\<not> ib_stopped s" "32 \<le> length frame"
    and "take 32 frame \<notin> set (ib_seen s)" "take 32 frame \<notin> set (ib_seenSet s)"
    and "length (recent now (ib_opened s)) < ie_maxOpenPerMin E" "length (recent now (ib_surfaced s)) < ie_maxPerMin E"
    and "open_frame E frame = Some (Real ik name note)"
  shows "\<exists>s3 s4. in_frame E now T frame s = (Some (frame, d), s3)
    \<and> in_opened E now d (open_frame E frame) s3 = ([IKnock ik name note d], s4) \<and> recalls 0 (take 32 frame) s4"
proof -
  let ?s3 = "(remember (take 32 frame) s)\<lparr>ib_opened := recent now (ib_opened s) @ [now]\<rparr>"
  let ?s4 = "?s3\<lparr>ib_surfaced := recent now (ib_surfaced s) @ [now]\<rparr>"
  have "in_frame E now T frame s = (Some (frame, d), ?s3)" using assms(1-7) by (simp add: in_frame_def Let_def)
  moreover have "in_opened E now d (open_frame E frame) ?s3 = ([IKnock ik name note d], ?s4)"
    using assms(8,9) by (simp add: in_opened_def Let_def)
  moreover have "recalls 0 (take 32 frame) ?s4"
    using remember_recalls [OF assms(5)] by (simp add: recalls_def)
  ultimately show ?thesis by blast
qed

text \<open>
  C21: a knock arrives. A watch of the inbox began and looked at its clock; somebody whose clock differs
  from its last look by no more than the guard knocks with a fresh key. What he sends goes to a topic
  the watch listens on; within the caps the frame is opened and shown with his identity key, his name
  and his note, each cut at a character to its budget; and the same frame is neither opened nor shown
  again, on whatever topic and whenever it comes, as long as fewer than 512 other frames were taken
  and decoys made since, whatever else the watch did.
\<close>
theorem knock_arrives:
  assumes "sane_env E" "aead_opens (ie_crypto E)" "ie_key E = Some key"
    and "ib_begin E t0 (Some seed) new_inbox = (es0, s0)" "ib_settles E t0 s0 es1 s1" "ib_rounds E ts s1 lg s2"
    and "\<forall>t\<in>set (t0 # ts). dated (t - ib_offset E)" "dated (sent - ib_offset E)"
    and "\<bar>last (t0 # ts) - sent\<bar> \<le> ie_guard E" "ie_guard E < DAY_MS"
    and "dh_agree eph key" "length (dh_pub eph) = 32" "dh_pub eph \<notin> set (ib_seen s2)" "dh_pub eph \<notin> set (ib_seenSet s2)"
    and "length ik = 32" "plain_text name" "plain_text note"
    and "length (recent now (ib_opened s2)) < ie_maxOpenPerMin E" "length (recent now (ib_surfaced s2)) < ie_maxPerMin E"
  shows "\<exists>T frame d name' note' s3 s4.
    sendKnock (ie_crypto E) eph (ie_inbox E) (dh_pub key) (ie_networkId E) (ie_guard E) ik name (Some note) sent
      = Some [ISubscribe T, IPublish T frame, IUnsubscribe T]
    \<and> in_frame E now T frame s2 = (Some (frame, d), s3) \<and> ib_topic E d = T
    \<and> in_opened E now d (open_frame E frame) s3 = ([IKnock ik name' note' d], s4)
    \<and> cut_text NAME_MAX name name' \<and> cut_text NOTE_MAX note note'
    \<and> (\<forall>n s5 now' T'. inbox_goes E n s4 s5 \<and> n < 512 \<longrightarrow> in_frame E now' T' frame s5 = (None, s5))"
proof -
  have off: "0 \<le> ib_offset E" by (simp add: ib_offset_def)
  have days: "0 \<le> t \<and> (\<exists>d ds. activeDatesForOffset t (ib_offset E) (ie_guard E) = Some (d # ds))" if "t \<in> set (t0 # ts)" for t
  proof -
    have dt: "dated (t - ib_offset E)" using assms(7) that by blast
    then have "0 \<le> t" using off by (simp add: dated_def DAY_MS_def)
    then show ?thesis using active_dates [OF dt] by metis
  qed
  obtain d0 ds0 where d0: "activeDatesForOffset t0 (ib_offset E) (ie_guard E) = Some (d0 # ds0)" using days [of t0] by auto
  have "0 \<le> t0" using days [of t0] by simp
  note l1 = begin_settles(1) [OF assms(1,4,5) this d0]
  have l: "listens E seed (last (t0 # ts)) s2" using rounds_listen [OF assms(6,1) l1] days by auto
  have "days_shared (last (t0 # ts)) sent (ib_offset E) (ie_guard E)"
    using clocks_meet [OF _ assms(8-10)] assms(7) last_in_set [of "t0 # ts"] by blast
  then obtain d W ds where d: "activeDatesForOffset (last (t0 # ts)) (ib_offset E) (ie_guard E) = Some W" "d \<in> set W"
      "activeDatesForOffset sent (ib_offset E) (ie_guard E) = Some (d # ds)"
    using active_dates [OF assms(8), of "ie_guard E"] unfolding days_shared_def by (metis insert_subset option.inject)
  obtain d' where d': "date_of (ib_topic E d) (ib_topics s2) = Some d'" "ib_topic E d' = ib_topic E d" "d' \<noteq> []" "\<not> ib_stopped s2"
    using topic_heard [OF l d(1,2)] .
  have tagged: "aead_tagged (ie_crypto E)" using assms(1) by (simp add: sane_env_def)
  have pn: "plain_text (case Some note of None \<Rightarrow> [] | Some t \<Rightarrow> t)" using assms(17) by simp
  obtain frame name' note' where f: "sealKnock (ie_crypto E) eph (ie_inbox E) (dh_pub key) ik name (Some note) = Some frame"
      "length frame = FRAME_LEN" "take EPH_LEN frame = dh_pub eph" "openKnock (ie_crypto E) (ie_inbox E) key frame = Some (Real ik name' note')"
      "cut_text NAME_MAX name name'" "cut_text NOTE_MAX note note'"
    using real_knock [OF assms(11,12) tagged assms(2,15,16) pn, of "ie_inbox E"] by auto
  have e: "take 32 frame = dh_pub eph" "32 \<le> length frame" using f(2,3) by (simp_all add: knock_sizes)
  have o: "open_frame E frame = Some (Real ik name' note')" using f(4) assms(3) by (simp add: open_frame_def)
  from fresh_frame_shown [OF d'(1,3,4) e(2) _ _ assms(18,19) o] assms(13,14) obtain s3 s4 where
    s: "in_frame E now (ib_topic E d) frame s2 = (Some (frame, d'), s3)"
      "in_opened E now d' (open_frame E frame) s3 = ([IKnock ik name' note' d'], s4)" "recalls 0 (take 32 frame) s4"
    unfolding e(1) by blast
  have again: "in_frame E now' T' frame s5 = (None, s5)" if "inbox_goes E n s4 s5" "n < 512" for n s5 now' T'
    using goes_recalls [OF that(1) s(3)] that(2) recalled_not_taken by blast
  have "sendKnock (ie_crypto E) eph (ie_inbox E) (dh_pub key) (ie_networkId E) (ie_guard E) ik name (Some note) sent
      = Some [ISubscribe (ib_topic E d), IPublish (ib_topic E d) frame, IUnsubscribe (ib_topic E d)]"
    using d(3) f(1) by (simp add: sendKnock_def Let_def ib_offset_def ib_topic_def)
  then show ?thesis using s(1,2) d'(2) f(5,6) again by blast
qed

subsection \<open>No flood gets past the caps\<close>

text \<open>No more than \<open>m\<close> in any minute.\<close>

definition per_minute :: "nat \<Rightarrow> int list \<Rightarrow> bool" where
  "per_minute m xs \<longleftrightarrow> (\<forall>w. length (filter (\<lambda>x. w - 60000 < x \<and> x \<le> w) xs) \<le> m)"

text \<open>The list a cap keeps stands for all that was let in, at every later look.\<close>

definition cap_holds :: "nat \<Rightarrow> int \<Rightarrow> int list \<Rightarrow> int list \<Rightarrow> bool" where
  "cap_holds m now kept all \<longleftrightarrow> per_minute m all \<and> (\<forall>x\<in>set all. x \<le> now) \<and> (\<forall>t\<ge>now. recent t kept = recent t all)"

lemma recent_later: "now \<le> t \<Longrightarrow> recent t (recent now xs) = recent t xs"
  by (induction xs) (auto simp: recent_def)

lemma cap_start: "cap_holds m now [] []"
  by (simp add: cap_holds_def per_minute_def)

lemma cap_later: "cap_holds m now kept all \<Longrightarrow> now \<le> t \<Longrightarrow> cap_holds m t kept all"
  by (auto simp: cap_holds_def)

lemma cap_refused: "cap_holds m now kept all \<Longrightarrow> cap_holds m now (recent now kept) all"
  by (simp add: cap_holds_def recent_later)

lemma cap_admitted:
  assumes "cap_holds m now kept all" "length (recent now kept) < m"
  shows "cap_holds m now (recent now kept @ [now]) (all @ [now])"
proof -
  have k: "recent now kept = recent now all" and le: "\<forall>x\<in>set all. x \<le> now" and pm: "per_minute m all"
    using assms(1) by (simp_all add: cap_holds_def)
  have "length (filter (\<lambda>x. w - 60000 < x \<and> x \<le> w) (all @ [now])) \<le> m" for w
  proof (cases "now \<le> w")
    case True
    have "filter (\<lambda>x. w - 60000 < x \<and> x \<le> w) all = filter (\<lambda>x. w - 60000 < x \<and> x \<le> w) (recent now all)"
      unfolding recent_def filter_filter using True by (intro filter_cong) auto
    then have "length (filter (\<lambda>x. w - 60000 < x \<and> x \<le> w) all) \<le> length (recent now all)" by simp
    then show ?thesis using assms(2) k by simp
  next
    case False
    then show ?thesis using pm by (simp add: per_minute_def)
  qed
  moreover have "recent t (recent now kept @ [now]) = recent t (all @ [now])" if "now \<le> t" for t
  proof -
    have "recent t (recent now kept) = recent t all" using k recent_later [OF that] by simp
    then show ?thesis by (simp add: recent_def)
  qed
  ultimately show ?thesis using le by (simp add: cap_holds_def per_minute_def)
qed

text \<open>Frames heard, each opened at once: when one was opened, and when one was shown.\<close>

fun ib_hears :: "inbox_env \<Rightarrow> (int \<times> jstr \<times> bytes) list \<Rightarrow> inbox \<Rightarrow> int list \<times> int list \<times> inbox" where
  "ib_hears E [] s = ([], [], s)"
| "ib_hears E ((t, topic, frame) # xs) s =
     (case in_frame E t topic frame s of
        (None, s1) \<Rightarrow> ib_hears E xs s1
      | (Some (f, d), s1) \<Rightarrow>
          (case in_opened E t d (open_frame E f) s1 of (es, s2) \<Rightarrow>
            (case ib_hears E xs s2 of (ops, shown, s') \<Rightarrow> (t # ops, map (\<lambda>_. t) es @ shown, s'))))"

lemma frame_cap:
  assumes "in_frame E now topic frame s = (r, s1)" "cap_holds (ie_maxOpenPerMin E) now (ib_opened s) ops"
  shows "cap_holds (ie_maxOpenPerMin E) now (ib_opened s1) (if r = None then ops else ops @ [now]) \<and> ib_surfaced s1 = ib_surfaced s"
  using assms cap_refused [OF assms(2)] cap_admitted [OF assms(2)]
  by (auto simp: in_frame_def Let_def split: if_splits option.splits)

lemma opened_cap:
  assumes "in_opened E now d k s = (es, s1)" "cap_holds (ie_maxPerMin E) now (ib_surfaced s) shown"
  shows "cap_holds (ie_maxPerMin E) now (ib_surfaced s1) (shown @ map (\<lambda>_. now) es) \<and> ib_opened s1 = ib_opened s"
  using assms cap_refused [OF assms(2)] cap_admitted [OF assms(2)]
  by (auto simp: in_opened_def Let_def split: if_splits option.splits knock.splits)

lemma hears_capped:
  assumes "ib_hears E xs s = (ops, shown, s')" "sorted (now # map fst xs)"
    and "cap_holds (ie_maxOpenPerMin E) now (ib_opened s) ops0" "cap_holds (ie_maxPerMin E) now (ib_surfaced s) shown0"
  shows "per_minute (ie_maxOpenPerMin E) (ops0 @ ops) \<and> per_minute (ie_maxPerMin E) (shown0 @ shown)"
  using assms
proof (induction xs arbitrary: s ops shown now ops0 shown0)
  case Nil
  then show ?case by (simp add: cap_holds_def)
next
  case (Cons x xs)
  obtain t topic frame where x: "x = (t, topic, frame)" by (metis prod_cases3)
  have le: "now \<le> t" and so: "sorted (t # map fst xs)" using Cons.prems(2) x by auto
  obtain r s1 where f: "in_frame E t topic frame s = (r, s1)" by (cases "in_frame E t topic frame s")
  note fc = frame_cap [OF f cap_later [OF Cons.prems(3) le]]
  note sc = cap_later [OF Cons.prems(4) le]
  show ?case
  proof (cases r)
    case None
    have h: "ib_hears E xs s1 = (ops, shown, s')" using Cons.prems(1) x f None by simp
    show ?thesis using Cons.IH [OF h so, of ops0 shown0] fc sc None by simp
  next
    case (Some p)
    obtain g d where p: "p = (g, d)" by (cases p)
    obtain es s2 where o: "in_opened E t d (open_frame E g) s1 = (es, s2)" by (cases "in_opened E t d (open_frame E g) s1")
    obtain ops' shown' where h: "ib_hears E xs s2 = (ops', shown', s')" "ops = t # ops'" "shown = map (\<lambda>_. t) es @ shown'"
      using Cons.prems(1) x f Some p o by (auto split: prod.splits)
    have "cap_holds (ie_maxPerMin E) t (ib_surfaced s1) shown0" using fc sc by simp
    note oc = opened_cap [OF o this]
    show ?thesis using Cons.IH [OF h(1) so, of "ops0 @ [t]" "shown0 @ map (\<lambda>_. t) es"] fc oc Some h(2,3) by simp
  qed
qed

text \<open>
  No flood gets past the caps. Whatever frames a fresh watch hears, on whatever topics, as time goes
  on, in no minute are more of them opened, or more knocks shown, than the caps say.
\<close>
theorem flood_bounded:
  assumes "ib_hears E xs (s\<lparr>ib_opened := [], ib_surfaced := []\<rparr>) = (ops, shown, s')" "sorted (map fst xs)"
  shows "per_minute (ie_maxOpenPerMin E) ops \<and> per_minute (ie_maxPerMin E) shown"
proof (cases xs)
  case Nil
  then show ?thesis using assms by (simp add: per_minute_def)
next
  case (Cons x ys)
  then have "sorted (fst x # map fst xs)" using assms(2) by auto
  from hears_capped [OF assms(1) this, of "[]" "[]"] show ?thesis by (simp add: cap_start)
qed

subsection \<open>At a concrete inbox\<close>

definition demo_icrypto :: crypto where
  "demo_icrypto = demo_crypto\<lparr>c_hkdf := (\<lambda>i s f n. replicate n 255)\<rparr>"

definition demo_ienv :: inbox_env where
  "demo_ienv = \<lparr>ie_crypto = demo_icrypto, ie_inbox = [1, 2, 3], ie_key = Some (demo_dh 5), ie_networkId = js ''net'', ie_guard = OVERLAP_MS,
     ie_decoyEvery = DECOY_EVERY_MS, ie_maxPerMin = MAX_PER_MIN, ie_maxOpenPerMin = MAX_OPEN_PER_MIN\<rparr>"

definition demo_day :: jstr where "demo_day = js ''2024-10-04''"

definition demo_begun :: inbox where
  "demo_begun = new_inbox\<lparr>ib_topics := [(demo_day, [])], ib_offsetMs := 23295000, ib_seed := Some [7],
     ib_waits := Some (WTopic demo_day [] [demo_day] 1728066495000)\<rparr>"

definition demo_listening :: inbox where
  "demo_listening = demo_begun\<lparr>ib_topics := [(demo_day, ib_topic demo_ienv demo_day)], ib_waits := None, ib_curSlot := 38401477,
     ib_fired := False, ib_fireAt := 1728066497295\<rparr>"

lemma demo_isane: "sane_env demo_ienv" "aead_opens (ie_crypto demo_ienv)" "ie_key demo_ienv = Some (demo_dh 5)"
proof -
  have "crypto_lengths demo_icrypto" "aead_tagged demo_icrypto" "aead_opens demo_icrypto"
    using demo_crypto_lengths demo_aead_tagged demo_aead_opens
    by (simp_all add: demo_icrypto_def crypto_lengths_def aead_tagged_def aead_opens_def)
  then show "sane_env demo_ienv" "aead_opens (ie_crypto demo_ienv)" "ie_key demo_ienv = Some (demo_dh 5)"
    by (simp_all add: sane_env_def demo_ienv_def DECOY_EVERY_MS_def)
qed

lemma demo_ioffset: "ib_offset demo_ienv = 23295000"
proof -
  have "replicate 4 (255 :: byte) = [255, 255, 255, 255]" by (simp add: numeral_eq_Suc)
  then show ?thesis by (simp add: ib_offset_def demo_ienv_def demo_icrypto_def rotationOffsetSec_def offsetFromMaterial_def kdf_def)
qed

lemma demo_days:
  assumes "0 \<le> x" "x \<le> 60000"
  shows "activeDatesForOffset (1728066495000 + x) 23295000 OVERLAP_MS = Some [demo_day]"
proof -
  have e: "1728066495000 + x - 23295000 = 1728043200000 + x" by simp
  have d: "(1728043200000 + x) div DAY_MS = 1728043200000 div DAY_MS" using assms by (simp add: DAY_MS_def)
  have "1728043200000 + x = 43200000 + x + 20000 * DAY_MS" by (simp add: DAY_MS_def)
  then have m: "(1728043200000 + x) mod DAY_MS = 43200000 + x" using assms by (simp only: mod_mult_self1) (simp add: DAY_MS_def)
  have "0 \<le> 1728043200000 + x" using assms by simp
  note mm = ms_midnight [OF this]
  show ?thesis unfolding activeDatesForOffset_def Let_def e mm m utcDateOf_same [OF d] demo_date demo_day_def
    using assms by (simp add: OVERLAP_MS_def DAY_MS_def)
qed

lemma demo_begins: "ib_begin demo_ienv 1728066495000 (Some [7]) new_inbox = ([IDerive demo_day], demo_begun)"
proof -
  have d: "activeDatesForOffset 1728066495000 23295000 (ie_guard demo_ienv) = Some [demo_day]"
    using demo_days [of 0] by (simp add: demo_ienv_def)
  show ?thesis
    unfolding ib_begin_def Let_def ib_offset_def [symmetric] demo_ioffset
    by (simp add: new_inbox_def demo_isane(3) ib_step_def d jm_has_def demo_begun_def)
qed

lemma demo_runs: "ib_settles demo_ienv 1728066495000 demo_begun [ISubscribe (ib_topic demo_ienv demo_day), IPlan 38401477] demo_listening"
proof -
  let ?T = "ib_topic demo_ienv demo_day"
  let ?s = "demo_begun\<lparr>ib_topics := [(demo_day, ?T)], ib_waits := Some (WPlan 38401477 False 1728066495000)\<rparr>"
  have D: "ie_decoyEvery demo_ienv = 45000" by (simp add: demo_ienv_def DECOY_EVERY_MS_def)
  have f: "replicate 4 (255 :: byte) = [255, 255, 255, 255]" by (simp add: numeral_eq_Suc)
  have i: "slot_instant demo_ienv [7] 38401477 = 1728066497295"
    unfolding slot_instant_def D by (simp add: demo_ienv_def demo_icrypto_def kdf_def f)
  have t: "got_topic demo_ienv 1728066495000 demo_begun = ([ISubscribe ?T, IPlan 38401477], ?s)"
    by (simp add: got_topic_def demo_begun_def new_inbox_def ib_retire_def ib_slot_def slotOf_def D Let_def)
  have p: "got_plan demo_ienv 1728066495000 ?s = ([], demo_listening)"
    by (simp add: got_plan_def Let_def demo_begun_def new_inbox_def i fire_decoy_def run_over_def demo_listening_def)
  have "ib_settles demo_ienv 1728066495000 ?s ([] @ []) demo_listening"
    by (rule plan [where n = 38401477 and overdue = False and t = 1728066495000, OF _ p settled]) (simp_all add: demo_listening_def)
  from topic [OF _ t this] show ?thesis by (simp add: demo_begun_def)
qed

lemma tick_runs:
  assumes "ib_live E seed s" "ie_key E = Some key" "dh_agree eph key" "length (dh_pub eph) = 32"
  shows "\<exists>es s1 es' s2. ib_tick E t s = (es, s1) \<and> ib_settles E t s1 es' s2"
proof -
  have l: "ib_waits s = None" "ib_queued s = 0" using assms(1) by (simp_all add: ib_live_def)
  obtain es s1 where st: "ib_step E t s = (es, s1)" by (cases "ib_step E t s")
  have n: "ib_queued s1 = 0 \<and> ib_waits s1 \<noteq> Some WBegin"
  proof (cases "activeDatesForOffset t (ib_offsetMs s) (ie_guard E)")
    case (Some W)
    then show ?thesis using st days_near [of W s E t t W] l by (auto simp: ib_step_def nears_def split: if_splits)
  qed (use st l in \<open>auto simp: ib_step_def split: if_splits\<close>)
  then have "ib_tick E t s = (es, s1)" using l st by (simp add: ib_tick_def ib_next_done)
  then show ?thesis using run_ends [OF assms(2-4)] n by blast
qed

theorem inbox_kept_alive_witness:
  "\<exists>es0 s0 es1 s1 lg s2. ib_begin demo_ienv 1728066495000 (Some [7]) new_inbox = (es0, s0)
    \<and> ib_settles demo_ienv 1728066495000 s0 es1 s1 \<and> ib_rounds demo_ienv [1728066525000, 1728066555000] s1 lg s2
    \<and> ISubscribe (ib_topic demo_ienv demo_day) \<in> set (es0 @ es1)
    \<and> (\<exists>p\<in>set (1728066495000 # map fst lg). p \<le> 1728066555000 \<and> \<not> evictable 1728066555000 (Some p) 0 120000)"
proof -
  note k = demo_isane(3) demo_dh_agree [of 7 5]
  have e: "length (dh_pub (demo_dh 7)) = 32" by (simp add: demo_dh_def)
  have g: "ie_guard demo_ienv = OVERLAP_MS" by (simp add: demo_ienv_def)
  have days: "\<forall>t\<in>set [1728066495000, 1728066525000, 1728066555000].
      \<exists>ds. activeDatesForOffset t (ib_offset demo_ienv) (ie_guard demo_ienv) = Some (demo_day # ds)"
    using demo_days [of 0] demo_days [of 30000] demo_days [of 60000] by (simp add: demo_ioffset g)
  have d: "activeDatesForOffset 1728066495000 (ib_offset demo_ienv) (ie_guard demo_ienv) = Some (demo_day # [])"
      "activeDatesForOffset 1728066525000 (ib_offset demo_ienv) (ie_guard demo_ienv) = Some (demo_day # [])"
    using demo_days [of 0] demo_days [of 30000] by (simp_all add: demo_ioffset g)
  have l: "listens demo_ienv [7] 1728066495000 demo_listening"
    using begin_settles(1) [OF demo_isane(1) demo_begins demo_runs _ d(1)] by simp
  then have "ib_live demo_ienv [7] demo_listening" by (simp add: listens_def)
  from tick_runs [OF this k e] obtain a1 x1 b1 y1 where r1: "ib_tick demo_ienv 1728066525000 demo_listening = (a1, x1)"
      "ib_settles demo_ienv 1728066525000 x1 b1 y1" by blast
  have "ib_live demo_ienv [7] y1" using look_listens(1) [OF demo_isane(1) l d(2) _ r1] by (simp add: listens_def)
  from tick_runs [OF this k e] obtain a2 x2 b2 y2 where r2: "ib_tick demo_ienv 1728066555000 y1 = (a2, x2)"
      "ib_settles demo_ienv 1728066555000 x2 b2 y2" by blast
  obtain lg where lg: "ib_rounds demo_ienv [1728066525000, 1728066555000] demo_listening lg y2"
    using look [OF r1 look [OF r2 rest]] by blast
  have D: "ie_decoyEvery demo_ienv = 45000" by (simp add: demo_ienv_def DECOY_EVERY_MS_def)
  from inbox_kept_alive [OF demo_isane(1) demo_begins demo_runs lg _ _ _ _ days, of 30000 120000]
  have "ISubscribe (ib_topic demo_ienv demo_day) \<in> set ([IDerive demo_day] @ [ISubscribe (ib_topic demo_ienv demo_day), IPlan 38401477])
    \<and> (\<exists>p\<in>set (1728066495000 # map fst lg). p \<le> 1728066555000 \<and> \<not> evictable 1728066555000 (Some p) 0 120000)"
    by (simp add: D)
  then show ?thesis using demo_begins demo_runs lg by blast
qed

theorem knock_arrives_witness:
  "\<exists>T frame d name' note' s3 s4.
    sendKnock demo_icrypto (demo_dh 7) [1, 2, 3] (dh_pub (demo_dh 5)) (js ''net'') OVERLAP_MS (replicate 32 9) (js ''Eve'') (Some (js ''hi'')) 1728066500000
      = Some [ISubscribe T, IPublish T frame, IUnsubscribe T]
    \<and> in_frame demo_ienv 1728066501000 T frame demo_listening = (Some (frame, d), s3) \<and> ib_topic demo_ienv d = T
    \<and> in_opened demo_ienv 1728066501000 d (open_frame demo_ienv frame) s3 = ([IKnock (replicate 32 9) name' note' d], s4)
    \<and> cut_text NAME_MAX (js ''Eve'') name' \<and> cut_text NOTE_MAX (js ''hi'') note'
    \<and> (\<forall>now' T'. in_frame demo_ienv now' T' frame s4 = (None, s4))"
proof -
  have f: "ib_seen demo_listening = []" "ib_seenSet demo_listening = []" "ib_opened demo_listening = []" "ib_surfaced demo_listening = []"
    by (simp_all add: demo_listening_def demo_begun_def new_inbox_def)
  have e: "ie_crypto demo_ienv = demo_icrypto" "ie_inbox demo_ienv = [1, 2, 3]" "ie_networkId demo_ienv = js ''net''" "ie_guard demo_ienv = OVERLAP_MS"
    "ie_maxOpenPerMin demo_ienv = 60" "ie_maxPerMin demo_ienv = 20"
    by (simp_all add: demo_ienv_def MAX_PER_MIN_def MAX_OPEN_PER_MIN_def)
  have dt: "\<forall>t\<in>set [1728066495000]. dated (t - ib_offset demo_ienv)" "dated (1728066500000 - ib_offset demo_ienv)"
    by (simp_all add: demo_ioffset dated_def DAY_MS_def)
  have t: "plain_text (js ''Eve'')" "plain_text (js ''hi'')" by (simp_all add: plain_text_def js_def high_surrogate_def low_surrogate_def)
  have k: "length (dh_pub (demo_dh 7)) = 32" by (simp add: demo_dh_def)
  from knock_arrives [OF demo_isane demo_begins demo_runs rest dt _ _ demo_dh_agree [of 7 5] k _ _ _ t, of "replicate 32 9" 1728066501000]
  obtain T frame d name' note' s3 s4 where
    "sendKnock demo_icrypto (demo_dh 7) [1, 2, 3] (dh_pub (demo_dh 5)) (js ''net'') OVERLAP_MS (replicate 32 9) (js ''Eve'') (Some (js ''hi'')) 1728066500000
      = Some [ISubscribe T, IPublish T frame, IUnsubscribe T]"
    "in_frame demo_ienv 1728066501000 T frame demo_listening = (Some (frame, d), s3)" "ib_topic demo_ienv d = T"
    "in_opened demo_ienv 1728066501000 d (open_frame demo_ienv frame) s3 = ([IKnock (replicate 32 9) name' note' d], s4)"
    "cut_text NAME_MAX (js ''Eve'') name'" "cut_text NOTE_MAX (js ''hi'') note'"
    and g: "\<And>n s5 now' T'. inbox_goes demo_ienv n s4 s5 \<and> n < 512 \<Longrightarrow> in_frame demo_ienv now' T' frame s5 = (None, s5)"
    by (auto simp: f e OVERLAP_MS_def DAY_MS_def recent_def)
  moreover have "in_frame demo_ienv now' T' frame s4 = (None, s4)" for now' T' using g [of 0 s4] stays by simp
  ultimately show ?thesis by blast
qed

theorem flood_bounded_witness:
  "\<exists>ops shown s'. ib_hears demo_ienv [(1728066500000, ib_topic demo_ienv demo_day, replicate 40 1), (1728066500005, ib_topic demo_ienv demo_day, replicate 40 2)] (demo_listening\<lparr>ib_opened := [], ib_surfaced := []\<rparr>) = (ops, shown, s')
    \<and> per_minute 60 ops \<and> per_minute 20 shown"
proof -
  have e: "ie_maxOpenPerMin demo_ienv = 60" "ie_maxPerMin demo_ienv = 20"
    by (simp_all add: demo_ienv_def MAX_PER_MIN_def MAX_OPEN_PER_MIN_def)
  obtain ops shown s' where h: "ib_hears demo_ienv [(1728066500000, ib_topic demo_ienv demo_day, replicate 40 1), (1728066500005, ib_topic demo_ienv demo_day, replicate 40 2)] (demo_listening\<lparr>ib_opened := [], ib_surfaced := []\<rparr>) = (ops, shown, s')"
    by (metis prod_cases3)
  from flood_bounded [OF this] show ?thesis using h e by simp
qed

end
