(* ===== verification/SelfSession.thy ===== *)
theory SelfSession
  imports Presence Room Picks
begin

section \<open>One session per identity (lib/selfsession.ts)\<close>

text \<open>
  Every window of an identity announces itself on a topic only that identity derives, and a window
  that hears another one stops. A frame is handled in two parts around the verification it awaits,
  and stepping down in two around the farewell it publishes; \<open>ss_inflight\<close> and \<open>ss_stepping\<close> are what
  those wait with. The rotating watch keeps one for every live day; a day's watch that was stopped
  stays in the list, not held, because what it had begun still ends.
\<close>

subsection \<open>One topic\<close>

record self_env =
  se_self :: jstr
  se_crypto :: crypto
  se_text :: text_env

record self_watch =
  ss_topic :: jstr
  ss_mac :: bytes
  ss_pre :: "jstr list"
  ss_nonces :: "(jstr, int) jmap"
  ss_done :: bool
  ss_settled :: bool
  ss_stepping :: "jstr option"
  ss_stopped :: bool
  ss_inflight :: "(announce_error + (jstr \<times> jstr)) list"

datatype self_effect =
    SSubscribe jstr
  | SUnsubscribe jstr
  | SAnnounce jstr
  | STaken jstr

definition new_self :: "jstr \<Rightarrow> bytes \<Rightarrow> self_watch" where
  "new_self topic k = \<lparr>ss_topic = topic, ss_mac = k, ss_pre = [], ss_nonces = [], ss_done = False, ss_settled = False,
     ss_stepping = None, ss_stopped = False, ss_inflight = []\<rparr>"

text \<open>\<open>watchSelfSession\<close>: subscribed, and announced at once.\<close>

definition self_start :: "jstr \<Rightarrow> bytes \<Rightarrow> self_effect list \<times> self_watch" where
  "self_start topic k = ([SSubscribe topic, SAnnounce topic], new_self topic k)"

definition self_stop :: "self_watch \<Rightarrow> self_effect list \<times> self_watch" where
  "self_stop w = ([SUnsubscribe (ss_topic w)], w\<lparr>ss_stopped := True\<rparr>)"

text \<open>\<open>stepDown\<close> up to its farewell, and after it.\<close>

definition stepDown :: "jstr \<Rightarrow> self_watch \<Rightarrow> self_effect list \<times> self_watch" where
  "stepDown by_peer w =
     (if ss_done w \<or> ss_stepping w \<noteq> None then ([], w)
      else ([SAnnounce (ss_topic w)], w\<lparr>ss_stepping := Some by_peer\<rparr>))"

definition stepped :: "self_watch \<Rightarrow> self_effect list \<times> self_watch" where
  "stepped w =
     (case ss_stepping w of
        None \<Rightarrow> ([], w)
      | Some p \<Rightarrow> if ss_done w then ([], w)
          else (case self_stop (w\<lparr>ss_done := True\<rparr>) of (es, w') \<Rightarrow> (es @ [STaken p], w')))"

text \<open>A frame, up to its verification. After \<open>self_stop\<close> the listener is gone.\<close>

definition self_frame :: "self_env \<Rightarrow> int \<Rightarrow> jstr \<Rightarrow> bytes \<Rightarrow> jstr option \<Rightarrow> self_watch \<Rightarrow> self_watch" where
  "self_frame E now topic raw sender w =
     (if ss_stopped w \<or> ss_done w \<or> topic \<noteq> ss_topic w then w
      else case origin (se_text E) raw sender of
          None \<Rightarrow> w
        | Some (from, data) \<Rightarrow>
            if from = se_self E then w
            else w\<lparr>ss_inflight := ss_inflight w @ [verifyAnnounce (se_crypto E) (se_text E) data (ss_mac w) now]\<rparr>)"

definition self_verified :: "self_env \<Rightarrow> int \<Rightarrow> announce_error + (jstr \<times> jstr) \<Rightarrow> self_watch \<Rightarrow> self_effect list \<times> self_watch" where
  "self_verified E now res w =
     (case res of
        Inl _ \<Rightarrow> ([], w)
      | Inr (peer, nonce) \<Rightarrow>
          if peer = [] \<or> peer = se_self E \<or> jm_has (ss_nonces w) nonce then ([], w)
          else let w1 = w\<lparr>ss_nonces := nonce_add nonce_window now nonce (ss_nonces w)\<rparr> in
            if \<not> ss_settled w1 then ([], w1\<lparr>ss_pre := set_add peer (ss_pre w1)\<rparr>) else stepDown peer w1)"

text \<open>The verification of the first frame in flight, or of a later one, is there.\<close>

definition self_answer :: "self_env \<Rightarrow> int \<Rightarrow> nat \<Rightarrow> self_watch \<Rightarrow> self_effect list \<times> self_watch" where
  "self_answer E now n w =
     (if n < length (ss_inflight w)
      then self_verified E now (ss_inflight w ! n) (w\<lparr>ss_inflight := take n (ss_inflight w) @ drop (Suc n) (ss_inflight w)\<rparr>)
      else ([], w))"

definition self_announce :: "self_watch \<Rightarrow> self_effect list" where
  "self_announce w = (if ss_stopped w \<or> ss_done w then [] else [SAnnounce (ss_topic w)])"

text \<open>\<open>[...preexisting].sort().pop()\<close>.\<close>

fun greatest :: "jstr \<Rightarrow> jstr list \<Rightarrow> jstr" where
  "greatest m [] = m"
| "greatest m (x # xs) = greatest (if str_less m x then x else m) xs"

definition self_settle :: "self_watch \<Rightarrow> self_effect list \<times> self_watch" where
  "self_settle w =
     (if ss_stopped w \<or> ss_settled w then ([], w)
      else let w1 = w\<lparr>ss_settled := True\<rparr> in
        case ss_pre w1 of [] \<Rightarrow> ([], w1) | p # ps \<Rightarrow> stepDown (greatest p ps) w1)"

subsection \<open>Everything that happens to one watch\<close>

datatype self_input =
    SsFrame int jstr bytes "jstr option"
  | SsAnswer int nat
  | SsFarewell
  | SsSettle
  | SsBeat
  | SsStop

definition self_do :: "self_env \<Rightarrow> self_input \<Rightarrow> self_watch \<Rightarrow> self_effect list \<times> self_watch" where
  "self_do E i w = (case i of
     SsFrame now topic raw sender \<Rightarrow> ([], self_frame E now topic raw sender w)
   | SsAnswer now n \<Rightarrow> self_answer E now n w
   | SsFarewell \<Rightarrow> stepped w
   | SsSettle \<Rightarrow> self_settle w
   | SsBeat \<Rightarrow> (self_announce w, w)
   | SsStop \<Rightarrow> self_stop w)"

definition self_step :: "self_env \<Rightarrow> self_watch \<Rightarrow> self_input \<Rightarrow> self_watch" where
  "self_step E w i = snd (self_do E i w)"

fun self_run :: "self_env \<Rightarrow> self_watch \<Rightarrow> self_input list \<Rightarrow> self_effect list" where
  "self_run E w [] = []"
| "self_run E w (i # is) = fst (self_do E i w) @ self_run E (self_step E w i) is"

subsection \<open>One watch for every live day\<close>

record self_slot =
  so_date :: jstr
  so_held :: bool
  so_watch :: self_watch

record self_rotating =
  sr_slots :: "self_slot list"
  sr_taken :: bool
  sr_stopped :: bool
  sr_wait :: "(jstr \<times> jstr list \<times> jstr list) option"

record self_cfg =
  sc_env :: self_env
  sc_offsetMs :: int
  sc_guard :: int

definition no_selves :: self_rotating where
  "no_selves = \<lparr>sr_slots = [], sr_taken = False, sr_stopped = False, sr_wait = None\<rparr>"

definition drop_slot :: "self_slot \<Rightarrow> self_effect list \<times> self_slot" where
  "drop_slot x = (case self_stop (so_watch x) of (es, w) \<Rightarrow> (es, x\<lparr>so_held := False, so_watch := w\<rparr>))"

text \<open>The watches held whose day is not in \<open>keep\<close> are stopped and let go.\<close>

definition drop_slots :: "jstr list \<Rightarrow> self_slot list \<Rightarrow> self_effect list \<times> self_slot list" where
  "drop_slots keep xs =
     (concat (map (\<lambda>x. if so_held x \<and> so_date x \<notin> set keep then fst (drop_slot x) else []) xs),
      map (\<lambda>x. if so_held x \<and> so_date x \<notin> set keep then snd (drop_slot x) else x) xs)"

definition stopAll :: "self_rotating \<Rightarrow> self_effect list \<times> self_rotating" where
  "stopAll r = (case drop_slots [] (sr_slots r) of (es, xs) \<Rightarrow> (es, r\<lparr>sr_slots := xs\<rparr>))"

definition onTaken :: "jstr \<Rightarrow> self_rotating \<Rightarrow> self_effect list \<times> self_rotating" where
  "onTaken by_peer r =
     (if sr_taken r \<or> sr_stopped r then ([], r)
      else case stopAll (r\<lparr>sr_taken := True\<rparr>) of (es, r') \<Rightarrow> (es @ [STaken by_peer], r'))"

definition holds_day :: "jstr \<Rightarrow> self_rotating \<Rightarrow> bool" where
  "holds_day d r = list_ex (\<lambda>x. so_held x \<and> so_date x = d) (sr_slots r)"

fun sync_days :: "jstr list \<Rightarrow> jstr list \<Rightarrow> self_rotating \<Rightarrow> self_effect list \<times> self_rotating" where
  "sync_days want [] r = (case drop_slots want (sr_slots r) of (es, xs) \<Rightarrow> (es, r\<lparr>sr_slots := xs, sr_wait := None\<rparr>))"
| "sync_days want (d # ds) r =
     (if holds_day d r then sync_days want ds r else ([], r\<lparr>sr_wait := Some (d, ds, want)\<rparr>))"

text \<open>\<open>sr_wait\<close> is \<open>syncing\<close>, with what the run waits for.\<close>

definition self_sync :: "self_cfg \<Rightarrow> int \<Rightarrow> self_rotating \<Rightarrow> self_effect list \<times> self_rotating" where
  "self_sync cfg now r =
     (if sr_stopped r \<or> sr_taken r \<or> sr_wait r \<noteq> None then ([], r)
      else case activeDatesForOffset now (sc_offsetMs cfg) (sc_guard cfg) of
          None \<Rightarrow> ([], r)
        | Some dates \<Rightarrow> sync_days dates dates r)"

text \<open>\<open>deriveForDate\<close> is there, or rejected, which ends the run.\<close>

definition self_derived :: "(jstr \<times> bytes) option \<Rightarrow> self_rotating \<Rightarrow> self_effect list \<times> self_rotating" where
  "self_derived answer r =
     (case sr_wait r of
        None \<Rightarrow> ([], r)
      | Some (d, ds, want) \<Rightarrow>
          (case answer of
             None \<Rightarrow> ([], r\<lparr>sr_wait := None\<rparr>)
           | Some (topic, k) \<Rightarrow>
               if sr_stopped r \<or> sr_taken r \<or> holds_day d r then ([], r\<lparr>sr_wait := None\<rparr>)
               else (case self_start topic k of (es, w) \<Rightarrow>
                 (case sync_days want ds (r\<lparr>sr_slots := sr_slots r @ [\<lparr>so_date = d, so_held = True, so_watch = w\<rparr>]\<rparr>) of
                    (es', r') \<Rightarrow> (es @ es', r')))))"

text \<open>An event of one day's watch; its callback is \<open>onTaken\<close>.\<close>

fun self_up :: "self_effect list \<Rightarrow> self_rotating \<Rightarrow> self_effect list \<times> self_rotating" where
  "self_up [] r = ([], r)"
| "self_up (STaken p # es) r =
     (case onTaken p r of (e1, r1) \<Rightarrow> (case self_up es r1 of (e2, r2) \<Rightarrow> (e1 @ e2, r2)))"
| "self_up (e # es) r = (case self_up es r of (e2, r2) \<Rightarrow> (e # e2, r2))"

definition self_event :: "self_cfg \<Rightarrow> nat \<Rightarrow> self_input \<Rightarrow> self_rotating \<Rightarrow> self_effect list \<times> self_rotating" where
  "self_event cfg n i r =
     (if n < length (sr_slots r) then
        (let x = sr_slots r ! n in
         case self_do (sc_env cfg) i (so_watch x) of (es, w) \<Rightarrow>
           self_up es (r\<lparr>sr_slots := (sr_slots r)[n := x\<lparr>so_watch := w\<rparr>]\<rparr>))
      else ([], r))"

definition selves_stop :: "self_rotating \<Rightarrow> self_effect list \<times> self_rotating" where
  "selves_stop r = stopAll (r\<lparr>sr_stopped := True\<rparr>)"

datatype selves_input =
    SrSync int
  | SrDerived "(jstr \<times> bytes) option"
  | SrWatch nat self_input
  | SrStop

definition selves_do :: "self_cfg \<Rightarrow> selves_input \<Rightarrow> self_rotating \<Rightarrow> self_effect list \<times> self_rotating" where
  "selves_do cfg i r = (case i of
     SrSync now \<Rightarrow> self_sync cfg now r
   | SrDerived a \<Rightarrow> self_derived a r
   | SrWatch n e \<Rightarrow> (if e = SsStop then ([], r) else self_event cfg n e r)
   | SrStop \<Rightarrow> selves_stop r)"

definition selves_step :: "self_cfg \<Rightarrow> self_rotating \<Rightarrow> selves_input \<Rightarrow> self_rotating" where
  "selves_step cfg r i = snd (selves_do cfg i r)"

fun selves_run :: "self_cfg \<Rightarrow> self_rotating \<Rightarrow> selves_input list \<Rightarrow> self_effect list" where
  "selves_run cfg r [] = []"
| "selves_run cfg r (i # is) = fst (selves_do cfg i r) @ selves_run cfg (selves_step cfg r i) is"

end
