(* ===== verification/SelfFacts.thy ===== *)
theory SelfFacts
  imports SelfSession
begin

section \<open>Windows of one identity stand down, both, once, and for a reason\<close>

text \<open>
  What a run of one watch rests on: every peer it noted, or steps down for, was announced on its topic
  under its key. The rotating watch tells of a takeover once and listens nowhere after. Two windows
  that exchange frames, in whatever order these arrive and the timers fire, end with both stopped.
\<close>

subsection \<open>For a reason\<close>

lemma greatest_mem: "greatest m xs = m \<or> greatest m xs \<in> set xs"
  by (induction xs arbitrary: m) (auto split: if_splits)

text \<open>What was noted satisfies \<open>H\<close>.\<close>

definition noted :: "self_env \<Rightarrow> (jstr \<Rightarrow> bool) \<Rightarrow> self_watch \<Rightarrow> bool" where
  "noted E H w \<longleftrightarrow> (\<forall>p\<in>set (ss_pre w). H p) \<and> (\<forall>p. ss_stepping w = Some p \<longrightarrow> H p)
     \<and> (\<forall>p n. Inr (p, n) \<in> set (ss_inflight w) \<longrightarrow> p \<noteq> [] \<longrightarrow> p \<noteq> se_self E \<longrightarrow> H p)"

lemma noted_stopped [simp]: "noted E H (w\<lparr>ss_stopped := b\<rparr>) = noted E H w"
  by (simp add: noted_def)

lemma noted_less: "noted E H w \<Longrightarrow> set rs \<subseteq> set (ss_inflight w) \<Longrightarrow> noted E H (w\<lparr>ss_inflight := rs\<rparr>)"
  unfolding noted_def by fastforce

text \<open>A frame that announces \<open>p\<close>, another peer, on a topic under its key.\<close>

definition announces :: "self_env \<Rightarrow> jstr \<Rightarrow> bytes \<Rightarrow> jstr \<Rightarrow> self_input \<Rightarrow> bool" where
  "announces E topic k p i \<longleftrightarrow> (\<exists>now raw sender from data nonce. i = SsFrame now topic raw sender
     \<and> origin (se_text E) raw sender = Some (from, data) \<and> from \<noteq> se_self E
     \<and> verifyAnnounce (se_crypto E) (se_text E) data k now = Inr (p, nonce) \<and> p \<noteq> [] \<and> p \<noteq> se_self E)"

lemma noted_stepDown:
  assumes "noted E H w" "H p"
  shows "noted E H (snd (stepDown p w))" "STaken x \<notin> set (fst (stepDown p w))"
  using assms by (auto simp: stepDown_def noted_def)

lemma noted_verified:
  assumes "noted E H w" "\<And>p n. res = Inr (p, n) \<Longrightarrow> p \<noteq> [] \<Longrightarrow> p \<noteq> se_self E \<Longrightarrow> H p"
  shows "noted E H (snd (self_verified E now res w)) \<and> STaken x \<notin> set (fst (self_verified E now res w))"
proof (cases res)
  case (Inr r)
  obtain p n where r: "r = (p, n)" by (cases r)
  let ?w = "w\<lparr>ss_nonces := nonce_add nonce_window now n (ss_nonces w)\<rparr>"
  have n: "noted E H ?w" using assms(1) by (simp add: noted_def)
  show ?thesis
  proof (cases "p = [] \<or> p = se_self E \<or> jm_has (ss_nonces w) n")
    case False
    then have h: "H p" using assms(2) Inr r by blast
    then have "noted E H (?w\<lparr>ss_pre := set_add p (ss_pre ?w)\<rparr>)" using n by (auto simp: noted_def)
    then show ?thesis using False Inr r noted_stepDown [OF n h] by (auto simp: self_verified_def Let_def)
  qed (use assms(1) Inr r in \<open>auto simp: self_verified_def\<close>)
qed (use assms(1) in \<open>simp add: self_verified_def\<close>)

lemma self_do_noted:
  assumes "noted E H w" "\<And>p. announces E (ss_topic w) (ss_mac w) p i \<Longrightarrow> H p"
  shows "noted E H (snd (self_do E i w)) \<and> (\<forall>p. STaken p \<in> set (fst (self_do E i w)) \<longrightarrow> H p)"
proof (cases i)
  case (SsFrame now topic raw sender)
  have "noted E H (self_frame E now topic raw sender w)"
    using assms SsFrame by (auto simp: self_frame_def noted_def announces_def split: option.split) metis
  then show ?thesis using SsFrame by (simp add: self_do_def)
next
  case (SsAnswer now n)
  show ?thesis
  proof (cases "n < length (ss_inflight w)")
    case True
    let ?w = "w\<lparr>ss_inflight := take n (ss_inflight w) @ drop (Suc n) (ss_inflight w)\<rparr>"
    have "noted E H ?w" by (rule noted_less [OF assms(1)]) (auto dest: in_set_takeD in_set_dropD)
    moreover have "\<And>p m. ss_inflight w ! n = Inr (p, m) \<Longrightarrow> p \<noteq> [] \<Longrightarrow> p \<noteq> se_self E \<Longrightarrow> H p"
      using assms(1) nth_mem [OF True] by (auto simp: noted_def)
    ultimately show ?thesis using noted_verified [of E H ?w "ss_inflight w ! n" now] SsAnswer True
      by (auto simp: self_do_def self_answer_def)
  qed (use assms(1) SsAnswer in \<open>simp add: self_do_def self_answer_def\<close>)
next
  case SsSettle
  have n: "noted E H (w\<lparr>ss_settled := True\<rparr>)" using assms(1) by (simp add: noted_def)
  show ?thesis
  proof (cases "ss_pre w")
    case (Cons p ps)
    then have "H (greatest p ps)" using assms(1) greatest_mem [of p ps] by (auto simp: noted_def)
    from noted_stepDown [OF n this] show ?thesis using SsSettle Cons assms(1) by (auto simp: self_do_def self_settle_def Let_def)
  qed (use SsSettle n assms(1) in \<open>auto simp: self_do_def self_settle_def Let_def\<close>)
qed (use assms(1) in \<open>auto simp: self_do_def stepped_def self_stop_def self_announce_def noted_def split: option.split\<close>)

lemma self_do_same:
  "ss_topic (snd (self_do E i w)) = ss_topic w" "ss_mac (snd (self_do E i w)) = ss_mac w"
  by (auto simp: self_do_def self_frame_def self_answer_def self_verified_def stepDown_def stepped_def self_stop_def self_settle_def Let_def
      split: self_input.split option.split sum.split prod.split list.split)

subsection \<open>The rotating watch\<close>

text \<open>Every watch has a derived topic and rests on \<open>H\<close>; one not held has stopped; none is held once it is over.\<close>

definition selves_ok :: "self_cfg \<Rightarrow> (jstr \<Rightarrow> bytes \<Rightarrow> bool) \<Rightarrow> (jstr \<Rightarrow> bool) \<Rightarrow> self_rotating \<Rightarrow> bool" where
  "selves_ok cfg D H r \<longleftrightarrow> (\<forall>x\<in>set (sr_slots r). noted (sc_env cfg) H (so_watch x) \<and> D (ss_topic (so_watch x)) (ss_mac (so_watch x))
     \<and> (\<not> so_held x \<longrightarrow> ss_stopped (so_watch x)) \<and> (sr_taken r \<or> sr_stopped r \<longrightarrow> \<not> so_held x))"

text \<open>The takeovers told.\<close>

definition takeovers :: "self_effect list \<Rightarrow> jstr list" where
  "takeovers es = concat (map (\<lambda>e. case e of STaken p \<Rightarrow> [p] | _ \<Rightarrow> []) es)"

lemma takeovers_simps [simp]:
  "takeovers [] = []" "takeovers (xs @ ys) = takeovers xs @ takeovers ys" "takeovers (STaken p # es) = p # takeovers es"
  "takeovers (SUnsubscribe t # es) = takeovers es" "takeovers (SSubscribe t # es) = takeovers es" "takeovers (SAnnounce t # es) = takeovers es"
  by (simp_all add: takeovers_def)

text \<open>What an operation tells, beside keeping that: nothing, or the takeover, once.\<close>

definition tells_once :: "self_cfg \<Rightarrow> (jstr \<Rightarrow> bytes \<Rightarrow> bool) \<Rightarrow> (jstr \<Rightarrow> bool) \<Rightarrow> self_rotating \<Rightarrow> self_effect list \<times> self_rotating \<Rightarrow> bool" where
  "tells_once cfg D H r x \<longleftrightarrow> selves_ok cfg D H (snd x) \<and> (\<forall>p\<in>set (takeovers (fst x)). H p)
     \<and> length (takeovers (fst x)) + (if sr_taken r then 1 else 0) = (if sr_taken (snd x) then 1 else 0)
     \<and> (sr_stopped r \<longrightarrow> sr_stopped (snd x))"

lemma drop_slots_tells [simp]: "takeovers (fst (drop_slots keep xs)) = []"
  unfolding drop_slots_def fst_conv
  by (induction xs) (simp_all add: drop_slot_def self_stop_def)

lemma drop_slots_ok:
  assumes "selves_ok cfg D H r" "\<not> (t \<or> u) \<or> keep = []"
  shows "selves_ok cfg D H (r\<lparr>sr_slots := snd (drop_slots keep (sr_slots r)), sr_taken := t, sr_stopped := u, sr_wait := q\<rparr>)"
  using assms by (auto simp: selves_ok_def drop_slots_def drop_slot_def self_stop_def)

lemma onTaken_tells:
  assumes "selves_ok cfg D H r" "H p"
  shows "tells_once cfg D H r (onTaken p r)"
proof (cases "sr_taken r \<or> sr_stopped r")
  case False
  let ?r = "r\<lparr>sr_slots := snd (drop_slots [] (sr_slots r)), sr_taken := True, sr_stopped := sr_stopped r, sr_wait := sr_wait r\<rparr>"
  have "snd (onTaken p r) = ?r" "fst (onTaken p r) = fst (drop_slots [] (sr_slots r)) @ [STaken p]"
    using False by (simp_all add: onTaken_def stopAll_def case_prod_beta)
  then show ?thesis using drop_slots_ok [OF assms(1), of True "sr_stopped r" "[]" "sr_wait r"] False assms(2)
    by (simp add: tells_once_def)
qed (use assms in \<open>simp add: onTaken_def tells_once_def\<close>)

lemma once_trans:
  "tells_once cfg D H r (es, r') \<Longrightarrow> tells_once cfg D H r' (es', r'') \<Longrightarrow> tells_once cfg D H r (es @ es', r'')"
  by (auto simp: tells_once_def)

lemma self_up_tells:
  "selves_ok cfg D H r \<Longrightarrow> (\<forall>p. STaken p \<in> set es \<longrightarrow> H p) \<Longrightarrow> tells_once cfg D H r (self_up es r)"
proof (induction es arbitrary: r)
  case (Cons e es)
  have other: "tells_once cfg D H r (e # fst (self_up es r), snd (self_up es r))" if "\<forall>p. e \<noteq> STaken p"
    using Cons.IH [OF Cons.prems(1)] Cons.prems(2) that by (cases e) (auto simp: tells_once_def)
  show ?case
  proof (cases e)
    case (STaken p)
    have t: "tells_once cfg D H r (onTaken p r)" using onTaken_tells [OF Cons.prems(1)] Cons.prems(2) STaken by auto
    obtain e1 r1 where o: "onTaken p r = (e1, r1)" by (cases "onTaken p r")
    obtain e2 r2 where u: "self_up es r1 = (e2, r2)" by (cases "self_up es r1")
    have "selves_ok cfg D H r1" using t o by (simp add: tells_once_def)
    from once_trans [OF t [unfolded o], of e2 r2] Cons.IH [OF this] Cons.prems(2) show ?thesis by (simp add: STaken o u)
  qed (use other in \<open>simp_all add: case_prod_beta\<close>)
qed (simp add: tells_once_def)

lemma sync_days_tells:
  assumes "selves_ok cfg D H r" "\<not> sr_taken r" "\<not> sr_stopped r"
  shows "tells_once cfg D H r (sync_days want ds r)"
proof (induction ds)
  case Nil
  have e: "r\<lparr>sr_slots := xs, sr_wait := None\<rparr> = r\<lparr>sr_slots := xs, sr_taken := False, sr_stopped := False, sr_wait := None\<rparr>" for xs
    using assms(2,3) by simp
  show ?case using drop_slots_ok [OF assms(1), of False False want None] assms(2,3)
    by (simp add: case_prod_beta tells_once_def e)
next
  case (Cons d ds)
  have "selves_ok cfg D H (r\<lparr>sr_wait := q\<rparr>)" for q using assms(1) by (simp add: selves_ok_def)
  then show ?case using Cons.IH by (simp add: tells_once_def)
qed

lemma selves_ok_wait [simp]: "selves_ok cfg D H (r\<lparr>sr_wait := q\<rparr>) = selves_ok cfg D H r"
  by (simp add: selves_ok_def)

lemma self_derived_tells:
  assumes "selves_ok cfg D H r" "\<And>topic k. a = Some (topic, k) \<Longrightarrow> D topic k"
  shows "tells_once cfg D H r (self_derived a r)"
proof (cases "sr_wait r")
  case (Some q)
  obtain d ds want where q: "q = (d, ds, want)" by (cases q)
  show ?thesis
  proof (cases "\<exists>topic k. a = Some (topic, k) \<and> \<not> (sr_stopped r \<or> sr_taken r \<or> holds_day d r)")
    case True
    then obtain topic k where a: "a = Some (topic, k)" "\<not> sr_stopped r" "\<not> sr_taken r" "\<not> holds_day d r" by blast
    let ?r = "r\<lparr>sr_slots := sr_slots r @ [\<lparr>so_date = d, so_held = True, so_watch = new_self topic k\<rparr>]\<rparr>"
    have "selves_ok cfg D H ?r" using assms a by (auto simp: selves_ok_def new_self_def noted_def)
    from sync_days_tells [OF this, of want ds] a show ?thesis
      by (simp add: self_derived_def Some q self_start_def case_prod_beta tells_once_def)
  next
    case False
    then have "self_derived a r = ([], r\<lparr>sr_wait := None\<rparr>)"
      by (auto simp: self_derived_def Some q split: option.split)
    then show ?thesis using assms(1) by (simp add: tells_once_def)
  qed
qed (use assms in \<open>simp add: self_derived_def tells_once_def\<close>)

lemma self_stays_stopped: "ss_stopped w \<Longrightarrow> ss_stopped (snd (self_do E i w))"
  by (auto simp: self_do_def self_frame_def self_answer_def self_verified_def stepDown_def stepped_def self_stop_def self_settle_def Let_def
      split: self_input.split option.split sum.split prod.split list.split)

lemma self_event_tells:
  assumes "selves_ok cfg D H r" "\<And>topic k p. D topic k \<Longrightarrow> announces (sc_env cfg) topic k p i \<Longrightarrow> H p"
  shows "tells_once cfg D H r (self_event cfg n i r)"
proof (cases "n < length (sr_slots r)")
  case True
  let ?x = "sr_slots r ! n"
  obtain es w where d: "self_do (sc_env cfg) i (so_watch ?x) = (es, w)" by (cases "self_do (sc_env cfg) i (so_watch ?x)")
  let ?r = "r\<lparr>sr_slots := (sr_slots r)[n := ?x\<lparr>so_watch := w\<rparr>]\<rparr>"
  have x: "noted (sc_env cfg) H (so_watch ?x)" "D (ss_topic (so_watch ?x)) (ss_mac (so_watch ?x))"
    "\<not> so_held ?x \<longrightarrow> ss_stopped (so_watch ?x)" "sr_taken r \<or> sr_stopped r \<longrightarrow> \<not> so_held ?x"
    using assms(1) nth_mem [OF True] unfolding selves_ok_def by blast+
  have w: "noted (sc_env cfg) H w" "\<forall>p. STaken p \<in> set es \<longrightarrow> H p"
    using self_do_noted [OF x(1), of i] assms(2) [OF x(2)] d by auto
  have s: "ss_topic w = ss_topic (so_watch ?x)" "ss_mac w = ss_mac (so_watch ?x)" "ss_stopped (so_watch ?x) \<Longrightarrow> ss_stopped w"
    using self_do_same [of "sc_env cfg" i "so_watch ?x"] self_stays_stopped [of "so_watch ?x" "sc_env cfg" i] d by simp_all
  have "selves_ok cfg D H ?r"
    unfolding selves_ok_def
  proof (intro ballI)
    fix y
    assume "y \<in> set (sr_slots ?r)"
    then have "y = ?x\<lparr>so_watch := w\<rparr> \<or> y \<in> set (sr_slots r)" using set_update_subset_insert [of "sr_slots r" n] by auto
    then show "noted (sc_env cfg) H (so_watch y) \<and> D (ss_topic (so_watch y)) (ss_mac (so_watch y))
        \<and> (\<not> so_held y \<longrightarrow> ss_stopped (so_watch y)) \<and> (sr_taken ?r \<or> sr_stopped ?r \<longrightarrow> \<not> so_held y)"
    proof
      assume "y = ?x\<lparr>so_watch := w\<rparr>"
      then show ?thesis using x w s by simp
    qed (use assms(1) in \<open>simp add: selves_ok_def\<close>)
  qed
  from self_up_tells [OF this w(2)] True d show ?thesis by (simp add: self_event_def tells_once_def)
qed (use assms(1) in \<open>simp add: self_event_def tells_once_def\<close>)

lemma selves_do_tells:
  assumes "selves_ok cfg D H r" "\<And>topic k. i = SrDerived (Some (topic, k)) \<Longrightarrow> D topic k"
    and "\<And>n e topic k p. i = SrWatch n e \<Longrightarrow> D topic k \<Longrightarrow> announces (sc_env cfg) topic k p e \<Longrightarrow> H p"
  shows "tells_once cfg D H r (selves_do cfg i r)"
proof (cases i)
  case (SrSync now)
  have "tells_once cfg D H r ([], r)" using assms(1) by (simp add: tells_once_def)
  then show ?thesis using sync_days_tells [OF assms(1)] SrSync by (simp add: selves_do_def self_sync_def split: option.split)
next
  case (SrDerived a)
  then show ?thesis using self_derived_tells [OF assms(1), of a] assms(2) by (simp add: selves_do_def)
next
  case (SrWatch n e)
  then show ?thesis using self_event_tells [OF assms(1), of e n] assms(1,3) by (auto simp: selves_do_def tells_once_def)
next
  case SrStop
  have "selves_ok cfg D H (r\<lparr>sr_slots := snd (drop_slots [] (sr_slots r)), sr_taken := sr_taken r, sr_stopped := True, sr_wait := sr_wait r\<rparr>)"
    using drop_slots_ok [OF assms(1)] by blast
  then show ?thesis using SrStop
    by (simp add: selves_do_def selves_stop_def stopAll_def case_prod_beta tells_once_def selves_ok_def)
qed

definition derived_in :: "selves_input list \<Rightarrow> jstr \<Rightarrow> bytes \<Rightarrow> bool" where
  "derived_in inputs topic k \<longleftrightarrow> SrDerived (Some (topic, k)) \<in> set inputs"

definition rival_in :: "self_cfg \<Rightarrow> selves_input list \<Rightarrow> jstr \<Rightarrow> bool" where
  "rival_in cfg inputs p \<longleftrightarrow> (\<exists>n e topic k. SrWatch n e \<in> set inputs \<and> derived_in inputs topic k \<and> announces (sc_env cfg) topic k p e)"

lemma selves_run_tells:
  assumes "selves_ok cfg (derived_in inputs) (rival_in cfg inputs) r" "set is \<subseteq> set inputs"
  shows "tells_once cfg (derived_in inputs) (rival_in cfg inputs) r (selves_run cfg r is, run (selves_step cfg) r is)"
  using assms
proof (induction "is" arbitrary: r)
  case Nil
  then show ?case by (simp add: tells_once_def)
next
  case (Cons i "is")
  have t: "tells_once cfg (derived_in inputs) (rival_in cfg inputs) r (selves_do cfg i r)"
    by (rule selves_do_tells [OF Cons.prems(1)]) (use Cons.prems(2) in \<open>auto simp: derived_in_def rival_in_def\<close>)
  then have "selves_ok cfg (derived_in inputs) (rival_in cfg inputs) (selves_step cfg r i)" by (simp add: tells_once_def selves_step_def)
  from Cons.IH [OF this] Cons.prems(2) once_trans [of cfg "derived_in inputs" "rival_in cfg inputs" r "fst (selves_do cfg i r)" "selves_step cfg r i"] t
  show ?case by (simp add: selves_step_def)
qed

text \<open>
  C20: a session is handed over for a reason, once. Whatever days come and go, frames arrive and timers
  fire: the app is told at most once that the session was taken over, the peer it is told of announced
  itself on a topic this identity derived, under that topic's key, and was not this window; and after
  it was told, or the watch was stopped, no day's topic is listened on.
\<close>
theorem taken_over_for_reason:
  "length (takeovers (selves_run cfg no_selves inputs)) \<le> 1
    \<and> (\<forall>p\<in>set (takeovers (selves_run cfg no_selves inputs)). rival_in cfg inputs p)
    \<and> (sr_taken (run (selves_step cfg) no_selves inputs) \<or> sr_stopped (run (selves_step cfg) no_selves inputs)
       \<longrightarrow> (\<forall>x\<in>set (sr_slots (run (selves_step cfg) no_selves inputs)). ss_stopped (so_watch x)))"
proof -
  have "selves_ok cfg (derived_in inputs) (rival_in cfg inputs) no_selves" by (simp add: selves_ok_def no_selves_def)
  from selves_run_tells [OF this order_refl] show ?thesis
    by (auto simp: tells_once_def selves_ok_def no_selves_def split: if_splits)
qed

subsection \<open>Two windows\<close>

text \<open>
  Two windows of one identity on one topic: each side has its watch and the announces on their way to it,
  each as the random bytes and the time it was made with. Frames of others may arrive as well.
\<close>

type_synonym announce_made = "bytes \<times> int"

record two_windows =
  tw_a :: self_watch
  tw_b :: self_watch
  tw_toA :: "announce_made list"
  tw_toB :: "announce_made list"

definition as_peer :: "self_env \<Rightarrow> jstr \<Rightarrow> self_env" where
  "as_peer E me = E\<lparr>se_self := me\<rparr>"

definition announce_raw :: "self_env \<Rightarrow> bytes \<Rightarrow> announce_made \<Rightarrow> bytes option" where
  "announce_raw E k a = wrap (se_self E) (buildAnnounce (se_crypto E) (se_text E) (fst a) (snd a) (se_self E) k)"

text \<open>The text of an announce is read back: JSON, base64 and UTF-8 do what they promise.\<close>

definition announce_reads :: "self_env \<Rightarrow> bytes \<Rightarrow> announce_made \<Rightarrow> bool" where
  "announce_reads E k a \<longleftrightarrow>
     (let T = se_text E; p = se_self E;
          j = announce_json p (tx_b64 T (fst a)) (snd a)
            (tx_b64 T (c_hmac (se_crypto E) k (macMessage T (Fin 3) p (tx_b64 T (fst a)) (Fin (of_int (snd a))))))
      in js_parse (tx_js T) (js_stringify (tx_js T) j) = Some j \<and> tx_decode T (utf8 p) = p \<and> (\<forall>x. tx_unb64 T (tx_b64 T x) = Some x)
        \<and> utf8 p \<noteq> [] \<and> length (utf8 p) \<le> MAX_FROM)"

definition announced_by :: "self_effect list \<Rightarrow> nat" where
  "announced_by es = length (filter (\<lambda>e. case e of SAnnounce t \<Rightarrow> True | _ \<Rightarrow> False) es)"

text \<open>One side moves: it takes the next announce on its way, or anything else happens to it but a stop from outside.\<close>

inductive side_step :: "self_env \<Rightarrow> jstr \<Rightarrow> self_watch \<times> announce_made list \<times> announce_made list
    \<Rightarrow> self_watch \<times> announce_made list \<times> announce_made list \<Rightarrow> bool" for E other where
  arrives: "announce_raw (as_peer E other) (ss_mac w) a = Some raw \<Longrightarrow> \<bar>now - snd a\<bar> \<le> REPLAY_WINDOW_MS
    \<Longrightarrow> side_step E other (w, a # mine, theirs) (self_frame E now (ss_topic w) raw sender w, mine, theirs)"
| moves: "i \<noteq> SsStop \<Longrightarrow> self_do E i w = (es, w') \<Longrightarrow> length as = announced_by es
    \<Longrightarrow> (\<forall>a\<in>set as. announce_reads E (ss_mac w) a) \<Longrightarrow> side_step E other (w, mine, theirs) (w', mine, theirs @ as)"

inductive two_step :: "self_env \<Rightarrow> self_env \<Rightarrow> two_windows \<Rightarrow> two_windows \<Rightarrow> bool" for A B where
  left: "side_step A (se_self B) (tw_a s, tw_toA s, tw_toB s) (w, i, out) \<Longrightarrow> two_step A B s (s\<lparr>tw_a := w, tw_toA := i, tw_toB := out\<rparr>)"
| right: "side_step B (se_self A) (tw_b s, tw_toB s, tw_toA s) (w, i, out) \<Longrightarrow> two_step A B s (s\<lparr>tw_b := w, tw_toB := i, tw_toA := out\<rparr>)"

text \<open>A window that noted another and will say so when it settles; one that steps down or did.\<close>

definition recorded :: "self_watch \<Rightarrow> bool" where
  "recorded w \<longleftrightarrow> \<not> ss_settled w \<and> ss_pre w \<noteq> []"

definition going_down :: "self_watch \<Rightarrow> bool" where
  "going_down w \<longleftrightarrow> ss_stepping w \<noteq> None"

text \<open>The other window is heard of: on its way, being verified, noted, or acted upon.\<close>

definition reached :: "self_env \<Rightarrow> self_watch \<Rightarrow> announce_made list \<Rightarrow> bool" where
  "reached E w inb \<longleftrightarrow> inb \<noteq> [] \<or> (\<exists>p n. Inr (p, n) \<in> set (ss_inflight w) \<and> p \<noteq> [] \<and> p \<noteq> se_self E) \<or> recorded w \<or> going_down w"

text \<open>What a watch keeps by itself.\<close>

definition side_ok :: "self_watch \<Rightarrow> bool" where
  "side_ok w \<longleftrightarrow> (ss_nonces w \<noteq> [] \<longrightarrow> recorded w \<or> going_down w) \<and> (ss_done w \<or> ss_stopped w \<longrightarrow> going_down w)
     \<and> (ss_done w = ss_stopped w)"

lemma announced_by_simps [simp]:
  "announced_by [] = 0" "announced_by (SAnnounce t # es) = Suc (announced_by es)" "announced_by (SUnsubscribe t # es) = announced_by es"
  "announced_by (STaken p # es) = announced_by es"
  by (simp_all add: announced_by_def)

lemma announce_verified:
  assumes "announce_raw E k a = Some raw" "announce_reads E k a" "\<bar>now - snd a\<bar> \<le> REPLAY_WINDOW_MS"
  shows "\<exists>data n. origin (se_text E) raw sender = Some (se_self E, data)
    \<and> verifyAnnounce (se_crypto E) (se_text E) data k now = Inr (se_self E, n)"
proof -
  let ?T = "se_text E" and ?p = "se_self E"
  let ?data = "buildAnnounce (se_crypto E) ?T (fst a) (snd a) ?p k"
  let ?j = "announce_json ?p (tx_b64 ?T (fst a)) (snd a)
      (tx_b64 ?T (c_hmac (se_crypto E) k (macMessage ?T (Fin 3) ?p (tx_b64 ?T (fst a)) (Fin (of_int (snd a))))))"
  have r: "js_parse (tx_js ?T) (js_stringify (tx_js ?T) ?j) = Some ?j" "tx_decode ?T (utf8 ?p) = ?p" "\<And>x. tx_unb64 ?T (tx_b64 ?T x) = Some x"
    using assms(2) by (simp_all add: announce_reads_def Let_def)
  have "origin ?T raw sender = Some (?p, ?data)" using origin_wrap [OF _ r(2)] assms(1) by (simp add: announce_raw_def)
  then show ?thesis using verify_build [OF r(1) refl r(3) assms(3)] by blast
qed

text \<open>The announce that arrives is verified, unless its receiver is past listening.\<close>

lemma arrives_reached:
  assumes "side_ok w" "announce_raw (as_peer E other) (ss_mac w) a = Some raw" "\<bar>now - snd a\<bar> \<le> REPLAY_WINDOW_MS"
    and "announce_reads (as_peer E other) (ss_mac w) a" "other \<noteq> se_self E"
  shows "reached E (self_frame E now (ss_topic w) raw sender w) mine \<and> side_ok (self_frame E now (ss_topic w) raw sender w)
    \<and> (going_down w \<longrightarrow> going_down (self_frame E now (ss_topic w) raw sender w))"
proof -
  have n: "other \<noteq> []" using assms(4) by (auto simp: announce_reads_def as_peer_def Let_def)
  obtain data m where v: "origin (se_text E) raw sender = Some (other, data)"
      "verifyAnnounce (se_crypto E) (se_text E) data (ss_mac w) now = Inr (other, m)"
    using announce_verified [OF assms(2,4,3), of sender] by (auto simp: as_peer_def)
  show ?thesis
  proof (cases "ss_stopped w \<or> ss_done w")
    case True
    then show ?thesis using assms(1) by (auto simp: self_frame_def reached_def side_ok_def)
  next
    case False
    then have "self_frame E now (ss_topic w) raw sender w = w\<lparr>ss_inflight := ss_inflight w @ [Inr (other, m)]\<rparr>"
      using v assms(5) by (simp add: self_frame_def)
    then show ?thesis using assms(1,5) n by (auto simp: reached_def side_ok_def recorded_def going_down_def)
  qed
qed

text \<open>Any other move keeps what the side was reached by, and one that begins to step down sends word.\<close>

definition side_moves :: "self_env \<Rightarrow> self_watch \<Rightarrow> self_effect list \<times> self_watch \<Rightarrow> bool" where
  "side_moves E w x \<longleftrightarrow> (case x of (es, w') \<Rightarrow> side_ok w' \<and> (reached E w [] \<longrightarrow> reached E w' []) \<and> (going_down w \<longrightarrow> going_down w')
     \<and> (going_down w' \<and> \<not> going_down w \<longrightarrow> 0 < announced_by es))"

lemma stepDown_moves:
  assumes "side_ok w" "ss_done w' = ss_done w" "ss_stopped w' = ss_stopped w" "ss_stepping w' = ss_stepping w"
  shows "side_moves E w (stepDown p w') \<and> going_down (snd (stepDown p w'))"
  using assms by (auto simp: side_moves_def stepDown_def side_ok_def going_down_def reached_def)

lemma verified_moves:
  assumes "side_ok w"
  shows "side_moves E w (self_verified E now r w)
    \<and> (\<forall>p n. r = Inr (p, n) \<longrightarrow> p \<noteq> [] \<longrightarrow> p \<noteq> se_self E \<longrightarrow> reached E (snd (self_verified E now r w)) [])"
proof -
  have same: "side_moves E w ([], w)" using assms by (simp add: side_moves_def)
  show ?thesis
  proof (cases "\<exists>p n. r = Inr (p, n) \<and> \<not> (p = [] \<or> p = se_self E \<or> jm_has (ss_nonces w) n)")
    case True
    then obtain p n where r: "r = Inr (p, n)" "p \<noteq> []" "p \<noteq> se_self E" "\<not> jm_has (ss_nonces w) n" by blast
    let ?w = "w\<lparr>ss_nonces := nonce_add nonce_window now n (ss_nonces w)\<rparr>"
    show ?thesis
    proof (cases "ss_settled w")
      case False
      have ne: "set_add p (ss_pre w) \<noteq> []" by (auto simp: set_add_def)
      have "self_verified E now r w = ([], ?w\<lparr>ss_pre := set_add p (ss_pre w)\<rparr>)" using r False by (simp add: self_verified_def Let_def)
      then have "side_moves E w (self_verified E now r w)" "reached E (snd (self_verified E now r w)) []"
        using assms False ne by (auto simp: side_moves_def side_ok_def reached_def recorded_def going_down_def)
      then show ?thesis by blast
    next
      case True
      have "self_verified E now r w = stepDown p ?w" using r True by (simp add: self_verified_def Let_def)
      moreover have "side_moves E w (stepDown p ?w) \<and> going_down (snd (stepDown p ?w))"
        by (rule stepDown_moves [OF assms]) simp_all
      ultimately have "side_moves E w (self_verified E now r w)" "reached E (snd (self_verified E now r w)) []"
        by (simp_all add: reached_def)
      then show ?thesis by blast
    qed
  next
    case False
    then have e: "self_verified E now r w = ([], w)" by (auto simp: self_verified_def split: sum.split prod.split)
    have "reached E w []" if "r = Inr (p, n)" "p \<noteq> []" "p \<noteq> se_self E" for p n
    proof -
      have "jm_has (ss_nonces w) n" using False that by blast
      then have "ss_nonces w \<noteq> []" by (auto simp: jm_has_def)
      then show ?thesis using assms by (auto simp: side_ok_def reached_def)
    qed
    then show ?thesis unfolding e snd_conv using same by blast
  qed
qed

lemma answer_moves:
  assumes "side_ok w"
  shows "side_moves E w (self_answer E now n w)"
proof (cases "n < length (ss_inflight w)")
  case True
  let ?rest = "take n (ss_inflight w) @ drop (Suc n) (ss_inflight w)"
  let ?w = "w\<lparr>ss_inflight := ?rest\<rparr>"
  have ok: "side_ok ?w" using assms by (simp add: side_ok_def recorded_def going_down_def)
  have g: "going_down ?w = going_down w" by (simp add: going_down_def)
  have a: "self_answer E now n w = self_verified E now (ss_inflight w ! n) ?w" using True by (simp add: self_answer_def)
  obtain es w' where v: "self_verified E now (ss_inflight w ! n) ?w = (es, w')" by (cases "self_verified E now (ss_inflight w ! n) ?w")
  have m: "side_ok w'" "reached E ?w [] \<longrightarrow> reached E w' []" "going_down w \<longrightarrow> going_down w'"
      "going_down w' \<and> \<not> going_down w \<longrightarrow> 0 < announced_by es"
      "\<And>p m. ss_inflight w ! n = Inr (p, m) \<Longrightarrow> p \<noteq> [] \<Longrightarrow> p \<noteq> se_self E \<Longrightarrow> reached E w' []"
    using verified_moves [OF ok, of E now "ss_inflight w ! n"] v g by (auto simp: side_moves_def)
  have mem: "r = ss_inflight w ! n \<or> r \<in> set ?rest" if "r \<in> set (ss_inflight w)" for r
    using that id_take_nth_drop [OF True] by (metis Un_iff set_append set_ConsD)
  have "reached E w' []" if before: "reached E w []"
  proof (cases "recorded w \<or> going_down w")
    case True
    then have "reached E ?w []" by (auto simp: reached_def recorded_def going_down_def)
    then show ?thesis using m(2) by blast
  next
    case False
    then obtain p k where r: "Inr (p, k) \<in> set (ss_inflight w)" "p \<noteq> []" "p \<noteq> se_self E"
      using before unfolding reached_def by blast
    show ?thesis
    proof (cases "Inr (p, k) \<in> set ?rest")
      case True
      then have "reached E ?w []" using r by (auto simp: reached_def)
      then show ?thesis using m(2) by blast
    next
      case False
      then have "ss_inflight w ! n = Inr (p, k)" using mem [OF r(1)] by metis
      then show ?thesis using m(5) r by blast
    qed
  qed
  then show ?thesis using m(1,3,4) by (simp add: side_moves_def a v)
qed (use assms in \<open>simp add: self_answer_def side_moves_def\<close>)

lemma settle_moves:
  assumes "side_ok w"
  shows "side_moves E w (self_settle w)"
proof (cases "ss_stopped w \<or> ss_settled w \<or> ss_pre w = []")
  case True
  then show ?thesis using assms
    by (auto simp: self_settle_def Let_def side_moves_def side_ok_def reached_def recorded_def going_down_def split: list.split)
next
  case False
  then obtain p ps where p: "ss_pre w = p # ps" by (cases "ss_pre w") auto
  have "side_moves E w (stepDown (greatest p ps) (w\<lparr>ss_settled := True\<rparr>))"
    using stepDown_moves [OF assms, of "w\<lparr>ss_settled := True\<rparr>"] by simp
  then show ?thesis using False p by (simp add: self_settle_def Let_def)
qed

lemma frame_moves: "side_ok w \<Longrightarrow> side_moves E w ([], self_frame E now topic raw sender w)"
  by (auto simp: self_frame_def side_moves_def side_ok_def reached_def recorded_def going_down_def split: option.split)

lemma do_moves:
  assumes "side_ok w" "i \<noteq> SsStop"
  shows "side_moves E w (self_do E i w)"
proof (cases i)
  case SsFarewell
  have "side_moves E w (stepped w)" using assms(1)
    by (auto simp: stepped_def self_stop_def side_moves_def side_ok_def reached_def recorded_def going_down_def split: option.split)
  then show ?thesis using SsFarewell by (simp add: self_do_def)
next
  case SsBeat
  then show ?thesis using assms(1) by (simp add: self_do_def side_moves_def)
qed (use assms in \<open>simp_all add: self_do_def frame_moves answer_moves settle_moves\<close>)

text \<open>The invariant of the two: the first is reached, and whoever goes down reaches the other.\<close>

definition paired_ok :: "self_env \<Rightarrow> self_env \<Rightarrow> bytes \<Rightarrow> two_windows \<Rightarrow> bool" where
  "paired_ok A B k s \<longleftrightarrow> side_ok (tw_a s) \<and> side_ok (tw_b s) \<and> ss_mac (tw_a s) = k \<and> ss_mac (tw_b s) = k
     \<and> (\<forall>a\<in>set (tw_toA s). announce_reads B (ss_mac (tw_b s)) a) \<and> (\<forall>a\<in>set (tw_toB s). announce_reads A (ss_mac (tw_a s)) a)
     \<and> reached A (tw_a s) (tw_toA s)
     \<and> (going_down (tw_a s) \<longrightarrow> reached B (tw_b s) (tw_toB s))"

text \<open>What one side's move does, seen from both.\<close>

lemma reached_in: "reached E w inb \<longleftrightarrow> inb \<noteq> [] \<or> reached E w []"
  by (auto simp: reached_def)

lemma as_peer_env:
  assumes "se_crypto A = se_crypto B" "se_text A = se_text B"
  shows "as_peer A (se_self B) = B"
  using assms by (simp add: as_peer_def)

lemma side_step_ok:
  assumes "side_step E other (w, mine, theirs) (w', mine', theirs')"
    and "side_ok w" "\<forall>a\<in>set mine. announce_reads (as_peer E other) (ss_mac w) a" "other \<noteq> se_self E"
  shows "side_ok w' \<and> ss_mac w' = ss_mac w \<and> (reached E w mine \<longrightarrow> reached E w' mine') \<and> (going_down w \<longrightarrow> going_down w')
    \<and> (going_down w' \<longrightarrow> going_down w \<or> theirs' \<noteq> []) \<and> set mine' \<subseteq> set mine
    \<and> (\<exists>as. theirs' = theirs @ as \<and> (\<forall>a\<in>set as. announce_reads E (ss_mac w) a))"
  using assms(1)
proof cases
  case (arrives a raw now sender)
  have ok: "side_ok w'" "reached E w' mine'" "going_down w \<longrightarrow> going_down w'"
    using arrives_reached [OF assms(2) arrives(4,5) _ assms(4), where mine = mine' and sender = sender] assms(3) arrives(1,2) by auto
  have "ss_mac w' = ss_mac w" "going_down w' = going_down w" using arrives(2)
    by (auto simp: self_frame_def going_down_def split: option.split)
  then show ?thesis using ok arrives(1,3) by auto
next
  case (moves i es as)
  have m: "side_ok w'" "reached E w [] \<longrightarrow> reached E w' []" "going_down w \<longrightarrow> going_down w'"
      "going_down w' \<and> \<not> going_down w \<longrightarrow> 0 < announced_by es"
    using do_moves [OF assms(2) moves(3), of E] moves(4) by (auto simp: side_moves_def)
  have "ss_mac w' = ss_mac w" using self_do_same(2) [of E i w] moves(4) by simp
  moreover have "reached E w mine \<longrightarrow> reached E w' mine" using m(2) reached_in [of E w mine] reached_in [of E w' mine] by blast
  moreover have "going_down w' \<longrightarrow> going_down w \<or> theirs @ as \<noteq> []" using m(4) moves(5) by auto
  ultimately show ?thesis unfolding moves(1,2) using m(1,3) moves(6) by blast
qed

lemma two_step_ok:
  assumes "two_step A B s s'" "paired_ok A B k s" "se_crypto A = se_crypto B" "se_text A = se_text B" "se_self A \<noteq> se_self B"
  shows "paired_ok A B k s'"
  using assms(1)
proof cases
  case (left w i out)
  note ok = assms(2) [unfolded paired_ok_def]
  have e: "as_peer A (se_self B) = B" by (rule as_peer_env [OF assms(3,4)])
  have st: "side_ok w \<and> ss_mac w = ss_mac (tw_a s) \<and> (reached A (tw_a s) (tw_toA s) \<longrightarrow> reached A w i) \<and> (going_down (tw_a s) \<longrightarrow> going_down w)
      \<and> (going_down w \<longrightarrow> going_down (tw_a s) \<or> out \<noteq> []) \<and> set i \<subseteq> set (tw_toA s)
      \<and> (\<exists>as. out = tw_toB s @ as \<and> (\<forall>a\<in>set as. announce_reads A (ss_mac (tw_a s)) a))"
    by (rule side_step_ok [OF left(2)]) (use ok e assms(5) in auto)
  then obtain as where as: "out = tw_toB s @ as" "\<forall>a\<in>set as. announce_reads A (ss_mac (tw_a s)) a" by blast
  have "going_down w \<longrightarrow> reached B (tw_b s) out"
    using st ok as(1) reached_in [of B "tw_b s" out] reached_in [of B "tw_b s" "tw_toB s"] by blast
  moreover have "\<forall>a\<in>set i. announce_reads B (ss_mac (tw_b s)) a" using st ok by blast
  moreover have "\<forall>a\<in>set out. announce_reads A (ss_mac (tw_a s)) a" using ok as by auto
  moreover have "side_ok w" using st by blast
  moreover have m: "ss_mac w = ss_mac (tw_a s)" using st by blast
  moreover have "reached A w i" using st ok by blast
  ultimately show ?thesis using ok unfolding left(1) paired_ok_def by simp
next
  case (right w i out)
  note ok = assms(2) [unfolded paired_ok_def]
  have e: "as_peer B (se_self A) = A" by (rule as_peer_env) (simp_all add: assms(3,4))
  have st: "side_ok w \<and> ss_mac w = ss_mac (tw_b s) \<and> (reached B (tw_b s) (tw_toB s) \<longrightarrow> reached B w i) \<and> (going_down (tw_b s) \<longrightarrow> going_down w)
      \<and> (going_down w \<longrightarrow> going_down (tw_b s) \<or> out \<noteq> []) \<and> set i \<subseteq> set (tw_toB s)
      \<and> (\<exists>as. out = tw_toA s @ as \<and> (\<forall>a\<in>set as. announce_reads B (ss_mac (tw_b s)) a))"
    by (rule side_step_ok [OF right(2)]) (use ok e assms(5) in auto)
  then obtain as where as: "out = tw_toA s @ as" "\<forall>a\<in>set as. announce_reads B (ss_mac (tw_b s)) a" by blast
  have "reached A (tw_a s) out" using ok as(1) reached_in [of A "tw_a s" out] reached_in [of A "tw_a s" "tw_toA s"] by blast
  moreover have "\<forall>a\<in>set i. announce_reads A (ss_mac (tw_a s)) a" using st ok by blast
  moreover have "\<forall>a\<in>set out. announce_reads B (ss_mac (tw_b s)) a" using ok as by auto
  moreover have "side_ok w" using st by blast
  moreover have "ss_mac w = ss_mac (tw_b s)" using st by blast
  moreover have "going_down (tw_a s) \<longrightarrow> reached B w i" using st ok by blast
  ultimately show ?thesis using ok unfolding right(1) paired_ok_def by simp
qed

text \<open>Nothing on its way, nothing to verify, no timer or farewell to wait for.\<close>

definition side_quiet :: "self_watch \<Rightarrow> bool" where
  "side_quiet w \<longleftrightarrow> ss_inflight w = [] \<and> (ss_settled w \<or> ss_stopped w) \<and> (ss_stepping w \<noteq> None \<longrightarrow> ss_done w)"

definition quiet :: "two_windows \<Rightarrow> bool" where
  "quiet s \<longleftrightarrow> tw_toA s = [] \<and> tw_toB s = [] \<and> side_quiet (tw_a s) \<and> side_quiet (tw_b s)"

lemma quiet_reached:
  assumes "side_quiet w" "side_ok w" "reached E w []"
  shows "ss_done w \<and> going_down w"
proof -
  have "recorded w \<or> going_down w" using assms(1,3) by (simp add: reached_def side_quiet_def)
  moreover have "going_down w" if "recorded w"
    using that assms(1,2) unfolding recorded_def side_quiet_def side_ok_def by blast
  ultimately have "going_down w" by blast
  then show ?thesis using assms(1) by (simp add: going_down_def side_quiet_def)
qed

lemma quiet_done: "paired_ok A B k s \<Longrightarrow> quiet s \<Longrightarrow> ss_done (tw_a s) \<and> ss_done (tw_b s)"
  using quiet_reached [of "tw_a s" A] quiet_reached [of "tw_b s" B] by (simp add: paired_ok_def quiet_def)

text \<open>What a side still has to do.\<close>

definition side_work :: "self_watch \<Rightarrow> nat" where
  "side_work w = length (ss_inflight w) + (if ss_stepping w = None then 4 else if ss_done w then 0 else 1)
     + (if ss_settled w \<or> ss_stopped w then 0 else 1)"

definition work :: "two_windows \<Rightarrow> nat" where
  "work s = side_work (tw_a s) + side_work (tw_b s) + 2 * length (tw_toA s) + 2 * length (tw_toB s)"

lemma stepDown_work: "side_work (snd (stepDown p w)) + 2 * announced_by (fst (stepDown p w)) \<le> side_work w"
  by (auto simp: stepDown_def side_work_def)

lemma verified_work: "side_work (snd (self_verified E now r w)) + 2 * announced_by (fst (self_verified E now r w)) \<le> side_work w"
proof (cases "\<exists>p n. r = Inr (p, n) \<and> \<not> (p = [] \<or> p = se_self E \<or> jm_has (ss_nonces w) n) \<and> ss_settled w")
  case True
  then obtain p n where "self_verified E now r w = stepDown p (w\<lparr>ss_nonces := nonce_add nonce_window now n (ss_nonces w)\<rparr>)"
    by (auto simp: self_verified_def Let_def)
  moreover have "side_work (w\<lparr>ss_nonces := nonce_add nonce_window now n (ss_nonces w)\<rparr>) = side_work w" by (simp add: side_work_def)
  ultimately show ?thesis using stepDown_work [of p "w\<lparr>ss_nonces := nonce_add nonce_window now n (ss_nonces w)\<rparr>"] by simp
next
  case False
  then have "fst (self_verified E now r w) = [] \<and> side_work (snd (self_verified E now r w)) = side_work w"
    by (auto simp: self_verified_def side_work_def Let_def split: sum.split)
  then show ?thesis by simp
qed

lemma move_works:
  assumes "i \<noteq> SsStop" "side_work (snd (self_do E i w)) + 2 * announced_by (fst (self_do E i w)) < side_work w" "announce_reads E (ss_mac w) a"
  shows "\<exists>w' mine' theirs'. side_step E other (w, mine, theirs) (w', mine', theirs')
    \<and> side_work w' + 2 * length mine' + 2 * length theirs' < side_work w + 2 * length mine + 2 * length theirs"
proof -
  obtain es w' where d: "self_do E i w = (es, w')" by (cases "self_do E i w")
  have "side_step E other (w, mine, theirs) (w', mine, theirs @ replicate (announced_by es) a)"
    by (rule moves [OF assms(1) d]) (use assms(3) in auto)
  moreover have "side_work w' + 2 * announced_by es < side_work w" using assms(2) d by simp
  ultimately show ?thesis by (intro exI conjI) (assumption, simp)
qed

lemma side_progress:
  assumes "mine \<noteq> [] \<or> \<not> side_quiet w" "\<forall>a\<in>set mine. announce_reads (as_peer E other) (ss_mac w) a" "announce_reads E (ss_mac w) a0"
  shows "\<exists>w' mine' theirs'. side_step E other (w, mine, theirs) (w', mine', theirs')
    \<and> side_work w' + 2 * length mine' + 2 * length theirs' < side_work w + 2 * length mine + 2 * length theirs"
proof (cases mine)
  case (Cons a rest)
  have "announce_reads (as_peer E other) (ss_mac w) a" using assms(2) Cons by simp
  then obtain raw where raw: "announce_raw (as_peer E other) (ss_mac w) a = Some raw"
    by (auto simp: announce_reads_def announce_raw_def wrap_def Let_def)
  have "side_step E other (w, mine, theirs) (self_frame E (snd a) (ss_topic w) raw None w, rest, theirs)"
    unfolding Cons by (rule arrives [OF raw]) (simp add: REPLAY_WINDOW_MS_def)
  moreover have "side_work (self_frame E (snd a) (ss_topic w) raw None w) \<le> side_work w + 1"
    by (auto simp: self_frame_def side_work_def split: option.split)
  ultimately show ?thesis by (intro exI conjI) (assumption, simp add: Cons)
next
  case Nil
  consider "ss_inflight w \<noteq> []" | "\<not> ss_settled w" "\<not> ss_stopped w" | "ss_stepping w \<noteq> None" "\<not> ss_done w"
    using assms(1) Nil by (auto simp: side_quiet_def)
  then show ?thesis
  proof cases
    case 1
    let ?w = "w\<lparr>ss_inflight := drop 1 (ss_inflight w)\<rparr>"
    have "self_do E (SsAnswer 0 0) w = self_verified E 0 (ss_inflight w ! 0) ?w" using 1 by (simp add: self_do_def self_answer_def)
    moreover have "side_work ?w < side_work w" using 1 by (cases "ss_inflight w") (simp_all add: side_work_def)
    ultimately show ?thesis using move_works [of "SsAnswer 0 0" E w] verified_work [of E 0 "ss_inflight w ! 0" ?w] assms(3) by simp
  next
    case 2
    have "side_work (snd (self_settle w)) + 2 * announced_by (fst (self_settle w)) < side_work w"
    proof (cases "ss_pre w")
      case Nil
      then show ?thesis using 2 by (simp add: self_settle_def side_work_def)
    next
      case (Cons p ps)
      have "side_work (w\<lparr>ss_settled := True\<rparr>) < side_work w" using 2 by (simp add: side_work_def)
      then show ?thesis using 2 Cons stepDown_work [of "greatest p ps" "w\<lparr>ss_settled := True\<rparr>"] by (simp add: self_settle_def Let_def)
    qed
    then show ?thesis using move_works [of SsSettle E w] assms(3) by (simp add: self_do_def)
  next
    case 3
    then have "side_work (snd (stepped w)) + 2 * announced_by (fst (stepped w)) < side_work w"
      by (auto simp: stepped_def self_stop_def side_work_def)
    then show ?thesis using move_works [of SsFarewell E w] assms(3) by (simp add: self_do_def)
  qed
qed

lemma two_progress:
  assumes "paired_ok A B k s" "\<not> quiet s" "se_crypto A = se_crypto B" "se_text A = se_text B"
    and "announce_reads A k a" "announce_reads B k b"
  shows "\<exists>s'. two_step A B s s' \<and> work s' < work s"
proof -
  have e: "as_peer A (se_self B) = B" "as_peer B (se_self A) = A"
    using as_peer_env [OF assms(3,4)] as_peer_env [of B A] assms(3,4) by simp_all
  consider "tw_toA s \<noteq> [] \<or> \<not> side_quiet (tw_a s)" | "tw_toB s \<noteq> [] \<or> \<not> side_quiet (tw_b s)"
    using assms(2) by (auto simp: quiet_def)
  then show ?thesis
  proof cases
    case 1
    obtain w i out where "side_step A (se_self B) (tw_a s, tw_toA s, tw_toB s) (w, i, out)"
        "side_work w + 2 * length i + 2 * length out < side_work (tw_a s) + 2 * length (tw_toA s) + 2 * length (tw_toB s)"
      using side_progress [OF 1, of A "se_self B" a "tw_toB s"] assms(1,5) by (auto simp: paired_ok_def e)
    then show ?thesis by (intro exI conjI) (rule left, assumption, simp add: work_def)
  next
    case 2
    obtain w i out where "side_step B (se_self A) (tw_b s, tw_toB s, tw_toA s) (w, i, out)"
        "side_work w + 2 * length i + 2 * length out < side_work (tw_b s) + 2 * length (tw_toB s) + 2 * length (tw_toA s)"
      using side_progress [OF 2, of B "se_self A" b "tw_toA s"] assms(1,6) by (auto simp: paired_ok_def e)
    then show ?thesis by (intro exI conjI) (rule right, assumption, simp add: work_def)
  qed
qed

lemma two_ends:
  assumes "paired_ok A B k s" "se_crypto A = se_crypto B" "se_text A = se_text B" "se_self A \<noteq> se_self B"
    and "announce_reads A k a" "announce_reads B k b"
  shows "\<exists>s'. rtranclp (two_step A B) s s' \<and> quiet s' \<and> paired_ok A B k s'"
  using assms(1)
proof (induction "work s" arbitrary: s rule: less_induct)
  case less
  show ?case
  proof (cases "quiet s")
    case False
    obtain s1 where s1: "two_step A B s s1" "work s1 < work s"
      using two_progress [OF less.prems False assms(2,3,5,6)] by blast
    from less.hyps [OF s1(2) two_step_ok [OF s1(1) less.prems assms(2-4)]]
    show ?thesis using converse_rtranclp_into_rtranclp [where r = "two_step A B", OF s1(1)] by blast
  qed (use less.prems in blast)
qed

lemma two_run_ok:
  assumes "rtranclp (two_step A B) s s'" "paired_ok A B k s" "se_crypto A = se_crypto B" "se_text A = se_text B" "se_self A \<noteq> se_self B"
  shows "paired_ok A B k s'"
  using assms(1)
  by (induction rule: rtranclp_induct) (use assms(2-5) two_step_ok in blast)+

definition listening :: "jstr \<Rightarrow> bytes \<Rightarrow> self_watch \<Rightarrow> bool" where
  "listening topic k w \<longleftrightarrow> ss_topic w = topic \<and> ss_mac w = k \<and> ss_pre w = [] \<and> ss_nonces w = [] \<and> ss_stepping w = None
     \<and> \<not> ss_done w \<and> \<not> ss_stopped w"

text \<open>
  C19: two windows of one identity both stand down. One is listening on the identity's topic, settled or
  not, when the other begins there and announces itself. Whatever then happens, in whatever order
  frames of these two or of anybody arrive and are verified, and timers fire: once nothing is on its
  way or waited for, both have stopped; and from any point on they can still get there.
\<close>
theorem both_stand_down:
  assumes "se_crypto A = se_crypto B" "se_text A = se_text B" "se_self A \<noteq> se_self B"
    and "listening topic k w" "announce_reads A k a" "announce_reads B k b"
    and "rtranclp (two_step A B) \<lparr>tw_a = w, tw_b = snd (self_start topic k), tw_toA = [b], tw_toB = []\<rparr> s"
  shows "(quiet s \<longrightarrow> ss_done (tw_a s) \<and> ss_done (tw_b s))
    \<and> (\<exists>s'. rtranclp (two_step A B) s s' \<and> ss_done (tw_a s') \<and> ss_done (tw_b s'))"
proof -
  have "paired_ok A B k \<lparr>tw_a = w, tw_b = snd (self_start topic k), tw_toA = [b], tw_toB = []\<rparr>"
    using assms(4,6) by (auto simp: paired_ok_def side_ok_def listening_def self_start_def new_self_def reached_def going_down_def)
  from two_run_ok [OF assms(7) this assms(1-3)] have "paired_ok A B k s" .
  then show ?thesis using two_ends [OF _ assms(1-3,5,6)] quiet_done by blast
qed

subsection \<open>Two windows in the concrete\<close>

definition demo_said_by :: "jstr \<Rightarrow> bytes \<Rightarrow> json" where
  "demo_said_by p n = announce_json p (map ucast n) 1000
     (map ucast (c_hmac demo_crypto [9] (macMessage (demo_text JNull) (Fin 3) p (map ucast n) (Fin 1000))))"

definition demo_both :: text_env where
  "demo_both = (demo_text JNull)\<lparr>tx_js := \<lparr>js_parse = (\<lambda>b. if b = [1] then Some (demo_said_by [65] [1]) else if b = [2] then Some (demo_said_by [66] [2]) else None),
     js_stringify = (\<lambda>j. if j = demo_said_by [65] [1] then [1] else [2]), js_num_of = (\<lambda>_. NaN), js_num_str = (\<lambda>_. [48])\<rparr>\<rparr>"

definition demo_window :: "jstr \<Rightarrow> self_env" where
  "demo_window p = \<lparr>se_self = p, se_crypto = demo_crypto, se_text = demo_both\<rparr>"

lemma demo_both_reads: "announce_reads (demo_window [65]) [9] ([1], 1000)" "announce_reads (demo_window [66]) [9] ([2], 1000)"
proof -
  have m: "macMessage demo_both = macMessage (demo_text JNull)" by (intro ext) (simp add: macMessage_def demo_both_def demo_text_def)
  have b: "tx_unb64 demo_both (tx_b64 demo_both x) = Some x" "tx_b64 demo_both x = map ucast x" for x
    using demo_text_b64 [of JNull x] by (simp_all add: demo_both_def demo_text_def)
  have ne: "demo_said_by [66] [2] \<noteq> demo_said_by [65] [1]" by (simp add: demo_said_by_def announce_json_def)
  have j: "js_parse (tx_js demo_both) (js_stringify (tx_js demo_both) (demo_said_by [65] [1])) = Some (demo_said_by [65] [1])"
      "js_parse (tx_js demo_both) (js_stringify (tx_js demo_both) (demo_said_by [66] [2])) = Some (demo_said_by [66] [2])"
    using ne by (simp_all add: demo_both_def)
  have t: "tx_decode demo_both = map ucast" by (simp add: demo_both_def demo_text_def)
  show "announce_reads (demo_window [65]) [9] ([1], 1000)" "announce_reads (demo_window [66]) [9] ([2], 1000)"
    unfolding announce_reads_def demo_window_def using j b(1)
    by (simp_all add: m b(2) t demo_said_by_def MAX_FROM_def Let_def utf8_point_def high_surrogate_def low_surrogate_def)
qed

theorem both_stand_down_witness:
  "\<exists>s. rtranclp (two_step (demo_window [65]) (demo_window [66]))
      \<lparr>tw_a = snd (self_start [84] [9]), tw_b = snd (self_start [84] [9]), tw_toA = [([2], 1000)], tw_toB = []\<rparr> s
    \<and> ss_done (tw_a s) \<and> ss_done (tw_b s)"
proof -
  have l: "listening [84] [9] (snd (self_start [84] [9]))" by (simp add: listening_def self_start_def new_self_def)
  from both_stand_down [OF _ _ _ l demo_both_reads rtranclp.rtrancl_refl] show ?thesis by (simp add: demo_window_def)
qed

definition demo_selves :: self_cfg where
  "demo_selves = \<lparr>sc_env = \<lparr>se_self = [5], se_crypto = demo_crypto, se_text = demo_text demo_announce\<rparr>, sc_offsetMs = 0, sc_guard = OVERLAP_MS\<rparr>"

definition demo_takeover :: "selves_input list" where
  "demo_takeover = [SrSync 1728043200000, SrDerived (Some ([84], [9])), SrWatch 0 SsSettle, SrWatch 0 (SsFrame 1000 [84] [123] (Some [2])),
     SrWatch 0 (SsAnswer 1000 0), SrWatch 0 SsFarewell]"

theorem taken_over_for_reason_witness:
  "takeovers (selves_run demo_selves no_selves demo_takeover) = [[2]] \<and> rival_in demo_selves demo_takeover [2]
    \<and> list_all (\<lambda>x. ss_stopped (so_watch x)) (sr_slots (run (selves_step demo_selves) no_selves demo_takeover))"
proof -
  have v: "verifyAnnounce demo_crypto (demo_text demo_announce) [123] [9] 1000 = Inr ([2], [7])"
    by (rule demo_announce_verifies) (simp add: REPLAY_WINDOW_MS_def)
  have r: "takeovers (selves_run demo_selves no_selves demo_takeover) = [[2]] \<and> sr_taken (run (selves_step demo_selves) no_selves demo_takeover)"
    using demo_dates v
    by (simp add: demo_takeover_def demo_selves_def selves_step_def selves_do_def self_sync_def no_selves_def holds_day_def self_derived_def
        self_start_def new_self_def drop_slots_def drop_slot_def self_stop_def self_event_def self_do_def self_settle_def self_frame_def origin_def isTagged_def
        self_answer_def self_verified_def stepDown_def stepped_def onTaken_def stopAll_def jm_has_def)
  then show ?thesis using taken_over_for_reason [of demo_selves demo_takeover] by (simp add: list_all_iff)
qed

end
