(* ===== verification/Decoys.thy ===== *)
theory Decoys
  imports Presence Picks
begin

section \<open>Decoy subscriptions (lib/decoy.ts)\<close>

text \<open>
  Extra topics that read, to a relay, like those of contacts who are away: each has a rotating watch of its
  own. \<open>resize\<close> starts those that are missing one after the other, waiting in each start; a resize in
  flight is the indices it has still to look at and how many it wants. A watch that another start of
  the same index put aside is in \<open>dc_lost\<close>. A refused topic makes the decoys yield.
\<close>

subsection \<open>Material\<close>

definition DECOY_MAX :: nat where "DECOY_MAX = 8"
definition DECOY_SEED_LABEL :: string where "DECOY_SEED_LABEL = ''encedo-chat-decoy-v1''"
definition OFFSET_LABEL :: string where "OFFSET_LABEL = ''encedo-chat-decoy-offset-v1''"
definition TOPIC_LABEL :: string where "TOPIC_LABEL = ''encedo-chat-decoy-topic-v1''"

definition decoyCount :: "int \<Rightarrow> nat" where
  "decoyCount contacts = nat (max 0 (min contacts (int DECOY_MAX)))"

definition decoyMaterial :: "crypto \<Rightarrow> bytes \<Rightarrow> nat \<Rightarrow> rv_params \<Rightarrow> jstr \<times> nat" where
  "decoyMaterial C seed i p =
     (topicFromMaterial (kdf C TOPIC_LABEL seed (word_of_nat i # paramsInfo p) 32),
      offsetFromMaterial (kdf C OFFSET_LABEL seed [word_of_nat i] 4))"

subsection \<open>State\<close>

record decoy =
  dy_rt :: rotating
  dy_topics :: "jstr list"

record decoys =
  dc_running :: "(nat, decoy) jmap"
  dc_yielded :: bool
  dc_stopped :: bool
  dc_resizes :: "(nat list \<times> nat) list"
  dc_lost :: "decoy list"

record decoy_cfg =
  dg_crypto :: crypto
  dg_params :: rv_params
  dg_watch :: watch_cfg
  dg_guard :: int

datatype decoy_effect =
    DStart nat
  | DWatch nat rt_effect

definition startDecoys :: decoys where
  "startDecoys = \<lparr>dc_running = [], dc_yielded = False, dc_stopped = False, dc_resizes = [], dc_lost = []\<rparr>"

text \<open>The watch of decoy \<open>i\<close>; nothing else holds its topics.\<close>

definition decoy_rt_cfg :: "decoy_cfg \<Rightarrow> bytes \<Rightarrow> nat \<Rightarrow> rt_cfg" where
  "decoy_rt_cfg G seed i = \<lparr>rp_watch = dg_watch G, rp_offsetMs = int (snd (decoyMaterial (dg_crypto G) seed i (dg_params G))) * 1000,
     rp_guard = dg_guard G, rp_keep = (\<lambda>_. False)\<rparr>"

definition stop_decoys :: "decoy_cfg \<Rightarrow> bytes \<Rightarrow> int \<Rightarrow> (nat, decoy) jmap \<Rightarrow> decoy_effect list" where
  "stop_decoys G seed now m = concat (map (\<lambda>x. map (DWatch (fst x)) (fst (rt_stop (decoy_rt_cfg G seed (fst x)) now True (dy_rt (snd x))))) m)"

subsection \<open>Resizing\<close>

text \<open>The loop of a resize, and the end of it: the decoys that are too many are stopped.\<close>

fun resize_go :: "decoy_cfg \<Rightarrow> bytes \<Rightarrow> int \<Rightarrow> nat \<Rightarrow> nat list \<Rightarrow> decoys \<Rightarrow> decoy_effect list \<times> decoys" where
  "resize_go G seed now want [] d =
     (stop_decoys G seed now (filter (\<lambda>x. want \<le> fst x) (dc_running d)),
      d\<lparr>dc_running := filter (\<lambda>x. \<not> want \<le> fst x) (dc_running d)\<rparr>)"
| "resize_go G seed now want (i # is) d =
     (if jm_has (dc_running d) i then resize_go G seed now want is d
      else ([DStart i], d\<lparr>dc_resizes := dc_resizes d @ [(i # is, want)]\<rparr>))"

definition resize :: "decoy_cfg \<Rightarrow> bytes \<Rightarrow> int \<Rightarrow> int \<Rightarrow> decoys \<Rightarrow> decoy_effect list \<times> decoys" where
  "resize G seed now n d =
     (if dc_stopped d \<or> dc_yielded d then ([], d)
      else let want = nat (max 0 (min n (int DECOY_MAX))) in resize_go G seed now want [0..<want] d)"

text \<open>
  \<open>startOne\<close> ends for the \<open>m\<close>th resize in flight, or fails, which ends that resize. The watch begins
  with a run of its own.
\<close>

definition started :: "decoy_cfg \<Rightarrow> bytes \<Rightarrow> int \<Rightarrow> nat \<Rightarrow> bool \<Rightarrow> decoys \<Rightarrow> decoy_effect list \<times> decoys" where
  "started G seed now m ok d =
     (if m < length (dc_resizes d) then
        (case dc_resizes d ! m of
           ([], want) \<Rightarrow> ([], d)
         | (i # is, want) \<Rightarrow>
             (let d1 = d\<lparr>dc_resizes := take m (dc_resizes d) @ drop (Suc m) (dc_resizes d)\<rparr> in
              if \<not> ok then ([], d1)
              else case rt_tick (decoy_rt_cfg G seed i) now no_watches of
                  (es, r) \<Rightarrow>
                    (let d2 = d1\<lparr>dc_running := jm_set i \<lparr>dy_rt = r, dy_topics = []\<rparr> (dc_running d1),
                          dc_lost := dc_lost d1 @ (case jm_get (dc_running d1) i of None \<Rightarrow> [] | Some x \<Rightarrow> [x])\<rparr>
                     in case resize_go G seed now want is d2 of (es', d3) \<Rightarrow> (map (DWatch i) es @ es', d3))))
      else ([], d))"

subsection \<open>What else happens\<close>

text \<open>Something happens to the watch of a decoy; its material is derived here, under a fresh MAC key.\<close>

definition decoy_watch :: "(rotating \<Rightarrow> rt_effect list \<times> rotating) \<Rightarrow> nat \<Rightarrow> decoys \<Rightarrow> decoy_effect list \<times> decoys" where
  "decoy_watch f i d =
     (case jm_get (dc_running d) i of
        None \<Rightarrow> ([], d)
      | Some x \<Rightarrow> (case f (dy_rt x) of (es, r) \<Rightarrow> (map (DWatch i) es, d\<lparr>dc_running := jm_set i (x\<lparr>dy_rt := r\<rparr>) (dc_running d)\<rparr>)))"

definition decoy_derived :: "decoy_cfg \<Rightarrow> bytes \<Rightarrow> int \<Rightarrow> bytes \<Rightarrow> nat \<Rightarrow> decoys \<Rightarrow> decoy_effect list \<times> decoys" where
  "decoy_derived G seed now macKey i d =
     (case jm_get (dc_running d) i of
        None \<Rightarrow> ([], d)
      | Some x \<Rightarrow>
          (case rt_wait (dy_rt x) of
             None \<Rightarrow> ([], d)
           | Some w \<Rightarrow>
               (let topic = fst (decoyMaterial (dg_crypto G) seed i ((dg_params G)\<lparr>rv_dateUTC := sw_day w\<rparr>)) in
                decoy_watch (rt_derived (decoy_rt_cfg G seed i) now (Some (topic, macKey))) i
                  (d\<lparr>dc_running := jm_set i (x\<lparr>dy_topics := set_add topic (dy_topics x)\<rparr>) (dc_running d)\<rparr>))))"

definition isDecoy :: "jstr \<Rightarrow> decoys \<Rightarrow> bool" where
  "isDecoy topic d = list_ex (\<lambda>x. topic \<in> set (dy_topics (snd x))) (dc_running d)"

definition yieldAll :: "decoy_cfg \<Rightarrow> bytes \<Rightarrow> int \<Rightarrow> decoys \<Rightarrow> decoy_effect list \<times> decoys" where
  "yieldAll G seed now d =
     (if dc_yielded d then ([], d)
      else (stop_decoys G seed now (dc_running d), d\<lparr>dc_yielded := True, dc_running := []\<rparr>))"

definition decoys_count :: "decoys \<Rightarrow> nat" where
  "decoys_count d = length (dc_running d)"

definition decoys_topics :: "decoys \<Rightarrow> jstr list" where
  "decoys_topics d = concat (map (\<lambda>x. dy_topics (snd x)) (dc_running d))"

definition decoys_stop :: "decoy_cfg \<Rightarrow> bytes \<Rightarrow> int \<Rightarrow> decoys \<Rightarrow> decoy_effect list \<times> decoys" where
  "decoys_stop G seed now d = (stop_decoys G seed now (dc_running d), d\<lparr>dc_stopped := True, dc_running := []\<rparr>)"

subsection \<open>The session's cover (lib/core.ts)\<close>

text \<open>The decoys of a session, from the first time its contacts are all watched. A refused topic goes up unless it is a decoy's.\<close>

datatype cover_effect = CRefused jstr | CDecoy decoy_effect

definition refused :: "decoy_cfg \<Rightarrow> bytes \<Rightarrow> int \<Rightarrow> jstr \<Rightarrow> decoys option \<Rightarrow> cover_effect list \<times> decoys option" where
  "refused G seed now t c =
     (let up = (case c of Some d \<Rightarrow> if isDecoy t d then [] else [CRefused t] | None \<Rightarrow> [CRefused t]) in
      case c of None \<Rightarrow> (up, None) | Some d \<Rightarrow> (case yieldAll G seed now d of (es, d') \<Rightarrow> (up @ map CDecoy es, Some d')))"

definition contacts_watched :: "decoy_cfg \<Rightarrow> bytes \<Rightarrow> int \<Rightarrow> bool \<Rightarrow> nat \<Rightarrow> decoys option \<Rightarrow> decoy_effect list \<times> decoys option" where
  "contacts_watched G seed now wanted held c =
     (if \<not> wanted then ([], c)
      else case resize G seed now (int (decoyCount (int held))) (case c of None \<Rightarrow> startDecoys | Some d \<Rightarrow> d) of
          (es, d) \<Rightarrow> (es, Some d))"

definition contact_unwatched :: "decoy_cfg \<Rightarrow> bytes \<Rightarrow> int \<Rightarrow> nat \<Rightarrow> decoys option \<Rightarrow> decoy_effect list \<times> decoys option" where
  "contact_unwatched G seed now held c =
     (case c of None \<Rightarrow> ([], None)
      | Some d \<Rightarrow> (case resize G seed now (int (decoyCount (int held))) d of (es, d') \<Rightarrow> (es, Some d')))"

definition cover_stop :: "decoy_cfg \<Rightarrow> bytes \<Rightarrow> int \<Rightarrow> decoys option \<Rightarrow> decoy_effect list \<times> decoys option" where
  "cover_stop G seed now c =
     (case c of None \<Rightarrow> ([], None) | Some d \<Rightarrow> (case decoys_stop G seed now d of (es, d') \<Rightarrow> (es, Some d')))"

datatype cover_input =
    CvContacts int nat
  | CvUnwatched int nat
  | CvStarted int nat bool
  | CvDerived int bytes nat
  | CvWatch nat rt_input
  | CvRefused int jstr
  | CvStop int

definition on_decoys :: "(decoys \<Rightarrow> decoy_effect list \<times> decoys) \<Rightarrow> decoys option \<Rightarrow> decoy_effect list \<times> decoys option" where
  "on_decoys f c = (case c of None \<Rightarrow> ([], None) | Some d \<Rightarrow> (case f d of (es, d') \<Rightarrow> (es, Some d')))"

definition cover_do :: "decoy_cfg \<Rightarrow> bytes \<Rightarrow> cover_input \<Rightarrow> decoys option \<Rightarrow> cover_effect list \<times> decoys option" where
  "cover_do G seed i c = (case i of
     CvContacts now n \<Rightarrow> (case contacts_watched G seed now True n c of (es, c') \<Rightarrow> (map CDecoy es, c'))
   | CvUnwatched now n \<Rightarrow> (case contact_unwatched G seed now n c of (es, c') \<Rightarrow> (map CDecoy es, c'))
   | CvStarted now m ok \<Rightarrow> (case on_decoys (started G seed now m ok) c of (es, c') \<Rightarrow> (map CDecoy es, c'))
   | CvDerived now k n \<Rightarrow> (case on_decoys (decoy_derived G seed now k n) c of (es, c') \<Rightarrow> (map CDecoy es, c'))
   | CvWatch n e \<Rightarrow> (case on_decoys (decoy_watch (rt_do (decoy_rt_cfg G seed n) e) n) c of (es, c') \<Rightarrow> (map CDecoy es, c'))
   | CvRefused now t \<Rightarrow> refused G seed now t c
   | CvStop now \<Rightarrow> (case cover_stop G seed now c of (es, c') \<Rightarrow> (map CDecoy es, c')))"

definition cover_step :: "decoy_cfg \<Rightarrow> bytes \<Rightarrow> decoys option \<Rightarrow> cover_input \<Rightarrow> decoys option" where
  "cover_step G seed c i = snd (cover_do G seed i c)"

end
