(* ===== verification/DecoyFacts.thy ===== *)
theory DecoyFacts
  imports Decoys Machines
begin

section \<open>Decoys are few, and yield\<close>

text \<open>
  Never more than eight decoys, and after a refused topic none, unless one was being started just then:
  \<open>late_start_survives\<close> and \<open>early_refusal_forgotten\<close> show the two ways in which cover traffic keeps a
  slot of a full relay.
\<close>

definition decoys_ok :: "decoys \<Rightarrow> bool" where
  "decoys_ok d \<longleftrightarrow> jm_inv (dc_running d) \<and> (\<forall>i\<in>set (jm_keys (dc_running d)). i < DECOY_MAX)
     \<and> (\<forall>x\<in>set (dc_resizes d). \<forall>i\<in>set (fst x). i < DECOY_MAX)"

definition cover_ok :: "decoys option \<Rightarrow> bool" where
  "cover_ok c \<longleftrightarrow> (case c of None \<Rightarrow> True | Some d \<Rightarrow> decoys_ok d)"

text \<open>Over: no decoy, none being started, and none to be started.\<close>

definition decoys_over :: "decoys \<Rightarrow> bool" where
  "decoys_over d \<longleftrightarrow> (dc_yielded d \<or> dc_stopped d) \<and> dc_running d = [] \<and> dc_resizes d = []"

definition cover_over :: "decoys option \<Rightarrow> bool" where
  "cover_over c \<longleftrightarrow> (case c of None \<Rightarrow> False | Some d \<Rightarrow> decoys_over d)"

lemma resize_go_ok:
  "decoys_ok d \<Longrightarrow> \<forall>i\<in>set is. i < DECOY_MAX \<Longrightarrow> decoys_ok (snd (resize_go G seed now want is d))"
proof (induction "is")
  case Nil
  have "set (jm_keys (filter (\<lambda>x. \<not> want \<le> fst x) (dc_running d))) \<subseteq> set (jm_keys (dc_running d))" by (auto simp: jm_keys_def)
  then have "\<forall>i\<in>set (jm_keys (filter (\<lambda>x. \<not> want \<le> fst x) (dc_running d))). i < DECOY_MAX"
    using Nil.prems(1) unfolding decoys_ok_def by blast
  then show ?case using Nil.prems(1) unfolding decoys_ok_def by simp
next
  case (Cons i "is")
  show ?case
  proof (cases "jm_has (dc_running d) i")
    case True
    then show ?thesis using Cons.IH [OF Cons.prems(1)] Cons.prems(2) by simp
  next
    case False
    then show ?thesis using Cons.prems unfolding decoys_ok_def by simp
  qed
qed

lemma resize_ok: "decoys_ok d \<Longrightarrow> decoys_ok (snd (resize G seed now n d))"
  by (auto simp: resize_def Let_def intro!: resize_go_ok)

lemma started_ok:
  assumes "decoys_ok d"
  shows "decoys_ok (snd (started G seed now m ok d))"
proof (cases "m < length (dc_resizes d)")
  case True
  obtain js want where x: "dc_resizes d ! m = (js, want)" by (cases "dc_resizes d ! m")
  have js: "\<forall>i\<in>set js. i < DECOY_MAX" using assms nth_mem [OF True] x by (auto simp: decoys_ok_def)
  let ?d = "d\<lparr>dc_resizes := take m (dc_resizes d) @ drop (Suc m) (dc_resizes d)\<rparr>"
  have d1: "decoys_ok ?d" using assms by (auto simp: decoys_ok_def dest: in_set_takeD in_set_dropD)
  show ?thesis
  proof (cases js)
    case (Cons i "is")
    obtain es r where t: "rt_tick (decoy_rt_cfg G seed i) now no_watches = (es, r)" by force
    have "decoys_ok (?d\<lparr>dc_running := jm_set i x (dc_running ?d), dc_lost := l\<rparr>)" for x l
      using d1 js Cons by (auto simp: decoys_ok_def jm_keys_set)
    from resize_go_ok [OF this, of "is" G seed now want] js Cons d1 show ?thesis
      by (simp add: started_def True x t Let_def case_prod_beta)
  qed (use assms x True in \<open>simp add: started_def\<close>)
qed (use assms in \<open>simp add: started_def\<close>)

lemma decoy_watch_ok: "decoys_ok d \<Longrightarrow> decoys_ok (snd (decoy_watch f i d))"
  by (auto simp: decoy_watch_def decoys_ok_def jm_keys_set dest: jm_get_Some_key split: option.split prod.split)

lemma decoy_derived_ok:
  assumes "decoys_ok d"
  shows "decoys_ok (snd (decoy_derived G seed now k i d))"
proof (cases "jm_get (dc_running d) i")
  case (Some x)
  then have "decoys_ok (d\<lparr>dc_running := jm_set i y (dc_running d)\<rparr>)" for y
    using assms by (auto simp: decoys_ok_def jm_keys_set dest: jm_get_Some_key)
  then show ?thesis using assms decoy_watch_ok Some by (auto simp: decoy_derived_def Let_def split: option.split)
qed (use assms in \<open>simp add: decoy_derived_def\<close>)

lemma yield_ok: "decoys_ok d \<Longrightarrow> decoys_ok (snd (yieldAll G seed now d))"
  by (simp add: yieldAll_def decoys_ok_def jm_keys_def)

lemma decoys_start_ok: "decoys_ok startDecoys"
  by (simp add: decoys_ok_def startDecoys_def jm_keys_def)

lemma cover_step_ok: "cover_ok c \<Longrightarrow> cover_ok (cover_step G seed c i)"
proof (cases c)
  case None
  then show ?thesis using resize_ok [OF decoys_start_ok]
    by (auto simp: cover_step_def cover_do_def cover_ok_def contacts_watched_def contact_unwatched_def on_decoys_def refused_def cover_stop_def
        case_prod_beta split: cover_input.split)
next
  case (Some d)
  assume "cover_ok c"
  then have d: "decoys_ok d" using Some by (simp add: cover_ok_def)
  then have "decoys_ok (snd (decoys_stop G seed now d))" for now by (simp add: decoys_stop_def decoys_ok_def jm_keys_def)
  then show ?thesis using Some d
    by (auto simp: cover_step_def cover_do_def cover_ok_def contacts_watched_def contact_unwatched_def on_decoys_def refused_def cover_stop_def
        case_prod_beta resize_ok started_ok decoy_watch_ok decoy_derived_ok yield_ok split: cover_input.split)
qed

lemma cover_step_over: "cover_over c \<Longrightarrow> cover_over (cover_step G seed c i)"
  by (auto simp: cover_over_def decoys_over_def cover_step_def cover_do_def contacts_watched_def contact_unwatched_def on_decoys_def
      refused_def cover_stop_def resize_def started_def decoy_watch_def decoy_derived_def yieldAll_def decoys_stop_def case_prod_beta
      split: cover_input.split option.splits)

interpretation cover: absorbing "cover_step G seed" cover_ok cover_over
  by unfold_locales (rule cover_step_ok cover_step_over; assumption)+

lemma decoys_few: "decoys_ok d \<Longrightarrow> decoys_count d \<le> DECOY_MAX"
proof -
  assume d: "decoys_ok d"
  then have "set (jm_keys (dc_running d)) \<subseteq> {..<DECOY_MAX}" by (auto simp: decoys_ok_def)
  from card_mono [OF _ this] have "card (set (jm_keys (dc_running d))) \<le> DECOY_MAX" by simp
  moreover have "decoys_count d = length (jm_keys (dc_running d))" by (simp add: decoys_count_def jm_keys_def)
  ultimately show ?thesis using d distinct_card [of "jm_keys (dc_running d)"] by (simp add: decoys_ok_def jm_inv_keys)
qed

text \<open>
  The decoys yield. Whatever the session did, it holds at most eight decoys; and when it has any and
  a topic is refused for the first time while none is being started, all of them are given up and
  none comes back, whatever contacts come and go later.
\<close>
theorem decoys_yield:
  assumes "run (cover_step G seed) None past = Some d" "dc_resizes d = []" "\<not> dc_yielded d"
  shows "decoys_count d \<le> DECOY_MAX
    \<and> (\<exists>d'. run (cover_step G seed) None (past @ CvRefused now t # later) = Some d' \<and> decoys_count d' = 0 \<and> decoys_topics d' = [])"
proof -
  have "cover_ok (Some d)" using cover.run_inv [of None G seed past] assms(1) by (simp add: cover_ok_def)
  then have n: "decoys_count d \<le> DECOY_MAX" using decoys_few by (simp add: cover_ok_def)
  have "cover_over (cover_step G seed (Some d) (CvRefused now t))"
    using assms(2,3) by (simp add: cover_over_def decoys_over_def cover_step_def cover_do_def refused_def yieldAll_def case_prod_beta)
  then have "cover_over (run (cover_step G seed) (cover_step G seed (Some d) (CvRefused now t)) later)" by (rule cover.final_run)
  then have "cover_over (run (cover_step G seed) None (past @ CvRefused now t # later))"
    using assms(1) by (simp add: run_append)
  then show ?thesis using n by (auto simp: cover_over_def decoys_over_def decoys_count_def decoys_topics_def split: option.splits)
qed

subsection \<open>Two decoys that do not\<close>

text \<open>A decoy that is being started when the topic is refused: nothing looks at the yield again.\<close>

lemma late_start_survives:
  "\<exists>d. run (cover_step G seed) None [CvContacts now 1, CvRefused now t, CvStarted now 0 True, CvRefused now t] = Some d
    \<and> dc_yielded d \<and> decoys_count d = 1"
  by (simp add: cover_step_def cover_do_def contacts_watched_def resize_def startDecoys_def decoyCount_def DECOY_MAX_def upt_rec jm_has_def
      refused_def isDecoy_def yieldAll_def on_decoys_def started_def Let_def case_prod_beta decoys_count_def stop_decoys_def)

text \<open>A topic refused before there are decoys: they are started nevertheless.\<close>

lemma early_refusal_forgotten:
  "\<exists>d. run (cover_step G seed) None [CvRefused now t, CvContacts now 1, CvStarted now 0 True] = Some d
    \<and> \<not> dc_yielded d \<and> decoys_count d = 1"
  by (simp add: cover_step_def cover_do_def contacts_watched_def resize_def startDecoys_def decoyCount_def DECOY_MAX_def upt_rec jm_has_def
      refused_def isDecoy_def yieldAll_def on_decoys_def started_def Let_def case_prod_beta decoys_count_def stop_decoys_def)

text \<open>Two resizes at once: each starts the same decoy, and the first watch is put aside still running.\<close>

lemma overlapping_resizes_leak:
  "\<exists>d. run (cover_step G seed) None [CvContacts now 1, CvContacts now 1, CvStarted now 0 True, CvStarted now 0 True] = Some d
    \<and> decoys_count d = 1 \<and> length (dc_lost d) = 1"
  by (simp add: cover_step_def cover_do_def contacts_watched_def resize_def startDecoys_def decoyCount_def DECOY_MAX_def upt_rec jm_has_def
      refused_def isDecoy_def yieldAll_def on_decoys_def started_def Let_def case_prod_beta decoys_count_def stop_decoys_def)

definition demo_cover :: decoy_cfg where
  "demo_cover = \<lparr>dg_crypto = demo_crypto, dg_params = \<lparr>rv_networkId = js ''net'', rv_dateUTC = []\<rparr>, dg_watch = rp_watch demo_rt, dg_guard = OVERLAP_MS\<rparr>"

theorem decoys_yield_witness:
  "\<exists>d d'. run (cover_step demo_cover [7]) None [CvContacts 0 1, CvStarted 0 0 True] = Some d \<and> decoys_count d = 1
    \<and> run (cover_step demo_cover [7]) None ([CvContacts 0 1, CvStarted 0 0 True] @ CvRefused 0 [84] # [CvContacts 0 3]) = Some d' \<and> decoys_count d' = 0"
proof -
  obtain d where d: "run (cover_step demo_cover [7]) None [CvContacts 0 1, CvStarted 0 0 True] = Some d" "decoys_count d = 1" "dc_resizes d = []"
      "\<not> dc_yielded d"
    by (simp add: cover_step_def cover_do_def contacts_watched_def resize_def startDecoys_def decoyCount_def DECOY_MAX_def upt_rec jm_has_def
      on_decoys_def started_def Let_def case_prod_beta decoys_count_def)
  from decoys_yield [OF d(1,3,4), of 0 "[84]" "[CvContacts 0 3]"] show ?thesis using d(1,2) by blast
qed

end
