(* ===== verification/NodeList.thy ===== *)
theory NodeList
  imports JsText Rendezvous "HOL-Library.Sublist"
begin

section \<open>The published node list (lib/nodelist.ts)\<close>

text \<open>
  A list of relay nodes arrives over the network and replaces what the device had, so it is taken
  whole or refused with a reason. \<open>net_env\<close> is the platform these modules stand on: the text
  syntax of JSON, base64, the decoder, the URL parser, Ed25519 and the Unicode classes; a function
  that throws returns \<open>None\<close>.
\<close>

record url =
  u_protocol :: jstr
  u_hostname :: jstr
  u_username :: jstr
  u_password :: jstr
  u_search :: jstr
  u_hash :: jstr
  u_pathname :: jstr
  u_origin :: jstr
  u_href :: jstr

record net_env =
  ne_js :: js_env
  ne_parse :: "jstr \<Rightarrow> json option" \<comment> \<open>\<open>JSON.parse\<close>\<close>
  ne_str :: "json \<Rightarrow> jstr" \<comment> \<open>\<open>JSON.stringify\<close>\<close>
  ne_decode :: "bytes \<Rightarrow> jstr" \<comment> \<open>\<open>TextDecoder.decode\<close>\<close>
  ne_atob :: "jstr \<Rightarrow> bytes option"
  ne_btoa :: "bytes \<Rightarrow> jstr"
  ne_url :: "jstr \<Rightarrow> url option" \<comment> \<open>\<open>new URL\<close>\<close>
  ne_verify :: "bytes \<Rightarrow> bytes \<Rightarrow> bytes \<Rightarrow> bool option" \<comment> \<open>\<open>ed25519.verify(sig, message, key)\<close>\<close>
  ne_sign :: "bytes \<Rightarrow> bytes \<Rightarrow> bytes" \<comment> \<open>\<open>ed25519.sign(message, private key)\<close>\<close>
  ne_pub :: "bytes \<Rightarrow> bytes" \<comment> \<open>\<open>ed25519.getPublicKey\<close>\<close>
  ne_invisible :: "jstr \<Rightarrow> jstr" \<comment> \<open>\<open>replace(/[\p{Cc}\p{Cf}\p{Zl}\p{Zp}]/gu, '')\<close>\<close>

definition MAX_NODES :: nat where "MAX_NODES = 24"
definition MAX_NAME :: nat where "MAX_NAME = 40"
definition MAX_ADDR :: nat where "MAX_ADDR = 400"
definition MAX_WEIGHT :: rat where "MAX_WEIGHT = 1000"

record published_node =
  nd_name :: jstr
  nd_addr :: jstr
  nd_w :: "rat option"

datatype nodelist_error = NotJson | BadVersion | NoNodes | NoneUsable

text \<open>\<open>s.includes(t)\<close>, \<open>s.startsWith(t)\<close> and the class \<open>[\s\x00-\x1f]\<close>.\<close>

definition includes_str :: "jstr \<Rightarrow> jstr \<Rightarrow> bool" where
  "includes_str s t = list_ex (prefix t) (suffixes s)"

definition starts_with :: "jstr \<Rightarrow> jstr \<Rightarrow> bool" where
  "starts_with s t = prefix t s"

definition addr_breaks :: "16 word \<Rightarrow> bool" where
  "addr_breaks u \<longleftrightarrow> white u \<or> u \<le> 0x1F"

definition usable_addr :: "jstr \<Rightarrow> bool" where
  "usable_addr a =
     (starts_with a (js ''/'') \<and> includes_str a (js ''/p2p/'')
      \<and> length a \<le> MAX_ADDR \<and> \<not> list_ex addr_breaks a)"

definition node_weight :: "json option \<Rightarrow> rat option" where
  "node_weight w = (case w of
     Some (JNum (Fin q)) \<Rightarrow> if 0 \<le> q then Some (min q MAX_WEIGHT) else None
   | _ \<Rightarrow> None)"

text \<open>One pass of the loop: what is kept so far, and the addresses seen.\<close>

definition node_step :: "net_env \<Rightarrow> published_node list \<times> jstr list \<Rightarrow> json \<Rightarrow> published_node list \<times> jstr list" where
  "node_step N acc n = (case acc of (out, seen) \<Rightarrow>
     (case (field n ''addr'', field n ''name'') of
        (Some (JStr a0), Some (JStr n0)) \<Rightarrow>
          (let a = trim a0 in
           if \<not> usable_addr a then (out, seen)
           else if a \<in> set seen then (out, seen)
           else let nm = take MAX_NAME (trim (ne_invisible N n0)) in
             if nm = [] then (out, seen)
             else (out @ [\<lparr>nd_name = nm, nd_addr = a, nd_w = node_weight (field n ''w'')\<rparr>], seen @ [a]))
      | _ \<Rightarrow> (out, seen)))"

definition parseNodeList :: "net_env \<Rightarrow> jstr \<Rightarrow> nodelist_error + published_node list" where
  "parseNodeList N s = (case ne_parse N s of
     None \<Rightarrow> Inl NotJson
   | Some doc \<Rightarrow>
       if field doc ''v'' \<noteq> Some (num 1) then Inl BadVersion
       else (case field doc ''nodes'' of
          Some (JArr ns) \<Rightarrow>
            if ns = [] then Inl NoNodes
            else let out = fst (foldl (node_step N) ([], []) (take MAX_NODES ns)) in
              if out = [] then Inl NoneUsable else Inr out
        | _ \<Rightarrow> Inl NoNodes))"

subsection \<open>What a parsed list is\<close>

definition node_ok :: "published_node \<Rightarrow> bool" where
  "node_ok n = (usable_addr (nd_addr n) \<and> nd_name n \<noteq> [] \<and> length (nd_name n) \<le> MAX_NAME
     \<and> (case nd_w n of None \<Rightarrow> True | Some q \<Rightarrow> 0 \<le> q \<and> q \<le> MAX_WEIGHT))"

definition nodes_ok :: "published_node list \<times> jstr list \<Rightarrow> bool" where
  "nodes_ok acc = (list_all node_ok (fst acc) \<and> snd acc = map nd_addr (fst acc) \<and> distinct (snd acc))"

lemma node_weight_range: "node_weight w = Some q \<Longrightarrow> 0 \<le> q \<and> q \<le> MAX_WEIGHT"
  by (auto simp: node_weight_def MAX_WEIGHT_def split: option.splits json.splits jsnum.splits if_splits)

lemma node_step_ok: "nodes_ok acc \<Longrightarrow> nodes_ok (node_step N acc n) \<and> length (fst (node_step N acc n)) \<le> Suc (length (fst acc))"
  unfolding node_step_def nodes_ok_def
  by (auto simp: node_ok_def Let_def split: prod.splits option.splits json.splits dest: node_weight_range)

lemma node_fold_ok:
  assumes "nodes_ok acc"
  shows "nodes_ok (foldl (node_step N) acc ns) \<and> length (fst (foldl (node_step N) acc ns)) \<le> length (fst acc) + length ns"
  using assms
proof (induction ns arbitrary: acc)
  case Nil
  then show ?case by simp
next
  case (Cons n ns)
  have "nodes_ok (node_step N acc n)" "length (fst (node_step N acc n)) \<le> Suc (length (fst acc))"
    using node_step_ok [OF Cons.prems, of N n] by simp_all
  with Cons.IH [of "node_step N acc n"] show ?case by fastforce
qed

lemma parsed_nodes:
  assumes "parseNodeList N s = Inr out"
  shows "out \<noteq> []" "length out \<le> MAX_NODES" "list_all node_ok out" "distinct (map nd_addr out)"
proof -
  obtain ns where o: "out = fst (foldl (node_step N) ([], []) (take MAX_NODES ns))" "out \<noteq> []"
    using assms by (auto simp: parseNodeList_def Let_def split: option.splits json.splits if_splits)
  have "nodes_ok ([], [])" by (simp add: nodes_ok_def)
  from node_fold_ok [OF this, of N "take MAX_NODES ns"]
  have f: "nodes_ok (foldl (node_step N) ([], []) (take MAX_NODES ns))" "length out \<le> length (take MAX_NODES ns)"
    by (simp_all add: o(1))
  then show "out \<noteq> []" "length out \<le> MAX_NODES" "list_all node_ok out" "distinct (map nd_addr out)"
    using o by (simp_all add: nodes_ok_def) (metis o(1))
qed

end
