(* ===== verification/Manifest.thy ===== *)
theory Manifest
  imports NodeList
begin

section \<open>The signed release manifest (lib/manifest.ts)\<close>

text \<open>
  One offline key signs what a client may trust. \<open>verifyManifest\<close> checks the signature over the
  exact bytes, then the shape, then the dates, and gives the manifest only when all three hold.
  \<open>fetchManifest\<close> asks every source and keeps the newest that verifies; what a source answered is
  an argument, \<open>None\<close> where a request failed. \<open>pick_max\<close> is the loop both this module and
  \<open>lib/netprofile.ts\<close> choose with, and \<open>ranked_sources\<close> the contract of such a choice.
\<close>

definition FUTURE_TOLERANCE_MS :: int where "FUTURE_TOLERANCE_MS = 10 * 60000"

datatype try_why = TryHttp | TrySignature | TryShape | TryExpired | TryFuture

definition isManifest :: "json \<Rightarrow> bool" where
  "isManifest m =
     (field m ''v'' = Some (num 1) \<and> is_str (field m ''version'') \<and> is_str (field m ''commit'')
      \<and> (case (int_val (field m ''made''), int_val (field m ''expires'')) of (Some a, Some b) \<Rightarrow> b > a | _ \<Rightarrow> False)
      \<and> (case field m ''web'' of None \<Rightarrow> True
         | Some w \<Rightarrow> is_str (field w ''cid'') \<and> is_str (field w ''bundle'') \<and> is_str (field w ''sri''))
      \<and> (case field m ''nodes'' of None \<Rightarrow> False | Some n \<Rightarrow> is_str (field n ''cid''))
      \<and> (case field m ''ci'' of None \<Rightarrow> False | Some c \<Rightarrow> is_str (field c ''updater_pubkey'')))"

text \<open>\<open>m.made\<close> and \<open>m.expires\<close> of something \<open>isManifest\<close> has passed.\<close>

definition mf_made :: "json \<Rightarrow> int" where
  "mf_made m = (case int_val (field m ''made'') of None \<Rightarrow> 0 | Some t \<Rightarrow> t)"

definition mf_expires :: "json \<Rightarrow> int" where
  "mf_expires m = (case int_val (field m ''expires'') of None \<Rightarrow> 0 | Some t \<Rightarrow> t)"

text \<open>\<open>ed25519.verify\<close> over decoded text, with the \<open>catch\<close>.\<close>

definition signed_by :: "net_env \<Rightarrow> jstr \<Rightarrow> bytes \<Rightarrow> jstr \<Rightarrow> bool" where
  "signed_by N sig raw pub = (case (ne_atob N (trim sig), ne_atob N (trim pub)) of
     (Some s, Some p) \<Rightarrow> ne_verify N s raw p = Some True
   | _ \<Rightarrow> False)"

definition verifyManifest :: "net_env \<Rightarrow> bytes \<Rightarrow> jstr \<Rightarrow> jstr \<Rightarrow> int \<Rightarrow> try_why + json" where
  "verifyManifest N raw sig pub now =
     (if \<not> signed_by N sig raw pub then Inl TrySignature
      else case js_parse (ne_js N) raw of
        None \<Rightarrow> Inl TryShape
      | Some m \<Rightarrow>
          if \<not> isManifest m then Inl TryShape
          else if now > mf_expires m then Inl TryExpired
          else if mf_made m > now + FUTURE_TOLERANCE_MS then Inl TryFuture
          else Inr m)"

definition signManifest :: "net_env \<Rightarrow> bytes \<Rightarrow> jstr \<Rightarrow> jstr option" where
  "signManifest N raw priv = map_option (\<lambda>k. ne_btoa N (ne_sign N raw k)) (ne_atob N (trim priv))"

definition rootPubOf :: "net_env \<Rightarrow> jstr \<Rightarrow> jstr option" where
  "rootPubOf N priv = map_option (\<lambda>k. ne_btoa N (ne_pub N k)) (ne_atob N (trim priv))"

subsection \<open>Choosing among sources\<close>

text \<open>\<open>let best = null; for (const a of answers) if (!best || key(a) > key(best)) best = a\<close>.\<close>

fun pick_max :: "('a \<Rightarrow> int) \<Rightarrow> 'a option \<Rightarrow> 'a list \<Rightarrow> 'a option" where
  "pick_max f best [] = best"
| "pick_max f best (a # as) =
     pick_max f (case best of None \<Rightarrow> Some a | Some b \<Rightarrow> if f a > f b then Some a else best) as"

record fetched =
  ft_url :: jstr
  ft_raw :: bytes
  ft_sig :: jstr
  ft_manifest :: json

definition one_source :: "net_env \<Rightarrow> jstr \<Rightarrow> int \<Rightarrow> jstr \<times> (bytes \<times> jstr) option \<Rightarrow> (jstr \<times> try_why) + fetched" where
  "one_source N pub now q = (case q of (u, ans) \<Rightarrow>
     (case ans of
        None \<Rightarrow> Inl (u, TryHttp)
      | Some (raw, sg) \<Rightarrow>
          let sg' = trim sg in
          (case verifyManifest N raw sg' pub now of
             Inl why \<Rightarrow> Inl (u, why)
           | Inr m \<Rightarrow> Inr \<lparr>ft_url = u, ft_raw = raw, ft_sig = sg', ft_manifest = m\<rparr>)))"

definition oks :: "('e + 'a) list \<Rightarrow> 'a list" where
  "oks xs = List.map_filter (\<lambda>x. case x of Inl _ \<Rightarrow> None | Inr a \<Rightarrow> Some a) xs"

definition fails :: "('e + 'a) list \<Rightarrow> 'e list" where
  "fails xs = List.map_filter (\<lambda>x. case x of Inl e \<Rightarrow> Some e | Inr _ \<Rightarrow> None) xs"

text \<open>The second part is \<open>tried\<close>; the first \<open>None\<close> is \<open>ok: false\<close>.\<close>

definition fetchManifest ::
  "net_env \<Rightarrow> (jstr \<times> (bytes \<times> jstr) option) list \<Rightarrow> jstr \<Rightarrow> int \<Rightarrow> fetched option \<times> (jstr \<times> try_why) list" where
  "fetchManifest N qs pub now =
     (let answers = map (one_source N pub now) qs
      in (pick_max (mf_made \<circ> ft_manifest) None (oks answers), fails answers))"

definition worstTry :: "(jstr \<times> try_why) list \<Rightarrow> try_why" where
  "worstTry tried = (case filter (\<lambda>w. list_ex (\<lambda>t. snd t = w) tried) [TrySignature, TryShape, TryFuture, TryExpired] of
     w # _ \<Rightarrow> w | [] \<Rightarrow> TryHttp)"

subsection \<open>The contract of a choice\<close>

lemma pick_max_best:
  "pick_max f best xs = Some m \<Longrightarrow>
     m \<in> set xs \<union> set_option best \<and> (\<forall>x\<in>set xs \<union> set_option best. f x \<le> f m)"
proof (induction xs arbitrary: best)
  case Nil
  then show ?case by simp
next
  case (Cons a xs)
  show ?case
  proof (cases best)
    case None
    with Cons.prems have "pick_max f (Some a) xs = Some m" by simp
    from Cons.IH [OF this] show ?thesis using None by auto
  next
    case (Some b)
    show ?thesis
    proof (cases "f a > f b")
      case True
      with Cons.prems Some have "pick_max f (Some a) xs = Some m" by simp
      from Cons.IH [OF this] show ?thesis using Some True by fastforce
    next
      case False
      with Cons.prems Some have "pick_max f (Some b) xs = Some m" by simp
      from Cons.IH [OF this] show ?thesis using Some False by fastforce
    qed
  qed
qed

lemma pick_max_some: "best \<noteq> None \<or> xs \<noteq> [] \<Longrightarrow> pick_max f best xs \<noteq> None"
  by (induction xs arbitrary: best) (auto split: option.splits)

lemma set_oks [simp]: "a \<in> set (oks xs) \<longleftrightarrow> Inr a \<in> set xs"
  by (induction xs) (auto simp: oks_def List.map_filter_simps split: sum.splits)

lemma set_fails [simp]: "e \<in> set (fails xs) \<longleftrightarrow> Inl e \<in> set xs"
  by (induction xs) (auto simp: fails_def List.map_filter_simps split: sum.splits)

text \<open>
  Sources are judged one by one and what passes is genuine. Then the one kept is genuine, and one
  current source is enough: it is kept unless a source that passes has something newer.
\<close>

locale ranked_sources =
  fixes judge :: "'q \<Rightarrow> 'e + 'd" and rank :: "'d \<Rightarrow> int" and genuine :: "'d \<Rightarrow> bool"
  assumes judged: "judge q = Inr d \<Longrightarrow> genuine d"
begin

lemma kept_genuine:
  assumes "pick_max rank None (oks (map judge qs)) = Some d"
  shows "genuine d" and "\<exists>q\<in>set qs. judge q = Inr d"
proof -
  have "Inr d \<in> judge ` set qs" using pick_max_best [OF assms] by auto
  then obtain q where "q \<in> set qs" "judge q = Inr d" by (metis imageE)
  then show "genuine d" "\<exists>q\<in>set qs. judge q = Inr d" using judged by blast+
qed

lemma one_is_enough:
  assumes "q \<in> set qs" and "judge q = Inr d"
  shows "\<exists>k. pick_max rank None (oks (map judge qs)) = Some k \<and> rank d \<le> rank k"
proof -
  have d: "d \<in> set (oks (map judge qs))" using assms by (auto simp: image_iff) metis
  then have "oks (map judge qs) \<noteq> []" by (metis empty_iff list.set(1))
  then have "pick_max rank None (oks (map judge qs)) \<noteq> None" by (intro pick_max_some) simp
  then obtain k where "pick_max rank None (oks (map judge qs)) = Some k" by blast
  with pick_max_best [OF this] d show ?thesis by auto
qed

end

text \<open>What a manifest that verifies is.\<close>

definition genuine_manifest :: "net_env \<Rightarrow> jstr \<Rightarrow> int \<Rightarrow> fetched \<Rightarrow> bool" where
  "genuine_manifest N pub now f \<longleftrightarrow>
     signed_by N (ft_sig f) (ft_raw f) pub \<and> js_parse (ne_js N) (ft_raw f) = Some (ft_manifest f)
     \<and> isManifest (ft_manifest f) \<and> now \<le> mf_expires (ft_manifest f)
     \<and> mf_made (ft_manifest f) \<le> now + FUTURE_TOLERANCE_MS"

interpretation releases: ranked_sources "one_source N pub now" "mf_made \<circ> ft_manifest" "genuine_manifest N pub now"
  for N pub now
  by unfold_locales
    (auto simp: one_source_def genuine_manifest_def verifyManifest_def Let_def split: prod.splits option.splits sum.splits if_splits)

text \<open>
  C13: the release manifest a client keeps is signed by the root key over its exact bytes, is a
  manifest, and is in date; it is as new as the newest any source of the profile serves that
  verifies, whatever the other sources serve; and as long as one source serves one that verifies,
  the fetch succeeds.
\<close>

theorem newest_manifest_kept:
  assumes "(u, Some (raw, sg)) \<in> set qs" and "verifyManifest N raw (trim sg) pub now = Inr m"
  shows "\<exists>k tried. fetchManifest N qs pub now = (Some k, tried) \<and> mf_made m \<le> mf_made (ft_manifest k)
    \<and> genuine_manifest N pub now k \<and> (\<exists>s. (ft_url k, Some (ft_raw k, s)) \<in> set qs \<and> trim s = ft_sig k)"
proof -
  have j: "one_source N pub now (u, Some (raw, sg)) = Inr \<lparr>ft_url = u, ft_raw = raw, ft_sig = trim sg, ft_manifest = m\<rparr>"
    using assms(2) by (simp add: one_source_def Let_def)
  from releases.one_is_enough [OF assms(1) j] obtain k where
    k: "pick_max (mf_made \<circ> ft_manifest) None (oks (map (one_source N pub now) qs)) = Some k"
       "mf_made m \<le> mf_made (ft_manifest k)" by auto
  from releases.kept_genuine [OF k(1)] obtain q where
    q: "genuine_manifest N pub now k" "q \<in> set qs" "one_source N pub now q = Inr k" by blast
  then have "\<exists>s. (ft_url k, Some (ft_raw k, s)) \<in> set qs \<and> trim s = ft_sig k"
    by (auto simp: one_source_def Let_def split: prod.splits option.splits sum.splits)
  then show ?thesis using k q by (simp add: fetchManifest_def Let_def)
qed

text \<open>A platform to evaluate at: base64 is the identity on bytes, a key signs by naming itself.\<close>

definition demo_net :: "(bytes \<Rightarrow> json option) \<Rightarrow> net_env" where
  "demo_net p = \<lparr>ne_js = \<lparr>js_parse = p, js_stringify = \<lambda>_. [], js_num_of = \<lambda>_. NaN, js_num_str = \<lambda>_. []\<rparr>,
     ne_parse = \<lambda>s. if s = js ''{}'' then Some (JObj []) else p (map ucast s), ne_str = \<lambda>_. [],
     ne_decode = map ucast, ne_atob = \<lambda>s. Some (map ucast s), ne_btoa = map ucast, ne_url = \<lambda>_. None,
     ne_verify = \<lambda>s m k. Some (s = k), ne_sign = \<lambda>m k. k, ne_pub = \<lambda>k. k, ne_invisible = \<lambda>s. s\<rparr>"

definition demo_release :: "int \<Rightarrow> json" where
  "demo_release made = JObj [(js ''v'', num 1), (js ''version'', JStr []), (js ''commit'', JStr []),
     (js ''made'', num made), (js ''expires'', num 5000), (js ''nodes'', JObj [(js ''cid'', JStr [])]),
     (js ''ci'', JObj [(js ''updater_pubkey'', JStr [])])]"

definition demo_releases :: "bytes \<Rightarrow> json option" where
  "demo_releases b = (if b = [1] then Some (demo_release 10) else if b = [2] then Some (demo_release 20) else None)"

lemma demo_release_ok: "isManifest (demo_release t) = (t < 5000)" "mf_made (demo_release t) = t" "mf_expires (demo_release t) = 5000"
  by (simp_all add: demo_release_def isManifest_def mf_made_def mf_expires_def)

lemma newest_manifest_kept_witness:
  "\<exists>k tried. fetchManifest (demo_net demo_releases)
       [([0x41], Some ([1], [0x37])), ([0x42], None), ([0x43], Some ([2], [0x37]))] [0x37] 100 = (Some k, tried)
     \<and> mf_made (ft_manifest k) \<ge> 20"
proof -
  have t: "trim [0x37] = [0x37]" by (simp add: trim_def white_def)
  have "verifyManifest (demo_net demo_releases) [2] (trim [0x37]) [0x37] 100 = Inr (demo_release 20)"
    by (simp add: verifyManifest_def signed_by_def t demo_net_def demo_releases_def demo_release_ok FUTURE_TOLERANCE_MS_def)
  from newest_manifest_kept [OF _ this, of "[0x43]" "[([0x41], Some ([1], [0x37])), ([0x42], None), ([0x43], Some ([2], [0x37]))]"]
  show ?thesis by (auto simp: demo_release_ok)
qed

end
