(* ===== verification/Cid.thy ===== *)
theory Cid
  imports Rendezvous JsText
begin

section \<open>Content identifiers (lib/cid.ts)\<close>

text \<open>
  A CID names bytes by their SHA-256 digest: four prefix bytes and the digest, in base32 after a
  \<open>b\<close>. Only this one form is checked, every other is refused. \<open>base32\<close> is the same accumulator
  as in \<open>lib/rendezvous.ts\<close>, written out a second time in the source; the model has it once.
\<close>

definition CID_PREFIX :: bytes where "CID_PREFIX = [0x01, 0x55, 0x12, 0x20]"

definition cidV1Raw :: "crypto \<Rightarrow> bytes \<Rightarrow> jstr" where
  "cidV1Raw C b = js ''b'' @ base32 (CID_PREFIX @ c_sha256 C b)"

text \<open>\<open>[a-z2-7]\<close>.\<close>

definition b32_char :: "16 word \<Rightarrow> bool" where
  "b32_char u \<longleftrightarrow> 0x61 \<le> u \<and> u \<le> 0x7A \<or> 0x32 \<le> u \<and> u \<le> 0x37"

definition isVerifiableCid :: "jstr \<Rightarrow> bool" where
  "isVerifiableCid c = (take 7 c = js ''bafkrei'' \<and> length c = 59 \<and> list_all b32_char (drop 7 c))"

definition cidMatches :: "crypto \<Rightarrow> jstr \<Rightarrow> bytes \<Rightarrow> bool" where
  "cidMatches C c b = (if \<not> isVerifiableCid c then False else cidV1Raw C b = c)"

subsection \<open>Lemmas\<close>

lemma B32_chars: "i < 32 \<Longrightarrow> b32_char (B32 ! i)"
proof -
  assume "i < 32"
  then have "i \<in> set [0..<32]" by simp
  moreover have "list_all (\<lambda>i. b32_char (B32 ! i)) [0..<32]" by code_simp
  ultimately show ?thesis by (simp add: list_all_iff del: set_upt)
qed

lemma and_31_less: "unat (w AND 31 :: 32 word) < 32"
proof -
  have "w AND 31 \<le> 31" by (rule word_and_le1)
  then have "unat (w AND 31) \<le> unat (31 :: 32 word)" by (simp add: word_le_nat_alt)
  then show ?thesis by simp
qed

lemma b32_drain_chars: "b32_drain v k = (s, k') \<Longrightarrow> list_all b32_char s"
proof (induction v k arbitrary: s k' rule: b32_drain.induct)
  case (1 v bits)
  then show ?case
    by (subst (asm) (2) b32_drain.simps) (auto split: if_splits prod.splits simp: B32_chars and_31_less)
qed

lemma b32_go_chars: "list_all b32_char (b32_go v k bs)"
  by (induction v k bs rule: b32_go.induct)
    (auto simp: B32_chars and_31_less Let_def dest: b32_drain_chars split: prod.splits)

lemma base32_chars: "list_all b32_char (base32 bs)"
  by (simp add: base32_def b32_go_chars)

lemma cid_head: "take 6 (base32 (CID_PREFIX @ d)) = js ''afkrei''"
  unfolding base32_def CID_PREFIX_def
  by (simp add: b32_drain.simps Let_def B32_def js_def)

lemma cid_length: "length (c_sha256 C b) = 32 \<Longrightarrow> length (cidV1Raw C b) = 59"
  by (simp add: cidV1Raw_def length_base32 CID_PREFIX_def)

lemma cid_verifiable:
  assumes "length (c_sha256 C b) = 32"
  shows "isVerifiableCid (cidV1Raw C b)"
proof -
  have "take 7 (cidV1Raw C b) = js ''b'' @ take 6 (base32 (CID_PREFIX @ c_sha256 C b))"
    by (simp add: cidV1Raw_def js_def)
  moreover have "list_all b32_char (drop 7 (cidV1Raw C b))"
    using base32_chars [of "CID_PREFIX @ c_sha256 C b"]
    by (auto simp: cidV1Raw_def js_def list_all_iff dest: in_set_dropD)
  ultimately show ?thesis using cid_length [OF assms] by (simp add: isVerifiableCid_def cid_head js_def)
qed

lemma cid_matches_own: "length (c_sha256 C b) = 32 \<Longrightarrow> cidMatches C (cidV1Raw C b) b"
  by (simp add: cidMatches_def cid_verifiable)

lemma cid_names_digest:
  assumes "length (c_sha256 C a) = 32" and "length (c_sha256 C b) = 32"
  shows "cidV1Raw C a = cidV1Raw C b \<longleftrightarrow> c_sha256 C a = c_sha256 C b"
  using assms by (simp add: cidV1Raw_def base32_inj)

lemma cid_matches_digest:
  assumes "length (c_sha256 C a) = 32" and "length (c_sha256 C b) = 32" and "cidMatches C c a"
  shows "cidMatches C c b \<longleftrightarrow> c_sha256 C a = c_sha256 C b"
  using assms cid_names_digest [OF assms(1,2)] by (auto simp: cidMatches_def split: if_splits)

end
