(* ===== verification/NetProfile.thy ===== *)
theory NetProfile
  imports Manifest Cid
begin

section \<open>An operator's network as a signed profile (lib/netprofile.ts)\<close>

text \<open>
  A network other than the built-in one reaches a device as an envelope: the profile's exact bytes
  and a signature by the operator's root key, which is inside the profile.
  \<open>parseOperatorProfile\<close> checks the content, \<open>openEnvelope\<close> the signature, the dates and, for a
  network already known here, the pinned key and the sequence number. A reason for a refusal is a
  value; the text of a message is not modelled.
\<close>

record app_address =
  ap_origin :: jstr
  ap_path :: jstr

record network_policy =
  np_node_only :: bool
  np_software :: "bool option"
  np_public :: "bool option"
  np_allowlist :: bool
  np_enroll :: "(jstr \<times> jstr) option" \<comment> \<open>\<open>issuer\<close> and \<open>record\<close>\<close>

record op_profile =
  op_networkId :: jstr
  op_operator :: jstr
  op_rootPub :: jstr
  op_seq :: int
  op_made :: int
  op_expires :: int
  op_nodes :: "published_node list"
  op_stores :: "jstr list"
  op_app :: app_address
  op_legacyApp :: "app_address list"
  op_profileUrls :: "jstr list"
  op_feedback :: "jstr option"
  op_home :: jstr
  op_policy :: network_policy

record network_envelope =
  ev_profile :: jstr
  ev_sig :: jstr

datatype refuse_why = RShape | RSignature | RReserved | RExpired | RFuture | RKey | RRollback

datatype profile_error =
    PeVersion | PeNetworkId | PeOperator | PeRootText | PeRootLength | PeSeq | PeDates
  | PeNodes nodelist_error | PeTransport | PeSoftware | PePublic | PeAccess
  | PeEnrollMethod | PeEnrollAccess | PeIssuer | PeRecord | PeUrl | PeOrigin | PePath | PeList

definition PUBLIC_NETWORK_ID :: jstr where "PUBLIC_NETWORK_ID = js ''main''"
definition MAX_LIST :: nat where "MAX_LIST = 8"

definition b64d :: "net_env \<Rightarrow> jstr \<Rightarrow> bytes option" where
  "b64d N s = ne_atob N (trim s)"

subsection \<open>Content\<close>

definition isLoopback :: "jstr \<Rightarrow> bool" where
  "isLoopback h = (h \<in> set [js ''localhost'', js ''127.0.0.1'', js ''[::1]''])"

definition safe_scheme :: "url \<Rightarrow> bool" where
  "safe_scheme u = (u_protocol u = js ''https:'' \<or> u_protocol u = js ''http:'' \<and> isLoopback (u_hostname u))"

definition httpsUrl :: "net_env \<Rightarrow> json option \<Rightarrow> profile_error + url" where
  "httpsUrl N v = (case v of
     Some (JStr s) \<Rightarrow>
       (case ne_url N s of
          None \<Rightarrow> Inl PeUrl
        | Some u \<Rightarrow>
            if \<not> safe_scheme u then Inl PeUrl
            else if u_username u \<noteq> [] \<or> u_password u \<noteq> [] \<or> u_search u \<noteq> [] \<or> u_hash u \<noteq> [] then Inl PeUrl
            else Inr u)
   | _ \<Rightarrow> Inl PeUrl)"

text \<open>\<open>s.replace(/\/$/, '')\<close>.\<close>

definition drop_slash :: "jstr \<Rightarrow> jstr" where
  "drop_slash s = (if s \<noteq> [] \<and> last s = 0x2F then butlast s else s)"

definition bareOrigin :: "net_env \<Rightarrow> json option \<Rightarrow> profile_error + jstr" where
  "bareOrigin N v = then_ok (httpsUrl N v) (\<lambda>u.
     if u_pathname u \<noteq> js ''/'' \<or> drop_slash (str_val v) \<noteq> u_origin u then Inl PeOrigin else Inr (u_origin u))"

definition appAddress :: "net_env \<Rightarrow> json option \<Rightarrow> profile_error + app_address" where
  "appAddress N v = (case v of
     None \<Rightarrow> Inl PePath
   | Some a \<Rightarrow>
       if \<not> (is_str (field a ''path'') \<and> starts_with (str_val (field a ''path'')) (js ''/'')) then Inl PePath
       else then_ok (bareOrigin N (field a ''origin'')) (\<lambda>og.
         Inr \<lparr>ap_origin = og, ap_path = str_val (field a ''path'')\<rparr>))"

fun all_ok :: "('a \<Rightarrow> 'e + 'b) \<Rightarrow> 'a list \<Rightarrow> 'e + 'b list" where
  "all_ok f [] = Inr []"
| "all_ok f (x # xs) = then_ok (f x) (\<lambda>y. then_ok (all_ok f xs) (\<lambda>ys. Inr (y # ys)))"

definition list_of :: "(json option \<Rightarrow> profile_error + 'b) \<Rightarrow> bool \<Rightarrow> json option \<Rightarrow> profile_error + 'b list" where
  "list_of each allowEmpty v = (case v of
     Some (JArr xs) \<Rightarrow>
       if (\<not> allowEmpty \<and> xs = []) \<or> length xs > MAX_LIST then Inl PeList else all_ok (\<lambda>x. each (Some x)) xs
   | _ \<Rightarrow> Inl PeList)"

text \<open>\<open>/^[A-Za-z0-9._-]{1,64}$/\<close>, and \<open>Number.isSafeInteger\<close>.\<close>

definition id_char :: "16 word \<Rightarrow> bool" where
  "id_char u \<longleftrightarrow> 0x41 \<le> u \<and> u \<le> 0x5A \<or> 0x61 \<le> u \<and> u \<le> 0x7A \<or> 0x30 \<le> u \<and> u \<le> 0x39
     \<or> u \<in> set [0x2E, 0x5F, 0x2D]"

definition network_id_ok :: "jstr \<Rightarrow> bool" where
  "network_id_ok s = (1 \<le> length s \<and> length s \<le> 64 \<and> list_all id_char s)"

definition safe_int :: "json option \<Rightarrow> int option" where
  "safe_int v = (case int_val v of None \<Rightarrow> None | Some n \<Rightarrow> if \<bar>n\<bar> \<le> 9007199254740991 then Some n else None)"

text \<open>\<open>v !== undefined\<close> with a boolean, as three of the policy's fields are read.\<close>

definition bool_field :: "profile_error \<Rightarrow> json option \<Rightarrow> profile_error + bool option" where
  "bool_field e v = (case v of None \<Rightarrow> Inr None | Some (JBool b) \<Rightarrow> Inr (Some b) | Some _ \<Rightarrow> Inl e)"

definition only_field :: "profile_error \<Rightarrow> string \<Rightarrow> json option \<Rightarrow> profile_error + bool" where
  "only_field e w v = (case v of None \<Rightarrow> Inr False | Some x \<Rightarrow> if x = JStr (js w) then Inr True else Inl e)"

definition enroll_of :: "net_env \<Rightarrow> bool \<Rightarrow> json option \<Rightarrow> profile_error + (jstr \<times> jstr) option" where
  "enroll_of N allowlist v = (case v of
     None \<Rightarrow> Inr None
   | Some e \<Rightarrow>
       if field e ''method'' \<noteq> Some (JStr (js ''oidc'')) then Inl PeEnrollMethod
       else if \<not> allowlist then Inl PeEnrollAccess
       else
         let issuer = (case field e ''issuer'' of None \<Rightarrow> Some (js ''undefined'') | Some i \<Rightarrow> to_str (ne_js N) i);
             iss = (case issuer of None \<Rightarrow> None | Some s \<Rightarrow> ne_url N s)
         in if (case iss of None \<Rightarrow> True | Some u \<Rightarrow> u_protocol u \<noteq> js ''https:'') then Inl PeIssuer
         else
           let rc = (case field e ''record'' of None \<Rightarrow> JStr (js ''none'') | Some JNull \<Rightarrow> JStr (js ''none'') | Some x \<Rightarrow> x)
           in if rc \<notin> set [JStr (js ''none''), JStr (js ''sub''), JStr (js ''email'')] then Inl PeRecord
           else Inr (Some (the issuer, str_val (Some rc))))"

definition policy_of :: "net_env \<Rightarrow> json \<Rightarrow> profile_error + network_policy" where
  "policy_of N p =
     then_ok (only_field PeTransport ''node-only'' (field p ''transport'')) (\<lambda>nodeOnly.
     then_ok (bool_field PeSoftware (field p ''softwareProfiles'')) (\<lambda>sw.
     then_ok (bool_field PePublic (field p ''allowPublic'')) (\<lambda>pub.
     then_ok (only_field PeAccess ''allowlist'' (field p ''access'')) (\<lambda>al.
     then_ok (enroll_of N al (field p ''enroll'')) (\<lambda>en.
       Inr \<lparr>np_node_only = nodeOnly, np_software = sw, np_public = pub, np_allowlist = al, np_enroll = en\<rparr>)))))"

definition map_err :: "('e \<Rightarrow> 'f) \<Rightarrow> 'e + 'a \<Rightarrow> 'f + 'a" where
  "map_err f m = (case m of Inl e \<Rightarrow> Inl (f e) | Inr x \<Rightarrow> Inr x)"

text \<open>\<open>parseNodeList(JSON.stringify({ v: 1, nodes: o.nodes }))\<close>.\<close>

definition nodes_field :: "net_env \<Rightarrow> json \<Rightarrow> profile_error + published_node list" where
  "nodes_field N doc =
     map_err PeNodes (parseNodeList N (ne_str N (JObj ((js ''v'', num 1) #
       (case field doc ''nodes'' of None \<Rightarrow> [] | Some x \<Rightarrow> [(js ''nodes'', x)])))))"

definition root_of :: "net_env \<Rightarrow> json \<Rightarrow> profile_error + bytes" where
  "root_of N doc =
     (case (case field doc ''rootPub'' of None \<Rightarrow> Some (js ''undefined'') | Some x \<Rightarrow> to_str (ne_js N) x) of
        None \<Rightarrow> Inl PeRootText
      | Some s \<Rightarrow> (case b64d N s of
          None \<Rightarrow> Inl PeRootText
        | Some r \<Rightarrow> if length r \<noteq> 32 then Inl PeRootLength else Inr r))"

text \<open>\<open>o.policy ?? {}\<close>, \<open>o.legacyApp ?? []\<close>.\<close>

definition field_or :: "json \<Rightarrow> json \<Rightarrow> string \<Rightarrow> json" where
  "field_or d j k = (case field j k of None \<Rightarrow> d | Some JNull \<Rightarrow> d | Some x \<Rightarrow> x)"

definition feedback_of :: "net_env \<Rightarrow> json option \<Rightarrow> profile_error + jstr option" where
  "feedback_of N v =
     (if v = Some JNull then Inr None else then_ok (httpsUrl N v) (\<lambda>u. Inr (Some (u_href u))))"

definition parseOperatorProfile :: "net_env \<Rightarrow> json \<Rightarrow> profile_error + op_profile" where
  "parseOperatorProfile N doc =
     then_ok (check (field doc ''v'' = Some (num 1)) PeVersion) (\<lambda>_.
     then_ok (check (is_str (field doc ''networkId'') \<and> network_id_ok (str_val (field doc ''networkId''))) PeNetworkId) (\<lambda>_.
     then_ok (check (is_str (field doc ''operator'') \<and> trim (str_val (field doc ''operator'')) \<noteq> []
       \<and> length (str_val (field doc ''operator'')) \<le> 100) PeOperator) (\<lambda>_.
     then_ok (root_of N doc) (\<lambda>root.
     then_ok (case safe_int (field doc ''seq'') of Some n \<Rightarrow> if n < 0 then Inl PeSeq else Inr n | None \<Rightarrow> Inl PeSeq) (\<lambda>sq.
     then_ok (case (safe_int (field doc ''made''), safe_int (field doc ''expires'')) of
        (Some m, Some e) \<Rightarrow> if e \<le> m then Inl PeDates else Inr (m, e) | _ \<Rightarrow> Inl PeDates) (\<lambda>(made, expires).
     then_ok (nodes_field N doc) (\<lambda>nodes.
     then_ok (policy_of N (field_or (JObj []) doc ''policy'')) (\<lambda>policy.
     then_ok (list_of (bareOrigin N) False (field doc ''stores'')) (\<lambda>stores.
     then_ok (appAddress N (field doc ''app'')) (\<lambda>app.
     then_ok (list_of (appAddress N) True (Some (field_or (JArr []) doc ''legacyApp''))) (\<lambda>legacy.
     then_ok (list_of (\<lambda>v. then_ok (httpsUrl N v) (\<lambda>u. Inr (u_href u))) False (field doc ''profileUrls'')) (\<lambda>urls.
     then_ok (feedback_of N (field doc ''feedback'')) (\<lambda>fb.
     then_ok (httpsUrl N (field doc ''home'')) (\<lambda>home.
       Inr \<lparr>op_networkId = str_val (field doc ''networkId''), op_operator = trim (str_val (field doc ''operator'')),
         op_rootPub = ne_btoa N root, op_seq = sq, op_made = made, op_expires = expires, op_nodes = nodes,
         op_stores = stores, op_app = app, op_legacyApp = legacy, op_profileUrls = urls, op_feedback = fb,
         op_home = u_href home, op_policy = policy\<rparr>))))))))))))))"

subsection \<open>The envelope\<close>

text \<open>
  The first half of \<open>openEnvelope\<close>, up to the signature: the profile and the envelope as it would
  be kept. It reads no clock.
\<close>

definition read_envelope :: "net_env \<Rightarrow> json \<Rightarrow> refuse_why + op_profile \<times> network_envelope" where
  "read_envelope N raw =
     (case (case raw of JStr s \<Rightarrow> ne_parse N s | _ \<Rightarrow> Some raw) of
        None \<Rightarrow> Inl RShape
      | Some env \<Rightarrow>
          if \<not> (field env ''onchato-network'' = Some (num 1) \<and> is_str (field env ''profile'') \<and> is_str (field env ''sig''))
          then Inl RShape
          else (case b64d N (str_val (field env ''profile'')) of
            None \<Rightarrow> Inl RShape
          | Some bytes \<Rightarrow> (case js_parse (ne_js N) bytes of
              None \<Rightarrow> Inl RShape
            | Some doc \<Rightarrow> (case parseOperatorProfile N doc of
                Inl _ \<Rightarrow> Inl RShape
              | Inr p \<Rightarrow>
                  if \<not> signed_by N (str_val (field env ''sig'')) bytes (op_rootPub p) then Inl RSignature
                  else Inr (p, \<lparr>ev_profile = str_val (field env ''profile''), ev_sig = trim (str_val (field env ''sig''))\<rparr>)))))"

record pin =
  pn_rootPub :: jstr
  pn_seq :: int

definition openEnvelope ::
  "net_env \<Rightarrow> json \<Rightarrow> int \<Rightarrow> pin option \<Rightarrow> bool \<Rightarrow> refuse_why + op_profile \<times> network_envelope" where
  "openEnvelope N raw now pinned allowExpired =
     then_ok (read_envelope N raw) (\<lambda>(p, ev).
       if op_networkId p = PUBLIC_NETWORK_ID then Inl RReserved
       else if (case pinned of None \<Rightarrow> False | Some q \<Rightarrow> pn_rootPub q \<noteq> op_rootPub p) then Inl RKey
       else if (case pinned of None \<Rightarrow> False | Some q \<Rightarrow> op_seq p < pn_seq q) then Inl RRollback
       else if now > op_expires p \<and> \<not> allowExpired then Inl RExpired
       else if op_made p > now + FUTURE_TOLERANCE_MS then Inl RFuture
       else Inr (p, ev))"

definition envelope_json :: "network_envelope \<Rightarrow> json" where
  "envelope_json ev = JObj [(js ''onchato-network'', num 1), (js ''profile'', JStr (ev_profile ev)), (js ''sig'', JStr (ev_sig ev))]"

definition signNetwork :: "net_env \<Rightarrow> json \<Rightarrow> jstr \<Rightarrow> network_envelope option" where
  "signNetwork N profile priv =
     (let bytes = js_stringify (ne_js N) profile
      in map_option (\<lambda>k. \<lparr>ev_profile = ne_btoa N bytes, ev_sig = ne_btoa N (ne_sign N bytes k)\<rparr>) (b64d N priv))"

definition rootPubFor :: "net_env \<Rightarrow> jstr \<Rightarrow> jstr option" where
  "rootPubFor N priv = map_option (\<lambda>k. ne_btoa N (ne_pub N k)) (b64d N priv)"

text \<open>Eight groups of four digits.\<close>

fun groups4 :: "jstr \<Rightarrow> jstr list" where
  "groups4 (a # b # c # d # r) = [a, b, c, d] # groups4 r"
| "groups4 _ = []"

fun join_sp :: "jstr list \<Rightarrow> jstr" where
  "join_sp [] = []"
| "join_sp [x] = x"
| "join_sp (x # xs) = x @ [0x20] @ join_sp xs"

definition rootFingerprint :: "crypto \<Rightarrow> net_env \<Rightarrow> jstr \<Rightarrow> jstr option" where
  "rootFingerprint C N pub = map_option (\<lambda>k. join_sp (groups4 (hex (take 16 (c_sha256 C k))))) (b64d N pub)"

end
