(* ===== verification/NetRegistry.thy ===== *)
theory NetRegistry
  imports NetProfile
begin

section \<open>The device's registry of networks, and refresh (lib/netprofile.ts)\<close>

text \<open>
  Imported networks are kept as one JSON object of envelopes under one key of a key-value store;
  every read opens each of them again. \<open>registerNetwork\<close>, \<open>refreshNetwork\<close> and \<open>importNetwork\<close>
  are the three ways in. A refresh asks every address of the profile it holds before it writes,
  and the store may change meanwhile: \<open>refresh_begin\<close> is what it read, \<open>refresh_end\<close> the rest.
  Answers come with the address they answer, in the order they arrived.
\<close>

type_synonym kv = "jstr \<Rightarrow> jstr option"

definition REGISTRY_KEY :: jstr where "REGISTRY_KEY = js ''ec-networks''"

subsection \<open>The stored object\<close>

text \<open>Property names of array elements, and back.\<close>

fun decimal :: "nat \<Rightarrow> jstr" where
  "decimal n = (if n < 10 then [word_of_nat (0x30 + n)] else decimal (n div 10) @ [word_of_nat (0x30 + n mod 10)])"

declare decimal.simps [simp del]

definition index_of :: "jstr \<Rightarrow> nat option" where
  "index_of s =
     (if s \<noteq> [] \<and> length s \<le> 10 \<and> list_all (\<lambda>u. 0x30 \<le> u \<and> u \<le> 0x39) s then
        (let n = foldl (\<lambda>a u. 10 * a + (unat u - 0x30)) 0 s
         in if decimal n = s \<and> n < 4294967295 then Some n else None)
      else None)"

text \<open>
  \<open>Object.entries(raw ?? {})\<close>. The entries of a string are single characters, and no character
  is an envelope; they are left out.
\<close>

definition entries :: "json \<Rightarrow> (jstr \<times> json) list" where
  "entries raw = (case raw of
     JObj kvs \<Rightarrow> kvs
   | JArr xs \<Rightarrow> map (\<lambda>i. (decimal i, xs ! i)) [0..<length xs]
   | _ \<Rightarrow> [])"

text \<open>
  \<open>all[id] = v\<close> on what \<open>JSON.parse\<close> gave. Assigning \<open>__proto__\<close> of an object without such a
  property of its own sets its prototype, which \<open>JSON.stringify\<close> does not write; assigning to
  null or a primitive, or an object to an array's \<open>length\<close>, throws.
\<close>

definition put_entry :: "jstr \<Rightarrow> json \<Rightarrow> json \<Rightarrow> json option" where
  "put_entry i v raw = (case raw of
     JObj kvs \<Rightarrow> Some (JObj (if i = js ''__proto__'' \<and> \<not> jm_has kvs i then kvs else jm_set i v kvs))
   | JArr xs \<Rightarrow>
       if i = js ''length'' then None
       else (case index_of i of
          None \<Rightarrow> Some (JArr xs)
        | Some n \<Rightarrow> Some (JArr ((xs @ replicate (Suc n - length xs) JNull)[n := v])))
   | _ \<Rightarrow> None)"

text \<open>\<open>JSON.parse(kv.get(REGISTRY_KEY) || '{}')\<close>, and \<open>{}\<close> when it throws.\<close>

definition raw_registry :: "net_env \<Rightarrow> kv \<Rightarrow> json" where
  "raw_registry N kv =
     (case ne_parse N (case kv REGISTRY_KEY of None \<Rightarrow> js ''{}'' | Some s \<Rightarrow> if s = [] then js ''{}'' else s) of
        None \<Rightarrow> JObj [] | Some j \<Rightarrow> j)"

record known_network =
  kn_profile :: op_profile
  kn_envelope :: network_envelope
  kn_expired :: bool

definition load_entry :: "net_env \<Rightarrow> int \<Rightarrow> (jstr, known_network) jmap \<Rightarrow> jstr \<times> json \<Rightarrow> (jstr, known_network) jmap" where
  "load_entry N now out e = (case e of (i, env) \<Rightarrow>
     (case openEnvelope N env now None True of
        Inl _ \<Rightarrow> out
      | Inr (p, ev) \<Rightarrow>
          if op_networkId p = i
          then jm_set i \<lparr>kn_profile = p, kn_envelope = ev, kn_expired = (now > op_expires p)\<rparr> out else out))"

definition loadRegistry :: "net_env \<Rightarrow> kv \<Rightarrow> int \<Rightarrow> (jstr, known_network) jmap" where
  "loadRegistry N kv now = foldl (load_entry N now) [] (entries (raw_registry N kv))"

text \<open>The write both ways in end with; \<open>None\<close> is the exception.\<close>

definition store_network :: "net_env \<Rightarrow> kv \<Rightarrow> op_profile \<Rightarrow> network_envelope \<Rightarrow> kv option" where
  "store_network N kv p ev =
     map_option (\<lambda>j. kv(REGISTRY_KEY \<mapsto> ne_str N j))
       (put_entry (op_networkId p) (envelope_json ev) (raw_registry N kv))"

subsection \<open>The ways in\<close>

datatype 'a net_result = Refused refuse_why | Threw | Took 'a

definition held_pin :: "known_network \<Rightarrow> pin" where
  "held_pin k = \<lparr>pn_rootPub = op_rootPub (kn_profile k), pn_seq = op_seq (kn_profile k)\<rparr>"

definition registerNetwork :: "net_env \<Rightarrow> kv \<Rightarrow> json \<Rightarrow> int \<Rightarrow> (op_profile \<times> bool) net_result \<times> kv" where
  "registerNetwork N kv raw now =
     (let known = loadRegistry N kv now;
          first = openEnvelope N raw now None False;
          pinned = (case first of Inl _ \<Rightarrow> None | Inr (peek, _) \<Rightarrow> jm_get known (op_networkId peek));
          r = (case pinned of Some k \<Rightarrow> openEnvelope N raw now (Some (held_pin k)) False | None \<Rightarrow> first)
      in case r of
        Inl why \<Rightarrow> (Refused why, kv)
      | Inr (p, ev) \<Rightarrow>
          (case store_network N kv p ev of
             None \<Rightarrow> (Threw, kv)
           | Some kv' \<Rightarrow> (Took (p, pinned \<noteq> None), kv')))"

datatype kept = Added | Newer | Already

definition importNetwork :: "net_env \<Rightarrow> kv \<Rightarrow> json \<Rightarrow> int \<Rightarrow> (jstr \<times> kept) net_result \<times> kv" where
  "importNetwork N kv raw now =
     (case openEnvelope N raw now None True of
        Inl why \<Rightarrow> (Refused why, kv)
      | Inr (p, ev) \<Rightarrow>
          let held = jm_get (loadRegistry N kv now) (op_networkId p) in
          if (case held of None \<Rightarrow> False | Some k \<Rightarrow> op_rootPub (kn_profile k) \<noteq> op_rootPub p) then (Refused RKey, kv)
          else if (case held of None \<Rightarrow> False | Some k \<Rightarrow> op_seq p \<le> op_seq (kn_profile k))
            then (Took (op_networkId p, Already), kv)
          else (case store_network N kv p ev of
             None \<Rightarrow> (Threw, kv)
           | Some kv' \<Rightarrow> (Took (op_networkId p, case held of Some _ \<Rightarrow> Newer | None \<Rightarrow> Added), kv')))"

datatype refresh_why = WhyHttp | WhyUnknown | WhyRefused refuse_why | WhyThrew

definition refresh_begin :: "net_env \<Rightarrow> kv \<Rightarrow> jstr \<Rightarrow> int \<Rightarrow> op_profile option" where
  "refresh_begin N kv i now = map_option kn_profile (jm_get (loadRegistry N kv now) i)"

text \<open>One address' answer, \<open>None\<close> when the request failed.\<close>

definition judge_answer ::
  "net_env \<Rightarrow> jstr \<Rightarrow> op_profile \<Rightarrow> int \<Rightarrow> nat \<times> jstr option \<Rightarrow> refresh_why + op_profile \<times> network_envelope" where
  "judge_answer N i held now a = (case snd a of
     None \<Rightarrow> Inl WhyHttp
   | Some s \<Rightarrow>
       (case openEnvelope N (JStr s) now (Some \<lparr>pn_rootPub = op_rootPub held, pn_seq = op_seq held\<rparr>) False of
          Inl why \<Rightarrow> Inl (WhyRefused why)
        | Inr (p, ev) \<Rightarrow> if op_networkId p \<noteq> i then Inl (WhyRefused RShape) else Inr (p, ev)))"

text \<open>
  \<open>answers\<close> pairs the place of an address in \<open>profileUrls\<close> with its answer, in the order of
  arrival, which is the order of \<open>tried\<close>; the choice goes through them in the order of the
  addresses.
\<close>

definition refresh_end ::
  "net_env \<Rightarrow> kv \<Rightarrow> jstr \<Rightarrow> op_profile \<Rightarrow> int \<Rightarrow> (nat \<times> jstr option) list
     \<Rightarrow> (refresh_why + op_profile \<times> bool) \<times> kv" where
  "refresh_end N kv i held now answers =
     (let tried = fails (map (judge_answer N i held now) answers);
          best = pick_max (op_seq \<circ> fst) None (oks (map (judge_answer N i held now) (sort_key fst answers)))
      in case best of
        None \<Rightarrow> (Inl (case tried of w # _ \<Rightarrow> w | [] \<Rightarrow> WhyHttp), kv)
      | Some (p, ev) \<Rightarrow>
          if op_seq p > op_seq held then
            (case registerNetwork N kv (envelope_json ev) now of
               (Refused why, kv') \<Rightarrow> (Inl (WhyRefused why), kv')
             | (Threw, kv') \<Rightarrow> (Inl WhyThrew, kv')
             | (Took _, kv') \<Rightarrow> (Inr (p, True), kv'))
          else (Inr (held, False), kv))"

text \<open>The whole of \<open>refreshNetwork\<close>, where nothing else wrote while it asked.\<close>

definition refreshNetwork ::
  "net_env \<Rightarrow> kv \<Rightarrow> jstr \<Rightarrow> int \<Rightarrow> (nat \<times> jstr option) list \<Rightarrow> (refresh_why + op_profile \<times> bool) \<times> kv" where
  "refreshNetwork N kv i now answers = (case refresh_begin N kv i now of
     None \<Rightarrow> (Inl WhyUnknown, kv)
   | Some held \<Rightarrow> refresh_end N kv i held now answers)"

subsection \<open>A pointer to a profile\<close>

definition POINTER_TAG :: jstr where "POINTER_TAG = js ''onchato-net=''"

record network_pointer =
  np_url :: jstr
  np_cid :: jstr

text \<open>\<open>/(https?:\/\/[^\s#]+)#onchato-net=(b[a-z2-7]{50,})/\<close> at one place of the text.\<close>

definition pointer_scheme :: "jstr \<Rightarrow> jstr option" where
  "pointer_scheme s =
     (if starts_with s (js ''https://'') then Some (js ''https://'')
      else if starts_with s (js ''http://'') then Some (js ''http://'') else None)"

definition plain_url_char :: "16 word \<Rightarrow> bool" where
  "plain_url_char u \<longleftrightarrow> \<not> white u \<and> u \<noteq> 0x23"

definition pointer_here :: "jstr \<Rightarrow> (jstr \<times> jstr) option" where
  "pointer_here s = (case pointer_scheme s of
     None \<Rightarrow> None
   | Some sch \<Rightarrow>
       let r = drop (length sch) s;
           host = takeWhile plain_url_char r;
           r' = dropWhile plain_url_char r;
           mark = js ''#'' @ POINTER_TAG
       in if host = [] \<or> \<not> starts_with r' mark then None
       else let c = drop (length mark) r'; body = takeWhile b32_char (drop 1 c)
       in if c = [] \<or> hd c \<noteq> 0x62 \<or> length body < 50 then None
       else Some (sch @ host, 0x62 # body))"

fun pointer_in :: "jstr \<Rightarrow> (jstr \<times> jstr) option" where
  "pointer_in [] = None"
| "pointer_in (c # s) = (case pointer_here (c # s) of Some m \<Rightarrow> Some m | None \<Rightarrow> pointer_in s)"

definition parseNetworkPointer :: "net_env \<Rightarrow> jstr \<Rightarrow> network_pointer option" where
  "parseNetworkPointer N s = (case pointer_in (trim s) of
     None \<Rightarrow> None
   | Some (w, c) \<Rightarrow> (case ne_url N w of
        None \<Rightarrow> None
      | Some u \<Rightarrow>
          if \<not> safe_scheme u then None
          else if u_username u \<noteq> [] \<or> u_password u \<noteq> [] then None
          else if \<not> isVerifiableCid c then None
          else Some \<lparr>np_url = u_href u, np_cid = c\<rparr>))"

definition pointerFor :: "crypto \<Rightarrow> jstr \<Rightarrow> bytes \<Rightarrow> jstr" where
  "pointerFor C w b = takeWhile (\<lambda>u. u \<noteq> 0x23) w @ js ''#'' @ POINTER_TAG @ cidV1Raw C b"

datatype pointed_why = PwHttp | PwCid

text \<open>The bytes served, \<open>None\<close> when the request failed.\<close>

definition fetchPointed :: "crypto \<Rightarrow> net_env \<Rightarrow> network_pointer \<Rightarrow> bytes option \<Rightarrow> pointed_why + jstr" where
  "fetchPointed C N p served = (case served of
     None \<Rightarrow> Inl PwHttp
   | Some b \<Rightarrow> if \<not> cidMatches C (np_cid p) b then Inl PwCid else Inr (ne_decode N b))"

end
