(* ===== verification/NetFacts.thy ===== *)
theory NetFacts
  imports NetRegistry
begin

section \<open>The pinned key stays, and one current source is enough (lib/netprofile.ts)\<close>

text \<open>
  What JSON keeps of the registry: an object of envelopes written and read again has the same
  entries. \<open>kept_registry\<close> is a store this module alone has written. \<open>entry_of\<close> is what is stored
  for an id whatever the clock says; the lookup is this entry, as long as the clock has not
  fallen more than the tolerance behind its date.
\<close>

definition json_laws :: "net_env \<Rightarrow> bool" where
  "json_laws N \<longleftrightarrow> ne_parse N (js ''{}'') = Some (JObj [])
     \<and> (\<forall>kvs. distinct (map fst kvs) \<longrightarrow> snd ` set kvs \<subseteq> range envelope_json \<longrightarrow>
          ne_str N (JObj kvs) \<noteq> []
          \<and> (\<exists>kvs'. ne_parse N (ne_str N (JObj kvs)) = Some (JObj kvs') \<and> distinct (map fst kvs') \<and> map_of kvs' = map_of kvs))"

definition clean_entries :: "(jstr \<times> json) list \<Rightarrow> bool" where
  "clean_entries kvs \<longleftrightarrow> distinct (map fst kvs) \<and> snd ` set kvs \<subseteq> range envelope_json"

definition kept_registry :: "net_env \<Rightarrow> kv \<Rightarrow> bool" where
  "kept_registry N kv \<longleftrightarrow> (\<exists>kvs. raw_registry N kv = JObj kvs \<and> clean_entries kvs)"

definition entry_of :: "net_env \<Rightarrow> kv \<Rightarrow> jstr \<Rightarrow> (op_profile \<times> network_envelope) option" where
  "entry_of N kv i = (case raw_registry N kv of
     JObj kvs \<Rightarrow> (case map_of kvs i of
         None \<Rightarrow> None
       | Some env \<Rightarrow> (case read_envelope N env of
           Inr (p, ev) \<Rightarrow> if op_networkId p = i \<and> i \<noteq> PUBLIC_NETWORK_ID then Some (p, ev) else None
         | Inl _ \<Rightarrow> None))
   | _ \<Rightarrow> None)"

definition in_sight :: "int \<Rightarrow> op_profile \<Rightarrow> bool" where
  "in_sight now p = (op_made p \<le> now + FUTURE_TOLERANCE_MS)"

subsection \<open>Opening\<close>

lemma trim_idem [simp]: "trim (trim s) = trim s"
proof -
  have d: "dropWhile white (rev (dropWhile white (rev t))) = rev (dropWhile white (rev t))"
    if "t = [] \<or> \<not> white (hd t)" for t
  proof (cases "dropWhile white (rev t)")
    case Nil
    show ?thesis unfolding Nil by simp
  next
    case (Cons a l)
    obtain p where "rev t = p @ (a # l)" using Cons by (metis takeWhile_dropWhile_id)
    then have "t = rev l @ [a] @ rev p \<or> t = (rev l @ [a]) @ rev p" by (metis append.assoc rev_append rev_rev_ident rev.simps(2))
    then have "hd t = hd (rev l @ [a])" by (metis append_is_Nil_conv hd_append2 append.assoc not_Cons_self2)
    moreover have "t \<noteq> []" using \<open>rev t = p @ (a # l)\<close> by auto
    ultimately show ?thesis using that Cons by (cases "rev l @ [a]") auto
  qed
  have "dropWhile white s = [] \<or> \<not> white (hd (dropWhile white s))" using hd_dropWhile by blast
  from d [OF this] have "dropWhile white (trim s) = trim s" by (simp add: trim_def)
  moreover have "dropWhile white (rev (trim s)) = rev (trim s)" by (simp add: trim_def dropWhile_idem)
  ultimately show ?thesis unfolding trim_def [of "trim s"] by simp
qed

lemma read_again:
  assumes "read_envelope N raw = Inr (p, ev)"
  shows "read_envelope N (envelope_json ev) = Inr (p, ev)"
  using assms
  by (auto simp: read_envelope_def envelope_json_def field_def b64d_def signed_by_def
      split: option.splits sum.splits if_splits json.splits)

lemma open_Inr:
  "openEnvelope N raw now pinned x = Inr (p, ev) \<longleftrightarrow>
     read_envelope N raw = Inr (p, ev) \<and> op_networkId p \<noteq> PUBLIC_NETWORK_ID
     \<and> (\<forall>q. pinned = Some q \<longrightarrow> pn_rootPub q = op_rootPub p \<and> pn_seq q \<le> op_seq p)
     \<and> (now \<le> op_expires p \<or> x) \<and> in_sight now p"
  by (cases "read_envelope N raw") (auto simp: openEnvelope_def in_sight_def split: option.splits if_splits)

lemma open_stored:
  "openEnvelope N env now None True = (case read_envelope N env of Inl e \<Rightarrow> Inl e
     | Inr (p, ev) \<Rightarrow> if op_networkId p = PUBLIC_NETWORK_ID then Inl RReserved
         else if in_sight now p then Inr (p, ev) else Inl RFuture)"
  by (cases "read_envelope N env") (auto simp: openEnvelope_def in_sight_def)

lemma open_again:
  "openEnvelope N raw now q x = Inr (p, ev) \<Longrightarrow> openEnvelope N (envelope_json ev) now q x = Inr (p, ev)"
  by (auto simp: open_Inr intro: read_again)

subsection \<open>Looking up\<close>

lemma load_entry_get:
  "jm_get (load_entry N now out (j, env)) i =
     (case openEnvelope N env now None True of
        Inr (p, ev) \<Rightarrow> if op_networkId p = j \<and> i = j
          then Some \<lparr>kn_profile = p, kn_envelope = ev, kn_expired = (now > op_expires p)\<rparr> else jm_get out i
      | Inl _ \<Rightarrow> jm_get out i)"
  by (auto simp: load_entry_def jm_get_set split: sum.splits)

lemma load_fold_get:
  assumes "distinct (map fst kvs)"
  shows "jm_get (foldl (load_entry N now) out kvs) i =
     (case map_of kvs i of None \<Rightarrow> jm_get out i | Some env \<Rightarrow> jm_get (load_entry N now out (i, env)) i)"
  using assms
proof (induction kvs arbitrary: out)
  case Nil
  then show ?case by simp
next
  case (Cons e kvs)
  obtain j env where e: "e = (j, env)" by (cases e)
  show ?case
  proof (cases "i = j")
    case True
    then have "map_of kvs i = None" using Cons.prems e by (simp add: map_of_eq_None_iff)
    then show ?thesis using Cons.IH [of "load_entry N now out e"] Cons.prems e True by simp
  next
    case False
    have "jm_get (load_entry N now (load_entry N now out (j, env)) (i, v)) i = jm_get (load_entry N now out (i, v)) i" for v
      using False by (simp add: load_entry_get split: sum.splits)
    moreover have "jm_get (load_entry N now out (j, env)) i = jm_get out i"
      using False by (simp add: load_entry_get split: sum.splits prod.splits)
    ultimately show ?thesis using Cons.IH [of "load_entry N now out e"] Cons.prems e False by (simp split: option.splits)
  qed
qed

lemma registry_get:
  assumes "kept_registry N kv"
  shows "jm_get (loadRegistry N kv now) i =
     (case entry_of N kv i of
        None \<Rightarrow> None
      | Some (p, ev) \<Rightarrow> if in_sight now p
          then Some \<lparr>kn_profile = p, kn_envelope = ev, kn_expired = (now > op_expires p)\<rparr> else None)"
proof -
  obtain kvs where r: "raw_registry N kv = JObj kvs" "distinct (map fst kvs)"
    using assms by (auto simp: kept_registry_def clean_entries_def)
  have "jm_get (loadRegistry N kv now) i =
      (case map_of kvs i of None \<Rightarrow> None | Some env \<Rightarrow> jm_get (load_entry N now [] (i, env)) i)"
    using load_fold_get [OF r(2), of N now "[]" i]
    by (simp add: loadRegistry_def r(1) entries_def cong: option.case_cong)
  also have "\<dots> = (case entry_of N kv i of None \<Rightarrow> None | Some (p, ev) \<Rightarrow> if in_sight now p
      then Some \<lparr>kn_profile = p, kn_envelope = ev, kn_expired = (now > op_expires p)\<rparr> else None)"
  proof (cases "map_of kvs i")
    case None
    then show ?thesis by (simp add: entry_of_def r(1))
  next
    case (Some env)
    then show ?thesis
      by (cases "read_envelope N env")
        (auto simp: entry_of_def r(1) load_entry_get open_stored)
  qed
  finally show ?thesis .
qed

subsection \<open>Writing\<close>

lemma map_of_jm_set: "map_of (jm_set k v m) = (map_of m)(k \<mapsto> v)"
  by (induction m) (auto simp: fun_eq_iff)

lemma clean_put:
  assumes "clean_entries kvs"
  shows "clean_entries (jm_set i (envelope_json ev) kvs)"
proof -
  have "jm_inv (jm_set i (envelope_json ev) kvs)" by (rule jm_inv_set) (use assms in \<open>simp add: clean_entries_def jm_inv_def\<close>)
  moreover have "snd ` set (jm_set i (envelope_json ev) kvs) \<subseteq> range envelope_json"
    using assms set_jm_set [of i "envelope_json ev" kvs] unfolding clean_entries_def by (force simp: image_subset_iff)
  ultimately show ?thesis by (simp add: clean_entries_def jm_inv_def)
qed

lemma written_read:
  assumes "json_laws N" and "clean_entries kvs"
  obtains kvs' where "raw_registry N (kv(REGISTRY_KEY \<mapsto> ne_str N (JObj kvs))) = JObj kvs'" "clean_entries kvs'"
    "map_of kvs' = map_of kvs"
proof -
  obtain kvs' where w: "ne_str N (JObj kvs) \<noteq> []" "ne_parse N (ne_str N (JObj kvs)) = Some (JObj kvs')"
    "distinct (map fst kvs')" "map_of kvs' = map_of kvs"
    using assms unfolding json_laws_def clean_entries_def by blast
  have "snd ` set kvs' \<subseteq> range envelope_json"
  proof
    fix v assume "v \<in> snd ` set kvs'"
    then obtain k where "map_of kvs' k = Some v" using w(3) by (auto simp: image_iff)
    then have "(k, v) \<in> set kvs" using w(4) by (metis map_of_SomeD)
    then show "v \<in> range envelope_json" using assms(2) by (force simp: clean_entries_def)
  qed
  then show thesis using that [of kvs'] w by (simp add: raw_registry_def clean_entries_def)
qed

text \<open>
  What a write leaves: the entry of the profile written, every other as it was. The exception is
  the id \<open>__proto__\<close>, which an object takes for its prototype.
\<close>

lemma stored:
  assumes "json_laws N" and "kept_registry N kv" and "read_envelope N raw = Inr (p, ev)"
  obtains kv' where "store_network N kv p ev = Some kv'" "kept_registry N kv'"
    "\<And>i. i \<noteq> op_networkId p \<Longrightarrow> entry_of N kv' i = entry_of N kv i"
    "\<lbrakk>op_networkId p \<noteq> PUBLIC_NETWORK_ID; op_networkId p \<noteq> js ''__proto__'' \<or> entry_of N kv (op_networkId p) \<noteq> None\<rbrakk>
       \<Longrightarrow> entry_of N kv' (op_networkId p) = Some (p, ev)"
proof -
  let ?i = "op_networkId p"
  obtain kvs where r: "raw_registry N kv = JObj kvs" "clean_entries kvs" using assms(2) by (auto simp: kept_registry_def)
  define kvs1 where "kvs1 = (if ?i = js ''__proto__'' \<and> \<not> jm_has kvs ?i then kvs else jm_set ?i (envelope_json ev) kvs)"
  have c: "clean_entries kvs1" using r(2) by (simp add: kvs1_def clean_put)
  obtain kvs' where w: "raw_registry N (kv(REGISTRY_KEY \<mapsto> ne_str N (JObj kvs1))) = JObj kvs'" "clean_entries kvs'"
    "map_of kvs' = map_of kvs1" by (rule written_read [OF assms(1) c])
  define kv' where "kv' = kv(REGISTRY_KEY \<mapsto> ne_str N (JObj kvs1))"
  have w1: "raw_registry N kv' = JObj kvs'" using w(1) by (simp only: kv'_def)
  have n: "jm_has kvs ?i" if "entry_of N kv ?i \<noteq> None"
  proof -
    have "map_of kvs ?i \<noteq> None" using that by (auto simp: entry_of_def r(1) split: option.splits)
    then show ?thesis by (simp add: jm_has_iff jm_keys_def map_of_eq_None_iff)
  qed
  show thesis
  proof (rule that)
    show "store_network N kv p ev = Some kv'" by (simp add: store_network_def put_entry_def r(1) kvs1_def kv'_def)
    show "kept_registry N kv'" using w by (auto simp: kept_registry_def kv'_def)
    show "entry_of N kv' i = entry_of N kv i" if "i \<noteq> ?i" for i
      using that w(3) by (simp add: entry_of_def w1 r(1) kvs1_def map_of_jm_set)
    assume a: "?i \<noteq> PUBLIC_NETWORK_ID" "?i \<noteq> js ''__proto__'' \<or> entry_of N kv ?i \<noteq> None"
    then have "kvs1 = jm_set ?i (envelope_json ev) kvs" using n by (auto simp: kvs1_def)
    then show "entry_of N kv' ?i = Some (p, ev)"
      using w(3) a(1) read_again [OF assms(3)] by (simp add: entry_of_def w1 map_of_jm_set)
  qed
qed

end
