(* ===== verification/NetDemo.thy ===== *)
theory NetDemo
  imports NetFacts
begin

section \<open>A platform to evaluate the registry on\<close>

text \<open>
  JSON text is spelled with tags: 1 before an object of envelopes, 2 before one envelope, 7 for
  the one published node list, 9 for the one a device keeps. A string inside is its units, each after a 1, ended by a 0. Base64 is the
  identity, a signature is the key. Bytes 1 and 2 are two versions of a network's profile under one key,
  bytes 3 the same network under another.
\<close>

fun spell :: "jstr list \<Rightarrow> jstr" where
  "spell [] = []"
| "spell (s # ss) = concat (map (\<lambda>u. [1, u]) s) @ 0 # spell ss"

fun unspell :: "jstr \<Rightarrow> jstr \<Rightarrow> jstr list" where
  "unspell acc [] = []"
| "unspell acc [x] = (if x = 0 then [acc] else [])"
| "unspell acc (x # u # xs) = (if x = 0 then acc # unspell [] (u # xs) else unspell (acc @ [u]) xs)"

fun by_three :: "jstr list \<Rightarrow> (jstr \<times> json) list" where
  "by_three (k # p # s # r) = (k, envelope_json \<lparr>ev_profile = p, ev_sig = s\<rparr>) # by_three r"
| "by_three _ = []"

definition demo_root :: jstr where "demo_root = replicate 32 0x41"
definition other_root :: jstr where "other_root = replicate 32 0x42"

definition demo_nodes :: json where
  "demo_nodes = JArr [JObj [(js ''name'', JStr (js ''n'')), (js ''addr'', JStr (js ''/p2p/x''))]]"

definition demo_profile :: "jstr \<Rightarrow> int \<Rightarrow> json" where
  "demo_profile rt sq = JObj [(js ''v'', num 1), (js ''networkId'', JStr (js ''acme'')), (js ''operator'', JStr (js ''Acme'')),
     (js ''rootPub'', JStr rt), (js ''seq'', num sq), (js ''made'', num 0), (js ''expires'', num 1000),
     (js ''nodes'', demo_nodes), (js ''stores'', JArr [JStr (js ''https://a'')]),
     (js ''app'', JObj [(js ''origin'', JStr (js ''https://a'')), (js ''path'', JStr (js ''/''))]),
     (js ''profileUrls'', JArr [JStr (js ''https://a'')]), (js ''feedback'', JNull), (js ''home'', JStr (js ''https://a''))]"

definition env_strings :: "jstr \<times> json \<Rightarrow> jstr list" where
  "env_strings e = [fst e, str_val (field (snd e) ''profile''), str_val (field (snd e) ''sig'')]"

definition demo_str :: "json \<Rightarrow> jstr" where
  "demo_str j = (case j of
     JObj kvs \<Rightarrow> if jm_get kvs (js ''v'') = Some (num 1) then [7] else 1 # spell (concat (map env_strings kvs))
   | _ \<Rightarrow> [])"

definition demo_parse :: "jstr \<Rightarrow> json option" where
  "demo_parse s = (if s = js ''{}'' then Some (JObj [])
     else if s = [7] then Some (JObj [(js ''v'', num 1), (js ''nodes'', demo_nodes)])
     else case s of
       x # r \<Rightarrow> if x = 1 then Some (JObj (by_three (unspell [] r)))
         else if x = 2 then (case unspell [] r of [p, g] \<Rightarrow> Some (envelope_json \<lparr>ev_profile = p, ev_sig = g\<rparr>) | _ \<Rightarrow> None)
         else if x = 9 then Some (JArr [JObj [(js ''addr'', JStr [0x2F])]]) else None
     | [] \<Rightarrow> None)"

definition demo_doc :: "bytes \<Rightarrow> json option" where
  "demo_doc b = (if b = [1] then Some (demo_profile demo_root 1) else if b = [2] then Some (demo_profile demo_root 2)
     else if b = [3] then Some (demo_profile other_root 9) else None)"

definition demo_url :: "jstr \<Rightarrow> url option" where
  "demo_url s = Some \<lparr>u_protocol = js ''https:'', u_hostname = js ''a'', u_username = [], u_password = [], u_search = [],
     u_hash = [], u_pathname = js ''/'', u_origin = s, u_href = s\<rparr>"

definition demo_nets :: net_env where
  "demo_nets = \<lparr>ne_js = \<lparr>js_parse = demo_doc, js_stringify = \<lambda>_. [], js_num_of = \<lambda>_. NaN, js_num_str = \<lambda>_. []\<rparr>,
     ne_parse = demo_parse, ne_str = demo_str,
     ne_decode = map ucast, ne_atob = \<lambda>s. Some (map ucast s), ne_btoa = map ucast, ne_url = demo_url,
     ne_verify = \<lambda>s m k. Some (s = k), ne_sign = \<lambda>m k. k, ne_pub = \<lambda>k. k, ne_invisible = \<lambda>s. s\<rparr>"

definition demo_env :: "jstr \<Rightarrow> jstr \<Rightarrow> json" where
  "demo_env p rt = envelope_json \<lparr>ev_profile = p, ev_sig = rt\<rparr>"

definition demo_text :: "jstr \<Rightarrow> jstr \<Rightarrow> jstr" where
  "demo_text p rt = 2 # spell [p, rt]"

lemma unspell_one: "unspell acc (concat (map (\<lambda>u. [1, u]) s) @ 0 # r) = (acc @ s) # unspell [] r"
proof (induction s arbitrary: acc)
  case Nil
  then show ?case by (cases r) auto
next
  case (Cons u s)
  then show ?case by simp
qed

lemma unspell_spell: "unspell [] (spell ss) = ss"
  by (induction ss) (simp_all add: unspell_one)

lemma by_three_strings: "snd ` set kvs \<subseteq> range envelope_json \<Longrightarrow> by_three (concat (map env_strings kvs)) = kvs"
proof (induction kvs)
  case Nil
  then show ?case by simp
next
  case (Cons e kvs)
  obtain k v where e: "e = (k, v)" by (cases e)
  obtain ev where v: "v = envelope_json ev" using Cons.prems e by auto
  have "env_strings e = [k, ev_profile ev, ev_sig ev]" by (simp add: e v env_strings_def envelope_json_def)
  moreover have "envelope_json \<lparr>ev_profile = ev_profile ev, ev_sig = ev_sig ev\<rparr> = envelope_json ev" by (cases ev) simp
  ultimately show ?case using Cons by (simp add: e v)
qed

lemma demo_json_laws: "json_laws demo_nets"
  unfolding json_laws_def
proof (intro conjI allI impI)
  show "ne_parse demo_nets (js ''{}'') = Some (JObj [])" by (simp add: demo_nets_def demo_parse_def)
  fix kvs :: "(jstr \<times> json) list"
  assume d: "distinct (map fst kvs)" "snd ` set kvs \<subseteq> range envelope_json"
  have n: "jm_get kvs (js ''v'') \<noteq> Some (num 1)"
  proof
    assume "jm_get kvs (js ''v'') = Some (num 1)"
    then have "num 1 \<in> snd ` set kvs" by (force dest: jm_get_Some_mem)
    then show False using d(2) by (auto simp: envelope_json_def num_def)
  qed
  show "ne_str demo_nets (JObj kvs) \<noteq> []" by (simp add: demo_nets_def demo_str_def)
  show "\<exists>kvs'. ne_parse demo_nets (ne_str demo_nets (JObj kvs)) = Some (JObj kvs') \<and> distinct (map fst kvs') \<and> map_of kvs' = map_of kvs"
    using d n by (simp add: demo_nets_def demo_str_def demo_parse_def js_def unspell_spell by_three_strings)
qed

subsection \<open>The two profiles, read\<close>

definition demo_read :: "jstr \<Rightarrow> int \<Rightarrow> op_profile" where
  "demo_read rt sq = \<lparr>op_networkId = js ''acme'', op_operator = js ''Acme'', op_rootPub = rt, op_seq = sq, op_made = 0,
     op_expires = 1000, op_nodes = [\<lparr>nd_name = js ''n'', nd_addr = js ''/p2p/x'', nd_w = None\<rparr>],
     op_stores = [js ''https://a''], op_app = \<lparr>ap_origin = js ''https://a'', ap_path = js ''/''\<rparr>, op_legacyApp = [],
     op_profileUrls = [js ''https://a''], op_feedback = None, op_home = js ''https://a'',
     op_policy = \<lparr>np_node_only = False, np_software = None, np_public = None, np_allowlist = False, np_enroll = None\<rparr>\<rparr>"

lemma demo_parts:
  "network_id_ok (js ''acme'')" "trim (js ''Acme'') = js ''Acme''"
  "parseNodeList demo_nets [7] = Inr [\<lparr>nd_name = js ''n'', nd_addr = js ''/p2p/x'', nd_w = None\<rparr>]"
  "trim demo_root = demo_root" "trim other_root = other_root" "trim [1] = [1]" "trim [2] = [2]" "trim [3] = [3]"
  "starts_with (js ''/'') (js ''/'')" "drop_slash (js ''https://a'') = js ''https://a''" "js ''Acme'' \<noteq> []"
  by code_simp+

lemma demo_roots: "length demo_root = 32" "length other_root = 32"
  "map ucast (map ucast demo_root :: bytes) = demo_root" "map ucast (map ucast other_root :: bytes) = other_root"
  by (simp_all add: demo_root_def other_root_def)

lemma demo_url_field: "httpsUrl demo_nets (Some (JStr s)) = Inr (the (demo_url s))"
  by (simp add: httpsUrl_def demo_nets_def demo_url_def safe_scheme_def)

lemma demo_origin: "bareOrigin demo_nets (Some (JStr (js ''https://a''))) = Inr (js ''https://a'')"
  unfolding bareOrigin_def demo_url_field by (simp add: demo_url_def demo_parts)

lemma demo_parse_of:
  assumes "length rt = 32" and "trim rt = rt" and "map ucast (map ucast rt :: bytes) = rt" and "0 \<le> sq" and "sq \<le> 9"
  shows "parseOperatorProfile demo_nets (demo_profile rt sq) = Inr (demo_read rt sq)"
proof -
  let ?d = "demo_profile rt sq"
  have f: "field ?d ''v'' = Some (num 1)" "field ?d ''networkId'' = Some (JStr (js ''acme''))"
    "field ?d ''operator'' = Some (JStr (js ''Acme''))" "field ?d ''rootPub'' = Some (JStr rt)" "field ?d ''seq'' = Some (num sq)"
    "field ?d ''made'' = Some (num 0)" "field ?d ''expires'' = Some (num 1000)" "field ?d ''nodes'' = Some demo_nodes"
    "field ?d ''stores'' = Some (JArr [JStr (js ''https://a'')])"
    "field ?d ''app'' = Some (JObj [(js ''origin'', JStr (js ''https://a'')), (js ''path'', JStr (js ''/''))])"
    "field ?d ''profileUrls'' = Some (JArr [JStr (js ''https://a'')])" "field ?d ''feedback'' = Some JNull"
    "field ?d ''home'' = Some (JStr (js ''https://a''))" "field ?d ''policy'' = None" "field ?d ''legacyApp'' = None"
    by (simp_all add: demo_profile_def)
  have root: "root_of demo_nets ?d = Inr (map ucast rt)"
    using assms(1,2) by (simp add: root_of_def f b64d_def demo_nets_def)
  have nodes: "nodes_field demo_nets ?d = Inr [\<lparr>nd_name = js ''n'', nd_addr = js ''/p2p/x'', nd_w = None\<rparr>]"
  proof -
    have "ne_str demo_nets (JObj [(js ''v'', num 1), (js ''nodes'', demo_nodes)]) = [7]"
      by (simp add: demo_nets_def demo_str_def)
    then show ?thesis by (simp add: nodes_field_def f demo_parts(3) map_err_def)
  qed
  have pol: "policy_of demo_nets (field_or (JObj []) ?d ''policy'')
      = Inr \<lparr>np_node_only = False, np_software = None, np_public = None, np_allowlist = False, np_enroll = None\<rparr>"
    by (simp add: policy_of_def field_or_def f only_field_def bool_field_def enroll_of_def)
  have lists: "list_of (bareOrigin demo_nets) False (Some (JArr [JStr (js ''https://a'')])) = Inr [js ''https://a'']"
    "list_of (appAddress demo_nets) True (Some (field_or (JArr []) ?d ''legacyApp'')) = Inr []"
    "list_of (\<lambda>v. then_ok (httpsUrl demo_nets v) (\<lambda>u. Inr (u_href u))) False (Some (JArr [JStr (js ''https://a'')])) = Inr [js ''https://a'']"
    by (simp_all add: list_of_def demo_origin field_or_def f demo_url_field demo_url_def MAX_LIST_def)
  have app: "appAddress demo_nets (Some (JObj [(js ''origin'', JStr (js ''https://a'')), (js ''path'', JStr (js ''/''))]))
      = Inr \<lparr>ap_origin = js ''https://a'', ap_path = js ''/''\<rparr>"
    by (simp add: appAddress_def demo_parts demo_origin)
  have num: "safe_int (Some (num n)) = Some n" if "0 \<le> n" "n \<le> 1000" for n using that by (simp add: safe_int_def)
  have fb: "feedback_of demo_nets (Some JNull) = Inr None" by (simp add: feedback_of_def)
  have btoa: "ne_btoa demo_nets (map ucast rt) = rt" using assms(3) by (simp add: demo_nets_def)
  show ?thesis
    unfolding parseOperatorProfile_def f root nodes pol lists app fb
    using assms(4,5) by (simp add: num demo_parts demo_url_field demo_url_def btoa demo_read_def)
qed

lemma demo_parsed:
  "parseOperatorProfile demo_nets (demo_profile demo_root 1) = Inr (demo_read demo_root 1)"
  "parseOperatorProfile demo_nets (demo_profile demo_root 2) = Inr (demo_read demo_root 2)"
  "parseOperatorProfile demo_nets (demo_profile other_root 9) = Inr (demo_read other_root 9)"
  using demo_parse_of [OF demo_roots(1) demo_parts(4) demo_roots(3)] demo_parse_of [OF demo_roots(2) demo_parts(5) demo_roots(4)]
  by simp_all

lemma demo_sel:
  "ne_parse demo_nets = demo_parse" "js_parse (ne_js demo_nets) = demo_doc" "ne_atob demo_nets s = Some (map ucast s)"
  "ne_verify demo_nets g m k = Some (g = k)"
  by (simp_all add: demo_nets_def)

lemma demo_text_read: "demo_parse (demo_text [2] demo_root) = Some (demo_env [2] demo_root)"
  by code_simp

lemma demo_read_env:
  "read_envelope demo_nets (demo_env [1] demo_root) = Inr (demo_read demo_root 1, \<lparr>ev_profile = [1], ev_sig = demo_root\<rparr>)"
  "read_envelope demo_nets (demo_env [2] demo_root) = Inr (demo_read demo_root 2, \<lparr>ev_profile = [2], ev_sig = demo_root\<rparr>)"
  "read_envelope demo_nets (demo_env [3] other_root) = Inr (demo_read other_root 9, \<lparr>ev_profile = [3], ev_sig = other_root\<rparr>)"
  "read_envelope demo_nets (JStr (demo_text [2] demo_root)) = Inr (demo_read demo_root 2, \<lparr>ev_profile = [2], ev_sig = demo_root\<rparr>)"
  by (simp_all add: read_envelope_def demo_sel(1) demo_text_read)
    (simp_all add: demo_env_def envelope_json_def b64d_def signed_by_def demo_sel demo_parts demo_doc_def demo_parsed,
     simp_all add: demo_read_def demo_parts)

end
