(* ===== verification/NetTheorems.thy ===== *)
theory NetTheorems
  imports NetDemo
begin

section \<open>Runs of a registry: the pin, the refresh, the pointer (lib/netprofile.ts)\<close>

text \<open>
  Any sequence of registrations, imports and refreshes, in any order and with any input, from a
  store this module has written: a network known before is known after, under the same root key
  and with a sequence number that has not gone back. The end of a refresh may come at any point,
  with whatever profile the refresh had read at its beginning.
\<close>

datatype net_step =
    NRegister json int
  | NImport json int
  | NRefresh jstr op_profile int "(nat \<times> jstr option) list"

definition net_do :: "net_env \<Rightarrow> kv \<Rightarrow> net_step \<Rightarrow> kv" where
  "net_do N kv s = (case s of
     NRegister raw now \<Rightarrow> snd (registerNetwork N kv raw now)
   | NImport raw now \<Rightarrow> snd (importNetwork N kv raw now)
   | NRefresh i held now answers \<Rightarrow> snd (refresh_end N kv i held now answers))"

definition net_clock :: "net_step \<Rightarrow> int" where
  "net_clock s = (case s of NRegister _ t \<Rightarrow> t | NImport _ t \<Rightarrow> t | NRefresh _ _ t _ \<Rightarrow> t)"

text \<open>The profiles a step is offered, signed as they must be, whatever becomes of them.\<close>

definition offered :: "net_env \<Rightarrow> net_step \<Rightarrow> op_profile list" where
  "offered N s = map fst (oks (map (read_envelope N) (case s of
     NRegister raw _ \<Rightarrow> [raw] | NImport raw _ \<Rightarrow> [raw]
   | NRefresh _ _ _ answers \<Rightarrow> List.map_filter (\<lambda>a. map_option JStr (snd a)) answers)))"

text \<open>What the entry of an id may become in a step.\<close>

definition keeps :: "op_profile \<Rightarrow> op_profile list \<Rightarrow> op_profile \<Rightarrow> bool" where
  "keeps p offers p' = (op_rootPub p' = op_rootPub p \<and> op_networkId p' = op_networkId p \<and> op_seq p \<le> op_seq p'
     \<and> (p' = p \<or> p' \<in> set offers))"

lemma entry_id: "entry_of N kv i = Some (p, ev) \<Longrightarrow> op_networkId p = i \<and> i \<noteq> PUBLIC_NETWORK_ID"
  by (auto simp: entry_of_def split: json.splits option.splits sum.splits if_splits)

lemma write_keeps:
  assumes "json_laws N" "kept_registry N kv" "read_envelope N raw = Inr (p', ev')"
    and "entry_of N kv i = Some (p, ev)"
    and "op_networkId p' = i \<Longrightarrow> op_rootPub p' = op_rootPub p \<and> op_seq p \<le> op_seq p'"
  obtains kv' where "store_network N kv p' ev' = Some kv'" "kept_registry N kv'"
    "\<exists>q e. entry_of N kv' i = Some (q, e) \<and> keeps p [p'] q"
proof -
  obtain kv' where s: "store_network N kv p' ev' = Some kv'" "kept_registry N kv'"
    "\<And>i. i \<noteq> op_networkId p' \<Longrightarrow> entry_of N kv' i = entry_of N kv i"
    "\<lbrakk>op_networkId p' \<noteq> PUBLIC_NETWORK_ID; op_networkId p' \<noteq> js ''__proto__'' \<or> entry_of N kv (op_networkId p') \<noteq> None\<rbrakk>
       \<Longrightarrow> entry_of N kv' (op_networkId p') = Some (p', ev')"
    by (rule stored [OF assms(1-3)]) blast
  have i: "op_networkId p = i" "i \<noteq> PUBLIC_NETWORK_ID" using entry_id [OF assms(4)] by simp_all
  have "\<exists>q e. entry_of N kv' i = Some (q, e) \<and> keeps p [p'] q"
  proof (cases "op_networkId p' = i")
    case True
    then have "entry_of N kv' i = Some (p', ev')" using s(4) i(2) assms(4) by simp
    moreover have "keeps p [p'] p'" using assms(5) True i(1) by (simp add: keeps_def)
    ultimately show ?thesis by blast
  next
    case False
    then show ?thesis using s(3) [of i] assms(4) by (auto simp: keeps_def)
  qed
  then show thesis using that s(1,2) by blast
qed

lemma register_keeps:
  assumes "json_laws N" "kept_registry N kv" "entry_of N kv i = Some (p, ev)" "in_sight now p"
    and "snd (registerNetwork N kv raw now) = kv'"
  shows "kept_registry N kv' \<and> (\<exists>q e. entry_of N kv' i = Some (q, e) \<and> keeps p (offered N (NRegister raw now)) q)"
proof (cases "openEnvelope N raw now None False")
  case (Inl why)
  then show ?thesis using assms by (auto simp: registerNetwork_def Let_def keeps_def)
next
  case (Inr pe)
  obtain p' ev' where pe: "pe = (p', ev')" by (cases pe)
  have rd: "read_envelope N raw = Inr (p', ev')" using Inr pe by (simp add: open_Inr)
  have off: "offered N (NRegister raw now) = [p']" by (simp add: offered_def rd oks_def List.map_filter_simps)
  have g: "jm_get (loadRegistry N kv now) i = Some \<lparr>kn_profile = p, kn_envelope = ev, kn_expired = (now > op_expires p)\<rparr>"
    using registry_get [OF assms(2), of now i] assms(3,4) by simp
  define r where "r = (case jm_get (loadRegistry N kv now) (op_networkId p') of
      Some k \<Rightarrow> openEnvelope N raw now (Some (held_pin k)) False | None \<Rightarrow> openEnvelope N raw now None False)"
  show ?thesis
  proof (cases r)
    case (Inl why)
    then have "kv' = kv" using assms(5) \<open>openEnvelope N raw now None False = Inr pe\<close> pe
      by (auto simp: registerNetwork_def Let_def r_def split: option.splits)
    then show ?thesis using assms(2,3) by (auto simp: keeps_def)
  next
    case (Inr qe)
    obtain q e where qe: "qe = (q, e)" by (cases qe)
    have ro: "\<exists>pin. openEnvelope N raw now pin False = Inr (q, e)"
      using Inr qe by (auto simp: r_def split: option.splits)
    then have same: "q = p'" "e = ev'" using rd by (auto simp: open_Inr)
    have ok: "op_networkId p' = i \<Longrightarrow> op_rootPub p' = op_rootPub p \<and> op_seq p \<le> op_seq p'"
      using Inr qe same g by (auto simp: r_def open_Inr held_pin_def)
    obtain kv1 where w: "store_network N kv p' ev' = Some kv1" "kept_registry N kv1"
      "\<exists>q e. entry_of N kv1 i = Some (q, e) \<and> keeps p [p'] q"
      by (rule write_keeps [OF assms(1,2) rd assms(3) ok])
    have "snd (registerNetwork N kv raw now) = (case store_network N kv q e of None \<Rightarrow> kv | Some kv' \<Rightarrow> kv')"
      using \<open>openEnvelope N raw now None False = Inr pe\<close> pe Inr qe
      by (simp add: registerNetwork_def Let_def r_def split: option.splits)
    then have "kv' = kv1" using assms(5) w(1) same by simp
    then show ?thesis using w off by simp
  qed
qed

lemma import_keeps:
  assumes "json_laws N" "kept_registry N kv" "entry_of N kv i = Some (p, ev)" "in_sight now p"
    and "snd (importNetwork N kv raw now) = kv'"
  shows "kept_registry N kv' \<and> (\<exists>q e. entry_of N kv' i = Some (q, e) \<and> keeps p (offered N (NImport raw now)) q)"
proof (cases "openEnvelope N raw now None True")
  case (Inl why)
  then show ?thesis using assms by (auto simp: importNetwork_def Let_def keeps_def)
next
  case (Inr pe)
  obtain p' ev' where pe: "pe = (p', ev')" by (cases pe)
  have rd: "read_envelope N raw = Inr (p', ev')" using Inr pe by (simp add: open_Inr)
  have off: "offered N (NImport raw now) = [p']" by (simp add: offered_def rd oks_def List.map_filter_simps)
  have g: "jm_get (loadRegistry N kv now) i = Some \<lparr>kn_profile = p, kn_envelope = ev, kn_expired = (now > op_expires p)\<rparr>"
    using registry_get [OF assms(2), of now i] assms(3,4) by simp
  show ?thesis
  proof (cases "kv' = kv")
    case True
    then show ?thesis using assms(2,3) by (auto simp: keeps_def)
  next
    case False
    have ok: "op_networkId p' = i \<Longrightarrow> op_rootPub p' = op_rootPub p \<and> op_seq p \<le> op_seq p'"
      using False assms(5) Inr pe g by (auto simp: importNetwork_def Let_def split: if_splits)
    obtain kv1 where w: "store_network N kv p' ev' = Some kv1" "kept_registry N kv1"
      "\<exists>q e. entry_of N kv1 i = Some (q, e) \<and> keeps p [p'] q"
      by (rule write_keeps [OF assms(1,2) rd assms(3) ok])
    have "kv' = kv1" using False assms(5) Inr pe w(1) by (auto simp: importNetwork_def Let_def split: if_splits)
    then show ?thesis using w off by simp
  qed
qed

lemma in_map_filter: "y \<in> set (List.map_filter f xs) \<longleftrightarrow> (\<exists>x\<in>set xs. f x = Some y)"
  by (induction xs) (auto simp: List.map_filter_simps split: option.splits)

lemma refresh_offer:
  assumes "Inr (p, ev) \<in> set (map (judge_answer N i held now) (sort_key fst answers))"
  shows "p \<in> set (offered N (NRefresh i held now answers)) \<and> op_networkId p = i \<and> read_envelope N (envelope_json ev) = Inr (p, ev)"
proof -
  obtain a where a: "a \<in> set answers" "judge_answer N i held now a = Inr (p, ev)"
    using assms by (auto simp: image_iff)
  then obtain s where s: "snd a = Some s" "read_envelope N (JStr s) = Inr (p, ev)" "op_networkId p = i"
    by (auto simp: judge_answer_def open_Inr split: option.splits sum.splits if_splits prod.splits)
  have "Inr (p, ev) \<in> set (map (read_envelope N) (List.map_filter (\<lambda>a. map_option JStr (snd a)) answers))"
  proof -
    have "JStr s \<in> set (List.map_filter (\<lambda>a. map_option JStr (snd a)) answers)"
      unfolding in_map_filter using a(1) s(1) by (intro bexI [of _ a]) simp_all
    then show ?thesis using s(2) unfolding set_map by (metis image_eqI)
  qed
  then have "(p, ev) \<in> set (oks (map (read_envelope N) (List.map_filter (\<lambda>a. map_option JStr (snd a)) answers)))"
    by (simp only: set_oks)
  then show ?thesis using s(3) read_again [OF s(2)] by (force simp: offered_def)
qed

lemma refresh_keeps:
  assumes "json_laws N" "kept_registry N kv" "entry_of N kv i = Some (p, ev)" "in_sight now p"
    and "snd (refresh_end N kv j held now answers) = kv'"
  shows "kept_registry N kv' \<and> (\<exists>q e. entry_of N kv' i = Some (q, e) \<and> keeps p (offered N (NRefresh j held now answers)) q)"
proof (cases "kv' = kv")
  case True
  then show ?thesis using assms(2,3) by (auto simp: keeps_def)
next
  case False
  let ?js = "map (judge_answer N j held now) (sort_key fst answers)"
  obtain p' ev' where b: "pick_max (op_seq \<circ> fst) None (oks ?js) = Some (p', ev')"
    "snd (registerNetwork N kv (envelope_json ev') now) = kv'"
    using False assms(5) by (auto simp: refresh_end_def Let_def split: option.splits prod.splits if_splits net_result.splits)
  have "(p', ev') \<in> set (oks ?js)" using pick_max_best [OF b(1)] by simp
  then have o: "p' \<in> set (offered N (NRefresh j held now answers))" "read_envelope N (envelope_json ev') = Inr (p', ev')"
    using refresh_offer by (simp_all only: set_oks)
  have "offered N (NRegister (envelope_json ev') now) = [p']" by (simp add: offered_def o(2) oks_def List.map_filter_simps)
  then show ?thesis using register_keeps [OF assms(1-4) b(2)] o(1) by (auto simp: keeps_def)
qed

lemma step_keeps:
  assumes "json_laws N" "kept_registry N kv" "entry_of N kv i = Some (p, ev)" "in_sight (net_clock s) p"
  shows "kept_registry N (net_do N kv s) \<and> (\<exists>q e. entry_of N (net_do N kv s) i = Some (q, e) \<and> keeps p (offered N s) q)"
  using register_keeps [OF assms(1-3)] import_keeps [OF assms(1-3)] refresh_keeps [OF assms(1-3)] assms(4)
  by (cases s) (simp_all add: net_do_def net_clock_def)

text \<open>
  A run keeps the entry as long as no profile of this network and key, held or offered in the run,
  is dated later than a clock it is read by, tolerance allowed.
\<close>

definition dated_within :: "net_env \<Rightarrow> op_profile \<Rightarrow> net_step list \<Rightarrow> int list \<Rightarrow> bool" where
  "dated_within N p steps clocks \<longleftrightarrow>
     (\<forall>q\<in>set (p # concat (map (offered N) steps)). op_networkId q = op_networkId p \<longrightarrow> op_rootPub q = op_rootPub p \<longrightarrow>
        (\<forall>t\<in>set clocks. in_sight t q))"

lemma run_keeps:
  assumes "json_laws N" "kept_registry N kv" "entry_of N kv i = Some (p, ev)"
    and "dated_within N p steps (now # map net_clock steps)"
  shows "\<exists>q e. kept_registry N (foldl (net_do N) kv steps) \<and> entry_of N (foldl (net_do N) kv steps) i = Some (q, e)
    \<and> op_rootPub q = op_rootPub p \<and> op_seq p \<le> op_seq q \<and> in_sight now q"
  using assms(2-)
proof (induction steps arbitrary: kv p ev)
  case Nil
  then show ?case by (auto simp: dated_within_def)
next
  case (Cons s steps)
  have "in_sight (net_clock s) p" using Cons.prems(3) by (auto simp: dated_within_def)
  from step_keeps [OF assms(1) Cons.prems(1,2) this] obtain q e where
    q: "kept_registry N (net_do N kv s)" "entry_of N (net_do N kv s) i = Some (q, e)" "keeps p (offered N s) q" by blast
  have "dated_within N q steps (now # map net_clock steps)"
    using Cons.prems(3) q(3) unfolding dated_within_def keeps_def by auto
  from Cons.IH [OF q(1,2) this] obtain q' e' where
    "kept_registry N (foldl (net_do N) (net_do N kv s) steps)" "entry_of N (foldl (net_do N) (net_do N kv s) steps) i = Some (q', e')"
    "op_rootPub q' = op_rootPub q" "op_seq q \<le> op_seq q'" "in_sight now q'" by blast
  then show ?case using q(3) by (auto simp: keeps_def)
qed

text \<open>
  C12: pinning: whatever a device is given afterwards, by hand, inside a moved profile or by any
  server it asks, in any order and however the refreshes overlap, a network it knows keeps its root
  key, and the sequence number of its profile never goes back. The condition is on the clock: no
  profile the operator signed under that key is dated more than ten minutes after a clock it is
  read by.
\<close>

theorem pinned_key_stays:
  assumes "json_laws N" and "kept_registry N kv" and "jm_get (loadRegistry N kv before) i = Some k"
    and "dated_within N (kn_profile k) steps (now # map net_clock steps)"
  shows "\<exists>k'. jm_get (loadRegistry N (foldl (net_do N) kv steps) now) i = Some k'
    \<and> op_rootPub (kn_profile k') = op_rootPub (kn_profile k) \<and> op_seq (kn_profile k) \<le> op_seq (kn_profile k')"
proof -
  obtain p ev where e: "entry_of N kv i = Some (p, ev)" "kn_profile k = p"
    using assms(3) registry_get [OF assms(2), of before i] by (auto split: option.splits if_splits)
  from run_keeps [OF assms(1,2) e(1) assms(4) [unfolded e(2)]] obtain q f where
    "kept_registry N (foldl (net_do N) kv steps)" "entry_of N (foldl (net_do N) kv steps) i = Some (q, f)"
    "op_rootPub q = op_rootPub p" "op_seq p \<le> op_seq q" "in_sight now q" by blast
  then show ?thesis using registry_get [of N "foldl (net_do N) kv steps" now i] e(2) by simp
qed

lemma clean_empty: "kept_registry demo_nets Map.empty"
  using demo_json_laws by (simp add: kept_registry_def raw_registry_def json_laws_def clean_entries_def)

text \<open>The device that took version 1, and its clocks.\<close>

definition demo_kv :: kv where
  "demo_kv = snd (registerNetwork demo_nets Map.empty (demo_env [1] demo_root) 100)"

lemma demo_held:
  "kept_registry demo_nets demo_kv"
  "entry_of demo_nets demo_kv (js ''acme'') = Some (demo_read demo_root 1, \<lparr>ev_profile = [1], ev_sig = demo_root\<rparr>)"
proof -
  have e: "entry_of demo_nets Map.empty i = None" for i
    using demo_json_laws by (simp add: entry_of_def raw_registry_def json_laws_def)
  have n: "op_networkId (demo_read rt sq) = js ''acme''" "op_made (demo_read rt sq) = 0" "op_expires (demo_read rt sq) = 1000" for rt sq
    by (simp_all add: demo_read_def)
  have p: "js ''acme'' \<noteq> PUBLIC_NETWORK_ID" by (simp add: PUBLIC_NETWORK_ID_def)
  have o: "openEnvelope demo_nets (demo_env [1] demo_root) 100 None False
      = Inr (demo_read demo_root 1, \<lparr>ev_profile = [1], ev_sig = demo_root\<rparr>)"
    using p by (simp add: open_Inr demo_read_env n in_sight_def FUTURE_TOLERANCE_MS_def)
  have g: "jm_get (loadRegistry demo_nets Map.empty 100) (js ''acme'') = None"
    using registry_get [OF clean_empty, of 100 "js ''acme''"] e by simp
  obtain kv' where w: "store_network demo_nets Map.empty (demo_read demo_root 1) \<lparr>ev_profile = [1], ev_sig = demo_root\<rparr> = Some kv'"
    "kept_registry demo_nets kv'"
    "entry_of demo_nets kv' (js ''acme'') = Some (demo_read demo_root 1, \<lparr>ev_profile = [1], ev_sig = demo_root\<rparr>)"
    by (rule stored [OF demo_json_laws clean_empty demo_read_env(1)]) (use p in \<open>simp add: n\<close>)
  have "demo_kv = kv'" using o g w(1) by (simp add: demo_kv_def registerNetwork_def Let_def n)
  then show "kept_registry demo_nets demo_kv"
    "entry_of demo_nets demo_kv (js ''acme'') = Some (demo_read demo_root 1, \<lparr>ev_profile = [1], ev_sig = demo_root\<rparr>)"
    using w by simp_all
qed

definition demo_known :: known_network where
  "demo_known = \<lparr>kn_profile = demo_read demo_root 1, kn_envelope = \<lparr>ev_profile = [1], ev_sig = demo_root\<rparr>, kn_expired = False\<rparr>"

lemma demo_get: "jm_get (loadRegistry demo_nets demo_kv 100) (js ''acme'') = Some demo_known"
  using registry_get [OF demo_held(1), of 100 "js ''acme''"] demo_held(2)
  by (simp add: in_sight_def FUTURE_TOLERANCE_MS_def demo_known_def demo_read_def)

definition demo_steps :: "net_step list" where
  "demo_steps = [NRegister (demo_env [3] other_root) 100, NImport (demo_env [3] other_root) 100,
     NRefresh (js ''acme'') (demo_read demo_root 1) 100 [(0, Some (demo_text [2] demo_root))]]"

lemma demo_offered: "concat (map (offered demo_nets) demo_steps) = [demo_read other_root 9, demo_read other_root 9, demo_read demo_root 2]"
  by (simp add: demo_steps_def offered_def demo_read_env List.map_filter_simps oks_def)

lemma pinned_key_stays_witness:
  "\<exists>k. jm_get (loadRegistry demo_nets (foldl (net_do demo_nets) demo_kv demo_steps) 100) (js ''acme'') = Some k
    \<and> op_rootPub (kn_profile k) = demo_root \<and> 1 \<le> op_seq (kn_profile k)"
proof -
  have "dated_within demo_nets (kn_profile demo_known) demo_steps (100 # map net_clock demo_steps)"
    unfolding dated_within_def demo_offered
    by (simp add: demo_known_def demo_read_def demo_steps_def net_clock_def in_sight_def FUTURE_TOLERANCE_MS_def)
  from pinned_key_stays [OF demo_json_laws demo_held(1) demo_get this] show ?thesis
    by (simp add: demo_known_def demo_read_def)
qed

text \<open>
  The condition is needed: a clock that has fallen behind the date of the profile held takes any
  other key for the same id, as if the network had never been known.
\<close>

lemma pin_lost_to_clock:
  assumes "kept_registry N kv" and "json_laws N" and "entry_of N kv i = Some (p, ev)" and "\<not> in_sight now p"
    and "openEnvelope N raw now None False = Inr (p', ev')" and "op_networkId p' = i"
  shows "\<exists>kv'. registerNetwork N kv raw now = (Took (p', False), kv') \<and> entry_of N kv' i = Some (p', ev')"
proof -
  have rd: "read_envelope N raw = Inr (p', ev')" using assms(5) by (simp add: open_Inr)
  have n: "jm_get (loadRegistry N kv now) i = None" using registry_get [OF assms(1), of now i] assms(3,4) by simp
  obtain kv' where "store_network N kv p' ev' = Some kv'" "entry_of N kv' i = Some (p', ev')"
    by (rule stored [OF assms(2,1) rd]) (use assms(3,5,6) in \<open>auto simp: open_Inr\<close>)
  then show ?thesis using n assms(5,6) by (simp add: registerNetwork_def Let_def)
qed

text \<open>
  A network that calls itself \<open>__proto__\<close> is taken and not kept: the name passes the check of an id,
  and the object it is put into takes it for its prototype.
\<close>

lemma proto_taken_not_kept:
  assumes "json_laws N" and "raw_registry N kv = JObj kvs" and "clean_entries kvs" and "\<not> jm_has kvs (js ''__proto__'')"
    and "openEnvelope N raw now None False = Inr (p, ev)" and "op_networkId p = js ''__proto__''"
  shows "\<exists>kv'. registerNetwork N kv raw now = (Took (p, False), kv') \<and> jm_get (loadRegistry N kv' t) (js ''__proto__'') = None"
proof -
  let ?i = "js ''__proto__''" and ?kv' = "kv(REGISTRY_KEY \<mapsto> ne_str N (JObj kvs))"
  have k: "kept_registry N kv" using assms(2,3) by (auto simp: kept_registry_def)
  have m: "map_of kvs ?i = None" using assms(4) by (simp add: jm_has_iff jm_keys_def map_of_eq_None_iff)
  obtain kvs' where w: "raw_registry N ?kv' = JObj kvs'" "clean_entries kvs'" "map_of kvs' = map_of kvs"
    by (rule written_read [OF assms(1,3)])
  have "entry_of N kv ?i = None" "entry_of N ?kv' ?i = None" using m w(1,3) by (simp_all add: entry_of_def assms(2))
  moreover have "kept_registry N ?kv'" using w(1,2) by (auto simp: kept_registry_def)
  ultimately have g: "jm_get (loadRegistry N kv now) ?i = None" "jm_get (loadRegistry N ?kv' t) ?i = None"
    using registry_get [OF k] registry_get [of N ?kv'] by simp_all
  have "store_network N kv p ev = Some ?kv'" using assms(2,4,6) by (simp add: store_network_def put_entry_def)
  then show ?thesis using g assms(5,6) by (simp add: registerNetwork_def Let_def)
qed

subsection \<open>Refresh\<close>

definition current_answer ::
  "net_env \<Rightarrow> jstr \<Rightarrow> op_profile \<Rightarrow> int \<Rightarrow> op_profile \<times> network_envelope \<Rightarrow> bool" where
  "current_answer N i held now a \<longleftrightarrow> (case a of (p, ev) \<Rightarrow>
     read_envelope N (envelope_json ev) = Inr (p, ev) \<and> op_networkId p = i \<and> i \<noteq> PUBLIC_NETWORK_ID
     \<and> op_rootPub p = op_rootPub held \<and> op_seq held \<le> op_seq p \<and> now \<le> op_expires p \<and> in_sight now p)"

lemma judged_current: "judge_answer N i held now a = Inr d \<Longrightarrow> current_answer N i held now d"
  by (auto simp: judge_answer_def current_answer_def open_Inr intro: read_again split: option.splits sum.splits if_splits)

interpretation refreshes: ranked_sources "judge_answer N i held now" "op_seq \<circ> fst" "current_answer N i held now"
  for N i held now
  by unfold_locales (rule judged_current)

lemma register_current:
  assumes "json_laws N" and "kept_registry N kv" and "jm_get (loadRegistry N kv now) i = Some k"
    and "current_answer N i (kn_profile k) now (p, ev)"
  obtains kv' where "registerNetwork N kv (envelope_json ev) now = (Took (p, True), kv')"
    "kept_registry N kv'" "entry_of N kv' i = Some (p, ev)"
proof -
  have c: "read_envelope N (envelope_json ev) = Inr (p, ev)" "op_networkId p = i" "i \<noteq> PUBLIC_NETWORK_ID"
    "op_rootPub p = op_rootPub (kn_profile k)" "op_seq (kn_profile k) \<le> op_seq p" "now \<le> op_expires p" "in_sight now p"
    using assms(4) by (simp_all add: current_answer_def)
  then have o: "openEnvelope N (envelope_json ev) now None False = Inr (p, ev)"
    "openEnvelope N (envelope_json ev) now (Some (held_pin k)) False = Inr (p, ev)"
    by (simp_all add: open_Inr held_pin_def)
  have e: "entry_of N kv i \<noteq> None"
    using assms(3) registry_get [OF assms(2), of now i] by (auto split: option.splits)
  obtain kv' where w: "store_network N kv p ev = Some kv'" "kept_registry N kv'"
    "\<lbrakk>op_networkId p \<noteq> PUBLIC_NETWORK_ID; op_networkId p \<noteq> js ''__proto__'' \<or> entry_of N kv (op_networkId p) \<noteq> None\<rbrakk>
       \<Longrightarrow> entry_of N kv' (op_networkId p) = Some (p, ev)"
    by (rule stored [OF assms(1,2) c(1)]) blast
  have "registerNetwork N kv (envelope_json ev) now = (Took (p, True), kv')"
    using o c(2) assms(3) w(1) by (simp add: registerNetwork_def Let_def)
  then show thesis using that w(2,3) c(2,3) e by simp
qed

text \<open>
  C14: a refresh that asks every address and gets, from one of them, a profile of this network
  under the pinned key, in date and not older than the one held, succeeds, whatever the other
  addresses answer and in whatever order: it gives a profile at least as new, under the pinned
  key, and that profile is the one the device then holds.
\<close>

theorem one_current_source_enough:
  assumes "json_laws N" and "kept_registry N kv" and "jm_get (loadRegistry N kv now) i = Some k"
    and "(n, Some s) \<in> set answers"
    and "openEnvelope N (JStr s) now (Some (held_pin k)) False = Inr (p, ev)" and "op_networkId p = i"
  shows "\<exists>q changed kv' k'. refreshNetwork N kv i now answers = (Inr (q, changed), kv') \<and> op_seq p \<le> op_seq q
    \<and> op_rootPub q = op_rootPub (kn_profile k) \<and> jm_get (loadRegistry N kv' now) i = Some k' \<and> kn_profile k' = q"
proof -
  let ?h = "kn_profile k" and ?sorted = "sort_key fst answers"
  have j: "judge_answer N i ?h now (n, Some s) = Inr (p, ev)"
    using assms(5,6) by (simp add: judge_answer_def held_pin_def)
  have m: "(n, Some s) \<in> set ?sorted" using assms(4) by simp
  from refreshes.one_is_enough [OF m j] obtain q e where
    b: "pick_max (op_seq \<circ> fst) None (oks (map (judge_answer N i ?h now) ?sorted)) = Some (q, e)" "op_seq p \<le> op_seq q" by auto
  have c: "current_answer N i ?h now (q, e)" by (rule refreshes.kept_genuine(1) [OF b(1)])
  have beg: "refresh_begin N kv i now = Some ?h" using assms(3) by (simp add: refresh_begin_def)
  show ?thesis
  proof (cases "op_seq q > op_seq ?h")
    case True
    obtain kv' where r: "registerNetwork N kv (envelope_json e) now = (Took (q, True), kv')"
      "kept_registry N kv'" "entry_of N kv' i = Some (q, e)" by (rule register_current [OF assms(1-3) c])
    have "in_sight now q" using c by (simp add: current_answer_def)
    then show ?thesis
      using registry_get [OF r(2), of now i] r b beg True c
      by (auto simp: refreshNetwork_def refresh_end_def Let_def current_answer_def)
  next
    case False
    then have "op_seq p \<le> op_seq ?h" using b(2) by simp
    moreover have "refreshNetwork N kv i now answers = (Inr (?h, False), kv)"
      using b beg False by (simp add: refreshNetwork_def refresh_end_def Let_def)
    ultimately show ?thesis using assms(3) by blast
  qed
qed

lemma one_current_source_enough_witness:
  "\<exists>q changed kv' k'. refreshNetwork demo_nets demo_kv (js ''acme'') 100 [(1, None), (0, Some (demo_text [2] demo_root))]
      = (Inr (q, changed), kv') \<and> 2 \<le> op_seq q \<and> op_rootPub q = demo_root
    \<and> jm_get (loadRegistry demo_nets kv' 100) (js ''acme'') = Some k' \<and> kn_profile k' = q"
proof -
  have "openEnvelope demo_nets (JStr (demo_text [2] demo_root)) 100 (Some (held_pin demo_known)) False
      = Inr (demo_read demo_root 2, \<lparr>ev_profile = [2], ev_sig = demo_root\<rparr>)"
    by (simp add: open_Inr demo_read_env in_sight_def FUTURE_TOLERANCE_MS_def)
      (simp add: demo_known_def demo_read_def held_pin_def PUBLIC_NETWORK_ID_def)
  from one_current_source_enough [OF demo_json_laws demo_held(1) demo_get, of 0 "demo_text [2] demo_root"
      "[(1, None), (0, Some (demo_text [2] demo_root))]", OF _ this]
  show ?thesis by (simp add: demo_known_def demo_read_def)
qed

subsection \<open>Pointers\<close>

lemma takeWhile_stop: "list_all P xs \<Longrightarrow> \<not> P y \<Longrightarrow> takeWhile P (xs @ y # ys) = xs \<and> dropWhile P (xs @ y # ys) = y # ys"
  by (induction xs) auto

lemma b32_not_white: "b32_char u \<Longrightarrow> \<not> white u"
  unfolding b32_char_def white_def by (auto simp: word_le_nat_alt)

lemma trim_id: "s \<noteq> [] \<Longrightarrow> \<not> white (hd s) \<Longrightarrow> \<not> white (last s) \<Longrightarrow> trim s = s"
proof -
  assume a: "s \<noteq> []" "\<not> white (hd s)" "\<not> white (last s)"
  have "dropWhile white s = s" using a(1,2) by (cases s) simp_all
  moreover have "dropWhile white (rev s) = rev s" using a(1,3) by (cases s rule: rev_cases) simp_all
  ultimately show ?thesis by (simp add: trim_def)
qed

lemma pointer_here_at:
  assumes "pointer_scheme (sch @ host @ r) = Some sch" and "host \<noteq> []" and "list_all plain_url_char host"
    and "r = js ''#'' @ POINTER_TAG @ 0x62 # body" and "list_all b32_char body" and "50 \<le> length body"
  shows "pointer_here (sch @ host @ r) = Some (sch @ host, 0x62 # body)"
proof -
  have r: "r = 0x23 # (POINTER_TAG @ 0x62 # body)" using assms(4) by (simp add: js_def)
  have t: "takeWhile plain_url_char (host @ r) = host" "dropWhile plain_url_char (host @ r) = r"
    using takeWhile_stop [OF assms(3), of "0x23"] unfolding r by (simp_all add: plain_url_char_def)
  have m: "starts_with r (js ''#'' @ POINTER_TAG)" "drop (length (js ''#'' @ POINTER_TAG)) r = 0x62 # body"
    using assms(4) by (simp_all add: starts_with_def)
  have "takeWhile b32_char body = body" using assms(5) by (simp add: takeWhile_eq_all_conv list_all_iff)
  then show ?thesis using assms(1,2,6) t m by (simp add: pointer_here_def Let_def del: takeWhile_eq_all_conv)
qed

text \<open>
  C23: the short pointer to a profile, made for an http address without a fragment, credentials or
  white space, parses back to that address, and what it names is the file: the bytes it was made
  for are taken, and of any others served there only bytes with the same SHA-256 digest are.
\<close>

theorem pointer_names_file:
  assumes "crypto_lengths C" and "pointer_scheme w = Some sch" and "length sch < length w"
    and "list_all plain_url_char (drop (length sch) w)"
    and "ne_url N w = Some u" and "safe_scheme u" and "u_username u = []" and "u_password u = []"
  shows "\<exists>q. parseNetworkPointer N (pointerFor C w b) = Some q \<and> np_url q = u_href u
    \<and> fetchPointed C N q (Some b) = Inr (ne_decode N b)
    \<and> (\<forall>b'. fetchPointed C N q (Some b') = (if c_sha256 C b' = c_sha256 C b then Inr (ne_decode N b') else Inl PwCid))"
proof -
  define host where "host = drop (length sch) w"
  have pre: "w = sch @ host" "hd sch = 0x68" "sch \<noteq> []" "list_all (\<lambda>u. u \<noteq> 0x23) sch"
    using assms(2) by (auto simp: pointer_scheme_def starts_with_def host_def prefix_def js_def split: if_splits)
  have h: "host \<noteq> []" "list_all plain_url_char host" using assms(3,4) by (simp_all add: host_def)
  have len: "length (c_sha256 C x) = 32" for x using assms(1) by (simp add: crypto_lengths_def)
  define body where "body = base32 (CID_PREFIX @ c_sha256 C b)"
  have body: "cidV1Raw C b = 0x62 # body" "list_all b32_char body" "length body = 58"
    using len [of b] by (simp_all add: cidV1Raw_def body_def js_def base32_chars length_base32 CID_PREFIX_def)
  define r where "r = js ''#'' @ POINTER_TAG @ 0x62 # body"
  have "list_all (\<lambda>u. u \<noteq> 0x23) w" using pre(1,4) h(2) by (auto simp: plain_url_char_def list_all_iff)
  then have "takeWhile (\<lambda>u. u \<noteq> 0x23) w = w" by (simp add: takeWhile_eq_all_conv list_all_iff)
  then have p: "pointerFor C w b = sch @ host @ r" by (simp add: pointerFor_def body(1) r_def pre(1))
  have sch: "pointer_scheme (sch @ host @ r) = Some sch"
    using assms(2) unfolding pre(1) by (auto simp: pointer_scheme_def starts_with_def js_def split: if_splits)
  have "last r = last body" "body \<noteq> []" using body(3) by (auto simp: r_def)
  then have "b32_char (last r)" using body(2) by (simp add: list_all_iff)
  then have "\<not> white (last (sch @ host @ r))" by (simp add: b32_not_white r_def)
  moreover have "\<not> white (hd (sch @ host @ r))" using pre(2,3) by (simp add: white_def)
  ultimately have "trim (pointerFor C w b) = sch @ host @ r" unfolding p by (intro trim_id) (simp_all add: pre(3))
  moreover obtain c s where "sch @ host @ r = c # s" using pre(3) by (cases sch) auto
  moreover have "pointer_here (sch @ host @ r) = Some (w, cidV1Raw C b)"
    using pointer_here_at [OF sch h r_def body(2)] body pre(1) by simp
  ultimately have "parseNetworkPointer N (pointerFor C w b) = Some \<lparr>np_url = u_href u, np_cid = cidV1Raw C b\<rparr>"
    using assms(5-8) cid_verifiable [OF len [of b]] by (simp add: parseNetworkPointer_def)
  moreover have "cidMatches C (cidV1Raw C b) b' = (c_sha256 C b' = c_sha256 C b)" for b'
    using cid_matches_digest [OF len len cid_matches_own [OF len]] by metis
  ultimately show ?thesis by (intro exI [of _ "\<lparr>np_url = u_href u, np_cid = cidV1Raw C b\<rparr>"]) (simp add: fetchPointed_def)
qed

lemma pointer_names_file_witness:
  "\<exists>q. parseNetworkPointer demo_nets (pointerFor demo_crypto (js ''https://a/n.json'') [1, 2]) = Some q
     \<and> fetchPointed demo_crypto demo_nets q (Some [1, 2]) = Inr [1, 2]"
proof -
  have s: "pointer_scheme (js ''https://a/n.json'') = Some (js ''https://'')"
    "list_all plain_url_char (drop (length (js ''https://'')) (js ''https://a/n.json''))" by code_simp+
  have u: "ne_url demo_nets (js ''https://a/n.json'') = demo_url (js ''https://a/n.json'')"
    "ne_decode demo_nets = map ucast" by (simp_all add: demo_nets_def)
  from pointer_names_file [OF demo_crypto_lengths s(1) _ s(2) u(1) [unfolded demo_url_def], of "[1, 2]"]
  show ?thesis by (simp add: u(2) safe_scheme_def) blast
qed

end
