(* ===== verification/ActiveNet.thy ===== *)
theory ActiveNet
  imports NetTheorems
begin

section \<open>The built-in network and the one a page is in (lib/network.ts, lib/activenet.ts)\<close>

text \<open>
  \<open>parseNetworkProfile\<close> checks the profile compiled into the build; a failure is \<open>None\<close>. An
  identity lives in one network: its binding is a key beside the profile, and the page works in the
  network the last identity signed in to. \<open>autoRefreshNetwork\<close> refreshes a profile quietly and lets
  the device's node list follow it only while that list is the old profile's own.
\<close>

subsection \<open>The built-in profile\<close>

record network_profile =
  nf_networkId :: jstr
  nf_operator :: jstr
  nf_app :: app_address
  nf_legacyApp :: "app_address list"
  nf_stores :: "jstr list"
  nf_manifestUrls :: "jstr list"
  nf_feedback :: jstr
  nf_home :: jstr

definition url_field :: "net_env \<Rightarrow> json option \<Rightarrow> url option" where
  "url_field N v =
     (if \<not> is_str v \<or> str_val v = [] then None
      else (case ne_url N (str_val v) of
          None \<Rightarrow> None
        | Some u \<Rightarrow>
            if \<not> safe_scheme u then None
            else if u_username u \<noteq> [] \<or> u_password u \<noteq> [] then None
            else if u_hash u \<noteq> [] \<or> u_search u \<noteq> [] then None else Some u))"

definition origin_field :: "net_env \<Rightarrow> json option \<Rightarrow> jstr option" where
  "origin_field N v = (case url_field N v of
     None \<Rightarrow> None
   | Some u \<Rightarrow> if u_pathname u \<noteq> js ''/'' \<or> drop_slash (str_val v) \<noteq> u_origin u then None else Some (u_origin u))"

definition app_field :: "net_env \<Rightarrow> json option \<Rightarrow> app_address option" where
  "app_field N v = (case v of
     None \<Rightarrow> None
   | Some a \<Rightarrow>
       if \<not> (is_str (field a ''path'') \<and> starts_with (str_val (field a ''path'')) (js ''/'')) then None
       else map_option (\<lambda>og. \<lparr>ap_origin = og, ap_path = str_val (field a ''path'')\<rparr>) (origin_field N (field a ''origin'')))"

definition list_field :: "(json option \<Rightarrow> 'b option) \<Rightarrow> bool \<Rightarrow> json option \<Rightarrow> 'b list option" where
  "list_field each allowEmpty v = (case v of
     Some (JArr xs) \<Rightarrow>
       if \<not> allowEmpty \<and> xs = [] then None else if length xs > MAX_LIST then None
       else all_some (map (\<lambda>x. each (Some x)) xs)
   | _ \<Rightarrow> None)"

definition ends_with :: "jstr \<Rightarrow> jstr \<Rightarrow> bool" where
  "ends_with s t = suffix t s"

definition manifest_url :: "net_env \<Rightarrow> json option \<Rightarrow> jstr option" where
  "manifest_url N v = (case url_field N v of
     None \<Rightarrow> None | Some u \<Rightarrow> if \<not> ends_with (u_pathname u) (js ''.json'') then None else Some (u_href u))"

definition parseNetworkProfile :: "net_env \<Rightarrow> json \<Rightarrow> network_profile option" where
  "parseNetworkProfile N doc =
     (if field doc ''v'' \<noteq> Some (num 1) then None
      else if \<not> (is_str (field doc ''networkId'') \<and> network_id_ok (str_val (field doc ''networkId''))) then None
      else if \<not> (is_str (field doc ''operator'') \<and> trim (str_val (field doc ''operator'')) \<noteq> []
        \<and> length (str_val (field doc ''operator'')) \<le> 100) then None
      else (case (app_field N (field doc ''app''), list_field (app_field N) True (Some (field_or (JArr []) doc ''legacyApp'')),
          list_field (origin_field N) False (field doc ''stores''), list_field (manifest_url N) False (field doc ''manifestUrls''),
          url_field N (field doc ''feedback''), url_field N (field doc ''home'')) of
        (Some app, Some legacy, Some stores, Some urls, Some fb, Some home) \<Rightarrow>
          Some \<lparr>nf_networkId = str_val (field doc ''networkId''), nf_operator = trim (str_val (field doc ''operator'')),
            nf_app = app, nf_legacyApp = legacy, nf_stores = stores, nf_manifestUrls = urls,
            nf_feedback = u_href fb, nf_home = u_href home\<rparr>
      | _ \<Rightarrow> None))"

text \<open>\<open>manifestUrl.replace(/\.json$/, '.sig')\<close>.\<close>

definition sigUrl :: "jstr \<Rightarrow> jstr" where
  "sigUrl u = (if ends_with u (js ''.json'') then take (length u - 5) u @ js ''.sig'' else u)"

subsection \<open>Which network\<close>

record active_network =
  an_id :: jstr
  an_builtin :: bool
  an_operator :: jstr
  an_nodes :: "published_node list"
  an_stores :: "jstr list"
  an_app :: app_address
  an_legacyApp :: "app_address list"
  an_feedback :: "jstr option"
  an_home :: jstr
  an_policy :: network_policy
  an_expired :: bool
  an_rootPub :: "jstr option"
  an_profileUrls :: "jstr list option"

definition LAST_NET_KEY :: jstr where "LAST_NET_KEY = js ''ec-last-net''"

definition softBindingKey :: "jstr \<Rightarrow> jstr" where "softBindingKey nm = js ''ec-soft-net-'' @ nm"
definition hemBindingKey :: "jstr \<Rightarrow> jstr" where "hemBindingKey kid = js ''ec-hem-net-'' @ kid"

definition builtinNetwork :: "network_profile \<Rightarrow> published_node list \<Rightarrow> jstr \<Rightarrow> active_network" where
  "builtinNetwork net nodes i = \<lparr>an_id = i, an_builtin = True, an_operator = nf_operator net, an_nodes = nodes,
     an_stores = nf_stores net, an_app = nf_app net, an_legacyApp = nf_legacyApp net, an_feedback = Some (nf_feedback net),
     an_home = nf_home net,
     an_policy = \<lparr>np_node_only = False, np_software = None, np_public = None, np_allowlist = False, np_enroll = None\<rparr>,
     an_expired = False, an_rootPub = None, an_profileUrls = None\<rparr>"

definition networkById :: "net_env \<Rightarrow> kv \<Rightarrow> jstr option \<Rightarrow> active_network \<Rightarrow> int \<Rightarrow> active_network option" where
  "networkById N kv i builtin now = (case i of
     None \<Rightarrow> Some builtin
   | Some s \<Rightarrow>
       if s = [] \<or> s = an_id builtin then Some builtin
       else (case jm_get (loadRegistry N kv now) s of
          None \<Rightarrow> None
        | Some k \<Rightarrow> let p = kn_profile k in
            Some \<lparr>an_id = op_networkId p, an_builtin = False, an_operator = op_operator p, an_nodes = op_nodes p,
              an_stores = op_stores p, an_app = op_app p, an_legacyApp = op_legacyApp p, an_feedback = op_feedback p,
              an_home = op_home p, an_policy = op_policy p, an_expired = kn_expired k,
              an_rootPub = Some (op_rootPub p), an_profileUrls = Some (op_profileUrls p)\<rparr>))"

definition resolveActive :: "net_env \<Rightarrow> kv \<Rightarrow> active_network \<Rightarrow> int \<Rightarrow> active_network" where
  "resolveActive N kv builtin now = (case networkById N kv (kv LAST_NET_KEY) builtin now of None \<Rightarrow> builtin | Some n \<Rightarrow> n)"

definition bindingOf :: "kv \<Rightarrow> jstr \<Rightarrow> active_network \<Rightarrow> jstr" where
  "bindingOf kv key builtin = (case kv key of None \<Rightarrow> an_id builtin | Some s \<Rightarrow> if s = [] then an_id builtin else s)"

definition setBinding :: "kv \<Rightarrow> jstr \<Rightarrow> jstr \<Rightarrow> active_network \<Rightarrow> kv" where
  "setBinding kv key i builtin = (if i = an_id builtin then kv(key := None) else kv(key \<mapsto> i))"

definition setLastNet :: "kv \<Rightarrow> jstr \<Rightarrow> active_network \<Rightarrow> kv" where
  "setLastNet kv i builtin = (if i = an_id builtin then kv(LAST_NET_KEY := None) else kv(LAST_NET_KEY \<mapsto> i))"

definition nodesKey :: "active_network \<Rightarrow> jstr" where
  "nodesKey n = (if an_builtin n then js ''ec-nodes'' else js ''ec-nodes:'' @ an_id n)"

definition transportKey :: "active_network \<Rightarrow> jstr" where
  "transportKey n = (if an_builtin n then js ''ec-transport'' else js ''ec-transport:'' @ an_id n)"

subsection \<open>The quiet refresh\<close>

text \<open>\<open>sort()\<close> of strings is by code units; \<open>join('\n')\<close>.\<close>

fun unit_le :: "jstr \<Rightarrow> jstr \<Rightarrow> bool" where
  "unit_le [] _ = True"
| "unit_le (a # s) [] = False"
| "unit_le (a # s) (b # t) = (a < b \<or> a = b \<and> unit_le s t)"

fun insert_str :: "jstr \<Rightarrow> jstr list \<Rightarrow> jstr list" where
  "insert_str s [] = [s]"
| "insert_str s (t # ts) = (if unit_le s t then s # t # ts else t # insert_str s ts)"

definition sort_strs :: "jstr list \<Rightarrow> jstr list" where
  "sort_strs ss = foldr insert_str ss []"

fun join_nl :: "jstr list \<Rightarrow> jstr" where
  "join_nl [] = []"
| "join_nl [s] = s"
| "join_nl (s # ss) = s @ 0xA # join_nl ss"

definition addrs :: "jstr list \<Rightarrow> jstr" where
  "addrs l = join_nl (sort_strs l)"

definition untouched :: "json list \<Rightarrow> op_profile \<Rightarrow> bool" where
  "untouched kept was =
     (list_all (\<lambda>x. field x ''enabled'' \<noteq> Some (JBool False) \<and> is_str (field x ''addr'')) kept
      \<and> addrs (map (\<lambda>x. str_val (field x ''addr'')) kept) = addrs (map nd_addr (op_nodes was)))"

definition enabled_node :: "published_node \<Rightarrow> json" where
  "enabled_node x = JObj ([(js ''name'', JStr (nd_name x)), (js ''addr'', JStr (nd_addr x))]
     @ (case nd_w x of None \<Rightarrow> [] | Some q \<Rightarrow> [(js ''w'', JNum (Fin q))]) @ [(js ''enabled'', JBool True)])"

datatype auto_result = Unchanged "refresh_why option" | Changed op_profile bool

text \<open>What follows the refresh: \<open>was\<close> is the profile read before it, \<open>kv\<close> the store after it.\<close>

definition auto_end ::
  "net_env \<Rightarrow> active_network \<Rightarrow> op_profile \<Rightarrow> refresh_why + op_profile \<times> bool \<Rightarrow> kv \<Rightarrow> auto_result \<times> kv" where
  "auto_end N n was r kv = (case r of
     Inl why \<Rightarrow> (Unchanged (Some why), kv)
   | Inr (p, changed) \<Rightarrow>
       if \<not> changed then (Unchanged None, kv)
       else
         let key = nodesKey n;
             kept = ne_parse N (case kv key of None \<Rightarrow> js ''null'' | Some s \<Rightarrow> s)
         in (case kept of
              Some (JArr l) \<Rightarrow>
                if l \<noteq> [] \<and> untouched l was
                then (Changed p True, kv(key \<mapsto> ne_str N (JArr (map enabled_node (op_nodes p)))))
                else (Changed p False, kv)
            | _ \<Rightarrow> (Changed p False, kv)))"

definition autoRefreshNetwork ::
  "net_env \<Rightarrow> kv \<Rightarrow> active_network \<Rightarrow> int \<Rightarrow> (nat \<times> jstr option) list \<Rightarrow> auto_result \<times> kv" where
  "autoRefreshNetwork N kv n now answers =
     (if an_builtin n then (Unchanged None, kv)
      else (case refresh_begin N kv (an_id n) now of
          None \<Rightarrow> (Unchanged (Some WhyUnknown), kv)
        | Some was \<Rightarrow> (case refreshNetwork N kv (an_id n) now answers of (r, kv') \<Rightarrow> auto_end N n was r kv')))"

subsection \<open>Lemmas\<close>

lemma binding_set: "i \<noteq> [] \<Longrightarrow> bindingOf (setBinding kv key i b) key b = i"
  by (simp add: bindingOf_def setBinding_def)

lemma binding_other: "key' \<noteq> key \<Longrightarrow> bindingOf (setBinding kv key i b) key' b = bindingOf kv key' b"
  by (simp add: bindingOf_def setBinding_def)

lemma active_after_set:
  assumes "networkById N kv (Some i) b now = Some n" "i \<noteq> []"
  shows "resolveActive N (setLastNet kv i b) b now = n"
proof -
  have k: "LAST_NET_KEY \<noteq> REGISTRY_KEY" by (simp add: LAST_NET_KEY_def REGISTRY_KEY_def)
  have "raw_registry N (kv(LAST_NET_KEY := x)) = raw_registry N kv" for x using k by (simp add: raw_registry_def)
  then have lr: "loadRegistry N (kv(LAST_NET_KEY := x)) now = loadRegistry N kv now" for x by (simp add: loadRegistry_def)
  have "networkById N (kv(LAST_NET_KEY := x)) j b now = networkById N kv j b now" for x j
    unfolding networkById_def lr by (rule refl)
  then show ?thesis using assms by (simp add: resolveActive_def setLastNet_def) (auto simp: networkById_def)
qed

fun lines_of :: "jstr \<Rightarrow> jstr \<Rightarrow> jstr list" where
  "lines_of acc [] = [acc]"
| "lines_of acc (u # s) = (if u = 0xA then acc # lines_of [] s else lines_of (acc @ [u]) s)"

lemma lines_append: "lines_of acc (s @ 0xA # t) = lines_of acc s @ lines_of [] t"
  by (induction acc s rule: lines_of.induct) auto

lemma lines_plain: "0xA \<notin> set s \<Longrightarrow> lines_of acc s = [acc @ s]"
  by (induction acc s rule: lines_of.induct) auto

lemma lines_join: "ss \<noteq> [] \<Longrightarrow> lines_of [] (join_nl ss) = concat (map (lines_of []) ss)"
  by (induction ss rule: join_nl.induct) (simp_all add: lines_append)

lemma set_insert_str: "set (insert_str s ts) = insert s (set ts)"
  by (induction ts) auto

lemma set_sort_strs [simp]: "set (sort_strs ss) = set ss"
  by (induction ss) (simp_all add: sort_strs_def set_insert_str)

lemma sort_strs_Nil [simp]: "sort_strs ss = [] \<longleftrightarrow> ss = []"
  by (metis set_empty set_sort_strs)

lemma addrs_same:
  assumes "addrs xs = addrs ys" and "x \<in> set xs" and "0xA \<notin> set x" and "ys \<noteq> []" and "\<forall>y\<in>set ys. 0xA \<notin> set y"
  shows "x \<in> set ys"
proof -
  have ne: "xs \<noteq> []" using assms(2) by auto
  have "x \<in> set (lines_of [] (addrs xs))"
    using lines_join [of "sort_strs xs"] ne assms(2,3) by (force simp: addrs_def lines_plain)
  moreover have "set (lines_of [] (addrs ys)) = set ys"
    using lines_join [of "sort_strs ys"] assms(4,5) by (auto simp: addrs_def lines_plain)
  ultimately show ?thesis using assms(1) by simp
qed

lemma node_addr_plain: "node_ok n \<Longrightarrow> 0xA \<notin> set (nd_addr n)"
  by (auto simp: node_ok_def usable_addr_def addr_breaks_def list_ex_iff)

lemma parsed_profile_nodes:
  assumes "parseOperatorProfile N doc = Inr p"
  shows "op_nodes p \<noteq> []" "\<forall>n\<in>set (op_nodes p). node_ok n"
proof -
  obtain s where "parseNodeList N s = Inr (op_nodes p)"
    using assms by (auto simp: parseOperatorProfile_def nodes_field_def map_err_def then_ok_Inr split: sum.splits prod.splits)
  then show "op_nodes p \<noteq> []" "\<forall>n\<in>set (op_nodes p). node_ok n" using parsed_nodes by (auto simp: list_all_iff)
qed

lemma read_profile_nodes:
  assumes "read_envelope N raw = Inr (p, ev)"
  shows "op_nodes p \<noteq> []" "\<forall>n\<in>set (op_nodes p). node_ok n"
proof -
  obtain doc where "parseOperatorProfile N doc = Inr p"
    using assms by (auto simp: read_envelope_def split: option.splits sum.splits if_splits)
  from parsed_profile_nodes [OF this] show "op_nodes p \<noteq> []" "\<forall>n\<in>set (op_nodes p). node_ok n" by simp_all
qed

lemma load_fold_profiles:
  "jm_get (foldl (load_entry N now) out es) i = Some k \<Longrightarrow>
     jm_get out i = Some k \<or> (\<exists>raw ev. read_envelope N raw = Inr (kn_profile k, ev))"
proof (induction es arbitrary: out)
  case Nil
  then show ?case by simp
next
  case (Cons e es)
  obtain j env where e: "e = (j, env)" by (cases e)
  have "jm_get (load_entry N now out (j, env)) i = Some k \<Longrightarrow>
      jm_get out i = Some k \<or> (\<exists>raw ev. read_envelope N raw = Inr (kn_profile k, ev))"
    by (auto simp: load_entry_get open_Inr split: sum.splits prod.splits if_splits)
  then show ?case using Cons.IH [of "load_entry N now out e"] Cons.prems e by auto
qed

lemma registry_profiles:
  assumes "jm_get (loadRegistry N kv now) i = Some k"
  shows "op_nodes (kn_profile k) \<noteq> []" "\<forall>n\<in>set (op_nodes (kn_profile k)). node_ok n"
proof -
  obtain raw ev where "read_envelope N raw = Inr (kn_profile k, ev)"
    using load_fold_profiles [of N now "[]"] assms unfolding loadRegistry_def by fastforce
  from read_profile_nodes [OF this] show "op_nodes (kn_profile k) \<noteq> []" "\<forall>n\<in>set (op_nodes (kn_profile k)). node_ok n" by simp_all
qed

lemma register_elsewhere: "key \<noteq> REGISTRY_KEY \<Longrightarrow> snd (registerNetwork N kv raw now) key = kv key"
  by (auto simp: registerNetwork_def store_network_def Let_def split: sum.splits prod.splits option.splits)

lemma refresh_elsewhere:
  assumes "key \<noteq> REGISTRY_KEY"
  shows "snd (refreshNetwork N kv i now answers) key = kv key"
proof -
  have "snd (registerNetwork N kv raw now) key = kv key" for raw by (rule register_elsewhere [OF assms])
  then show ?thesis
    by (auto simp: refreshNetwork_def refresh_end_def Let_def split: option.splits prod.splits net_result.splits)
      (metis snd_conv)+
qed

lemma nodesKey_other: "nodesKey n \<noteq> REGISTRY_KEY"
proof
  assume "nodesKey n = REGISTRY_KEY"
  then have "nodesKey n ! 4 = REGISTRY_KEY ! 4" by simp
  then show False by (simp add: nodesKey_def REGISTRY_KEY_def js_def nth_append split: if_splits)
qed

lemma auto_end_keeps:
  assumes "kv (nodesKey n) = Some s" and "\<And>l. ne_parse N s = Some (JArr l) \<Longrightarrow> \<not> untouched l was"
  shows "snd (auto_end N n was r kv) (nodesKey n) = Some s"
  using assms by (auto simp: auto_end_def Let_def split: sum.splits prod.splits option.splits json.splits)

text \<open>
  C24: the quiet refresh never takes a node list away from the person who edited it: a list with a
  node turned off, or with an address the profile held before did not have, stays as it is,
  whatever the network's servers answer.
\<close>

theorem own_list_kept:
  assumes "jm_get (loadRegistry N kv now) (an_id n) = Some k"
    and "kv (nodesKey n) = Some s" and "ne_parse N s = Some (JArr l)" and "x \<in> set l"
    and "field x ''enabled'' = Some (JBool False)
      \<or> field x ''addr'' = Some (JStr a) \<and> 0xA \<notin> set a \<and> a \<notin> nd_addr ` set (op_nodes (kn_profile k))"
  shows "snd (autoRefreshNetwork N kv n now answers) (nodesKey n) = Some s"
proof -
  have u: "\<not> untouched l (kn_profile k)"
  proof
    assume u: "untouched l (kn_profile k)"
    then have all: "list_all (\<lambda>x. field x ''enabled'' \<noteq> Some (JBool False) \<and> is_str (field x ''addr'')) l"
      and same: "addrs (map (\<lambda>x. str_val (field x ''addr'')) l) = addrs (map nd_addr (op_nodes (kn_profile k)))"
      unfolding untouched_def by blast+
    have "field x ''enabled'' \<noteq> Some (JBool False)" using all assms(4) by (simp add: list_all_iff)
    then have a: "field x ''addr'' = Some (JStr a)" "0xA \<notin> set a" "a \<notin> nd_addr ` set (op_nodes (kn_profile k))"
      using assms(5) by blast+
    have "a \<in> set (map (\<lambda>x. str_val (field x ''addr'')) l)" using a(1) assms(4) by (force simp: image_iff)
    then have "a \<in> set (map nd_addr (op_nodes (kn_profile k)))"
      using registry_profiles [OF assms(1)] by (intro addrs_same [OF same _ a(2)]) (auto dest: node_addr_plain)
    then show False using a(3) by simp
  qed
  have "snd (refreshNetwork N kv (an_id n) now answers) (nodesKey n) = Some s"
    using refresh_elsewhere [OF nodesKey_other, of N kv "an_id n" now answers n] assms(2) by simp
  moreover have "\<And>l. ne_parse N s = Some (JArr l) \<Longrightarrow> \<not> untouched l (kn_profile k)" using assms(3) u by simp
  ultimately show ?thesis
    using auto_end_keeps [of "snd (refreshNetwork N kv (an_id n) now answers)" n s N "kn_profile k"] assms(1,2)
    by (cases "refreshNetwork N kv (an_id n) now answers") (simp add: autoRefreshNetwork_def refresh_begin_def)
qed

text \<open>And one that is still the old profile's own follows it.\<close>

lemma list_follows:
  assumes "kv (nodesKey n) = Some s" and "ne_parse N s = Some (JArr l)" and "l \<noteq> []" and "untouched l was"
  shows "auto_end N n was (Inr (p, True)) kv
    = (Changed p True, kv(nodesKey n \<mapsto> ne_str N (JArr (map enabled_node (op_nodes p)))))"
  using assms by (simp add: auto_end_def)

text \<open>The device of the other demonstrations, with a list of its own.\<close>

definition demo_active :: active_network where
  "demo_active = \<lparr>an_id = js ''acme'', an_builtin = False, an_operator = [], an_nodes = [], an_stores = [],
     an_app = \<lparr>ap_origin = [], ap_path = []\<rparr>, an_legacyApp = [], an_feedback = None, an_home = [],
     an_policy = \<lparr>np_node_only = False, np_software = None, np_public = None, np_allowlist = False, np_enroll = None\<rparr>,
     an_expired = False, an_rootPub = None, an_profileUrls = None\<rparr>"

lemma own_list_kept_witness:
  "snd (autoRefreshNetwork demo_nets (demo_kv(nodesKey demo_active \<mapsto> [9])) demo_active 100 [(0, Some (demo_text [2] demo_root))])
     (nodesKey demo_active) = Some [9]"
proof -
  let ?kv = "demo_kv(nodesKey demo_active \<mapsto> [9])"
  have "raw_registry demo_nets ?kv = raw_registry demo_nets demo_kv"
    using nodesKey_other [of demo_active] by (simp add: raw_registry_def)
  then have "loadRegistry demo_nets ?kv 100 = loadRegistry demo_nets demo_kv 100" by (simp add: loadRegistry_def)
  then have g: "jm_get (loadRegistry demo_nets ?kv 100) (an_id demo_active) = Some demo_known"
    using demo_get by (simp add: demo_active_def)
  have p: "ne_parse demo_nets [9] = Some (JArr [JObj [(js ''addr'', JStr [0x2F])]])"
    by (simp add: demo_nets_def demo_parse_def js_def)
  have o: "[0x2F] \<notin> nd_addr ` set (op_nodes (kn_profile demo_known))" by (simp add: demo_known_def demo_read_def js_def)
  show ?thesis
    by (rule own_list_kept [OF g _ p, of "JObj [(js ''addr'', JStr [0x2F])]" "[0x2F]"]) (use o in simp_all)
qed

end
