(* ===== verification/Enroll.thy ===== *)
theory Enroll
  imports RelayMesh
begin

section \<open>A device joins a network that admits by list (relay/enroll.mjs)\<close>

text \<open>
  The device asks for a challenge and sends its PeerId, the challenge, the administrator's code and
  a signature over all of it. A request runs up to the check of the signature
  (\<open>enroll_begin\<close>) and, after the \<open>await\<close>, to its end (\<open>enroll_end\<close>); between the two other
  requests may run. HMAC-SHA-1, Ed25519, the Unicode tables and the spelling of a date are fields
  of \<open>enroll_cfg\<close>; the files of the service, seed, list, lock and failure count, are fields of its
  state, \<open>None\<close> where a file is missing. \<open>None\<close> as an answer is an exception nobody catches.
\<close>

unbundle bit_operations_syntax

definition DIGITS :: nat where "DIGITS = 8"
definition STEP_S :: int where "STEP_S = 30"
definition NONCE_TTL_MS :: int where "NONCE_TTL_MS = 120000"
definition OIDC_NONCE_TTL_MS :: int where "OIDC_NONCE_TTL_MS = 10 * 60000"
definition PER_IP_FAILURES :: nat where "PER_IP_FAILURES = 5"
definition PER_IP_WINDOW_MS :: int where "PER_IP_WINDOW_MS = 10 * 60000"
definition LOCK_AFTER :: nat where "LOCK_AFTER = 20"

subsection \<open>Base32 of the seed\<close>

definition B32U :: jstr where "B32U = js ''ABCDEFGHIJKLMNOPQRSTUVWXYZ234567''"

fun index_in :: "'a list \<Rightarrow> 'a \<Rightarrow> nat option" where
  "index_in [] _ = None"
| "index_in (x # xs) y = (if x = y then Some 0 else map_option Suc (index_in xs y))"

text \<open>\<open>v.toString(2).padStart(k, '0')\<close>, and \<open>parseInt(b, 2)\<close>.\<close>

fun bits_of :: "nat \<Rightarrow> nat \<Rightarrow> bool list" where
  "bits_of 0 _ = []"
| "bits_of (Suc k) n = bits_of k (n div 2) @ [n mod 2 = 1]"

definition of_bits :: "bool list \<Rightarrow> nat" where
  "of_bits bs = foldl (\<lambda>a b. 2 * a + (if b then 1 else 0)) 0 bs"

text \<open>Whole groups of \<open>k\<close>; what is left over is dropped.\<close>

fun whole_groups :: "nat \<Rightarrow> bool list \<Rightarrow> bool list list" where
  "whole_groups k bs = (if k = 0 \<or> length bs < k then [] else take k bs # whole_groups k (drop k bs))"

declare whole_groups.simps [simp del]

definition drop_padding :: "jstr \<Rightarrow> jstr" where
  "drop_padding s = rev (dropWhile (\<lambda>u. u = 0x3D) (rev s))"

definition fromBase32 :: "(jstr \<Rightarrow> jstr) \<Rightarrow> jstr \<Rightarrow> bytes option" where
  "fromBase32 upper s =
     (case all_some (map (index_in B32U) (upper (drop_padding s))) of
        None \<Rightarrow> None
      | Some vs \<Rightarrow> Some (map (\<lambda>g. word_of_nat (of_bits g)) (whole_groups 8 (concat (map (bits_of 5) vs)))))"

definition toBase32 :: "bytes \<Rightarrow> jstr" where
  "toBase32 b = map (\<lambda>g. B32U ! of_bits g) (whole_groups 5 (concat (map (\<lambda>x. bits_of 8 (unat x)) b)))"

subsection \<open>TOTP\<close>

text \<open>\<open>String(n).padStart(k, '0')\<close> of a number below ten to the \<open>k\<close>.\<close>

fun dec_pad :: "nat \<Rightarrow> nat \<Rightarrow> jstr" where
  "dec_pad 0 n = []"
| "dec_pad (Suc k) n = dec_pad k (n div 10) @ [word_of_nat (0x30 + n mod 10)]"

record oidc_cfg =
  oc_allowDomain :: jstr
  oc_allowGroup :: jstr
  oc_record :: jstr

record enroll_cfg =
  ec_networkId :: jstr
  ec_hmac_sha1 :: "bytes \<Rightarrow> bytes \<Rightarrow> bytes"
  ec_verify :: "bytes \<Rightarrow> bytes \<Rightarrow> bytes \<Rightarrow> bool" \<comment> \<open>message, raw public key, signature\<close>
  ec_unb64 :: "jstr \<Rightarrow> bytes" \<comment> \<open>\<open>Buffer.from(s, 'base64')\<close>\<close>
  ec_upper :: "jstr \<Rightarrow> jstr" \<comment> \<open>\<open>toUpperCase\<close>\<close>
  ec_word_point :: "jstr \<Rightarrow> bool" \<comment> \<open>a code point of the classes L and N\<close>
  ec_iso :: "int \<Rightarrow> jstr" \<comment> \<open>\<open>toISOString\<close>\<close>
  ec_js :: js_env
  ec_oidc :: "oidc_cfg option"

definition totpAt :: "enroll_cfg \<Rightarrow> bytes \<Rightarrow> int \<Rightarrow> jstr" where
  "totpAt E key counter =
     (let h = ec_hmac_sha1 E key (be_enc 8 (nat counter));
          i = unat (h ! 19 AND 15);
          n = unat (push_bit 24 (ucast (h ! i AND 127) :: 32 word) OR push_bit 16 (ucast (h ! (i + 1)))
                OR push_bit 8 (ucast (h ! (i + 2))) OR ucast (h ! (i + 3)))
      in dec_pad DIGITS (n mod 10 ^ DIGITS))"

definition eight_digits :: "jstr \<Rightarrow> bool" where
  "eight_digits code = (length code = 8 \<and> list_all (\<lambda>u. 0x30 \<le> u \<and> u \<le> 0x39) code)"

definition window :: "int \<Rightarrow> int" where
  "window now = now div (1000 * STEP_S)"

definition totpMatch :: "enroll_cfg \<Rightarrow> bytes \<Rightarrow> jstr \<Rightarrow> int \<Rightarrow> int option" where
  "totpMatch E key code now =
     (if \<not> eight_digits code then None
      else find (\<lambda>c. totpAt E key c = code) [window now, window now - 1, window now + 1])"

subsection \<open>What is signed, and by whom\<close>

definition enrollMessage :: "jstr \<Rightarrow> jstr \<Rightarrow> jstr \<Rightarrow> bytes" where
  "enrollMessage networkId nonce code =
     utf8 (js ''onchato-enroll-v1'' @ [0xA] @ networkId @ [0xA] @ nonce @ [0xA] @ code)"

definition statusMessage :: "jstr \<Rightarrow> jstr \<Rightarrow> bytes" where
  "statusMessage networkId nonce = utf8 (js ''onchato-status-v1'' @ [0xA] @ networkId @ [0xA] @ nonce)"

definition B58 :: jstr where
  "B58 = js ''123456789ABCDEFGHJKLMNPQRSTUVWXYZabcdefghijkmnopqrstuvwxyz''"

definition b58_num :: "nat list \<Rightarrow> nat" where
  "b58_num vs = foldl (\<lambda>n v. n * 58 + v) 0 vs"

fun be_min :: "nat \<Rightarrow> bytes" where
  "be_min n = (if n = 0 then [] else be_min (n div 256) @ [word_of_nat (n mod 256)])"

declare be_min.simps [simp del]

definition base58 :: "jstr \<Rightarrow> bytes option" where
  "base58 s = (case all_some (map (index_in B58) s) of
     None \<Rightarrow> None
   | Some vs \<Rightarrow> Some (map (\<lambda>_. 0) (takeWhile (\<lambda>u. u = 0x31) s) @ be_min (b58_num vs)))"

definition ED_HEAD :: bytes where "ED_HEAD = [0x00, 0x24, 0x08, 0x01, 0x12, 0x20]"

definition ed25519OfPeerId :: "jstr \<Rightarrow> bytes option" where
  "ed25519OfPeerId p = (case base58 p of
     None \<Rightarrow> None
   | Some b \<Rightarrow> if length b = 38 \<and> take 6 b = ED_HEAD then Some (drop 6 b) else None)"

definition signedBy :: "enroll_cfg \<Rightarrow> jstr \<Rightarrow> bytes \<Rightarrow> jstr \<Rightarrow> bool" where
  "signedBy E p msg sig = (case ed25519OfPeerId p of
     None \<Rightarrow> False | Some raw \<Rightarrow> ec_verify E msg raw (ec_unb64 E sig))"

subsection \<open>The service\<close>

record enroll =
  en_nonces :: "(jstr, int) jmap"
  en_used :: "(int \<times> jstr, int) jmap"
  en_perIp :: "(jstr, int list) jmap"
  en_failures :: nat
  en_locked :: bool
  en_seed :: "jstr option"
  en_list :: "jstr option"

text \<open>The answers by their status and the error in their body.\<close>

datatype enroll_reply = Refuse nat string | Enrolled | StatusOf bool bool

definition sweep_enroll :: "int \<Rightarrow> enroll \<Rightarrow> enroll" where
  "sweep_enroll t s = s\<lparr>en_nonces := filter (\<lambda>p. \<not> snd p < t) (en_nonces s), en_used := filter (\<lambda>p. \<not> snd p < t) (en_used s)\<rparr>"

definition seed_key :: "enroll_cfg \<Rightarrow> enroll \<Rightarrow> bytes option" where
  "seed_key E s = (case en_seed s of None \<Rightarrow> None | Some x \<Rightarrow> fromBase32 (ec_upper E) (trim x))"

definition listed :: "enroll \<Rightarrow> jstr list" where
  "listed s = (case en_list s of None \<Rightarrow> [] | Some x \<Rightarrow> fst (parseAllowlist x))"

definition takeNonce :: "int \<Rightarrow> jstr \<Rightarrow> enroll \<Rightarrow> bool \<times> enroll" where
  "takeNonce t n s =
     (let s' = sweep_enroll t s
      in if \<not> jm_has (en_nonces s') n then (False, s') else (True, s'\<lparr>en_nonces := jm_del n (en_nonces s')\<rparr>))"

definition recent_failures :: "int \<Rightarrow> jstr \<Rightarrow> enroll \<Rightarrow> int list" where
  "recent_failures t ip s = filter (\<lambda>x. t - x < PER_IP_WINDOW_MS) (case jm_get (en_perIp s) ip of None \<Rightarrow> [] | Some l \<Rightarrow> l)"

text \<open>
  The failure file holds a number; missing or unreadable it counts as zero, and the state keeps
  what it counts as.
\<close>

definition fail_code :: "int \<Rightarrow> jstr \<Rightarrow> enroll \<Rightarrow> enroll" where
  "fail_code t ip s =
     (let n = en_failures s + 1
      in s\<lparr>en_perIp := jm_set ip (recent_failures t ip s @ [t]) (en_perIp s), en_failures := n,
           en_locked := (en_locked s \<or> n \<ge> LOCK_AFTER)\<rparr>)"

definition ipBlocked :: "int \<Rightarrow> jstr \<Rightarrow> enroll \<Rightarrow> bool" where
  "ipBlocked t ip s = (length (recent_failures t ip s) \<ge> PER_IP_FAILURES)"

definition failIp :: "int \<Rightarrow> jstr \<Rightarrow> enroll \<Rightarrow> enroll" where
  "failIp t ip s = s\<lparr>en_perIp := jm_set ip (recent_failures t ip s @ [t]) (en_perIp s)\<rparr>"

text \<open>\<open>replace(/[^\p{L}\p{N} ._,()@+:-]/gu, '').slice(0, 100)\<close>.\<close>

definition clean_label :: "enroll_cfg \<Rightarrow> jstr \<Rightarrow> jstr" where
  "clean_label E s =
     take 100 (concat (filter (\<lambda>p. ec_word_point E p \<or> p \<in> set (map (\<lambda>u. [u]) (js '' ._,()@+:-''))) (code_points s)))"

definition list_line :: "enroll_cfg \<Rightarrow> int \<Rightarrow> jstr \<Rightarrow> jstr \<Rightarrow> jstr" where
  "list_line E t p clean =
     p @ js '' '' @ (if clean = [] then [] else clean @ js '' '') @ js ''# enrolled '' @ ec_iso E t @ [0xA]"

definition addToList :: "enroll_cfg \<Rightarrow> int \<Rightarrow> jstr \<Rightarrow> jstr \<Rightarrow> enroll \<Rightarrow> enroll" where
  "addToList E t p label s =
     (if p \<in> set (listed s) then s
      else
        let txt = (case en_list s of None \<Rightarrow> [] | Some x \<Rightarrow> x);
            line = list_line E t p (clean_label E label)
        in s\<lparr>en_list := Some ((if txt \<noteq> [] \<and> last txt \<noteq> 0xA then txt @ [0xA] else txt) @ line)\<rparr>)"

text \<open>\<open>challenge\<close>: what \<open>rand()\<close> drew is an argument; for a sign-in the answer also carries the provider's address.\<close>

definition challenge :: "enroll_cfg \<Rightarrow> int \<Rightarrow> jstr \<Rightarrow> jstr \<Rightarrow> enroll \<Rightarrow> enroll" where
  "challenge E t kind n s =
     (let s' = sweep_enroll t s;
          ttl = (if kind = js ''oidc'' \<and> ec_oidc E \<noteq> None then OIDC_NONCE_TTL_MS else NONCE_TTL_MS)
      in s'\<lparr>en_nonces := jm_set n (t + ttl) (en_nonces s')\<rparr>)"

record enroll_req =
  rq_peer :: jstr
  rq_nonce :: jstr
  rq_code :: jstr
  rq_sig :: jstr
  rq_label :: "json option"
  rq_ip :: jstr

text \<open>Up to the \<open>await\<close>: an answer, or the request that goes on.\<close>

definition enroll_begin :: "int \<Rightarrow> jstr \<Rightarrow> json \<Rightarrow> enroll \<Rightarrow> (enroll_reply + enroll_req) option \<times> enroll" where
  "enroll_begin t ip body s =
     (if body = JNull then (None, s)
      else if en_locked s then (Some (Inl (Refuse 423 ''locked'')), s)
      else if ipBlocked t ip s then (Some (Inl (Refuse 429 ''slow-down'')), s)
      else if \<not> (is_str (field body ''peerId'') \<and> is_str (field body ''nonce'') \<and> is_str (field body ''code'')
        \<and> is_str (field body ''sig'')) then (Some (Inl (Refuse 400 ''shape'')), s)
      else (case takeNonce t (str_val (field body ''nonce'')) s of (ok, s') \<Rightarrow>
        if \<not> ok then (Some (Inl (Refuse 400 ''challenge'')), s')
        else (Some (Inr \<lparr>rq_peer = str_val (field body ''peerId''), rq_nonce = str_val (field body ''nonce''),
          rq_code = str_val (field body ''code''), rq_sig = str_val (field body ''sig''), rq_label = field body ''label'',
          rq_ip = ip\<rparr>), s')))"

text \<open>\<open>String(label ?? '').slice(0, 60)\<close>.\<close>

definition label_text :: "enroll_cfg \<Rightarrow> json option \<Rightarrow> jstr option" where
  "label_text E l = map_option (take 60) (str_or (ec_js E) [] l)"

definition enroll_end :: "enroll_cfg \<Rightarrow> int \<Rightarrow> enroll_req \<Rightarrow> enroll \<Rightarrow> enroll_reply option \<times> enroll" where
  "enroll_end E t q s =
     (if \<not> signedBy E (rq_peer q) (enrollMessage (ec_networkId E) (rq_nonce q) (rq_code q)) (rq_sig q)
      then (Some (Refuse 400 ''signature''), s)
      else (case seed_key E s of
        None \<Rightarrow> (Some (Refuse 503 ''not-set-up''), s)
      | Some key \<Rightarrow> (case totpMatch E key (rq_code q) t of
          None \<Rightarrow> (Some (Refuse 403 ''code''), fail_code t (rq_ip q) s)
        | Some c \<Rightarrow>
            if jm_has (en_used s) (c, rq_code q) then (Some (Refuse 403 ''code''), fail_code t (rq_ip q) s)
            else
              let s1 = s\<lparr>en_used := jm_set (c, rq_code q) (t + 3 * STEP_S * 1000) (en_used s)\<rparr>
              in (case label_text E (rq_label q) of
                   None \<Rightarrow> (None, s1)
                 | Some l \<Rightarrow> (Some Enrolled, addToList E t (rq_peer q) l s1)))))"

text \<open>\<open>status\<close>, likewise in two.\<close>

definition status_begin :: "int \<Rightarrow> json \<Rightarrow> enroll \<Rightarrow> (enroll_reply + enroll_req) option \<times> enroll" where
  "status_begin t body s =
     (if body = JNull then (None, s)
      else if \<not> (is_str (field body ''peerId'') \<and> is_str (field body ''nonce'') \<and> is_str (field body ''sig''))
        then (Some (Inl (Refuse 400 ''shape'')), s)
      else (case takeNonce t (str_val (field body ''nonce'')) s of (ok, s') \<Rightarrow>
        if \<not> ok then (Some (Inl (Refuse 400 ''challenge'')), s')
        else (Some (Inr \<lparr>rq_peer = str_val (field body ''peerId''), rq_nonce = str_val (field body ''nonce''), rq_code = [],
          rq_sig = str_val (field body ''sig''), rq_label = None, rq_ip = []\<rparr>), s')))"

definition status_end :: "enroll_cfg \<Rightarrow> enroll_req \<Rightarrow> enroll \<Rightarrow> enroll_reply" where
  "status_end E q s =
     (if \<not> signedBy E (rq_peer q) (statusMessage (ec_networkId E) (rq_nonce q)) (rq_sig q) then Refuse 400 ''signature''
      else StatusOf (rq_peer q \<in> set (listed s)) (en_locked s))"

text \<open>\<open>onchato-ops access unlock\<close>, the administrator's own program: the lock and the count are removed.\<close>

definition unlock :: "enroll \<Rightarrow> enroll" where
  "unlock s = s\<lparr>en_locked := False, en_failures := 0\<rparr>"

end
