(* ===== verification/Oidc.thy ===== *)
theory Oidc
  imports Enroll Utf8
begin

section \<open>A device admitted by its owner's sign-in (relay/oidc.mjs, relay/enroll.mjs)\<close>

text \<open>
  The node redeems the device's authorization code at the provider and checks the token that
  comes back. What the provider answers is an argument; signatures, digests and base64url are
  fields of \<open>oidc_env\<close>. An error is the reason the code throws; messages that only reach a log
  are one constructor. The provider caches its description and its keys.
\<close>

record jws_alg =
  ja_hash :: "string option"
  ja_ec :: bool
  ja_pss :: "nat option"

record oidc_env =
  oe_sha256 :: "bytes \<Rightarrow> bytes"
  oe_b64url :: "bytes \<Rightarrow> jstr"
  oe_unb64u :: "jstr \<Rightarrow> bytes"
  oe_json :: "bytes \<Rightarrow> json option" \<comment> \<open>\<open>JSON.parse\<close> of the text\<close>
  oe_verify :: "jws_alg \<Rightarrow> json \<Rightarrow> bytes \<Rightarrow> bytes \<Rightarrow> bool option" \<comment> \<open>\<open>None\<close> where the key or the call is refused\<close>
  oe_lower :: "jstr \<Rightarrow> jstr"
  oe_js :: js_env

definition oidc_text :: "jstr \<Rightarrow> jstr \<Rightarrow> jstr \<Rightarrow> jstr" where
  "oidc_text networkId challengeNonce peerId =
     js ''onchato-oidc-v1'' @ [0xA] @ networkId @ [0xA] @ challengeNonce @ [0xA] @ peerId"

definition oidcNonce :: "oidc_env \<Rightarrow> jstr \<Rightarrow> jstr \<Rightarrow> jstr \<Rightarrow> jstr" where
  "oidcNonce X networkId challengeNonce peerId =
     oe_b64url X (oe_sha256 X (utf8 (oidc_text networkId challengeNonce peerId)))"

subsection \<open>A compact JWS\<close>

definition algs :: "(jstr \<times> jws_alg) list" where
  "algs =
     (let a = (\<lambda>h ec pss. \<lparr>ja_hash = h, ja_ec = ec, ja_pss = pss\<rparr>) in
      [(js ''EdDSA'', a None False None),
       (js ''ES256'', a (Some ''sha256'') True None), (js ''ES384'', a (Some ''sha384'') True None), (js ''ES512'', a (Some ''sha512'') True None),
       (js ''RS256'', a (Some ''sha256'') False None), (js ''RS384'', a (Some ''sha384'') False None), (js ''RS512'', a (Some ''sha512'') False None),
       (js ''PS256'', a (Some ''sha256'') False (Some 32)), (js ''PS384'', a (Some ''sha384'') False (Some 48)), (js ''PS512'', a (Some ''sha512'') False (Some 64))])"

text \<open>
  \<open>ALGS[header.alg]\<close> also finds what every object inherits; none of these has the three
  properties, so such a name verifies with the default digest of the key.
\<close>

definition inherited :: "jstr list" where
  "inherited = [js ''constructor'', js ''hasOwnProperty'', js ''isPrototypeOf'', js ''propertyIsEnumerable'', js ''toString'',
     js ''toLocaleString'', js ''valueOf'', js ''__proto__'', js ''__defineGetter__'', js ''__defineSetter__'',
     js ''__lookupGetter__'', js ''__lookupSetter__'']"

definition alg_named :: "jstr \<Rightarrow> jws_alg option" where
  "alg_named s = (case map_of algs s of Some a \<Rightarrow> Some a
     | None \<Rightarrow> if s \<in> set inherited then Some \<lparr>ja_hash = None, ja_ec = False, ja_pss = None\<rparr> else None)"

fun split_at :: "16 word \<Rightarrow> jstr \<Rightarrow> jstr list" where
  "split_at c [] = [[]]"
| "split_at c (u # s) = (if u = c then [] # split_at c s else case split_at c s of l # ls \<Rightarrow> (u # l) # ls | [] \<Rightarrow> [[u]])"

datatype oidc_error = OIssuer | OAudience | OExpired | OFuture | ONonce | ODomain | OGroup | OOther

definition verifyJws :: "oidc_env \<Rightarrow> jstr \<Rightarrow> json \<Rightarrow> oidc_error + json \<times> json" where
  "verifyJws X jwt jwk =
     (case split_at 0x2E jwt of
        [h, p, s] \<Rightarrow> (case oe_json X (oe_unb64u X h) of
            None \<Rightarrow> Inl OOther
          | Some hdr \<Rightarrow>
              (case (case field hdr ''alg'' of None \<Rightarrow> Some (js ''undefined'') | Some x \<Rightarrow> to_str (oe_js X) x) of
                 None \<Rightarrow> Inl OOther
               | Some al \<Rightarrow> (case alg_named al of
                   None \<Rightarrow> Inl OOther
                 | Some a \<Rightarrow>
                     if oe_verify X a jwk (utf8 (h @ [0x2E] @ p)) (oe_unb64u X s) \<noteq> Some True then Inl OOther
                     else (case oe_json X (oe_unb64u X p) of None \<Rightarrow> Inl OOther | Some payload \<Rightarrow> Inr (hdr, payload)))))
      | _ \<Rightarrow> Inl OOther)"

subsection \<open>The claims\<close>

definition num_lt :: "json option \<Rightarrow> rat \<Rightarrow> bool" where
  "num_lt v q = (case v of Some (JNum (Fin r)) \<Rightarrow> r < q | Some (JNum NegInf) \<Rightarrow> True | _ \<Rightarrow> False)"

definition num_gt :: "json option \<Rightarrow> rat \<Rightarrow> bool" where
  "num_gt v q = (case v of Some (JNum (Fin r)) \<Rightarrow> r > q | Some (JNum PosInf) \<Rightarrow> True | _ \<Rightarrow> False)"

definition ends_str :: "jstr \<Rightarrow> jstr \<Rightarrow> bool" where
  "ends_str s t = (length t \<le> length s \<and> drop (length s - length t) s = t)"

record claim_rules =
  cr_issuer :: jstr
  cr_clientId :: jstr
  cr_nonce :: jstr
  cr_allowDomain :: jstr
  cr_allowGroup :: jstr

text \<open>Reading from a payload that is null throws, as does every rule below.\<close>

definition checkClaims :: "oidc_env \<Rightarrow> json \<Rightarrow> claim_rules \<Rightarrow> int \<Rightarrow> oidc_error + json" where
  "checkClaims X p R now =
     (let t = now div 1000;
          aud = (case field p ''aud'' of Some (JArr xs) \<Rightarrow> map Some xs | v \<Rightarrow> [v]);
          email = (if is_str (field p ''email'') then oe_lower X (str_val (field p ''email'')) else []);
          byMail = (ends_str email (0x40 # oe_lower X (cr_allowDomain R)) \<and> field p ''email_verified'' \<noteq> Some (JBool False))
      in if p = JNull then Inl OOther
      else if field p ''iss'' \<noteq> Some (JStr (cr_issuer R)) then Inl OIssuer
      else if Some (JStr (cr_clientId R)) \<notin> set aud then Inl OAudience
      else if length aud > 1 \<and> field p ''azp'' \<noteq> None \<and> field p ''azp'' \<noteq> Some (JStr (cr_clientId R)) then Inl OAudience
      else if \<not> is_num (field p ''exp'') \<or> num_lt (field p ''exp'') (of_int (t - 60)) then Inl OExpired
      else if is_num (field p ''iat'') \<and> num_gt (field p ''iat'') (of_int (t + 300)) then Inl OFuture
      else if field p ''nonce'' \<noteq> Some (JStr (cr_nonce R)) then Inl ONonce
      else if cr_allowDomain R \<noteq> [] \<and> \<not> byMail \<and> field p ''hd'' \<noteq> Some (JStr (cr_allowDomain R)) then Inl ODomain
      else if cr_allowGroup R \<noteq> [] \<and> \<not> (case field p ''groups'' of Some (JArr gs) \<Rightarrow> JStr (cr_allowGroup R) \<in> set gs | _ \<Rightarrow> False)
        then Inl OGroup
      else Inr p)"

subsection \<open>The provider\<close>

record provider =
  pv_meta :: "(json \<times> int) option"
  pv_keys :: "(json \<times> int) option"

text \<open>What the provider's endpoints answer, \<open>None\<close> where a request fails or its body is no JSON.\<close>

record oidc_answers =
  oa_discovery :: "json option"
  oa_keys :: "json option"
  oa_keys_again :: "json option"
  oa_token :: "json option"

definition discovery :: "int \<Rightarrow> jstr \<Rightarrow> json option \<Rightarrow> provider \<Rightarrow> (oidc_error + json) \<times> provider" where
  "discovery t issuer ans P =
     (case pv_meta P of
        Some (m, at0) \<Rightarrow> if t - at0 < 3600000 then (Inr m, P) else
          (case ans of Some m' \<Rightarrow> if field m' ''issuer'' \<noteq> Some (JStr issuer) then (Inl OOther, P) else (Inr m', P\<lparr>pv_meta := Some (m', t)\<rparr>)
            | None \<Rightarrow> (Inl OOther, P))
      | None \<Rightarrow>
          (case ans of Some m' \<Rightarrow> if field m' ''issuer'' \<noteq> Some (JStr issuer) then (Inl OOther, P) else (Inr m', P\<lparr>pv_meta := Some (m', t)\<rparr>)
            | None \<Rightarrow> (Inl OOther, P)))"

text \<open>\<open>(await r.json()).keys ?? []\<close>; the description is asked for, and cached, before the keys.\<close>

definition keys_of :: "json \<Rightarrow> json" where
  "keys_of j = (case field j ''keys'' of None \<Rightarrow> JArr [] | Some JNull \<Rightarrow> JArr [] | Some k \<Rightarrow> k)"

definition truthy :: "json option \<Rightarrow> bool" where
  "truthy v = (case v of
     None \<Rightarrow> False | Some JNull \<Rightarrow> False | Some (JBool b) \<Rightarrow> b | Some (JNum n) \<Rightarrow> n \<noteq> Fin 0 \<and> n \<noteq> NaN
   | Some (JStr s) \<Rightarrow> s \<noteq> [] | Some _ \<Rightarrow> True)"

definition jwks :: "bool \<Rightarrow> int \<Rightarrow> jstr \<Rightarrow> json option \<Rightarrow> json option \<Rightarrow> provider \<Rightarrow> (oidc_error + json) \<times> provider" where
  "jwks force t issuer disc ans P =
     (let fetch_keys = (case discovery t issuer disc P of
            (Inl e, P') \<Rightarrow> (Inl e, P')
          | (Inr _, P') \<Rightarrow> (case ans of
              None \<Rightarrow> (Inl OOther, P')
            | Some j \<Rightarrow> if j = JNull then (Inl OOther, P') else (Inr (keys_of j), P'\<lparr>pv_keys := Some (keys_of j, t)\<rparr>)))
      in case pv_keys P of
           Some (ks, at0) \<Rightarrow>
             if truthy (Some ks) \<and> \<not> force \<and> t - at0 < 3600000 then (Inr ks, P)
             else if truthy (Some ks) \<and> force \<and> t - at0 < 60000 then (Inr ks, P) else fetch_keys
         | None \<Rightarrow> fetch_keys)"

text \<open>\<open>pick\<close>: \<open>None\<close> where the keys are no list, or one is null.\<close>

definition pick_keys :: "json \<Rightarrow> json \<Rightarrow> json list option" where
  "pick_keys ks hdr = (case ks of
     JArr l \<Rightarrow>
       if list_ex (\<lambda>k. k = JNull) l then None
       else Some (filter (\<lambda>k. (truthy (field hdr ''kid'') \<longrightarrow> field k ''kid'' = field hdr ''kid'')
         \<and> (truthy (field k ''use'') \<longrightarrow> field k ''use'' = Some (JStr (js ''sig'')))) l)
   | _ \<Rightarrow> None)"

definition first_verified :: "oidc_env \<Rightarrow> jstr \<Rightarrow> json list \<Rightarrow> json option" where
  "first_verified X jwt ks =
     (case find (\<lambda>k. is_ok (verifyJws X jwt k)) ks of
        None \<Rightarrow> None | Some k \<Rightarrow> (case verifyJws X jwt k of Inr (_, p) \<Rightarrow> Some p | Inl _ \<Rightarrow> None))"

definition verified_token ::
  "oidc_env \<Rightarrow> int \<Rightarrow> jstr \<Rightarrow> oidc_answers \<Rightarrow> jstr \<Rightarrow> json \<Rightarrow> provider \<Rightarrow> (oidc_error + json) \<times> provider" where
  "verified_token X t issuer A jwt hdr P =
     (case jwks False t issuer (oa_discovery A) (oa_keys A) P of
        (Inl e, P1) \<Rightarrow> (Inl e, P1)
      | (Inr ks, P1) \<Rightarrow> (case pick_keys ks hdr of
          None \<Rightarrow> (Inl OOther, P1)
        | Some l \<Rightarrow> (case first_verified X jwt l of
            Some p \<Rightarrow> (Inr p, P1)
          | None \<Rightarrow> (case jwks True t issuer (oa_discovery A) (oa_keys_again A) P1 of
              (Inl e, P2) \<Rightarrow> (Inl e, P2)
            | (Inr ks', P2) \<Rightarrow> (case pick_keys ks' hdr of
                None \<Rightarrow> (Inl OOther, P2)
              | Some l' \<Rightarrow> (case first_verified X jwt l' of Some p \<Rightarrow> (Inr p, P2) | None \<Rightarrow> (Inl OOther, P2)))))))"

text \<open>\<open>redeem\<close>: \<open>oa_token\<close> is the body of the token endpoint's answer, \<open>None\<close> where it is not ok.\<close>

definition redeem :: "oidc_env \<Rightarrow> int \<Rightarrow> claim_rules \<Rightarrow> oidc_answers \<Rightarrow> provider \<Rightarrow> (oidc_error + json) \<times> provider" where
  "redeem X t R A P =
     (case discovery t (cr_issuer R) (oa_discovery A) P of
        (Inl e, P1) \<Rightarrow> (Inl e, P1)
      | (Inr _, P1) \<Rightarrow>
          (case oa_token A of
             None \<Rightarrow> (Inl OOther, P1)
           | Some body \<Rightarrow>
               if \<not> is_str (field body ''id_token'') then (Inl OOther, P1)
               else
                 let jwt = str_val (field body ''id_token'') in
                 (case oe_json X (oe_unb64u X (hd (split_at 0x2E jwt))) of
                    None \<Rightarrow> (Inl OOther, P1)
                  | Some hdr \<Rightarrow>
                      if hdr = JNull then (Inl OOther, P1)
                      else (case verified_token X t (cr_issuer R) A jwt hdr P1 of
                        (Inl e, P2) \<Rightarrow> (Inl e, P2)
                      | (Inr p, P2) \<Rightarrow> (checkClaims X p R t, P2)))))"

subsection \<open>The request\<close>

definition oidc_begin :: "enroll_cfg \<Rightarrow> int \<Rightarrow> jstr \<Rightarrow> json \<Rightarrow> enroll \<Rightarrow> (enroll_reply + enroll_req) option \<times> enroll" where
  "oidc_begin E t ip body s =
     (if body = JNull then (None, s)
      else if ec_oidc E = None then (Some (Inl (Refuse 404 ''not-set-up'')), s)
      else if ipBlocked t ip s then (Some (Inl (Refuse 429 ''slow-down'')), s)
      else if \<not> (is_str (field body ''peerId'') \<and> is_str (field body ''nonce'') \<and> is_str (field body ''code'')
          \<and> is_str (field body ''verifier'') \<and> is_str (field body ''sig''))
        \<or> length (str_val (field body ''code'')) > 2048 \<or> length (str_val (field body ''verifier'')) > 128
        then (Some (Inl (Refuse 400 ''shape'')), s)
      else (case takeNonce t (str_val (field body ''nonce'')) s of (ok, s') \<Rightarrow>
        if \<not> ok then (Some (Inl (Refuse 400 ''challenge'')), s')
        else (Some (Inr \<lparr>rq_peer = str_val (field body ''peerId''), rq_nonce = str_val (field body ''nonce''),
          rq_code = str_val (field body ''code''), rq_sig = str_val (field body ''sig''), rq_label = field body ''label'',
          rq_ip = ip\<rparr>), s')))"

text \<open>After the signature: what the provider is asked to redeem, or the refusal.\<close>

definition oidc_signed :: "enroll_cfg \<Rightarrow> oidc_env \<Rightarrow> jstr \<Rightarrow> jstr \<Rightarrow> enroll_req \<Rightarrow> enroll_reply + claim_rules" where
  "oidc_signed E X issuer clientId q =
     (if \<not> signedBy E (rq_peer q) (enrollMessage (ec_networkId E) (rq_nonce q) (js ''oidc:'' @ rq_code q)) (rq_sig q)
      then Inl (Refuse 400 ''signature'')
      else Inr \<lparr>cr_issuer = issuer, cr_clientId = clientId,
        cr_nonce = oidcNonce X (ec_networkId E) (rq_nonce q) (rq_peer q),
        cr_allowDomain = (case ec_oidc E of None \<Rightarrow> [] | Some c \<Rightarrow> oc_allowDomain c),
        cr_allowGroup = (case ec_oidc E of None \<Rightarrow> [] | Some c \<Rightarrow> oc_allowGroup c)\<rparr>)"

text \<open>What is noted beside the device; \<open>None\<close> where a claim cannot be spelled.\<close>

definition record_tag :: "enroll_cfg \<Rightarrow> json \<Rightarrow> jstr option" where
  "record_tag E who =
     (let rc = (case ec_oidc E of None \<Rightarrow> [] | Some c \<Rightarrow> oc_record c);
          spell = (\<lambda>v. case v of None \<Rightarrow> Some (js ''undefined'') | Some x \<Rightarrow> to_str (ec_js E) x)
      in if rc = js ''email'' then
           (let v = (case field who ''email'' of None \<Rightarrow> field who ''sub'' | Some JNull \<Rightarrow> field who ''sub'' | x \<Rightarrow> x)
            in if truthy v then spell v else Some [])
         else if rc = js ''sub'' then map_option (\<lambda>x. js ''sub:'' @ x) (spell (field who ''sub''))
         else Some [])"

definition oidc_end :: "enroll_cfg \<Rightarrow> int \<Rightarrow> enroll_req \<Rightarrow> oidc_error + json \<Rightarrow> enroll \<Rightarrow> enroll_reply option \<times> enroll" where
  "oidc_end E t q r s = (case r of
     Inl e \<Rightarrow> (Some (Refuse 403 (case e of ODomain \<Rightarrow> ''domain'' | OGroup \<Rightarrow> ''group'' | _ \<Rightarrow> ''sign-in'')), failIp t (rq_ip q) s)
   | Inr who \<Rightarrow>
       (case (record_tag E who, str_or (ec_js E) [] (rq_label q)) of
          (Some tag, Some l) \<Rightarrow>
            (Some Enrolled, addToList E t (rq_peer q) (tag @ (if tag = [] \<or> l = [] then [] else [0x20]) @ l) s)
        | _ \<Rightarrow> (None, s)))"

end
