(* ===== verification/EnrollFacts.thy ===== *)
theory EnrollFacts
  imports Enroll
begin

section \<open>Seeds, PeerIds and the list (relay/enroll.mjs, relay/allowlist.mjs)\<close>

subsection \<open>Bits and base32\<close>

lemma length_bits [simp]: "length (bits_of k n) = k"
  by (induction k n rule: bits_of.induct) simp_all

lemma of_bits_snoc: "of_bits (bs @ [b]) = 2 * of_bits bs + (if b then 1 else 0)"
  by (simp add: of_bits_def)

lemma of_bits_of: "of_bits (bits_of k n) = n mod 2 ^ k"
proof (induction k n rule: bits_of.induct)
  case (1 n)
  then show ?case by (simp add: of_bits_def)
next
  case (2 k n)
  have "n mod 2 ^ Suc k = 2 * (n div 2 mod 2 ^ k) + n mod 2"
    using mod_mult2_eq [of n 2 "2 ^ k"] by simp
  then show ?case using 2 by (simp add: of_bits_snoc)
qed

lemma bits_of_bits: "bits_of (length bs) (of_bits bs) = bs"
  by (induction bs rule: rev_induct) (simp_all add: of_bits_snoc)

lemma of_bits_less: "of_bits bs < 2 ^ length bs"
  by (induction bs rule: rev_induct) (simp_all add: of_bits_snoc, simp add: of_bits_def)

lemma whole_groups_step: "0 < k \<Longrightarrow> length g = k \<Longrightarrow> whole_groups k (g @ bs) = g # whole_groups k bs"
  by (subst whole_groups.simps) simp

lemma whole_groups_concat:
  "0 < k \<Longrightarrow> \<forall>g\<in>set gs. length g = k \<Longrightarrow> whole_groups k (concat gs) = gs"
proof (induction gs)
  case Nil
  then show ?case by (subst whole_groups.simps) simp
next
  case (Cons g gs)
  then show ?case by (simp add: whole_groups_step)
qed

lemma concat_whole_groups: "0 < k \<Longrightarrow> k dvd length bs \<Longrightarrow> concat (whole_groups k bs) = bs"
proof (induction k bs rule: whole_groups.induct)
  case (1 k bs)
  show ?case
  proof (cases "length bs < k")
    case True
    then have "bs = []" using 1(3) by (auto dest: dvd_imp_le)
    then show ?thesis using 1(2) by (subst whole_groups.simps) simp
  next
    case False
    then have "k dvd length (drop k bs)" using 1(3) by (simp add: dvd_diff_nat)
    then have "concat (whole_groups k (drop k bs)) = drop k bs" using 1(1,2) False by simp
    then show ?thesis using 1(2) False by (subst whole_groups.simps) simp
  qed
qed

lemma whole_groups_len: "g \<in> set (whole_groups k bs) \<Longrightarrow> length g = k"
proof (induction k bs rule: whole_groups.induct)
  case (1 k bs)
  then show ?case by (subst (asm) (2) whole_groups.simps) (auto split: if_splits)
qed

lemma index_in_nth: "distinct xs \<Longrightarrow> i < length xs \<Longrightarrow> index_in xs (xs ! i) = Some i"
proof (induction xs arbitrary: i)
  case (Cons x xs)
  then show ?case by (cases i) auto
qed simp

lemma index_in_Some: "index_in xs y = Some i \<Longrightarrow> i < length xs \<and> xs ! i = y"
proof (induction xs arbitrary: i)
  case (Cons x xs)
  then show ?case by (cases i) (auto split: if_splits)
qed simp

lemma all_some_Some: "all_some xs = Some ys \<longleftrightarrow> xs = map Some ys"
proof (induction xs arbitrary: ys rule: all_some.induct)
  case (3 x xs)
  then show ?case by (cases ys) auto
qed (auto simp: Cons_eq_map_conv)

text \<open>
  A seed whose length is a multiple of five bytes reads back as it was written. Of any other
  length the last bits are not written at all.
\<close>

lemma seed_roundtrip:
  assumes "5 dvd length b" and "upper (toBase32 b) = toBase32 b"
  shows "fromBase32 upper (toBase32 b) = Some b"
proof -
  let ?bits = "concat (map (\<lambda>x. bits_of 8 (unat x)) b)"
  let ?gs = "whole_groups 5 ?bits"
  have B: "distinct B32U" "length B32U = 32" "0x3D \<notin> set B32U" by (simp_all add: B32U_def js_def)
  have len: "length ?bits = 8 * length b" by (induction b) simp_all
  have g: "length g = 5" "of_bits g < 32" if "g \<in> set ?gs" for g
    using whole_groups_len [OF that] of_bits_less [of g] by simp_all
  have "set (toBase32 b) \<subseteq> set B32U" using g B(2) by (auto simp: toBase32_def)
  then have "0x3D \<notin> set (toBase32 b)" using B(3) by blast
  then have np: "drop_padding (toBase32 b) = toBase32 b"
    by (cases "toBase32 b" rule: rev_cases) (auto simp: drop_padding_def)
  have "map (index_in B32U) (toBase32 b) = map Some (map of_bits ?gs)"
    using g B by (simp add: toBase32_def index_in_nth)
  then have vs: "all_some (map (index_in B32U) (toBase32 b)) = Some (map of_bits ?gs)" by (simp only: all_some_Some)
  have "map (bits_of 5) (map of_bits ?gs) = ?gs"
    using g(1) bits_of_bits by (metis (no_types, lifting) comp_apply list.map_comp map_idI)
  moreover have "concat ?gs = ?bits" using assms(1) len by (intro concat_whole_groups) (auto simp: dvd_mult)
  ultimately have c: "concat (map (bits_of 5) (map of_bits ?gs)) = ?bits" by simp
  have "whole_groups 8 ?bits = map (\<lambda>x. bits_of 8 (unat x)) b" by (rule whole_groups_concat) auto
  moreover have "word_of_nat (unat x mod 256) = x" for x :: byte using unat_byte_lt [of x] by simp
  ultimately have "map (\<lambda>g. word_of_nat (of_bits g)) (whole_groups 8 ?bits) = b"
    by (simp add: of_bits_of comp_def map_idI)
  then show ?thesis using np vs c assms(2) by (simp add: fromBase32_def)
qed

subsection \<open>A PeerId with an Ed25519 key has the form the list takes\<close>

lemma b58_num_snoc: "b58_num (vs @ [v]) = b58_num vs * 58 + v"
  by (simp add: b58_num_def)

lemma b58_num_bound: "\<forall>v\<in>set vs. v < 58 \<Longrightarrow> b58_num vs < 58 ^ length vs"
proof (induction vs rule: rev_induct)
  case Nil
  then show ?case by (simp add: b58_num_def)
next
  case (snoc v vs)
  then have "b58_num vs + 1 \<le> 58 ^ length vs" "v < 58" by simp_all
  then have "(b58_num vs + 1) * 58 \<le> 58 ^ length vs * 58" by (intro mult_le_mono1)
  then show ?case using \<open>v < 58\<close> by (simp add: b58_num_snoc)
qed

lemma b58_num_append: "b58_num (us @ vs) = b58_num us * 58 ^ length vs + b58_num vs"
proof (induction vs rule: rev_induct)
  case Nil
  then show ?case by (simp add: b58_num_def)
next
  case (snoc v vs)
  have "b58_num (us @ vs @ [v]) = b58_num ((us @ vs) @ [v])" by simp
  also have "\<dots> = b58_num (us @ vs) * 58 + v" by (rule b58_num_snoc)
  finally show ?case using snoc by (simp add: b58_num_snoc algebra_simps)
qed

lemma b58_num_zeros: "b58_num (replicate k 0 @ vs) = b58_num vs"
  by (induction k) (simp_all add: b58_num_def)

lemma b58_num_inj:
  "\<forall>v\<in>set us \<union> set vs. v < 58 \<Longrightarrow> length us = length vs \<Longrightarrow> b58_num us = b58_num vs \<Longrightarrow> us = vs"
proof (induction us arbitrary: vs rule: rev_induct)
  case (snoc u us)
  then obtain v ws where v: "vs = ws @ [v]" by (cases vs rule: rev_cases) auto
  have q: "b58_num us * 58 + u = b58_num ws * 58 + v" "u < 58" "v < 58" using snoc.prems v by (simp_all add: b58_num_snoc)
  have e: "u = v" "b58_num us = b58_num ws"
    using arg_cong [OF q(1), of "\<lambda>x. x mod 58"] arg_cong [OF q(1), of "\<lambda>x. x div 58"] q(2,3) by simp_all
  have "us = ws" by (rule snoc.IH) (use snoc.prems v e(2) in auto)
  then show ?case using v e(1) by simp
qed simp

lemma be_min_nz: "0 < n \<Longrightarrow> be_min n \<noteq> [] \<and> hd (be_min n) \<noteq> 0"
proof (induction n rule: be_min.induct)
  case (1 n)
  show ?case
  proof (cases "n div 256 = 0")
    case True
    then have "n < 256" "be_min n = [word_of_nat n]"
      using 1(2) by (simp_all add: be_min.simps [of n] be_min.simps [of 0])
    moreover have "unat (word_of_nat n :: byte) = n" using \<open>n < 256\<close> by (simp add: unat_of_nat)
    ultimately show ?thesis using 1(2) by auto
  next
    case False
    then have "be_min (n div 256) \<noteq> [] \<and> hd (be_min (n div 256)) \<noteq> 0" using 1 by simp
    moreover have "be_min n = be_min (n div 256) @ [word_of_nat (n mod 256)]"
      using 1(2) by (subst be_min.simps) simp
    ultimately show ?thesis by simp
  qed
qed

lemma be_min_dec: "be_dec (be_min n) = n"
proof (induction n rule: be_min.induct)
  case (1 n)
  have snoc: "be_dec (xs @ [x]) = be_dec xs * 256 + unat x" for xs x
    by (induction xs) (simp_all add: algebra_simps)
  show ?case
  proof (cases "n = 0")
    case True
    then show ?thesis by (simp add: be_min.simps)
  next
    case False
    then have "be_min n = be_min (n div 256) @ [word_of_nat (n mod 256)]" by (subst be_min.simps) simp
    then show ?thesis using 1 False by (simp add: snoc unat_of_nat)
  qed
qed

lemma B58_facts: "distinct B58" "length B58 = 58" "B58 ! 0 = 0x31" "\<forall>u\<in>set B58. base58_unit u"
proof -
  show "distinct B58" "length B58 = 58" "B58 ! 0 = 0x31" by (simp_all add: B58_def js_def)
  have "list_all base58_unit B58" by code_simp
  then show "\<forall>u\<in>set B58. base58_unit u" by (simp add: list_all_iff)
qed

definition prefix_digits :: "nat list" where "prefix_digits = [1, 12, 2, 18, 46, 46, 29]"

lemma prefix_digits: "b58_num prefix_digits = 45971276209" "map (\<lambda>v. B58 ! v) prefix_digits = js ''2D3KooW''"
  by (simp_all add: prefix_digits_def b58_num_def B58_def js_def)

lemma be_dec_head: "take 5 b = [0x24, 0x08, 0x01, 0x12, 0x20] \<Longrightarrow> length b = 37 \<Longrightarrow>
  0x2408011220 * 2 ^ 256 \<le> be_dec b \<and> be_dec b < (0x2408011220 + 1) * 2 ^ 256"
proof -
  assume a: "take 5 b = [0x24, 0x08, 0x01, 0x12, 0x20]" "length b = 37"
  define r where "r = drop 5 b"
  have b: "b = 0x24 # 0x08 # 0x01 # 0x12 # 0x20 # r"
    using a(1) append_take_drop_id [of 5 b] by (simp add: r_def)
  then have l: "length r = 32" using a(2) by simp
  have "(256 :: nat) ^ 32 = 2 ^ 256" by simp
  then have "be_dec r < 2 ^ 256" using be_dec_less [of r] l by metis
  moreover have "be_dec b = 0x2408011220 * 2 ^ 256 + be_dec r"
    unfolding b using l by simp
  ultimately show ?thesis by simp
qed

lemma between_powers:
  assumes "45971276209 * 58 ^ 44 \<le> n" and "n < (45971276209 + 1) * 58 ^ 44"
    and "vs \<noteq> []" and "hd vs \<noteq> 0" and "\<forall>v\<in>set vs. v < 58" and "n = b58_num vs"
  shows "length vs = 51" and "take 7 vs = prefix_digits"
proof -
  obtain v ws where v: "vs = v # ws" "0 < v" using assms(3,4) by (cases vs) auto
  have "b58_num vs = v * 58 ^ length ws + b58_num ws"
    using b58_num_append [of "[v]" ws] v(1) by (simp add: b58_num_def)
  moreover have "1 * 58 ^ length ws \<le> v * 58 ^ length ws" by (rule mult_le_mono1) (use v(2) in simp)
  ultimately have lo: "58 ^ length ws \<le> n" using assms(6) by linarith
  have hi: "n < 58 ^ length vs" using b58_num_bound [OF assms(5)] assms(6) by simp
  have "(58 :: nat) ^ 50 \<le> 45971276209 * 58 ^ 44" "(45971276209 + 1) * 58 ^ 44 \<le> (58 :: nat) ^ 51" by simp_all
  then have "(58 :: nat) ^ 50 < 58 ^ length vs" "(58 :: nat) ^ length ws < 58 ^ 51" using assms(1,2) lo hi by linarith+
  then have "50 < length vs" "length ws < 51"
    using power_strict_increasing_iff [of "58 :: nat" 50] power_strict_increasing_iff [of "58 :: nat" _ 51] by auto
  then show l: "length vs = 51" using v(1) by simp
  have "n = b58_num (take 7 vs) * 58 ^ 44 + b58_num (drop 7 vs)"
    using b58_num_append [of "take 7 vs" "drop 7 vs"] l assms(6) by simp
  moreover have "b58_num (drop 7 vs) < 58 ^ 44"
    using b58_num_bound [of "drop 7 vs"] assms(5) l by (auto dest: in_set_dropD)
  ultimately have "n div 58 ^ 44 = b58_num (take 7 vs)" by simp
  moreover have "n div 58 ^ 44 = 45971276209"
    using assms(1,2) by (intro div_nat_eqI) (simp_all add: mult.commute)
  ultimately have e: "b58_num (take 7 vs) = b58_num prefix_digits" by (simp add: prefix_digits(1))
  show "take 7 vs = prefix_digits"
  proof (rule b58_num_inj [OF _ _ e])
    show "\<forall>v\<in>set (take 7 vs) \<union> set prefix_digits. v < 58"
      using assms(5) by (auto simp: prefix_digits_def dest: in_set_takeD)
    show "length (take 7 vs) = length prefix_digits" using l by (simp add: prefix_digits_def)
  qed
qed

lemma key_of_peer_id:
  assumes "ed25519OfPeerId p = Some raw"
  shows "peer_id_text p"
proof -
  obtain b vs where b: "base58 p = Some b" "length b = 38" "take 6 b = ED_HEAD"
    and vs: "map (index_in B58) p = map Some vs" "b = map (\<lambda>_. 0) (takeWhile (\<lambda>u. u = 0x31) p) @ be_min (b58_num vs)"
    using assms by (auto simp: ed25519OfPeerId_def base58_def all_some_Some split: option.splits if_splits)
  have pv: "p = map ((!) B58) vs" "\<forall>v\<in>set vs. v < 58"
  proof -
    have "list_all2 (\<lambda>u v. index_in B58 u = Some v) p vs"
      using vs(1) by (simp add: list_all2_conv_all_nth list_eq_iff_nth_eq)
    then have "list_all2 (\<lambda>u v. u = B58 ! v \<and> v < 58) p vs"
      by (rule list_all2_mono) (use index_in_Some B58_facts(2) in fastforce)
    then show "p = map ((!) B58) vs" "\<forall>v\<in>set vs. v < 58"
      by (induction rule: list_all2_induct) simp_all
  qed
  define k where "k = length (takeWhile (\<lambda>u. u = 0x31) p)"
  define n where "n = b58_num vs"
  have bk: "b = replicate k 0 @ be_min n" using vs(2) by (simp add: k_def n_def map_replicate_const)
  have b01: "b ! 0 = 0" "b ! 1 = 0x24"
    using b(3) nth_take [of 0 6 b] nth_take [of 1 6 b] by (simp_all add: ED_HEAD_def)
  have n0: "0 < n"
  proof (rule ccontr)
    assume "\<not> 0 < n"
    then have "b = replicate k 0" using bk by (simp add: be_min.simps)
    then show False using b01(2) b(2) by simp
  qed
  have k1: "k = 1"
  proof -
    have "k \<noteq> 0" using be_min_nz [OF n0] b01(1) bk by (cases k) (auto simp: hd_conv_nth)
    moreover have "\<not> 2 \<le> k" using b01(2) bk by (auto simp: nth_append)
    ultimately show ?thesis by simp
  qed
  then have c: "b = 0 # be_min n" using bk by simp
  have "take 5 (be_min n) = [0x24, 0x08, 0x01, 0x12, 0x20]" "length (be_min n) = 37"
    using b(2,3) c by (simp_all add: ED_HEAD_def)
  from be_dec_head [OF this] have bnd: "0x2408011220 * 2 ^ 256 \<le> n" "n < (0x2408011220 + 1) * 2 ^ 256"
    by (simp_all only: be_min_dec)
  have "takeWhile (\<lambda>u. u = 0x31) p = [0x31]"
    using k1 set_takeWhileD [of _ "\<lambda>u. u = 0x31" p] unfolding k_def
    by (cases "takeWhile (\<lambda>u. u = 0x31) p") auto
  then obtain r where r: "p = 0x31 # r" "r = [] \<or> hd r \<noteq> 0x31"
    by (cases p) (auto split: if_splits simp: takeWhile_eq_Nil_iff)
  obtain v ws where w: "vs = v # ws" "B58 ! v = 0x31" "r = map ((!) B58) ws" using pv(1) r(1) by (cases vs) auto
  have "v = 0"
    using w(1,2) pv(2) B58_facts(1-3) nth_eq_iff_index_eq [of B58 v 0] by simp
  then have nw: "n = b58_num ws" using w(1) b58_num_zeros [of 1 ws] by (simp add: n_def)
  have ws0: "ws \<noteq> []" "hd ws \<noteq> 0"
  proof -
    show "ws \<noteq> []" using nw n0 by (auto simp: b58_num_def)
    then show "hd ws \<noteq> 0" using r(2) w(3) B58_facts(3) by (cases ws) (auto intro: gr0I)
  qed
  have "45971276209 * 58 ^ 44 \<le> n" "n < (45971276209 + 1) * 58 ^ 44"
  proof -
    have "45971276209 * 58 ^ 44 \<le> 0x2408011220 * (2 :: nat) ^ 256"
      "(0x2408011220 + 1) * (2 :: nat) ^ 256 \<le> (45971276209 + 1) * 58 ^ 44" by simp_all
    then show "45971276209 * 58 ^ 44 \<le> n" "n < (45971276209 + 1) * 58 ^ 44" using bnd by linarith+
  qed
  from between_powers [OF this ws0 _ nw] have t: "length ws = 51" "take 7 ws = prefix_digits"
    using pv(2) w(1) by simp_all
  have "take 8 p = 0x31 # map ((!) B58) (take 7 ws)" using r(1) w(3) by (simp add: take_map)
  then have "take 8 p = js ''12D3KooW''" using t(2) prefix_digits(2) by (simp add: js_def)
  moreover have "length p = 52" using r(1) w(3) t(1) by simp
  moreover have "list_all base58_unit (drop 8 p)"
    using pv B58_facts(2,4) by (auto simp: list_all_iff dest!: in_set_dropD)
  ultimately show ?thesis by (simp add: peer_id_text_def)
qed

end
