(* ===== verification/EnrollTheorems.thy ===== *)
theory EnrollTheorems
  imports EnrollFacts
begin

section \<open>Who gets on the list, and how often a code can be guessed (relay/enroll.mjs)\<close>

subsection \<open>The line that is written\<close>

lemma split_lines_append: "split_lines (a @ 0xA # b) = split_lines a @ split_lines b"
proof (induction a)
  case Nil
  then show ?case by simp
next
  case (Cons u a)
  have "split_lines a \<noteq> []" by (cases a) (auto split: list.splits)
  then show ?case using Cons by (cases "split_lines a") auto
qed

lemma split_lines_one: "0xA \<notin> set a \<Longrightarrow> split_lines a = [a]"
  by (induction a) auto

lemma parse_allow_append:
  "\<exists>j bad'. parse_allow i (xs @ ys) ids bad = parse_allow j ys (fst (parse_allow i xs ids bad)) bad'"
proof (induction xs arbitrary: i ids bad)
  case Nil
  then show ?case by auto
next
  case (Cons x xs)
  then show ?case by (simp add: Let_def)
qed

lemma allow_empty_line: "parse_allow i [[]] ids bad = (ids, bad)"
  by (simp add: no_comment_def trim_def Let_def)

lemma allow_nothing: "fst (parseAllowlist []) = []"
  by (simp add: parseAllowlist_def no_comment_def trim_def Let_def)

lemma parsed_ids_append:
  "set (fst (parseAllowlist (a @ 0xA # b))) = set (fst (parse_allow 0 (split_lines b) (fst (parseAllowlist a)) []))"
proof -
  have same: "fst (parse_allow j ls ids bad) = fst (parse_allow j' ls ids bad')" for j j' ls ids bad bad'
  proof (induction ls arbitrary: j j' ids bad bad')
    case (Cons l ls)
    show ?case by (auto simp: Let_def intro!: Cons.IH)
  qed simp
  obtain j bad' where "parse_allow 0 (split_lines a @ split_lines b) [] [] = parse_allow j (split_lines b) (fst (parseAllowlist a)) bad'"
    using parse_allow_append [of 0 "split_lines a" "split_lines b" "[]" "[]"] by (auto simp: parseAllowlist_def)
  then have "fst (parseAllowlist (a @ 0xA # b)) = fst (parse_allow j (split_lines b) (fst (parseAllowlist a)) bad')"
    by (simp add: parseAllowlist_def split_lines_append)
  also have "\<dots> = fst (parse_allow 0 (split_lines b) (fst (parseAllowlist a)) [])" by (rule same)
  finally show ?thesis by simp
qed

lemma first_word:
  assumes "s \<noteq> []" and "\<forall>u\<in>set s. \<not> white u" and "r = [] \<or> white (hd r)"
  shows "takeWhile (\<lambda>u. \<not> white u) (trim (s @ r)) = s" and "trim (s @ r) \<noteq> []"
proof -
  have d: "dropWhile white (s @ r) = s @ r" using assms(1,2) by (cases s) auto
  obtain x where x: "last s = x" "\<not> white x" using assms(1,2) by simp
  have t: "trim (s @ r) = s @ rev (dropWhile white (rev r))"
  proof (cases "dropWhile white (rev r) = []")
    case True
    then have "\<forall>u\<in>set r. white u" by (simp add: dropWhile_eq_Nil_conv)
    then have "dropWhile white (rev r @ rev s) = dropWhile white (rev s)" by (intro dropWhile_append2) auto
    moreover have "dropWhile white (rev s) = rev s" using assms(1,2) by (cases s rule: rev_cases) auto
    ultimately show ?thesis using True d by (simp add: trim_def)
  next
    case False
    then have "\<exists>u\<in>set r. \<not> white u" by (simp add: dropWhile_eq_Nil_conv)
    then obtain u where "u \<in> set (rev r)" "\<not> white u" by auto
    then have "dropWhile white (rev r @ rev s) = dropWhile white (rev r) @ rev s" by (rule dropWhile_append1)
    then show ?thesis using d by (simp add: trim_def)
  qed
  have h: "rev (dropWhile white (rev r)) = [] \<or> white (hd (rev (dropWhile white (rev r))))"
  proof (cases "dropWhile white (rev r) = []")
    case False
    obtain pre where "rev r = pre @ dropWhile white (rev r)" by (metis takeWhile_dropWhile_id)
    then have "r = rev (dropWhile white (rev r)) @ rev pre" by (metis rev_append rev_rev_ident)
    then have "hd r = hd (rev (dropWhile white (rev r)))" using False by (metis hd_append2 rev_is_Nil_conv)
    moreover have "r \<noteq> []" using False by auto
    ultimately show ?thesis using assms(3) by simp
  qed simp
  have g: "q = [] \<or> white (hd q) \<Longrightarrow> takeWhile (\<lambda>u. \<not> white u) (s @ q) = s" for q
    using assms(2) by (cases q) (simp_all add: takeWhile_append2)
  show "takeWhile (\<lambda>u. \<not> white u) (trim (s @ r)) = s" unfolding t by (rule g [OF h])
  show "trim (s @ r) \<noteq> []" unfolding t using assms(1) by simp
qed

lemma peer_id_plain: "peer_id_text p \<Longrightarrow> p \<noteq> [] \<and> (\<forall>u\<in>set p. \<not> white u \<and> u \<noteq> 0xA \<and> u \<noteq> 0x23)"
proof -
  assume p: "peer_id_text p"
  have b: "base58_unit u \<Longrightarrow> \<not> white u \<and> u \<noteq> 0xA \<and> u \<noteq> 0x23" for u
    unfolding base58_unit_def white_def by (auto simp: word_le_nat_alt)
  have "list_all base58_unit (js ''12D3KooW'')" by code_simp
  then have "list_all base58_unit (take 8 p @ drop 8 p)" using p by (simp add: peer_id_text_def)
  then have "list_all base58_unit p" by (simp only: append_take_drop_id)
  then show ?thesis using p b by (auto simp: list_all_iff peer_id_text_def)
qed

text \<open>What the Unicode classes and the spelling of a date never contain.\<close>

definition plain_platform :: "enroll_cfg \<Rightarrow> bool" where
  "plain_platform E \<longleftrightarrow> (\<forall>p. ec_word_point E p \<longrightarrow> 0xA \<notin> set p) \<and> (\<forall>t. 0xA \<notin> set (ec_iso E t))"

lemma clean_label_plain: "plain_platform E \<Longrightarrow> 0xA \<notin> set (clean_label E s)"
  by (auto simp: clean_label_def plain_platform_def js_def dest!: in_set_takeD)

lemma line_parsed:
  assumes "plain_platform E" and "peer_id_text p"
  shows "set (fst (parse_allow i (split_lines (list_line E t p (clean_label E l))) ids bad)) = insert p (set ids)"
proof -
  define r where "r = js '' '' @ (if clean_label E l = [] then [] else clean_label E l @ js '' '') @ js ''# enrolled '' @ ec_iso E t"
  have r: "list_line E t p (clean_label E l) = (p @ r) @ [0xA]" "0xA \<notin> set r" "hd r = 0x20"
    using assms(1) clean_label_plain [OF assms(1), of l] by (auto simp: list_line_def r_def js_def plain_platform_def)
  have p: "p \<noteq> []" "\<forall>u\<in>set p. \<not> white u" "\<forall>u\<in>set p. u \<noteq> 0xA" "\<forall>u\<in>set p. u \<noteq> 0x23"
    using peer_id_plain [OF assms(2)] by auto
  have s: "split_lines (list_line E t p (clean_label E l)) = [p @ r, []]"
    using split_lines_append [of "p @ r" "[]"] split_lines_one [of "p @ r"] p(3) r(1,2) by auto
  obtain r' where r': "no_comment (p @ r) = p @ r'" "r' = [] \<or> white (hd r')"
  proof -
    obtain x where x: "r = 0x20 # x" using r(3) by (cases r) (auto simp: r_def js_def)
    have "takeWhile (\<lambda>u. u \<noteq> 0x23) (p @ r) = p @ takeWhile (\<lambda>u. u \<noteq> 0x23) r"
      "dropWhile (\<lambda>u. u \<noteq> 0x23) (p @ r) = dropWhile (\<lambda>u. u \<noteq> 0x23) r"
      using p(4) by (simp_all add: takeWhile_append2 dropWhile_append2)
    then have "no_comment (p @ r) = p @ (0x20 # takeWhile (\<lambda>u. u \<noteq> 0x23) x @ dropWhile (\<lambda>u. \<not> line_end u) (dropWhile (\<lambda>u. u \<noteq> 0x23) x))"
      by (simp add: no_comment_def x)
    then show thesis using that by (simp add: white_def)
  qed
  from first_word [OF p(1,2) r'(2)] have
    "takeWhile (\<lambda>u. \<not> white u) (trim (no_comment (p @ r))) = p" "trim (no_comment (p @ r)) \<noteq> []" using r'(1) by simp_all
  then show ?thesis unfolding s using assms(2) by (simp add: Let_def no_comment_def [of "[]"] trim_def [of "[]"])
qed

lemma listed_added:
  assumes "plain_platform E" and "peer_id_text p"
  shows "set (listed (addToList E t p l s)) = insert p (set (listed s))"
proof (cases "p \<in> set (listed s)")
  case True
  then show ?thesis by (auto simp: addToList_def)
next
  case False
  define tx where "tx = (case en_list s of None \<Rightarrow> [] | Some x \<Rightarrow> x)"
  let ?line = "list_line E t p (clean_label E l)"
  have ids: "set (listed s) = set (fst (parseAllowlist tx))"
    by (simp add: listed_def tx_def allow_nothing split: option.split)
  have new: "listed (addToList E t p l s) = fst (parseAllowlist ((if tx \<noteq> [] \<and> last tx \<noteq> 0xA then tx @ [0xA] else tx) @ ?line))"
  proof -
    have "en_list (addToList E t p l s) = Some ((if tx \<noteq> [] \<and> last tx \<noteq> 0xA then tx @ [0xA] else tx) @ ?line)"
      using False by (simp add: addToList_def tx_def Let_def)
    then show ?thesis by (simp only: listed_def option.case)
  qed
  show ?thesis
  proof (cases "tx = []")
    case True
    then have "listed (addToList E t p l s) = fst (parse_allow 0 (split_lines ?line) [] [])"
      using new by (simp add: parseAllowlist_def)
    then show ?thesis using line_parsed [OF assms, of 0 t l "[]" "[]"] ids True by (simp add: allow_nothing)
  next
    case ne: False
    obtain a where a: "(if tx \<noteq> [] \<and> last tx \<noteq> 0xA then tx @ [0xA] else tx) = a @ [0xA]"
      "set (fst (parseAllowlist a)) = set (fst (parseAllowlist tx))"
    proof (cases "last tx = 0xA")
      case True
      then have b: "tx = butlast tx @ [0xA]" using ne by (metis append_butlast_last_id)
      have "set (fst (parseAllowlist (butlast tx @ 0xA # []))) = set (fst (parse_allow 0 (split_lines []) (fst (parseAllowlist (butlast tx))) []))"
        by (rule parsed_ids_append)
      then have e: "set (fst (parseAllowlist (butlast tx))) = set (fst (parseAllowlist tx))"
        using b by (simp only: split_lines.simps allow_empty_line fst_conv)
      show thesis by (rule that [OF _ e]) (use b True in simp)
    next
      case False
      then show thesis using that [of tx] ne by simp
    qed
    have "set (listed (addToList E t p l s)) = set (fst (parse_allow 0 (split_lines ?line) (fst (parseAllowlist a)) []))"
      unfolding new a(1) using parsed_ids_append [of a ?line] by simp
    then show ?thesis using line_parsed [OF assms] a(2) ids by simp
  qed
qed

subsection \<open>One request\<close>

lemma match_window: "totpMatch E key code t = Some c \<Longrightarrow> totpAt E key c = code \<and> window t - 1 \<le> c \<and> c \<le> window t + 1"
  by (auto simp: totpMatch_def split: if_splits)

lemma enroll_end_list:
  assumes "enroll_end E t q s = (r, s')" and "r \<noteq> Some Enrolled"
  shows "en_list s' = en_list s"
  using assms by (auto simp: enroll_end_def fail_code_def Let_def split: if_splits option.splits)

lemma enrolled_cases:
  assumes "enroll_end E t q s = (Some Enrolled, s')"
  obtains key c l where "signedBy E (rq_peer q) (enrollMessage (ec_networkId E) (rq_nonce q) (rq_code q)) (rq_sig q)"
    "seed_key E s = Some key" "totpMatch E key (rq_code q) t = Some c" "\<not> jm_has (en_used s) (c, rq_code q)"
    "s' = addToList E t (rq_peer q) l (s\<lparr>en_used := jm_set (c, rq_code q) (t + 3 * STEP_S * 1000) (en_used s)\<rparr>)"
  using assms by (auto simp: enroll_end_def Let_def split: if_splits option.splits)

text \<open>
  C16: a device is put on the list only if its own key signed this network, this challenge and this
  code, and the code is the administrator's for the current half minute or one either side, not
  used before; then the list the relay reads has exactly this PeerId more, whatever label came
  with it, and any other outcome leaves the list as it was.
\<close>

theorem enrolled_for_reason:
  assumes "plain_platform E" and "enroll_end E t q s = (r, s')"
  shows "if r = Some Enrolled
    then \<exists>raw key c. ed25519OfPeerId (rq_peer q) = Some raw
      \<and> ec_verify E (enrollMessage (ec_networkId E) (rq_nonce q) (rq_code q)) raw (ec_unb64 E (rq_sig q))
      \<and> seed_key E s = Some key \<and> totpAt E key c = rq_code q \<and> \<bar>c - window t\<bar> \<le> 1 \<and> \<not> jm_has (en_used s) (c, rq_code q)
      \<and> set (listed s') = insert (rq_peer q) (set (listed s))
    else en_list s' = en_list s"
proof (cases "r = Some Enrolled")
  case True
  obtain key c l where e: "signedBy E (rq_peer q) (enrollMessage (ec_networkId E) (rq_nonce q) (rq_code q)) (rq_sig q)"
    "seed_key E s = Some key" "totpMatch E key (rq_code q) t = Some c" "\<not> jm_has (en_used s) (c, rq_code q)"
    "s' = addToList E t (rq_peer q) l (s\<lparr>en_used := jm_set (c, rq_code q) (t + 3 * STEP_S * 1000) (en_used s)\<rparr>)"
    by (rule enrolled_cases [OF assms(2) [unfolded True]])
  obtain raw where raw: "ed25519OfPeerId (rq_peer q) = Some raw"
    "ec_verify E (enrollMessage (ec_networkId E) (rq_nonce q) (rq_code q)) raw (ec_unb64 E (rq_sig q))"
    using e(1) by (auto simp: signedBy_def split: option.splits)
  have "set (listed s') = insert (rq_peer q) (set (listed s))"
    using listed_added [OF assms(1) key_of_peer_id [OF raw(1)]] by (simp add: e(5) listed_def [of "s\<lparr>en_used := _\<rparr>"] listed_def [of s])
  moreover have "\<bar>c - window t\<bar> \<le> 1" "totpAt E key c = rq_code q" using match_window [OF e(3)] by auto
  ultimately show ?thesis using True raw e(2,4) by simp blast
next
  case False
  then show ?thesis using enroll_end_list [OF assms(2)] by simp
qed

subsection \<open>Requests that overlap\<close>

text \<open>
  The service under any sequence of requests, ends of requests, edits of its files by the
  administrator and restarts. What a restart keeps is on disk; an exception nobody catches ends
  the process, which is started again. \<open>sy_log\<close> lists what was admitted, with the window the code
  belonged to.
\<close>

record en_sys =
  sy_service :: enroll
  sy_pending :: "(nat, enroll_req) jmap"
  sy_log :: "(int \<times> enroll_req) list"
  sy_starts :: nat

datatype en_ev =
    EvChallenge jstr jstr
  | EvBegin nat jstr json
  | EvEnd nat
  | EvStatus json
  | EvUnlock
  | EvSeed "jstr option"
  | EvList "jstr option"
  | EvRestart

definition restarted :: "en_sys \<Rightarrow> en_sys" where
  "restarted S = S\<lparr>sy_service := (sy_service S)\<lparr>en_nonces := [], en_used := [], en_perIp := []\<rparr>, sy_pending := [],
     sy_starts := Suc (sy_starts S)\<rparr>"

definition code_window :: "enroll_cfg \<Rightarrow> int \<Rightarrow> enroll_req \<Rightarrow> enroll \<Rightarrow> int" where
  "code_window E t q s = (case seed_key E s of None \<Rightarrow> 0
     | Some key \<Rightarrow> (case totpMatch E key (rq_code q) t of None \<Rightarrow> 0 | Some c \<Rightarrow> c))"

definition ended :: "enroll_cfg \<Rightarrow> int \<Rightarrow> nat \<Rightarrow> enroll_req \<Rightarrow> en_sys \<Rightarrow> en_sys" where
  "ended E t i q S = (case enroll_end E t q (sy_service S) of (r, s') \<Rightarrow>
     (case r of
        None \<Rightarrow> restarted (S\<lparr>sy_service := s'\<rparr>)
      | Some a \<Rightarrow> S\<lparr>sy_service := s', sy_pending := jm_del i (sy_pending S),
          sy_log := (if a = Enrolled then sy_log S @ [(code_window E t q (sy_service S), q)] else sy_log S)\<rparr>))"

definition en_do :: "enroll_cfg \<Rightarrow> int \<times> en_ev \<Rightarrow> en_sys \<Rightarrow> en_sys" where
  "en_do E te S = (case te of (t, ev) \<Rightarrow> (case ev of
     EvChallenge kind n \<Rightarrow> S\<lparr>sy_service := challenge E t kind n (sy_service S)\<rparr>
   | EvBegin i ip body \<Rightarrow> (case enroll_begin t ip body (sy_service S) of
        (None, s') \<Rightarrow> restarted S
      | (Some (Inl _), s') \<Rightarrow> S\<lparr>sy_service := s'\<rparr>
      | (Some (Inr q), s') \<Rightarrow> S\<lparr>sy_service := s', sy_pending := jm_set i q (sy_pending S)\<rparr>)
   | EvEnd i \<Rightarrow> (case jm_get (sy_pending S) i of None \<Rightarrow> S | Some q \<Rightarrow> ended E t i q S)
   | EvStatus body \<Rightarrow> (case status_begin t body (sy_service S) of
        (None, s') \<Rightarrow> restarted S | (Some _, s') \<Rightarrow> S\<lparr>sy_service := s'\<rparr>)
   | EvUnlock \<Rightarrow> S\<lparr>sy_service := unlock (sy_service S)\<rparr>
   | EvSeed x \<Rightarrow> S\<lparr>sy_service := (sy_service S)\<lparr>en_seed := x\<rparr>\<rparr>
   | EvList x \<Rightarrow> S\<lparr>sy_service := (sy_service S)\<lparr>en_list := x\<rparr>\<rparr>
   | EvRestart \<Rightarrow> restarted S))"

definition en_run :: "enroll_cfg \<Rightarrow> (int \<times> en_ev) list \<Rightarrow> en_sys \<Rightarrow> en_sys" where
  "en_run E evs S = fold (en_do E) evs S"

text \<open>
  Each code admitted is still remembered, or its half minutes are over. \<open>T\<close> is the last clock.
\<close>

definition codes_held :: "int \<Rightarrow> en_sys \<Rightarrow> bool" where
  "codes_held T S \<longleftrightarrow> jm_inv (en_used (sy_service S)) \<and> distinct (map (\<lambda>(c, q). (c, rq_code q)) (sy_log S))
     \<and> (\<forall>(c, q)\<in>set (sy_log S).
          30000 * (c + 2) \<le> T \<or> (\<exists>e. jm_get (en_used (sy_service S)) (c, rq_code q) = Some e \<and> 30000 * (c + 2) \<le> e))"

lemma sweep_keeps:
  assumes "codes_held T S" and "T \<le> t"
  shows "codes_held t (S\<lparr>sy_service := sweep_enroll t (sy_service S)\<rparr>)"
proof -
  let ?u = "en_used (sy_service S)"
  have inv: "jm_inv ?u" using assms(1) by (simp add: codes_held_def)
  have get: "jm_get (filter (\<lambda>p. \<not> snd p < t) ?u) k = Some e" if "jm_get ?u k = Some e" "t \<le> e" for k e
    using that inv by (auto simp: jm_get_iff_mem)
  have "30000 * (c + 2) \<le> t \<or> (\<exists>e. jm_get (filter (\<lambda>p. \<not> snd p < t) ?u) (c, rq_code q) = Some e \<and> 30000 * (c + 2) \<le> e)"
    if "(c, q) \<in> set (sy_log S)" for c q
  proof -
    have "30000 * (c + 2) \<le> T \<or> (\<exists>e. jm_get ?u (c, rq_code q) = Some e \<and> 30000 * (c + 2) \<le> e)"
      using assms(1) that by (auto simp: codes_held_def)
    then show ?thesis
    proof
      assume "\<exists>e. jm_get ?u (c, rq_code q) = Some e \<and> 30000 * (c + 2) \<le> e"
      then obtain e where e: "jm_get ?u (c, rq_code q) = Some e" "30000 * (c + 2) \<le> e" by blast
      show ?thesis
      proof (cases "t \<le> e")
        case True
        then show ?thesis using get [OF e(1)] e(2) by blast
      qed (use e(2) in simp)
    qed (use assms(2) in simp)
  qed
  then show ?thesis using assms(1) inv by (auto simp: codes_held_def sweep_enroll_def)
qed

lemma codes_held_mono: "codes_held T S \<Longrightarrow> T \<le> t \<Longrightarrow> codes_held t S"
  unfolding codes_held_def by (intro conjI) (simp, simp, fastforce)

lemma codes_held_cong:
  "codes_held T S \<Longrightarrow> en_used (sy_service S') = en_used (sy_service S) \<Longrightarrow> sy_log S' = sy_log S \<Longrightarrow> codes_held T S'"
  by (simp add: codes_held_def)

lemma window_bounds: "30000 * window t \<le> t" "t < 30000 * (window t + 1)"
  by (simp_all add: window_def STEP_S_def)

lemma added_used: "en_used (addToList E t p l s) = en_used s"
  by (simp add: addToList_def Let_def)

lemma take_used: "en_used (snd (takeNonce t n s)) = en_used (sweep_enroll t s)"
  by (simp add: takeNonce_def Let_def)

lemma begin_used:
  "enroll_begin t ip body s = (r, s') \<Longrightarrow> en_used s' = en_used s \<or> en_used s' = en_used (sweep_enroll t s)"
  using take_used [of t "str_val (field body ''nonce'')" s]
  by (auto simp: enroll_begin_def split: if_splits prod.splits)

lemma status_used:
  "status_begin t body s = (r, s') \<Longrightarrow> en_used s' = en_used s \<or> en_used s' = en_used (sweep_enroll t s)"
  using take_used [of t "str_val (field body ''nonce'')" s]
  by (auto simp: status_begin_def split: if_splits prod.splits)

lemma swept_codes:
  assumes "codes_held T S" and "T \<le> t" and "en_used (sy_service S') = en_used (sy_service S) \<or> en_used (sy_service S') = en_used (sweep_enroll t (sy_service S))"
    and "sy_log S' = sy_log S"
  shows "codes_held t S'"
  using assms(3)
proof
  assume "en_used (sy_service S') = en_used (sy_service S)"
  then show ?thesis using codes_held_cong [OF codes_held_mono [OF assms(1,2)]] assms(4) by blast
next
  assume "en_used (sy_service S') = en_used (sweep_enroll t (sy_service S))"
  then show ?thesis using codes_held_cong [OF sweep_keeps [OF assms(1,2)], of S'] assms(4) by simp
qed

lemma refused_used:
  assumes "enroll_end E t q s = (Some a, s')" and "a \<noteq> Enrolled"
  shows "en_used s' = en_used s"
  using assms by (auto simp: enroll_end_def fail_code_def Let_def split: if_splits option.splits)

lemma ended_codes:
  assumes "codes_held T S" and "T \<le> t" and "sy_starts (ended E t i q S) = sy_starts S"
  shows "codes_held t (ended E t i q S)"
proof -
  obtain r s' where e: "enroll_end E t q (sy_service S) = (r, s')" by (cases "enroll_end E t q (sy_service S)")
  have "r \<noteq> None" using assms(3) e by (cases r) (auto simp: ended_def restarted_def)
  then obtain a where a: "r = Some a" by blast
  note h = codes_held_mono [OF assms(1,2)]
  show ?thesis
  proof (cases "a = Enrolled")
    case False
    then show ?thesis using codes_held_cong [OF h, of "ended E t i q S"] refused_used e a by (simp add: ended_def)
  next
    case True
    obtain key c l where k: "seed_key E (sy_service S) = Some key" "totpMatch E key (rq_code q) t = Some c"
      "\<not> jm_has (en_used (sy_service S)) (c, rq_code q)"
      "s' = addToList E t (rq_peer q) l ((sy_service S)\<lparr>en_used := jm_set (c, rq_code q) (t + 3 * STEP_S * 1000) (en_used (sy_service S))\<rparr>)"
      by (rule enrolled_cases [OF e [unfolded a True]])
    have w: "window t \<le> c + 1" "c \<le> window t + 1" using match_window [OF k(2)] by auto
    have lt: "t < 30000 * (c + 2)" 
    proof -
      have "30000 * (window t + 1) \<le> 30000 * (c + 2)" using w(1) by simp
      then show ?thesis using window_bounds(2) [of t] by simp
    qed
    have ge: "30000 * (c + 2) \<le> t + 3 * STEP_S * 1000" using window_bounds(1) [of t] w(2) by (simp add: STEP_S_def)
    have none: "jm_get (en_used (sy_service S)) (c, rq_code q) = None" using k(3) by (simp add: jm_has_def)
    have new: "(c, rq_code q) \<notin> set (map (\<lambda>(c, q). (c, rq_code q)) (sy_log S))"
    proof
      assume "(c, rq_code q) \<in> set (map (\<lambda>(c, q). (c, rq_code q)) (sy_log S))"
      then obtain q0 where "(c, q0) \<in> set (sy_log S)" "rq_code q0 = rq_code q" by auto
      then show False using h lt none by (force simp: codes_held_def)
    qed
    have u: "en_used s' = jm_set (c, rq_code q) (t + 3 * STEP_S * 1000) (en_used (sy_service S))" by (simp add: k(4) added_used)
    have "ended E t i q S = S\<lparr>sy_service := s', sy_pending := jm_del i (sy_pending S), sy_log := sy_log S @ [(c, q)]\<rparr>"
      by (simp add: ended_def e a True code_window_def k(1,2))
    moreover have "codes_held t (S\<lparr>sy_service := s', sy_pending := jm_del i (sy_pending S), sy_log := sy_log S @ [(c, q)]\<rparr>)"
      using h new ge unfolding codes_held_def by (auto simp: u jm_get_set)
    ultimately show ?thesis by simp
  qed
qed

lemma step_codes:
  assumes "codes_held T S" and "T \<le> t" and "sy_starts (en_do E (t, ev) S) = sy_starts S"
  shows "codes_held t (en_do E (t, ev) S)"
proof (cases ev)
  case (EvChallenge kind n)
  then show ?thesis by (intro swept_codes [OF assms(1,2)]) (simp_all add: en_do_def challenge_def Let_def)
next
  case (EvBegin i ip body)
  obtain r s' where b: "enroll_begin t ip body (sy_service S) = (r, s')" by (cases "enroll_begin t ip body (sy_service S)")
  have "r \<noteq> None" using assms(3) EvBegin b by (cases r) (auto simp: en_do_def restarted_def)
  then show ?thesis using EvBegin b begin_used [OF b]
    by (intro swept_codes [OF assms(1,2)]) (auto simp: en_do_def split: sum.splits)
next
  case (EvEnd i)
  show ?thesis
  proof (cases "jm_get (sy_pending S) i")
    case None
    then show ?thesis using EvEnd codes_held_mono [OF assms(1,2)] by (simp add: en_do_def)
  next
    case (Some q)
    then show ?thesis using EvEnd assms ended_codes [OF assms(1,2), of E i q] by (simp add: en_do_def)
  qed
next
  case (EvStatus body)
  obtain r s' where b: "status_begin t body (sy_service S) = (r, s')" by (cases "status_begin t body (sy_service S)")
  have "r \<noteq> None" using assms(3) EvStatus b by (cases r) (auto simp: en_do_def restarted_def)
  then show ?thesis using EvStatus b status_used [OF b]
    by (intro swept_codes [OF assms(1,2)]) (auto simp: en_do_def)
next
  case EvRestart
  then show ?thesis using assms(3) by (simp add: en_do_def restarted_def)
qed (use codes_held_cong [OF codes_held_mono [OF assms(1,2)]] in \<open>simp_all add: en_do_def unlock_def\<close>)

lemma starts_step: "sy_starts S \<le> sy_starts (en_do E te S)"
  by (cases te) (auto simp: en_do_def restarted_def ended_def split: en_ev.split option.split prod.split sum.split)

lemma starts_run: "sy_starts S \<le> sy_starts (en_run E evs S)"
proof (induction evs arbitrary: S)
  case (Cons te evs)
  then show ?case using starts_step [of S E te] by (simp add: en_run_def) (meson order_trans)
qed (simp add: en_run_def)

lemma run_codes:
  assumes "codes_held T S" and "sorted (T # map fst evs)" and "sy_starts (en_run E evs S) = sy_starts S"
  shows "\<exists>T'. codes_held T' (en_run E evs S)"
  using assms
proof (induction evs arbitrary: T S)
  case Nil
  then show ?case by (auto simp: en_run_def)
next
  case (Cons te evs)
  obtain t ev where te: "te = (t, ev)" by (cases te)
  have r: "en_run E (te # evs) S = en_run E evs (en_do E te S)" by (simp add: en_run_def)
  have s: "sy_starts (en_do E te S) = sy_starts S"
    using starts_step [of S E te] starts_run [of "en_do E te S" E evs] Cons.prems(3) r by simp
  have "codes_held t (en_do E te S)" using step_codes [OF Cons.prems(1), of t E ev] Cons.prems(2) s te by simp
  from Cons.IH [OF this] show ?case using Cons.prems(2,3) s r te by simp
qed

definition fresh_service :: "enroll \<Rightarrow> bool" where
  "fresh_service s = (en_nonces s = [] \<and> en_used s = [] \<and> en_perIp s = [])"

text \<open>
  C15: a code admits one device. In any run of the service, however requests overlap, whatever the
  administrator does to the seed, the list and the lock meanwhile, no two admissions rest on the
  same code of the same half minute, as long as the clock does not go back and the process is not
  restarted.
\<close>

theorem code_admits_one_device:
  assumes "fresh_service (sy_service S)" and "sy_log S = []" and "sorted (map fst evs)"
    and "sy_starts (en_run E evs S) = sy_starts S"
  shows "distinct (map (\<lambda>(c, q). (c, rq_code q)) (sy_log (en_run E evs S)))"
proof (cases evs)
  case Nil
  then show ?thesis using assms(2) by (simp add: en_run_def)
next
  case (Cons te es)
  have "codes_held (fst te) S" using assms(1,2) by (simp add: codes_held_def fresh_service_def)
  moreover have "sorted (fst te # map fst evs)" using assms(3) Cons by simp
  ultimately obtain T' where "codes_held T' (en_run E evs S)" using run_codes assms(4) by blast
  then show ?thesis by (simp add: codes_held_def)
qed

subsection \<open>Guessing\<close>

definition guard_holds :: "nat \<Rightarrow> en_sys \<Rightarrow> bool" where
  "guard_holds m S \<longleftrightarrow>
     (if en_locked (sy_service S) then LOCK_AFTER \<le> en_failures (sy_service S)
        \<and> en_failures (sy_service S) + length (sy_pending S) < LOCK_AFTER + m
      else en_failures (sy_service S) < LOCK_AFTER)"

lemma length_jm_del_less: "jm_get m k = Some v \<Longrightarrow> length (jm_del k m) < length m"
  using jm_get_Some_mem [of m k v] by (auto simp: jm_del_def intro!: length_filter_less)

lemma take_guard:
  "en_locked (snd (takeNonce t n s)) = en_locked s" "en_failures (snd (takeNonce t n s)) = en_failures s"
  by (simp_all add: takeNonce_def sweep_enroll_def Let_def)

lemma begin_guard:
  assumes "enroll_begin t ip body s = (r, s')"
  shows "en_locked s' = en_locked s" "en_failures s' = en_failures s" "en_locked s \<Longrightarrow> r \<noteq> Some (Inr q)"
  using assms take_guard [of t "str_val (field body ''nonce'')" s]
  by (auto simp: enroll_begin_def split: if_splits prod.splits)

lemma end_guard:
  assumes "enroll_end E t q s = (r, s')"
  shows "en_locked s' = en_locked s \<and> en_failures s' = en_failures s
    \<or> r \<noteq> None \<and> en_failures s' = Suc (en_failures s) \<and> en_locked s' = (en_locked s \<or> LOCK_AFTER \<le> Suc (en_failures s))"
  using assms by (auto simp: enroll_end_def fail_code_def addToList_def Let_def split: if_splits option.splits)

lemma ended_guard:
  assumes "guard_holds m S" and "jm_get (sy_pending S) i = Some q" and "length (sy_pending S) \<le> m"
  shows "guard_holds m (ended E t i q S)"
proof -
  obtain r s' where e: "enroll_end E t q (sy_service S) = (r, s')" by (cases "enroll_end E t q (sy_service S)")
  note l = length_jm_del_less [OF assms(2)]
  show ?thesis
  proof (cases r)
    case None
    then have "en_locked s' = en_locked (sy_service S)" "en_failures s' = en_failures (sy_service S)"
      using end_guard [OF e] by auto
    then show ?thesis using assms(1) None e by (auto simp: guard_holds_def ended_def restarted_def split: if_splits)
  next
    case (Some a)
    have "sy_service (ended E t i q S) = s'" "sy_pending (ended E t i q S) = jm_del i (sy_pending S)"
      using e Some by (simp_all add: ended_def)
    then show ?thesis using end_guard [OF e] assms(1,3) l by (auto simp: guard_holds_def split: if_splits)
  qed
qed

lemma step_guard:
  assumes "guard_holds m S" and "length (sy_pending S) \<le> m"
  shows "guard_holds m (en_do E (t, ev) S)"
proof (cases ev)
  case (EvBegin i ip body)
  obtain r s' where b: "enroll_begin t ip body (sy_service S) = (r, s')" by (cases "enroll_begin t ip body (sy_service S)")
  show ?thesis using begin_guard [OF b] assms(1) EvBegin b
    by (auto simp: guard_holds_def en_do_def restarted_def split: option.splits sum.splits if_splits)
next
  case (EvEnd i)
  then show ?thesis using assms ended_guard by (cases "jm_get (sy_pending S) i") (simp_all add: en_do_def)
next
  case (EvStatus body)
  obtain r s' where b: "status_begin t body (sy_service S) = (r, s')" by (cases "status_begin t body (sy_service S)")
  have "en_locked s' = en_locked (sy_service S) \<and> en_failures s' = en_failures (sy_service S)"
    using b take_guard [of t "str_val (field body ''nonce'')" "sy_service S"]
    by (auto simp: status_begin_def split: if_splits prod.splits)
  then show ?thesis using assms(1) EvStatus b
    by (auto simp: guard_holds_def en_do_def restarted_def split: option.splits if_splits)
qed (use assms(1) in \<open>auto simp: guard_holds_def en_do_def challenge_def sweep_enroll_def unlock_def restarted_def LOCK_AFTER_def Let_def split: if_splits\<close>)

text \<open>The wrong codes of a run, by the answers given, and that the stored count is theirs.\<close>

definition refused_code :: "enroll_cfg \<Rightarrow> int \<times> en_ev \<Rightarrow> en_sys \<Rightarrow> bool" where
  "refused_code E te S = (case te of
     (t, EvEnd i) \<Rightarrow> (case jm_get (sy_pending S) i of
        None \<Rightarrow> False | Some q \<Rightarrow> fst (enroll_end E t q (sy_service S)) = Some (Refuse 403 ''code''))
   | _ \<Rightarrow> False)"

fun wrong_codes :: "enroll_cfg \<Rightarrow> (int \<times> en_ev) list \<Rightarrow> en_sys \<Rightarrow> nat" where
  "wrong_codes E [] S = 0"
| "wrong_codes E (te # evs) S = (if refused_code E te S then 1 else 0) + wrong_codes E evs (en_do E te S)"

lemma end_counts:
  assumes "enroll_end E t q s = (r, s')"
  shows "en_failures s' = (if r = Some (Refuse 403 ''code'') then Suc (en_failures s) else en_failures s)"
  using assms by (auto simp: enroll_end_def fail_code_def addToList_def Let_def split: if_splits option.splits)

lemma ended_counts:
  "en_failures (sy_service (ended E t i q S))
     = (if fst (enroll_end E t q (sy_service S)) = Some (Refuse 403 ''code'') then 1 else 0) + en_failures (sy_service S)"
  by (cases "enroll_end E t q (sy_service S)") (auto simp: ended_def restarted_def end_counts split: option.splits)

lemma step_counts:
  assumes "ev \<noteq> EvUnlock"
  shows "en_failures (sy_service (en_do E (t, ev) S)) = (if refused_code E (t, ev) S then 1 else 0) + en_failures (sy_service S)"
proof (cases ev)
  case (EvBegin i ip body)
  obtain r s' where b: "enroll_begin t ip body (sy_service S) = (r, s')" by (cases "enroll_begin t ip body (sy_service S)")
  then show ?thesis using EvBegin begin_guard(2) [OF b]
    by (auto simp: en_do_def refused_code_def restarted_def split: option.splits sum.splits)
next
  case (EvEnd i)
  then show ?thesis by (cases "jm_get (sy_pending S) i") (simp_all add: en_do_def refused_code_def ended_counts)
next
  case (EvStatus body)
  obtain r s' where b: "status_begin t body (sy_service S) = (r, s')" by (cases "status_begin t body (sy_service S)")
  have "en_failures s' = en_failures (sy_service S)"
    using b take_guard [of t "str_val (field body ''nonce'')" "sy_service S"]
    by (auto simp: status_begin_def split: if_splits prod.splits)
  then show ?thesis using EvStatus b by (auto simp: en_do_def refused_code_def restarted_def split: option.splits)
qed (use assms in \<open>simp_all add: en_do_def refused_code_def challenge_def sweep_enroll_def restarted_def Let_def\<close>)

lemma run_counts:
  "\<forall>te\<in>set evs. snd te \<noteq> EvUnlock \<Longrightarrow>
    en_failures (sy_service (en_run E evs S)) = wrong_codes E evs S + en_failures (sy_service S)"
proof (induction evs arbitrary: S)
  case (Cons te evs)
  then show ?case using step_counts [of "snd te" E "fst te" S] by (simp add: en_run_def)
qed (simp add: en_run_def)

lemma run_guard:
  assumes "guard_holds m S" and "\<forall>k\<le>length evs. length (sy_pending (en_run E (take k evs) S)) \<le> m"
  shows "guard_holds m (en_run E evs S)"
proof -
  have "guard_holds m (en_run E (take k evs) S)" if "k \<le> length evs" for k
    using that
  proof (induction k)
    case 0
    then show ?case using assms(1) by (simp add: en_run_def)
  next
    case (Suc k)
    have "en_run E (take (Suc k) evs) S = en_do E (evs ! k) (en_run E (take k evs) S)"
      using Suc.prems by (simp add: en_run_def take_Suc_conv_app_nth)
    moreover have "guard_holds m (en_do E (fst (evs ! k), snd (evs ! k)) (en_run E (take k evs) S))"
      by (rule step_guard) (use Suc assms(2) in simp_all)
    ultimately show ?case by simp
  qed
  from this [of "length evs"] show ?thesis by simp
qed

text \<open>
  C17: guessing. Between two unlocks by the administrator the requests the service answers with a
  wrong code are fewer than twenty and as many more as it has requests in hand at once, whoever
  sends them, from however many addresses, and however often the process is restarted; and with
  the twentieth the service is locked and stays so.
\<close>

theorem guesses_bounded:
  assumes "en_failures (sy_service S) = 0" and "\<not> en_locked (sy_service S)"
    and "\<forall>te\<in>set evs. snd te \<noteq> EvUnlock"
    and "\<forall>k\<le>length evs. length (sy_pending (en_run E (take k evs) S)) \<le> m"
  shows "wrong_codes E evs S < LOCK_AFTER + m \<and> (en_locked (sy_service (en_run E evs S)) \<longleftrightarrow> LOCK_AFTER \<le> wrong_codes E evs S)"
proof -
  have "wrong_codes E evs S = en_failures (sy_service (en_run E evs S))" using run_counts [OF assms(3), of E S] assms(1) by simp
  moreover have "guard_holds m (en_run E evs S)"
    by (rule run_guard [OF _ assms(4)]) (use assms(1,2) in \<open>simp add: guard_holds_def LOCK_AFTER_def\<close>)
  ultimately show ?thesis by (auto simp: guard_holds_def split: if_splits)
qed

text \<open>
  The condition of \<open>code_admits_one_device\<close>
  is needed: the codes used are held in memory, and a request whose body is \<open>null\<close>, which
  needs no challenge, ends the process.
\<close>

lemma null_body_ends_process: "sy_starts (en_do E (t, EvBegin i ip JNull) S) = Suc (sy_starts S)"
  by (simp add: en_do_def enroll_begin_def restarted_def)

lemma restart_forgets_codes:
  "en_used (sy_service (en_do E (t, EvRestart) S)) = []" "en_perIp (sy_service (en_do E (t, EvRestart) S)) = []"
  "en_failures (sy_service (en_do E (t, EvRestart) S)) = en_failures (sy_service S)"
  by (simp_all add: en_do_def restarted_def)

subsection \<open>A platform to evaluate on\<close>

text \<open>Every signature and every code of eight zeros is right.\<close>

definition demo_enroll :: enroll_cfg where
  "demo_enroll = \<lparr>ec_networkId = [], ec_hmac_sha1 = \<lambda>_ _. replicate 20 0, ec_verify = \<lambda>_ _ _. True, ec_unb64 = \<lambda>_. [],
     ec_upper = \<lambda>s. s, ec_word_point = \<lambda>_. False, ec_iso = \<lambda>_. [0x54],
     ec_js = \<lparr>js_parse = \<lambda>_. None, js_stringify = \<lambda>_. [], js_num_of = \<lambda>_. NaN, js_num_str = \<lambda>_. []\<rparr>, ec_oidc = None\<rparr>"

definition demo_peer :: jstr where
  "demo_peer = js ''12D3KooW9tJMax94Lrqw7Y5Qw36viGQAS2gTEPQ5Wg1vTk7xPfQs''"

definition demo_key :: bytes where "demo_key = map word_of_nat [1..<33]"

definition demo_code :: jstr where "demo_code = replicate 8 0x30"

definition demo_body :: "jstr \<Rightarrow> json" where
  "demo_body n = JObj [(js ''peerId'', JStr demo_peer), (js ''nonce'', JStr n), (js ''code'', JStr demo_code), (js ''sig'', JStr [])]"

definition demo_service :: enroll where
  "demo_service = \<lparr>en_nonces = [], en_used = [], en_perIp = [], en_failures = 0, en_locked = False, en_seed = Some [], en_list = None\<rparr>"

definition demo_sys :: en_sys where
  "demo_sys = \<lparr>sy_service = demo_service, sy_pending = [], sy_log = [], sy_starts = 0\<rparr>"

definition demo_events :: "(int \<times> en_ev) list" where
  "demo_events = [(60000, EvChallenge [] [0x4E]), (60000, EvChallenge [] [0x4F]), (60000, EvBegin 5 [] (demo_body [0x4E])),
     (60000, EvBegin 6 [] (demo_body [0x4F])), (60001, EvEnd 5), (60002, EvEnd 6)]"

lemma be_min_of: "bs = [] \<or> hd bs \<noteq> 0 \<Longrightarrow> be_min (be_dec bs) = bs"
proof (induction bs rule: rev_induct)
  case Nil
  then show ?case by (simp add: be_min.simps)
next
  case (snoc x bs)
  have d: "be_dec (bs @ [x]) = be_dec bs * 256 + unat x" by (induction bs) (simp_all add: algebra_simps)
  have ih: "be_min (be_dec bs) = bs" using snoc by (cases bs) auto
  have nz: "be_dec (bs @ [x]) \<noteq> 0"
  proof (cases bs)
    case Nil
    then show ?thesis using snoc.prems d by (simp add: unat_eq_0)
  next
    case (Cons b r)
    have "be_dec bs \<noteq> 0"
    proof
      assume "be_dec bs = 0"
      then have "be_min 0 = bs" using ih by simp
      then show False using Cons be_min.simps [of 0] by simp
    qed
    then show ?thesis using d by simp
  qed
  have "be_min (be_dec (bs @ [x])) = be_min (be_dec (bs @ [x]) div 256) @ [word_of_nat (be_dec (bs @ [x]) mod 256)]"
    using nz by (subst be_min.simps) simp
  also have "\<dots> = bs @ [x]" using ih unat_byte_lt [of x] by (simp add: d)
  finally show ?case .
qed

lemma demo_peer_key: "ed25519OfPeerId demo_peer = Some demo_key"
proof -
  define vs :: "nat list" where "vs = [0, 1, 12, 2, 18, 46, 46, 29, 8, 51, 17, 20, 33, 55, 8, 3, 19, 49, 48, 54, 6, 31, 4, 23, 54, 2, 5, 53, 41, 15, 23, 9, 25, 1, 39, 26, 13, 22, 23, 4, 29, 39, 0, 53, 26, 43, 6, 55, 22, 38, 23, 50]"
  have v: "map (index_in B58) demo_peer = map Some vs" unfolding vs_def by code_simp
  have k: "demo_key = [1, 2, 3, 4, 5, 6, 7, 8, 9, 10, 11, 12, 13, 14, 15, 16, 17, 18, 19, 20, 21, 22, 23, 24, 25, 26, 27, 28, 29, 30, 31, 32]"
    by code_simp
  have "b58_num vs = be_dec (0x24 # 0x08 # 0x01 # 0x12 # 0x20 # demo_key)" unfolding k by (simp add: vs_def b58_num_def)
  then have m: "be_min (b58_num vs) = 0x24 # 0x08 # 0x01 # 0x12 # 0x20 # demo_key" by (simp only:) (rule be_min_of, simp)
  have z: "takeWhile (\<lambda>u. u = 0x31) demo_peer = [0x31]" by code_simp
  have "all_some (map (index_in B58) demo_peer) = Some vs" using v by (simp only: all_some_Some)
  then have "base58 demo_peer = Some (0 # 0x24 # 0x08 # 0x01 # 0x12 # 0x20 # demo_key)" using m z by (simp add: base58_def)
  moreover have "length demo_key = 32" by (simp add: demo_key_def)
  ultimately show ?thesis by (simp add: ed25519OfPeerId_def ED_HEAD_def)
qed

lemma demo_signed: "signedBy demo_enroll demo_peer m sig"
  by (simp add: signedBy_def demo_peer_key) (simp add: demo_enroll_def)

lemma dec_pad_zero: "dec_pad k 0 = replicate k 0x30"
  by (induction k) (simp_all add: replicate_append_same)

lemma demo_match: "totpMatch demo_enroll key demo_code t = Some (window t)"
proof -
  have "totpAt demo_enroll key c = demo_code" for c
    by (simp add: totpAt_def demo_enroll_def demo_code_def DIGITS_def dec_pad_zero Let_def)
  moreover have "eight_digits demo_code" by (simp add: eight_digits_def demo_code_def list_all_iff)
  ultimately show ?thesis by (simp add: totpMatch_def)
qed

lemma demo_seed: "en_seed s = Some [] \<Longrightarrow> seed_key demo_enroll s = Some []"
  by (simp add: seed_key_def demo_enroll_def fromBase32_def drop_padding_def trim_def whole_groups.simps [of 8 "[]"])

lemma demo_plain: "plain_platform demo_enroll"
  by (simp add: plain_platform_def demo_enroll_def)

lemma demo_admitted:
  assumes "en_seed s = Some []" and "en_used s = []" and "rq_peer q = demo_peer" and "rq_code q = demo_code" and "rq_label q = None"
  shows "enroll_end demo_enroll t q s
    = (Some Enrolled, addToList demo_enroll t demo_peer [] (s\<lparr>en_used := [((window t, demo_code), t + 90000)]\<rparr>))"
  using assms demo_signed demo_match demo_seed [OF assms(1)]
  by (simp add: enroll_end_def label_text_def str_or_def jm_has_def STEP_S_def)

lemma enrolled_for_reason_witness:
  "set (listed (snd (enroll_end demo_enroll 60000 \<lparr>rq_peer = demo_peer, rq_nonce = [], rq_code = demo_code, rq_sig = [],
      rq_label = None, rq_ip = []\<rparr> demo_service))) = {demo_peer}"
proof -
  let ?q = "\<lparr>rq_peer = demo_peer, rq_nonce = [], rq_code = demo_code, rq_sig = [], rq_label = None, rq_ip = []\<rparr>"
  have "fst (enroll_end demo_enroll 60000 ?q demo_service) = Some Enrolled"
    by (subst demo_admitted) (simp_all add: demo_service_def)
  then have "enroll_end demo_enroll 60000 ?q demo_service = (Some Enrolled, snd (enroll_end demo_enroll 60000 ?q demo_service))"
    by (metis prod.collapse)
  moreover have "listed demo_service = []" by (simp add: listed_def demo_service_def)
  ultimately show ?thesis using enrolled_for_reason [OF demo_plain, of 60000 ?q demo_service "Some Enrolled"] by auto
qed

lemma demo_fields: "field (demo_body n) ''peerId'' = Some (JStr demo_peer)" "field (demo_body n) ''nonce'' = Some (JStr n)"
  "field (demo_body n) ''code'' = Some (JStr demo_code)" "field (demo_body n) ''sig'' = Some (JStr [])"
  "field (demo_body n) ''label'' = None" "demo_body n \<noteq> JNull"
  by (simp_all add: demo_body_def)

lemma added_fields: "en_seed (addToList E t p l s) = en_seed s" "en_perIp (addToList E t p l s) = en_perIp s"
  "en_failures (addToList E t p l s) = en_failures s" "en_locked (addToList E t p l s) = en_locked s"
  by (simp_all add: addToList_def Let_def)

lemma demo_begun:
  assumes "\<not> en_locked s" and "en_perIp s = []" and "jm_get (en_nonces s) n = Some e" and "\<forall>p\<in>set (en_nonces s). t \<le> snd p"
    and "en_used s = []"
  shows "enroll_begin t [] (demo_body n) s = (Some (Inr \<lparr>rq_peer = demo_peer, rq_nonce = n, rq_code = demo_code, rq_sig = [],
    rq_label = None, rq_ip = []\<rparr>), s\<lparr>en_nonces := jm_del n (en_nonces s)\<rparr>)"
proof -
  have f: "filter (\<lambda>p. \<not> snd p < t) (en_nonces s) = en_nonces s" using assms(4) by (auto simp: filter_id_conv)
  have "sweep_enroll t s = s" using assms(5) by (simp add: sweep_enroll_def f)
  then show ?thesis using assms
    by (simp add: enroll_begin_def ipBlocked_def recent_failures_def PER_IP_FAILURES_def demo_fields takeNonce_def jm_has_def)
qed

lemma demo_refused:
  assumes "en_seed s = Some []" and "jm_has (en_used s) (window t, demo_code)" and "rq_peer q = demo_peer" and "rq_code q = demo_code"
  shows "enroll_end demo_enroll t q s = (Some (Refuse 403 ''code''), fail_code t (rq_ip q) s)"
  using assms demo_signed demo_match demo_seed [OF assms(1)] by (simp add: enroll_end_def)

definition demo_req :: "jstr \<Rightarrow> enroll_req" where
  "demo_req n = \<lparr>rq_peer = demo_peer, rq_nonce = n, rq_code = demo_code, rq_sig = [], rq_label = None, rq_ip = []\<rparr>"

definition demo_after :: "(jstr, int) jmap \<Rightarrow> (nat, enroll_req) jmap \<Rightarrow> en_sys" where
  "demo_after ns ps = demo_sys\<lparr>sy_service := demo_service\<lparr>en_nonces := ns\<rparr>, sy_pending := ps\<rparr>"

lemma demo_steps_run:
  "en_do demo_enroll (60000, EvChallenge [] [0x4E]) demo_sys = demo_after [([0x4E], 180000)] []"
  "en_do demo_enroll (60000, EvChallenge [] [0x4F]) (demo_after [([0x4E], 180000)] [])
     = demo_after [([0x4E], 180000), ([0x4F], 180000)] []"
  "en_do demo_enroll (60000, EvBegin 5 [] (demo_body [0x4E])) (demo_after [([0x4E], 180000), ([0x4F], 180000)] [])
     = demo_after [([0x4F], 180000)] [(5, demo_req [0x4E])]"
  "en_do demo_enroll (60000, EvBegin 6 [] (demo_body [0x4F])) (demo_after [([0x4F], 180000)] [(5, demo_req [0x4E])])
     = demo_after [] [(5, demo_req [0x4E]), (6, demo_req [0x4F])]"
proof -
  show "en_do demo_enroll (60000, EvChallenge [] [0x4E]) demo_sys = demo_after [([0x4E], 180000)] []"
    by (simp add: en_do_def demo_after_def demo_sys_def challenge_def sweep_enroll_def demo_service_def NONCE_TTL_MS_def js_def)
  show "en_do demo_enroll (60000, EvChallenge [] [0x4F]) (demo_after [([0x4E], 180000)] [])
      = demo_after [([0x4E], 180000), ([0x4F], 180000)] []"
    by (simp add: en_do_def demo_after_def demo_sys_def challenge_def sweep_enroll_def demo_service_def NONCE_TTL_MS_def js_def)
  show "en_do demo_enroll (60000, EvBegin 5 [] (demo_body [0x4E])) (demo_after [([0x4E], 180000), ([0x4F], 180000)] [])
      = demo_after [([0x4F], 180000)] [(5, demo_req [0x4E])]"
    by (simp add: en_do_def demo_after_def demo_sys_def demo_begun demo_service_def demo_req_def jm_del_def)
  show "en_do demo_enroll (60000, EvBegin 6 [] (demo_body [0x4F])) (demo_after [([0x4F], 180000)] [(5, demo_req [0x4E])])
      = demo_after [] [(5, demo_req [0x4E]), (6, demo_req [0x4F])]"
    by (simp add: en_do_def demo_after_def demo_sys_def demo_begun demo_service_def demo_req_def jm_del_def)
qed

definition demo_full :: en_sys where "demo_full = demo_after [] [(5, demo_req [0x4E]), (6, demo_req [0x4F])]"

definition demo_one :: en_sys where
  "demo_one = demo_full\<lparr>sy_service := addToList demo_enroll 60001 demo_peer [] (demo_service\<lparr>en_used := [((2, demo_code), 150001)]\<rparr>),
     sy_pending := [(6, demo_req [0x4F])], sy_log := [(2, demo_req [0x4E])]\<rparr>"

definition demo_both :: en_sys where
  "demo_both = demo_one\<lparr>sy_service := fail_code 60002 [] (sy_service demo_one), sy_pending := []\<rparr>"

lemma demo_window: "window 60001 = 2" "window 60002 = 2" by (simp_all add: window_def STEP_S_def)

lemma demo_ends: "en_do demo_enroll (60001, EvEnd 5) demo_full = demo_one" "en_do demo_enroll (60002, EvEnd 6) demo_one = demo_both"
proof -
  have e: "enroll_end demo_enroll 60001 (demo_req [0x4E]) demo_service
      = (Some Enrolled, addToList demo_enroll 60001 demo_peer [] (demo_service\<lparr>en_used := [((2, demo_code), 150001)]\<rparr>))"
    using demo_admitted [of demo_service "demo_req [0x4E]" 60001] by (simp add: demo_service_def demo_req_def demo_window)
  have c: "code_window demo_enroll 60001 (demo_req [0x4E]) demo_service = 2"
    using demo_seed [of demo_service] by (simp add: code_window_def demo_service_def demo_req_def demo_match demo_window)
  have n: "demo_service\<lparr>en_nonces := []\<rparr> = demo_service" by (simp add: demo_service_def)
  show "en_do demo_enroll (60001, EvEnd 5) demo_full = demo_one"
    using e c by (simp add: en_do_def demo_full_def demo_after_def n ended_def demo_one_def jm_del_def demo_sys_def)
  have s: "sy_service demo_one = addToList demo_enroll 60001 demo_peer [] (demo_service\<lparr>en_used := [((2, demo_code), 150001)]\<rparr>)"
    by (simp add: demo_one_def)
  have "enroll_end demo_enroll 60002 (demo_req [0x4F]) (sy_service demo_one)
      = (Some (Refuse 403 ''code''), fail_code 60002 [] (sy_service demo_one))"
    using demo_refused [of "sy_service demo_one" 60002 "demo_req [0x4F]"]
    by (simp add: s added_fields added_used demo_service_def demo_req_def demo_window jm_has_def)
  then show "en_do demo_enroll (60002, EvEnd 6) demo_one = demo_both"
    by (simp add: en_do_def demo_both_def ended_def) (simp add: demo_one_def ended_def jm_del_def demo_both_def)
qed

lemma demo_pending: "length (sy_pending demo_one) = 1" "length (sy_pending demo_both) = 0" "length (sy_pending demo_full) = 2"
    "sy_pending demo_sys = []" "sy_pending (demo_after ns ps) = ps"
  by (simp_all add: demo_one_def demo_both_def demo_full_def demo_after_def demo_sys_def)

lemma demo_states:
  "en_run demo_enroll (take 0 demo_events) demo_sys = demo_sys"
  "en_run demo_enroll (take 1 demo_events) demo_sys = demo_after [([0x4E], 180000)] []"
  "en_run demo_enroll (take 2 demo_events) demo_sys = demo_after [([0x4E], 180000), ([0x4F], 180000)] []"
  "en_run demo_enroll (take 3 demo_events) demo_sys = demo_after [([0x4F], 180000)] [(5, demo_req [0x4E])]"
  "en_run demo_enroll (take 4 demo_events) demo_sys = demo_full"
  "en_run demo_enroll (take 5 demo_events) demo_sys = demo_one"
  "en_run demo_enroll (take 6 demo_events) demo_sys = demo_both"
  by (simp_all add: en_run_def demo_events_def demo_steps_run demo_full_def [symmetric] demo_ends)

lemma demo_prefixes:
  assumes "k \<le> 6"
  shows "length (sy_pending (en_run demo_enroll (take k demo_events) demo_sys)) \<le> 2"
proof -
  have "k = 0 \<or> k = 1 \<or> k = 2 \<or> k = 3 \<or> k = 4 \<or> k = 5 \<or> k = 6" using assms by linarith
  then show ?thesis by (elim disjE) (simp_all only: demo_states demo_pending, simp_all)
qed

lemma demo_ran: "en_run demo_enroll demo_events demo_sys = demo_both"
  by (simp add: en_run_def demo_events_def demo_steps_run demo_full_def [symmetric] demo_ends)

lemma code_admits_one_device_witness:
  "distinct (map (\<lambda>(c, q). (c, rq_code q)) (sy_log (en_run demo_enroll demo_events demo_sys)))
     \<and> sy_log (en_run demo_enroll demo_events demo_sys) = [(2, demo_req [0x4E])]"
proof -
  have "sorted (map fst demo_events)" by (simp add: demo_events_def)
  moreover have "sy_starts (en_run demo_enroll demo_events demo_sys) = sy_starts demo_sys"
    by (simp add: demo_ran demo_both_def demo_one_def demo_full_def demo_after_def)
  ultimately show ?thesis
    using code_admits_one_device [of demo_sys demo_events demo_enroll]
    by (simp add: demo_ran) (simp add: demo_sys_def fresh_service_def demo_service_def demo_both_def demo_one_def)
qed

lemma guesses_bounded_witness:
  "wrong_codes demo_enroll demo_events demo_sys < LOCK_AFTER + 2
    \<and> (en_locked (sy_service (en_run demo_enroll demo_events demo_sys)) \<longleftrightarrow> LOCK_AFTER \<le> wrong_codes demo_enroll demo_events demo_sys)"
proof -
  have "length demo_events = 6" by (simp add: demo_events_def)
  then have "\<forall>k\<le>length demo_events. length (sy_pending (en_run demo_enroll (take k demo_events) demo_sys)) \<le> 2"
    using demo_prefixes by metis
  then show ?thesis
    by (intro guesses_bounded) (simp_all add: demo_sys_def demo_service_def demo_events_def)
qed

end
