(* ===== verification/OidcTheorems.thy ===== *)
theory OidcTheorems
  imports Oidc EnrollTheorems
begin

section \<open>A sign-in admits one device, once (relay/oidc.mjs)\<close>

lemma find_ok: "find P xs = Some x \<Longrightarrow> x \<in> set xs \<and> P x"
  by (induction xs) (auto split: if_splits)

text \<open>What a verified token shows: the three parts, the signature over the first two, the payload.\<close>

definition signed_token :: "oidc_env \<Rightarrow> jstr \<Rightarrow> json \<Rightarrow> json \<Rightarrow> json \<Rightarrow> bool" where
  "signed_token X jwt k hdr w \<longleftrightarrow> (\<exists>h p s a. split_at 0x2E jwt = [h, p, s] \<and> oe_json X (oe_unb64u X h) = Some hdr
     \<and> oe_verify X a k (utf8 (h @ [0x2E] @ p)) (oe_unb64u X s) = Some True \<and> oe_json X (oe_unb64u X p) = Some w)"

lemma verified_signed: "verifyJws X jwt k = Inr (hdr, w) \<Longrightarrow> signed_token X jwt k hdr w"
  by (force simp: verifyJws_def signed_token_def split: list.splits option.splits if_splits)

text \<open>The keys the provider publishes: as it answers now, or as it answered when they were cached.\<close>

definition published_keys :: "oidc_answers \<Rightarrow> provider \<Rightarrow> json \<Rightarrow> bool" where
  "published_keys A P ks \<longleftrightarrow> (\<exists>j. (oa_keys A = Some j \<or> oa_keys_again A = Some j) \<and> ks = keys_of j) \<or> (\<exists>a. pv_keys P = Some (ks, a))"

lemma discovery_keys: "pv_keys (snd (discovery t issuer ans P)) = pv_keys P"
  by (auto simp: discovery_def split: option.splits prod.splits)

lemma jwks_keys:
  assumes "jwks force t issuer disc ans P = (Inr ks, P')"
  shows "(\<exists>a. pv_keys P' = Some (ks, a)) \<and> ((\<exists>j. ans = Some j \<and> ks = keys_of j) \<or> (\<exists>a. pv_keys P = Some (ks, a)))"
  using assms discovery_keys [of t issuer disc P]
  by (auto simp: jwks_def Let_def split: option.splits prod.splits sum.splits if_splits)

lemma jwks_failed_keys: "jwks force t issuer disc ans P = (Inl e, P') \<Longrightarrow> pv_keys P' = pv_keys P"
  using discovery_keys [of t issuer disc P]
  by (auto simp: jwks_def Let_def split: option.splits prod.splits sum.splits if_splits)

definition key_for :: "json \<Rightarrow> json \<Rightarrow> json \<Rightarrow> bool" where
  "key_for ks hdr k \<longleftrightarrow> (\<exists>l. ks = JArr l \<and> k \<in> set l) \<and> (truthy (field hdr ''kid'') \<longrightarrow> field k ''kid'' = field hdr ''kid'')
     \<and> (truthy (field k ''use'') \<longrightarrow> field k ''use'' = Some (JStr (js ''sig'')))"

lemma pick_keys_for: "pick_keys ks hdr = Some l \<Longrightarrow> k \<in> set l \<Longrightarrow> key_for ks hdr k"
  by (auto simp: pick_keys_def key_for_def split: json.splits if_splits)

lemma first_verified_key:
  "first_verified X jwt ks = Some p \<Longrightarrow> \<exists>k\<in>set ks. \<exists>h. verifyJws X jwt k = Inr (h, p)"
  using find_ok [of "\<lambda>k. is_ok (verifyJws X jwt k)" ks]
  by (force simp: first_verified_def split: option.splits sum.splits)

lemma verified_key:
  assumes "verified_token X t issuer A jwt hdr P = (Inr p, P')"
  shows "\<exists>ks k g. published_keys A P ks \<and> key_for ks hdr k \<and> verifyJws X jwt k = Inr (g, p)"
proof -
  obtain ks P1 l where j: "jwks False t issuer (oa_discovery A) (oa_keys A) P = (Inr ks, P1)" "pick_keys ks hdr = Some l"
    using assms by (auto simp: verified_token_def split: prod.splits sum.splits option.splits)
  have pub: "published_keys A P ks" using jwks_keys [OF j(1)] by (auto simp: published_keys_def)
  show ?thesis
  proof (cases "first_verified X jwt l")
    case (Some p')
    then have "p' = p" using assms j by (simp add: verified_token_def)
    then show ?thesis using Some first_verified_key [of X jwt l p'] pick_keys_for [OF j(2)] pub by blast
  next
    case None
    obtain ks' P2 l' where j': "jwks True t issuer (oa_discovery A) (oa_keys_again A) P1 = (Inr ks', P2)" "pick_keys ks' hdr = Some l'"
      "first_verified X jwt l' = Some p"
      using assms j None by (auto simp: verified_token_def split: prod.splits sum.splits option.splits)
    have "published_keys A P ks'" using jwks_keys [OF j'(1)] jwks_keys [OF j(1)] pub by (auto simp: published_keys_def)
    then show ?thesis using first_verified_key [OF j'(3)] pick_keys_for [OF j'(2)] by blast
  qed
qed

definition audience :: "json \<Rightarrow> json option list" where
  "audience w = (case field w ''aud'' of Some (JArr xs) \<Rightarrow> map Some xs | v \<Rightarrow> [v])"

lemma claims_checked:
  assumes "checkClaims X p R now = Inr w"
  shows "w = p" "field p ''iss'' = Some (JStr (cr_issuer R))" "field p ''nonce'' = Some (JStr (cr_nonce R))"
    "is_num (field p ''exp'')" "\<not> num_lt (field p ''exp'') (of_int (now div 1000 - 60))"
    "Some (JStr (cr_clientId R)) \<in> set (audience p)"
  using assms by (simp_all add: checkClaims_def audience_def Let_def split: if_splits)

lemma redeemed:
  assumes "redeem X t R A P = (Inr w, P')"
  obtains body ks k hdr where "oa_token A = Some body" "is_str (field body ''id_token'')"
    "published_keys A P ks" "key_for ks hdr k" "verifyJws X (str_val (field body ''id_token'')) k = Inr (hdr, w)" "checkClaims X w R t = Inr w"
proof -
  obtain body h P1 P2 p where d: "snd (discovery t (cr_issuer R) (oa_discovery A) P) = P1"
    and r: "oa_token A = Some body" "is_str (field body ''id_token'')"
    "oe_json X (oe_unb64u X (hd (split_at 0x2E (str_val (field body ''id_token''))))) = Some h"
    "verified_token X t (cr_issuer R) A (str_val (field body ''id_token'')) h P1 = (Inr p, P2)" "checkClaims X p R t = Inr w"
    using assms by (auto simp: redeem_def Let_def split: prod.splits sum.splits option.splits if_splits)
  have w: "w = p" by (rule claims_checked(1) [OF r(5)])
  have k: "pv_keys P1 = pv_keys P" using discovery_keys d by blast
  obtain ks k g where v: "published_keys A P1 ks" "key_for ks h k" "verifyJws X (str_val (field body ''id_token'')) k = Inr (g, p)"
    using verified_key [OF r(4)] by blast
  have "g = h" using r(3) v(3) by (auto simp: verifyJws_def split: list.splits option.splits if_splits)
  then show thesis using that [OF r(1,2)] v r(5) w k by (auto simp: published_keys_def)
qed

lemma same_payload:
  assumes "verifyJws X jwt k = Inr (g, p)" and "verifyJws X jwt k' = Inr (g', p')"
  shows "p = p'"
  using assms by (auto simp: verifyJws_def split: list.splits option.splits if_splits)

definition ascii_text :: "jstr \<Rightarrow> bool" where
  "ascii_text s = list_all (\<lambda>u. u < 0x80 \<and> u \<noteq> 0xA) s"

lemma ascii_paired: "list_all (\<lambda>u. u < 0x80) s \<Longrightarrow> plain_text s"
proof -
  assume a: "list_all (\<lambda>u. u < 0x80) s"
  have n: "\<not> high_surrogate (unat u)" "\<not> low_surrogate (unat u)" if "u < 0x80" for u :: "16 word"
    using that by (simp_all add: high_surrogate_def low_surrogate_def word_less_nat_alt)
  have "paired s" using a by (induction s rule: paired.induct) (auto simp: n)
  then show ?thesis using a by (cases s) (auto simp: plain_text_def word_less_nat_alt)
qed

lemma split_once: "0xA \<notin> set a \<Longrightarrow> 0xA \<notin> set b \<Longrightarrow> a @ 0xA # c = b @ 0xA # e \<longleftrightarrow> a = b \<and> c = (e :: jstr)"
proof (induction a arbitrary: b)
  case Nil
  then show ?case by (cases b) auto
next
  case (Cons u a)
  then show ?case by (cases b) auto
qed

lemma oidc_text_inj:
  assumes "ascii_text net" "ascii_text n1" "ascii_text n2" "ascii_text p1" "ascii_text p2"
    and "utf8 (oidc_text net n1 p1) = utf8 (oidc_text net n2 p2)"
  shows "n1 = n2 \<and> p1 = p2"
proof -
  have "list_all (\<lambda>u. u < 0x80) (js ''onchato-oidc-v1'')" by code_simp
  then have t: "plain_text (oidc_text net n p)" if "ascii_text n" "ascii_text p" for n p
    using that assms(1) by (intro ascii_paired) (auto simp: oidc_text_def ascii_text_def list_all_iff)
  have "oidc_text net n1 p1 = oidc_text net n2 p2"
    using utf8_text_utf8 [OF t [OF assms(2,4)]] utf8_text_utf8 [OF t [OF assms(3,5)]] assms(6) by metis
  then have "n1 @ 0xA # p1 = n2 @ 0xA # p2" by (simp add: oidc_text_def)
  moreover have "0xA \<notin> set n1" "0xA \<notin> set n2" using assms(2,3) by (auto simp: ascii_text_def list_all_iff)
  ultimately show ?thesis using split_once by metis
qed

lemma peer_ascii: "peer_id_text p \<Longrightarrow> ascii_text p"
proof -
  assume p: "peer_id_text p"
  have b: "base58_unit u \<Longrightarrow> u < 0x80 \<and> u \<noteq> 0xA" for u
    unfolding base58_unit_def by (auto simp: word_le_nat_alt word_less_nat_alt)
  have "list_all base58_unit (js ''12D3KooW'')" by code_simp
  then have "list_all base58_unit (take 8 p @ drop 8 p)" using p by (simp add: peer_id_text_def)
  then have "list_all base58_unit p" by (simp only: append_take_drop_id)
  then show ?thesis using b by (auto simp: list_all_iff ascii_text_def)
qed

text \<open>
  C18: a sign-in at the company's provider admits one device for one challenge. When the node
  accepts a token, its signature over header and payload verified under a key the provider
  publishes, with the key id the header names; its claims name this node's issuer and client, a
  time of expiry that has not passed by more than a minute, and the nonce of this device and
  challenge. And when it accepts the same token for two requests, each signed by its device, they
  are of one PeerId and one challenge, unless the two texts hashed into the nonces collide under
  SHA-256.
\<close>

theorem token_admits_one_device:
  assumes "redeem X t1 R1 A1 P1 = (Inr w1, P1')" and "redeem X t2 R2 A2 P2 = (Inr w2, P2')"
    and "oidc_signed E X issuer clientId q1 = Inr R1" and "oidc_signed E X issuer clientId q2 = Inr R2"
    and "oa_token A1 = Some b1" and "oa_token A2 = Some b2" and "field b1 ''id_token'' = field b2 ''id_token''"
    and "inj (oe_b64url X)" and "ascii_text (ec_networkId E)" and "ascii_text (rq_nonce q1)" and "ascii_text (rq_nonce q2)"
  shows "w1 = w2
    \<and> (\<exists>ks k hdr. published_keys A1 P1 ks \<and> key_for ks hdr k \<and> signed_token X (str_val (field b1 ''id_token'')) k hdr w1)
    \<and> field w1 ''iss'' = Some (JStr issuer) \<and> Some (JStr clientId) \<in> set (audience w1)
    \<and> is_num (field w1 ''exp'') \<and> \<not> num_lt (field w1 ''exp'') (of_int (t1 div 1000 - 60))
    \<and> field w1 ''nonce'' = Some (JStr (oidcNonce X (ec_networkId E) (rq_nonce q1) (rq_peer q1)))
    \<and> (rq_peer q1 = rq_peer q2 \<and> rq_nonce q1 = rq_nonce q2
       \<or> (let m = (\<lambda>q. utf8 (oidc_text (ec_networkId E) (rq_nonce q) (rq_peer q)))
          in m q1 \<noteq> m q2 \<and> oe_sha256 X (m q1) = oe_sha256 X (m q2)))"
proof -
  obtain ks1 k1 g1 where r1: "verifyJws X (str_val (field b1 ''id_token'')) k1 = Inr (g1, w1)" "checkClaims X w1 R1 t1 = Inr w1"
    and pub: "published_keys A1 P1 ks1" "key_for ks1 g1 k1"
    by (rule redeemed [OF assms(1)]) (use assms(5) in simp)
  obtain k2 g2 where r2: "verifyJws X (str_val (field b1 ''id_token'')) k2 = Inr (g2, w2)" "checkClaims X w2 R2 t2 = Inr w2"
    by (rule redeemed [OF assms(2)]) (use assms(6,7) in simp)
  have w: "w1 = w2" by (rule same_payload [OF r1(1) r2(1)])
  have R: "cr_issuer R1 = issuer" "cr_clientId R1 = clientId" "cr_nonce R1 = oidcNonce X (ec_networkId E) (rq_nonce q1) (rq_peer q1)"
    "cr_nonce R2 = oidcNonce X (ec_networkId E) (rq_nonce q2) (rq_peer q2)"
    and s: "signedBy E (rq_peer q1) (enrollMessage (ec_networkId E) (rq_nonce q1) (js ''oidc:'' @ rq_code q1)) (rq_sig q1)"
      "signedBy E (rq_peer q2) (enrollMessage (ec_networkId E) (rq_nonce q2) (js ''oidc:'' @ rq_code q2)) (rq_sig q2)"
    using assms(3,4) by (auto simp: oidc_signed_def split: if_splits)
  note c1 = claims_checked [OF r1(2)] and c2 = claims_checked [OF r2(2)]
  have p: "ascii_text (rq_peer q1)" "ascii_text (rq_peer q2)"
    using s by (auto simp: signedBy_def intro!: peer_ascii key_of_peer_id split: option.splits)
  have "oidcNonce X (ec_networkId E) (rq_nonce q1) (rq_peer q1) = oidcNonce X (ec_networkId E) (rq_nonce q2) (rq_peer q2)"
    using c1(3) c2(3) w R(3,4) by simp
  then have h: "oe_sha256 X (utf8 (oidc_text (ec_networkId E) (rq_nonce q1) (rq_peer q1)))
      = oe_sha256 X (utf8 (oidc_text (ec_networkId E) (rq_nonce q2) (rq_peer q2)))"
    using assms(8) by (simp add: oidcNonce_def inj_eq)
  have "rq_nonce q1 = rq_nonce q2 \<and> rq_peer q1 = rq_peer q2"
    if "utf8 (oidc_text (ec_networkId E) (rq_nonce q1) (rq_peer q1)) = utf8 (oidc_text (ec_networkId E) (rq_nonce q2) (rq_peer q2))"
    by (rule oidc_text_inj [OF assms(9-11) p that])
  then have one: "rq_peer q1 = rq_peer q2 \<and> rq_nonce q1 = rq_nonce q2
       \<or> (let m = (\<lambda>q. utf8 (oidc_text (ec_networkId E) (rq_nonce q) (rq_peer q)))
          in m q1 \<noteq> m q2 \<and> oe_sha256 X (m q1) = oe_sha256 X (m q2))" using h by (auto simp: Let_def)
  show ?thesis using w one pub verified_signed [OF r1(1)] c1(2-6) R(1-3) by (intro conjI) auto
qed

text \<open>The challenge is spent by the request that names it.\<close>

lemma nonce_once: "takeNonce t n s = (True, s') \<Longrightarrow> \<not> jm_has (en_nonces s') n"
  by (auto simp: takeNonce_def Let_def jm_has_def split: if_splits)

definition demo_nonce :: jstr where
  "demo_nonce = map ucast (utf8 (oidc_text [] [0x4E] demo_peer))"

definition demo_payload :: json where
  "demo_payload = JObj [(js ''iss'', JStr [7]), (js ''aud'', JStr [8]), (js ''exp'', num 1000), (js ''nonce'', JStr demo_nonce)]"

definition demo_oidc :: oidc_env where
  "demo_oidc = \<lparr>oe_sha256 = \<lambda>b. b, oe_b64url = map ucast, oe_unb64u = map ucast,
     oe_json = \<lambda>b. if b = [1] then Some (JObj [(js ''alg'', JStr (js ''ES256''))]) else if b = [2] then Some demo_payload else None,
     oe_verify = \<lambda>_ _ _ _. Some True, oe_lower = \<lambda>s. s,
     oe_js = \<lparr>js_parse = \<lambda>_. None, js_stringify = \<lambda>_. [], js_num_of = \<lambda>_. NaN, js_num_str = \<lambda>_. []\<rparr>\<rparr>"

definition demo_answers :: oidc_answers where
  "demo_answers = \<lparr>oa_discovery = Some (JObj [(js ''issuer'', JStr [7])]), oa_keys = Some (JObj [(js ''keys'', JArr [JObj []])]),
     oa_keys_again = None, oa_token = Some (JObj [(js ''id_token'', JStr [1, 0x2E, 2, 0x2E, 3])])\<rparr>"

definition demo_rules :: claim_rules where
  "demo_rules = \<lparr>cr_issuer = [7], cr_clientId = [8], cr_nonce = demo_nonce, cr_allowDomain = [], cr_allowGroup = []\<rparr>"

lemma demo_redeemed: "fst (redeem demo_oidc 5000 demo_rules demo_answers \<lparr>pv_meta = None, pv_keys = None\<rparr>) = Inr demo_payload"
proof -
  have f: "oe_json demo_oidc (oe_unb64u demo_oidc [1]) = Some (JObj [(js ''alg'', JStr (js ''ES256''))])"
    "oe_json demo_oidc (oe_unb64u demo_oidc [2]) = Some demo_payload" "oe_verify demo_oidc a k m s = Some True" for a k m s
    by (simp_all add: demo_oidc_def)
  have v: "verifyJws demo_oidc [1, 0x2E, 2, 0x2E, 3] k = Inr (JObj [(js ''alg'', JStr (js ''ES256''))], demo_payload)" for k
    by (simp add: verifyJws_def f alg_named_def algs_def Let_def)
  have c: "checkClaims demo_oidc demo_payload demo_rules 5000 = Inr demo_payload"
    by (simp add: checkClaims_def demo_payload_def demo_rules_def num_lt_def num_def is_num_def)
  have "first_verified demo_oidc [1, 0x2E, 2, 0x2E, 3] [JObj []] = Some demo_payload"
    by (simp add: first_verified_def v is_ok_def)
  then show ?thesis
    by (simp add: redeem_def discovery_def jwks_def verified_token_def demo_answers_def demo_rules_def [of] Let_def f keys_of_def
        pick_keys_def truthy_def c [unfolded demo_rules_def])
qed

lemma token_admits_one_device_witness:
  "\<exists>ks k hdr. published_keys demo_answers \<lparr>pv_meta = None, pv_keys = None\<rparr> ks \<and> key_for ks hdr k
     \<and> signed_token demo_oidc [1, 0x2E, 2, 0x2E, 3] k hdr demo_payload"
proof -
  let ?P = "\<lparr>pv_meta = None, pv_keys = None\<rparr> :: provider" and ?q = "demo_req [0x4E]"
  have r: "redeem demo_oidc 5000 demo_rules demo_answers ?P = (Inr demo_payload, snd (redeem demo_oidc 5000 demo_rules demo_answers ?P))"
    using demo_redeemed by (metis prod.collapse)
  have s: "oidc_signed demo_enroll demo_oidc [7] [8] ?q = Inr demo_rules"
    using demo_signed by (simp add: oidc_signed_def demo_req_def demo_rules_def oidcNonce_def)
      (simp add: demo_enroll_def demo_oidc_def demo_nonce_def)
  have a: "oa_token demo_answers = Some (JObj [(js ''id_token'', JStr [1, 0x2E, 2, 0x2E, 3])])" by (simp add: demo_answers_def)
  have i: "inj (oe_b64url demo_oidc)"
    by (simp add: demo_oidc_def) (metis (no_types, lifting) injI inj_mapI ucast_8_16)
  have n: "ascii_text (ec_networkId demo_enroll)" "ascii_text (rq_nonce ?q)"
    by (simp_all add: ascii_text_def demo_enroll_def demo_req_def)
  from token_admits_one_device [OF r r s s a a refl i n(1) n(2) n(2)] show ?thesis by simp
qed

end
