(* ===== verification/Spec2Isabelle.thy ===== *)
theory Spec2Isabelle
  imports EstablishFacts RatchetSync XferLink XferSession GroupTheorems DeliveryFacts RoomTheorems RoomChat Presence GroupRoom LightPeer RelayMesh UplinkFacts SessionFacts InboxTheorems SelfFacts DecoyFacts ActiveNet OidcTheorems
begin

text \<open>
  A model of Onchato's message path (TypeScript under \<^verbatim>\<open>src/impl\<close>) and of the relay it meets
  through (\<^verbatim>\<open>src/relay\<close>), with the theorems that make them correct.

  \<^bold>\<open>The program.\<close> Two identities hold X25519 keys. Both derive the same topic of a relay network
  for a day (\<^verbatim>\<open>rendezvous.ts\<close>, \<^verbatim>\<open>presence.ts\<close>), announce themselves there (\<^verbatim>\<open>announce.ts\<close>), run the
  EH-2 handshake (\<^verbatim>\<open>eh2/handshake.ts\<close>) and converse over a double ratchet (\<^verbatim>\<open>eh2/ratchet.ts\<close>). The
  room (\<^verbatim>\<open>room.ts\<close>) decides which handshake wins, which peer is alive and what was delivered; a
  content object (\<^verbatim>\<open>envelope.ts\<close>) is what is sealed. Groups (\<^verbatim>\<open>group.ts\<close>, \<^verbatim>\<open>senderkey.ts\<close>,
  \<^verbatim>\<open>grouproom.ts\<close>) distribute sender keys over those conversations and send on a topic of their
  own. Files go encrypted in chunks (\<^verbatim>\<open>filecrypto.ts\<close>) or directly (\<^verbatim>\<open>xfer.ts\<close>, \<^verbatim>\<open>xfer-session.ts\<close>). A
  light client reaches the network through one relay with pick and push frames (\<^verbatim>\<open>net/light.ts\<close>,
  \<^verbatim>\<open>pick.mjs\<close>, \<^verbatim>\<open>relay.mjs\<close>).

  \<^bold>\<open>How the code is written here.\<close> A class or closure is a record and one function per method or
  handler that takes the state and returns the effects and the new state; an effect is a value
  in a list, in the order the code performs it. A raise or a rejected promise is a constructor of
  an error type in \<open>Inl\<close>, an early return a branch. An \<open>await\<close> between which other handlers can
  run splits a handler into steps; where the code runs on without one, the steps are one
  function. A \<open>Map\<close> or \<open>Set\<close> whose order is observable is an association list or a list in
  insertion order (\<open>jmap\<close>), a byte array a list of 8-bit words, a string a list of UTF-16 units
  (\<open>jstr\<close>), an int32 or uint32 a 32-bit word, a safe integer an \<open>int\<close> with the bound stated where
  the code depends on it.

  \<^bold>\<open>Parameters.\<close> WebCrypto and ML-KEM are a \<open>crypto\<close> record and key records of functions
  (\<open>Crypto\<close>, \<open>Handshake\<close>). What the theorems need of them is a named hypothesis: \<open>aead_opens\<close> (what is
  sealed opens), \<open>aead_tagged\<close> (a sealed text is longer by the tag), and that two key pairs agree. No
  hypothesis says that something cannot be forged: the authenticity theorems say which tag was
  verified under which key. JSON and base64 codecs, the publish of a library and the clock are
  arguments as well.

  \<^bold>\<open>Theories.\<close>
  \<^item> \<open>Prelude\<close>, \<open>Machines\<close>, \<open>JsValue\<close>, \<open>JsText\<close>, \<open>Utf8\<close>: byte and word lemmas, insertion-ordered maps,
    errors in sequence, the contracts as locales (\<open>codec\<close>, \<open>keyed_store\<close>, \<open>machine\<close>), JSON values, UTF-16 and
    UTF-8 text.
  \<^item> \<open>Wire\<close>, \<open>Handshake\<close>, \<open>Establish\<close>, \<open>EstablishFacts\<close>: \<^verbatim>\<open>eh2/wire.ts\<close>, \<^verbatim>\<open>handshake.ts\<close>, \<^verbatim>\<open>establish.ts\<close>. The
    frames are canonical; two honest parties come to the same key; a session on either side rests
    on a verified tag.
  \<^item> \<open>SkippedKeys\<close>, \<open>RatchetHeader\<close>, \<open>Ratchet\<close>, \<open>RatchetSafety\<close>, \<open>RatchetSync\<close>: \<^verbatim>\<open>eh2/ratchet.ts\<close>. The store of
    skipped keys is bounded, a frame that fails changes nothing, a conversation is read in full, a
    frame is read once.
  \<^item> \<open>SenderKey\<close>, \<open>GroupFacts\<close>, \<open>GroupSession\<close>, \<open>GroupManager\<close>, \<open>GroupAuthority\<close>, \<open>GroupTheorems\<close>, \<open>GroupRoom\<close>:
    \<^verbatim>\<open>senderkey.ts\<close>, \<^verbatim>\<open>group.ts\<close>, \<^verbatim>\<open>grouproom.ts\<close>. Whose distribution can move a group, that its admin
    stays, that what is read was tagged, that a group message is shown to a member.
  \<^item> \<open>Calendar\<close>, \<open>Rendezvous\<close>, \<open>Announce\<close>, \<open>Presence\<close>: \<^verbatim>\<open>time.ts\<close>, \<^verbatim>\<open>derive.ts\<close>, \<^verbatim>\<open>rendezvous.ts\<close>,
    \<^verbatim>\<open>origin.ts\<close>, \<^verbatim>\<open>announce.ts\<close>, \<^verbatim>\<open>presence.ts\<close>. A topic names its material, two clocks within the guard
    meet, the dot follows the watches.
  \<^item> \<open>Room\<close>, \<open>RoomFacts\<close>, \<open>RoomTheorems\<close>, \<open>Delivery\<close>, \<open>DeliveryFacts\<close>, \<open>Envelope\<close>, \<open>RoomChat\<close>: \<^verbatim>\<open>room.ts\<close>,
    \<^verbatim>\<open>envelope.ts\<close>, \<^verbatim>\<open>quote.ts\<close>, parts of \<^verbatim>\<open>mentions.ts\<close>. The books of a room under every handler, when a
    ratchet is given up, crossing openings, retries, confirmation, and a message confirmed end to end.
  \<^item> \<open>FileCrypto\<close>, \<open>Xfer\<close>, \<open>XferLink\<close>, \<open>XferSession\<close>: \<^verbatim>\<open>filecrypto.ts\<close>, \<^verbatim>\<open>xfer.ts\<close>, \<^verbatim>\<open>xfer-session.ts\<close>. Files read
    back in place, a transfer between the two ends completes under any order of actions.
  \<^item> \<open>PickFrame\<close>, \<open>Picks\<close>, \<open>Load\<close>, \<open>RelayNode\<close>, \<open>RelayFacts\<close>, \<open>RelayTheorems\<close>, \<open>RelayMesh\<close>, \<open>LightPeer\<close>: \<^verbatim>\<open>pick.mjs\<close>,
    \<^verbatim>\<open>quota.mjs\<close>, \<^verbatim>\<open>limits.mjs\<close>, \<^verbatim>\<open>load.mjs\<close>, \<^verbatim>\<open>nodepick.ts\<close>, \<^verbatim>\<open>relay.mjs\<close>, \<^verbatim>\<open>topics.mjs\<close>, \<^verbatim>\<open>allowlist.mjs\<close>,
    \<^verbatim>\<open>net/light.ts\<close>. The registry refines a relation between peers, topics and streams; a holder hears
    what is published; the books of the relay; when a client moves to another node.
  \<^item> \<open>Uplink\<close>, \<open>UplinkFacts\<close>, \<open>Session\<close>, \<open>SessionFacts\<close>: the session of \<^verbatim>\<open>core.ts\<close>: the link to a relay that comes
    back by itself and is hung up only for a reason, and the watches, conversations and topics that
    share the node's subscriptions.
  \<^item> \<open>Knock\<close>, \<open>Inbox\<close>, \<open>InboxFacts\<close>, \<open>InboxTheorems\<close>: \<^verbatim>\<open>knock.ts\<close>, \<^verbatim>\<open>inbox.ts\<close>. A knock on a published invite
    arrives cut to its budget; the decoy schedule keeps the topic from the relay's eviction through a day;
    the caps per minute hold.
  \<^item> \<open>SelfSession\<close>, \<open>SelfFacts\<close>, \<open>Decoys\<close>, \<open>DecoyFacts\<close>: \<^verbatim>\<open>selfsession.ts\<close>, \<^verbatim>\<open>decoy.ts\<close>. Two windows of one
    identity both stand down, a session is told of a takeover once and for a reason; the decoys are at
    most eight and yield to a refused topic.
  \<^item> \<open>Cid\<close>, \<open>NodeList\<close>, \<open>Manifest\<close>, \<open>NetProfile\<close>, \<open>NetRegistry\<close>, \<open>NetFacts\<close>, \<open>NetDemo\<close>, \<open>NetTheorems\<close>, \<open>ActiveNet\<close>:
    \<^verbatim>\<open>cid.ts\<close>, \<^verbatim>\<open>nodelist.ts\<close>, \<^verbatim>\<open>manifest.ts\<close>, \<^verbatim>\<open>netprofile.ts\<close>, \<^verbatim>\<open>network.ts\<close>, \<^verbatim>\<open>activenet.ts\<close>. The newest
    manifest that verifies is kept; a known network keeps its root key and its sequence number never
    goes back; one current source is enough; a pointer names the file; a list the person edited stays.
    \<open>NetDemo\<close> is a platform the witnesses evaluate on.
  \<^item> \<open>Enroll\<close>, \<open>EnrollFacts\<close>, \<open>EnrollTheorems\<close>, \<open>Oidc\<close>, \<open>OidcTheorems\<close>: \<^verbatim>\<open>enroll.mjs\<close>, \<^verbatim>\<open>oidc.mjs\<close>. A device
    is put on the list the relay reads only for a reason, a code and a sign-in admit one device, and the
    number of guesses is bounded under any overlap of requests and any restarts.
  This theory joins the components: \<open>handshake_to_conversation\<close>.

  \<^bold>\<open>Bounds and termination.\<close> Loops over data are structural or have a measure; no function of the
  model takes fuel. Runs (of a conversation, a link, a room, a relay) are folds over a list of
  actions of any length and order, so a property of a run is one of every interleaving the
  handlers allow. A transfer is shown to finish by a measure on the link (\<open>XferLink\<close>).

  \<^bold>\<open>Not modelled.\<close> The user interface and its text (\<^verbatim>\<open>web/src\<close>), storage of profiles and keys on a
  device, the transports below pubsub (WebRTC, libp2p), the command-line client's terminal and
  files, the relay's metrics and Redis cache, the HTTP around enrolment, and test programs: they
  move data in and out and hold none of the rules above. GossipSub is a library: a subscription is
  a member of a list and a published message reaches what the code hands it to. The relay's own
  load percentage is a measurement of the host and an argument here.
\<close>

subsection \<open>Across components\<close>

lemma agreed_session_converses:
  assumes h: "honest_pair C cI cR pq ekI eR"
    and t: "0 \<le> t1" "t1 \<le> MAX_SAFE_INTEGER" "0 \<le> fe_now eR" "fe_now eR \<le> MAX_SAFE_INTEGER"
      "\<bar>fe_now eR - t1\<bar> \<le> MAX_SKEW_MS" "\<bar>fe_now eI - fe_now eR\<bar> \<le> MAX_SKEW_MS"
    and s: "script_ok ekI (dh_pub (fe_ekR eR)) ts" "length ts < 2 ^ 32"
    and C: "aead_opens C" "aead_tagged C" "0 \<le> rc_maxSkip cfg"
  shows "\<exists>m1 m2 m3 sI sR sI' sR' rI rR.
     start_initiator C cI pq ekI t1 = Inr ([m1], sI)
     \<and> feed C cR eR (snd start_responder) m1 = (Inr (Some m2), sR)
     \<and> feed C cI eI sI m2 = (Inr (Some m3), sI') \<and> feed C cR eR' sR m3 = (Inr None, sR')
     \<and> es_session sI' = Resolved rI \<and> es_session sR' = Resolved rR
     \<and> fst (converse C cfg ts (ratchetFrom C rI u1, ratchetFrom C rR u2)) = map (\<lambda>t. Inr (Some (tn_text t))) ts"
proof -
  obtain m1 m2 m3 sI sR sI' sR' rI rR where e:
      "start_initiator C cI pq ekI t1 = Inr ([m1], sI)" "feed C cR eR (snd start_responder) m1 = (Inr (Some m2), sR)"
      "feed C cI eI sI m2 = (Inr (Some m3), sI')" "feed C cR eR' sR m3 = (Inr None, sR')"
      "es_session sI' = Resolved rI" "es_session sR' = Resolved rR"
    and r: "hs_sk rI = hs_sk rR" "hs_firstStepIkm rI = hs_firstStepIkm rR" "hs_role rI = Initiator" "hs_role rR = Responder"
      "hs_ekSelf rI = Some ekI" "hs_ekPeerPub rI = dh_pub (fe_ekR eR)" "hs_ekPeerPub rR = dh_pub ekI"
    using exchange_agrees [OF h t, of eR'] by blast
  have "length (dh_pub (fe_ekR eR)) = 32" using h by (simp add: honest_pair_def)
  from conversation_delivered [OF r(1,2,3,4,5,7,6) this s C, of u1 u2] e show ?thesis by blast
qed

text \<open>
  C1: from first frame to last message. Two honest parties who exchange their three frames both
  come to a session, and the ratchets built from the two sessions read every message of any
  script, in order.
\<close>
theorem handshake_to_conversation:
  assumes "honest_pair C cI cR pq ekI eR"
    and "0 \<le> t1" "t1 \<le> MAX_SAFE_INTEGER" "0 \<le> fe_now eR" "fe_now eR \<le> MAX_SAFE_INTEGER"
      "\<bar>fe_now eR - t1\<bar> \<le> MAX_SKEW_MS" "\<bar>fe_now eI - fe_now eR\<bar> \<le> MAX_SKEW_MS"
    and "script_ok ekI (dh_pub (fe_ekR eR)) ts" "length ts < 2 ^ 32"
    and "aead_opens C" "aead_tagged C" "0 \<le> rc_maxSkip cfg"
  shows "\<exists>m1 m2 m3 sI sR sI' sR' rI rR.
     start_initiator C cI pq ekI t1 = Inr ([m1], sI)
     \<and> feed C cR eR (snd start_responder) m1 = (Inr (Some m2), sR)
     \<and> feed C cI eI sI m2 = (Inr (Some m3), sI') \<and> feed C cR eR' sR m3 = (Inr None, sR')
     \<and> es_session sI' = Resolved rI \<and> es_session sR' = Resolved rR
     \<and> fst (converse C cfg ts (ratchetFrom C rI u1, ratchetFrom C rR u2)) = map (\<lambda>t. Inr (Some (tn_text t))) ts"
  using assms by (rule agreed_session_converses)

theorem handshake_to_conversation_witness:
  "\<exists>m1 m2 m3 sI sR sI' sR' rI rR.
     start_initiator demo_crypto demo_cI (demo_kem 2) (demo_dh 3) 1000 = Inr ([m1], sI)
     \<and> feed demo_crypto demo_cR (demo_feed 5 1000) (snd start_responder) m1 = (Inr (Some m2), sR)
     \<and> feed demo_crypto demo_cI (demo_feed 0 1500) sI m2 = (Inr (Some m3), sI')
     \<and> feed demo_crypto demo_cR (demo_feed 0 2000) sR m3 = (Inr None, sR')
     \<and> es_session sI' = Resolved rI \<and> es_session sR' = Resolved rR
     \<and> fst (converse demo_crypto default_cfg demo_script (ratchetFrom demo_crypto rI 0, ratchetFrom demo_crypto rR 0))
       = [Inr (Some [10]), Inr (Some [11]), Inr (Some [12]), Inr (Some [13])]"
proof -
  have h: "honest_pair demo_crypto demo_cI demo_cR (demo_kem 2) (demo_dh 3) (demo_feed 5 1000)"
    by (simp add: honest_pair_def demo_crypto_lengths demo_cI_def demo_cR_def demo_feed_def demo_dh_agree demo_kem_def)
      (simp add: demo_dh_def)
  have s: "script_ok (demo_dh 3) (dh_pub (fe_ekR (demo_feed 5 1000))) demo_script" "length demo_script < 2 ^ 32"
    using demo_script_ok by (simp_all add: demo_feed_def demo_dh_def demo_script_def)
  have c: "0 \<le> rc_maxSkip default_cfg" by (simp add: default_cfg_def MAX_SKIP_PER_CHAIN_def)
  show ?thesis
    using handshake_to_conversation [OF h _ _ _ _ _ _ s demo_aead_opens demo_aead_tagged c, of 1000 "demo_feed 0 1500" "demo_feed 0 2000" 0 0]
    by (simp add: demo_feed_def MAX_SAFE_INTEGER_def MAX_SKEW_MS_def demo_script_def demo_turn_def)
qed

end
